(* ===== verification/Prelude.thy ===== *)
theory Prelude
  imports Main "HOL-Library.Word" "HOL-Library.Multiset"
begin

text \<open>
  Shared vocabulary of the development: the widths of the C integer types, the errno values that
  the driver and the library return, the \<open>ALIGN\<close>, \<open>min\<close> and power-of-two idioms, and the
  arithmetic of pointers that wrap around a power-of-two ring.

  A ring pointer is masked with \<open>size - 1\<close> throughout the program.  The collection
  \<open>ring_simps\<close> holds the equations that move such masks through additions and subtractions,
  the collection \<open>ring_unat\<close> the translations of masked word terms to arithmetic on naturals.
\<close>

unbundle bit_operations_syntax

named_theorems ring_simps "moving a ring mask through word arithmetic"
named_theorems ring_unat "masked word terms read as natural numbers"

section \<open>C integer types and errno values\<close>

type_synonym u8 = "8 word"
type_synonym u16 = "16 word"
type_synonym u32 = "32 word"
type_synonym u64 = "64 word"

text \<open>Return codes are C ints: 0, a positive errno in user space, a negative one in the kernel.\<close>

abbreviation (input) EPERM :: int where "EPERM \<equiv> 1"
abbreviation (input) ENOENT :: int where "ENOENT \<equiv> 2"
abbreviation (input) ENXIO :: int where "ENXIO \<equiv> 6"
abbreviation (input) EBADF :: int where "EBADF \<equiv> 9"
abbreviation (input) EAGAIN :: int where "EAGAIN \<equiv> 11"
abbreviation (input) ENOMEM :: int where "ENOMEM \<equiv> 12"
abbreviation (input) EFAULT :: int where "EFAULT \<equiv> 14"
abbreviation (input) EBUSY :: int where "EBUSY \<equiv> 16"
abbreviation (input) EEXIST :: int where "EEXIST \<equiv> 17"
abbreviation (input) ENODEV :: int where "ENODEV \<equiv> 19"
abbreviation (input) EINVAL :: int where "EINVAL \<equiv> 22"
abbreviation (input) ENOTTY :: int where "ENOTTY \<equiv> 25"
abbreviation (input) ENOSYS :: int where "ENOSYS \<equiv> 38"
abbreviation (input) EBADFD :: int where "EBADFD \<equiv> 77"
abbreviation (input) ETIMEDOUT :: int where "ETIMEDOUT \<equiv> 110"
abbreviation (input) EALREADY :: int where "EALREADY \<equiv> 114"
abbreviation (input) EINPROGRESS :: int where "EINPROGRESS \<equiv> 115"

text \<open>The page size of the platforms the driver runs on.\<close>

definition PAGE_SIZE :: u64 where
  "PAGE_SIZE = 4096"

definition ALIGN :: "'a::len word \<Rightarrow> 'a word \<Rightarrow> 'a word" where
  "ALIGN x a = (x + (a - 1)) AND NOT (a - 1)"

definition ispow2 :: "u64 \<Rightarrow> bool" where
  "ispow2 val = ((val - 1) AND val = 0)"

section \<open>Lists\<close>

text \<open>Updating one item of a kernel list without changing what is observed of it.\<close>

lemma map_list_update_same:
  "f x = f (xs ! i) \<Longrightarrow> map f (xs[i := x]) = map f xs"
  by (metis list_update_beyond list_update_id map_update nth_map not_le)

section \<open>Ring arithmetic\<close>

lemmas mask_through_arith [ring_simps] = mask_eqs(1-4) mask_eqs(7) mask_eqs(8)

lemma and_mask_idem [simp, ring_simps]:
  "(x AND mask k) AND mask k = x AND mask k" for x :: "'a::len word"
  by (simp add: and.assoc)

lemma unat_and_mask [ring_unat]:
  "unat (x AND mask k) = unat x mod 2 ^ k" for x :: "'a::len word"
proof -
  have "unat (x AND mask k) = take_bit k (unat x)"
    by (simp only: take_bit_eq_mask [symmetric] unsigned_take_bit_eq)
  then show ?thesis
    by (simp only: take_bit_eq_mod)
qed

lemma and_mask_less:
  "unat (x AND mask k) < 2 ^ k" for x :: "'a::len word"
  by (simp add: unat_and_mask)

lemma unat_mask [ring_unat]:
  "k \<le> LENGTH('a) \<Longrightarrow> unat (mask k :: 'a::len word) = 2 ^ k - 1"
proof -
  assume "k \<le> LENGTH('a)"
  then have "uint (mask k :: 'a word) = mask k"
    by (simp only: uint_mask_eq min.absorb2)
  also have "\<dots> = 2 ^ k - 1"
    by (rule mask_eq_exp_minus_1)
  finally have "int (unat (mask k :: 'a word)) = int (2 ^ k - 1)"
    by (simp add: of_nat_diff)
  then show ?thesis by (simp only: of_nat_eq_iff)
qed

lemma and_mask_eq_self:
  "unat x < 2 ^ k \<Longrightarrow> x AND mask k = x" for x :: "'a::len word"
  by (rule word_unat_eq_iff [THEN iffD2]) (simp add: unat_and_mask)

text \<open>The distance from \<open>a\<close> to \<open>b\<close> added to \<open>a\<close> leads to \<open>b\<close> on the ring.\<close>

lemma ring_add_dist [ring_simps]:
  "(a + ((b - a) AND mask k)) AND mask k = b AND mask k" for a b :: "'a::len word"
  by (simp add: mask_eqs)

lemma ring_dist_add:
  "unat l < 2 ^ k \<Longrightarrow> (((a + l) AND mask k) - a) AND mask k = l" for a l :: "'a::len word"
  by (simp add: mask_eqs and_mask_eq_self)

lemma ring_dist_zero_iff:
  "(a - b) AND mask k = 0 \<longleftrightarrow> a AND mask k = b AND mask k" for a b :: "'a::len word"
proof
  assume "(a - b) AND mask k = 0"
  then have "(b + ((a - b) AND mask k)) AND mask k = b AND mask k" by simp
  then show "a AND mask k = b AND mask k" by (simp only: ring_add_dist)
next
  assume "a AND mask k = b AND mask k"
  then have "((a AND mask k) - (b AND mask k)) AND mask k = 0" by simp
  then show "(a - b) AND mask k = 0" by (simp only: mask_eqs)
qed

subsection \<open>Distances on a ring of pointers\<close>

definition ring_dist :: "nat \<Rightarrow> u32 \<Rightarrow> u32 \<Rightarrow> nat" where
  "ring_dist k a b = unat ((b - a) AND mask k)"

lemma ring_dist_less: "k \<le> 32 \<Longrightarrow> ring_dist k a b < 2 ^ k"
  using and_mask_less [of "b - a" k] by (simp add: ring_dist_def)

lemma ring_dist_self [simp]: "ring_dist k a a = 0"
  by (simp add: ring_dist_def)

lemma ring_dist_split:
  assumes "ring_dist k a b \<le> ring_dist k a c"
  shows "ring_dist k b c = ring_dist k a c - ring_dist k a b"
proof -
  have "(c - b) AND mask k = ((c - a) - (b - a)) AND mask k" by simp
  also have "\<dots> = (((c - a) AND mask k) - ((b - a) AND mask k)) AND mask k" by (simp add: mask_eqs)
  finally have eq: "(c - b) AND mask k = (((c - a) AND mask k) - ((b - a) AND mask k)) AND mask k" .
  have le: "(b - a) AND mask k \<le> (c - a) AND mask k" using assms by (simp add: ring_dist_def word_le_nat_alt)
  have "unat (((c - a) AND mask k) - ((b - a) AND mask k)) = ring_dist k a c - ring_dist k a b"
    using le by (simp add: unat_sub ring_dist_def)
  moreover have "ring_dist k a c < 2 ^ k" using and_mask_less [of "c - a" k] by (simp add: ring_dist_def)
  ultimately have "unat (((c - a) AND mask k) - ((b - a) AND mask k)) < 2 ^ k" by simp
  then have "(((c - a) AND mask k) - ((b - a) AND mask k)) AND mask k = ((c - a) AND mask k) - ((b - a) AND mask k)"
    by (rule and_mask_eq_self)
  with eq le show ?thesis by (simp add: ring_dist_def unat_sub)
qed

lemma ring_dist_advance:
  assumes "ring_dist k a b + 1 < 2 ^ k" and "k \<le> 32"
  shows "ring_dist k a (b + 1) = ring_dist k a b + 1"
proof -
  have "(b + 1 - a) AND mask k = (((b - a) AND mask k) + 1) AND mask k"
    by (simp add: mask_eqs) (simp add: algebra_simps)
  moreover have "unat (((b - a) AND mask k) + 1) = ring_dist k a b + 1"
  proof -
    have "(2 :: nat) ^ k \<le> 2 ^ 32" using assms(2) by (rule power_increasing) simp
    then show ?thesis using assms(1) by (simp add: ring_dist_def unat_word_ariths)
  qed
  moreover have "(((b - a) AND mask k) + 1) AND mask k = ((b - a) AND mask k) + 1"
    using calculation(2) assms(1) by (intro and_mask_eq_self) simp
  ultimately show ?thesis by (simp add: ring_dist_def)
qed

lemma ring_dist_add_back: "k \<le> 32 \<Longrightarrow> (a + of_nat (ring_dist k a b)) AND mask k = b AND mask k"
  by (simp add: ring_dist_def mask_eqs)

lemma ring_dist_masked [simp]: "ring_dist k a (b AND mask k) = ring_dist k a b"
  by (simp add: ring_dist_def mask_eqs)

lemma ring_dist_index:
  assumes "k \<le> 32"
  shows "(unat a + ring_dist k a b) mod 2 ^ k = unat b mod 2 ^ k"
proof -
  have "unat ((a + of_nat (ring_dist k a b)) AND mask k) = unat (b AND mask k)"
    using ring_dist_add_back [OF assms, of a b] by simp
  then have "unat (a + of_nat (ring_dist k a b)) mod 2 ^ k = unat b mod 2 ^ k" by (simp add: unat_and_mask)
  moreover have "ring_dist k a b < 2 ^ 32" unfolding ring_dist_def using unsigned_less [of "(b - a) AND mask k", where 'a = nat] by simp
  moreover have "unat (a + of_nat n) mod 2 ^ k = (unat a + n) mod 2 ^ k" if "n < 2 ^ 32" for n
    using that assms by (simp add: unat_word_ariths unat_of_nat le_imp_power_dvd mod_mod_cancel flip: power_numeral)
  ultimately show ?thesis by simp
qed

lemma ring_dist_forward:
  assumes "ring_dist k a b + n < 2 ^ k" and "k \<le> 32"
  shows "ring_dist k a (b + of_nat n) = ring_dist k a b + n"
  using assms(1)
proof (induction n)
  case (Suc n)
  then have "ring_dist k a (b + of_nat n) = ring_dist k a b + n" by simp
  with ring_dist_advance [of k a "b + of_nat n"] Suc.prems assms(2) show ?case by (simp add: algebra_simps)
qed simp

lemma ring_dist_trans:
  assumes "ring_dist k a b \<le> ring_dist k a s" and "ring_dist k b c \<le> ring_dist k b s" and "k \<le> 32"
  shows "ring_dist k a c = ring_dist k a b + ring_dist k b c" "ring_dist k a c \<le> ring_dist k a s"
proof -
  have le: "ring_dist k a b + ring_dist k b c \<le> ring_dist k a s"
    using assms(1,2) ring_dist_split [OF assms(1)] by simp
  then have "ring_dist k a b + ring_dist k b c < 2 ^ k" using ring_dist_less [OF assms(3), of a s] by simp
  from ring_dist_forward [OF this assms(3)]
  have "ring_dist k a ((b + of_nat (ring_dist k b c)) AND mask k) = ring_dist k a b + ring_dist k b c" by simp
  then show "ring_dist k a c = ring_dist k a b + ring_dist k b c"
    unfolding ring_dist_add_back [OF assms(3)] by simp
  with le show "ring_dist k a c \<le> ring_dist k a s" by simp
qed

lemma aligned_add:
  "a AND mask k = 0 \<Longrightarrow> b AND mask k = 0 \<Longrightarrow> (a + b) AND mask k = 0" for a b :: "'a::len word"
proof -
  assume a: "a AND mask k = 0" and b: "b AND mask k = 0"
  have "(a + b) AND mask k = ((a AND mask k) + b) AND mask k" by (simp add: mask_eqs(1))
  with a b show ?thesis by simp
qed

lemma scast_of_nat_u32: "n < 2 ^ 31 \<Longrightarrow> (scast (of_nat n :: u32) :: u64) = of_nat n"
proof -
  assume n: "n < 2 ^ 31"
  then have "sint (of_nat n :: u32) = int n"
    by (simp add: sint_uint unsigned_of_nat take_bit_nat_eq_self signed_take_bit_int_eq_self)
  then show ?thesis by (metis of_int_of_nat_eq of_int_sint)
qed

lemma unat_and_not_mask: "unat (y AND NOT (mask k)) = unat y div 2 ^ k * 2 ^ k" for y :: "'a::len word"
proof -
  have "(y AND NOT (mask k)) + (y AND mask k) = (y AND NOT (mask k)) OR (y AND mask k)"
    by (rule disjunctive_add_eq_or) (rule bit_word_eqI, simp add: bit_simps)
  also have "\<dots> = y" by (rule bit_word_eqI) (auto simp: bit_simps)
  finally have "y AND NOT (mask k) = y - (y AND mask k)" by (simp add: eq_diff_eq)
  moreover have "y AND mask k \<le> y" by (simp add: word_le_nat_alt unat_and_mask)
  ultimately have "unat (y AND NOT (mask k)) = unat y - unat y mod 2 ^ k" by (simp add: unat_sub unat_and_mask)
  then show ?thesis by (simp add: minus_mod_eq_div_mult)
qed

end
