(* ===== verification/Lock.thy ===== *)
theory Lock
  imports Prelude
begin

text \<open>
  The component lock table of a card (\<open>drivers/kernel/drivers/nfb/lock.c\<close>).  An application locks a
  set of feature bits of a component, named by its device-tree path.  The table is the linked
  list \<open>lock_list\<close>; all operations run under \<open>lock_mutex\<close> and are therefore atomic steps.

  The request carries 64 feature bits, but an item stores them in a C \<open>int\<close>: the conversions that
  the compiler inserts (sign extension for the test, truncation for the store) are kept.

  The abstract view is the relation \<open>holds ls app path b\<close>; the lemmas show what each operation does
  to it and that no two applications ever hold the same bit of the same component.
\<close>

section \<open>Data and operations\<close>

type_synonym app = nat

record nfb_lock =
  lock_path :: string
  lock_features :: u64

record nfb_lock_item =
  item_app :: app
  item_path :: string
  item_features :: u32

type_synonym lock_list = "nfb_lock_item list"

definition MAX_FDT_PATH_LENGTH :: nat where
  "MAX_FDT_PATH_LENGTH = 512"

definition nfb_lock_probe :: "int \<times> lock_list" where
  "nfb_lock_probe = (0, [])"

definition nfb_lock_remove :: "lock_list \<Rightarrow> int \<times> lock_list" where
  "nfb_lock_remove ls = (0, [])"

definition nfb_lock_release :: "app \<Rightarrow> lock_list \<Rightarrow> lock_list" where
  "nfb_lock_release app ls = filter (\<lambda>item. item_app item \<noteq> app) ls"

text \<open>The scan of \<open>nfb_lock_try_lock\<close>: \<open>-EBUSY\<close>, or the last item of this application, by index.\<close>

fun try_lock_scan :: "app \<Rightarrow> nfb_lock \<Rightarrow> lock_list \<Rightarrow> nat \<Rightarrow> nat option \<Rightarrow> int + nat option" where
  "try_lock_scan app lock [] i temp = Inr temp"
| "try_lock_scan app lock (item # items) i temp =
     (if item_path item = lock_path lock then
        if scast (item_features item) AND lock_features lock \<noteq> 0 then Inl (- EBUSY)
        else try_lock_scan app lock items (Suc i) (if item_app item = app then Some i else temp)
      else try_lock_scan app lock items (Suc i) temp)"

definition or_features :: "u64 \<Rightarrow> nfb_lock_item \<Rightarrow> nfb_lock_item" where
  "or_features fs item = item\<lparr>item_features := ucast (scast (item_features item) OR fs)\<rparr>"

definition nfb_lock_try_lock :: "bool \<Rightarrow> app \<Rightarrow> nfb_lock \<Rightarrow> lock_list \<Rightarrow> int \<times> lock_list" where
  "nfb_lock_try_lock kmalloc_ok app lock ls =
     (case try_lock_scan app lock ls 0 None of
        Inl e \<Rightarrow> (e, ls)
      | Inr None \<Rightarrow>
          (if \<not> kmalloc_ok then (- ENOMEM, ls)
           else (0, or_features (lock_features lock)
                      \<lparr>item_app = app, item_path = lock_path lock, item_features = 0\<rparr> # ls))
      | Inr (Some i) \<Rightarrow> (0, ls[i := or_features (lock_features lock) (ls ! i)]))"

text \<open>The first item of the application for the path loses the features; an empty item is deleted.\<close>

fun nfb_lock_unlock :: "app \<Rightarrow> nfb_lock \<Rightarrow> lock_list \<Rightarrow> int \<times> lock_list" where
  "nfb_lock_unlock app lock [] = (- ENODEV, [])"
| "nfb_lock_unlock app lock (item # items) =
     (if item_app item = app \<and> item_path item = lock_path lock then
        let features = ucast (scast (item_features item) AND NOT (lock_features lock)) in
        (0, if features = 0 then items else item\<lparr>item_features := features\<rparr> # items)
      else (case nfb_lock_unlock app lock items of (ret, items') \<Rightarrow> (ret, item # items')))"

datatype lock_cmd = NFB_LOCK_IOC_TRY_LOCK | NFB_LOCK_IOC_UNLOCK | LOCK_IOC_OTHER

text \<open>
  \<open>user_lock\<close> is what \<open>copy_from_user\<close> delivers (None for a fault); its path is the result of reading
  the user string (None for a fault).  \<open>strncpy_from_user\<close> returns the length, capped at the bound.
\<close>

definition nfb_lock_ioctl ::
  "bool \<Rightarrow> app \<Rightarrow> lock_cmd \<Rightarrow> (string option \<times> u64) option \<Rightarrow> lock_list \<Rightarrow> int \<times> lock_list" where
  "nfb_lock_ioctl kmalloc_ok app cmd user_lock ls =
     (if cmd = LOCK_IOC_OTHER then (- ENOTTY, ls)
      else case user_lock of
        None \<Rightarrow> (- EFAULT, ls)
      | Some (None, _) \<Rightarrow> (- EINVAL, ls)
      | Some (Some path, features) \<Rightarrow>
          (if MAX_FDT_PATH_LENGTH \<le> length path \<or> length path = 0 then (- EINVAL, ls)
           else
             let lock = \<lparr>lock_path = path, lock_features = features\<rparr> in
             if cmd = NFB_LOCK_IOC_TRY_LOCK then nfb_lock_try_lock kmalloc_ok app lock ls
             else nfb_lock_unlock app lock ls))"

section \<open>Abstract view, invariant and steps\<close>

definition holds :: "lock_list \<Rightarrow> app \<Rightarrow> string \<Rightarrow> nat \<Rightarrow> bool" where
  "holds ls app path b \<longleftrightarrow>
     (\<exists>item \<in> set ls. item_app item = app \<and> item_path item = path \<and> bit (item_features item) b)"

definition lock_inv :: "lock_list \<Rightarrow> bool" where
  "lock_inv ls \<longleftrightarrow>
     distinct (map (\<lambda>item. (item_app item, item_path item)) ls) \<and>
     (\<forall>a a' p b. holds ls a p b \<longrightarrow> holds ls a' p b \<longrightarrow> a = a')"

text \<open>Every interleaving of the lock operations of any number of applications.\<close>

inductive lock_reachable :: "lock_list \<Rightarrow> bool" where
  probe: "lock_reachable (snd nfb_lock_probe)"
| try_lock: "lock_reachable ls \<Longrightarrow> lock_reachable (snd (nfb_lock_try_lock ok app lock ls))"
| unlock: "lock_reachable ls \<Longrightarrow> lock_reachable (snd (nfb_lock_unlock app lock ls))"
| release: "lock_reachable ls \<Longrightarrow> lock_reachable (nfb_lock_release app ls)"

text \<open>The interface a client relies on: what the operations of one owner mean to the others.\<close>

datatype 'k lock_op = Acquire 'k | Unlock 'k | Release

locale feature_lock =
  fixes acquire :: "'o \<Rightarrow> 'k \<Rightarrow> 's \<Rightarrow> int \<times> 's"
    and unlock :: "'o \<Rightarrow> 'k \<Rightarrow> 's \<Rightarrow> int \<times> 's"
    and release :: "'o \<Rightarrow> 's \<Rightarrow> 's"
    and held :: "'s \<Rightarrow> 'o \<Rightarrow> 'r \<Rightarrow> bool"
    and claims :: "'k \<Rightarrow> 'r \<Rightarrow> bool"
  assumes acquire_held: "acquire ow k s = (0, s') \<Longrightarrow> held s' ow' r \<longleftrightarrow> held s ow' r \<or> ow' = ow \<and> claims k r"
    and acquire_free: "acquire ow k s = (0, s') \<Longrightarrow> claims k r \<Longrightarrow> \<not> held s ow' r"
    and acquire_error: "acquire ow k s = (e, s') \<Longrightarrow> e \<noteq> 0 \<Longrightarrow> s' = s"
    and unlock_other: "ow' \<noteq> ow \<Longrightarrow> held (snd (unlock ow k s)) ow' r = held s ow' r"
    and release_other: "ow' \<noteq> ow \<Longrightarrow> held (release ow s) ow' r = held s ow' r"
begin

primrec lock_step :: "'o \<times> 'k lock_op \<Rightarrow> 's \<Rightarrow> 's" where
  "lock_step (ow, act) = (case act of
     Acquire k \<Rightarrow> snd \<circ> acquire ow k | Unlock k \<Rightarrow> snd \<circ> unlock ow k | Release \<Rightarrow> release ow)"

lemma step_other_keeps:
  assumes "fst op \<noteq> ow" and "held s ow r"
  shows "held (lock_step op s) ow r"
proof (cases op)
  case (Pair ow' act)
  with assms have other: "ow \<noteq> ow'" by auto
  show ?thesis
  proof (cases act)
    case (Acquire k)
    obtain e s' where eq: "acquire ow' k s = (e, s')" by force
    then have "held s' ow r"
      using assms(2) acquire_held [of ow' k s s' ow r] acquire_error [of ow' k s e s']
      by (cases "e = 0") auto
    with eq Pair Acquire show ?thesis by simp
  qed (use Pair other assms(2) unlock_other release_other in auto)
qed

lemma steps_other_keep:
  "\<forall>op \<in> set ops. fst op \<noteq> ow \<Longrightarrow> held s ow r \<Longrightarrow> held (fold lock_step ops s) ow r"
  by (induction ops arbitrary: s) (auto intro: step_other_keeps)

lemma held_refuses:
  assumes "acquire ow k s = (0, s')" and "claims k r"
    and "\<forall>op \<in> set ops. fst op \<noteq> ow" and "claims k' r"
  shows "fst (acquire ow' k' (fold lock_step ops s')) \<noteq> 0"
proof
  let ?t = "fold lock_step ops s'"
  assume "fst (acquire ow' k' ?t) = 0"
  then obtain t' where "acquire ow' k' ?t = (0, t')"
    by (metis prod.collapse)
  then have "\<not> held ?t ow r" using assms(4) by (rule acquire_free)
  moreover have "held s' ow r" using assms(1,2) acquire_held by auto
  ultimately show False using assms(3) steps_other_keep by blast
qed

end

section \<open>Lemmas\<close>

lemma u32_bit_less: "bit (f :: u32) b \<Longrightarrow> b < 32"
  by (drule bit_imp_le_length) simp

lemma bit_scast_low: "b < 32 \<Longrightarrow> bit (scast (f :: u32) :: u64) b = bit f b"
  by (cases "b = 31") (auto simp: bit_simps min_def)

lemma bit_or_features [simp]:
  "bit (item_features (or_features fs item)) b \<longleftrightarrow>
     bit (item_features item) b \<or> b < 32 \<and> bit fs b"
  by (cases "b < 32") (auto simp: or_features_def bit_scast_low bit_or_iff bit_unsigned_iff dest: u32_bit_less)

lemma or_features_app_path [simp]:
  "item_app (or_features fs item) = item_app item"
  "item_path (or_features fs item) = item_path item"
  by (simp_all add: or_features_def)

lemma bit_unlocked_features:
  "bit (ucast (scast (f :: u32) AND NOT fs) :: u32) b \<longleftrightarrow> bit f b \<and> \<not> bit (fs :: u64) b"
  by (cases "b < 32")
    (auto simp: bit_scast_low bit_and_iff bit_not_iff bit_unsigned_iff dest: u32_bit_less)

lemma scast_conflict_low:
  assumes "bit (f :: u32) b" and "bit (fs :: u64) b"
  shows "scast f AND fs \<noteq> 0"
proof -
  from assms have "bit (scast f AND fs) b"
    by (simp add: bit_and_iff bit_scast_low u32_bit_less)
  then show ?thesis by auto
qed

lemma scan_Inr_no_conflict:
  "try_lock_scan app lock ls i temp = Inr t \<Longrightarrow> item \<in> set ls \<Longrightarrow>
   item_path item = lock_path lock \<Longrightarrow> scast (item_features item) AND lock_features lock = 0"
  by (induction app lock ls i temp rule: try_lock_scan.induct) (auto split: if_splits)

lemma scan_Inl:
  "try_lock_scan app lock ls i temp = Inl e \<Longrightarrow>
     e = - EBUSY \<and> (\<exists>item \<in> set ls. item_path item = lock_path lock \<and>
        scast (item_features item) AND lock_features lock \<noteq> 0)"
  by (induction app lock ls i temp rule: try_lock_scan.induct) (auto split: if_splits)

lemma scan_Some:
  "try_lock_scan app lock ls i temp = Inr (Some j) \<Longrightarrow>
     temp = Some j \<or>
     i \<le> j \<and> j < i + length ls \<and> item_app (ls ! (j - i)) = app \<and> item_path (ls ! (j - i)) = lock_path lock"
proof (induction app lock ls i temp rule: try_lock_scan.induct)
  case (2 app lock item items i temp)
  then show ?case
    by (auto split: if_splits simp: nth_Cons' Suc_le_eq)
qed simp

lemma scan_None:
  "try_lock_scan app lock ls i temp = Inr None \<Longrightarrow>
     temp = None \<and> (app, lock_path lock) \<notin> set (map (\<lambda>item. (item_app item, item_path item)) ls)"
  by (induction app lock ls i temp rule: try_lock_scan.induct) (auto split: if_splits)

lemma holds_simps [simp]:
  "\<not> holds [] app path b"
  "holds (item # ls) app path b \<longleftrightarrow>
     item_app item = app \<and> item_path item = path \<and> bit (item_features item) b \<or> holds ls app path b"
  by (auto simp: holds_def)


lemma lock_inv_Nil [simp]: "lock_inv []"
  by (simp add: lock_inv_def)

lemma lock_invD: "lock_inv ls \<Longrightarrow> holds ls a p b \<Longrightarrow> holds ls a' p b \<Longrightarrow> a = a'"
  by (auto simp: lock_inv_def)

text \<open>A successful try-lock adds exactly the requested low bits of the component to the caller.\<close>

lemma holds_append [simp]: "holds (ls @ ls') a p b \<longleftrightarrow> holds ls a p b \<or> holds ls' a p b"
  by (auto simp: holds_def)

lemma holds_list_update:
  assumes "i < length ls" and "item_app (ls ! i) = app" and "item_path (ls ! i) = path"
  shows "holds (ls[i := or_features fs (ls ! i)]) a p b \<longleftrightarrow>
     holds ls a p b \<or> a = app \<and> p = path \<and> b < 32 \<and> bit fs b"
proof -
  have "ls = take i ls @ ls ! i # drop (Suc i) ls"
    using assms(1) by (rule id_take_nth_drop)
  then have "holds ls a p b = holds (take i ls @ ls ! i # drop (Suc i) ls) a p b"
    by simp
  with assms show ?thesis
    by (auto simp: upd_conv_take_nth_drop)
qed

lemma holds_try_lock:
  assumes "nfb_lock_try_lock ok app lock ls = (0, ls')"
  shows "holds ls' a p b \<longleftrightarrow>
     holds ls a p b \<or> a = app \<and> p = lock_path lock \<and> b < 32 \<and> bit (lock_features lock) b"
  using assms
  by (auto simp: nfb_lock_try_lock_def holds_list_update split: sum.splits option.splits if_splits
      dest: scan_Some scan_Inl)

lemma try_lock_error_keeps:
  "nfb_lock_try_lock ok app lock ls = (e, ls') \<Longrightarrow> e \<noteq> 0 \<Longrightarrow> ls' = ls"
  by (auto simp: nfb_lock_try_lock_def split: sum.splits option.splits if_splits)

lemma try_lock_0_free:
  assumes "nfb_lock_try_lock ok app lock ls = (0, ls')" and "bit (lock_features lock) b"
  shows "\<not> holds ls a (lock_path lock) b"
proof
  assume "holds ls a (lock_path lock) b"
  then obtain item where item: "item \<in> set ls" "item_path item = lock_path lock"
      "bit (item_features item) b"
    by (auto simp: holds_def)
  obtain t where "try_lock_scan app lock ls 0 None = Inr t"
    using assms(1) by (auto simp: nfb_lock_try_lock_def split: sum.splits dest: scan_Inl)
  then have "scast (item_features item) AND lock_features lock = 0"
    using item(1,2) by (rule scan_Inr_no_conflict)
  with item(3) assms(2) show False by (auto dest: scast_conflict_low)
qed

lemma try_lock_keys:
  assumes "nfb_lock_try_lock ok app lock ls = (0, ls')"
    and "distinct (map (\<lambda>item. (item_app item, item_path item)) ls)"
  shows "distinct (map (\<lambda>item. (item_app item, item_path item)) ls')"
  using assms
  by (auto simp: nfb_lock_try_lock_def map_list_update_same split: sum.splits option.splits if_splits
      dest!: scan_Some scan_Inl scan_None)


lemma unlock_result:
  assumes "nfb_lock_unlock app lock ls = (e, ls')"
  shows "e = 0 \<or> e = - ENODEV \<and> ls' = ls \<and>
    (app, lock_path lock) \<notin> set (map (\<lambda>item. (item_app item, item_path item)) ls)"
  using assms
  by (induction app lock ls arbitrary: e ls' rule: nfb_lock_unlock.induct)
    (auto simp: Let_def split: if_splits prod.splits)

lemma unlock_keys:
  assumes "nfb_lock_unlock app lock ls = (e, ls')"
    and "distinct (map (\<lambda>item. (item_app item, item_path item)) ls)"
  shows "distinct (map (\<lambda>item. (item_app item, item_path item)) ls') \<and>
    set (map (\<lambda>item. (item_app item, item_path item)) ls') \<subseteq>
    set (map (\<lambda>item. (item_app item, item_path item)) ls)"
  using assms
proof (induction app lock ls arbitrary: e ls' rule: nfb_lock_unlock.induct)
  case (2 app lock item items)
  obtain e0 items' where rec: "nfb_lock_unlock app lock items = (e0, items')" by force
  show ?case
  proof (cases "item_app item = app \<and> item_path item = lock_path lock")
    case True
    with 2(2,3) show ?thesis by (auto simp: Let_def split: if_splits)
  next
    case False
    with 2(2) rec have "ls' = item # items'" by auto
    with 2(1)[OF False rec] 2(3) show ?thesis by auto
  qed
qed simp

text \<open>Unlocking removes the named bits of the component from the caller and nothing else.\<close>

lemma holds_unlock:
  assumes "nfb_lock_unlock app lock ls = (e, ls')"
    and "distinct (map (\<lambda>item. (item_app item, item_path item)) ls)"
  shows "holds ls' a p b \<longleftrightarrow>
    holds ls a p b \<and> \<not> (a = app \<and> p = lock_path lock \<and> bit (lock_features lock) b)"
  using assms
proof (induction app lock ls arbitrary: e ls' rule: nfb_lock_unlock.induct)
  case (2 app lock item items)
  obtain e0 items' where rec: "nfb_lock_unlock app lock items = (e0, items')" by force
  show ?case
  proof (cases "item_app item = app \<and> item_path item = lock_path lock")
    case True
    define fs where "fs = (ucast (scast (item_features item) AND NOT (lock_features lock)) :: u32)"
    have bits: "bit fs b \<longleftrightarrow> bit (item_features item) b \<and> \<not> bit (lock_features lock) b" for b
      unfolding fs_def by (rule bit_unlocked_features)
    have "ls' = (if fs = 0 then items else item\<lparr>item_features := fs\<rparr> # items)"
      using 2(2) True by (auto simp: fs_def Let_def)
    moreover have "\<not> holds items app (lock_path lock) b"
      using 2(3) True by (force simp: holds_def image_iff)
    ultimately show ?thesis
      using True bits [of b] by (auto split: if_splits)
  next
    case False
    with 2(2) rec have "ls' = item # items'" by auto
    with 2(1)[OF False rec] 2(3) False show ?thesis by auto
  qed
qed simp

lemma holds_release [simp]:
  "holds (nfb_lock_release app ls) a p b \<longleftrightarrow> holds ls a p b \<and> a \<noteq> app"
  by (auto simp: holds_def nfb_lock_release_def)

lemma lock_inv_try_lock: "lock_inv ls \<Longrightarrow> lock_inv (snd (nfb_lock_try_lock ok app lock ls))"
proof -
  assume inv: "lock_inv ls"
  obtain e ls' where eq: "nfb_lock_try_lock ok app lock ls = (e, ls')" by force
  show ?thesis
  proof (cases "e = 0")
    case True
    with eq have ok: "nfb_lock_try_lock ok app lock ls = (0, ls')" by simp
    have "a = a'" if "holds ls' a p b" "holds ls' a' p b" for a a' p b
      using that lock_invD [OF inv] try_lock_0_free [OF ok]
      by (auto simp: holds_try_lock [OF ok])
    with eq inv try_lock_keys [OF ok] show ?thesis by (simp add: lock_inv_def)
  next
    case False
    with eq inv show ?thesis by (auto dest: try_lock_error_keeps)
  qed
qed

lemma lock_inv_unlock: "lock_inv ls \<Longrightarrow> lock_inv (snd (nfb_lock_unlock app lock ls))"
proof -
  assume inv: "lock_inv ls"
  obtain e ls' where eq: "nfb_lock_unlock app lock ls = (e, ls')" by force
  have keys: "distinct (map (\<lambda>item. (item_app item, item_path item)) ls)"
    using inv by (simp add: lock_inv_def)
  show ?thesis
    using inv eq unlock_keys [OF eq keys] holds_unlock [OF eq keys]
    by (auto simp: lock_inv_def)
qed

lemma lock_inv_release: "lock_inv ls \<Longrightarrow> lock_inv (nfb_lock_release app ls)"
  by (auto simp: lock_inv_def) (auto simp: nfb_lock_release_def distinct_map inj_on_def)

lemma lock_inv_reachable: "lock_reachable ls \<Longrightarrow> lock_inv ls"
  by (induction rule: lock_reachable.induct)
    (auto simp: nfb_lock_probe_def intro: lock_inv_try_lock lock_inv_unlock lock_inv_release)

text \<open>An unlock of a list that has duplicate keys could expose a second item, so the other
  applications are looked at without the invariant.\<close>

lemma holds_unlock_other:
  "a \<noteq> app \<Longrightarrow> holds (snd (nfb_lock_unlock app lock ls)) a p b = holds ls a p b"
  by (induction app lock ls rule: nfb_lock_unlock.induct) (auto simp: Let_def split: prod.splits)

definition lock_claims :: "bool \<times> nfb_lock \<Rightarrow> string \<times> nat \<Rightarrow> bool" where
  "lock_claims k r \<longleftrightarrow>
     fst r = lock_path (snd k) \<and> snd r < 32 \<and> bit (lock_features (snd k)) (snd r)"

interpretation nfb_lock: feature_lock
  "\<lambda>app (ok, lock). nfb_lock_try_lock ok app lock"
  "\<lambda>app (ok, lock). nfb_lock_unlock app lock"
  nfb_lock_release
  "\<lambda>ls app (path, b). holds ls app path b"
  lock_claims
proof (unfold_locales, goal_cases)
  case (1 ow k s s' ow' r)
  then show ?case by (auto simp: lock_claims_def holds_try_lock split: prod.splits)
next
  case (2 ow k s s' r ow')
  then show ?case by (auto simp: lock_claims_def dest: try_lock_0_free split: prod.splits)
next
  case (3 ow k s e s')
  then show ?case by (auto dest: try_lock_error_keeps split: prod.splits)
next
  case (4 ow' ow k s r)
  then show ?case by (auto simp: holds_unlock_other split: prod.splits)
next
  case (5 ow' ow s r)
  then show ?case by (auto split: prod.splits)
qed

text \<open>Which requests are refused, in terms of the held bits.\<close>

lemma u64_low_bits: "(fs :: u64) < 2 ^ 32 \<Longrightarrow> bit fs b \<Longrightarrow> b < 32"
proof -
  assume "fs < 2 ^ 32" and "bit fs b"
  then have "bit (fs AND mask 32) b" by (simp add: less_mask_eq)
  then show "b < 32" by (simp add: bit_and_iff bit_mask_iff)
qed

lemma holds_conflict_iff:
  assumes "lock_features lock < 2 ^ 32"
  shows "(\<exists>a b. holds ls a (lock_path lock) b \<and> bit (lock_features lock) b) \<longleftrightarrow>
    (\<exists>item \<in> set ls. item_path item = lock_path lock \<and>
       (scast (item_features item) :: u64) AND lock_features lock \<noteq> 0)"
proof -
  have "\<exists>b. bit f b \<and> bit (lock_features lock) b"
    if "(scast f :: u64) AND lock_features lock \<noteq> 0" for f :: u32
    using that u64_low_bits [OF assms] by (auto simp: bit_eq_iff bit_and_iff bit_scast_low)
  then show ?thesis by (auto simp: holds_def dest: scast_conflict_low) blast+
qed

lemma try_lock_busy_iff:
  "fst (nfb_lock_try_lock ok app lock ls) = - EBUSY \<longleftrightarrow>
    (\<exists>item \<in> set ls. item_path item = lock_path lock \<and>
       (scast (item_features item) :: u64) AND lock_features lock \<noteq> 0)"
proof (cases "try_lock_scan app lock ls 0 None")
  case (Inl e)
  with scan_Inl [OF Inl] show ?thesis by (auto simp: nfb_lock_try_lock_def)
next
  case (Inr t)
  with scan_Inr_no_conflict [OF Inr] show ?thesis
    by (auto simp: nfb_lock_try_lock_def split: option.splits)
qed

lemma high_features_bits: "(fs :: u64) AND mask 32 = 0 \<Longrightarrow> b < 32 \<Longrightarrow> \<not> bit fs b"
proof -
  assume "fs AND mask 32 = 0" and "b < 32"
  then have "\<not> bit (fs AND mask 32) b" by simp
  with \<open>b < 32\<close> show ?thesis by (simp add: bit_and_iff bit_mask_iff)
qed

lemma or_features_high: "fs AND mask 32 = 0 \<Longrightarrow> or_features fs item = item"
proof -
  assume high: "fs AND mask 32 = 0"
  have "item_features (or_features fs item) = item_features item"
    by (rule bit_eqI) (use high_features_bits [OF high] in auto)
  then show ?thesis
    by (simp add: or_features_def)
qed

lemma scast_small_high:
  assumes "(f :: u32) < 2 ^ 31" and "(fs :: u64) AND mask 32 = 0"
  shows "scast f AND fs = 0"
proof -
  have "f AND mask 31 = f" using assms(1) by (simp add: less_mask_eq)
  then have "\<not> bit f 31" by (metis bit_and_iff bit_mask_iff less_irrefl)
  then have "\<not> bit (scast f :: u64) b" if "32 \<le> b" for b
    using that by (simp add: bit_simps min_def)
  with high_features_bits [OF assms(2)] have "\<not> (bit (scast f :: u64) b \<and> bit fs b)" for b
    by (meson not_le)
  then show ?thesis by (auto simp: bit_eq_iff bit_and_iff)
qed

lemma scan_no_conflict_Inr:
  "\<forall>item \<in> set ls. scast (item_features item) AND lock_features lock = 0 \<Longrightarrow>
   \<exists>t. try_lock_scan app lock ls i temp = Inr t"
  by (induction app lock ls i temp rule: try_lock_scan.induct) auto

lemma high_features_succeed:
  assumes "lock_features lock AND mask 32 = 0" and "\<forall>item \<in> set ls. item_features item < 2 ^ 31"
  shows "\<exists>ls'. nfb_lock_try_lock True a lock ls = (0, ls') \<and> (\<forall>item \<in> set ls'. item_features item < 2 ^ 31)"
proof -
  have "\<forall>item \<in> set ls. scast (item_features item) AND lock_features lock = 0"
    using assms by (auto intro: scast_small_high)
  then obtain t where "try_lock_scan a lock ls 0 None = Inr t"
    using scan_no_conflict_Inr by blast
  with assms show ?thesis
    by (auto simp: nfb_lock_try_lock_def or_features_high split: option.splits)
qed

section \<open>Properties\<close>

text \<open>C4. in every state that any interleaving of lock, unlock and close operations reaches, no two
  applications hold the same feature bit of the same component.\<close>

theorem lock_mutual_exclusion:
  assumes "lock_reachable ls" and "holds ls a path b" and "holds ls a' path b"
  shows "a = a'"
  using lock_inv_reachable [OF assms(1)] assms(2,3) by (rule lock_invD)

theorem lock_mutual_exclusion_witness:
  "lock_reachable [\<lparr>item_app = 7, item_path = ''/fw/dma'', item_features = 5\<rparr>] \<and> (7::app) = 7"
proof -
  let ?l = "\<lparr>lock_path = ''/fw/dma'', lock_features = 5\<rparr>"
  let ?ls = "[\<lparr>item_app = 7, item_path = ''/fw/dma'', item_features = 5\<rparr>]"
  have "lock_reachable (snd (nfb_lock_try_lock True 7 ?l (snd nfb_lock_probe)))"
    by (rule lock_reachable.try_lock [OF lock_reachable.probe])
  then have r: "lock_reachable ?ls"
    by (simp add: nfb_lock_probe_def nfb_lock_try_lock_def or_features_def)
  have h: "holds ?ls 7 ''/fw/dma'' 2"
    by (simp add: bit_numeral_rec)
  show ?thesis using r lock_mutual_exclusion [OF r h h] by simp
qed

text \<open>once an application has locked a feature bit, every later request that names the bit is
  refused, whatever the other applications lock, unlock or close in between, as long as the owner
  itself performs no operation.\<close>

theorem lock_refused_until_owner_acts:
  assumes "nfb_lock_try_lock ok app lock ls = (0, ls')"
    and "b < 32" and "bit (lock_features lock) b"
    and "\<forall>op \<in> set ops. fst op \<noteq> app"
    and "lock_path lock' = lock_path lock" and "bit (lock_features lock') b"
  shows "fst (nfb_lock_try_lock ok' app' lock' (fold nfb_lock.lock_step ops ls')) \<noteq> 0"
  using nfb_lock.held_refuses [of app "(ok, lock)" ls ls' "(lock_path lock, b)" ops "(ok', lock')" app']
    assms by (simp add: lock_claims_def)

theorem lock_refused_until_owner_acts_witness:
  "fst (nfb_lock_try_lock True 2 \<lparr>lock_path = ''/a'', lock_features = 3\<rparr>
     (fold nfb_lock.lock_step [(3, Release), (2, Unlock (True, \<lparr>lock_path = ''/a'', lock_features = 1\<rparr>))]
       [\<lparr>item_app = 1, item_path = ''/a'', item_features = 1\<rparr>])) \<noteq> 0"
proof (rule lock_refused_until_owner_acts)
  show "nfb_lock_try_lock True 1 \<lparr>lock_path = ''/a'', lock_features = 1\<rparr> [] =
      (0, [\<lparr>item_app = 1, item_path = ''/a'', item_features = 1\<rparr>])"
    by (simp add: nfb_lock_try_lock_def or_features_def)
  show "bit (lock_features \<lparr>lock_path = ''/a'', lock_features = 1\<rparr>) 0"
    and "bit (lock_features \<lparr>lock_path = ''/a'', lock_features = 3\<rparr>) 0"
    by simp_all
qed simp_all

text \<open>C27. a lock request that names only the 32 bits an item can store behaves as its abstract
  specification on the held bits: it fails with EBUSY exactly when somebody holds one of them, it
  changes nothing when it fails, and it adds exactly these bits to the caller when it succeeds; an
  unlock removes exactly the named bits of the caller.\<close>

theorem lock_refines_holds:
  assumes "lock_reachable ls" and "lock_features lock < 2 ^ 32"
  shows "(fst (nfb_lock_try_lock ok app lock ls) = - EBUSY \<longleftrightarrow>
        (\<exists>a b. holds ls a (lock_path lock) b \<and> bit (lock_features lock) b)) \<and>
    (fst (nfb_lock_try_lock ok app lock ls) \<noteq> 0 \<longrightarrow>
        snd (nfb_lock_try_lock ok app lock ls) = ls) \<and>
    (fst (nfb_lock_try_lock ok app lock ls) = 0 \<longrightarrow>
        (holds (snd (nfb_lock_try_lock ok app lock ls)) a p b \<longleftrightarrow>
           holds ls a p b \<or> a = app \<and> p = lock_path lock \<and> bit (lock_features lock) b)) \<and>
    (holds (snd (nfb_lock_unlock app lock ls)) a p b \<longleftrightarrow>
        holds ls a p b \<and> \<not> (a = app \<and> p = lock_path lock \<and> bit (lock_features lock) b))"
proof (intro conjI impI)
  obtain e ls' where eq: "nfb_lock_try_lock ok app lock ls = (e, ls')" by force
  have low: "bit (lock_features lock) c \<Longrightarrow> c < 32" for c
    using assms(2) by (rule u64_low_bits)
  show "fst (nfb_lock_try_lock ok app lock ls) = - EBUSY \<longleftrightarrow>
      (\<exists>a b. holds ls a (lock_path lock) b \<and> bit (lock_features lock) b)"
    unfolding holds_conflict_iff [OF assms(2)] by (rule try_lock_busy_iff)
  show "fst (nfb_lock_try_lock ok app lock ls) \<noteq> 0 \<Longrightarrow>
      snd (nfb_lock_try_lock ok app lock ls) = ls"
    using eq by (auto dest: try_lock_error_keeps)
  show "fst (nfb_lock_try_lock ok app lock ls) = 0 \<Longrightarrow>
      holds (snd (nfb_lock_try_lock ok app lock ls)) a p b \<longleftrightarrow>
        holds ls a p b \<or> a = app \<and> p = lock_path lock \<and> bit (lock_features lock) b"
    using eq low by (auto simp: holds_try_lock)
  show "holds (snd (nfb_lock_unlock app lock ls)) a p b \<longleftrightarrow>
      holds ls a p b \<and> \<not> (a = app \<and> p = lock_path lock \<and> bit (lock_features lock) b)"
    using holds_unlock lock_inv_reachable [OF assms(1)]
    by (metis (no_types, lifting) lock_inv_def prod.collapse)
qed

theorem lock_refines_holds_witness:
  "fst (nfb_lock_try_lock True 1 \<lparr>lock_path = ''/a'', lock_features = 6\<rparr> []) \<noteq> - EBUSY \<and>
   holds (snd (nfb_lock_try_lock True 1 \<lparr>lock_path = ''/a'', lock_features = 6\<rparr> [])) 1 ''/a'' 2"
proof -
  have r: "lock_reachable []"
    using lock_reachable.probe by (simp add: nfb_lock_probe_def)
  have f: "lock_features \<lparr>lock_path = ''/a'', lock_features = 6\<rparr> < 2 ^ 32" by simp
  show ?thesis
    using lock_refines_holds [OF r f, of True 1 1 "''/a''" 2]
    by (simp add: nfb_lock_try_lock_def bit_numeral_rec)
qed

text \<open>the feature bits 32 to 63 of a request are never recorded: locking such a feature succeeds
  for one application after the other, so these locks exclude nobody.\<close>

theorem lock_high_features_not_exclusive:
  assumes "lock_features lock AND mask 32 = 0" and "\<forall>item \<in> set ls. item_features item < 2 ^ 31"
  shows "\<exists>ls1 ls2. nfb_lock_try_lock True a lock ls = (0, ls1) \<and>
    nfb_lock_try_lock True a' lock ls1 = (0, ls2)"
proof -
  obtain ls1 where one: "nfb_lock_try_lock True a lock ls = (0, ls1)"
      "\<forall>item \<in> set ls1. item_features item < 2 ^ 31"
    using high_features_succeed [OF assms] by blast
  obtain ls2 where "nfb_lock_try_lock True a' lock ls1 = (0, ls2)"
    using high_features_succeed [OF assms(1) one(2)] by blast
  with one(1) show ?thesis by blast
qed

theorem lock_high_features_not_exclusive_witness:
  "\<exists>ls1 ls2. nfb_lock_try_lock True 1 \<lparr>lock_path = ''/a'', lock_features = 2 ^ 40\<rparr> [] = (0, ls1) \<and>
    nfb_lock_try_lock True 2 \<lparr>lock_path = ''/a'', lock_features = 2 ^ 40\<rparr> ls1 = (0, ls2)"
  by (rule lock_high_features_not_exclusive) (simp_all add: mask_eq_exp_minus_1)

end
