(* ===== verification/CharDev.thy ===== *)
theory CharDev
  imports Prelude Lock
begin

text \<open>
  The character device of a card (\<open>drivers/kernel/drivers/nfb/char.c\<close>): the registry that places the
  mappable areas of the drivers into one file-offset space, opening and closing with the calls into
  the child drivers, and reading the device tree through the file.

  A registered area is a record; what its callback maps is the type parameter \<open>'m\<close>.  The list is kept
  sorted by offset, as the driver inserts each item in front of the first area it fits before.
\<close>

section \<open>Registry of mappable areas\<close>

record 'm nfb_char_mmap_mod =
  mm_size :: u64
  mm_offset :: u64
  mm_mmap :: 'm

text \<open>The walk that sets the offset to the first sufficient free space, with the place of insertion.\<close>

fun mmap_first_fit :: "u64 \<Rightarrow> 'm nfb_char_mmap_mod list \<Rightarrow> u64 \<Rightarrow> u64 \<times> nat" where
  "mmap_first_fit sz [] offset = (offset, 0)"
| "mmap_first_fit sz (item # items) offset =
     (if offset + sz \<le> mm_offset item then (offset, 0)
      else case mmap_first_fit sz items (mm_offset item + mm_size item) of
        (off, pos) \<Rightarrow> (off, Suc pos))"

text \<open>The second component is the value stored through the \<open>offset\<close> pointer, if any.\<close>

definition nfb_char_register_mmap ::
  "bool \<Rightarrow> u64 \<Rightarrow> 'm \<Rightarrow> 'm nfb_char_mmap_mod list \<Rightarrow> int \<times> u64 option \<times> 'm nfb_char_mmap_mod list" where
  "nfb_char_register_mmap kmalloc_ok sz m ms =
     (if sz = 0 then (- EINVAL, None, ms)
      else case mmap_first_fit sz ms 0 of (off, pos) \<Rightarrow>
        if \<not> kmalloc_ok then (- ENOMEM, Some off, ms)
        else (0, Some off,
          take pos ms @ \<lparr>mm_size = sz, mm_offset = off, mm_mmap = m\<rparr> # drop pos ms))"

fun nfb_char_unregister_mmap :: "u64 \<Rightarrow> 'm nfb_char_mmap_mod list \<Rightarrow> int \<times> 'm nfb_char_mmap_mod list" where
  "nfb_char_unregister_mmap offset [] = (- ENODEV, [])"
| "nfb_char_unregister_mmap offset (item # items) =
     (if mm_offset item = offset then (0, items)
      else case nfb_char_unregister_mmap offset items of (ret, items') \<Rightarrow> (ret, item # items'))"

text \<open>The area whose callback serves a mapping request, if any (otherwise \<open>-EINVAL\<close> is returned).\<close>

definition mmap_covers :: "u64 \<Rightarrow> u64 \<Rightarrow> 'm nfb_char_mmap_mod \<Rightarrow> bool" where
  "mmap_covers offset sz item \<longleftrightarrow>
     mm_offset item \<le> offset \<and> mm_size item \<ge> sz \<and>
     mm_offset item + mm_size item \<ge> offset + sz"

definition nfb_char_mmap ::
  "('m \<Rightarrow> u64 \<Rightarrow> u64 \<Rightarrow> int) \<Rightarrow> u64 \<Rightarrow> u64 \<Rightarrow> u64 \<Rightarrow> 'm nfb_char_mmap_mod list \<Rightarrow> int" where
  "nfb_char_mmap callback vm_start vm_end vm_pgoff ms =
     (let sz = vm_end - vm_start; offset = push_bit 12 vm_pgoff in
      case find (mmap_covers offset sz) ms of
        None \<Rightarrow> - EINVAL
      | Some item \<Rightarrow> callback (mm_mmap item) offset sz)"

section \<open>Open and release\<close>

datatype nfb_device_status = NFB_DEVICE_STATUS_INIT | NFB_DEVICE_STATUS_OK | NFB_DEVICE_STATUS_RELEASE

text \<open>One slot of the driver table: attached, and which callbacks the driver registered.\<close>

record nfb_driver =
  drv_ok :: bool
  drv_open :: bool
  drv_release :: bool

record nfb_char_dev =
  nfb_status :: nfb_device_status
  nfb_openers :: int
  nfb_drivers :: "nfb_driver list"
  nfb_lr_cb :: bool
  nfb_locks :: lock_list

datatype child_call = ChildOpen nat | ChildRelease nat | LastReleaseCallback

definition nfb_char_set_lr_callback :: "nfb_char_dev \<Rightarrow> int \<times> nfb_char_dev" where
  "nfb_char_set_lr_callback nfb =
     (if nfb_lr_cb nfb then (- EEXIST, nfb)
      else (0, nfb\<lparr>nfb_status := NFB_DEVICE_STATUS_RELEASE, nfb_lr_cb := True\<rparr>))"

text \<open>
  The loop over the child drivers: \<open>results i\<close> is what the open callback of driver \<open>i\<close> returns.  The
  value is the error (0 for none), the index where the loop stopped and the calls made so far.
\<close>

fun open_children :: "(nat \<Rightarrow> int) \<Rightarrow> nfb_driver list \<Rightarrow> nat \<Rightarrow> child_call list \<Rightarrow> int \<times> nat \<times> child_call list" where
  "open_children results [] i calls = (0, i, calls)"
| "open_children results (d # ds) i calls =
     (if drv_ok d \<and> drv_open d then
        if results i \<noteq> 0 then (results i, i, calls @ [ChildOpen i])
        else open_children results ds (Suc i) (calls @ [ChildOpen i])
      else open_children results ds (Suc i) calls)"

text \<open>The release loops of \<open>err_open_child\<close> and of \<open>nfb_char_release\<close>: from index \<open>i - 1\<close> down to 0.\<close>

definition release_children :: "nfb_driver list \<Rightarrow> nat \<Rightarrow> child_call list" where
  "release_children ds i =
     map ChildRelease (rev (filter (\<lambda>j. drv_ok (ds ! j) \<and> drv_release (ds ! j)) [0..<i]))"

definition nfb_char_open ::
  "nfb_char_dev option \<Rightarrow> bool \<Rightarrow> bool \<Rightarrow> bool \<Rightarrow> app \<Rightarrow> (nat \<Rightarrow> int) \<Rightarrow>
   int \<times> nfb_char_dev option \<times> child_call list" where
  "nfb_char_open dev o_append app_ok fdt_ok app results =
     (case dev of
        None \<Rightarrow> (- ENODEV, None, [])
      | Some nfb \<Rightarrow>
        if nfb_status nfb \<noteq> NFB_DEVICE_STATUS_OK then (- ENODEV, Some nfb, [])
        else
          let nfb1 = nfb\<lparr>nfb_openers := nfb_openers nfb + 1\<rparr> in
          if nfb_openers nfb1 > 1 \<and> o_append then
            (- EBUSY, Some (nfb1\<lparr>nfb_openers := nfb_openers nfb1 - 1\<rparr>), [])
          else if \<not> app_ok then (- ENOMEM, Some nfb1, [])
          else if \<not> fdt_ok then (- ENOMEM, Some nfb1, [])
          else
            case open_children results (nfb_drivers nfb1) 0 [] of (ret, i, calls) \<Rightarrow>
              if ret = 0 then (0, Some nfb1, calls)
              else (ret, Some (nfb1\<lparr>nfb_locks := nfb_lock_release app (nfb_locks nfb1)\<rparr>),
                    calls @ release_children (nfb_drivers nfb1) i))"

definition nfb_char_release :: "app \<Rightarrow> nfb_char_dev \<Rightarrow> int \<times> nfb_char_dev \<times> child_call list" where
  "nfb_char_release app nfb =
     (let calls = release_children (nfb_drivers nfb) (length (nfb_drivers nfb));
          nfb1 = nfb\<lparr>nfb_locks := nfb_lock_release app (nfb_locks nfb)\<rparr>;
          nfb2 = nfb1\<lparr>nfb_openers := nfb_openers nfb1 - 1\<rparr>
      in (0, nfb2, calls @ (if nfb_openers nfb2 = 0 \<and> nfb_lr_cb nfb2 then [LastReleaseCallback] else [])))"

section \<open>Reading the device tree\<close>

datatype whence = SEEK_SET | SEEK_CUR | SEEK_END | SEEK_OTHER

definition nfb_char_llseek :: "int \<Rightarrow> int \<Rightarrow> int \<Rightarrow> whence \<Rightarrow> int \<times> int" where
  "nfb_char_llseek sz f_pos off wh =
     (if wh = SEEK_OTHER then (- EINVAL, f_pos)
      else
        let newpos = (case wh of SEEK_SET \<Rightarrow> off | SEEK_CUR \<Rightarrow> f_pos + off | _ \<Rightarrow> sz + off) in
        if newpos < 0 \<or> newpos > sz then (- EINVAL, f_pos) else (newpos, newpos))"

text \<open>
  \<open>*offset + length\<close> is computed in \<open>size_t\<close>.  The result is the return value, the new offset and the
  bytes copied to the user.
\<close>

definition nfb_char_read :: "u8 list \<Rightarrow> bool \<Rightarrow> u64 \<Rightarrow> int \<Rightarrow> int \<times> int \<times> u8 list" where
  "nfb_char_read fdt copy_ok len offset =
     (let sz = int (length fdt) in
      if offset \<ge> sz then (0, offset, [])
      else
        let len1 = (if word_of_int offset + len > (word_of_int sz :: u64)
                    then word_of_int (sz - offset) else len) in
        if \<not> copy_ok then (- EFAULT, offset, [])
        else (int (unat len1), offset + int (unat len1), take (unat len1) (drop (nat offset) fdt)))"

section \<open>Well-formed registries\<close>

text \<open>Areas are non-empty, in increasing order from \<open>lo\<close> on, disjoint and below the end of the offset space.\<close>

abbreviation mm_end :: "'m nfb_char_mmap_mod \<Rightarrow> nat" where
  "mm_end item \<equiv> unat (mm_offset item) + unat (mm_size item)"

fun mmap_wf :: "nat \<Rightarrow> 'm nfb_char_mmap_mod list \<Rightarrow> bool" where
  "mmap_wf lo [] = True"
| "mmap_wf lo (item # items) \<longleftrightarrow>
     lo \<le> unat (mm_offset item) \<and> mm_size item \<noteq> 0 \<and> mm_end item < 2 ^ 64 \<and> mmap_wf (mm_end item) items"

fun mmap_end :: "nat \<Rightarrow> 'm nfb_char_mmap_mod list \<Rightarrow> nat" where
  "mmap_end lo [] = lo"
| "mmap_end lo (item # items) = mmap_end (mm_end item) items"

definition area_disjoint :: "nat \<Rightarrow> nat \<Rightarrow> 'm nfb_char_mmap_mod \<Rightarrow> bool" where
  "area_disjoint off sz item \<longleftrightarrow> off + sz \<le> unat (mm_offset item) \<or> mm_end item \<le> off"

section \<open>Lemmas\<close>

lemma unat_add_no_overflow:
  "unat (a :: u64) + unat b < 2 ^ 64 \<Longrightarrow> unat (a + b) = unat a + unat b"
  by (simp add: unat_word_ariths)

lemma mmap_wf_mono: "mmap_wf lo ms \<Longrightarrow> lo' \<le> lo \<Longrightarrow> mmap_wf lo' ms"
  by (cases ms) auto

lemma mmap_wf_append [simp]:
  "mmap_wf lo (ms @ ms') \<longleftrightarrow> mmap_wf lo ms \<and> mmap_wf (mmap_end lo ms) ms'"
  by (induction lo ms rule: mmap_wf.induct) auto

lemma mmap_end_mono: "mmap_wf lo ms \<Longrightarrow> lo \<le> mmap_end lo ms"
  by (induction lo ms rule: mmap_wf.induct) auto

lemma mmap_wf_lower: "mmap_wf lo ms \<Longrightarrow> item \<in> set ms \<Longrightarrow> lo \<le> unat (mm_offset item)"
  by (induction lo ms rule: mmap_wf.induct) auto

lemma mmap_wf_item: "mmap_wf lo ms \<Longrightarrow> item \<in> set ms \<Longrightarrow> mm_size item \<noteq> 0 \<and> mm_end item < 2 ^ 64"
  by (induction lo ms rule: mmap_wf.induct) auto

lemma mmap_wf_upper: "mmap_wf lo ms \<Longrightarrow> item \<in> set ms \<Longrightarrow> mm_end item \<le> mmap_end lo ms"
proof (induction lo ms rule: mmap_wf.induct)
  case (2 lo it items)
  then show ?case using mmap_end_mono [of "mm_end it" items] by auto
qed simp

lemma first_fit_split:
  assumes "mmap_wf (unat off) ms" and "mmap_end (unat off) ms + unat sz < 2 ^ 64"
    and "mmap_first_fit sz ms off = (off', pos)"
  shows "mmap_end (unat off) (take pos ms) \<le> unat off' \<and> unat off' + unat sz < 2 ^ 64 \<and>
    mmap_wf (unat off' + unat sz) (drop pos ms)"
  using assms
proof (induction sz ms off arbitrary: off' pos rule: mmap_first_fit.induct)
  case (2 sz item items off)
  have bound: "unat off + unat sz < 2 ^ 64"
    using 2(3) mmap_end_mono [OF 2(2)] by linarith
  show ?case
  proof (cases "off + sz \<le> mm_offset item")
    case True
    with 2(2,4) bound show ?thesis
      by (auto simp: word_le_nat_alt unat_add_no_overflow)
  next
    case False
    obtain o1 p1 where rec: "mmap_first_fit sz items (mm_offset item + mm_size item) = (o1, p1)"
      by force
    have e: "unat (mm_offset item + mm_size item) = mm_end item"
      using 2(2) by (simp add: unat_add_no_overflow)
    have "mmap_end (mm_end item) (take p1 items) \<le> unat o1 \<and> unat o1 + unat sz < 2 ^ 64 \<and>
        mmap_wf (unat o1 + unat sz) (drop p1 items)"
      using 2(1)[OF False _ _ rec] 2(2,3) by (simp add: e)
    with False rec 2(4) show ?thesis by auto
  qed
qed auto

lemma first_fit_least:
  assumes "mmap_wf (unat off) ms" and "mmap_end (unat off) ms + unat sz < 2 ^ 64"
    and "mmap_first_fit sz ms off = (off', pos)"
    and "unat off \<le> x" and "\<forall>item \<in> set ms. area_disjoint x (unat sz) item"
  shows "unat off' \<le> x"
  using assms
proof (induction sz ms off arbitrary: off' pos rule: mmap_first_fit.induct)
  case (2 sz item items off)
  have bound: "unat off + unat sz < 2 ^ 64"
    using 2(3) mmap_end_mono [OF 2(2)] by linarith
  show ?case
  proof (cases "off + sz \<le> mm_offset item")
    case True
    with 2(4,5) show ?thesis by simp
  next
    case False
    obtain o1 p1 where rec: "mmap_first_fit sz items (mm_offset item + mm_size item) = (o1, p1)"
      by force
    have e: "unat (mm_offset item + mm_size item) = mm_end item"
      using 2(2) by (simp add: unat_add_no_overflow)
    have "unat (mm_offset item) < unat off + unat sz"
      using False bound by (simp add: word_le_nat_alt unat_add_no_overflow)
    then have "mm_end item \<le> x"
      using 2(5,6) by (auto simp: area_disjoint_def)
    then have "unat o1 \<le> x"
      using 2(1)[OF False _ _ rec] 2(2,3,6) by (simp add: e)
    with False rec 2(4) show ?thesis by auto
  qed
qed auto

lemma first_fit_disjoint:
  assumes "mmap_wf 0 ms" and "mmap_end 0 ms + unat sz < 2 ^ 64"
    and "mmap_first_fit sz ms 0 = (off, pos)" and "item \<in> set ms"
  shows "area_disjoint (unat off) (unat sz) item"
proof -
  have split: "mmap_end 0 (take pos ms) \<le> unat off" "mmap_wf (unat off + unat sz) (drop pos ms)"
    using first_fit_split [of 0 ms sz off pos] assms(1-3) by simp_all
  have "mmap_wf 0 (take pos ms)"
    using assms(1) mmap_wf_append [of 0 "take pos ms" "drop pos ms"] by simp
  then have "item \<in> set (take pos ms) \<Longrightarrow> mm_end item \<le> unat off"
    using mmap_wf_upper split(1) order_trans by blast
  moreover have "item \<in> set (drop pos ms) \<Longrightarrow> unat off + unat sz \<le> unat (mm_offset item)"
    using mmap_wf_lower split(2) by blast
  moreover have "item \<in> set (take pos ms) \<or> item \<in> set (drop pos ms)"
    using assms(4) by (metis append_take_drop_id set_append Un_iff)
  ultimately show ?thesis by (auto simp: area_disjoint_def)
qed

text \<open>On a well-formed registry an exact request finds its own area.\<close>

lemma mmap_covers_self: "mmap_covers (mm_offset item) (mm_size item) item"
  by (simp add: mmap_covers_def)

lemma mmap_covers_overlap:
  assumes "mmap_covers off sz item" and "sz \<noteq> 0" and "unat off + unat sz < 2 ^ 64" and "mm_end item < 2 ^ 64"
  shows "\<not> area_disjoint (unat off) (unat sz) item"
  using assms unat_add_no_overflow [of off sz] unat_add_no_overflow [of "mm_offset item" "mm_size item"]
    unat_gt_0 [of sz]
  by (auto simp: mmap_covers_def area_disjoint_def word_le_nat_alt)

lemma mmap_wf_pairwise:
  "mmap_wf lo ms \<Longrightarrow> a \<in> set ms \<Longrightarrow> b \<in> set ms \<Longrightarrow>
   a = b \<or> area_disjoint (unat (mm_offset a)) (unat (mm_size a)) b"
proof (induction lo ms rule: mmap_wf.induct)
  case (2 lo item items)
  then show ?case
    using mmap_wf_lower [of "mm_end item" items] by (auto simp: area_disjoint_def)
qed simp

lemma find_own_area:
  assumes "mmap_wf 0 ms" and "item \<in> set ms"
  shows "find (mmap_covers (mm_offset item) (mm_size item)) ms = Some item"
proof (cases "find (mmap_covers (mm_offset item) (mm_size item)) ms")
  case None
  then show ?thesis using assms(2) mmap_covers_self [of item] by (auto simp: find_None_iff)
next
  case (Some found)
  then have f: "found \<in> set ms" "mmap_covers (mm_offset item) (mm_size item) found"
    by (auto simp: find_Some_iff)
  have "\<not> area_disjoint (unat (mm_offset item)) (unat (mm_size item)) found"
    using f mmap_wf_item [OF assms(1)] assms(2) by (intro mmap_covers_overlap) auto
  then have "found = item"
    using mmap_wf_pairwise [OF assms(1) assms(2) f(1)] by auto
  with Some show ?thesis by simp
qed

lemma unregister_append:
  "\<forall>item \<in> set ms. mm_offset item \<noteq> off \<Longrightarrow> mm_offset it = off \<Longrightarrow>
   nfb_char_unregister_mmap off (ms @ it # ms') = (0, ms @ ms')"
  by (induction ms) auto

text \<open>The release loop undoes exactly the opens that succeeded, newest first.\<close>

lemma register_unregister:
  assumes "mmap_wf 0 ms" and "mmap_end 0 ms + unat sz < 2 ^ 64"
    and "nfb_char_register_mmap True sz m ms = (0, Some off, ms')"
  shows "nfb_char_unregister_mmap off ms' = (0, ms)"
proof -
  obtain pos where ff: "mmap_first_fit sz ms 0 = (off, pos)"
      and ms': "ms' = take pos ms @ \<lparr>mm_size = sz, mm_offset = off, mm_mmap = m\<rparr> # drop pos ms"
      and sz: "sz \<noteq> 0"
    using assms(3) by (auto simp: nfb_char_register_mmap_def split: if_splits prod.splits)
  have "mm_offset item \<noteq> off" if "item \<in> set (take pos ms)" for item
    using first_fit_disjoint [OF assms(1,2) ff in_set_takeD [OF that]]
      mmap_wf_item [OF assms(1) in_set_takeD [OF that]] sz unat_gt_0 [of sz] unat_gt_0 [of "mm_size item"]
    by (auto simp: area_disjoint_def)
  then show ?thesis
    unfolding ms' by (subst unregister_append) auto
qed

lemma open_children_calls:
  assumes "open_children results (drop i ds) i calls = (ret, j, calls')" and "i \<le> length ds"
  shows "calls' = calls @ map ChildOpen (filter (\<lambda>k. drv_ok (ds ! k) \<and> drv_open (ds ! k)) [i..<j]) @
      (if ret = 0 then [] else [ChildOpen j]) \<and> i \<le> j \<and> j \<le> length ds \<and> (ret \<noteq> 0 \<longrightarrow> j < length ds)"
  using assms
proof (induction "length ds - i" arbitrary: i calls)
  case 0
  then show ?case by simp
next
  case (Suc n)
  then have i: "i < length ds" and n: "n = length ds - Suc i" by simp_all
  then have d: "drop i ds = ds ! i # drop (Suc i) ds" by (simp add: Cons_nth_drop_Suc)
  have up: "[i..<k] = i # [Suc i..<k]" if "Suc i \<le> k" for k
    using that by (simp add: upt_conv_Cons)
  show ?case
  proof (cases "drv_ok (ds ! i) \<and> drv_open (ds ! i)")
    case True
    with Suc.prems(1) show ?thesis
      using Suc.hyps(1)[OF n, of "calls @ [ChildOpen i]"] i
      by (auto simp: d up Suc_le_eq split: if_splits)
  next
    case False
    with Suc.prems(1) show ?thesis
      using Suc.hyps(1)[OF n, of calls] i
      by (auto simp: d up)
  qed
qed

section \<open>Properties\<close>

text \<open>registering an area keeps the registry sorted and free of overlaps, places the area at the
  lowest offset at which it overlaps no registered area, and keeps every other area.\<close>

theorem mmap_register_first_fit:
  assumes "mmap_wf 0 ms" and "sz \<noteq> 0" and "mmap_end 0 ms + unat sz < 2 ^ 64"
  shows "\<exists>off ms'. nfb_char_register_mmap True sz m ms = (0, Some off, ms') \<and>
    mmap_wf 0 ms' \<and>
    mset ms' = add_mset \<lparr>mm_size = sz, mm_offset = off, mm_mmap = m\<rparr> (mset ms) \<and>
    (\<forall>item \<in> set ms. area_disjoint (unat off) (unat sz) item) \<and>
    (\<forall>x. (\<forall>item \<in> set ms. area_disjoint x (unat sz) item) \<longrightarrow> unat off \<le> x)"
proof -
  obtain off pos where ff: "mmap_first_fit sz ms 0 = (off, pos)" by force
  let ?item = "\<lparr>mm_size = sz, mm_offset = off, mm_mmap = m\<rparr>"
  have split: "mmap_end 0 (take pos ms) \<le> unat off" "unat off + unat sz < 2 ^ 64"
      "mmap_wf (unat off + unat sz) (drop pos ms)"
    using first_fit_split [of 0 ms sz off pos] assms(1,3) ff by simp_all
  have "mmap_wf 0 (take pos ms)"
    using assms(1) mmap_wf_append [of 0 "take pos ms" "drop pos ms"] by simp
  with split assms(2) have wf: "mmap_wf 0 (take pos ms @ ?item # drop pos ms)"
    by simp
  have "mset (take pos ms) + mset (drop pos ms) = mset ms"
    by (metis append_take_drop_id mset_append)
  moreover have "unat off \<le> x" if "\<forall>item \<in> set ms. area_disjoint x (unat sz) item" for x
    using first_fit_least [of 0 ms sz off pos x] assms(1,3) ff that by simp
  ultimately show ?thesis
    using wf ff assms(2) first_fit_disjoint [OF assms(1,3) ff]
    by (auto simp: nfb_char_register_mmap_def)
qed

theorem mmap_register_first_fit_witness:
  "\<exists>off ms'. nfb_char_register_mmap True 4096 ''off''
       [\<lparr>mm_size = 8192, mm_offset = 0, mm_mmap = ''mi''\<rparr>, \<lparr>mm_size = 4096, mm_offset = 16384, mm_mmap = ''ring''\<rparr>]
     = (0, Some off, ms') \<and> mmap_wf 0 ms'"
proof -
  let ?ms = "[\<lparr>mm_size = 8192, mm_offset = 0, mm_mmap = ''mi''\<rparr>,
    \<lparr>mm_size = 4096, mm_offset = 16384, mm_mmap = ''ring''\<rparr>]"
  have "mmap_wf 0 ?ms" and "mmap_end 0 ?ms + unat (4096::u64) < 2 ^ 64" by simp_all
  from mmap_register_first_fit [OF this(1) _ this(2), of "''off''"] show ?thesis by auto
qed



text \<open>unregistering the offset that a registration returned restores the registry.\<close>

theorem mmap_register_unregister:
  assumes "mmap_wf 0 ms" and "mmap_end 0 ms + unat sz < 2 ^ 64"
    and "nfb_char_register_mmap True sz m ms = (0, Some off, ms')"
  shows "nfb_char_unregister_mmap off ms' = (0, ms)"
  using assms by (rule register_unregister)

theorem mmap_register_unregister_witness:
  "nfb_char_unregister_mmap 4096
     [\<lparr>mm_size = 4096, mm_offset = 0, mm_mmap = 1\<rparr>, \<lparr>mm_size = 512, mm_offset = 4096, mm_mmap = 2::nat\<rparr>] =
     (0, [\<lparr>mm_size = 4096, mm_offset = 0, mm_mmap = 1\<rparr>])"
  by (rule mmap_register_unregister [where sz = 512 and m = 2]) (simp_all add: nfb_char_register_mmap_def)

text \<open>when a child driver refuses the open, exactly the children opened before it that have a
  release callback are released, in reverse order; but the opener count stays incremented, although
  the file was never opened.\<close>

theorem char_open_child_error:
  assumes "nfb_status nfb = NFB_DEVICE_STATUS_OK" and "\<not> o_append"
    and "open_children results (nfb_drivers nfb) 0 [] = (ret, j, calls)" and "ret \<noteq> 0"
  shows "nfb_char_open (Some nfb) o_append True True app results =
    (ret, Some (nfb\<lparr>nfb_openers := nfb_openers nfb + 1, nfb_locks := nfb_lock_release app (nfb_locks nfb)\<rparr>),
     map ChildOpen (filter (\<lambda>k. drv_ok (nfb_drivers nfb ! k) \<and> drv_open (nfb_drivers nfb ! k)) [0..<j]) @
     [ChildOpen j] @
     map ChildRelease (rev (filter (\<lambda>k. drv_ok (nfb_drivers nfb ! k) \<and> drv_release (nfb_drivers nfb ! k)) [0..<j])))"
  using open_children_calls [of results 0 "nfb_drivers nfb" "[]" ret j calls] assms
  by (simp add: nfb_char_open_def release_children_def)

theorem char_open_child_error_witness:
  "nfb_char_open (Some \<lparr>nfb_status = NFB_DEVICE_STATUS_OK, nfb_openers = 0,
       nfb_drivers = [\<lparr>drv_ok = True, drv_open = True, drv_release = True\<rparr>,
                      \<lparr>drv_ok = True, drv_open = True, drv_release = True\<rparr>],
       nfb_lr_cb = True, nfb_locks = []\<rparr>) False True True 3 (\<lambda>i. if i = 1 then - ENOMEM else 0) =
   (- ENOMEM, Some \<lparr>nfb_status = NFB_DEVICE_STATUS_OK, nfb_openers = 1,
       nfb_drivers = [\<lparr>drv_ok = True, drv_open = True, drv_release = True\<rparr>,
                      \<lparr>drv_ok = True, drv_open = True, drv_release = True\<rparr>],
       nfb_lr_cb = True, nfb_locks = []\<rparr>,
    [ChildOpen 0, ChildOpen 1, ChildRelease 0])"
proof -
  let ?nfb = "\<lparr>nfb_status = NFB_DEVICE_STATUS_OK, nfb_openers = 0,
       nfb_drivers = [\<lparr>drv_ok = True, drv_open = True, drv_release = True\<rparr>,
                      \<lparr>drv_ok = True, drv_open = True, drv_release = True\<rparr>],
       nfb_lr_cb = True, nfb_locks = []\<rparr>"
  have "open_children (\<lambda>i. if i = 1 then - ENOMEM else 0) (nfb_drivers ?nfb) 0 [] =
      (- ENOMEM, 1, [ChildOpen 0, ChildOpen 1])" by simp
  from char_open_child_error [OF _ _ this, of False 3] show ?thesis
    by (simp add: nfb_lock_release_def)
qed

text \<open>a read of the device tree delivers the bytes from the file offset on, as many as requested
  but never past the end, and advances the offset by the number delivered.\<close>

theorem char_read_slice:
  assumes "0 \<le> offset" and "offset \<le> int (length fdt)" and "length fdt < 2 ^ 31" and "unat len < 2 ^ 63"
  shows "nfb_char_read fdt True len offset =
    (let n = min (unat len) (length fdt - nat offset) in
     (int n, offset + int n, take n (drop (nat offset) fdt)))"
proof -
  obtain k where k: "offset = int k" and kl: "k \<le> length fdt"
    using assms(1,2) by (metis nonneg_int_cases of_nat_le_iff)
  have wk: "unat (word_of_nat k :: u64) = k" and wl: "unat (word_of_nat (length fdt) :: u64) = length fdt"
    using kl assms(3) by (simp_all add: unat_of_nat)
  have "unat (word_of_nat (length fdt) - word_of_nat k :: u64) = length fdt - k"
    using kl wk wl by (subst unat_sub) (simp_all add: word_le_nat_alt)
  then have wd: "unat (word_of_int (int (length fdt) - int k) :: u64) = length fdt - k"
    by simp
  have "word_of_int (int k) + len > (word_of_int (int (length fdt)) :: u64) \<longleftrightarrow> k + unat len > length fdt"
    using kl assms(3,4) by (simp add: word_less_nat_alt unat_word_ariths wk wl)
  then have "unat (if word_of_int offset + len > (word_of_int (int (length fdt)) :: u64)
      then word_of_int (int (length fdt) - offset) else len) = min (unat len) (length fdt - k)"
    unfolding k using wd by (auto simp: min_def simp del: of_int_diff of_int_of_nat_eq)
  then show ?thesis
    using kl unfolding nfb_char_read_def Let_def by (simp add: k del: of_int_diff of_int_of_nat_eq)
qed

theorem char_read_slice_witness:
  "nfb_char_read [1, 2, 3, 4, 5] True 10 3 = (2, 5, [4, 5])"
  using char_read_slice [of 3 "[1, 2, 3, 4, 5]" 10] by (simp add: Let_def)

end
