(* ===== verification/Kernel.thy ===== *)
theory Kernel
  imports CharDev
begin

text \<open>
  The kernel services the NDP driver relies on and that are not part of the repository: coherent DMA
  memory, virtual mappings, small allocations and the device tree library.  They are a parameter of
  the model: \<open>kw_alloc\<close> gives, for the n-th request of a run, the address the kernel returns or None
  for a failure.  Beside it the record keeps what the driver asked for: the objects that are
  allocated and not yet freed, the number of frees of an object that is not live, the pages behind
  each virtual mapping, the registered mappable areas of the character device and the device-tree
  properties that were set (newest first).
\<close>

datatype kobj = KDma u64 u64 | KVmap u64

record ('i, 'm) kworld =
  kw_alloc :: "nat \<Rightarrow> u64 option"
  kw_calls :: nat
  kw_live :: "kobj list"
  kw_bad_frees :: nat
  kw_vmap :: "u64 \<Rightarrow> u64 list"
  kw_mmaps :: "'m nfb_char_mmap_mod list"
  kw_fdt :: "('i \<times> string \<times> u64) list"

definition kw_take :: "(u64 \<Rightarrow> kobj) \<Rightarrow> ('i, 'm) kworld \<Rightarrow> u64 option \<times> ('i, 'm) kworld" where
  "kw_take mk w =
     (case kw_alloc w (kw_calls w) of
        None \<Rightarrow> (None, w\<lparr>kw_calls := Suc (kw_calls w)\<rparr>)
      | Some a \<Rightarrow> (Some a, w\<lparr>kw_calls := Suc (kw_calls w), kw_live := mk a # kw_live w\<rparr>))"

definition kw_drop :: "kobj \<Rightarrow> ('i, 'm) kworld \<Rightarrow> ('i, 'm) kworld" where
  "kw_drop ob w =
     (if ob \<in> set (kw_live w) then w\<lparr>kw_live := remove1 ob (kw_live w)\<rparr>
      else w\<lparr>kw_bad_frees := Suc (kw_bad_frees w)\<rparr>)"

definition dma_alloc_coherent :: "u64 \<Rightarrow> ('i, 'm) kworld \<Rightarrow> u64 option \<times> ('i, 'm) kworld" where
  "dma_alloc_coherent sz = kw_take (\<lambda>a. KDma a sz)"

text \<open>Freeing a null pointer counts as a bad free: the DMA interface does not accept it.\<close>

definition dma_free_coherent :: "u64 \<Rightarrow> u64 option \<Rightarrow> ('i, 'm) kworld \<Rightarrow> ('i, 'm) kworld" where
  "dma_free_coherent sz addr w =
     (case addr of None \<Rightarrow> w\<lparr>kw_bad_frees := Suc (kw_bad_frees w)\<rparr> | Some a \<Rightarrow> kw_drop (KDma a sz) w)"

text \<open>\<open>vmap\<close> makes the given pages contiguous at the returned address.\<close>

definition vmap :: "u64 list \<Rightarrow> ('i, 'm) kworld \<Rightarrow> u64 option \<times> ('i, 'm) kworld" where
  "vmap pages w =
     (case kw_take KVmap w of
        (None, w1) \<Rightarrow> (None, w1)
      | (Some a, w1) \<Rightarrow> (Some a, w1\<lparr>kw_vmap := (kw_vmap w1)(a := pages)\<rparr>))"

text \<open>\<open>vunmap(NULL)\<close> does nothing.\<close>

definition vunmap :: "u64 option \<Rightarrow> ('i, 'm) kworld \<Rightarrow> ('i, 'm) kworld" where
  "vunmap addr w = (case addr of None \<Rightarrow> w | Some a \<Rightarrow> kw_drop (KVmap a) w)"

text \<open>A small allocation whose lifetime ends before the function returns, or which is never leaked.\<close>

definition kmalloc_ok :: "('i, 'm) kworld \<Rightarrow> bool \<times> ('i, 'm) kworld" where
  "kmalloc_ok w = (kw_alloc w (kw_calls w) \<noteq> None, w\<lparr>kw_calls := Suc (kw_calls w)\<rparr>)"

definition fdt_setprop :: "'i \<Rightarrow> string \<Rightarrow> u64 \<Rightarrow> ('i, 'm) kworld \<Rightarrow> ('i, 'm) kworld" where
  "fdt_setprop node prop val w = w\<lparr>kw_fdt := (node, prop, val) # kw_fdt w\<rparr>"

definition kw_register_mmap :: "u64 \<Rightarrow> 'm \<Rightarrow> u64 \<Rightarrow> ('i, 'm) kworld \<Rightarrow> int \<times> u64 \<times> ('i, 'm) kworld" where
  "kw_register_mmap sz m offset w =
     (if sz = 0 then (- EINVAL, offset, w)
      else case kmalloc_ok w of (ok, w1) \<Rightarrow>
        case nfb_char_register_mmap ok sz m (kw_mmaps w1) of (ret, off, ms) \<Rightarrow>
          (ret, case_option offset id off, w1\<lparr>kw_mmaps := ms\<rparr>))"

definition kw_unregister_mmap :: "u64 \<Rightarrow> ('i, 'm) kworld \<Rightarrow> ('i, 'm) kworld" where
  "kw_unregister_mmap offset w =
     w\<lparr>kw_mmaps := snd (nfb_char_unregister_mmap offset (kw_mmaps w))\<rparr>"

section \<open>Acquire and release with rollback\<close>

text \<open>
  The interface of everything that is acquired and has to be given back: one law per operation on
  the collection of live resources, and one on the rest of the state, which stays as it is.  \<open>acquire_all\<close> is the loop the driver writes for an array of
  buffers: acquire one after the other, and on the first failure give back the ones acquired so far.
\<close>

locale resource =
  fixes acquire :: "'s \<Rightarrow> 'r option \<times> 's"
    and release :: "'r \<Rightarrow> 's \<Rightarrow> 's"
    and live :: "'s \<Rightarrow> 'r multiset"
    and rest :: "'s \<Rightarrow> 'o"
  assumes acquire_Some: "acquire s = (Some r, s') \<Longrightarrow> live s' = add_mset r (live s)"
    and acquire_None: "acquire s = (None, s') \<Longrightarrow> live s' = live s"
    and release_live: "r \<in># live s \<Longrightarrow> live (release r s) = live s - {#r#}"
    and acquire_rest: "acquire s = (x, s') \<Longrightarrow> rest s' = rest s"
    and release_rest: "r \<in># live s \<Longrightarrow> rest (release r s) = rest s"
begin

primrec acquire_all :: "nat \<Rightarrow> 'r list \<Rightarrow> 's \<Rightarrow> 'r list option \<times> 's" where
  "acquire_all 0 got s = (Some (rev got), s)"
| "acquire_all (Suc n) got s =
     (case acquire s of
        (None, s1) \<Rightarrow> (None, fold release got s1)
      | (Some r, s1) \<Rightarrow> acquire_all n (r # got) s1)"

lemma release_all:
  assumes "mset rs \<subseteq># live s"
  shows "live (fold release rs s) = live s - mset rs" and "rest (fold release rs s) = rest s"
proof -
  have "live (fold release rs s) = live s - mset rs \<and> rest (fold release rs s) = rest s"
    using assms
  proof (induction rs arbitrary: s)
    case (Cons r rs)
    then have r: "r \<in># live s" by (auto dest: mset_subset_eqD)
    then have l: "live (release r s) = live s - {#r#}" by (rule release_live)
    with Cons.prems have "mset rs \<subseteq># live (release r s)"
      by (simp add: insert_subset_eq_iff)
    from Cons.IH [OF this] l release_rest [OF r] show ?case by simp
  qed simp
  then show "live (fold release rs s) = live s - mset rs" and "rest (fold release rs s) = rest s" by simp_all
qed

lemma acquire_all_live:
  assumes "acquire_all n got s = (res, s')" and "mset got \<subseteq># live s"
  shows "(\<forall>rs. res = Some rs \<longrightarrow> live s' = (live s - mset got) + mset rs \<and> length rs = n + length got) \<and>
    (res = None \<longrightarrow> live s' = live s - mset got) \<and> rest s' = rest s"
  using assms
proof (induction n arbitrary: got s)
  case 0
  then show ?case by auto
next
  case (Suc n)
  obtain r s1 where a: "acquire s = (r, s1)" by force
  show ?case
  proof (cases r)
    case None
    with a Suc.prems acquire_None [of s s1] acquire_rest [OF a] show ?thesis
      by (auto simp: release_all)
  next
    case (Some x)
    then have l: "live s1 = add_mset x (live s)" using a acquire_Some by simp
    have "acquire_all n (x # got) s1 = (res, s')" using Suc.prems(1) a Some by simp
    moreover have "mset (x # got) \<subseteq># live s1" using Suc.prems(2) l by simp
    ultimately show ?thesis using Suc.IH [of "x # got" s1] l acquire_rest [OF a] by simp
  qed
qed

end

lemma kw_take_cases:
  "kw_take mk w = (r, w') \<Longrightarrow>
   kw_live w' = (case r of None \<Rightarrow> kw_live w | Some a \<Rightarrow> mk a # kw_live w) \<and>
   kw_mmaps w' = kw_mmaps w \<and> kw_bad_frees w' = kw_bad_frees w \<and> kw_fdt w' = kw_fdt w \<and> kw_vmap w' = kw_vmap w"
  by (auto simp: kw_take_def split: option.splits)

lemma kw_drop_live:
  "ob \<in> set (kw_live w) \<Longrightarrow> kw_drop ob w = w\<lparr>kw_live := remove1 ob (kw_live w)\<rparr>"
  by (simp add: kw_drop_def)

interpretation dma: resource
  "\<lambda>w. case dma_alloc_coherent sz w of (r, w') \<Rightarrow> (map_option (\<lambda>a. KDma a sz) r, w')"
  kw_drop
  "\<lambda>w. mset (kw_live w)"
  "\<lambda>w. (kw_mmaps w, kw_bad_frees w, kw_fdt w, kw_vmap w)"
  for sz
proof (unfold_locales, goal_cases)
  case (1 s r s')
  then show ?case
    by (auto simp: dma_alloc_coherent_def split: prod.splits dest!: kw_take_cases)
next
  case (2 s s')
  then show ?case
    by (auto simp: dma_alloc_coherent_def split: prod.splits dest!: kw_take_cases)
next
  case (3 r s)
  then show ?case by (simp add: kw_drop_def)
next
  case (4 s x s')
  then show ?case
    by (auto simp: dma_alloc_coherent_def split: prod.splits dest!: kw_take_cases)
next
  case (5 r s)
  then show ?case by (simp add: kw_drop_def)
qed

end
