(* ===== verification/NdpTypes.thy ===== *)
theory NdpTypes
  imports Kernel
begin

text \<open>
  The data of the NDP (network data path) driver: \<open>drivers/kernel/drivers/nfb/ndp/ndp.h\<close> and the ioctl
  structures of \<open>include/linux/nfb/ndp.h\<close>.

  A subscription is named by a number, the channel's list of running subscriptions is a list of such
  names.  A channel is embedded in the structure of its DMA controller, which the driver reaches with
  \<open>container_of\<close>; here the controller is the field \<open>ch_ctrl\<close> of the channel, and the table of
  controller operations is a record of functions on channels.
\<close>

type_synonym sub_id = nat

definition NDP_CHANNEL_TYPE_RX :: "2 word" where "NDP_CHANNEL_TYPE_RX = 0"
definition NDP_CHANNEL_TYPE_TX :: "2 word" where "NDP_CHANNEL_TYPE_TX = 1"

lemma channel_type_distinct [simp]:
  "NDP_CHANNEL_TYPE_TX \<noteq> NDP_CHANNEL_TYPE_RX" "NDP_CHANNEL_TYPE_RX \<noteq> NDP_CHANNEL_TYPE_TX"
  by (simp_all add: NDP_CHANNEL_TYPE_RX_def NDP_CHANNEL_TYPE_TX_def)

definition NDP_CHANNEL_FLAG_DISCARD :: "'a::len word" where "NDP_CHANNEL_FLAG_DISCARD = 1"
definition NDP_CHANNEL_FLAG_EXCLUSIVE :: "'a::len word" where "NDP_CHANNEL_FLAG_EXCLUSIVE = 2"
definition NDP_CHANNEL_FLAG_USE_HEADER :: "'a::len word" where "NDP_CHANNEL_FLAG_USE_HEADER = 4"
definition NDP_CHANNEL_FLAG_USE_OFFSET :: "'a::len word" where "NDP_CHANNEL_FLAG_USE_OFFSET = 8"
definition NDP_CHANNEL_FLAG_USERSPACE :: "'a::len word" where "NDP_CHANNEL_FLAG_USERSPACE = 16"

lemmas ndp_flag_defs =
  NDP_CHANNEL_FLAG_DISCARD_def NDP_CHANNEL_FLAG_EXCLUSIVE_def NDP_CHANNEL_FLAG_USE_HEADER_def
  NDP_CHANNEL_FLAG_USE_OFFSET_def NDP_CHANNEL_FLAG_USERSPACE_def

text \<open>The bit fields of \<open>struct ndp_channel_id\<close>: 30 bits of index and 2 bits of type.\<close>

record ndp_channel_id =
  cid_index :: "30 word"
  cid_type :: "2 word"

datatype mmap_handler =
    ndp_ring_mmap_of ndp_channel_id
  | ndp_ctrl_hdr_mmap_of ndp_channel_id
  | ndp_ctrl_off_mmap_of ndp_channel_id
  | ndp_ctrl_upd_mmap_of ndp_channel_id
  | other_mmap nat

type_synonym world = "(ndp_channel_id, mmap_handler) kworld"

record ndp_block =
  blk_size :: u64
  blk_phys :: u64

text \<open>The device of a ring is represented by its NUMA node; None is the null pointer.\<close>

record ndp_ring =
  ring_size :: u64
  ring_mmap_size :: u64
  ring_mmap_offset :: u64
  ring_block_count :: u64
  ring_blocks :: "ndp_block list"
  ring_dev :: "int option"
  ring_vmap :: "u64 option"

datatype sub_status = NDP_SUB_STATUS_INIT | NDP_SUB_STATUS_SUBSCRIBED | NDP_SUB_STATUS_RUNNING

record ndp_subscription =
  sub_channel :: nat
  sub_status :: sub_status
  sub_hwptr :: u64
  sub_swptr :: u64
  sub_subscriber :: nat

record ndp_subscription_sync =
  sync_id :: sub_id
  sync_flags :: u32
  sync_size :: u64
  sync_hwptr :: u64
  sync_swptr :: u64

record ndp_channel_request =
  req_id :: "sub_id option"
  req_index :: u32
  req_type :: u32
  req_flags :: u32

record 'c ndp_channel =
  ch_locked_sub :: "sub_id option"
  ch_hwptr :: u64
  ch_swptr :: u64
  ch_ptrmask :: u64
  ch_start_count :: u32
  ch_subscriptions_count :: u32
  ch_flags :: u32
  ch_ring :: ndp_ring
  ch_list_subscriptions :: "sub_id list"
  ch_id :: ndp_channel_id
  ch_req_block_count :: u64
  ch_req_block_size :: u64
  ch_ctrl :: 'c

text \<open>A channel as \<open>kzalloc\<close> returns it, in a controller structure \<open>c\<close>, and a world with nothing allocated.\<close>

definition zero_ring :: ndp_ring where
  "zero_ring = \<lparr>ring_size = 0, ring_mmap_size = 0, ring_mmap_offset = 0, ring_block_count = 0,
     ring_blocks = [], ring_dev = None, ring_vmap = None\<rparr>"

definition zero_channel :: "'c \<Rightarrow> 'c ndp_channel" where
  "zero_channel c = \<lparr>ch_locked_sub = None, ch_hwptr = 0, ch_swptr = 0, ch_ptrmask = 0, ch_start_count = 0,
     ch_subscriptions_count = 0, ch_flags = 0, ch_ring = zero_ring, ch_list_subscriptions = [],
     ch_id = \<lparr>cid_index = 0, cid_type = NDP_CHANNEL_TYPE_RX\<rparr>, ch_req_block_count = 0,
     ch_req_block_size = 0, ch_ctrl = c\<rparr>"

definition empty_world :: "(nat \<Rightarrow> u64 option) \<Rightarrow> world" where
  "empty_world alloc = \<lparr>kw_alloc = alloc, kw_calls = 0, kw_live = [], kw_bad_frees = 0, kw_vmap = (\<lambda>_. []),
     kw_mmaps = [], kw_fdt = []\<rparr>"

text \<open>
  The operations of a controller.  \<open>op_start\<close> also gives the value stored through its \<open>hwptr\<close>
  argument, if any; \<open>op_stop\<close> gets the \<open>force\<close> argument; \<open>op_get_free_space\<close> gives None on a channel
  whose controller has no such entry in its table.
\<close>

record 'c ndp_channel_ops =
  op_start :: "'c ndp_channel \<Rightarrow> int \<times> u64 option \<times> 'c ndp_channel"
  op_stop :: "'c ndp_channel \<Rightarrow> bool \<Rightarrow> int \<times> 'c ndp_channel"
  op_attach_ring :: "'c ndp_channel \<Rightarrow> world \<Rightarrow> int \<times> 'c ndp_channel \<times> world"
  op_detach_ring :: "'c ndp_channel \<Rightarrow> world \<Rightarrow> 'c ndp_channel \<times> world"
  op_get_hwptr :: "'c ndp_channel \<Rightarrow> u64 \<times> 'c ndp_channel"
  op_set_swptr :: "'c ndp_channel \<Rightarrow> u64 \<Rightarrow> 'c ndp_channel"
  op_get_flags :: "'c ndp_channel \<Rightarrow> u64 \<times> 'c ndp_channel"
  op_set_flags :: "'c ndp_channel \<Rightarrow> u64 \<Rightarrow> u64 \<times> 'c ndp_channel"
  op_get_free_space :: "'c ndp_channel \<Rightarrow> u64 option"

definition ndp_tail_head_size :: "u64 \<Rightarrow> u64 \<Rightarrow> u64 \<Rightarrow> u64" where
  "ndp_tail_head_size head tail sz = (sz + head - tail) AND (sz - 1)"

definition ndp_head_tail_size :: "u64 \<Rightarrow> u64 \<Rightarrow> u64 \<Rightarrow> u64" where
  "ndp_head_tail_size head tail sz =
     (if head = tail then sz - 1
      else let ret = (sz + tail - head) AND (sz - 1) in if ret \<noteq> 0 then ret - 1 else ret)"

end
