(* ===== verification/Channel.thy ===== *)
theory Channel
  imports NdpTypes
begin

text \<open>
  A transmission channel shared by several subscriptions
  (\<open>drivers/kernel/drivers/nfb/ndp/channel.c\<close>): subscribing with flags, starting and stopping with a
  use count, and the two synchronisation operations that exchange ring pointers between the
  controller and the subscribers.  Each operation runs under the channel's mutex or spin lock and is
  an atomic step on the pair of the channel and the store of subscriptions.

  The locale \<open>channel_ctrl\<close> is what the channel relies on of the controller behind the operation
  table: the operations leave the channel's own bookkeeping alone, and a forced stop is final.
\<close>

type_synonym subs = "sub_id \<Rightarrow> ndp_subscription"

section \<open>Subscribe and unsubscribe\<close>

definition ndp_channel_get_discard :: "'c ndp_channel_ops \<Rightarrow> 'c ndp_channel \<Rightarrow> int \<times> 'c ndp_channel" where
  "ndp_channel_get_discard ops ch =
     (case op_get_flags ops ch of (flags, ch1) \<Rightarrow>
        (if flags AND NDP_CHANNEL_FLAG_DISCARD \<noteq> 0 then 1 else 0, ch1))"

text \<open>\<open>value\<close> is the number parsed from the sysfs string, None when there is no number.\<close>

definition ndp_channel_set_discard ::
  "'c ndp_channel_ops \<Rightarrow> int option \<Rightarrow> int \<Rightarrow> 'c ndp_channel \<Rightarrow> int \<times> 'c ndp_channel" where
  "ndp_channel_set_discard ops parsed len ch =
     (case parsed of
        None \<Rightarrow> (- EINVAL, ch)
      | Some val \<Rightarrow>
        (case op_get_flags ops ch of (flags, ch1) \<Rightarrow>
           let flags1 = (if val \<noteq> 0 then flags OR NDP_CHANNEL_FLAG_DISCARD
                         else flags AND NOT NDP_CHANNEL_FLAG_DISCARD) in
           case op_set_flags ops ch1 flags1 of (flags2, ch2) \<Rightarrow>
             (if flags1 \<noteq> flags2 then - EPERM else len, ch2)))"

text \<open>The flags go through the \<open>uint32_t\<close> of the request; the second component is its new content.\<close>

definition ndp_channel_subscribe ::
  "'c ndp_channel_ops \<Rightarrow> u32 \<Rightarrow> 'c ndp_channel \<Rightarrow> int \<times> u32 \<times> 'c ndp_channel" where
  "ndp_channel_subscribe ops flags ch =
     (let req_flags = (ucast flags :: u64);
          first = (ch_subscriptions_count ch = 0);
          ch1 = ch\<lparr>ch_subscriptions_count := ch_subscriptions_count ch + 1\<rparr>
      in case (if first then
          let msk = (NDP_CHANNEL_FLAG_EXCLUSIVE :: u32); keep = (ucast (NOT msk) :: u64) in
          case op_set_flags ops ch1 (req_flags AND keep) of (f, ch2) \<Rightarrow>
            let flags' = (ucast f :: u32) in
            if ucast flags' \<noteq> req_flags AND keep then (- EPERM, flags', ch2)
            else (0, flags', ch2\<lparr>ch_flags := ucast (req_flags AND ucast msk)\<rparr>)
        else
          case op_get_flags ops ch1 of (f, ch2) \<Rightarrow>
            let msk = (ucast f :: u32);
                ret = (if (flags OR ch_flags ch2) AND NDP_CHANNEL_FLAG_EXCLUSIVE \<noteq> 0 then - EPERM else 0);
                ret = (if flags XOR (ch_flags ch2 OR msk) \<noteq> 0 then - EPERM else ret)
            in (ret, flags, ch2))
      of (ret, flags', ch3) \<Rightarrow>
        (ret, flags',
         if ret \<noteq> 0 then ch3\<lparr>ch_subscriptions_count := ch_subscriptions_count ch3 - 1\<rparr> else ch3))"

definition ndp_channel_unsubscribe :: "'c ndp_channel \<Rightarrow> 'c ndp_channel" where
  "ndp_channel_unsubscribe ch = ch\<lparr>ch_subscriptions_count := ch_subscriptions_count ch - 1\<rparr>"

section \<open>Start and stop\<close>

definition ndp_channel_start ::
  "'c ndp_channel_ops \<Rightarrow> sub_id \<Rightarrow> 'c ndp_channel \<times> subs \<Rightarrow> int \<times> 'c ndp_channel \<times> subs" where
  "ndp_channel_start ops sub st =
     (case st of (ch, subs) \<Rightarrow>
      let first = (ch_start_count ch = 0);
          ch1 = ch\<lparr>ch_start_count := ch_start_count ch + 1\<rparr>
      in case (if first then
          case op_start ops ch1 of (ret, hwptr, ch2) \<Rightarrow>
            let ch3 = (case hwptr of None \<Rightarrow> ch2 | Some h \<Rightarrow> ch2\<lparr>ch_hwptr := h\<rparr>) in
            if ret \<noteq> 0 then (ret, ch3) else (0, ch3\<lparr>ch_swptr := ch_hwptr ch3\<rparr>)
        else (0, ch1))
      of (ret, ch4) \<Rightarrow>
        if ret \<noteq> 0 then (ret, ch4\<lparr>ch_start_count := ch_start_count ch4 - 1\<rparr>, subs)
        else (0, ch4\<lparr>ch_list_subscriptions := ch_list_subscriptions ch4 @ [sub]\<rparr>,
              subs(sub := (subs sub)\<lparr>sub_hwptr := ch_hwptr ch4, sub_swptr := ch_hwptr ch4\<rparr>)))"

definition ndp_channel_stop ::
  "'c ndp_channel_ops \<Rightarrow> sub_id \<Rightarrow> bool \<Rightarrow> 'c ndp_channel \<Rightarrow> int \<times> 'c ndp_channel" where
  "ndp_channel_stop ops sub force ch =
     (let ch1 = (if ch_locked_sub ch = Some sub then ch\<lparr>ch_locked_sub := None\<rparr> else ch);
          ch2 = ch1\<lparr>ch_start_count := ch_start_count ch1 - 1\<rparr>
      in case (if ch_start_count ch2 = 0 then
          case op_stop ops ch2 force of (ret, ch3) \<Rightarrow>
            if ret = - EAGAIN then (- EAGAIN, ch3\<lparr>ch_start_count := ch_start_count ch3 + 1\<rparr>)
            else (0, ch3)
        else (0, ch2))
      of (ret, ch4) \<Rightarrow>
        if ret \<noteq> 0 then (ret, ch4)
        else (0, ch4\<lparr>ch_list_subscriptions := remove1 sub (ch_list_subscriptions ch4)\<rparr>))"

section \<open>Pointer synchronisation\<close>

text \<open>The loop over the running subscriptions: the software pointer farthest behind the hardware.\<close>

fun farthest_swptr :: "subs \<Rightarrow> u64 \<Rightarrow> u64 \<Rightarrow> sub_id list \<Rightarrow> u64 \<Rightarrow> u64 \<Rightarrow> u64" where
  "farthest_swptr subs hwptr ptrmask [] max_lock swptr = swptr"
| "farthest_swptr subs hwptr ptrmask (list_sub # rest) max_lock swptr =
     (let sub_swptr = sub_swptr (subs list_sub);
          sub_lock = (hwptr - sub_swptr) AND ptrmask
      in if sub_lock > max_lock then farthest_swptr subs hwptr ptrmask rest sub_lock sub_swptr
         else farthest_swptr subs hwptr ptrmask rest max_lock swptr)"

text \<open>Both synchronisations tell the controller about a new software pointer only when it differs.\<close>

definition channel_update_swptr :: "'c ndp_channel_ops \<Rightarrow> u64 \<Rightarrow> 'c ndp_channel \<Rightarrow> 'c ndp_channel" where
  "channel_update_swptr ops p ch =
     (if p \<noteq> ch_swptr ch then op_set_swptr ops (ch\<lparr>ch_swptr := p\<rparr>) p else ch)"

definition ndp_channel_rxsync ::
  "'c ndp_channel_ops \<Rightarrow> sub_id \<Rightarrow> ndp_subscription_sync \<Rightarrow> 'c ndp_channel \<times> subs \<Rightarrow>
   ndp_subscription_sync \<times> 'c ndp_channel \<times> subs" where
  "ndp_channel_rxsync ops sub sync st =
     (case st of (ch, subs) \<Rightarrow>
      let subs1 = subs(sub := (subs sub)\<lparr>sub_swptr := sync_swptr sync\<rparr>);
          swptr = farthest_swptr subs1 (ch_hwptr ch) (ch_ptrmask ch) (ch_list_subscriptions ch) 0
                    (sub_swptr (subs1 sub));
          ch1 = channel_update_swptr ops swptr ch
      in case op_get_hwptr ops ch1 of (hwptr, ch2) \<Rightarrow>
        (sync\<lparr>sync_hwptr := hwptr\<rparr>, ch2\<lparr>ch_hwptr := hwptr\<rparr>,
         subs1(sub := (subs1 sub)\<lparr>sub_hwptr := hwptr\<rparr>)))"

text \<open>
  The part that both lock branches of \<open>ndp_channel_txsync\<close> share: read the hardware pointer and the
  free space, and cut the requested length to the free part of the ring.
\<close>

definition txsync_update_hwptr ::
  "'c ndp_channel_ops \<Rightarrow> ndp_subscription_sync \<Rightarrow> 'c ndp_channel \<Rightarrow>
   ndp_subscription_sync \<times> 'c ndp_channel" where
  "txsync_update_hwptr ops sync ch =
     (case op_get_hwptr ops ch of (hwptr, ch1) \<Rightarrow>
      let ch2 = ch1\<lparr>ch_hwptr := hwptr\<rparr> in
      (case op_get_free_space ops ch2 of None \<Rightarrow> sync | Some space \<Rightarrow> sync\<lparr>sync_size := space\<rparr>, ch2))"

definition txsync_len :: "ndp_subscription \<Rightarrow> 'c ndp_channel \<Rightarrow> u64" where
  "txsync_len s ch =
     (let chlen = (ch_hwptr ch - ch_swptr ch - 1) AND ch_ptrmask ch;
          len = (sub_swptr s - sub_hwptr s) AND ch_ptrmask ch
      in min len chlen)"

definition ndp_channel_txsync ::
  "'c ndp_channel_ops \<Rightarrow> sub_id \<Rightarrow> ndp_subscription_sync \<Rightarrow> 'c ndp_channel \<times> subs \<Rightarrow>
   ndp_subscription_sync \<times> 'c ndp_channel \<times> subs" where
  "ndp_channel_txsync ops sub sync st =
     (case st of (ch, subs) \<Rightarrow>
      let s = (subs sub)\<lparr>sub_swptr := sync_swptr sync, sub_hwptr := sync_hwptr sync\<rparr>
      in case (if ch_locked_sub ch = Some sub then
          let ch1 = channel_update_swptr ops (sub_hwptr s) ch
          in case txsync_update_hwptr ops sync ch1 of (sync1, ch2) \<Rightarrow>
            let len = txsync_len s ch2;
                ch3 = (if len = 0 then ch2\<lparr>ch_locked_sub := None\<rparr> else ch2)
            in (sync1, ch3, s\<lparr>sub_hwptr := ch_swptr ch3,
                              sub_swptr := (ch_swptr ch3 + len) AND ch_ptrmask ch3\<rparr>)
        else if ch_locked_sub ch = None then
          case txsync_update_hwptr ops sync ch of (sync1, ch2) \<Rightarrow>
            let len = txsync_len s ch2;
                ch3 = (if len \<noteq> 0 then ch2\<lparr>ch_locked_sub := Some sub\<rparr> else ch2)
            in (sync1, ch3, s\<lparr>sub_hwptr := ch_swptr ch3,
                              sub_swptr := (ch_swptr ch3 + len) AND ch_ptrmask ch3\<rparr>)
        else (sync, ch, s\<lparr>sub_hwptr := ch_swptr ch, sub_swptr := ch_swptr ch\<rparr>))
      of (sync1, ch4, s1) \<Rightarrow>
        (sync1\<lparr>sync_hwptr := sub_hwptr s1, sync_swptr := sub_swptr s1\<rparr>, ch4, subs(sub := s1)))"

definition ndp_channel_sync ::
  "'c ndp_channel_ops \<Rightarrow> sub_id \<Rightarrow> ndp_subscription_sync \<Rightarrow> 'c ndp_channel \<times> subs \<Rightarrow>
   ndp_subscription_sync \<times> 'c ndp_channel \<times> subs" where
  "ndp_channel_sync ops sub sync st =
     (if cid_type (ch_id (fst st)) = NDP_CHANNEL_TYPE_RX then ndp_channel_rxsync ops sub sync st
      else ndp_channel_txsync ops sub sync st)"

section \<open>What the channel relies on of a controller\<close>

definition same_channel :: "'c ndp_channel \<Rightarrow> 'c ndp_channel \<Rightarrow> bool" where
  "same_channel ch ch' \<longleftrightarrow> ch' = ch\<lparr>ch_ctrl := ch_ctrl ch'\<rparr>"

locale channel_ctrl =
  fixes ops :: "'c ndp_channel_ops"
  assumes start_frame: "op_start ops ch = (r, h, ch') \<Longrightarrow> same_channel ch ch'"
    and start_hwptr: "op_start ops ch = (0, h, ch') \<Longrightarrow> h \<noteq> None"
    and stop_frame: "op_stop ops ch force = (r, ch') \<Longrightarrow> same_channel ch ch'"
    and stop_forced: "fst (op_stop ops ch True) \<noteq> - EAGAIN"
    and get_hwptr_frame: "op_get_hwptr ops ch = (p, ch') \<Longrightarrow> same_channel ch ch'"
    and set_swptr_frame: "same_channel ch (op_set_swptr ops ch p)"
    and get_flags_frame: "op_get_flags ops ch = (f, ch') \<Longrightarrow> same_channel ch ch'"
    and set_flags_frame: "op_set_flags ops ch f = (f', ch') \<Longrightarrow> same_channel ch ch'"
begin

lemma same_channel_sel:
  assumes "same_channel ch ch'"
  shows "ch_locked_sub ch' = ch_locked_sub ch" "ch_hwptr ch' = ch_hwptr ch" "ch_swptr ch' = ch_swptr ch"
    "ch_ptrmask ch' = ch_ptrmask ch" "ch_start_count ch' = ch_start_count ch"
    "ch_subscriptions_count ch' = ch_subscriptions_count ch" "ch_flags ch' = ch_flags ch"
    "ch_list_subscriptions ch' = ch_list_subscriptions ch" "ch_id ch' = ch_id ch" "ch_ring ch' = ch_ring ch"
  using assms unfolding same_channel_def by (metis ndp_channel.select_convs ndp_channel.surjective ndp_channel.update_convs(13))+

lemmas start_sel = same_channel_sel [OF start_frame]
lemmas stop_sel = same_channel_sel [OF stop_frame]
lemmas get_hwptr_sel = same_channel_sel [OF get_hwptr_frame]
lemmas set_swptr_sel = same_channel_sel [OF set_swptr_frame]
lemmas get_flags_sel = same_channel_sel [OF get_flags_frame]
lemmas set_flags_sel = same_channel_sel [OF set_flags_frame]

text \<open>Receive: the pointer handed to the controller is the one farthest behind.\<close>

lemma update_swptr_step:
  "\<exists>c. channel_update_swptr ops p ch = ch\<lparr>ch_swptr := p, ch_ctrl := c\<rparr>"
proof (cases "p = ch_swptr ch")
  case True
  then show ?thesis by (intro exI [of _ "ch_ctrl ch"]) (simp add: channel_update_swptr_def)
next
  case False
  then show ?thesis using set_swptr_frame [of "ch\<lparr>ch_swptr := p\<rparr>" p] by (auto simp: same_channel_def channel_update_swptr_def)
qed

lemma get_hwptr_step:
  "\<exists>h c. op_get_hwptr ops ch = (h, ch\<lparr>ch_ctrl := c\<rparr>)"
  using get_hwptr_frame [of ch "fst (op_get_hwptr ops ch)" "snd (op_get_hwptr ops ch)"]
  unfolding same_channel_def by (metis prod.collapse)

lemma rxsync_result:
  assumes "ndp_channel_rxsync ops sub sync (ch, subs) = (sync', ch', subs')"
  defines "subs1 \<equiv> subs(sub := (subs sub)\<lparr>sub_swptr := sync_swptr sync\<rparr>)"
  defines "p \<equiv> farthest_swptr subs1 (ch_hwptr ch) (ch_ptrmask ch) (ch_list_subscriptions ch) 0 (sync_swptr sync)"
  shows "\<exists>h c. ch' = ch\<lparr>ch_swptr := p, ch_ctrl := c, ch_hwptr := h\<rparr> \<and>
    sync' = sync\<lparr>sync_hwptr := h\<rparr> \<and>
    subs' = subs(sub := (subs sub)\<lparr>sub_swptr := sync_swptr sync, sub_hwptr := h\<rparr>)"
proof -
  obtain c1 where c1: "channel_update_swptr ops p ch =
      ch\<lparr>ch_swptr := p, ch_ctrl := c1\<rparr>"
    using update_swptr_step by blast
  obtain h c where h: "op_get_hwptr ops (ch\<lparr>ch_swptr := p, ch_ctrl := c1\<rparr>) =
      (h, ch\<lparr>ch_swptr := p, ch_ctrl := c1\<rparr>\<lparr>ch_ctrl := c\<rparr>)"
    using get_hwptr_step by blast
  have sw: "sub_swptr (subs1 sub) = sync_swptr sync" by (simp add: subs1_def)
  have "ndp_channel_rxsync ops sub sync (ch, subs) =
    (sync\<lparr>sync_hwptr := h\<rparr>, ch\<lparr>ch_swptr := p, ch_ctrl := c1\<rparr>\<lparr>ch_ctrl := c\<rparr>\<lparr>ch_hwptr := h\<rparr>,
     subs1(sub := (subs1 sub)\<lparr>sub_hwptr := h\<rparr>))"
    unfolding ndp_channel_rxsync_def Let_def prod.case subs1_def [symmetric] sw p_def [symmetric] c1 h ..
  with assms(1) show ?thesis by (intro exI [of _ h] exI [of _ c]) (auto simp: subs1_def)
qed

text \<open>Transmit: the lock decides whose request is looked at.\<close>

lemma txsync_update_step:
  "\<exists>h c z. txsync_update_hwptr ops sync ch = (sync\<lparr>sync_size := z\<rparr>, ch\<lparr>ch_ctrl := c, ch_hwptr := h\<rparr>)"
proof -
  obtain h c where h: "op_get_hwptr ops ch = (h, ch\<lparr>ch_ctrl := c\<rparr>)" using get_hwptr_step by blast
  show ?thesis
  proof (cases "op_get_free_space ops (ch\<lparr>ch_ctrl := c, ch_hwptr := h\<rparr>)")
    case None
    with h show ?thesis
      by (intro exI [of _ h] exI [of _ c] exI [of _ "sync_size sync"]) (simp add: txsync_update_hwptr_def)
  next
    case (Some space)
    with h show ?thesis by (auto simp: txsync_update_hwptr_def Let_def)
  qed
qed

lemma txsync_other_locked:
  assumes "ch_locked_sub ch = Some other" and "other \<noteq> sub"
  shows "ndp_channel_txsync ops sub sync (ch, subs) =
    (sync\<lparr>sync_hwptr := ch_swptr ch, sync_swptr := ch_swptr ch\<rparr>, ch,
     subs(sub := (subs sub)\<lparr>sub_hwptr := ch_swptr ch, sub_swptr := ch_swptr ch\<rparr>))"
  using assms by (simp add: ndp_channel_txsync_def Let_def)

text \<open>The state after a request of the owner, or of anybody while the channel is free.\<close>

lemma txsync_own_or_free:
  assumes "ndp_channel_txsync ops sub sync (ch, subs) = (sync', ch', subs')"
    and "ch_locked_sub ch = Some sub \<or> ch_locked_sub ch = None"
  defines "p \<equiv> (if ch_locked_sub ch = Some sub then sync_hwptr sync else ch_swptr ch)"
  shows "\<exists>h c z. let len = min ((sync_swptr sync - sync_hwptr sync) AND ch_ptrmask ch)
                            ((h - p - 1) AND ch_ptrmask ch);
                     e = (p + len) AND ch_ptrmask ch in
    ch' = ch\<lparr>ch_swptr := p, ch_ctrl := c, ch_hwptr := h,
             ch_locked_sub := if len = 0 then None else Some sub\<rparr> \<and>
    sync' = sync\<lparr>sync_size := z, sync_hwptr := p, sync_swptr := e\<rparr> \<and>
    subs' = subs(sub := (subs sub)\<lparr>sub_hwptr := p, sub_swptr := e\<rparr>)"
proof (cases "ch_locked_sub ch = Some sub")
  case True
  then have p: "p = sync_hwptr sync" by (simp add: p_def)
  obtain c1 where c1: "channel_update_swptr ops p ch =
      ch\<lparr>ch_swptr := p, ch_ctrl := c1\<rparr>"
    using update_swptr_step by blast
  obtain h c z where h: "txsync_update_hwptr ops sync (ch\<lparr>ch_swptr := p, ch_ctrl := c1\<rparr>) =
      (sync\<lparr>sync_size := z\<rparr>, ch\<lparr>ch_swptr := p, ch_ctrl := c1\<rparr>\<lparr>ch_ctrl := c, ch_hwptr := h\<rparr>)"
    using txsync_update_step by blast
  let ?ch = "ch\<lparr>ch_swptr := p, ch_ctrl := c1\<rparr>\<lparr>ch_ctrl := c, ch_hwptr := h\<rparr>"
  let ?len = "min ((sync_swptr sync - sync_hwptr sync) AND ch_ptrmask ch) ((h - p - 1) AND ch_ptrmask ch)"
  have same: "(if l = 0 then ?ch\<lparr>ch_locked_sub := None\<rparr> else ?ch) =
      ?ch\<lparr>ch_locked_sub := if l = 0 then None else Some sub\<rparr>" for l :: u64
    using True by (cases ch) simp
  have "ndp_channel_txsync ops sub sync (ch, subs) =
    (sync\<lparr>sync_size := z, sync_hwptr := p, sync_swptr := (p + ?len) AND ch_ptrmask ch\<rparr>,
     ?ch\<lparr>ch_locked_sub := if ?len = 0 then None else Some sub\<rparr>,
     subs(sub := (subs sub)\<lparr>sub_hwptr := p, sub_swptr := (p + ?len) AND ch_ptrmask ch\<rparr>))"
    using c1 [unfolded p] h [unfolded p] True same [unfolded p]
    unfolding p ndp_channel_txsync_def txsync_len_def Let_def by simp
  with assms(1) show ?thesis
    unfolding Let_def by - (rule exI [of _ h], rule exI [of _ c], rule exI [of _ z], auto)
next
  case False
  with assms(2) have free: "ch_locked_sub ch = None" and p: "p = ch_swptr ch" by (simp_all add: p_def)
  obtain h c z where h: "txsync_update_hwptr ops sync ch =
      (sync\<lparr>sync_size := z\<rparr>, ch\<lparr>ch_ctrl := c, ch_hwptr := h\<rparr>)"
    using txsync_update_step by blast
  let ?ch = "ch\<lparr>ch_ctrl := c, ch_hwptr := h\<rparr>"
  let ?len = "min ((sync_swptr sync - sync_hwptr sync) AND ch_ptrmask ch) ((h - p - 1) AND ch_ptrmask ch)"
  have same: "(if l \<noteq> 0 then ?ch\<lparr>ch_locked_sub := Some sub\<rparr> else ?ch) =
      ch\<lparr>ch_swptr := p, ch_ctrl := c, ch_hwptr := h, ch_locked_sub := if l = 0 then None else Some sub\<rparr>"
    for l :: u64
    using free by (cases ch) (simp add: p)
  have "ndp_channel_txsync ops sub sync (ch, subs) =
    (sync\<lparr>sync_size := z, sync_hwptr := p, sync_swptr := (p + ?len) AND ch_ptrmask ch\<rparr>,
     ch\<lparr>ch_swptr := p, ch_ctrl := c, ch_hwptr := h, ch_locked_sub := if ?len = 0 then None else Some sub\<rparr>,
     subs(sub := (subs sub)\<lparr>sub_hwptr := p, sub_swptr := (p + ?len) AND ch_ptrmask ch\<rparr>))"
    using h free same [unfolded p]
    unfolding p ndp_channel_txsync_def txsync_len_def Let_def by simp
  with assms(1) show ?thesis
    unfolding Let_def by - (rule exI [of _ h], rule exI [of _ c], rule exI [of _ z], auto)
qed

lemma txsync_frame:
  assumes "ndp_channel_txsync ops sub sync (ch, subs) = (sync', ch', subs')"
  shows "\<exists>p h c l s. ch' = ch\<lparr>ch_swptr := p, ch_ctrl := c, ch_hwptr := h, ch_locked_sub := l\<rparr> \<and>
    subs' = subs(sub := (subs sub)\<lparr>sub_hwptr := p, sub_swptr := s\<rparr>) \<and>
    (l = ch_locked_sub ch \<or> l = None \<or> l = Some sub)"
proof (cases "ch_locked_sub ch = Some sub \<or> ch_locked_sub ch = None")
  case True
  from txsync_own_or_free [OF assms True] show ?thesis unfolding Let_def
    by - (elim exE conjE, intro exI conjI, assumption, assumption, simp)
next
  case False
  then obtain other where "ch_locked_sub ch = Some other" "other \<noteq> sub" by auto
  from txsync_other_locked [OF this] assms have
    "ch' = ch\<lparr>ch_swptr := ch_swptr ch, ch_ctrl := ch_ctrl ch, ch_hwptr := ch_hwptr ch, ch_locked_sub := ch_locked_sub ch\<rparr>"
    "subs' = subs(sub := (subs sub)\<lparr>sub_hwptr := ch_swptr ch, sub_swptr := ch_swptr ch\<rparr>)"
    by auto
  then show ?thesis by blast
qed

end

section \<open>The farthest software pointer\<close>

lemma farthest_swptr_bound:
  assumes "max_lock \<le> (hw - swptr) AND m"
  shows "max_lock \<le> (hw - farthest_swptr subs hw m ss max_lock swptr) AND m \<and>
    (\<forall>s \<in> set ss. (hw - sub_swptr (subs s)) AND m \<le> (hw - farthest_swptr subs hw m ss max_lock swptr) AND m)"
  using assms
proof (induction subs hw m ss max_lock swptr rule: farthest_swptr.induct)
  case (2 subs hw m s rest max_lock swptr)
  let ?l = "(hw - sub_swptr (subs s)) AND m"
  show ?case
  proof (cases "?l > max_lock")
    case True
    with 2(1)[OF refl refl] show ?thesis by (auto simp: Let_def)
  next
    case False
    then have "?l \<le> max_lock" by simp
    with 2(2)[OF refl refl] False 2(3) show ?thesis by (auto simp: Let_def intro: order_trans)
  qed
qed simp

lemma farthest_swptr_attained:
  "farthest_swptr subs hw m ss max_lock swptr = swptr \<or>
   farthest_swptr subs hw m ss max_lock swptr \<in> (\<lambda>s. sub_swptr (subs s)) ` set ss"
  by (induction subs hw m ss max_lock swptr rule: farthest_swptr.induct) (auto simp: Let_def)

section \<open>Windows of the transmitting subscribers\<close>

text \<open>The window of a subscription is the part of the ring between its two pointers that it may write.\<close>

definition tx_window :: "nat \<Rightarrow> ndp_subscription \<Rightarrow> u64" where
  "tx_window k s = (sub_swptr s - sub_hwptr s) AND mask k"

lemma min_mask_masked:
  "min (a AND mask k) b AND mask k = min (a AND mask k) b" for a b :: u64
proof -
  have "unat (min (a AND mask k) b) < 2 ^ k"
    using and_mask_less [of a k] by (auto simp: min_def word_le_nat_alt)
  then show ?thesis by (rule and_mask_eq_self)
qed

lemma tx_window_grant:
  "tx_window k (s\<lparr>sub_hwptr := p, sub_swptr := (p + min (a AND mask k) b) AND mask k\<rparr>) =
     min (a AND mask k) b"
  by (simp add: tx_window_def mask_eqs min_mask_masked)

context channel_ctrl
begin

lemma rxsync_never_early:
  assumes "ndp_channel_rxsync ops sub sync (ch, subs) = (sync', ch', subs')"
    and "s \<in> set (ch_list_subscriptions ch)"
  shows "(ch_hwptr ch - sub_swptr (subs' s)) AND ch_ptrmask ch \<le>
         (ch_hwptr ch - ch_swptr ch') AND ch_ptrmask ch"
proof -
  let ?subs1 = "subs(sub := (subs sub)\<lparr>sub_swptr := sync_swptr sync\<rparr>)"
  from rxsync_result [OF assms(1)] have
    "ch_swptr ch' = farthest_swptr ?subs1 (ch_hwptr ch) (ch_ptrmask ch) (ch_list_subscriptions ch) 0 (sync_swptr sync)"
    "sub_swptr (subs' s) = sub_swptr (?subs1 s)" by auto
  then show ?thesis
    using farthest_swptr_bound [of 0 "ch_hwptr ch" "sync_swptr sync" "ch_ptrmask ch" ?subs1 "ch_list_subscriptions ch"]
      assms(2) by (simp del: fun_upd_apply)
qed

lemma rxsync_attained:
  assumes "ndp_channel_rxsync ops sub sync (ch, subs) = (sync', ch', subs')"
    and "sub \<in> set (ch_list_subscriptions ch)"
  shows "\<exists>s \<in> set (ch_list_subscriptions ch). ch_swptr ch' = sub_swptr (subs' s)"
proof -
  let ?subs1 = "subs(sub := (subs sub)\<lparr>sub_swptr := sync_swptr sync\<rparr>)"
  let ?p = "farthest_swptr ?subs1 (ch_hwptr ch) (ch_ptrmask ch) (ch_list_subscriptions ch) 0 (sync_swptr sync)"
  from rxsync_result [OF assms(1)] have p: "ch_swptr ch' = ?p"
    and same: "\<And>s. sub_swptr (subs' s) = sub_swptr (?subs1 s)" by auto
  have "?p = sub_swptr (?subs1 sub) \<or> ?p \<in> (\<lambda>s. sub_swptr (?subs1 s)) ` set (ch_list_subscriptions ch)"
    using farthest_swptr_attained [of ?subs1 "ch_hwptr ch" "ch_ptrmask ch" "ch_list_subscriptions ch" 0 "sync_swptr sync"]
    by simp
  then show ?thesis unfolding p same using assms(2) by blast
qed

end

end
