(* ===== verification/Subscription.thy ===== *)
theory Subscription
  imports Channel
begin

text \<open>
  Subscriptions, subscribers and the ioctl interface of the NDP driver
  (\<open>ndp/subscription.c\<close>, \<open>ndp/subscriber.c\<close>, \<open>ndp/char.c\<close>).

  The state is \<open>struct ndp\<close>: the channels in the order of \<open>list_channels\<close>, the subscribers (one for
  each opening of the character device) in the order of \<open>list_subscribers\<close>, and the stores of the
  subscriber and subscription structures, addressed by the value of the pointer.  The allocator is a
  parameter: the address \<open>kzalloc\<close> returned, or None.  One table \<open>ops\<close> stands for the tables of all
  channels; the operations find their controller in the channel.

  The step relation interleaves complete system calls and timer ticks of all applications.
\<close>

record ndp_subscriber =
  sbr_subscriptions :: "sub_id list"
  sbr_wake_rx :: bool
  sbr_timer :: bool

record 'c ndp =
  ndp_channels :: "'c ndp_channel list"
  ndp_subscribers :: "nat list"
  ndp_sbr :: "nat \<Rightarrow> ndp_subscriber"
  ndp_subs :: subs

section \<open>Subscriptions\<close>

definition ndp_subscription_rx_data_available :: "sub_id \<Rightarrow> 'c ndp \<Rightarrow> u64" where
  "ndp_subscription_rx_data_available s ndp = 0"

definition ndp_subscription_sync ::
  "'c ndp_channel_ops \<Rightarrow> sub_id \<Rightarrow> ndp_subscription_sync \<Rightarrow> 'c ndp \<Rightarrow> int \<times> ndp_subscription_sync \<times> 'c ndp" where
  "ndp_subscription_sync ops s sync ndp =
     (let c = sub_channel (ndp_subs ndp s) in
      if sub_status (ndp_subs ndp s) \<noteq> NDP_SUB_STATUS_RUNNING then (- EBADF, sync, ndp)
      else case ndp_channel_sync ops s sync (ndp_channels ndp ! c, ndp_subs ndp) of (sync1, ch, subs) \<Rightarrow>
        (0, sync1, ndp\<lparr>ndp_channels := (ndp_channels ndp)[c := ch], ndp_subs := subs\<rparr>))"

definition ndp_subscription_start ::
  "'c ndp_channel_ops \<Rightarrow> sub_id \<Rightarrow> ndp_subscription_sync \<Rightarrow> 'c ndp \<Rightarrow> int \<times> ndp_subscription_sync \<times> 'c ndp" where
  "ndp_subscription_start ops s sync ndp =
     (let c = sub_channel (ndp_subs ndp s) in
      if sub_status (ndp_subs ndp s) \<noteq> NDP_SUB_STATUS_SUBSCRIBED then (- EBADF, sync, ndp)
      else case ndp_channel_start ops s (ndp_channels ndp ! c, ndp_subs ndp) of (ret, ch, subs) \<Rightarrow>
        let ndp1 = ndp\<lparr>ndp_channels := (ndp_channels ndp)[c := ch], ndp_subs := subs\<rparr> in
        if ret \<noteq> 0 then (ret, sync, ndp1)
        else (0,
          if cid_type (ch_id ch) = NDP_CHANNEL_TYPE_RX
          then sync\<lparr>sync_hwptr := sub_hwptr (subs s), sync_swptr := sub_swptr (subs s)\<rparr> else sync,
          ndp1\<lparr>ndp_subs := subs(s := (subs s)\<lparr>sub_status := NDP_SUB_STATUS_RUNNING\<rparr>)\<rparr>))"

definition ndp_subscription_stop ::
  "'c ndp_channel_ops \<Rightarrow> sub_id \<Rightarrow> bool \<Rightarrow> 'c ndp \<Rightarrow> int \<times> 'c ndp" where
  "ndp_subscription_stop ops s force ndp =
     (let c = sub_channel (ndp_subs ndp s) in
      if sub_status (ndp_subs ndp s) \<noteq> NDP_SUB_STATUS_RUNNING then (0, ndp)
      else case ndp_channel_stop ops s False (ndp_channels ndp ! c) of (ret, ch) \<Rightarrow>
        if ret = - EAGAIN \<and> \<not> force then (ret, ndp\<lparr>ndp_channels := (ndp_channels ndp)[c := ch]\<rparr>)
        else
          let ch1 = (if ret = - EAGAIN then snd (ndp_channel_stop ops s True ch) else ch) in
          (0, ndp\<lparr>ndp_channels := (ndp_channels ndp)[c := ch1],
                  ndp_subs := (ndp_subs ndp)(s := (ndp_subs ndp s)\<lparr>sub_status := NDP_SUB_STATUS_SUBSCRIBED\<rparr>)\<rparr>))"

text \<open>The search of \<open>ndp_subscription_create\<close> through \<open>list_channels\<close>.\<close>

fun find_channel :: "ndp_channel_id \<Rightarrow> 'c ndp_channel list \<Rightarrow> nat option" where
  "find_channel cid [] = None"
| "find_channel cid (ch # chs) =
     (if ch_id ch = cid then Some 0 else map_option Suc (find_channel cid chs))"

definition ndp_subscription_create ::
  "'c ndp_channel_ops \<Rightarrow> nat \<Rightarrow> ndp_channel_request \<Rightarrow> sub_id option \<Rightarrow> 'c ndp \<Rightarrow>
   (int + sub_id) \<times> ndp_channel_request \<times> 'c ndp" where
  "ndp_subscription_create ops b req alloc ndp =
     (let cid = \<lparr>cid_index = ucast (req_index req),
                 cid_type = if req_type req AND 1 \<noteq> 0 then NDP_CHANNEL_TYPE_TX else NDP_CHANNEL_TYPE_RX\<rparr>
      in case find_channel cid (ndp_channels ndp) of
        None \<Rightarrow> (Inl (- ENODEV), req, ndp)
      | Some c \<Rightarrow>
        if ring_size (ch_ring (ndp_channels ndp ! c)) = 0 then (Inl (- EBADFD), req, ndp)
        else case alloc of
          None \<Rightarrow> (Inl (- ENOMEM), req, ndp)
        | Some s \<Rightarrow>
          (case ndp_channel_subscribe ops (req_flags req) (ndp_channels ndp ! c) of (ret, flags, ch) \<Rightarrow>
            let req1 = req\<lparr>req_flags := flags\<rparr>;
                ndp1 = ndp\<lparr>ndp_channels := (ndp_channels ndp)[c := ch]\<rparr>
            in if ret \<noteq> 0 then (Inl ret, req1, ndp1)
            else (Inr s, req1\<lparr>req_id := Some s\<rparr>,
              ndp1\<lparr>ndp_subs := (ndp_subs ndp)(s :=
                     \<lparr>sub_channel = c, sub_status = NDP_SUB_STATUS_SUBSCRIBED, sub_hwptr = 0, sub_swptr = 0,
                      sub_subscriber = b\<rparr>),
                   ndp_sbr := (ndp_sbr ndp)(b := (ndp_sbr ndp b)
                     \<lparr>sbr_subscriptions := s # sbr_subscriptions (ndp_sbr ndp b)\<rparr>)\<rparr>)))"

definition ndp_subscription_destroy :: "'c ndp_channel_ops \<Rightarrow> sub_id \<Rightarrow> 'c ndp \<Rightarrow> 'c ndp" where
  "ndp_subscription_destroy ops s ndp =
     (let b = sub_subscriber (ndp_subs ndp s);
          c = sub_channel (ndp_subs ndp s);
          ndp1 = (if sub_status (ndp_subs ndp s) = NDP_SUB_STATUS_RUNNING
                  then snd (ndp_subscription_stop ops s True ndp) else ndp)
      in ndp1\<lparr>ndp_channels := (ndp_channels ndp1)[c := ndp_channel_unsubscribe (ndp_channels ndp1 ! c)],
              ndp_sbr := (ndp_sbr ndp1)(b := (ndp_sbr ndp1 b)
                \<lparr>sbr_subscriptions := remove1 s (sbr_subscriptions (ndp_sbr ndp1 b))\<rparr>)\<rparr>)"

section \<open>Subscribers\<close>

text \<open>The result is a \<open>size_t\<close>; minus one says that there is no subscription.\<close>

fun new_data_scan :: "'c ndp \<Rightarrow> sub_id list \<Rightarrow> u64 \<Rightarrow> u64" where
  "new_data_scan ndp [] ret = ret"
| "new_data_scan ndp (s # ss) ret =
     (let ret1 = ndp_subscription_rx_data_available s ndp in
      if ret1 > 0 then ret1 else new_data_scan ndp ss ret1)"

definition ndp_subscriber_new_data :: "nat \<Rightarrow> 'c ndp \<Rightarrow> u64" where
  "ndp_subscriber_new_data b ndp =
     (if sbr_subscriptions (ndp_sbr ndp b) = [] then - 1
      else new_data_scan ndp (sbr_subscriptions (ndp_sbr ndp b)) 0)"

text \<open>The tick of an armed timer; the result goes through an \<open>int\<close>.\<close>

definition ndp_subscriber_poll_timer :: "nat \<Rightarrow> 'c ndp \<Rightarrow> 'c ndp" where
  "ndp_subscriber_poll_timer b ndp =
     (let ret = sint (ucast (ndp_subscriber_new_data b ndp) :: u32) in
      if ret > 0 then ndp\<lparr>ndp_sbr := (ndp_sbr ndp)(b := (ndp_sbr ndp b)\<lparr>sbr_wake_rx := True, sbr_timer := False\<rparr>)\<rparr>
      else if ret < 0 then ndp\<lparr>ndp_sbr := (ndp_sbr ndp)(b := (ndp_sbr ndp b)\<lparr>sbr_timer := False\<rparr>)\<rparr>
      else ndp)"

definition ndp_subscriber_create :: "nat option \<Rightarrow> 'c ndp \<Rightarrow> nat option \<times> 'c ndp" where
  "ndp_subscriber_create alloc ndp =
     (case alloc of
        None \<Rightarrow> (None, ndp)
      | Some b \<Rightarrow> (Some b, ndp\<lparr>ndp_subscribers := ndp_subscribers ndp @ [b],
          ndp_sbr := (ndp_sbr ndp)(b := \<lparr>sbr_subscriptions = [], sbr_wake_rx = False, sbr_timer = False\<rparr>)\<rparr>))"

definition ndp_subscriber_destroy :: "'c ndp_channel_ops \<Rightarrow> nat \<Rightarrow> 'c ndp \<Rightarrow> 'c ndp" where
  "ndp_subscriber_destroy ops b ndp =
     (let ndp1 = ndp\<lparr>ndp_sbr := (ndp_sbr ndp)(b := (ndp_sbr ndp b)\<lparr>sbr_timer := False\<rparr>)\<rparr>;
          ndp2 = fold (ndp_subscription_destroy ops) (sbr_subscriptions (ndp_sbr ndp b)) ndp1
      in ndp2\<lparr>ndp_subscribers := remove1 b (ndp_subscribers ndp2)\<rparr>)"

definition ndp_subscription_by_id :: "nat \<Rightarrow> sub_id \<Rightarrow> 'c ndp \<Rightarrow> sub_id option" where
  "ndp_subscription_by_id b sid ndp = List.find (\<lambda>s. s = sid) (sbr_subscriptions (ndp_sbr ndp b))"

abbreviation (input) POLLIN_RDNORM :: int where "POLLIN_RDNORM \<equiv> 65"

definition ndp_subscriber_poll :: "nat \<Rightarrow> 'c ndp \<Rightarrow> int \<times> 'c ndp" where
  "ndp_subscriber_poll b ndp =
     (if sbr_wake_rx (ndp_sbr ndp b)
      then (POLLIN_RDNORM, ndp\<lparr>ndp_sbr := (ndp_sbr ndp)(b := (ndp_sbr ndp b)\<lparr>sbr_timer := False, sbr_wake_rx := False\<rparr>)\<rparr>)
      else (0, ndp\<lparr>ndp_sbr := (ndp_sbr ndp)(b := (ndp_sbr ndp b)\<lparr>sbr_timer := True\<rparr>)\<rparr>))"

section \<open>The character device\<close>

datatype ndp_cmd =
    NDP_IOC_SYNC ndp_subscription_sync
  | NDP_IOC_SUBSCRIBE ndp_channel_request
  | NDP_IOC_START ndp_subscription_sync
  | NDP_IOC_STOP ndp_subscription_sync
  | NDP_IOC_OTHER

definition ndp_char_open :: "nat option \<Rightarrow> 'c ndp \<Rightarrow> int \<times> nat option \<times> 'c ndp" where
  "ndp_char_open alloc ndp =
     (case ndp_subscriber_create alloc ndp of
        (None, ndp1) \<Rightarrow> (- ENOMEM, None, ndp1)
      | (Some b, ndp1) \<Rightarrow> (0, Some b, ndp1))"

definition ndp_char_release :: "'c ndp_channel_ops \<Rightarrow> nat \<Rightarrow> 'c ndp \<Rightarrow> 'c ndp" where
  "ndp_char_release ops b ndp = ndp_subscriber_destroy ops b ndp"

text \<open>
  \<open>copy_in\<close> and \<open>copy_out\<close> say whether the copies from and to user memory succeed; the second
  component of the result is the argument as the application finds it afterwards.
\<close>

definition ndp_char_ioctl ::
  "'c ndp_channel_ops \<Rightarrow> nat \<Rightarrow> bool \<Rightarrow> bool \<Rightarrow> sub_id option \<Rightarrow> ndp_cmd \<Rightarrow> 'c ndp \<Rightarrow> int \<times> ndp_cmd \<times> 'c ndp" where
  "ndp_char_ioctl ops b copy_in copy_out alloc cmd ndp =
     (case cmd of
        NDP_IOC_SYNC sync \<Rightarrow>
          if \<not> copy_in then (- EFAULT, cmd, ndp)
          else (case ndp_subscription_by_id b (sync_id sync) ndp of
            None \<Rightarrow> (- EBADF, cmd, ndp)
          | Some s \<Rightarrow> (case ndp_subscription_sync ops s sync ndp of (ret, sync1, ndp1) \<Rightarrow>
              if \<not> copy_out then (- EFAULT, cmd, ndp1) else (ret, NDP_IOC_SYNC sync1, ndp1)))
      | NDP_IOC_SUBSCRIBE req \<Rightarrow>
          if \<not> copy_in then (- EFAULT, cmd, ndp)
          else (case ndp_subscription_create ops b req alloc ndp of
            (Inl err, req1, ndp1) \<Rightarrow> (err, if copy_out then NDP_IOC_SUBSCRIBE req1 else cmd, ndp1)
          | (Inr s, req1, ndp1) \<Rightarrow>
              if \<not> copy_out then (- EFAULT, cmd, ndp_subscription_destroy ops s ndp1)
              else (0, NDP_IOC_SUBSCRIBE req1, ndp1))
      | NDP_IOC_START sync \<Rightarrow>
          if \<not> copy_in then (- EFAULT, cmd, ndp)
          else (case ndp_subscription_by_id b (sync_id sync) ndp of
            None \<Rightarrow> (- EBADF, cmd, ndp)
          | Some s \<Rightarrow> (case ndp_subscription_start ops s sync ndp of (ret, sync1, ndp1) \<Rightarrow>
              if \<not> copy_out then (- EFAULT, cmd, ndp1) else (ret, NDP_IOC_START sync1, ndp1)))
      | NDP_IOC_STOP sync \<Rightarrow>
          if \<not> copy_in then (- EFAULT, cmd, ndp)
          else (case ndp_subscription_by_id b (sync_id sync) ndp of
            None \<Rightarrow> (- EBADF, cmd, ndp)
          | Some s \<Rightarrow> (case ndp_subscription_stop ops s False ndp of (ret, ndp1) \<Rightarrow> (ret, cmd, ndp1)))
      | NDP_IOC_OTHER \<Rightarrow> (- ENXIO, cmd, ndp))"

definition ndp_char_poll :: "nat \<Rightarrow> 'c ndp \<Rightarrow> int \<times> 'c ndp" where
  "ndp_char_poll b ndp = ndp_subscriber_poll b ndp"

section \<open>The bookkeeping of one channel\<close>

text \<open>
  \<open>M\<close> is the set of subscriptions of the channel and \<open>R\<close> the set of the running ones.  The 32-bit
  counters agree with the sets, the transmit lock belongs to a running subscription, and an exclusive
  channel has at most one subscription.
\<close>

definition chan_inv :: "sub_id set \<Rightarrow> sub_id set \<Rightarrow> 'c ndp_channel \<Rightarrow> bool" where
  "chan_inv M R ch \<longleftrightarrow>
     distinct (ch_list_subscriptions ch) \<and> set (ch_list_subscriptions ch) = R \<and>
     ch_start_count ch = of_nat (card R) \<and> ch_subscriptions_count ch = of_nat (card M) \<and>
     (\<forall>s. ch_locked_sub ch = Some s \<longrightarrow> s \<in> R) \<and>
     (ch_flags ch AND NDP_CHANNEL_FLAG_EXCLUSIVE \<noteq> 0 \<longrightarrow> card M \<le> 1)"

lemma of_nat_u32_eq_0: "n < 2 ^ 32 \<Longrightarrow> (of_nat n :: u32) = 0 \<longleftrightarrow> n = 0"
  by (auto simp: word_of_nat_eq_0_iff dest: dvd_imp_le)

lemma or_and_zero: "(x OR y) AND z = 0 \<longleftrightarrow> x AND z = 0 \<and> y AND z = 0" for x y z :: "'a::len word"
  by (auto simp: bit_eq_iff bit_simps)

lemma ucast_and_idem: "(ucast ((ucast x :: u64) AND ucast y) :: u32) = x AND y" for x y :: u32
  by (rule bit_word_eqI) (auto simp: bit_simps)

lemma chan_inv_finite: "chan_inv M R ch \<Longrightarrow> finite R"
  by (auto simp: chan_inv_def)

lemma of_nat_card_Diff:
  assumes "finite A" and "x \<in> A"
  shows "(of_nat (card (A - {x})) :: u32) = of_nat (card A) - 1"
proof -
  have "card A = Suc (card (A - {x}))" by (rule card.remove [OF assms])
  then have "(of_nat (card A) :: u32) = 1 + of_nat (card (A - {x}))" by (metis of_nat_Suc)
  then show ?thesis by (metis add_diff_cancel_left')
qed

lemma unsubscribe_inv:
  assumes "chan_inv M R ch" and "finite M" and "s \<in> M"
  shows "chan_inv (M - {s}) R (ndp_channel_unsubscribe ch)"
  using assms(1) of_nat_card_Diff [OF assms(2,3)] card_Diff1_le [of M s]
  by (auto simp: chan_inv_def ndp_channel_unsubscribe_def simp del: of_nat_diff card_Diff_insert)

context channel_ctrl
begin

lemma subscribe_result:
  assumes "ndp_channel_subscribe ops flags ch = (r, f, ch')"
  shows "ch_list_subscriptions ch' = ch_list_subscriptions ch" "ch_start_count ch' = ch_start_count ch"
    "ch_locked_sub ch' = ch_locked_sub ch" "ch_id ch' = ch_id ch" "ch_ring ch' = ch_ring ch"
    "ch_subscriptions_count ch' = ch_subscriptions_count ch + (if r = 0 then 1 else 0)"
    "ch_flags ch' = (if r = 0 \<and> ch_subscriptions_count ch = 0
       then flags AND NDP_CHANNEL_FLAG_EXCLUSIVE else ch_flags ch)"
    "r = 0 \<Longrightarrow> ch_subscriptions_count ch \<noteq> 0 \<Longrightarrow>
       flags AND NDP_CHANNEL_FLAG_EXCLUSIVE = 0 \<and> ch_flags ch AND NDP_CHANNEL_FLAG_EXCLUSIVE = 0"
proof -
  let ?ch1 = "ch\<lparr>ch_subscriptions_count := ch_subscriptions_count ch + 1\<rparr>"
  obtain f1 ch1 where g: "op_get_flags ops ?ch1 = (f1, ch1)" by force
  obtain f2 ch2 where t: "op_set_flags ops ?ch1 (ucast flags AND ucast (NOT NDP_CHANNEL_FLAG_EXCLUSIVE :: u32)) = (f2, ch2)"
    by force
  note sel = get_flags_sel [OF g] set_flags_sel [OF t]
  note eq = assms [unfolded ndp_channel_subscribe_def Let_def g t prod.case]
  show "ch_list_subscriptions ch' = ch_list_subscriptions ch" "ch_start_count ch' = ch_start_count ch"
    "ch_locked_sub ch' = ch_locked_sub ch" "ch_id ch' = ch_id ch" "ch_ring ch' = ch_ring ch"
    "ch_subscriptions_count ch' = ch_subscriptions_count ch + (if r = 0 then 1 else 0)"
    using eq sel by (auto split: if_splits)
  show "ch_flags ch' = (if r = 0 \<and> ch_subscriptions_count ch = 0
       then flags AND NDP_CHANNEL_FLAG_EXCLUSIVE else ch_flags ch)"
    using eq sel by (auto split: if_splits simp: ucast_and_idem)
  show "flags AND NDP_CHANNEL_FLAG_EXCLUSIVE = 0 \<and> ch_flags ch AND NDP_CHANNEL_FLAG_EXCLUSIVE = 0"
    if "r = 0" "ch_subscriptions_count ch \<noteq> 0"
    using that eq sel by (auto split: if_splits simp: or_and_zero)
qed

lemma start_result:
  assumes "ndp_channel_start ops s (ch, subs) = (r, ch', subs')"
  shows "ch_list_subscriptions ch' = ch_list_subscriptions ch @ (if r = 0 then [s] else [])"
    "ch_start_count ch' = ch_start_count ch + (if r = 0 then 1 else 0)"
    "ch_locked_sub ch' = ch_locked_sub ch" "ch_id ch' = ch_id ch" "ch_ring ch' = ch_ring ch"
    "ch_subscriptions_count ch' = ch_subscriptions_count ch" "ch_flags ch' = ch_flags ch"
    "subs' = (if r = 0 then subs(s := (subs s)\<lparr>sub_hwptr := ch_hwptr ch', sub_swptr := ch_hwptr ch'\<rparr>) else subs)"
proof -
  obtain r1 h ch1 where g: "op_start ops (ch\<lparr>ch_start_count := ch_start_count ch + 1\<rparr>) = (r1, h, ch1)"
    using prod_cases3 by blast
  note eq = assms [unfolded ndp_channel_start_def Let_def prod.case g]
  show "ch_list_subscriptions ch' = ch_list_subscriptions ch @ (if r = 0 then [s] else [])"
    "ch_start_count ch' = ch_start_count ch + (if r = 0 then 1 else 0)"
    "ch_locked_sub ch' = ch_locked_sub ch" "ch_id ch' = ch_id ch" "ch_ring ch' = ch_ring ch"
    "ch_subscriptions_count ch' = ch_subscriptions_count ch" "ch_flags ch' = ch_flags ch"
    "subs' = (if r = 0 then subs(s := (subs s)\<lparr>sub_hwptr := ch_hwptr ch', sub_swptr := ch_hwptr ch'\<rparr>) else subs)"
    using eq start_sel [OF g] by (auto split: if_splits option.splits)
qed

lemma stop_result:
  assumes "ndp_channel_stop ops s force ch = (r, ch')"
  shows "ch_list_subscriptions ch' =
      (if r = 0 then remove1 s (ch_list_subscriptions ch) else ch_list_subscriptions ch)"
    "ch_start_count ch' = ch_start_count ch - (if r = 0 then 1 else 0)"
    "ch_locked_sub ch' = (if ch_locked_sub ch = Some s then None else ch_locked_sub ch)"
    "ch_id ch' = ch_id ch" "ch_ring ch' = ch_ring ch"
    "ch_subscriptions_count ch' = ch_subscriptions_count ch" "ch_flags ch' = ch_flags ch"
    "r = 0 \<or> r = - EAGAIN" "force \<Longrightarrow> r = 0"
proof -
  let ?l = "if ch_locked_sub ch = Some s then None else ch_locked_sub ch"
  let ?ch1 = "if ch_locked_sub ch = Some s then ch\<lparr>ch_locked_sub := None\<rparr> else ch"
  let ?ch2 = "?ch1\<lparr>ch_start_count := ch_start_count ?ch1 - 1\<rparr>"
  obtain r1 ch3 where g: "op_stop ops ?ch2 force = (r1, ch3)" by force
  have l: "ch_locked_sub ?ch1 = ?l" by simp
  note sel = stop_sel [OF g]
  note eq = assms [unfolded ndp_channel_stop_def Let_def prod.case g]
  show "ch_list_subscriptions ch' =
      (if r = 0 then remove1 s (ch_list_subscriptions ch) else ch_list_subscriptions ch)"
    "ch_start_count ch' = ch_start_count ch - (if r = 0 then 1 else 0)"
    "ch_locked_sub ch' = ?l"
    "ch_id ch' = ch_id ch" "ch_ring ch' = ch_ring ch"
    "ch_subscriptions_count ch' = ch_subscriptions_count ch" "ch_flags ch' = ch_flags ch"
    "r = 0 \<or> r = - EAGAIN"
    using eq sel by (auto split: if_splits)
  show "r = 0" if force
    using that eq stop_forced [of ?ch2] g by (auto split: if_splits)
qed

lemma sync_result:
  assumes "ndp_channel_sync ops s sync (ch, subs) = (sync', ch', subs')"
  shows "ch_list_subscriptions ch' = ch_list_subscriptions ch" "ch_start_count ch' = ch_start_count ch"
    "ch_id ch' = ch_id ch" "ch_ring ch' = ch_ring ch"
    "ch_subscriptions_count ch' = ch_subscriptions_count ch" "ch_flags ch' = ch_flags ch"
    "ch_locked_sub ch' = ch_locked_sub ch \<or> ch_locked_sub ch' = None \<or> ch_locked_sub ch' = Some s"
    "\<exists>h p. subs' = subs(s := (subs s)\<lparr>sub_hwptr := h, sub_swptr := p\<rparr>)"
proof -
  have "\<exists>p h c l a b. ch' = ch\<lparr>ch_swptr := p, ch_ctrl := c, ch_hwptr := h, ch_locked_sub := l\<rparr> \<and>
    subs' = subs(s := (subs s)\<lparr>sub_hwptr := a, sub_swptr := b\<rparr>) \<and>
    (l = ch_locked_sub ch \<or> l = None \<or> l = Some s)"
  proof (cases "cid_type (ch_id ch) = NDP_CHANNEL_TYPE_RX")
    case True
    with assms have "ndp_channel_rxsync ops s sync (ch, subs) = (sync', ch', subs')"
      by (simp add: ndp_channel_sync_def)
    from rxsync_result [OF this] obtain p h c where
      "ch' = ch\<lparr>ch_swptr := p, ch_ctrl := c, ch_hwptr := h\<rparr>"
      "subs' = subs(s := (subs s)\<lparr>sub_swptr := sync_swptr sync, sub_hwptr := h\<rparr>)" by blast
    then have "ch' = ch\<lparr>ch_swptr := p, ch_ctrl := c, ch_hwptr := h, ch_locked_sub := ch_locked_sub ch\<rparr>"
      "subs' = subs(s := (subs s)\<lparr>sub_hwptr := h, sub_swptr := sync_swptr sync\<rparr>)"
      by (simp, cases "subs s", simp)
    then show ?thesis by blast
  next
    case False
    with assms have "ndp_channel_txsync ops s sync (ch, subs) = (sync', ch', subs')"
      by (simp add: ndp_channel_sync_def)
    from txsync_frame [OF this] show ?thesis by blast
  qed
  then show "ch_list_subscriptions ch' = ch_list_subscriptions ch" "ch_start_count ch' = ch_start_count ch"
    "ch_id ch' = ch_id ch" "ch_ring ch' = ch_ring ch"
    "ch_subscriptions_count ch' = ch_subscriptions_count ch" "ch_flags ch' = ch_flags ch"
    "ch_locked_sub ch' = ch_locked_sub ch \<or> ch_locked_sub ch' = None \<or> ch_locked_sub ch' = Some s"
    "\<exists>h p. subs' = subs(s := (subs s)\<lparr>sub_hwptr := h, sub_swptr := p\<rparr>)"
    by auto
qed

lemma subscribe_inv:
  assumes "chan_inv M R ch" and "finite M" and "s \<notin> M" and "card M < 2 ^ 32"
    and "ndp_channel_subscribe ops flags ch = (r, f, ch')"
  shows "chan_inv (if r = 0 then insert s M else M) R ch'"
proof -
  note res = subscribe_result [OF assms(5)]
  have empty: "ch_subscriptions_count ch = 0 \<longleftrightarrow> card M = 0"
    using assms(1,4) by (simp add: chan_inv_def of_nat_u32_eq_0)
  show ?thesis
  proof (cases "r = 0")
    case True
    with assms(1-3) res empty show ?thesis
      by (cases "card M = 0") (simp_all add: chan_inv_def)
  next
    case False
    with assms(1) res show ?thesis by (simp add: chan_inv_def)
  qed
qed

lemma start_inv:
  assumes "chan_inv M R ch" and "s \<notin> R" and "ndp_channel_start ops s (ch, subs) = (r, ch', subs')"
  shows "chan_inv M (if r = 0 then insert s R else R) ch'"
  using assms(1,2) start_result [OF assms(3)] chan_inv_finite [OF assms(1)] by (auto simp: chan_inv_def)

lemma stop_inv:
  assumes "chan_inv M R ch" and "s \<in> R" and "ndp_channel_stop ops s force ch = (r, ch')"
  shows "chan_inv M (if r = 0 then R - {s} else R) ch'"
  using assms(1,2) stop_result [OF assms(3)] of_nat_card_Diff [OF chan_inv_finite [OF assms(1)] assms(2)]
  by (cases "r = 0") (auto simp: chan_inv_def)

lemma sync_inv:
  assumes "chan_inv M R ch" and "s \<in> R" and "ndp_channel_sync ops s sync (ch, subs) = (sync', ch', subs')"
  shows "chan_inv M R ch'"
  using assms(1,2) sync_result(1-7) [OF assms(3)] by (auto simp: chan_inv_def)

end

section \<open>The bookkeeping of the whole driver\<close>

definition live :: "'c ndp \<Rightarrow> sub_id set" where
  "live ndp = (\<Union>b \<in> set (ndp_subscribers ndp). set (sbr_subscriptions (ndp_sbr ndp b)))"

definition members :: "'c ndp \<Rightarrow> nat \<Rightarrow> sub_id set" where
  "members ndp c = {s \<in> live ndp. sub_channel (ndp_subs ndp s) = c}"

definition running :: "'c ndp \<Rightarrow> nat \<Rightarrow> sub_id set" where
  "running ndp c = {s \<in> members ndp c. sub_status (ndp_subs ndp s) = NDP_SUB_STATUS_RUNNING}"

definition ndp_inv :: "'c ndp \<Rightarrow> bool" where
  "ndp_inv ndp \<longleftrightarrow>
     distinct (ndp_subscribers ndp) \<and>
     (\<forall>b \<in> set (ndp_subscribers ndp). distinct (sbr_subscriptions (ndp_sbr ndp b)) \<and>
        (\<forall>s \<in> set (sbr_subscriptions (ndp_sbr ndp b)). sub_subscriber (ndp_subs ndp s) = b)) \<and>
     (\<forall>s \<in> live ndp. sub_channel (ndp_subs ndp s) < length (ndp_channels ndp) \<and>
        sub_status (ndp_subs ndp s) \<noteq> NDP_SUB_STATUS_INIT) \<and>
     (\<forall>c < length (ndp_channels ndp). chan_inv (members ndp c) (running ndp c) (ndp_channels ndp ! c)) \<and>
     card (live ndp) < 2 ^ 32"

lemma finite_live [simp]: "finite (live ndp)"
  by (simp add: live_def)

lemma finite_members [simp]: "finite (members ndp c)"
  by (simp add: members_def)

lemma card_members_le: "card (members ndp c) \<le> card (live ndp)"
  by (rule card_mono) (auto simp: members_def)

text \<open>What changes when one subscription of channel \<open>c\<close> and the channel itself are updated.\<close>

lemma members_update:
  assumes "sub_channel x = sub_channel (ndp_subs ndp s)"
  shows "members (ndp\<lparr>ndp_channels := chs, ndp_subs := (ndp_subs ndp)(s := x)\<rparr>) c = members ndp c"
  using assms by (auto simp: members_def live_def)

lemma running_update:
  assumes "sub_channel x = sub_channel (ndp_subs ndp s)" and "s \<in> live ndp"
  shows "running (ndp\<lparr>ndp_channels := chs, ndp_subs := (ndp_subs ndp)(s := x)\<rparr>) c =
    (if c = sub_channel x then
       (if sub_status x = NDP_SUB_STATUS_RUNNING then insert s (running ndp c) else running ndp c - {s})
     else running ndp c)"
  using assms by (auto simp: members_def live_def running_def)

lemma live_update [simp]:
  "live (ndp\<lparr>ndp_channels := chs\<rparr>) = live ndp" "live (ndp\<lparr>ndp_subs := f\<rparr>) = live ndp"
  by (simp_all add: live_def)

lemma ndp_inv_update:
  assumes "ndp_inv ndp" and "s \<in> live ndp" and "sub_channel x = sub_channel (ndp_subs ndp s)"
    and "sub_subscriber x = sub_subscriber (ndp_subs ndp s)" and "sub_status x \<noteq> NDP_SUB_STATUS_INIT"
    and "chan_inv (members ndp (sub_channel x))
          (if sub_status x = NDP_SUB_STATUS_RUNNING then insert s (running ndp (sub_channel x))
           else running ndp (sub_channel x) - {s}) ch"
  shows "ndp_inv (ndp\<lparr>ndp_channels := (ndp_channels ndp)[sub_channel x := ch],
                      ndp_subs := (ndp_subs ndp)(s := x)\<rparr>)"
proof -
  let ?ndp = "ndp\<lparr>ndp_channels := (ndp_channels ndp)[sub_channel x := ch], ndp_subs := (ndp_subs ndp)(s := x)\<rparr>"
  have chans: "chan_inv (members ?ndp c) (running ?ndp c) (ndp_channels ?ndp ! c)"
    if "c < length (ndp_channels ndp)" for c
    using assms(1,6) that
    by (simp only: members_update [OF assms(3)] running_update [OF assms(3,2)])
      (auto simp: ndp_inv_def nth_list_update)
  have "\<forall>s \<in> live ndp. sub_channel (ndp_subs ?ndp s) < length (ndp_channels ndp) \<and>
      sub_status (ndp_subs ?ndp s) \<noteq> NDP_SUB_STATUS_INIT"
    using assms(1-3,5) by (auto simp: ndp_inv_def)
  with chans assms(1,4) show ?thesis by (auto simp: ndp_inv_def)
qed

text \<open>The special case in which only the channel changes.\<close>

lemma ndp_inv_channel:
  assumes "ndp_inv ndp" and "c < length (ndp_channels ndp) \<Longrightarrow> chan_inv (members ndp c) (running ndp c) ch"
  shows "ndp_inv (ndp\<lparr>ndp_channels := (ndp_channels ndp)[c := ch]\<rparr>)"
proof -
  have "members (ndp\<lparr>ndp_channels := chs\<rparr>) d = members ndp d"
    "running (ndp\<lparr>ndp_channels := chs\<rparr>) d = running ndp d" for chs d
    by (auto simp: members_def running_def live_def)
  moreover have "chan_inv (members ndp d) (running ndp d) ((ndp_channels ndp)[c := ch] ! d)"
    if "d < length (ndp_channels ndp)" for d
    using assms that by (cases "c = d") (auto simp: ndp_inv_def)
  ultimately show ?thesis using assms(1) by (simp add: ndp_inv_def)
qed

lemma inv_live:
  assumes "ndp_inv ndp" and "s \<in> live ndp"
  shows "sub_channel (ndp_subs ndp s) < length (ndp_channels ndp)"
    and "chan_inv (members ndp (sub_channel (ndp_subs ndp s))) (running ndp (sub_channel (ndp_subs ndp s)))
           (ndp_channels ndp ! sub_channel (ndp_subs ndp s))"
    and "s \<in> members ndp (sub_channel (ndp_subs ndp s))"
    and "s \<in> running ndp (sub_channel (ndp_subs ndp s)) \<longleftrightarrow> sub_status (ndp_subs ndp s) = NDP_SUB_STATUS_RUNNING"
  using assms by (auto simp: ndp_inv_def members_def running_def)

context channel_ctrl
begin

lemma subscription_sync_inv:
  assumes "ndp_inv ndp" and "s \<in> live ndp" and "ndp_subscription_sync ops s sync ndp = (r, sync', ndp')"
  shows "ndp_inv ndp'"
proof (cases "sub_status (ndp_subs ndp s) = NDP_SUB_STATUS_RUNNING")
  case True
  let ?c = "sub_channel (ndp_subs ndp s)"
  obtain sync1 ch subs where g: "ndp_channel_sync ops s sync (ndp_channels ndp ! ?c, ndp_subs ndp) = (sync1, ch, subs)"
    using prod_cases3 by blast
  from sync_result(8) [OF g] obtain h p where
    subs: "subs = (ndp_subs ndp)(s := (ndp_subs ndp s)\<lparr>sub_hwptr := h, sub_swptr := p\<rparr>)" by blast
  have "s \<in> running ndp ?c" using True inv_live(4) [OF assms(1,2)] by simp
  with sync_inv [OF inv_live(2) [OF assms(1,2)] _ g]
  have "chan_inv (members ndp ?c) (insert s (running ndp ?c)) ch" by (simp add: insert_absorb)
  then show ?thesis
    using ndp_inv_update [OF assms(1,2), of "(ndp_subs ndp s)\<lparr>sub_hwptr := h, sub_swptr := p\<rparr>" ch]
      assms(3) True g subs by (simp add: ndp_subscription_sync_def)
next
  case False
  with assms show ?thesis by (simp add: ndp_subscription_sync_def)
qed

lemma subscription_start_inv:
  assumes "ndp_inv ndp" and "s \<in> live ndp" and "ndp_subscription_start ops s sync ndp = (r, sync', ndp')"
  shows "ndp_inv ndp'"
proof (cases "sub_status (ndp_subs ndp s) = NDP_SUB_STATUS_SUBSCRIBED")
  case True
  let ?c = "sub_channel (ndp_subs ndp s)"
  obtain r1 ch subs where g: "ndp_channel_start ops s (ndp_channels ndp ! ?c, ndp_subs ndp) = (r1, ch, subs)"
    using prod_cases3 by blast
  have "s \<notin> running ndp ?c" using True inv_live(4) [OF assms(1,2)] by simp
  note inv = start_inv [OF inv_live(2) [OF assms(1,2)] this g]
  note res = start_result(8) [OF g]
  show ?thesis
  proof (cases "r1 = 0")
    case t: True
    let ?x = "(ndp_subs ndp s)\<lparr>sub_hwptr := ch_hwptr ch, sub_swptr := ch_hwptr ch, sub_status := NDP_SUB_STATUS_RUNNING\<rparr>"
    have "ndp' = ndp\<lparr>ndp_channels := (ndp_channels ndp)[?c := ch], ndp_subs := (ndp_subs ndp)(s := ?x)\<rparr>"
      using assms(3) True g res t by (simp add: ndp_subscription_start_def Let_def)
    with ndp_inv_update [OF assms(1,2), of ?x ch] inv t show ?thesis by simp
  next
    case f: False
    then have "ndp' = ndp\<lparr>ndp_channels := (ndp_channels ndp)[?c := ch]\<rparr>"
      using assms(3) True g res by (simp add: ndp_subscription_start_def Let_def)
    with ndp_inv_channel [OF assms(1), of ?c ch] inv f show ?thesis by simp
  qed
next
  case False
  with assms show ?thesis by (simp add: ndp_subscription_start_def)
qed

text \<open>A stop that is not forced may fail with \<open>EAGAIN\<close>; a forced one always ends.\<close>

lemma subscription_stop_inv:
  assumes "ndp_inv ndp" and "s \<in> live ndp" and "ndp_subscription_stop ops s force ndp = (r, ndp')"
  shows "ndp_inv ndp' \<and> (force \<longrightarrow> r = 0) \<and>
    (r = 0 \<longrightarrow> sub_status (ndp_subs ndp' s) = NDP_SUB_STATUS_SUBSCRIBED)"
proof (cases "sub_status (ndp_subs ndp s) = NDP_SUB_STATUS_RUNNING")
  case True
  let ?c = "sub_channel (ndp_subs ndp s)"
  let ?x = "(ndp_subs ndp s)\<lparr>sub_status := NDP_SUB_STATUS_SUBSCRIBED\<rparr>"
  obtain r1 ch where g: "ndp_channel_stop ops s False (ndp_channels ndp ! ?c) = (r1, ch)" by force
  obtain r2 ch2 where g2: "ndp_channel_stop ops s True ch = (r2, ch2)" by force
  have run: "s \<in> running ndp ?c" using True inv_live(4) [OF assms(1,2)] by simp
  note inv = stop_inv [OF inv_live(2) [OF assms(1,2)] run g]
  show ?thesis
  proof (cases "r1 = 0")
    case t: True
    have "ndp' = ndp\<lparr>ndp_channels := (ndp_channels ndp)[?c := ch], ndp_subs := (ndp_subs ndp)(s := ?x)\<rparr> \<and> r = 0"
      using assms(3) True g t by (auto simp: ndp_subscription_stop_def Let_def)
    with ndp_inv_update [OF assms(1,2), of ?x ch] inv t show ?thesis by simp
  next
    case f: False
    with stop_result(8) [OF g] have r1: "r1 = - EAGAIN" by simp
    from inv f have chi: "chan_inv (members ndp ?c) (running ndp ?c) ch" by simp
    have "chan_inv (members ndp ?c) (running ndp ?c - {s}) ch2"
      using stop_inv [OF chi run g2] stop_result(9) [OF g2] by simp
    with ndp_inv_update [OF assms(1,2), of ?x ch2]
    have "ndp_inv (ndp\<lparr>ndp_channels := (ndp_channels ndp)[?c := ch2], ndp_subs := (ndp_subs ndp)(s := ?x)\<rparr>)" by simp
    moreover have "ndp_inv (ndp\<lparr>ndp_channels := (ndp_channels ndp)[?c := ch]\<rparr>)"
      by (rule ndp_inv_channel [OF assms(1)]) (rule chi)
    ultimately show ?thesis
      using assms(3) True g g2 r1 by (cases force) (auto simp: ndp_subscription_stop_def Let_def)
  qed
next
  case False
  moreover from this have "sub_status (ndp_subs ndp s) = NDP_SUB_STATUS_SUBSCRIBED"
    using assms(1,2) by (cases "sub_status (ndp_subs ndp s)") (auto simp: ndp_inv_def)
  ultimately show ?thesis using assms by (auto simp: ndp_subscription_stop_def)
qed

text \<open>A new subscription appears in exactly one subscriber list and one channel.\<close>

lemma find_channel_less: "find_channel cid chs = Some c \<Longrightarrow> c < length chs"
  by (induction chs arbitrary: c) (auto split: if_splits)

lemma ndp_inv_add:
  assumes inv: "ndp_inv ndp" and b: "b \<in> set (ndp_subscribers ndp)" and s: "s \<notin> live ndp"
    and c: "c < length (ndp_channels ndp)" and card: "card (live ndp) < 2 ^ 32 - 1"
    and x: "sub_channel x = c" "sub_status x = NDP_SUB_STATUS_SUBSCRIBED" "sub_subscriber x = b"
    and ch: "chan_inv (insert s (members ndp c)) (running ndp c) ch"
  defines "ndp' \<equiv> ndp\<lparr>ndp_channels := (ndp_channels ndp)[c := ch], ndp_subs := (ndp_subs ndp)(s := x),
       ndp_sbr := (ndp_sbr ndp)(b := (ndp_sbr ndp b)\<lparr>sbr_subscriptions := s # sbr_subscriptions (ndp_sbr ndp b)\<rparr>)\<rparr>"
  shows "ndp_inv ndp'"
proof -
  have live: "live ndp' = insert s (live ndp)" using b by (auto simp: live_def ndp'_def split: if_splits)
  have mem: "members ndp' d = (if d = c then insert s (members ndp d) else members ndp d)" for d
    using s x by (auto simp: members_def live) (auto simp: ndp'_def)
  have run: "running ndp' d = running ndp d" for d
    using s x by (auto simp: running_def mem) (auto simp: ndp'_def members_def split: if_splits)
  have old: "s \<notin> set (sbr_subscriptions (ndp_sbr ndp d))" if "d \<in> set (ndp_subscribers ndp)" for d
    using s that by (auto simp: live_def)
  have "card (live ndp') < 2 ^ 32" using card s by (simp add: live)
  moreover have "chan_inv (members ndp' d) (running ndp' d) (ndp_channels ndp' ! d)"
    if "d < length (ndp_channels ndp')" for d
    unfolding mem run using inv ch that by (cases "d = c") (auto simp: ndp_inv_def ndp'_def)
  moreover have "\<forall>s \<in> live ndp'. sub_channel (ndp_subs ndp' s) < length (ndp_channels ndp') \<and>
        sub_status (ndp_subs ndp' s) \<noteq> NDP_SUB_STATUS_INIT"
    unfolding live using inv c x by (auto simp: ndp_inv_def ndp'_def)
  moreover have "\<forall>b \<in> set (ndp_subscribers ndp'). distinct (sbr_subscriptions (ndp_sbr ndp' b)) \<and>
        (\<forall>s \<in> set (sbr_subscriptions (ndp_sbr ndp' b)). sub_subscriber (ndp_subs ndp' s) = b)"
    using inv x old by (auto simp: ndp_inv_def ndp'_def)
  moreover have "distinct (ndp_subscribers ndp')" using inv by (simp add: ndp_inv_def ndp'_def)
  ultimately show ?thesis by (simp add: ndp_inv_def)
qed

lemma subscription_create_inv:
  assumes inv: "ndp_inv ndp" and "b \<in> set (ndp_subscribers ndp)"
    and "\<And>s. alloc = Some s \<Longrightarrow> s \<notin> live ndp \<and> card (live ndp) < 2 ^ 32 - 1"
    and res: "ndp_subscription_create ops b req alloc ndp = (res, req', ndp')"
  shows "ndp_inv ndp' \<and> ndp_subscribers ndp' = ndp_subscribers ndp \<and>
    (\<forall>s. res = Inr s \<longrightarrow> s \<in> live ndp' \<and> sub_status (ndp_subs ndp' s) = NDP_SUB_STATUS_SUBSCRIBED)"
proof -
  let ?cid = "\<lparr>cid_index = ucast (req_index req),
                 cid_type = if req_type req AND 1 \<noteq> 0 then NDP_CHANNEL_TYPE_TX else NDP_CHANNEL_TYPE_RX\<rparr>"
  show ?thesis
  proof (cases "find_channel ?cid (ndp_channels ndp)")
    case None
    with inv res show ?thesis by (auto simp: ndp_subscription_create_def)
  next
    case (Some c)
    then have c: "c < length (ndp_channels ndp)" by (rule find_channel_less)
    show ?thesis
    proof (cases "ring_size (ch_ring (ndp_channels ndp ! c)) = 0 \<or> alloc = None")
      case True
      with inv res Some show ?thesis by (auto simp: ndp_subscription_create_def split: if_splits)
    next
      case False
      then obtain s where s: "alloc = Some s" by auto
      obtain r f ch where g: "ndp_channel_subscribe ops (req_flags req) (ndp_channels ndp ! c) = (r, f, ch)"
        using prod_cases3 by blast
      have "s \<notin> members ndp c" using assms(3) [OF s] by (simp add: members_def)
      moreover have "card (members ndp c) < 2 ^ 32"
        using assms(3) [OF s] card_members_le [of ndp c] by simp
      moreover have "chan_inv (members ndp c) (running ndp c) (ndp_channels ndp ! c)"
        using inv c by (simp add: ndp_inv_def)
      ultimately have ci: "chan_inv (if r = 0 then insert s (members ndp c) else members ndp c) (running ndp c) ch"
        using subscribe_inv [OF _ finite_members _ _ g] by blast
      show ?thesis
      proof (cases "r = 0")
        case True
        let ?x = "\<lparr>sub_channel = c, sub_status = NDP_SUB_STATUS_SUBSCRIBED, sub_hwptr = 0, sub_swptr = 0,
                      sub_subscriber = b\<rparr>"
        from ndp_inv_add [OF inv assms(2), of s c ?x ch] assms(3) [OF s] c ci True show ?thesis
          using res Some False s g assms(2)
          by (auto simp: ndp_subscription_create_def Let_def live_def)
      next
        case r: False
        with ndp_inv_channel [OF inv, of c ch] ci show ?thesis
          using res Some False s g by (auto simp: ndp_subscription_create_def Let_def)
      qed
    qed
  qed
qed

lemma ndp_inv_remove:
  assumes inv: "ndp_inv ndp" and s: "s \<in> live ndp" and st: "sub_status (ndp_subs ndp s) = NDP_SUB_STATUS_SUBSCRIBED"
  defines "b \<equiv> sub_subscriber (ndp_subs ndp s)" and "c \<equiv> sub_channel (ndp_subs ndp s)"
  defines "ndp' \<equiv> ndp\<lparr>ndp_channels := (ndp_channels ndp)[c := ndp_channel_unsubscribe (ndp_channels ndp ! c)],
       ndp_sbr := (ndp_sbr ndp)(b := (ndp_sbr ndp b)\<lparr>sbr_subscriptions := remove1 s (sbr_subscriptions (ndp_sbr ndp b))\<rparr>)\<rparr>"
  shows "ndp_inv ndp'" and "live ndp' = live ndp - {s}"
proof -
  have own: "s \<notin> set (sbr_subscriptions (ndp_sbr ndp d))" if "d \<in> set (ndp_subscribers ndp)" "d \<noteq> b" for d
    using inv that by (auto simp: ndp_inv_def b_def)
  have dist: "distinct (sbr_subscriptions (ndp_sbr ndp d))" if "d \<in> set (ndp_subscribers ndp)" for d
    using inv that by (auto simp: ndp_inv_def)
  show live: "live ndp' = live ndp - {s}"
    using own dist by (auto simp: live_def ndp'_def split: if_splits)
  have mem: "members ndp' d = (if d = c then members ndp d - {s} else members ndp d)" for d
    by (auto simp: members_def live) (auto simp: ndp'_def c_def)
  have run: "running ndp' d = running ndp d" for d
    using st by (auto simp: running_def mem) (auto simp: ndp'_def)
  have "card (live ndp') < 2 ^ 32" using inv card_Diff1_le [of "live ndp" s] by (simp add: live ndp_inv_def)
  moreover have "chan_inv (members ndp' d) (running ndp' d) (ndp_channels ndp' ! d)"
    if "d < length (ndp_channels ndp')" for d
  proof (cases "d = c")
    case True
    with inv_live(2,3) [OF inv s] unsubscribe_inv [OF inv_live(2) [OF inv s] finite_members] that
    show ?thesis unfolding mem run by (simp add: c_def ndp'_def)
  next
    case False
    with inv that show ?thesis unfolding mem run by (auto simp: ndp_inv_def ndp'_def)
  qed
  moreover have "\<forall>s \<in> live ndp'. sub_channel (ndp_subs ndp' s) < length (ndp_channels ndp') \<and>
        sub_status (ndp_subs ndp' s) \<noteq> NDP_SUB_STATUS_INIT"
    unfolding live using inv by (auto simp: ndp_inv_def ndp'_def)
  moreover have "\<forall>b \<in> set (ndp_subscribers ndp'). distinct (sbr_subscriptions (ndp_sbr ndp' b)) \<and>
        (\<forall>s \<in> set (sbr_subscriptions (ndp_sbr ndp' b)). sub_subscriber (ndp_subs ndp' s) = b)"
    using inv by (auto simp: ndp_inv_def ndp'_def dest!: in_set_remove1 [THEN iffD1, rotated] notin_set_remove1)
  moreover have "distinct (ndp_subscribers ndp')" using inv by (simp add: ndp_inv_def ndp'_def)
  ultimately show "ndp_inv ndp'" by (simp add: ndp_inv_def)
qed

lemma subscription_stop_frame:
  assumes "ndp_subscription_stop ops s force ndp = (r, ndp')"
  shows "ndp_subscribers ndp' = ndp_subscribers ndp" "ndp_sbr ndp' = ndp_sbr ndp" "live ndp' = live ndp"
    "sub_subscriber (ndp_subs ndp' t) = sub_subscriber (ndp_subs ndp t)"
    "sub_channel (ndp_subs ndp' t) = sub_channel (ndp_subs ndp t)"
  using assms by (auto simp: ndp_subscription_stop_def Let_def live_def split: prod.splits if_splits)

text \<open>Destroying a subscription always removes it, a running one after a forced stop.\<close>

lemma subscription_destroy_inv:
  assumes "ndp_inv ndp" and "s \<in> live ndp"
  shows "ndp_inv (ndp_subscription_destroy ops s ndp)"
    and "live (ndp_subscription_destroy ops s ndp) = live ndp - {s}"
    and "ndp_subscribers (ndp_subscription_destroy ops s ndp) = ndp_subscribers ndp"
proof -
  let ?run = "sub_status (ndp_subs ndp s) = NDP_SUB_STATUS_RUNNING"
  obtain r ndp1 where g: "ndp_subscription_stop ops s True ndp = (r, ndp1)" by force
  define ndp2 where "ndp2 = (if ?run then ndp1 else ndp)"
  have inv: "ndp_inv ndp2" and st: "sub_status (ndp_subs ndp2 s) = NDP_SUB_STATUS_SUBSCRIBED"
    using subscription_stop_inv [OF assms g] assms
    by (auto simp: ndp2_def ndp_inv_def) (metis sub_status.exhaust)
  have fr: "ndp_subscribers ndp2 = ndp_subscribers ndp" "live ndp2 = live ndp"
    "sub_subscriber (ndp_subs ndp s) = sub_subscriber (ndp_subs ndp2 s)"
    "sub_channel (ndp_subs ndp s) = sub_channel (ndp_subs ndp2 s)"
    using subscription_stop_frame [OF g] by (simp_all add: ndp2_def)
  have eq: "ndp_subscription_destroy ops s ndp =
    (let b = sub_subscriber (ndp_subs ndp2 s); c = sub_channel (ndp_subs ndp2 s) in
     ndp2\<lparr>ndp_channels := (ndp_channels ndp2)[c := ndp_channel_unsubscribe (ndp_channels ndp2 ! c)],
              ndp_sbr := (ndp_sbr ndp2)(b := (ndp_sbr ndp2 b)
                \<lparr>sbr_subscriptions := remove1 s (sbr_subscriptions (ndp_sbr ndp2 b))\<rparr>)\<rparr>)"
    unfolding ndp_subscription_destroy_def Let_def fr(3,4) g snd_conv ndp2_def [symmetric] ..
  from assms(2) have s: "s \<in> live ndp2" by (simp add: fr)
  show "ndp_inv (ndp_subscription_destroy ops s ndp)" "live (ndp_subscription_destroy ops s ndp) = live ndp - {s}"
    using ndp_inv_remove [OF inv s st] unfolding eq Let_def fr(2) by simp_all
  show "ndp_subscribers (ndp_subscription_destroy ops s ndp) = ndp_subscribers ndp"
    unfolding eq Let_def by (simp add: fr)
qed

lemma destroy_all_inv:
  assumes "ndp_inv ndp" and "set ss \<subseteq> live ndp" and "distinct ss"
  shows "ndp_inv (fold (ndp_subscription_destroy ops) ss ndp)"
    and "live (fold (ndp_subscription_destroy ops) ss ndp) = live ndp - set ss"
    and "ndp_subscribers (fold (ndp_subscription_destroy ops) ss ndp) = ndp_subscribers ndp"
proof -
  have "ndp_inv (fold (ndp_subscription_destroy ops) ss ndp) \<and>
    live (fold (ndp_subscription_destroy ops) ss ndp) = live ndp - set ss \<and>
    ndp_subscribers (fold (ndp_subscription_destroy ops) ss ndp) = ndp_subscribers ndp"
    using assms
  proof (induction ss arbitrary: ndp)
    case (Cons s ss)
    then have s: "s \<in> live ndp" by simp
    note d = subscription_destroy_inv [OF Cons.prems(1) s]
    from Cons.prems(2,3) d(2) have "set ss \<subseteq> live (ndp_subscription_destroy ops s ndp)" by auto
    from Cons.IH [OF d(1) this] Cons.prems(3) d show ?case by auto
  qed simp
  then show "ndp_inv (fold (ndp_subscription_destroy ops) ss ndp)"
    "live (fold (ndp_subscription_destroy ops) ss ndp) = live ndp - set ss"
    "ndp_subscribers (fold (ndp_subscription_destroy ops) ss ndp) = ndp_subscribers ndp" by simp_all
qed

end

section \<open>Interleaved system calls\<close>

text \<open>
  One step is a system call of some application on its open file, a tick of an armed timer, or a
  change that the hardware makes to the state of a controller.  An address that \<open>kzalloc\<close> returns is
  not in use, and the 32-bit use counts of a channel do not overflow.
\<close>

inductive ndp_step :: "'c ndp_channel_ops \<Rightarrow> 'c ndp \<Rightarrow> 'c ndp \<Rightarrow> bool" for ops where
  ndp_step_open:
    "b \<notin> set (ndp_subscribers ndp) \<Longrightarrow> ndp_char_open (Some b) ndp = (r, p, ndp') \<Longrightarrow> ndp_step ops ndp ndp'"
| ndp_step_release:
    "b \<in> set (ndp_subscribers ndp) \<Longrightarrow> ndp_step ops ndp (ndp_char_release ops b ndp)"
| ndp_step_ioctl:
    "b \<in> set (ndp_subscribers ndp) \<Longrightarrow>
     (\<And>s. alloc = Some s \<Longrightarrow> s \<notin> live ndp \<and> card (live ndp) < 2 ^ 32 - 1) \<Longrightarrow>
     ndp_char_ioctl ops b copy_in copy_out alloc cmd ndp = (r, cmd', ndp') \<Longrightarrow> ndp_step ops ndp ndp'"
| ndp_step_poll:
    "b \<in> set (ndp_subscribers ndp) \<Longrightarrow> ndp_char_poll b ndp = (r, ndp') \<Longrightarrow> ndp_step ops ndp ndp'"
| ndp_step_timer:
    "b \<in> set (ndp_subscribers ndp) \<Longrightarrow> sbr_timer (ndp_sbr ndp b) \<Longrightarrow>
     ndp_step ops ndp (ndp_subscriber_poll_timer b ndp)"
| ndp_step_hardware:
    "ndp_step ops ndp (ndp\<lparr>ndp_channels := (ndp_channels ndp)[c := (ndp_channels ndp ! c)\<lparr>ch_ctrl := x\<rparr>]\<rparr>)"

inductive ndp_reach :: "'c ndp_channel_ops \<Rightarrow> 'c ndp \<Rightarrow> bool" for ops where
  ndp_reach_init:
    "ndp_subscribers ndp = [] \<Longrightarrow> (\<And>ch. ch \<in> set (ndp_channels ndp) \<Longrightarrow> chan_inv {} {} ch) \<Longrightarrow> ndp_reach ops ndp"
| ndp_reach_step: "ndp_reach ops ndp \<Longrightarrow> ndp_step ops ndp ndp' \<Longrightarrow> ndp_reach ops ndp'"

lemma live_sbr_cong:
  assumes "ndp_subscribers ndp' = ndp_subscribers ndp"
    and "\<And>b. sbr_subscriptions (ndp_sbr ndp' b) = sbr_subscriptions (ndp_sbr ndp b)"
  shows "live ndp' = live ndp"
  using assms by (simp add: live_def)

lemma ndp_inv_sbr_cong:
  assumes "ndp_inv ndp" and "ndp_subscribers ndp' = ndp_subscribers ndp"
    and "\<And>b. sbr_subscriptions (ndp_sbr ndp' b) = sbr_subscriptions (ndp_sbr ndp b)"
    and "ndp_subs ndp' = ndp_subs ndp" and "ndp_channels ndp' = ndp_channels ndp"
  shows "ndp_inv ndp'"
  using assms(1) live_sbr_cong [OF assms(2,3)] assms(2-5)
  by (simp add: ndp_inv_def members_def running_def)

lemma poll_inv: "ndp_inv ndp \<Longrightarrow> ndp_char_poll b ndp = (r, ndp') \<Longrightarrow> ndp_inv ndp'"
  by (erule ndp_inv_sbr_cong) (auto simp: ndp_char_poll_def ndp_subscriber_poll_def split: if_splits)

lemma timer_inv: "ndp_inv ndp \<Longrightarrow> ndp_inv (ndp_subscriber_poll_timer b ndp)"
  by (erule ndp_inv_sbr_cong) (auto simp: ndp_subscriber_poll_timer_def Let_def)

lemma open_inv:
  assumes "ndp_inv ndp" and "b \<notin> set (ndp_subscribers ndp)" and "ndp_char_open (Some b) ndp = (r, p, ndp')"
  shows "ndp_inv ndp'"
proof -
  have ndp': "ndp' = ndp\<lparr>ndp_subscribers := ndp_subscribers ndp @ [b],
      ndp_sbr := (ndp_sbr ndp)(b := \<lparr>sbr_subscriptions = [], sbr_wake_rx = False, sbr_timer = False\<rparr>)\<rparr>"
    using assms(3) by (simp add: ndp_char_open_def ndp_subscriber_create_def)
  have "live ndp' = live ndp" using assms(2) by (auto simp: live_def ndp' split: if_splits)
  with assms(1,2) show ?thesis by (auto simp: ndp_inv_def members_def running_def ndp')
qed

lemma hardware_inv:
  assumes "ndp_inv ndp"
  shows "ndp_inv (ndp\<lparr>ndp_channels := (ndp_channels ndp)[c := (ndp_channels ndp ! c)\<lparr>ch_ctrl := x\<rparr>]\<rparr>)"
  by (rule ndp_inv_channel [OF assms]) (use assms in \<open>auto simp: ndp_inv_def chan_inv_def\<close>)

lemma by_id_live:
  "b \<in> set (ndp_subscribers ndp) \<Longrightarrow> ndp_subscription_by_id b sid ndp = Some s \<Longrightarrow> s \<in> live ndp"
  by (auto simp: ndp_subscription_by_id_def live_def find_Some_iff intro!: bexI [of _ b])

lemma fold_remove1_self [simp]: "fold remove1 xs xs = []"
  by (induction xs) auto

text \<open>Which list a destroyed subscription leaves.\<close>

lemma destroy_frame:
  "ndp_sbr (ndp_subscription_destroy ops s ndp) =
     (let b = sub_subscriber (ndp_subs ndp s) in
      (ndp_sbr ndp)(b := (ndp_sbr ndp b)\<lparr>sbr_subscriptions := remove1 s (sbr_subscriptions (ndp_sbr ndp b))\<rparr>))"
  "sub_subscriber (ndp_subs (ndp_subscription_destroy ops s ndp) t) = sub_subscriber (ndp_subs ndp t)"
  by (auto simp: ndp_subscription_destroy_def ndp_subscription_stop_def Let_def split: prod.splits)

lemma destroy_all_frame:
  assumes "\<And>s. s \<in> set ss \<Longrightarrow> sub_subscriber (ndp_subs ndp s) = b"
  shows "sbr_subscriptions (ndp_sbr (fold (ndp_subscription_destroy ops) ss ndp) b) =
    fold remove1 ss (sbr_subscriptions (ndp_sbr ndp b))"
  using assms
proof (induction ss arbitrary: ndp)
  case (Cons s ss)
  have "sub_subscriber (ndp_subs (ndp_subscription_destroy ops s ndp) t) = b" if "t \<in> set ss" for t
    using Cons.prems that by (simp add: destroy_frame)
  from Cons.IH [OF this] Cons.prems [of s] show ?case by (simp add: destroy_frame Let_def)
qed simp

context channel_ctrl
begin

lemma release_inv:
  assumes inv: "ndp_inv ndp" and b: "b \<in> set (ndp_subscribers ndp)"
  shows "ndp_inv (ndp_char_release ops b ndp)"
    and "live (ndp_char_release ops b ndp) = live ndp - set (sbr_subscriptions (ndp_sbr ndp b))"
proof -
  let ?ss = "sbr_subscriptions (ndp_sbr ndp b)"
  define ndp1 where "ndp1 = ndp\<lparr>ndp_sbr := (ndp_sbr ndp)(b := (ndp_sbr ndp b)\<lparr>sbr_timer := False\<rparr>)\<rparr>"
  define ndp2 where "ndp2 = fold (ndp_subscription_destroy ops) ?ss ndp1"
  have inv1: "ndp_inv ndp1" by (rule ndp_inv_sbr_cong [OF inv]) (simp_all add: ndp1_def)
  have live1: "live ndp1 = live ndp" by (rule live_sbr_cong) (simp_all add: ndp1_def)
  have "set ?ss \<subseteq> live ndp" using b by (auto simp: live_def)
  then have ss: "set ?ss \<subseteq> live ndp1" "distinct ?ss" using inv b by (simp_all add: live1 ndp_inv_def)
  note d = destroy_all_inv [OF inv1 ss, folded ndp2_def]
  have "sub_subscriber (ndp_subs ndp1 s) = b" if "s \<in> set ?ss" for s
    using inv b that by (auto simp: ndp_inv_def ndp1_def)
  then have empty: "sbr_subscriptions (ndp_sbr ndp2 b) = []"
    unfolding ndp2_def by (subst destroy_all_frame) (simp_all add: ndp1_def)
  define ndp3 where "ndp3 = ndp2\<lparr>ndp_subscribers := remove1 b (ndp_subscribers ndp2)\<rparr>"
  have eq: "ndp_char_release ops b ndp = ndp3"
    by (simp add: ndp_char_release_def ndp_subscriber_destroy_def Let_def ndp1_def ndp2_def ndp3_def)
  have dist: "distinct (ndp_subscribers ndp2)" using d(1) by (simp add: ndp_inv_def)
  have live3: "live ndp3 = live ndp2"
    using empty by (force simp: live_def ndp3_def set_remove1_eq [OF dist])
  have "members ndp3 = members ndp2" "running ndp3 = running ndp2"
    by (auto simp: fun_eq_iff members_def running_def live3) (auto simp: ndp3_def)
  with d(1) live3 show "ndp_inv (ndp_char_release ops b ndp)"
    unfolding eq by (auto simp: ndp_inv_def ndp3_def dest: notin_set_remove1)
  from live3 d(2) live1 show "live (ndp_char_release ops b ndp) = live ndp - set ?ss" by (simp add: eq)
qed

lemma ioctl_inv:
  assumes inv: "ndp_inv ndp" and b: "b \<in> set (ndp_subscribers ndp)"
    and al: "\<And>s. alloc = Some s \<Longrightarrow> s \<notin> live ndp \<and> card (live ndp) < 2 ^ 32 - 1"
    and res: "ndp_char_ioctl ops b copy_in copy_out alloc cmd ndp = (r, cmd', ndp')"
  shows "ndp_inv ndp'"
proof (cases cmd)
  case (NDP_IOC_SYNC sync)
  with inv res subscription_sync_inv [OF inv by_id_live [OF b]] show ?thesis
    by (auto simp: ndp_char_ioctl_def split: if_splits option.splits prod.splits)
next
  case (NDP_IOC_SUBSCRIBE req)
  with inv res subscription_create_inv [OF inv b al, where req = req] subscription_destroy_inv(1) show ?thesis
    by (auto simp: ndp_char_ioctl_def split: if_splits option.splits prod.splits sum.splits)
next
  case (NDP_IOC_START sync)
  with inv res subscription_start_inv [OF inv by_id_live [OF b]] show ?thesis
    by (auto simp: ndp_char_ioctl_def split: if_splits option.splits prod.splits)
next
  case (NDP_IOC_STOP sync)
  with inv res subscription_stop_inv [OF inv by_id_live [OF b]] show ?thesis
    by (auto simp: ndp_char_ioctl_def split: if_splits option.splits prod.splits)
next
  case NDP_IOC_OTHER
  with inv res show ?thesis by (simp add: ndp_char_ioctl_def)
qed

theorem reach_inv: "ndp_reach ops ndp \<Longrightarrow> ndp_inv ndp"
proof (induction rule: ndp_reach.induct)
  case (ndp_reach_init ndp)
  then show ?case by (auto simp: ndp_inv_def live_def members_def running_def)
next
  case (ndp_reach_step ndp ndp')
  from ndp_reach_step(2,3) show ?case
  proof (cases rule: ndp_step.cases)
    case (ndp_step_ioctl b alloc copy_in copy_out cmd r cmd')
    with ndp_reach_step(3) show ?thesis by (blast intro: ioctl_inv)
  qed (use ndp_reach_step(3) in \<open>auto intro: open_inv release_inv(1) poll_inv timer_inv hardware_inv\<close>)
qed

end

section \<open>Polling\<close>

text \<open>No tick of the timer ever finds new data, so no poll reports any.\<close>

definition never_woken :: "'c ndp \<Rightarrow> bool" where
  "never_woken ndp \<longleftrightarrow> (\<forall>b \<in> set (ndp_subscribers ndp). \<not> sbr_wake_rx (ndp_sbr ndp b))"

lemma new_data_scan_zero: "new_data_scan ndp ss 0 = 0"
  by (induction ss) (simp_all add: ndp_subscription_rx_data_available_def)

lemma minus_one_as_int: "sint (ucast (- 1 :: u64) :: u32) = - 1"
  by code_simp

lemma timer_not_woken: "never_woken ndp \<Longrightarrow> never_woken (ndp_subscriber_poll_timer b ndp)"
  by (auto simp: never_woken_def ndp_subscriber_poll_timer_def ndp_subscriber_new_data_def
      new_data_scan_zero minus_one_as_int Let_def)

definition same_wakes :: "'c ndp \<Rightarrow> 'c ndp \<Rightarrow> bool" where
  "same_wakes ndp ndp' \<longleftrightarrow> ndp_subscribers ndp' = ndp_subscribers ndp \<and>
     (\<forall>b. sbr_wake_rx (ndp_sbr ndp' b) = sbr_wake_rx (ndp_sbr ndp b))"

lemma same_wakes_not_woken: "same_wakes ndp ndp' \<Longrightarrow> never_woken ndp \<Longrightarrow> never_woken ndp'"
  by (simp add: same_wakes_def never_woken_def)

lemma destroy_same_wakes: "same_wakes ndp (ndp_subscription_destroy ops s ndp)"
  by (auto simp: same_wakes_def destroy_frame Let_def ndp_subscription_destroy_def ndp_subscription_stop_def
      split: prod.splits)

lemma destroy_all_same_wakes: "same_wakes ndp (fold (ndp_subscription_destroy ops) ss ndp)"
proof (induction ss arbitrary: ndp)
  case (Cons s ss)
  from Cons.IH [of "ndp_subscription_destroy ops s ndp"] destroy_same_wakes [of ndp ops s]
  show ?case by (simp add: same_wakes_def)
qed (simp add: same_wakes_def)

lemma sync_same_wakes: "ndp_subscription_sync ops s sync ndp = (r, sync', ndp') \<Longrightarrow> same_wakes ndp ndp'"
  by (auto simp: ndp_subscription_sync_def same_wakes_def Let_def split: if_splits prod.splits)

lemma start_same_wakes: "ndp_subscription_start ops s sync ndp = (r, sync', ndp') \<Longrightarrow> same_wakes ndp ndp'"
  by (auto simp: ndp_subscription_start_def same_wakes_def Let_def split: if_splits prod.splits)

lemma stop_same_wakes: "ndp_subscription_stop ops s force ndp = (r, ndp') \<Longrightarrow> same_wakes ndp ndp'"
  by (auto simp: ndp_subscription_stop_def same_wakes_def Let_def split: if_splits prod.splits)

lemma create_same_wakes: "ndp_subscription_create ops b req alloc ndp = (res, req', ndp') \<Longrightarrow> same_wakes ndp ndp'"
  by (auto simp: ndp_subscription_create_def same_wakes_def Let_def split: if_splits prod.splits option.splits)

lemma same_wakes_trans: "same_wakes a b \<Longrightarrow> same_wakes b c \<Longrightarrow> same_wakes a c"
  by (simp add: same_wakes_def)

lemma ioctl_same_wakes:
  assumes "ndp_char_ioctl ops b copy_in copy_out alloc cmd ndp = (r, cmd', ndp')"
  shows "same_wakes ndp ndp'"
proof -
  have "same_wakes ndp ndp" by (simp add: same_wakes_def)
  with assms show ?thesis
    by (cases cmd)
      (auto simp: ndp_char_ioctl_def split: if_splits option.splits prod.splits sum.splits
        dest: sync_same_wakes start_same_wakes stop_same_wakes create_same_wakes
        intro: same_wakes_trans [OF _ destroy_same_wakes])
qed

lemma release_not_woken: "never_woken ndp \<Longrightarrow> never_woken (ndp_char_release ops b ndp)"
proof -
  assume "never_woken ndp"
  let ?ndp1 = "ndp\<lparr>ndp_sbr := (ndp_sbr ndp)(b := (ndp_sbr ndp b)\<lparr>sbr_timer := False\<rparr>)\<rparr>"
  from \<open>never_woken ndp\<close> have "never_woken ?ndp1" by (simp add: never_woken_def)
  from same_wakes_not_woken [OF destroy_all_same_wakes this, of ops "sbr_subscriptions (ndp_sbr ndp b)"]
  show ?thesis
    by (auto simp: never_woken_def ndp_char_release_def ndp_subscriber_destroy_def Let_def dest: notin_set_remove1)
qed

lemma reach_not_woken: "ndp_reach ops ndp \<Longrightarrow> never_woken ndp"
proof (induction rule: ndp_reach.induct)
  case (ndp_reach_step ndp ndp')
  from ndp_reach_step(2,3) show ?case
  proof (cases rule: ndp_step.cases)
    case (ndp_step_ioctl b alloc copy_in copy_out cmd r cmd')
    with ndp_reach_step(3) show ?thesis by (auto intro: same_wakes_not_woken ioctl_same_wakes)
  next
    case (ndp_step_open b r p)
    with ndp_reach_step(3) show ?thesis
      by (auto simp: never_woken_def ndp_char_open_def ndp_subscriber_create_def split: if_splits)
  next
    case (ndp_step_poll b r)
    with ndp_reach_step(3) show ?thesis
      by (auto simp: never_woken_def ndp_char_poll_def ndp_subscriber_poll_def split: if_splits)
  next
    case (ndp_step_hardware c x)
    with ndp_reach_step(3) show ?thesis by (simp add: never_woken_def)
  qed (use ndp_reach_step(3) in \<open>simp_all add: release_not_woken timer_not_woken\<close>)
qed (simp add: never_woken_def)

lemma poll_not_ready:
  assumes "ndp_reach ops ndp" and "b \<in> set (ndp_subscribers ndp)"
  shows "fst (ndp_char_poll b ndp) = 0" and "\<not> sbr_wake_rx (ndp_sbr (ndp_subscriber_poll_timer b ndp) b)"
  using reach_not_woken [OF assms(1)] timer_not_woken [OF reach_not_woken [OF assms(1)], of b] assms(2)
  by (auto simp: never_woken_def ndp_char_poll_def ndp_subscriber_poll_def ndp_subscriber_poll_timer_def Let_def)

end
