(* ===== verification/Ring.thy ===== *)
theory Ring
  imports Channel
begin

text \<open>
  The ring buffer of a channel (\<open>drivers/kernel/drivers/nfb/ndp/ring.c\<close>): choosing the block size,
  allocating the blocks and mapping them twice in a row into the kernel, handing the ring to the
  controller and to the character device, mapping it twice in a row into an application, and
  changing its size while no subscription runs.

  The two module parameters are arguments.  The functions that may fail give the return value, the
  channel and the world of kernel services.
\<close>

section \<open>Block size and count\<close>

definition NDP_RING_BLOCK_SIZE_DEFAULT :: u64 where "NDP_RING_BLOCK_SIZE_DEFAULT = 4 * 1024 * 1024"

definition ndp_channel_ring_req_block_update_by_size ::
  "u64 \<Rightarrow> u64 \<Rightarrow> 'c ndp_channel \<Rightarrow> int \<times> 'c ndp_channel" where
  "ndp_channel_ring_req_block_update_by_size ndp_ring_block_size req_size ch =
     (if \<not> ispow2 req_size \<or> req_size < PAGE_SIZE then (- EINVAL, ch)
      else let s1 = ndp_ring_block_size;
               s2 = (if req_size < s1 then req_size else s1);
               s3 = (if s2 = 0 \<or> \<not> ispow2 s2 then NDP_RING_BLOCK_SIZE_DEFAULT else s2)
           in (0, ch\<lparr>ch_req_block_size := s3, ch_req_block_count := req_size div s3\<rparr>))"

definition ndp_channel_get_ring_size :: "'c ndp_channel \<Rightarrow> u64" where
  "ndp_channel_get_ring_size ch = ring_size (ch_ring ch)"

section \<open>Blocks of DMA memory\<close>

primrec block_alloc_loop :: "nat \<Rightarrow> u64 \<Rightarrow> ndp_block list \<Rightarrow> world \<Rightarrow> ndp_block list option \<times> world" where
  "block_alloc_loop 0 sz got w = (Some (rev got), w)"
| "block_alloc_loop (Suc n) sz got w =
     (case dma_alloc_coherent sz w of
        (None, w1) \<Rightarrow> (None, fold (\<lambda>blk. dma_free_coherent sz (Some (blk_phys blk))) got w1)
      | (Some a, w1) \<Rightarrow> block_alloc_loop n sz (\<lparr>blk_size = sz, blk_phys = a\<rparr> # got) w1)"

definition ndp_block_alloc :: "u32 \<Rightarrow> u64 \<Rightarrow> world \<Rightarrow> ndp_block list option \<times> world" where
  "ndp_block_alloc cnt sz w =
     (if cnt = 0 \<or> sz = 0 then (None, w)
      else case kmalloc_ok w of (ok, w1) \<Rightarrow>
        if ok then block_alloc_loop (unat cnt) sz [] w1 else (None, w1))"

definition ndp_block_free :: "ndp_block list \<Rightarrow> u32 \<Rightarrow> world \<Rightarrow> world" where
  "ndp_block_free blocks cnt =
     fold (\<lambda>blk. dma_free_coherent (blk_size blk) (Some (blk_phys blk))) (take (unat cnt) blocks)"

section \<open>The kernel mapping\<close>

text \<open>
  The page array: the k-th page of the blocks goes to the positions k and k + page\_count.  A write
  beyond the array, which the code performs when the block size is not a multiple of the page size,
  is dropped here.
\<close>

definition block_pages :: "u64 \<Rightarrow> ndp_block \<Rightarrow> u64 list" where
  "block_pages sz blk =
     map (\<lambda>j. blk_phys blk + of_nat j * PAGE_SIZE) [0 ..< (unat sz + unat PAGE_SIZE - 1) div unat PAGE_SIZE]"

primrec fill_pages :: "nat \<Rightarrow> nat \<Rightarrow> u64 list \<Rightarrow> u64 list \<Rightarrow> u64 list" where
  "fill_pages page_count k [] pages = pages"
| "fill_pages page_count k (p # ps) pages =
     fill_pages page_count (Suc k) ps (pages[k := p, k + page_count := p])"

definition ring_pages :: "u64 \<Rightarrow> u64 \<Rightarrow> ndp_block list \<Rightarrow> u64 list" where
  "ring_pages cnt sz blocks =
     (let page_count = unat (ucast (cnt * (sz div PAGE_SIZE)) :: u32) in
      fill_pages page_count 0 (concat (map (block_pages sz) blocks)) (replicate (page_count * 2) 0))"

definition ndp_channel_ring_alloc ::
  "int \<Rightarrow> u64 \<Rightarrow> u64 \<Rightarrow> 'c ndp_channel \<Rightarrow> world \<Rightarrow> int \<times> 'c ndp_channel \<times> world" where
  "ndp_channel_ring_alloc dev cnt sz ch w =
     (let ring0 = (ch_ring ch)\<lparr>ring_size := 0, ring_mmap_size := 0, ring_block_count := 0, ring_vmap := None,
                               ring_dev := Some dev\<rparr>;
          failed = ch\<lparr>ch_ring := ring0\<lparr>ring_blocks := []\<rparr>\<rparr>
      in case ndp_block_alloc (ucast cnt) sz w of
        (None, w1) \<Rightarrow> (- ENOMEM, failed, w1)
      | (Some blocks, w1) \<Rightarrow>
        (case kmalloc_ok w1 of (ok, w2) \<Rightarrow>
          if \<not> ok then (- ENOMEM, failed, ndp_block_free blocks (ucast cnt) w2)
          else case vmap (ring_pages cnt sz blocks) w2 of
            (None, w3) \<Rightarrow> (- ENOMEM, failed, ndp_block_free blocks (ucast cnt) w3)
          | (Some v, w3) \<Rightarrow>
            (0, ch\<lparr>ch_ring := ring0\<lparr>ring_blocks := blocks, ring_vmap := Some v, ring_block_count := cnt,
                                   ring_size := cnt * sz, ring_mmap_size := 2 * (cnt * sz)\<rparr>\<rparr>, w3)))"

definition ndp_channel_ring_free :: "'c ndp_channel \<Rightarrow> world \<Rightarrow> 'c ndp_channel \<times> world" where
  "ndp_channel_ring_free ch w =
     (let ring = ch_ring ch;
          w1 = (if ring_vmap ring \<noteq> None then vunmap (ring_vmap ring) w else w);
          w2 = ndp_block_free (ring_blocks ring) (ucast (ring_block_count ring)) w1
      in (ch\<lparr>ch_ring := ring\<lparr>ring_vmap := None, ring_blocks := [], ring_block_count := 0,
                            ring_mmap_size := 0, ring_size := 0\<rparr>\<rparr>, w2))"

section \<open>The mapping of an application\<close>

text \<open>The inner \<open>while\<close> and the \<open>for\<close> loop of \<open>ndp_ring_mmap\<close>; None would be a loop that never ends.\<close>

partial_function (option) ring_wrap :: "u64 \<Rightarrow> u64 \<Rightarrow> u64 option" where
  "ring_wrap sz block_offset =
     (if block_offset \<ge> sz then ring_wrap sz (block_offset - sz) else Some block_offset)"

partial_function (option) ring_mmap_loop ::
  "ndp_ring \<Rightarrow> u64 \<Rightarrow> u64 \<Rightarrow> (u64 \<times> u64 \<times> u64) list \<Rightarrow> (u64 \<times> u64 \<times> u64) list option" where
  "ring_mmap_loop ring sz offset acc =
     (if offset < sz then
        Option.bind (ring_wrap (ring_size ring) offset) (\<lambda>block_offset.
          let bs = blk_size (ring_blocks ring ! 0);
              block = ring_blocks ring ! unat (block_offset div bs)
          in ring_mmap_loop ring sz (offset + bs) (acc @ [(offset, blk_phys block, bs)]))
      else Some acc)"

text \<open>
  \<open>vm_read\<close> and \<open>vm_write\<close> are the access bits of the mapping.  The result holds the remapped ranges:
  offset in the mapping, physical address, length.
\<close>

definition ndp_ring_mmap ::
  "bool \<Rightarrow> bool \<Rightarrow> u64 \<Rightarrow> u64 \<Rightarrow> 'c ndp_channel \<Rightarrow> (int \<times> (u64 \<times> u64 \<times> u64) list) option" where
  "ndp_ring_mmap vm_read vm_write offset sz ch =
     (if cid_type (ch_id ch) = NDP_CHANNEL_TYPE_RX \<and> \<not> (vm_read \<and> \<not> vm_write) then Some (- EINVAL, [])
      else if offset \<noteq> ring_mmap_offset (ch_ring ch) \<or> sz \<noteq> ring_mmap_size (ch_ring ch) then Some (- EINVAL, [])
      else map_option (Pair 0) (ring_mmap_loop (ch_ring ch) sz 0 []))"

section \<open>Creating, destroying and resizing\<close>

definition ndp_channel_update_fdt :: "'c ndp_channel \<Rightarrow> world \<Rightarrow> world" where
  "ndp_channel_update_fdt ch w =
     (let ring = ch_ring ch;
          w1 = (case ring_dev ring of
                  Some node \<Rightarrow> if node \<noteq> - 1 then fdt_setprop (ch_id ch) ''numa'' (of_int node) w else w
                | None \<Rightarrow> w)
      in fdt_setprop (ch_id ch) ''mmap_base'' (ring_mmap_offset ring)
           (fdt_setprop (ch_id ch) ''mmap_size'' (ring_mmap_size ring)
             (fdt_setprop (ch_id ch) ''size'' (ring_size ring) w1)))"

definition ndp_channel_ring_create ::
  "'c ndp_channel_ops \<Rightarrow> int option \<Rightarrow> u64 \<Rightarrow> u64 \<Rightarrow> 'c ndp_channel \<Rightarrow> world \<Rightarrow> int \<times> 'c ndp_channel \<times> world" where
  "ndp_channel_ring_create ops dev block_count block_size ch w =
     (case dev of
        None \<Rightarrow> (- EINVAL, ch, w)
      | Some node \<Rightarrow>
        if block_count = 0 then (0, ch, w)
        else case ndp_channel_ring_alloc node block_count block_size ch w of (ret, ch1, w1) \<Rightarrow>
          if ret \<noteq> 0 then (ret, ch1, w1)
          else case kw_register_mmap (ring_mmap_size (ch_ring ch1)) (ndp_ring_mmap_of (ch_id ch1))
                      (ring_mmap_offset (ch_ring ch1)) w1 of (ret, off, w2) \<Rightarrow>
            let ch2 = ch1\<lparr>ch_ring := (ch_ring ch1)\<lparr>ring_mmap_offset := off\<rparr>\<rparr> in
            if ret \<noteq> 0 then (case ndp_channel_ring_free ch2 w2 of (ch3, w3) \<Rightarrow> (ret, ch3, w3))
            else case op_attach_ring ops ch2 (ndp_channel_update_fdt ch2 w2) of (ret, ch3, w3) \<Rightarrow>
              if ret \<noteq> 0 then
                (case ndp_channel_ring_free ch3 (kw_unregister_mmap (ring_mmap_offset (ch_ring ch3)) w3) of
                   (ch4, w4) \<Rightarrow> (ret, ch4, w4))
              else (0, ch3, w3))"

definition ndp_channel_ring_destroy :: "'c ndp_channel_ops \<Rightarrow> 'c ndp_channel \<Rightarrow> world \<Rightarrow> 'c ndp_channel \<times> world" where
  "ndp_channel_ring_destroy ops ch w =
     (if ring_size (ch_ring ch) \<noteq> 0 then
        case op_detach_ring ops ch (kw_unregister_mmap (ring_mmap_offset (ch_ring ch)) w) of (ch1, w1) \<Rightarrow>
        case ndp_channel_ring_free ch1 w1 of (ch2, w2) \<Rightarrow> (ch2, ndp_channel_update_fdt ch2 w2)
      else (ch, w))"

definition ndp_channel_ring_resize :: "'c ndp_channel_ops \<Rightarrow> 'c ndp_channel \<Rightarrow> world \<Rightarrow> int \<times> 'c ndp_channel \<times> world" where
  "ndp_channel_ring_resize ops ch w =
     (let orig_block_count = ring_block_count (ch_ring ch);
          orig_block_size = (if orig_block_count \<noteq> 0 then blk_size (ring_blocks (ch_ring ch) ! 0) else 0)
      in if ch_start_count ch \<noteq> 0 then (- EBUSY, ch, w)
      else if ring_dev (ch_ring ch) = None then (- EBADF, ch, w)
      else let dev = ring_dev (ch_ring ch) in
        case ndp_channel_ring_destroy ops ch w of (ch1, w1) \<Rightarrow>
        case ndp_channel_ring_create ops dev (ch_req_block_count ch1) (ch_req_block_size ch1) ch1 w1 of (ret, ch2, w2) \<Rightarrow>
          if ret \<noteq> 0 then
            (if orig_block_count \<noteq> 0 then
               case ndp_channel_ring_create ops dev orig_block_count orig_block_size ch2 w2 of (_, ch3, w3) \<Rightarrow> (ret, ch3, w3)
             else (ret, ch2, w2))
          else (0, ch2, w2))"

text \<open>\<open>len\<close> is the length of the string, \<open>val\<close> the number \<open>memparse\<close> reads from it.\<close>

definition ndp_channel_set_ring_size ::
  "u64 \<Rightarrow> 'c ndp_channel_ops \<Rightarrow> u64 \<Rightarrow> int \<Rightarrow> 'c ndp_channel \<Rightarrow> world \<Rightarrow> int \<times> 'c ndp_channel \<times> world" where
  "ndp_channel_set_ring_size ndp_ring_block_size ops val len ch w =
     (case ndp_channel_ring_req_block_update_by_size ndp_ring_block_size val ch of (ret, ch1) \<Rightarrow>
      if ret \<noteq> 0 then (ret, ch1, w)
      else case ndp_channel_ring_resize ops ch1 w of (ret, ch2, w1) \<Rightarrow>
        (if ret \<noteq> 0 then ret else len, ch2, w1))"

section \<open>Channels of the driver\<close>

definition ndp_channel_init :: "u64 \<Rightarrow> u64 \<Rightarrow> ndp_channel_id \<Rightarrow> 'c ndp_channel \<Rightarrow> 'c ndp_channel" where
  "ndp_channel_init ndp_ring_block_size ndp_ring_size cid ch =
     snd (ndp_channel_ring_req_block_update_by_size ndp_ring_block_size ndp_ring_size
       (ch\<lparr>ch_id := cid, ch_flags := 0, ch_subscriptions_count := 0, ch_start_count := 0,
           ch_locked_sub := None, ch_list_subscriptions := []\<rparr>))"

text \<open>The result of \<open>device_add\<close> is an argument; the return value of the ring creation is ignored.\<close>

definition ndp_channel_add ::
  "'c ndp_channel_ops \<Rightarrow> int \<Rightarrow> u32 \<Rightarrow> 'c ndp_channel \<Rightarrow> 'c ndp_channel list \<Rightarrow> world \<Rightarrow>
   int \<times> 'c ndp_channel list \<times> world" where
  "ndp_channel_add ops device_add phandle ch list_channels w =
     (let w1 = fdt_setprop (ch_id ch) ''ctrl'' (ucast phandle) w in
      case ndp_channel_ring_create ops (ring_dev (ch_ring ch)) (ch_req_block_count ch) (ch_req_block_size ch) ch w1 of
        (_, ch1, w2) \<Rightarrow>
          if device_add \<noteq> 0 then (device_add, list_channels, w2) else (0, list_channels @ [ch1], w2))"

definition ndp_channel_del ::
  "'c ndp_channel_ops \<Rightarrow> nat \<Rightarrow> 'c ndp_channel list \<Rightarrow> world \<Rightarrow> 'c ndp_channel list \<times> world" where
  "ndp_channel_del ops c list_channels w =
     (case op_detach_ring ops (list_channels ! c) w of (ch1, w1) \<Rightarrow>
      case ndp_channel_ring_destroy ops ch1 w1 of (ch2, w2) \<Rightarrow>
        (take c list_channels @ drop (Suc c) list_channels, w2))"

section \<open>Powers of two\<close>

lemma power_of_two_and_pred:
  fixes x :: nat
  assumes "x > 0"
  shows "x AND (x - 1) = 0 \<longleftrightarrow> (\<exists>k. x = 2 ^ k)"
proof
  assume x: "x AND (x - 1) = 0"
  obtain k where k: "2 ^ k \<le> x" "x < 2 ^ (k + 1)" using ex_power_ivl1 [of 2 x] assms by auto
  have "x = 2 ^ k"
  proof (rule ccontr)
    assume "x \<noteq> 2 ^ k"
    with k have "x div 2 ^ k = 1" "(x - 1) div 2 ^ k = 1" by (auto intro!: div_nat_eqI)
    then have "bit x k" "bit (x - 1) k" by (simp_all add: bit_iff_odd)
    then have "bit (x AND (x - 1)) k" by (simp add: bit_and_iff)
    with x show False by simp
  qed
  then show "\<exists>k. x = 2 ^ k" ..
next
  assume "\<exists>k. x = 2 ^ k"
  then obtain k where "x = 2 ^ k" ..
  then have "x AND (x - 1) = take_bit k x" by (simp add: take_bit_eq_mask mask_eq_exp_minus_1)
  with \<open>x = 2 ^ k\<close> show "x AND (x - 1) = 0" by (simp add: take_bit_eq_mod)
qed

lemma unat_and_u64: "unat (x AND y) = unat x AND unat y" for x y :: "'a::len word"
  by (simp add: unsigned_and_eq)

lemma unat_pred: "x \<noteq> 0 \<Longrightarrow> unat (x - 1) = unat x - 1" for x :: "'a::len word"
  by (simp add: unat_minus_one)

lemma ispow2_iff:
  "x \<noteq> 0 \<Longrightarrow> ispow2 x \<longleftrightarrow> (\<exists>k. unat x = 2 ^ k)"
proof -
  assume "x \<noteq> 0"
  then have "unat ((x - 1) AND x) = unat x AND (unat x - 1)"
    by (simp only: unat_and_u64 unat_pred [OF \<open>x \<noteq> 0\<close>] and.commute)
  then have "ispow2 x \<longleftrightarrow> unat x AND (unat x - 1) = 0"
    unfolding ispow2_def by (metis unsigned_eq_0_iff)
  also have "\<dots> \<longleftrightarrow> (\<exists>k. unat x = 2 ^ k)"
    using \<open>x \<noteq> 0\<close> by (intro power_of_two_and_pred) (simp add: unat_gt_0)
  finally show ?thesis .
qed

text \<open>For a ring size that is a power of two of at least one page, and a non-zero power of two as the
  block size parameter, the request is accepted and asks for at least one block, the block size is a
  power of two not larger than the ring, and the blocks make up exactly the requested size.
\<close>

theorem req_block_update_exact:
  assumes "ispow2 req_size" and "PAGE_SIZE \<le> req_size" and "ispow2 bs" and "bs \<noteq> 0"
    and "ndp_channel_ring_req_block_update_by_size bs req_size ch = (ret, ch')"
  shows "ret = 0 \<and> ch_req_block_count ch' \<noteq> 0 \<and> ispow2 (ch_req_block_size ch') \<and>
    unat (ch_req_block_count ch') * unat (ch_req_block_size ch') = unat req_size"
proof -
  have req0: "req_size \<noteq> 0" using assms(2) by (auto simp: PAGE_SIZE_def)
  define s where "s = (if req_size < bs then req_size else bs)"
  have s: "ispow2 s" "s \<noteq> 0" "s \<le> req_size" using assms(1,3,4) req0 by (auto simp: s_def)
  then have res: "ret = 0" "ch_req_block_size ch' = s" "ch_req_block_count ch' = req_size div s"
    using assms(1,2,5) unfolding ndp_channel_ring_req_block_update_by_size_def Let_def s_def [symmetric]
    by (auto simp: not_less [symmetric])
  obtain i j where ij: "unat req_size = 2 ^ i" "unat s = 2 ^ j" using assms(1) s req0 ispow2_iff by metis
  with s(3) have "j \<le> i" by (metis word_le_nat_alt power_increasing_iff one_less_numeral_iff semiring_norm(76))
  then have "unat (req_size div s) * unat s = unat req_size"
    by (simp add: unat_div ij flip: power_add power_diff)
  moreover have "unat req_size \<noteq> 0" using req0 by (simp add: unat_eq_zero)
  ultimately show ?thesis using s(1) res by auto
qed

theorem req_block_update_exact_witness:
  "let ch = snd (ndp_channel_ring_req_block_update_by_size 0x400000 0x1000000 (zero_channel ())) in
   unat (ch_req_block_count ch) * unat (ch_req_block_size ch) = 0x1000000"
proof -
  obtain r ch where r: "ndp_channel_ring_req_block_update_by_size 0x400000 0x1000000 (zero_channel ()) = (r, ch)"
    by force
  have "ispow2 0x1000000" "PAGE_SIZE \<le> 0x1000000" "ispow2 0x400000" "(0x400000 :: u64) \<noteq> 0" by code_simp+
  from req_block_update_exact [OF this r] show ?thesis by (simp add: r)
qed

text \<open>When the block size parameter is zero, or not a power of two and not larger than the requested size,
  a ring smaller than 4 MiB is accepted with a count of zero blocks, and creating it reports success without
  allocating anything.
\<close>

theorem req_block_update_empty:
  assumes "ispow2 req_size" and "PAGE_SIZE \<le> req_size" and "req_size < NDP_RING_BLOCK_SIZE_DEFAULT"
    and "bs = 0 \<or> \<not> ispow2 bs \<and> bs \<le> req_size"
    and "ndp_channel_ring_req_block_update_by_size bs req_size ch = (ret, ch')"
  shows "ret = 0 \<and> ch_req_block_count ch' = 0 \<and>
    ndp_channel_ring_create ops (Some node) (ch_req_block_count ch') (ch_req_block_size ch') ch' w = (0, ch', w)"
proof -
  have "\<not> req_size < bs" using assms(4) by (auto simp: not_less)
  then have "ret = 0 \<and> ch_req_block_count ch' = req_size div NDP_RING_BLOCK_SIZE_DEFAULT"
    using assms(1,2,4,5) unfolding ndp_channel_ring_req_block_update_by_size_def Let_def
    by (auto simp: not_less [symmetric] split: if_splits)
  moreover have "req_size div NDP_RING_BLOCK_SIZE_DEFAULT = 0"
    using assms(3) by (simp add: word_unat_eq_iff unat_div word_less_nat_alt)
  ultimately show ?thesis by (simp add: ndp_channel_ring_create_def)
qed

theorem req_block_update_empty_witness:
  "ch_req_block_count (snd (ndp_channel_ring_req_block_update_by_size 0 0x100000 (zero_channel ()))) = 0"
proof -
  obtain r ch where r: "ndp_channel_ring_req_block_update_by_size 0 0x100000 (zero_channel ()) = (r, ch)"
    by force
  have "ispow2 0x100000" "PAGE_SIZE \<le> 0x100000" "(0x100000 :: u64) < NDP_RING_BLOCK_SIZE_DEFAULT"
    "(0 :: u64) = 0 \<or> \<not> ispow2 0 \<and> (0 :: u64) \<le> 0x100000" by code_simp+
  from req_block_update_empty [OF this r] show ?thesis by (simp add: r)
qed

section \<open>The double mapping\<close>

lemma unat_of_nat_u64: "n < 2 ^ 64 \<Longrightarrow> unat (of_nat n :: u64) = n"
  by (simp add: unat_of_nat)

definition ring_wf :: "nat \<Rightarrow> nat \<Rightarrow> ndp_ring \<Rightarrow> bool" where
  "ring_wf n bs ring \<longleftrightarrow> 0 < n \<and> 0 < bs \<and> 2 * n * bs < 2 ^ 64 \<and>
     length (ring_blocks ring) = n \<and> (\<forall>blk \<in> set (ring_blocks ring). blk_size blk = of_nat bs) \<and>
     ring_size ring = of_nat (n * bs) \<and> ring_mmap_size ring = of_nat (2 * n * bs)"

lemma ring_wrap_twice:
  assumes "x < 2 * m" and "2 * m < 2 ^ 64"
  shows "ring_wrap (of_nat m) (of_nat x) = Some (of_nat (x mod m))"
proof (cases "x < m")
  case True
  then have "\<not> (of_nat m :: u64) \<le> of_nat x"
    using assms by (simp add: word_le_nat_alt unat_of_nat_u64)
  with True show ?thesis by (subst ring_wrap.simps) simp
next
  case False
  then have ge: "(of_nat m :: u64) \<le> of_nat x" and eq: "(of_nat x - of_nat m :: u64) = of_nat (x - m)"
    using assms by (simp_all add: word_le_nat_alt unat_of_nat_u64 of_nat_diff)
  have lt: "\<not> (of_nat m :: u64) \<le> of_nat (x - m)"
    using assms False by (simp add: word_le_nat_alt unat_of_nat_u64 del: of_nat_diff)
  have "ring_wrap (of_nat m) (of_nat x) = ring_wrap (of_nat m) (of_nat (x - m))"
    by (subst ring_wrap.simps) (simp only: ge eq if_True)
  also have "\<dots> = Some (of_nat (x - m))" by (subst ring_wrap.simps) (simp only: lt if_False)
  also have "x - m = x mod m" using False assms(1) by (simp add: le_mod_geq)
  finally show ?thesis .
qed

text \<open>The range that the i-th turn of the loop maps.\<close>

definition ring_range :: "nat \<Rightarrow> nat \<Rightarrow> ndp_ring \<Rightarrow> nat \<Rightarrow> u64 \<times> u64 \<times> u64" where
  "ring_range n bs ring i = (of_nat (i * bs), blk_phys (ring_blocks ring ! (i mod n)), of_nat bs)"

lemma ring_mmap_loop_from:
  assumes wf: "ring_wf n bs ring" and "i \<le> 2 * n"
  shows "ring_mmap_loop ring (of_nat (2 * n * bs)) (of_nat (i * bs)) acc =
    Some (acc @ map (ring_range n bs ring) [i ..< 2 * n])"
  using assms(2)
proof (induction "2 * n - i" arbitrary: i acc)
  case 0
  then have "i = 2 * n" by simp
  then show ?case by (subst ring_mmap_loop.simps) simp
next
  case (Suc k)
  then have i: "i < 2 * n" by simp
  have n: "0 < n" "0 < bs" "2 * n * bs < 2 ^ 64" using wf by (auto simp: ring_wf_def)
  have le: "Suc i * bs \<le> 2 * n * bs" using i by (intro mult_le_mono1) simp
  then have ib: "i * bs < 2 * n * bs" "i * bs < 2 * (n * bs)" using n i by simp_all
  have lt: "(of_nat (i * bs) :: u64) < of_nat (2 * n * bs)"
    using ib(1) n(3) unfolding word_less_nat_alt
    by (subst (1 2) unat_of_nat_u64) (linarith | simp only:)+
  have wrap: "ring_wrap (ring_size ring) (of_nat (i * bs)) = Some (of_nat ((i mod n) * bs))"
    using ring_wrap_twice [OF ib(2)] n wf by (simp add: ring_wf_def mult.commute mult_mod_left mod_mult_mult2)
  have "(i mod n) * bs < n * bs" using n by simp
  then have "unat (of_nat ((i mod n) * bs) :: u64) = (i mod n) * bs" using n(3) by (intro unat_of_nat_u64) linarith
  moreover have "unat (of_nat bs :: u64) = bs"
    using n mult_le_mono1 [of 1 n bs] by (intro unat_of_nat_u64) linarith
  ultimately have idx: "unat ((of_nat ((i mod n) * bs) :: u64) div of_nat bs) = i mod n"
    using n(2) by (simp add: unat_div del: of_nat_mult)
  have next_off: "of_nat (i * bs) + of_nat bs = (of_nat (Suc i * bs) :: u64)" by simp
  have bs0: "blk_size (ring_blocks ring ! 0) = of_nat bs" using wf by (simp add: ring_wf_def)
  have "ring_mmap_loop ring (of_nat (2 * n * bs)) (of_nat (i * bs)) acc =
      ring_mmap_loop ring (of_nat (2 * n * bs)) (of_nat (Suc i * bs)) (acc @ [ring_range n bs ring i])"
    by (subst ring_mmap_loop.simps)
      (simp only: lt wrap if_True Option.bind.simps Let_def bs0 idx next_off ring_range_def)
  also have "\<dots> = Some (acc @ map (ring_range n bs ring) [i ..< 2 * n])"
    using Suc.hyps(1) [of "Suc i"] Suc.hyps(2) i by (simp add: upt_conv_Cons)
  finally show ?case .
qed

text \<open>Mapping the ring of a channel into an application terminates and maps, one after the other, all
  blocks of the ring and then all blocks once more, without a gap: the byte at distance x behind the
  end of the ring is the byte x of the ring.  A receive ring cannot be mapped for writing.
\<close>

theorem ndp_ring_mmap_double:
  assumes "ring_wf n bs (ch_ring ch)"
    and "offset = ring_mmap_offset (ch_ring ch)" and "sz = ring_mmap_size (ch_ring ch)"
  shows "ndp_ring_mmap vm_read vm_write offset sz ch =
    Some (if cid_type (ch_id ch) = NDP_CHANNEL_TYPE_RX \<and> (vm_write \<or> \<not> vm_read) then (- EINVAL, [])
          else (0, map (\<lambda>i. (of_nat (i * bs), blk_phys (ring_blocks (ch_ring ch) ! (i mod n)), of_nat bs))
                     [0 ..< 2 * n]))"
proof -
  have "ring_mmap_loop (ch_ring ch) sz 0 [] = Some (map (ring_range n bs (ch_ring ch)) [0 ..< 2 * n])"
    using ring_mmap_loop_from [OF assms(1), of 0 "[]"] assms by (simp add: ring_wf_def)
  then show ?thesis using assms(2,3) by (auto simp: ndp_ring_mmap_def ring_range_def)
qed

definition example_ring :: ndp_ring where
  "example_ring = \<lparr>ring_size = 0x2000, ring_mmap_size = 0x4000, ring_mmap_offset = 0, ring_block_count = 2,
     ring_blocks = [\<lparr>blk_size = 0x1000, blk_phys = 0x70000\<rparr>, \<lparr>blk_size = 0x1000, blk_phys = 0x90000\<rparr>],
     ring_dev = Some 0, ring_vmap = Some 0x100000\<rparr>"

theorem ndp_ring_mmap_double_witness:
  "ndp_ring_mmap True False 0 0x4000 ((zero_channel ())\<lparr>ch_ring := example_ring\<rparr>) =
    Some (0, [(0, 0x70000, 0x1000), (0x1000, 0x90000, 0x1000), (0x2000, 0x70000, 0x1000), (0x3000, 0x90000, 0x1000)])"
proof -
  have "ring_wf 2 0x1000 (ch_ring ((zero_channel ())\<lparr>ch_ring := example_ring\<rparr>))"
    by (simp add: ring_wf_def example_ring_def)
  from ndp_ring_mmap_double [OF this refl refl, of True False] show ?thesis
    by (simp add: example_ring_def zero_channel_def upt_conv_Cons)
qed

text \<open>The kernel's own mapping: the page array holds the pages of all blocks twice in a row.\<close>

lemma fill_pages_twice:
  assumes "length done' + length ps = page_count"
  shows "fill_pages page_count (length done') ps
      (done' @ replicate (length ps) z @ done' @ replicate (length ps) z) = (done' @ ps) @ (done' @ ps)"
  using assms
proof (induction ps arbitrary: done')
  case (Cons p ps)
  have "fill_pages page_count (length done') (p # ps)
      (done' @ replicate (length (p # ps)) z @ done' @ replicate (length (p # ps)) z) =
    fill_pages page_count (length (done' @ [p])) ps
      ((done' @ [p]) @ replicate (length ps) z @ (done' @ [p]) @ replicate (length ps) z)"
    by (simp add: list_update_append flip: Cons.prems)
  also have "\<dots> = (done' @ p # ps) @ (done' @ p # ps)" using Cons.IH [of "done' @ [p]"] Cons.prems by simp
  finally show ?case .
qed simp

lemma ring_pages_twice:
  assumes "length blocks = n" and "n * p < 2 ^ 31" and "cnt = of_nat n" and "sz = of_nat (p * unat PAGE_SIZE)"
  shows "ring_pages cnt sz blocks =
    concat (map (block_pages sz) blocks) @ concat (map (block_pages sz) blocks)"
proof (cases "n = 0")
  case False
  then have "p \<le> n * p" by simp
  with assms(2) have p: "p < 2 ^ 31" by linarith
  have page: "unat PAGE_SIZE = 4096" by (simp add: PAGE_SIZE_def)
  have sz: "unat sz = p * 4096" using p by (simp add: assms(4) page unat_of_nat_u64 del: of_nat_mult)
  have len: "length (block_pages sz blk) = p" for blk by (simp add: block_pages_def sz page)
  have "sz div PAGE_SIZE = of_nat p"
    using p unat_of_nat_u64 [of p] by (simp add: word_unat_eq_iff unat_div sz page)
  then have pc: "unat (ucast (cnt * (sz div PAGE_SIZE)) :: u32) = n * p"
    using assms(2,3) by (simp add: unsigned_ucast_eq take_bit_eq_mod unat_of_nat flip: of_nat_mult)
  have all: "length (concat (map (block_pages sz) blocks)) = n * p"
    by (simp add: length_concat o_def len sum_list_triv assms(1))
  have "replicate (n * p * 2) (0 :: u64) = replicate (n * p) 0 @ replicate (n * p) 0"
    by (simp add: mult_2_right replicate_add)
  with fill_pages_twice [of "[]" "concat (map (block_pages sz) blocks)" "n * p" 0] show ?thesis
    by (simp add: ring_pages_def pc all)
qed (use assms in \<open>simp add: ring_pages_def\<close>)

section \<open>No leak\<close>

text \<open>The resources of the driver: live objects, registered areas, and no free of something not live.\<close>

definition same_resources :: "world \<Rightarrow> world \<Rightarrow> bool" where
  "same_resources w w' \<longleftrightarrow> mset (kw_live w') = mset (kw_live w) \<and> kw_mmaps w' = kw_mmaps w \<and>
     kw_bad_frees w' = kw_bad_frees w"

definition block_obj :: "ndp_block \<Rightarrow> kobj" where
  "block_obj blk = KDma (blk_phys blk) (blk_size blk)"

definition ring_objs :: "ndp_ring \<Rightarrow> kobj multiset" where
  "ring_objs ring = mset (map block_obj (ring_blocks ring)) +
     (case ring_vmap ring of None \<Rightarrow> {#} | Some v \<Rightarrow> {#KVmap v#})"

fun obj_block :: "kobj \<Rightarrow> ndp_block" where
  "obj_block (KDma a z) = \<lparr>blk_size = z, blk_phys = a\<rparr>"
| "obj_block (KVmap a) = \<lparr>blk_size = 0, blk_phys = a\<rparr>"

lemma obj_block_obj [simp]: "obj_block (block_obj blk) = blk"
  by (simp add: block_obj_def)

lemma block_free_fold:
  "fold (\<lambda>blk. dma_free_coherent (blk_size blk) (Some (blk_phys blk))) blks w = fold kw_drop (map block_obj blks) w"
  by (induction blks arbitrary: w) (simp_all add: dma_free_coherent_def block_obj_def)

lemma block_alloc_loop_acquire:
  assumes "\<forall>blk \<in> set got. blk_size blk = sz"
  shows "block_alloc_loop n sz got w =
    (case dma.acquire_all sz n (map block_obj got) w of (r, w') \<Rightarrow> (map_option (map obj_block) r, w'))"
  using assms
proof (induction n arbitrary: got w)
  case 0
  show ?case by (simp add: rev_map o_def)
next
  case (Suc n)
  have free: "fold (\<lambda>blk. dma_free_coherent sz (Some (blk_phys blk))) got w1 = fold kw_drop (map block_obj got) w1" for w1
    using Suc.prems by (induction got arbitrary: w1) (simp_all add: dma_free_coherent_def block_obj_def)
  obtain r w1 where a: "dma_alloc_coherent sz w = (r, w1)" by force
  show ?case
  proof (cases r)
    case None
    with a show ?thesis by (simp add: free)
  next
    case (Some x)
    with a Suc.IH [of "\<lparr>blk_size = sz, blk_phys = x\<rparr> # got" w1] Suc.prems show ?thesis
      by (simp add: block_obj_def)
  qed
qed

lemma acquire_all_KDma:
  assumes "dma.acquire_all sz n got w = (Some rs, w')" and "\<forall>ob \<in> set got. block_obj (obj_block ob) = ob"
  shows "\<forall>ob \<in> set rs. block_obj (obj_block ob) = ob"
  using assms
proof (induction n arbitrary: got w)
  case (Suc n)
  obtain r w1 where a: "dma_alloc_coherent sz w = (r, w1)" by force
  with Suc.prems(1) obtain x where x: "r = Some x" "dma.acquire_all sz n (KDma x sz # got) w1 = (Some rs, w')"
    by (cases r) auto
  have "\<forall>ob \<in> set (KDma x sz # got). block_obj (obj_block ob) = ob"
    using Suc.prems(2) by (simp add: block_obj_def)
  from Suc.IH [OF x(2) this] show ?case .
qed auto

lemma kmalloc_frame:
  "kmalloc_ok w = (ok, w1) \<Longrightarrow> kw_live w1 = kw_live w \<and> kw_mmaps w1 = kw_mmaps w \<and> kw_bad_frees w1 = kw_bad_frees w"
  by (auto simp: kmalloc_ok_def)

lemma vmap_frame:
  "vmap pages w = (r, w1) \<Longrightarrow>
   kw_live w1 = (case r of None \<Rightarrow> kw_live w | Some v \<Rightarrow> KVmap v # kw_live w) \<and>
   kw_mmaps w1 = kw_mmaps w \<and> kw_bad_frees w1 = kw_bad_frees w"
  by (auto simp: vmap_def split: prod.splits option.splits dest!: kw_take_cases)

lemma block_alloc_result:
  assumes "ndp_block_alloc cnt sz w = (res, w')"
  shows "kw_mmaps w' = kw_mmaps w \<and> kw_bad_frees w' = kw_bad_frees w \<and>
    (case res of None \<Rightarrow> mset (kw_live w') = mset (kw_live w)
     | Some blks \<Rightarrow> mset (kw_live w') = mset (kw_live w) + mset (map block_obj blks) \<and> length blks = unat cnt)"
proof (cases "cnt = 0 \<or> sz = 0")
  case False
  obtain ok w1 where k: "kmalloc_ok w = (ok, w1)" by force
  obtain r w2 where a: "dma.acquire_all sz (unat cnt) [] w1 = (r, w2)" by force
  have loop: "block_alloc_loop (unat cnt) sz [] w1 = (map_option (map obj_block) r, w2)"
    using block_alloc_loop_acquire [of "[]" sz "unat cnt" w1] a by simp
  have "map block_obj (map obj_block rs) = rs" if "r = Some rs" for rs
    using acquire_all_KDma [of sz "unat cnt" "[]" w1 rs w2] a that by (simp add: map_idI)
  with dma.acquire_all_live [OF a] kmalloc_frame [OF k] assms False loop k show ?thesis
    by (cases r) (auto simp: ndp_block_alloc_def split: if_splits)
qed (use assms in \<open>auto simp: ndp_block_alloc_def\<close>)

lemma block_free_result:
  assumes "mset (map block_obj blks) \<subseteq># mset (kw_live w)" and "length blks = unat cnt"
  shows "mset (kw_live (ndp_block_free blks cnt w)) = mset (kw_live w) - mset (map block_obj blks)"
    "kw_mmaps (ndp_block_free blks cnt w) = kw_mmaps w"
    "kw_bad_frees (ndp_block_free blks cnt w) = kw_bad_frees w"
  using dma.release_all [OF assms(1)] assms(2) by (simp_all add: ndp_block_free_def block_free_fold)

text \<open>A failed allocation leaves nothing behind; a successful one owns what it allocated.\<close>

lemma ring_alloc_result:
  assumes "ndp_channel_ring_alloc dev cnt sz ch w = (r, ch', w')"
  shows "if r = 0 then mset (kw_live w') = mset (kw_live w) + ring_objs (ch_ring ch') \<and> kw_mmaps w' = kw_mmaps w \<and>
      kw_bad_frees w' = kw_bad_frees w \<and> ring_vmap (ch_ring ch') \<noteq> None \<and>
      length (ring_blocks (ch_ring ch')) = unat (ucast (ring_block_count (ch_ring ch')) :: u32) \<and>
      (\<exists>ring. ch' = ch\<lparr>ch_ring := ring\<rparr>)
    else same_resources w w' \<and> ring_objs (ch_ring ch') = {#} \<and> ring_size (ch_ring ch') = 0 \<and>
      (\<exists>ring. ch' = ch\<lparr>ch_ring := ring\<rparr>)"
proof -
  obtain res w1 where b: "ndp_block_alloc (ucast cnt) sz w = (res, w1)" by force
  note br = block_alloc_result [OF b]
  obtain ok w2 where k: "kmalloc_ok w1 = (ok, w2)" by force
  show ?thesis
  proof (cases res)
    case None
    with assms b br show ?thesis
      by (auto simp: ndp_channel_ring_alloc_def Let_def same_resources_def ring_objs_def)
  next
    case (Some blks)
    obtain v w3 where v: "vmap (ring_pages cnt sz blks) w2 = (v, w3)" by force
    have len: "length blks = unat (ucast cnt :: u32)"
      and live: "mset (kw_live w1) = mset (kw_live w) + mset (map block_obj blks)" using br Some by simp_all
    note free2 = block_free_result [OF _ len, of w2] and free3 = block_free_result [OF _ len, of w3]
    show ?thesis
    proof (cases "ok \<and> v \<noteq> None")
      case True
      then show ?thesis
        using assms b Some k v br kmalloc_frame [OF k] vmap_frame [OF v] len
        by (auto simp: ndp_channel_ring_alloc_def Let_def ring_objs_def)
    next
      case False
      then show ?thesis
        using assms b Some k v br kmalloc_frame [OF k] vmap_frame [OF v] free2 free3
        by (auto simp: ndp_channel_ring_alloc_def Let_def same_resources_def ring_objs_def split: if_splits)
    qed
  qed
qed

lemma ring_free_result:
  assumes "ndp_channel_ring_free ch w = (ch', w')" and "ring_objs (ch_ring ch) \<subseteq># mset (kw_live w)"
    and "length (ring_blocks (ch_ring ch)) = unat (ucast (ring_block_count (ch_ring ch)) :: u32)"
  shows "mset (kw_live w') = mset (kw_live w) - ring_objs (ch_ring ch)" "kw_mmaps w' = kw_mmaps w"
    "kw_bad_frees w' = kw_bad_frees w" "ring_size (ch_ring ch') = 0" "ring_objs (ch_ring ch') = {#}"
    "ring_block_count (ch_ring ch') = 0" "\<exists>ring. ch' = ch\<lparr>ch_ring := ring\<rparr>"
    "ring_dev (ch_ring ch') = ring_dev (ch_ring ch)"
proof -
  let ?w1 = "vunmap (ring_vmap (ch_ring ch)) w"
  have w1: "mset (kw_live ?w1) = mset (kw_live w) - (case ring_vmap (ch_ring ch) of None \<Rightarrow> {#} | Some v \<Rightarrow> {#KVmap v#})"
    "kw_mmaps ?w1 = kw_mmaps w" "kw_bad_frees ?w1 = kw_bad_frees w"
    using assms(2) by (auto simp: vunmap_def ring_objs_def kw_drop_def split: option.splits
        dest: mset_subset_eqD)
  have sub: "mset (map block_obj (ring_blocks (ch_ring ch))) \<subseteq># mset (kw_live ?w1)"
    using assms(2) unfolding w1 ring_objs_def
    by (auto simp: insert_subset_eq_iff split: option.splits)
  note fr = block_free_result [OF sub assms(3)]
  have res: "w' = ndp_block_free (ring_blocks (ch_ring ch)) (ucast (ring_block_count (ch_ring ch))) ?w1"
    "ch' = ch\<lparr>ch_ring := (ch_ring ch)\<lparr>ring_vmap := None, ring_blocks := [], ring_block_count := 0,
                            ring_mmap_size := 0, ring_size := 0\<rparr>\<rparr>"
    using assms(1) by (auto simp: ndp_channel_ring_free_def Let_def vunmap_def)
  show "mset (kw_live w') = mset (kw_live w) - ring_objs (ch_ring ch)" "kw_mmaps w' = kw_mmaps w"
    "kw_bad_frees w' = kw_bad_frees w"
    using fr w1 by (simp_all add: res ring_objs_def diff_diff_add add.commute split: option.splits)
  show "ring_size (ch_ring ch') = 0" "ring_objs (ch_ring ch') = {#}" "ring_block_count (ch_ring ch') = 0"
    "\<exists>ring. ch' = ch\<lparr>ch_ring := ring\<rparr>" "ring_dev (ch_ring ch') = ring_dev (ch_ring ch)"
    by (auto simp: res ring_objs_def)
qed

text \<open>
  What the ring relies on of the controller: attaching changes only the controller and the pointer
  mask of the channel, takes nothing when it fails, and what it takes (\<open>owned\<close>) detaching gives back.
\<close>

locale ring_ctrl =
  fixes ops :: "'c ndp_channel_ops" and owned :: "'c \<Rightarrow> kobj multiset"
  assumes attach_frame: "op_attach_ring ops ch w = (r, ch', w') \<Longrightarrow> \<exists>m c. ch' = ch\<lparr>ch_ptrmask := m, ch_ctrl := c\<rparr>"
    and attach_err: "op_attach_ring ops ch w = (r, ch', w') \<Longrightarrow> r \<noteq> 0 \<Longrightarrow> same_resources w w'"
    and attach_ok: "op_attach_ring ops ch w = (0, ch', w') \<Longrightarrow> ring_block_count (ch_ring ch) \<noteq> 0 \<Longrightarrow>
      mset (kw_live w') = mset (kw_live w) + owned (ch_ctrl ch') \<and> kw_mmaps w' = kw_mmaps w \<and>
      kw_bad_frees w' = kw_bad_frees w"
    and detach: "op_detach_ring ops ch w = (ch', w') \<Longrightarrow> ring_block_count (ch_ring ch) \<noteq> 0 \<Longrightarrow>
      owned (ch_ctrl ch) \<subseteq># mset (kw_live w) \<Longrightarrow>
      mset (kw_live w') = mset (kw_live w) - owned (ch_ctrl ch) \<and> kw_mmaps w' = kw_mmaps w \<and>
      kw_bad_frees w' = kw_bad_frees w \<and> owned (ch_ctrl ch') = {#} \<and> (\<exists>c. ch' = ch\<lparr>ch_ctrl := c\<rparr>)"
begin

text \<open>The state after a successful creation, seen from the world before it.\<close>

definition ring_held :: "world \<Rightarrow> 'c ndp_channel \<Rightarrow> world \<Rightarrow> bool" where
  "ring_held w0 ch w \<longleftrightarrow>
     mset (kw_live w) = mset (kw_live w0) + ring_objs (ch_ring ch) + owned (ch_ctrl ch) \<and>
     snd (nfb_char_unregister_mmap (ring_mmap_offset (ch_ring ch)) (kw_mmaps w)) = kw_mmaps w0 \<and>
     kw_bad_frees w = kw_bad_frees w0 \<and>
     length (ring_blocks (ch_ring ch)) = unat (ucast (ring_block_count (ch_ring ch)) :: u32) \<and>
     ring_block_count (ch_ring ch) \<noteq> 0"

lemma update_fdt_frame:
  "kw_live (ndp_channel_update_fdt ch w) = kw_live w" "kw_mmaps (ndp_channel_update_fdt ch w) = kw_mmaps w"
  "kw_bad_frees (ndp_channel_update_fdt ch w) = kw_bad_frees w"
  by (simp_all add: ndp_channel_update_fdt_def fdt_setprop_def Let_def split: option.splits)

lemma unregister_frame:
  "kw_live (kw_unregister_mmap off w) = kw_live w" "kw_bad_frees (kw_unregister_mmap off w) = kw_bad_frees w"
  "kw_mmaps (kw_unregister_mmap off w) = snd (nfb_char_unregister_mmap off (kw_mmaps w))"
  by (simp_all add: kw_unregister_mmap_def)

lemma register_result:
  assumes "kw_register_mmap sz m off0 w = (r, off, w')"
    and "mmap_wf 0 (kw_mmaps w)" and "mmap_end 0 (kw_mmaps w) + unat sz < 2 ^ 64"
  shows "kw_live w' = kw_live w \<and> kw_bad_frees w' = kw_bad_frees w \<and>
    (if r = 0 then nfb_char_unregister_mmap off (kw_mmaps w') = (0, kw_mmaps w) else kw_mmaps w' = kw_mmaps w)"
proof (cases "sz = 0")
  case False
  obtain ok w1 where k: "kmalloc_ok w = (ok, w1)" by force
  obtain o1 pos where ff: "mmap_first_fit sz (kw_mmaps w1) 0 = (o1, pos)" by force
  have w1: "kw_live w1 = kw_live w" "kw_mmaps w1 = kw_mmaps w" "kw_bad_frees w1 = kw_bad_frees w"
    using kmalloc_frame [OF k] by simp_all
  show ?thesis
    using assms(1) False k ff w1 register_unregister [OF assms(2,3), of m o1]
    by (cases ok) (auto simp: kw_register_mmap_def nfb_char_register_mmap_def)
qed (use assms(1) in \<open>auto simp: kw_register_mmap_def\<close>)

text \<open>Creating a ring either takes nothing or holds what \<open>ring_held\<close> says.\<close>

lemma ring_create_result:
  assumes c: "ndp_channel_ring_create ops (Some node) cnt bs ch w = (r, ch', w')" and "cnt \<noteq> 0"
    and wf: "mmap_wf 0 (kw_mmaps w)" "mmap_end 0 (kw_mmaps w) + unat (2 * (cnt * bs)) < 2 ^ 64"
  shows "if r = 0 then ring_held w ch' w' else same_resources w w' \<and> ring_size (ch_ring ch') = 0"
proof -
  obtain r1 ch1 w1 where a: "ndp_channel_ring_alloc node cnt bs ch w = (r1, ch1, w1)" using prod_cases3 by blast
  note ar = ring_alloc_result [OF a]
  show ?thesis
  proof (cases "r1 = 0")
    case False
    with c assms(2) a ar show ?thesis by (auto simp: ndp_channel_ring_create_def)
  next
    case True
    from a True have mm: "ring_mmap_size (ch_ring ch1) = 2 * (cnt * bs)" "ring_block_count (ch_ring ch1) = cnt"
      by (auto simp: ndp_channel_ring_alloc_def Let_def split: prod.splits option.splits if_splits)
    from True ar have w1: "mset (kw_live w1) = mset (kw_live w) + ring_objs (ch_ring ch1)"
      "kw_mmaps w1 = kw_mmaps w" "kw_bad_frees w1 = kw_bad_frees w"
      and len: "length (ring_blocks (ch_ring ch1)) = unat (ucast (ring_block_count (ch_ring ch1)) :: u32)" by simp_all
    obtain r2 off w2 where g: "kw_register_mmap (ring_mmap_size (ch_ring ch1)) (ndp_ring_mmap_of (ch_id ch1))
        (ring_mmap_offset (ch_ring ch1)) w1 = (r2, off, w2)" using prod_cases3 by blast
    define ch2 where "ch2 = ch1\<lparr>ch_ring := (ch_ring ch1)\<lparr>ring_mmap_offset := off\<rparr>\<rparr>"
    have ring2: "ring_objs (ch_ring ch2) = ring_objs (ch_ring ch1)"
      "length (ring_blocks (ch_ring ch2)) = unat (ucast (ring_block_count (ch_ring ch2)) :: u32)"
      "ring_block_count (ch_ring ch2) = cnt" "ring_mmap_offset (ch_ring ch2) = off"
      using len mm by (simp_all add: ch2_def ring_objs_def)
    have reg: "kw_live w2 = kw_live w1 \<and> kw_bad_frees w2 = kw_bad_frees w1 \<and>
      (if r2 = 0 then nfb_char_unregister_mmap off (kw_mmaps w2) = (0, kw_mmaps w1) else kw_mmaps w2 = kw_mmaps w1)"
      by (rule register_result [OF g]) (use wf w1 mm in simp_all)
    obtain r3 ch3 w3 where at: "op_attach_ring ops ch2 (ndp_channel_update_fdt ch2 w2) = (r3, ch3, w3)"
      using prod_cases3 by blast
    have ring3: "ch_ring ch3 = ch_ring ch2" using attach_frame [OF at] by auto
    note fr2 = ring_free_result [of ch2 w2 "fst (ndp_channel_ring_free ch2 w2)" "snd (ndp_channel_ring_free ch2 w2)"]
    let ?w4 = "kw_unregister_mmap off w3"
    note fr3 = ring_free_result [of ch3 ?w4 "fst (ndp_channel_ring_free ch3 ?w4)" "snd (ndp_channel_ring_free ch3 ?w4)"]
    have c2: "(r, ch', w') = (if r2 \<noteq> 0 then (r2, ndp_channel_ring_free ch2 w2)
        else if r3 \<noteq> 0 then (r3, ndp_channel_ring_free ch3 ?w4) else (0, ch3, w3))"
      using c assms(2) a True g at ring3 ring2
      by (auto simp: ndp_channel_ring_create_def ch2_def [symmetric] Let_def split: prod.splits if_splits)
    consider (mmap) "r2 \<noteq> 0" | (attach) "r2 = 0" "r3 \<noteq> 0" | (ok) "r2 = 0" "r3 = 0" by blast
    then show ?thesis
    proof cases
      case mmap
      with fr2 reg ring2 w1 have "same_resources w (snd (ndp_channel_ring_free ch2 w2)) \<and>
          ring_size (ch_ring (fst (ndp_channel_ring_free ch2 w2))) = 0" by (simp add: same_resources_def)
      with c2 mmap show ?thesis by (cases "ndp_channel_ring_free ch2 w2") auto
    next
      case attach
      with attach_err [OF at] have s3: "mset (kw_live w3) = mset (kw_live w2)" "kw_mmaps w3 = kw_mmaps w2"
        "kw_bad_frees w3 = kw_bad_frees w2" by (simp_all add: same_resources_def update_fdt_frame)
      with attach fr3 reg ring2 ring3 w1 have "same_resources w (snd (ndp_channel_ring_free ch3 ?w4)) \<and>
          ring_size (ch_ring (fst (ndp_channel_ring_free ch3 ?w4))) = 0"
        by (simp add: same_resources_def unregister_frame)
      with c2 attach show ?thesis by (cases "ndp_channel_ring_free ch3 ?w4") auto
    next
      case ok
      with attach_ok [of ch2 _ ch3 w3] at ring2 assms(2) reg w1 ring3 have "ring_held w ch3 w3"
        by (simp add: ring_held_def update_fdt_frame)
      with c2 ok show ?thesis by simp
    qed
  qed
qed

text \<open>Destroying a held ring restores the resources.\<close>

lemma ring_destroy_result:
  assumes d: "ndp_channel_ring_destroy ops ch w = (ch', w')" and h: "ring_held w0 ch w"
    and "ring_size (ch_ring ch) \<noteq> 0"
  shows "same_resources w0 w' \<and> ring_size (ch_ring ch') = 0 \<and> ring_block_count (ch_ring ch') = 0"
proof -
  let ?w1 = "kw_unregister_mmap (ring_mmap_offset (ch_ring ch)) w"
  obtain ch1 w1 where t: "op_detach_ring ops ch ?w1 = (ch1, w1)" by force
  have t1: "mset (kw_live w1) = mset (kw_live ?w1) - owned (ch_ctrl ch)" "kw_mmaps w1 = kw_mmaps ?w1"
    "kw_bad_frees w1 = kw_bad_frees ?w1" and c1: "\<exists>c. ch1 = ch\<lparr>ch_ctrl := c\<rparr>"
    using detach [OF t] h by (simp_all add: ring_held_def unregister_frame)
  from c1 have ring: "ch_ring ch1 = ch_ring ch" by auto
  obtain ch2 w2 where f: "ndp_channel_ring_free ch1 w1 = (ch2, w2)" by force
  have l1: "mset (kw_live w1) = mset (kw_live w0) + ring_objs (ch_ring ch)"
    using h t1 by (simp add: ring_held_def unregister_frame)
  note fr = ring_free_result [OF f, unfolded ring]
  have "mset (kw_live w2) = mset (kw_live w0)" "kw_mmaps w2 = kw_mmaps w0" "kw_bad_frees w2 = kw_bad_frees w0"
    "ring_size (ch_ring ch2) = 0" "ring_block_count (ch_ring ch2) = 0"
    using fr l1 t1 h by (simp_all add: ring_held_def unregister_frame)
  moreover have "ch' = ch2" "w' = ndp_channel_update_fdt ch2 w2"
    using d assms(3) t f by (auto simp: ndp_channel_ring_destroy_def)
  ultimately show ?thesis by (simp add: same_resources_def update_fdt_frame)
qed

end

end
