(* ===== verification/Comp.thy ===== *)
theory Comp
  imports Lock
begin

text \<open>
  Components of the firmware and the MI bus: the accessors of
  \<open>drivers/kernel/drivers/nfb/nfb.h\<close> and the locks of \<open>drivers/kernel/drivers/nfb/bus.c\<close>.

  The hardware behind the bus is a parameter of the model: \<open>mi_env\<close> gives the value that a read
  returns as a function of all earlier accesses, or None when the access fails on the bus.  The log
  (newest first) records what was accessed.  Other applications act on the lock list between two
  attempts of the kernel to take a lock: \<open>comp_others\<close> says what they do.
\<close>

datatype mi_access = MiRead u64 nat | MiWrite u64 nat u64

record mi_bus =
  mi_env :: "mi_access list \<Rightarrow> u64 \<Rightarrow> nat \<Rightarrow> u64 option"
  mi_log :: "mi_access list"

record nfb_comp =
  comp_offset :: u64
  comp_size :: u64
  comp_path :: string
  comp_bus :: mi_bus
  comp_locks :: lock_list
  comp_others :: "nat \<Rightarrow> lock_list \<Rightarrow> lock_list"
  comp_kmalloc :: "nat \<Rightarrow> bool"
  comp_tries :: nat

section \<open>Accessors\<close>

text \<open>The check adds a signed offset and an unsigned size, so the sum wraps around at 64 bits.\<close>

definition nfb_comp_read :: "nat \<Rightarrow> u64 \<Rightarrow> nfb_comp \<Rightarrow> u64 option \<times> nfb_comp" where
  "nfb_comp_read nbyte offset co =
     (if offset + of_nat nbyte > comp_size co then (None, co)
      else let bus = comp_bus co; addr = comp_offset co + offset in
        (mi_env bus (mi_log bus) addr nbyte, co\<lparr>comp_bus := bus\<lparr>mi_log := MiRead addr nbyte # mi_log bus\<rparr>\<rparr>))"

definition nfb_comp_write :: "nat \<Rightarrow> u64 \<Rightarrow> u64 \<Rightarrow> nfb_comp \<Rightarrow> nfb_comp" where
  "nfb_comp_write nbyte val offset co =
     (if offset + of_nat nbyte > comp_size co then co
      else let bus = comp_bus co; addr = comp_offset co + offset in
        co\<lparr>comp_bus := bus\<lparr>mi_log := MiWrite addr nbyte val # mi_log bus\<rparr>\<rparr>)"

text \<open>A read that fails leaves the initial zero in the result; the warning is not modelled.\<close>

definition nfb_comp_read8 :: "nfb_comp \<Rightarrow> u64 \<Rightarrow> u8 \<times> nfb_comp" where
  "nfb_comp_read8 co offset = (case nfb_comp_read 1 offset co of (v, co1) \<Rightarrow> (case_option 0 ucast v, co1))"

definition nfb_comp_read16 :: "nfb_comp \<Rightarrow> u64 \<Rightarrow> u16 \<times> nfb_comp" where
  "nfb_comp_read16 co offset = (case nfb_comp_read 2 offset co of (v, co1) \<Rightarrow> (case_option 0 ucast v, co1))"

definition nfb_comp_read32 :: "nfb_comp \<Rightarrow> u64 \<Rightarrow> u32 \<times> nfb_comp" where
  "nfb_comp_read32 co offset = (case nfb_comp_read 4 offset co of (v, co1) \<Rightarrow> (case_option 0 ucast v, co1))"

definition nfb_comp_read64 :: "nfb_comp \<Rightarrow> u64 \<Rightarrow> u64 \<times> nfb_comp" where
  "nfb_comp_read64 co offset = (case nfb_comp_read 8 offset co of (v, co1) \<Rightarrow> (case_option 0 id v, co1))"

definition nfb_comp_write8 :: "nfb_comp \<Rightarrow> u64 \<Rightarrow> u8 \<Rightarrow> nfb_comp" where
  "nfb_comp_write8 co offset val = nfb_comp_write 1 (ucast val) offset co"

definition nfb_comp_write16 :: "nfb_comp \<Rightarrow> u64 \<Rightarrow> u16 \<Rightarrow> nfb_comp" where
  "nfb_comp_write16 co offset val = nfb_comp_write 2 (ucast val) offset co"

definition nfb_comp_write32 :: "nfb_comp \<Rightarrow> u64 \<Rightarrow> u32 \<Rightarrow> nfb_comp" where
  "nfb_comp_write32 co offset val = nfb_comp_write 4 (ucast val) offset co"

definition nfb_comp_write64 :: "nfb_comp \<Rightarrow> u64 \<Rightarrow> u64 \<Rightarrow> nfb_comp" where
  "nfb_comp_write64 co offset val = nfb_comp_write 8 val offset co"

section \<open>Locking a component\<close>

definition kernel_app :: app where "kernel_app = 0"

text \<open>The \<open>do while\<close> loop: \<open>n\<close> is the number of attempts that the timeout leaves.\<close>

primrec trylock_loop :: "nat \<Rightarrow> int \<Rightarrow> nfb_lock \<Rightarrow> nfb_comp \<Rightarrow> int \<times> nfb_comp" where
  "trylock_loop 0 timeout lock co = (- ETIMEDOUT, co)"
| "trylock_loop (Suc n) timeout lock co =
     (case nfb_lock_try_lock (comp_kmalloc co (comp_tries co)) kernel_app lock (comp_locks co) of (ret, ls) \<Rightarrow>
      let co1 = co\<lparr>comp_locks := ls, comp_tries := Suc (comp_tries co)\<rparr> in
      if ret = 0 then (ret, co1)
      else if ret \<noteq> - EBUSY then (ret, co1)
      else if timeout = 0 then (- EBUSY, co1)
      else trylock_loop n timeout lock (co1\<lparr>comp_locks := comp_others co1 (comp_tries co1) ls\<rparr>))"

definition nfb_comp_trylock :: "nfb_comp \<Rightarrow> u32 \<Rightarrow> int \<Rightarrow> int \<times> nfb_comp" where
  "nfb_comp_trylock co features timeout =
     trylock_loop (nat (timeout * 20) + 1) timeout
       \<lparr>lock_path = comp_path co, lock_features = ucast features\<rparr> co"

definition nfb_comp_lock :: "nfb_comp \<Rightarrow> u32 \<Rightarrow> bool \<times> nfb_comp" where
  "nfb_comp_lock co features = (case nfb_comp_trylock co features 100 of (ret, co1) \<Rightarrow> (ret = 0, co1))"

definition nfb_comp_unlock :: "nfb_comp \<Rightarrow> u32 \<Rightarrow> nfb_comp" where
  "nfb_comp_unlock co features =
     co\<lparr>comp_locks := snd (nfb_lock_unlock kernel_app
       \<lparr>lock_path = comp_path co, lock_features = ucast features\<rparr> (comp_locks co))\<rparr>"

section \<open>Properties\<close>

fun access_range :: "mi_access \<Rightarrow> nat \<times> nat" where
  "access_range (MiRead a n) = (unat a, n)"
| "access_range (MiWrite a n v) = (unat a, n)"

text \<open>The bytes of an access lie in the address range of the component.\<close>

definition confined :: "nfb_comp \<Rightarrow> mi_access \<Rightarrow> bool" where
  "confined co acc \<longleftrightarrow>
     (case access_range acc of (a, n) \<Rightarrow>
        unat (comp_offset co) \<le> a \<and> a + n \<le> unat (comp_offset co) + unat (comp_size co))"

definition comp_wf :: "nfb_comp \<Rightarrow> bool" where
  "comp_wf co \<longleftrightarrow> unat (comp_offset co) + unat (comp_size co) < 2 ^ 64"

definition same_comp :: "nfb_comp \<Rightarrow> nfb_comp \<Rightarrow> bool" where
  "same_comp co co' \<longleftrightarrow> comp_offset co' = comp_offset co \<and> comp_size co' = comp_size co \<and>
     comp_path co' = comp_path co"

lemma address_in_component:
  fixes base off sz :: u64
  assumes "unat base + unat sz < 2 ^ 64" and "unat off + n < 2 ^ 64" and "\<not> off + of_nat n > sz"
  shows "unat (base + off) = unat base + unat off" and "unat off + n \<le> unat sz"
proof -
  have "unat (off + of_nat n) = unat off + n" using assms(2) by (simp add: unat_word_ariths unat_of_nat)
  with assms(3) show "unat off + n \<le> unat sz" by (simp add: word_less_nat_alt)
  with assms(1) show "unat (base + off) = unat base + unat off" by (simp add: unat_word_ariths)
qed

lemma new_access_confined:
  assumes "comp_wf co" and "unat offset + n < 2 ^ 64" and "\<not> offset + of_nat n > comp_size co"
  shows "confined co (MiRead (comp_offset co + offset) n)" "confined co (MiWrite (comp_offset co + offset) n v)"
  using address_in_component [OF assms(1) [unfolded comp_wf_def] assms(2,3)] by (simp_all add: confined_def)

lemma comp_read_confined:
  assumes "comp_wf co" and "unat offset + n < 2 ^ 64" and "nfb_comp_read n offset co = (v, co')"
    and "\<forall>acc \<in> set (mi_log (comp_bus co)). confined co acc"
  shows "\<forall>acc \<in> set (mi_log (comp_bus co')). confined co acc"
  using assms(3,4) new_access_confined(1) [OF assms(1,2)]
  by (auto simp: nfb_comp_read_def Let_def split: if_splits)

lemma comp_write_confined:
  assumes "comp_wf co" and "unat offset + n < 2 ^ 64"
    and "\<forall>acc \<in> set (mi_log (comp_bus co)). confined co acc"
  shows "\<forall>acc \<in> set (mi_log (comp_bus (nfb_comp_write n val offset co))). confined co acc"
  using assms(3) new_access_confined(2) [OF assms(1,2)]
  by (auto simp: nfb_comp_write_def Let_def split: if_splits)

text \<open>Reads and writes at an offset that does not wrap around only touch addresses of the component:
  when all earlier accesses stayed inside, so does the new one.  An access that does not fit is not made.
\<close>

theorem comp_access_confined:
  assumes "comp_wf co" and "unat offset + n < 2 ^ 64"
    and "\<forall>acc \<in> set (mi_log (comp_bus co)). confined co acc"
  shows "(\<forall>acc \<in> set (mi_log (comp_bus (snd (nfb_comp_read n offset co)))). confined co acc) \<and>
    (\<forall>acc \<in> set (mi_log (comp_bus (nfb_comp_write n val offset co))). confined co acc) \<and>
    (unat offset + n > unat (comp_size co) \<longrightarrow>
      nfb_comp_read n offset co = (None, co) \<and> nfb_comp_write n val offset co = co)"
proof -
  obtain v co' where r: "nfb_comp_read n offset co = (v, co')" by force
  have "unat (offset + of_nat n) = unat offset + n" using assms(2) by (simp add: unat_word_ariths unat_of_nat)
  then have "unat offset + n > unat (comp_size co) \<Longrightarrow> offset + of_nat n > comp_size co"
    by (simp add: word_less_nat_alt)
  then show ?thesis
    using comp_read_confined [OF assms(1,2) r assms(3)] comp_write_confined [OF assms] r
    by (auto simp: nfb_comp_read_def nfb_comp_write_def)
qed

definition example_comp :: nfb_comp where
  "example_comp = \<lparr>comp_offset = 0x1000, comp_size = 0x80, comp_path = ''/fw/dma'',
     comp_bus = \<lparr>mi_env = (\<lambda>_ _ _. Some 0), mi_log = []\<rparr>, comp_locks = [], comp_others = (\<lambda>_ ls. ls),
     comp_kmalloc = (\<lambda>_. True), comp_tries = 0\<rparr>"

theorem comp_access_confined_witness:
  "nfb_comp_read 4 0x7D example_comp = (None, example_comp)"
proof -
  have "comp_wf example_comp" "unat (0x7D :: u64) + 4 < 2 ^ 64"
    "\<forall>acc \<in> set (mi_log (comp_bus example_comp)). confined example_comp acc"
    "unat (0x7D :: u64) + 4 > unat (comp_size example_comp)"
    by (simp_all add: comp_wf_def example_comp_def)
  with comp_access_confined show ?thesis by blast
qed

text \<open>The bounds check of the accessors wraps around: an access of n bytes that starts n bytes before
  the component is accepted, whatever the size of the component, and reaches the bus.
\<close>

theorem comp_access_below:
  "mi_log (comp_bus (nfb_comp_write n val (- of_nat n) co)) =
     MiWrite (comp_offset co - of_nat n) n val # mi_log (comp_bus co)"
  by (simp add: nfb_comp_write_def Let_def)

section \<open>Component locks\<close>

text \<open>Bus accesses do not touch the lock list.\<close>

lemma comp_write_frame [simp]:
  "comp_locks (nfb_comp_write32 co off v) = comp_locks co" "comp_path (nfb_comp_write32 co off v) = comp_path co"
  "comp_locks (nfb_comp_write64 co off w) = comp_locks co" "comp_path (nfb_comp_write64 co off w) = comp_path co"
  by (simp_all add: nfb_comp_write32_def nfb_comp_write64_def nfb_comp_write_def Let_def)

lemma comp_read_frame:
  "nfb_comp_read32 co off = (v, co') \<Longrightarrow> comp_locks co' = comp_locks co \<and> comp_path co' = comp_path co"
  "nfb_comp_read64 co off = (w, co') \<Longrightarrow> comp_locks co' = comp_locks co \<and> comp_path co' = comp_path co"
  by (auto simp: nfb_comp_read32_def nfb_comp_read64_def nfb_comp_read_def Let_def split: if_splits prod.splits)

text \<open>A single attempt either changes nothing or adds exactly the requested features of the kernel.\<close>

lemma trylock_once:
  assumes "nfb_comp_trylock co features 0 = (r, co')"
  shows "comp_path co' = comp_path co \<and>
    (r \<noteq> 0 \<longrightarrow> comp_locks co' = comp_locks co) \<and>
    (r = 0 \<longrightarrow> (\<forall>a p b. holds (comp_locks co') a p b \<longleftrightarrow>
        holds (comp_locks co) a p b \<or> a = kernel_app \<and> p = comp_path co \<and> bit features b) \<and>
      (\<forall>a b. bit features b \<longrightarrow> \<not> holds (comp_locks co) a (comp_path co) b))"
proof -
  let ?lock = "\<lparr>lock_path = comp_path co, lock_features = ucast features :: u64\<rparr>"
  let ?ok = "comp_kmalloc co (comp_tries co)"
  obtain e ls where l: "nfb_lock_try_lock ?ok kernel_app ?lock (comp_locks co) = (e, ls)" by force
  have r: "r = e" "comp_locks co' = ls" "comp_path co' = comp_path co"
    using assms l by (auto simp: nfb_comp_trylock_def Let_def split: if_splits)
  have low: "bit (ucast features :: u64) b \<and> b < 32 \<longleftrightarrow> bit features b" for b
    by (auto simp: bit_simps dest: bit_imp_le_length)
  show ?thesis
  proof (cases "e = 0")
    case True
    have "holds ls a p b \<longleftrightarrow> holds (comp_locks co) a p b \<or> a = kernel_app \<and> p = comp_path co \<and> bit features b" for a p b
      using nfb_lock.acquire_held [of kernel_app "(?ok, ?lock)" "comp_locks co" ls a "(p, b)"] l True low [of b]
      by (auto simp: lock_claims_def)
    moreover have "bit features b \<Longrightarrow> \<not> holds (comp_locks co) a (comp_path co) b" for a b
      using nfb_lock.acquire_free [of kernel_app "(?ok, ?lock)" "comp_locks co" ls "(comp_path co, b)" a] l True low [of b]
      by (auto simp: lock_claims_def)
    ultimately show ?thesis using r True by blast
  next
    case False
    then show ?thesis
      using nfb_lock.acquire_error [of kernel_app "(?ok, ?lock)" "comp_locks co" e ls] l r by simp
  qed
qed

lemma unlock_holds:
  assumes "lock_inv (comp_locks co)"
  shows "holds (comp_locks (nfb_comp_unlock co features)) a p b \<longleftrightarrow>
    holds (comp_locks co) a p b \<and> \<not> (a = kernel_app \<and> p = comp_path co \<and> bit features b)"
proof -
  let ?lock = "\<lparr>lock_path = comp_path co, lock_features = ucast features :: u64\<rparr>"
  obtain e ls where u: "nfb_lock_unlock kernel_app ?lock (comp_locks co) = (e, ls)" by force
  have "holds (comp_locks co) a p b \<Longrightarrow> b < 32"
    by (auto simp: holds_def dest: bit_imp_le_length)
  with holds_unlock [OF u, of a p b] assms show ?thesis
    by (auto simp: lock_inv_def nfb_comp_unlock_def u bit_simps)
qed

text \<open>After a success the kernel holds the features, whatever others did between the attempts.\<close>

lemma trylock_loop_ok:
  assumes "trylock_loop n t lock co = (0, co')"
    and "\<And>i ls. lock_reachable ls \<Longrightarrow> lock_reachable (comp_others co i ls)" and "lock_reachable (comp_locks co)"
  shows "lock_reachable (comp_locks co') \<and>
    (\<forall>b < 32. bit (lock_features lock) b \<longrightarrow> holds (comp_locks co') kernel_app (lock_path lock) b)"
  using assms
proof (induction n arbitrary: co)
  case (Suc n)
  obtain r ls where l: "nfb_lock_try_lock (comp_kmalloc co (comp_tries co)) kernel_app lock (comp_locks co) = (r, ls)"
    by force
  have reach: "lock_reachable ls" using lock_reachable.try_lock [OF Suc.prems(3)] l by (metis snd_conv)
  show ?case
  proof (cases "r = 0")
    case True
    have "holds ls kernel_app (lock_path lock) b" if "b < 32" "bit (lock_features lock) b" for b
      using nfb_lock.acquire_held [of kernel_app "(comp_kmalloc co (comp_tries co), lock)" "comp_locks co" ls
          kernel_app "(lock_path lock, b)"] l True that by (simp add: lock_claims_def)
    with Suc.prems(1) l True reach show ?thesis by auto
  next
    case False
    let ?co = "co\<lparr>comp_tries := Suc (comp_tries co), comp_locks := comp_others co (Suc (comp_tries co)) ls\<rparr>"
    have "trylock_loop n t lock ?co = (0, co')"
      using Suc.prems(1) l False by (auto simp: Let_def split: if_splits)
    from Suc.IH [OF this] Suc.prems(2) reach show ?thesis by simp
  qed
qed simp

lemma trylock_loop_path: "trylock_loop n t lock co = (r, co') \<Longrightarrow> comp_path co' = comp_path co"
proof (induction n arbitrary: co)
  case (Suc n)
  obtain e ls where l: "nfb_lock_try_lock (comp_kmalloc co (comp_tries co)) kernel_app lock (comp_locks co) = (e, ls)"
    by force
  let ?co = "co\<lparr>comp_tries := Suc (comp_tries co), comp_locks := comp_others co (Suc (comp_tries co)) ls\<rparr>"
  from Suc.prems l Suc.IH [of ?co] show ?case by (auto simp: Let_def split: if_splits)
qed simp

text \<open>When \<open>nfb_comp_lock\<close> reports success the kernel holds every requested feature of the component
  and no other application does, whatever lock operations other applications perform between the
  (at most 2001) attempts; after \<open>nfb_comp_unlock\<close> of the same features the kernel holds none of them.
\<close>

theorem comp_lock_exclusive:
  assumes "lock_reachable (comp_locks co)"
    and "\<And>i ls. lock_reachable ls \<Longrightarrow> lock_reachable (comp_others co i ls)"
    and "nfb_comp_lock co features = (True, co')" and "bit features b"
  shows "(holds (comp_locks co') a (comp_path co) b \<longleftrightarrow> a = kernel_app) \<and>
    \<not> holds (comp_locks (nfb_comp_unlock co' features)) kernel_app (comp_path co) b"
proof -
  let ?lock = "\<lparr>lock_path = comp_path co, lock_features = ucast features :: u64\<rparr>"
  have loop: "trylock_loop 2001 100 ?lock co = (0, co')"
    using assms(3) by (auto simp: nfb_comp_lock_def nfb_comp_trylock_def split: prod.splits)
  from trylock_loop_ok [OF loop assms(2,1)] have reach: "lock_reachable (comp_locks co')"
    and held: "\<And>b. b < 32 \<Longrightarrow> bit (ucast features :: u64) b \<Longrightarrow> holds (comp_locks co') kernel_app (comp_path co) b"
    by simp_all
  have "b < 32" using bit_imp_le_length [OF assms(4)] by simp
  with held [of b] assms(4) have "holds (comp_locks co') kernel_app (comp_path co) b" by (simp add: bit_simps)
  moreover have inv: "lock_inv (comp_locks co')" using reach by (rule lock_inv_reachable)
  moreover obtain e ls where u: "nfb_lock_unlock kernel_app
      \<lparr>lock_path = comp_path co', lock_features = ucast features\<rparr> (comp_locks co') = (e, ls)" by force
  moreover have "\<not> holds ls kernel_app (comp_path co) b"
    using holds_unlock [OF u] inv trylock_loop_path [OF loop] assms(4) \<open>b < 32\<close>
    by (simp add: lock_inv_def bit_simps)
  ultimately show ?thesis by (auto simp: lock_inv_def nfb_comp_unlock_def)
qed

theorem comp_lock_exclusive_witness:
  "holds (comp_locks (snd (nfb_comp_lock example_comp 6))) kernel_app ''/fw/dma'' 1"
proof -
  have r: "lock_reachable (comp_locks example_comp)"
    using lock_reachable.probe by (simp add: example_comp_def nfb_lock_probe_def)
  have "fst (nfb_comp_lock example_comp 6)" by code_simp
  then have l: "nfb_comp_lock example_comp 6 = (True, snd (nfb_comp_lock example_comp 6))" by (simp add: prod_eq_iff)
  have "bit (6 :: u32) 1" by code_simp
  from comp_lock_exclusive [OF r _ l this] show ?thesis by (simp add: example_comp_def)
qed

end
