(* ===== verification/SzeCtrl.thy ===== *)
theory SzeCtrl
  imports Ring Comp
begin

text \<open>
  The DMA controller of SZE type (\<open>drivers/kernel/drivers/nfb/ndp/ctrl.c\<close>, registers of
  \<open>libnfb/include/netcope/dma_ctrl_sze.h\<close>): the descriptor area that describes the ring to the
  hardware, the two ring pointers with the initial offset of the channel, and starting and stopping.

  The hardware writes its pointer to the update area in memory.  What the driver reads there is a
  parameter: \<open>sze_update_env\<close> gives the value of the n-th read from the value that was there before.
  \<open>sze_kill\<close> says whether a kill signal is pending at the n-th test.
\<close>

record sze_ctrl =
  sze_comp :: nfb_comp
  sze_descriptor :: "u64 option"
  sze_descs :: "u64 list"
  sze_desc_size :: u64
  sze_update :: "u64 option"
  sze_update_mem :: u64
  sze_update_env :: "nat \<Rightarrow> u64 \<Rightarrow> u64"
  sze_reads :: nat
  sze_kill :: "nat \<Rightarrow> bool"
  sze_swptr :: u64
  sze_hwptr :: u64
  sze_flags :: u32
  sze_initial_offset :: u64

section \<open>Registers\<close>

abbreviation (input) SZE_CTRL_REG_CONTROL :: u64 where "SZE_CTRL_REG_CONTROL \<equiv> 0x00"
abbreviation (input) SZE_CTRL_REG_STATUS :: u64 where "SZE_CTRL_REG_STATUS \<equiv> 0x04"
abbreviation (input) SZE_CTRL_REG_SW_POINTER :: u64 where "SZE_CTRL_REG_SW_POINTER \<equiv> 0x08"
abbreviation (input) SZE_CTRL_REG_BUFFER_SIZE :: u64 where "SZE_CTRL_REG_BUFFER_SIZE \<equiv> 0x10"
abbreviation (input) SZE_CTRL_REG_TIMEOUT :: u64 where "SZE_CTRL_REG_TIMEOUT \<equiv> 0x18"
abbreviation (input) SZE_CTRL_REG_MAX_REQUEST :: u64 where "SZE_CTRL_REG_MAX_REQUEST \<equiv> 0x1C"
abbreviation (input) SZE_CTRL_REG_DESC_BASE :: u64 where "SZE_CTRL_REG_DESC_BASE \<equiv> 0x20"
abbreviation (input) SZE_CTRL_REG_UPDATE_BASE :: u64 where "SZE_CTRL_REG_UPDATE_BASE \<equiv> 0x28"
abbreviation (input) SZE_CTRL_REG_CONTROL_STOP :: u32 where "SZE_CTRL_REG_CONTROL_STOP \<equiv> 0"
abbreviation (input) SZE_CTRL_REG_CONTROL_START :: u32 where "SZE_CTRL_REG_CONTROL_START \<equiv> 1"
abbreviation (input) SZE_CTRL_REG_CONTROL_DISCARD :: u32 where "SZE_CTRL_REG_CONTROL_DISCARD \<equiv> 2"
abbreviation (input) SZE_CTRL_REG_STATUS_RUNNING :: u32 where "SZE_CTRL_REG_STATUS_RUNNING \<equiv> 1"
abbreviation (input) SZE_CTRL_UPDATE_SIZE :: u64 where "SZE_CTRL_UPDATE_SIZE \<equiv> PAGE_SIZE"
abbreviation (input) SZE_CTRL_DESC_PTR :: u64 where "SZE_CTRL_DESC_PTR \<equiv> 1"

definition sze_timeout :: u32 where "sze_timeout = 10000"
definition MAX_DESC_SPACE :: u64 where "MAX_DESC_SPACE = 4096 * 1024"

section \<open>Descriptors\<close>

text \<open>
  The inner \<open>while\<close> loop over one block: the descriptors it writes and the initial offset that is
  left.  The first argument is the size of the block that is left, the second its address.
\<close>

function sze_block_descs :: "u64 \<Rightarrow> u64 \<Rightarrow> u64 \<Rightarrow> u64 list \<times> u64" where
  "sze_block_descs block_size phys initial_offset =
     (if block_size = 0 then ([], initial_offset)
      else let sz = min block_size MAX_DESC_SPACE in
        if initial_offset \<noteq> 0 then
          let sz' = min sz initial_offset
          in sze_block_descs (block_size - sz') (phys + sz') (initial_offset - sz')
        else
          let flags = push_bit 1 (sz div PAGE_SIZE - 1)
          in case sze_block_descs (block_size - sz) (phys + sz) initial_offset of
               (ds, io) \<Rightarrow> ((phys OR flags) # ds, io))"
  by pat_completeness auto
termination
proof (relation "measure (\<lambda>(b, p, i). unat b)", goal_cases)
  case 1
  show ?case by simp
next
  case (2 b p i sz sz')
  then have "sz' \<noteq> 0" "sz' \<le> b" by (auto simp: MAX_DESC_SPACE_def min_def)
  with 2 show ?case
    by (simp add: unat_sub word_le_nat_alt) (metis diff_less unat_gt_0)
next
  case (3 b p i sz flags)
  then have "sz \<noteq> 0" "sz \<le> b" by (auto simp: MAX_DESC_SPACE_def min_def)
  with 3 show ?case
    by (simp add: unat_sub word_le_nat_alt) (metis diff_less unat_gt_0)
qed

declare sze_block_descs.simps [simp del]

fun sze_desc_blocks :: "ndp_block list \<Rightarrow> u64 \<Rightarrow> u64 list" where
  "sze_desc_blocks [] initial_offset = []"
| "sze_desc_blocks (blk # blks) initial_offset =
     (case sze_block_descs (blk_size blk) (blk_phys blk) initial_offset of
        (ds, io) \<Rightarrow> ds @ sze_desc_blocks blks io)"

definition sze_ndp_ctrl_desc_ring :: "ndp_ring \<Rightarrow> u64 \<Rightarrow> u64 list" where
  "sze_ndp_ctrl_desc_ring ring initial_offset =
     sze_desc_blocks (take (unat (ring_block_count ring)) (ring_blocks ring)) initial_offset"

text \<open>
  The descriptor area.  With a null pointer the function only counts: the count is the length of the
  list.  \<open>second_stage_offset\<close> is an \<open>int\<close> that is added to an address.
\<close>

definition sze_ndp_ctrl_desc :: "ndp_ring \<Rightarrow> u64 \<Rightarrow> u64 \<Rightarrow> u64 list" where
  "sze_ndp_ctrl_desc ring initial_offset descriptor_phys =
     (let first = (if initial_offset \<noteq> 0 then sze_ndp_ctrl_desc_ring ring initial_offset else []);
          second_stage_offset = (if initial_offset \<noteq> 0 then scast (of_nat (length first * 8) :: u32) else 0)
      in first @ sze_ndp_ctrl_desc_ring ring 0 @ [(descriptor_phys + second_stage_offset) OR SZE_CTRL_DESC_PTR])"

section \<open>Pointers\<close>

definition sze_read_update :: "sze_ctrl \<Rightarrow> u64 \<times> sze_ctrl" where
  "sze_read_update ctrl =
     (let v = sze_update_env ctrl (sze_reads ctrl) (sze_update_mem ctrl)
      in (v, ctrl\<lparr>sze_update_mem := v, sze_reads := Suc (sze_reads ctrl)\<rparr>))"

definition sze_ndp_ctrl_get_hwptr :: "sze_ctrl ndp_channel \<Rightarrow> u64 \<times> sze_ctrl ndp_channel" where
  "sze_ndp_ctrl_get_hwptr ch =
     (case sze_read_update (ch_ctrl ch) of (v, ctrl) \<Rightarrow>
      let h = (v + sze_initial_offset ctrl) AND ch_ptrmask ch
      in (h, ch\<lparr>ch_ctrl := ctrl\<lparr>sze_hwptr := h\<rparr>\<rparr>))"

definition sze_ndp_ctrl_set_swptr :: "sze_ctrl ndp_channel \<Rightarrow> u64 \<Rightarrow> sze_ctrl ndp_channel" where
  "sze_ndp_ctrl_set_swptr ch ptr =
     (let ctrl = ch_ctrl ch;
          ptr = (ptr - sze_initial_offset ctrl) AND ch_ptrmask ch
      in ch\<lparr>ch_ctrl := ctrl\<lparr>sze_comp := nfb_comp_write32 (sze_comp ctrl) SZE_CTRL_REG_SW_POINTER (ucast ptr),
                            sze_swptr := ptr\<rparr>\<rparr>)"

section \<open>Start, flags and stop\<close>

text \<open>The two request sizes are module parameters.\<close>

definition sze_ndp_ctrl_start ::
  "u32 \<Rightarrow> u32 \<Rightarrow> sze_ctrl ndp_channel \<Rightarrow> int \<times> u64 option \<times> sze_ctrl ndp_channel" where
  "sze_ndp_ctrl_start rx_request_size tx_request_size ch =
     (let ctrl = ch_ctrl ch in
      case nfb_comp_read32 (sze_comp ctrl) SZE_CTRL_REG_STATUS of (status, c0) \<Rightarrow>
      if status AND SZE_CTRL_REG_STATUS_RUNNING \<noteq> 0 then (- 1, None, ch\<lparr>ch_ctrl := ctrl\<lparr>sze_comp := c0\<rparr>\<rparr>)
      else
        let c1 = nfb_comp_write64 c0 SZE_CTRL_REG_DESC_BASE (case_option 0 id (sze_descriptor ctrl));
            c2 = nfb_comp_write64 c1 SZE_CTRL_REG_UPDATE_BASE (case_option 0 id (sze_update ctrl));
            c3 = nfb_comp_write32 c2 SZE_CTRL_REG_BUFFER_SIZE (ucast (ch_ptrmask ch));
            c4 = nfb_comp_write32 c3 SZE_CTRL_REG_SW_POINTER 0;
            c5 = nfb_comp_write32 c4 SZE_CTRL_REG_TIMEOUT sze_timeout;
            c6 = nfb_comp_write32 c5 SZE_CTRL_REG_MAX_REQUEST
                   (if cid_type (ch_id ch) = NDP_CHANNEL_TYPE_RX then rx_request_size else tx_request_size);
            c7 = nfb_comp_write32 c6 SZE_CTRL_REG_CONTROL
                   (SZE_CTRL_REG_CONTROL_START OR
                    (if sze_flags ctrl AND NDP_CHANNEL_FLAG_DISCARD \<noteq> 0 then SZE_CTRL_REG_CONTROL_DISCARD else 0))
        in (0, Some (sze_initial_offset ctrl),
            ch\<lparr>ch_ctrl := ctrl\<lparr>sze_comp := c7, sze_swptr := 0, sze_hwptr := 0, sze_update_mem := 0\<rparr>\<rparr>))"

definition sze_ndp_ctrl_get_flags :: "sze_ctrl ndp_channel \<Rightarrow> u64 \<times> sze_ctrl ndp_channel" where
  "sze_ndp_ctrl_get_flags ch =
     (case nfb_comp_read32 (sze_comp (ch_ctrl ch)) SZE_CTRL_REG_CONTROL of (reg, c) \<Rightarrow>
        (if reg AND SZE_CTRL_REG_CONTROL_DISCARD \<noteq> 0 then NDP_CHANNEL_FLAG_DISCARD else 0,
         ch\<lparr>ch_ctrl := (ch_ctrl ch)\<lparr>sze_comp := c\<rparr>\<rparr>))"

definition sze_ndp_ctrl_set_flags :: "sze_ctrl ndp_channel \<Rightarrow> u64 \<Rightarrow> u64 \<times> sze_ctrl ndp_channel" where
  "sze_ndp_ctrl_set_flags ch flags =
     (let ctrl = (ch_ctrl ch)\<lparr>sze_flags := ucast flags\<rparr> in
      case nfb_comp_read32 (sze_comp ctrl) SZE_CTRL_REG_CONTROL of (reg, c) \<Rightarrow>
      let regwr = (reg AND NOT SZE_CTRL_REG_CONTROL_DISCARD) OR
                  (if sze_flags ctrl AND NDP_CHANNEL_FLAG_DISCARD \<noteq> 0 then SZE_CTRL_REG_CONTROL_DISCARD else 0);
          c1 = (if reg \<noteq> regwr then nfb_comp_write32 c SZE_CTRL_REG_CONTROL regwr else c)
      in (flags AND NOT NDP_CHANNEL_FLAG_DISCARD, ch\<lparr>ch_ctrl := ctrl\<lparr>sze_comp := c1\<rparr>\<rparr>))"

text \<open>
  The wait of a transmit channel for the end of all transfers: None is the return with \<open>EAGAIN\<close>, otherwise
  the value of \<open>dirty\<close>.
\<close>

function sze_stop_drain :: "bool \<Rightarrow> nat \<Rightarrow> sze_ctrl \<Rightarrow> bool option \<times> sze_ctrl" where
  "sze_stop_drain force cnt ctrl =
     (if cnt < 10 \<or> (\<not> sze_kill ctrl cnt \<and> \<not> force) then
        case sze_read_update ctrl of (s, ctrl1) \<Rightarrow>
          if s = sze_swptr ctrl1 then (Some False, ctrl1)
          else if \<not> force then (None, ctrl1)
          else sze_stop_drain force (Suc cnt) ctrl1
      else (Some True, ctrl))"
  by pat_completeness auto
termination by (relation "measure (\<lambda>(f, c, ctrl). 10 - c)") auto

declare sze_stop_drain.simps [simp del]

text \<open>The wait for the end of the run; it gives up after 102 reads.\<close>

function sze_stop_wait :: "bool \<Rightarrow> nat \<Rightarrow> nfb_comp \<Rightarrow> nfb_comp" where
  "sze_stop_wait dirty cnt c =
     (case nfb_comp_read32 c SZE_CTRL_REG_STATUS of (status, c1) \<Rightarrow>
      if dirty \<or> status AND SZE_CTRL_REG_STATUS_RUNNING = 0 then c1
      else if cnt > 100 then c1
      else sze_stop_wait dirty (Suc cnt) c1)"
  by pat_completeness auto
termination by (relation "measure (\<lambda>(d, c, co). 102 - c)") auto

declare sze_stop_wait.simps [simp del]

definition sze_ndp_ctrl_stop :: "sze_ctrl ndp_channel \<Rightarrow> bool \<Rightarrow> int \<times> sze_ctrl ndp_channel" where
  "sze_ndp_ctrl_stop ch force =
     (case (if cid_type (ch_id ch) = NDP_CHANNEL_TYPE_TX then sze_stop_drain force 0 (ch_ctrl ch)
            else (Some False, ch_ctrl ch)) of
        (None, ctrl) \<Rightarrow> (- EAGAIN, ch\<lparr>ch_ctrl := ctrl\<rparr>)
      | (Some dirty, ctrl) \<Rightarrow>
        let ctrl1 = ctrl\<lparr>sze_comp := nfb_comp_write32 (sze_comp ctrl) SZE_CTRL_REG_CONTROL
                           (SZE_CTRL_REG_CONTROL_STOP OR SZE_CTRL_REG_CONTROL_DISCARD)\<rparr>;
            ch1 = ch\<lparr>ch_ctrl := ctrl1\<rparr>;
            ch2 = (if cid_type (ch_id ch) = NDP_CHANNEL_TYPE_RX
                   then case sze_ndp_ctrl_get_hwptr ch1 of (h, ch') \<Rightarrow> sze_ndp_ctrl_set_swptr ch' h else ch1);
            ctrl2 = ch_ctrl ch2
        in (0, ch2\<lparr>ch_ctrl := ctrl2\<lparr>sze_comp := sze_stop_wait dirty 0 (sze_comp ctrl2)\<rparr>\<rparr>))"

section \<open>Attach and detach\<close>

definition sze_ndp_ctrl_attach_ring :: "sze_ctrl ndp_channel \<Rightarrow> world \<Rightarrow> int \<times> sze_ctrl ndp_channel \<times> world" where
  "sze_ndp_ctrl_attach_ring ch w =
     (let ctrl = ch_ctrl ch; ring = ch_ring ch in
      if ring_block_count ring = 0 then (0, ch, w)
      else case dma_alloc_coherent SZE_CTRL_UPDATE_SIZE w of
        (None, w1) \<Rightarrow> (- ENOMEM, ch\<lparr>ch_ctrl := ctrl\<lparr>sze_update := None\<rparr>\<rparr>, w1)
      | (Some upd, w1) \<Rightarrow>
        let io = (ucast (cid_index (ch_id ch)) * PAGE_SIZE) mod ring_size ring;
            desc_count = length (sze_ndp_ctrl_desc ring io 0);
            desc_size = ALIGN (of_nat (desc_count * 8)) PAGE_SIZE;
            ctrl1 = ctrl\<lparr>sze_update := Some upd, sze_initial_offset := io, sze_desc_size := desc_size\<rparr>
        in case dma_alloc_coherent desc_size w1 of
             (None, w2) \<Rightarrow> (- ENOMEM, ch\<lparr>ch_ctrl := ctrl1\<lparr>sze_descriptor := None\<rparr>\<rparr>,
                            dma_free_coherent SZE_CTRL_UPDATE_SIZE (Some upd) w2)
           | (Some d, w2) \<Rightarrow>
             (0, ch\<lparr>ch_ptrmask := ring_size ring - 1,
                   ch_ctrl := ctrl1\<lparr>sze_descriptor := Some d, sze_descs := sze_ndp_ctrl_desc ring io d\<rparr>\<rparr>,
              fdt_setprop (ch_id ch) ''protocol'' 1 w2))"

definition sze_ndp_ctrl_detach_ring :: "sze_ctrl ndp_channel \<Rightarrow> world \<Rightarrow> sze_ctrl ndp_channel \<times> world" where
  "sze_ndp_ctrl_detach_ring ch w =
     (let ctrl = ch_ctrl ch in
      if ring_block_count (ch_ring ch) = 0 then (ch, w)
      else
        let w1 = (if sze_descriptor ctrl \<noteq> None
                  then dma_free_coherent (sze_desc_size ctrl) (sze_descriptor ctrl) w else w);
            w2 = (if sze_update ctrl \<noteq> None
                  then dma_free_coherent SZE_CTRL_UPDATE_SIZE (sze_update ctrl) w1 else w1)
        in (ch\<lparr>ch_ctrl := ctrl\<lparr>sze_descriptor := None, sze_update := None\<rparr>\<rparr>, w2))"

section \<open>The operation table and creation\<close>

text \<open>The tables of the receive and the transmit controller have the same entries.\<close>

definition sze_ndp_ctrl_ops :: "u32 \<Rightarrow> u32 \<Rightarrow> sze_ctrl ndp_channel_ops" where
  "sze_ndp_ctrl_ops rx_request_size tx_request_size =
     \<lparr>op_start = sze_ndp_ctrl_start rx_request_size tx_request_size, op_stop = sze_ndp_ctrl_stop,
      op_attach_ring = sze_ndp_ctrl_attach_ring, op_detach_ring = sze_ndp_ctrl_detach_ring,
      op_get_hwptr = sze_ndp_ctrl_get_hwptr, op_set_swptr = sze_ndp_ctrl_set_swptr,
      op_get_flags = sze_ndp_ctrl_get_flags, op_set_flags = sze_ndp_ctrl_set_flags,
      op_get_free_space = (\<lambda>_. None)\<rparr>"

text \<open>
  \<open>dev\<close> is the NUMA node of the PCI function that the device tree names; \<open>zeroed\<close> is the zeroed
  structure, None when the allocation fails; \<open>comp_open\<close> the result of \<open>nfb_comp_open\<close>.
\<close>

definition sze_ndp_ctrl_create ::
  "u64 \<Rightarrow> u64 \<Rightarrow> int \<Rightarrow> sze_ctrl option \<Rightarrow> nfb_comp option \<Rightarrow> ndp_channel_id \<Rightarrow> int + sze_ctrl ndp_channel" where
  "sze_ndp_ctrl_create ndp_ring_block_size ndp_ring_size dev zeroed comp_open cid =
     (case zeroed of
        None \<Rightarrow> Inl (- ENOMEM)
      | Some ctrl \<Rightarrow>
        let ch = ndp_channel_init ndp_ring_block_size ndp_ring_size cid (zero_channel ctrl);
            ch1 = ch\<lparr>ch_ring := (ch_ring ch)\<lparr>ring_dev := Some dev\<rparr>\<rparr>
        in case comp_open of
             None \<Rightarrow> Inl (- ENODEV)
           | Some c \<Rightarrow> Inr (ch1\<lparr>ch_ctrl := (ch_ctrl ch1)\<lparr>sze_comp := c\<rparr>\<rparr>))"

section \<open>The controller behind the interfaces\<close>

lemma sze_get_hwptr_frame: "sze_ndp_ctrl_get_hwptr ch = (p, ch') \<Longrightarrow> same_channel ch ch'"
  by (auto simp: sze_ndp_ctrl_get_hwptr_def same_channel_def Let_def split: prod.splits)

lemma sze_set_swptr_frame: "same_channel ch (sze_ndp_ctrl_set_swptr ch p)"
  by (simp add: sze_ndp_ctrl_set_swptr_def same_channel_def Let_def)

lemma sze_drain_forced: "fst (sze_stop_drain True cnt ctrl) \<noteq> None"
proof (induction True cnt ctrl rule: sze_stop_drain.induct)
  case (1 cnt ctrl)
  then show ?case by (subst sze_stop_drain.simps) (auto split: prod.splits)
qed

lemma sze_stop_frame: "sze_ndp_ctrl_stop ch force = (r, ch') \<Longrightarrow> same_channel ch ch'"
  by (auto simp: sze_ndp_ctrl_stop_def same_channel_def Let_def sze_ndp_ctrl_get_hwptr_def
      sze_ndp_ctrl_set_swptr_def split: prod.splits option.splits if_splits)

interpretation sze: channel_ctrl "sze_ndp_ctrl_ops rx_request_size tx_request_size"
  for rx_request_size tx_request_size
proof (unfold_locales, goal_cases)
  case (1 ch r h ch')
  then show ?case
    by (auto simp: sze_ndp_ctrl_ops_def sze_ndp_ctrl_start_def same_channel_def Let_def split: prod.splits if_splits)
next
  case (2 ch h ch')
  then show ?case
    by (auto simp: sze_ndp_ctrl_ops_def sze_ndp_ctrl_start_def Let_def split: prod.splits if_splits)
next
  case (3 ch force r ch')
  then show ?case by (simp add: sze_ndp_ctrl_ops_def sze_stop_frame)
next
  case (4 ch)
  show ?case
    using sze_drain_forced [of 0 "ch_ctrl ch"]
    by (auto simp: sze_ndp_ctrl_ops_def sze_ndp_ctrl_stop_def Let_def split: prod.splits option.splits if_splits)
next
  case (5 ch p ch')
  then show ?case by (simp add: sze_ndp_ctrl_ops_def sze_get_hwptr_frame)
next
  case (6 ch p)
  then show ?case by (simp add: sze_ndp_ctrl_ops_def sze_set_swptr_frame)
next
  case (7 ch f ch')
  then show ?case
    by (auto simp: sze_ndp_ctrl_ops_def sze_ndp_ctrl_get_flags_def same_channel_def split: prod.splits)
next
  case (8 ch f f' ch')
  then show ?case
    by (auto simp: sze_ndp_ctrl_ops_def sze_ndp_ctrl_set_flags_def same_channel_def Let_def split: prod.splits)
qed

definition sze_owned :: "sze_ctrl \<Rightarrow> kobj multiset" where
  "sze_owned ctrl =
     (case sze_descriptor ctrl of None \<Rightarrow> {#} | Some d \<Rightarrow> {#KDma d (sze_desc_size ctrl)#}) +
     (case sze_update ctrl of None \<Rightarrow> {#} | Some u \<Rightarrow> {#KDma u SZE_CTRL_UPDATE_SIZE#})"

lemma dma_alloc_frame:
  "dma_alloc_coherent sz w = (r, w1) \<Longrightarrow>
   kw_live w1 = (case r of None \<Rightarrow> kw_live w | Some a \<Rightarrow> KDma a sz # kw_live w) \<and>
   kw_mmaps w1 = kw_mmaps w \<and> kw_bad_frees w1 = kw_bad_frees w"
  by (auto simp: dma_alloc_coherent_def dest!: kw_take_cases)

lemma dma_free_live:
  assumes "KDma a sz \<in># mset (kw_live w)"
  shows "mset (kw_live (dma_free_coherent sz (Some a) w)) = mset (kw_live w) - {#KDma a sz#}"
    "kw_mmaps (dma_free_coherent sz (Some a) w) = kw_mmaps w"
    "kw_bad_frees (dma_free_coherent sz (Some a) w) = kw_bad_frees w"
  using assms by (simp_all add: dma_free_coherent_def kw_drop_def)

definition opt_obj :: "u64 \<Rightarrow> u64 option \<Rightarrow> kobj list" where
  "opt_obj sz addr = (case addr of None \<Rightarrow> [] | Some a \<Rightarrow> [KDma a sz])"

lemma free_opt: "(if addr \<noteq> None then dma_free_coherent sz addr w else w) = fold kw_drop (opt_obj sz addr) w"
  by (auto simp: dma_free_coherent_def opt_obj_def split: option.splits)

interpretation sze_ring: ring_ctrl "sze_ndp_ctrl_ops rx_request_size tx_request_size" sze_owned
  for rx_request_size tx_request_size
proof (unfold_locales, goal_cases)
  case (1 ch w r ch' w')
  then have "ch' = ch\<lparr>ch_ptrmask := ch_ptrmask ch', ch_ctrl := ch_ctrl ch'\<rparr>"
    by (auto simp: sze_ndp_ctrl_ops_def sze_ndp_ctrl_attach_ring_def Let_def split: if_splits prod.splits option.splits)
  then show ?case by blast
next
  case (2 ch w r ch' w')
  then show ?case
    by (auto simp: sze_ndp_ctrl_ops_def sze_ndp_ctrl_attach_ring_def Let_def same_resources_def dma_free_live
        split: if_splits prod.splits option.splits dest!: dma_alloc_frame)
next
  case (3 ch w ch' w')
  then show ?case
    by (auto simp: sze_ndp_ctrl_ops_def sze_ndp_ctrl_attach_ring_def Let_def sze_owned_def fdt_setprop_def
        split: if_splits prod.splits option.splits dest!: dma_alloc_frame)
next
  case (4 ch w ch' w')
  let ?objs = "opt_obj (sze_desc_size (ch_ctrl ch)) (sze_descriptor (ch_ctrl ch)) @
    opt_obj SZE_CTRL_UPDATE_SIZE (sze_update (ch_ctrl ch))"
  have owned: "sze_owned (ch_ctrl ch) = mset ?objs"
    by (simp add: sze_owned_def opt_obj_def split: option.splits)
  have "w' = fold kw_drop ?objs w" "ch' = ch\<lparr>ch_ctrl := (ch_ctrl ch)\<lparr>sze_descriptor := None, sze_update := None\<rparr>\<rparr>"
    using 4(1,2) by (auto simp: sze_ndp_ctrl_ops_def sze_ndp_ctrl_detach_ring_def Let_def free_opt [symmetric])
  with dma.release_all [of ?objs w] 4(3) show ?case by (auto simp: owned) (simp add: sze_owned_def)
qed

section \<open>What the descriptors describe\<close>

text \<open>The pages that the hardware reads from a direct descriptor: address and page count minus one.\<close>

definition desc_pages :: "u64 \<Rightarrow> u64 list" where
  "desc_pages d = map (\<lambda>j. (d AND NOT (mask 12)) + of_nat j * PAGE_SIZE)
     [0 ..< unat (drop_bit 1 (d AND mask 12)) + 1]"

definition pages_from :: "u64 \<Rightarrow> nat \<Rightarrow> u64 list" where
  "pages_from phys n = map (\<lambda>j. phys + of_nat j * PAGE_SIZE) [0 ..< n]"

lemma pages_from_add: "pages_from phys (m + n) = pages_from phys m @ pages_from (phys + of_nat m * PAGE_SIZE) n"
proof -
  have "[0 ..< m + n] = [0 ..< m] @ map (\<lambda>j. m + j) [0 ..< n]"
    using map_add_upt [of m n] upt_add_eq_append [of 0 m n] by (simp add: add.commute)
  then have "pages_from phys (m + n) = pages_from phys m @ map (\<lambda>j. phys + of_nat (m + j) * PAGE_SIZE) [0 ..< n]"
    by (simp add: pages_from_def)
  then show ?thesis by (simp add: pages_from_def distrib_right add.assoc)
qed

lemma desc_pages_direct:
  assumes "phys AND mask 12 = 0" and "1 \<le> m" and "m \<le> 1024"
  shows "desc_pages (phys OR push_bit 1 (of_nat m - 1)) = pages_from phys m"
proof -
  define y :: u64 where "y = of_nat m - 1"
  have y: "y = of_nat (m - 1)" using assms(2) by (simp add: y_def of_nat_diff)
  then have uy: "unat y = m - 1" using assms(3) by (simp add: unat_of_nat del: of_nat_diff)
  have bits: "bit y i \<Longrightarrow> i < 10" for i
  proof -
    have "y AND mask 10 = y" using uy assms(3) by (intro and_mask_eq_self) simp
    then show "bit y i \<Longrightarrow> i < 10" by (metis bit_and_iff bit_mask_iff)
  qed
  have low: "\<not> bit phys i" if "i < 12" for i
  proof -
    have "\<not> bit (phys AND mask 12) i" by (simp add: assms(1))
    with that show ?thesis by (simp add: bit_and_iff bit_mask_iff)
  qed
  define p where "p = push_bit 1 y"
  have pb: "bit p i \<longleftrightarrow> 1 \<le> i \<and> i < 64 \<and> bit y (i - 1)" for i
    unfolding p_def by (simp only: bit_push_bit_iff possible_bit_word len_num0 len_bit0) auto
  have hi: "(phys OR p) AND NOT (mask 12) = phys"
  proof (rule bit_word_eqI)
    fix i assume "i < LENGTH(64)"
    then show "bit ((phys OR p) AND NOT (mask 12)) i = bit phys i"
      using low [of i] bits [of "i - 1"] pb [of i] by (auto simp: bit_simps)
  qed
  have lo: "drop_bit 1 ((phys OR p) AND mask 12) = y"
  proof (rule bit_word_eqI)
    fix i assume "i < LENGTH(64)"
    then show "bit (drop_bit 1 ((phys OR p) AND mask 12)) i = bit y i"
      using low [of "Suc i"] bits [of i] pb [of "Suc i"] by (auto simp: bit_simps)
  qed
  have "unat y + 1 = m" using uy assms(2) by simp
  then show ?thesis
    unfolding desc_pages_def pages_from_def y_def [symmetric] p_def [symmetric] hi lo by simp
qed

text \<open>Moving the start of a page list by a part of \<open>m\<close> pages.\<close>

lemma part_step:
  assumes "unat sz = 4096 * m" and "unat bs = 4096 * n" and "m \<le> n" and "phys AND mask 12 = 0"
  shows "unat (bs - sz) = 4096 * (n - m)" "(phys + sz) AND mask 12 = 0"
    "pages_from phys n = pages_from phys m @ pages_from (phys + sz) (n - m)" "length (pages_from phys m) = m"
proof -
  have le: "sz \<le> bs" using assms(1-3) by (simp add: word_le_nat_alt)
  then show "unat (bs - sz) = 4096 * (n - m)" using assms(1,2) by (simp add: unat_sub diff_mult_distrib2)
  have "sz AND mask 12 = 0" by (simp add: word_unat_eq_iff unat_and_mask assms(1))
  with assms(4) show "(phys + sz) AND mask 12 = 0" by (rule aligned_add)
  have "of_nat (unat sz) = sz" by simp
  then have "sz = of_nat (4096 * m)" by (simp only: assms(1))
  then have "sz = of_nat m * PAGE_SIZE" by (simp add: PAGE_SIZE_def mult.commute)
  with pages_from_add [of phys m "n - m"] assms(3)
  show "pages_from phys n = pages_from phys m @ pages_from (phys + sz) (n - m)" by simp
qed (simp add: pages_from_def)

text \<open>One block: the descriptors cover it from the initial offset on.\<close>

lemma sze_block_descs_cover:
  assumes "sze_block_descs bs phys io = (ds, io')" and "unat bs = 4096 * n" and "unat io = 4096 * k"
    and "phys AND mask 12 = 0"
  shows "concat (map desc_pages ds) = drop k (pages_from phys n) \<and> unat io' = 4096 * (k - n)"
  using assms
proof (induction bs phys io arbitrary: ds io' n k rule: sze_block_descs.induct)
  case (1 bs phys io)
  note simps = sze_block_descs.simps [of bs phys io]
  show ?case
  proof (cases "bs = 0")
    case True
    with 1 simps show ?thesis by (simp add: pages_from_def)
  next
    case False
    define sz where "sz = min bs MAX_DESC_SPACE"
    define m where "m = min n 1024"
    have n: "0 < n" using False 1(4) by (cases n) (auto simp: unat_eq_zero)
    have sz: "unat sz = 4096 * m"
      using 1(4) by (auto simp: sz_def m_def MAX_DESC_SPACE_def min_def word_le_nat_alt)
    show ?thesis
    proof (cases "io = 0")
      case True
      then have k: "k = 0" using 1(5) by simp
      have m: "1 \<le> m" "m \<le> 1024" "m \<le> n" using n by (auto simp: m_def)
      note part = part_step [OF sz 1(4) m(3) 1(6)]
      obtain ds1 io1 where rec: "sze_block_descs (bs - sz) (phys + sz) io = (ds1, io1)" by force
      have IH: "concat (map desc_pages ds1) = drop k (pages_from (phys + sz) (n - m)) \<and> unat io1 = 4096 * (k - (n - m))"
        using 1(2) [OF False sz_def _ refl rec part(1) 1(5) part(2)] True by simp
      have "sz div PAGE_SIZE = of_nat m"
        using sz m by (simp add: word_unat_eq_iff unat_div PAGE_SIZE_def unat_of_nat)
      then have "ds = (phys OR push_bit 1 (of_nat m - 1)) # ds1" "io' = io1"
        using 1(3) simps False True rec by (simp_all add: sz_def [symmetric] Let_def)
      with desc_pages_direct [OF 1(6) m(1,2)] IH part(3) k show ?thesis by simp
    next
      case io: False
      define sz' where "sz' = min sz io"
      define m' where "m' = min m k"
      have sz': "unat sz' = 4096 * m'"
        using sz 1(5) by (auto simp: sz'_def m'_def min_def word_le_nat_alt)
      have m': "m' \<le> n" "m' \<le> k" by (auto simp: m_def m'_def)
      note part = part_step [OF sz' 1(4) m'(1) 1(6)]
      have io': "unat (io - sz') = 4096 * (k - m')"
        using part_step(1) [OF sz' 1(5) m'(2), of 0] by simp
      have rec: "sze_block_descs (bs - sz') (phys + sz') (io - sz') = (ds, io')"
        using 1(3) simps False io by (simp add: sz_def [symmetric] sz'_def [symmetric] Let_def)
      have "concat (map desc_pages ds) = drop (k - m') (pages_from (phys + sz') (n - m')) \<and>
          unat io' = 4096 * ((k - m') - (n - m'))"
        using 1(1) [OF False sz_def io sz'_def rec part(1) io' part(2)] .
      with part(3,4) m' show ?thesis by simp
    qed
  qed
qed

definition ring_page_list :: "ndp_block list \<Rightarrow> u64 list" where
  "ring_page_list blks = concat (map (\<lambda>blk. pages_from (blk_phys blk) (unat (blk_size blk) div 4096)) blks)"

definition page_blocks :: "ndp_block list \<Rightarrow> bool" where
  "page_blocks blks \<longleftrightarrow> (\<forall>blk \<in> set blks. blk_phys blk AND mask 12 = 0 \<and> 4096 dvd unat (blk_size blk))"

lemma sze_desc_blocks_cover:
  assumes "page_blocks blks" and "unat io = 4096 * k"
  shows "concat (map desc_pages (sze_desc_blocks blks io)) = drop k (ring_page_list blks)"
  using assms
proof (induction blks arbitrary: io k)
  case (Cons blk blks)
  obtain n where n: "unat (blk_size blk) = 4096 * n" using Cons.prems(1) by (auto simp: page_blocks_def dvd_def)
  obtain ds io' where b: "sze_block_descs (blk_size blk) (blk_phys blk) io = (ds, io')" by force
  have al: "blk_phys blk AND mask 12 = 0" and rest: "page_blocks blks"
    using Cons.prems(1) by (auto simp: page_blocks_def)
  note cov = sze_block_descs_cover [OF b n Cons.prems(2) al]
  then have "unat io' = 4096 * (k - n)" by simp
  from Cons.IH [OF rest this] cov b n show ?case
    by (simp add: ring_page_list_def) (simp add: pages_from_def)
qed (simp add: ring_page_list_def)

text \<open>C29.  For a ring of page-aligned blocks the descriptor area consists of three parts: descriptors
  that, read back by the format in the source, name the pages of the ring from the initial offset to
  its end; descriptors that name all pages of the ring in order; and a pointer to the first
  descriptor of the second part, so that the hardware walks the ring from the offset and then around.
\<close>

theorem sze_descriptors_cover_ring:
  assumes "length (ring_blocks ring) = unat (ring_block_count ring)" and "page_blocks (ring_blocks ring)"
    and "unat io = 4096 * k" and "length (sze_ndp_ctrl_desc_ring ring io) * 8 < 2 ^ 31"
  shows "\<exists>first second. sze_ndp_ctrl_desc ring io dphys =
      first @ second @ [(dphys + of_nat (8 * length first)) OR 1] \<and>
    concat (map desc_pages second) = ring_page_list (ring_blocks ring) \<and>
    concat (map desc_pages first) = (if k = 0 then [] else drop k (ring_page_list (ring_blocks ring)))"
proof -
  define first where "first = (if io \<noteq> 0 then sze_ndp_ctrl_desc_ring ring io else [])"
  have io: "io = 0 \<longleftrightarrow> k = 0" using assms(3) by (metis mult_is_0 unat_eq_zero zero_neq_numeral)
  have all: "sze_ndp_ctrl_desc_ring ring x = sze_desc_blocks (ring_blocks ring) x" for x
    using assms(1) by (simp add: sze_ndp_ctrl_desc_ring_def)
  have "length first * 8 < 2 ^ 31" using assms(4) by (auto simp: first_def)
  then have eq: "(scast (of_nat (length first * 8) :: u32) :: u64) = of_nat (8 * length first)"
    using scast_of_nat_u32 [of "length first * 8"] by (simp only: mult.commute)
  have off: "(if io \<noteq> 0 then scast (of_nat (length first * 8) :: u32) else 0) = (of_nat (8 * length first) :: u64)"
  proof (cases "io = 0")
    case True
    then show ?thesis by (simp add: first_def)
  next
    case False
    then show ?thesis by (subst if_P) (assumption, rule eq)
  qed
  have "sze_ndp_ctrl_desc ring io dphys =
      first @ sze_ndp_ctrl_desc_ring ring 0 @ [(dphys + of_nat (8 * length first)) OR 1]"
    unfolding sze_ndp_ctrl_desc_def Let_def first_def [symmetric] off ..
  moreover have "concat (map desc_pages first) = (if k = 0 then [] else drop k (ring_page_list (ring_blocks ring)))"
    using sze_desc_blocks_cover [OF assms(2,3)] io by (auto simp: first_def all)
  moreover have "concat (map desc_pages (sze_ndp_ctrl_desc_ring ring 0)) = ring_page_list (ring_blocks ring)"
    using sze_desc_blocks_cover [OF assms(2), of 0 0] by (simp add: all)
  ultimately show ?thesis by blast
qed

theorem sze_descriptors_cover_ring_witness:
  "\<exists>first second. sze_ndp_ctrl_desc example_ring 0x1000 0x5000 = first @ second @ [(0x5000 + of_nat (8 * length first)) OR 1] \<and>
     concat (map desc_pages second) = [0x70000, 0x90000] \<and> concat (map desc_pages first) = [0x90000]"
proof -
  have pages: "page_blocks (ring_blocks example_ring)" by code_simp
  have "length (sze_ndp_ctrl_desc_ring example_ring 0x1000) \<le> 2" by code_simp
  then have len: "length (sze_ndp_ctrl_desc_ring example_ring 0x1000) * 8 < 2 ^ 31" by simp
  have list: "ring_page_list (ring_blocks example_ring) = [0x70000, 0x90000]" by code_simp
  have cnt: "length (ring_blocks example_ring) = unat (ring_block_count example_ring)"
    "unat (0x1000 :: u64) = 4096 * 1" by (simp_all add: example_ring_def)
  from sze_descriptors_cover_ring [OF cnt(1) pages cnt(2) len, where dphys = "0x5000"] list show ?thesis by simp
qed

lemma ucast_masked:
  fixes x :: u64
  assumes "k \<le> 32"
  shows "(ucast (ucast (x AND mask k) :: u32) :: u64) = x AND mask k"
  using assms by (intro bit_word_eqI) (auto simp: bit_simps)

text \<open>A channel with a ring of two pages whose hardware reports the position 0x1500.\<close>

definition example_sze :: sze_ctrl where
  "example_sze = \<lparr>sze_comp = example_comp, sze_descriptor = None, sze_descs = [], sze_desc_size = 0,
     sze_update = None, sze_update_mem = 0, sze_update_env = (\<lambda>_ _. 0x1500), sze_reads = 0,
     sze_kill = (\<lambda>_. False), sze_swptr = 0, sze_hwptr = 0, sze_flags = 0, sze_initial_offset = 0x1000\<rparr>"

definition example_sze_channel :: "sze_ctrl ndp_channel" where
  "example_sze_channel = (zero_channel example_sze)\<lparr>ch_ptrmask := 0x1FFF, ch_ring := example_ring\<rparr>"

text \<open>The software pointer written for the ring position \<open>p\<close> and the hardware pointer read back are
  inverse to each other on the ring: when the hardware reports the value that was written, the driver
  sees the position \<open>p\<close> again, for every initial offset and every ring size that fits the register.
\<close>

theorem sze_pointer_roundtrip:
  fixes v :: u32
  assumes "ch_ptrmask ch = mask k" and "k \<le> 32"
    and "v = ucast ((p - sze_initial_offset (ch_ctrl ch)) AND mask k)"
    and "fst (sze_read_update (ch_ctrl (sze_ndp_ctrl_set_swptr ch p))) = ucast v"
  shows "sze_comp (ch_ctrl (sze_ndp_ctrl_set_swptr ch p)) = nfb_comp_write32 (sze_comp (ch_ctrl ch)) SZE_CTRL_REG_SW_POINTER v \<and>
    fst (sze_ndp_ctrl_get_hwptr (sze_ndp_ctrl_set_swptr ch p)) = p AND mask k"
proof -
  let ?io = "sze_initial_offset (ch_ctrl ch)"
  have "(ucast v :: u64) = (p - ?io) AND mask k" unfolding assms(3) by (rule ucast_masked [OF assms(2)])
  with assms(4) have v: "sze_update_env (ch_ctrl ch) (sze_reads (ch_ctrl ch)) (sze_update_mem (ch_ctrl ch)) = (p - ?io) AND mask k"
    by (simp add: sze_read_update_def sze_ndp_ctrl_set_swptr_def Let_def)
  show ?thesis
    using v assms(1,3)
    by (simp add: sze_ndp_ctrl_get_hwptr_def sze_read_update_def sze_ndp_ctrl_set_swptr_def Let_def mask_eqs)
qed

theorem sze_pointer_roundtrip_witness:
  "fst (sze_ndp_ctrl_get_hwptr (sze_ndp_ctrl_set_swptr example_sze_channel 0x500)) = 0x500"
proof -
  have "ch_ptrmask example_sze_channel = mask 13" "(13 :: nat) \<le> 32"
    "(0x1500 :: u32) = ucast ((0x500 - sze_initial_offset (ch_ctrl example_sze_channel)) AND mask 13)"
    "fst (sze_read_update (ch_ctrl (sze_ndp_ctrl_set_swptr example_sze_channel 0x500))) = ucast (0x1500 :: u32)"
    by (simp_all add: example_sze_channel_def example_sze_def sze_read_update_def sze_ndp_ctrl_set_swptr_def
        zero_channel_def mask_eq_exp_minus_1)
  from sze_pointer_roundtrip [OF this] show ?thesis by (simp add: mask_eq_exp_minus_1)
qed

text \<open>The first subscription of an SZE channel that asks for discarding of packets is always refused
  with \<open>EPERM\<close>: the controller applies the flag but does not report it back, and the channel
  takes the missing flag for a refusal.
\<close>

theorem sze_discard_refused:
  assumes "ch_subscriptions_count ch = 0" and "flags AND NDP_CHANNEL_FLAG_DISCARD \<noteq> 0"
  shows "fst (ndp_channel_subscribe (sze_ndp_ctrl_ops rx tx) flags ch) = - EPERM"
proof -
  let ?req = "(ucast flags :: u64) AND ucast (NOT NDP_CHANNEL_FLAG_EXCLUSIVE :: u32)"
  have "bit flags 0" using assms(2) by (auto simp: NDP_CHANNEL_FLAG_DISCARD_def and_one_eq bit_0 odd_iff_mod_2_eq_one)
  then have "bit ?req 0" by (simp add: bit_simps NDP_CHANNEL_FLAG_EXCLUSIVE_def)
  moreover have "\<not> bit (ucast (ucast (?req AND NOT NDP_CHANNEL_FLAG_DISCARD) :: u32) :: u64) 0"
    by (simp add: bit_simps NDP_CHANNEL_FLAG_DISCARD_def)
  ultimately have neq: "(ucast (ucast (?req AND NOT NDP_CHANNEL_FLAG_DISCARD) :: u32) :: u64) \<noteq> ?req" by metis
  show ?thesis
    using assms(1) neq
    by (auto simp: ndp_channel_subscribe_def sze_ndp_ctrl_ops_def sze_ndp_ctrl_set_flags_def Let_def split: prod.splits)
qed

theorem sze_discard_refused_witness:
  "fst (ndp_channel_subscribe (sze_ndp_ctrl_ops 256 512) 1 example_sze_channel) = - EPERM"
  by (rule sze_discard_refused)
    (simp_all add: example_sze_channel_def zero_channel_def NDP_CHANNEL_FLAG_DISCARD_def)



end
