(* ===== verification/DmaCtrl.thy ===== *)
theory DmaCtrl
  imports Comp NdpTypes
begin

text \<open>
  The register interface of the Medusa (v2) and Calypte (v3) DMA controllers,
  \<open>libnfb/include/netcope/dma_ctrl_ndp.h\<close>, which the kernel driver and the user-space library share:
  packet headers and descriptors, the software and hardware pointers, opening, starting and stopping.

  The hardware writes its two pointers to the update buffer in memory.  \<open>nc_updates\<close> is the parameter
  for what it writes: the values that later reads of the buffer find, one for each read; when the list
  is used up the buffer does not change any more.
\<close>

section \<open>Headers and descriptors\<close>

record nc_ndp_hdr =
  hdr_frame_len :: u16
  hdr_hdr_len :: u8
  hdr_meta :: "4 word"
  hdr_free_desc :: "2 word"

record nc_calypte_hdr =
  chdr_frame_len :: u16
  chdr_frame_ptr :: u16
  chdr_valid :: "1 word"
  chdr_metadata :: "24 word"

text \<open>A descriptor is a 64-bit word; a bit field of width \<open>n\<close> at bit \<open>p\<close> takes the low bits of what is stored.\<close>

type_synonym nc_ndp_desc = u64

definition bf :: "nat \<Rightarrow> nat \<Rightarrow> u64 \<Rightarrow> u64" where
  "bf p n v = push_bit p (v AND mask n)"

definition bf_get :: "nat \<Rightarrow> nat \<Rightarrow> u64 \<Rightarrow> u64" where
  "bf_get p n d = drop_bit p d AND mask n"

definition desc_type :: "nc_ndp_desc \<Rightarrow> u64" where "desc_type d = bf_get 62 2 d"

definition nc_ndp_rx_desc0 :: "u64 \<Rightarrow> nc_ndp_desc" where
  "nc_ndp_rx_desc0 phys = bf 0 32 (drop_bit 30 phys) OR bf 32 2 (drop_bit 62 phys) OR bf 34 28 0 OR bf 62 2 0"

definition nc_ndp_rx_desc2 :: "u64 \<Rightarrow> u16 \<Rightarrow> bool \<Rightarrow> nc_ndp_desc" where
  "nc_ndp_rx_desc2 phys len nxt =
     bf 62 2 2 OR bf 0 30 phys OR bf 31 1 0 OR bf 30 1 0 OR bf 32 16 (ucast len) OR bf 48 12 0 OR bf 60 1 0 OR
     bf 61 1 (of_bool nxt)"

definition nc_ndp_rx_desc3 :: "u64 \<Rightarrow> u64 \<Rightarrow> nc_ndp_desc" where
  "nc_ndp_rx_desc3 phys0 phys1 = bf 62 2 3 OR bf 0 30 phys0 OR bf 32 30 phys1 OR bf 30 1 0 OR bf 31 1 0"

definition nc_ndp_tx_desc0 :: "u64 \<Rightarrow> nc_ndp_desc" where
  "nc_ndp_tx_desc0 phys = nc_ndp_rx_desc0 phys"

definition nc_ndp_tx_desc2 :: "u64 \<Rightarrow> u16 \<Rightarrow> u16 \<Rightarrow> bool \<Rightarrow> nc_ndp_desc" where
  "nc_ndp_tx_desc2 phys len meta nxt =
     bf 62 2 2 OR bf 0 30 phys OR bf 31 1 0 OR bf 30 1 0 OR bf 32 16 (ucast len) OR bf 48 12 (ucast meta) OR
     bf 60 1 0 OR bf 61 1 (of_bool nxt)"

definition NDP_CTRL_DESC_UPPER_ADDR :: "u64 \<Rightarrow> u64" where
  "NDP_CTRL_DESC_UPPER_ADDR addr = addr AND 0xFFFFFFFFC0000000"

section \<open>The controller\<close>

abbreviation (input) DMA_TYPE_MEDUSA :: u8 where "DMA_TYPE_MEDUSA \<equiv> 2"
abbreviation (input) DMA_TYPE_CALYPTE :: u8 where "DMA_TYPE_CALYPTE \<equiv> 3"
abbreviation (input) COMP_NC_DMA_CTRL_LOCK :: u32 where "COMP_NC_DMA_CTRL_LOCK \<equiv> 1"

abbreviation (input) NDP_CTRL_REG_CONTROL :: u64 where "NDP_CTRL_REG_CONTROL \<equiv> 0x00"
abbreviation (input) NDP_CTRL_REG_STATUS :: u64 where "NDP_CTRL_REG_STATUS \<equiv> 0x04"
abbreviation (input) NDP_CTRL_REG_EXPER :: u64 where "NDP_CTRL_REG_EXPER \<equiv> 0x08"
abbreviation (input) NDP_CTRL_REG_SDP :: u64 where "NDP_CTRL_REG_SDP \<equiv> 0x10"
abbreviation (input) NDP_CTRL_REG_SHP :: u64 where "NDP_CTRL_REG_SHP \<equiv> 0x14"
abbreviation (input) NDP_CTRL_REG_TIMEOUT :: u64 where "NDP_CTRL_REG_TIMEOUT \<equiv> 0x20"
abbreviation (input) NDP_CTRL_REG_DESC_BASE :: u64 where "NDP_CTRL_REG_DESC_BASE \<equiv> 0x40"
abbreviation (input) NDP_CTRL_REG_HDR_BASE :: u64 where "NDP_CTRL_REG_HDR_BASE \<equiv> 0x48"
abbreviation (input) NDP_CTRL_REG_UPDATE_BASE :: u64 where "NDP_CTRL_REG_UPDATE_BASE \<equiv> 0x50"
abbreviation (input) NDP_CTRL_REG_MDP :: u64 where "NDP_CTRL_REG_MDP \<equiv> 0x58"
abbreviation (input) NDP_CTRL_REG_MHP :: u64 where "NDP_CTRL_REG_MHP \<equiv> 0x5C"
abbreviation (input) NDP_CTRL_REG_CONTROL_STOP :: u32 where "NDP_CTRL_REG_CONTROL_STOP \<equiv> 0"
abbreviation (input) NDP_CTRL_REG_CONTROL_START :: u32 where "NDP_CTRL_REG_CONTROL_START \<equiv> 1"
abbreviation (input) NDP_CTRL_REG_STATUS_RUNNING :: u32 where "NDP_CTRL_REG_STATUS_RUNNING \<equiv> 1"
abbreviation (input) NDP_RX_CALYPTE_BLOCK_SIZE :: u32 where "NDP_RX_CALYPTE_BLOCK_SIZE \<equiv> 128"
abbreviation (input) NDP_TX_CALYPTE_BLOCK_SIZE :: u32 where "NDP_TX_CALYPTE_BLOCK_SIZE \<equiv> 32"

text \<open>\<open>nc_dir\<close> is set for transmit; \<open>nc_upd\<close> are the two words of the update buffer.\<close>

record nc_ndp_ctrl =
  nc_last_upper_addr :: u64
  nc_mdp :: u32
  nc_mhp :: u32
  nc_sdp :: u32
  nc_hdp :: u32
  nc_shp :: u32
  nc_hhp :: u32
  nc_comp :: nfb_comp
  nc_upd :: "u32 \<times> u32"
  nc_updates :: "(u32 \<times> u32) list"
  nc_dir :: bool
  nc_type :: u8

record nc_ndp_ctrl_start_params =
  sp_desc_buffer :: u64
  sp_data_buffer :: u64
  sp_hdr_buffer :: u64
  sp_update_buffer :: u64
  sp_nb_data :: u32
  sp_nb_desc :: u32
  sp_nb_hdr :: u32
  sp_timeout :: u32

section \<open>Pointers\<close>

definition nc_upd_read :: "nc_ndp_ctrl \<Rightarrow> nc_ndp_ctrl" where
  "nc_upd_read ctrl =
     (case nc_updates ctrl of [] \<Rightarrow> ctrl | u # us \<Rightarrow> ctrl\<lparr>nc_upd := u, nc_updates := us\<rparr>)"

definition nc_ndp_ctrl_hdp_update :: "nc_ndp_ctrl \<Rightarrow> nc_ndp_ctrl" where
  "nc_ndp_ctrl_hdp_update ctrl = (let c = nc_upd_read ctrl in c\<lparr>nc_hdp := fst (nc_upd c)\<rparr>)"

definition nc_ndp_ctrl_hhp_update :: "nc_ndp_ctrl \<Rightarrow> nc_ndp_ctrl" where
  "nc_ndp_ctrl_hhp_update ctrl = (let c = nc_upd_read ctrl in c\<lparr>nc_hhp := snd (nc_upd c)\<rparr>)"

definition nc_ndp_ctrl_hp_update :: "nc_ndp_ctrl \<Rightarrow> nc_ndp_ctrl" where
  "nc_ndp_ctrl_hp_update ctrl = nc_ndp_ctrl_hhp_update (nc_ndp_ctrl_hdp_update ctrl)"

definition nc_ndp_ctrl_sp_flush :: "nc_ndp_ctrl \<Rightarrow> nc_ndp_ctrl" where
  "nc_ndp_ctrl_sp_flush ctrl =
     ctrl\<lparr>nc_comp := nfb_comp_write64 (nc_comp ctrl) NDP_CTRL_REG_SDP
            (ucast (nc_sdp ctrl) OR push_bit 32 (ucast (nc_shp ctrl)))\<rparr>"

definition nc_ndp_ctrl_sdp_flush :: "nc_ndp_ctrl \<Rightarrow> nc_ndp_ctrl" where
  "nc_ndp_ctrl_sdp_flush ctrl = ctrl\<lparr>nc_comp := nfb_comp_write32 (nc_comp ctrl) NDP_CTRL_REG_SDP (nc_sdp ctrl)\<rparr>"

definition medusa_get_max_ptr_mask :: "bool \<Rightarrow> nc_ndp_ctrl \<Rightarrow> u32 \<times> u32 \<times> nc_ndp_ctrl" where
  "medusa_get_max_ptr_mask set_orig ctrl =
     (case (if set_orig then nfb_comp_read64 (nc_comp ctrl) NDP_CTRL_REG_MDP else (0, nc_comp ctrl)) of (orig, c0) \<Rightarrow>
      case nfb_comp_read64 (nfb_comp_write64 c0 NDP_CTRL_REG_MDP (- 1)) NDP_CTRL_REG_MDP of (val_max, c1) \<Rightarrow>
      let c2 = (if set_orig then nfb_comp_write64 c1 NDP_CTRL_REG_MDP orig else c1)
      in (ucast (drop_bit 1 (val_max AND 0xFFFFFFFF)), ucast (drop_bit 1 (drop_bit 32 val_max AND 0xFFFFFFFF)),
          ctrl\<lparr>nc_comp := c2\<rparr>))"

definition nc_ndp_ctrl_medusa_get_max_ptr_mask :: "nc_ndp_ctrl \<Rightarrow> u32 \<times> u32 \<times> nc_ndp_ctrl" where
  "nc_ndp_ctrl_medusa_get_max_ptr_mask ctrl = medusa_get_max_ptr_mask True ctrl"

section \<open>Open, start and stop\<close>

text \<open>
  The device tree is a parameter: \<open>compat_index\<close> is the index of the first of the four compatible strings
  that matches the node, \<open>version\<close> the value of the property when it has the right length, \<open>comp_open\<close>
  the result of \<open>nfb_comp_open\<close>.
\<close>

definition nc_ndp_ctrl_open :: "nat option \<Rightarrow> u32 option \<Rightarrow> nfb_comp option \<Rightarrow> nc_ndp_ctrl \<Rightarrow> int \<times> nc_ndp_ctrl" where
  "nc_ndp_ctrl_open compat_index version comp_open ctrl =
     (case compat_index of
        None \<Rightarrow> (- EINVAL, ctrl)
      | Some i \<Rightarrow>
        (case version of
           None \<Rightarrow> (- EBADF, ctrl)
         | Some v \<Rightarrow>
           let ctrl1 = ctrl\<lparr>nc_type := if i < 2 then DMA_TYPE_MEDUSA else DMA_TYPE_CALYPTE\<rparr> in
           if i < 2 \<and> v \<ge> 0x00030000 then (- ENOSYS, ctrl1)
           else if \<not> i < 2 \<and> (v < 0x00020000 \<or> v \<ge> 0x00030000) then (- ENOSYS, ctrl1)
           else case comp_open of
             None \<Rightarrow> (- ENODEV, ctrl1)
           | Some c \<Rightarrow> (0, ctrl1\<lparr>nc_comp := c, nc_dir := (i mod 2 = 1)\<rparr>)))"

definition nc_ndp_ctrl_start :: "nc_ndp_ctrl \<Rightarrow> nc_ndp_ctrl_start_params \<Rightarrow> int \<times> nc_ndp_ctrl" where
  "nc_ndp_ctrl_start ctrl sp =
     (if nc_type ctrl \<noteq> DMA_TYPE_MEDUSA \<and> nc_type ctrl \<noteq> DMA_TYPE_CALYPTE then (- ENODEV, ctrl)
      else
        let medusa = (nc_type ctrl = DMA_TYPE_MEDUSA);
            calypte_tx = (nc_type ctrl = DMA_TYPE_CALYPTE \<and> nc_dir ctrl);
            nb_d = (if medusa then sp_nb_desc sp else sp_nb_data sp);
            d_buffer = (if medusa then sp_desc_buffer sp else sp_data_buffer sp)
        in if nb_d AND (nb_d - 1) \<noteq> 0 then (- EINVAL, ctrl)
        else if \<not> nc_dir ctrl \<and> sp_nb_hdr sp AND (sp_nb_hdr sp - 1) \<noteq> 0 then (- EINVAL, ctrl)
        else case nfb_comp_trylock (nc_comp ctrl) COMP_NC_DMA_CTRL_LOCK 0 of (ret, c0) \<Rightarrow>
        if ret \<noteq> 0 then (if ret = - EBUSY then - EEXIST else ret, ctrl\<lparr>nc_comp := c0\<rparr>)
        else
        case (if \<not> calypte_tx then (nb_d - 1, sp_nb_hdr sp - 1, c0)
              else case nfb_comp_read32 c0 NDP_CTRL_REG_MDP of (a, c) \<Rightarrow>
                   case nfb_comp_read32 c NDP_CTRL_REG_MHP of (b, c') \<Rightarrow> (a, b, c')) of (mdp, mhp, c1) \<Rightarrow>
        case nfb_comp_read32 c1 NDP_CTRL_REG_STATUS of (status, c2) \<Rightarrow>
        let upd = (0, if \<not> nc_dir ctrl \<or> \<not> medusa then 0 else snd (nc_upd ctrl));
            ctrl1 = ctrl\<lparr>nc_mdp := mdp, nc_mhp := mhp, nc_sdp := 0, nc_hdp := 0, nc_shp := 0, nc_hhp := 0,
                         nc_upd := upd, nc_last_upper_addr := - 1, nc_comp := c2\<rparr>
        in if status AND NDP_CTRL_REG_STATUS_RUNNING \<noteq> 0 then
          (- EALREADY, ctrl1\<lparr>nc_comp := nfb_comp_unlock c2 COMP_NC_DMA_CTRL_LOCK\<rparr>)
        else
          let c3 = (if \<not> calypte_tx then nfb_comp_write64 c2 NDP_CTRL_REG_DESC_BASE d_buffer else c2);
              c4 = nfb_comp_write64 c3 NDP_CTRL_REG_UPDATE_BASE (sp_update_buffer sp);
              c5 = (if \<not> nc_dir ctrl then nfb_comp_write64 c4 NDP_CTRL_REG_HDR_BASE (sp_hdr_buffer sp) else c4)
          in case (if \<not> calypte_tx then
                     case medusa_get_max_ptr_mask False (ctrl1\<lparr>nc_comp := c5\<rparr>) of (mdp_max, mhp_max, ctrl2) \<Rightarrow>
                     if mdp > mdp_max \<or> (\<not> nc_dir ctrl \<and> mhp > mhp_max) then (- ENOMEM, nc_comp ctrl2)
                     else (0, nfb_comp_write32 (nfb_comp_write32 (nc_comp ctrl2) NDP_CTRL_REG_MDP mdp)
                                NDP_CTRL_REG_MHP mhp)
                   else (0, c5)) of (ret, c6) \<Rightarrow>
          if ret \<noteq> 0 then (ret, ctrl1\<lparr>nc_comp := nfb_comp_unlock c6 COMP_NC_DMA_CTRL_LOCK\<rparr>)
          else
            let c7 = nfb_comp_write64 c6 NDP_CTRL_REG_SDP 0;
                c8 = (if \<not> medusa then nfb_comp_write32 c7 NDP_CTRL_REG_EXPER 0 else c7);
                c9 = nfb_comp_write32 c8 NDP_CTRL_REG_TIMEOUT (if sp_timeout sp \<noteq> 0 then sp_timeout sp else 0x800);
                c10 = nfb_comp_write32 c9 NDP_CTRL_REG_CONTROL NDP_CTRL_REG_CONTROL_START
            in (0, ctrl1\<lparr>nc_comp := c10\<rparr>))"

text \<open>The \<open>do while\<close> loop that waits for the end of the run: at most 101 reads.\<close>

primrec stop_wait :: "nat \<Rightarrow> int \<Rightarrow> nfb_comp \<Rightarrow> int \<times> nfb_comp" where
  "stop_wait 0 ret c = (ret, c)"
| "stop_wait (Suc n) ret c =
     (case nfb_comp_read32 c NDP_CTRL_REG_STATUS of (status, c1) \<Rightarrow>
      if status AND NDP_CTRL_REG_STATUS_RUNNING = 0 then (0, c1) else stop_wait n ret c1)"

definition nc_ndp_ctrl_stop_gen :: "nc_ndp_ctrl \<Rightarrow> bool \<Rightarrow> int \<times> nc_ndp_ctrl" where
  "nc_ndp_ctrl_stop_gen ctrl force =
     (let ctrl0 = ctrl\<lparr>nc_comp := nfb_comp_write32 (nc_comp ctrl) NDP_CTRL_REG_CONTROL NDP_CTRL_REG_CONTROL_STOP\<rparr>;
          ctrl1 = (if nc_dir ctrl then nc_ndp_ctrl_hdp_update ctrl0 else ctrl0);
          pending = (nc_dir ctrl \<and> nc_sdp ctrl1 \<noteq> nc_hdp ctrl1)
      in if pending \<and> \<not> force then
        (if nc_hdp ctrl = nc_hdp ctrl1 then - EAGAIN else - EINPROGRESS, ctrl1)
      else
        let c2 = (if nc_type ctrl = DMA_TYPE_CALYPTE \<and> \<not> nc_dir ctrl
                  then nfb_comp_write32 (nfb_comp_write32 (nc_comp ctrl1) NDP_CTRL_REG_SDP (nc_hdp ctrl1))
                         NDP_CTRL_REG_SHP (nc_hhp ctrl1)
                  else nc_comp ctrl1)
        in case stop_wait 101 (if pending then - EBUSY else - EAGAIN) c2 of (ret, c3) \<Rightarrow>
          if \<not> force \<and> ret \<noteq> 0 then (ret, ctrl1\<lparr>nc_comp := c3\<rparr>)
          else (ret, ctrl1\<lparr>nc_comp := nfb_comp_unlock c3 COMP_NC_DMA_CTRL_LOCK\<rparr>))"

definition nc_ndp_ctrl_stop_force :: "nc_ndp_ctrl \<Rightarrow> int \<times> nc_ndp_ctrl" where
  "nc_ndp_ctrl_stop_force ctrl = nc_ndp_ctrl_stop_gen ctrl True"

definition nc_ndp_ctrl_stop :: "nc_ndp_ctrl \<Rightarrow> int \<times> nc_ndp_ctrl" where
  "nc_ndp_ctrl_stop ctrl = nc_ndp_ctrl_stop_gen ctrl False"

text \<open>The two properties of the parameter node, when present with the right length.\<close>

definition nc_ndp_ctrl_get_mtu :: "u32 option \<Rightarrow> u32 option \<Rightarrow> u32 \<Rightarrow> u32 \<Rightarrow> int \<times> u32 \<times> u32" where
  "nc_ndp_ctrl_get_mtu frame_size_min frame_size_max mn mx =
     ((if frame_size_min = None then - 1 else 0) + (if frame_size_max = None then - 2 else 0),
      case_option mn id frame_size_min, case_option mx id frame_size_max)"

section \<open>Bit fields\<close>

lemma bit_bf: "bit (bf p n v) i \<longleftrightarrow> p \<le> i \<and> i < 64 \<and> i - p < n \<and> bit v (i - p)"
  unfolding bf_def by (auto simp: bit_push_bit_iff bit_and_iff bit_mask_iff)

lemma bf_0 [simp]: "bf p n 0 = 0"
  by (simp add: bf_def)

lemma bit_bf_get: "bit (bf_get p n d) i \<longleftrightarrow> i < n \<and> i < 64 \<and> bit d (p + i)"
  unfolding bf_get_def by (auto simp: bit_drop_bit_eq bit_and_iff bit_mask_iff dest: bit_imp_le_length)

lemma bf_get_same: "p + n \<le> 64 \<Longrightarrow> bf_get p n (bf p n v) = v AND mask n"
  by (rule bit_word_eqI) (auto simp: bit_bf_get bit_bf bit_and_iff bit_mask_iff)

lemma bf_get_other: "p + n \<le> q \<or> q + m \<le> p \<Longrightarrow> bf_get p n (bf q m v) = 0"
  by (rule bit_word_eqI) (auto simp: bit_bf_get bit_bf)

lemma bf_get_or: "bf_get p n (d OR e) = bf_get p n d OR bf_get p n e"
  by (rule bit_word_eqI) (auto simp: bit_bf_get bit_or_iff)

lemmas bf_simps = bf_get_or bf_get_same bf_get_other

lemma and_mask_ucast: "(ucast (v :: 'a::len word) :: u64) AND mask LENGTH('a) = ucast v" if "LENGTH('a) \<le> 64"
  by (rule bit_word_eqI) (auto simp: bit_simps dest: bit_imp_le_length)

section \<open>What the descriptors say to the hardware\<close>

text \<open>
  The hardware keeps an upper address.  A descriptor of type 0 sets it from its 34 bits, a descriptor
  of type 2 names a buffer: the upper address with the 30 bits of the descriptor, and a length.
\<close>

fun hw_walk :: "u64 \<Rightarrow> nc_ndp_desc list \<Rightarrow> u64 \<times> (u64 \<times> u64) list" where
  "hw_walk upper [] = (upper, [])"
| "hw_walk upper (d # ds) =
     (if desc_type d = 0 then hw_walk (push_bit 30 (bf_get 0 34 d)) ds
      else if desc_type d = 2 then
        (case hw_walk upper ds of (u, bufs) \<Rightarrow> (u, (upper OR bf_get 0 30 d, bf_get 32 16 d) # bufs))
      else hw_walk upper ds)"

lemma hw_walk_append:
  "hw_walk upper (ds @ es) = (case hw_walk upper ds of (u, bufs) \<Rightarrow>
     case hw_walk u es of (v, bufs') \<Rightarrow> (v, bufs @ bufs'))"
  by (induction upper ds rule: hw_walk.induct) (auto split: prod.splits)

lemma upper_addr_bit: "bit (NDP_CTRL_DESC_UPPER_ADDR a) i \<longleftrightarrow> 30 \<le> i \<and> bit a i"
proof -
  have m: "(0xFFFFFFFFC0000000 :: u64) = push_bit 30 (mask 34)" by code_simp
  have "bit (0xFFFFFFFFC0000000 :: u64) i \<longleftrightarrow> 30 \<le> i \<and> i < 64"
    unfolding m by (simp only: bit_push_bit_iff bit_mask_iff possible_bit_word len_num0 len_bit0) auto
  then show ?thesis using bit_imp_le_length [of a i] by (auto simp: NDP_CTRL_DESC_UPPER_ADDR_def bit_and_iff)
qed

lemma rx_desc0_bits: "bit (nc_ndp_rx_desc0 a) i \<longleftrightarrow> i < 34 \<and> bit a (i + 30)"
  by (auto simp: nc_ndp_rx_desc0_def bit_or_iff bit_bf bit_drop_bit_eq add.commute dest: bit_imp_le_length)

lemma desc0_type: "desc_type (nc_ndp_rx_desc0 a) = 0"
  unfolding desc_type_def by (rule bit_word_eqI) (simp add: bit_bf_get rx_desc0_bits)

lemma desc0_upper: "push_bit 30 (bf_get 0 34 (nc_ndp_rx_desc0 a)) = NDP_CTRL_DESC_UPPER_ADDR a"
  by (rule bit_word_eqI) (auto simp: bit_push_bit_iff bit_bf_get rx_desc0_bits upper_addr_bit)

lemma tx_desc2_fields:
  "desc_type (nc_ndp_tx_desc2 a len meta nxt) = 2" "bf_get 0 30 (nc_ndp_tx_desc2 a len meta nxt) = a AND mask 30"
  "bf_get 32 16 (nc_ndp_tx_desc2 a len meta nxt) = ucast len"
  "bf_get 48 12 (nc_ndp_tx_desc2 a len meta nxt) = ucast meta AND mask 12"
  "bf_get 61 1 (nc_ndp_tx_desc2 a len meta nxt) = of_bool nxt"
  using and_mask_ucast [of len]
  by (simp_all add: desc_type_def nc_ndp_tx_desc2_def bf_simps mask_eq_exp_minus_1)

lemma rx_desc2_is_tx: "nc_ndp_rx_desc2 a len nxt = nc_ndp_tx_desc2 a len 0 nxt"
  by (simp add: nc_ndp_rx_desc2_def nc_ndp_tx_desc2_def)

lemma upper_or_lower: "NDP_CTRL_DESC_UPPER_ADDR a OR (a AND mask 30) = a"
  by (rule bit_word_eqI) (auto simp: bit_or_iff bit_and_iff bit_mask_iff upper_addr_bit)

text \<open>The descriptors of a buffer tell the hardware its full 64-bit address and its length: after a
  type 0 descriptor for the address, or when the upper part was announced before, the type 2
  descriptor names exactly the address and the length it was built from.
\<close>

theorem descriptors_name_buffer:
  "hw_walk u [nc_ndp_rx_desc0 a, nc_ndp_rx_desc2 a len nxt] = (NDP_CTRL_DESC_UPPER_ADDR a, [(a, ucast len)]) \<and>
   hw_walk (NDP_CTRL_DESC_UPPER_ADDR a) [nc_ndp_tx_desc2 a len meta nxt] =
     (NDP_CTRL_DESC_UPPER_ADDR a, [(a, ucast len)])"
  using tx_desc2_fields [of a len meta nxt] tx_desc2_fields [of a len 0 nxt] upper_or_lower [of a]
  by (simp add: desc0_type desc0_upper rx_desc2_is_tx)

section \<open>The lock of the controller\<close>

definition same_locks :: "nfb_comp \<Rightarrow> nfb_comp \<Rightarrow> bool" where
  "same_locks c c' \<longleftrightarrow> comp_locks c' = comp_locks c \<and> comp_path c' = comp_path c"

lemma same_locks_read:
  "nfb_comp_read32 c off = (v, c') \<Longrightarrow> same_locks c c'" "nfb_comp_read64 c off = (w, c') \<Longrightarrow> same_locks c c'"
  by (auto simp: same_locks_def dest: comp_read_frame)

lemma same_locks_trans: "same_locks a b \<Longrightarrow> same_locks b c \<Longrightarrow> same_locks a c"
  by (simp add: same_locks_def)

lemma max_ptr_mask_locks:
  "medusa_get_max_ptr_mask orig ctrl = (a, b, ctrl') \<Longrightarrow> same_locks (nc_comp ctrl) (nc_comp ctrl')"
  by (auto simp: medusa_get_max_ptr_mask_def same_locks_def Let_def split: prod.splits if_splits
      dest!: comp_read_frame)

lemma stop_wait_locks: "stop_wait n r c = (r', c') \<Longrightarrow> same_locks c c'"
  by (induction n arbitrary: c) (auto simp: same_locks_def split: prod.splits if_splits dest!: comp_read_frame)

text \<open>How a start ends, as far as the lock is concerned.\<close>

lemma start_cases:
  assumes "nc_ndp_ctrl_start ctrl sp = (ret, ctrl')"
  obtains (refused) "ret \<noteq> 0" "ctrl' = ctrl"
  | (locked) r c where "nfb_comp_trylock (nc_comp ctrl) 1 0 = (r, c)" "r \<noteq> 0" "ret \<noteq> 0" "nc_comp ctrl' = c"
  | (failed) c c' where "nfb_comp_trylock (nc_comp ctrl) 1 0 = (0, c)" "same_locks c c'" "ret \<noteq> 0"
      "nc_comp ctrl' = nfb_comp_unlock c' 1"
  | (started) c where "nfb_comp_trylock (nc_comp ctrl) 1 0 = (0, c)" "same_locks c (nc_comp ctrl')" "ret = 0"
proof -
  obtain r0 c0 where t: "nfb_comp_trylock (nc_comp ctrl) 1 0 = (r0, c0)" by force
  define medusa where "medusa = (nc_type ctrl = DMA_TYPE_MEDUSA)"
  define ctx where "ctx = (nc_type ctrl = DMA_TYPE_CALYPTE \<and> nc_dir ctrl)"
  define nb_d where "nb_d = (if medusa then sp_nb_desc sp else sp_nb_data sp)"
  obtain mdp mhp c1 where m: "(if \<not> ctx then (nb_d - 1, sp_nb_hdr sp - 1, c0)
              else case nfb_comp_read32 c0 NDP_CTRL_REG_MDP of (a, c) \<Rightarrow>
                   case nfb_comp_read32 c NDP_CTRL_REG_MHP of (b, c') \<Rightarrow> (a, b, c')) = (mdp, mhp, c1)"
    using prod_cases3 by blast
  have l1: "same_locks c0 c1"
    using m by (auto simp: same_locks_def split: if_splits prod.splits dest!: comp_read_frame)
  obtain status c2 where s: "nfb_comp_read32 c1 NDP_CTRL_REG_STATUS = (status, c2)" by force
  have l2: "same_locks c0 c2" using l1 same_locks_read(1) [OF s] by (rule same_locks_trans)
  note def = assms [unfolded nc_ndp_ctrl_start_def Let_def t prod.case, folded medusa_def, folded ctx_def nb_d_def, unfolded m s prod.case]
  show ?thesis
    using def t l2 that
    by (auto simp: same_locks_def split: if_splits prod.splits dest!: max_ptr_mask_locks)
qed

text \<open>Starting a controller takes its lock exactly when it succeeds: after an error of any kind (bad
  parameters, lock taken, hardware still running, ring too large) every application, the kernel
  included, holds the same features of every component as before; after a success the kernel holds
  in addition the lock of this controller, and nobody held it before.
\<close>

theorem ctrl_start_lock:
  assumes "nc_ndp_ctrl_start ctrl sp = (ret, ctrl')" and "lock_reachable (comp_locks (nc_comp ctrl))"
  shows "(holds (comp_locks (nc_comp ctrl')) a p b \<longleftrightarrow> holds (comp_locks (nc_comp ctrl)) a p b \<or>
      ret = 0 \<and> a = kernel_app \<and> p = comp_path (nc_comp ctrl) \<and> b = 0) \<and>
    (ret = 0 \<longrightarrow> \<not> holds (comp_locks (nc_comp ctrl)) a (comp_path (nc_comp ctrl)) 0)"
  using assms(1)
proof (cases rule: start_cases)
  case (failed c c')
  have one: "bit (1 :: u32) i \<longleftrightarrow> i = 0" for i by (simp add: bit_1_iff)
  have "lock_reachable (comp_locks c)"
    using failed(1) lock_reachable.try_lock [OF assms(2)]
    by (auto simp: nfb_comp_trylock_def Let_def split: prod.splits if_splits) (metis snd_conv)
  then have inv: "lock_inv (comp_locks c')" using failed(2) by (auto simp: same_locks_def intro: lock_inv_reachable)
  have "holds (comp_locks c') a p b \<longleftrightarrow> holds (comp_locks (nc_comp ctrl)) a p b \<or>
      a = kernel_app \<and> p = comp_path (nc_comp ctrl) \<and> b = 0"
    and "\<not> holds (comp_locks (nc_comp ctrl)) a (comp_path (nc_comp ctrl)) 0" and "comp_path c' = comp_path (nc_comp ctrl)"
    using trylock_once [OF failed(1)] failed(2) by (simp_all add: one same_locks_def)
  then show ?thesis using failed(3,4) unlock_holds [OF inv, of 1 a p b] by (auto simp: one)
qed (use trylock_once in \<open>auto simp: bit_1_iff same_locks_def\<close>)

text \<open>Stopping a controller releases its lock when the stop succeeds and whenever it is forced, also
  when the hardware does not stop; a stop that is refused (transfers pending, or hardware still
  running) keeps the lock, and no other lock ever changes.
\<close>

theorem ctrl_stop_lock:
  assumes "nc_ndp_ctrl_stop_gen ctrl force = (ret, ctrl')" and "lock_inv (comp_locks (nc_comp ctrl))"
  shows "holds (comp_locks (nc_comp ctrl')) a p b \<longleftrightarrow> holds (comp_locks (nc_comp ctrl)) a p b \<and>
    \<not> ((force \<or> ret = 0) \<and> a = kernel_app \<and> p = comp_path (nc_comp ctrl) \<and> b = 0)"
proof -
  have upd: "nc_comp (nc_ndp_ctrl_hdp_update c) = nc_comp c" for c
    by (simp add: nc_ndp_ctrl_hdp_update_def nc_upd_read_def Let_def split: list.splits)
  have "same_locks (nc_comp ctrl) (nc_comp ctrl') \<and> \<not> force \<and> ret \<noteq> 0 \<or>
    (\<exists>c. same_locks (nc_comp ctrl) c \<and> nc_comp ctrl' = nfb_comp_unlock c 1 \<and> (force \<or> ret = 0))"
    using assms(1) unfolding nc_ndp_ctrl_stop_gen_def Let_def
    by (auto simp: same_locks_def upd split: if_splits prod.splits dest!: stop_wait_locks)
  then show ?thesis
    using unlock_holds [of _ 1 a p b] assms(2) by (auto simp: same_locks_def bit_1_iff)
qed

definition example_ctrl :: nc_ndp_ctrl where
  "example_ctrl = \<lparr>nc_last_upper_addr = 0, nc_mdp = 0, nc_mhp = 0, nc_sdp = 0, nc_hdp = 0, nc_shp = 0, nc_hhp = 0,
     nc_comp = example_comp, nc_upd = (0, 0), nc_updates = [], nc_dir = False, nc_type = DMA_TYPE_MEDUSA\<rparr>"

definition example_params :: nc_ndp_ctrl_start_params where
  "example_params = \<lparr>sp_desc_buffer = 0x1000, sp_data_buffer = 0, sp_hdr_buffer = 0x2000, sp_update_buffer = 0x3000,
     sp_nb_data = 0, sp_nb_desc = 1024, sp_nb_hdr = 1024, sp_timeout = 0\<rparr>"

theorem ctrl_start_lock_witness:
  "fst (nc_ndp_ctrl_start example_ctrl example_params) = - ENOMEM \<and>
   \<not> holds (comp_locks (nc_comp (snd (nc_ndp_ctrl_start example_ctrl example_params)))) kernel_app ''/fw/dma'' 0"
proof -
  have s: "nc_ndp_ctrl_start example_ctrl example_params =
      (fst (nc_ndp_ctrl_start example_ctrl example_params), snd (nc_ndp_ctrl_start example_ctrl example_params))" by simp
  have ret: "fst (nc_ndp_ctrl_start example_ctrl example_params) = - ENOMEM" by code_simp
  have r: "lock_reachable (comp_locks (nc_comp example_ctrl))"
    using lock_reachable.probe by (simp add: example_ctrl_def example_comp_def nfb_lock_probe_def)
  show ?thesis
    using ctrl_start_lock [OF s r, of kernel_app "''/fw/dma''" 0] ret
    by (simp add: example_ctrl_def example_comp_def holds_def)
qed

theorem ctrl_stop_lock_witness:
  "\<not> holds (comp_locks (nc_comp (snd (nc_ndp_ctrl_stop_gen example_ctrl True)))) kernel_app ''/fw/dma'' 0"
proof -
  have s: "nc_ndp_ctrl_stop_gen example_ctrl True =
      (fst (nc_ndp_ctrl_stop_gen example_ctrl True), snd (nc_ndp_ctrl_stop_gen example_ctrl True))" by simp
  have "lock_inv (comp_locks (nc_comp example_ctrl))" by (simp add: example_ctrl_def example_comp_def lock_inv_def holds_def)
  from ctrl_stop_lock [OF s this, of kernel_app "''/fw/dma''" 0] show ?thesis
    by (simp add: example_ctrl_def example_comp_def)
qed

end
