(* ===== verification/NdpCtrl.thy ===== *)
theory NdpCtrl
  imports Ring DmaCtrl
begin

text \<open>
  The DMA controllers of Medusa (v2) and Calypte (v3) type in the kernel driver,
  \<open>drivers/kernel/drivers/nfb/ndp/ctrl_ndp.c\<close>: the walk that places packet buffers in the blocks of the
  ring, the conversion of packet headers and buffers to descriptors, the pointers, starting and
  stopping, the shadow mappings and the attachment of a ring.

  The descriptor and offset buffers are lists that the driver writes; both are mapped twice in a row,
  so an index is taken modulo their length.  The header buffer is written by the hardware (receive) or
  by the application (transmit) and is a parameter: a function from the index in the double mapping.
  \<open>nd_patience\<close> is the number of tests after which a kill signal is pending.
\<close>

section \<open>Data\<close>

record ndp_ctrl_cfg =
  cfg_buffer_count :: u32
  cfg_buffer_size :: u32
  cfg_block_count :: u32
  cfg_block_size :: u32
  cfg_initial_offset :: u32

record ndp_ctrl_state_mps =
  mps_cfg :: ndp_ctrl_cfg
  mps_block_offset :: u32
  mps_block_index :: u32
  mps_buffer_index :: u32

record ndp_ctrl =
  nd_c :: nc_ndp_ctrl
  nd_php :: u32
  nd_free_desc :: u32
  nd_mps :: ndp_ctrl_state_mps
  nd_cfg :: ndp_ctrl_cfg
  nd_mode :: u32
  nd_descs :: "nc_ndp_desc list"
  nd_offs :: "u64 list"
  nd_hdrs :: "nat \<Rightarrow> nc_ndp_hdr"
  nd_chdrs :: "nat \<Rightarrow> nc_calypte_hdr"
  nd_free_bytes :: u64
  nd_valid_flag :: u8
  nd_next_sdp :: u32
  nd_flags :: u32
  nd_timeout :: u32
  nd_desc_count :: u32
  nd_hdr_count :: u32
  nd_hdr_buff_en_rw_map :: bool
  nd_next_sdp_age :: u8
  nd_desc_buffer :: "u64 option"
  nd_desc_buffer_v :: "u64 option"
  nd_off_buffer :: "u64 option"
  nd_off_buffer_v :: "u64 option"
  nd_hdr_buffer :: "u64 option"
  nd_hdr_buffer_v :: "u64 option"
  nd_update_buffer :: "u64 option"
  nd_desc_buffer_size :: u64
  nd_off_buffer_size :: u64
  nd_hdr_buffer_size :: u64
  nd_data_buffer_size :: u64
  nd_update_buffer_size :: u64
  nd_hdr_mmap_offset :: u64
  nd_off_mmap_offset :: u64
  nd_upd_mmap_offset :: u64
  nd_patience :: nat

abbreviation (input) NDP_CTRL_RX_DESC_BURST :: u32 where "NDP_CTRL_RX_DESC_BURST \<equiv> 64"
abbreviation (input) NDP_CTRL_MODE_PACKET_SIMPLE :: u32 where "NDP_CTRL_MODE_PACKET_SIMPLE \<equiv> 0"
abbreviation (input) NDP_CTRL_MODE_STREAM :: u32 where "NDP_CTRL_MODE_STREAM \<equiv> 1"
abbreviation (input) NDP_CTRL_MODE_USER :: u32 where "NDP_CTRL_MODE_USER \<equiv> 2"
abbreviation (input) NDP_CTRL_NEXT_SDP_AGE_MAX :: u8 where "NDP_CTRL_NEXT_SDP_AGE_MAX \<equiv> 16"
abbreviation (input) NDP_CTRL_UPDATE_SIZE :: u64 where "NDP_CTRL_UPDATE_SIZE \<equiv> 4"

definition mps_non_first_block_max_offset :: u32 where "mps_non_first_block_max_offset = 4096"

text \<open>A write through the double mapping of a buffer.\<close>

definition shadow_put :: "'a list \<Rightarrow> nat \<Rightarrow> 'a \<Rightarrow> 'a list" where
  "shadow_put buf i v = buf[i mod length buf := v]"

definition shadow_get :: "'a list \<Rightarrow> nat \<Rightarrow> 'a" where
  "shadow_get buf i = buf ! (i mod length buf)"

section \<open>The walk through the ring\<close>

definition ndp_ctrl_medusa_mps_meta_first :: "ndp_ctrl_state_mps \<Rightarrow> ndp_ctrl_state_mps" where
  "ndp_ctrl_medusa_mps_meta_first s =
     s\<lparr>mps_buffer_index := 0, mps_block_offset := cfg_initial_offset (mps_cfg s), mps_block_index := 0\<rparr>"

definition ndp_ctrl_medusa_mps_meta_init ::
  "u32 \<Rightarrow> u32 \<Rightarrow> u32 \<Rightarrow> u64 \<Rightarrow> u32 \<Rightarrow> ndp_ctrl_state_mps \<Rightarrow> ndp_ctrl_state_mps" where
  "ndp_ctrl_medusa_mps_meta_init block_size block_count buffer_size buffer_count initial_offset s =
     ndp_ctrl_medusa_mps_meta_first (s\<lparr>mps_cfg :=
       \<lparr>cfg_buffer_count = ucast buffer_count, cfg_buffer_size = buffer_size, cfg_block_count = block_count,
        cfg_block_size = block_size, cfg_initial_offset = initial_offset\<rparr>\<rparr>)"

definition ndp_ctrl_medusa_mps_inc :: "ndp_ctrl_state_mps \<Rightarrow> int \<times> ndp_ctrl_state_mps" where
  "ndp_ctrl_medusa_mps_inc s =
     (let cfg = mps_cfg s; s1 = s\<lparr>mps_buffer_index := mps_buffer_index s + 1\<rparr> in
      if mps_buffer_index s1 = cfg_buffer_count cfg then (- 1, ndp_ctrl_medusa_mps_meta_first s1)
      else
        let off = mps_block_offset s1 + cfg_buffer_size cfg in
        if off + cfg_buffer_size cfg > cfg_block_size cfg then
          let idx = mps_block_index s1 + 1 in
          (1, s1\<lparr>mps_block_offset := off mod mps_non_first_block_max_offset,
                 mps_block_index := if idx = cfg_block_count cfg then 0 else idx\<rparr>)
        else (0, s1\<lparr>mps_block_offset := off\<rparr>))"

text \<open>The loop of \<open>ndp_ctrl_medusa_req_block_update\<close>; it never ends for a count that the index cannot reach.\<close>

partial_function (option) mps_walk :: "u64 \<Rightarrow> ndp_ctrl_state_mps \<Rightarrow> ndp_ctrl_state_mps option" where
  "mps_walk buffer_count s =
     (if ucast (mps_buffer_index s) < buffer_count
      then mps_walk buffer_count (snd (ndp_ctrl_medusa_mps_inc s)) else Some s)"

text \<open>
  \<open>resize\<close> is the call of \<open>ndp_channel_ring_resize\<close>, present when \<open>do_resize\<close> is set.  None: the call
  does not return.
\<close>

definition min_buffer_items :: u64 where "min_buffer_items = PAGE_SIZE div min 8 4"

definition ndp_ctrl_medusa_req_block_update ::
  "(ndp_ctrl ndp_channel \<Rightarrow> world \<Rightarrow> int \<times> ndp_ctrl ndp_channel \<times> world) option \<Rightarrow> u64 \<Rightarrow> u64 \<Rightarrow> u64 \<Rightarrow>
   ndp_ctrl ndp_channel \<Rightarrow> world \<Rightarrow> (int \<times> ndp_ctrl ndp_channel \<times> world) option" where
  "ndp_ctrl_medusa_req_block_update resize buffer_size buffer_count initial_offset ch w =
     (if buffer_size = 0 \<or> buffer_count < min_buffer_items then Some (- EINVAL, ch, w)
      else map_option (\<lambda>s.
        let idx = (if mps_block_offset s \<le> cfg_initial_offset (mps_cfg s) then mps_block_index s - 1 else mps_block_index s);
            cfg = (mps_cfg s)\<lparr>cfg_block_count := idx + 1, cfg_buffer_count := mps_buffer_index s\<rparr>;
            ch1 = ch\<lparr>ch_ctrl := (ch_ctrl ch)\<lparr>nd_cfg := cfg\<rparr>, ch_req_block_count := ucast (cfg_block_count cfg)\<rparr>
        in case resize of None \<Rightarrow> (0, ch1, w) | Some rs \<Rightarrow> rs ch1 w)
        (mps_walk buffer_count (ndp_ctrl_medusa_mps_meta_init (ucast (ch_req_block_size ch)) 0 (ucast buffer_size) 0
           (ucast initial_offset) (nd_mps (ch_ctrl ch)))))"

section \<open>Configuration through sysfs\<close>

text \<open>The setters: \<open>val\<close> is the parsed number and \<open>len\<close> the length of the string.\<close>

definition set_result :: "int \<Rightarrow> (int \<times> 'a) option \<Rightarrow> (int \<times> 'a) option" where
  "set_result len = map_option (\<lambda>(ret, x). (if ret \<noteq> 0 then ret else len, x))"

definition ndp_ctrl_set_buffer_size where
  "ndp_ctrl_set_buffer_size resize val len ch w =
     set_result len (ndp_ctrl_medusa_req_block_update (Some resize) val
       (ucast (cfg_buffer_count (nd_cfg (ch_ctrl ch)))) (ucast (cfg_initial_offset (nd_cfg (ch_ctrl ch)))) ch w)"

definition ndp_ctrl_set_buffer_count where
  "ndp_ctrl_set_buffer_count resize val len ch w =
     set_result len (ndp_ctrl_medusa_req_block_update (Some resize) (ucast (cfg_buffer_size (nd_cfg (ch_ctrl ch))))
       val (ucast (cfg_initial_offset (nd_cfg (ch_ctrl ch)))) ch w)"

definition ndp_ctrl_set_initial_offset where
  "ndp_ctrl_set_initial_offset resize val len ch w =
     set_result len (ndp_ctrl_medusa_req_block_update (Some resize) (ucast (cfg_buffer_size (nd_cfg (ch_ctrl ch))))
       (ucast (cfg_buffer_count (nd_cfg (ch_ctrl ch)))) val ch w)"

definition ndp_ctrl_set_timeout :: "u64 \<Rightarrow> int \<Rightarrow> ndp_ctrl ndp_channel \<Rightarrow> int \<times> ndp_ctrl ndp_channel" where
  "ndp_ctrl_set_timeout val len ch = (len, ch\<lparr>ch_ctrl := (ch_ctrl ch)\<lparr>nd_timeout := ucast val\<rparr>\<rparr>)"

definition ndp_ctrl_get_ring_size :: "ndp_ctrl ndp_channel \<Rightarrow> u32" where
  "ndp_ctrl_get_ring_size ch = cfg_buffer_size (nd_cfg (ch_ctrl ch)) * cfg_buffer_count (nd_cfg (ch_ctrl ch))"

text \<open>The doubling loop; it ends because the count exceeds the limit after at most 64 steps, unless it wraps to zero.\<close>

partial_function (option) double_count :: "u64 \<Rightarrow> u64 \<Rightarrow> u64 option" where
  "double_count limit buffer_count =
     (if buffer_count * 2 \<le> limit then double_count limit (buffer_count * 2) else Some buffer_count)"

definition ndp_ctrl_set_ring_size where
  "ndp_ctrl_set_ring_size resize val len ch w =
     (let bs = cfg_buffer_size (nd_cfg (ch_ctrl ch)) in
      if bs = 0 then Some (- EINVAL, ch, w)
      else Option.bind (double_count (val div ucast bs) 1) (\<lambda>buffer_count.
        set_result len (ndp_ctrl_medusa_req_block_update (Some resize) (ucast bs) buffer_count
          (ucast (cfg_initial_offset (nd_cfg (ch_ctrl ch)))) ch w)))"

definition ndp_ctrl_v2_get_vmaps :: "ndp_ctrl ndp_channel \<Rightarrow> u64 option \<times> u64 option \<times> u32" where
  "ndp_ctrl_v2_get_vmaps ch = (nd_hdr_buffer_v (ch_ctrl ch), nd_off_buffer_v (ch_ctrl ch), nd_hdr_count (ch_ctrl ch))"

text \<open>The results in the order of the parameters: header mapping, its size, data size, header size; the count.\<close>

definition ndp_ctrl_v3_get_vmaps :: "ndp_ctrl ndp_channel \<Rightarrow> u64 option \<times> u64 \<times> u64 \<times> u64 \<times> u32" where
  "ndp_ctrl_v3_get_vmaps ch =
     (let ctrl = ch_ctrl ch in
      (nd_hdr_buffer_v ctrl, nd_hdr_buffer_size ctrl * 2, nd_data_buffer_size ctrl, nd_hdr_buffer_size ctrl, nd_hdr_count ctrl))"

section \<open>Receive descriptors\<close>

text \<open>The loop of \<open>ndp_ctrl_mps_fill_rx_descs\<close>; \<open>n\<close> turns are left, \<open>at\<close> is the index of the next descriptor.\<close>

primrec mps_fill_loop :: "nat \<Rightarrow> nat \<Rightarrow> ndp_block list \<Rightarrow> ndp_ctrl \<Rightarrow> ndp_ctrl" where
  "mps_fill_loop 0 at blocks ctrl = ctrl"
| "mps_fill_loop (Suc n) at blocks ctrl =
     (let addr = blk_phys (blocks ! unat (mps_block_index (nd_mps ctrl))) + ucast (mps_block_offset (nd_mps ctrl)) in
      if NDP_CTRL_DESC_UPPER_ADDR addr \<noteq> nc_last_upper_addr (nd_c ctrl) then
        mps_fill_loop n (Suc at) blocks
          (ctrl\<lparr>nd_c := (nd_c ctrl)\<lparr>nc_last_upper_addr := NDP_CTRL_DESC_UPPER_ADDR addr\<rparr>,
                nd_descs := shadow_put (nd_descs ctrl) at (nc_ndp_rx_desc0 addr)\<rparr>)
      else
        mps_fill_loop n (Suc at) blocks
          (ctrl\<lparr>nd_descs := shadow_put (nd_descs ctrl) at
                  (nc_ndp_rx_desc2 addr (ucast (cfg_buffer_size (mps_cfg (nd_mps ctrl)))) False),
                nd_mps := snd (ndp_ctrl_medusa_mps_inc (nd_mps ctrl))\<rparr>))"

definition ndp_ctrl_mps_fill_rx_descs :: "ndp_block list \<Rightarrow> u64 \<Rightarrow> ndp_ctrl \<Rightarrow> ndp_ctrl" where
  "ndp_ctrl_mps_fill_rx_descs blocks n ctrl =
     (let sdp = nc_sdp (nd_c ctrl);
          ctrl1 = mps_fill_loop (unat n) (unat sdp) blocks ctrl
      in ctrl1\<lparr>nd_c := (nd_c ctrl1)\<lparr>nc_sdp := (sdp + ucast n) AND nc_mdp (nd_c ctrl1)\<rparr>\<rparr>)"

text \<open>The loop of \<open>ndp_ctrl_user_fill_rx_descs\<close>: the final values of \<open>i\<close> and \<open>j\<close>, and the controller.\<close>

primrec user_fill_loop :: "nat \<Rightarrow> nat \<Rightarrow> nat \<Rightarrow> nat \<Rightarrow> nat \<Rightarrow> ndp_ctrl \<Rightarrow> nat \<times> nat \<times> ndp_ctrl" where
  "user_fill_loop 0 php at i j ctrl = (i, j, ctrl)"
| "user_fill_loop (Suc n) php at i j ctrl =
     (let addr = shadow_get (nd_offs ctrl) (php + i);
          fresh = (NDP_CTRL_DESC_UPPER_ADDR addr \<noteq> nc_last_upper_addr (nd_c ctrl))
      in if fresh \<and> nd_free_desc ctrl = 0 then (i, j, ctrl)
      else
        let ctrl1 = (if fresh then
              ctrl\<lparr>nd_c := (nd_c ctrl)\<lparr>nc_last_upper_addr := NDP_CTRL_DESC_UPPER_ADDR addr\<rparr>,
                   nd_descs := shadow_put (nd_descs ctrl) (at + j) (nc_ndp_rx_desc0 addr),
                   nd_free_desc := nd_free_desc ctrl - 1\<rparr> else ctrl);
            j1 = (if fresh then Suc j else j)
        in if nd_free_desc ctrl1 = 0 then (i, j1, ctrl1)
        else user_fill_loop n php at (Suc i) (Suc j1)
          (ctrl1\<lparr>nd_descs := shadow_put (nd_descs ctrl1) (at + j1)
                   (nc_ndp_rx_desc2 addr (hdr_frame_len (nd_hdrs ctrl1 (php + i))) False),
                 nd_free_desc := nd_free_desc ctrl1 - 1\<rparr>))"

definition ndp_ctrl_user_fill_rx_descs :: "ndp_ctrl \<Rightarrow> ndp_ctrl" where
  "ndp_ctrl_user_fill_rx_descs ctrl =
     (let c = nd_c ctrl; php = nd_php ctrl; mdp = nc_mdp c; sdp = nc_sdp c;
          cnt = (nc_shp c - php) AND nc_mhp c;
          ctrl0 = ctrl\<lparr>nd_free_desc := (nc_hdp c - nd_next_sdp ctrl - 1) AND nc_mhp c\<rparr>
      in case user_fill_loop (unat cnt) (unat php) (unat (nd_next_sdp ctrl)) 0 0 ctrl0 of (i, j, ctrl1) \<Rightarrow>
        if i = 0 then ctrl1
        else
          let next_sdp = (nd_next_sdp ctrl1 + of_nat j) AND mdp;
              sdp_shift = (next_sdp - sdp) AND mdp;
              age = (if j = 0 \<and> sdp_shift \<noteq> 0 then nd_next_sdp_age ctrl1 + 1 else 0);
              ctrl2 = ctrl1\<lparr>nd_next_sdp := next_sdp, nd_php := (php + of_nat i) AND nc_mhp c, nd_next_sdp_age := age\<rparr>;
              shift = (if age = NDP_CTRL_NEXT_SDP_AGE_MAX then sdp_shift
                       else (sdp_shift div NDP_CTRL_RX_DESC_BURST) * NDP_CTRL_RX_DESC_BURST)
          in if age = NDP_CTRL_NEXT_SDP_AGE_MAX \<or> shift \<noteq> 0
             then ctrl2\<lparr>nd_c := nc_ndp_ctrl_sp_flush ((nd_c ctrl2)\<lparr>nc_sdp := (sdp + shift) AND mdp\<rparr>)\<rparr>
             else ctrl2)"

text \<open>The count of freed descriptors, and the loop that refills them in bursts (\<open>n\<close> bursts).\<close>

definition freed_descs :: "(nat \<Rightarrow> nc_ndp_hdr) \<Rightarrow> nat \<Rightarrow> nat \<Rightarrow> u32" where
  "freed_descs hdrs at n =
     of_nat (length (filter (\<lambda>i. hdr_free_desc (hdrs (at + i)) = 1) [0 ..< n])) +
     of_nat (length (filter (\<lambda>i. hdr_free_desc (hdrs (at + i)) = 2) [0 ..< n])) * 2"

function refill_bursts :: "ndp_block list \<Rightarrow> ndp_ctrl \<Rightarrow> bool \<Rightarrow> ndp_ctrl \<times> bool" where
  "refill_bursts blocks ctrl filled =
     (if nd_free_desc ctrl \<ge> NDP_CTRL_RX_DESC_BURST then
        refill_bursts blocks
          ((ndp_ctrl_mps_fill_rx_descs blocks (ucast NDP_CTRL_RX_DESC_BURST) ctrl)
             \<lparr>nd_free_desc := nd_free_desc ctrl - NDP_CTRL_RX_DESC_BURST\<rparr>) True
      else (ctrl, filled))"
  by pat_completeness auto
termination
proof (relation "measure (\<lambda>(b, ctrl, f). unat (nd_free_desc ctrl))", goal_cases)
  case (2 blocks ctrl filled)
  then have "unat (nd_free_desc ctrl - 64) = unat (nd_free_desc ctrl) - 64" "64 \<le> unat (nd_free_desc ctrl)"
    by (simp_all add: unat_sub word_le_nat_alt)
  then show ?case by simp
qed simp

declare refill_bursts.simps [simp del]

definition ndp_ctrl_medusa_rx_set_swptr :: "ndp_ctrl ndp_channel \<Rightarrow> u64 \<Rightarrow> ndp_ctrl ndp_channel" where
  "ndp_ctrl_medusa_rx_set_swptr ch ptr =
     (let ctrl = ch_ctrl ch; c = nd_c ctrl; shp = nc_shp c in
      if nd_mode ctrl = NDP_CTRL_MODE_PACKET_SIMPLE then
        let cnt = (ucast ptr - shp) AND nc_mhp c;
            ctrl1 = ctrl\<lparr>nd_free_desc := nd_free_desc ctrl + freed_descs (nd_hdrs ctrl) (unat shp) (unat cnt),
                         nd_c := c\<lparr>nc_shp := ucast ptr\<rparr>\<rparr>
        in case refill_bursts (ring_blocks (ch_ring ch)) ctrl1 False of (ctrl2, filled) \<Rightarrow>
          ch\<lparr>ch_ctrl := if filled then ctrl2\<lparr>nd_c := nc_ndp_ctrl_sp_flush (nd_c ctrl2)\<rparr> else ctrl2\<rparr>
      else if nd_mode ctrl = NDP_CTRL_MODE_USER then
        ch\<lparr>ch_ctrl := ndp_ctrl_user_fill_rx_descs
             (ctrl\<lparr>nd_c := nc_ndp_ctrl_hdp_update (c\<lparr>nc_shp := ucast ptr\<rparr>)\<rparr>)\<rparr>
      else ch)"

text \<open>The sum of the lengths in blocks of 128 bytes; the sum is an \<open>int\<close>, the division unsigned.\<close>

definition calypte_rx_blocks :: "(nat \<Rightarrow> nc_calypte_hdr) \<Rightarrow> nat \<Rightarrow> nat \<Rightarrow> u32" where
  "calypte_rx_blocks hdrs at n =
     sum_list (map (\<lambda>i. (ucast (chdr_frame_len (hdrs (at + i))) + NDP_RX_CALYPTE_BLOCK_SIZE - 1) div
                        NDP_RX_CALYPTE_BLOCK_SIZE) [0 ..< n])"

definition ndp_ctrl_calypte_rx_set_swptr :: "ndp_ctrl ndp_channel \<Rightarrow> u64 \<Rightarrow> ndp_ctrl ndp_channel" where
  "ndp_ctrl_calypte_rx_set_swptr ch ptr =
     (let ctrl = ch_ctrl ch; c = nd_c ctrl;
          cnt = (ucast ptr - nc_shp c) AND nc_mhp c;
          new_sdp = calypte_rx_blocks (nd_chdrs ctrl) (unat (nc_shp c)) (unat cnt);
          c1 = c\<lparr>nc_shp := ucast ptr, nc_sdp := (nc_sdp c + new_sdp) AND nc_mdp c\<rparr>
      in ch\<lparr>ch_ctrl := ctrl\<lparr>nd_c := if cnt \<noteq> 0 then nc_ndp_ctrl_sp_flush c1 else c1\<rparr>\<rparr>)"

text \<open>
  The loop of \<open>ndp_ctrl_rx_get_hwptr\<close> over the headers of a Calypte channel: the bound of the C loop
  is the number of bytes of the header mapping; \<open>n\<close> turns are left.
\<close>

primrec calypte_scan :: "nat \<Rightarrow> u64 \<Rightarrow> u64 \<Rightarrow> (nat \<Rightarrow> nc_calypte_hdr) \<Rightarrow> u32 \<Rightarrow> u8 \<Rightarrow> u32 \<times> u8" where
  "calypte_scan 0 limit ptrmask hdrs hwptr flag = (hwptr, flag)"
| "calypte_scan (Suc n) limit ptrmask hdrs hwptr flag =
     (if (ucast (chdr_valid (hdrs (unat hwptr))) :: u8) AND 1 = flag XOR 1 then (hwptr, flag)
      else
        let hwptr1 = hwptr + 1;
            flag1 = (if ucast hwptr1 AND ptrmask = 0 then flag XOR 1 else flag)
        in if (ucast hwptr1 :: u64) < limit then calypte_scan n limit ptrmask hdrs hwptr1 flag1 else (hwptr1, flag1))"

text \<open>The offsets of the stream mode: \<open>off[i+1]\<close> from \<open>off[i]\<close>, and the mask on the last one.\<close>

primrec stream_offsets :: "nat \<Rightarrow> nat \<Rightarrow> ndp_ctrl \<Rightarrow> ndp_ctrl" where
  "stream_offsets 0 at ctrl = ctrl"
| "stream_offsets (Suc n) at ctrl =
     stream_offsets n (Suc at) (ctrl\<lparr>nd_offs := shadow_put (nd_offs ctrl) (Suc at)
       (shadow_get (nd_offs ctrl) at + ucast (hdr_frame_len (nd_hdrs ctrl at)))\<rparr>)"

definition ndp_ctrl_rx_get_hwptr :: "ndp_ctrl ndp_channel \<Rightarrow> u64 \<times> ndp_ctrl ndp_channel" where
  "ndp_ctrl_rx_get_hwptr ch =
     (let ctrl = ch_ctrl ch; c = nd_c ctrl; hhp = nc_hhp c in
      if nc_type c = DMA_TYPE_CALYPTE then
        let limit = nd_hdr_buffer_size ctrl * 2 in
        case calypte_scan (unat limit + 1) limit (ch_ptrmask ch) (nd_chdrs ctrl) hhp (nd_valid_flag ctrl) of (hwptr, flag) \<Rightarrow>
        let hhp1 = (ucast (ucast hwptr AND ch_ptrmask ch) :: u32) in
        (ucast hhp1, ch\<lparr>ch_ctrl := ctrl\<lparr>nd_c := c\<lparr>nc_hhp := hhp1\<rparr>, nd_valid_flag := flag\<rparr>\<rparr>)
      else
        let c1 = nc_ndp_ctrl_hhp_update c;
            ctrl1 = ctrl\<lparr>nd_c := c1\<rparr>;
            cnt = (nc_hhp c1 - hhp) AND nc_mhp c1;
            ctrl2 = (if nd_mode ctrl = NDP_CTRL_MODE_STREAM then
                       let t = stream_offsets (unat cnt) (unat hhp) ctrl1; at = unat hhp + unat cnt in
                       t\<lparr>nd_offs := shadow_put (nd_offs t) at (shadow_get (nd_offs t) at AND (ring_size (ch_ring ch) - 1))\<rparr>
                     else if nd_mode ctrl = NDP_CTRL_MODE_USER \<and> cnt \<noteq> 0 \<and> nd_php ctrl \<noteq> nc_shp c1 then
                       ndp_ctrl_user_fill_rx_descs (ctrl1\<lparr>nd_c := nc_ndp_ctrl_hdp_update c1\<rparr>)
                     else ctrl1)
        in (ucast (nc_hhp c1), ch\<lparr>ch_ctrl := ctrl2\<rparr>))"

section \<open>Transmit\<close>

definition ndp_ctrl_medusa_tx_get_hwptr :: "ndp_ctrl ndp_channel \<Rightarrow> u64 \<times> ndp_ctrl ndp_channel" where
  "ndp_ctrl_medusa_tx_get_hwptr ch =
     (let ctrl = ch_ctrl ch; hdp = nc_hdp (nd_c ctrl);
          c1 = nc_ndp_ctrl_hdp_update (nd_c ctrl);
          cnt = (nc_hdp c1 - hdp) AND nc_mdp c1;
          free_hdrs = length (filter (\<lambda>i. desc_type (shadow_get (nd_descs ctrl) (unat hdp + i)) = 2) [0 ..< unat cnt]);
          hhp = (nc_hhp c1 + of_nat free_hdrs) AND nc_mhp c1
      in (ucast hhp, ch\<lparr>ch_ctrl := ctrl\<lparr>nd_c := c1\<lparr>nc_hhp := hhp\<rparr>, nd_free_desc := nd_free_desc ctrl + cnt\<rparr>\<rparr>))"

text \<open>True: a kill signal ended the wait.\<close>

function ndp_ctrl_medusa_tx_wait_for_free_desc ::
  "ndp_ctrl ndp_channel \<Rightarrow> u32 \<Rightarrow> bool \<times> ndp_ctrl ndp_channel" where
  "ndp_ctrl_medusa_tx_wait_for_free_desc ch n =
     (if nd_free_desc (ch_ctrl ch) < n then
        case nd_patience (ch_ctrl ch) of
          0 \<Rightarrow> (True, snd (ndp_ctrl_medusa_tx_get_hwptr ch))
        | Suc p \<Rightarrow> ndp_ctrl_medusa_tx_wait_for_free_desc
            (let ch1 = snd (ndp_ctrl_medusa_tx_get_hwptr ch) in ch1\<lparr>ch_ctrl := (ch_ctrl ch1)\<lparr>nd_patience := p\<rparr>\<rparr>) n
      else (False, ch))"
  by pat_completeness auto
termination
  by (relation "measure (\<lambda>(ch, n). nd_patience (ch_ctrl ch))") (simp_all add: Let_def)

declare ndp_ctrl_medusa_tx_wait_for_free_desc.simps [simp del]

text \<open>The loop of \<open>ndp_ctrl_medusa_tx_set_swptr\<close>: packet \<open>i\<close>, with the local variable \<open>sdp\<close>; \<open>n\<close> packets are left.\<close>

primrec tx_fill_loop :: "nat \<Rightarrow> nat \<Rightarrow> u32 \<Rightarrow> u32 \<Rightarrow> ndp_ctrl ndp_channel \<Rightarrow> u32 \<times> ndp_ctrl ndp_channel" where
  "tx_fill_loop 0 i shp sdp ch = (sdp, ch)"
| "tx_fill_loop (Suc n) i shp sdp ch =
     (let ctrl = ch_ctrl ch;
          addr = (if nd_mode ctrl = NDP_CTRL_MODE_USER then shadow_get (nd_offs ctrl) (unat shp + i)
                  else blk_phys (ring_blocks (ch_ring ch) ! unat (mps_block_index (nd_mps ctrl))) +
                       ucast (mps_block_offset (nd_mps ctrl)));
          hdr = nd_hdrs ctrl (unat shp + i)
      in case ndp_ctrl_medusa_tx_wait_for_free_desc ch 2 of (killed, ch1) \<Rightarrow>
        if killed then (sdp, ch1)
        else
          let ctrl1 = ch_ctrl ch1;
              fresh = (NDP_CTRL_DESC_UPPER_ADDR addr \<noteq> nc_last_upper_addr (nd_c ctrl1));
              ctrl2 = (if fresh then
                ctrl1\<lparr>nd_c := (nd_c ctrl1)\<lparr>nc_last_upper_addr := NDP_CTRL_DESC_UPPER_ADDR addr\<rparr>,
                      nd_descs := shadow_put (nd_descs ctrl1) (unat sdp) (nc_ndp_tx_desc0 addr),
                      nd_free_desc := nd_free_desc ctrl1 - 1\<rparr> else ctrl1);
              sdp1 = (if fresh then sdp + 1 else sdp);
              ctrl3 = ctrl2\<lparr>nd_descs := shadow_put (nd_descs ctrl2) (unat sdp1)
                              (nc_ndp_tx_desc2 addr (hdr_frame_len hdr) (ucast (hdr_meta hdr)) False),
                            nd_free_desc := nd_free_desc ctrl2 - 1,
                            nd_mps := snd (ndp_ctrl_medusa_mps_inc (nd_mps ctrl2))\<rparr>
          in tx_fill_loop n (Suc i) shp (sdp1 + 1) (ch1\<lparr>ch_ctrl := ctrl3\<rparr>))"

definition ndp_ctrl_medusa_tx_set_swptr :: "ndp_ctrl ndp_channel \<Rightarrow> u64 \<Rightarrow> ndp_ctrl ndp_channel" where
  "ndp_ctrl_medusa_tx_set_swptr ch ptr =
     (let c = nd_c (ch_ctrl ch); shp = nc_shp c;
          cnt = (ucast ptr - shp) AND nc_mhp c
      in case tx_fill_loop (unat cnt) 0 shp (nc_sdp c) ch of (sdp, ch1) \<Rightarrow>
        let ctrl1 = ch_ctrl ch1; c1 = (nd_c ctrl1)\<lparr>nc_sdp := sdp AND nc_mdp (nd_c ctrl1), nc_shp := ucast ptr\<rparr>
        in ch1\<lparr>ch_ctrl := ctrl1\<lparr>nd_c := nc_ndp_ctrl_sdp_flush c1\<rparr>\<rparr>)"

definition ndp_ctrl_calypte_tx_get_free_space :: "ndp_ctrl ndp_channel \<Rightarrow> u64" where
  "ndp_ctrl_calypte_tx_get_free_space ch = nd_free_bytes (ch_ctrl ch)"

text \<open>The count is an \<open>int\<close> that is added to a 64-bit number.\<close>

definition ndp_ctrl_calypte_tx_get_hwptr :: "ndp_ctrl ndp_channel \<Rightarrow> u64 \<times> ndp_ctrl ndp_channel" where
  "ndp_ctrl_calypte_tx_get_hwptr ch =
     (let ctrl = ch_ctrl ch; hdp = nc_hdp (nd_c ctrl);
          c1 = nc_ndp_ctrl_hp_update (nd_c ctrl);
          cnt = (nc_hdp c1 - hdp) AND nc_mdp c1
      in (ucast (nc_hhp c1), ch\<lparr>ch_ctrl := ctrl\<lparr>nd_c := c1, nd_free_bytes := nd_free_bytes ctrl + scast cnt\<rparr>\<rparr>))"

definition tx_block_round :: "u32 \<Rightarrow> u32" where
  "tx_block_round x = (x + (NDP_TX_CALYPTE_BLOCK_SIZE - 1)) AND NOT (NDP_TX_CALYPTE_BLOCK_SIZE - 1)"

primrec calypte_tx_loop :: "nat \<Rightarrow> nat \<Rightarrow> (nat \<Rightarrow> nc_calypte_hdr) \<Rightarrow> u32 \<Rightarrow> u32 \<Rightarrow> u64 \<Rightarrow> u32 \<times> u64" where
  "calypte_tx_loop 0 at hdrs mdp sdp free_bytes = (sdp, free_bytes)"
| "calypte_tx_loop (Suc n) at hdrs mdp sdp free_bytes =
     (let len = (ucast (chdr_frame_len (hdrs at)) :: u32) in
      calypte_tx_loop n (Suc at) hdrs mdp (tx_block_round (sdp + len) AND mdp)
        (free_bytes - ucast (tx_block_round len)))"

definition ndp_ctrl_calypte_tx_set_swptr :: "ndp_ctrl ndp_channel \<Rightarrow> u64 \<Rightarrow> ndp_ctrl ndp_channel" where
  "ndp_ctrl_calypte_tx_set_swptr ch ptr =
     (let ctrl = ch_ctrl ch; c = nd_c ctrl;
          cnt = (ucast ptr - nc_shp c) AND nc_mhp c
      in case calypte_tx_loop (unat cnt) (unat (nc_shp c)) (nd_chdrs ctrl) (nc_mdp c) (nc_sdp c) (nd_free_bytes ctrl) of
        (sdp, free_bytes) \<Rightarrow>
          ch\<lparr>ch_ctrl := ctrl\<lparr>nd_free_bytes := free_bytes,
                             nd_c := nc_ndp_ctrl_sp_flush (c\<lparr>nc_sdp := sdp, nc_shp := ucast ptr\<rparr>)\<rparr>\<rparr>)"

section \<open>Flags, start and stop\<close>

definition ndp_ctrl_get_flags :: "ndp_ctrl ndp_channel \<Rightarrow> u64 \<times> ndp_ctrl ndp_channel" where
  "ndp_ctrl_get_flags ch =
     ((if nc_type (nd_c (ch_ctrl ch)) = DMA_TYPE_MEDUSA
       then NDP_CHANNEL_FLAG_USE_HEADER OR NDP_CHANNEL_FLAG_USE_OFFSET else 0) OR ucast (nd_flags (ch_ctrl ch)), ch)"

definition ndp_ctrl_set_flags :: "ndp_ctrl ndp_channel \<Rightarrow> u64 \<Rightarrow> u64 \<times> ndp_ctrl ndp_channel" where
  "ndp_ctrl_set_flags ch flags =
     (let ctrl = ch_ctrl ch; ret = fst (ndp_ctrl_get_flags ch) in
      if nc_type (nd_c ctrl) = DMA_TYPE_CALYPTE then
        if flags AND NDP_CHANNEL_FLAG_USERSPACE \<noteq> 0 then
          (ret OR NDP_CHANNEL_FLAG_USERSPACE, ch\<lparr>ch_ctrl := ctrl\<lparr>nd_flags := nd_flags ctrl OR NDP_CHANNEL_FLAG_USERSPACE\<rparr>\<rparr>)
        else (ret, ch\<lparr>ch_ctrl := ctrl\<lparr>nd_flags := nd_flags ctrl AND NOT NDP_CHANNEL_FLAG_USERSPACE\<rparr>\<rparr>)
      else (ret, ch))"

definition ndp_ctrl_start :: "ndp_ctrl \<Rightarrow> nc_ndp_ctrl_start_params \<Rightarrow> int \<times> ndp_ctrl" where
  "ndp_ctrl_start ctrl sp =
     (case nc_ndp_ctrl_start (nd_c ctrl) sp of (ret, c1) \<Rightarrow>
      if ret = - EALREADY then
        case nc_ndp_ctrl_start (snd (nc_ndp_ctrl_stop_force c1)) sp of (ret2, c2) \<Rightarrow>
          (if ret2 = 0 then 0 else - 1, ctrl\<lparr>nd_c := c2\<rparr>)
      else (ret, ctrl\<lparr>nd_c := c1\<rparr>))"

text \<open>
  The \<open>do while\<close> loop that writes the constant packet offsets; the value is computed in 32 bits.  It
  ends with the wrap of the walk, after as many turns as there are buffers.
\<close>

primrec off_fill :: "nat \<Rightarrow> nat \<Rightarrow> ndp_ctrl_state_mps \<Rightarrow> u64 list \<Rightarrow> ndp_ctrl_state_mps \<times> u64 list" where
  "off_fill 0 i s offs = (s, offs)"
| "off_fill (Suc n) i s offs =
     (let offs1 = shadow_put offs i (ucast (mps_block_index s * cfg_block_size (mps_cfg s) + mps_block_offset s)) in
      case ndp_ctrl_medusa_mps_inc s of (r, s1) \<Rightarrow>
        if r = - 1 then (s1, offs1) else off_fill n (Suc i) s1 offs1)"

definition ndp_ctrl_medusa_start :: "ndp_ctrl ndp_channel \<Rightarrow> int \<times> u64 option \<times> ndp_ctrl ndp_channel" where
  "ndp_ctrl_medusa_start ch =
     (let ctrl = ch_ctrl ch;
          sp = \<lparr>sp_desc_buffer = case_option 0 id (nd_desc_buffer ctrl), sp_data_buffer = 0,
                sp_hdr_buffer = case_option 0 id (nd_hdr_buffer ctrl),
                sp_update_buffer = case_option 0 id (nd_update_buffer ctrl), sp_nb_data = 0,
                sp_nb_desc = nd_desc_count ctrl, sp_nb_hdr = nd_hdr_count ctrl, sp_timeout = nd_timeout ctrl\<rparr>
      in case ndp_ctrl_start ctrl sp of (ret, ctrl1) \<Rightarrow>
      if ret \<noteq> 0 then (ret, None, ch\<lparr>ch_ctrl := ctrl1\<rparr>)
      else
        case off_fill (unat (cfg_buffer_count (mps_cfg (nd_mps ctrl1)))) 0
               (ndp_ctrl_medusa_mps_meta_first (nd_mps ctrl1)) (nd_offs ctrl1) of (s, offs) \<Rightarrow>
        let ctrl2 = ctrl1\<lparr>nd_next_sdp := 0, nd_mode := NDP_CTRL_MODE_PACKET_SIMPLE, nd_mps := s, nd_offs := offs\<rparr>;
            ctrl3 = (if cid_type (ch_id ch) = NDP_CHANNEL_TYPE_RX then
                       let t = ndp_ctrl_mps_fill_rx_descs (ring_blocks (ch_ring ch))
                                 (ucast (nc_mdp (nd_c ctrl2) + 1 - NDP_CTRL_RX_DESC_BURST)) ctrl2
                       in t\<lparr>nd_c := nc_ndp_ctrl_sdp_flush (nd_c t), nd_free_desc := 0\<rparr>
                     else if cid_type (ch_id ch) = NDP_CHANNEL_TYPE_TX
                     then ctrl2\<lparr>nd_free_desc := nc_mdp (nd_c ctrl2)\<rparr> else ctrl2)
        in (0, Some 0, ch\<lparr>ch_ctrl := ctrl3\<rparr>))"

text \<open>
  The \<open>timeout\<close> of the parameters is not set by the function: \<open>garbage\<close> is what the stack holds.
  Clearing the valid bits goes through the double mapping.
\<close>

definition ndp_ctrl_calypte_start :: "u32 \<Rightarrow> ndp_ctrl ndp_channel \<Rightarrow> int \<times> u64 option \<times> ndp_ctrl ndp_channel" where
  "ndp_ctrl_calypte_start garbage ch =
     (let ctrl = ch_ctrl ch;
          sp = \<lparr>sp_desc_buffer = 0, sp_data_buffer = blk_phys (ring_blocks (ch_ring ch) ! 0),
                sp_hdr_buffer = case_option 0 id (nd_hdr_buffer ctrl),
                sp_update_buffer = case_option 0 id (nd_update_buffer ctrl), sp_nb_data = nd_hdr_count ctrl,
                sp_nb_desc = 0, sp_nb_hdr = nd_hdr_count ctrl, sp_timeout = garbage\<rparr>;
          hdrs = (\<lambda>i. if i mod unat (nd_hdr_buffer_size ctrl div 8) < unat (nd_hdr_count ctrl) then (nd_chdrs ctrl i)\<lparr>chdr_valid := 0\<rparr> else nd_chdrs ctrl i)
      in case ndp_ctrl_start (ctrl\<lparr>nd_chdrs := hdrs\<rparr>) sp of (ret, ctrl1) \<Rightarrow>
      if ret \<noteq> 0 then (ret, None, ch\<lparr>ch_ctrl := ctrl1\<rparr>)
      else (0, Some 0, ch\<lparr>ch_ctrl := ctrl1\<lparr>nd_free_bytes := ucast (nc_mdp (nd_c ctrl1)), nd_valid_flag := 1\<rparr>\<rparr>))"

text \<open>How often a stop can still find that the hardware made progress.\<close>

definition progress_left :: "nc_ndp_ctrl \<Rightarrow> nat" where
  "progress_left c = 2 * length (nc_updates c) + (if nc_hdp c \<noteq> fst (nc_upd c) then 1 else 0)"

lemma hdp_update_progress:
  "progress_left (nc_ndp_ctrl_hdp_update c) \<le> progress_left c"
  "nc_hdp (nc_ndp_ctrl_hdp_update c) \<noteq> nc_hdp c \<Longrightarrow> progress_left (nc_ndp_ctrl_hdp_update c) < progress_left c"
  by (auto simp: progress_left_def nc_ndp_ctrl_hdp_update_def nc_upd_read_def Let_def split: list.splits)

lemma stop_wait_value: "fst (stop_wait n ret c) \<in> {0, ret}"
  by (induction n arbitrary: c) (auto split: prod.splits)

lemma nc_stop_progress:
  assumes "nc_ndp_ctrl_stop c = (ret, c')"
  shows "ret \<in> {0, - EAGAIN, - EINPROGRESS}" "progress_left c' \<le> progress_left c"
    "ret = - EINPROGRESS \<Longrightarrow> progress_left c' < progress_left c"
proof -
  let ?c0 = "c\<lparr>nc_comp := nfb_comp_write32 (nc_comp c) NDP_CTRL_REG_CONTROL NDP_CTRL_REG_CONTROL_STOP\<rparr>"
  have p: "progress_left (x\<lparr>nc_comp := y\<rparr>) = progress_left x" "nc_hdp ?c0 = nc_hdp c" for x y
    by (simp_all add: progress_left_def)
  note def = assms [unfolded nc_ndp_ctrl_stop_def nc_ndp_ctrl_stop_gen_def Let_def]
  have sw: "stop_wait 101 r d = (r', d') \<Longrightarrow> r' = 0 \<or> r' = r" for r d r' d'
    using stop_wait_value [of 101 r d] by simp
  show "ret \<in> {0, - EAGAIN, - EINPROGRESS}" using def by (auto split: if_splits prod.splits dest!: sw)
  show "progress_left c' \<le> progress_left c"
    using def hdp_update_progress(1) [of ?c0] by (auto simp: p split: if_splits prod.splits)
  show "progress_left c' < progress_left c" if "ret = - EINPROGRESS"
    using def that hdp_update_progress(2) [of ?c0] by (auto simp: p split: if_splits prod.splits dest!: sw)
qed

function ndp_ctrl_stop_loop :: "bool \<Rightarrow> nat \<Rightarrow> int \<Rightarrow> ndp_ctrl \<Rightarrow> int \<times> ndp_ctrl" where
  "ndp_ctrl_stop_loop force cnt ret ctrl =
     (if cnt < 10 \<or> (nd_patience ctrl \<noteq> 0 \<and> \<not> force) then
        case nc_ndp_ctrl_stop (nd_c ctrl) of (ret1, c1) \<Rightarrow>
          let ctrl1 = ctrl\<lparr>nd_c := c1\<rparr> in
          if ret1 = 0 then (0, ctrl1)
          else if ret1 = - EINPROGRESS then ndp_ctrl_stop_loop force 1 ret1 ctrl1
          else if ret1 = - EAGAIN \<and> \<not> force then (- EAGAIN, ctrl1)
          else ndp_ctrl_stop_loop force (Suc cnt) ret1 ctrl1
      else (ret, ctrl))"
  by pat_completeness auto
termination
proof (relation "measures [\<lambda>(f, n, r, ctrl). progress_left (nd_c ctrl), \<lambda>(f, n, r, ctrl). 10 - n]", goal_cases)
  case (2 force cnt ret ctrl ret1 c1 ctrl1)
  then have "nc_ndp_ctrl_stop (nd_c ctrl) = (ret1, c1)" by simp
  from nc_stop_progress(3) [OF this] 2 show ?case by auto
next
  case (3 force cnt ret ctrl ret1 c1 ctrl1)
  then have "nc_ndp_ctrl_stop (nd_c ctrl) = (ret1, c1)" by simp
  from nc_stop_progress [OF this] 3 show ?case by auto
qed simp

declare ndp_ctrl_stop_loop.simps [simp del]

text \<open>A return of the loop with \<open>EAGAIN\<close> without \<open>force\<close> is a return of the function.\<close>

definition ndp_ctrl_stop :: "ndp_ctrl ndp_channel \<Rightarrow> bool \<Rightarrow> int \<times> ndp_ctrl ndp_channel" where
  "ndp_ctrl_stop ch force =
     (let ctrl = ch_ctrl ch;
          ctrl0 = (if nc_type (nd_c ctrl) = DMA_TYPE_CALYPTE then
                     let c = nc_ndp_ctrl_hp_update (nd_c ctrl)
                     in ctrl\<lparr>nd_c := nc_ndp_ctrl_sp_flush (c\<lparr>nc_sdp := nc_hdp c, nc_shp := nc_hhp c\<rparr>)\<rparr>
                   else ctrl)
      in case ndp_ctrl_stop_loop force 0 0 ctrl0 of (ret, ctrl1) \<Rightarrow>
        if ret = - EAGAIN \<and> \<not> force then (- EAGAIN, ch\<lparr>ch_ctrl := ctrl1\<rparr>)
        else
          let ctrl2 = (if ret \<noteq> 0 then ctrl1\<lparr>nd_c := snd (nc_ndp_ctrl_stop_force (nd_c ctrl1))\<rparr> else ctrl1)
          in (0, ch\<lparr>ch_ctrl := ctrl2\<lparr>nd_flags := nd_flags ctrl2 AND NOT NDP_CHANNEL_FLAG_USERSPACE\<rparr>\<rparr>))"

section \<open>Mappings\<close>

text \<open>
  The mappings of the buffers into an application: the remapped ranges as offset in the mapping,
  physical address and length.  \<open>remap1\<close> and \<open>remap2\<close> are the results of the calls of
  \<open>remap_pfn_range\<close>.
\<close>

definition double_remap :: "int \<Rightarrow> int \<Rightarrow> u64 \<Rightarrow> u64 option \<Rightarrow> int \<times> (u64 \<times> u64 \<times> u64) list" where
  "double_remap remap1 remap2 sz buffer =
     (let phys = case_option 0 id buffer; half = sz div 2 in
      if remap1 \<noteq> 0 then (remap1, [])
      else (remap2, (0, phys, half) # (if remap2 = 0 then [(half, phys, half)] else [])))"

definition ndp_ctrl_hdr_mmap ::
  "bool \<Rightarrow> bool \<Rightarrow> int \<Rightarrow> int \<Rightarrow> u64 \<Rightarrow> u64 \<Rightarrow> ndp_ctrl ndp_channel \<Rightarrow> int \<times> (u64 \<times> u64 \<times> u64) list" where
  "ndp_ctrl_hdr_mmap vm_read vm_write remap1 remap2 offset sz ch =
     (let ctrl = ch_ctrl ch in
      if cid_type (ch_id ch) = NDP_CHANNEL_TYPE_RX \<and> \<not> (vm_read \<and> \<not> vm_write) \<and> \<not> nd_hdr_buff_en_rw_map ctrl
      then (- EINVAL, [])
      else if offset \<noteq> nd_hdr_mmap_offset ctrl \<or> sz \<noteq> nd_hdr_buffer_size ctrl * 2 then (- EINVAL, [])
      else double_remap remap1 remap2 sz (nd_hdr_buffer ctrl))"

definition ndp_ctrl_off_mmap ::
  "bool \<Rightarrow> bool \<Rightarrow> int \<Rightarrow> int \<Rightarrow> u64 \<Rightarrow> u64 \<Rightarrow> ndp_ctrl ndp_channel \<Rightarrow> int \<times> (u64 \<times> u64 \<times> u64) list" where
  "ndp_ctrl_off_mmap vm_read vm_write remap1 remap2 offset sz ch =
     (let ctrl = ch_ctrl ch in
      if cid_type (ch_id ch) = NDP_CHANNEL_TYPE_RX \<and> \<not> (vm_read \<and> \<not> vm_write) then (- EINVAL, [])
      else if offset \<noteq> nd_off_mmap_offset ctrl \<or> sz \<noteq> nd_off_buffer_size ctrl * 2 then (- EINVAL, [])
      else double_remap remap1 remap2 sz (nd_off_buffer ctrl))"

definition ndp_ctrl_upd_mmap ::
  "bool \<Rightarrow> bool \<Rightarrow> int \<Rightarrow> u64 \<Rightarrow> u64 \<Rightarrow> ndp_ctrl ndp_channel \<Rightarrow> int \<times> (u64 \<times> u64 \<times> u64) list" where
  "ndp_ctrl_upd_mmap vm_read vm_write remap offset sz ch =
     (let ctrl = ch_ctrl ch in
      if \<not> (vm_read \<and> \<not> vm_write) then (- EINVAL, [])
      else if offset \<noteq> nd_upd_mmap_offset ctrl \<or> sz \<noteq> nd_update_buffer_size ctrl then (- EINVAL, [])
      else (remap, if remap = 0 then [(0, case_option 0 id (nd_update_buffer ctrl), sz)] else []))"

text \<open>The pages of a buffer mapped twice in a row; the size goes through an \<open>int\<close>.\<close>

definition ndp_ctrl_vmap_shadow :: "u64 \<Rightarrow> u64 \<Rightarrow> world \<Rightarrow> u64 option \<times> world" where
  "ndp_ctrl_vmap_shadow sz virt w =
     (let page_count = unat (scast (ucast sz :: u32) div PAGE_SIZE);
          pages = map (\<lambda>i. virt + of_nat i * PAGE_SIZE) [0 ..< page_count]
      in case kmalloc_ok w of (ok, w1) \<Rightarrow> if ok then vmap (pages @ pages) w1 else (None, w1))"

section \<open>Attach and detach\<close>

text \<open>The chain of error labels of \<open>ndp_ctrl_medusa_attach_ring\<close>, last to first; each falls through to the next.\<close>

definition med_err_alloc_desc :: "ndp_ctrl \<times> world \<Rightarrow> ndp_ctrl \<times> world" where
  "med_err_alloc_desc = (\<lambda>(ctrl, w). (ctrl\<lparr>nd_update_buffer := None\<rparr>,
     dma_free_coherent (ALIGN NDP_CTRL_UPDATE_SIZE PAGE_SIZE) (nd_update_buffer ctrl) w))"

definition med_err_vmap_desc :: "ndp_ctrl \<times> world \<Rightarrow> ndp_ctrl \<times> world" where
  "med_err_vmap_desc = (\<lambda>(ctrl, w). med_err_alloc_desc (ctrl\<lparr>nd_desc_buffer := None\<rparr>,
     dma_free_coherent (nd_desc_buffer_size ctrl) (nd_desc_buffer ctrl) w))"

definition med_err_alloc_off :: "ndp_ctrl \<times> world \<Rightarrow> ndp_ctrl \<times> world" where
  "med_err_alloc_off = (\<lambda>(ctrl, w). med_err_vmap_desc (ctrl, vunmap (nd_desc_buffer_v ctrl) w))"

definition med_err_vmap_off_buffer :: "ndp_ctrl \<times> world \<Rightarrow> ndp_ctrl \<times> world" where
  "med_err_vmap_off_buffer = (\<lambda>(ctrl, w). med_err_alloc_off (ctrl\<lparr>nd_off_buffer := None\<rparr>,
     dma_free_coherent (nd_off_buffer_size ctrl) (nd_off_buffer ctrl) w))"

definition med_err_register_mmap_off :: "ndp_ctrl \<times> world \<Rightarrow> ndp_ctrl \<times> world" where
  "med_err_register_mmap_off = (\<lambda>(ctrl, w). med_err_vmap_off_buffer (ctrl, vunmap (nd_off_buffer_v ctrl) w))"

definition med_err_alloc_hdr :: "ndp_ctrl \<times> world \<Rightarrow> ndp_ctrl \<times> world" where
  "med_err_alloc_hdr = (\<lambda>(ctrl, w). med_err_register_mmap_off (ctrl, kw_unregister_mmap (nd_off_mmap_offset ctrl) w))"

definition med_err_vmap_hdr_buffer :: "ndp_ctrl \<times> world \<Rightarrow> ndp_ctrl \<times> world" where
  "med_err_vmap_hdr_buffer = (\<lambda>(ctrl, w). med_err_alloc_hdr (ctrl\<lparr>nd_hdr_buffer := None\<rparr>,
     dma_free_coherent (nd_hdr_buffer_size ctrl) (nd_hdr_buffer ctrl) w))"

definition med_err_register_mmap_hdr :: "ndp_ctrl \<times> world \<Rightarrow> ndp_ctrl \<times> world" where
  "med_err_register_mmap_hdr = (\<lambda>(ctrl, w). med_err_vmap_hdr_buffer (ctrl, vunmap (nd_hdr_buffer_v ctrl) w))"

text \<open>
  The three parts of the attachment after the check of the parameters: descriptors, offsets, headers.
  Each gives None when the function goes on, and the returned value after the clean-up otherwise.
\<close>

definition med_attach_desc :: "ndp_ctrl \<Rightarrow> world \<Rightarrow> int option \<times> ndp_ctrl \<times> world" where
  "med_attach_desc ctrl w =
     (case dma_alloc_coherent (ALIGN NDP_CTRL_UPDATE_SIZE PAGE_SIZE) w of (upd, w1) \<Rightarrow>
      let ctrl1 = ctrl\<lparr>nd_update_buffer := upd\<rparr> in
      if upd = None then (Some (- ENOMEM), ctrl1, w1)
      else
        let dsize = ALIGN (scast (nd_desc_count ctrl) * 8) PAGE_SIZE in
        case dma_alloc_coherent dsize w1 of (d, w2) \<Rightarrow>
        let ctrl2 = ctrl1\<lparr>nd_desc_buffer_size := dsize, nd_desc_buffer := d\<rparr> in
        case d of
          None \<Rightarrow> (Some (- ENOMEM), med_err_alloc_desc (ctrl2, w2))
        | Some dv \<Rightarrow>
          case ndp_ctrl_vmap_shadow dsize dv w2 of (v, w3) \<Rightarrow>
          let ctrl3 = ctrl2\<lparr>nd_desc_buffer_v := v, nd_descs := replicate (unat (dsize div 8)) 0\<rparr> in
          if v = None then (Some (- ENOMEM), med_err_vmap_desc (ctrl3, w3)) else (None, ctrl3, w3))"

definition med_attach_off :: "ndp_channel_id \<Rightarrow> ndp_ctrl \<Rightarrow> world \<Rightarrow> int option \<times> ndp_ctrl \<times> world" where
  "med_attach_off cid ctrl w =
     (let osize = ALIGN (scast (nd_hdr_count ctrl) * 8) PAGE_SIZE in
      case dma_alloc_coherent osize w of (d, w1) \<Rightarrow>
      let ctrl1 = ctrl\<lparr>nd_off_buffer_size := osize, nd_off_buffer := d\<rparr> in
      case d of
        None \<Rightarrow> (Some (- ENOMEM), med_err_alloc_off (ctrl1, w1))
      | Some dv \<Rightarrow>
        case ndp_ctrl_vmap_shadow osize dv w1 of (v, w2) \<Rightarrow>
        let ctrl2 = ctrl1\<lparr>nd_off_buffer_v := v, nd_offs := replicate (unat (osize div 8)) 0\<rparr> in
        if v = None then (Some (- ENOMEM), med_err_vmap_off_buffer (ctrl2, w2))
        else case kw_register_mmap (osize * 2) (ndp_ctrl_off_mmap_of cid) (nd_off_mmap_offset ctrl2) w2 of (ret, off, w3) \<Rightarrow>
          let ctrl3 = ctrl2\<lparr>nd_off_mmap_offset := off\<rparr> in
          if ret \<noteq> 0 then (Some ret, med_err_register_mmap_off (ctrl3, w3)) else (None, ctrl3, w3))"

text \<open>
  A failed allocation of the header buffer jumps to the clean-up while \<open>ret\<close> still holds the 0 of the
  registration before it.
\<close>

definition med_attach_hdr :: "ndp_channel_id \<Rightarrow> ndp_ctrl \<Rightarrow> world \<Rightarrow> int option \<times> ndp_ctrl \<times> world" where
  "med_attach_hdr cid ctrl w =
     (let hsize = ALIGN (scast (nd_hdr_count ctrl) * 4) PAGE_SIZE in
      case dma_alloc_coherent hsize w of (d, w1) \<Rightarrow>
      let ctrl1 = ctrl\<lparr>nd_hdr_buffer_size := hsize, nd_hdr_buffer := d\<rparr> in
      case d of
        None \<Rightarrow> (Some 0, med_err_alloc_hdr (ctrl1, w1))
      | Some dv \<Rightarrow>
        case ndp_ctrl_vmap_shadow hsize dv w1 of (v, w2) \<Rightarrow>
        let ctrl2 = ctrl1\<lparr>nd_hdr_buffer_v := v\<rparr> in
        if v = None then (Some 0, med_err_vmap_hdr_buffer (ctrl2, w2))
        else case kw_register_mmap (hsize * 2) (ndp_ctrl_hdr_mmap_of cid) (nd_hdr_mmap_offset ctrl2) w2 of (ret, off, w3) \<Rightarrow>
          let ctrl3 = ctrl2\<lparr>nd_hdr_mmap_offset := off\<rparr> in
          if ret \<noteq> 0 then (Some ret, med_err_register_mmap_hdr (ctrl3, w3)) else (None, ctrl3, w3))"

definition ndp_ctrl_medusa_attach_ring :: "ndp_ctrl ndp_channel \<Rightarrow> world \<Rightarrow> int \<times> ndp_ctrl ndp_channel \<times> world" where
  "ndp_ctrl_medusa_attach_ring ch w =
     (if ring_size (ch_ring ch) = 0 then (- EINVAL, ch, w)
      else case ndp_ctrl_medusa_req_block_update None (ucast (cfg_buffer_size (nd_cfg (ch_ctrl ch))))
             (ucast (cfg_buffer_count (nd_cfg (ch_ctrl ch)))) (ucast (cfg_initial_offset (nd_cfg (ch_ctrl ch)))) ch w of
        None \<Rightarrow> (- EINVAL, ch, w)
      | Some (ret, ch0, w0) \<Rightarrow>
        if ret \<noteq> 0 then (- EINVAL, ch0, w0)
        else
          let c0 = ch_ctrl ch0; n = cfg_buffer_count (nd_cfg c0); cid = ch_id ch0;
              ctrl = c0\<lparr>nd_mps := (nd_mps c0)\<lparr>mps_cfg := nd_cfg c0\<rparr>, nd_desc_count := n, nd_hdr_count := n\<rparr>;
              ch1 = ch0\<lparr>ch_ptrmask := scast (n - 1)\<rparr>
          in case med_attach_desc ctrl w0 of (r1, ctrl1, w1) \<Rightarrow>
            if r1 \<noteq> None then (the r1, ch1\<lparr>ch_ctrl := ctrl1\<rparr>, w1)
            else case med_attach_off cid ctrl1 w1 of (r2, ctrl2, w2) \<Rightarrow>
            if r2 \<noteq> None then (the r2, ch1\<lparr>ch_ctrl := ctrl2\<rparr>, w2)
            else case med_attach_hdr cid ctrl2 w2 of (r3, ctrl3, w3) \<Rightarrow>
            if r3 \<noteq> None then (the r3, ch1\<lparr>ch_ctrl := ctrl3\<rparr>, w3)
            else (0, ch1\<lparr>ch_ctrl := ctrl3\<rparr>,
              (fdt_setprop cid ''buffer_size'' (ucast (cfg_buffer_size (mps_cfg (nd_mps ctrl3)))) \<circ>
               fdt_setprop cid ''off_mmap_size'' (nd_off_buffer_size ctrl3 * 2) \<circ>
               fdt_setprop cid ''off_mmap_base'' (nd_off_mmap_offset ctrl3) \<circ>
               fdt_setprop cid ''hdr_mmap_size'' (nd_hdr_buffer_size ctrl3 * 2) \<circ>
               fdt_setprop cid ''hdr_mmap_base'' (nd_hdr_mmap_offset ctrl3) \<circ>
               fdt_setprop cid ''protocol'' 2) w3))"

text \<open>The error labels of \<open>ndp_ctrl_rx_calypte_attach_ring\<close>.\<close>

definition crx_err_hdr_buff_map :: "ndp_ctrl \<times> world \<Rightarrow> ndp_ctrl \<times> world" where
  "crx_err_hdr_buff_map = (\<lambda>(ctrl, w). (ctrl\<lparr>nd_update_buffer := None\<rparr>,
     dma_free_coherent (ALIGN NDP_CTRL_UPDATE_SIZE PAGE_SIZE) (nd_update_buffer ctrl) w))"

definition crx_err_vmap_hdr_buffer :: "ndp_ctrl \<times> world \<Rightarrow> ndp_ctrl \<times> world" where
  "crx_err_vmap_hdr_buffer = (\<lambda>(ctrl, w). crx_err_hdr_buff_map (ctrl\<lparr>nd_hdr_buffer := None\<rparr>,
     dma_free_coherent (nd_hdr_buffer_size ctrl) (nd_hdr_buffer ctrl) w))"

definition crx_err_register_mmap_hdr :: "ndp_ctrl \<times> world \<Rightarrow> ndp_ctrl \<times> world" where
  "crx_err_register_mmap_hdr = (\<lambda>(ctrl, w). crx_err_vmap_hdr_buffer (ctrl, vunmap (nd_hdr_buffer_v ctrl) w))"

definition ndp_ctrl_rx_calypte_attach_ring :: "ndp_ctrl ndp_channel \<Rightarrow> world \<Rightarrow> int \<times> ndp_ctrl ndp_channel \<times> world" where
  "ndp_ctrl_rx_calypte_attach_ring ch w =
     (let ring = ch_ring ch; cid = ch_id ch; n = (ucast (ring_size ring div 128) :: u32);
          c1 = (ch_ctrl ch)\<lparr>nd_hdr_buff_en_rw_map := True, nd_hdr_count := n\<rparr>;
          ret_of = (\<lambda>r (ctrl, w'). (r, ch\<lparr>ch_ptrmask := scast (n - 1), ch_ctrl := ctrl\<rparr>, w'))
      in if ring_size ring = 0 \<or> ring_block_count ring \<noteq> 1 then (- EINVAL, ch, w)
      else if scast (n * min 128 8) < PAGE_SIZE then (- EINVAL, ch\<lparr>ch_ctrl := c1\<rparr>, w)
      else
        let usize = ALIGN NDP_CTRL_UPDATE_SIZE PAGE_SIZE in
        case dma_alloc_coherent usize w of (upd, w1) \<Rightarrow>
        let c2 = c1\<lparr>nd_update_buffer_size := usize, nd_update_buffer := upd\<rparr> in
        if upd = None then ret_of (- EINVAL) (c2, w1)
        else
          let hsize = ALIGN (scast n * 8) PAGE_SIZE in
          case dma_alloc_coherent hsize w1 of (d, w2) \<Rightarrow>
          let c3 = c2\<lparr>nd_hdr_buffer_size := hsize, nd_hdr_buffer := d\<rparr> in
          case d of
            None \<Rightarrow> ret_of (- ENOMEM) (crx_err_hdr_buff_map (c3, w2))
          | Some dv \<Rightarrow>
            case ndp_ctrl_vmap_shadow hsize dv w2 of (v, w3) \<Rightarrow>
            let c4 = c3\<lparr>nd_hdr_buffer_v := v\<rparr> in
            if v = None then ret_of (- ENOMEM) (crx_err_vmap_hdr_buffer (c4, w3))
            else case kw_register_mmap (hsize * 2) (ndp_ctrl_hdr_mmap_of cid) (nd_hdr_mmap_offset c4) w3 of (ret, off, w4) \<Rightarrow>
              let c5 = c4\<lparr>nd_hdr_mmap_offset := off\<rparr> in
              if ret \<noteq> 0 then ret_of ret (crx_err_register_mmap_hdr (c5, w4))
              else ret_of 0 (c5,
                (fdt_setprop cid ''hdr_mmap_size'' (hsize * 2) \<circ> fdt_setprop cid ''hdr_mmap_base'' off \<circ>
                 fdt_setprop cid ''protocol'' 3) w4))"

text \<open>The error labels of \<open>ndp_ctrl_tx_calypte_attach_ring\<close>, in the order the source has them.\<close>

definition ctx_err_alloc_hdr :: "ndp_ctrl \<times> world \<Rightarrow> ndp_ctrl \<times> world" where
  "ctx_err_alloc_hdr = (\<lambda>(ctrl, w). (ctrl\<lparr>nd_update_buffer := None\<rparr>,
     dma_free_coherent (nd_update_buffer_size ctrl) (nd_update_buffer ctrl) w))"

definition ctx_err_vmap_hdr_buffer :: "ndp_ctrl \<times> world \<Rightarrow> ndp_ctrl \<times> world" where
  "ctx_err_vmap_hdr_buffer = (\<lambda>(ctrl, w). ctx_err_alloc_hdr (ctrl\<lparr>nd_hdr_buffer := None\<rparr>,
     dma_free_coherent (nd_hdr_buffer_size ctrl) (nd_hdr_buffer ctrl) w))"

definition ctx_err_register_mmap_hdr :: "ndp_ctrl \<times> world \<Rightarrow> ndp_ctrl \<times> world" where
  "ctx_err_register_mmap_hdr = (\<lambda>(ctrl, w). ctx_err_vmap_hdr_buffer (ctrl, vunmap (nd_hdr_buffer_v ctrl) w))"

definition ctx_err_register_mmap_upd :: "ndp_ctrl \<times> world \<Rightarrow> ndp_ctrl \<times> world" where
  "ctx_err_register_mmap_upd = (\<lambda>(ctrl, w). ctx_err_register_mmap_hdr (ctrl, kw_unregister_mmap (nd_hdr_mmap_offset ctrl) w))"

text \<open>
  \<open>data_reg\<close> and \<open>hdr_reg\<close> are the second cells of the \<open>reg\<close> properties of the nodes of the two buffers;
  None when a node or the property is missing.
\<close>

definition ndp_ctrl_tx_calypte_attach_ring ::
  "u32 option \<Rightarrow> u32 option \<Rightarrow> ndp_ctrl ndp_channel \<Rightarrow> world \<Rightarrow> int \<times> ndp_ctrl ndp_channel \<times> world" where
  "ndp_ctrl_tx_calypte_attach_ring data_reg hdr_reg ch w =
     (let cid = ch_id ch; ret_of = (\<lambda>r (ctrl, w'). (r, ch\<lparr>ch_ctrl := ctrl\<rparr>, w')) in
      case data_reg of None \<Rightarrow> (- EBADFD, ch, w)
      | Some dsize \<Rightarrow>
      let c1 = (ch_ctrl ch)\<lparr>nd_data_buffer_size := ucast dsize\<rparr> in
      case hdr_reg of None \<Rightarrow> ret_of (- EBADFD) (c1, w)
      | Some hs \<Rightarrow>
        let usize = ALIGN NDP_CTRL_UPDATE_SIZE PAGE_SIZE in
        case dma_alloc_coherent usize w of (upd, w1) \<Rightarrow>
        let c2 = c1\<lparr>nd_update_buffer_size := usize, nd_update_buffer := upd\<rparr> in
        if upd = None then ret_of (- EINVAL) (c2, w1)
        else case kw_register_mmap usize (ndp_ctrl_upd_mmap_of cid) (nd_upd_mmap_offset c2) w1 of (ret, uoff, w2) \<Rightarrow>
          let c3 = c2\<lparr>nd_upd_mmap_offset := uoff\<rparr> in
          if ret \<noteq> 0 then ret_of ret (ctx_err_register_mmap_upd (c3, w2))
          else
            let hsize = (ucast hs :: u64) in
            case dma_alloc_coherent hsize w2 of (d, w3) \<Rightarrow>
            let c4 = c3\<lparr>nd_hdr_buffer_size := hsize, nd_hdr_buffer := d\<rparr> in
            case d of
              None \<Rightarrow> ret_of 0 (ctx_err_alloc_hdr (c4, w3))
            | Some dv \<Rightarrow>
              case ndp_ctrl_vmap_shadow hsize dv w3 of (v, w4) \<Rightarrow>
              let c5 = c4\<lparr>nd_hdr_buffer_v := v\<rparr> in
              if v = None then ret_of 0 (ctx_err_vmap_hdr_buffer (c5, w4))
              else case kw_register_mmap (hsize * 2) (ndp_ctrl_hdr_mmap_of cid) (nd_hdr_mmap_offset c5) w4 of (ret2, off, w5) \<Rightarrow>
                let c6 = c5\<lparr>nd_hdr_mmap_offset := off\<rparr> in
                if ret2 \<noteq> 0 then ret_of ret2 (ctx_err_register_mmap_hdr (c6, w5))
                else
                  let mdp = ucast ((nd_data_buffer_size c6 div 2 - 1) AND 0xFFFF);
                      mhp = ucast ((hsize div (2 * 8) - 1) AND 0xFFFF)
                  in (0, ch\<lparr>ch_ptrmask := ucast mhp, ch_ctrl := c6\<lparr>nd_c := (nd_c c6)\<lparr>nc_mdp := mdp, nc_mhp := mhp\<rparr>\<rparr>\<rparr>,
                      (fdt_setprop cid ''upd_mmap_size'' usize \<circ> fdt_setprop cid ''upd_mmap_base'' uoff \<circ>
                       fdt_setprop cid ''hdr_mmap_size'' (hsize * 2) \<circ> fdt_setprop cid ''hdr_mmap_base'' off \<circ>
                       fdt_setprop cid ''hdr_buff_size'' (ucast (ucast hsize :: u32)) \<circ>
                       fdt_setprop cid ''data_buff_size'' (ucast (ucast (nd_data_buffer_size c6) :: u32)) \<circ>
                       fdt_setprop cid ''protocol'' 3) w5))"

definition ndp_ctrl_medusa_detach_ring :: "ndp_ctrl ndp_channel \<Rightarrow> world \<Rightarrow> ndp_ctrl ndp_channel \<times> world" where
  "ndp_ctrl_medusa_detach_ring ch w =
     (let (c1, w1) = (let c = ch_ctrl ch in if nd_hdr_buffer c \<noteq> None then
            (c\<lparr>nd_hdr_buffer := None\<rparr>, dma_free_coherent (nd_hdr_buffer_size c) (nd_hdr_buffer c)
               (vunmap (nd_hdr_buffer_v c) (kw_unregister_mmap (nd_hdr_mmap_offset c) w))) else (c, w));
          (c2, w2) = (if nd_off_buffer c1 \<noteq> None then
            (c1\<lparr>nd_off_buffer := None\<rparr>, dma_free_coherent (nd_off_buffer_size c1) (nd_off_buffer c1)
               (vunmap (nd_off_buffer_v c1) w1)) else (c1, w1));
          (c3, w3) = (if nd_desc_buffer c2 \<noteq> None then
            (c2\<lparr>nd_desc_buffer := None\<rparr>, dma_free_coherent (nd_desc_buffer_size c2) (nd_desc_buffer c2)
               (vunmap (nd_desc_buffer_v c2) w2)) else (c2, w2));
          (c4, w4) = (if nd_update_buffer c3 \<noteq> None then
            (c3\<lparr>nd_update_buffer := None\<rparr>, dma_free_coherent (ALIGN NDP_CTRL_UPDATE_SIZE PAGE_SIZE) (nd_update_buffer c3) w3)
            else (c3, w3))
      in (ch\<lparr>ch_ctrl := c4\<rparr>, w4))"

definition ndp_ctrl_calypte_detach_ring :: "ndp_ctrl ndp_channel \<Rightarrow> world \<Rightarrow> ndp_ctrl ndp_channel \<times> world" where
  "ndp_ctrl_calypte_detach_ring ch w =
     (let (c1, w1) = (let c = ch_ctrl ch in if nd_hdr_buffer c \<noteq> None then
            (c\<lparr>nd_hdr_buffer := None\<rparr>, dma_free_coherent (nd_hdr_buffer_size c) (nd_hdr_buffer c)
               (vunmap (nd_hdr_buffer_v c) (kw_unregister_mmap (nd_hdr_mmap_offset c) w))) else (c, w));
          (c2, w2) = (if nd_update_buffer c1 \<noteq> None then
            (c1\<lparr>nd_update_buffer := None\<rparr>, dma_free_coherent (nd_update_buffer_size c1) (nd_update_buffer c1)
               (kw_unregister_mmap (nd_upd_mmap_offset c1) w1)) else (c1, w1))
      in (ch\<lparr>ch_ctrl := c2\<rparr>, w2))"

section \<open>The operation tables and the creation of a channel\<close>

definition ndp_ctrl_rx_ops :: "ndp_ctrl ndp_channel_ops" where
  "ndp_ctrl_rx_ops =
     \<lparr>op_start = ndp_ctrl_medusa_start, op_stop = ndp_ctrl_stop,
      op_attach_ring = ndp_ctrl_medusa_attach_ring, op_detach_ring = ndp_ctrl_medusa_detach_ring,
      op_get_hwptr = ndp_ctrl_rx_get_hwptr, op_set_swptr = ndp_ctrl_medusa_rx_set_swptr,
      op_get_flags = ndp_ctrl_get_flags, op_set_flags = ndp_ctrl_set_flags, op_get_free_space = (\<lambda>_. None)\<rparr>"

definition ndp_ctrl_tx_ops :: "ndp_ctrl ndp_channel_ops" where
  "ndp_ctrl_tx_ops =
     \<lparr>op_start = ndp_ctrl_medusa_start, op_stop = ndp_ctrl_stop,
      op_attach_ring = ndp_ctrl_medusa_attach_ring, op_detach_ring = ndp_ctrl_medusa_detach_ring,
      op_get_hwptr = ndp_ctrl_medusa_tx_get_hwptr, op_set_swptr = ndp_ctrl_medusa_tx_set_swptr,
      op_get_flags = ndp_ctrl_get_flags, op_set_flags = ndp_ctrl_set_flags, op_get_free_space = (\<lambda>_. None)\<rparr>"

definition ndp_ctrl_calypte_rx_ops :: "u32 \<Rightarrow> ndp_ctrl ndp_channel_ops" where
  "ndp_ctrl_calypte_rx_ops garbage =
     \<lparr>op_start = ndp_ctrl_calypte_start garbage, op_stop = ndp_ctrl_stop,
      op_attach_ring = ndp_ctrl_rx_calypte_attach_ring, op_detach_ring = ndp_ctrl_calypte_detach_ring,
      op_get_hwptr = ndp_ctrl_rx_get_hwptr, op_set_swptr = ndp_ctrl_calypte_rx_set_swptr,
      op_get_flags = ndp_ctrl_get_flags, op_set_flags = ndp_ctrl_set_flags, op_get_free_space = (\<lambda>_. None)\<rparr>"

definition ndp_ctrl_calypte_tx_ops :: "u32 \<Rightarrow> u32 option \<Rightarrow> u32 option \<Rightarrow> ndp_ctrl ndp_channel_ops" where
  "ndp_ctrl_calypte_tx_ops garbage data_reg hdr_reg =
     \<lparr>op_start = ndp_ctrl_calypte_start garbage, op_stop = ndp_ctrl_stop,
      op_attach_ring = ndp_ctrl_tx_calypte_attach_ring data_reg hdr_reg, op_detach_ring = ndp_ctrl_calypte_detach_ring,
      op_get_hwptr = ndp_ctrl_calypte_tx_get_hwptr, op_set_swptr = ndp_ctrl_calypte_tx_set_swptr,
      op_get_flags = ndp_ctrl_get_flags, op_set_flags = ndp_ctrl_set_flags,
      op_get_free_space = (\<lambda>ch. Some (ndp_ctrl_calypte_tx_get_free_space ch))\<rparr>"

text \<open>
  \<open>dev\<close> is the NUMA node of the PCI function that serves the queue, \<open>zeroed\<close> the zeroed structure or None,
  and \<open>opened\<close> the call of \<open>nc_ndp_ctrl_open\<close>.  \<open>params\<close> are the module parameters: block size and size of
  a ring, size of a buffer and initial offset.  None: the call does not return.
\<close>

definition ndp_ctrl_create ::
  "u64 \<times> u64 \<times> u64 \<times> u64 \<Rightarrow> bool \<Rightarrow> int \<Rightarrow> ndp_ctrl option \<Rightarrow> (nc_ndp_ctrl \<Rightarrow> int \<times> nc_ndp_ctrl) \<Rightarrow> ndp_channel_id \<Rightarrow>
   world \<Rightarrow> (int + ndp_ctrl ndp_channel) option" where
  "ndp_ctrl_create params is_medusa dev zeroed opened cid w =
     (case params of (ndp_ring_block_size, ndp_ring_size, ndp_ctrl_buffer_size, ndp_ctrl_initial_offset) \<Rightarrow>
      case zeroed of
        None \<Rightarrow> Some (Inl (- ENOMEM))
      | Some ctrl \<Rightarrow>
        let ch = ndp_channel_init ndp_ring_block_size ndp_ring_size cid (zero_channel ctrl);
            ch1 = ch\<lparr>ch_ring := (ch_ring ch)\<lparr>ring_dev := Some dev\<rparr>\<rparr>
        in case opened (nd_c (ch_ctrl ch1)) of (ret, c) \<Rightarrow>
          let ch2 = ch1\<lparr>ch_ctrl := (ch_ctrl ch1)\<lparr>nd_c := c\<rparr>\<rparr> in
          if ret \<noteq> 0 then Some (Inl ret)
          else if is_medusa then
            let bs = (if ndp_ctrl_buffer_size = 0 then 4096 else ndp_ctrl_buffer_size) in
            map_option (\<lambda>(_, ch3, _). Inr ch3)
              (ndp_ctrl_medusa_req_block_update None bs (ndp_ring_size div bs)
                 ((ucast (cid_index cid) + 1) * ndp_ctrl_initial_offset) ch2 w)
          else Some (Inr ch2))"

section \<open>The controllers behind the interface of the channel\<close>

lemma same_channel_ctrl [simp]: "same_channel ch (ch\<lparr>ch_ctrl := c\<rparr>)"
  by (simp add: same_channel_def)

lemma same_channel_trans: "same_channel a b \<Longrightarrow> same_channel b c \<Longrightarrow> same_channel a c"
  unfolding same_channel_def by (metis ndp_channel.update_convs(13) ndp_channel.surjective)

lemma tx_get_hwptr_frame: "same_channel ch (snd (ndp_ctrl_medusa_tx_get_hwptr ch))"
  by (simp add: ndp_ctrl_medusa_tx_get_hwptr_def Let_def)

lemma tx_wait_frame: "same_channel ch (snd (ndp_ctrl_medusa_tx_wait_for_free_desc ch n))"
proof (induction ch n rule: ndp_ctrl_medusa_tx_wait_for_free_desc.induct)
  case (1 ch n)
  note simps = ndp_ctrl_medusa_tx_wait_for_free_desc.simps [of ch n]
  show ?case
  proof (cases "nd_free_desc (ch_ctrl ch) < n")
    case True
    show ?thesis
    proof (cases "nd_patience (ch_ctrl ch)")
      case 0
      with True simps show ?thesis by (simp add: tx_get_hwptr_frame)
    next
      case (Suc p)
      let ?ch1 = "snd (ndp_ctrl_medusa_tx_get_hwptr ch)"
      have "same_channel ch (?ch1\<lparr>ch_ctrl := (ch_ctrl ?ch1)\<lparr>nd_patience := p\<rparr>\<rparr>)"
        by (rule same_channel_trans [OF tx_get_hwptr_frame]) simp
      with 1 [OF True Suc] True Suc simps show ?thesis
        by (simp add: Let_def) (erule same_channel_trans)
    qed
  qed (use simps in \<open>simp add: same_channel_def\<close>)
qed

lemma tx_fill_frame: "same_channel ch (snd (tx_fill_loop n i shp sdp ch))"
proof (induction n arbitrary: i sdp ch)
  case (Suc n)
  obtain k ch1 where w: "ndp_ctrl_medusa_tx_wait_for_free_desc ch 2 = (k, ch1)" by force
  with tx_wait_frame [of ch 2] have f: "same_channel ch ch1" by simp
  have "same_channel ch (snd (tx_fill_loop n (Suc i) shp s (ch1\<lparr>ch_ctrl := c\<rparr>)))" for s c
    by (rule same_channel_trans [OF same_channel_trans [OF f same_channel_ctrl] Suc.IH])
  with w f show ?case by (simp add: Let_def)
qed (simp add: same_channel_def)

lemma tx_set_swptr_frame: "same_channel ch (ndp_ctrl_medusa_tx_set_swptr ch p)"
proof -
  let ?c = "nd_c (ch_ctrl ch)"
  obtain sdp ch1 where "tx_fill_loop (unat ((ucast p - nc_shp ?c) AND nc_mhp ?c)) 0 (nc_shp ?c) (nc_sdp ?c) ch = (sdp, ch1)"
    by force
  moreover from this have "same_channel ch ch1" using tx_fill_frame [of ch] by (metis snd_conv)
  ultimately show ?thesis
    by (auto simp: ndp_ctrl_medusa_tx_set_swptr_def Let_def intro: same_channel_trans)
qed

lemma rx_set_swptr_frame: "same_channel ch (ndp_ctrl_medusa_rx_set_swptr ch p)"
  by (simp add: ndp_ctrl_medusa_rx_set_swptr_def Let_def same_channel_def split: prod.splits)

lemma rx_get_hwptr_frame: "same_channel ch (snd (ndp_ctrl_rx_get_hwptr ch))"
  by (simp add: ndp_ctrl_rx_get_hwptr_def Let_def split: prod.splits)

lemma ndp_ctrl_stop_result:
  "ndp_ctrl_stop ch force = (r, ch') \<Longrightarrow> same_channel ch ch' \<and> r \<in> {0, - EAGAIN} \<and> (force \<longrightarrow> r = 0)"
  by (auto simp: ndp_ctrl_stop_def Let_def split: prod.splits if_splits)

lemma medusa_start_result:
  "ndp_ctrl_medusa_start ch = (r, h, ch') \<Longrightarrow> same_channel ch ch' \<and> (r = 0 \<longrightarrow> h = Some 0)"
  by (auto simp: ndp_ctrl_medusa_start_def Let_def split: prod.splits if_splits)

lemma calypte_start_result:
  "ndp_ctrl_calypte_start g ch = (r, h, ch') \<Longrightarrow> same_channel ch ch' \<and> (r = 0 \<longrightarrow> h = Some 0)"
  by (auto simp: ndp_ctrl_calypte_start_def Let_def split: prod.splits if_splits)

lemma flags_frame: "same_channel ch (snd (ndp_ctrl_get_flags ch))" "same_channel ch (snd (ndp_ctrl_set_flags ch f))"
  by (simp_all add: ndp_ctrl_get_flags_def ndp_ctrl_set_flags_def Let_def same_channel_def)

lemma calypte_frames:
  "same_channel ch (ndp_ctrl_calypte_rx_set_swptr ch p)" "same_channel ch (ndp_ctrl_calypte_tx_set_swptr ch p)"
  "same_channel ch (snd (ndp_ctrl_calypte_tx_get_hwptr ch))"
  by (simp_all add: ndp_ctrl_calypte_rx_set_swptr_def ndp_ctrl_calypte_tx_set_swptr_def
      ndp_ctrl_calypte_tx_get_hwptr_def Let_def split: prod.splits)

text \<open>One law for the four tables: they share stop and flags.\<close>

lemma ndp_ctrl_channel_ctrl:
  assumes "op_stop ops = ndp_ctrl_stop" "op_get_flags ops = ndp_ctrl_get_flags" "op_set_flags ops = ndp_ctrl_set_flags"
    and "op_start ops = ndp_ctrl_medusa_start \<or> op_start ops = ndp_ctrl_calypte_start g"
    and "op_get_hwptr ops \<in> {ndp_ctrl_rx_get_hwptr, ndp_ctrl_medusa_tx_get_hwptr, ndp_ctrl_calypte_tx_get_hwptr}"
    and "op_set_swptr ops \<in> {ndp_ctrl_medusa_rx_set_swptr, ndp_ctrl_medusa_tx_set_swptr,
      ndp_ctrl_calypte_rx_set_swptr, ndp_ctrl_calypte_tx_set_swptr}"
  shows "channel_ctrl ops"
proof (unfold_locales, goal_cases)
  case (1 ch r h ch')
  then show ?case using assms(4) medusa_start_result calypte_start_result by metis
next
  case (2 ch h ch')
  then show ?case using assms(4) medusa_start_result [of ch 0 h ch'] calypte_start_result [of g ch 0 h ch'] by auto
next
  case (3 ch force r ch')
  then show ?case using assms(1) ndp_ctrl_stop_result by metis
next
  case (4 ch)
  show ?case using ndp_ctrl_stop_result [of ch True "fst (ndp_ctrl_stop ch True)" "snd (ndp_ctrl_stop ch True)"]
    by (simp add: assms(1))
next
  case (5 ch p ch')
  then have "ch' = snd (op_get_hwptr ops ch)" by simp
  then show ?case using assms(5) by (auto simp: rx_get_hwptr_frame tx_get_hwptr_frame calypte_frames)
next
  case (6 ch p)
  show ?case using assms(6) by (auto simp: rx_set_swptr_frame tx_set_swptr_frame calypte_frames)
next
  case (7 ch f ch')
  then show ?case using flags_frame(1) assms(2) by (metis snd_conv)
next
  case (8 ch f f' ch')
  then show ?case using flags_frame(2) assms(3) by (metis snd_conv)
qed

interpretation medusa_rx: channel_ctrl ndp_ctrl_rx_ops
  by (rule ndp_ctrl_channel_ctrl) (simp_all add: ndp_ctrl_rx_ops_def)

interpretation medusa_tx: channel_ctrl ndp_ctrl_tx_ops
  by (rule ndp_ctrl_channel_ctrl) (simp_all add: ndp_ctrl_tx_ops_def)

interpretation calypte_rx: channel_ctrl "ndp_ctrl_calypte_rx_ops garbage" for garbage
  by (rule ndp_ctrl_channel_ctrl [where g = garbage]) (simp_all add: ndp_ctrl_calypte_rx_ops_def)

interpretation calypte_tx: channel_ctrl "ndp_ctrl_calypte_tx_ops garbage data_reg hdr_reg" for garbage data_reg hdr_reg
  by (rule ndp_ctrl_channel_ctrl [where g = garbage]) (simp_all add: ndp_ctrl_calypte_tx_ops_def)

end
