(* ===== verification/NdpWalk.thy ===== *)
theory NdpWalk
  imports NdpCtrl
begin

text \<open>
  The walk of the Medusa controller through the ring, \<open>drivers/kernel/drivers/nfb/ndp/ctrl_ndp.c\<close>: where
  the packet buffers lie, that the requested number of blocks is enough and that no two buffers
  overlap; the constant offsets written at the start; and the descriptors that announce the buffers
  to the hardware.

  \<open>vpos\<close> is the walk over natural numbers without the end of the ring: block and offset of the i-th
  buffer.
\<close>

section \<open>The unbounded walk\<close>

fun vpos :: "nat \<Rightarrow> nat \<Rightarrow> nat \<Rightarrow> nat \<Rightarrow> nat \<times> nat" where
  "vpos bs sz io 0 = (0, io)"
| "vpos bs sz io (Suc i) =
     (let (b, off) = vpos bs sz io i; off' = off + sz in
      if off' + sz > bs then (b + 1, off' mod 4096) else (b, off'))"

lemma vpos_step:
  obtains "fst (vpos bs sz io (Suc i)) = fst (vpos bs sz io i)" "snd (vpos bs sz io (Suc i)) = snd (vpos bs sz io i) + sz"
      "snd (vpos bs sz io i) + 2 * sz \<le> bs"
  | "fst (vpos bs sz io (Suc i)) = Suc (fst (vpos bs sz io i))"
      "snd (vpos bs sz io (Suc i)) = (snd (vpos bs sz io i) + sz) mod 4096" "snd (vpos bs sz io i) + 2 * sz > bs"
  by (cases "snd (vpos bs sz io i) + sz + sz > bs") (auto simp: Let_def case_prod_beta)

lemma vpos_fits:
  assumes "io + sz \<le> bs" and "4095 + sz \<le> bs"
  shows "snd (vpos bs sz io i) + sz \<le> bs"
proof (induction i)
  case (Suc i)
  have "x mod 4096 + sz \<le> bs" for x :: nat using assms(2) mod_less_divisor [of 4096 x] by linarith
  with Suc show ?case by (cases rule: vpos_step [of bs sz io i]) auto
qed (use assms in simp)

lemma vpos_block_mono: "i \<le> j \<Longrightarrow> fst (vpos bs sz io i) \<le> fst (vpos bs sz io j)"
proof (induction j)
  case (Suc j)
  then show ?case
    by (cases rule: vpos_step [of bs sz io j]) (auto simp: le_Suc_eq simp del: vpos.simps(2))
qed simp

lemma vpos_block_le: "fst (vpos bs sz io i) \<le> i"
proof (induction i)
  case (Suc i)
  then show ?case by (cases rule: vpos_step [of bs sz io i]) (auto simp del: vpos.simps(2))
qed simp

lemma vpos_apart:
  assumes "i < j" and "fst (vpos bs sz io i) = fst (vpos bs sz io j)"
  shows "snd (vpos bs sz io i) + sz \<le> snd (vpos bs sz io j)"
  using assms
proof (induction j)
  case (Suc j)
  have "fst (vpos bs sz io i) \<le> fst (vpos bs sz io j)" using Suc.prems(1) by (intro vpos_block_mono) simp
  with Suc.prems(2) have same: "fst (vpos bs sz io (Suc j)) = fst (vpos bs sz io j)"
    by (cases rule: vpos_step [of bs sz io j]) (auto simp del: vpos.simps(2))
  then have "snd (vpos bs sz io (Suc j)) = snd (vpos bs sz io j) + sz"
    by (cases rule: vpos_step [of bs sz io j]) (auto simp del: vpos.simps(2))
  with Suc same show ?case by (cases "i = j") (auto simp del: vpos.simps(2))
qed simp

lemma vpos_first_block: "fst (vpos bs sz io i) = 0 \<Longrightarrow> io \<le> snd (vpos bs sz io i)"
  using vpos_apart [of 0 i bs sz io] by (cases i) auto

text \<open>The ring that the driver requests for \<open>n\<close> buffers, and the place of a buffer in it.\<close>

definition vblocks :: "nat \<Rightarrow> nat \<Rightarrow> nat \<Rightarrow> nat \<Rightarrow> nat" where
  "vblocks bs sz io n = (case vpos bs sz io n of (b, off) \<Rightarrow> if off \<le> io then b else Suc b)"

definition rpos :: "nat \<Rightarrow> nat \<Rightarrow> nat \<Rightarrow> nat \<Rightarrow> nat \<Rightarrow> nat \<times> nat" where
  "rpos bs sz io n i = (case vpos bs sz io i of (b, off) \<Rightarrow> (if b = vblocks bs sz io n then 0 else b, off))"

lemma vblocks_cases:
  assumes "0 < sz" and "0 < n"
  obtains "vblocks bs sz io n = fst (vpos bs sz io n)" "snd (vpos bs sz io n) \<le> io" "0 < vblocks bs sz io n"
  | "vblocks bs sz io n = Suc (fst (vpos bs sz io n))"
proof (cases "snd (vpos bs sz io n) \<le> io")
  case True
  with vpos_apart [of 0 n bs sz io] assms have "0 < fst (vpos bs sz io n)" by (cases "fst (vpos bs sz io n)") auto
  with True that(1) show ?thesis by (simp add: vblocks_def case_prod_beta)
qed (use that(2) in \<open>simp add: vblocks_def case_prod_beta\<close>)

lemma rpos_fst: "fst (rpos bs sz io n i) =
    (if fst (vpos bs sz io i) = vblocks bs sz io n then 0 else fst (vpos bs sz io i))"
  and rpos_snd: "snd (rpos bs sz io n i) = snd (vpos bs sz io i)"
  by (simp_all add: rpos_def case_prod_beta)

lemma vblocks_ge:
  assumes "0 < sz" and "i < n"
  shows "fst (vpos bs sz io i) \<le> vblocks bs sz io n" "0 < vblocks bs sz io n"
proof -
  have m: "fst (vpos bs sz io i) \<le> fst (vpos bs sz io n)" using assms(2) by (intro vpos_block_mono) simp
  have "0 < n" using assms(2) by simp
  from vblocks_cases [OF assms(1) this, of bs io]
  have "fst (vpos bs sz io i) \<le> vblocks bs sz io n \<and> 0 < vblocks bs sz io n"
    by cases (use m in simp_all)
  then show "fst (vpos bs sz io i) \<le> vblocks bs sz io n" "0 < vblocks bs sz io n" by simp_all
qed

lemma rpos_block:
  assumes "0 < sz" and "i < n"
  shows "fst (rpos bs sz io n i) < vblocks bs sz io n"
  unfolding rpos_fst using vblocks_ge [OF assms, of bs io] by (simp add: le_neq_implies_less)

text \<open>The last buffers may lie in the first block, in front of the initial offset.\<close>

lemma rpos_wrapped:
  assumes "0 < sz" and "j < n" and "fst (vpos bs sz io j) = vblocks bs sz io n"
  shows "snd (vpos bs sz io j) + sz \<le> io"
proof -
  have m: "fst (vpos bs sz io j) \<le> fst (vpos bs sz io n)" using assms(2) by (intro vpos_block_mono) simp
  have "0 < n" using assms(2) by simp
  from vblocks_cases [OF assms(1) this, of bs io] show ?thesis
  proof cases
    case 1
    with vpos_apart [OF assms(2), of bs sz io] assms(3) show ?thesis by simp
  next
    case 2
    with m assms(3) show ?thesis by simp
  qed
qed

lemma rpos_disjoint:
  assumes "0 < sz" and "i < j" and "j < n" and "fst (rpos bs sz io n i) = fst (rpos bs sz io n j)"
  shows "snd (rpos bs sz io n i) + sz \<le> snd (rpos bs sz io n j) \<or> snd (rpos bs sz io n j) + sz \<le> snd (rpos bs sz io n i)"
proof (cases "fst (vpos bs sz io i) = fst (vpos bs sz io j)")
  case True
  with vpos_apart [OF assms(2) True] show ?thesis by (simp add: rpos_snd)
next
  case False
  have i: "i < n" using assms(2,3) by simp
  have mono: "fst (vpos bs sz io i) \<le> fst (vpos bs sz io j)" using assms(2) by (intro vpos_block_mono) simp
  note ge = vblocks_ge [OF assms(1,3), of bs io] vblocks_ge [OF assms(1) i, of bs io]
  have j: "fst (vpos bs sz io j) = vblocks bs sz io n" and i0: "fst (vpos bs sz io i) = 0"
    using assms(4) False mono ge unfolding rpos_fst by (simp_all split: if_splits)
  from rpos_wrapped [OF assms(1,3) j] vpos_first_block [OF i0] show ?thesis by (simp add: rpos_snd)
qed

section \<open>The walk of the driver\<close>

definition mps_at :: "ndp_ctrl_cfg \<Rightarrow> nat \<Rightarrow> nat \<Rightarrow> nat \<Rightarrow> ndp_ctrl_state_mps" where
  "mps_at cfg i r off = \<lparr>mps_cfg = cfg, mps_block_offset = of_nat off, mps_block_index = of_nat r, mps_buffer_index = of_nat i\<rparr>"

definition mps_nth :: "nat \<Rightarrow> ndp_ctrl_state_mps \<Rightarrow> ndp_ctrl_state_mps" where
  "mps_nth i s = ((\<lambda>t. snd (ndp_ctrl_medusa_mps_inc t)) ^^ i) s"

lemma mps_nth_simps [simp]:
  "mps_nth 0 s = s" "mps_nth (Suc i) s = snd (ndp_ctrl_medusa_mps_inc (mps_nth i s))"
  by (simp_all add: mps_nth_def)

lemma meta_first_at:
  "ndp_ctrl_medusa_mps_meta_first s = mps_at (mps_cfg s) 0 0 (unat (cfg_initial_offset (mps_cfg s)))"
  by (cases s) (simp add: ndp_ctrl_medusa_mps_meta_first_def mps_at_def)

lemma inc_last:
  "of_nat (Suc i) = cfg_buffer_count cfg \<Longrightarrow>
   ndp_ctrl_medusa_mps_inc (mps_at cfg i r off) = (- 1, mps_at cfg 0 0 (unat (cfg_initial_offset cfg)))"
  by (simp add: ndp_ctrl_medusa_mps_inc_def meta_first_at Let_def) (simp add: mps_at_def add.commute)

lemma inc_at:
  assumes "cfg_block_size cfg = of_nat bs" "cfg_buffer_size cfg = of_nat sz" "off + sz \<le> bs" "bs < 2 ^ 31"
    and "of_nat (Suc i) \<noteq> cfg_buffer_count cfg"
  shows "ndp_ctrl_medusa_mps_inc (mps_at cfg i r off) =
    (if off + sz + sz > bs
     then (1, mps_at cfg (Suc i) (if of_nat (Suc r) = cfg_block_count cfg then 0 else Suc r) ((off + sz) mod 4096))
     else (0, mps_at cfg (Suc i) r (off + sz)))"
proof -
  have o1: "of_nat off + cfg_buffer_size cfg = of_nat (off + sz)" by (simp add: assms(2))
  have o2: "of_nat (off + sz) + cfg_buffer_size cfg = of_nat (off + sz + sz)" by (simp add: assms(2))
  have lt: "off + sz + sz < 2 ^ 32" "bs < 2 ^ 32" "off + sz < 2 ^ 32" using assms(3,4) by auto
  have cmp: "of_nat (off + sz + sz) > cfg_block_size cfg \<longleftrightarrow> off + sz + sz > bs"
    unfolding assms(1) word_less_nat_alt using lt by (simp add: unat_of_nat del: of_nat_add)
  have md: "(of_nat (off + sz) :: u32) mod mps_non_first_block_max_offset = of_nat ((off + sz) mod 4096)"
    using lt by (simp add: mps_non_first_block_max_offset_def word_unat_eq_iff unat_mod unat_of_nat del: of_nat_add)
  have bi: "mps_buffer_index (mps_at cfg i r off) + 1 = of_nat (Suc i)" by (simp add: mps_at_def)
  show ?thesis
    unfolding ndp_ctrl_medusa_mps_inc_def Let_def
    using assms(5) by (simp add: mps_at_def o1 o2 cmp md del: of_nat_add) (simp add: add.commute)
qed

text \<open>The two uses of the walk: without an end, to compute the request, and in the ring.\<close>

definition walk_ok :: "nat \<Rightarrow> nat \<Rightarrow> nat \<Rightarrow> bool" where
  "walk_ok bs sz io \<longleftrightarrow> 0 < sz \<and> io + sz \<le> bs \<and> 4095 + sz \<le> bs \<and> bs < 2 ^ 31"

lemma of_nat_u32_eq: "a < 2 ^ 32 \<Longrightarrow> b < 2 ^ 32 \<Longrightarrow> (of_nat a :: u32) = of_nat b \<longleftrightarrow> a = b"
  by (simp add: word_unat_eq_iff unat_of_nat)

lemma walk_virtual:
  assumes "walk_ok bs sz io" "cfg_block_size cfg = of_nat bs" "cfg_buffer_size cfg = of_nat sz"
    and "cfg_buffer_count cfg = 0" "cfg_block_count cfg = 0" "i < 2 ^ 32"
  shows "mps_nth i (mps_at cfg 0 0 io) = mps_at cfg i (fst (vpos bs sz io i)) (snd (vpos bs sz io i))"
  using assms(6)
proof (induction i)
  case (Suc i)
  let ?r = "fst (vpos bs sz io i)" and ?off = "snd (vpos bs sz io i)"
  have fit: "?off + sz \<le> bs" using vpos_fits assms(1) by (simp add: walk_ok_def)
  have nz: "(of_nat (Suc i) :: u32) \<noteq> 0" "(of_nat (Suc ?r) :: u32) \<noteq> 0"
    using Suc.prems vpos_block_le [of bs sz io i] of_nat_u32_eq [of "Suc i" 0] of_nat_u32_eq [of "Suc ?r" 0]
    by (simp_all del: of_nat_Suc)
  have "mps_nth i (mps_at cfg 0 0 io) = mps_at cfg i ?r ?off" using Suc by simp
  with inc_at [OF assms(2,3) fit, of i ?r] assms(1,4,5) nz show ?case
    by (simp add: walk_ok_def case_prod_beta Let_def del: of_nat_Suc)
qed simp

lemma walk_ring:
  assumes ok: "walk_ok bs sz io" and cfg: "cfg_block_size cfg = of_nat bs" "cfg_buffer_size cfg = of_nat sz"
    "cfg_buffer_count cfg = of_nat n" "cfg_block_count cfg = of_nat (vblocks bs sz io n)"
    and n: "0 < n" "n < 2 ^ 31" and i: "i < n"
  shows "mps_nth i (mps_at cfg 0 0 io) = mps_at cfg i (fst (rpos bs sz io n i)) (snd (rpos bs sz io n i))"
  using i
proof (induction i)
  case 0
  have "0 < vblocks bs sz io n" using vblocks_ge [of sz 0 n] ok n by (simp add: walk_ok_def)
  then show ?case by (simp add: rpos_fst rpos_snd)
next
  case (Suc i)
  let ?C = "vblocks bs sz io n" and ?r = "fst (rpos bs sz io n i)" and ?off = "snd (vpos bs sz io i)"
  have sz: "0 < sz" using ok by (simp add: walk_ok_def)
  have fit: "?off + sz \<le> bs" using vpos_fits ok by (simp add: walk_ok_def)
  have r: "?r < ?C" using rpos_block sz Suc.prems by simp
  have C: "?C < 2 ^ 32" using vpos_block_le [of bs sz io n] n(2) by (simp add: vblocks_def case_prod_beta)
  have nz: "(of_nat (Suc i) :: u32) \<noteq> cfg_buffer_count cfg"
    unfolding cfg(3) using Suc.prems n(2) of_nat_u32_eq [of "Suc i" n] by (simp del: of_nat_Suc)
  have rC: "(of_nat (Suc ?r) :: u32) = cfg_block_count cfg \<longleftrightarrow> Suc ?r = ?C"
    unfolding cfg(4) using r C of_nat_u32_eq [of "Suc ?r" ?C] by (simp del: of_nat_Suc)
  have "mps_nth i (mps_at cfg 0 0 io) = mps_at cfg i ?r ?off" using Suc by (simp add: rpos_snd)
  then have nxt: "mps_nth (Suc i) (mps_at cfg 0 0 io) =
    (if ?off + sz + sz > bs then mps_at cfg (Suc i) (if Suc ?r = ?C then 0 else Suc ?r) ((?off + sz) mod 4096)
     else mps_at cfg (Suc i) ?r (?off + sz))"
    using inc_at [OF cfg(1,2) fit _ nz, of ?r] ok rC by (simp add: walk_ok_def del: of_nat_Suc)
  show ?case
  proof (cases rule: vpos_step [of bs sz io i])
    case 1
    with nxt show ?thesis by (simp add: rpos_fst rpos_snd del: vpos.simps mps_nth_simps)
  next
    case 2
    have "fst (vpos bs sz io (Suc i)) \<le> ?C" using vblocks_ge(1) [OF sz Suc.prems] .
    with 2(1) have "fst (vpos bs sz io i) < ?C" by simp
    then have "?r = fst (vpos bs sz io i)" by (simp add: rpos_fst)
    with nxt 2 show ?thesis by (simp add: rpos_fst rpos_snd del: vpos.simps mps_nth_simps)
  qed
qed

section \<open>The requested ring\<close>

lemma mps_walk_nth:
  assumes "\<And>i. i \<le> n \<Longrightarrow> mps_buffer_index (mps_nth i s) = of_nat i" and "n < 2 ^ 32" and "i \<le> n"
  shows "mps_walk (of_nat n) (mps_nth i s) = Some (mps_nth n s)"
  using assms(3)
proof (induction rule: inc_induct)
  case base
  with assms(1) [of n] assms(2) show ?case
    by (subst mps_walk.simps) (simp add: word_less_nat_alt unsigned_of_nat take_bit_nat_eq_self)
next
  case (step i)
  have "unat (ucast (mps_buffer_index (mps_nth i s)) :: u64) < unat (of_nat n :: u64)"
    using step.hyps assms(1) [of i] assms(2) by (simp add: unsigned_of_nat take_bit_nat_eq_self)
  with step.IH show ?case by (subst mps_walk.simps) (simp add: word_less_nat_alt)
qed

lemma req_block_update_result:
  assumes ok: "walk_ok (unat (ch_req_block_size ch)) (unat buffer_size) (unat initial_offset)"
    and n: "1024 \<le> unat buffer_count" "unat buffer_count < 2 ^ 31"
  defines "C \<equiv> vblocks (unat (ch_req_block_size ch)) (unat buffer_size) (unat initial_offset) (unat buffer_count)"
  defines "cfg \<equiv> \<lparr>cfg_buffer_count = ucast buffer_count, cfg_buffer_size = ucast buffer_size, cfg_block_count = of_nat C,
      cfg_block_size = ucast (ch_req_block_size ch), cfg_initial_offset = ucast initial_offset\<rparr>"
  shows "ndp_ctrl_medusa_req_block_update None buffer_size buffer_count initial_offset ch w =
    Some (0, ch\<lparr>ch_ctrl := (ch_ctrl ch)\<lparr>nd_cfg := cfg\<rparr>, ch_req_block_count := of_nat C\<rparr>, w)"
proof -
  let ?bs = "unat (ch_req_block_size ch)" and ?sz = "unat buffer_size" and ?io = "unat initial_offset"
    and ?n = "unat buffer_count"
  define c0 where "c0 = \<lparr>cfg_buffer_count = 0, cfg_buffer_size = ucast buffer_size, cfg_block_count = 0,
      cfg_block_size = ucast (ch_req_block_size ch), cfg_initial_offset = ucast initial_offset\<rparr>"
  have io: "?io < 2 ^ 32" using ok by (simp add: walk_ok_def)
  then have uio: "unat (ucast initial_offset :: u32) = ?io" by (simp add: unsigned_ucast_eq take_bit_nat_eq_self)
  have init: "ndp_ctrl_medusa_mps_meta_init (ucast (ch_req_block_size ch)) 0 (ucast buffer_size) 0 (ucast initial_offset) s =
      mps_at c0 0 0 ?io" for s
    by (simp add: ndp_ctrl_medusa_mps_meta_init_def meta_first_at c0_def uio)
  have nth: "mps_nth i (mps_at c0 0 0 ?io) = mps_at c0 i (fst (vpos ?bs ?sz ?io i)) (snd (vpos ?bs ?sz ?io i))"
    if "i \<le> ?n" for i
    by (rule walk_virtual [OF ok]) (use that n in \<open>simp_all add: c0_def\<close>)
  have "mps_walk (of_nat ?n) (mps_nth 0 (mps_at c0 0 0 ?io)) = Some (mps_nth ?n (mps_at c0 0 0 ?io))"
    by (rule mps_walk_nth) (use n in \<open>simp_all only: nth, simp_all add: mps_at_def\<close>)
  then have walk: "mps_walk buffer_count (mps_at c0 0 0 ?io) =
      Some (mps_at c0 ?n (fst (vpos ?bs ?sz ?io ?n)) (snd (vpos ?bs ?sz ?io ?n)))"
    using nth [of ?n] by simp
  let ?b = "fst (vpos ?bs ?sz ?io ?n)" and ?off = "snd (vpos ?bs ?sz ?io ?n)"
  have off: "?off < 2 ^ 32" using vpos_fits [of ?io ?sz ?bs ?n] ok by (simp add: walk_ok_def)
  have le: "(of_nat ?off :: u32) \<le> ucast initial_offset \<longleftrightarrow> ?off \<le> ?io"
    using off io by (simp add: word_le_nat_alt unat_of_nat uio)
  have sz0: "0 < ?sz" using ok by (simp add: walk_ok_def)
  define t where "t = mps_at c0 ?n ?b ?off"
  have idx: "(if mps_block_offset t \<le> cfg_initial_offset (mps_cfg t) then mps_block_index t - 1 else mps_block_index t) + 1 = of_nat C"
    by (simp add: t_def mps_at_def c0_def le C_def vblocks_def case_prod_beta)
  have t: "mps_cfg t = c0" "mps_buffer_index t = ucast buffer_count" by (simp_all add: t_def mps_at_def)
  have C32: "C < 2 ^ 32"
    using vpos_block_le [of ?bs ?sz ?io ?n] n by (simp add: C_def vblocks_def case_prod_beta)
  then have uC: "(ucast (of_nat C :: u32) :: u64) = of_nat C" by (simp add: unsigned_of_nat take_bit_nat_eq_self)
  have guard: "buffer_size \<noteq> 0" "\<not> buffer_count < min_buffer_items"
    using sz0 n by (auto simp: min_buffer_items_def PAGE_SIZE_def word_less_nat_alt)
  show ?thesis
    using guard unfolding ndp_ctrl_medusa_req_block_update_def init walk t_def [symmetric]
    by (simp add: Let_def idx t(2) uC split del: if_split) (simp add: t(1) c0_def cfg_def)
qed

text \<open>C3.  The ring that the Medusa controller requests is large enough and its packet buffers never overlap:
  whenever a buffer and the initial offset fit into a block (with one page to spare), the request
  for a number of buffers returns, and in the walk over the ring with the resulting configuration
  every buffer lies inside one of the requested blocks and two different buffers share no byte.
\<close>

theorem medusa_buffers_disjoint:
  assumes "walk_ok (unat (ch_req_block_size ch)) (unat buffer_size) (unat initial_offset)"
    and "1024 \<le> unat buffer_count" and "unat buffer_count < 2 ^ 31"
  shows "\<exists>ch'. ndp_ctrl_medusa_req_block_update None buffer_size buffer_count initial_offset ch w = Some (0, ch', w) \<and>
    (let cfg = nd_cfg (ch_ctrl ch'); s = ndp_ctrl_medusa_mps_meta_first ((nd_mps (ch_ctrl ch'))\<lparr>mps_cfg := cfg\<rparr>);
         blk = (\<lambda>i. mps_block_index (mps_nth i s)); off = (\<lambda>i. unat (mps_block_offset (mps_nth i s))) in
      cfg_buffer_count cfg = ucast buffer_count \<and> ch_req_block_count ch' = ucast (cfg_block_count cfg) \<and>
      (\<forall>i < unat buffer_count. blk i < cfg_block_count cfg \<and> off i + unat buffer_size \<le> unat (ch_req_block_size ch)) \<and>
      (\<forall>i j. i < j \<and> j < unat buffer_count \<and> blk i = blk j \<longrightarrow>
         off i + unat buffer_size \<le> off j \<or> off j + unat buffer_size \<le> off i))"
proof -
  let ?bs = "unat (ch_req_block_size ch)" and ?sz = "unat buffer_size" and ?io = "unat initial_offset"
    and ?n = "unat buffer_count"
  define C where "C = vblocks ?bs ?sz ?io ?n"
  define cfg where "cfg = \<lparr>cfg_buffer_count = ucast buffer_count, cfg_buffer_size = ucast buffer_size,
      cfg_block_count = of_nat C, cfg_block_size = ucast (ch_req_block_size ch), cfg_initial_offset = ucast initial_offset\<rparr>"
  let ?pos = "\<lambda>i. rpos ?bs ?sz ?io ?n i"
  have b: "0 < ?sz" "?io + ?sz \<le> ?bs" "4095 + ?sz \<le> ?bs" "?bs < 2 ^ 31" using assms(1) by (auto simp: walk_ok_def)
  have io: "unat (ucast initial_offset :: u32) = ?io" using b by (simp add: unsigned_ucast_eq take_bit_nat_eq_self)
  have nth: "mps_nth i (mps_at cfg 0 0 ?io) = mps_at cfg i (fst (?pos i)) (snd (?pos i))" if "i < ?n" for i
    by (rule walk_ring [OF assms(1)]) (use that assms(2,3) in \<open>simp_all add: cfg_def C_def\<close>)
  have C: "C < 2 ^ 32" using vpos_block_le [of ?bs ?sz ?io ?n] assms(3) by (simp add: C_def vblocks_def case_prod_beta)
  have blk: "fst (?pos i) < C" "snd (?pos i) + ?sz \<le> ?bs" if "i < ?n" for i
    using rpos_block [OF b(1) that] vpos_fits [OF b(2,3)] by (simp_all add: C_def rpos_snd)
  have u: "unat (of_nat (fst (?pos i)) :: u32) = fst (?pos i)" "unat (of_nat (snd (?pos i)) :: u32) = snd (?pos i)"
    if "i < ?n" for i using blk [OF that] C b by (simp_all add: unat_of_nat)
  have uC: "unat (of_nat C :: u32) = C" using C by (simp add: unat_of_nat)
  let ?ch = "ch\<lparr>ch_ctrl := (ch_ctrl ch)\<lparr>nd_cfg := cfg\<rparr>, ch_req_block_count := of_nat C\<rparr>"
  have req: "ndp_ctrl_medusa_req_block_update None buffer_size buffer_count initial_offset ch w = Some (0, ?ch, w)"
    using req_block_update_result [OF assms] by (simp add: cfg_def C_def)
  have s: "ndp_ctrl_medusa_mps_meta_first (s\<lparr>mps_cfg := cfg\<rparr>) = mps_at cfg 0 0 ?io" for s
    by (simp add: meta_first_at cfg_def io)
  have ins: "mps_block_index (mps_nth i (mps_at cfg 0 0 ?io)) < of_nat C"
    "unat (mps_block_offset (mps_nth i (mps_at cfg 0 0 ?io))) + ?sz \<le> ?bs" if "i < ?n" for i
    using blk [OF that] u [OF that] uC by (simp_all add: nth that) (simp_all add: mps_at_def word_less_nat_alt)
  have dis: "unat (mps_block_offset (mps_nth i (mps_at cfg 0 0 ?io))) + ?sz \<le> unat (mps_block_offset (mps_nth j (mps_at cfg 0 0 ?io))) \<or>
      unat (mps_block_offset (mps_nth j (mps_at cfg 0 0 ?io))) + ?sz \<le> unat (mps_block_offset (mps_nth i (mps_at cfg 0 0 ?io)))"
    if ij: "i < j" "j < ?n" and eq: "mps_block_index (mps_nth i (mps_at cfg 0 0 ?io)) = mps_block_index (mps_nth j (mps_at cfg 0 0 ?io))"
    for i j
  proof -
    have "i < ?n" using ij by simp
    note n = nth [OF this] nth [OF ij(2)] and uu = u [OF this] u [OF ij(2)]
    from eq have "fst (?pos i) = fst (?pos j)" unfolding n by (simp add: mps_at_def) (metis uu(1,3))
    from rpos_disjoint [OF b(1) ij this] show ?thesis unfolding n by (simp add: mps_at_def uu)
  qed
  have "ucast (of_nat C :: u32) = (of_nat C :: u64)" using C by (simp add: unsigned_of_nat take_bit_nat_eq_self)
  with req ins dis show ?thesis
    by (intro exI [of _ ?ch]) (simp add: Let_def s, simp add: cfg_def)
qed

definition example_ndp_ctrl :: ndp_ctrl where
  "example_ndp_ctrl = (let cfg = \<lparr>cfg_buffer_count = 0, cfg_buffer_size = 0, cfg_block_count = 0, cfg_block_size = 0, cfg_initial_offset = 0\<rparr> in
     \<lparr>nd_c = example_ctrl, nd_php = 0, nd_free_desc = 0,
      nd_mps = \<lparr>mps_cfg = cfg, mps_block_offset = 0, mps_block_index = 0, mps_buffer_index = 0\<rparr>, nd_cfg = cfg, nd_mode = 0,
      nd_descs = [], nd_offs = [], nd_hdrs = (\<lambda>_. \<lparr>hdr_frame_len = 0, hdr_hdr_len = 0, hdr_meta = 0, hdr_free_desc = 0\<rparr>),
      nd_chdrs = (\<lambda>_. \<lparr>chdr_frame_len = 0, chdr_frame_ptr = 0, chdr_valid = 0, chdr_metadata = 0\<rparr>), nd_free_bytes = 0,
      nd_valid_flag = 0, nd_next_sdp = 0, nd_flags = 0, nd_timeout = 0, nd_desc_count = 0, nd_hdr_count = 0,
      nd_hdr_buff_en_rw_map = False, nd_next_sdp_age = 0, nd_desc_buffer = None, nd_desc_buffer_v = None, nd_off_buffer = None,
      nd_off_buffer_v = None, nd_hdr_buffer = None, nd_hdr_buffer_v = None, nd_update_buffer = None, nd_desc_buffer_size = 0,
      nd_off_buffer_size = 0, nd_hdr_buffer_size = 0, nd_data_buffer_size = 0, nd_update_buffer_size = 0,
      nd_hdr_mmap_offset = 0, nd_off_mmap_offset = 0, nd_upd_mmap_offset = 0, nd_patience = 0\<rparr>)"

definition example_medusa_channel :: "ndp_ctrl ndp_channel" where
  "example_medusa_channel = (zero_channel example_ndp_ctrl)\<lparr>ch_req_block_size := 0x400000\<rparr>"

theorem medusa_buffers_disjoint_witness:
  "\<exists>ch'. ndp_ctrl_medusa_req_block_update None 4096 4096 64 example_medusa_channel (empty_world (\<lambda>_. None)) =
     Some (0, ch', empty_world (\<lambda>_. None)) \<and> cfg_buffer_count (nd_cfg (ch_ctrl ch')) = 4096"
proof -
  have "walk_ok (unat (ch_req_block_size example_medusa_channel)) (unat (4096 :: u64)) (unat (64 :: u64))"
    "1024 \<le> unat (4096 :: u64)" "unat (4096 :: u64) < 2 ^ 31"
    by (simp_all add: walk_ok_def example_medusa_channel_def)
  from medusa_buffers_disjoint [OF this, of "empty_world (\<lambda>_. None)"] show ?thesis
    unfolding Let_def by (elim exE conjE) (rule exI, rule conjI, assumption, simp)
qed

lemma inc_index:
  assumes "cfg_buffer_count (mps_cfg s) = 0" and "mps_buffer_index s + 1 \<noteq> 0"
  shows "mps_buffer_index (snd (ndp_ctrl_medusa_mps_inc s)) = mps_buffer_index s + 1"
    "mps_cfg (snd (ndp_ctrl_medusa_mps_inc s)) = mps_cfg s"
  using assms by (simp_all add: ndp_ctrl_medusa_mps_inc_def Let_def)

lemma nth_index:
  assumes "cfg_buffer_count (mps_cfg s) = 0" and "mps_buffer_index s = 0" and "i < 2 ^ 32"
  shows "mps_buffer_index (mps_nth i s) = of_nat i \<and> mps_cfg (mps_nth i s) = mps_cfg s"
  using assms(3)
proof (induction i)
  case (Suc i)
  have "(of_nat (Suc i) :: u32) \<noteq> 0" using Suc.prems of_nat_u32_eq [of "Suc i" 0] by (simp del: of_nat_Suc)
  with Suc assms(1) inc_index [of "mps_nth i s"] show ?case by (simp add: add.commute)
qed (use assms in simp)

lemma mps_walk_result:
  assumes "mps_walk c s = Some r"
  shows "\<not> ucast (mps_buffer_index r) < c"
proof (rule mps_walk.raw_induct [OF _ assms], goal_cases)
  case (1 walk c s r)
  from 1(2) show ?case using 1(1) by (cases "ucast (mps_buffer_index s) < c") auto
qed

lemma mps_walk_returns:
  assumes "cfg_buffer_count (mps_cfg s) = 0" and "mps_buffer_index s = 0"
  shows "mps_walk c s \<noteq> None \<longleftrightarrow> unat c < 2 ^ 32"
proof
  assume "unat c < 2 ^ 32"
  with mps_walk_nth [of "unat c" s 0] nth_index [OF assms] show "mps_walk c s \<noteq> None" by simp
next
  assume "mps_walk c s \<noteq> None"
  then obtain r where "mps_walk c s = Some r" by auto
  then have "unat c \<le> unat (ucast (mps_buffer_index r) :: u64)" using mps_walk_result [of c s r] by (simp add: word_less_nat_alt)
  also have "\<dots> < 2 ^ 32" using unsigned_less [of "mps_buffer_index r", where 'a = nat] by (simp add: unsigned_ucast_eq take_bit_nat_eq_self)
  finally show "unat c < 2 ^ 32" .
qed

text \<open>C32.  The request of a Medusa ring returns exactly when the number of buffers fits the 32-bit index of the
  walk (or the request is refused at once): the number comes from sysfs or from the module
  parameters as a 64-bit value, and for a larger one the loop in the driver never ends.
\<close>

theorem medusa_request_returns:
  "ndp_ctrl_medusa_req_block_update resize buffer_size buffer_count initial_offset ch w \<noteq> None \<longleftrightarrow>
   buffer_size = 0 \<or> unat buffer_count < 2 ^ 32"
proof -
  let ?s = "ndp_ctrl_medusa_mps_meta_init (ucast (ch_req_block_size ch)) 0 (ucast buffer_size) 0 (ucast initial_offset)
    (nd_mps (ch_ctrl ch))"
  have "cfg_buffer_count (mps_cfg ?s) = 0" "mps_buffer_index ?s = 0"
    by (simp_all add: ndp_ctrl_medusa_mps_meta_init_def ndp_ctrl_medusa_mps_meta_first_def)
  note ret = mps_walk_returns [OF this, of buffer_count]
  show ?thesis
  proof (cases "buffer_size = 0 \<or> buffer_count < min_buffer_items")
    case True
    moreover have "unat buffer_count < 2 ^ 32" if "buffer_count < min_buffer_items"
      using that by (simp add: min_buffer_items_def PAGE_SIZE_def word_less_nat_alt)
    ultimately show ?thesis by (auto simp: ndp_ctrl_medusa_req_block_update_def)
  next
    case False
    with ret show ?thesis by (simp add: ndp_ctrl_medusa_req_block_update_def del: not_None_eq)
  qed
qed

section \<open>Offsets of the packets\<close>

text \<open>The configuration that a request for \<open>n\<close> buffers of \<open>sz\<close> bytes leaves.\<close>

definition medusa_cfg :: "nat \<Rightarrow> nat \<Rightarrow> nat \<Rightarrow> nat \<Rightarrow> ndp_ctrl_cfg" where
  "medusa_cfg bs sz io n = \<lparr>cfg_buffer_count = of_nat n, cfg_buffer_size = of_nat sz,
     cfg_block_count = of_nat (vblocks bs sz io n), cfg_block_size = of_nat bs, cfg_initial_offset = of_nat io\<rparr>"

definition ring_offset :: "nat \<Rightarrow> nat \<Rightarrow> nat \<Rightarrow> nat \<Rightarrow> nat \<Rightarrow> nat" where
  "ring_offset bs sz io n i = fst (rpos bs sz io n i) * bs + snd (rpos bs sz io n i)"

lemma ring_offset_fits:
  assumes "walk_ok bs sz io" and "i < n"
  shows "ring_offset bs sz io n i + sz \<le> vblocks bs sz io n * bs"
proof -
  have sz: "0 < sz" using assms(1) by (simp add: walk_ok_def)
  have b: "Suc (fst (rpos bs sz io n i)) \<le> vblocks bs sz io n" using rpos_block [OF sz assms(2), of bs io] by simp
  have "ring_offset bs sz io n i + sz \<le> Suc (fst (rpos bs sz io n i)) * bs"
    using vpos_fits [of io sz bs i] assms(1) by (simp add: ring_offset_def rpos_snd walk_ok_def)
  also have "\<dots> \<le> vblocks bs sz io n * bs" using b by (rule mult_le_mono1)
  finally show ?thesis .
qed

lemma ring_offset_disjoint:
  assumes "walk_ok bs sz io" and "i < n" and "j < n" and "i \<noteq> j"
  shows "ring_offset bs sz io n i + sz \<le> ring_offset bs sz io n j \<or> ring_offset bs sz io n j + sz \<le> ring_offset bs sz io n i"
proof -
  let ?p = "rpos bs sz io n"
  have sz: "0 < sz" using assms(1) by (simp add: walk_ok_def)
  have fit: "snd (?p k) + sz \<le> bs" for k using vpos_fits [of io sz bs k] assms(1) by (simp add: rpos_snd walk_ok_def)
  have apart: "ring_offset bs sz io n k + sz \<le> ring_offset bs sz io n l" if "fst (?p k) < fst (?p l)" for k l
  proof -
    have "ring_offset bs sz io n k + sz \<le> Suc (fst (?p k)) * bs" using fit [of k] by (simp add: ring_offset_def)
    also have "\<dots> \<le> fst (?p l) * bs" using that by (intro mult_le_mono1) simp
    finally show ?thesis by (simp add: ring_offset_def)
  qed
  consider "fst (?p i) < fst (?p j)" | "fst (?p j) < fst (?p i)" | "fst (?p i) = fst (?p j)" by linarith
  then show ?thesis
  proof cases
    case 3
    with rpos_disjoint [OF sz, of i j n bs io] rpos_disjoint [OF sz, of j i n bs io] assms(2-4) show ?thesis
      by (cases "i < j") (auto simp: ring_offset_def)
  qed (auto dest: apart)
qed

lemma off_fill_walk:
  assumes ok: "walk_ok bs sz io" and n: "n < 2 ^ 31" "n \<le> length offs" and i: "i < n"
  defines "s0 \<equiv> mps_at (medusa_cfg bs sz io n) 0 0 io"
  shows "\<exists>offs'. off_fill (n - i) i (mps_nth i s0) offs = (s0, offs') \<and> length offs' = length offs \<and>
    (\<forall>j < i. offs' ! j = offs ! j) \<and> (\<forall>j. i \<le> j \<and> j < n \<longrightarrow> offs' ! j = ucast (of_nat (ring_offset bs sz io n j) :: u32))"
  using i n(2)
proof (induction "n - i" arbitrary: i offs)
  case (Suc k)
  define cfg where "cfg = medusa_cfg bs sz io n"
  let ?r = "fst (rpos bs sz io n i)" and ?off = "snd (rpos bs sz io n i)"
  have nth: "mps_nth i s0 = mps_at cfg i ?r ?off"
    unfolding s0_def cfg_def by (rule walk_ring [OF ok]) (use Suc.prems n in \<open>simp_all add: medusa_cfg_def\<close>)
  let ?v = "ucast (of_nat (ring_offset bs sz io n i) :: u32)"
  have v: "mps_block_index (mps_nth i s0) * cfg_block_size (mps_cfg (mps_nth i s0)) + mps_block_offset (mps_nth i s0) =
      of_nat (ring_offset bs sz io n i)"
    by (simp add: nth mps_at_def cfg_def medusa_cfg_def ring_offset_def)
  define offs1 where "offs1 = offs[i := ?v]"
  have put: "shadow_put offs i ?v = offs1" using Suc.prems by (simp add: shadow_put_def offs1_def)
  have bc: "cfg_buffer_count cfg = of_nat n" by (simp add: cfg_def medusa_cfg_def)
  have io: "unat (cfg_initial_offset cfg) = io" using ok by (simp add: cfg_def medusa_cfg_def walk_ok_def unat_of_nat)
  have step: "off_fill (n - i) i (mps_nth i s0) offs =
      (case ndp_ctrl_medusa_mps_inc (mps_nth i s0) of (r, s1) \<Rightarrow> if r = - 1 then (s1, offs1) else off_fill k (Suc i) s1 offs1)"
    using Suc.hyps(2) by (simp add: v put flip: Suc.hyps(2))
  show ?case
  proof (cases "Suc i = n")
    case True
    then have "ndp_ctrl_medusa_mps_inc (mps_nth i s0) = (- 1, s0)"
      unfolding nth using inc_last [of i cfg ?r ?off] bc io by (simp add: s0_def cfg_def)
    with step Suc.prems True show ?thesis
      by (intro exI [of _ offs1]) (auto simp: offs1_def nth_list_update le_less_Suc_eq)
  next
    case False
    then have lt: "Suc i < n" using Suc.prems by simp
    have ne: "of_nat (Suc i) \<noteq> cfg_buffer_count cfg"
      unfolding bc using lt n(1) of_nat_u32_eq [of "Suc i" n] by (simp del: of_nat_Suc)
    have fit: "?off + sz \<le> bs" using vpos_fits [of io sz bs i] ok by (simp add: rpos_snd walk_ok_def)
    have r: "fst (ndp_ctrl_medusa_mps_inc (mps_nth i s0)) \<noteq> - 1"
      using inc_at [of cfg bs sz ?off i ?r, OF _ _ fit _ ne] ok by (simp add: nth cfg_def medusa_cfg_def walk_ok_def)
    have k: "k = n - Suc i" using Suc.hyps(2) by simp
    from Suc.hyps(1) [OF k lt, of offs1] Suc.prems(2) obtain offs' where
      IH: "off_fill (n - Suc i) (Suc i) (mps_nth (Suc i) s0) offs1 = (s0, offs')" "length offs' = length offs1"
      "\<forall>j < Suc i. offs' ! j = offs1 ! j"
      "\<forall>j. Suc i \<le> j \<and> j < n \<longrightarrow> offs' ! j = ucast (of_nat (ring_offset bs sz io n j) :: u32)"
      by (auto simp: offs1_def)
    have "off_fill (n - i) i (mps_nth i s0) offs = (s0, offs')"
      using step r IH(1) k by (simp add: case_prod_beta)
    moreover have "offs' ! j = ucast (of_nat (ring_offset bs sz io n j) :: u32)" if "i \<le> j" "j < n" for j
      using that IH(3,4) Suc.prems by (cases "j = i") (auto simp: offs1_def)
    ultimately show ?thesis using IH(2,3) by (intro exI [of _ offs']) (auto simp: offs1_def)
  qed
qed simp

lemma fill_loop_offs: "nd_offs (mps_fill_loop n at blocks ctrl) = nd_offs ctrl"
  by (induction n arbitrary: at ctrl) (simp_all add: Let_def)

lemma ndp_ctrl_start_frame:
  "ndp_ctrl_start ctrl sp = (r, ctrl') \<Longrightarrow> \<exists>c. ctrl' = ctrl\<lparr>nd_c := c\<rparr>"
  by (auto simp: ndp_ctrl_start_def split: prod.splits if_splits)

text \<open>After a successful start of a Medusa channel the table of packet offsets, which the applications
  read, names for every buffer the byte where it begins in the ring; in a ring of at most 4 GiB all
  buffers lie inside the ring and no two of them overlap, and the start pointer is 0.
\<close>

theorem medusa_start_offsets:
  assumes "ndp_ctrl_medusa_start ch = (0, h, ch')"
    and "mps_cfg (nd_mps (ch_ctrl ch)) = medusa_cfg bs sz io n" and "walk_ok bs sz io" and "0 < n" and "n < 2 ^ 31"
    and "n \<le> length (nd_offs (ch_ctrl ch))" and "vblocks bs sz io n * bs \<le> 2 ^ 32"
  shows "h = Some 0 \<and>
    (\<forall>i < n. unat (nd_offs (ch_ctrl ch') ! i) = ring_offset bs sz io n i \<and>
      unat (nd_offs (ch_ctrl ch') ! i) + sz \<le> vblocks bs sz io n * bs \<and>
      (\<forall>j < i. unat (nd_offs (ch_ctrl ch') ! i) + sz \<le> unat (nd_offs (ch_ctrl ch') ! j) \<or>
               unat (nd_offs (ch_ctrl ch') ! j) + sz \<le> unat (nd_offs (ch_ctrl ch') ! i)))"
proof -
  have un: "unat (of_nat n :: u32) = n" using assms(5) by (simp add: unat_of_nat)
  have uio: "unat (cfg_initial_offset (medusa_cfg bs sz io n)) = io"
    using assms(3) by (simp add: medusa_cfg_def walk_ok_def unat_of_nat)
  obtain offs where f: "off_fill n 0 (mps_at (medusa_cfg bs sz io n) 0 0 io) (nd_offs (ch_ctrl ch)) =
      (mps_at (medusa_cfg bs sz io n) 0 0 io, offs)"
    and offs: "\<And>i. i < n \<Longrightarrow> offs ! i = ucast (of_nat (ring_offset bs sz io n i) :: u32)"
    using off_fill_walk [OF assms(3,5,6,4)] by auto
  have eq: "h = Some 0 \<and> nd_offs (ch_ctrl ch') = offs"
    using assms(1,2) f un uio
    by (auto simp: ndp_ctrl_medusa_start_def Let_def meta_first_at ndp_ctrl_mps_fill_rx_descs_def fill_loop_offs
        split: prod.splits if_splits dest!: ndp_ctrl_start_frame) (auto simp: medusa_cfg_def)
  have val: "unat (offs ! i) = ring_offset bs sz io n i" if "i < n" for i
  proof -
    have "ring_offset bs sz io n i < 2 ^ 32"
      using ring_offset_fits [OF assms(3) that] assms(3,7) by (simp add: walk_ok_def)
    then show ?thesis by (simp add: offs that unsigned_of_nat take_bit_nat_eq_self)
  qed
  show ?thesis
    using eq val ring_offset_fits [OF assms(3)] ring_offset_disjoint [OF assms(3)] by auto
qed

definition example_medusa_tx :: "ndp_ctrl ndp_channel" where
  "example_medusa_tx = (zero_channel (example_ndp_ctrl\<lparr>
     nd_c := example_ctrl\<lparr>nc_dir := True, nc_comp := example_comp\<lparr>comp_bus :=
       \<lparr>mi_env = (\<lambda>_ addr _. Some (if addr = 0x1058 then - 1 else 0)), mi_log = []\<rparr>\<rparr>\<rparr>,
     nd_mps := mps_at (medusa_cfg 8192 4096 0 2) 0 0 0, nd_offs := [0, 0], nd_descs := [0, 0],
     nd_desc_count := 2, nd_hdr_count := 2\<rparr>))\<lparr>ch_id := \<lparr>cid_index = 0, cid_type = NDP_CHANNEL_TYPE_TX\<rparr>\<rparr>"

theorem medusa_start_offsets_witness:
  "fst (ndp_ctrl_medusa_start example_medusa_tx) = 0 \<and>
   unat (nd_offs (ch_ctrl (snd (snd (ndp_ctrl_medusa_start example_medusa_tx)))) ! 1) = 4096"
proof -
  have r: "fst (ndp_ctrl_medusa_start example_medusa_tx) = 0" by code_simp
  then have e: "ndp_ctrl_medusa_start example_medusa_tx = (0, fst (snd (ndp_ctrl_medusa_start example_medusa_tx)),
      snd (snd (ndp_ctrl_medusa_start example_medusa_tx)))" by (metis prod.collapse)
  have v: "vblocks 8192 4096 0 2 = 1" "ring_offset 8192 4096 0 2 1 = 4096"
    by (simp_all add: vblocks_def ring_offset_def rpos_def numeral_2_eq_2)
  have c: "mps_cfg (nd_mps (ch_ctrl example_medusa_tx)) = medusa_cfg 8192 4096 0 2"
    "walk_ok 8192 4096 0" "2 \<le> length (nd_offs (ch_ctrl example_medusa_tx))" "vblocks 8192 4096 0 2 * 8192 \<le> 2 ^ 32"
    by (simp_all add: example_medusa_tx_def mps_at_def zero_channel_def walk_ok_def v)
  from medusa_start_offsets [OF e c(1,2) _ _ c(3,4)] r v(2) show ?thesis by simp
qed

section \<open>Descriptors of the buffers\<close>

text \<open>The descriptors of one refill as a list, with the walk and the upper address bits after it.\<close>

primrec fill_list :: "nat \<Rightarrow> ndp_block list \<Rightarrow> ndp_ctrl_state_mps \<Rightarrow> u64 \<Rightarrow> nc_ndp_desc list \<times> ndp_ctrl_state_mps \<times> u64" where
  "fill_list 0 blocks s u = ([], s, u)"
| "fill_list (Suc n) blocks s u =
     (let addr = blk_phys (blocks ! unat (mps_block_index s)) + ucast (mps_block_offset s) in
      if NDP_CTRL_DESC_UPPER_ADDR addr \<noteq> u then
        case fill_list n blocks s (NDP_CTRL_DESC_UPPER_ADDR addr) of (ds, r) \<Rightarrow> (nc_ndp_rx_desc0 addr # ds, r)
      else
        case fill_list n blocks (snd (ndp_ctrl_medusa_mps_inc s)) u of (ds, r) \<Rightarrow>
          (nc_ndp_rx_desc2 addr (ucast (cfg_buffer_size (mps_cfg s))) False # ds, r))"

primrec shadow_puts :: "'a list \<Rightarrow> nat \<Rightarrow> 'a list \<Rightarrow> 'a list" where
  "shadow_puts buf at [] = buf"
| "shadow_puts buf at (x # xs) = shadow_puts (shadow_put buf at x) (Suc at) xs" for xs

lemma fill_loop_list:
  "mps_fill_loop n at blocks ctrl =
     (case fill_list n blocks (nd_mps ctrl) (nc_last_upper_addr (nd_c ctrl)) of (ds, s, u) \<Rightarrow>
        ctrl\<lparr>nd_c := (nd_c ctrl)\<lparr>nc_last_upper_addr := u\<rparr>, nd_mps := s, nd_descs := shadow_puts (nd_descs ctrl) at ds\<rparr>)"
  by (induction n arbitrary: at ctrl) (simp_all add: Let_def split: prod.splits)

lemma length_shadow_put [simp]: "length (shadow_put buf i x) = length buf"
  by (simp add: shadow_put_def)

lemma length_shadow_puts [simp]: "length (shadow_puts buf at xs) = length buf"
  by (induction xs arbitrary: buf at) simp_all

lemma shadow_get_put: "buf \<noteq> [] \<Longrightarrow> shadow_get (shadow_put buf i x) j = (if i mod length buf = j mod length buf then x else shadow_get buf j)"
  by (simp add: shadow_get_def shadow_put_def)

lemma shadow_puts_frame:
  "buf \<noteq> [] \<Longrightarrow> (\<And>k. k < length xs \<Longrightarrow> (at + k) mod length buf \<noteq> j mod length buf) \<Longrightarrow>
   shadow_get (shadow_puts buf at xs) j = shadow_get buf j"
proof (induction xs arbitrary: buf at)
  case (Cons x xs)
  have "at mod length buf \<noteq> j mod length buf" using Cons.prems(2) [of 0] by simp
  moreover have "(Suc at + k) mod length buf \<noteq> j mod length buf" if "k < length xs" for k
    using Cons.prems(2) [of "Suc k"] that by simp
  moreover have "shadow_put buf at x \<noteq> []" using Cons.prems(1) by (simp add: shadow_put_def)
  ultimately show ?case using Cons.IH [of "shadow_put buf at x" "Suc at"] Cons.prems(1) by (simp add: shadow_get_put)
qed simp

lemma mod_shift_ne: "0 < d \<Longrightarrow> d < m \<Longrightarrow> (a + d) mod m \<noteq> a mod m" for a :: nat
  by (metis add_diff_cancel_left' le_add1 mod_eq_dvd_iff_nat nat_dvd_not_less)

text \<open>A refill of at most the whole buffer is read back in order through the double mapping.\<close>

lemma shadow_puts_get:
  "length xs \<le> length buf \<Longrightarrow> j < length xs \<Longrightarrow> shadow_get (shadow_puts buf at xs) (at + j) = xs ! j"
proof (induction xs arbitrary: buf at j)
  case (Cons x xs)
  then have ne: "buf \<noteq> []" "shadow_put buf at x \<noteq> []" by (auto simp: shadow_put_def)
  show ?case
  proof (cases j)
    case 0
    have "(Suc at + k) mod length buf \<noteq> at mod length buf" if "k < length xs" for k
      using mod_shift_ne [of "Suc k" "length buf" at] that Cons.prems(1) by simp
    with shadow_puts_frame [OF ne(2), of xs "Suc at" at] ne 0 show ?thesis by (simp add: shadow_get_put)
  next
    case (Suc k)
    with Cons.IH [of "shadow_put buf at x" k "Suc at"] Cons.prems show ?thesis by simp
  qed
qed simp

text \<open>What the hardware makes of the descriptors of a refill: consecutive buffers of the walk.\<close>

definition walk_buffer :: "ndp_block list \<Rightarrow> ndp_ctrl_state_mps \<Rightarrow> u64 \<times> u64" where
  "walk_buffer blocks s = (blk_phys (blocks ! unat (mps_block_index s)) + ucast (mps_block_offset s),
     ucast (ucast (cfg_buffer_size (mps_cfg s)) :: u16))"

lemma length_fill_list [simp]: "length (fst (fill_list n blocks s u)) = n"
  by (induction n arbitrary: s u) (simp_all add: Let_def case_prod_beta)

lemma mps_nth_inc: "mps_nth i (snd (ndp_ctrl_medusa_mps_inc s)) = mps_nth (Suc i) s"
  by (simp only: mps_nth_def funpow_Suc_right comp_def)

lemma fill_list_walk:
  assumes "fill_list n blocks s u = (ds, s', u')"
  shows "\<exists>k. k \<le> n \<and> n \<le> 2 * k + (if NDP_CTRL_DESC_UPPER_ADDR (fst (walk_buffer blocks s)) = u then 0 else 1) \<and>
    s' = mps_nth k s \<and> hw_walk u ds = (u', map (\<lambda>i. walk_buffer blocks (mps_nth i s)) [0 ..< k])"
  using assms
proof (induction n arbitrary: s u ds)
  case (Suc n)
  let ?a = "blk_phys (blocks ! unat (mps_block_index s)) + ucast (mps_block_offset s)"
  let ?len = "ucast (cfg_buffer_size (mps_cfg s)) :: u16"
  have wb: "walk_buffer blocks s = (?a, ucast ?len)" by (simp add: walk_buffer_def)
  show ?case
  proof (cases "NDP_CTRL_DESC_UPPER_ADDR ?a = u")
    case True
    obtain ds1 where f: "fill_list n blocks (snd (ndp_ctrl_medusa_mps_inc s)) u = (ds1, s', u')"
      and ds: "ds = nc_ndp_rx_desc2 ?a ?len False # ds1"
      using Suc.prems True by (auto simp: Let_def split: prod.splits)
    from Suc.IH [OF f] obtain k where k: "k \<le> n" "n \<le> 2 * k + 1" "s' = mps_nth (Suc k) s"
      "hw_walk u ds1 = (u', map (\<lambda>i. walk_buffer blocks (mps_nth (Suc i) s)) [0 ..< k])"
      unfolding mps_nth_inc by (auto split: if_splits)
    have "map (\<lambda>i. walk_buffer blocks (mps_nth i s)) [0 ..< Suc k] =
        walk_buffer blocks s # map (\<lambda>i. walk_buffer blocks (mps_nth (Suc i) s)) [0 ..< k]"
      by (simp only: upt_conv_Cons zero_less_Suc list.map map_Suc_upt [symmetric] map_map comp_def mps_nth_simps(1))
    moreover have "hw_walk u ds = (u', walk_buffer blocks s # map (\<lambda>i. walk_buffer blocks (mps_nth (Suc i) s)) [0 ..< k])"
      using k(4) tx_desc2_fields [of ?a ?len 0 False] upper_or_lower [of ?a] True
      by (simp add: ds wb rx_desc2_is_tx)
    ultimately show ?thesis using k True by (intro exI [of _ "Suc k"]) (simp del: upt_Suc)
  next
    case False
    obtain ds1 where f: "fill_list n blocks s (NDP_CTRL_DESC_UPPER_ADDR ?a) = (ds1, s', u')"
      and ds: "ds = nc_ndp_rx_desc0 ?a # ds1"
      using Suc.prems False by (auto simp: Let_def split: prod.splits)
    from Suc.IH [OF f] wb obtain k where k: "k \<le> n" "n \<le> 2 * k" "s' = mps_nth k s"
      "hw_walk (NDP_CTRL_DESC_UPPER_ADDR ?a) ds1 = (u', map (\<lambda>i. walk_buffer blocks (mps_nth i s)) [0 ..< k])"
      by auto
    then show ?thesis using False
      by (intro exI [of _ k]) (simp add: ds wb desc0_type desc0_upper)
  qed
qed simp

text \<open>Every refill of the Medusa receive descriptors hands exactly the next buffers of the walk to the
  hardware: read in order from the software pointer on, the new descriptors name the following
  buffers with their full address and length, the walk moves on by their number, and at least every
  second descriptor names a buffer.  The upper address bits the driver remembers are those the
  hardware has seen last.
\<close>

theorem medusa_refill_names_buffers:
  fixes blocks :: "ndp_block list"
  assumes "unat n \<le> length (nd_descs ctrl)"
  defines "ctrl' \<equiv> ndp_ctrl_mps_fill_rx_descs blocks n ctrl"
  shows "\<exists>k. k \<le> unat n \<and> unat n \<le> 2 * k + 1 \<and> nd_mps ctrl' = mps_nth k (nd_mps ctrl) \<and>
    nc_sdp (nd_c ctrl') = (nc_sdp (nd_c ctrl) + ucast n) AND nc_mdp (nd_c ctrl) \<and>
    hw_walk (nc_last_upper_addr (nd_c ctrl))
      (map (\<lambda>j. shadow_get (nd_descs ctrl') (unat (nc_sdp (nd_c ctrl)) + j)) [0 ..< unat n]) =
    (nc_last_upper_addr (nd_c ctrl'), map (\<lambda>i. walk_buffer blocks (mps_nth i (nd_mps ctrl))) [0 ..< k])"
proof -
  obtain ds s u where f: "fill_list (unat n) blocks (nd_mps ctrl) (nc_last_upper_addr (nd_c ctrl)) = (ds, s, u)"
    using prod_cases3 by blast
  then have len: "length ds = unat n" using length_fill_list [of "unat n"] by (metis fst_conv)
  have c: "nd_mps ctrl' = s" "nc_last_upper_addr (nd_c ctrl') = u"
    "nd_descs ctrl' = shadow_puts (nd_descs ctrl) (unat (nc_sdp (nd_c ctrl))) ds"
    "nc_sdp (nd_c ctrl') = (nc_sdp (nd_c ctrl) + ucast n) AND nc_mdp (nd_c ctrl)"
    by (simp_all add: ctrl'_def ndp_ctrl_mps_fill_rx_descs_def fill_loop_list f Let_def)
  have "map (\<lambda>j. shadow_get (nd_descs ctrl') (unat (nc_sdp (nd_c ctrl)) + j)) [0 ..< unat n] = ds"
    unfolding c by (rule nth_equalityI) (use len assms(1) in \<open>simp_all add: shadow_puts_get\<close>)
  moreover obtain k where "k \<le> unat n" "unat n \<le> 2 * k + 1" "s = mps_nth k (nd_mps ctrl)"
    "hw_walk (nc_last_upper_addr (nd_c ctrl)) ds = (u, map (\<lambda>i. walk_buffer blocks (mps_nth i (nd_mps ctrl))) [0 ..< k])"
    using fill_list_walk [OF f] by (elim exE conjE) (simp split: if_splits)
  ultimately show ?thesis using c by (intro exI [of _ k]) simp
qed

theorem medusa_refill_names_buffers_witness:
  "\<exists>k. k \<le> 2 \<and> 2 \<le> 2 * k + 1 \<and>
    nd_mps (ndp_ctrl_mps_fill_rx_descs (ring_blocks example_ring) 2 (ch_ctrl example_medusa_tx)) =
      mps_nth k (mps_at (medusa_cfg 8192 4096 0 2) 0 0 0)"
proof -
  have len: "unat (2 :: u64) \<le> length (nd_descs (ch_ctrl example_medusa_tx))"
    and s: "nd_mps (ch_ctrl example_medusa_tx) = mps_at (medusa_cfg 8192 4096 0 2) 0 0 0"
    by (simp_all add: example_medusa_tx_def zero_channel_def)
  from medusa_refill_names_buffers [OF len, of "ring_blocks example_ring"] obtain k where
    "k \<le> unat (2 :: u64)" "unat (2 :: u64) \<le> 2 * k + 1"
    "nd_mps (ndp_ctrl_mps_fill_rx_descs (ring_blocks example_ring) 2 (ch_ctrl example_medusa_tx)) =
      mps_nth k (nd_mps (ch_ctrl example_medusa_tx))"
    by (elim exE conjE) (rule that)
  then show ?thesis unfolding s by (intro exI [of _ k]) simp
qed

end
