(* ===== verification/NdpPointers.thy ===== *)
theory NdpPointers
  imports NdpWalk
begin

text \<open>
  The pointers of the Medusa and Calypte controllers, \<open>drivers/kernel/drivers/nfb/ndp/ctrl_ndp.c\<close>: the
  account of free transmit descriptors and bytes, that transmit never overwrites a descriptor the
  hardware has still to read, and the scan for received packets.

  What the driver relies on of the hardware is \<open>hw_follows\<close>: the consumer pointer it reports moves
  forward and never passes the producer pointer that was written to it.
\<close>

section \<open>Transmit descriptors of Medusa\<close>

text \<open>The consumer pointers that the hardware will report, relative to the producer pointer \<open>s\<close> it knows.\<close>

fun hw_follows :: "nat \<Rightarrow> u32 \<Rightarrow> u32 \<Rightarrow> (u32 \<times> u32) list \<Rightarrow> bool" where
  "hw_follows k s h [] \<longleftrightarrow> True"
| "hw_follows k s h (u # us) \<longleftrightarrow> ring_dist k h (fst u) \<le> ring_dist k h s \<and> hw_follows k s (fst u) us"

text \<open>
  The account with the producer pointer \<open>sdp\<close>: the free descriptors and those between consumer and
  producer make up the whole ring but one.
\<close>

definition tx_account :: "nat \<Rightarrow> u32 \<Rightarrow> ndp_ctrl \<Rightarrow> bool" where
  "tx_account k sdp ctrl \<longleftrightarrow> k \<le> 31 \<and> nc_mdp (nd_c ctrl) = mask k \<and> nc_hdp (nd_c ctrl) = fst (nc_upd (nd_c ctrl)) \<and>
     unat (nd_free_desc ctrl) + ring_dist k (nc_hdp (nd_c ctrl)) sdp = 2 ^ k - 1"

text \<open>Reading the consumer pointer: \<open>known\<close> is the producer pointer the hardware knows.\<close>

lemma tx_get_hwptr_account:
  assumes acct: "tx_account k sdp (ch_ctrl ch)"
    and hw: "hw_follows k known (nc_hdp (nd_c (ch_ctrl ch))) (nc_updates (nd_c (ch_ctrl ch)))"
    and le: "ring_dist k (nc_hdp (nd_c (ch_ctrl ch))) known + w = ring_dist k (nc_hdp (nd_c (ch_ctrl ch))) sdp"
  defines "ch' \<equiv> snd (ndp_ctrl_medusa_tx_get_hwptr ch)"
  shows "tx_account k sdp (ch_ctrl ch')"
    "hw_follows k known (nc_hdp (nd_c (ch_ctrl ch'))) (nc_updates (nd_c (ch_ctrl ch')))"
    "ring_dist k (nc_hdp (nd_c (ch_ctrl ch'))) known + w = ring_dist k (nc_hdp (nd_c (ch_ctrl ch'))) sdp"
    "nd_descs (ch_ctrl ch') = nd_descs (ch_ctrl ch)"
proof -
  let ?c = "nd_c (ch_ctrl ch)"
  define h where "h = nc_hdp ?c"
  define h' where "h' = nc_hdp (nc_ndp_ctrl_hdp_update ?c)"
  have k: "k \<le> 31" and m: "nc_mdp ?c = mask k" and u: "h = fst (nc_upd ?c)"
    and sum: "unat (nd_free_desc (ch_ctrl ch)) + ring_dist k h sdp = 2 ^ k - 1"
    using acct by (auto simp: tx_account_def h_def)
  have d: "ring_dist k h h' \<le> ring_dist k h known"
    and hw': "hw_follows k known h' (nc_updates (nc_ndp_ctrl_hdp_update ?c))"
    using hw u by (auto simp: h'_def h_def nc_ndp_ctrl_hdp_update_def nc_upd_read_def Let_def split: list.splits)
  have d2: "ring_dist k h h' \<le> ring_dist k h sdp" using d le by (simp add: h_def)
  have cnt: "unat ((h' - h) AND mask k) = ring_dist k h h'" by (simp add: ring_dist_def)
  have "ring_dist k h h' + unat (nd_free_desc (ch_ctrl ch)) < 2 ^ 32"
  proof -
    have "(2 :: nat) ^ k \<le> 2 ^ 31" using k by (rule power_increasing) simp
    then show ?thesis using d2 sum by simp
  qed
  then have free: "unat (nd_free_desc (ch_ctrl ch) + ((h' - h) AND mask k)) = unat (nd_free_desc (ch_ctrl ch)) + ring_dist k h h'"
    by (simp add: unat_word_ariths cnt)
  have upd: "nc_mdp (nc_ndp_ctrl_hdp_update ?c) = mask k" "fst (nc_upd (nc_ndp_ctrl_hdp_update ?c)) = h'"
    using m by (simp_all add: h'_def nc_ndp_ctrl_hdp_update_def nc_upd_read_def Let_def split: list.splits)
  obtain x where r: "nd_c (ch_ctrl ch') = (nc_ndp_ctrl_hdp_update ?c)\<lparr>nc_hhp := x\<rparr>"
    "nd_free_desc (ch_ctrl ch') = nd_free_desc (ch_ctrl ch) + ((h' - h) AND mask k)"
    using upd by (simp add: ch'_def ndp_ctrl_medusa_tx_get_hwptr_def Let_def h_def h'_def)
  have hdp: "nc_hdp (nd_c (ch_ctrl ch')) = h'" by (simp add: r h'_def)
  show "nd_descs (ch_ctrl ch') = nd_descs (ch_ctrl ch)"
    by (simp add: ch'_def ndp_ctrl_medusa_tx_get_hwptr_def Let_def)
  show "tx_account k sdp (ch_ctrl ch')"
    using k upd free sum d2 ring_dist_split [OF d2] by (simp add: tx_account_def hdp) (simp add: r)
  show "hw_follows k known (nc_hdp (nd_c (ch_ctrl ch'))) (nc_updates (nd_c (ch_ctrl ch')))"
    unfolding hdp using hw' by (simp add: r)
  show "ring_dist k (nc_hdp (nd_c (ch_ctrl ch'))) known + w = ring_dist k (nc_hdp (nd_c (ch_ctrl ch'))) sdp"
    unfolding hdp using ring_dist_split [OF d] ring_dist_split [OF d2] le d by (simp add: h_def)
qed

text \<open>Waiting for free descriptors keeps the account, and ends with enough of them or with a kill.\<close>

lemma tx_wait_account:
  assumes "tx_account k sdp (ch_ctrl ch)"
    and "hw_follows k known (nc_hdp (nd_c (ch_ctrl ch))) (nc_updates (nd_c (ch_ctrl ch)))"
    and "ring_dist k (nc_hdp (nd_c (ch_ctrl ch))) known + w = ring_dist k (nc_hdp (nd_c (ch_ctrl ch))) sdp"
    and "ndp_ctrl_medusa_tx_wait_for_free_desc ch n = (killed, ch')"
  shows "tx_account k sdp (ch_ctrl ch') \<and>
    hw_follows k known (nc_hdp (nd_c (ch_ctrl ch'))) (nc_updates (nd_c (ch_ctrl ch'))) \<and>
    ring_dist k (nc_hdp (nd_c (ch_ctrl ch'))) known + w = ring_dist k (nc_hdp (nd_c (ch_ctrl ch'))) sdp \<and>
    nd_descs (ch_ctrl ch') = nd_descs (ch_ctrl ch) \<and> (\<not> killed \<longrightarrow> n \<le> nd_free_desc (ch_ctrl ch'))"
  using assms
proof (induction ch n arbitrary: ch' rule: ndp_ctrl_medusa_tx_wait_for_free_desc.induct)
  case (1 ch n)
  note simps = ndp_ctrl_medusa_tx_wait_for_free_desc.simps [of ch n]
  let ?ch1 = "snd (ndp_ctrl_medusa_tx_get_hwptr ch)"
  note step = tx_get_hwptr_account [OF 1(2-4)]
  show ?case
  proof (cases "nd_free_desc (ch_ctrl ch) < n")
    case True
    show ?thesis
    proof (cases "nd_patience (ch_ctrl ch)")
      case 0
      with True simps 1(5) step show ?thesis by simp
    next
      case (Suc p)
      let ?ch2 = "?ch1\<lparr>ch_ctrl := (ch_ctrl ?ch1)\<lparr>nd_patience := p\<rparr>\<rparr>"
      have "ndp_ctrl_medusa_tx_wait_for_free_desc ?ch2 n = (killed, ch')" using True Suc simps 1(5) by (simp add: Let_def)
      moreover have "tx_account k sdp (ch_ctrl ?ch2)" using step(1) by (auto simp: tx_account_def)
      ultimately show ?thesis using 1(1) [OF True Suc, unfolded Let_def, of ch'] step(2-4) by simp
    qed
  next
    case False
    with simps 1 show ?thesis by simp
  qed
qed

lemma tx_put_account:
  assumes "tx_account k sdp ctrl" and "1 \<le> nd_free_desc ctrl"
    and c: "nc_mdp c = nc_mdp (nd_c ctrl)" "nc_hdp c = nc_hdp (nd_c ctrl)" "nc_upd c = nc_upd (nd_c ctrl)"
    "nd_c ctrl' = c" "nd_free_desc ctrl' = nd_free_desc ctrl - 1"
  shows "tx_account k (sdp + 1) ctrl'" "ring_dist k (nc_hdp (nd_c ctrl)) (sdp + 1) = Suc (ring_dist k (nc_hdp (nd_c ctrl)) sdp)"
proof -
  have free: "unat (nd_free_desc ctrl - 1) = unat (nd_free_desc ctrl) - 1" "1 \<le> unat (nd_free_desc ctrl)"
    using assms(2) by (simp_all add: unat_sub word_le_nat_alt)
  have k: "k \<le> 32" using assms(1) by (simp add: tx_account_def)
  have "ring_dist k (nc_hdp (nd_c ctrl)) sdp + 1 < 2 ^ k" using assms(1) free(2) by (auto simp: tx_account_def)
  from ring_dist_advance [OF this k]
  show d: "ring_dist k (nc_hdp (nd_c ctrl)) (sdp + 1) = Suc (ring_dist k (nc_hdp (nd_c ctrl)) sdp)" by simp
  show "tx_account k (sdp + 1) ctrl'" using assms(1) free d c by (auto simp: tx_account_def)
qed

lemma shadow_puts_cong:
  "at mod length buf = at' mod length buf \<Longrightarrow> shadow_puts buf at xs = shadow_puts buf at' xs"
proof (induction xs arbitrary: buf at at')
  case (Cons x xs)
  then have "shadow_put buf at x = shadow_put buf at' x" by (simp add: shadow_put_def)
  moreover have "Suc at mod length buf = Suc at' mod length buf" using Cons.prems by (metis mod_Suc_eq)
  ultimately show ?case using Cons.IH [of "Suc at" "shadow_put buf at' x" "Suc at'"] by simp
qed simp

lemma unat_suc_mod: "k \<le> 32 \<Longrightarrow> unat (a + 1 :: u32) mod 2 ^ k = Suc (unat a) mod 2 ^ k"
  by (simp add: unat_word_ariths le_imp_power_dvd mod_mod_cancel flip: power_numeral)

lemma shadow_puts_step:
  fixes a :: u32
  assumes "length buf = 2 ^ k" and "k \<le> 32"
  shows "shadow_puts (shadow_put buf (unat a) x) (unat (a + 1)) xs = shadow_puts buf (unat a) (x # xs)"
  using shadow_puts_cong [of "unat (a + 1)" "shadow_put buf (unat a) x" "Suc (unat a)" xs] unat_suc_mod [OF assms(2), of a] assms(1)
  by simp

text \<open>The whole loop: \<open>ds\<close> are the descriptors it writes, one after the other from the producer pointer on.\<close>

lemma tx_fill_account:
  assumes "tx_fill_loop n i shp sdp ch = (sdp', ch')" and "tx_account k sdp (ch_ctrl ch)"
    and "hw_follows k known (nc_hdp (nd_c (ch_ctrl ch))) (nc_updates (nd_c (ch_ctrl ch)))"
    and "ring_dist k (nc_hdp (nd_c (ch_ctrl ch))) known + w = ring_dist k (nc_hdp (nd_c (ch_ctrl ch))) sdp"
    and "length (nd_descs (ch_ctrl ch)) = 2 ^ k"
  shows "\<exists>ds. sdp' = sdp + of_nat (length ds) \<and> tx_account k sdp' (ch_ctrl ch') \<and>
    nd_descs (ch_ctrl ch') = shadow_puts (nd_descs (ch_ctrl ch)) (unat sdp) ds \<and>
    ring_dist k (nc_hdp (nd_c (ch_ctrl ch'))) known + (w + length ds) = ring_dist k (nc_hdp (nd_c (ch_ctrl ch'))) sdp'"
  using assms
proof (induction n arbitrary: i sdp ch w)
  case 0
  then show ?case by (intro exI [of _ "[]"]) simp
next
  case (Suc n)
  obtain killed ch1 where wt: "ndp_ctrl_medusa_tx_wait_for_free_desc ch 2 = (killed, ch1)" by force
  note w1 = tx_wait_account [OF Suc.prems(2-4) wt]
  define ctrl1 where "ctrl1 = ch_ctrl ch1"
  show ?case
  proof (cases killed)
    case True
    with Suc.prems(1) wt have "sdp' = sdp" "ch' = ch1" by (simp_all add: Let_def)
    with w1 show ?thesis by (intro exI [of _ "[]"]) simp
  next
    case False
    have two: "2 \<le> nd_free_desc ctrl1" using w1 False by (simp add: ctrl1_def)
    then have one: "1 \<le> nd_free_desc ctrl1" "1 \<le> nd_free_desc ctrl1 - 1"
      by (simp_all add: word_le_nat_alt unat_sub)
    have a1: "tx_account k sdp ctrl1" and k: "k \<le> 32" and l1: "length (nd_descs ctrl1) = 2 ^ k"
      using w1 Suc.prems(5) by (auto simp: ctrl1_def tx_account_def)
    let ?ctrl = "ch_ctrl ch"
    define addr where "addr = (if nd_mode ?ctrl = NDP_CTRL_MODE_USER then shadow_get (nd_offs ?ctrl) (unat shp + i)
      else blk_phys (ring_blocks (ch_ring ch) ! unat (mps_block_index (nd_mps ?ctrl))) + ucast (mps_block_offset (nd_mps ?ctrl)))"
    define d2 where "d2 = nc_ndp_tx_desc2 addr (hdr_frame_len (nd_hdrs ?ctrl (unat shp + i))) (ucast (hdr_meta (nd_hdrs ?ctrl (unat shp + i)))) False"
    define fresh where "fresh = (NDP_CTRL_DESC_UPPER_ADDR addr \<noteq> nc_last_upper_addr (nd_c ctrl1))"
    define ctrl2 where "ctrl2 = (if fresh then
        ctrl1\<lparr>nd_c := (nd_c ctrl1)\<lparr>nc_last_upper_addr := NDP_CTRL_DESC_UPPER_ADDR addr\<rparr>,
              nd_descs := shadow_put (nd_descs ctrl1) (unat sdp) (nc_ndp_tx_desc0 addr),
              nd_free_desc := nd_free_desc ctrl1 - 1\<rparr> else ctrl1)"
    define sdp1 where "sdp1 = (if fresh then sdp + 1 else sdp)"
    define ctrl3 where "ctrl3 = ctrl2\<lparr>nd_descs := shadow_put (nd_descs ctrl2) (unat sdp1) d2,
        nd_free_desc := nd_free_desc ctrl2 - 1, nd_mps := snd (ndp_ctrl_medusa_mps_inc (nd_mps ctrl2))\<rparr>"
    define pre where "pre = (if fresh then [nc_ndp_tx_desc0 addr] else [])"
    have rec: "tx_fill_loop n (Suc i) shp (sdp1 + 1) (ch1\<lparr>ch_ctrl := ctrl3\<rparr>) = (sdp', ch')"
      using Suc.prems(1) False
      unfolding ctrl3_def sdp1_def ctrl2_def fresh_def d2_def addr_def ctrl1_def
      by (simp only: tx_fill_loop.simps wt Let_def prod.case if_False)
    have same: "nc_hdp (nd_c ctrl3) = nc_hdp (nd_c ctrl1)" "nc_updates (nd_c ctrl3) = nc_updates (nd_c ctrl1)"
      "nc_hdp (nd_c ctrl2) = nc_hdp (nd_c ctrl1)" by (simp_all add: ctrl3_def ctrl2_def)
    have a2: "tx_account k sdp1 ctrl2" "ring_dist k (nc_hdp (nd_c ctrl1)) sdp1 = ring_dist k (nc_hdp (nd_c ctrl1)) sdp + length pre"
      "1 \<le> nd_free_desc ctrl2" "sdp1 = sdp + of_nat (length pre)"
      using a1 one tx_put_account [OF a1 one(1), of "nd_c ctrl2" ctrl2] by (auto simp: ctrl2_def sdp1_def pre_def)
    note p3 = tx_put_account [OF a2(1,3), of "nd_c ctrl3" ctrl3]
    have a3: "tx_account k (sdp1 + 1) ctrl3" by (rule p3) (simp_all add: ctrl3_def)
    have d3: "ring_dist k (nc_hdp (nd_c ctrl3)) (sdp1 + 1) = ring_dist k (nc_hdp (nd_c ctrl1)) sdp + length (pre @ [d2])"
      using tx_put_account(2) [OF a2(1,3), of "nd_c ctrl2" "ctrl2\<lparr>nd_free_desc := nd_free_desc ctrl2 - 1\<rparr>"] a2(2)
      by (simp add: same)
    have l2: "length (nd_descs ctrl2) = 2 ^ k" using l1 by (simp add: ctrl2_def)
    have puts: "shadow_puts (nd_descs ctrl3) (unat (sdp1 + 1)) ds = shadow_puts (nd_descs ctrl1) (unat sdp) ((pre @ [d2]) @ ds)" for ds
      using shadow_puts_step [OF l2 k, of sdp1 d2 ds] shadow_puts_step [OF l1 k, of sdp "nc_ndp_tx_desc0 addr" "d2 # ds"]
      by (simp add: ctrl3_def) (simp add: ctrl2_def sdp1_def pre_def)
    from Suc.IH [OF rec, of "w + length (pre @ [d2])"] a3 d3 same w1 l2 obtain ds where
      ds: "sdp' = sdp1 + 1 + of_nat (length ds)" "tx_account k sdp' (ch_ctrl ch')"
      "nd_descs (ch_ctrl ch') = shadow_puts (nd_descs ctrl3) (unat (sdp1 + 1)) ds"
      "ring_dist k (nc_hdp (nd_c (ch_ctrl ch'))) known + (w + length (pre @ [d2]) + length ds) = ring_dist k (nc_hdp (nd_c (ch_ctrl ch'))) sdp'"
      by (auto simp: ctrl1_def [symmetric]) (auto simp: ctrl3_def)
    have "nd_descs ctrl1 = nd_descs (ch_ctrl ch)" using w1 by (simp add: ctrl1_def)
    with ds puts a2(4) show ?thesis
      by (intro exI [of _ "(pre @ [d2]) @ ds"]) (simp add: algebra_simps)
  qed
qed

text \<open>C13.  Transmitting on a Medusa channel never overwrites a descriptor that the hardware has still to
  read: after a new software pointer was set, all descriptors between the consumer pointer and the old
  producer pointer are unchanged, and the free descriptors and the outstanding ones still make up the
  ring but one.  This holds for any number of packets, for waits and for a kill during a wait, if the
  hardware only reports consumer pointers up to the producer pointer it was given.
\<close>

theorem medusa_tx_no_overrun:
  fixes ch :: "ndp_ctrl ndp_channel" and ptr :: u64
  assumes "tx_account k (nc_sdp (nd_c (ch_ctrl ch))) (ch_ctrl ch)"
    and "hw_follows k (nc_sdp (nd_c (ch_ctrl ch))) (nc_hdp (nd_c (ch_ctrl ch))) (nc_updates (nd_c (ch_ctrl ch)))"
    and "length (nd_descs (ch_ctrl ch)) = 2 ^ k"
  defines "ctrl' \<equiv> ch_ctrl (ndp_ctrl_medusa_tx_set_swptr ch ptr)"
  shows "tx_account k (nc_sdp (nd_c ctrl')) ctrl' \<and>
    (\<forall>j < ring_dist k (nc_hdp (nd_c ctrl')) (nc_sdp (nd_c (ch_ctrl ch))).
       shadow_get (nd_descs ctrl') (unat (nc_hdp (nd_c ctrl')) + j) =
       shadow_get (nd_descs (ch_ctrl ch)) (unat (nc_hdp (nd_c ctrl')) + j))"
proof -
  let ?c = "nd_c (ch_ctrl ch)"
  define old where "old = nc_sdp ?c"
  obtain sdp' ch1 where l: "tx_fill_loop (unat ((ucast ptr - nc_shp ?c) AND nc_mhp ?c)) 0 (nc_shp ?c) old ch = (sdp', ch1)"
    by force
  from tx_fill_account [OF l, of k old 0] assms(1-3) obtain ds where
    acct: "tx_account k sdp' (ch_ctrl ch1)"
    and descs: "nd_descs (ch_ctrl ch1) = shadow_puts (nd_descs (ch_ctrl ch)) (unat old) ds"
    and dist: "ring_dist k (nc_hdp (nd_c (ch_ctrl ch1))) old + length ds = ring_dist k (nc_hdp (nd_c (ch_ctrl ch1))) sdp'"
    by (auto simp: old_def)
  define h where "h = nc_hdp (nd_c (ch_ctrl ch1))"
  have k: "k \<le> 32" "nc_mdp (nd_c (ch_ctrl ch1)) = mask k" using acct by (auto simp: tx_account_def)
  have ctrl': "nc_hdp (nd_c ctrl') = h" "nd_descs ctrl' = nd_descs (ch_ctrl ch1)" "tx_account k (nc_sdp (nd_c ctrl')) ctrl'"
    using acct l k(2) by (auto simp: ctrl'_def ndp_ctrl_medusa_tx_set_swptr_def Let_def nc_ndp_ctrl_sdp_flush_def h_def
        old_def [symmetric] tx_account_def)
  have less: "ring_dist k h old + length ds < 2 ^ k" using dist ring_dist_less [OF k(1)] by (simp add: h_def)
  have "shadow_get (nd_descs (ch_ctrl ch1)) (unat h + j) = shadow_get (nd_descs (ch_ctrl ch)) (unat h + j)"
    if j: "j < ring_dist k h old" for j
    unfolding descs
  proof (rule shadow_puts_frame)
    show "nd_descs (ch_ctrl ch) \<noteq> []" using assms(3) by auto
    fix i assume i: "i < length ds"
    let ?d = "ring_dist k h old + i - j"
    have "(unat old + i) mod 2 ^ k = (unat h + ring_dist k h old + i) mod 2 ^ k"
      using ring_dist_index [OF k(1), of h old] by (metis mod_add_left_eq)
    also have "unat h + ring_dist k h old + i = (unat h + j) + ?d" using j by simp
    finally have "(unat old + i) mod 2 ^ k = ((unat h + j) + ?d) mod 2 ^ k" .
    moreover have "((unat h + j) + ?d) mod 2 ^ k \<noteq> (unat h + j) mod 2 ^ k"
      by (rule mod_shift_ne) (use i j less in auto)
    ultimately show "(unat old + i) mod length (nd_descs (ch_ctrl ch)) \<noteq> (unat h + j) mod length (nd_descs (ch_ctrl ch))"
      using assms(3) by simp
  qed
  with ctrl' show ?thesis by (simp add: old_def)
qed

theorem medusa_tx_no_overrun_witness:
  "let ch = example_medusa_tx\<lparr>ch_ctrl := (ch_ctrl example_medusa_tx)\<lparr>nd_c := (nd_c (ch_ctrl example_medusa_tx))\<lparr>nc_mdp := 1, nc_mhp := 1\<rparr>,
        nd_free_desc := 1\<rparr>\<rparr>
   in tx_account 1 (nc_sdp (nd_c (ch_ctrl (ndp_ctrl_medusa_tx_set_swptr ch 1)))) (ch_ctrl (ndp_ctrl_medusa_tx_set_swptr ch 1))"
proof -
  let ?ch = "example_medusa_tx\<lparr>ch_ctrl := (ch_ctrl example_medusa_tx)\<lparr>nd_c := (nd_c (ch_ctrl example_medusa_tx))\<lparr>nc_mdp := 1, nc_mhp := 1\<rparr>,
        nd_free_desc := 1\<rparr>\<rparr>"
  have "tx_account 1 (nc_sdp (nd_c (ch_ctrl ?ch))) (ch_ctrl ?ch)"
    "hw_follows 1 (nc_sdp (nd_c (ch_ctrl ?ch))) (nc_hdp (nd_c (ch_ctrl ?ch))) (nc_updates (nd_c (ch_ctrl ?ch)))"
    "length (nd_descs (ch_ctrl ?ch)) = 2 ^ 1"
    by (simp_all add: tx_account_def example_medusa_tx_def zero_channel_def example_ctrl_def)
  from medusa_tx_no_overrun [OF this, of 1] show ?thesis by (simp add: Let_def)
qed

section \<open>Transmit bytes of Calypte\<close>

lemma mask_parts: "(x AND NOT (mask k)) + (x AND mask k) = x" for x :: "'a::len word"
proof -
  have "(x AND NOT (mask k)) AND (x AND mask k) = 0" by (rule bit_word_eqI) (simp add: bit_simps)
  then have "(x AND NOT (mask k)) + (x AND mask k) = (x AND NOT (mask k)) OR (x AND mask k)" by (rule disjunctive_add_eq_or)
  also have "\<dots> = x" by (rule bit_word_eqI) (auto simp: bit_simps)
  finally show ?thesis .
qed

lemma aligned_plus_low:
  fixes a b :: u32
  assumes "a AND mask 5 = 0" and "b AND NOT (mask 5) = 0"
  shows "(a + b) AND NOT (mask 5) = a"
proof -
  have a: "bit a i \<Longrightarrow> \<not> i < 5" for i using assms(1) by (metis bit_0_eq bit_and_iff bit_mask_iff bot_apply bot_bool_def possible_bit_word bit_imp_le_length)
  have b: "bit b i \<Longrightarrow> i < 5" for i using assms(2) by (metis bit_0_eq bit_and_iff bit_not_iff bit_mask_iff bot_apply bot_bool_def possible_bit_word bit_imp_le_length)
  have "a AND b = 0" by (rule bit_word_eqI) (auto simp: bit_and_iff dest: a b)
  then have "a + b = a OR b" by (rule disjunctive_add_eq_or)
  then show ?thesis using a b by (intro bit_word_eqI) (auto simp: bit_simps)
qed

text \<open>Rounding after the addition to an aligned pointer is rounding the length.\<close>

lemma tx_block_round_aligned:
  assumes "sdp AND mask 5 = 0"
  shows "tx_block_round (sdp + len) = sdp + tx_block_round len"
proof -
  have m: "(31 :: u32) = mask 5" by (simp add: mask_eq_exp_minus_1)
  let ?x = "len + mask 5"
  have al: "(sdp + (?x AND NOT (mask 5))) AND mask 5 = 0"
    using assms by (intro aligned_add) (simp_all add: and.assoc)
  have "sdp + len + mask 5 = (sdp + (?x AND NOT (mask 5))) + (?x AND mask 5)"
    using mask_parts [of ?x 5] by (simp add: add.assoc)
  moreover have "((sdp + (?x AND NOT (mask 5))) + (?x AND mask 5)) AND NOT (mask 5) = sdp + (?x AND NOT (mask 5))"
    by (rule aligned_plus_low [OF al]) (simp add: and.assoc)
  ultimately show ?thesis by (simp add: tx_block_round_def m algebra_simps)
qed

definition tx_bytes :: "(nat \<Rightarrow> nc_calypte_hdr) \<Rightarrow> nat \<Rightarrow> nat \<Rightarrow> nat" where
  "tx_bytes hdrs at n = (\<Sum>i < n. unat (tx_block_round (ucast (chdr_frame_len (hdrs (at + i))))))"

lemma tx_bytes_Suc:
  "tx_bytes hdrs at (Suc n) = unat (tx_block_round (ucast (chdr_frame_len (hdrs at)))) + tx_bytes hdrs (Suc at) n"
  unfolding tx_bytes_def sum.lessThan_Suc_shift by simp

lemma round_is_aligned: "tx_block_round x AND mask 5 = 0"
  by (simp add: tx_block_round_def mask_eq_exp_minus_1 and.assoc)

lemma calypte_tx_loop_account:
  assumes "calypte_tx_loop n at hdrs (mask k) sdp fb = (sdp', fb')" and "sdp AND mask 5 = 0" and "k \<le> 31"
    and "ring_dist k h sdp + tx_bytes hdrs at n < 2 ^ k" and "tx_bytes hdrs at n \<le> unat fb"
  shows "ring_dist k h sdp' = ring_dist k h sdp + tx_bytes hdrs at n \<and> unat fb' = unat fb - tx_bytes hdrs at n \<and>
    sdp' AND mask 5 = 0"
  using assms
proof (induction n arbitrary: at sdp fb)
  case 0
  then show ?case by (simp add: tx_bytes_def)
next
  case (Suc n)
  define r where "r = tx_block_round (ucast (chdr_frame_len (hdrs at)) :: u32)"
  define sdp1 where "sdp1 = tx_block_round (sdp + ucast (chdr_frame_len (hdrs at))) AND mask k"
  define fb1 where "fb1 = fb - ucast r"
  have b: "tx_bytes hdrs at (Suc n) = unat r + tx_bytes hdrs (Suc at) n" by (simp add: tx_bytes_Suc r_def)
  have rec: "calypte_tx_loop n (Suc at) hdrs (mask k) sdp1 fb1 = (sdp', fb')"
    using Suc.prems(1) by (simp add: Let_def sdp1_def fb1_def r_def)
  have s1: "tx_block_round (sdp + ucast (chdr_frame_len (hdrs at))) = sdp + r"
    using tx_block_round_aligned [OF Suc.prems(2)] by (simp add: r_def)
  have al: "sdp1 AND mask 5 = 0" unfolding sdp1_def using round_is_aligned by (metis and.assoc and.commute and_zero_eq)
  have "ring_dist k h (sdp + of_nat (unat r)) = ring_dist k h sdp + unat r"
    by (rule ring_dist_forward) (use Suc.prems b in simp_all)
  then have d1: "ring_dist k h sdp1 = ring_dist k h sdp + unat r" by (simp add: sdp1_def s1)
  have "unat (ucast r :: u64) = unat r" by (simp add: unsigned_ucast_eq take_bit_nat_eq_self less_le_trans [OF unsigned_less])
  then have f1: "unat fb1 = unat fb - unat r" using Suc.prems(5) b by (simp add: fb1_def unat_sub word_le_nat_alt)
  from Suc.IH [OF rec al Suc.prems(3)] d1 f1 b Suc.prems(4,5) show ?case by simp
qed

definition calypte_account :: "nat \<Rightarrow> ndp_ctrl \<Rightarrow> bool" where
  "calypte_account k ctrl \<longleftrightarrow> k \<le> 31 \<and> nc_mdp (nd_c ctrl) = mask k \<and> nc_sdp (nd_c ctrl) AND mask 5 = 0 \<and>
     unat (nd_free_bytes ctrl) + ring_dist k (nc_hdp (nd_c ctrl)) (nc_sdp (nd_c ctrl)) = 2 ^ k - 1"

text \<open>C31.  The account of free bytes of a Calypte transmit channel stays exact: the free bytes and the bytes
  between the consumer and the producer pointer make up the data buffer but one.  Posting packets whose
  padded lengths fit the free bytes the driver reported keeps it, and lowers the free bytes by exactly
  their sum; reading the consumer pointer of a hardware that does not pass the producer keeps it too.
\<close>

theorem calypte_tx_account:
  fixes ch :: "ndp_ctrl ndp_channel" and ptr :: u64
  assumes "calypte_account k (ch_ctrl ch)"
  defines "bytes \<equiv> tx_bytes (nd_chdrs (ch_ctrl ch)) (unat (nc_shp (nd_c (ch_ctrl ch))))
    (unat ((ucast ptr - nc_shp (nd_c (ch_ctrl ch))) AND nc_mhp (nd_c (ch_ctrl ch))))"
  assumes "bytes \<le> unat (ndp_ctrl_calypte_tx_get_free_space ch)"
    and "hw_follows k (nc_sdp (nd_c (ch_ctrl ch))) (nc_hdp (nd_c (ch_ctrl ch)))
      (nc_upd (nd_c (ch_ctrl ch)) # nc_updates (nd_c (ch_ctrl ch)))"
  shows "calypte_account k (ch_ctrl (ndp_ctrl_calypte_tx_set_swptr ch ptr)) \<and>
    unat (ndp_ctrl_calypte_tx_get_free_space (ndp_ctrl_calypte_tx_set_swptr ch ptr)) =
      unat (ndp_ctrl_calypte_tx_get_free_space ch) - bytes \<and>
    calypte_account k (ch_ctrl (snd (ndp_ctrl_calypte_tx_get_hwptr ch)))"
proof -
  let ?ctrl = "ch_ctrl ch" and ?c = "nd_c (ch_ctrl ch)"
  let ?n = "unat ((ucast ptr - nc_shp ?c) AND nc_mhp ?c)"
  have k: "k \<le> 31" "k \<le> 32" and m: "nc_mdp ?c = mask k" and al: "nc_sdp ?c AND mask 5 = 0"
    and sum: "unat (nd_free_bytes ?ctrl) + ring_dist k (nc_hdp ?c) (nc_sdp ?c) = 2 ^ k - 1"
    using assms(1) by (auto simp: calypte_account_def)
  have lt: "(2 :: nat) ^ k \<le> 2 ^ 31" using k(1) by (rule power_increasing) simp
  obtain sdp fb where l: "calypte_tx_loop ?n (unat (nc_shp ?c)) (nd_chdrs ?ctrl) (mask k) (nc_sdp ?c) (nd_free_bytes ?ctrl) = (sdp, fb)"
    by force
  have fits: "bytes \<le> unat (nd_free_bytes ?ctrl)" using assms(3) by (simp add: ndp_ctrl_calypte_tx_get_free_space_def)
  have pos: "(0 :: nat) < 2 ^ k" by simp
  then have "ring_dist k (nc_hdp ?c) (nc_sdp ?c) + bytes < 2 ^ k" using sum fits by linarith
  from calypte_tx_loop_account [OF l al k(1), folded bytes_def, OF this fits]
  have r: "ring_dist k (nc_hdp ?c) sdp = ring_dist k (nc_hdp ?c) (nc_sdp ?c) + bytes"
    "unat fb = unat (nd_free_bytes ?ctrl) - bytes" "sdp AND mask 5 = 0" by simp_all
  have post: "ch_ctrl (ndp_ctrl_calypte_tx_set_swptr ch ptr) =
      ?ctrl\<lparr>nd_free_bytes := fb, nd_c := nc_ndp_ctrl_sp_flush (?c\<lparr>nc_sdp := sdp, nc_shp := ucast ptr\<rparr>)\<rparr>"
    using l by (simp add: ndp_ctrl_calypte_tx_set_swptr_def Let_def m)
  have "calypte_account k (ch_ctrl (ndp_ctrl_calypte_tx_set_swptr ch ptr))"
    using r k m sum fits by (simp add: post calypte_account_def nc_ndp_ctrl_sp_flush_def)
  moreover have "unat (ndp_ctrl_calypte_tx_get_free_space (ndp_ctrl_calypte_tx_set_swptr ch ptr)) =
      unat (ndp_ctrl_calypte_tx_get_free_space ch) - bytes"
    using r(2) by (simp add: ndp_ctrl_calypte_tx_get_free_space_def post)
  moreover have "calypte_account k (ch_ctrl (snd (ndp_ctrl_calypte_tx_get_hwptr ch)))"
  proof -
    define c1 where "c1 = nc_ndp_ctrl_hp_update ?c"
    have c1: "nc_mdp c1 = mask k" "nc_sdp c1 = nc_sdp ?c"
      and d: "ring_dist k (nc_hdp ?c) (nc_hdp c1) \<le> ring_dist k (nc_hdp ?c) (nc_sdp ?c)"
      using assms(4) m ring_dist_trans(2) [of k "nc_hdp ?c" "fst (nc_upd ?c)" "nc_sdp ?c", OF _ _ k(2)]
      by (auto simp: c1_def nc_ndp_ctrl_hp_update_def nc_ndp_ctrl_hdp_update_def nc_ndp_ctrl_hhp_update_def nc_upd_read_def
          Let_def split: list.splits)
    let ?cnt = "(nc_hdp c1 - nc_hdp ?c) AND mask k"
    have cnt: "unat ?cnt = ring_dist k (nc_hdp ?c) (nc_hdp c1)" by (simp add: ring_dist_def)
    then have "unat ?cnt < 2 ^ 31" using d sum lt pos by simp
    then have "unat (scast ?cnt :: u64) = unat ?cnt" using scast_of_nat_u32 [of "unat ?cnt"] by (simp add: unsigned_ucast_eq take_bit_nat_eq_self)
    moreover have "unat (nd_free_bytes ?ctrl) + unat ?cnt < 2 ^ 64" using cnt d sum lt pos by simp
    ultimately have "unat (nd_free_bytes ?ctrl + scast ?cnt) = unat (nd_free_bytes ?ctrl) + ring_dist k (nc_hdp ?c) (nc_hdp c1)"
      using cnt by (simp add: unat_word_ariths)
    with d sum ring_dist_split [OF d] c1 k al show ?thesis
      by (simp add: ndp_ctrl_calypte_tx_get_hwptr_def Let_def c1_def [symmetric] calypte_account_def)
  qed
  ultimately show ?thesis by simp
qed

definition example_calypte_tx :: "ndp_ctrl ndp_channel" where
  "example_calypte_tx = (zero_channel (example_ndp_ctrl\<lparr>nd_c := example_ctrl\<lparr>nc_type := DMA_TYPE_CALYPTE, nc_dir := True, nc_mdp := 63, nc_mhp := 3\<rparr>,
     nd_chdrs := (\<lambda>_. \<lparr>chdr_frame_len = 20, chdr_frame_ptr = 0, chdr_valid = 0, chdr_metadata = 0\<rparr>), nd_free_bytes := 63\<rparr>))"

theorem calypte_tx_account_witness:
  "unat (ndp_ctrl_calypte_tx_get_free_space (ndp_ctrl_calypte_tx_set_swptr example_calypte_tx 1)) = 31 \<and>
   calypte_account 6 (ch_ctrl (ndp_ctrl_calypte_tx_set_swptr example_calypte_tx 1))"
proof -
  let ?ch = example_calypte_tx
  have ch: "nc_shp (nd_c (ch_ctrl ?ch)) = 0" "nc_mhp (nd_c (ch_ctrl ?ch)) = 3" "unat (ndp_ctrl_calypte_tx_get_free_space ?ch) = 63"
    "chdr_frame_len (nd_chdrs (ch_ctrl ?ch) i) = 20" for i
    by (simp_all add: example_calypte_tx_def zero_channel_def example_ctrl_def ndp_ctrl_calypte_tx_get_free_space_def)
  have acct: "calypte_account 6 (ch_ctrl ?ch)"
    by (simp add: calypte_account_def example_calypte_tx_def zero_channel_def example_ctrl_def mask_eq_exp_minus_1)
  have one: "unat ((ucast (1 :: u64) - (0 :: u32)) AND 3) = 1" "unat (tx_block_round 20) = 32" by code_simp+
  have bytes: "tx_bytes (nd_chdrs (ch_ctrl ?ch)) (unat (nc_shp (nd_c (ch_ctrl ?ch))))
      (unat ((ucast (1 :: u64) - nc_shp (nd_c (ch_ctrl ?ch))) AND nc_mhp (nd_c (ch_ctrl ?ch)))) = 32"
    unfolding ch(1,2) one(1) by (simp add: tx_bytes_def ch one)
  have "hw_follows 6 (nc_sdp (nd_c (ch_ctrl ?ch))) (nc_hdp (nd_c (ch_ctrl ?ch))) (nc_upd (nd_c (ch_ctrl ?ch)) # nc_updates (nd_c (ch_ctrl ?ch)))"
    by (simp add: example_calypte_tx_def zero_channel_def example_ctrl_def)
  from calypte_tx_account [OF acct _ this, of 1] bytes ch(3) show ?thesis by simp
qed

section \<open>Received packets of Calypte\<close>

text \<open>The valid bit that the driver expects at index \<open>j\<close> of the double mapping, when it expects \<open>f\<close> in the first half.\<close>

definition flag_at :: "nat \<Rightarrow> u8 \<Rightarrow> nat \<Rightarrow> u8" where
  "flag_at k f j = (if even (j div 2 ^ k) then f else f XOR 1)"

definition hdr_valid :: "nat \<Rightarrow> u8 \<Rightarrow> (nat \<Rightarrow> nc_calypte_hdr) \<Rightarrow> nat \<Rightarrow> bool" where
  "hdr_valid k f hdrs j \<longleftrightarrow> (ucast (chdr_valid (hdrs j)) :: u8) = flag_at k f j"

lemma bit_u8: "f = 0 \<or> f = 1 \<Longrightarrow> flag_at k f j = 0 \<or> flag_at k f j = 1"
  by (auto simp: flag_at_def)

lemma valid_u8: "(ucast (v :: 1 word) :: u8) = 0 \<or> (ucast v :: u8) = 1"
proof -
  have "unat v < 2" using unsigned_less [of v, where 'a = nat] by simp
  then have "v = 0 \<or> v = 1" by (auto simp: word_unat_eq_iff)
  then show ?thesis by auto
qed

lemma scan_stop_iff:
  assumes "f = 0 \<or> f = 1"
  shows "(ucast (chdr_valid (hdrs j)) :: u8) AND 1 = flag_at k f j XOR 1 \<longleftrightarrow> \<not> hdr_valid k f hdrs j"
  using bit_u8 [OF assms, of k j] valid_u8 [of "chdr_valid (hdrs j)"] by (auto simp: hdr_valid_def)

lemma flag_at_Suc:
  assumes "f = 0 \<or> f = 1"
  shows "flag_at k f (Suc j) = (if Suc j mod 2 ^ k = 0 then flag_at k f j XOR 1 else flag_at k f j)"
proof (cases "Suc j mod 2 ^ k = 0")
  case True
  then have "Suc j div 2 ^ k = Suc (j div 2 ^ k)" by (simp add: div_Suc)
  with True assms show ?thesis by (auto simp: flag_at_def)
next
  case False
  then have "Suc j div 2 ^ k = j div 2 ^ k" by (simp add: div_Suc)
  with False show ?thesis by (simp add: flag_at_def)
qed

text \<open>The scan from index \<open>p\<close> on, when some header below the limit is not valid.\<close>

lemma calypte_scan_run:
  assumes f: "f = 0 \<or> f = 1" and k: "k \<le> 32" and "unat limit < 2 ^ 32"
    and "\<forall>i < n. hdr_valid k f hdrs (p + i)" and "\<not> hdr_valid k f hdrs (p + n)" and "p + n < unat limit" and "n < fuel"
  shows "calypte_scan fuel limit (mask k) hdrs (of_nat p) (flag_at k f p) = (of_nat (p + n), flag_at k f (p + n))"
  using assms(4-7)
proof (induction n arbitrary: p fuel)
  case 0
  then obtain m where "fuel = Suc m" by (cases fuel) auto
  moreover have "unat (of_nat p :: u32) = p" using 0 assms(3) by (simp add: unat_of_nat)
  ultimately show ?case using 0 scan_stop_iff [OF f, of hdrs p k] by simp
next
  case (Suc n)
  then obtain m where m: "fuel = Suc m" by (cases fuel) auto
  have up: "unat (of_nat p :: u32) = p" "unat (of_nat (Suc p) :: u32) = Suc p"
    using Suc.prems(3) assms(3) by (simp_all add: unat_of_nat del: of_nat_Suc)
  have v: "hdr_valid k f hdrs p" using Suc.prems(1) by (metis add.right_neutral zero_less_Suc)
  have u: "unat (ucast (of_nat (Suc p) :: u32) :: u64) = Suc p"
    using up(2) Suc.prems(3) assms(3) by (simp add: unsigned_ucast_eq take_bit_nat_eq_self del: of_nat_Suc)
  have wrap: "(ucast (of_nat (Suc p) :: u32) :: u64) AND mask k = 0 \<longleftrightarrow> Suc p mod 2 ^ k = 0"
    by (simp add: word_unat_eq_iff unat_and_mask u del: of_nat_Suc)
  have lt: "(ucast (of_nat (Suc p) :: u32) :: u64) < limit" using u Suc.prems(3) by (simp add: word_less_nat_alt del: of_nat_Suc)
  have "calypte_scan fuel limit (mask k) hdrs (of_nat p) (flag_at k f p) =
      calypte_scan m limit (mask k) hdrs (of_nat (Suc p)) (flag_at k f (Suc p))"
    using v scan_stop_iff [OF f, of hdrs p k] lt wrap flag_at_Suc [OF f, of k p] up(1)
    by (simp add: m Let_def add.commute)
  also have "\<dots> = (of_nat (Suc p + n), flag_at k f (Suc p + n))"
  proof (rule Suc.IH)
    show "\<forall>i < n. hdr_valid k f hdrs (Suc p + i)" using Suc.prems(1) by (metis Suc_less_eq add_Suc add_Suc_right)
  qed (use Suc.prems m in simp_all)
  finally show ?case by simp
qed

text \<open>Reading the hardware pointer of a Calypte receive channel finds exactly the received packets: it
  advances over the longest run of headers whose valid bit has the expected value, at most once around
  the ring, stops in front of the first header that is not valid, and flips the expected bit when
  it passes the end of the ring.  The header buffer is mapped twice in a row, so the scan needs no wrap.
\<close>

theorem calypte_rx_scan:
  fixes ch :: "ndp_ctrl ndp_channel"
  defines "ctrl \<equiv> ch_ctrl ch"
  assumes "nc_type (nd_c ctrl) = DMA_TYPE_CALYPTE" and "ch_ptrmask ch = mask k" and "k \<le> 27"
    and "unat (nc_hhp (nd_c ctrl)) < 2 ^ k" and "nd_valid_flag ctrl = 0 \<or> nd_valid_flag ctrl = 1"
    and "\<And>j. nd_chdrs ctrl (j + 2 ^ k) = nd_chdrs ctrl j" and "nd_hdr_buffer_size ctrl = 8 * 2 ^ k"
  shows "\<exists>n \<le> 2 ^ k. let p = unat (nc_hhp (nd_c ctrl)) in
    (\<forall>i < n. hdr_valid k (nd_valid_flag ctrl) (nd_chdrs ctrl) (p + i)) \<and>
    \<not> hdr_valid k (nd_valid_flag ctrl) (nd_chdrs ctrl) (p + n) \<and>
    unat (fst (ndp_ctrl_rx_get_hwptr ch)) = (p + n) mod 2 ^ k \<and>
    nd_valid_flag (ch_ctrl (snd (ndp_ctrl_rx_get_hwptr ch))) = flag_at k (nd_valid_flag ctrl) (p + n)"
proof -
  define p where "p = unat (nc_hhp (nd_c ctrl))"
  define f where "f = nd_valid_flag ctrl"
  let ?V = "hdr_valid k f (nd_chdrs ctrl)"
  have f: "f = 0 \<or> f = 1" and p: "p < 2 ^ k" using assms(5,6) by (simp_all add: f_def p_def)
  have pk: "(2 :: nat) ^ k \<le> 2 ^ 27" using assms(4) by (rule power_increasing) simp
  have lim: "unat (nd_hdr_buffer_size ctrl * 2) = 16 * 2 ^ k"
  proof -
    have "unat (8 * 2 ^ k * 2 :: u64) = unat (of_nat (16 * 2 ^ k) :: u64)" by simp
    also have "\<dots> = 16 * 2 ^ k" using pk by (subst unat_of_nat) simp
    finally show ?thesis by (simp add: assms(8))
  qed
  have "\<not> ?V (p + 2 ^ k)" if "?V p"
  proof -
    have "(p + 2 ^ k) div 2 ^ k = Suc 0" "p div 2 ^ k = 0" using p by (simp_all add: div_add_self2)
    then show ?thesis using that f assms(7) [of p] by (auto simp: hdr_valid_def flag_at_def)
  qed
  then have ex: "\<exists>n. \<not> ?V (p + n) \<and> n \<le> 2 ^ k" by (cases "?V p") (auto intro: exI [of _ 0])
  define n where "n = (LEAST n. \<not> ?V (p + n))"
  obtain m where m: "\<not> ?V (p + m)" "m \<le> 2 ^ k" using ex by blast
  have n: "\<not> ?V (p + n)" "n \<le> m"
    unfolding n_def using LeastI [of "\<lambda>n. \<not> ?V (p + n)", OF m(1)] Least_le [of "\<lambda>n. \<not> ?V (p + n)", OF m(1)] .
  have run: "\<forall>i < n. ?V (p + i)" unfolding n_def using not_less_Least [of _ "\<lambda>n. \<not> ?V (p + n)"] by blast
  have nk: "n \<le> 2 ^ k" using n(2) m(2) by simp
  have f0: "flag_at k f p = f" using p by (simp add: flag_at_def)
  have op: "of_nat p = nc_hhp (nd_c ctrl)" by (simp add: p_def)
  have "calypte_scan (unat (nd_hdr_buffer_size ctrl * 2) + 1) (nd_hdr_buffer_size ctrl * 2) (mask k) (nd_chdrs ctrl)
      (of_nat p) (flag_at k f p) = (of_nat (p + n), flag_at k f (p + n))"
    by (rule calypte_scan_run [OF f]) (use n run nk p lim pk assms(4) in simp_all)
  then have scan: "calypte_scan (unat (nd_hdr_buffer_size ctrl * 2) + 1) (nd_hdr_buffer_size ctrl * 2) (mask k) (nd_chdrs ctrl)
      (nc_hhp (nd_c ctrl)) f = (of_nat (p + n), flag_at k f (p + n))" unfolding f0 op .
  define y where "y = (ucast (of_nat (p + n) :: u32) :: u64) AND mask k"
  have y: "unat y = (p + n) mod 2 ^ k"
  proof -
    have "p + n < 2 ^ 32" using p nk pk by simp
    then show ?thesis by (simp add: y_def unat_and_mask unsigned_of_nat take_bit_nat_eq_self del: of_nat_add)
  qed
  have "(p + n) mod 2 ^ k < 2 ^ k" by simp
  also have "\<dots> < 2 ^ 32" using pk by simp
  finally have "unat (ucast (ucast y :: u32) :: u64) = (p + n) mod 2 ^ k"
    using y by (simp add: unsigned_ucast_eq) (simp add: take_bit_eq_mask unat_and_mask)
  moreover have "fst (ndp_ctrl_rx_get_hwptr ch) = ucast (ucast y :: u32)"
    "nd_valid_flag (ch_ctrl (snd (ndp_ctrl_rx_get_hwptr ch))) = flag_at k f (p + n)"
    using scan assms(2,3)
    by (simp_all add: ndp_ctrl_rx_get_hwptr_def ctrl_def [symmetric] f_def [symmetric] y_def Let_def
        del: calypte_scan.simps)
  ultimately have "unat (fst (ndp_ctrl_rx_get_hwptr ch)) = (p + n) mod 2 ^ k"
    "nd_valid_flag (ch_ctrl (snd (ndp_ctrl_rx_get_hwptr ch))) = flag_at k f (p + n)" by simp_all
  with n(1) run nk show ?thesis unfolding Let_def p_def [symmetric] f_def [symmetric] by blast
qed

definition example_calypte_rx :: "ndp_ctrl ndp_channel" where
  "example_calypte_rx = (zero_channel (example_ndp_ctrl\<lparr>nd_c := example_ctrl\<lparr>nc_type := DMA_TYPE_CALYPTE, nc_hhp := 1\<rparr>,
     nd_chdrs := (\<lambda>j. \<lparr>chdr_frame_len = 64, chdr_frame_ptr = 0, chdr_valid = (if j mod 4 = 3 then 1 else 0), chdr_metadata = 0\<rparr>),
     nd_valid_flag := 0, nd_hdr_buffer_size := 32\<rparr>))\<lparr>ch_ptrmask := 3\<rparr>"

theorem calypte_rx_scan_witness:
  "\<exists>n \<le> 4. (\<forall>i < n. hdr_valid 2 0 (nd_chdrs (ch_ctrl example_calypte_rx)) (1 + i)) \<and>
    unat (fst (ndp_ctrl_rx_get_hwptr example_calypte_rx)) = (1 + n) mod 4"
proof -
  let ?ch = example_calypte_rx
  have "nc_type (nd_c (ch_ctrl ?ch)) = DMA_TYPE_CALYPTE" "ch_ptrmask ?ch = mask 2" "2 \<le> (27 :: nat)"
    "unat (nc_hhp (nd_c (ch_ctrl ?ch))) < 2 ^ 2" "nd_valid_flag (ch_ctrl ?ch) = 0 \<or> nd_valid_flag (ch_ctrl ?ch) = 1"
    "nd_hdr_buffer_size (ch_ctrl ?ch) = 8 * 2 ^ 2" and p: "unat (nc_hhp (nd_c (ch_ctrl ?ch))) = 1"
    and f: "nd_valid_flag (ch_ctrl ?ch) = 0"
    by (simp_all add: example_calypte_rx_def zero_channel_def mask_eq_exp_minus_1)
  moreover have "nd_chdrs (ch_ctrl ?ch) (j + 2 ^ 2) = nd_chdrs (ch_ctrl ?ch) j" for j
    by (simp add: example_calypte_rx_def zero_channel_def)
  ultimately have "\<exists>n \<le> 2 ^ 2. let p = unat (nc_hhp (nd_c (ch_ctrl ?ch))) in
      (\<forall>i < n. hdr_valid 2 (nd_valid_flag (ch_ctrl ?ch)) (nd_chdrs (ch_ctrl ?ch)) (p + i)) \<and>
      \<not> hdr_valid 2 (nd_valid_flag (ch_ctrl ?ch)) (nd_chdrs (ch_ctrl ?ch)) (p + n) \<and>
      unat (fst (ndp_ctrl_rx_get_hwptr ?ch)) = (p + n) mod 2 ^ 2 \<and>
      nd_valid_flag (ch_ctrl (snd (ndp_ctrl_rx_get_hwptr ?ch))) = flag_at 2 (nd_valid_flag (ch_ctrl ?ch)) (p + n)"
    by (intro calypte_rx_scan)
  then obtain n where "n \<le> 2 ^ 2" "\<forall>i < n. hdr_valid 2 0 (nd_chdrs (ch_ctrl ?ch)) (1 + i)"
    "unat (fst (ndp_ctrl_rx_get_hwptr ?ch)) = (1 + n) mod 2 ^ 2"
    unfolding Let_def p f by blast
  then show ?thesis by (intro exI [of _ n]) simp
qed

end
