(* ===== verification/TxShare.thy ===== *)
theory TxShare
  imports Subscription
begin

text \<open>
  How several applications share one transmit channel.  A run of a channel is a sequence of complete
  operations of \<open>ndp/channel.c\<close>: synchronisations of running subscriptions, starts, stops that
  succeed, and changes the hardware makes to the controller.  The lock \<open>locked_sub\<close> guarantees that at
  most one running subscription has a window to write into.

  A stop that is refused is left out of the runs: it gives the lock away while the subscription goes
  on running with its window, as \<open>refused_stop\<close> shows.
\<close>

inductive tx_step :: "'c ndp_channel_ops \<Rightarrow> 'c ndp_channel \<times> subs \<Rightarrow> 'c ndp_channel \<times> subs \<Rightarrow> bool" for ops where
  tx_step_sync:
    "s \<in> set (ch_list_subscriptions ch) \<Longrightarrow> ndp_channel_txsync ops s sync (ch, subs) = (sync', st') \<Longrightarrow>
     tx_step ops (ch, subs) st'"
| tx_step_start:
    "s \<notin> set (ch_list_subscriptions ch) \<Longrightarrow> ndp_channel_start ops s (ch, subs) = (r, st') \<Longrightarrow>
     tx_step ops (ch, subs) st'"
| tx_step_stop:
    "s \<in> set (ch_list_subscriptions ch) \<Longrightarrow> ndp_channel_stop ops s force ch = (0, ch') \<Longrightarrow>
     tx_step ops (ch, subs) (ch', subs)"
| tx_step_hardware: "tx_step ops (ch, subs) (ch\<lparr>ch_ctrl := x\<rparr>, subs)"

inductive_cases tx_step_elim: "tx_step ops (ch, subs) st'"

inductive tx_reach :: "'c ndp_channel_ops \<Rightarrow> 'c ndp_channel \<times> subs \<Rightarrow> bool" for ops where
  tx_reach_init: "ch_list_subscriptions ch = [] \<Longrightarrow> tx_reach ops (ch, subs)"
| tx_reach_step: "tx_reach ops st \<Longrightarrow> tx_step ops st st' \<Longrightarrow> tx_reach ops st'"

definition tx_lock_inv :: "'c ndp_channel \<times> subs \<Rightarrow> bool" where
  "tx_lock_inv st \<longleftrightarrow> distinct (ch_list_subscriptions (fst st)) \<and>
     (\<forall>k. ch_ptrmask (fst st) = mask k \<longrightarrow>
       (\<forall>s \<in> set (ch_list_subscriptions (fst st)). tx_window k (snd st s) \<noteq> 0 \<longrightarrow> ch_locked_sub (fst st) = Some s))"

context channel_ctrl
begin

lemma start_ptrmask: "ndp_channel_start ops s (ch, subs) = (r, ch', subs') \<Longrightarrow> ch_ptrmask ch' = ch_ptrmask ch"
proof -
  assume eq: "ndp_channel_start ops s (ch, subs) = (r, ch', subs')"
  obtain r1 h ch1 where g: "op_start ops (ch\<lparr>ch_start_count := ch_start_count ch + 1\<rparr>) = (r1, h, ch1)"
    using prod_cases3 by blast
  show ?thesis
    using eq [unfolded ndp_channel_start_def Let_def prod.case g] start_sel [OF g] by (auto split: if_splits option.splits)
qed

lemma stop_pointers:
  assumes eq: "ndp_channel_stop ops s force ch = (r, ch')"
  shows "ch_ptrmask ch' = ch_ptrmask ch" and "ch_swptr ch' = ch_swptr ch"
proof -
  let ?ch1 = "if ch_locked_sub ch = Some s then ch\<lparr>ch_locked_sub := None\<rparr> else ch"
  obtain r1 ch3 where g: "op_stop ops (?ch1\<lparr>ch_start_count := ch_start_count ?ch1 - 1\<rparr>) force = (r1, ch3)" by force
  show "ch_ptrmask ch' = ch_ptrmask ch" "ch_swptr ch' = ch_swptr ch"
    using eq [unfolded ndp_channel_stop_def Let_def prod.case g] stop_sel [OF g] by (auto split: if_splits)
qed

lemma txsync_keeps_lock_inv:
  assumes inv: "tx_lock_inv (ch, subs)" and eq: "ndp_channel_txsync ops s sync (ch, subs) = (sync', ch', subs')"
  shows "tx_lock_inv (ch', subs')"
proof (cases "ch_locked_sub ch = Some s \<or> ch_locked_sub ch = None")
  case True
  from txsync_own_or_free [OF eq True] obtain p h c len where
    ch': "ch' = ch\<lparr>ch_swptr := p, ch_ctrl := c, ch_hwptr := h, ch_locked_sub := if len = 0 then None else Some s\<rparr>"
    and subs': "subs' = subs(s := (subs s)\<lparr>sub_hwptr := p, sub_swptr := (p + len) AND ch_ptrmask ch\<rparr>)"
    and len: "len = min ((sync_swptr sync - sync_hwptr sync) AND ch_ptrmask ch) ((h - p - 1) AND ch_ptrmask ch)"
    unfolding Let_def by auto
  have "ch_locked_sub ch' = Some t"
    if k: "ch_ptrmask ch = mask k" and t: "t \<in> set (ch_list_subscriptions ch)" "tx_window k (subs' t) \<noteq> 0" for k t
  proof (cases "t = s")
    case True
    have "tx_window k (subs' s) = len" by (simp add: subs' len k tx_window_grant)
    with t True show ?thesis by (simp add: ch')
  next
    case False
    with inv k t have "ch_locked_sub ch = Some t" by (simp add: tx_lock_inv_def subs')
    with True False show ?thesis by auto
  qed
  with inv show ?thesis by (auto simp: tx_lock_inv_def ch')
next
  case False
  then obtain other where o: "ch_locked_sub ch = Some other" "other \<noteq> s" by auto
  from txsync_other_locked [OF o] eq have "ch' = ch" "tx_window k (subs' s) = 0" "t \<noteq> s \<Longrightarrow> subs' t = subs t" for k t
    by (auto simp: tx_window_def)
  with inv show ?thesis unfolding tx_lock_inv_def by (metis fst_conv snd_conv)
qed

lemma start_keeps_lock_inv:
  assumes inv: "tx_lock_inv (ch, subs)" and "s \<notin> set (ch_list_subscriptions ch)"
    and eq: "ndp_channel_start ops s (ch, subs) = (r, ch', subs')"
  shows "tx_lock_inv (ch', subs')"
  using inv assms(2) start_result [OF eq] start_ptrmask [OF eq]
  by (auto simp: tx_lock_inv_def tx_window_def)

lemma stop_keeps_lock_inv:
  assumes inv: "tx_lock_inv (ch, subs)" and eq: "ndp_channel_stop ops s force ch = (0, ch')"
  shows "tx_lock_inv (ch', subs)"
  using inv stop_result [OF eq] stop_pointers(1) [OF eq]
  by (auto simp: tx_lock_inv_def dest: notin_set_remove1)

lemma tx_reach_lock_inv: "tx_reach ops st \<Longrightarrow> tx_lock_inv st"
proof (induction rule: tx_reach.induct)
  case (tx_reach_step st st')
  from tx_reach_step(2,3) show ?case
  proof (cases rule: tx_step.cases)
    case (tx_step_sync s ch sync subs sync')
    with tx_reach_step(3) txsync_keeps_lock_inv show ?thesis by (metis surj_pair)
  next
    case (tx_step_start s ch subs r)
    with tx_reach_step(3) start_keeps_lock_inv show ?thesis by (metis surj_pair)
  next
    case (tx_step_stop s ch force ch' subs)
    with tx_reach_step(3) stop_keeps_lock_inv show ?thesis by blast
  qed (use tx_reach_step(3) in \<open>simp add: tx_lock_inv_def\<close>)
qed (simp add: tx_lock_inv_def)

lemma tx_exclusive:
  assumes "tx_reach ops (ch, subs)" and "ch_ptrmask ch = mask k"
    and "s \<in> set (ch_list_subscriptions ch)" "t \<in> set (ch_list_subscriptions ch)"
    and "tx_window k (subs s) \<noteq> 0" "tx_window k (subs t) \<noteq> 0"
  shows "s = t"
  using tx_reach_lock_inv [OF assms(1)] assms(2-6) unfolding tx_lock_inv_def by (metis fst_conv option.inject snd_conv)

text \<open>What a refused stop leaves, and what the next request of somebody else is then granted.\<close>

lemma refused_stop:
  assumes "ndp_channel_stop ops s force ch = (r, ch')" and "r \<noteq> 0" and "ch_locked_sub ch = Some s"
    and "ndp_channel_txsync ops t sync (ch', subs) = (sync', ch'', subs')" and "t \<noteq> s"
  shows "r = - EAGAIN \<and> \<not> force \<and> ch_list_subscriptions ch' = ch_list_subscriptions ch \<and> subs' s = subs s \<and>
    ch_locked_sub ch' = None \<and> sub_hwptr (subs' t) = ch_swptr ch"
proof -
  have l: "ch_locked_sub ch' = None" using stop_result [OF assms(1)] assms(3) by simp
  then have "ch_locked_sub ch' = Some t \<or> ch_locked_sub ch' = None" by simp
  from txsync_own_or_free [OF assms(4) this] l assms(5) show ?thesis
    using stop_result [OF assms(1)] stop_pointers(2) [OF assms(1)] assms(2) unfolding Let_def by auto
qed

end

end
