(* ===== verification/Driver.thy ===== *)
theory Driver
  imports TxShare SzeCtrl NdpCtrl
begin

text \<open>
  The whole NDP driver (\<open>ndp/driver.c\<close>): the channels of one device belong to controllers of three
  generations, and every channel carries the pointer to the operation table of its own.  Here the
  constructor of the controller stands for that pointer, and \<open>ndp_driver_ops\<close> is the call through it.

  The interface \<open>channel_ctrl\<close> of the channels is shown for the dispatching table, so all results of
  the theories on channels and subscriptions hold for a device with any mixture of controllers.  The
  properties at the end state them over the reachable states of the driver, which start from what
  \<open>nfb_ndp_attach\<close> leaves behind.
\<close>

section \<open>Calls through the operation table of a channel\<close>

datatype any_ctrl =
    Ctrl_v1 sze_ctrl
  | Ctrl_v2_rx ndp_ctrl
  | Ctrl_v2_tx ndp_ctrl
  | Ctrl_v3_rx ndp_ctrl
  | Ctrl_v3_tx ndp_ctrl

text \<open>The channel inside its controller structure, seen with another type for that structure.\<close>

definition retag :: "('c \<Rightarrow> 'd) \<Rightarrow> 'c ndp_channel \<Rightarrow> 'd ndp_channel" where
  "retag f ch = \<lparr>ch_locked_sub = ch_locked_sub ch, ch_hwptr = ch_hwptr ch, ch_swptr = ch_swptr ch,
     ch_ptrmask = ch_ptrmask ch, ch_start_count = ch_start_count ch,
     ch_subscriptions_count = ch_subscriptions_count ch, ch_flags = ch_flags ch, ch_ring = ch_ring ch,
     ch_list_subscriptions = ch_list_subscriptions ch, ch_id = ch_id ch,
     ch_req_block_count = ch_req_block_count ch, ch_req_block_size = ch_req_block_size ch,
     ch_ctrl = f (ch_ctrl ch)\<rparr>"

definition call1 :: "('a \<Rightarrow> 'b) \<Rightarrow> ('c ndp_channel \<Rightarrow> 'a) \<Rightarrow> 'c \<Rightarrow> 'd ndp_channel \<Rightarrow> 'b" where
  "call1 g op c ch = g (op (retag (\<lambda>_. c) ch))"

definition call2 :: "('a \<Rightarrow> 'b) \<Rightarrow> ('c ndp_channel \<Rightarrow> 'x \<Rightarrow> 'a) \<Rightarrow> 'c \<Rightarrow> 'd ndp_channel \<Rightarrow> 'x \<Rightarrow> 'b" where
  "call2 g op c ch x = g (op (retag (\<lambda>_. c) ch) x)"

definition retag_ops :: "('c \<Rightarrow> 'd) \<Rightarrow> 'c ndp_channel_ops \<Rightarrow> 'c \<Rightarrow> 'd ndp_channel_ops" where
  "retag_ops f ops c =
     \<lparr>op_start = call1 (apsnd (apsnd (retag f))) (op_start ops) c,
      op_stop = call2 (apsnd (retag f)) (op_stop ops) c,
      op_attach_ring = call2 (apsnd (apfst (retag f))) (op_attach_ring ops) c,
      op_detach_ring = call2 (apfst (retag f)) (op_detach_ring ops) c,
      op_get_hwptr = call1 (apsnd (retag f)) (op_get_hwptr ops) c,
      op_set_swptr = call2 (retag f) (op_set_swptr ops) c,
      op_get_flags = call1 (apsnd (retag f)) (op_get_flags ops) c,
      op_set_flags = call2 (apsnd (retag f)) (op_set_flags ops) c,
      op_get_free_space = call1 id (op_get_free_space ops) c\<rparr>"

text \<open>
  What the tables depend on beside the channel: the two request sizes of the first generation, and
  for Calypte the content of a structure member that is never written and the two registers read
  when a ring is attached.
\<close>

record ndp_env =
  env_rx_request_size :: u32
  env_tx_request_size :: u32
  env_garbage :: u32
  env_data_reg :: "u32 option"
  env_hdr_reg :: "u32 option"

primrec ctrl_ops :: "ndp_env \<Rightarrow> any_ctrl \<Rightarrow> any_ctrl ndp_channel_ops" where
  "ctrl_ops e (Ctrl_v1 c) = retag_ops Ctrl_v1 (sze_ndp_ctrl_ops (env_rx_request_size e) (env_tx_request_size e)) c"
| "ctrl_ops e (Ctrl_v2_rx c) = retag_ops Ctrl_v2_rx ndp_ctrl_rx_ops c"
| "ctrl_ops e (Ctrl_v2_tx c) = retag_ops Ctrl_v2_tx ndp_ctrl_tx_ops c"
| "ctrl_ops e (Ctrl_v3_rx c) = retag_ops Ctrl_v3_rx (ndp_ctrl_calypte_rx_ops (env_garbage e)) c"
| "ctrl_ops e (Ctrl_v3_tx c) =
     retag_ops Ctrl_v3_tx (ndp_ctrl_calypte_tx_ops (env_garbage e) (env_data_reg e) (env_hdr_reg e)) c"

definition ndp_driver_ops :: "ndp_env \<Rightarrow> any_ctrl ndp_channel_ops" where
  "ndp_driver_ops e =
     \<lparr>op_start = (\<lambda>ch. op_start (ctrl_ops e (ch_ctrl ch)) ch),
      op_stop = (\<lambda>ch. op_stop (ctrl_ops e (ch_ctrl ch)) ch),
      op_attach_ring = (\<lambda>ch. op_attach_ring (ctrl_ops e (ch_ctrl ch)) ch),
      op_detach_ring = (\<lambda>ch. op_detach_ring (ctrl_ops e (ch_ctrl ch)) ch),
      op_get_hwptr = (\<lambda>ch. op_get_hwptr (ctrl_ops e (ch_ctrl ch)) ch),
      op_set_swptr = (\<lambda>ch. op_set_swptr (ctrl_ops e (ch_ctrl ch)) ch),
      op_get_flags = (\<lambda>ch. op_get_flags (ctrl_ops e (ch_ctrl ch)) ch),
      op_set_flags = (\<lambda>ch. op_set_flags (ctrl_ops e (ch_ctrl ch)) ch),
      op_get_free_space = (\<lambda>ch. op_get_free_space (ctrl_ops e (ch_ctrl ch)) ch)\<rparr>"

section \<open>Creating the channels of a device\<close>

text \<open>
  What the services around the driver answer for one node of the device tree: whether its path fits,
  its phandle, the generated phandle and the success of storing it, the NUMA node of the PCI function,
  the zeroed controller structure, the opened component or queue, and the result of \<open>device_add\<close>.
\<close>

record ndp_node =
  node_path_ok :: bool
  node_phandle :: u32
  node_generated :: "u32 option"
  node_setprop_ok :: bool
  node_dev :: int
  node_sze :: "sze_ctrl option"
  node_comp :: "nfb_comp option"
  node_ndp :: "ndp_ctrl option"
  node_open :: "nc_ndp_ctrl \<Rightarrow> int \<times> nc_ndp_ctrl"
  node_device_add :: int

text \<open>Block size and size of a ring, size of a packet buffer and initial offset.\<close>

type_synonym ndp_params = "u64 \<times> u64 \<times> u64 \<times> u64"

type_synonym ctrl_create =
  "ndp_params \<Rightarrow> u32 \<Rightarrow> ndp_node \<Rightarrow> world \<Rightarrow> (int + any_ctrl ndp_channel) option"

definition ndp_ctrl_v1_create_rx :: ctrl_create where
  "ndp_ctrl_v1_create_rx prm index n w =
     Some (map_sum id (retag Ctrl_v1) (sze_ndp_ctrl_create (fst prm) (fst (snd prm)) (node_dev n) (node_sze n) (node_comp n)
       \<lparr>cid_index = ucast index, cid_type = NDP_CHANNEL_TYPE_RX\<rparr>))"

definition ndp_ctrl_v1_create_tx :: ctrl_create where
  "ndp_ctrl_v1_create_tx prm index n w =
     Some (map_sum id (retag Ctrl_v1) (sze_ndp_ctrl_create (fst prm) (fst (snd prm)) (node_dev n) (node_sze n) (node_comp n)
       \<lparr>cid_index = ucast index, cid_type = NDP_CHANNEL_TYPE_TX\<rparr>))"

definition ndp_ctrl_v2_create_rx :: ctrl_create where
  "ndp_ctrl_v2_create_rx prm index n w =
     map_option (map_sum id (retag Ctrl_v2_rx)) (ndp_ctrl_create prm True (node_dev n) (node_ndp n) (node_open n)
       \<lparr>cid_index = ucast index, cid_type = NDP_CHANNEL_TYPE_RX\<rparr> w)"

definition ndp_ctrl_v2_create_tx :: ctrl_create where
  "ndp_ctrl_v2_create_tx prm index n w =
     map_option (map_sum id (retag Ctrl_v2_tx)) (ndp_ctrl_create prm True (node_dev n) (node_ndp n) (node_open n)
       \<lparr>cid_index = ucast index, cid_type = NDP_CHANNEL_TYPE_TX\<rparr> w)"

definition ndp_ctrl_v3_create_rx :: ctrl_create where
  "ndp_ctrl_v3_create_rx prm index n w =
     map_option (map_sum id (retag Ctrl_v3_rx)) (ndp_ctrl_create prm False (node_dev n) (node_ndp n) (node_open n)
       \<lparr>cid_index = ucast index, cid_type = NDP_CHANNEL_TYPE_RX\<rparr> w)"

definition ndp_ctrl_v3_create_tx :: ctrl_create where
  "ndp_ctrl_v3_create_tx prm index n w =
     map_option (map_sum id (retag Ctrl_v3_tx)) (ndp_ctrl_create prm False (node_dev n) (node_ndp n) (node_open n)
       \<lparr>cid_index = ucast index, cid_type = NDP_CHANNEL_TYPE_TX\<rparr> w)"

definition ndp_ctrls :: "(string \<times> ctrl_create) list" where
  "ndp_ctrls =
     [(''netcope,dma_ctrl_sze_rx'', ndp_ctrl_v1_create_rx), (''netcope,dma_ctrl_sze_tx'', ndp_ctrl_v1_create_tx),
      (''netcope,dma_ctrl_ndp_rx'', ndp_ctrl_v2_create_rx), (''netcope,dma_ctrl_ndp_tx'', ndp_ctrl_v2_create_tx),
      (''cesnet,dma_ctrl_calypte_rx'', ndp_ctrl_v3_create_rx), (''cesnet,dma_ctrl_calypte_tx'', ndp_ctrl_v3_create_tx)]"

text \<open>The phandle of a node; None when a missing one cannot be made, which ends the whole loop.\<close>

definition node_phandle_of :: "ndp_node \<Rightarrow> u32 option" where
  "node_phandle_of n =
     (if node_phandle n = 0
      then case node_generated n of
             None \<Rightarrow> None
           | Some p \<Rightarrow> if node_setprop_ok n then Some p else None
      else Some (node_phandle n))"

fun ndp_create_channels_from_ctrl ::
  "ndp_env \<Rightarrow> ndp_params \<Rightarrow> ctrl_create \<Rightarrow> u32 \<Rightarrow> ndp_node list \<Rightarrow> any_ctrl ndp_channel list \<times> world \<Rightarrow>
   (any_ctrl ndp_channel list \<times> world) option" where
  "ndp_create_channels_from_ctrl e prm create index [] st = Some st"
| "ndp_create_channels_from_ctrl e prm create index (n # nodes) (chs, w) =
     (if node_path_ok n then
        case node_phandle_of n of
          None \<Rightarrow> Some (chs, w)
        | Some phandle \<Rightarrow>
          Option.bind (create prm index n w) (\<lambda>res.
            ndp_create_channels_from_ctrl e prm create (index + 1) nodes
              (case res of
                 Inl err \<Rightarrow> (chs, w)
               | Inr ch \<Rightarrow> snd (ndp_channel_add (ndp_driver_ops e) (node_device_add n) phandle ch chs w)))
      else ndp_create_channels_from_ctrl e prm create (index + 1) nodes (chs, w))"

primrec create_all_channels ::
  "ndp_env \<Rightarrow> ndp_params \<Rightarrow> (string \<Rightarrow> ndp_node list) \<Rightarrow> (string \<times> ctrl_create) list \<Rightarrow>
   any_ctrl ndp_channel list \<times> world \<Rightarrow> (any_ctrl ndp_channel list \<times> world) option" where
  "create_all_channels e prm tree [] st = Some st"
| "create_all_channels e prm tree (ctrl # ctrls) st =
     Option.bind (ndp_create_channels_from_ctrl e prm (snd ctrl) 0 (tree (fst ctrl)) st)
       (create_all_channels e prm tree ctrls)"

text \<open>
  The driver's own part of the device tree is the list of its nodes with their properties.
  \<open>zalloc\<close> tells whether the allocation of the driver structure succeeds, \<open>device_add\<close> is the result
  of that call, \<open>tree\<close> gives the nodes that are compatible with a string.
\<close>

type_synonym fdt_nodes = "(string \<times> (string \<times> u64) list) list"

definition zero_subscription :: ndp_subscription where
  "zero_subscription = \<lparr>sub_channel = 0, sub_status = NDP_SUB_STATUS_INIT, sub_hwptr = 0, sub_swptr = 0, sub_subscriber = 0\<rparr>"

definition nfb_ndp_attach ::
  "ndp_env \<Rightarrow> ndp_params \<Rightarrow> bool \<Rightarrow> int \<Rightarrow> (string \<Rightarrow> ndp_node list) \<Rightarrow> fdt_nodes \<Rightarrow> world \<Rightarrow>
   (int \<times> any_ctrl ndp option \<times> fdt_nodes \<times> world) option" where
  "nfb_ndp_attach e prm zalloc device_add tree fdt w =
     (if \<not> zalloc then Some (- ENOMEM, None, fdt, w)
      else if device_add \<noteq> 0 then Some (device_add, None, fdt, w)
      else map_option
        (\<lambda>(chs, w1). (0, Some \<lparr>ndp_channels = chs, ndp_subscribers = [],
             ndp_sbr = (\<lambda>_. \<lparr>sbr_subscriptions = [], sbr_wake_rx = False, sbr_timer = False\<rparr>),
             ndp_subs = (\<lambda>_. zero_subscription)\<rparr>,
           (''/drivers/ndp'', [(''version'', 1)]) # (''/drivers/ndp/tx_queues'', []) #
             (''/drivers/ndp/rx_queues'', []) # fdt, w1))
        (create_all_channels e prm tree ndp_ctrls ([], w)))"

text \<open>The loop of the removal takes the first channel of the list until the list is empty.\<close>

fun del_all_channels :: "ndp_env \<Rightarrow> any_ctrl ndp_channel list \<Rightarrow> world \<Rightarrow> any_ctrl ndp_channel list \<times> world" where
  "del_all_channels e [] w = ([], w)"
| "del_all_channels e (ch # chs) w =
     (case ndp_channel_del (ndp_driver_ops e) 0 (ch # chs) w of (_, w1) \<Rightarrow> del_all_channels e chs w1)"

definition below_node :: "string \<Rightarrow> string \<Rightarrow> bool" where
  "below_node parent path \<longleftrightarrow> path = parent \<or> take (Suc (length parent)) path = parent @ ''/''"

definition nfb_ndp_detach :: "ndp_env \<Rightarrow> any_ctrl ndp \<Rightarrow> fdt_nodes \<Rightarrow> world \<Rightarrow> any_ctrl ndp \<times> fdt_nodes \<times> world" where
  "nfb_ndp_detach e ndp fdt w =
     (case del_all_channels e (ndp_channels ndp) w of (chs, w1) \<Rightarrow>
        (ndp\<lparr>ndp_channels := chs\<rparr>, filter (\<lambda>n. \<not> below_node ''/drivers/ndp'' (fst n)) fdt, w1))"

section \<open>The dispatching table keeps the contract of the channel\<close>

lemma retag_sel [simp]:
  "ch_locked_sub (retag f ch) = ch_locked_sub ch" "ch_hwptr (retag f ch) = ch_hwptr ch"
  "ch_swptr (retag f ch) = ch_swptr ch" "ch_ptrmask (retag f ch) = ch_ptrmask ch"
  "ch_start_count (retag f ch) = ch_start_count ch" "ch_subscriptions_count (retag f ch) = ch_subscriptions_count ch"
  "ch_flags (retag f ch) = ch_flags ch" "ch_ring (retag f ch) = ch_ring ch"
  "ch_list_subscriptions (retag f ch) = ch_list_subscriptions ch" "ch_id (retag f ch) = ch_id ch"
  "ch_ctrl (retag f ch) = f (ch_ctrl ch)"
  by (simp_all add: retag_def)

lemma same_channel_retag:
  assumes "same_channel (retag (\<lambda>_. c) ch) ch'"
  shows "same_channel ch (retag f ch')"
proof -
  from assms obtain d where "ch' = retag (\<lambda>_. c) ch\<lparr>ch_ctrl := d\<rparr>" unfolding same_channel_def by blast
  then have "retag f ch' = ch\<lparr>ch_ctrl := f d\<rparr>" by (cases ch) (simp add: retag_def)
  then show ?thesis by simp
qed

lemma retag_channel_ctrl:
  assumes "channel_ctrl ops"
  shows "channel_ctrl (retag_ops f ops c)"
proof (rule channel_ctrl.intro, goal_cases)
  case 2
  then show ?case
    by (auto simp: retag_ops_def call1_def call2_def apsnd_def map_prod_def split: prod.splits dest: channel_ctrl.start_hwptr [OF assms])
next
  case 4
  show ?case
    using channel_ctrl.stop_forced [OF assms] by (simp add: retag_ops_def call1_def call2_def case_prod_beta)
next
  case 6
  show ?case
    by (simp add: retag_ops_def call1_def call2_def) (rule same_channel_retag [OF channel_ctrl.set_swptr_frame [OF assms]])
qed (auto simp: retag_ops_def call1_def call2_def apsnd_def map_prod_def split: prod.splits intro!: same_channel_retag
    dest: channel_ctrl.start_frame [OF assms] channel_ctrl.stop_frame [OF assms]
      channel_ctrl.get_hwptr_frame [OF assms] channel_ctrl.get_flags_frame [OF assms]
      channel_ctrl.set_flags_frame [OF assms])

lemma ctrl_ops_channel_ctrl: "channel_ctrl (ctrl_ops e c)"
  by (cases c) (simp_all add: retag_channel_ctrl sze.channel_ctrl_axioms medusa_rx.channel_ctrl_axioms
      medusa_tx.channel_ctrl_axioms calypte_rx.channel_ctrl_axioms calypte_tx.channel_ctrl_axioms)

interpretation driver: channel_ctrl "ndp_driver_ops e" for e
proof (unfold_locales, goal_cases)
  case (1 ch r h ch')
  then show ?case by (auto simp: ndp_driver_ops_def dest: channel_ctrl.start_frame [OF ctrl_ops_channel_ctrl])
next
  case (2 ch h ch')
  then show ?case by (auto simp: ndp_driver_ops_def dest: channel_ctrl.start_hwptr [OF ctrl_ops_channel_ctrl])
next
  case (3 ch force r ch')
  then show ?case by (auto simp: ndp_driver_ops_def dest: channel_ctrl.stop_frame [OF ctrl_ops_channel_ctrl])
next
  case (4 ch)
  show ?case by (simp add: ndp_driver_ops_def channel_ctrl.stop_forced [OF ctrl_ops_channel_ctrl])
next
  case (5 ch p ch')
  then show ?case by (auto simp: ndp_driver_ops_def dest: channel_ctrl.get_hwptr_frame [OF ctrl_ops_channel_ctrl])
next
  case (6 ch p)
  show ?case by (simp add: ndp_driver_ops_def channel_ctrl.set_swptr_frame [OF ctrl_ops_channel_ctrl])
next
  case (7 ch f ch')
  then show ?case by (auto simp: ndp_driver_ops_def dest: channel_ctrl.get_flags_frame [OF ctrl_ops_channel_ctrl])
next
  case (8 ch f f' ch')
  then show ?case by (auto simp: ndp_driver_ops_def dest: channel_ctrl.set_flags_frame [OF ctrl_ops_channel_ctrl])
qed

section \<open>The channels that an attach leaves behind\<close>

text \<open>No attach of a ring touches the bookkeeping of subscriptions.\<close>

definition fresh_channel :: "'c ndp_channel \<Rightarrow> bool" where
  "fresh_channel ch \<longleftrightarrow> ch_locked_sub ch = None \<and> ch_start_count ch = 0 \<and> ch_subscriptions_count ch = 0 \<and>
     ch_flags ch = 0 \<and> ch_list_subscriptions ch = []"

lemma fresh_chan_inv: "fresh_channel ch \<Longrightarrow> chan_inv {} {} ch"
  by (simp add: fresh_channel_def chan_inv_def)

lemma fresh_retag [simp]: "fresh_channel (retag f ch) = fresh_channel ch"
  by (simp add: fresh_channel_def)

lemma fresh_update [simp]:
  "fresh_channel (ch\<lparr>ch_ring := r\<rparr>) = fresh_channel ch" "fresh_channel (ch\<lparr>ch_ctrl := c\<rparr>) = fresh_channel ch"
  "fresh_channel (ch\<lparr>ch_ptrmask := m\<rparr>) = fresh_channel ch"
  "fresh_channel (ch\<lparr>ch_req_block_count := a\<rparr>) = fresh_channel ch"
  "fresh_channel (ch\<lparr>ch_req_block_size := a\<rparr>) = fresh_channel ch"
  by (simp_all add: fresh_channel_def)

lemma req_block_update_fresh:
  assumes "fresh_channel ch" and "ndp_ctrl_medusa_req_block_update None bs n io ch w = Some (r, ch', w')"
  shows "fresh_channel ch'"
  using assms by (auto simp: ndp_ctrl_medusa_req_block_update_def Let_def split: if_splits)

lemma medusa_attach_fresh:
  assumes "fresh_channel ch" and "ndp_ctrl_medusa_attach_ring ch w = (r, ch', w')"
  shows "fresh_channel ch'"
  using assms unfolding ndp_ctrl_medusa_attach_ring_def Let_def
  by (auto split: if_splits option.splits prod.splits dest: req_block_update_fresh)

lemma rx_calypte_attach_fresh:
  assumes "fresh_channel ch" and "ndp_ctrl_rx_calypte_attach_ring ch w = (r, ch', w')"
  shows "fresh_channel ch'"
  using assms unfolding ndp_ctrl_rx_calypte_attach_ring_def Let_def
  by (auto split: if_splits option.splits prod.splits)

lemma tx_calypte_attach_fresh:
  assumes "fresh_channel ch" and "ndp_ctrl_tx_calypte_attach_ring d h ch w = (r, ch', w')"
  shows "fresh_channel ch'"
  using assms unfolding ndp_ctrl_tx_calypte_attach_ring_def Let_def
  by (auto split: if_splits option.splits prod.splits)

lemma sze_attach_fresh:
  assumes "fresh_channel ch" and "sze_ndp_ctrl_attach_ring ch w = (r, ch', w')"
  shows "fresh_channel ch'"
  using assms sze_ring.attach_frame [of _ _ ch w r ch' w'] by (auto simp: sze_ndp_ctrl_ops_def)

lemma driver_attach_fresh:
  assumes "fresh_channel ch" and "op_attach_ring (ndp_driver_ops e) ch w = (r, ch', w')"
  shows "fresh_channel ch'"
  using assms
  by (cases "ch_ctrl ch")
    (auto simp: ndp_driver_ops_def retag_ops_def call1_def call2_def sze_ndp_ctrl_ops_def ndp_ctrl_rx_ops_def ndp_ctrl_tx_ops_def
      ndp_ctrl_calypte_rx_ops_def ndp_ctrl_calypte_tx_ops_def apsnd_def apfst_def map_prod_def split: prod.splits
      dest!: sze_attach_fresh [rotated] medusa_attach_fresh [rotated] rx_calypte_attach_fresh [rotated]
        tx_calypte_attach_fresh [rotated])

lemma ring_alloc_fresh:
  assumes "fresh_channel ch" and "ndp_channel_ring_alloc dev cnt sz ch w = (r, ch', w')"
  shows "fresh_channel ch'"
  using ring_alloc_result [OF assms(2)] assms(1) by (auto split: if_splits)

lemma ring_free_fresh: "fresh_channel (fst (ndp_channel_ring_free ch w)) = fresh_channel ch"
  by (simp add: ndp_channel_ring_free_def Let_def split: option.splits)

lemma ring_create_fresh:
  assumes "fresh_channel ch" and "ndp_channel_ring_create (ndp_driver_ops e) dev cnt bs ch w = (r, ch', w')"
  shows "fresh_channel ch'"
proof -
  have free: "fresh_channel a \<longrightarrow> fresh_channel b" if "ndp_channel_ring_free a w = (b, w')" for a b :: "any_ctrl ndp_channel" and w w'
    using ring_free_fresh [of a w] that by simp
  have attach: "fresh_channel a \<longrightarrow> fresh_channel b" if "op_attach_ring (ndp_driver_ops e) a w = (r, b, w')" for a b w r w'
    using driver_attach_fresh that by blast
  show ?thesis
    using assms unfolding ndp_channel_ring_create_def Let_def
    by (auto split: option.splits if_splits prod.splits dest!: attach free dest: ring_alloc_fresh)
qed

lemma channel_add_fresh:
  assumes "fresh_channel ch" and "\<forall>c \<in> set chs. fresh_channel c"
  shows "\<forall>c \<in> set (fst (snd (ndp_channel_add (ndp_driver_ops e) d p ch chs w))). fresh_channel c"
  using assms by (auto simp: ndp_channel_add_def Let_def split: prod.splits if_splits dest: ring_create_fresh)

lemma init_fresh: "fresh_channel (ndp_channel_init bs rs cid ch)"
  by (simp add: ndp_channel_init_def ndp_channel_ring_req_block_update_by_size_def Let_def fresh_channel_def)

lemma sze_create_fresh: "sze_ndp_ctrl_create bs rs dev z comp_open cid = Inr ch \<Longrightarrow> fresh_channel ch"
  by (auto simp: sze_ndp_ctrl_create_def Let_def init_fresh split: option.splits)

lemma ndp_create_fresh:
  assumes "ndp_ctrl_create prm m dev z opened cid w = Some (Inr ch)"
  shows "fresh_channel ch"
proof -
  have upd: "fresh_channel a \<longrightarrow> fresh_channel b"
    if "ndp_ctrl_medusa_req_block_update None bs n io a w = Some (r, b, w')" for a b bs n io r w'
    using req_block_update_fresh that by blast
  show ?thesis
    using assms by (auto simp: ndp_ctrl_create_def Let_def init_fresh split: option.splits prod.splits if_splits dest!: upd)
qed

text \<open>All six functions of the table give fresh channels.\<close>

definition creates_fresh :: "ctrl_create \<Rightarrow> bool" where
  "creates_fresh create \<longleftrightarrow> (\<forall>prm index n w ch. create prm index n w = Some (Inr ch) \<longrightarrow> fresh_channel ch)"

lemma creates_freshD: "creates_fresh create \<Longrightarrow> create prm index n w = Some (Inr ch) \<Longrightarrow> fresh_channel ch"
  unfolding creates_fresh_def by blast

lemma map_sum_Inr: "map_sum f g x = Inr y \<longleftrightarrow> (\<exists>z. x = Inr z \<and> y = g z)"
  by (cases x) auto

lemma ndp_ctrls_fresh: "\<forall>(s, create) \<in> set ndp_ctrls. creates_fresh create"
  by (auto simp: ndp_ctrls_def creates_fresh_def ndp_ctrl_v1_create_rx_def ndp_ctrl_v1_create_tx_def
      ndp_ctrl_v2_create_rx_def ndp_ctrl_v2_create_tx_def ndp_ctrl_v3_create_rx_def ndp_ctrl_v3_create_tx_def
      map_sum_Inr dest: sze_create_fresh ndp_create_fresh)

lemma create_channels_fresh:
  assumes "creates_fresh create" and "\<forall>c \<in> set (fst st). fresh_channel c"
    and "ndp_create_channels_from_ctrl e prm create index nodes st = Some st'"
  shows "\<forall>c \<in> set (fst st'). fresh_channel c"
  using assms
proof (induction e prm create index nodes st rule: ndp_create_channels_from_ctrl.induct)
  case (2 e prm create index n nodes chs w)
  show ?case
  proof (cases "node_path_ok n \<and> node_phandle_of n \<noteq> None")
    case True
    then obtain phandle res where ph: "node_phandle_of n = Some phandle" and res: "create prm index n w = Some res"
      using 2(5) by (auto simp: bind_eq_Some_conv)
    let ?st = "case res of Inl err \<Rightarrow> (chs, w)
      | Inr ch \<Rightarrow> snd (ndp_channel_add (ndp_driver_ops e) (node_device_add n) phandle ch chs w)"
    have "\<forall>c \<in> set (fst ?st). fresh_channel c"
    proof (cases res)
      case (Inr ch)
      from res have "create prm index n w = Some (Inr ch)" by (simp only: Inr)
      then have "fresh_channel ch" by (rule creates_freshD [OF 2(3)])
      moreover have "\<forall>c \<in> set chs. fresh_channel c" using 2(4) by simp
      ultimately show ?thesis unfolding Inr sum.case by (rule channel_add_fresh)
    qed (use 2(4) in simp)
    with 2(1) [of phandle res] 2(3,5) True ph res show ?thesis by simp
  next
    case False
    with 2(2-5) show ?thesis by (auto split: if_splits)
  qed
qed simp

lemma create_all_fresh:
  assumes "\<forall>(s, create) \<in> set ctrls. creates_fresh create" and "\<forall>c \<in> set (fst st). fresh_channel c"
    and "create_all_channels e prm tree ctrls st = Some st'"
  shows "\<forall>c \<in> set (fst st'). fresh_channel c"
  using assms
proof (induction ctrls arbitrary: st)
  case (Cons ctrl ctrls)
  then obtain st1 where st1: "ndp_create_channels_from_ctrl e prm (snd ctrl) 0 (tree (fst ctrl)) st = Some st1"
    "create_all_channels e prm tree ctrls st1 = Some st'" by (auto simp: bind_eq_Some_conv)
  have "creates_fresh (snd ctrl)" using Cons.prems(1) by auto
  from create_channels_fresh [OF this Cons.prems(2) st1(1)] Cons.IH [OF _ _ st1(2)] Cons.prems(1)
  show ?case by simp
qed simp

lemma attach_reach:
  assumes "nfb_ndp_attach e prm True 0 tree fdt w = Some (r, Some ndp, fdt', w')"
  shows "ndp_reach ops ndp"
proof (rule ndp_reach_init)
  obtain chs where "create_all_channels e prm tree ndp_ctrls ([], w) = Some (chs, w')"
    and "ndp_channels ndp = chs" "ndp_subscribers ndp = []"
    using assms by (auto simp: nfb_ndp_attach_def)
  with create_all_fresh [OF ndp_ctrls_fresh, of "([], w)" e prm tree "(chs, w')"]
  show "chan_inv {} {} ch" if "ch \<in> set (ndp_channels ndp)" for ch
    using that by (auto intro: fresh_chan_inv)
  show "ndp_subscribers ndp = []" by fact
qed

section \<open>A device in use\<close>

text \<open>
  A device with one channel of the first generation.  File 5 is open, has subscribed the channel
  exclusively under the number 7 and started it.  What the operations leave in the controller does not
  matter; a step of the hardware sets it back to the initial one.
\<close>

definition example_env :: ndp_env where
  "example_env = \<lparr>env_rx_request_size = 256, env_tx_request_size = 512, env_garbage = 0, env_data_reg = None, env_hdr_reg = None\<rparr>"

definition example_channel :: "any_ctrl ndp_channel" where
  "example_channel = retag Ctrl_v1 example_sze_channel"

definition example_ndp :: "any_ctrl ndp_channel \<Rightarrow> nat list \<Rightarrow> sub_id list \<Rightarrow> ndp_subscription \<Rightarrow> any_ctrl ndp" where
  "example_ndp ch bs ss x = \<lparr>ndp_channels = [ch], ndp_subscribers = bs,
     ndp_sbr = (\<lambda>_. \<lparr>sbr_subscriptions = [], sbr_wake_rx = False, sbr_timer = False\<rparr>)
       (5 := \<lparr>sbr_subscriptions = ss, sbr_wake_rx = False, sbr_timer = False\<rparr>),
     ndp_subs = (\<lambda>_. zero_subscription)(7 := x)\<rparr>"

definition example_subscription :: ndp_subscription where
  "example_subscription = \<lparr>sub_channel = 0, sub_status = NDP_SUB_STATUS_SUBSCRIBED, sub_hwptr = 0, sub_swptr = 0,
     sub_subscriber = 5\<rparr>"

definition example_running :: "any_ctrl ndp" where
  "example_running = example_ndp
     (example_channel\<lparr>ch_subscriptions_count := 1, ch_flags := 2, ch_start_count := 1, ch_hwptr := 0x1000,
        ch_swptr := 0x1000, ch_list_subscriptions := [7]\<rparr>) [5] [7]
     (example_subscription\<lparr>sub_status := NDP_SUB_STATUS_RUNNING, sub_hwptr := 0x1000, sub_swptr := 0x1000\<rparr>)"

lemma example_hardware:
  assumes "ndp_reach ops (example_ndp (ch\<lparr>ch_ctrl := c\<rparr>) bs ss x)"
  shows "ndp_reach ops (example_ndp ch bs ss x)"
  using ndp_reach_step [OF assms ndp_step_hardware [of ops _ 0 "ch_ctrl ch"]] by (simp add: example_ndp_def)

lemma example_open: "ndp_reach ops (example_ndp example_channel [5] [] zero_subscription)"
proof -
  have "ndp_reach ops (example_ndp example_channel [] [] zero_subscription)"
    by (rule ndp_reach_init)
      (simp_all add: example_ndp_def example_channel_def example_sze_channel_def zero_channel_def chan_inv_def)
  moreover have "ndp_char_open (Some 5) (example_ndp example_channel [] [] zero_subscription) =
      (0, Some 5, example_ndp example_channel [5] [] zero_subscription)"
    by (simp add: example_ndp_def ndp_char_open_def ndp_subscriber_create_def)
  then have "ndp_step ops (example_ndp example_channel [] [] zero_subscription) (example_ndp example_channel [5] [] zero_subscription)"
    by (rule ndp_step_open [rotated]) (simp add: example_ndp_def)
  ultimately show ?thesis by (rule ndp_reach_step)
qed

lemma example_set_flags:
  "\<exists>c. op_set_flags (ndp_driver_ops example_env) (example_channel\<lparr>ch_subscriptions_count := 1\<rparr>) 0 =
     (0, example_channel\<lparr>ch_subscriptions_count := 1, ch_ctrl := c\<rparr>)"
proof -
  let ?r = "op_set_flags (ndp_driver_ops example_env) (example_channel\<lparr>ch_subscriptions_count := 1\<rparr>) 0"
  have "fst ?r = 0" by code_simp
  moreover have "same_channel (example_channel\<lparr>ch_subscriptions_count := 1\<rparr>) (snd ?r)"
    by (rule driver.set_flags_frame [of _ _ 0 "fst ?r"]) simp
  ultimately show ?thesis unfolding same_channel_def by (metis prod.collapse)
qed

lemma example_subscribe:
  "ndp_reach (ndp_driver_ops example_env)
     (example_ndp (example_channel\<lparr>ch_subscriptions_count := 1, ch_flags := 2\<rparr>) [5] [7] example_subscription)"
proof -
  obtain c where c: "op_set_flags (ndp_driver_ops example_env) (example_channel\<lparr>ch_subscriptions_count := 1\<rparr>) 0 =
     (0, example_channel\<lparr>ch_subscriptions_count := 1, ch_ctrl := c\<rparr>)" using example_set_flags by blast
  have sub: "ndp_channel_subscribe (ndp_driver_ops example_env) 2 example_channel =
      (0, 0, example_channel\<lparr>ch_subscriptions_count := 1, ch_flags := 2, ch_ctrl := c\<rparr>)"
    using c by (simp add: ndp_channel_subscribe_def example_channel_def example_sze_channel_def zero_channel_def retag_def ndp_flag_defs)
  have ch: "ch_id example_channel = \<lparr>cid_index = 0, cid_type = 0\<rparr>" "ring_size (ch_ring example_channel) = 0x2000"
    by (simp_all add: example_channel_def example_sze_channel_def zero_channel_def example_ring_def NDP_CHANNEL_TYPE_RX_def)
  let ?cmd = "NDP_IOC_SUBSCRIBE \<lparr>req_id = None, req_index = 0, req_type = 0, req_flags = 2\<rparr>"
  let ?ndp = "example_ndp example_channel [5] [] zero_subscription"
  let ?res = "ndp_char_ioctl (ndp_driver_ops example_env) 5 True True (Some 7) ?cmd ?ndp"
  have "snd (snd ?res) = example_ndp (example_channel\<lparr>ch_subscriptions_count := 1, ch_flags := 2, ch_ctrl := c\<rparr>)
      [5] [7] example_subscription"
    by (simp add: ndp_char_ioctl_def ndp_subscription_create_def example_ndp_def sub ch NDP_CHANNEL_TYPE_RX_def
        example_subscription_def Let_def)
  moreover have "ndp_step (ndp_driver_ops example_env) ?ndp (snd (snd ?res))"
    by (rule ndp_step_ioctl [where b = 5 and alloc = "Some 7" and cmd = ?cmd and r = "fst ?res" and cmd' = "fst (snd ?res)"])
      (simp_all add: example_ndp_def live_def)
  ultimately show ?thesis using ndp_reach_step [OF example_open] example_hardware by metis
qed


lemma example_start:
  "\<exists>c. op_start (ndp_driver_ops example_env)
      (example_channel\<lparr>ch_subscriptions_count := 1, ch_flags := 2, ch_start_count := 1\<rparr>) =
     (0, Some 0x1000, example_channel\<lparr>ch_subscriptions_count := 1, ch_flags := 2, ch_start_count := 1, ch_ctrl := c\<rparr>)"
proof -
  let ?ch = "example_channel\<lparr>ch_subscriptions_count := 1, ch_flags := 2, ch_start_count := 1\<rparr>"
  let ?r = "op_start (ndp_driver_ops example_env) ?ch"
  have status: "fst (nfb_comp_read32 example_comp SZE_CTRL_REG_STATUS) = 0" by code_simp
  have "?r = apsnd (apsnd (retag Ctrl_v1)) (sze_ndp_ctrl_start 256 512 (retag (\<lambda>_. example_sze) ?ch))"
    by (simp add: ndp_driver_ops_def retag_ops_def call1_def sze_ndp_ctrl_ops_def example_env_def example_channel_def
        example_sze_channel_def zero_channel_def)
  then have "fst ?r = 0" "fst (snd ?r) = Some 0x1000"
    using status by (simp_all add: sze_ndp_ctrl_start_def Let_def case_prod_beta example_sze_def)
  moreover have "same_channel ?ch (snd (snd ?r))" by (rule driver.start_frame [of _ _ "fst ?r" "fst (snd ?r)"]) simp
  ultimately show ?thesis unfolding same_channel_def by (metis prod.collapse)
qed

lemma example_running_reach: "ndp_reach (ndp_driver_ops example_env) example_running"
proof -
  let ?ch = "example_channel\<lparr>ch_subscriptions_count := 1, ch_flags := 2\<rparr>"
  let ?ndp = "example_ndp ?ch [5] [7] example_subscription"
  obtain c where c: "op_start (ndp_driver_ops example_env) (?ch\<lparr>ch_start_count := 1\<rparr>) =
      (0, Some 0x1000, ?ch\<lparr>ch_start_count := 1, ch_ctrl := c\<rparr>)" using example_start by blast
  let ?ch1 = "?ch\<lparr>ch_start_count := 1, ch_hwptr := 0x1000, ch_swptr := 0x1000, ch_list_subscriptions := [7]\<rparr>"
  have sub: "ndp_channel_start (ndp_driver_ops example_env) 7 (?ch, ndp_subs ?ndp) =
      (0, ?ch1\<lparr>ch_ctrl := c\<rparr>, (ndp_subs ?ndp)(7 := example_subscription\<lparr>sub_hwptr := 0x1000, sub_swptr := 0x1000\<rparr>))"
    using c by (simp add: ndp_channel_start_def example_channel_def example_sze_channel_def zero_channel_def retag_def
        example_ndp_def)
  let ?cmd = "NDP_IOC_START \<lparr>sync_id = 7, sync_flags = 0, sync_size = 0, sync_hwptr = 0, sync_swptr = 0\<rparr>"
  let ?res = "ndp_char_ioctl (ndp_driver_ops example_env) 5 True True None ?cmd ?ndp"
  have "snd (snd ?res) = example_ndp (?ch1\<lparr>ch_ctrl := c\<rparr>) [5] [7]
      (example_subscription\<lparr>sub_status := NDP_SUB_STATUS_RUNNING, sub_hwptr := 0x1000, sub_swptr := 0x1000\<rparr>)"
    using sub by (simp add: ndp_char_ioctl_def ndp_subscription_start_def ndp_subscription_by_id_def example_ndp_def
        example_subscription_def Let_def)
  moreover have "ndp_step (ndp_driver_ops example_env) ?ndp (snd (snd ?res))"
    by (rule ndp_step_ioctl [where b = 5 and alloc = None and cmd = ?cmd and r = "fst ?res" and cmd' = "fst (snd ?res)"])
      (simp_all add: example_ndp_def)
  ultimately have "ndp_reach (ndp_driver_ops example_env) (example_ndp (?ch1\<lparr>ch_ctrl := c\<rparr>) [5] [7]
      (example_subscription\<lparr>sub_status := NDP_SUB_STATUS_RUNNING, sub_hwptr := 0x1000, sub_swptr := 0x1000\<rparr>))"
    using ndp_reach_step [OF example_subscribe] by metis
  from example_hardware [OF this] show ?thesis by (simp add: example_running_def)
qed

text \<open>The same channel for transmission: 7 and 8 are running and 7 has asked for 256 bytes.\<close>

definition example_tx_channel :: "any_ctrl ndp_channel" where
  "example_tx_channel = example_channel\<lparr>ch_id := \<lparr>cid_index = 0, cid_type = NDP_CHANNEL_TYPE_TX\<rparr>\<rparr>"

lemma example_tx_sel:
  "ch_ctrl example_tx_channel = Ctrl_v1 example_sze" "ch_start_count example_tx_channel = 0"
  "ch_ptrmask example_tx_channel = 0x1FFF" "ch_list_subscriptions example_tx_channel = []"
  "ch_locked_sub example_tx_channel = None" "ch_id example_tx_channel = \<lparr>cid_index = 0, cid_type = NDP_CHANNEL_TYPE_TX\<rparr>"
  by (simp_all add: example_tx_channel_def example_channel_def example_sze_channel_def zero_channel_def)

lemma example_tx_start:
  "\<exists>c. op_start (ndp_driver_ops example_env) (example_tx_channel\<lparr>ch_start_count := 1\<rparr>) =
     (0, Some 0x1000, example_tx_channel\<lparr>ch_start_count := 1, ch_ctrl := c\<rparr>)"
proof -
  let ?ch = "example_tx_channel\<lparr>ch_start_count := 1\<rparr>"
  let ?r = "op_start (ndp_driver_ops example_env) ?ch"
  have status: "fst (nfb_comp_read32 example_comp SZE_CTRL_REG_STATUS) = 0" by code_simp
  have "?r = apsnd (apsnd (retag Ctrl_v1)) (sze_ndp_ctrl_start 256 512 (retag (\<lambda>_. example_sze) ?ch))"
    by (simp add: ndp_driver_ops_def retag_ops_def call1_def sze_ndp_ctrl_ops_def example_env_def example_tx_sel)
  then have "fst ?r = 0" "fst (snd ?r) = Some 0x1000"
    using status by (simp_all add: sze_ndp_ctrl_start_def Let_def case_prod_beta example_sze_def)
  moreover have "same_channel ?ch (snd (snd ?r))" by (rule driver.start_frame [of _ _ "fst ?r" "fst (snd ?r)"]) simp
  ultimately show ?thesis unfolding same_channel_def by (metis prod.collapse)
qed

lemma tx_reach_hardware:
  "tx_reach ops (ch\<lparr>ch_ctrl := c\<rparr>, subs) \<Longrightarrow> tx_reach ops (ch, subs)"
  using tx_reach_step [OF _ tx_step_hardware [of ops "ch\<lparr>ch_ctrl := c\<rparr>" subs "ch_ctrl ch"]] by simp

lemma example_tx_reach:
  "\<exists>ch subs. tx_reach (ndp_driver_ops example_env) (ch, subs) \<and> ch_ptrmask ch = mask 13 \<and>
     ch_list_subscriptions ch = [7, 8] \<and> tx_window 13 (subs 7) = 0x100"
proof -
  let ?ops = "ndp_driver_ops example_env" and ?started = "zero_subscription\<lparr>sub_hwptr := 0x1000, sub_swptr := 0x1000\<rparr>"
  define ch1 where "ch1 = example_tx_channel\<lparr>ch_start_count := 1, ch_hwptr := 0x1000, ch_swptr := 0x1000,
      ch_list_subscriptions := [7]\<rparr>"
  define subs1 :: subs where "subs1 = (\<lambda>_. zero_subscription)(7 := ?started)"
  define ch2 where "ch2 = ch1\<lparr>ch_start_count := 2, ch_list_subscriptions := [7, 8]\<rparr>"
  define subs2 where "subs2 = subs1(8 := ?started)"
  obtain c where c: "op_start ?ops (example_tx_channel\<lparr>ch_start_count := 1\<rparr>) =
     (0, Some 0x1000, example_tx_channel\<lparr>ch_start_count := 1, ch_ctrl := c\<rparr>)" using example_tx_start by blast
  have "ndp_channel_start ?ops 7 (example_tx_channel, \<lambda>_. zero_subscription) = (0, ch1\<lparr>ch_ctrl := c\<rparr>, subs1)"
    using c by (simp add: ndp_channel_start_def ch1_def subs1_def example_tx_sel)
  then have "tx_reach ?ops (ch1\<lparr>ch_ctrl := c\<rparr>, subs1)"
    by (rule tx_reach_step [OF tx_reach_init tx_step_start, rotated 2]) (simp_all add: example_tx_sel)
  then have "tx_reach ?ops (ch1, subs1)" by (rule tx_reach_hardware)
  moreover have "ndp_channel_start ?ops 8 (ch1, subs1) = (0, ch2, subs2)"
    by (simp add: ndp_channel_start_def ch1_def ch2_def subs2_def) (simp add: subs1_def)
  then have "tx_step ?ops (ch1, subs1) (ch2, subs2)" by (rule tx_step_start [rotated]) (simp add: ch1_def)
  ultimately have r2: "tx_reach ?ops (ch2, subs2)" by (rule tx_reach_step)
  define sync where "sync = \<lparr>sync_id = 7, sync_flags = 0, sync_size = 0, sync_hwptr = 0x1000, sync_swptr = 0x1100\<rparr>"
  obtain sync3 ch3 subs3 where s3: "ndp_channel_txsync ?ops 7 sync (ch2, subs2) = (sync3, ch3, subs3)"
    using prod_cases3 by blast
  have "fst (op_get_hwptr ?ops ch2) = 0x500"
    by (simp add: ndp_driver_ops_def retag_ops_def call1_def sze_ndp_ctrl_ops_def ch2_def ch1_def example_tx_sel
        sze_ndp_ctrl_get_hwptr_def sze_read_update_def example_sze_def Let_def)
  then obtain d where "op_get_hwptr ?ops ch2 = (0x500, ch2\<lparr>ch_ctrl := d\<rparr>)"
    using driver.get_hwptr_step [of example_env ch2] by auto
  moreover have "ch_locked_sub ch2 = None" "ch_swptr ch2 = 0x1000" "ch_ptrmask ch2 = 0x1FFF" "ch_list_subscriptions ch2 = [7, 8]"
    by (simp_all add: ch2_def ch1_def example_tx_sel)
  ultimately have "ch_ptrmask ch3 = 0x1FFF" "ch_list_subscriptions ch3 = [7, 8]" "subs3 7 = (subs2 7)\<lparr>sub_hwptr := 0x1000, sub_swptr := 0x1100\<rparr>"
    using s3 by (auto simp: ndp_channel_txsync_def txsync_update_hwptr_def txsync_len_def sync_def Let_def split: option.splits)
  moreover have "tx_reach ?ops (ch3, subs3)"
    by (rule tx_reach_step [OF r2 tx_step_sync [OF _ s3]]) (simp add: ch2_def)
  ultimately show ?thesis by (intro exI [of _ ch3] exI [of _ subs3]) (simp add: mask_numeral tx_window_def)
qed

section \<open>The driver over all reachable states\<close>

text \<open>C11.  The bookkeeping of the driver.  In every state that a device with any mixture of controllers
  reaches by system calls of any applications, timer ticks and hardware events in any order: the use
  count and the start count of every channel are the numbers of subscriptions and of running
  subscriptions that open files hold on it, the list of running subscriptions has each of them once,
  the transmit lock is free or belongs to a running subscription of the channel, and a channel opened
  exclusively has one subscription.
\<close>

theorem driver_bookkeeping:
  assumes "ndp_reach (ndp_driver_ops e) ndp" and "c < length (ndp_channels ndp)"
  defines "ch \<equiv> ndp_channels ndp ! c"
    and "subs \<equiv> {s. (\<exists>b \<in> set (ndp_subscribers ndp). s \<in> set (sbr_subscriptions (ndp_sbr ndp b))) \<and>
                    sub_channel (ndp_subs ndp s) = c}"
  shows "ch_subscriptions_count ch = of_nat (card subs) \<and> card subs < 2 ^ 32 \<and>
    distinct (ch_list_subscriptions ch) \<and>
    set (ch_list_subscriptions ch) = {s \<in> subs. sub_status (ndp_subs ndp s) = NDP_SUB_STATUS_RUNNING} \<and>
    ch_start_count ch = of_nat (length (ch_list_subscriptions ch)) \<and>
    (\<forall>s. ch_locked_sub ch = Some s \<longrightarrow> s \<in> set (ch_list_subscriptions ch)) \<and>
    (ch_flags ch AND NDP_CHANNEL_FLAG_EXCLUSIVE \<noteq> 0 \<longrightarrow> card subs \<le> 1)"
proof -
  have subs: "subs = members ndp c" by (auto simp: subs_def members_def live_def)
  have inv: "ndp_inv ndp" by (rule driver.reach_inv [OF assms(1)])
  then have ci: "chan_inv (members ndp c) (running ndp c) ch" using assms(2) by (simp add: ndp_inv_def ch_def)
  have "card (members ndp c) < 2 ^ 32" using inv card_members_le [of ndp c] by (simp add: ndp_inv_def)
  with ci show ?thesis
    unfolding subs by (auto simp: chan_inv_def distinct_card [symmetric] running_def)
qed

theorem driver_bookkeeping_witness:
  "ch_start_count (ndp_channels example_running ! 0) = 1 \<and>
   card {s. (\<exists>b \<in> set (ndp_subscribers example_running). s \<in> set (sbr_subscriptions (ndp_sbr example_running b))) \<and>
     sub_channel (ndp_subs example_running s) = 0} \<le> 1"
proof -
  have ch: "0 < length (ndp_channels example_running)" "ch_list_subscriptions (ndp_channels example_running ! 0) = [7]"
    "ch_flags (ndp_channels example_running ! 0) AND NDP_CHANNEL_FLAG_EXCLUSIVE \<noteq> 0"
    by (simp_all add: example_running_def example_ndp_def ndp_flag_defs)
  note b = driver_bookkeeping [OF example_running_reach ch(1)]
  from b have "ch_start_count (ndp_channels example_running ! 0) = of_nat (length (ch_list_subscriptions (ndp_channels example_running ! 0)))"
    by (elim conjE)
  moreover from b ch(3) have "card {s. (\<exists>b \<in> set (ndp_subscribers example_running).
      s \<in> set (sbr_subscriptions (ndp_sbr example_running b))) \<and> sub_channel (ndp_subs example_running s) = 0} \<le> 1"
    by (elim conjE) (erule mp)
  ultimately show ?thesis unfolding ch(2) by simp
qed

text \<open>C26.  What the last close of a file leaves.  Closing a file in a reachable state removes exactly its
  subscriptions: running ones are stopped by force, the counts of every channel drop by the number of
  the removed ones, the subscriptions of all other files stay, and the state is consistent again.
\<close>

theorem driver_release:
  assumes "ndp_reach (ndp_driver_ops e) ndp" and "b \<in> set (ndp_subscribers ndp)"
  defines "ndp' \<equiv> ndp_char_release (ndp_driver_ops e) b ndp"
  shows "live ndp' = live ndp - set (sbr_subscriptions (ndp_sbr ndp b)) \<and>
    (\<forall>c < length (ndp_channels ndp').
       \<forall>s \<in> set (sbr_subscriptions (ndp_sbr ndp b)).
         s \<notin> set (ch_list_subscriptions (ndp_channels ndp' ! c)) \<and> ch_locked_sub (ndp_channels ndp' ! c) \<noteq> Some s) \<and>
    ndp_reach (ndp_driver_ops e) ndp'"
proof -
  have inv: "ndp_inv ndp" by (rule driver.reach_inv [OF assms(1)])
  note rel = driver.release_inv [OF inv assms(2), of e, folded ndp'_def]
  have reach: "ndp_reach (ndp_driver_ops e) ndp'"
    unfolding ndp'_def by (rule ndp_reach_step [OF assms(1)]) (rule ndp_step_release [OF assms(2)])
  have "set (ch_list_subscriptions (ndp_channels ndp' ! c)) \<subseteq> live ndp' \<and>
      (\<forall>s. ch_locked_sub (ndp_channels ndp' ! c) = Some s \<longrightarrow> s \<in> live ndp')"
    if "c < length (ndp_channels ndp')" for c
  proof -
    from rel(1) that have "chan_inv (members ndp' c) (running ndp' c) (ndp_channels ndp' ! c)" by (simp add: ndp_inv_def)
    moreover have "running ndp' c \<subseteq> live ndp'" by (auto simp: running_def members_def)
    ultimately show ?thesis by (auto simp: chan_inv_def)
  qed
  with rel reach show ?thesis by blast
qed

theorem driver_release_witness:
  "live (ndp_char_release (ndp_driver_ops example_env) 5 example_running) = {}"
  using driver_release [OF example_running_reach, of 5] by (simp add: example_running_def example_ndp_def live_def)



text \<open>C2.  Transmitting applications never share a part of the ring.  Over every run of a transmit channel
  in which applications start, synchronise and stop in any order and no stop is refused, at most one
  of the running subscriptions has a non-empty window to write into.
\<close>

theorem driver_tx_exclusive:
  assumes "tx_reach (ndp_driver_ops e) (ch, subs)" and "ch_ptrmask ch = mask k"
    and "s \<in> set (ch_list_subscriptions ch)" and "t \<in> set (ch_list_subscriptions ch)"
    and "(sub_swptr (subs s) - sub_hwptr (subs s)) AND mask k \<noteq> 0"
    and "(sub_swptr (subs t) - sub_hwptr (subs t)) AND mask k \<noteq> 0"
  shows "s = t"
  using driver.tx_exclusive [OF assms(1-4)] assms(5,6) by (simp add: tx_window_def)

theorem driver_tx_exclusive_witness:
  "\<exists>ch subs. tx_reach (ndp_driver_ops example_env) (ch, subs) \<and> set (ch_list_subscriptions ch) = {7, 8} \<and>
     tx_window 13 (subs 7) = 0x100 \<and> tx_window 13 (subs 8) = 0"
proof -
  obtain ch subs where st: "tx_reach (ndp_driver_ops example_env) (ch, subs)" "ch_ptrmask ch = mask 13"
    "ch_list_subscriptions ch = [7, 8]" "tx_window 13 (subs 7) = 0x100" using example_tx_reach by blast
  have "tx_window 13 (subs 8) = 0"
    using driver_tx_exclusive [OF st(1,2), of 7 8] st(3,4) by (force simp: tx_window_def)
  with st show ?thesis by (intro exI [of _ ch] exI [of _ subs]) simp
qed



text \<open>In every state that the driver reaches by any interleaving of system calls, timer ticks and
  hardware events, \<open>poll\<close> answers that nothing is readable and only arms the timer again: the
  function that looks for received data returns before it looks, so no reader waiting in \<open>poll\<close> is
  ever woken.
\<close>

theorem poll_never_ready:
  assumes "ndp_reach ops ndp" and "b \<in> set (ndp_subscribers ndp)"
  shows "fst (ndp_char_poll b ndp) = 0 \<and> \<not> sbr_wake_rx (ndp_sbr (ndp_subscriber_poll_timer b ndp) b)"
  using poll_not_ready [OF assms] by simp

theorem poll_never_ready_witness: "fst (ndp_char_poll 5 example_running) = 0"
  using poll_never_ready [OF example_running_reach, of 5] by (simp add: example_running_def example_ndp_def)

end
