(* ===== verification/Queue.thy ===== *)
theory Queue
  imports NdpTypes
begin

text \<open>
  The data of the NDP queues of libnfb as an application sees them (\<open>libnfb/include/netcope/ndp_priv.h\<close>,
  \<open>libnfb/include/nfb/ndp.h\<close>) and the three calls into the driver (\<open>ndp_base.h\<close>), in the variant
  compiled for user space.

  The application and the hardware share memory: the packet buffer, which is mapped twice in a row
  (see the theory on rings), the arrays of packet headers and packet offsets, mapped twice as well, and
  the update buffer.  Pointers into these areas are offsets; an access takes the offset modulo the
  length of the area.  The state of the kernel and the hardware is a parameter \<open>'k\<close>, and an \<open>ioctl\<close> is a
  function that may change the request structure, that state and the shared memory.
\<close>

section \<open>Shared memory\<close>

record ndp_v2_packethdr =
  h2_packet_size :: u16
  h2_header_size :: u8
  h2_flags :: u8

record ndp_v3_packethdr =
  h3_frame_len :: u16
  h3_frame_ptr :: u16
  h3_valid :: "1 word"
  h3_header_size :: u8
  h3_flags :: "4 word"

text \<open>What the Calypte queue writes into the device: packet data, packet headers, pointer registers.\<close>

datatype dev_write =
    Write_data u64 u16 u64
  | Write_hdr ndp_v3_packethdr u64
  | Write_sdp u64

record ndp_shm =
  shm_buffer :: "u64 \<Rightarrow> u8"
  shm_hdr2 :: "int \<Rightarrow> ndp_v2_packethdr"
  shm_off2 :: "int \<Rightarrow> u64"
  shm_hdr3 :: "int \<Rightarrow> ndp_v3_packethdr"
  shm_update :: "u32 \<times> u32"
  shm_log :: "dev_write list"

section \<open>Queues and packets\<close>

record ndp_packet =
  pkt_data :: u64
  pkt_header :: u64
  pkt_data_length :: u32
  pkt_header_length :: u16
  pkt_flags :: u16

record nc_ndp_v1 =
  v1_data :: u64
  v1_bytes :: u64
  v1_total :: u64
  v1_swptr :: u64

record nc_ndp_v2 =
  v2_pkts_available :: u32
  v2_rhp :: u32
  v2_hdr_items :: u32
  v2_hdr :: int
  v2_off :: int

record nc_ndp_v3 =
  v3_pkts_available :: u32
  v3_pkts_to_send :: u32
  v3_bytes_available :: u64
  v3_sdp :: u32
  v3_shp :: u32
  v3_data_ptr_mask :: u32
  v3_hdr_ptr_mask :: u32
  v3_hdrs :: int
  v3_tx_pkts :: "u64 list"
  v3_tx_pkts_cnt :: u64
  v3_valid_flag :: u8
  v3_uspace_shp :: u32
  v3_uspace_hhp :: u32
  v3_uspace_sdp :: u32
  v3_uspace_hdp :: u32
  v3_uspace_mhp :: u32
  v3_uspace_mdp :: u32
  v3_uspace_free :: u32
  v3_uspace_acc :: u32

text \<open>The three members of the union are separate fields; a queue uses the one of its protocol.\<close>

record 'k nc_ndp_queue =
  q_size :: u64
  q_v1 :: nc_ndp_v1
  q_v2 :: nc_ndp_v2
  q_v3 :: nc_ndp_v3
  q_sync :: ndp_subscription_sync
  q_frame_size_min :: u32
  q_frame_size_max :: u32
  q_protocol :: u32
  q_flags :: u32
  q_channel :: ndp_channel_request
  q_kern :: 'k
  q_shm :: ndp_shm

section \<open>Calls into the driver\<close>

type_synonym 'k ioctl = "ndp_subscription_sync \<Rightarrow> 'k \<times> ndp_shm \<Rightarrow> int \<times> ndp_subscription_sync \<times> 'k \<times> ndp_shm"

record 'k ndp_sys =
  sys_sync :: "'k ioctl"
  sys_start :: "'k ioctl"
  sys_stop :: "'k ioctl"

definition queue_ioctl :: "'k ioctl \<Rightarrow> 'k nc_ndp_queue \<Rightarrow> int \<times> 'k nc_ndp_queue" where
  "queue_ioctl call q =
     (case call (q_sync q) (q_kern q, q_shm q) of (ret, sync, k, shm) \<Rightarrow>
        (ret, q\<lparr>q_sync := sync, q_kern := k, q_shm := shm\<rparr>))"

text \<open>The result of a call is the error number, 0 on success.\<close>

definition ndp_queue_sync :: "'k ndp_sys \<Rightarrow> 'k nc_ndp_queue \<Rightarrow> int \<times> 'k nc_ndp_queue" where
  "ndp_queue_sync sys q = queue_ioctl (sys_sync sys) q"

definition ndp_queue_start_sub :: "'k ndp_sys \<Rightarrow> 'k nc_ndp_queue \<Rightarrow> int \<times> 'k nc_ndp_queue" where
  "ndp_queue_start_sub sys q = queue_ioctl (sys_start sys) q"

text \<open>The stop repeats while the driver answers \<open>EAGAIN\<close>.\<close>

partial_function (option) ndp_queue_stop_sub :: "'k ndp_sys \<Rightarrow> 'k nc_ndp_queue \<Rightarrow> (int \<times> 'k nc_ndp_queue) option" where
  "ndp_queue_stop_sub sys q =
     (case queue_ioctl (sys_stop sys) q of (ret, q1) \<Rightarrow>
        if ret = EAGAIN then ndp_queue_stop_sub sys q1 else Some (ret, q1))"

declare ndp_queue_stop_sub.simps [code]

text \<open>\<open>ALIGN(x, 8)\<close> on a 16-bit number, and a little-endian number in the buffer.\<close>

definition align8 :: "u32 \<Rightarrow> u32" where
  "align8 x = (x + 7) AND NOT 7"

definition buf_at :: "'k nc_ndp_queue \<Rightarrow> u64 \<Rightarrow> u8" where
  "buf_at q a = shm_buffer (q_shm q) (a mod q_size q)"

definition le16_at :: "'k nc_ndp_queue \<Rightarrow> u64 \<Rightarrow> u16" where
  "le16_at q a = ucast (buf_at q a) OR push_bit 8 (ucast (buf_at q (a + 1)))"

definition buf_store :: "u64 \<Rightarrow> u8 \<Rightarrow> 'k nc_ndp_queue \<Rightarrow> 'k nc_ndp_queue" where
  "buf_store a v q = q\<lparr>q_shm := (q_shm q)\<lparr>shm_buffer := (shm_buffer (q_shm q))(a mod q_size q := v)\<rparr>\<rparr>"

definition le16_store :: "u64 \<Rightarrow> u16 \<Rightarrow> 'k nc_ndp_queue \<Rightarrow> 'k nc_ndp_queue" where
  "le16_store a v q = buf_store (a + 1) (ucast (drop_bit 8 v)) (buf_store a (ucast v) q)"

primrec buf_clear :: "u64 \<Rightarrow> nat \<Rightarrow> 'k nc_ndp_queue \<Rightarrow> 'k nc_ndp_queue" where
  "buf_clear a 0 q = q"
| "buf_clear a (Suc n) q = buf_clear (a + 1) n (buf_store a 0 q)"

section \<open>What a receiving queue relies on of the driver\<close>

text \<open>
  A successful synchronisation of a receive subscription reports a new hardware pointer and changes
  nothing else of the request.  \<open>ok\<close> says that the request names such a subscription.
\<close>

locale rx_sys =
  fixes sys :: "'k ndp_sys" and ok :: "ndp_subscription_sync \<Rightarrow> 'k \<Rightarrow> bool"
  assumes rx_sync: "sys_sync sys sync (k, shm) = (0, sync', k', shm') \<Longrightarrow> ok sync k \<Longrightarrow>
      sync' = sync\<lparr>sync_hwptr := sync_hwptr sync'\<rparr> \<and> ok sync' k'"
    and rx_error: "sys_sync sys sync (k, shm) = (r, sync', k', shm') \<Longrightarrow> r \<noteq> 0 \<Longrightarrow> ok sync k \<Longrightarrow>
      sync' = sync \<and> ok sync' k'"
    and rx_swptr: "ok (sync\<lparr>sync_swptr := p\<rparr>) k = ok sync k"
begin

lemma queue_sync_ok:
  assumes "ndp_queue_sync sys q = (r, q1)" and "ok (q_sync q) (q_kern q)"
  shows "ok (q_sync q1) (q_kern q1)"
    and "\<exists>h k shm. q1 = q\<lparr>q_sync := (q_sync q)\<lparr>sync_hwptr := h\<rparr>, q_kern := k, q_shm := shm\<rparr> \<and>
           (r \<noteq> 0 \<longrightarrow> h = sync_hwptr (q_sync q))"
proof -
  obtain r' sync' k' shm' where c: "sys_sync sys (q_sync q) (q_kern q, q_shm q) = (r', sync', k', shm')"
    using prod_cases4 by blast
  then have q1: "r = r'" "q1 = q\<lparr>q_sync := sync', q_kern := k', q_shm := shm'\<rparr>"
    using assms(1) by (auto simp: ndp_queue_sync_def queue_ioctl_def)
  have "ok sync' k' \<and> (\<exists>h. sync' = (q_sync q)\<lparr>sync_hwptr := h\<rparr> \<and> (r \<noteq> 0 \<longrightarrow> h = sync_hwptr (q_sync q)))"
  proof (cases "r' = 0")
    case True
    with rx_sync [of "q_sync q" "q_kern q" "q_shm q" sync' k' shm'] c assms(2) show ?thesis by (auto simp: q1)
  next
    case False
    with rx_error [OF c] assms(2) show ?thesis by (auto simp: q1 intro!: exI [of _ "sync_hwptr (q_sync q)"])
  qed
  then show "ok (q_sync q1) (q_kern q1)"
    "\<exists>h k shm. q1 = q\<lparr>q_sync := (q_sync q)\<lparr>sync_hwptr := h\<rparr>, q_kern := k, q_shm := shm\<rparr> \<and>
       (r \<noteq> 0 \<longrightarrow> h = sync_hwptr (q_sync q))"
    by (auto simp: q1)
qed

end

section \<open>Rounding up to multiples of eight\<close>

lemma unat_align8:
  assumes "unat x + 7 < 2 ^ 32"
  shows "unat (align8 x) = (unat x + 7) div 8 * 8"
proof -
  have m: "align8 x = (x + 7) AND NOT (mask 3)" by (simp add: align8_def mask_numeral)
  have "unat (x + 7) = unat x + 7" using assms by (subst unat_add_lem [THEN iffD1]) (simp_all)
  then show ?thesis by (simp add: m unat_and_not_mask)
qed

text \<open>The rounded length as the 16-bit variable holds it.\<close>

definition slot_len :: "u16 \<Rightarrow> u64" where
  "slot_len len = ucast (ucast (align8 (ucast len)) :: u16)"

lemma unat_slot_len: "unat (slot_len len) = ((unat len + 7) div 8 * 8) mod 2 ^ 16"
proof -
  have less: "unat len < 2 ^ 16" using unsigned_less [of len, where 'a = nat] by simp
  then have l: "unat (ucast len :: u32) = unat len" by (simp add: unsigned_ucast_eq take_bit_nat_eq_self)
  from less have "unat (align8 (ucast len)) = (unat len + 7) div 8 * 8" by (simp add: unat_align8 l)
  moreover define y :: u16 where "y = ucast (align8 (ucast len))"
  ultimately have "unat y = ((unat len + 7) div 8 * 8) mod 2 ^ 16"
    by (simp add: unsigned_ucast_eq take_bit_eq_mod)
  moreover have "unat (ucast y :: u64) = unat y"
    using unsigned_less [of y, where 'a = nat] by (simp add: unsigned_ucast_eq take_bit_nat_eq_self)
  ultimately show ?thesis by (simp add: slot_len_def y_def)
qed

lemma slot_len_fits:
  assumes "ucast len \<le> b" and "b AND mask 3 = 0"
  shows "slot_len len \<le> b" and "slot_len len AND mask 3 = 0"
proof -
  have "unat (b AND mask 3) = 0" using assms(2) by simp
  then have b8: "8 dvd unat b" by (simp add: unat_and_mask dvd_eq_mod_eq_0)
  have "unat (ucast len :: u64) = unat len"
    using unsigned_less [of len, where 'a = nat] by (simp add: unsigned_ucast_eq take_bit_nat_eq_self)
  then have "unat len \<le> unat b" using assms(1) by (simp add: word_le_nat_alt)
  then have "(unat len + 7) div 8 * 8 \<le> unat b" using b8 by (auto elim!: dvdE)
  then show "slot_len len \<le> b" by (simp add: word_le_nat_alt unat_slot_len)
  have "((unat len + 7) div 8 * 8) mod 2 ^ 16 mod 8 = 0" by (subst mod_mod_cancel) simp_all
  then have "unat (slot_len len AND mask 3) = 0" by (simp only: unat_and_mask unat_slot_len) simp
  then show "slot_len len AND mask 3 = 0" by (simp add: unat_eq_0)
qed

end
