(* ===== verification/QueueV1.thy ===== *)
theory QueueV1
  imports Queue
begin

text \<open>
  Queues of the first protocol (\<open>nc_ndp_v1_*\<close> in \<open>libnfb/include/netcope/ndp_rx.h\<close> and \<open>ndp_tx.h\<close>):
  packets lie one after the other in the ring buffer, each behind a small header with its length.  The
  queue holds a locked part of the ring and hands out packets (or, for transmission, room for packets)
  from it.

  The loops keep the pointers of the queue in local variables; here these are the record \<open>nc_ndp_v1\<close>
  that the loop passes on, written back to the queue where the code does.
\<close>

section \<open>Receive\<close>

definition v1_window :: "'k nc_ndp_queue \<Rightarrow> u64 \<Rightarrow> u64 \<Rightarrow> nc_ndp_v1" where
  "v1_window q beg fin =
     \<lparr>v1_data = beg + v1_swptr (q_v1 q),
      v1_bytes = (fin - beg - v1_swptr (q_v1 q)) AND (q_size q - 1),
      v1_total = (fin - beg) AND (q_size q - 1), v1_swptr = v1_swptr (q_v1 q)\<rparr>"

definition nc_ndp_v1_rx_lock :: "'k ndp_sys \<Rightarrow> 'k nc_ndp_queue \<Rightarrow> int \<times> 'k nc_ndp_queue" where
  "nc_ndp_v1_rx_lock sys q =
     (case ndp_queue_sync sys q of (ret, q1) \<Rightarrow>
        if ret \<noteq> 0 then (ret, q1)
        else (0, q1\<lparr>q_v1 := v1_window q1 (sync_swptr (q_sync q1)) (sync_hwptr (q_sync q1))\<rparr>))"

definition nc_ndp_v1_rx_unlock :: "'k ndp_sys \<Rightarrow> 'k nc_ndp_queue \<Rightarrow> int \<times> 'k nc_ndp_queue" where
  "nc_ndp_v1_rx_unlock sys q =
     (let v = q_v1 q; unlock_bytes = v1_total v - v1_bytes v
      in ndp_queue_sync sys
        (q\<lparr>q_sync := (q_sync q)\<lparr>sync_swptr := (sync_swptr (q_sync q) + unlock_bytes) AND (q_size q - 1)\<rparr>,
           q_v1 := v\<lparr>v1_total := v1_total v - unlock_bytes, v1_swptr := 0\<rparr>\<rparr>))"

text \<open>
  How a burst ends: it returns a number, and the array then holds the given packets, or the program
  exits because the data in the ring make no sense.
\<close>

datatype 'k burst =
    Burst u32 "ndp_packet list" "'k nc_ndp_queue"
  | Program_exit int

text \<open>The checks and the packet of one iteration; \<open>Inl\<close> is the exit code.\<close>

definition v1_rx_packet :: "'k nc_ndp_queue \<Rightarrow> nc_ndp_v1 \<Rightarrow> int + ndp_packet \<times> u64" where
  "v1_rx_packet q v =
     (let packet_size = le16_at q (v1_data v); header_size = le16_at q (v1_data v + 2)
      in if packet_size = 0 \<or> int (unat header_size) > int (unat packet_size) - 4 then Inl 5
      else if ucast packet_size > v1_bytes v then Inl 15
      else
        let hs = (ucast (align8 (ucast header_size + 4)) :: u16)
        in Inr (\<lparr>pkt_data = v1_data v + ucast hs, pkt_header = v1_data v + 4,
                 pkt_data_length = ucast packet_size - ucast hs, pkt_header_length = header_size, pkt_flags = 0\<rparr>,
                slot_len packet_size))"

definition v1_advance :: "u64 \<Rightarrow> nc_ndp_v1 \<Rightarrow> nc_ndp_v1" where
  "v1_advance n v = v\<lparr>v1_data := v1_data v + n, v1_swptr := v1_swptr v + n, v1_bytes := v1_bytes v - n\<rparr>"

definition v1_store :: "nc_ndp_v1 \<Rightarrow> 'k nc_ndp_queue \<Rightarrow> 'k nc_ndp_queue" where
  "v1_store v q = q\<lparr>q_v1 := (q_v1 q)\<lparr>v1_data := v1_data v, v1_swptr := v1_swptr v, v1_bytes := v1_bytes v\<rparr>\<rparr>"

primrec v1_rx_loop ::
  "'k ndp_sys \<Rightarrow> nat \<Rightarrow> u32 \<Rightarrow> ndp_packet list \<Rightarrow> nc_ndp_v1 \<Rightarrow> 'k nc_ndp_queue \<Rightarrow> 'k burst" where
  "v1_rx_loop sys 0 cnt ps v q = Burst cnt ps (v1_store v q)"
| "v1_rx_loop sys (Suc n) cnt ps v q =
     (let take_one = (\<lambda>v1 q1. case v1_rx_packet q1 v1 of
            Inl code \<Rightarrow> Program_exit code
          | Inr (p, len) \<Rightarrow> v1_rx_loop sys n (cnt + 1) (ps @ [p]) (v1_advance len v1) q1)
      in if v1_bytes v = 0 then
        (case nc_ndp_v1_rx_lock sys (v1_store v q) of (ret, q1) \<Rightarrow>
           if ret \<noteq> 0 then Burst 0 ps q1
           else if v1_bytes (q_v1 q1) = 0 then Burst cnt ps q1
           else take_one (q_v1 q1) q1)
      else take_one v q)"

definition nc_ndp_v1_rx_burst_get :: "'k ndp_sys \<Rightarrow> u32 \<Rightarrow> 'k nc_ndp_queue \<Rightarrow> 'k burst" where
  "nc_ndp_v1_rx_burst_get sys cnt q = v1_rx_loop sys (unat cnt) 0 [] (q_v1 q) q"

definition nc_ndp_v1_rx_burst_put :: "'k ndp_sys \<Rightarrow> 'k nc_ndp_queue \<Rightarrow> int \<times> 'k nc_ndp_queue" where
  "nc_ndp_v1_rx_burst_put sys q =
     (0, if v1_total (q_v1 q) - v1_bytes (q_v1 q) > q_size q div 2 then snd (nc_ndp_v1_rx_unlock sys q) else q)"

section \<open>Transmit\<close>

definition nc_ndp_v1_tx_lock :: "'k ndp_sys \<Rightarrow> 'k nc_ndp_queue \<Rightarrow> int \<times> 'k nc_ndp_queue" where
  "nc_ndp_v1_tx_lock sys q =
     (case ndp_queue_sync sys
        (q\<lparr>q_sync := (q_sync q)\<lparr>sync_swptr := (sync_hwptr (q_sync q) - 1) AND (q_size q - 1)\<rparr>\<rparr>) of (ret, q1) \<Rightarrow>
        if ret \<noteq> 0 then (ret, q1)
        else (0, q1\<lparr>q_v1 := v1_window q1 (sync_hwptr (q_sync q1)) (sync_swptr (q_sync q1))\<rparr>))"

definition nc_ndp_v1_tx_unlock :: "'k ndp_sys \<Rightarrow> 'k nc_ndp_queue \<Rightarrow> int \<times> 'k nc_ndp_queue" where
  "nc_ndp_v1_tx_unlock sys q =
     ndp_queue_sync sys
       (q\<lparr>q_sync := (q_sync q)\<lparr>sync_swptr := sync_hwptr (q_sync q)\<rparr>,
          q_v1 := (q_v1 q)\<lparr>v1_total := 0, v1_bytes := 0, v1_swptr := 0\<rparr>\<rparr>)"

definition v1_tx_header_size :: "ndp_packet \<Rightarrow> u16" where
  "v1_tx_header_size p = ucast (align8 (ucast (pkt_header_length p) + 4))"

definition v1_tx_packet_size :: "ndp_packet \<Rightarrow> u16" where
  "v1_tx_packet_size p = ucast (align8 (pkt_data_length p) + ucast (v1_tx_header_size p))"

definition v1_tx_place :: "ndp_packet \<Rightarrow> nc_ndp_v1 \<Rightarrow> 'k nc_ndp_queue \<Rightarrow> ndp_packet \<times> 'k nc_ndp_queue" where
  "v1_tx_place p v q =
     (p\<lparr>pkt_header := v1_data v + 4, pkt_data := v1_data v + ucast (v1_tx_header_size p)\<rparr>,
      le16_store (v1_data v + 2) (pkt_header_length p)
        (le16_store (v1_data v) (ucast (pkt_data_length p + ucast (v1_tx_header_size p))) q))"

text \<open>\<open>v0\<close> are the pointers at the beginning, which a burst that does not fit restores.\<close>

primrec v1_tx_loop ::
  "'k ndp_sys \<Rightarrow> nc_ndp_v1 \<Rightarrow> ndp_packet list \<Rightarrow> u32 \<Rightarrow> ndp_packet list \<Rightarrow> nc_ndp_v1 \<Rightarrow> 'k nc_ndp_queue \<Rightarrow> 'k burst" where
  "v1_tx_loop sys v0 [] cnt done v q = Burst cnt done (v1_store v q)"
| "v1_tx_loop sys v0 (p # rest) cnt done v q =
     (let len = ucast (v1_tx_packet_size p);
          q1 = (if v1_bytes v < len then snd (nc_ndp_v1_tx_lock sys (v1_store v q)) else q);
          v1 = (if v1_bytes v < len then q_v1 q1 else v)
      in if v1_bytes v < len \<and> v1_bytes v1 < len then Burst 0 (done @ p # rest) (v1_store v0 q1)
      else case v1_tx_place p v1 q1 of (p1, q2) \<Rightarrow>
        v1_tx_loop sys v0 rest (cnt + 1) (done @ [p1]) (v1_advance len v1) q2)"

definition nc_ndp_v1_tx_burst_get :: "'k ndp_sys \<Rightarrow> ndp_packet list \<Rightarrow> 'k nc_ndp_queue \<Rightarrow> 'k burst" where
  "nc_ndp_v1_tx_burst_get sys packets q = v1_tx_loop sys (q_v1 q) packets 0 [] (q_v1 q) q"

definition nc_ndp_v1_tx_burst_flush :: "'k ndp_sys \<Rightarrow> 'k nc_ndp_queue \<Rightarrow> int \<times> 'k nc_ndp_queue" where
  "nc_ndp_v1_tx_burst_flush sys q =
     (0, snd (nc_ndp_v1_tx_unlock sys (q\<lparr>q_sync := (q_sync q)\<lparr>sync_hwptr :=
        (sync_hwptr (q_sync q) + v1_swptr (q_v1 q)) AND (q_size q - 1)\<rparr>\<rparr>)))"

definition nc_ndp_v1_tx_burst_put :: "'k ndp_sys \<Rightarrow> 'k nc_ndp_queue \<Rightarrow> int \<times> 'k nc_ndp_queue" where
  "nc_ndp_v1_tx_burst_put sys q =
     (if v1_swptr (q_v1 q) > q_size q div 4 then nc_ndp_v1_tx_burst_flush sys q else (0, q))"

section \<open>The packets of a receive burst\<close>

text \<open>
  Packets one behind the other from \<open>a\<close> to \<open>b\<close>: each begins with its four bytes of lengths, then comes
  its header, and rounded up to eight bytes its data.
\<close>

fun v1_chain :: "u64 \<Rightarrow> ndp_packet list \<Rightarrow> u64 \<Rightarrow> bool" where
  "v1_chain a [] b \<longleftrightarrow> b = a"
| "v1_chain a (p # ps) b \<longleftrightarrow>
     (\<exists>len :: u16. 4 + unat (pkt_header_length p) \<le> unat len \<and> pkt_header p = a + 4 \<and>
        pkt_data p = a + slot_len (pkt_header_length p + 4) \<and>
        pkt_data_length p = ucast len - ucast (slot_len (pkt_header_length p + 4)) \<and>
        v1_chain (a + slot_len len) ps b)"

lemma v1_chain_append: "v1_chain a (ps @ rs) c \<longleftrightarrow> (\<exists>b. v1_chain a ps b \<and> v1_chain b rs c)"
  by (induction ps arbitrary: a) auto

text \<open>The pointers of the queue agree with the pointers of the driver, and all are multiples of eight.\<close>

definition v1_agrees :: "nat \<Rightarrow> ndp_subscription_sync \<Rightarrow> nc_ndp_v1 \<Rightarrow> bool" where
  "v1_agrees k sync v \<longleftrightarrow> v1_data v = sync_swptr sync + v1_swptr v \<and> v1_data v AND mask 3 = 0 \<and>
     sync_hwptr sync AND mask 3 = 0 \<and> v1_bytes v = (sync_hwptr sync - v1_data v) AND mask k"

lemma v1_agreesD:
  assumes "v1_agrees k sync v"
  shows "v1_data v = sync_swptr sync + v1_swptr v" "v1_data v AND mask 3 = 0" "sync_hwptr sync AND mask 3 = 0"
    "v1_bytes v = (sync_hwptr sync - v1_data v) AND mask k"
  using assms unfolding v1_agrees_def by blast+

lemma v1_agrees_store: "v1_agrees k sync (q_v1 (v1_store v q)) = v1_agrees k sync v"
  by (simp add: v1_agrees_def v1_store_def)

lemma v1_bytes_aligned:
  assumes "v1_agrees k sync v" and "3 \<le> k"
  shows "v1_bytes v AND mask 3 = 0"
proof -
  have "mask k AND mask 3 = (mask 3 :: u64)" using assms(2) by (intro bit_word_eqI) (auto simp: bit_simps)
  then have "v1_bytes v AND mask 3 = (sync_hwptr sync - v1_data v) AND mask 3"
    using assms(1) by (simp add: v1_agrees_def and.assoc)
  also have "\<dots> = ((sync_hwptr sync AND mask 3) - (v1_data v AND mask 3)) AND mask 3" by (simp only: mask_eqs)
  also have "\<dots> = (0 - 0) AND mask 3" using v1_agreesD(2,3) [OF assms(1)] by (simp only:)
  finally show ?thesis by simp
qed

lemma v1_advance_agrees:
  assumes "v1_agrees k sync v" and "n \<le> v1_bytes v" and "n AND mask 3 = 0"
  shows "v1_agrees k sync (v1_advance n v)"
proof -
  have "v1_bytes v - n = (v1_bytes v - n) AND mask k"
  proof (rule and_mask_eq_self [symmetric])
    have "unat (v1_bytes v) < 2 ^ k" using assms(1) by (simp add: v1_agrees_def and_mask_less)
    moreover have "unat (v1_bytes v - n) \<le> unat (v1_bytes v)" using assms(2) by (simp add: unat_sub)
    ultimately show "unat (v1_bytes v - n) < 2 ^ k" by simp
  qed
  also have "\<dots> = (sync_hwptr sync - v1_data v - n) AND mask k"
    using assms(1) by (simp add: v1_agrees_def mask_eqs)
  finally have "v1_bytes v - n = (sync_hwptr sync - (v1_data v + n)) AND mask k" by (simp add: diff_diff_eq)
  moreover have "(v1_data v + n) AND mask 3 = 0" by (rule aligned_add [OF v1_agreesD(2) [OF assms(1)] assms(3)])
  moreover have "v1_data v + n = sync_swptr sync + (v1_swptr v + n)" "sync_hwptr sync AND mask 3 = 0"
    using assms(1) by (simp_all add: v1_agrees_def)
  moreover have "v1_data (v1_advance n v) = v1_data v + n" "v1_swptr (v1_advance n v) = v1_swptr v + n"
    "v1_bytes (v1_advance n v) = v1_bytes v - n" by (simp_all add: v1_advance_def)
  ultimately show ?thesis by (simp only: v1_agrees_def)
qed

lemma header_slot:
  fixes h :: u16
  assumes "4 + unat h \<le> unat (len :: u16)"
  shows "(ucast (ucast (align8 (ucast h + 4)) :: u16) :: u64) = slot_len (h + 4)"
proof -
  have "unat (h + 4) = unat h + 4"
    using assms unsigned_less [of len, where 'a = nat] by (subst unat_add_lem [THEN iffD1]) simp_all
  then have sum: "unat (ucast (h + 4) :: u32) = unat h + 4"
    using unsigned_less [of "h + 4", where 'a = nat] by (simp add: unsigned_ucast_eq take_bit_nat_eq_self)
  have "unat (ucast h :: u32) = unat h"
    using unsigned_less [of h, where 'a = nat] by (simp add: unsigned_ucast_eq take_bit_nat_eq_self)
  then have "unat (ucast h + 4 :: u32) = unat h + 4"
    using unsigned_less [of h, where 'a = nat] by (subst unat_add_lem [THEN iffD1]) simp_all
  with sum have "(ucast (h + 4) :: u32) = ucast h + 4" by (simp add: word_unat_eq_iff)
  then show ?thesis by (simp only: slot_len_def)
qed

lemma v1_rx_packet_chain:
  assumes "v1_rx_packet q v = Inr (p, n)" and "v1_agrees k sync v" and "3 \<le> k"
  shows "v1_agrees k sync (v1_advance n v)" and "v1_chain (v1_data v) [p] (v1_data (v1_advance n v))"
proof -
  define len where "len = le16_at q (v1_data v)"
  define h where "h = le16_at q (v1_data v + 2)"
  have len: "ucast len \<le> v1_bytes v" and n: "n = slot_len len" and "uint h \<le> uint len - 4"
    using assms(1) by (auto simp: v1_rx_packet_def len_def h_def Let_def split: if_splits)
  then have h: "4 + unat h \<le> unat len" by (simp add: of_nat_le_iff [where 'a = int, symmetric] del: of_nat_le_iff)
  have p: "p = \<lparr>pkt_data = v1_data v + slot_len (h + 4), pkt_header = v1_data v + 4,
      pkt_data_length = ucast len - ucast (slot_len (h + 4)), pkt_header_length = h, pkt_flags = 0\<rparr>"
  proof -
    have "(ucast (ucast (align8 (ucast h + 4)) :: u16) :: u32) = ucast (ucast (ucast (align8 (ucast h + 4)) :: u16) :: u64)"
      by (rule bit_word_eqI) (auto simp: bit_simps)
    then show ?thesis
      using assms(1) header_slot [OF h]
      by (auto simp: v1_rx_packet_def len_def [symmetric] h_def [symmetric] Let_def split: if_splits)
  qed
  note fits = slot_len_fits [OF len v1_bytes_aligned [OF assms(2,3)]]
  show "v1_agrees k sync (v1_advance n v)" unfolding n by (rule v1_advance_agrees [OF assms(2) fits])
  show "v1_chain (v1_data v) [p] (v1_data (v1_advance n v))"
    using h by (auto simp: p n v1_advance_def)
qed

text \<open>After a lock the packets go on where they stopped.\<close>

context rx_sys
begin

lemma v1_lock_agrees:
  assumes l: "nc_ndp_v1_rx_lock sys (v1_store v q) = (r, q1)" and ok: "ok (q_sync q) (q_kern q)"
    and ag: "v1_agrees k (q_sync q) v" and size: "q_size q - 1 = mask k"
    and al: "\<And>sync k' shm sync' k'' shm'. sys_sync sys sync (k', shm) = (0, sync', k'', shm') \<Longrightarrow> ok sync k' \<Longrightarrow>
      sync_hwptr sync' AND mask 3 = 0"
  shows "ok (q_sync q1) (q_kern q1)" "v1_agrees k (q_sync q1) (q_v1 q1)" "v1_data (q_v1 q1) = v1_data v"
    "q_size q1 = q_size q" "sync_swptr (q_sync q1) = sync_swptr (q_sync q)"
proof -
  obtain r0 q0 where s: "ndp_queue_sync sys (v1_store v q) = (r0, q0)" by force
  have ok0: "ok (q_sync (v1_store v q)) (q_kern (v1_store v q))" using ok by (simp add: v1_store_def)
  note sy = queue_sync_ok [OF s ok0]
  obtain h k' shm where q0: "q0 = (v1_store v q)\<lparr>q_sync := (q_sync q)\<lparr>sync_hwptr := h\<rparr>, q_kern := k', q_shm := shm\<rparr>"
    and h: "r0 \<noteq> 0 \<Longrightarrow> h = sync_hwptr (q_sync q)" using sy(2) by (auto simp: v1_store_def)
  have q1: "q1 = (if r0 = 0 then q0\<lparr>q_v1 := v1_window q0 (sync_swptr (q_sync q0)) (sync_hwptr (q_sync q0))\<rparr> else q0)"
    using l s by (auto simp: nc_ndp_v1_rx_lock_def split: if_splits)
  have h8: "h AND mask 3 = 0"
  proof (cases "r0 = 0")
    case True
    obtain r1 sy1 k1 sh1 where c: "sys_sync sys (q_sync q) (q_kern q, q_shm q) = (r1, sy1, k1, sh1)" using prod_cases4 by blast
    with s have "q_sync q0 = sy1" "r1 = r0" by (auto simp: ndp_queue_sync_def queue_ioctl_def v1_store_def)
    then have "sync_hwptr sy1 = h" using q0 by auto
    with al [of "q_sync q" "q_kern q" "q_shm q" sy1 k1 sh1] c ok \<open>r1 = r0\<close> True show ?thesis by simp
  next
    case False
    with h v1_agreesD(3) [OF ag] show ?thesis by simp
  qed
  show "ok (q_sync q1) (q_kern q1)" using sy(1) by (simp add: q1)
  show d: "v1_data (q_v1 q1) = v1_data v" "q_size q1 = q_size q" "sync_swptr (q_sync q1) = sync_swptr (q_sync q)"
    using v1_agreesD(1) [OF ag] by (simp_all add: q1 q0 v1_store_def v1_window_def)
  show "v1_agrees k (q_sync q1) (q_v1 q1)"
    using v1_agreesD [OF ag] h h8 size
    by (cases "r0 = 0") (auto simp: v1_agrees_def q1 q0 v1_store_def v1_window_def diff_diff_eq)
qed

lemma v1_rx_loop_chain:
  assumes "v1_rx_loop sys n c ps v q = Burst c' ps' q'" and "ok (q_sync q) (q_kern q)"
    and "v1_agrees k (q_sync q) v" and "3 \<le> k" and "q_size q - 1 = mask k"
    and al: "\<And>sync k' shm sync' k'' shm'. sys_sync sys sync (k', shm) = (0, sync', k'', shm') \<Longrightarrow> ok sync k' \<Longrightarrow>
      sync_hwptr sync' AND mask 3 = 0"
  shows "\<exists>rs. ps' = ps @ rs \<and> v1_chain (v1_data v) rs (v1_data (q_v1 q')) \<and> v1_agrees k (q_sync q') (q_v1 q') \<and>
    ok (q_sync q') (q_kern q') \<and> sync_swptr (q_sync q') = sync_swptr (q_sync q) \<and> length rs \<le> n \<and>
    (c' = c + of_nat (length rs) \<or> c' = 0)"
  using assms(1-3,5)
proof (induction n arbitrary: c ps v q)
  case 0
  then have "ps' = ps" "c' = c" "q' = v1_store v q" by auto
  moreover have "v1_agrees k (q_sync q) (q_v1 (v1_store v q))"
    using 0(3) by (simp only: v1_agrees_store)
  ultimately show ?case using 0 by (auto simp: v1_store_def)
next
  case (Suc n)
  have step: ?case
    if "(case v1_rx_packet q1 v1 of Inl code \<Rightarrow> Program_exit code
          | Inr (p, len) \<Rightarrow> v1_rx_loop sys n (c + 1) (ps @ [p]) (v1_advance len v1) q1) = Burst c' ps' q'"
      and q1: "ok (q_sync q1) (q_kern q1)" "v1_agrees k (q_sync q1) v1" "v1_data v1 = v1_data v"
        "q_size q1 = q_size q" "sync_swptr (q_sync q1) = sync_swptr (q_sync q)" for v1 q1
  proof -
    from that(1) obtain p len where p: "v1_rx_packet q1 v1 = Inr (p, len)"
      and l: "v1_rx_loop sys n (c + 1) (ps @ [p]) (v1_advance len v1) q1 = Burst c' ps' q'"
      by (cases "v1_rx_packet q1 v1") auto
    note pc = v1_rx_packet_chain [OF p q1(2) assms(4)]
    from Suc.IH [OF l q1(1) pc(1)] Suc.prems(4) q1(4) obtain rs where
      rs: "ps' = (ps @ [p]) @ rs" "v1_chain (v1_data (v1_advance len v1)) rs (v1_data (q_v1 q'))"
        "v1_agrees k (q_sync q') (q_v1 q')" "ok (q_sync q') (q_kern q')" "sync_swptr (q_sync q') = sync_swptr (q_sync q1)"
        "length rs \<le> n" "c' = c + 1 + of_nat (length rs) \<or> c' = 0" by auto
    have "v1_chain (v1_data v) ([p] @ rs) (v1_data (q_v1 q'))"
      using v1_chain_append pc(2) rs(2) q1(3) by metis
    with rs q1(5) show ?thesis by (intro exI [of _ "p # rs"]) auto
  qed
  show ?case
  proof (cases "v1_bytes v = 0")
    case False
    show ?thesis by (rule step [of v q]) (use Suc.prems False in \<open>simp_all add: Let_def\<close>)
  next
    case True
    obtain r q1 where l: "nc_ndp_v1_rx_lock sys (v1_store v q) = (r, q1)" by force
    note lk = v1_lock_agrees [OF l Suc.prems(2,3,4) al]
    show ?thesis
    proof (cases "r \<noteq> 0 \<or> v1_bytes (q_v1 q1) = 0")
      case stop: True
      with Suc.prems(1) True l have "ps' = ps" "q' = q1" "c' = c \<or> c' = 0" by (auto split: if_splits)
      with lk show ?thesis by auto
    next
      case False
      show ?thesis by (rule step [of "q_v1 q1" q1]) (use Suc.prems True False l lk in \<open>simp_all add: Let_def\<close>)
    qed
  qed
qed

end

end
