(* ===== verification/QueueV2.thy ===== *)
theory QueueV2
  imports QueueV1
begin

text \<open>
  Queues of the second protocol (\<open>nc_ndp_v2_*\<close> in \<open>ndp_rx.h\<close> and \<open>ndp_tx.h\<close>): packets live in fixed
  buffers, and two arrays hold the header and the position of every packet.  The arrays are mapped twice
  in a row, so an index up to twice the number of items is valid.
\<close>

definition hdr2_at :: "'k nc_ndp_queue \<Rightarrow> int \<Rightarrow> ndp_v2_packethdr" where
  "hdr2_at q i = shm_hdr2 (q_shm q) (i mod int (unat (v2_hdr_items (q_v2 q))))"

definition off2_at :: "'k nc_ndp_queue \<Rightarrow> int \<Rightarrow> u64" where
  "off2_at q i = shm_off2 (q_shm q) (i mod int (unat (v2_hdr_items (q_v2 q))))"

definition hdr2_store :: "int \<Rightarrow> ndp_v2_packethdr \<Rightarrow> 'k nc_ndp_queue \<Rightarrow> 'k nc_ndp_queue" where
  "hdr2_store i h q = q\<lparr>q_shm := (q_shm q)
     \<lparr>shm_hdr2 := (shm_hdr2 (q_shm q))(i mod int (unat (v2_hdr_items (q_v2 q))) := h)\<rparr>\<rparr>"

text \<open>The mask of the items, widened to the pointers of the driver.\<close>

definition v2_mask :: "'k nc_ndp_queue \<Rightarrow> u64" where
  "v2_mask q = ucast (v2_hdr_items (q_v2 q) - 1)"

section \<open>Receive\<close>

definition nc_ndp_v2_rx_lock :: "'k ndp_sys \<Rightarrow> 'k nc_ndp_queue \<Rightarrow> int \<times> 'k nc_ndp_queue" where
  "nc_ndp_v2_rx_lock sys q =
     (case ndp_queue_sync sys q of (ret, q1) \<Rightarrow>
        if ret \<noteq> 0 then (ret, q1)
        else
          let v = q_v2 q1;
              avail = ucast ((sync_hwptr (q_sync q1) - ucast (v2_rhp v)) AND v2_mask q1);
              rhp = (if v2_rhp v \<ge> v2_hdr_items v then v2_rhp v - v2_hdr_items v else v2_rhp v)
          in (0, q1\<lparr>q_v2 := v\<lparr>v2_pkts_available := avail, v2_rhp := rhp\<rparr>\<rparr>))"

definition nc_ndp_v2_rx_unlock :: "'k ndp_sys \<Rightarrow> 'k nc_ndp_queue \<Rightarrow> int \<times> 'k nc_ndp_queue" where
  "nc_ndp_v2_rx_unlock sys q =
     ndp_queue_sync sys (q\<lparr>q_sync := (q_sync q)\<lparr>sync_swptr := ucast (v2_rhp (q_v2 q)) AND v2_mask q\<rparr>\<rparr>)"

definition v2_rx_packet :: "'k nc_ndp_queue \<Rightarrow> int \<Rightarrow> ndp_packet" where
  "v2_rx_packet q i =
     (let hdr = hdr2_at q i; off = off2_at q i
      in \<lparr>pkt_data = off + ucast (h2_header_size hdr), pkt_header = off,
          pkt_data_length = ucast (h2_packet_size hdr) - ucast (h2_header_size hdr),
          pkt_header_length = ucast (h2_header_size hdr), pkt_flags = ucast (h2_flags hdr AND 0xF)\<rparr>)"

definition nc_ndp_v2_rx_burst_get :: "'k ndp_sys \<Rightarrow> u32 \<Rightarrow> 'k nc_ndp_queue \<Rightarrow> u32 \<times> ndp_packet list \<times> 'k nc_ndp_queue" where
  "nc_ndp_v2_rx_burst_get sys cnt q =
     (let short = v2_pkts_available (q_v2 q) < cnt;
          q1 = (if short then snd (nc_ndp_v2_rx_lock sys q) else q);
          n = (if short then min (v2_pkts_available (q_v2 q1)) cnt else cnt)
      in if short \<and> n = 0 then (0, [], q1)
      else
        let v = q_v2 q1
        in (n, map (\<lambda>i. v2_rx_packet q1 (v2_hdr v + int (unat (v2_rhp v)) + int i)) [0 ..< unat n],
            q1\<lparr>q_v2 := v\<lparr>v2_rhp := v2_rhp v + n, v2_pkts_available := v2_pkts_available v - n\<rparr>\<rparr>))"

definition nc_ndp_v2_rx_burst_put :: "'k ndp_sys \<Rightarrow> 'k nc_ndp_queue \<Rightarrow> int \<times> 'k nc_ndp_queue" where
  "nc_ndp_v2_rx_burst_put sys q = nc_ndp_v2_rx_unlock sys q"

section \<open>Transmit\<close>

text \<open>The difference of the pointers goes through a \<open>signed int\<close> and moves the two array pointers.\<close>

definition nc_ndp_v2_tx_lock :: "'k ndp_sys \<Rightarrow> 'k nc_ndp_queue \<Rightarrow> 'k nc_ndp_queue" where
  "nc_ndp_v2_tx_lock sys q =
     (let lock_valid = (sync_swptr (q_sync q) \<noteq> sync_hwptr (q_sync q)) in
      case ndp_queue_sync sys
        (q\<lparr>q_sync := (q_sync q)\<lparr>sync_swptr := (sync_hwptr (q_sync q) - 1) AND v2_mask q\<rparr>\<rparr>) of (ret, q1) \<Rightarrow>
        if ret \<noteq> 0 then q1
        else
          let v = q_v2 q1;
              offset = (ucast (sync_hwptr (q_sync q1) - ucast (v2_rhp v)) :: u32);
              v1 = (if lock_valid then v
                    else v\<lparr>v2_rhp := v2_rhp v + offset, v2_hdr := v2_hdr v + sint offset,
                           v2_off := v2_off v + sint offset\<rparr>)
          in q1\<lparr>q_v2 := v1\<lparr>v2_pkts_available :=
                 ucast ((sync_swptr (q_sync q1) - ucast (v2_rhp v1)) AND v2_mask q1)\<rparr>\<rparr>)"

text \<open>
  One packet of the burst: the header is written and the packet gets its place.  A packet that is too
  short is enlarged and the rest of its place cleared; None for one that is too long.
\<close>

definition v2_tx_place :: "nat \<Rightarrow> ndp_packet \<Rightarrow> 'k nc_ndp_queue \<Rightarrow> (ndp_packet \<times> 'k nc_ndp_queue) option" where
  "v2_tx_place i p q =
     (let v = q_v2 q;
          off = off2_at q (v2_off v + int i);
          header_size = (ucast (pkt_header_length p) :: u32);
          packet_size = pkt_data_length p + header_size;
          short = packet_size < q_frame_size_min q;
          q1 = (if short then buf_clear (off + ucast (header_size) + ucast packet_size)
                  (unat (q_frame_size_min q - packet_size)) q else q);
          psize = (if short then q_frame_size_min q else packet_size)
      in if \<not> short \<and> packet_size > q_frame_size_max q then None
      else Some (p\<lparr>pkt_header := off, pkt_data := off + ucast header_size\<rparr>,
        hdr2_store (v2_hdr v + int i)
          \<lparr>h2_packet_size = ucast psize, h2_header_size = ucast header_size,
           h2_flags = ucast (pkt_flags p AND 0xF)\<rparr> q1))"

primrec v2_tx_loop ::
  "nat \<Rightarrow> ndp_packet list \<Rightarrow> ndp_packet list \<Rightarrow> 'k nc_ndp_queue \<Rightarrow> bool \<times> ndp_packet list \<times> 'k nc_ndp_queue" where
  "v2_tx_loop i [] done q = (True, done, q)"
| "v2_tx_loop i (p # rest) done q =
     (case v2_tx_place i p q of
        None \<Rightarrow> (False, done @ p # rest, q)
      | Some (p1, q1) \<Rightarrow> v2_tx_loop (Suc i) rest (done @ [p1]) q1)"

definition nc_ndp_v2_tx_burst_get ::
  "'k ndp_sys \<Rightarrow> ndp_packet list \<Rightarrow> 'k nc_ndp_queue \<Rightarrow> u32 \<times> ndp_packet list \<times> 'k nc_ndp_queue" where
  "nc_ndp_v2_tx_burst_get sys packets q =
     (let cnt = of_nat (length packets);
          short = v2_pkts_available (q_v2 q) < cnt;
          q1 = (if short then nc_ndp_v2_tx_lock sys q else q)
      in if short \<and> (v2_pkts_available (q_v2 q1) < cnt \<or> cnt = 0) then (0, packets, q1)
      else case v2_tx_loop 0 packets [] q1 of (fits, ps, q2) \<Rightarrow>
        if \<not> fits then (0, ps, q2)
        else
          let v = q_v2 q2
          in (cnt, ps, q2\<lparr>q_v2 := v\<lparr>v2_hdr := v2_hdr v + int (length packets), v2_off := v2_off v + int (length packets),
                v2_rhp := v2_rhp v + cnt, v2_pkts_available := v2_pkts_available v - cnt\<rparr>\<rparr>))"

definition nc_ndp_v2_tx_burst_flush :: "'k ndp_sys \<Rightarrow> 'k nc_ndp_queue \<Rightarrow> int \<times> 'k nc_ndp_queue" where
  "nc_ndp_v2_tx_burst_flush sys q =
     (let v = q_v2 q; n = v2_hdr_items v;
          v1 = (if v2_rhp v \<ge> n
                then v\<lparr>v2_rhp := v2_rhp v - n, v2_hdr := v2_hdr v - int (unat n), v2_off := v2_off v - int (unat n)\<rparr>
                else v);
          p = (ucast (v2_rhp v1) :: u64)
      in case ndp_queue_sync sys
           (q\<lparr>q_sync := (q_sync q)\<lparr>sync_hwptr := p, sync_swptr := p\<rparr>, q_v2 := v1\<lparr>v2_pkts_available := 0\<rparr>\<rparr>) of
           (ret, q1) \<Rightarrow> (if ret \<noteq> 0 then - 1 else 0, q1))"

definition nc_ndp_v2_tx_burst_put :: "'k ndp_sys \<Rightarrow> 'k nc_ndp_queue \<Rightarrow> int \<times> 'k nc_ndp_queue" where
  "nc_ndp_v2_tx_burst_put sys q =
     (0, if (ucast (v2_rhp (q_v2 q)) - sync_hwptr (q_sync q)) AND v2_mask q > ucast (v2_hdr_items (q_v2 q) div 4)
         then snd (nc_ndp_v2_tx_burst_flush sys q) else q)"

section \<open>The packets of a receive burst\<close>

text \<open>The number of items from the read pointer to the hardware pointer.\<close>

definition items_left :: "nat \<Rightarrow> u64 \<Rightarrow> u32 \<Rightarrow> nat" where
  "items_left k hw rhp = unat ((hw - ucast rhp) AND mask k)"

lemma items_left_less: "items_left k hw rhp < 2 ^ k"
  by (simp add: items_left_def and_mask_less)

lemma ucast_add_u32:
  fixes a b :: u32
  assumes "unat a + unat b < 2 ^ 32"
  shows "(ucast (a + b) :: u64) = ucast a + ucast b"
proof -
  have less: "unat a < 2 ^ 32" "unat b < 2 ^ 32" using assms by simp_all
  have ab: "unat (a + b) = unat a + unat b" using assms by (subst unat_add_lem [THEN iffD1]) simp_all
  have "unat (ucast (a + b) :: u64) = unat a + unat b"
    using assms by (simp add: unsigned_ucast_eq take_bit_nat_eq_self ab)
  moreover have "unat (ucast a + ucast b :: u64) = unat a + unat b"
    using assms less by (subst unat_add_lem [THEN iffD1]) (simp_all add: unsigned_ucast_eq take_bit_nat_eq_self)
  ultimately show ?thesis by (simp add: word_unat_eq_iff)
qed

lemma items_left_add:
  assumes "unat n \<le> items_left k hw rhp" and "unat rhp + unat n < 2 ^ 32"
  shows "items_left k hw (rhp + n) = items_left k hw rhp - unat n"
proof -
  let ?d = "(hw - ucast rhp) AND mask k"
  have un: "unat (ucast n :: u64) = unat n"
    using assms(2) by (simp add: unsigned_ucast_eq take_bit_nat_eq_self)
  have le: "ucast n \<le> ?d" using assms(1) by (simp add: word_le_nat_alt un items_left_def)
  then have sub: "unat (?d - ucast n) = unat ?d - unat n" by (simp add: unat_sub un)
  have "unat (?d - ucast n) < 2 ^ k" unfolding sub using and_mask_less [of "hw - ucast rhp" k] by simp
  then have "?d - ucast n = (?d - ucast n) AND mask k" by (rule and_mask_eq_self [symmetric])
  also have "\<dots> = (hw - ucast rhp - ucast n) AND mask k" by (simp only: mask_eqs)
  finally show ?thesis unfolding items_left_def ucast_add_u32 [OF assms(2)] by (simp add: sub [symmetric] diff_diff_eq)
qed

lemma items_left_wrap:
  assumes "unat n = 2 ^ k" and "k < 32" and "n \<le> rhp"
  shows "items_left k hw (rhp - n) = items_left k hw rhp"
proof -
  have "unat rhp < 2 ^ 32" using unsigned_less [of rhp, where 'a = nat] by simp
  moreover have "unat (rhp - n) = unat rhp - 2 ^ k" using assms by (simp add: unat_sub)
  ultimately have e: "(ucast rhp :: u64) = ucast (rhp - n) + ucast n"
    using assms ucast_add_u32 [of "rhp - n" n] by (simp add: word_le_nat_alt)
  have "unat (ucast n :: u64) = 2 ^ k" using assms by (simp add: unsigned_ucast_eq take_bit_nat_eq_self)
  then have "unat ((ucast n :: u64) AND mask k) = 0" by (simp add: unat_and_mask)
  then have z: "(ucast n :: u64) AND mask k = 0" by (simp add: unat_eq_0)
  have "(hw - ucast rhp) AND mask k = (hw - ucast (rhp - n) - (ucast n AND mask k)) AND mask k"
    unfolding e diff_diff_eq [symmetric] by (simp only: mask_eqs)
  then show ?thesis by (simp add: items_left_def z)
qed

lemma items_left_mod:
  assumes "unat a mod 2 ^ k = unat b mod 2 ^ k"
  shows "items_left k hw a = items_left k hw b"
proof -
  have u: "unat (ucast x :: u64) = unat x" for x :: u32
    using unsigned_less [of x, where 'a = nat] by (simp add: unsigned_ucast_eq take_bit_nat_eq_self)
  have "unat ((ucast a :: u64) AND mask k) = unat ((ucast b :: u64) AND mask k)"
    using assms by (simp only: unat_and_mask u)
  then have "(ucast a :: u64) AND mask k = ucast b AND mask k" by (simp only: word_unat_eq_iff)
  moreover have "(hw - x) AND mask k = (hw - (x AND mask k)) AND mask k" for x by (simp only: mask_eqs)
  ultimately show ?thesis unfolding items_left_def by metis
qed

text \<open>The count of available packets is exact, and all of them are inside the double mapping.\<close>

definition v2_agrees :: "nat \<Rightarrow> 'k nc_ndp_queue \<Rightarrow> bool" where
  "v2_agrees k q \<longleftrightarrow> k < 31 \<and> unat (v2_hdr_items (q_v2 q)) = 2 ^ k \<and>
     unat (v2_pkts_available (q_v2 q)) = items_left k (sync_hwptr (q_sync q)) (v2_rhp (q_v2 q)) \<and>
     unat (v2_rhp (q_v2 q)) + unat (v2_pkts_available (q_v2 q)) < 2 * 2 ^ k"

lemma v2_mask_eq: "k < 31 \<Longrightarrow> unat (v2_hdr_items (q_v2 q)) = 2 ^ k \<Longrightarrow> v2_mask q = mask k"
proof -
  assume k: "k < 31" and items: "unat (v2_hdr_items (q_v2 q)) = 2 ^ k"
  have "1 \<le> v2_hdr_items (q_v2 q)" using items by (simp add: word_le_nat_alt)
  then have "unat (v2_hdr_items (q_v2 q) - 1) = 2 ^ k - 1" by (simp add: unat_sub items)
  moreover have "(2 :: nat) ^ k - 1 < 2 ^ 32"
    using k power_strict_increasing [of k 32 "2 :: nat"] by linarith
  ultimately have "unat (v2_mask q) = 2 ^ k - 1"
    by (simp add: v2_mask_def unsigned_ucast_eq take_bit_nat_eq_self)
  moreover have "unat (mask k :: u64) = 2 ^ k - 1" using k by (intro unat_mask) simp
  ultimately show "v2_mask q = mask k" by (simp add: word_unat_eq_iff)
qed

context rx_sys
begin

lemma v2_lock_agrees:
  assumes "nc_ndp_v2_rx_lock sys q = (r, q1)" and "ok (q_sync q) (q_kern q)" and "v2_agrees k q"
  shows "v2_agrees k q1" "ok (q_sync q1) (q_kern q1)"
    "v2_hdr_items (q_v2 q1) = v2_hdr_items (q_v2 q)" "v2_hdr (q_v2 q1) = v2_hdr (q_v2 q)"
    "sync_swptr (q_sync q1) = sync_swptr (q_sync q)"
    "unat (v2_rhp (q_v2 q1)) mod 2 ^ k = unat (v2_rhp (q_v2 q)) mod 2 ^ k"
proof -
  obtain r0 q0 where s: "ndp_queue_sync sys q = (r0, q0)" by force
  note sy = queue_sync_ok [OF s assms(2)]
  obtain h k' shm where q0: "q0 = q\<lparr>q_sync := (q_sync q)\<lparr>sync_hwptr := h\<rparr>, q_kern := k', q_shm := shm\<rparr>"
    and h: "r0 \<noteq> 0 \<Longrightarrow> h = sync_hwptr (q_sync q)" using sy(2) by auto
  let ?v = "q_v2 q" and ?n = "v2_hdr_items (q_v2 q)"
  let ?avail = "ucast ((h - ucast (v2_rhp ?v)) AND mask k) :: u32"
  let ?rhp = "if ?n \<le> v2_rhp ?v then v2_rhp ?v - ?n else v2_rhp ?v"
  have k: "k < 31" and n: "unat ?n = 2 ^ k" using assms(3) by (simp_all add: v2_agrees_def)
  have m: "v2_mask q0 = mask k" by (rule v2_mask_eq) (simp_all add: k n q0)
  have q1: "q1 = (if r0 = 0 then q0\<lparr>q_v2 := ?v\<lparr>v2_pkts_available := ?avail, v2_rhp := ?rhp\<rparr>\<rparr> else q0)"
    using assms(1) s m by (auto simp: nc_ndp_v2_rx_lock_def q0 Let_def split: if_splits)
  have less: "items_left k h (v2_rhp ?v) < 2 ^ 32"
    using items_left_less [of k h "v2_rhp ?v"] k power_strict_increasing [of k 32 "2 :: nat"] by linarith
  have av: "unat ?avail = items_left k h (v2_rhp ?v)"
    using less by (simp add: items_left_def unsigned_ucast_eq take_bit_nat_eq_self)
  have rhp: "unat (v2_rhp ?v) < 2 * 2 ^ k" using assms(3) by (simp add: v2_agrees_def)
  have r1: "unat ?rhp < 2 ^ k" "unat ?rhp mod 2 ^ k = unat (v2_rhp ?v) mod 2 ^ k"
    using rhp n by (auto simp: word_le_nat_alt unat_sub le_mod_geq)
  have left: "items_left k h ?rhp = items_left k h (v2_rhp ?v)"
    using items_left_wrap [OF n] k by simp
  show "v2_agrees k q1"
  proof (cases "r0 = 0")
    case True
    then show ?thesis
      using k n r1(1) left items_left_less [of k h "v2_rhp ?v"]
      unfolding v2_agrees_def q1 by (simp add: q0 av)
  next
    case False
    with assms(3) h show ?thesis by (simp add: q1 q0 v2_agrees_def)
  qed
  show "ok (q_sync q1) (q_kern q1)" using sy(1) by (simp add: q1)
  show "v2_hdr_items (q_v2 q1) = v2_hdr_items (q_v2 q)" "v2_hdr (q_v2 q1) = v2_hdr (q_v2 q)"
    "sync_swptr (q_sync q1) = sync_swptr (q_sync q)" by (simp_all add: q1 q0)
  show "unat (v2_rhp (q_v2 q1)) mod 2 ^ k = unat (v2_rhp (q_v2 q)) mod 2 ^ k"
    using r1(2) by (simp add: q1 q0)
qed

lemma v2_rx_burst_exact:
  assumes "nc_ndp_v2_rx_burst_get sys cnt q = (n, ps, q')" and "ok (q_sync q) (q_kern q)" and "v2_agrees k q"
    and "v2_hdr (q_v2 q) = 0"
  shows "v2_agrees k q' \<and> ok (q_sync q') (q_kern q') \<and> sync_swptr (q_sync q') = sync_swptr (q_sync q) \<and>
    n \<le> cnt \<and> unat n \<le> items_left k (sync_hwptr (q_sync q')) (v2_rhp (q_v2 q)) \<and>
    (n = cnt \<or> unat n = items_left k (sync_hwptr (q_sync q')) (v2_rhp (q_v2 q))) \<and>
    ps = map (\<lambda>i. v2_rx_packet q' (int ((unat (v2_rhp (q_v2 q)) + i) mod 2 ^ k))) [0 ..< unat n]"
proof -
  let ?short = "v2_pkts_available (q_v2 q) < cnt"
  obtain r q0 where l: "nc_ndp_v2_rx_lock sys q = (r, q0)" by force
  note lk = v2_lock_agrees [OF l assms(2,3)]
  define q1 where "q1 = (if ?short then q0 else q)"
  have q1: "v2_agrees k q1" "ok (q_sync q1) (q_kern q1)" "v2_hdr_items (q_v2 q1) = v2_hdr_items (q_v2 q)"
    "v2_hdr (q_v2 q1) = 0" "sync_swptr (q_sync q1) = sync_swptr (q_sync q)"
    "unat (v2_rhp (q_v2 q1)) mod 2 ^ k = unat (v2_rhp (q_v2 q)) mod 2 ^ k"
    using lk assms by (simp_all add: q1_def)
  let ?v = "q_v2 q1" and ?hw = "sync_hwptr (q_sync q1)"
  have av: "unat (v2_pkts_available ?v) = items_left k ?hw (v2_rhp ?v)"
    and k: "k < 31" and items: "unat (v2_hdr_items ?v) = 2 ^ k"
    and bound: "unat (v2_rhp ?v) + unat (v2_pkts_available ?v) < 2 * 2 ^ k" using q1(1) by (simp_all add: v2_agrees_def)
  have left: "items_left k ?hw (v2_rhp (q_v2 q)) = items_left k ?hw (v2_rhp ?v)"
    by (rule items_left_mod) (simp add: q1(6))
  define m where "m = (if ?short then min (v2_pkts_available ?v) cnt else cnt)"
  have m: "m \<le> cnt" "m \<le> v2_pkts_available ?v" "m = cnt \<or> m = v2_pkts_available ?v"
    by (auto simp: m_def q1_def min_def not_less)
  have res: "(n, ps, q') = (if ?short \<and> m = 0 then (0, [], q1)
      else (m, map (\<lambda>i. v2_rx_packet q1 (int (unat (v2_rhp ?v)) + int i)) [0 ..< unat m],
        q1\<lparr>q_v2 := ?v\<lparr>v2_rhp := v2_rhp ?v + m, v2_pkts_available := v2_pkts_available ?v - m\<rparr>\<rparr>))"
    using assms(1) q1(4) l unfolding nc_ndp_v2_rx_burst_get_def Let_def m_def q1_def by (auto split: if_splits)
  show ?thesis
  proof (cases "?short \<and> m = 0")
    case True
    with res have "n = 0" "ps = []" "q' = q1" by simp_all
    moreover have "v2_pkts_available ?v = 0" using True m(3) by auto
    ultimately show ?thesis using q1(1,2,5) av left by simp
  next
    case False
    with res have n: "n = m" and ps: "ps = map (\<lambda>i. v2_rx_packet q1 (int (unat (v2_rhp ?v)) + int i)) [0 ..< unat m]"
      and q': "q' = q1\<lparr>q_v2 := ?v\<lparr>v2_rhp := v2_rhp ?v + m, v2_pkts_available := v2_pkts_available ?v - m\<rparr>\<rparr>" by simp_all
    have ms: "unat m \<le> unat (v2_pkts_available ?v)" using m(2) by (simp add: word_le_nat_alt)
    have "(2 :: nat) * 2 ^ k \<le> 2 ^ 32" using k power_increasing [of "Suc k" 32 "2 :: nat"] by simp
    with ms bound have sum: "unat (v2_rhp ?v) + unat m < 2 ^ 32" by linarith
    have "unat (v2_rhp ?v + m) = unat (v2_rhp ?v) + unat m" using sum by (subst unat_add_lem [THEN iffD1]) simp_all
    moreover have "unat (v2_pkts_available ?v - m) = unat (v2_pkts_available ?v) - unat m" using m(2) by (simp add: unat_sub)
    moreover have "items_left k ?hw (v2_rhp ?v + m) = items_left k ?hw (v2_rhp ?v) - unat m"
      by (rule items_left_add) (use ms av sum in simp_all)
    ultimately have agrees: "v2_agrees k q'" using q1(1) av bound ms by (simp add: v2_agrees_def q')
    have pos: "v2_rx_packet q1 (int (unat (v2_rhp ?v)) + int i) =
        v2_rx_packet q' (int ((unat (v2_rhp (q_v2 q)) + i) mod 2 ^ k))" for i
    proof -
      have "(unat (v2_rhp ?v) + i) mod 2 ^ k = (unat (v2_rhp (q_v2 q)) + i) mod 2 ^ k"
        using q1(6) by (metis mod_add_left_eq)
      then have "(int (unat (v2_rhp ?v)) + int i) mod int (2 ^ k) = int ((unat (v2_rhp (q_v2 q)) + i) mod 2 ^ k) mod int (2 ^ k)"
        by (metis mod_mod_trivial of_nat_add of_nat_mod)
      then have "hdr2_at q1 (int (unat (v2_rhp ?v)) + int i) = hdr2_at q' (int ((unat (v2_rhp (q_v2 q)) + i) mod 2 ^ k))"
        "off2_at q1 (int (unat (v2_rhp ?v)) + int i) = off2_at q' (int ((unat (v2_rhp (q_v2 q)) + i) mod 2 ^ k))"
        using items unfolding hdr2_at_def off2_at_def by (simp_all only: q' nc_ndp_queue.simps nc_ndp_v2.simps) simp_all
      then show ?thesis by (simp only: v2_rx_packet_def)
    qed
    have psq: "ps = map (\<lambda>i. v2_rx_packet q' (int ((unat (v2_rhp (q_v2 q)) + i) mod 2 ^ k))) [0 ..< unat m]"
      unfolding ps pos ..
    have "unat m \<le> items_left k ?hw (v2_rhp ?v)" "m = cnt \<or> unat m = items_left k ?hw (v2_rhp ?v)"
      using m ms av by auto
    moreover have "sync_hwptr (q_sync q') = ?hw" "q_sync q' = q_sync q1" "q_kern q' = q_kern q1" by (simp_all add: q')
    ultimately show ?thesis
      using agrees psq m(1) q1(2,5) unfolding n by (simp only: left)
  qed
qed

end

end
