(* ===== verification/QueueV3.thy ===== *)
theory QueueV3
  imports QueueV2
begin

text \<open>
  Queues of the third protocol (\<open>nc_ndp_v3_*\<close> in \<open>ndp_rx.h\<close> and \<open>ndp_tx.h\<close>), the one of the Calypte
  controllers.  A received header is valid when its bit has the polarity of the current round.  With the
  flag for user space the library keeps all pointers itself and does not call the driver.  A
  transmitted packet is copied into the device when the burst is put.
\<close>

definition NDP_RX_CALYPTE_BLOCK :: u32 where "NDP_RX_CALYPTE_BLOCK = 128"
definition NDP_TX_CALYPTE_BLOCK :: u32 where "NDP_TX_CALYPTE_BLOCK = 32"

definition v3_uspace :: "'k nc_ndp_queue \<Rightarrow> bool" where
  "v3_uspace q \<longleftrightarrow> q_flags q AND NDP_CHANNEL_FLAG_USERSPACE \<noteq> 0"

definition hdr3_at :: "'k nc_ndp_queue \<Rightarrow> int \<Rightarrow> ndp_v3_packethdr" where
  "hdr3_at q i = shm_hdr3 (q_shm q) (i mod (int (unat (v3_hdr_ptr_mask (q_v3 q))) + 1))"

text \<open>The bit of the header is compared with the flipped flag of the round.\<close>

definition hdr3_stale :: "u8 \<Rightarrow> ndp_v3_packethdr \<Rightarrow> bool" where
  "hdr3_stale vld_flag h \<longleftrightarrow> (ucast (h3_valid h) :: u8) AND 1 = vld_flag XOR 1"

section \<open>Receive\<close>

primrec rx_blocks :: "'k nc_ndp_queue \<Rightarrow> int \<Rightarrow> nat \<Rightarrow> u32 \<Rightarrow> u32" where
  "rx_blocks q i 0 acc = acc"
| "rx_blocks q i (Suc n) acc =
     rx_blocks q (i + 1) n (acc + (ucast (h3_frame_len (hdr3_at q i)) + NDP_RX_CALYPTE_BLOCK - 1) div NDP_RX_CALYPTE_BLOCK)"

text \<open>The unbounded search for the first header that is not valid.\<close>

partial_function (option) uspace_scan :: "'k nc_ndp_queue \<Rightarrow> u8 \<Rightarrow> u32 \<Rightarrow> u32 option" where
  "uspace_scan q vld_flag hhp =
     (if hdr3_stale vld_flag (hdr3_at q (v3_hdrs (q_v3 q) + int (unat hhp))) then Some hhp
      else
        let hhp1 = (hhp + 1) AND v3_uspace_mhp (q_v3 q)
        in uspace_scan q (if hhp1 = 0 then vld_flag XOR 1 else vld_flag) hhp1)"

declare uspace_scan.simps [code]

definition ndp_queue_rx_sync_v3_us :: "'k nc_ndp_queue \<Rightarrow> 'k nc_ndp_queue option" where
  "ndp_queue_rx_sync_v3_us q =
     (let v = q_v3 q;
          q1 = (if sync_swptr (q_sync q) \<noteq> ucast (v3_uspace_shp v) then
            let cnt = (ucast ((sync_swptr (q_sync q) - ucast (v3_uspace_shp v)) AND ucast (v3_uspace_mhp v)) :: u32);
                blks = rx_blocks q (v3_hdrs v + int (unat (v3_uspace_shp v))) (unat cnt) 0;
                shp = (ucast (sync_swptr (q_sync q)) :: u32);
                sdp = (v3_uspace_sdp v + blks) AND v3_uspace_mdp v;
                acc = v3_uspace_acc v + cnt;
                v1 = v\<lparr>v3_uspace_shp := shp, v3_uspace_sdp := sdp, v3_uspace_acc := if acc \<ge> 32 then 0 else acc\<rparr>
            in if acc \<ge> 32
               then q\<lparr>q_v3 := v1, q_shm := (q_shm q)\<lparr>shm_log :=
                      shm_log (q_shm q) @ [Write_sdp (ucast sdp OR push_bit 32 (ucast shp))]\<rparr>\<rparr>
               else q\<lparr>q_v3 := v1\<rparr>
          else q)
      in map_option (\<lambda>hhp. q1\<lparr>q_v3 := (q_v3 q1)\<lparr>v3_uspace_hhp := hhp\<rparr>,
             q_sync := (q_sync q1)\<lparr>sync_hwptr := ucast hhp\<rparr>\<rparr>)
           (uspace_scan q1 (v3_valid_flag v) (v3_uspace_hhp (q_v3 q1))))"

definition nc_ndp_v3_rx_lock :: "'k ndp_sys \<Rightarrow> 'k nc_ndp_queue \<Rightarrow> (int \<times> 'k nc_ndp_queue) option" where
  "nc_ndp_v3_rx_lock sys q =
     map_option (\<lambda>(ret, q1). if ret \<noteq> 0 then (ret, q1)
        else (0, q1\<lparr>q_v3 := (q_v3 q1)\<lparr>v3_pkts_available :=
               ucast ((sync_hwptr (q_sync q1) - ucast (v3_shp (q_v3 q1))) AND ucast (v3_hdr_ptr_mask (q_v3 q1)))\<rparr>\<rparr>))
       (if v3_uspace q then map_option (Pair 0) (ndp_queue_rx_sync_v3_us q) else Some (ndp_queue_sync sys q))"

definition nc_ndp_v3_rx_unlock :: "'k ndp_sys \<Rightarrow> 'k nc_ndp_queue \<Rightarrow> (int \<times> 'k nc_ndp_queue) option" where
  "nc_ndp_v3_rx_unlock sys q =
     (let old = sync_swptr (q_sync q);
          q0 = q\<lparr>q_sync := (q_sync q)\<lparr>sync_swptr := ucast (v3_shp (q_v3 q) AND v3_hdr_ptr_mask (q_v3 q))\<rparr>\<rparr>
      in map_option (\<lambda>(ret, q1). (ret,
            if sync_swptr (q_sync q1) < old
            then q1\<lparr>q_v3 := (q_v3 q1)\<lparr>v3_valid_flag := v3_valid_flag (q_v3 q1) XOR 1\<rparr>\<rparr> else q1))
           (if v3_uspace q then map_option (Pair 0) (ndp_queue_rx_sync_v3_us q0) else Some (ndp_queue_sync sys q0)))"

definition v3_rx_packet :: "ndp_v3_packethdr \<Rightarrow> ndp_packet" where
  "v3_rx_packet h =
     (let header_size = (ucast (h3_header_size h AND 0xFF) :: u32);
          data = ucast (ucast (h3_frame_ptr h) * NDP_RX_CALYPTE_BLOCK)
      in \<lparr>pkt_data = data + ucast header_size, pkt_header = data,
          pkt_data_length = ucast (h3_frame_len h) - header_size, pkt_header_length = ucast header_size,
          pkt_flags = ucast (h3_flags h AND 0xF)\<rparr>)"

text \<open>The loop over the headers stops early at one that is not valid; \<open>n\<close> iterations are left.\<close>

primrec v3_rx_loop :: "'k nc_ndp_queue \<Rightarrow> nat \<Rightarrow> nat \<Rightarrow> u8 \<Rightarrow> u32 \<Rightarrow> ndp_packet list \<Rightarrow> u32 \<times> ndp_packet list" where
  "v3_rx_loop q 0 i vld_flag sdp ps = (sdp, ps)"
| "v3_rx_loop q (Suc n) i vld_flag sdp ps =
     (let v = q_v3 q;
          hdr = hdr3_at q (v3_hdrs v + int (unat (v3_shp v)) + int i);
          vld = (if v3_shp v + of_nat i = v3_hdr_ptr_mask v + 1 then vld_flag XOR 1 else vld_flag)
      in if hdr3_stale vld hdr then (sdp, ps)
      else v3_rx_loop q n (Suc i) vld
        (sdp + (ucast (h3_frame_len hdr) + NDP_RX_CALYPTE_BLOCK - 1) div NDP_RX_CALYPTE_BLOCK) (ps @ [v3_rx_packet hdr]))"

definition nc_ndp_v3_rx_burst_get ::
  "'k ndp_sys \<Rightarrow> u32 \<Rightarrow> 'k nc_ndp_queue \<Rightarrow> (u32 \<times> ndp_packet list \<times> 'k nc_ndp_queue) option" where
  "nc_ndp_v3_rx_burst_get sys cnt q =
     (let short = v3_pkts_available (q_v3 q) < cnt in
      map_option (\<lambda>q1.
        let n = (if short then min (v3_pkts_available (q_v3 q1)) cnt else cnt);
            v = q_v3 q1;
            (sdp, ps) = v3_rx_loop q1 (unat n) 0 (v3_valid_flag (q_v3 q)) (v3_sdp v) []
        in if short \<and> n = 0 then (0, [], q1)
        else (n, ps, q1\<lparr>q_v3 := v\<lparr>v3_sdp := sdp AND v3_data_ptr_mask v,
                 v3_shp := (v3_shp v + n) AND v3_hdr_ptr_mask v, v3_pkts_available := v3_pkts_available v - n\<rparr>\<rparr>))
        (if short then map_option snd (nc_ndp_v3_rx_lock sys q) else Some q))"

definition nc_ndp_v3_rx_burst_put :: "'k ndp_sys \<Rightarrow> 'k nc_ndp_queue \<Rightarrow> (int \<times> 'k nc_ndp_queue) option" where
  "nc_ndp_v3_rx_burst_put sys q = nc_ndp_v3_rx_unlock sys q"

section \<open>Transmit\<close>

definition hdr3_store :: "int \<Rightarrow> ndp_v3_packethdr \<Rightarrow> 'k nc_ndp_queue \<Rightarrow> 'k nc_ndp_queue" where
  "hdr3_store i h q = q\<lparr>q_shm := (q_shm q)
     \<lparr>shm_hdr3 := (shm_hdr3 (q_shm q))(i mod (int (unat (v3_hdr_ptr_mask (q_v3 q))) + 1) := h)\<rparr>\<rparr>"

definition frame_ceil :: "u32 \<Rightarrow> u32" where
  "frame_ceil n = (n + (NDP_TX_CALYPTE_BLOCK - 1)) AND NOT (NDP_TX_CALYPTE_BLOCK - 1)"

text \<open>The published headers: what they take of the free space and how far they move the data pointer.\<close>

primrec uspace_publish :: "'k nc_ndp_queue \<Rightarrow> int \<Rightarrow> nat \<Rightarrow> u32 \<Rightarrow> u32 \<Rightarrow> u32 \<times> u32" where
  "uspace_publish q i 0 free sdp = (free, sdp)"
| "uspace_publish q i (Suc n) free sdp =
     (let space = frame_ceil (ucast (h3_frame_len (hdr3_at q i)))
      in uspace_publish q (i + 1) n (free - space) (sdp + space))"

definition ndp_queue_tx_sync_v3_us :: "'k nc_ndp_queue \<Rightarrow> 'k nc_ndp_queue" where
  "ndp_queue_tx_sync_v3_us q =
     (let v = q_v3 q;
          new_hwptr = (ucast (sync_hwptr (q_sync q)) :: u32);
          cnt = (new_hwptr - v3_uspace_shp v) AND v3_uspace_mhp v;
          (free, sdp) = uspace_publish q (int (unat (v3_uspace_shp v))) (unat cnt) (v3_uspace_free v) (v3_uspace_sdp v);
          acc = v3_uspace_acc v + cnt;
          v1 = (if cnt \<noteq> 0
                then v\<lparr>v3_uspace_free := free, v3_uspace_sdp := sdp AND v3_uspace_mdp v, v3_uspace_shp := new_hwptr,
                       v3_uspace_acc := if acc \<ge> 32 then 0 else acc\<rparr>
                else v);
          chlen = (v3_uspace_hhp v1 - v3_uspace_shp v1 - 1) AND v3_uspace_mhp v1;
          v2 = (if chlen < 512 \<or> v3_uspace_free v1 \<le> 4096 then
                  case shm_update (q_shm q) of (hdp, hhp) \<Rightarrow>
                    v1\<lparr>v3_uspace_hdp := hdp, v3_uspace_hhp := hhp,
                       v3_uspace_free := v3_uspace_free v1 + ((hdp - v3_uspace_hdp v1) AND v3_uspace_mdp v1)\<rparr>
                else v1);
          chlen2 = (v3_uspace_hhp v2 - v3_uspace_shp v2 - 1) AND v3_uspace_mhp v2;
          len = min (ucast ((sync_swptr (q_sync q) - sync_hwptr (q_sync q)) AND ucast (v3_uspace_mhp v2))) chlen2
      in q\<lparr>q_v3 := v2, q_sync := (q_sync q)\<lparr>sync_hwptr := ucast (v3_uspace_hhp v2),
             sync_swptr := (ucast (v3_uspace_hhp v2) + ucast len) AND ucast (v3_uspace_mhp v2),
             sync_size := ucast (v3_uspace_free v2)\<rparr>\<rparr>)"

text \<open>The synchronisation of the two modes; the one in user space cannot fail.\<close>

definition v3_tx_sync :: "'k ndp_sys \<Rightarrow> 'k nc_ndp_queue \<Rightarrow> int \<times> 'k nc_ndp_queue" where
  "v3_tx_sync sys q = (if v3_uspace q then (0, ndp_queue_tx_sync_v3_us q) else ndp_queue_sync sys q)"

definition nc_ndp_v3_tx_lock :: "'k ndp_sys \<Rightarrow> 'k nc_ndp_queue \<Rightarrow> 'k nc_ndp_queue" where
  "nc_ndp_v3_tx_lock sys q =
     (let lock_valid = (sync_swptr (q_sync q) \<noteq> sync_hwptr (q_sync q)) in
      case v3_tx_sync sys (q\<lparr>q_sync := (q_sync q)
             \<lparr>sync_swptr := (sync_hwptr (q_sync q) - 1) AND ucast (v3_hdr_ptr_mask (q_v3 q))\<rparr>\<rparr>) of (ret, q1) \<Rightarrow>
        if ret \<noteq> 0 then q1
        else
          let v = q_v3 q1;
              offset = (ucast (sync_hwptr (q_sync q1) - ucast (v3_shp v)) :: u32);
              v1 = (if lock_valid then v else v\<lparr>v3_shp := v3_shp v + offset, v3_hdrs := v3_hdrs v + sint offset\<rparr>)
          in q1\<lparr>q_v3 := v1\<lparr>v3_pkts_available :=
                   ucast ((sync_swptr (q_sync q1) - ucast (v3_shp v1)) AND ucast (v3_hdr_ptr_mask v1)),
                 v3_bytes_available := sync_size (q_sync q1)\<rparr>\<rparr>)"

definition nc_ndp_v3_tx_request_space :: "'k ndp_sys \<Rightarrow> u32 \<Rightarrow> 'k nc_ndp_queue \<Rightarrow> int \<times> 'k nc_ndp_queue" where
  "nc_ndp_v3_tx_request_space sys shp q =
     (case v3_tx_sync sys (q\<lparr>q_sync := (q_sync q)\<lparr>sync_hwptr := ucast shp\<rparr>\<rparr>) of (ret, q1) \<Rightarrow>
        if ret \<noteq> 0 then (- 1, q1)
        else (0, q1\<lparr>q_v3 := (q_v3 q1)\<lparr>v3_bytes_available := sync_size (q_sync q1)\<rparr>\<rparr>))"

text \<open>One packet of a burst at the data pointer \<open>sdp\<close>; None for a packet or a header that is too long.\<close>

definition v3_tx_place :: "nat \<Rightarrow> u32 \<Rightarrow> ndp_packet \<Rightarrow> 'k nc_ndp_queue \<Rightarrow> (u32 \<times> ndp_packet \<times> 'k nc_ndp_queue) option" where
  "v3_tx_place i sdp p q =
     (let v = q_v3 q;
          header_size = (ucast (pkt_header_length p AND 0xFF) :: u32);
          packet_size = pkt_data_length p + header_size;
          short = packet_size < q_frame_size_min q;
          q1 = (if short then buf_clear (ucast sdp + ucast header_size + ucast packet_size)
                  (unat (q_frame_size_min q - packet_size)) q else q);
          psize = (if short then q_frame_size_min q else packet_size);
          h = hdr3_at q1 (v3_hdrs v + int i)
      in if pkt_header_length p > 0xFF then None
      else if \<not> short \<and> packet_size > q_frame_size_max q then None
      else Some (frame_ceil (sdp + psize),
        p\<lparr>pkt_header := ucast sdp, pkt_data := ucast sdp + ucast header_size\<rparr>,
        (hdr3_store (v3_hdrs v + int i)
          (h\<lparr>h3_header_size := ucast header_size, h3_frame_len := ucast psize,
             h3_frame_ptr := ucast (sdp AND v3_data_ptr_mask v), h3_flags := ucast (pkt_flags p AND 0xF)\<rparr>) q1)
          \<lparr>q_v3 := v\<lparr>v3_tx_pkts := (v3_tx_pkts v)[i := ucast sdp]\<rparr>\<rparr>))"

primrec v3_tx_loop ::
  "nat \<Rightarrow> u32 \<Rightarrow> ndp_packet list \<Rightarrow> ndp_packet list \<Rightarrow> 'k nc_ndp_queue \<Rightarrow>
   u32 option \<times> ndp_packet list \<times> 'k nc_ndp_queue" where
  "v3_tx_loop i sdp [] done q = (Some sdp, done, q)"
| "v3_tx_loop i sdp (p # rest) done q =
     (case v3_tx_place i sdp p q of
        None \<Rightarrow> (None, done @ p # rest, q)
      | Some (sdp1, p1, q1) \<Rightarrow> v3_tx_loop (Suc i) sdp1 rest (done @ [p1]) q1)"

definition nc_ndp_v3_tx_burst_get ::
  "'k ndp_sys \<Rightarrow> ndp_packet list \<Rightarrow> 'k nc_ndp_queue \<Rightarrow> u32 \<times> ndp_packet list \<times> 'k nc_ndp_queue" where
  "nc_ndp_v3_tx_burst_get sys packets q =
     (let cnt = (of_nat (length packets) :: u32) in
      if v3_pkts_to_send (q_v3 q) \<noteq> 0 \<or> v3_tx_pkts_cnt (q_v3 q) < ucast cnt then (0, packets, q)
      else
        let short = v3_pkts_available (q_v3 q) < cnt;
            q1 = (if short then nc_ndp_v3_tx_lock sys q else q)
        in if short \<and> (v3_pkts_available (q_v3 q1) < cnt \<or> cnt = 0) then (0, packets, q1)
        else case v3_tx_loop 0 (v3_sdp (q_v3 q1)) packets [] q1 of
          (None, ps, q2) \<Rightarrow> (0, ps, q2)
        | (Some sdp, ps, q2) \<Rightarrow>
            let v = q_v3 q2
            in (cnt, ps, q2\<lparr>q_v3 := v\<lparr>v3_hdrs := v3_hdrs v + int (length packets), v3_sdp := sdp AND v3_data_ptr_mask v,
                  v3_shp := v3_shp v + cnt, v3_pkts_available := v3_pkts_available v - cnt,
                  v3_pkts_to_send := v3_pkts_to_send v + cnt\<rparr>\<rparr>))"

text \<open>The part of the flush that runs when no packet waits to be sent.\<close>

definition v3_flush_pointers :: "'k ndp_sys \<Rightarrow> 'k nc_ndp_queue \<Rightarrow> int \<times> 'k nc_ndp_queue" where
  "v3_flush_pointers sys q =
     (let v = q_v3 q; n = v3_hdr_ptr_mask v + 1;
          v1 = (if v3_shp v \<ge> n then v\<lparr>v3_shp := v3_shp v - n, v3_hdrs := v3_hdrs v - int (unat n)\<rparr> else v);
          q1 = q\<lparr>q_v3 := v1\<rparr>
      in if v3_uspace q then
        (if sync_hwptr (q_sync q) = ucast (v3_shp v1) then (0, q1)
         else
           let q2 = ndp_queue_tx_sync_v3_us (q1\<lparr>q_sync := (q_sync q)\<lparr>sync_hwptr := ucast (v3_shp v1),
                      sync_swptr := ucast ((v3_shp v1 + 64) AND v3_hdr_ptr_mask v1)\<rparr>\<rparr>)
           in (0, q2\<lparr>q_v3 := (q_v3 q2)\<lparr>v3_pkts_available :=
                   ucast ((sync_swptr (q_sync q2) - sync_hwptr (q_sync q2)) AND ucast (v3_hdr_ptr_mask (q_v3 q2))),
                 v3_bytes_available := sync_size (q_sync q2)\<rparr>\<rparr>))
      else
        case ndp_queue_sync sys
          (q1\<lparr>q_sync := (q_sync q)\<lparr>sync_hwptr := ucast (v3_shp v1), sync_swptr := ucast (v3_shp v1)\<rparr>,
              q_v3 := v1\<lparr>v3_pkts_available := 0\<rparr>\<rparr>) of (ret, q2) \<Rightarrow> (if ret \<noteq> 0 then - 1 else 0, q2))"

text \<open>The wait for room in the device, which may last forever; False is the return with an error.\<close>

partial_function (option) v3_wait_space :: "'k ndp_sys \<Rightarrow> u32 \<Rightarrow> u64 \<Rightarrow> 'k nc_ndp_queue \<Rightarrow> (bool \<times> 'k nc_ndp_queue) option" where
  "v3_wait_space sys shp need q =
     (if v3_bytes_available (q_v3 q) < need then
        case nc_ndp_v3_tx_request_space sys shp q of (ret, q1) \<Rightarrow>
          if ret \<noteq> 0 then Some (False, q1) else v3_wait_space sys shp need q1
      else Some (True, q))"

declare v3_wait_space.simps [code]

text \<open>\<open>i\<close> packets are sent, \<open>n\<close> are left; \<open>base\<close> is the first header of the burst.\<close>

primrec v3_put_loop :: "'k ndp_sys \<Rightarrow> int \<Rightarrow> nat \<Rightarrow> nat \<Rightarrow> u32 \<Rightarrow> 'k nc_ndp_queue \<Rightarrow> (bool \<times> 'k nc_ndp_queue) option" where
  "v3_put_loop sys base i 0 shp q = Some (True, q)"
| "v3_put_loop sys base i (Suc n) shp q =
     (let need = ucast (frame_ceil (ucast (h3_frame_len (hdr3_at q (base + int i))))) in
      Option.bind (v3_wait_space sys shp need q) (\<lambda>(ok, q1).
        if \<not> ok then Some (False, q1)
        else
          let v = q_v3 q1; h = hdr3_at q1 (base + int i);
              q2 = q1\<lparr>q_v3 := v\<lparr>v3_bytes_available := v3_bytes_available v - need\<rparr>,
                      q_shm := (q_shm q1)\<lparr>shm_log := shm_log (q_shm q1) @
                        [Write_data (v3_tx_pkts v ! i) (h3_frame_len h) (ucast (h3_frame_ptr h)),
                         Write_hdr h (ucast shp * 8)]\<rparr>\<rparr>
          in v3_put_loop sys base (Suc i) n ((shp + 1) AND v3_hdr_ptr_mask v) q2))"

definition nc_ndp_v3_tx_burst_put :: "'k ndp_sys \<Rightarrow> 'k nc_ndp_queue \<Rightarrow> (int \<times> 'k nc_ndp_queue) option" where
  "nc_ndp_v3_tx_burst_put sys q =
     (let v = q_v3 q; n = v3_pkts_to_send v in
      map_option (\<lambda>(ok, q1).
        if \<not> ok then (- 1, q1)
        else (0, snd (v3_flush_pointers sys (q1\<lparr>q_v3 := (q_v3 q1)\<lparr>v3_pkts_to_send := 0\<rparr>\<rparr>))))
        (v3_put_loop sys (v3_hdrs v - int (unat n)) 0 (unat n) (v3_shp v - n) q))"

definition nc_ndp_v3_tx_burst_flush :: "'k ndp_sys \<Rightarrow> 'k nc_ndp_queue \<Rightarrow> (int \<times> 'k nc_ndp_queue) option" where
  "nc_ndp_v3_tx_burst_flush sys q =
     (if v3_pkts_to_send (q_v3 q) > 0 then nc_ndp_v3_tx_burst_put sys q else Some (v3_flush_pointers sys q))"

section \<open>The scan for received headers\<close>

text \<open>
  The header \<open>j\<close> places behind \<open>hhp\<close> and the polarity of its round: the round changes where the scan
  passes the end of the ring.
\<close>

definition scan_pos :: "nat \<Rightarrow> u32 \<Rightarrow> nat \<Rightarrow> nat" where
  "scan_pos k hhp j = (unat hhp + j) mod 2 ^ k"

definition scan_flag :: "nat \<Rightarrow> u8 \<Rightarrow> u32 \<Rightarrow> nat \<Rightarrow> u8" where
  "scan_flag k vld_flag hhp j = (if unat hhp + j < 2 ^ k then vld_flag else vld_flag XOR 1)"

definition scan_stale :: "nat \<Rightarrow> 'k nc_ndp_queue \<Rightarrow> u8 \<Rightarrow> u32 \<Rightarrow> nat \<Rightarrow> bool" where
  "scan_stale k q vld_flag hhp j \<longleftrightarrow>
     hdr3_stale (scan_flag k vld_flag hhp j) (hdr3_at q (v3_hdrs (q_v3 q) + int (scan_pos k hhp j)))"

lemma hdr3_stale_flip:
  assumes "vld_flag = 0 \<or> vld_flag = 1"
  shows "hdr3_stale (vld_flag XOR 1) h = (\<not> hdr3_stale vld_flag h)"
proof -
  have "h3_valid h = 0 \<or> h3_valid h = 1"
  proof -
    have "unat (h3_valid h) < 2" using unsigned_less [of "h3_valid h", where 'a = nat] by simp
    then have "unat (h3_valid h) = 0 \<or> unat (h3_valid h) = 1" by auto
    then show ?thesis by (metis unat_0 unat_1 word_unat_eq_iff)
  qed
  with assms show ?thesis by (auto simp: hdr3_stale_def)
qed

lemma unat_scan_pos: "k < 32 \<Longrightarrow> unat (of_nat (scan_pos k hhp i) :: u32) = scan_pos k hhp i"
proof -
  assume k: "k < 32"
  have "scan_pos k hhp i < 2 ^ k" by (simp add: scan_pos_def)
  also have "\<dots> < (2 :: nat) ^ 32" by (rule power_strict_increasing) (use k in simp_all)
  finally show ?thesis by (simp add: unsigned_of_nat take_bit_nat_eq_self)
qed

lemma scan_pos_Suc:
  assumes "k < 32"
  shows "(of_nat (scan_pos k hhp i) + 1) AND mask k = (of_nat (scan_pos k hhp (Suc i)) :: u32)"
proof -
  have "(of_nat (scan_pos k hhp i) + 1 :: u32) = of_nat (Suc (scan_pos k hhp i))" by simp
  also have "unat (\<dots> AND mask k) = Suc (scan_pos k hhp i) mod 2 ^ k"
  proof -
    have "Suc (scan_pos k hhp i) \<le> 2 ^ k" by (simp add: scan_pos_def Suc_leI)
    also have "\<dots> < (2 :: nat) ^ 32" by (rule power_strict_increasing) (use assms in simp_all)
    finally show ?thesis unfolding unat_and_mask unsigned_of_nat by (simp only: len_num0 len_bit0) (simp add: take_bit_nat_eq_self)
  qed
  finally have "unat ((of_nat (scan_pos k hhp i) + 1 :: u32) AND mask k) = scan_pos k hhp (Suc i)"
    by (simp add: scan_pos_def mod_Suc_eq)
  then show ?thesis by (simp add: word_unat_eq_iff unat_scan_pos [OF assms])
qed

lemma scan_flag_Suc:
  assumes "unat hhp < 2 ^ k" and "k < 32" and "Suc i \<le> 2 ^ k"
  shows "(if (of_nat (scan_pos k hhp (Suc i)) :: u32) = 0 then scan_flag k vld_flag hhp i XOR 1
     else scan_flag k vld_flag hhp i) = scan_flag k vld_flag hhp (Suc i)"
proof -
  have "(of_nat (scan_pos k hhp (Suc i)) :: u32) = 0 \<longleftrightarrow> scan_pos k hhp (Suc i) = 0"
    using unat_scan_pos [OF assms(2), of hhp "Suc i"] by (auto simp: unat_eq_0)
  also have "\<dots> \<longleftrightarrow> unat hhp + Suc i = 2 ^ k"
  proof
    assume "scan_pos k hhp (Suc i) = 0"
    then have "2 ^ k dvd unat hhp + Suc i" by (simp add: scan_pos_def mod_eq_0_iff_dvd)
    then obtain c where c: "unat hhp + Suc i = 2 ^ k * c" by (elim dvdE)
    moreover have "unat hhp + Suc i < 2 ^ k * 2" using assms by simp
    ultimately have "c < 2" by simp
    moreover have "c \<noteq> 0" using c by (intro notI) simp
    ultimately have "c = 1" by simp
    with c show "unat hhp + Suc i = 2 ^ k" by simp
  qed (simp add: scan_pos_def)
  finally show ?thesis using assms(1,3) by (auto simp: scan_flag_def)
qed

lemma uspace_scan_from:
  assumes "\<forall>i < j. \<not> scan_stale k q vld_flag hhp i" and "scan_stale k q vld_flag hhp j" and "j \<le> 2 ^ k"
    and hhp: "unat hhp < 2 ^ k" and k: "k < 32" and mhp: "v3_uspace_mhp (q_v3 q) = mask k" and "m \<le> j"
  shows "uspace_scan q (scan_flag k vld_flag hhp m) (of_nat (scan_pos k hhp m)) = Some (of_nat (scan_pos k hhp j))"
  using assms(7)
proof (induction m rule: inc_induct)
  case base
  show ?case using assms(2) by (subst uspace_scan.simps) (simp add: scan_stale_def unat_scan_pos [OF k])
next
  case (step i)
  have "\<not> scan_stale k q vld_flag hhp i" "Suc i \<le> 2 ^ k" using step assms(1,3) by simp_all
  with step.IH scan_pos_Suc [OF k, of hhp i] scan_flag_Suc [OF hhp k, of i vld_flag] show ?case
    by (subst uspace_scan.simps) (simp add: scan_stale_def unat_scan_pos [OF k] mhp Let_def)
qed

lemma uspace_scan_ends:
  assumes hhp: "unat hhp < 2 ^ k" and k: "k < 32" and mhp: "v3_uspace_mhp (q_v3 q) = mask k"
    and ring: "v3_hdr_ptr_mask (q_v3 q) = mask k" and flag: "vld_flag = 0 \<or> vld_flag = 1"
  shows "\<exists>j \<le> 2 ^ k. uspace_scan q vld_flag hhp = Some (of_nat (scan_pos k hhp j)) \<and>
    (\<forall>i < j. \<not> scan_stale k q vld_flag hhp i) \<and> scan_stale k q vld_flag hhp j"
proof -
  have "\<exists>j \<le> 2 ^ k. scan_stale k q vld_flag hhp j"
  proof (cases "scan_stale k q vld_flag hhp 0")
    case False
    have "scan_pos k hhp (2 ^ k) = scan_pos k hhp 0" by (simp add: scan_pos_def)
    with False have "scan_stale k q vld_flag hhp (2 ^ k)"
      using hdr3_stale_flip [OF flag] hhp by (simp add: scan_stale_def scan_flag_def)
    then show ?thesis by blast
  qed blast
  then obtain l where l: "l \<le> 2 ^ k" "scan_stale k q vld_flag hhp l" by blast
  define j where "j = (LEAST j. scan_stale k q vld_flag hhp j)"
  have j: "scan_stale k q vld_flag hhp j" unfolding j_def by (rule LeastI [of _ l]) (rule l(2))
  have first: "\<forall>i < j. \<not> scan_stale k q vld_flag hhp i" unfolding j_def using not_less_Least by blast
  have "j \<le> 2 ^ k" unfolding j_def using Least_le [of "scan_stale k q vld_flag hhp" l] l by simp
  with uspace_scan_from [OF first j _ hhp k mhp, of 0] hhp j first show ?thesis
    by (intro exI [of _ j]) (simp add: scan_flag_def scan_pos_def)
qed

section \<open>A second burst behind the end of the ring\<close>

text \<open>
  No packet of the range is valid in the round of the queue: the loop stops at the first header.
\<close>

lemma rx_loop_all_stale:
  assumes "hdr3_stale vld_flag (hdr3_at q (v3_hdrs (q_v3 q) + int (unat (v3_shp (q_v3 q)))))"
    and "v3_shp (q_v3 q) \<noteq> v3_hdr_ptr_mask (q_v3 q) + 1"
  shows "v3_rx_loop q n 0 vld_flag sdp ps = (sdp, ps)"
  using assms by (cases n) (simp_all add: Let_def)

end
