(* ===== verification/QueueSys.thy ===== *)
theory QueueSys
  imports Driver QueueV3
begin

text \<open>
  The queues of libnfb on top of the driver: \<open>driver_sys\<close> carries the calls of a queue to the \<open>ioctl\<close> of
  the character device, \<open>b\<close> being the open file.  What the hardware writes into the shared memory in the
  meantime is the argument \<open>hw\<close>.  The driver keeps the contract \<open>rx_sys\<close> of the receiving queues, so an
  application reads through both layers every packet once, in order, and never past the hardware.
\<close>

section \<open>System calls\<close>

text \<open>\<open>ioctl\<close> fails with -1 and leaves the error in \<open>errno\<close>, which the queue returns.\<close>

definition ioctl_result :: "ndp_subscription_sync \<Rightarrow> ndp_cmd \<Rightarrow> ndp_subscription_sync" where
  "ioctl_result sync cmd =
     (case cmd of NDP_IOC_SYNC s \<Rightarrow> s | NDP_IOC_START s \<Rightarrow> s | NDP_IOC_STOP s \<Rightarrow> s | _ \<Rightarrow> sync)"

definition driver_call ::
  "'c ndp_channel_ops \<Rightarrow> nat \<Rightarrow> ('c ndp \<Rightarrow> ndp_shm \<Rightarrow> ndp_shm) \<Rightarrow>
   (ndp_subscription_sync \<Rightarrow> ndp_cmd) \<Rightarrow> 'c ndp ioctl" where
  "driver_call ops b hw cmd sync st =
     (case st of (ndp, shm) \<Rightarrow>
      case ndp_char_ioctl ops b True True None (cmd sync) ndp of (ret, cmd', ndp') \<Rightarrow>
        (- ret, ioctl_result sync cmd', ndp', hw ndp' shm))"

definition driver_sys :: "'c ndp_channel_ops \<Rightarrow> nat \<Rightarrow> ('c ndp \<Rightarrow> ndp_shm \<Rightarrow> ndp_shm) \<Rightarrow> 'c ndp ndp_sys" where
  "driver_sys ops b hw = \<lparr>sys_sync = driver_call ops b hw NDP_IOC_SYNC,
     sys_start = driver_call ops b hw NDP_IOC_START, sys_stop = driver_call ops b hw NDP_IOC_STOP\<rparr>"

text \<open>The request names a subscription of a receive channel, if any.\<close>

definition rx_request :: "nat \<Rightarrow> ndp_subscription_sync \<Rightarrow> 'c ndp \<Rightarrow> bool" where
  "rx_request b sync ndp \<longleftrightarrow>
     (\<forall>s. ndp_subscription_by_id b (sync_id sync) ndp = Some s \<longrightarrow>
        sub_channel (ndp_subs ndp s) < length (ndp_channels ndp) \<and>
        cid_type (ch_id (ndp_channels ndp ! sub_channel (ndp_subs ndp s))) = NDP_CHANNEL_TYPE_RX)"

context channel_ctrl
begin

lemma driver_sync_rx:
  assumes c: "sys_sync (driver_sys ops b hw) sync (ndp, shm) = (r, sync', ndp', shm')" and ok: "rx_request b sync ndp"
  shows "rx_request b sync' ndp' \<and> (if r = 0 then sync' = sync\<lparr>sync_hwptr := sync_hwptr sync'\<rparr> else sync' = sync)"
proof (cases "ndp_subscription_by_id b (sync_id sync) ndp")
  case None
  with c ok show ?thesis
    by (auto simp: driver_sys_def driver_call_def ndp_char_ioctl_def ioctl_result_def)
next
  case (Some s)
  let ?c = "sub_channel (ndp_subs ndp s)"
  have ch: "?c < length (ndp_channels ndp)" "cid_type (ch_id (ndp_channels ndp ! ?c)) = NDP_CHANNEL_TYPE_RX"
    using ok Some by (simp_all add: rx_request_def)
  show ?thesis
  proof (cases "sub_status (ndp_subs ndp s) = NDP_SUB_STATUS_RUNNING")
    case False
    with Some c ok show ?thesis
      by (auto simp: driver_sys_def driver_call_def ndp_char_ioctl_def ioctl_result_def ndp_subscription_sync_def)
  next
    case True
    obtain sync1 ch1 subs1 where g: "ndp_channel_rxsync ops s sync (ndp_channels ndp ! ?c, ndp_subs ndp) = (sync1, ch1, subs1)"
      using prod_cases3 by blast
    from rxsync_result [OF g] obtain h p x where
      res: "sync1 = sync\<lparr>sync_hwptr := h\<rparr>" "ch_id ch1 = ch_id (ndp_channels ndp ! ?c)"
        "subs1 = (ndp_subs ndp)(s := (ndp_subs ndp s)\<lparr>sub_swptr := p, sub_hwptr := x\<rparr>)" by force
    have "ndp_subscription_sync ops s sync ndp =
        (0, sync1, ndp\<lparr>ndp_channels := (ndp_channels ndp)[?c := ch1], ndp_subs := subs1\<rparr>)"
      using True g ch by (simp add: ndp_subscription_sync_def ndp_channel_sync_def)
    with Some c have r: "r = 0" "sync' = sync1" "ndp' = ndp\<lparr>ndp_channels := (ndp_channels ndp)[?c := ch1], ndp_subs := subs1\<rparr>"
      by (auto simp: driver_sys_def driver_call_def ndp_char_ioctl_def ioctl_result_def)
    have "ndp_subscription_by_id b (sync_id sync') ndp' = Some s"
      using Some by (simp add: ndp_subscription_by_id_def r res)
    then have "rx_request b sync' ndp'" using ch by (simp add: rx_request_def r res)
    then show ?thesis by (simp add: r res)
  qed
qed

end

lemma rx_request_swptr: "rx_request b (sync\<lparr>sync_swptr := p\<rparr>) ndp = rx_request b sync ndp"
  by (simp add: rx_request_def)

interpretation driver_rx: rx_sys "driver_sys (ndp_driver_ops e) b hw" "rx_request b" for e b hw
  by unfold_locales (auto dest!: driver.driver_sync_rx simp: rx_request_swptr)

section \<open>Receiving through both layers\<close>

text \<open>
  The packets of the first protocol begin at multiples of eight, and so do the positions that the
  hardware reports.  \<open>P\<close> is a property of the states of the driver in which this is so; what the
  hardware does keeps it.
\<close>

definition hw_aligned :: "'c ndp_channel_ops \<Rightarrow> nat \<Rightarrow> ('c ndp \<Rightarrow> ndp_shm \<Rightarrow> ndp_shm) \<Rightarrow> ('c ndp \<Rightarrow> bool) \<Rightarrow> bool" where
  "hw_aligned ops b hw P \<longleftrightarrow>
     (\<forall>sync ndp shm r sync' ndp' shm'. P ndp \<longrightarrow>
        sys_sync (driver_sys ops b hw) sync (ndp, shm) = (r, sync', ndp', shm') \<longrightarrow>
        P ndp' \<and> (r = 0 \<longrightarrow> sync_hwptr sync' AND mask 3 = 0))"

lemma driver_rx_aligned:
  assumes "hw_aligned (ndp_driver_ops e) b hw P"
  shows "rx_sys (driver_sys (ndp_driver_ops e) b hw) (\<lambda>sync ndp. rx_request b sync ndp \<and> P ndp)"
proof (rule rx_sys.intro, goal_cases)
  case (1 sync k shm sync' k' shm')
  then show ?case
    using driver_rx.rx_sync [OF 1(1)] assms unfolding hw_aligned_def by blast
next
  case (2 sync k shm r sync' k' shm')
  then show ?case
    using driver_rx.rx_error [OF 2(1,2)] assms unfolding hw_aligned_def by blast
next
  case (3 sync p k)
  show ?case by (simp add: rx_request_swptr)
qed

text \<open>Reading packets of the first protocol.  A burst of an application that reads through libnfb and
  the driver hands out packets that lie one directly behind the other in the ring, starting where the
  last burst ended, and afterwards the count of bytes left is again exactly the distance to the position
  of the hardware: nothing is skipped, handed out twice or read before it was written.  It returns their
  number, or 0 when a call of the driver failed.
\<close>

theorem queue_v1_rx_in_order:
  assumes "nc_ndp_v1_rx_burst_get (driver_sys (ndp_driver_ops e) b hw) cnt q = Burst n ps q'"
    and "rx_request b (q_sync q) (q_kern q)" and "P (q_kern q)" and "hw_aligned (ndp_driver_ops e) b hw P"
    and "v1_agrees k (q_sync q) (q_v1 q)" and "3 \<le> k" and "q_size q - 1 = mask k"
  shows "v1_chain (v1_data (q_v1 q)) ps (v1_data (q_v1 q')) \<and> v1_agrees k (q_sync q') (q_v1 q') \<and>
    sync_swptr (q_sync q') = sync_swptr (q_sync q) \<and> length ps \<le> unat cnt \<and>
    (n = of_nat (length ps) \<or> n = 0) \<and> rx_request b (q_sync q') (q_kern q') \<and> P (q_kern q')"
proof -
  have "\<exists>rs. ps = [] @ rs \<and> v1_chain (v1_data (q_v1 q)) rs (v1_data (q_v1 q')) \<and> v1_agrees k (q_sync q') (q_v1 q') \<and>
    (rx_request b (q_sync q') (q_kern q') \<and> P (q_kern q')) \<and> sync_swptr (q_sync q') = sync_swptr (q_sync q) \<and>
    length rs \<le> unat cnt \<and> (n = 0 + of_nat (length rs) \<or> n = 0)"
  proof (rule rx_sys.v1_rx_loop_chain [OF driver_rx_aligned [OF assms(4)]])
    show "v1_rx_loop (driver_sys (ndp_driver_ops e) b hw) (unat cnt) 0 [] (q_v1 q) q = Burst n ps q'"
      using assms(1) by (simp add: nc_ndp_v1_rx_burst_get_def)
    show "sync_hwptr sync' AND mask 3 = 0"
      if "sys_sync (driver_sys (ndp_driver_ops e) b hw) sync (k', shm) = (0, sync', k'', shm')"
        "rx_request b sync k' \<and> P k'" for sync k' shm sync' k'' shm'
      using that assms(4) unfolding hw_aligned_def by blast
  qed (use assms in simp_all)
  then show ?thesis by auto
qed

text \<open>A device with first-generation receive channels whose hardware reports multiples of eight.\<close>

definition sze_aligned :: "any_ctrl ndp_channel \<Rightarrow> bool" where
  "sze_aligned ch \<longleftrightarrow> cid_type (ch_id ch) = NDP_CHANNEL_TYPE_RX \<and>
     (\<exists>c. ch_ctrl ch = Ctrl_v1 c \<and> (\<forall>i m. sze_update_env c i m AND mask 3 = 0) \<and> sze_initial_offset c AND mask 3 = 0)"

definition example_aligned :: "any_ctrl ndp \<Rightarrow> bool" where
  "example_aligned ndp \<longleftrightarrow> (\<forall>ch \<in> set (ndp_channels ndp). sze_aligned ch) \<and>
     (\<forall>s. sub_channel (ndp_subs ndp s) < length (ndp_channels ndp))"

lemma sze_aligned_update [simp]:
  "sze_aligned (ch\<lparr>ch_swptr := p\<rparr>) = sze_aligned ch" "sze_aligned (ch\<lparr>ch_hwptr := p\<rparr>) = sze_aligned ch"
  by (simp_all add: sze_aligned_def)

lemma sze_aligned_swptr:
  assumes "sze_aligned ch"
  shows "sze_aligned (channel_update_swptr (ndp_driver_ops e) p ch)"
proof -
  have "sze_aligned (op_set_swptr (ndp_driver_ops e) ch p)" if "sze_aligned ch" for ch
    using that
    by (auto simp: sze_aligned_def ndp_driver_ops_def retag_ops_def call2_def sze_ndp_ctrl_ops_def
        sze_ndp_ctrl_set_swptr_def Let_def)
  with assms show ?thesis by (simp add: channel_update_swptr_def)
qed

lemma sze_aligned_hwptr:
  assumes "sze_aligned ch" and "op_get_hwptr (ndp_driver_ops e) ch = (h, ch')"
  shows "sze_aligned ch'" and "h AND mask 3 = 0"
proof -
  from assms(1) obtain c where c: "ch_ctrl ch = Ctrl_v1 c" "\<And>i m. sze_update_env c i m AND mask 3 = 0"
    "sze_initial_offset c AND mask 3 = 0" by (auto simp: sze_aligned_def)
  have al: "(x + y AND m) AND mask 3 = 0" if "x AND mask 3 = 0" "y AND mask 3 = 0" for x y m :: u64
  proof -
    have "(x + y AND m) AND mask 3 = ((x + y) AND mask 3) AND m" by (simp only: ac_simps)
    then show ?thesis using aligned_add [OF that] by simp
  qed
  show "sze_aligned ch'" "h AND mask 3 = 0"
    using assms c al
    by (auto simp: sze_aligned_def ndp_driver_ops_def retag_ops_def call1_def sze_ndp_ctrl_ops_def
        sze_ndp_ctrl_get_hwptr_def sze_read_update_def Let_def)
qed

lemma example_hw_aligned: "hw_aligned (ndp_driver_ops e) b hw example_aligned"
proof -
  have "example_aligned ndp' \<and> (r = 0 \<longrightarrow> sync_hwptr sync' AND mask 3 = 0)"
    if P: "example_aligned ndp" and c: "sys_sync (driver_sys (ndp_driver_ops e) b hw) sync (ndp, shm) = (r, sync', ndp', shm')"
    for sync ndp shm r sync' ndp' shm'
  proof (cases "\<exists>s. ndp_subscription_by_id b (sync_id sync) ndp = Some s \<and> sub_status (ndp_subs ndp s) = NDP_SUB_STATUS_RUNNING")
    case False
    with P c show ?thesis
      by (cases "ndp_subscription_by_id b (sync_id sync) ndp")
        (auto simp: driver_sys_def driver_call_def ndp_char_ioctl_def ndp_subscription_sync_def)
  next
    case True
    then obtain s where s: "ndp_subscription_by_id b (sync_id sync) ndp = Some s"
      "sub_status (ndp_subs ndp s) = NDP_SUB_STATUS_RUNNING" by blast
    let ?c = "sub_channel (ndp_subs ndp s)"
    let ?ch = "ndp_channels ndp ! ?c"
    have len: "?c < length (ndp_channels ndp)" using P by (simp add: example_aligned_def)
    then have al: "sze_aligned ?ch" using P by (auto simp: example_aligned_def)
    then have rx: "cid_type (ch_id ?ch) = NDP_CHANNEL_TYPE_RX" by (simp add: sze_aligned_def)
    obtain p where g: "ndp_channel_rxsync (ndp_driver_ops e) s sync (?ch, ndp_subs ndp) =
       (let ch1 = channel_update_swptr (ndp_driver_ops e) p ?ch;
            subs1 = (ndp_subs ndp)(s := (ndp_subs ndp s)\<lparr>sub_swptr := sync_swptr sync\<rparr>)
        in case op_get_hwptr (ndp_driver_ops e) ch1 of (hwptr, ch2) \<Rightarrow>
          (sync\<lparr>sync_hwptr := hwptr\<rparr>, ch2\<lparr>ch_hwptr := hwptr\<rparr>, subs1(s := (subs1 s)\<lparr>sub_hwptr := hwptr\<rparr>)))"
      unfolding ndp_channel_rxsync_def Let_def prod.case by blast
    obtain h ch2 where h: "op_get_hwptr (ndp_driver_ops e) (channel_update_swptr (ndp_driver_ops e) p ?ch) = (h, ch2)" by force
    note ah = sze_aligned_hwptr [OF sze_aligned_swptr [OF al] h]
    have res: "sync' = sync\<lparr>sync_hwptr := h\<rparr>" "ndp_channels ndp' = (ndp_channels ndp)[?c := ch2\<lparr>ch_hwptr := h\<rparr>]"
      "\<And>t. sub_channel (ndp_subs ndp' t) = sub_channel (ndp_subs ndp t)"
      using c s rx g h
      by (auto simp: driver_sys_def driver_call_def ndp_char_ioctl_def ndp_subscription_sync_def ndp_channel_sync_def
          ioctl_result_def Let_def)
    have "\<forall>ch \<in> set ((ndp_channels ndp)[?c := ch2\<lparr>ch_hwptr := h\<rparr>]). sze_aligned ch"
      using P ah(1) set_update_subset_insert [of "ndp_channels ndp" ?c "ch2\<lparr>ch_hwptr := h\<rparr>"]
      by (auto simp: example_aligned_def)
    with P res ah(2) show ?thesis by (simp add: example_aligned_def)
  qed
  then show ?thesis unfolding hw_aligned_def by blast
qed

text \<open>The queue of file 5 on the running example: 24 bytes are locked, a packet of 20 bytes lies at the start.\<close>

definition example_shm :: ndp_shm where
  "example_shm = \<lparr>shm_buffer = (\<lambda>a. if a = 0x1000 then 20 else if a = 0x1002 then 4 else 0),
     shm_hdr2 = (\<lambda>i. \<lparr>h2_packet_size = 60, h2_header_size = of_int i, h2_flags = 0\<rparr>), shm_off2 = (\<lambda>i. of_int i * 4096),
     shm_hdr3 = (\<lambda>i. \<lparr>h3_frame_len = 64, h3_frame_ptr = of_int i, h3_valid = if i = 3 then 1 else 0, h3_header_size = 0, h3_flags = 0\<rparr>),
     shm_update = (0, 0), shm_log = []\<rparr>"

definition example_queue :: "any_ctrl ndp nc_ndp_queue" where
  "example_queue = \<lparr>q_size = 0x2000,
     q_v1 = \<lparr>v1_data = 0x1000, v1_bytes = 24, v1_total = 24, v1_swptr = 0\<rparr>,
     q_v2 = \<lparr>v2_pkts_available = 2, v2_rhp = 3, v2_hdr_items = 4, v2_hdr = 0, v2_off = 0\<rparr>,
     q_v3 = \<lparr>v3_pkts_available = 2, v3_pkts_to_send = 0, v3_bytes_available = 0, v3_sdp = 0, v3_shp = 0,
       v3_data_ptr_mask = 0xFFF, v3_hdr_ptr_mask = 3, v3_hdrs = 0, v3_tx_pkts = replicate 256 0, v3_tx_pkts_cnt = 256,
       v3_valid_flag = 1, v3_uspace_shp = 0, v3_uspace_hhp = 3, v3_uspace_sdp = 0, v3_uspace_hdp = 0,
       v3_uspace_mhp = 3, v3_uspace_mdp = 0xFFF, v3_uspace_free = 0, v3_uspace_acc = 0\<rparr>,
     q_sync = \<lparr>sync_id = 7, sync_flags = 0, sync_size = 0, sync_hwptr = 0x1018, sync_swptr = 0x1000\<rparr>,
     q_frame_size_min = 60, q_frame_size_max = 0x3FFF, q_protocol = 1, q_flags = 0,
     q_channel = \<lparr>req_id = Some 7, req_index = 0, req_type = 0, req_flags = 0\<rparr>,
     q_kern = example_running, q_shm = example_shm\<rparr>"

lemma example_rx_request: "rx_request 5 (q_sync example_queue) (q_kern example_queue)"
  by (auto simp: rx_request_def example_queue_def example_running_def example_ndp_def ndp_subscription_by_id_def
      example_subscription_def example_channel_def example_sze_channel_def zero_channel_def)

theorem queue_v1_rx_in_order_witness:
  "\<exists>q'. nc_ndp_v1_rx_burst_get (driver_sys (ndp_driver_ops example_env) 5 (\<lambda>_ shm. shm)) 1 example_queue =
      Burst 1 [\<lparr>pkt_data = 0x1008, pkt_header = 0x1004, pkt_data_length = 12, pkt_header_length = 4, pkt_flags = 0\<rparr>] q' \<and>
    v1_agrees 13 (q_sync q') (q_v1 q')"
proof -
  let ?q' = "v1_store (v1_advance 24 (q_v1 example_queue)) example_queue"
  let ?p = "\<lparr>pkt_data = 0x1008, pkt_header = 0x1004, pkt_data_length = 12, pkt_header_length = 4, pkt_flags = 0\<rparr>"
  have "v1_rx_packet example_queue (q_v1 example_queue) = Inr (?p, 24)" by code_simp
  then have b: "nc_ndp_v1_rx_burst_get (driver_sys (ndp_driver_ops example_env) 5 (\<lambda>_ shm. shm)) 1 example_queue = Burst 1 [?p] ?q'"
    by (simp add: nc_ndp_v1_rx_burst_get_def Let_def) (simp add: example_queue_def)
  have P: "example_aligned (q_kern example_queue)"
    by (simp add: example_queue_def example_running_def example_ndp_def example_aligned_def sze_aligned_def example_channel_def
        example_sze_channel_def zero_channel_def example_subscription_def zero_subscription_def example_sze_def mask_numeral)
  have ag: "v1_agrees 13 (q_sync example_queue) (q_v1 example_queue)" "(3 :: nat) \<le> 13" "q_size example_queue - 1 = mask 13"
    by (simp_all add: v1_agrees_def example_queue_def mask_numeral)
  from queue_v1_rx_in_order [where P = example_aligned, OF b example_rx_request P example_hw_aligned ag] b show ?thesis by blast
qed

text \<open>C12.  Reading packets of the second protocol.  A burst of an application that reads through libnfb and
  the driver hands out the packets of the next header slots in the order of the ring, as many as were
  asked for or all that the hardware has reported, and never one more; the count of packets left stays
  exact and inside the doubly mapped arrays.
\<close>

theorem queue_v2_rx_in_order:
  assumes "nc_ndp_v2_rx_burst_get (driver_sys (ndp_driver_ops e) b hw) cnt q = (n, ps, q')"
    and "rx_request b (q_sync q) (q_kern q)" and "v2_agrees k q" and "v2_hdr (q_v2 q) = 0"
  shows "ps = map (\<lambda>i. v2_rx_packet q' (int ((unat (v2_rhp (q_v2 q)) + i) mod 2 ^ k))) [0 ..< unat n] \<and>
    n \<le> cnt \<and> unat n \<le> items_left k (sync_hwptr (q_sync q')) (v2_rhp (q_v2 q)) \<and>
    (n = cnt \<or> unat n = items_left k (sync_hwptr (q_sync q')) (v2_rhp (q_v2 q))) \<and>
    v2_agrees k q' \<and> rx_request b (q_sync q') (q_kern q')"
  using driver_rx.v2_rx_burst_exact [OF assms] by blast

theorem queue_v2_rx_in_order_witness:
  "fst (snd (nc_ndp_v2_rx_burst_get (driver_sys (ndp_driver_ops example_env) 5 (\<lambda>_ shm. shm)) 2
     (example_queue\<lparr>q_sync := (q_sync example_queue)\<lparr>sync_hwptr := 5\<rparr>\<rparr>))) =
    [\<lparr>pkt_data = 0x3003, pkt_header = 0x3000, pkt_data_length = 57, pkt_header_length = 3, pkt_flags = 0\<rparr>,
     \<lparr>pkt_data = 0, pkt_header = 0, pkt_data_length = 60, pkt_header_length = 0, pkt_flags = 0\<rparr>]"
proof -
  let ?q = "example_queue\<lparr>q_sync := (q_sync example_queue)\<lparr>sync_hwptr := 5\<rparr>\<rparr>"
  have rx: "rx_request 5 (q_sync ?q) (q_kern ?q)" using example_rx_request by (simp add: rx_request_def)
  have ag: "v2_agrees 2 ?q" "v2_hdr (q_v2 ?q) = 0"
    by (simp_all add: v2_agrees_def items_left_def example_queue_def mask_numeral)
  obtain n ps q' where b: "nc_ndp_v2_rx_burst_get (driver_sys (ndp_driver_ops example_env) 5 (\<lambda>_ shm. shm)) 2 ?q = (n, ps, q')"
    using prod_cases3 by blast
  then have n: "n = 2" and q': "q_shm q' = example_shm" "v2_hdr_items (q_v2 q') = 4"
    by (auto simp: nc_ndp_v2_rx_burst_get_def example_queue_def Let_def)
  have rhp: "v2_rhp (q_v2 ?q) = 3" by (simp add: example_queue_def)
  from queue_v2_rx_in_order [OF b rx ag] have
    ps: "ps = map (\<lambda>i. v2_rx_packet q' (int ((unat (v2_rhp (q_v2 ?q)) + i) mod 2 ^ 2))) [0 ..< unat n]" by blast
  have "ps = [v2_rx_packet q' 3, v2_rx_packet q' 0]" unfolding ps n rhp by (simp add: upt_rec)
  then show ?thesis unfolding b by (simp add: v2_rx_packet_def hdr2_at_def off2_at_def q' example_shm_def)
qed

text \<open>Searching for received packets in user space ends.  The loop without a bound of a Calypte queue
  that is driven from user space stops after at most one turn of the ring, at the first header that does
  not have the polarity of its round, and all headers before it have it.
\<close>

theorem queue_v3_scan_ends:
  assumes "unat hhp < 2 ^ k" and "k < 32" and "v3_uspace_mhp (q_v3 q) = mask k"
    and "v3_hdr_ptr_mask (q_v3 q) = mask k" and "vld_flag = 0 \<or> vld_flag = 1"
  shows "\<exists>j \<le> 2 ^ k. uspace_scan q vld_flag hhp = Some (of_nat (scan_pos k hhp j)) \<and>
    (\<forall>i < j. \<not> scan_stale k q vld_flag hhp i) \<and> scan_stale k q vld_flag hhp j"
  by (rule uspace_scan_ends [OF assms])

theorem queue_v3_scan_ends_witness:
  "\<exists>j \<le> 4. uspace_scan example_queue 1 3 = Some (of_nat ((3 + j) mod 4))"
proof -
  have "unat (3 :: u32) < 2 ^ 2" "(2 :: nat) < 32" "v3_uspace_mhp (q_v3 example_queue) = mask 2"
    "v3_hdr_ptr_mask (q_v3 example_queue) = mask 2" "(1 :: u8) = 0 \<or> (1 :: u8) = 1"
    by (simp_all add: example_queue_def mask_numeral)
  from queue_v3_scan_ends [OF this] show ?thesis by (auto simp: scan_pos_def)
qed

text \<open>A second burst without a put in between.  When a burst has taken a Calypte queue past the end of
  the ring and the application asks for more packets before it returns the first ones, the queue still
  compares with the polarity of the old round: it reports as many packets as were asked for, moves on
  behind them, and has not filled in any of them.
\<close>

theorem queue_v3_rx_second_burst:
  assumes "cnt \<le> v3_pkts_available (q_v3 q)" and "v3_shp (q_v3 q) \<noteq> v3_hdr_ptr_mask (q_v3 q) + 1"
    and "hdr3_stale (v3_valid_flag (q_v3 q)) (hdr3_at q (v3_hdrs (q_v3 q) + int (unat (v3_shp (q_v3 q)))))"
  shows "\<exists>q'. nc_ndp_v3_rx_burst_get sys cnt q = Some (cnt, [], q') \<and>
    v3_shp (q_v3 q') = (v3_shp (q_v3 q) + cnt) AND v3_hdr_ptr_mask (q_v3 q)"
  using rx_loop_all_stale [OF assms(3,2)]
  by (simp add: nc_ndp_v3_rx_burst_get_def Let_def linorder_not_less [THEN iffD2, OF assms(1)])

text \<open>The application read the packet of slot 3, the last one, and two packets of the next round wait in slots 0 and 1.\<close>

theorem queue_v3_rx_second_burst_witness:
  "let sys = driver_sys (ndp_driver_ops example_env) 5 (\<lambda>_ shm. shm);
       q = example_queue\<lparr>q_v3 := (q_v3 example_queue)\<lparr>v3_shp := 3, v3_pkts_available := 3\<rparr>\<rparr>
   in \<exists>p q1 q2. nc_ndp_v3_rx_burst_get sys 1 q = Some (1, [p], q1) \<and> nc_ndp_v3_rx_burst_get sys 2 q1 = Some (2, [], q2)"
proof -
  let ?sys = "driver_sys (ndp_driver_ops example_env) 5 (\<lambda>_ shm. shm)"
  let ?q = "example_queue\<lparr>q_v3 := (q_v3 example_queue)\<lparr>v3_shp := 3, v3_pkts_available := 3\<rparr>\<rparr>"
  define q where "q = ?q"
  have q: "v3_valid_flag (q_v3 q) = 1" "v3_sdp (q_v3 q) = 0" "v3_pkts_available (q_v3 q) = 3" "v3_shp (q_v3 q) = 3"
    "v3_data_ptr_mask (q_v3 q) = 0xFFF" "v3_hdr_ptr_mask (q_v3 q) = 3"
    by (simp_all add: q_def example_queue_def)
  have "v3_rx_loop ?q 1 0 1 0 [] = (1, [v3_rx_packet (hdr3_at ?q 3)])" by code_simp
  then have loop: "v3_rx_loop q (Suc 0) 0 1 0 [] = (1, [v3_rx_packet (hdr3_at q 3)])" by (simp add: q_def del: v3_rx_loop.simps)
  obtain p q1 where first: "nc_ndp_v3_rx_burst_get ?sys 1 q = Some (1, [p], q1)"
    and "q1 = q\<lparr>q_v3 := (q_v3 q)\<lparr>v3_sdp := 1, v3_shp := 0, v3_pkts_available := 2\<rparr>\<rparr>"
    by (simp add: nc_ndp_v3_rx_burst_get_def Let_def q loop del: v3_rx_loop.simps)
  then have q1: "q1 = ?q\<lparr>q_v3 := (q_v3 ?q)\<lparr>v3_sdp := 1, v3_shp := 0, v3_pkts_available := 2\<rparr>\<rparr>" by (simp add: q_def)
  have "2 \<le> v3_pkts_available (q_v3 q1)" "v3_shp (q_v3 q1) \<noteq> v3_hdr_ptr_mask (q_v3 q1) + 1"
    "hdr3_stale (v3_valid_flag (q_v3 q1)) (hdr3_at q1 (v3_hdrs (q_v3 q1) + int (unat (v3_shp (q_v3 q1)))))"
    by (simp_all add: q1 example_queue_def hdr3_stale_def hdr3_at_def example_shm_def)
  from queue_v3_rx_second_burst [OF this, of ?sys] first [unfolded q_def] show ?thesis by (auto simp: Let_def)
qed

end
