(* ===== verification/QueueOpen.thy ===== *)
theory QueueOpen
  imports QueueSys
begin

text \<open>
  Opening, starting, stopping and closing of NDP queues in \<open>libnfb\<close> (\<open>netcope/ndp.h\<close>, \<open>ndp_calypte.h\<close>,
  \<open>ndp_base.h\<close>, \<open>ndp_core.h\<close>, user space), and the bursts through the table of operations of a queue.
  The process holds memory, mappings of the device file and open components; \<open>lib_live\<close> is the multiset
  of what it holds.  \<open>lib_plan\<close> says for the next calls that may fail whether they succeed; when it is used
  up they do.  The properties of a queue in the device tree are the record \<open>queue_node\<close>.  None stands for a
  crash of the process or for not returning.
\<close>

section \<open>Resources of the process\<close>

datatype lib_res =
    Queue_mem
  | Nc_queue_mem
  | Mapping_of u64 u64
  | Comp_open int
  | Tx_pkts_mem

record lib =
  lib_live :: "lib_res multiset"
  lib_plan :: "bool list"
  lib_queues :: "nat option list"
  lib_next :: nat
  lib_dev_ops :: bool

definition lib_ask :: "lib \<Rightarrow> bool \<times> lib" where
  "lib_ask l = (case lib_plan l of [] \<Rightarrow> (True, l) | ok # rest \<Rightarrow> (ok, l\<lparr>lib_plan := rest\<rparr>))"

definition lib_take :: "lib_res \<Rightarrow> lib \<Rightarrow> bool \<times> lib" where
  "lib_take r l =
     (case lib_ask l of (ok, l1) \<Rightarrow> (ok, if ok then l1\<lparr>lib_live := add_mset r (lib_live l1)\<rparr> else l1))"

definition lib_drop :: "lib_res \<Rightarrow> lib \<Rightarrow> lib" where
  "lib_drop r l = l\<lparr>lib_live := lib_live l - {#r#}\<rparr>"

text \<open>A mapping is its offset in the device file and its length; None is \<open>MAP_FAILED\<close> or no mapping.\<close>

type_synonym mapping = "(u64 \<times> u64) option"

definition lib_mmap :: "u64 \<Rightarrow> u64 \<Rightarrow> lib \<Rightarrow> mapping \<times> lib" where
  "lib_mmap sz off l =
     (case lib_take (Mapping_of off sz) l of (ok, l1) \<Rightarrow> (if ok then Some (off, sz) else None, l1))"

definition munmap :: "mapping \<Rightarrow> lib \<Rightarrow> lib" where
  "munmap m l = (case m of None \<Rightarrow> l | Some (off, sz) \<Rightarrow> lib_drop (Mapping_of off sz) l)"

text \<open>A component is named by its node; opening fails without a node.\<close>

definition comp_open :: "int option \<Rightarrow> lib \<Rightarrow> int option \<times> lib" where
  "comp_open node l =
     (case node of None \<Rightarrow> (None, l)
      | Some n \<Rightarrow> (case lib_take (Comp_open n) l of (ok, l1) \<Rightarrow> (if ok then Some n else None, l1)))"

text \<open>Closing a null pointer crashes.\<close>

definition comp_close :: "int option \<Rightarrow> lib \<Rightarrow> lib option" where
  "comp_close node l = map_option (\<lambda>n. lib_drop (Comp_open n) l) node"

section \<open>Queues\<close>

record ctrl_node =
  cn_offset :: int
  cn_frame_size_min :: "u32 option"
  cn_frame_size_max :: "u32 option"
  cn_data_buff :: "int option"
  cn_hdr_buff :: "int option"

record queue_node =
  qn_ctrl :: "ctrl_node option"
  qn_numa :: "int option"
  qn_size :: "u64 option"
  qn_mmap_size :: "u64 option"
  qn_mmap_base :: "u64 option"
  qn_protocol :: "u32 option"
  qn_buffer_size :: "u32 option"
  qn_hdr_mmap_size :: "u64 option"
  qn_hdr_mmap_base :: "u64 option"
  qn_off_mmap_size :: "u64 option"
  qn_off_mmap_base :: "u64 option"
  qn_data_buff_size :: "u32 option"
  qn_hdr_buff_size :: "u32 option"
  qn_upd_mmap_size :: "u64 option"
  qn_upd_mmap_base :: "u64 option"

definition no_node :: queue_node where
  "no_node = \<lparr>qn_ctrl = None, qn_numa = None, qn_size = None, qn_mmap_size = None, qn_mmap_base = None, qn_protocol = None,
     qn_buffer_size = None, qn_hdr_mmap_size = None, qn_hdr_mmap_base = None, qn_off_mmap_size = None, qn_off_mmap_base = None,
     qn_data_buff_size = None, qn_hdr_buff_size = None, qn_upd_mmap_size = None, qn_upd_mmap_base = None\<rparr>"

text \<open>The functions in the table of a queue, by direction and protocol.\<close>

datatype burst_ops = Rx_ops u32 | Tx_ops u32

record ndp_queue_ops =
  ops_burst :: "burst_ops option"
  ops_control :: bool

datatype ndp_queue_status = NDP_QUEUE_RUNNING | NDP_QUEUE_STOPPED

text \<open>What the pointers of a queue refer to.\<close>

record queue_maps =
  qm_buffer :: mapping
  qm_hdr :: mapping
  qm_off :: mapping
  qm_upd :: mapping
  qm_comp :: "int option"
  qm_tx_data_buff :: "int option"
  qm_tx_hdr_buff :: "int option"
  qm_tx_pkts :: bool

record 'k ndp_queue =
  nq_id :: nat
  nq_priv :: "'k nc_ndp_queue"
  nq_maps :: queue_maps
  nq_ops :: ndp_queue_ops
  nq_status :: ndp_queue_status
  nq_numa :: int
  nq_dir :: u32
  nq_index :: u16

definition zero_queue :: "'k \<Rightarrow> ndp_shm \<Rightarrow> 'k nc_ndp_queue" where
  "zero_queue k shm = \<lparr>q_size = 0,
     q_v1 = \<lparr>v1_data = 0, v1_bytes = 0, v1_total = 0, v1_swptr = 0\<rparr>,
     q_v2 = \<lparr>v2_pkts_available = 0, v2_rhp = 0, v2_hdr_items = 0, v2_hdr = 0, v2_off = 0\<rparr>,
     q_v3 = \<lparr>v3_pkts_available = 0, v3_pkts_to_send = 0, v3_bytes_available = 0, v3_sdp = 0, v3_shp = 0,
       v3_data_ptr_mask = 0, v3_hdr_ptr_mask = 0, v3_hdrs = 0, v3_tx_pkts = [], v3_tx_pkts_cnt = 0,
       v3_valid_flag = 0, v3_uspace_shp = 0, v3_uspace_hhp = 0, v3_uspace_sdp = 0, v3_uspace_hdp = 0,
       v3_uspace_mhp = 0, v3_uspace_mdp = 0, v3_uspace_free = 0, v3_uspace_acc = 0\<rparr>,
     q_sync = \<lparr>sync_id = 0, sync_flags = 0, sync_size = 0, sync_hwptr = 0, sync_swptr = 0\<rparr>,
     q_frame_size_min = 0, q_frame_size_max = 0, q_protocol = 0, q_flags = 0,
     q_channel = \<lparr>req_id = None, req_index = 0, req_type = 0, req_flags = 0\<rparr>, q_kern = k, q_shm = shm\<rparr>"

definition no_maps :: queue_maps where
  "no_maps = \<lparr>qm_buffer = None, qm_hdr = None, qm_off = None, qm_upd = None, qm_comp = None,
     qm_tx_data_buff = None, qm_tx_hdr_buff = None, qm_tx_pkts = False\<rparr>"

definition DIR_RX :: u32 where "DIR_RX = 0"
definition DIR_TX :: u32 where "DIR_TX = 1"

definition q_type :: "'k ndp_queue \<Rightarrow> u32" where
  "q_type nq = req_type (q_channel (nq_priv nq))"

definition q_has_flag :: "u32 \<Rightarrow> 'k ndp_queue \<Rightarrow> bool" where
  "q_has_flag f nq \<longleftrightarrow> q_flags (nq_priv nq) AND f \<noteq> 0"

definition set_priv :: "('k nc_ndp_queue \<Rightarrow> 'k nc_ndp_queue) \<Rightarrow> 'k ndp_queue \<Rightarrow> 'k ndp_queue" where
  "set_priv f nq = nq\<lparr>nq_priv := f (nq_priv nq)\<rparr>"

definition set_maps :: "(queue_maps \<Rightarrow> queue_maps) \<Rightarrow> 'k ndp_queue \<Rightarrow> 'k ndp_queue" where
  "set_maps f nq = nq\<lparr>nq_maps := f (nq_maps nq)\<rparr>"

definition set_burst_ops :: "u32 \<Rightarrow> 'k ndp_queue \<Rightarrow> 'k ndp_queue" where
  "set_burst_ops p nq =
     nq\<lparr>nq_ops := (nq_ops nq)\<lparr>ops_burst := Some (if q_type nq = DIR_RX then Rx_ops p else Tx_ops p)\<rparr>\<rparr>"

section \<open>Paths in the device tree\<close>

fun decimal :: "nat \<Rightarrow> string" where
  "decimal n = (if n < 10 then [char_of (48 + n)] else decimal (n div 10) @ [char_of (48 + n mod 10)])"

declare decimal.simps [simp del]

definition queue_path :: "u32 \<Rightarrow> u32 \<Rightarrow> string" where
  "queue_path index dir =
     (let dir_str = (if dir \<noteq> 0 then ''tx'' else ''rx'')
      in ''/drivers/ndp/'' @ dir_str @ ''_queues/'' @ dir_str @ decimal (unat index))"

definition nc_nfb_fdt_queue_offset :: "(string \<Rightarrow> queue_node option) \<Rightarrow> u32 \<Rightarrow> u32 \<Rightarrow> queue_node option" where
  "nc_nfb_fdt_queue_offset fdt index dir = fdt (queue_path (index AND 0x0FFFFFFF) dir)"

definition node_of :: "queue_node option \<Rightarrow> queue_node" where
  "node_of n = (case n of None \<Rightarrow> no_node | Some node \<Rightarrow> node)"

definition ndp_queue_is_available :: "(string \<Rightarrow> queue_node option) \<Rightarrow> u32 \<Rightarrow> u32 \<Rightarrow> bool" where
  "ndp_queue_is_available fdt index dir =
     (case fdt (queue_path index dir) of None \<Rightarrow> False
      | Some node \<Rightarrow> (case qn_mmap_size node of None \<Rightarrow> False | Some sz \<Rightarrow> sz \<noteq> 0))"

definition queue_available_count :: "(string \<Rightarrow> queue_node option) \<Rightarrow> nat \<Rightarrow> u32 \<Rightarrow> nat" where
  "queue_available_count fdt cnt dir = length (filter (\<lambda>i. ndp_queue_is_available fdt (of_nat i) dir) [0 ..< cnt])"

section \<open>Opening\<close>

definition nc_ndp_v1_open_queue :: "'k ndp_queue \<Rightarrow> 'k ndp_queue" where
  "nc_ndp_v1_open_queue nq =
     set_burst_ops 1 (set_priv (\<lambda>q. q
       \<lparr>q_frame_size_min := if q_frame_size_min q = 0 then 57 else q_frame_size_min q,
        q_frame_size_max := if q_frame_size_max q = 0 then 0x3FFF else q_frame_size_max q,
        q_v1 := \<lparr>v1_data = 0, v1_bytes = 0, v1_total = 0, v1_swptr = 0\<rparr>\<rparr>) nq)"

text \<open>Properties of which all must be there.\<close>

definition props4 :: "'a option \<Rightarrow> 'b option \<Rightarrow> 'c option \<Rightarrow> 'd option \<Rightarrow> ('a \<times> 'b \<times> 'c \<times> 'd) option" where
  "props4 a b c d =
     (case (a, b, c, d) of (Some w, Some x, Some y, Some z) \<Rightarrow> Some (w, x, y, z) | _ \<Rightarrow> None)"

definition nc_ndp_v2_open_queue :: "queue_node \<Rightarrow> 'k ndp_queue \<Rightarrow> lib \<Rightarrow> int \<times> 'k ndp_queue \<times> lib" where
  "nc_ndp_v2_open_queue node nq l =
     (let q = nq_priv nq;
          bsize = (case qn_buffer_size node of None \<Rightarrow> 4096 | Some b \<Rightarrow> b);
          fmax = (if q_frame_size_max q = 0 then 0x3FFF else q_frame_size_max q);
          q1 = q\<lparr>q_frame_size_min := if q_frame_size_min q = 0 then 60 else q_frame_size_min q,
                 q_frame_size_max := if bsize < fmax then bsize else fmax,
                 q_v2 := (q_v2 q)\<lparr>v2_rhp := 0, v2_pkts_available := 0\<rparr>\<rparr>;
          nq1 = nq\<lparr>nq_priv := q1\<rparr>
      in case props4 (qn_hdr_mmap_size node) (qn_off_mmap_size node) (qn_hdr_mmap_base node) (qn_off_mmap_base node) of
        None \<Rightarrow> (EBADFD, nq1, l)
      | Some (hs, os, hb, ob) \<Rightarrow>
          (case lib_mmap hs hb l of
             (None, l1) \<Rightarrow> (0, nq1, l1)
           | (Some hdr, l1) \<Rightarrow> (case lib_mmap os ob l1 of
                (None, l2) \<Rightarrow> (0, nq1, munmap (Some hdr) l2)
              | (Some off, l2) \<Rightarrow>
                  (0, set_burst_ops 2 (set_maps (\<lambda>m. m\<lparr>qm_hdr := Some hdr, qm_off := Some off\<rparr>)
                    (nq1\<lparr>nq_priv := q1\<lparr>q_v2 := (q_v2 q1)\<lparr>v2_hdr_items := ucast (hs div 2 div 4)\<rparr>\<rparr>\<rparr>)), l2))))"

text \<open>The sizes that a transmit queue needs in addition; both are 0 for a receive queue.\<close>

definition v3_tx_sizes :: "queue_node \<Rightarrow> (u64 \<times> u64 \<times> u64 \<times> u64) option" where
  "v3_tx_sizes node =
     map_option (\<lambda>(ds, hs, us, ub). (ucast ds, ucast hs, us, ub))
       (props4 (qn_data_buff_size node) (qn_hdr_buff_size node) (qn_upd_mmap_size node) (qn_upd_mmap_base node))"

definition v3_areas :: "bool \<Rightarrow> queue_node \<Rightarrow> (u64 \<times> u64 \<times> u64 \<times> u64 \<times> u64 \<times> u64) option" where
  "v3_areas is_tx node =
     (case (qn_hdr_mmap_size node, qn_hdr_mmap_base node, if is_tx then v3_tx_sizes node else Some (0, 0, 0, 0)) of
        (Some hms, Some hmb, Some (ds, hs, us, ub)) \<Rightarrow> Some (hms, hmb, ds, hs, us, ub)
      | _ \<Rightarrow> None)"

definition v3_reset :: "'k nc_ndp_queue \<Rightarrow> 'k nc_ndp_queue" where
  "v3_reset q = q\<lparr>q_v3 := (q_v3 q)\<lparr>v3_pkts_available := 0, v3_sdp := 0, v3_shp := 0, v3_uspace_shp := 0, v3_uspace_hhp := 0,
     v3_uspace_hdp := 0, v3_uspace_sdp := 0, v3_uspace_free := 0, v3_uspace_acc := 0\<rparr>\<rparr>"

definition v3_masks :: "u64 \<Rightarrow> u64 \<Rightarrow> u64 \<Rightarrow> 'k nc_ndp_queue \<Rightarrow> 'k nc_ndp_queue" where
  "v3_masks hdr_mmap_size hdr_buff_size data_buff_size q =
     (if req_type (q_channel q) = DIR_RX
      then q\<lparr>q_v3 := (q_v3 q)\<lparr>v3_valid_flag := 1, v3_hdr_ptr_mask := ucast (hdr_mmap_size div 2 div 8 - 1)\<rparr>\<rparr>
      else q\<lparr>q_v3 := (q_v3 q)\<lparr>v3_hdr_ptr_mask := ucast (hdr_buff_size div (2 * 8) - 1),
                  v3_data_ptr_mask := ucast (data_buff_size div 2 - 1)\<rparr>\<rparr>)"

definition nc_ndp_v3_open_queue :: "queue_node \<Rightarrow> 'k ndp_queue \<Rightarrow> lib \<Rightarrow> int \<times> 'k ndp_queue \<times> lib" where
  "nc_ndp_v3_open_queue node nq l =
     (let nq1 = set_priv v3_reset nq;
          is_tx = (q_type nq = DIR_TX)
      in case v3_areas is_tx node of
        None \<Rightarrow> (- EBADFD, nq1, l)
      | Some (hms, hmb, ds, hs, us, ub) \<Rightarrow>
          (case lib_mmap hms hmb l of
             (None, l1) \<Rightarrow> (- EBADFD, nq1, l1)
           | (Some hdr, l1) \<Rightarrow>
               let nq2 = set_maps (\<lambda>m. m\<lparr>qm_hdr := Some hdr\<rparr>) nq1 in
               case (if is_tx then lib_mmap us ub l1 else (None, l1)) of (upd, l2) \<Rightarrow>
                 if is_tx \<and> upd = None then (- EBADFD, nq1, munmap (Some hdr) l2)
                 else
                   let nq3 = set_maps (\<lambda>m. m\<lparr>qm_upd := upd\<rparr>) nq2;
                       excl = q_has_flag NDP_CHANNEL_FLAG_EXCLUSIVE nq
                   in case (if excl then comp_open (map_option cn_offset (qn_ctrl node)) l2 else (None, l2)) of (cmp, l3) \<Rightarrow>
                     if excl \<and> cmp = None
                     then (- ENODEV, nq1, munmap (Some hdr) (if is_tx then munmap upd l3 else l3))
                     else
                       let nq4 = set_maps (\<lambda>m. m\<lparr>qm_comp := cmp\<rparr>) nq3;
                           nq5 = set_priv (v3_masks hms hs ds) nq4
                       in (0, set_burst_ops 3 nq5, l3)))"

definition nc_ndp_v3_close_queue :: "'k ndp_queue \<Rightarrow> lib \<Rightarrow> lib option" where
  "nc_ndp_v3_close_queue nq l =
     (if q_has_flag NDP_CHANNEL_FLAG_EXCLUSIVE nq then comp_close (qm_comp (nq_maps nq)) l else Some l)"

text \<open>The \<open>ioctl\<close> that subscribes: the result, the request and the state of the kernel.\<close>

type_synonym 'k subscribe = "ndp_channel_request \<Rightarrow> 'k \<Rightarrow> int \<times> ndp_channel_request \<times> 'k"

definition getprop :: "'a option \<Rightarrow> 'a \<Rightarrow> 'a" where
  "getprop p x = (case p of None \<Rightarrow> x | Some y \<Rightarrow> y)"

definition open_protocol :: "queue_node \<Rightarrow> 'k ndp_queue \<Rightarrow> lib \<Rightarrow> int \<times> 'k ndp_queue \<times> lib" where
  "open_protocol node nq l =
     (let p = q_protocol (nq_priv nq)
      in if p = 3 then nc_ndp_v3_open_queue node nq l
      else if p = 2 then nc_ndp_v2_open_queue node nq l
      else if p = 1 then (0, nc_ndp_v1_open_queue nq, l)
      else (0, nq, l))"

definition nc_ndp_queue_open_init_ext ::
  "'k subscribe \<Rightarrow> queue_node \<Rightarrow> u32 \<Rightarrow> u32 \<Rightarrow> u32 \<Rightarrow> 'k ndp_queue \<Rightarrow> lib \<Rightarrow> int \<times> 'k ndp_queue \<times> lib" where
  "nc_ndp_queue_open_init_ext subscribe node index dir ndp_flags nq l =
     (let q = nq_priv nq;
          q1 = q\<lparr>q_frame_size_min := getprop (Option.bind (qn_ctrl node) cn_frame_size_min) 0,
                 q_frame_size_max := getprop (Option.bind (qn_ctrl node) cn_frame_size_max) 0,
                 q_size := getprop (qn_size node) (q_size q), q_protocol := getprop (qn_protocol node) (q_protocol q)\<rparr>
      in case props4 (qn_size node) (qn_mmap_size node) (qn_mmap_base node) (qn_protocol node) of
        None \<Rightarrow> (EBADFD, nq\<lparr>nq_priv := q1\<rparr>, l)
      | Some (qsize, mmap_size, mmap_base, protocol) \<Rightarrow>
          if mmap_size = 0 then (ENOMEM, nq\<lparr>nq_priv := q1\<rparr>, l)
          else
            let flags = (if protocol = 2 then ndp_flags OR (NDP_CHANNEL_FLAG_USE_HEADER OR NDP_CHANNEL_FLAG_USE_OFFSET)
                         else ndp_flags);
                req = (q_channel q)\<lparr>req_index := index, req_type := dir, req_flags := flags\<rparr>
            in case subscribe req (q_kern q) of (ret, req1, k) \<Rightarrow>
              let q2 = q1\<lparr>q_flags := flags, q_channel := req1, q_kern := k\<rparr>
              in if ret \<noteq> 0 then (- 1, nq\<lparr>nq_priv := q2\<rparr>, l)
              else (case lib_mmap (qsize * 2) mmap_base l of
                 (None, l1) \<Rightarrow> (0, nq\<lparr>nq_priv := q2\<rparr>, l1)
               | (Some buf, l1) \<Rightarrow>
                   let q3 = q2\<lparr>q_sync := (q_sync q2)\<lparr>sync_id := getprop (req_id req1) 0, sync_swptr := 0, sync_hwptr := 0\<rparr>\<rparr>
                   in case open_protocol node (set_maps (\<lambda>m. m\<lparr>qm_buffer := Some buf\<rparr>) (nq\<lparr>nq_priv := q3\<rparr>)) l1 of
                     (ret, nq1, l2) \<Rightarrow>
                       let nq2 = nq1\<lparr>nq_ops := (nq_ops nq1)\<lparr>ops_control := True\<rparr>\<rparr>
                       in if ret \<noteq> 0 then (ret, nq2, munmap (Some buf) l2) else (0, nq2, l2)))"

definition nc_ndp_queue_open_init ::
  "'k subscribe \<Rightarrow> queue_node \<Rightarrow> u32 \<Rightarrow> u32 \<Rightarrow> 'k ndp_queue \<Rightarrow> lib \<Rightarrow> int \<times> 'k ndp_queue \<times> lib" where
  "nc_ndp_queue_open_init subscribe node index dir nq l = nc_ndp_queue_open_init_ext subscribe node index dir 0 nq l"

definition nc_ndp_queue_close :: "'k ndp_queue \<Rightarrow> lib \<Rightarrow> lib option" where
  "nc_ndp_queue_close nq l =
     map_option (munmap (qm_buffer (nq_maps nq)))
       (if q_protocol (nq_priv nq) = 3 then nc_ndp_v3_close_queue nq l else Some l)"

text \<open>The buffers in the device that a transmitting Calypte queue writes to.\<close>

definition calypte_tx :: "'k ndp_queue \<Rightarrow> bool" where
  "calypte_tx nq \<longleftrightarrow> q_protocol (nq_priv nq) = 3 \<and> q_type nq = DIR_TX"

definition ndp_queue_calypte_open_buffers :: "queue_node \<Rightarrow> 'k ndp_queue \<Rightarrow> lib \<Rightarrow> int \<times> 'k ndp_queue \<times> lib" where
  "ndp_queue_calypte_open_buffers node nq l =
     (if \<not> calypte_tx nq then (0, nq, l)
      else
        let nq1 = set_priv (\<lambda>q. q\<lparr>q_v3 := (q_v3 q)\<lparr>v3_tx_pkts_cnt := 256\<rparr>\<rparr>) nq
        in case qn_ctrl node of
          None \<Rightarrow> (- EBADFD, nq1, l)
        | Some ctrl \<Rightarrow>
            if cn_data_buff ctrl = None then (- EBADFD, nq1, l)
            else (case comp_open (cn_data_buff ctrl) l of
              (None, l1) \<Rightarrow> (- EBADFD, nq1, l1)
            | (Some d, l1) \<Rightarrow> (case comp_open (cn_hdr_buff ctrl) l1 of
                (None, l2) \<Rightarrow> (- EBADFD, nq1, lib_drop (Comp_open d) l2)
              | (Some h, l2) \<Rightarrow> (case lib_take Tx_pkts_mem l2 of (ok, l3) \<Rightarrow>
                  if \<not> ok then (- ENOMEM, nq1, lib_drop (Comp_open d) (lib_drop (Comp_open h) l3))
                  else (0, set_maps (\<lambda>m. m\<lparr>qm_tx_data_buff := Some d, qm_tx_hdr_buff := Some h, qm_tx_pkts := True\<rparr>)
                         (set_priv (\<lambda>q. q\<lparr>q_v3 := (q_v3 q)\<lparr>v3_tx_pkts := replicate 256 0\<rparr>\<rparr>) nq1), l3)))))"

definition ndp_queue_calypte_close_buffers :: "'k ndp_queue \<Rightarrow> lib \<Rightarrow> lib option" where
  "ndp_queue_calypte_close_buffers nq l =
     (if \<not> calypte_tx nq then Some l
      else Option.bind (comp_close (qm_tx_data_buff (nq_maps nq)) l) (\<lambda>l1.
        map_option (\<lambda>l2. if qm_tx_pkts (nq_maps nq) then lib_drop Tx_pkts_mem l2 else l2)
          (comp_close (qm_tx_hdr_buff (nq_maps nq)) l1)))"

definition ndp_queue_create :: "'k \<Rightarrow> ndp_shm \<Rightarrow> int \<Rightarrow> u32 \<Rightarrow> u32 \<Rightarrow> lib \<Rightarrow> 'k ndp_queue option \<times> lib" where
  "ndp_queue_create k shm numa dir index l =
     (case lib_take Queue_mem l of (ok, l1) \<Rightarrow>
        if \<not> ok then (None, l1)
        else (Some \<lparr>nq_id = lib_next l1, nq_priv = zero_queue k shm, nq_maps = no_maps,
                nq_ops = \<lparr>ops_burst = None, ops_control = False\<rparr>, nq_status = NDP_QUEUE_STOPPED,
                nq_numa = numa, nq_dir = dir AND 0xFFFF, nq_index = ucast index\<rparr>,
              l1\<lparr>lib_next := lib_next l1 + 1\<rparr>))"

definition ndp_base_queue_open ::
  "'k subscribe \<Rightarrow> (string \<Rightarrow> queue_node option) \<Rightarrow> 'k \<Rightarrow> ndp_shm \<Rightarrow> u32 \<Rightarrow> u32 \<Rightarrow> u32 \<Rightarrow> lib \<Rightarrow> (int + 'k ndp_queue) \<times> 'k \<times> lib" where
  "ndp_base_queue_open subscribe fdt k shm index dir flags l =
     (let node = node_of (nc_nfb_fdt_queue_offset fdt index dir);
          release = (\<lambda>l. lib_drop Queue_mem (lib_drop Nc_queue_mem l))
      in case ndp_queue_create k shm (getprop (qn_numa node) (- 1)) dir index l of
        (None, l1) \<Rightarrow> (Inl (- ENOMEM), k, l1)
      | (Some nq, l1) \<Rightarrow> (case lib_take Nc_queue_mem l1 of (ok, l2) \<Rightarrow>
          if \<not> ok then (Inl (- ENOMEM), k, lib_drop Queue_mem l2)
          else (case nc_ndp_queue_open_init_ext subscribe node index dir flags nq l2 of (ret, nq1, l3) \<Rightarrow>
            if ret \<noteq> 0 then (Inl ret, q_kern (nq_priv nq1), release l3)
            else (case ndp_queue_calypte_open_buffers node nq1 l3 of (ret, nq2, l4) \<Rightarrow>
              if ret \<noteq> 0 then (Inl ret, q_kern (nq_priv nq2), release l4)
              else (Inr nq2, q_kern (nq_priv nq2), l4)))))"

definition ndp_base_queue_close :: "'k ndp_queue \<Rightarrow> lib \<Rightarrow> lib option" where
  "ndp_base_queue_close nq l =
     map_option (\<lambda>l. lib_drop Queue_mem (lib_drop Nc_queue_mem l))
       (Option.bind (ndp_queue_calypte_close_buffers nq l) (nc_ndp_queue_close nq))"

section \<open>The queues of a device\<close>

definition nfb_queue_add :: "'k ndp_queue \<Rightarrow> lib \<Rightarrow> int \<times> lib" where
  "nfb_queue_add nq l =
     (case lib_ask l of (ok, l1) \<Rightarrow>
        if \<not> ok then (ENOMEM, l1) else (0, l1\<lparr>lib_queues := lib_queues l1 @ [Some (nq_id nq)]\<rparr>))"

text \<open>The search runs past the end of the array when the queue is not in it.\<close>

fun queue_slot_clear :: "nat \<Rightarrow> nat option list \<Rightarrow> nat option list option" where
  "queue_slot_clear i [] = None"
| "queue_slot_clear i (x # xs) = (if x = Some i then Some (None # xs) else map_option (Cons x) (queue_slot_clear i xs))"

definition nfb_queue_remove :: "'k ndp_queue \<Rightarrow> lib \<Rightarrow> lib option" where
  "nfb_queue_remove nq l = map_option (\<lambda>xs. l\<lparr>lib_queues := xs\<rparr>) (queue_slot_clear (nq_id nq) (lib_queues l))"

text \<open>The table must have the control functions and the bursts; transmission needs a flush, which only its own table has.\<close>

definition ops_valid :: "'k ndp_queue \<Rightarrow> bool" where
  "ops_valid nq \<longleftrightarrow> ops_control (nq_ops nq) \<and>
     (case ops_burst (nq_ops nq) of None \<Rightarrow> False | Some (Rx_ops p) \<Rightarrow> nq_dir nq = DIR_RX | Some (Tx_ops p) \<Rightarrow> True)"

definition ndp_open_queue ::
  "'k subscribe \<Rightarrow> (string \<Rightarrow> queue_node option) \<Rightarrow> 'k \<Rightarrow> ndp_shm \<Rightarrow> u32 \<Rightarrow> u32 \<Rightarrow> u32 \<Rightarrow> lib \<Rightarrow>
   ((int + 'k ndp_queue) \<times> 'k \<times> lib) option" where
  "ndp_open_queue subscribe fdt k shm index dir in_flags l =
     (let flags = (if in_flags AND 2 \<noteq> 0 then NDP_CHANNEL_FLAG_EXCLUSIVE OR NDP_CHANNEL_FLAG_USERSPACE else 0)
      in if \<not> lib_dev_ops l then Some (Inl (- ENXIO), k, l)
      else case ndp_base_queue_open subscribe fdt k shm index dir flags l of
        (Inl ret, k1, l1) \<Rightarrow> Some (Inl ret, k1, l1)
      | (Inr nq, k1, l1) \<Rightarrow>
          if \<not> ops_valid nq then map_option (\<lambda>l2. (Inl (- EINVAL), k1, l2)) (ndp_base_queue_close nq l1)
          else (case nfb_queue_add nq l1 of (ret, l2) \<Rightarrow>
            if ret \<noteq> 0 then map_option (\<lambda>l3. (Inl ret, k1, l3)) (ndp_base_queue_close nq l2)
            else Some (Inr nq, k1, l2)))"


section \<open>Starting, stopping and closing\<close>

text \<open>\<open>mdp\<close> and \<open>mhp\<close> are the mask registers of the controller.\<close>

definition nc_ndp_queue_start :: "'k ndp_sys \<Rightarrow> u32 \<Rightarrow> u32 \<Rightarrow> 'k nc_ndp_queue \<Rightarrow> int \<times> 'k nc_ndp_queue" where
  "nc_ndp_queue_start sys mdp mhp q =
     (case ndp_queue_start_sub sys (q\<lparr>q_sync := (q_sync q)\<lparr>sync_flags := 0\<rparr>\<rparr>) of (ret, q1) \<Rightarrow>
        if ret \<noteq> 0 then (ret, q1)
        else
          let hw = sync_hwptr (q_sync q1);
              q2 = (if req_type (q_channel q1) = DIR_RX \<and> q_flags q1 AND NDP_CHANNEL_FLAG_EXCLUSIVE = 0
                    then (if q_protocol q1 = 2 then q1\<lparr>q_v2 := (q_v2 q1)\<lparr>v2_rhp := ucast hw\<rparr>\<rparr>
                          else if q_protocol q1 = 3 then q1\<lparr>q_v3 := (q_v3 q1)\<lparr>v3_shp := ucast hw\<rparr>\<rparr> else q1)
                    else q1)
          in (0, if q_protocol q2 = 3 \<and> v3_uspace q2
                 then q2\<lparr>q_v3 := (q_v3 q2)\<lparr>v3_uspace_mdp := mdp, v3_uspace_mhp := mhp,
                        v3_uspace_free := mdp + 1 - NDP_TX_CALYPTE_BLOCK\<rparr>\<rparr>
                 else q2))"

definition nc_ndp_queue_stop :: "'k ndp_sys \<Rightarrow> 'k nc_ndp_queue \<Rightarrow> (int \<times> 'k nc_ndp_queue) option" where
  "nc_ndp_queue_stop sys q =
     map_option (\<lambda>(ret, q1). if ret \<noteq> 0 then (ret, q1)
        else (0, if q_protocol q1 = 1 then q1\<lparr>q_v1 := (q_v1 q1)\<lparr>v1_bytes := 0\<rparr>\<rparr> else q1)) (ndp_queue_stop_sub sys q)"

definition ndp_queue_start :: "'k ndp_sys \<Rightarrow> u32 \<Rightarrow> u32 \<Rightarrow> 'k ndp_queue \<Rightarrow> int \<times> 'k ndp_queue" where
  "ndp_queue_start sys mdp mhp nq =
     (if nq_status nq = NDP_QUEUE_RUNNING then (EALREADY, nq)
      else case nc_ndp_queue_start sys mdp mhp (nq_priv nq) of (ret, q1) \<Rightarrow>
        if ret \<noteq> 0 then (ret, nq\<lparr>nq_priv := q1\<rparr>)
        else (0, nq\<lparr>nq_priv := q1, nq_status := NDP_QUEUE_RUNNING\<rparr>))"

section \<open>Bursts through the table of operations\<close>

text \<open>The three protocols with one type of result.\<close>

definition burst_of :: "u32 \<times> ndp_packet list \<times> 'k nc_ndp_queue \<Rightarrow> 'k burst" where
  "burst_of r = (case r of (n, ps, q) \<Rightarrow> Burst n ps q)"

definition rx_get_fn :: "u32 \<Rightarrow> 'k ndp_sys \<Rightarrow> u32 \<Rightarrow> 'k nc_ndp_queue \<Rightarrow> 'k burst option" where
  "rx_get_fn p sys cnt q =
     (if p = 3 then map_option burst_of (nc_ndp_v3_rx_burst_get sys cnt q)
      else if p = 2 then Some (burst_of (nc_ndp_v2_rx_burst_get sys cnt q))
      else if p = 1 then Some (nc_ndp_v1_rx_burst_get sys cnt q)
      else Some (Burst 0 [] q))"

definition rx_put_fn :: "u32 \<Rightarrow> 'k ndp_sys \<Rightarrow> 'k nc_ndp_queue \<Rightarrow> (int \<times> 'k nc_ndp_queue) option" where
  "rx_put_fn p sys q =
     (if p = 3 then nc_ndp_v3_rx_burst_put sys q
      else if p = 2 then Some (nc_ndp_v2_rx_burst_put sys q)
      else if p = 1 then Some (nc_ndp_v1_rx_burst_put sys q)
      else Some (0, q))"

definition tx_get_fn :: "u32 \<Rightarrow> 'k ndp_sys \<Rightarrow> ndp_packet list \<Rightarrow> 'k nc_ndp_queue \<Rightarrow> 'k burst" where
  "tx_get_fn p sys packets q =
     (if p = 3 then burst_of (nc_ndp_v3_tx_burst_get sys packets q)
      else if p = 2 then burst_of (nc_ndp_v2_tx_burst_get sys packets q)
      else if p = 1 then nc_ndp_v1_tx_burst_get sys packets q
      else Burst 0 packets q)"

definition tx_put_fn :: "u32 \<Rightarrow> 'k ndp_sys \<Rightarrow> 'k nc_ndp_queue \<Rightarrow> (int \<times> 'k nc_ndp_queue) option" where
  "tx_put_fn p sys q =
     (if p = 3 then nc_ndp_v3_tx_burst_put sys q
      else if p = 2 then Some (nc_ndp_v2_tx_burst_put sys q)
      else if p = 1 then Some (nc_ndp_v1_tx_burst_put sys q)
      else Some (0, q))"

definition tx_flush_fn :: "u32 \<Rightarrow> 'k ndp_sys \<Rightarrow> 'k nc_ndp_queue \<Rightarrow> (int \<times> 'k nc_ndp_queue) option" where
  "tx_flush_fn p sys q =
     (if p = 3 then nc_ndp_v3_tx_burst_flush sys q
      else if p = 2 then Some (nc_ndp_v2_tx_burst_flush sys q)
      else if p = 1 then Some (nc_ndp_v1_tx_burst_flush sys q)
      else Some (0, q))"

text \<open>The dispatch on the protocol in the headers for the kernel.\<close>

definition nc_ndp_rx_burst_get :: "'k ndp_sys \<Rightarrow> u32 \<Rightarrow> 'k nc_ndp_queue \<Rightarrow> 'k burst option" where
  "nc_ndp_rx_burst_get sys cnt q = rx_get_fn (q_protocol q) sys cnt q"

definition nc_ndp_rx_burst_put :: "'k ndp_sys \<Rightarrow> 'k nc_ndp_queue \<Rightarrow> 'k nc_ndp_queue option" where
  "nc_ndp_rx_burst_put sys q =
     (if q_protocol q = 3 then map_option snd (nc_ndp_v3_rx_unlock sys q)
      else if q_protocol q = 2 then Some (snd (nc_ndp_v2_rx_unlock sys q))
      else if q_protocol q = 1 then Some (snd (nc_ndp_v1_rx_burst_put sys q))
      else Some q)"

definition nc_ndp_tx_burst_get :: "'k ndp_sys \<Rightarrow> ndp_packet list \<Rightarrow> 'k nc_ndp_queue \<Rightarrow> 'k burst" where
  "nc_ndp_tx_burst_get sys packets q = tx_get_fn (q_protocol q) sys packets q"

definition nc_ndp_tx_burst_put :: "'k ndp_sys \<Rightarrow> 'k nc_ndp_queue \<Rightarrow> 'k nc_ndp_queue option" where
  "nc_ndp_tx_burst_put sys q = map_option snd (tx_put_fn (q_protocol q) sys q)"

definition nc_ndp_tx_burst_flush :: "'k ndp_sys \<Rightarrow> 'k nc_ndp_queue \<Rightarrow> 'k nc_ndp_queue option" where
  "nc_ndp_tx_burst_flush sys q = map_option snd (tx_flush_fn (q_protocol q) sys q)"

text \<open>The dispatch through the table; a null pointer in it crashes.\<close>

definition ndp_rx_burst_get :: "'k ndp_sys \<Rightarrow> u32 \<Rightarrow> 'k ndp_queue \<Rightarrow> 'k burst option" where
  "ndp_rx_burst_get sys cnt nq =
     (case ops_burst (nq_ops nq) of Some (Rx_ops p) \<Rightarrow> rx_get_fn p sys cnt (nq_priv nq) | _ \<Rightarrow> None)"

definition ndp_rx_burst_put :: "'k ndp_sys \<Rightarrow> 'k ndp_queue \<Rightarrow> 'k ndp_queue option" where
  "ndp_rx_burst_put sys nq =
     (case ops_burst (nq_ops nq) of
        Some (Rx_ops p) \<Rightarrow> map_option (\<lambda>(_, q). nq\<lparr>nq_priv := q\<rparr>) (rx_put_fn p sys (nq_priv nq)) | _ \<Rightarrow> None)"

definition ndp_tx_burst_get :: "'k ndp_sys \<Rightarrow> ndp_packet list \<Rightarrow> 'k ndp_queue \<Rightarrow> 'k burst option" where
  "ndp_tx_burst_get sys packets nq =
     (case ops_burst (nq_ops nq) of Some (Tx_ops p) \<Rightarrow> Some (tx_get_fn p sys packets (nq_priv nq)) | _ \<Rightarrow> None)"

definition ndp_tx_burst_put :: "'k ndp_sys \<Rightarrow> 'k ndp_queue \<Rightarrow> 'k ndp_queue option" where
  "ndp_tx_burst_put sys nq =
     (case ops_burst (nq_ops nq) of
        Some (Tx_ops p) \<Rightarrow> map_option (\<lambda>(_, q). nq\<lparr>nq_priv := q\<rparr>) (tx_put_fn p sys (nq_priv nq)) | _ \<Rightarrow> None)"

definition ndp_tx_burst_flush :: "'k ndp_sys \<Rightarrow> 'k ndp_queue \<Rightarrow> 'k ndp_queue option" where
  "ndp_tx_burst_flush sys nq =
     (case ops_burst (nq_ops nq) of
        Some (Tx_ops p) \<Rightarrow> map_option (\<lambda>(_, q). nq\<lparr>nq_priv := q\<rparr>) (tx_flush_fn p sys (nq_priv nq)) | _ \<Rightarrow> None)"

definition ndp_queue_stop :: "'k ndp_sys \<Rightarrow> 'k ndp_queue \<Rightarrow> (int \<times> 'k ndp_queue) option" where
  "ndp_queue_stop sys nq =
     (if nq_status nq = NDP_QUEUE_STOPPED then Some (EALREADY, nq)
      else Option.bind (if nq_dir nq = DIR_TX then ndp_tx_burst_flush sys nq else Some nq) (\<lambda>nq1.
        map_option (\<lambda>(ret, q1).
            if ret \<noteq> 0 then (ret, nq1\<lparr>nq_priv := q1\<rparr>)
            else (0, nq1\<lparr>nq_priv := q1, nq_status := NDP_QUEUE_STOPPED\<rparr>))
          (nc_ndp_queue_stop sys (nq_priv nq1))))"

definition ndp_close_queue :: "'k ndp_sys \<Rightarrow> 'k ndp_queue \<Rightarrow> lib \<Rightarrow> ('k \<times> lib) option" where
  "ndp_close_queue sys nq l =
     Option.bind (ndp_queue_stop sys nq) (\<lambda>(_, nq1).
       Option.bind (nfb_queue_remove nq1 l) (\<lambda>l1.
         map_option (\<lambda>l2. (q_kern (nq_priv nq1), l2)) (ndp_base_queue_close nq1 l1)))"

section \<open>Copying bursts\<close>

fun buf_write :: "u64 \<Rightarrow> u8 list \<Rightarrow> 'k nc_ndp_queue \<Rightarrow> 'k nc_ndp_queue" where
  "buf_write a [] q = q"
| "buf_write a (x # xs) q = buf_write (a + 1) xs (buf_store a x q)"

fun copy_packets :: "ndp_packet list \<Rightarrow> u8 list list \<Rightarrow> 'k nc_ndp_queue \<Rightarrow> 'k nc_ndp_queue" where
  "copy_packets (p # ps) (d # ds) q = copy_packets ps ds (buf_write (pkt_data p) d q)"
| "copy_packets _ _ q = q"

text \<open>\<open>n\<close> attempts are left; \<open>ours\<close> and \<open>data\<close> are the packets not sent yet.\<close>

primrec burst_copy_loop ::
  "'k ndp_sys \<Rightarrow> nat \<Rightarrow> ndp_packet list \<Rightarrow> u8 list list \<Rightarrow> u32 \<Rightarrow> 'k ndp_queue \<Rightarrow> (u32 \<times> 'k ndp_queue) option" where
  "burst_copy_loop sys 0 ours data sent nq = Some (sent, nq)"
| "burst_copy_loop sys (Suc n) ours data sent nq =
     (if ours = [] then Some (sent, nq)
      else case ndp_tx_burst_get sys ours nq of
        Some (Burst m ps q1) \<Rightarrow>
          Option.bind (ndp_tx_burst_put sys (nq\<lparr>nq_priv := copy_packets (take (unat m) ps) data q1\<rparr>)) (\<lambda>nq1.
            burst_copy_loop sys n (drop (unat m) ps) (drop (unat m) data) (sent + m) nq1)
      | _ \<Rightarrow> None)"

text \<open>
  The array of the library comes from \<open>malloc\<close>; \<open>junk\<close> is what the flags of its packets happen to hold.
  \<open>ok\<close> says whether the memory is there.
\<close>

definition ndp_tx_burst_copy ::
  "'k ndp_sys \<Rightarrow> bool \<Rightarrow> (nat \<Rightarrow> u16) \<Rightarrow> u8 list list \<Rightarrow> 'k ndp_queue \<Rightarrow> (u32 \<times> 'k ndp_queue) option" where
  "ndp_tx_burst_copy sys ok junk data nq =
     (if \<not> ok then Some (0, nq)
      else burst_copy_loop sys 1000
        (map (\<lambda>i. \<lparr>pkt_data = 0, pkt_header = 0, pkt_data_length = of_nat (length (data ! i)), pkt_header_length = 0,
                   pkt_flags = junk i\<rparr>) [0 ..< length data]) data 0 nq)"

end
