(* ===== verification/QueueLife.thy ===== *)
theory QueueLife
  imports QueueOpen
begin

text \<open>
  What opening and closing a queue of \<open>libnfb\<close> does: an opened queue is complete and holds exactly its
  resources, whichever of the calls on the way fail; its table of operations agrees with its protocol; its
  requests reach the subscription that the driver made for it, as the receiving bursts need it; and closing it
  leaves exactly the mappings of its headers behind.
  What opening relies on of the driver is the locale \<open>queue_subscribe\<close>.
\<close>

section \<open>Resources of a queue\<close>

definition map_res :: "mapping \<Rightarrow> lib_res multiset" where
  "map_res m = (case m of None \<Rightarrow> {#} | Some (off, sz) \<Rightarrow> {#Mapping_of off sz#})"

definition comp_res :: "int option \<Rightarrow> lib_res multiset" where
  "comp_res c = (case c of None \<Rightarrow> {#} | Some n \<Rightarrow> {#Comp_open n#})"

lemma res_simps [simp]:
  "map_res None = {#}" "map_res (Some (off, sz)) = {#Mapping_of off sz#}" "comp_res None = {#}" "comp_res (Some n) = {#Comp_open n#}"
  by (simp_all add: map_res_def comp_res_def)

lemma map_res_empty: "map_res m = {#} \<longleftrightarrow> m = None"
  by (cases m) auto

text \<open>The mappings of headers, offsets and the update buffer, and everything a queue holds.\<close>

definition header_res :: "queue_maps \<Rightarrow> lib_res multiset" where
  "header_res m = map_res (qm_hdr m) + map_res (qm_off m) + map_res (qm_upd m)"

definition tx_res :: "queue_maps \<Rightarrow> lib_res multiset" where
  "tx_res m = comp_res (qm_tx_data_buff m) + comp_res (qm_tx_hdr_buff m) + (if qm_tx_pkts m then {#Tx_pkts_mem#} else {#})"

definition maps_res :: "queue_maps \<Rightarrow> lib_res multiset" where
  "maps_res m = map_res (qm_buffer m) + header_res m + comp_res (qm_comp m) + tx_res m"

definition queue_res :: "'k ndp_queue \<Rightarrow> lib_res multiset" where
  "queue_res nq = {#Queue_mem, Nc_queue_mem#} + maps_res (nq_maps nq)"

text \<open>Two states of the process that differ in what is held and in the answers left.\<close>

definition same_lib :: "lib \<Rightarrow> lib \<Rightarrow> bool" where
  "same_lib l l' \<longleftrightarrow> lib_queues l' = lib_queues l \<and> lib_next l' = lib_next l \<and> lib_dev_ops l' = lib_dev_ops l"

lemma same_lib_refl [simp]: "same_lib l l" and same_lib_trans: "same_lib l l' \<Longrightarrow> same_lib l' l'' \<Longrightarrow> same_lib l l''"
  by (simp_all add: same_lib_def)

lemma ask_result: "lib_ask l = (ok, l1) \<Longrightarrow> lib_live l1 = lib_live l \<and> same_lib l l1"
  by (auto simp: lib_ask_def same_lib_def split: list.splits)

lemma take_result:
  assumes "lib_take r l = (ok, l1)"
  shows "lib_live l1 = (if ok then add_mset r (lib_live l) else lib_live l) \<and> same_lib l l1"
proof -
  obtain a l2 where a: "lib_ask l = (a, l2)" by fastforce
  from ask_result [OF a] assms show ?thesis by (auto simp: lib_take_def a same_lib_def)
qed

lemma mmap_result:
  assumes "lib_mmap sz off l = (m, l1)"
  shows "lib_live l1 = lib_live l + map_res m \<and> same_lib l l1"
proof -
  obtain a l2 where a: "lib_take (Mapping_of off sz) l = (a, l2)" by fastforce
  from take_result [OF a] assms show ?thesis by (auto simp: lib_mmap_def a)
qed

lemma comp_open_result:
  assumes "comp_open n l = (c, l1)"
  shows "lib_live l1 = lib_live l + comp_res c \<and> same_lib l l1"
proof (cases n)
  case (Some x)
  obtain a l2 where a: "lib_take (Comp_open x) l = (a, l2)" by fastforce
  from take_result [OF a] assms show ?thesis by (auto simp: comp_open_def a Some)
qed (use assms in \<open>simp add: comp_open_def\<close>)

lemma drop_live [simp]: "lib_live (lib_drop r l) = lib_live l - {#r#}" and same_drop [simp]: "same_lib l (lib_drop r l)"
  by (simp_all add: lib_drop_def same_lib_def)

lemma munmap_live [simp]: "lib_live (munmap m l) = lib_live l - map_res m" and same_munmap [simp]: "same_lib l (munmap m l)"
  by (auto simp: munmap_def split: option.splits)

lemma comp_close_live: "comp_close c l = Some l1 \<Longrightarrow> lib_live l1 = lib_live l - comp_res c \<and> same_lib l l1"
  by (auto simp: comp_close_def)

lemma comp_close_some: "c \<noteq> None \<Longrightarrow> \<exists>l1. comp_close c l = Some l1"
  by (auto simp: comp_close_def)

section \<open>Frames of opening\<close>

text \<open>What the functions for the protocols keep of a queue.\<close>

definition same_queue :: "'k ndp_queue \<Rightarrow> 'k ndp_queue \<Rightarrow> bool" where
  "same_queue nq nq' \<longleftrightarrow> nq_id nq' = nq_id nq \<and> nq_status nq' = nq_status nq \<and> nq_dir nq' = nq_dir nq \<and>
     ops_control (nq_ops nq') = ops_control (nq_ops nq) \<and> q_protocol (nq_priv nq') = q_protocol (nq_priv nq) \<and>
     q_channel (nq_priv nq') = q_channel (nq_priv nq) \<and> q_flags (nq_priv nq') = q_flags (nq_priv nq) \<and>
     q_sync (nq_priv nq') = q_sync (nq_priv nq) \<and> q_kern (nq_priv nq') = q_kern (nq_priv nq) \<and>
     q_size (nq_priv nq') = q_size (nq_priv nq)"

definition own_ops :: "'k ndp_queue \<Rightarrow> burst_ops" where
  "own_ops nq = (if q_type nq = DIR_RX then Rx_ops (q_protocol (nq_priv nq)) else Tx_ops (q_protocol (nq_priv nq)))"

lemma same_queue_simps:
  "same_queue nq nq' \<Longrightarrow> q_type nq' = q_type nq" "same_queue nq nq' \<Longrightarrow> q_has_flag f nq' = q_has_flag f nq"
  "same_queue nq nq' \<Longrightarrow> own_ops nq' = own_ops nq" "same_queue nq nq' \<Longrightarrow> calypte_tx nq' = calypte_tx nq"
  by (simp_all add: same_queue_def q_type_def q_has_flag_def own_ops_def calypte_tx_def)

lemmas set_defs = set_priv_def set_maps_def set_burst_ops_def same_queue_def q_type_def q_has_flag_def

text \<open>The mappings that a queue of a protocol needs beside its buffer.\<close>

definition headers_mapped :: "'k ndp_queue \<Rightarrow> bool" where
  "headers_mapped nq \<longleftrightarrow>
     (let p = q_protocol (nq_priv nq); m = nq_maps nq
      in (qm_hdr m \<noteq> None \<longleftrightarrow> p \<in> {2, 3}) \<and> (qm_off m \<noteq> None \<longleftrightarrow> p = 2) \<and> (qm_upd m \<noteq> None \<longleftrightarrow> p = 3 \<and> q_type nq = DIR_TX) \<and>
         (qm_comp m \<noteq> None \<longleftrightarrow> p = 3 \<and> q_has_flag NDP_CHANNEL_FLAG_EXCLUSIVE nq))"

text \<open>How the opening for a protocol may end: with its table filled in and its mappings, or with neither.\<close>

definition opened :: "'k ndp_queue \<Rightarrow> lib \<Rightarrow> int \<times> 'k ndp_queue \<times> lib \<Rightarrow> bool" where
  "opened nq l res \<longleftrightarrow>
     (case res of (ret, nq', l') \<Rightarrow>
        same_queue nq nq' \<and> same_lib l l' \<and>
        nq_maps nq' = (nq_maps nq)\<lparr>qm_hdr := qm_hdr (nq_maps nq'), qm_off := qm_off (nq_maps nq'),
          qm_upd := qm_upd (nq_maps nq'), qm_comp := qm_comp (nq_maps nq')\<rparr> \<and>
        lib_live l' = lib_live l + header_res (nq_maps nq') + comp_res (qm_comp (nq_maps nq')) \<and>
        (if ops_burst (nq_ops nq') = None
         then header_res (nq_maps nq') = {#} \<and> qm_comp (nq_maps nq') = None \<and> (ret = 0 \<longrightarrow> q_protocol (nq_priv nq) \<noteq> 3)
         else ret = 0 \<and> ops_burst (nq_ops nq') = Some (own_ops nq) \<and> headers_mapped nq' \<and>
           q_protocol (nq_priv nq) \<in> {1, 2, 3}))"

text \<open>A queue as the opening of its protocol finds it.\<close>

definition bare_maps :: "'k ndp_queue \<Rightarrow> bool" where
  "bare_maps nq \<longleftrightarrow> qm_hdr (nq_maps nq) = None \<and> qm_off (nq_maps nq) = None \<and> qm_upd (nq_maps nq) = None \<and>
     qm_comp (nq_maps nq) = None \<and> ops_burst (nq_ops nq) = None"

lemma v1_open_opened:
  assumes "bare_maps nq" and "q_protocol (nq_priv nq) = 1"
  shows "opened nq l (0, nc_ndp_v1_open_queue nq, l)"
  using assms by (simp add: opened_def nc_ndp_v1_open_queue_def set_defs bare_maps_def header_res_def own_ops_def headers_mapped_def Let_def)

lemma v2_open_opened:
  assumes b: "bare_maps nq" and p: "q_protocol (nq_priv nq) = 2"
  shows "opened nq l (nc_ndp_v2_open_queue node nq l)"
proof (cases "props4 (qn_hdr_mmap_size node) (qn_off_mmap_size node) (qn_hdr_mmap_base node) (qn_off_mmap_base node)")
  case None
  then show ?thesis
    using b p by (simp add: opened_def nc_ndp_v2_open_queue_def set_defs bare_maps_def header_res_def Let_def)
next
  case (Some areas)
  then obtain hs os hb ob where n: "props4 (qn_hdr_mmap_size node) (qn_off_mmap_size node) (qn_hdr_mmap_base node)
      (qn_off_mmap_base node) = Some (hs, os, hb, ob)" by (cases areas) auto
  obtain hdr l1 where h: "lib_mmap hs hb l = (hdr, l1)" by fastforce
  obtain off l2 where f: "lib_mmap os ob l1 = (off, l2)" by fastforce
  have s: "same_lib l l1" "same_lib l l2" "same_lib l (munmap hdr l2)"
    using mmap_result [OF h] mmap_result [OF f] same_lib_trans same_munmap by blast+
  have v: "lib_live l1 = lib_live l + map_res hdr" "lib_live l2 = lib_live l + map_res hdr + map_res off"
    using mmap_result [OF h] mmap_result [OF f] by simp_all
  show ?thesis
  proof (cases hdr)
    case None
    with b p s v show ?thesis
      by (simp add: opened_def nc_ndp_v2_open_queue_def n h set_defs bare_maps_def header_res_def Let_def)
  next
    case (Some hdr')
    with b p s v show ?thesis
      by (cases off) (simp_all add: opened_def nc_ndp_v2_open_queue_def n h f set_defs bare_maps_def header_res_def own_ops_def
          headers_mapped_def Let_def)
  qed
qed

lemma v3_open_opened:
  assumes b: "bare_maps nq" and p: "q_protocol (nq_priv nq) = 3"
  shows "opened nq l (nc_ndp_v3_open_queue node nq l)"
proof (cases "v3_areas (q_type nq = DIR_TX) node")
  case None
  then show ?thesis
    using b p by (simp add: opened_def nc_ndp_v3_open_queue_def set_defs v3_reset_def bare_maps_def header_res_def Let_def)
next
  case (Some areas)
  then obtain hms hmb ds hs us ub where n: "v3_areas (q_type nq = DIR_TX) node = Some (hms, hmb, ds, hs, us, ub)"
    by (cases areas) auto
  let ?tx = "q_type nq = DIR_TX" and ?excl = "q_has_flag NDP_CHANNEL_FLAG_EXCLUSIVE nq"
  obtain hdr l1 where h: "lib_mmap hms hmb l = (hdr, l1)" by fastforce
  obtain upd l2 where u: "(if ?tx then lib_mmap us ub l1 else (None, l1)) = (upd, l2)" by fastforce
  obtain cmp l3 where c: "(if ?excl then comp_open (map_option cn_offset (qn_ctrl node)) l2 else (None, l2)) = (cmp, l3)" by fastforce
  have r2: "lib_live l2 = lib_live l1 + map_res upd \<and> same_lib l1 l2" using u mmap_result [of us ub l1 upd l2] by (auto split: if_splits)
  have r3: "lib_live l3 = lib_live l2 + comp_res cmp \<and> same_lib l2 l3"
    using c comp_open_result [of "map_option cn_offset (qn_ctrl node)" l2 cmp l3] by (auto split: if_splits)
  have s: "same_lib l l1" "same_lib l l2" "same_lib l l3"
    using mmap_result [OF h] r2 r3 same_lib_trans by blast+
  have s': "same_lib l (munmap m l2)" "same_lib l (munmap m l3)" "same_lib l (munmap m (munmap m' l3))" for m m'
    using s same_lib_trans same_munmap by blast+
  have v: "lib_live l1 = lib_live l + map_res hdr" "lib_live l2 = lib_live l + map_res hdr + map_res upd"
    "lib_live l3 = lib_live l + map_res hdr + map_res upd + comp_res cmp"
    using mmap_result [OF h] r2 r3 by simp_all
  have rx: "\<not> ?tx \<Longrightarrow> upd = None" "\<not> ?excl \<Longrightarrow> cmp = None" using u c by (auto split: if_splits)
  consider "hdr = None" | "hdr \<noteq> None" "?tx" "upd = None" | "hdr \<noteq> None" "\<not> (?tx \<and> upd = None)" "?excl" "cmp = None"
    | "hdr \<noteq> None" "\<not> (?tx \<and> upd = None)" "\<not> (?excl \<and> cmp = None)" by blast
  then show ?thesis
  proof cases
    case 1
    then have "nc_ndp_v3_open_queue node nq l = (- EBADFD, set_priv v3_reset nq, l1)"
      by (simp add: nc_ndp_v3_open_queue_def n h Let_def)
    with 1 b p s v show ?thesis by (simp add: opened_def set_defs v3_reset_def bare_maps_def header_res_def)
  next
    case 2
    then have "nc_ndp_v3_open_queue node nq l = (- EBADFD, set_priv v3_reset nq, munmap hdr l2)"
      using u n by (auto simp: nc_ndp_v3_open_queue_def h Let_def)
    with 2 b p s' v show ?thesis by (simp add: opened_def set_defs v3_reset_def bare_maps_def header_res_def)
  next
    case 3
    then have "nc_ndp_v3_open_queue node nq l = (- ENODEV, set_priv v3_reset nq, munmap hdr (if ?tx then munmap upd l3 else l3))"
      using u c n by (auto simp: nc_ndp_v3_open_queue_def h Let_def)
    with 3 b p s' v rx show ?thesis by (simp add: opened_def set_defs v3_reset_def bare_maps_def header_res_def)
  next
    case 4
    define nq' where "nq' = set_priv (v3_masks hms hs ds) (set_maps (\<lambda>m. m\<lparr>qm_comp := cmp\<rparr>)
      (set_maps (\<lambda>m. m\<lparr>qm_upd := upd\<rparr>) (set_maps (\<lambda>m. m\<lparr>qm_hdr := hdr\<rparr>) (set_priv v3_reset nq))))"
    have o: "nc_ndp_v3_open_queue node nq l = (0, set_burst_ops 3 nq', l3)" "same_queue nq nq'"
      "nq_maps nq' = (nq_maps nq)\<lparr>qm_hdr := hdr, qm_upd := upd, qm_comp := cmp\<rparr>"
      using u c n 4 by (auto simp: nc_ndp_v3_open_queue_def h Let_def nq'_def)
        (simp_all add: set_defs v3_reset_def v3_masks_def)
    let ?nq = "set_burst_ops 3 nq'"
    have q: "same_queue nq ?nq" "nq_maps ?nq = nq_maps nq'" "ops_burst (nq_ops ?nq) = Some (own_ops nq)"
      using o(2) p by (simp_all add: set_defs own_ops_def)
    have m: "headers_mapped ?nq"
      using 4 p b rx same_queue_simps(1,2) [OF q(1)] q(1) by (auto simp: headers_mapped_def q(2) o(3) same_queue_def bare_maps_def)
    have w: "lib_live l3 = lib_live l + header_res (nq_maps ?nq) + comp_res (qm_comp (nq_maps ?nq))"
      "nq_maps ?nq = (nq_maps nq)\<lparr>qm_hdr := qm_hdr (nq_maps ?nq), qm_off := qm_off (nq_maps ?nq),
          qm_upd := qm_upd (nq_maps ?nq), qm_comp := qm_comp (nq_maps ?nq)\<rparr>"
      using b by (simp_all add: q(2) o(3) v header_res_def bare_maps_def)
    show ?thesis unfolding opened_def o(1) prod.case using q(1,3) s(3) w m p by simp
  qed
qed

lemma open_protocol_opened:
  assumes "bare_maps nq"
  shows "opened nq l (open_protocol node nq l)"
proof -
  consider "q_protocol (nq_priv nq) = 3" | "q_protocol (nq_priv nq) = 2" | "q_protocol (nq_priv nq) = 1"
    | "q_protocol (nq_priv nq) \<notin> {1, 2, 3}" by auto
  then show ?thesis
  proof cases
    case 4
    with assms show ?thesis by (simp add: opened_def open_protocol_def bare_maps_def same_queue_def header_res_def)
  qed (simp_all add: open_protocol_def v1_open_opened v2_open_opened v3_open_opened assms)
qed

section \<open>The whole way\<close>

text \<open>A queue that has just been allocated.\<close>

definition new_queue :: "'k \<Rightarrow> u32 \<Rightarrow> 'k ndp_queue \<Rightarrow> bool" where
  "new_queue k dir nq \<longleftrightarrow> nq_maps nq = no_maps \<and> nq_ops nq = \<lparr>ops_burst = None, ops_control = False\<rparr> \<and>
     nq_status nq = NDP_QUEUE_STOPPED \<and> nq_dir nq = dir AND 0xFFFF \<and> q_kern (nq_priv nq) = k"

lemma create_result:
  assumes "ndp_queue_create k shm numa dir index l = (Some nq, l1)"
  shows "new_queue k dir nq \<and> lib_live l1 = add_mset Queue_mem (lib_live l) \<and> lib_queues l1 = lib_queues l \<and>
    nq_id nq = lib_next l"
proof -
  obtain ok l2 where a: "lib_take Queue_mem l = (ok, l2)" by fastforce
  with take_result [OF a] assms show ?thesis
    by (auto simp: ndp_queue_create_def new_queue_def zero_queue_def same_lib_def split: if_splits)
qed

definition no_tx :: "queue_maps \<Rightarrow> bool" where
  "no_tx m \<longleftrightarrow> qm_tx_data_buff m = None \<and> qm_tx_hdr_buff m = None \<and> \<not> qm_tx_pkts m"

definition tx_open :: "queue_maps \<Rightarrow> bool" where
  "tx_open m \<longleftrightarrow> qm_tx_data_buff m \<noteq> None \<and> qm_tx_hdr_buff m \<noteq> None \<and> qm_tx_pkts m"

lemma calypte_open_result:
  assumes "ndp_queue_calypte_open_buffers node nq l = (0, nq', l')" and t: "no_tx (nq_maps nq)"
  shows "same_queue nq nq' \<and> same_lib l l' \<and> nq_ops nq' = nq_ops nq \<and>
    nq_maps nq' = (nq_maps nq)\<lparr>qm_tx_data_buff := qm_tx_data_buff (nq_maps nq'),
      qm_tx_hdr_buff := qm_tx_hdr_buff (nq_maps nq'), qm_tx_pkts := qm_tx_pkts (nq_maps nq')\<rparr> \<and>
    lib_live l' = lib_live l + tx_res (nq_maps nq') \<and> (if calypte_tx nq then tx_open (nq_maps nq') else nq' = nq)"
proof (cases "calypte_tx nq")
  case False
  with assms show ?thesis by (auto simp: ndp_queue_calypte_open_buffers_def same_queue_def tx_res_def no_tx_def)
next
  case True
  then obtain ctrl where ctrl: "qn_ctrl node = Some ctrl" "cn_data_buff ctrl \<noteq> None"
    using assms(1) by (auto simp: ndp_queue_calypte_open_buffers_def Let_def split: option.splits if_splits)
  obtain d l1 where d: "comp_open (cn_data_buff ctrl) l = (d, l1)" by fastforce
  obtain h l2 where h: "comp_open (cn_hdr_buff ctrl) l1 = (h, l2)" by fastforce
  obtain ok l3 where p: "lib_take Tx_pkts_mem l2 = (ok, l3)" by fastforce
  let ?nq1 = "set_priv (\<lambda>q. q\<lparr>q_v3 := (q_v3 q)\<lparr>v3_tx_pkts_cnt := 256\<rparr>\<rparr>) nq"
  obtain d' h' where dh: "d = Some d'" "h = Some h'" and ok: "ok" and
    res: "l' = l3" "nq' = set_maps (\<lambda>m. m\<lparr>qm_tx_data_buff := d, qm_tx_hdr_buff := h, qm_tx_pkts := True\<rparr>)
      (set_priv (\<lambda>q. q\<lparr>q_v3 := (q_v3 q)\<lparr>v3_tx_pkts := replicate 256 0\<rparr>\<rparr>) ?nq1)"
    using assms(1) True ctrl
    by (auto simp: ndp_queue_calypte_open_buffers_def Let_def d h p split: option.splits if_splits)
  have "lib_live l3 = lib_live l + comp_res d + comp_res h + {#Tx_pkts_mem#}"
    using comp_open_result [OF d] comp_open_result [OF h] take_result [OF p] ok by simp
  moreover have "same_lib l l3"
    using comp_open_result [OF d] comp_open_result [OF h] take_result [OF p] same_lib_trans by blast
  ultimately show ?thesis using True by (simp add: res dh set_defs tx_res_def tx_open_def)
qed

text \<open>
  A queue as its user gets it: everything mapped and open that its protocol needs, nothing else, and the
  table of operations filled in.
\<close>

definition queue_complete :: "'k ndp_queue \<Rightarrow> bool" where
  "queue_complete nq \<longleftrightarrow> nq_status nq = NDP_QUEUE_STOPPED \<and> qm_buffer (nq_maps nq) \<noteq> None \<and> headers_mapped nq \<and>
     q_protocol (nq_priv nq) \<in> {1, 2, 3} \<and> ops_burst (nq_ops nq) = Some (own_ops nq) \<and> ops_control (nq_ops nq) \<and>
     (if calypte_tx nq then tx_open (nq_maps nq) else no_tx (nq_maps nq))"

text \<open>What opening relies on of the driver: a subscription keeps the direction and \<open>named\<close> holds for its number.\<close>

locale queue_subscribe =
  fixes subscribe :: "'k subscribe" and named :: "nat \<Rightarrow> u32 \<Rightarrow> 'k \<Rightarrow> bool"
  assumes subscribe_ok: "subscribe req k = (0, req1, k1) \<Longrightarrow>
    req_type req1 = req_type req \<and> (\<exists>s. req_id req1 = Some s \<and> named s (req_type req) k1)"
begin

text \<open>A queue after its initialisation; without control functions the mapping of the buffer failed.\<close>

definition initialised :: "u32 \<Rightarrow> 'k ndp_queue \<Rightarrow> bool" where
  "initialised dir nq \<longleftrightarrow> no_tx (nq_maps nq) \<and> nq_status nq = NDP_QUEUE_STOPPED \<and> nq_dir nq = dir AND 0xFFFF \<and>
     (if ops_control (nq_ops nq)
      then qm_buffer (nq_maps nq) \<noteq> None \<and> q_type nq = dir \<and> named (sync_id (q_sync (nq_priv nq))) dir (q_kern (nq_priv nq)) \<and>
        sync_swptr (q_sync (nq_priv nq)) = 0 \<and> sync_hwptr (q_sync (nq_priv nq)) = 0 \<and>
        (ops_burst (nq_ops nq) \<noteq> None \<longrightarrow> ops_burst (nq_ops nq) = Some (own_ops nq) \<and> headers_mapped nq \<and>
           q_protocol (nq_priv nq) \<in> {1, 2, 3})
      else ops_burst (nq_ops nq) = None)"

lemma open_init_result:
  assumes e: "nc_ndp_queue_open_init_ext subscribe node index dir flags nq l = (0, nq', l')" and n: "new_queue k dir nq"
  shows "initialised dir nq' \<and> same_lib l l' \<and> lib_live l' = lib_live l + maps_res (nq_maps nq') \<and> nq_id nq' = nq_id nq"
proof -
  obtain qsize mmap_size mmap_base protocol where
    a: "props4 (qn_size node) (qn_mmap_size node) (qn_mmap_base node) (qn_protocol node) = Some (qsize, mmap_size, mmap_base, protocol)"
    using e by (auto simp: nc_ndp_queue_open_init_ext_def Let_def split: option.splits)
  define fl where "fl = (if protocol = 2 then flags OR (NDP_CHANNEL_FLAG_USE_HEADER OR NDP_CHANNEL_FLAG_USE_OFFSET) else flags)"
  obtain ret req1 k1 where
    s: "subscribe ((q_channel (nq_priv nq))\<lparr>req_index := index, req_type := dir, req_flags := fl\<rparr>) (q_kern (nq_priv nq)) = (ret, req1, k1)"
    using prod_cases3 by blast
  obtain buf l1 where m: "lib_mmap (qsize * 2) mmap_base l = (buf, l1)" by fastforce
  define q2 where "q2 = (nq_priv nq)\<lparr>q_frame_size_min := getprop (Option.bind (qn_ctrl node) cn_frame_size_min) 0,
      q_frame_size_max := getprop (Option.bind (qn_ctrl node) cn_frame_size_max) 0,
      q_size := getprop (qn_size node) (q_size (nq_priv nq)), q_protocol := getprop (qn_protocol node) (q_protocol (nq_priv nq)),
      q_flags := fl, q_channel := req1, q_kern := k1\<rparr>"
  have ret: "ret = 0" using e by (auto simp: nc_ndp_queue_open_init_ext_def Let_def a fl_def [symmetric] s split: if_splits)
  from subscribe_ok [OF s [unfolded ret]] obtain sid where sid: "req_type req1 = dir" "req_id req1 = Some sid" "named sid dir k1" by auto
  show ?thesis
  proof (cases buf)
    case None
    then have "nq' = nq\<lparr>nq_priv := q2\<rparr>" "l' = l1"
      using e by (auto simp: nc_ndp_queue_open_init_ext_def Let_def a fl_def [symmetric] s ret m q2_def split: if_splits)
    with n mmap_result [OF m] None show ?thesis
      by (simp add: initialised_def new_queue_def no_maps_def no_tx_def maps_res_def header_res_def tx_res_def)
  next
    case (Some buf')
    let ?nq = "set_maps (\<lambda>m. m\<lparr>qm_buffer := buf\<rparr>) (nq\<lparr>nq_priv := q2\<lparr>q_sync := (q_sync q2)
        \<lparr>sync_id := getprop (req_id req1) 0, sync_swptr := 0, sync_hwptr := 0\<rparr>\<rparr>\<rparr>)"
    obtain r nq1 l2 where p: "open_protocol node ?nq l1 = (r, nq1, l2)" using prod_cases3 by blast
    have res: "r = 0" "nq' = nq1\<lparr>nq_ops := (nq_ops nq1)\<lparr>ops_control := True\<rparr>\<rparr>" "l' = l2"
      using e p Some
      by (auto simp: nc_ndp_queue_open_init_ext_def Let_def a fl_def [symmetric] s ret m q2_def split: if_splits)
    have "bare_maps ?nq" using n by (simp add: bare_maps_def new_queue_def set_maps_def no_maps_def)
    from open_protocol_opened [OF this, of l1 node] have o: "opened ?nq l1 (0, nq1, l2)" by (simp only: p res)
    have sq: "same_queue ?nq nq1" and maps: "nq_maps nq1 = (nq_maps ?nq)\<lparr>qm_hdr := qm_hdr (nq_maps nq1), qm_off := qm_off (nq_maps nq1),
          qm_upd := qm_upd (nq_maps nq1), qm_comp := qm_comp (nq_maps nq1)\<rparr>"
      and live: "lib_live l2 = lib_live l1 + header_res (nq_maps nq1) + comp_res (qm_comp (nq_maps nq1))" and "same_lib l1 l2"
      using o unfolding opened_def by blast+
    moreover have "qm_buffer (nq_maps nq1) = buf" "no_tx (nq_maps nq1)"
      using n by (subst maps, simp add: set_maps_def new_queue_def no_maps_def no_tx_def)+
    moreover have "own_ops nq' = own_ops nq1" "headers_mapped nq' = headers_mapped nq1" "q_type nq' = q_type nq1"
      by (simp_all add: res own_ops_def headers_mapped_def q_type_def q_has_flag_def)
    moreover have "q_type nq1 = dir" using sq sid by (simp add: same_queue_def q_type_def set_maps_def q2_def)
    moreover have "ops_burst (nq_ops nq1) \<noteq> None \<Longrightarrow> ops_burst (nq_ops nq1) = Some (own_ops nq1) \<and> headers_mapped nq1 \<and>
        q_protocol (nq_priv nq1) \<in> {1, 2, 3}"
      using o sq same_queue_simps(3) [OF sq] by (auto simp: opened_def same_queue_def)
    moreover have "lib_live l1 = lib_live l + map_res buf" "same_lib l l1" using mmap_result [OF m] by auto
    ultimately show ?thesis
      using n sid Some same_lib_trans [of l l1 l2]
      by (simp add: initialised_def res same_queue_def set_maps_def new_queue_def q2_def getprop_def maps_res_def tx_res_def no_tx_def)
  qed
qed


lemma base_open_result:
  assumes e: "ndp_base_queue_open subscribe fdt k shm index dir flags l = (Inr nq, k1, l1)"
  shows "k1 = q_kern (nq_priv nq)" and "nq_id nq = lib_next l" and "lib_queues l1 = lib_queues l" and "lib_live l1 = lib_live l + queue_res nq"
    and "nq_status nq = NDP_QUEUE_STOPPED" and "nq_dir nq = dir AND 0xFFFF"
    and "ops_valid nq \<Longrightarrow> queue_complete nq \<and> q_type nq = dir \<and> named (sync_id (q_sync (nq_priv nq))) dir (q_kern (nq_priv nq)) \<and>
      sync_swptr (q_sync (nq_priv nq)) = 0 \<and> sync_hwptr (q_sync (nq_priv nq)) = 0"
proof -
  let ?node = "node_of (nc_nfb_fdt_queue_offset fdt index dir)"
  obtain nq0 l2 where c: "ndp_queue_create k shm (getprop (qn_numa ?node) (- 1)) dir index l = (Some nq0, l2)"
    using e by (auto simp: ndp_base_queue_open_def Let_def split: prod.splits option.splits)
  obtain ok l3 where t: "lib_take Nc_queue_mem l2 = (ok, l3)" by fastforce
  obtain r nq2 l4 where i: "nc_ndp_queue_open_init_ext subscribe ?node index dir flags nq0 l3 = (r, nq2, l4)" using prod_cases3 by blast
  obtain r' nq3 l5 where o: "ndp_queue_calypte_open_buffers ?node nq2 l4 = (r', nq3, l5)" using prod_cases3 by blast
  have res: "ok" "r = 0" "r' = 0" "nq = nq3" "k1 = q_kern (nq_priv nq)" "l1 = l5"
    using e by (auto simp: ndp_base_queue_open_def Let_def c t i o split: if_splits)
  note cr = create_result [OF c] and ta = take_result [OF t] and ini = open_init_result [OF i [unfolded res(2)]]
  have ini: "initialised dir nq2" "same_lib l3 l4" "lib_live l4 = lib_live l3 + maps_res (nq_maps nq2)" "nq_id nq2 = nq_id nq0"
    using ini cr by blast+
  have tx: "no_tx (nq_maps nq2)" using ini(1) by (simp add: initialised_def)
  note cal = calypte_open_result [OF o [unfolded res(3)] tx, folded res(4)]
  have sq: "same_queue nq2 nq" and ops: "nq_ops nq = nq_ops nq2"
    and maps: "nq_maps nq = (nq_maps nq2)\<lparr>qm_tx_data_buff := qm_tx_data_buff (nq_maps nq),
      qm_tx_hdr_buff := qm_tx_hdr_buff (nq_maps nq), qm_tx_pkts := qm_tx_pkts (nq_maps nq)\<rparr>"
    and live: "lib_live l5 = lib_live l4 + tx_res (nq_maps nq)" "same_lib l4 l5"
    and cx: "if calypte_tx nq2 then tx_open (nq_maps nq) else nq = nq2" using cal by blast+
  have sel: "qm_buffer (nq_maps nq) = qm_buffer (nq_maps nq2)" "qm_hdr (nq_maps nq) = qm_hdr (nq_maps nq2)"
    "qm_off (nq_maps nq) = qm_off (nq_maps nq2)" "qm_upd (nq_maps nq) = qm_upd (nq_maps nq2)" "qm_comp (nq_maps nq) = qm_comp (nq_maps nq2)"
    by (subst maps, simp)+
  show "k1 = q_kern (nq_priv nq)" by (rule res)
  show "nq_id nq = lib_next l" using sq ini(4) cr by (simp add: same_queue_def)
  show "lib_queues l1 = lib_queues l" using cr ta ini(2) live(2) res by (simp add: same_lib_def)
  show "lib_live l1 = lib_live l + queue_res nq"
    using cr ta ini(3) live(1) res tx sel by (simp add: queue_res_def maps_res_def header_res_def tx_res_def no_tx_def)
  show "nq_status nq = NDP_QUEUE_STOPPED" "nq_dir nq = dir AND 0xFFFF" using sq ini(1) by (simp_all add: same_queue_def initialised_def)
  assume v: "ops_valid nq"
  then have bo: "ops_control (nq_ops nq2)" "ops_burst (nq_ops nq2) \<noteq> None"
    unfolding ops_valid_def ops by (auto split: option.splits)
  have hm: "headers_mapped nq = headers_mapped nq2"
    using sq same_queue_simps(1,2) [OF sq] by (simp add: headers_mapped_def sel same_queue_def Let_def)
  have "ops_burst (nq_ops nq) = Some (own_ops nq)" "headers_mapped nq" "q_protocol (nq_priv nq) \<in> {1, 2, 3}" "qm_buffer (nq_maps nq) \<noteq> None"
    using ini(1) bo hm ops same_queue_simps(3) [OF sq] sq sel by (auto simp: initialised_def same_queue_def)
  moreover have "ops_control (nq_ops nq)" "nq_status nq = NDP_QUEUE_STOPPED" using bo ops sq ini(1) by (simp_all add: same_queue_def initialised_def)
  moreover have "if calypte_tx nq then tx_open (nq_maps nq) else no_tx (nq_maps nq)"
    using cx tx same_queue_simps(4) [OF sq] by (auto split: if_splits)
  ultimately have "queue_complete nq" unfolding queue_complete_def by blast
  moreover have "q_type nq = dir" "named (sync_id (q_sync (nq_priv nq))) dir (q_kern (nq_priv nq))"
      "sync_swptr (q_sync (nq_priv nq)) = 0" "sync_hwptr (q_sync (nq_priv nq)) = 0"
    using ini(1) bo sq same_queue_simps(1) [OF sq] by (simp_all add: initialised_def same_queue_def)
  ultimately show "queue_complete nq \<and> q_type nq = dir \<and> named (sync_id (q_sync (nq_priv nq))) dir (q_kern (nq_priv nq)) \<and>
      sync_swptr (q_sync (nq_priv nq)) = 0 \<and> sync_hwptr (q_sync (nq_priv nq)) = 0" by blast
qed

lemma open_result:
  assumes e: "ndp_open_queue subscribe fdt k shm index dir in_flags l = Some (Inr nq, k1, l1)"
  shows "queue_complete nq \<and> q_type nq = dir \<and> named (sync_id (q_sync (nq_priv nq))) dir k1 \<and>
    sync_swptr (q_sync (nq_priv nq)) = 0 \<and> sync_hwptr (q_sync (nq_priv nq)) = 0 \<and> k1 = q_kern (nq_priv nq) \<and>
    lib_live l1 = lib_live l + queue_res nq \<and> lib_queues l1 = lib_queues l @ [Some (nq_id nq)] \<and> nq_id nq = lib_next l"
proof -
  define flags where "flags = (if in_flags AND 2 \<noteq> 0 then NDP_CHANNEL_FLAG_EXCLUSIVE OR NDP_CHANNEL_FLAG_USERSPACE else (0 :: u32))"
  obtain l2 where b: "ndp_base_queue_open subscribe fdt k shm index dir flags l = (Inr nq, k1, l2)"
    and v: "ops_valid nq" and a: "nfb_queue_add nq l2 = (0, l1)"
    using e by (auto simp: ndp_open_queue_def Let_def flags_def split: if_splits sum.splits prod.splits)
  obtain ok l3 where ask: "lib_ask l2 = (ok, l3)" by fastforce
  with a have "ok" "l1 = l3\<lparr>lib_queues := lib_queues l3 @ [Some (nq_id nq)]\<rparr>" by (auto simp: nfb_queue_add_def split: if_splits)
  with ask_result [OF ask] have "lib_live l1 = lib_live l2" "lib_queues l1 = lib_queues l2 @ [Some (nq_id nq)]"
    by (simp_all add: same_lib_def)
  with base_open_result [OF b] v show ?thesis by simp
qed

end

section \<open>Closing\<close>

lemma queue_slot_clear_last: "Some i \<notin> set xs \<Longrightarrow> queue_slot_clear i (xs @ [Some i]) = Some (xs @ [None])"
  by (induction xs) auto

lemma base_close_result:
  assumes q: "queue_complete nq" and l: "lib_live l = L + queue_res nq"
  shows "\<exists>l'. ndp_base_queue_close nq l = Some l' \<and> lib_live l' = L + header_res (nq_maps nq)"
proof -
  let ?m = "nq_maps nq"
  have "\<exists>l1. ndp_queue_calypte_close_buffers nq l = Some l1 \<and> lib_live l1 = lib_live l - tx_res ?m"
    using q by (auto simp: ndp_queue_calypte_close_buffers_def queue_complete_def tx_open_def no_tx_def tx_res_def comp_close_def
        split: if_splits)
  then obtain l1 where l1: "ndp_queue_calypte_close_buffers nq l = Some l1" "lib_live l1 = lib_live l - tx_res ?m" by blast
  have "\<exists>l2. nc_ndp_queue_close nq l1 = Some l2 \<and> lib_live l2 = lib_live l1 - comp_res (qm_comp ?m) - map_res (qm_buffer ?m)"
    using q by (auto simp: nc_ndp_queue_close_def nc_ndp_v3_close_queue_def comp_close_def queue_complete_def headers_mapped_def
        Let_def split: if_splits)
  then obtain l2 where l2: "nc_ndp_queue_close nq l1 = Some l2"
    "lib_live l2 = lib_live l1 - comp_res (qm_comp ?m) - map_res (qm_buffer ?m)" by blast
  have "lib_live l2 = L + {#Queue_mem, Nc_queue_mem#} + header_res ?m"
    by (simp add: l1 l2 l queue_res_def maps_res_def)
  then have "lib_live (lib_drop Queue_mem (lib_drop Nc_queue_mem l2)) = L + header_res ?m" by simp
  with l1 l2 show ?thesis by (simp add: ndp_base_queue_close_def)
qed

lemma close_result:
  assumes "queue_complete nq" and "lib_live l = L + queue_res nq" and "lib_queues l = xs @ [Some (nq_id nq)]"
    and "Some (nq_id nq) \<notin> set xs"
  shows "\<exists>l'. ndp_close_queue sys nq l = Some (q_kern (nq_priv nq), l') \<and> lib_live l' = L + header_res (nq_maps nq)"
proof -
  have "ndp_queue_stop sys nq = Some (EALREADY, nq)" using assms(1) by (simp add: ndp_queue_stop_def queue_complete_def)
  moreover have "nfb_queue_remove nq l = Some (l\<lparr>lib_queues := xs @ [None]\<rparr>)"
    by (simp add: nfb_queue_remove_def assms(3) queue_slot_clear_last [OF assms(4)])
  moreover obtain l' where "ndp_base_queue_close nq (l\<lparr>lib_queues := xs @ [None]\<rparr>) = Some l'" "lib_live l' = L + header_res (nq_maps nq)"
    using base_close_result [OF assms(1), of "l\<lparr>lib_queues := xs @ [None]\<rparr>" L] assms(2) by auto
  ultimately show ?thesis by (simp add: ndp_close_queue_def)
qed

section \<open>Opening through the driver\<close>

definition driver_subscribe :: "'c ndp_channel_ops \<Rightarrow> nat \<Rightarrow> sub_id option \<Rightarrow> 'c ndp subscribe" where
  "driver_subscribe ops b alloc req ndp =
     (case ndp_char_ioctl ops b True True alloc (NDP_IOC_SUBSCRIBE req) ndp of (ret, cmd, ndp') \<Rightarrow>
        (ret, case cmd of NDP_IOC_SUBSCRIBE r \<Rightarrow> r | _ \<Rightarrow> req, ndp'))"

text \<open>The number names a subscription of the open file \<open>b\<close> to a channel of the direction.\<close>

definition driver_named :: "nat \<Rightarrow> sub_id \<Rightarrow> u32 \<Rightarrow> 'c ndp \<Rightarrow> bool" where
  "driver_named b s dir ndp \<longleftrightarrow> ndp_subscription_by_id b s ndp = Some s \<and>
     sub_channel (ndp_subs ndp s) < length (ndp_channels ndp) \<and>
     cid_type (ch_id (ndp_channels ndp ! sub_channel (ndp_subs ndp s))) =
       (if dir AND 1 \<noteq> 0 then NDP_CHANNEL_TYPE_TX else NDP_CHANNEL_TYPE_RX)"

lemma find_channel_id: "find_channel cid chs = Some c \<Longrightarrow> ch_id (chs ! c) = cid"
  by (induction chs arbitrary: c) (auto split: if_splits)

context channel_ctrl
begin

lemma driver_queue_subscribe: "queue_subscribe (driver_subscribe ops b alloc) (driver_named b)"
proof (rule queue_subscribe.intro)
  fix req req1 :: ndp_channel_request and ndp ndp1 :: "'c ndp"
  assume s: "driver_subscribe ops b alloc req ndp = (0, req1, ndp1)"
  let ?cid = "\<lparr>cid_index = ucast (req_index req), cid_type = if req_type req AND 1 \<noteq> 0 then NDP_CHANNEL_TYPE_TX else NDP_CHANNEL_TYPE_RX\<rparr>"
  obtain c where f: "find_channel ?cid (ndp_channels ndp) = Some c"
    using s by (auto simp: driver_subscribe_def ndp_char_ioctl_def ndp_subscription_create_def Let_def split: option.splits)
  obtain ret flags ch where sub: "ndp_channel_subscribe ops (req_flags req) (ndp_channels ndp ! c) = (ret, flags, ch)"
    using prod_cases3 by blast
  obtain i where res: "alloc = Some i" "req1 = req\<lparr>req_flags := flags, req_id := Some i\<rparr>"
    "ndp1 = ndp\<lparr>ndp_channels := (ndp_channels ndp)[c := ch], ndp_subs := (ndp_subs ndp)(i :=
        \<lparr>sub_channel = c, sub_status = NDP_SUB_STATUS_SUBSCRIBED, sub_hwptr = 0, sub_swptr = 0, sub_subscriber = b\<rparr>),
      ndp_sbr := (ndp_sbr ndp)(b := (ndp_sbr ndp b)\<lparr>sbr_subscriptions := i # sbr_subscriptions (ndp_sbr ndp b)\<rparr>)\<rparr>"
    using s by (auto simp: driver_subscribe_def ndp_char_ioctl_def ndp_subscription_create_def Let_def f sub split: option.splits if_splits)
  show "req_type req1 = req_type req \<and> (\<exists>s. req_id req1 = Some s \<and> driver_named b s (req_type req) ndp1)"
    using find_channel_less [OF f] find_channel_id [OF f] subscribe_result(4) [OF sub]
    by (simp add: res driver_named_def ndp_subscription_by_id_def)
qed

end

interpretation driver_open: queue_subscribe "driver_subscribe (ndp_driver_ops e) b alloc" "driver_named b" for e b alloc
  by (rule driver.driver_queue_subscribe)

lemma named_rx_request: "driver_named b (sync_id sync) DIR_RX ndp \<Longrightarrow> rx_request b sync ndp"
  by (simp add: driver_named_def rx_request_def DIR_RX_def)

text \<open>A receive queue of the third protocol, opened on the device with one channel.\<close>

definition example_node :: queue_node where
  "example_node = no_node\<lparr>qn_size := Some 0x2000, qn_mmap_size := Some 0x4000, qn_mmap_base := Some 0x10000, qn_protocol := Some 3,
     qn_hdr_mmap_size := Some 0x1000, qn_hdr_mmap_base := Some 0x20000\<rparr>"

definition example_fdt :: "string \<Rightarrow> queue_node option" where
  "example_fdt path = (if path = ''/drivers/ndp/rx_queues/rx0'' then Some example_node else None)"

definition example_lib :: lib where
  "example_lib = \<lparr>lib_live = {#}, lib_plan = [], lib_queues = [], lib_next = 0, lib_dev_ops = True\<rparr>"

lemma example_driver_subscribe:
  "\<exists>req' k'. driver_subscribe (ndp_driver_ops example_env) 5 (Some 7) \<lparr>req_id = None, req_index = 0, req_type = 0, req_flags = 0\<rparr>
     (example_ndp example_channel [5] [] zero_subscription) = (0, req', k') \<and> req_type req' = 0"
proof -
  obtain c where c: "op_set_flags (ndp_driver_ops example_env) (example_channel\<lparr>ch_subscriptions_count := 1\<rparr>) 0 =
     (0, example_channel\<lparr>ch_subscriptions_count := 1, ch_ctrl := c\<rparr>)" using example_set_flags by blast
  have sub: "ndp_channel_subscribe (ndp_driver_ops example_env) 0 example_channel =
      (0, 0, example_channel\<lparr>ch_subscriptions_count := 1, ch_flags := 0, ch_ctrl := c\<rparr>)"
    using c by (simp add: ndp_channel_subscribe_def example_channel_def example_sze_channel_def zero_channel_def retag_def ndp_flag_defs)
  have ch: "ch_id example_channel = \<lparr>cid_index = 0, cid_type = 0\<rparr>" "ring_size (ch_ring example_channel) = 0x2000"
    by (simp_all add: example_channel_def example_sze_channel_def zero_channel_def example_ring_def NDP_CHANNEL_TYPE_RX_def)
  show ?thesis
    by (simp add: driver_subscribe_def ndp_char_ioctl_def ndp_subscription_create_def example_ndp_def sub ch NDP_CHANNEL_TYPE_RX_def
        Let_def)
qed

lemma example_queue_open:
  "\<exists>nq k' l'. ndp_open_queue (driver_subscribe (ndp_driver_ops example_env) 5 (Some 7)) example_fdt
     (example_ndp example_channel [5] [] zero_subscription) example_shm 0 DIR_RX 0 example_lib = Some (Inr nq, k', l') \<and>
     q_protocol (nq_priv nq) = 3 \<and> qm_hdr (nq_maps nq) = Some (0x20000, 0x1000)"
proof -
  obtain req' k' where s: "driver_subscribe (ndp_driver_ops example_env) 5 (Some 7) \<lparr>req_id = None, req_index = 0, req_type = 0, req_flags = 0\<rparr>
     (example_ndp example_channel [5] [] zero_subscription) = (0, req', k')" and t: "req_type req' = 0"
    using example_driver_subscribe by blast
  have n: "node_of (nc_nfb_fdt_queue_offset example_fdt 0 DIR_RX) = example_node"
  proof -
    have "queue_path 0 DIR_RX = ''/drivers/ndp/rx_queues/rx0''" by code_simp
    then show ?thesis by (simp add: nc_nfb_fdt_queue_offset_def example_fdt_def node_of_def)
  qed
  note open_defs = ndp_open_queue_def ndp_base_queue_open_def nc_ndp_queue_open_init_ext_def open_protocol_def
    nc_ndp_v3_open_queue_def ndp_queue_calypte_open_buffers_def ndp_queue_create_def nfb_queue_add_def ops_valid_def
  note state_defs = example_lib_def lib_take_def lib_ask_def lib_mmap_def zero_queue_def no_maps_def getprop_def props4_def v3_areas_def
    example_node_def no_node_def set_maps_def set_priv_def set_burst_ops_def v3_reset_def v3_masks_def q_type_def q_has_flag_def
    calypte_tx_def DIR_RX_def DIR_TX_def
  show ?thesis
    by (simp add: open_defs state_defs s t Let_def n [unfolded DIR_RX_def])
qed

text \<open>C14.  Opening a queue.  Whichever of the allocations, mappings and openings of components fail on the way:
  when \<open>ndp_open_queue\<close> returns a queue it is stopped, of one of the three protocols, has exactly the
  mappings, components and table of operations that its protocol, direction and flags call for, is entered
  at the end of the list of the device, and the process holds exactly its resources in addition.  Its
  requests name a subscription of the channel's direction in the driver; a receiving queue is thereby
  ready for its bursts.
\<close>

theorem queue_open_complete:
  assumes "ndp_open_queue (driver_subscribe (ndp_driver_ops e) b alloc) fdt k shm index dir in_flags l = Some (Inr nq, k', l')"
  shows "queue_complete nq \<and> q_type nq = dir \<and> lib_live l' = lib_live l + queue_res nq \<and>
    lib_queues l' = lib_queues l @ [Some (nq_id nq)] \<and> q_kern (nq_priv nq) = k' \<and>
    driver_named b (sync_id (q_sync (nq_priv nq))) dir k' \<and> (dir = DIR_RX \<longrightarrow> rx_request b (q_sync (nq_priv nq)) k')"
  using driver_open.open_result [OF assms] named_rx_request by blast

theorem queue_open_complete_witness:
  "\<exists>nq k' l'. ndp_open_queue (driver_subscribe (ndp_driver_ops example_env) 5 (Some 7)) example_fdt
     (example_ndp example_channel [5] [] zero_subscription) example_shm 0 DIR_RX 0 example_lib = Some (Inr nq, k', l') \<and>
     rx_request 5 (q_sync (nq_priv nq)) k' \<and> lib_live l' = queue_res nq \<and> lib_queues l' = [Some (nq_id nq)]"
proof -
  obtain nq k' l' where o: "ndp_open_queue (driver_subscribe (ndp_driver_ops example_env) 5 (Some 7)) example_fdt
     (example_ndp example_channel [5] [] zero_subscription) example_shm 0 DIR_RX 0 example_lib = Some (Inr nq, k', l')"
    using example_queue_open by blast
  from queue_open_complete [OF o] o show ?thesis by (auto simp: example_lib_def)
qed

text \<open>The table of operations and the protocol.  For every queue that \<open>ndp_open_queue\<close> returned, the bursts that
  go through the table of operations do the same as the ones that choose by the protocol number.
\<close>

theorem queue_dispatch_equiv:
  assumes "ndp_open_queue (driver_subscribe (ndp_driver_ops e) b alloc) fdt k shm index dir in_flags l = Some (Inr nq, k', l')"
  shows "if dir = DIR_RX
    then ndp_rx_burst_get sys cnt nq = nc_ndp_rx_burst_get sys cnt (nq_priv nq) \<and>
      map_option nq_priv (ndp_rx_burst_put sys nq) = nc_ndp_rx_burst_put sys (nq_priv nq)
    else ndp_tx_burst_get sys ps nq = Some (nc_ndp_tx_burst_get sys ps (nq_priv nq)) \<and>
      map_option nq_priv (ndp_tx_burst_put sys nq) = nc_ndp_tx_burst_put sys (nq_priv nq) \<and>
      map_option nq_priv (ndp_tx_burst_flush sys nq) = nc_ndp_tx_burst_flush sys (nq_priv nq)"
proof -
  have "ops_burst (nq_ops nq) = Some (if dir = DIR_RX then Rx_ops (q_protocol (nq_priv nq)) else Tx_ops (q_protocol (nq_priv nq)))"
    using driver_open.open_result [OF assms] by (auto simp: queue_complete_def own_ops_def)
  then show ?thesis
    by (auto simp: ndp_rx_burst_get_def ndp_rx_burst_put_def ndp_tx_burst_get_def ndp_tx_burst_put_def ndp_tx_burst_flush_def
        nc_ndp_rx_burst_get_def nc_ndp_rx_burst_put_def nc_ndp_tx_burst_get_def nc_ndp_tx_burst_put_def nc_ndp_tx_burst_flush_def
        rx_put_fn_def nc_ndp_v3_rx_burst_put_def nc_ndp_v2_rx_burst_put_def option.map_comp comp_def case_prod_unfold)
qed

theorem queue_dispatch_equiv_witness:
  "\<exists>nq k' l'. ndp_open_queue (driver_subscribe (ndp_driver_ops example_env) 5 (Some 7)) example_fdt
     (example_ndp example_channel [5] [] zero_subscription) example_shm 0 DIR_RX 0 example_lib = Some (Inr nq, k', l') \<and>
     ndp_rx_burst_get (driver_sys (ndp_driver_ops example_env) 5 (\<lambda>_ shm. shm)) 4 nq =
       nc_ndp_rx_burst_get (driver_sys (ndp_driver_ops example_env) 5 (\<lambda>_ shm. shm)) 4 (nq_priv nq)"
proof -
  obtain nq k' l' where o: "ndp_open_queue (driver_subscribe (ndp_driver_ops example_env) 5 (Some 7)) example_fdt
     (example_ndp example_channel [5] [] zero_subscription) example_shm 0 DIR_RX 0 example_lib = Some (Inr nq, k', l')"
    using example_queue_open by blast
  from queue_dispatch_equiv [OF o, of "driver_sys (ndp_driver_ops example_env) 5 (\<lambda>_ shm. shm)" 4 "[]"] o show ?thesis by auto
qed

text \<open>Closing a queue.  Closing a queue that was opened gives back everything it held but its mappings of
  headers, offsets and the update buffer: for the first protocol nothing is left, for the others at least
  the mapping of the headers, so a process that opens and closes queues again and again collects
  mappings.
\<close>

theorem queue_close_leaves:
  assumes "ndp_open_queue (driver_subscribe (ndp_driver_ops e) b alloc) fdt k shm index dir in_flags l = Some (Inr nq, k', l')"
    and "Some (lib_next l) \<notin> set (lib_queues l)"
  shows "\<exists>l''. ndp_close_queue sys nq l' = Some (k', l'') \<and> lib_live l'' = lib_live l + header_res (nq_maps nq) \<and>
    (header_res (nq_maps nq) = {#} \<longleftrightarrow> q_protocol (nq_priv nq) = 1)"
proof -
  note r = driver_open.open_result [OF assms(1)]
  have "header_res (nq_maps nq) = {#} \<longleftrightarrow> q_protocol (nq_priv nq) = 1"
  proof -
    have "headers_mapped nq" "q_protocol (nq_priv nq) \<in> {1, 2, 3}" using r by (simp_all add: queue_complete_def)
    then show ?thesis unfolding headers_mapped_def header_res_def Let_def union_eq_empty map_res_empty by auto
  qed
  with close_result [of nq l' "lib_live l" "lib_queues l" sys] r assms(2) show ?thesis by auto
qed

theorem queue_close_leaves_witness:
  "\<exists>nq k' l' l''. ndp_open_queue (driver_subscribe (ndp_driver_ops example_env) 5 (Some 7)) example_fdt
     (example_ndp example_channel [5] [] zero_subscription) example_shm 0 DIR_RX 0 example_lib = Some (Inr nq, k', l') \<and>
     ndp_close_queue (driver_sys (ndp_driver_ops example_env) 5 (\<lambda>_ shm. shm)) nq l' = Some (k', l'') \<and>
     Mapping_of 0x20000 0x1000 \<in># lib_live l''"
proof -
  let ?sys = "driver_sys (ndp_driver_ops example_env) 5 (\<lambda>_ shm. shm)"
  obtain nq k' l' where o: "ndp_open_queue (driver_subscribe (ndp_driver_ops example_env) 5 (Some 7)) example_fdt
     (example_ndp example_channel [5] [] zero_subscription) example_shm 0 DIR_RX 0 example_lib = Some (Inr nq, k', l')"
    and h: "qm_hdr (nq_maps nq) = Some (0x20000, 0x1000)" using example_queue_open by blast
  have "Some (lib_next example_lib) \<notin> set (lib_queues example_lib)" by (simp add: example_lib_def)
  from queue_close_leaves [OF o this, of ?sys] obtain l'' where "ndp_close_queue ?sys nq l' = Some (k', l'')"
    "lib_live l'' = lib_live example_lib + header_res (nq_maps nq)" by blast
  with o h show ?thesis by (auto simp: header_res_def)
qed

end
