(* ===== verification/RingView.thy ===== *)
theory RingView
  imports Prelude
begin

text \<open>
  An array of \<open>2 ^ k\<close> items that is used as a ring, read as the queue of the items between a consumer
  and a producer pointer.  Writing an item at the producer pointer and moving the pointer on appends it
  to the queue, moving the consumer pointer on takes the first item away, and changing an item that has
  been taken away is not seen.  The transmit and receive rings of the XDP driver rest on these laws.
\<close>

definition ring_view :: "nat \<Rightarrow> u32 \<Rightarrow> u32 \<Rightarrow> 'a list \<Rightarrow> 'a list" where
  "ring_view k a b xs = map (\<lambda>j. xs ! ((unat a + j) mod 2 ^ k)) [0..<ring_dist k a b]"

lemma length_ring_view [simp]: "length (ring_view k a b xs) = ring_dist k a b"
  by (simp add: ring_view_def)

lemma ring_view_same [simp]: "ring_view k a a xs = []"
  by (simp add: ring_view_def)

lemma map_ring_view:
  "length xs = 2 ^ k \<Longrightarrow> map f (ring_view k a b xs) = ring_view k a b (map f xs)"
  by (simp add: ring_view_def)

lemma ring_dist_masked_left [simp]: "ring_dist k (a AND mask k) b = ring_dist k a b"
  by (simp add: ring_dist_def mask_eqs)

text \<open>The slots of the queue are distinct from the slot of the producer pointer.\<close>

lemma ring_slot_other:
  assumes "j < ring_dist k a b" and "k \<le> 32"
  shows "(unat a + j) mod 2 ^ k \<noteq> unat b mod 2 ^ k"
proof
  assume eq: "(unat a + j) mod 2 ^ k = unat b mod 2 ^ k"
  then have "(unat a + j) mod 2 ^ k = (unat a + ring_dist k a b) mod 2 ^ k" by (simp add: ring_dist_index assms(2))
  then have "2 ^ k dvd (unat a + ring_dist k a b) - (unat a + j)"
    using assms(1) by (metis mod_eq_dvd_iff_nat add_le_cancel_left less_imp_le)
  then have "2 ^ k dvd ring_dist k a b - j" by simp
  then show False using assms(1) ring_dist_less [OF assms(2), of a b] by (auto dest: dvd_imp_le)
qed

lemma ring_view_push:
  assumes "ring_dist k a b + 1 < 2 ^ k" and "k \<le> 32" and "length xs = 2 ^ k" and "b AND mask k = b"
  shows "ring_view k a ((b + 1) AND mask k) (xs[unat b := x]) = ring_view k a b xs @ [x]"
proof -
  have "unat b mod 2 ^ k = unat (b AND mask k)" by (simp only: unat_and_mask)
  then have b: "unat b mod 2 ^ k = unat b" "unat b < 2 ^ k"
    using assms(4) and_mask_less [of b k] by simp_all
  have "xs[unat b := x] ! ((unat a + j) mod 2 ^ k) = xs ! ((unat a + j) mod 2 ^ k)" if "j < ring_dist k a b" for j
    using ring_slot_other [OF that assms(2)] b by (metis nth_list_update_neq)
  then show ?thesis
    using ring_dist_index [OF assms(2), of a b] b assms(3)
    by (simp add: ring_view_def ring_dist_advance [OF assms(1,2)])
qed

lemma ring_dist_step:
  assumes "a AND mask k \<noteq> b AND mask k" and "k \<le> 32"
  shows "ring_dist k a b = Suc (ring_dist k ((a + 1) AND mask k) b)"
proof -
  have "(b - a) AND mask k \<noteq> 0" using assms(1) ring_dist_zero_iff [of b a k] by auto
  then have pos: "0 < ring_dist k a b" by (metis ring_dist_def unat_eq_zero neq0_conv)
  then have "1 < (2::nat) ^ k" using ring_dist_less [OF assms(2), of a b] by linarith
  then have "ring_dist k a (a + 1) = 1" using ring_dist_advance [of k a a] assms(2) by simp
  then show ?thesis using ring_dist_split [of k a "a + 1" b] pos by simp
qed

lemma ring_view_pop:
  assumes "a AND mask k \<noteq> b AND mask k" and "k \<le> 32" and "a AND mask k = a"
  shows "ring_view k a b xs = xs ! unat a # ring_view k ((a + 1) AND mask k) b xs"
proof -
  have "unat a mod 2 ^ k = unat (a AND mask k)" by (simp only: unat_and_mask)
  then have a: "unat a mod 2 ^ k = unat a" using assms(3) by simp
  have s: "(unat ((a + 1) AND mask k) + j) mod 2 ^ k = (unat a + Suc j) mod 2 ^ k" for j
  proof -
    have "unat (a + 1) mod 2 ^ k = Suc (unat a) mod 2 ^ k"
      using assms(2) by (simp add: unat_word_ariths le_imp_power_dvd mod_mod_cancel flip: power_numeral)
    then show ?thesis by (simp add: unat_and_mask mod_simps)
  qed
  show ?thesis
    unfolding ring_view_def ring_dist_step [OF assms(1,2)]
    by (simp only: map_upt_Suc s) (simp add: a)
qed

text \<open>A slot that is not in the queue can change.\<close>

lemma ring_view_update_other:
  assumes "\<And>j. j < ring_dist k a b \<Longrightarrow> (unat a + j) mod 2 ^ k \<noteq> i"
  shows "ring_view k a b (xs[i := x]) = ring_view k a b xs"
proof -
  have "xs[i := x] ! ((unat a + j) mod 2 ^ k) = xs ! ((unat a + j) mod 2 ^ k)" if "j < ring_dist k a b" for j
    using assms [OF that] by (metis nth_list_update_neq)
  then show ?thesis by (simp add: ring_view_def)
qed

lemma ring_view_behind:
  assumes "0 < ring_dist k a h" and "ring_dist k a h \<le> ring_dist k a b" and "k \<le> 32" and "a AND mask k = a"
  shows "ring_view k h b (xs[unat a := x]) = ring_view k h b xs"
proof (rule ring_view_update_other)
  fix j
  assume j: "j < ring_dist k h b"
  have d: "ring_dist k a b = ring_dist k a h + ring_dist k h b" using ring_dist_split [OF assms(2)] assms(2) by simp
  have "(unat h + j) mod 2 ^ k = (unat a + (ring_dist k a h + j)) mod 2 ^ k"
    using ring_dist_index [OF assms(3), of a h] by (metis add.assoc mod_add_left_eq)
  moreover have "(unat a + (ring_dist k a h + j)) mod 2 ^ k \<noteq> unat a mod 2 ^ k"
  proof
    assume "(unat a + (ring_dist k a h + j)) mod 2 ^ k = unat a mod 2 ^ k"
    then have "2 ^ k dvd (unat a + (ring_dist k a h + j)) - unat a" by (metis mod_eq_dvd_iff_nat le_add1)
    then show False using j d assms(1) ring_dist_less [OF assms(3), of a b] by (auto dest: dvd_imp_le)
  qed
  moreover have "unat a mod 2 ^ k = unat a" using assms(4) unat_and_mask [of a k] by simp
  ultimately show "(unat h + j) mod 2 ^ k \<noteq> unat a" by simp
qed

lemma ring_view_taken:
  assumes "a AND mask k \<noteq> b AND mask k" and "k \<le> 32" and "a AND mask k = a"
  shows "ring_view k ((a + 1) AND mask k) b (xs[unat a := x]) = ring_view k ((a + 1) AND mask k) b xs"
proof -
  let ?c = "(a + 1) AND mask k"
  have d: "ring_dist k a b = Suc (ring_dist k ?c b)" by (rule ring_dist_step [OF assms(1,2)])
  then have "1 < (2::nat) ^ k" using ring_dist_less [OF assms(2), of a b] by linarith
  then have "ring_dist k a ?c = 1" using ring_dist_advance [of k a a] assms(2) by simp
  then show ?thesis using d assms(2,3) by (intro ring_view_behind) simp_all
qed

text \<open>The queue splits at any pointer between consumer and producer.\<close>

lemma ring_view_split:
  assumes "ring_dist k a m \<le> ring_dist k a b" and "k \<le> 32"
  shows "ring_view k a b xs = ring_view k a m xs @ ring_view k m b xs"
proof -
  have d: "ring_dist k a b = ring_dist k a m + ring_dist k m b" using ring_dist_split [OF assms(1)] assms(1) by simp
  have i: "(unat m + j) mod 2 ^ k = (unat a + (ring_dist k a m + j)) mod 2 ^ k" for j
    using ring_dist_index [OF assms(2), of a m] by (metis add.assoc mod_add_left_eq)
  have "map f [n..<n + l] = map (\<lambda>j. f (n + j)) [0..<l]" for f :: "nat \<Rightarrow> 'a" and n l
    by (rule nth_equalityI) simp_all
  then show ?thesis unfolding ring_view_def d upt_add_eq_append [OF le0] by (simp add: i)
qed

end
