(* ===== verification/XdpTx.thy ===== *)
theory XdpTx
  imports DmaCtrl RingView
begin

text \<open>
  The transmit side of the XDP driver, \<open>drivers/kernel/drivers/nfb/xdp/ctrl_xdp_common.h\<close>,
  \<open>ctrl_xdp_common.c\<close>, \<open>ctrl_xdp_pp.c\<close> and \<open>ctrl_xdp_xsk.c\<close>: packets of the kernel stack, redirected frames,
  retransmitted buffers and the buffers of an AF\_XDP socket all end in one ring of descriptors, and
  each slot of the ring has an item that says what is to be released when the hardware is done with it.

  The DMA mappings, the socket buffers and the XDP frames belong to the kernel.  \<open>xworld\<close> keeps what the
  driver asked of it: \<open>xw_map\<close> is the parameter that answers the n-th mapping request (None: the mapping
  failed), \<open>xw_pad_fails\<close> says for which socket buffers \<open>skb_padto\<close> fails, and the lists hold the mappings
  in force and the objects given back, the newest first.  The critical sections under \<open>tx_lock\<close> are one
  step each.
\<close>

section \<open>Data\<close>

datatype xdp_ctrl_type = NFB_XCTRL_RX | NFB_XCTRL_TX

datatype xdp_ctrl_tx_buff_type =
    NFB_XCTRL_BUFF_DESC_TYPE0
  | NFB_XCTRL_BUFF_FRAME_PP
  | NFB_XCTRL_BUFF_FRAME
  | NFB_XCTRL_BUFF_SKB
  | NFB_XCTRL_BUFF_XSK
  | NFB_XCTRL_BUFF_XSK_REXMIT
  | NFB_XCTRL_BUFF_BUG

text \<open>Objects of the kernel are named by numbers; the pointer of the union is None for NULL.\<close>

record xctrl_tx_buffer =
  tb_type :: xdp_ctrl_tx_buff_type
  tb_ptr :: "nat option"
  tb_dma :: u64
  tb_len :: u32

text \<open>A fragment of a frame or of a socket buffer.\<close>

record xdp_frag =
  fg_size :: u32
  fg_page_dma :: u64
  fg_off :: u32

text \<open>
  A buffer for received data.  \<open>xb_dma\<close> is the address the hardware knows, \<open>xb_len\<close> the distance from
  \<open>data\<close> to \<open>data_end\<close>; the shared info holds the fragments: the page of each and where in it the data lie.
\<close>

record xdp_buff =
  xb_id :: nat
  xb_dma :: u64
  xb_len :: u32
  xb_frags_flag :: bool
  xb_frags :: "(nat \<times> xdp_frag) list"
  xb_frags_size :: u32

record xctrl =
  x_type :: xdp_ctrl_type
  x_buffers :: "xctrl_tx_buffer list"
  x_completed_xsk_tx :: u32
  x_xdp_ring :: "xdp_buff option list"
  x_mbp :: u32
  x_pbp :: u32
  x_fbp :: u32
  x_nb_hdr :: u32
  x_hdrs :: "nc_ndp_hdr list"
  x_nb_desc :: u32
  x_descs :: "nc_ndp_desc list"
  x_running :: bool
  x_c :: nc_ndp_ctrl

text \<open>
  \<open>fr_has_frags\<close> is the flag that \<open>xdp_frame_has_frags\<close> reads; it is false for every frame when the kernel has no
  scatter-gather for XDP (\<open>CONFIG_HAVE_XDP_SG\<close> undefined).
\<close>

record xdp_frame =
  fr_id :: nat
  fr_data :: u64
  fr_len :: u32
  fr_headroom :: u32
  fr_frame_sz :: u32
  fr_has_frags :: bool
  fr_page_dma :: u64
  fr_frags :: "xdp_frag list"

record sk_buff =
  sk_id :: nat
  sk_len :: u32
  sk_headlen :: u32
  sk_frags :: "xdp_frag list"

text \<open>What the driver does to the kernel's objects.\<close>

record xworld =
  xw_map :: "nat \<Rightarrow> u64 option"
  xw_maps :: nat
  xw_mapped :: "(u64 \<times> u32) list"
  xw_bad_unmaps :: nat
  xw_pad_fails :: "nat \<Rightarrow> bool"
  xw_skb_freed :: "nat list"
  xw_frame_returned :: "nat list"
  xw_xsk_freed :: "nat list"
  xw_xsk_completed :: "u32 list"
  xw_zeroed :: "(u64 \<times> u32) list"

text \<open>
  How a function can fail to return: by \<open>BUG()\<close>, by a loop that does not end, by an access through a null
  or uninitialised pointer.
\<close>

datatype xstop = XBug | XHung | XFault

abbreviation (input) ETH_ZLEN :: u32 where "ETH_ZLEN \<equiv> 60"
abbreviation (input) XDP_PACKET_HEADROOM :: u64 where "XDP_PACKET_HEADROOM \<equiv> 256"
abbreviation (input) ENOTSUPP :: int where "ENOTSUPP \<equiv> 524"

section \<open>Kernel services\<close>

definition dma_map :: "u32 \<Rightarrow> xworld \<Rightarrow> u64 option \<times> xworld" where
  "dma_map len w =
     (case xw_map w (xw_maps w) of
        None \<Rightarrow> (None, w\<lparr>xw_maps := Suc (xw_maps w)\<rparr>)
      | Some a \<Rightarrow> (Some a, w\<lparr>xw_maps := Suc (xw_maps w), xw_mapped := (a, len) # xw_mapped w\<rparr>))"

definition dma_unmap_single :: "u64 \<Rightarrow> u32 \<Rightarrow> xworld \<Rightarrow> xworld" where
  "dma_unmap_single dma len w =
     (if (dma, len) \<in> set (xw_mapped w) then w\<lparr>xw_mapped := remove1 (dma, len) (xw_mapped w)\<rparr>
      else w\<lparr>xw_bad_unmaps := Suc (xw_bad_unmaps w)\<rparr>)"

definition dev_kfree_skb :: "nat \<Rightarrow> xworld \<Rightarrow> xworld" where
  "dev_kfree_skb p w = w\<lparr>xw_skb_freed := p # xw_skb_freed w\<rparr>"

definition xdp_return_frame :: "nat \<Rightarrow> xworld \<Rightarrow> xworld" where
  "xdp_return_frame p w = w\<lparr>xw_frame_returned := p # xw_frame_returned w\<rparr>"

definition xsk_buff_free :: "nat \<Rightarrow> xworld \<Rightarrow> xworld" where
  "xsk_buff_free p w = w\<lparr>xw_xsk_freed := p # xw_xsk_freed w\<rparr>"

section \<open>Reclaiming\<close>

text \<open>One turn of the loop over the completed slots.\<close>

definition tx_free_slot :: "u32 \<Rightarrow> xctrl \<times> xworld \<Rightarrow> xstop + xctrl \<times> xworld" where
  "tx_free_slot i = (\<lambda>(ctrl, w).
     let b = x_buffers ctrl ! unat i;
         done = (\<lambda>c w'. Inr (c\<lparr>x_buffers := (x_buffers c)[unat i := b\<lparr>tb_type := NFB_XCTRL_BUFF_BUG\<rparr>]\<rparr>, w'))
     in case tb_type b of
        NFB_XCTRL_BUFF_FRAME_PP \<Rightarrow>
          (case tb_ptr b of None \<Rightarrow> Inl XFault | Some p \<Rightarrow> done ctrl (xdp_return_frame p w))
      | NFB_XCTRL_BUFF_XSK \<Rightarrow> done (ctrl\<lparr>x_completed_xsk_tx := x_completed_xsk_tx ctrl + 1\<rparr>) w
      | NFB_XCTRL_BUFF_XSK_REXMIT \<Rightarrow>
          (case tb_ptr b of None \<Rightarrow> Inl XFault | Some p \<Rightarrow> done ctrl (xsk_buff_free p w))
      | NFB_XCTRL_BUFF_SKB \<Rightarrow>
          (let w1 = dma_unmap_single (tb_dma b) (tb_len b) w
           in done ctrl (case tb_ptr b of None \<Rightarrow> w1 | Some p \<Rightarrow> dev_kfree_skb p w1))
      | NFB_XCTRL_BUFF_FRAME \<Rightarrow>
          (let w1 = dma_unmap_single (tb_dma b) (tb_len b) w
           in done ctrl (case tb_ptr b of None \<Rightarrow> w1 | Some p \<Rightarrow> xdp_return_frame p w1))
      | NFB_XCTRL_BUFF_DESC_TYPE0 \<Rightarrow> done ctrl w
      | NFB_XCTRL_BUFF_BUG \<Rightarrow> Inl XBug)"

text \<open>
  The loop \<open>for (i = hdp_old; i != hdp_new; i++, i &= mdp)\<close> with fuel: it has visited every slot after \<open>mdp\<close>
  + 1 turns, so that much fuel is enough whenever it ends at all.
\<close>

primrec tx_free_loop :: "nat \<Rightarrow> u32 \<Rightarrow> u32 \<Rightarrow> u32 \<Rightarrow> xctrl \<times> xworld \<Rightarrow> xstop + xctrl \<times> xworld" where
  "tx_free_loop 0 mdp i hdp_new st = (if i = hdp_new then Inr st else Inl XHung)"
| "tx_free_loop (Suc n) mdp i hdp_new st =
     (if i = hdp_new then Inr st
      else case tx_free_slot i st of
        Inl e \<Rightarrow> Inl e
      | Inr st1 \<Rightarrow> tx_free_loop n mdp ((i + 1) AND mdp) hdp_new st1)"

definition nfb_xctrl_tx_free_buffers :: "bool \<Rightarrow> xctrl \<Rightarrow> xworld \<Rightarrow> xstop + xctrl \<times> xworld" where
  "nfb_xctrl_tx_free_buffers cleanup ctrl w =
     (let mdp = nc_mdp (x_c ctrl); hdp_old = nc_hdp (x_c ctrl);
          ctrl1 = (if cleanup then ctrl else ctrl\<lparr>x_c := nc_ndp_ctrl_hdp_update (x_c ctrl)\<rparr>)
      in tx_free_loop (Suc (unat mdp)) mdp hdp_old (nc_hdp (x_c ctrl1)) (ctrl1, w))"

section \<open>Writing descriptors\<close>

text \<open>Descriptor and item of one slot; the software pointer is a local variable until the end.\<close>

definition xtx_put ::
  "(xctrl_tx_buffer \<Rightarrow> xctrl_tx_buffer) \<Rightarrow> nc_ndp_desc \<Rightarrow> u32 \<times> xctrl \<Rightarrow> u32 \<times> xctrl" where
  "xtx_put upd d = (\<lambda>(sdp, ctrl).
     ((sdp + 1) AND nc_mdp (x_c ctrl),
      ctrl\<lparr>x_descs := (x_descs ctrl)[unat sdp := d],
           x_buffers := (x_buffers ctrl)[unat sdp := upd (x_buffers ctrl ! unat sdp)]\<rparr>))"

text \<open>A segment of a packet: a type 0 descriptor first when the upper part of the address changes.\<close>

definition xtx_seg ::
  "(xctrl_tx_buffer \<Rightarrow> xctrl_tx_buffer) \<Rightarrow> u64 \<Rightarrow> u32 \<Rightarrow> bool \<Rightarrow> u32 \<times> xctrl \<Rightarrow> u32 \<times> xctrl" where
  "xtx_seg upd dma len nxt = (\<lambda>(sdp, ctrl).
     let st = (if NDP_CTRL_DESC_UPPER_ADDR dma \<noteq> nc_last_upper_addr (x_c ctrl)
               then xtx_put (tb_type_update (\<lambda>_. NFB_XCTRL_BUFF_DESC_TYPE0)) (nc_ndp_tx_desc0 dma)
                      (sdp, ctrl\<lparr>x_c := (x_c ctrl)\<lparr>nc_last_upper_addr := NDP_CTRL_DESC_UPPER_ADDR dma\<rparr>\<rparr>)
               else (sdp, ctrl))
     in xtx_put upd (nc_ndp_tx_desc2 dma (ucast len) 0 nxt) st)"

definition xtx_free_desc :: "xctrl \<Rightarrow> u32" where
  "xtx_free_desc ctrl = (nc_hdp (x_c ctrl) - nc_sdp (x_c ctrl) - 1) AND nc_mdp (x_c ctrl)"

definition xtx_set_sdp :: "u32 \<Rightarrow> xctrl \<Rightarrow> xctrl" where
  "xtx_set_sdp sdp ctrl = ctrl\<lparr>x_c := (x_c ctrl)\<lparr>nc_sdp := sdp\<rparr>\<rparr>"

text \<open>
  The loop over the fragments.  \<open>frag_dma\<close> is how the address of a fragment is found, \<open>fill\<close> what is stored in its
  item; the result is the index of the fragment whose mapping failed, if any.
\<close>

primrec frag_loop ::
  "(xdp_frag \<Rightarrow> xworld \<Rightarrow> u64 option \<times> xworld) \<Rightarrow> (u64 \<Rightarrow> u32 \<Rightarrow> xctrl_tx_buffer \<Rightarrow> xctrl_tx_buffer) \<Rightarrow>
   nat \<Rightarrow> xdp_frag list \<Rightarrow> u32 \<times> xctrl \<Rightarrow> xworld \<Rightarrow> nat option \<times> (u32 \<times> xctrl) \<times> xworld" where
  "frag_loop frag_dma fill i [] st w = (None, st, w)"
| "frag_loop frag_dma fill i (fg # fgs) st w =
     (case frag_dma fg w of
        (None, w1) \<Rightarrow> (Some i, st, w1)
      | (Some dma, w1) \<Rightarrow>
          frag_loop frag_dma fill (Suc i) fgs
            (xtx_seg (fill dma (fg_size fg)) dma (fg_size fg) (fgs \<noteq> []) st) w1)"

text \<open>\<open>unmap_exit\<close>: the slots from the software pointer on are visited, as many as buffers were mapped.\<close>

primrec unmap_loop :: "xdp_ctrl_tx_buff_type \<Rightarrow> nat \<Rightarrow> u32 \<Rightarrow> xctrl \<Rightarrow> xworld \<Rightarrow> xworld" where
  "unmap_loop ty 0 sdp ctrl w = w"
| "unmap_loop ty (Suc n) sdp ctrl w =
     (let b = x_buffers ctrl ! unat sdp;
          w1 = (if tb_type b = ty then dma_unmap_single (tb_dma b) (tb_len b) w else w)
      in unmap_loop ty n ((sdp + 1) AND nc_mdp (x_c ctrl)) ctrl w1)"

section \<open>Frames\<close>

definition frame_item :: "bool \<Rightarrow> nat \<Rightarrow> u64 \<Rightarrow> u32 \<Rightarrow> xctrl_tx_buffer \<Rightarrow> xctrl_tx_buffer" where
  "frame_item pp p dma len b =
     b\<lparr>tb_type := if pp then NFB_XCTRL_BUFF_FRAME_PP else NFB_XCTRL_BUFF_FRAME,
       tb_ptr := Some p, tb_dma := dma, tb_len := len\<rparr>"

definition frame_frag_item :: "bool \<Rightarrow> u64 \<Rightarrow> u32 \<Rightarrow> xctrl_tx_buffer \<Rightarrow> xctrl_tx_buffer" where
  "frame_frag_item pp dma len b =
     (if pp then b\<lparr>tb_type := NFB_XCTRL_BUFF_DESC_TYPE0, tb_dma := dma, tb_len := len\<rparr>
      else b\<lparr>tb_type := NFB_XCTRL_BUFF_FRAME, tb_ptr := None, tb_dma := dma, tb_len := len\<rparr>)"

definition frag_dma_of :: "bool \<Rightarrow> xdp_frag \<Rightarrow> xworld \<Rightarrow> u64 option \<times> xworld" where
  "frag_dma_of pp fg w = (if pp then (Some (fg_page_dma fg + ucast (fg_off fg)), w) else dma_map (fg_size fg) w)"

definition nfb_xctrl_tx_submit_frame_needs_lock :: "xdp_frame \<Rightarrow> bool \<Rightarrow> xctrl \<Rightarrow> xworld \<Rightarrow> int \<times> xctrl \<times> xworld" where
  "nfb_xctrl_tx_submit_frame_needs_lock frame pp ctrl w =
     (let nr_frags = of_nat (length (fr_frags frame)) :: u32
      in if xtx_free_desc ctrl < (nr_frags + 1) * 2 then (- EBUSY, ctrl, w)
      else if fr_len frame < ETH_ZLEN \<and> fr_frame_sz frame - fr_headroom frame < ETH_ZLEN then (- ENOTSUPP, ctrl, w)
      else
        let len = (if fr_len frame < ETH_ZLEN then ETH_ZLEN else fr_len frame);
            w0 = (if fr_len frame < ETH_ZLEN
                  then w\<lparr>xw_zeroed := (fr_data frame + ucast (fr_len frame), ETH_ZLEN - fr_len frame) # xw_zeroed w\<rparr>
                  else w)
        in case (if pp then (Some (fr_page_dma frame + XDP_PACKET_HEADROOM), w0) else dma_map len w0) of
          (None, w1) \<Rightarrow> (- ENOMEM, ctrl, w1)
        | (Some dma, w1) \<Rightarrow>
          case frag_loop (frag_dma_of pp) (frame_frag_item pp) 0 (fr_frags frame)
                 (xtx_seg (frame_item pp (fr_id frame) dma len) dma len (fr_has_frags frame) (nc_sdp (x_c ctrl), ctrl)) w1 of
            (None, (sdp, ctrl1), w2) \<Rightarrow> (0, xtx_set_sdp sdp ctrl1, w2)
          | (Some i, (_, ctrl1), w2) \<Rightarrow>
              (- ENOMEM, ctrl1, unmap_loop NFB_XCTRL_BUFF_FRAME (i + 1) (nc_sdp (x_c ctrl1)) ctrl1 w2))"

text \<open>Redirected frames: the ones after the first failure stay with the caller.\<close>

primrec xdp_xmit_loop :: "xdp_frame list \<Rightarrow> int \<Rightarrow> xctrl \<Rightarrow> xworld \<Rightarrow> int \<times> xctrl \<times> xworld" where
  "xdp_xmit_loop [] cnt ctrl w = (cnt, ctrl, w)"
| "xdp_xmit_loop (f # fs) cnt ctrl w =
     (case nfb_xctrl_tx_submit_frame_needs_lock f False ctrl w of (ret, ctrl1, w1) \<Rightarrow>
      if ret \<noteq> 0 then (cnt, ctrl1, w1) else xdp_xmit_loop fs (cnt + 1) ctrl1 w1)"

definition xtx_flush :: "xctrl \<Rightarrow> xctrl" where
  "xtx_flush ctrl = ctrl\<lparr>x_c := nc_ndp_ctrl_sdp_flush (x_c ctrl)\<rparr>"

definition nfb_xctrl_xdp_xmit :: "xdp_frame list \<Rightarrow> bool \<Rightarrow> xctrl \<Rightarrow> xworld \<Rightarrow> int \<times> xctrl \<times> xworld" where
  "nfb_xctrl_xdp_xmit frames flush ctrl w =
     (case xdp_xmit_loop frames 0 ctrl w of (cnt, ctrl1, w1) \<Rightarrow>
      (cnt, if flush then xtx_flush ctrl1 else ctrl1, w1))"

text \<open>
  Retransmission in page-pool mode.  \<open>frame\<close> is what \<open>xdp_convert_buff_to_frame\<close> returns; after a failed
  conversion the null pointer is passed to \<open>xdp_return_frame\<close>, which reads through it.
\<close>

definition nfb_xctrl_rexmit_pp :: "xdp_frame option \<Rightarrow> xctrl \<Rightarrow> xworld \<Rightarrow> xstop + int \<times> xctrl \<times> xworld" where
  "nfb_xctrl_rexmit_pp frame ctrl w =
     (case frame of
        None \<Rightarrow> Inl XFault
      | Some f \<Rightarrow>
        (case nfb_xctrl_tx_submit_frame_needs_lock f True ctrl w of (ret, ctrl1, w1) \<Rightarrow>
         Inr (ret, ctrl1, if ret \<noteq> 0 then xdp_return_frame (fr_id f) w1 else w1)))"

section \<open>Packets of the kernel stack\<close>

definition skb_item :: "nat option \<Rightarrow> u64 \<Rightarrow> u32 \<Rightarrow> xctrl_tx_buffer \<Rightarrow> xctrl_tx_buffer" where
  "skb_item p dma len b = b\<lparr>tb_type := NFB_XCTRL_BUFF_SKB, tb_ptr := p, tb_dma := dma, tb_len := len\<rparr>"

text \<open>
  \<open>skb_padto\<close> frees the socket buffer when it fails; its result is not looked at.  \<open>xmit_more\<close> is
  \<open>netdev_xmit_more()\<close>; the function always returns \<open>NETDEV_TX_OK\<close>.
\<close>

definition nfb_xctrl_start_xmit :: "sk_buff \<Rightarrow> bool \<Rightarrow> xctrl \<Rightarrow> xworld \<Rightarrow> xctrl \<times> xworld" where
  "nfb_xctrl_start_xmit skb xmit_more ctrl w =
     (let nr_frags = of_nat (length (sk_frags skb)) :: u32
      in if xtx_free_desc ctrl < (nr_frags + 1) * 2 then (ctrl, dev_kfree_skb (sk_id skb) w)
      else
        let len = (if sk_len skb < ETH_ZLEN then ETH_ZLEN else sk_headlen skb);
            w0 = (if sk_len skb < ETH_ZLEN \<and> xw_pad_fails w (sk_id skb) then dev_kfree_skb (sk_id skb) w else w)
        in case dma_map len w0 of
          (None, w1) \<Rightarrow> (ctrl, dev_kfree_skb (sk_id skb) w1)
        | (Some dma, w1) \<Rightarrow>
          case frag_loop (frag_dma_of False) (skb_item None) 0 (sk_frags skb)
                 (xtx_seg (skb_item (Some (sk_id skb)) dma len) dma len (nr_frags \<noteq> 0) (nc_sdp (x_c ctrl), ctrl)) w1 of
            (None, (sdp, ctrl1), w2) \<Rightarrow>
              (let ctrl2 = xtx_set_sdp sdp ctrl1 in (if xmit_more then ctrl2 else xtx_flush ctrl2, w2))
          | (Some i, (_, ctrl1), w2) \<Rightarrow>
              (ctrl1, dev_kfree_skb (sk_id skb) (unmap_loop NFB_XCTRL_BUFF_SKB (i + 1) (nc_sdp (x_c ctrl1)) ctrl1 w2)))"

section \<open>AF\_XDP\<close>

text \<open>Retransmission of a received buffer with its fragments: padding goes through a pointer that was never set.\<close>

definition rexmit_item :: "xdp_buff \<Rightarrow> xctrl_tx_buffer \<Rightarrow> xctrl_tx_buffer" where
  "rexmit_item xdp b = b\<lparr>tb_type := NFB_XCTRL_BUFF_XSK_REXMIT, tb_ptr := Some (xb_id xdp),
      tb_dma := xb_dma xdp, tb_len := xb_len xdp\<rparr>"

primrec rexmit_xsk_loop :: "xdp_buff list \<Rightarrow> u32 \<times> xctrl \<Rightarrow> u32 \<times> xctrl" where
  "rexmit_xsk_loop [] st = st"
| "rexmit_xsk_loop (f # fs) st =
     rexmit_xsk_loop fs (xtx_seg (rexmit_item f) (xb_dma f) (xb_len f) (fs \<noteq> []) st)"

definition nfb_xctrl_rexmit_xsk :: "xdp_buff \<Rightarrow> xdp_buff list \<Rightarrow> xctrl \<Rightarrow> xworld \<Rightarrow> xstop + int \<times> xctrl \<times> xworld" where
  "nfb_xctrl_rexmit_xsk xdp frags ctrl w =
     (let bufs = xdp # frags
      in if list_ex (\<lambda>f. xb_len f < ETH_ZLEN) bufs then Inl XFault
      else if xtx_free_desc ctrl < of_nat (length bufs) * 2 then
        Inr (- EBUSY, ctrl, fold (xsk_buff_free \<circ> xb_id) bufs w)
      else case rexmit_xsk_loop bufs (nc_sdp (x_c ctrl), ctrl) of (sdp, ctrl1) \<Rightarrow>
        Inr (0, xtx_set_sdp sdp ctrl1, w))"

text \<open>A descriptor of the socket: address of the data, bus address, length and end of packet.\<close>

record xdp_desc =
  xd_data :: u64
  xd_dma :: u64
  xd_len :: u32
  xd_eop :: bool

primrec xsk_tx_loop :: "xdp_desc list \<Rightarrow> u32 \<times> xctrl \<Rightarrow> xworld \<Rightarrow> (u32 \<times> xctrl) \<times> xworld" where
  "xsk_tx_loop [] st w = (st, w)"
| "xsk_tx_loop (d # ds) st w =
     (let short = xd_len d < ETH_ZLEN;
          len = (if short then ETH_ZLEN else xd_len d);
          w1 = (if short then w\<lparr>xw_zeroed := (xd_data d + ucast (xd_len d), ETH_ZLEN - xd_len d) # xw_zeroed w\<rparr> else w)
      in xsk_tx_loop ds
           (xtx_seg (tb_type_update (\<lambda>_. NFB_XCTRL_BUFF_XSK)) (xd_dma d) len (\<not> xd_eop d) st) w1)"

text \<open>
  \<open>avail\<close> are the descriptors the socket has to send: \<open>xsk_tx_peek_release_desc_batch\<close> takes at most \<open>budget\<close> of
  them.  The result is the work done; the poll is complete when it is less than the budget.
\<close>

definition nfb_xctrl_napi_poll_tx_xsk :: "xdp_desc list \<Rightarrow> u32 \<Rightarrow> xctrl \<Rightarrow> xworld \<Rightarrow> nat \<times> xctrl \<times> xworld" where
  "nfb_xctrl_napi_poll_tx_xsk avail budget ctrl w =
     (if xtx_free_desc ctrl < budget * 2 then (0, xtx_flush ctrl, w)
      else
        let buffs = take (unat budget) avail
        in if buffs = [] then (0, xtx_flush ctrl, w)
        else case xsk_tx_loop buffs (nc_sdp (x_c ctrl), ctrl) w of ((sdp, ctrl1), w1) \<Rightarrow>
          (length buffs, xtx_flush (xtx_set_sdp sdp ctrl1), w1))"

section \<open>The ring as a queue of work\<close>

text \<open>What the reclaim of an item does.\<close>

datatype xtx_work =
    WNone
  | WReturn nat
  | WXskDone
  | WXskFree nat
  | WSkb "nat option" u64 u32
  | WFrame "nat option" u64 u32
  | WStuck

definition tx_work :: "xctrl_tx_buffer \<Rightarrow> xtx_work" where
  "tx_work b =
     (case tb_type b of
        NFB_XCTRL_BUFF_DESC_TYPE0 \<Rightarrow> WNone
      | NFB_XCTRL_BUFF_FRAME_PP \<Rightarrow> (case tb_ptr b of None \<Rightarrow> WStuck | Some p \<Rightarrow> WReturn p)
      | NFB_XCTRL_BUFF_FRAME \<Rightarrow> WFrame (tb_ptr b) (tb_dma b) (tb_len b)
      | NFB_XCTRL_BUFF_SKB \<Rightarrow> WSkb (tb_ptr b) (tb_dma b) (tb_len b)
      | NFB_XCTRL_BUFF_XSK \<Rightarrow> WXskDone
      | NFB_XCTRL_BUFF_XSK_REXMIT \<Rightarrow> (case tb_ptr b of None \<Rightarrow> WStuck | Some p \<Rightarrow> WXskFree p)
      | NFB_XCTRL_BUFF_BUG \<Rightarrow> WStuck)"

fun work_do :: "xtx_work \<Rightarrow> xworld \<Rightarrow> xworld" where
  "work_do (WReturn p) w = xdp_return_frame p w"
| "work_do (WXskFree p) w = xsk_buff_free p w"
| "work_do (WSkb p dma len) w =
     (let w1 = dma_unmap_single dma len w in case p of None \<Rightarrow> w1 | Some s \<Rightarrow> dev_kfree_skb s w1)"
| "work_do (WFrame p dma len) w =
     (let w1 = dma_unmap_single dma len w in case p of None \<Rightarrow> w1 | Some f \<Rightarrow> xdp_return_frame f w1)"
| "work_do _ w = w"

text \<open>The mappings and objects that a piece of work stands for.\<close>

fun work_maps :: "xtx_work \<Rightarrow> (u64 \<times> u32) list" where
  "work_maps (WSkb p dma len) = [(dma, len)]"
| "work_maps (WFrame p dma len) = [(dma, len)]"
| "work_maps _ = []"

fun work_skbs :: "xtx_work \<Rightarrow> nat list" where
  "work_skbs (WSkb (Some p) dma len) = [p]"
| "work_skbs _ = []"

fun work_frames :: "xtx_work \<Rightarrow> nat list" where
  "work_frames (WReturn p) = [p]"
| "work_frames (WFrame (Some p) dma len) = [p]"
| "work_frames _ = []"

fun work_xsks :: "xtx_work \<Rightarrow> nat list" where
  "work_xsks (WXskFree p) = [p]"
| "work_xsks _ = []"

abbreviation maps_of :: "xtx_work list \<Rightarrow> (u64 \<times> u32) list" where "maps_of ws \<equiv> concat (map work_maps ws)"
abbreviation skbs_of :: "xtx_work list \<Rightarrow> nat list" where "skbs_of ws \<equiv> concat (map work_skbs ws)"
abbreviation frames_of :: "xtx_work list \<Rightarrow> nat list" where "frames_of ws \<equiv> concat (map work_frames ws)"
abbreviation xsks_of :: "xtx_work list \<Rightarrow> nat list" where "xsks_of ws \<equiv> concat (map work_xsks ws)"

definition works_done :: "xtx_work list \<Rightarrow> u32" where
  "works_done ws = of_nat (length (filter (\<lambda>x. x = WXskDone) ws))"

lemma work_maps_length: "length (work_maps x) \<le> 1"
  by (cases x) simp_all

lemma unmap_mapped:
  "(dma, len) \<in># mset (xw_mapped w) \<Longrightarrow> dma_unmap_single dma len w = w\<lparr>xw_mapped := remove1 (dma, len) (xw_mapped w)\<rparr>"
  by (simp add: dma_unmap_single_def)

text \<open>Work whose mappings are in force takes them away, gives its objects back and leaves the rest alone.\<close>

lemma work_do_effect:
  assumes "mset (work_maps x) \<subseteq># mset (xw_mapped w)"
  shows "mset (xw_mapped (work_do x w)) = mset (xw_mapped w) - mset (work_maps x) \<and>
    xw_bad_unmaps (work_do x w) = xw_bad_unmaps w \<and>
    mset (xw_skb_freed (work_do x w)) = mset (work_skbs x) + mset (xw_skb_freed w) \<and>
    mset (xw_frame_returned (work_do x w)) = mset (work_frames x) + mset (xw_frame_returned w) \<and>
    mset (xw_xsk_freed (work_do x w)) = mset (work_xsks x) + mset (xw_xsk_freed w) \<and>
    xw_map (work_do x w) = xw_map w \<and> xw_maps (work_do x w) = xw_maps w \<and> xw_pad_fails (work_do x w) = xw_pad_fails w"
  using assms
  by (cases x) (auto simp: unmap_mapped dev_kfree_skb_def xdp_return_frame_def xsk_buff_free_def Let_def split: option.splits)

lemma works_do_effect:
  assumes "mset (maps_of ws) \<subseteq># mset (xw_mapped w)"
  shows "mset (xw_mapped (fold work_do ws w)) = mset (xw_mapped w) - mset (maps_of ws) \<and>
    xw_bad_unmaps (fold work_do ws w) = xw_bad_unmaps w \<and>
    mset (xw_skb_freed (fold work_do ws w)) = mset (skbs_of ws) + mset (xw_skb_freed w) \<and>
    mset (xw_frame_returned (fold work_do ws w)) = mset (frames_of ws) + mset (xw_frame_returned w) \<and>
    mset (xw_xsk_freed (fold work_do ws w)) = mset (xsks_of ws) + mset (xw_xsk_freed w) \<and>
    xw_map (fold work_do ws w) = xw_map w \<and> xw_maps (fold work_do ws w) = xw_maps w \<and>
    xw_pad_fails (fold work_do ws w) = xw_pad_fails w"
  using assms
proof (induction ws arbitrary: w)
  case (Cons x ws)
  have sub: "mset (work_maps x) \<subseteq># mset (xw_mapped w)" using Cons.prems by (auto intro: subset_mset.order_trans [rotated])
  note e = work_do_effect [OF sub]
  obtain r where "mset (xw_mapped w) = mset (work_maps x) + mset (maps_of ws) + r"
    using Cons.prems by (auto simp: mset_subset_eq_exists_conv)
  then have "mset (maps_of ws) \<subseteq># mset (xw_mapped (work_do x w))" using e by (simp add: union_assoc)
  note ih = Cons.IH [OF this]
  show ?case
    using e ih by (simp add: union_ac)
qed simp

text \<open>The shape of a transmit controller: a ring of \<open>2 ^ k\<close> descriptors with their items.\<close>

definition xtx_shape :: "nat \<Rightarrow> xctrl \<Rightarrow> bool" where
  "xtx_shape k ctrl \<longleftrightarrow> k \<le> 31 \<and> nc_mdp (x_c ctrl) = mask k \<and> length (x_buffers ctrl) = 2 ^ k \<and>
     length (x_descs ctrl) = 2 ^ k"

definition works :: "nat \<Rightarrow> u32 \<Rightarrow> u32 \<Rightarrow> xctrl \<Rightarrow> xtx_work list" where
  "works k a b ctrl = map tx_work (ring_view k a b (x_buffers ctrl))"

lemma tx_free_slot_work:
  assumes "tx_work (x_buffers ctrl ! unat i) \<noteq> WStuck"
  shows "tx_free_slot i (ctrl, w) =
    Inr (ctrl\<lparr>x_buffers := (x_buffers ctrl)[unat i := (x_buffers ctrl ! unat i)\<lparr>tb_type := NFB_XCTRL_BUFF_BUG\<rparr>],
              x_completed_xsk_tx := x_completed_xsk_tx ctrl + works_done [tx_work (x_buffers ctrl ! unat i)]\<rparr>,
         work_do (tx_work (x_buffers ctrl ! unat i)) w)"
  using assms
  by (auto simp: tx_free_slot_def tx_work_def works_done_def Let_def split: xdp_ctrl_tx_buff_type.splits option.splits)

text \<open>
  The reclaim does the work of the completed slots in their order, and marks them; what is behind the
  new consumer pointer stays.
\<close>

lemma tx_free_loop_works:
  assumes "k \<le> 32" and "nc_mdp (x_c ctrl) = mask k" and "i AND mask k = i" and "h AND mask k = h"
    and "ring_dist k i h \<le> n" and "WStuck \<notin> set (works k i h ctrl)" and "length (x_buffers ctrl) = 2 ^ k"
  shows "\<exists>bs. tx_free_loop n (mask k) i h (ctrl, w) =
      Inr (ctrl\<lparr>x_buffers := bs, x_completed_xsk_tx := x_completed_xsk_tx ctrl + works_done (works k i h ctrl)\<rparr>,
           fold work_do (works k i h ctrl) w) \<and>
    length bs = 2 ^ k \<and>
    (\<forall>s. ring_dist k i h \<le> ring_dist k i s \<longrightarrow> ring_view k h s bs = ring_view k h s (x_buffers ctrl))"
  using assms(2-)
proof (induction n arbitrary: ctrl i w)
  case 0
  then have "(h - i) AND mask k = 0" by (simp add: ring_dist_def unat_eq_zero)
  then have "h AND mask k = i AND mask k" by (simp only: ring_dist_zero_iff)
  then have "i = h" using 0(2,3) by simp
  then show ?case using 0 by (intro exI [of _ "x_buffers ctrl"]) (simp add: works_def works_done_def)
next
  case (Suc n)
  show ?case
  proof (cases "i = h")
    case True
    then show ?thesis using Suc by (intro exI [of _ "x_buffers ctrl"]) (simp add: works_def works_done_def)
  next
    case False
    let ?i = "(i + 1) AND mask k"
    let ?b = "x_buffers ctrl ! unat i"
    let ?bs = "(x_buffers ctrl)[unat i := ?b\<lparr>tb_type := NFB_XCTRL_BUFF_BUG\<rparr>]"
    have ne: "i AND mask k \<noteq> h AND mask k" using False Suc.prems by simp
    have step: "ring_dist k i h = Suc (ring_dist k ?i h)" by (rule ring_dist_step [OF ne assms(1)])
    have works: "works k i h ctrl = tx_work ?b # works k ?i h ctrl"
      using ring_view_pop [OF ne assms(1) Suc.prems(2), of "x_buffers ctrl"] by (simp add: works_def)
    have b: "tx_work ?b \<noteq> WStuck" using Suc.prems(5) works by auto
    define ctrl1 where "ctrl1 = ctrl\<lparr>x_buffers := ?bs, x_completed_xsk_tx := x_completed_xsk_tx ctrl + works_done [tx_work ?b]\<rparr>"
    have w1: "works k ?i h ctrl1 = works k ?i h ctrl"
      using ring_view_taken [OF ne assms(1) Suc.prems(2), of "x_buffers ctrl"] by (simp add: works_def ctrl1_def)
    have "\<exists>bs. tx_free_loop n (mask k) ?i h (ctrl1, work_do (tx_work ?b) w) =
        Inr (ctrl1\<lparr>x_buffers := bs, x_completed_xsk_tx := x_completed_xsk_tx ctrl1 + works_done (works k ?i h ctrl1)\<rparr>,
             fold work_do (works k ?i h ctrl1) (work_do (tx_work ?b) w)) \<and>
      length bs = 2 ^ k \<and>
      (\<forall>s. ring_dist k ?i h \<le> ring_dist k ?i s \<longrightarrow> ring_view k h s bs = ring_view k h s (x_buffers ctrl1))"
    proof (rule Suc.IH)
      show "nc_mdp (x_c ctrl1) = mask k" "length (x_buffers ctrl1) = 2 ^ k" using Suc.prems by (simp_all add: ctrl1_def)
      show "h AND mask k = h" by (rule Suc.prems(3))
      show "WStuck \<notin> set (works k ?i h ctrl1)" using Suc.prems(5) works w1 by auto
      show "ring_dist k ?i h \<le> n" using Suc.prems(4) step by simp
      show "?i AND mask k = ?i" by simp
    qed
    then obtain bs where bs: "tx_free_loop n (mask k) ?i h (ctrl1, work_do (tx_work ?b) w) =
        Inr (ctrl1\<lparr>x_buffers := bs, x_completed_xsk_tx := x_completed_xsk_tx ctrl1 + works_done (works k ?i h ctrl1)\<rparr>,
             fold work_do (works k ?i h ctrl1) (work_do (tx_work ?b) w))"
      "length bs = 2 ^ k"
      "\<And>s. ring_dist k ?i h \<le> ring_dist k ?i s \<Longrightarrow> ring_view k h s bs = ring_view k h s (x_buffers ctrl1)" by blast
    have dn: "works_done (x # xs) = works_done [x] + works_done xs" for x xs by (simp add: works_done_def)
    have "tx_free_loop (Suc n) (mask k) i h (ctrl, w) =
      Inr (ctrl\<lparr>x_buffers := bs, x_completed_xsk_tx := x_completed_xsk_tx ctrl + works_done (works k i h ctrl)\<rparr>,
           fold work_do (works k i h ctrl) w)"
    proof -
      have "tx_free_loop (Suc n) (mask k) i h (ctrl, w) = tx_free_loop n (mask k) ?i h (ctrl1, work_do (tx_work ?b) w)"
        using False tx_free_slot_work [OF b, of w] by (simp add: ctrl1_def)
      moreover have "ctrl1\<lparr>x_buffers := bs, x_completed_xsk_tx := x_completed_xsk_tx ctrl1 + works_done (works k ?i h ctrl)\<rparr> =
          ctrl\<lparr>x_buffers := bs, x_completed_xsk_tx := x_completed_xsk_tx ctrl + works_done (works k i h ctrl)\<rparr>"
        using dn [of "tx_work ?b" "works k ?i h ctrl"] by (simp add: ctrl1_def works)
      ultimately show ?thesis by (simp only: bs(1) w1) (simp add: works)
    qed
    moreover have "ring_view k h s bs = ring_view k h s (x_buffers ctrl)" if s: "ring_dist k i h \<le> ring_dist k i s" for s
    proof -
      have "i AND mask k \<noteq> s AND mask k"
      proof
        assume "i AND mask k = s AND mask k"
        then have "ring_dist k i s = 0" using ring_dist_zero_iff [of s i k] by (simp add: ring_dist_def)
        then show False using s step by simp
      qed
      then have s2: "ring_dist k i s = Suc (ring_dist k ?i s)" by (rule ring_dist_step [OF _ assms(1)])
      then have "ring_view k h s bs = ring_view k h s ?bs" using bs(3) [of s] s step by (simp add: ctrl1_def)
      also have "\<dots> = ring_view k h s (x_buffers ctrl)"
        by (rule ring_view_behind) (use s step Suc.prems(2) assms(1) in simp_all)
      finally show ?thesis .
    qed
    ultimately show ?thesis using bs(2) by blast
  qed
qed

text \<open>A segment as it is sent: address, length, more segments to come, and the work of its item.\<close>

type_synonym xseg = "u64 \<times> u32 \<times> bool \<times> xtx_work"

definition seg_len :: "xseg \<Rightarrow> u32" where "seg_len s = fst (snd s)"
definition seg_work :: "xseg \<Rightarrow> xtx_work" where "seg_work s = snd (snd (snd s))"

lemma seg_sel [simp]: "seg_len (dma, len, nxt, x) = len" "seg_work (dma, len, nxt, x) = x"
  by (simp_all add: seg_len_def seg_work_def)

fun seg_descs :: "u64 \<Rightarrow> xseg list \<Rightarrow> nc_ndp_desc list" where
  "seg_descs upper [] = []"
| "seg_descs upper ((dma, len, nxt, x) # ss) =
     (if NDP_CTRL_DESC_UPPER_ADDR dma \<noteq> upper then [nc_ndp_tx_desc0 dma] else []) @
     nc_ndp_tx_desc2 dma (ucast len) 0 nxt # seg_descs (NDP_CTRL_DESC_UPPER_ADDR dma) ss"

fun seg_works :: "u64 \<Rightarrow> xseg list \<Rightarrow> xtx_work list" where
  "seg_works upper [] = []"
| "seg_works upper ((dma, len, nxt, x) # ss) =
     (if NDP_CTRL_DESC_UPPER_ADDR dma \<noteq> upper then [WNone] else []) @ x # seg_works (NDP_CTRL_DESC_UPPER_ADDR dma) ss"

fun seg_upper :: "u64 \<Rightarrow> xseg list \<Rightarrow> u64" where
  "seg_upper upper [] = upper"
| "seg_upper upper ((dma, len, nxt, x) # ss) = seg_upper (NDP_CTRL_DESC_UPPER_ADDR dma) ss"

lemma seg_append:
  "seg_descs u (ss @ ts) = seg_descs u ss @ seg_descs (seg_upper u ss) ts"
  "seg_works u (ss @ ts) = seg_works u ss @ seg_works (seg_upper u ss) ts"
  "seg_upper u (ss @ ts) = seg_upper (seg_upper u ss) ts"
  by (induction u ss rule: seg_descs.induct) auto

lemma length_seg_works: "length (seg_works u ss) = length (seg_descs u ss)" "length (seg_descs u ss) \<le> 2 * length ss"
  "length ss \<le> length (seg_descs u ss)"
  by (induction u ss rule: seg_descs.induct) auto

text \<open>The hardware reads the segments: every address in full, every length modulo \<open>2 ^ 16\<close>.\<close>

lemma hw_walk_segs:
  "hw_walk u (seg_descs u ss) = (seg_upper u ss, map (\<lambda>(dma, len, _, _). (dma, ucast (ucast len :: u16))) ss)"
  by (induction u ss rule: seg_descs.induct)
    (auto simp: desc0_type desc0_upper tx_desc2_fields upper_or_lower nc_ndp_tx_desc0_def)

text \<open>
  The state while a packet is written: from consumer pointer \<open>h\<close> to the local software pointer the ring holds the
  descriptors \<open>ds\<close> with the work \<open>ws\<close>, and the controller is \<open>c\<close> but for the upper address \<open>u\<close>.
\<close>

definition xtx_at :: "nat \<Rightarrow> u32 \<Rightarrow> nc_ndp_ctrl \<Rightarrow> u64 \<Rightarrow> nc_ndp_desc list \<Rightarrow> xtx_work list \<Rightarrow> u32 \<times> xctrl \<Rightarrow> bool" where
  "xtx_at k h c u ds ws = (\<lambda>(sdp, ctrl). xtx_shape k ctrl \<and> sdp AND mask k = sdp \<and>
     x_c ctrl = c\<lparr>nc_last_upper_addr := u\<rparr> \<and> ring_view k h sdp (x_descs ctrl) = ds \<and> works k h sdp ctrl = ws)"

lemma xtx_at_length: "xtx_at k h c u ds ws (sdp, ctrl) \<Longrightarrow> length ds = ring_dist k h sdp \<and> length ws = ring_dist k h sdp"
  by (auto simp: xtx_at_def works_def)

lemma xtx_put_at:
  assumes "xtx_at k h c u ds ws st" and "Suc (length ds) < 2 ^ k" and "\<And>b. tx_work (upd b) = x"
  shows "xtx_at k h c u (ds @ [d]) (ws @ [x]) (xtx_put upd d st)"
proof -
  obtain sdp ctrl where st: "st = (sdp, ctrl)" by fastforce
  have "ring_dist k h sdp + 1 < 2 ^ k" "k \<le> 32" "length (x_descs ctrl) = 2 ^ k" "length (x_buffers ctrl) = 2 ^ k"
    "sdp AND mask k = sdp" "nc_mdp (x_c ctrl) = mask k"
    using assms(1,2) by (auto simp: xtx_at_def xtx_shape_def st)
  then show ?thesis
    using assms(1,3) by (auto simp: xtx_at_def xtx_put_def st works_def ring_view_push xtx_shape_def)
qed

lemma xtx_seg_at:
  assumes "xtx_at k h c u ds ws st" and "length ds + 2 < 2 ^ k" and "\<And>b. tx_work (upd b) = x"
  shows "xtx_at k h c (NDP_CTRL_DESC_UPPER_ADDR dma) (ds @ seg_descs u [(dma, len, nxt, x)])
    (ws @ seg_works u [(dma, len, nxt, x)]) (xtx_seg upd dma len nxt st)"
proof -
  obtain sdp ctrl where st: "st = (sdp, ctrl)" by fastforce
  have u: "nc_last_upper_addr (x_c ctrl) = u" using assms(1) by (auto simp: xtx_at_def st)
  show ?thesis
  proof (cases "NDP_CTRL_DESC_UPPER_ADDR dma = u")
    case True
    then show ?thesis using xtx_put_at [OF assms(1) _ assms(3)] assms(2) u by (simp add: xtx_seg_def st)
  next
    case False
    let ?ctrl = "ctrl\<lparr>x_c := (x_c ctrl)\<lparr>nc_last_upper_addr := NDP_CTRL_DESC_UPPER_ADDR dma\<rparr>\<rparr>"
    have "xtx_at k h c (NDP_CTRL_DESC_UPPER_ADDR dma) ds ws (sdp, ?ctrl)"
      using assms(1) by (auto simp: xtx_at_def st xtx_shape_def works_def)
    from xtx_put_at [OF this, where upd = "tb_type_update (\<lambda>_. NFB_XCTRL_BUFF_DESC_TYPE0)" and x = WNone and d = "nc_ndp_tx_desc0 dma"] assms(2)
    have "xtx_at k h c (NDP_CTRL_DESC_UPPER_ADDR dma) (ds @ [nc_ndp_tx_desc0 dma]) (ws @ [WNone])
      (xtx_put (tb_type_update (\<lambda>_. NFB_XCTRL_BUFF_DESC_TYPE0)) (nc_ndp_tx_desc0 dma) (sdp, ?ctrl))"
      by (simp add: tx_work_def)
    from xtx_put_at [OF this _ assms(3), where d = "nc_ndp_tx_desc2 dma (ucast len) 0 nxt"] assms(2) False u
    show ?thesis by (simp add: xtx_seg_def st)
  qed
qed

text \<open>
  The interface between the loop over fragments and its callers: what finding the address of a fragment
  does to the mappings, and what the item stands for.
\<close>

locale xtx_source =
  fixes frag_dma :: "xdp_frag \<Rightarrow> xworld \<Rightarrow> u64 option \<times> xworld"
    and fill :: "u64 \<Rightarrow> u32 \<Rightarrow> xctrl_tx_buffer \<Rightarrow> xctrl_tx_buffer"
    and wk :: "u64 \<Rightarrow> u32 \<Rightarrow> xtx_work"
  assumes frag_None: "frag_dma fg w = (None, w') \<Longrightarrow> w' = w\<lparr>xw_maps := xw_maps w'\<rparr>"
    and frag_Some: "frag_dma fg w = (Some dma, w') \<Longrightarrow>
      w' = w\<lparr>xw_maps := xw_maps w', xw_mapped := work_maps (wk dma (fg_size fg)) @ xw_mapped w\<rparr>"
    and fill_work: "tx_work (fill dma len b) = wk dma len"
begin

lemma frag_loop_at:
  assumes "frag_loop frag_dma fill i fgs st w = (r, st', w')" and "xtx_at k h c u ds ws st"
    and "length ds + 2 * length fgs < 2 ^ k"
  shows "\<exists>ss. xtx_at k h c (seg_upper u ss) (ds @ seg_descs u ss) (ws @ seg_works u ss) st' \<and>
    map seg_len ss = map fg_size (take (length ss) fgs) \<and>
    (\<forall>s \<in> set ss. seg_work s = wk (fst s) (seg_len s)) \<and>
    (case r of None \<Rightarrow> length ss = length fgs | Some j \<Rightarrow> j = i + length ss \<and> length ss < length fgs) \<and>
    w' = w\<lparr>xw_maps := xw_maps w', xw_mapped := xw_mapped w'\<rparr> \<and>
    mset (xw_mapped w') = mset (maps_of (seg_works u ss)) + mset (xw_mapped w)"
  using assms
proof (induction fgs arbitrary: i st w u ds ws)
  case Nil
  then show ?case by (intro exI [of _ "[]"]) auto
next
  case (Cons fg fgs)
  obtain d w1 where d: "frag_dma fg w = (d, w1)" by fastforce
  show ?case
  proof (cases d)
    case None
    then have w1: "w1 = w\<lparr>xw_maps := xw_maps w1\<rparr>" using frag_None d by blast
    have m: "xw_mapped w1 = xw_mapped w" by (subst w1) simp
    have "w1 = w\<lparr>xw_maps := xw_maps w1, xw_mapped := xw_mapped w1\<rparr>" by (subst w1) (simp add: m)
    with Cons.prems d None m show ?thesis by (intro exI [of _ "[]"]) auto
  next
    case (Some dma)
    let ?len = "fg_size fg"
    let ?s = "(dma, ?len, fgs \<noteq> [], wk dma ?len)"
    let ?st = "xtx_seg (fill dma ?len) dma ?len (fgs \<noteq> []) st"
    have w1: "w1 = w\<lparr>xw_maps := xw_maps w1, xw_mapped := work_maps (wk dma ?len) @ xw_mapped w\<rparr>"
      using frag_Some d Some by simp
    have loop: "frag_loop frag_dma fill (Suc i) fgs ?st w1 = (r, st', w')" using Cons.prems(1) d Some by simp
    have at: "xtx_at k h c (NDP_CTRL_DESC_UPPER_ADDR dma) (ds @ seg_descs u [?s]) (ws @ seg_works u [?s]) ?st"
      by (rule xtx_seg_at [OF Cons.prems(2) _ fill_work]) (use Cons.prems(3) in simp)
    have len: "length (ds @ seg_descs u [?s]) + 2 * length fgs < 2 ^ k"
      using Cons.prems(3) length_seg_works(2) [of u "[?s]"] by simp
    from Cons.IH [OF loop at len] obtain ss where
      ss: "xtx_at k h c (seg_upper (NDP_CTRL_DESC_UPPER_ADDR dma) ss) ((ds @ seg_descs u [?s]) @ seg_descs (NDP_CTRL_DESC_UPPER_ADDR dma) ss)
          ((ws @ seg_works u [?s]) @ seg_works (NDP_CTRL_DESC_UPPER_ADDR dma) ss) st'"
        "map seg_len ss = map fg_size (take (length ss) fgs)"
        "\<forall>s \<in> set ss. seg_work s = wk (fst s) (seg_len s)"
        "case r of None \<Rightarrow> length ss = length fgs | Some j \<Rightarrow> j = Suc i + length ss \<and> length ss < length fgs"
        "w' = w1\<lparr>xw_maps := xw_maps w', xw_mapped := xw_mapped w'\<rparr>"
        "mset (xw_mapped w') = mset (maps_of (seg_works (NDP_CTRL_DESC_UPPER_ADDR dma) ss)) + mset (xw_mapped w1)"
      by blast
    have m1: "mset (xw_mapped w1) = mset (work_maps (wk dma ?len)) + mset (xw_mapped w)" by (subst w1) simp
    have "w' = w\<lparr>xw_maps := xw_maps w', xw_mapped := xw_mapped w'\<rparr>" by (subst ss(5), subst w1) simp
    then show ?thesis
      using ss(1-4,6) m1 by (intro exI [of _ "?s # ss"]) (auto split: option.splits)
  qed
qed

end

lemma dma_map_cases:
  "dma_map len w = (None, w') \<Longrightarrow> w' = w\<lparr>xw_maps := Suc (xw_maps w)\<rparr>"
  "dma_map len w = (Some a, w') \<Longrightarrow> w' = w\<lparr>xw_maps := Suc (xw_maps w), xw_mapped := (a, len) # xw_mapped w\<rparr>"
  by (auto simp: dma_map_def split: option.splits)

section \<open>Sending a packet\<close>

definition xtx_ok :: "nat \<Rightarrow> xctrl \<Rightarrow> bool" where
  "xtx_ok k ctrl \<longleftrightarrow> xtx_shape k ctrl \<and> nc_sdp (x_c ctrl) AND mask k = nc_sdp (x_c ctrl) \<and>
     nc_hdp (x_c ctrl) AND mask k = nc_hdp (x_c ctrl)"

text \<open>The descriptors and the work between the two pointers.\<close>

definition pending_descs :: "nat \<Rightarrow> xctrl \<Rightarrow> nc_ndp_desc list" where
  "pending_descs k ctrl = ring_view k (nc_hdp (x_c ctrl)) (nc_sdp (x_c ctrl)) (x_descs ctrl)"

definition pending :: "nat \<Rightarrow> xctrl \<Rightarrow> xtx_work list" where
  "pending k ctrl = works k (nc_hdp (x_c ctrl)) (nc_sdp (x_c ctrl)) ctrl"

lemma length_pending: "length (pending k ctrl) = ring_dist k (nc_hdp (x_c ctrl)) (nc_sdp (x_c ctrl))"
  "length (pending_descs k ctrl) = length (pending k ctrl)"
  by (simp_all add: pending_def pending_descs_def works_def)

lemma xtx_free_desc_count:
  assumes "xtx_ok k ctrl"
  shows "unat (xtx_free_desc ctrl) + length (pending k ctrl) = 2 ^ k - 1"
proof -
  let ?x = "nc_sdp (x_c ctrl) - nc_hdp (x_c ctrl)"
  have k: "k \<le> 32" "nc_mdp (x_c ctrl) = mask k" using assms by (auto simp: xtx_ok_def xtx_shape_def)
  have "NOT ?x = nc_hdp (x_c ctrl) - nc_sdp (x_c ctrl) - 1" by (simp add: not_eq_complement)
  then have free: "xtx_free_desc ctrl = NOT ?x AND mask k" using k by (simp add: xtx_free_desc_def)
  have "(NOT ?x AND mask k) AND (?x AND mask k) = 0" by (rule bit_word_eqI) (simp add: bit_simps)
  then have "(NOT ?x AND mask k) + (?x AND mask k) = (NOT ?x AND mask k) OR (?x AND mask k)" by (rule disjunctive_add_eq_or)
  also have "\<dots> = mask k" by (rule bit_word_eqI) (auto simp: bit_simps)
  finally have sum: "(NOT ?x AND mask k) = mask k - (?x AND mask k)" by (simp add: eq_diff_eq)
  have "?x AND mask k \<le> mask k" by (simp add: word_and_le1)
  then show ?thesis
    unfolding free sum using k(1) by (simp add: unat_sub length_pending ring_dist_def unat_mask word_le_nat_alt)
qed

lemma xtx_at_start:
  assumes "xtx_ok k ctrl"
  shows "xtx_at k (nc_hdp (x_c ctrl)) (x_c ctrl) (nc_last_upper_addr (x_c ctrl)) (pending_descs k ctrl) (pending k ctrl)
    (nc_sdp (x_c ctrl), ctrl)"
  using assms by (simp add: xtx_ok_def xtx_at_def pending_def pending_descs_def)

text \<open>Writing the software pointer makes what was written pending.\<close>

lemma xtx_at_commit:
  assumes "xtx_at k (nc_hdp (x_c ctrl)) (x_c ctrl) u ds ws (sdp, ctrl1)" and "xtx_ok k ctrl"
  shows "xtx_ok k (xtx_set_sdp sdp ctrl1)" "pending k (xtx_set_sdp sdp ctrl1) = ws"
    "pending_descs k (xtx_set_sdp sdp ctrl1) = ds" "nc_last_upper_addr (x_c (xtx_set_sdp sdp ctrl1)) = u"
    "nc_hdp (x_c (xtx_set_sdp sdp ctrl1)) = nc_hdp (x_c ctrl)"
  using assms
  by (simp_all add: xtx_at_def xtx_ok_def pending_def pending_descs_def xtx_set_sdp_def xtx_shape_def works_def)

text \<open>Not writing it leaves what was pending before, and the new items behind the software pointer.\<close>

lemma xtx_at_abandon:
  assumes at: "xtx_at k (nc_hdp (x_c ctrl)) (x_c ctrl) u (pending_descs k ctrl @ ds) (pending k ctrl @ ws) (sdp, ctrl1)"
    and ok: "xtx_ok k ctrl"
  shows "xtx_ok k ctrl1" "pending k ctrl1 = pending k ctrl" "pending_descs k ctrl1 = pending_descs k ctrl"
    "works k (nc_sdp (x_c ctrl1)) sdp ctrl1 = ws" "nc_sdp (x_c ctrl1) = nc_sdp (x_c ctrl)"
proof -
  let ?h = "nc_hdp (x_c ctrl)" and ?s = "nc_sdp (x_c ctrl)"
  have c1: "x_c ctrl1 = (x_c ctrl)\<lparr>nc_last_upper_addr := u\<rparr>" using at by (simp add: xtx_at_def)
  have k: "k \<le> 32" using ok by (simp add: xtx_ok_def xtx_shape_def)
  have len: "ring_dist k ?h sdp = ring_dist k ?h ?s + length ws"
    using xtx_at_length [OF at] by (simp add: length_pending)
  have split: "ring_view k ?h sdp xs = ring_view k ?h ?s xs @ ring_view k ?s sdp xs" for xs :: "'a list"
    using len k by (intro ring_view_split) simp_all
  have "works k ?h ?s ctrl1 @ works k ?s sdp ctrl1 = pending k ctrl @ ws"
    using at by (simp add: xtx_at_def works_def split)
  then have w: "works k ?h ?s ctrl1 = pending k ctrl \<and> works k ?s sdp ctrl1 = ws"
    by (rule append_eq_append_conv [THEN iffD1, rotated]) (simp add: works_def length_pending)
  have "ring_view k ?h sdp (x_descs ctrl1) = ring_view k ?h ?s (x_descs ctrl1) @ ring_view k ?s sdp (x_descs ctrl1)"
    using len k by (intro ring_view_split) simp_all
  then have "ring_view k ?h ?s (x_descs ctrl1) @ ring_view k ?s sdp (x_descs ctrl1) = pending_descs k ctrl @ ds"
    using at by (simp add: xtx_at_def)
  then have d: "ring_view k ?h ?s (x_descs ctrl1) = pending_descs k ctrl"
    by (rule append_eq_append_conv [THEN iffD1, THEN conjunct1, rotated]) (simp add: length_pending)
  show "xtx_ok k ctrl1" using at ok by (simp add: xtx_at_def xtx_ok_def c1)
  show "pending k ctrl1 = pending k ctrl" "pending_descs k ctrl1 = pending_descs k ctrl"
    "works k (nc_sdp (x_c ctrl1)) sdp ctrl1 = ws" "nc_sdp (x_c ctrl1) = nc_sdp (x_c ctrl)"
    using w d by (simp_all add: pending_def [of k ctrl1] pending_descs_def [of k ctrl1] c1)
qed

text \<open>The unmapping visits the first \<open>n\<close> items behind the software pointer.\<close>

lemma unmap_loop_works:
  assumes "k \<le> 32" and "nc_mdp (x_c ctrl) = mask k" and "s AND mask k = s" and "n \<le> ring_dist k s e"
    and "\<forall>b \<in> set (ring_view k s e (x_buffers ctrl)). if tb_type b = ty then work_maps (tx_work b) = [(tb_dma b, tb_len b)]
      else work_maps (tx_work b) = []"
    and "mset (maps_of (take n (works k s e ctrl))) \<subseteq># mset (xw_mapped w)"
  shows "\<exists>m. unmap_loop ty n s ctrl w = w\<lparr>xw_mapped := m\<rparr> \<and>
    mset (xw_mapped w) = mset m + mset (maps_of (take n (works k s e ctrl)))"
  using assms(3-)
proof (induction n arbitrary: s w)
  case 0
  then show ?case by (intro exI [of _ "xw_mapped w"]) simp
next
  case (Suc n)
  let ?s = "(s + 1) AND mask k" and ?b = "x_buffers ctrl ! unat s"
  have ne: "s AND mask k \<noteq> e AND mask k"
    using Suc.prems(2) ring_dist_zero_iff [of e s k] by (auto simp: ring_dist_def)
  have pop: "ring_view k s e (x_buffers ctrl) = ?b # ring_view k ?s e (x_buffers ctrl)"
    by (rule ring_view_pop [OF ne assms(1) Suc.prems(1)])
  then have works: "works k s e ctrl = tx_work ?b # works k ?s e ctrl" by (simp add: works_def)
  define w1 where "w1 = (if tb_type ?b = ty then dma_unmap_single (tb_dma ?b) (tb_len ?b) w else w)"
  obtain rest where rest: "mset (xw_mapped w) = mset (work_maps (tx_work ?b)) + mset (maps_of (take n (works k ?s e ctrl))) + rest"
    using Suc.prems(4) works by (auto simp: mset_subset_eq_exists_conv)
  obtain m1 where m1: "w1 = w\<lparr>xw_mapped := m1\<rparr>" "mset (xw_mapped w) = mset m1 + mset (work_maps (tx_work ?b))"
  proof (cases "tb_type ?b = ty")
    case True
    then have wm: "work_maps (tx_work ?b) = [(tb_dma ?b, tb_len ?b)]" using Suc.prems(3) pop by simp
    then have "(tb_dma ?b, tb_len ?b) \<in># mset (xw_mapped w)" using rest by simp
    then have "w1 = w\<lparr>xw_mapped := remove1 (tb_dma ?b, tb_len ?b) (xw_mapped w)\<rparr>"
      "mset (xw_mapped w) = mset (remove1 (tb_dma ?b, tb_len ?b) (xw_mapped w)) + mset (work_maps (tx_work ?b))"
      using True wm by (simp_all add: w1_def unmap_mapped)
    then show ?thesis by (rule that)
  next
    case False
    then have "w1 = w\<lparr>xw_mapped := xw_mapped w\<rparr>" "mset (xw_mapped w) = mset (xw_mapped w) + mset (work_maps (tx_work ?b))"
      using Suc.prems(3) pop by (simp_all add: w1_def)
    then show ?thesis by (rule that)
  qed
  have "mset m1 + mset (work_maps (tx_work ?b)) = mset (maps_of (take n (works k ?s e ctrl))) + rest + mset (work_maps (tx_work ?b))"
    unfolding m1(2) [symmetric] rest by (simp only: ac_simps)
  then have "mset m1 = mset (maps_of (take n (works k ?s e ctrl))) + rest" by (rule add_right_imp_eq)
  then have "mset (maps_of (take n (works k ?s e ctrl))) \<subseteq># mset (xw_mapped w1)" by (simp add: m1(1))
  from Suc.IH [of ?s w1, OF _ _ _ this] obtain m where m: "unmap_loop ty n ?s ctrl w1 = w1\<lparr>xw_mapped := m\<rparr>"
    "mset (xw_mapped w1) = mset m + mset (maps_of (take n (works k ?s e ctrl)))"
    using Suc.prems(2,3) pop ring_dist_step [OF ne assms(1)] by auto
  have "unmap_loop ty (Suc n) s ctrl w = unmap_loop ty n ?s ctrl w1" using assms(2) by (simp add: w1_def Let_def)
  with m m1 works show ?case by (intro exI [of _ m]) (simp add: union_ac)
qed

lemma seg_works_concat: "f WNone = [] \<Longrightarrow> concat (map f (seg_works u ss)) = concat (map (f \<circ> seg_work) ss)"
  by (induction u ss rule: seg_works.induct) auto

lemma seg_works_set: "x \<in> set (seg_works u ss) \<Longrightarrow> x = WNone \<or> (\<exists>s \<in> set ss. x = seg_work s)"
  by (induction u ss rule: seg_works.induct) (auto split: if_splits)

lemmas seg_of_works = seg_works_concat [of work_maps, simplified] seg_works_concat [of work_skbs, simplified]
  seg_works_concat [of work_frames, simplified] seg_works_concat [of work_xsks, simplified]

text \<open>The world with other mappings, and with other padding and count of requests.\<close>

definition w_upd :: "xworld \<Rightarrow> xworld \<Rightarrow> bool" where
  "w_upd w w' \<longleftrightarrow> w' = w\<lparr>xw_maps := xw_maps w', xw_mapped := xw_mapped w', xw_zeroed := xw_zeroed w'\<rparr>"

lemma w_upd_same:
  "w_upd w w' \<Longrightarrow> xw_bad_unmaps w' = xw_bad_unmaps w \<and> xw_skb_freed w' = xw_skb_freed w \<and>
    xw_frame_returned w' = xw_frame_returned w \<and> xw_xsk_freed w' = xw_xsk_freed w \<and> xw_map w' = xw_map w \<and>
    xw_pad_fails w' = xw_pad_fails w"
  by (cases w, cases w') (simp add: w_upd_def)

lemma w_upd_iff:
  "w_upd w w' \<longleftrightarrow> xw_bad_unmaps w' = xw_bad_unmaps w \<and> xw_skb_freed w' = xw_skb_freed w \<and>
    xw_frame_returned w' = xw_frame_returned w \<and> xw_xsk_freed w' = xw_xsk_freed w \<and> xw_map w' = xw_map w \<and>
    xw_pad_fails w' = xw_pad_fails w \<and> xw_xsk_completed w' = xw_xsk_completed w"
  by (cases w, cases w') (auto simp: w_upd_def)

context xtx_source
begin

text \<open>A head with its fragments, whether the loop ends or a mapping fails.\<close>

lemma packet_at:
  assumes loop: "frag_loop frag_dma fill 0 fgs (xtx_seg upd dma len nxt (nc_sdp (x_c ctrl), ctrl)) w = (r, st', w')"
    and ok: "xtx_ok k ctrl" and free: "2 * (length fgs + 1) \<le> unat (xtx_free_desc ctrl)"
    and upd: "\<And>b. tx_work (upd b) = x" and u: "u = nc_last_upper_addr (x_c ctrl)"
    and mapped: "mset (xw_mapped w) = mset (work_maps x) + m0"
  shows "\<exists>fs. let ss = (dma, len, nxt, x) # fs in
    xtx_at k (nc_hdp (x_c ctrl)) (x_c ctrl) (seg_upper u ss) (pending_descs k ctrl @ seg_descs u ss)
      (pending k ctrl @ seg_works u ss) st' \<and>
    map seg_len ss = len # map fg_size (take (length fs) fgs) \<and>
    (\<forall>s \<in> set fs. seg_work s = wk (fst s) (seg_len s)) \<and>
    (case r of None \<Rightarrow> length fs = length fgs | Some j \<Rightarrow> j = length fs \<and> length fs < length fgs) \<and>
    w_upd w w' \<and> mset (xw_mapped w') = mset (maps_of (seg_works u ss)) + m0"
proof -
  have room: "length (pending_descs k ctrl) + 2 * (length fgs + 1) < 2 ^ k"
    using free xtx_free_desc_count [OF ok] by (simp add: length_pending)
  have at: "xtx_at k (nc_hdp (x_c ctrl)) (x_c ctrl) (NDP_CTRL_DESC_UPPER_ADDR dma)
      (pending_descs k ctrl @ seg_descs u [(dma, len, nxt, x)]) (pending k ctrl @ seg_works u [(dma, len, nxt, x)])
      (xtx_seg upd dma len nxt (nc_sdp (x_c ctrl), ctrl))"
    unfolding u by (rule xtx_seg_at [OF xtx_at_start [OF ok] _ upd]) (use room in simp)
  have "length (pending_descs k ctrl @ seg_descs u [(dma, len, nxt, x)]) + 2 * length fgs < 2 ^ k"
    using room length_seg_works(2) [of u "[(dma, len, nxt, x)]"] by simp
  from frag_loop_at [OF loop at this] obtain fs where
    fs: "xtx_at k (nc_hdp (x_c ctrl)) (x_c ctrl) (seg_upper (NDP_CTRL_DESC_UPPER_ADDR dma) fs)
      ((pending_descs k ctrl @ seg_descs u [(dma, len, nxt, x)]) @ seg_descs (NDP_CTRL_DESC_UPPER_ADDR dma) fs)
      ((pending k ctrl @ seg_works u [(dma, len, nxt, x)]) @ seg_works (NDP_CTRL_DESC_UPPER_ADDR dma) fs) st'"
    "map seg_len fs = map fg_size (take (length fs) fgs)"
    "\<forall>s \<in> set fs. seg_work s = wk (fst s) (seg_len s)"
    "case r of None \<Rightarrow> length fs = length fgs | Some j \<Rightarrow> j = 0 + length fs \<and> length fs < length fgs"
    "w' = w\<lparr>xw_maps := xw_maps w', xw_mapped := xw_mapped w'\<rparr>"
    "mset (xw_mapped w') = mset (maps_of (seg_works (NDP_CTRL_DESC_UPPER_ADDR dma) fs)) + mset (xw_mapped w)"
    by blast
  have "w_upd w w'" by (subst fs(5)) (simp add: w_upd_iff)
  moreover have "mset (xw_mapped w') = mset (maps_of (seg_works u ((dma, len, nxt, x) # fs))) + m0"
    using fs(6) mapped by (simp add: union_ac)
  ultimately show ?thesis
    using fs(1-4) by (intro exI [of _ fs]) (simp split: option.splits)
qed

text \<open>
  After a failed mapping the loop of \<open>unmap_exit\<close> visits as many slots as buffers were mapped; the
  mappings of the slots behind these stay.
\<close>

lemma packet_unmap:
  assumes loop: "frag_loop frag_dma fill 0 fgs (xtx_seg upd dma len nxt (nc_sdp (x_c ctrl), ctrl)) w = (Some i, (sdp, ctrl1), w1)"
    and ok: "xtx_ok k ctrl" and free: "2 * (length fgs + 1) \<le> unat (xtx_free_desc ctrl)"
    and upd: "\<And>b. tx_work (upd b) = x" and u: "u = nc_last_upper_addr (x_c ctrl)"
    and mapped: "mset (xw_mapped w) = mset (work_maps x) + m0"
    and ty: "\<And>b. tx_work b = x \<or> (\<exists>d l. tx_work b = wk d l) \<Longrightarrow> tb_type b = ty \<and> work_maps (tx_work b) = [(tb_dma b, tb_len b)]"
    and ty0: "ty \<noteq> NFB_XCTRL_BUFF_DESC_TYPE0"
  shows "\<exists>fs m. let ss = (dma, len, nxt, x) # fs in xtx_ok k ctrl1 \<and> pending k ctrl1 = pending k ctrl \<and>
    pending_descs k ctrl1 = pending_descs k ctrl \<and> nc_last_upper_addr (x_c ctrl1) = seg_upper u ss \<and>
    length fs < length fgs \<and>
    unmap_loop ty (i + 1) (nc_sdp (x_c ctrl1)) ctrl1 w1 = w1\<lparr>xw_mapped := m\<rparr> \<and> w_upd w w1 \<and>
    mset m = mset (maps_of (drop (length ss) (seg_works u ss))) + m0"
proof -
  from packet_at [OF loop ok free upd u mapped] obtain fs where
    fs: "xtx_at k (nc_hdp (x_c ctrl)) (x_c ctrl) (seg_upper u ((dma, len, nxt, x) # fs))
        (pending_descs k ctrl @ seg_descs u ((dma, len, nxt, x) # fs))
        (pending k ctrl @ seg_works u ((dma, len, nxt, x) # fs)) (sdp, ctrl1)"
      "\<forall>s \<in> set fs. seg_work s = wk (fst s) (seg_len s)" "i = length fs" "length fs < length fgs" "w_upd w w1"
      "mset (xw_mapped w1) = mset (maps_of (seg_works u ((dma, len, nxt, x) # fs))) + m0"
    unfolding Let_def option.case by blast
  define ss where "ss = (dma, len, nxt, x) # fs"
  note fs = fs [folded ss_def]
  note ab = xtx_at_abandon [OF fs(1) ok]
  have k: "k \<le> 32" "nc_mdp (x_c ctrl1) = mask k" "nc_sdp (x_c ctrl1) AND mask k = nc_sdp (x_c ctrl1)"
    using ab(1) by (auto simp: xtx_ok_def xtx_shape_def)
  have "length (works k (nc_sdp (x_c ctrl1)) sdp ctrl1) = length (seg_works u ss)" using ab(4) by simp
  then have n: "i + 1 \<le> ring_dist k (nc_sdp (x_c ctrl1)) sdp"
    using length_seg_works [where u = u and ss = ss] fs(3) by (simp add: works_def ss_def)
  have items: "\<forall>b \<in> set (ring_view k (nc_sdp (x_c ctrl1)) sdp (x_buffers ctrl1)).
      if tb_type b = ty then work_maps (tx_work b) = [(tb_dma b, tb_len b)] else work_maps (tx_work b) = []"
  proof
    fix b
    assume "b \<in> set (ring_view k (nc_sdp (x_c ctrl1)) sdp (x_buffers ctrl1))"
    then have "tx_work b \<in> set (seg_works u ss)" unfolding ab(4) [symmetric] by (simp add: works_def)
    then consider "tx_work b = WNone" | "tx_work b = x \<or> (\<exists>d l. tx_work b = wk d l)"
      using seg_works_set [of "tx_work b" u ss] fs(2) by (auto simp: ss_def)
    then show "if tb_type b = ty then work_maps (tx_work b) = [(tb_dma b, tb_len b)] else work_maps (tx_work b) = []"
    proof cases
      case 1
      then have "tb_type b = NFB_XCTRL_BUFF_DESC_TYPE0"
        by (auto simp: tx_work_def split: xdp_ctrl_tx_buff_type.splits option.splits)
      with 1 ty0 show ?thesis by simp
    qed (use ty in simp)
  qed
  have w: "works k (nc_sdp (x_c ctrl1)) sdp ctrl1 = seg_works u ss" by (rule ab(4))
  have parts: "mset (maps_of (seg_works u ss)) = mset (maps_of (take (i + 1) (seg_works u ss))) + mset (maps_of (drop (i + 1) (seg_works u ss)))"
    by (metis append_take_drop_id concat_append map_append mset_append)
  have "mset (maps_of (take (i + 1) (works k (nc_sdp (x_c ctrl1)) sdp ctrl1))) \<subseteq># mset (xw_mapped w1)"
    unfolding w fs(6) parts by (simp add: union_assoc)
  from unmap_loop_works [OF k n items this] obtain m where
    m: "unmap_loop ty (i + 1) (nc_sdp (x_c ctrl1)) ctrl1 w1 = w1\<lparr>xw_mapped := m\<rparr>"
    "mset (xw_mapped w1) = mset m + mset (maps_of (take (i + 1) (seg_works u ss)))" unfolding w by blast
  have "mset m + mset (maps_of (take (i + 1) (seg_works u ss))) =
      (mset (maps_of (drop (i + 1) (seg_works u ss))) + m0) + mset (maps_of (take (i + 1) (seg_works u ss)))"
    unfolding m(2) [symmetric] fs(6) parts by (simp only: ac_simps)
  then have "mset m = mset (maps_of (drop (length ss) (seg_works u ss))) + m0" by (simp add: ss_def fs(3))
  moreover have "nc_last_upper_addr (x_c ctrl1) = seg_upper u ss" using fs(1) by (simp add: xtx_at_def)
  ultimately show ?thesis
    using ab(1-3) fs(4,5) m(1) unfolding Let_def ss_def by blast
qed

end

interpretation frame_src: xtx_source "frag_dma_of pp" "frame_frag_item pp" "\<lambda>dma len. if pp then WNone else WFrame None dma len" for pp
  by unfold_locales (auto simp: frag_dma_of_def frame_frag_item_def tx_work_def dest: dma_map_cases split: if_splits)

interpretation skb_src: xtx_source "frag_dma_of False" "skb_item None" "\<lambda>dma len. WSkb None dma len"
  by unfold_locales (auto simp: frag_dma_of_def skb_item_def tx_work_def dest: dma_map_cases)

end
