(* ===== verification/XdpRun.thy ===== *)
theory XdpRun
  imports XdpTx
begin

text \<open>
  What the transmit side of the XDP driver guarantees, over arbitrary interleavings of the senders, the
  reclaim and the hardware: the ring is a queue that loses nothing, every descriptor names the buffer it
  was written for, the reclaim meets only items that were sent, and every object that was handed over is
  given back exactly once.  The exceptions are the failures of fragment mappings and the shutdown, where
  the code loses mappings, the upper address and whole packets.
\<close>

section \<open>What a call can do\<close>

definition frame_len :: "xdp_frame \<Rightarrow> u32" where
  "frame_len frame = (if fr_len frame < 60 then 60 else fr_len frame)"

definition frame_seg :: "bool \<Rightarrow> xdp_frame \<Rightarrow> u64 \<Rightarrow> xseg" where
  "frame_seg pp frame dma = (dma, frame_len frame, fr_has_frags frame,
     if pp then WReturn (fr_id frame) else WFrame (Some (fr_id frame)) dma (frame_len frame))"

lemma frame_seg_sel [simp]:
  "seg_len (frame_seg pp frame dma) = frame_len frame"
  "seg_work (frame_seg pp frame dma) = (if pp then WReturn (fr_id frame) else WFrame (Some (fr_id frame)) dma (frame_len frame))"
  by (simp_all add: frame_seg_def)

lemma unat_small: "n < 256 \<Longrightarrow> unat (of_nat n :: u32) = n"
  by (simp add: unat_of_nat take_bit_nat_eq_self)

lemma desc_need: "n < 256 \<Longrightarrow> \<not> x < (of_nat n + 1) * 2 \<longleftrightarrow> 2 * (n + 1) \<le> unat x" for x :: u32
proof -
  assume n: "n < 256"
  have "(of_nat n + 1) * 2 = (of_nat (2 * (n + 1)) :: u32)" by simp
  then have "unat ((of_nat n + 1) * 2 :: u32) = 2 * (n + 1)" using n by (simp only: unat_of_nat take_bit_nat_eq_self) simp
  then show ?thesis by (simp add: word_less_nat_alt not_less)
qed

lemma frag_loop_total:
  "frag_loop (frag_dma_of pp) fill i fgs st w = (r, st', w') \<Longrightarrow> \<forall>n. xw_map w n \<noteq> None \<Longrightarrow> r = None"
proof (induction fgs arbitrary: i st w)
  case (Cons fg fgs)
  obtain d w1 where d: "frag_dma_of pp fg w = (d, w1)" by fastforce
  obtain a where a: "xw_map w (xw_maps w) = Some a" using Cons.prems(2) by blast
  have m: "dma_map (fg_size fg) w = (Some a, w\<lparr>xw_maps := Suc (xw_maps w), xw_mapped := (a, fg_size fg) # xw_mapped w\<rparr>)"
    by (simp add: dma_map_def a)
  have "d \<noteq> None" "xw_map w1 = xw_map w"
    using d unfolding frag_dma_of_def m by (auto split: if_splits)
  then show ?case using Cons.prems d by (auto intro: Cons.IH)
qed simp

lemma submit_cases:
  assumes sub: "nfb_xctrl_tx_submit_frame_needs_lock frame pp ctrl w = (ret, ctrl', w')"
    and ok: "xtx_ok k ctrl" and n: "length (fr_frags frame) < 256"
  defines "u \<equiv> nc_last_upper_addr (x_c ctrl)"
  obtains (refused) "ret \<noteq> 0" "ctrl' = ctrl" "w_upd w w'" "xw_mapped w' = xw_mapped w"
  | (sent) dma fs where "ret = 0" "xtx_ok k ctrl'" "nc_hdp (x_c ctrl') = nc_hdp (x_c ctrl)"
      "pending k ctrl' = pending k ctrl @ seg_works u (frame_seg pp frame dma # fs)"
      "pending_descs k ctrl' = pending_descs k ctrl @ seg_descs u (frame_seg pp frame dma # fs)"
      "nc_last_upper_addr (x_c ctrl') = seg_upper u (frame_seg pp frame dma # fs)"
      "map seg_len fs = map fg_size (fr_frags frame)"
      "\<forall>s \<in> set fs. seg_work s = (if pp then WNone else WFrame None (fst s) (seg_len s))" "w_upd w w'"
      "mset (xw_mapped w') = mset (maps_of (seg_works u (frame_seg pp frame dma # fs))) + mset (xw_mapped w)"
  | (failed) dma fs where "\<exists>n. xw_map w n = None" "ret \<noteq> 0" "\<not> pp" "xtx_ok k ctrl'" "pending k ctrl' = pending k ctrl"
      "pending_descs k ctrl' = pending_descs k ctrl" "length fs < length (fr_frags frame)" "w_upd w w'"
      "nc_last_upper_addr (x_c ctrl') = seg_upper u (frame_seg False frame dma # fs)"
      "mset (xw_mapped w') = mset (maps_of (drop (Suc (length fs)) (seg_works u (frame_seg False frame dma # fs)))) + mset (xw_mapped w)"
proof -
  define w0 where "w0 = (if fr_len frame < ETH_ZLEN
      then w\<lparr>xw_zeroed := (fr_data frame + ucast (fr_len frame), ETH_ZLEN - fr_len frame) # xw_zeroed w\<rparr> else w)"
  have w0: "w_upd w w0" "xw_mapped w0 = xw_mapped w" by (simp_all add: w0_def w_upd_iff)
  let ?map = "if pp then (Some (fr_page_dma frame + XDP_PACKET_HEADROOM), w0) else dma_map (frame_len frame) w0"
  obtain d w1 where d: "?map = (d, w1)" by fastforce
  let ?busy = "xtx_free_desc ctrl < (of_nat (length (fr_frags frame)) + 1) * 2"
  let ?small = "fr_len frame < ETH_ZLEN \<and> fr_frame_sz frame - fr_headroom frame < ETH_ZLEN"
  note def = sub [unfolded nfb_xctrl_tx_submit_frame_needs_lock_def Let_def, folded frame_len_def w0_def, unfolded d]
  show ?thesis
  proof (cases "?busy \<or> ?small \<or> d = None")
    case True
    have "ret \<noteq> 0" "ctrl' = ctrl" "w' = w \<or> w' = w1 \<and> d = None"
      using True def by (auto split: if_splits)
    moreover have "w_upd w w1" "xw_mapped w1 = xw_mapped w" if "d = None"
      using that d w0 dma_map_cases(1) [of "frame_len frame" w0 w1] by (auto simp: w_upd_iff split: if_splits)
    ultimately show ?thesis by (intro refused) (auto simp: w_upd_iff)
  next
    case False
    then obtain dma where dma: "d = Some dma" by auto
    let ?x = "if pp then WReturn (fr_id frame) else WFrame (Some (fr_id frame)) dma (frame_len frame)"
    let ?upd = "frame_item pp (fr_id frame) dma (frame_len frame)"
    have x: "tx_work (?upd b) = ?x" for b by (simp add: frame_item_def tx_work_def)
    have w1: "w_upd w w1" "mset (xw_mapped w1) = mset (work_maps ?x) + mset (xw_mapped w)"
      using d dma w0 dma_map_cases(2) [of "frame_len frame" w0 dma w1] by (auto simp: w_upd_iff split: if_splits)
    have free: "2 * (length (fr_frags frame) + 1) \<le> unat (xtx_free_desc ctrl)"
      using False desc_need [OF n] by blast
    obtain r sdp ctrl1 w2 where loop: "frag_loop (frag_dma_of pp) (frame_frag_item pp) 0 (fr_frags frame)
        (xtx_seg ?upd dma (frame_len frame) (fr_has_frags frame) (nc_sdp (x_c ctrl), ctrl)) w1 = (r, (sdp, ctrl1), w2)"
      by (metis prod.exhaust)
    note def = def [unfolded dma option.case prod.case loop]
    show ?thesis
    proof (cases r)
      case None
      from frame_src.packet_at [OF loop ok free x refl w1(2), folded u_def frame_seg_def] None obtain fs where
        fs: "xtx_at k (nc_hdp (x_c ctrl)) (x_c ctrl) (seg_upper u (frame_seg pp frame dma # fs))
            (pending_descs k ctrl @ seg_descs u (frame_seg pp frame dma # fs))
            (pending k ctrl @ seg_works u (frame_seg pp frame dma # fs)) (sdp, ctrl1)"
          "map seg_len (frame_seg pp frame dma # fs) = frame_len frame # map fg_size (take (length fs) (fr_frags frame))"
          "\<forall>s\<in>set fs. seg_work s = (if pp then WNone else WFrame None (fst s) (seg_len s))"
          "length fs = length (fr_frags frame)" "w_upd w1 w2"
          "mset (xw_mapped w2) = mset (maps_of (seg_works u (frame_seg pp frame dma # fs))) + mset (xw_mapped w)"
        unfolding Let_def by auto
      have "ret = 0" "ctrl' = xtx_set_sdp sdp ctrl1" "w' = w2" using def False None by auto
      with fs xtx_at_commit [OF fs(1) ok] w1(1) show ?thesis by (intro sent [of dma fs]) (auto simp: w_upd_iff)
    next
      case (Some i)
      have np: "\<not> pp"
      proof
        assume pp
        then have "fst (frag_loop (frag_dma_of pp) f j fgs st v) = None" for f j fgs st v
          by (induction fgs arbitrary: j st v) (simp_all add: frag_dma_of_def)
        with loop Some show False by (metis fst_conv option.distinct(1))
      qed
      have ty: "tb_type b = NFB_XCTRL_BUFF_FRAME \<and> work_maps (tx_work b) = [(tb_dma b, tb_len b)]"
        if "tx_work b = ?x \<or> (\<exists>d l. tx_work b = (if pp then WNone else WFrame None d l))" for b
        using that np by (auto simp: tx_work_def split: xdp_ctrl_tx_buff_type.splits option.splits)
      from frame_src.packet_unmap [OF loop [unfolded Some] ok free x refl w1(2) ty, folded u_def frame_seg_def]
      obtain fs m where fs: "xtx_ok k ctrl1" "pending k ctrl1 = pending k ctrl" "pending_descs k ctrl1 = pending_descs k ctrl"
        "nc_last_upper_addr (x_c ctrl1) = seg_upper u (frame_seg pp frame dma # fs)" "length fs < length (fr_frags frame)"
        "unmap_loop NFB_XCTRL_BUFF_FRAME (i + 1) (nc_sdp (x_c ctrl1)) ctrl1 w2 = w2\<lparr>xw_mapped := m\<rparr>" "w_upd w1 w2"
        "mset m = mset (maps_of (drop (length (frame_seg pp frame dma # fs)) (seg_works u (frame_seg pp frame dma # fs)))) + mset (xw_mapped w)"
        unfolding Let_def by auto
      have "ret \<noteq> 0" "ctrl' = ctrl1" "w' = w2\<lparr>xw_mapped := m\<rparr>" using def False Some fs(6) by auto
      moreover have "\<exists>n. xw_map w n = None" using frag_loop_total [OF loop] Some w1(1) w_upd_same [of w w1] by fastforce
      ultimately show ?thesis using fs np w1(1) by (intro failed [of fs dma]) (auto simp: w_upd_iff)
    qed
  qed
qed

lemma xtx_flush_same [simp]:
  "xtx_ok k (xtx_flush ctrl) = xtx_ok k ctrl" "pending k (xtx_flush ctrl) = pending k ctrl"
  "pending_descs k (xtx_flush ctrl) = pending_descs k ctrl" "nc_hdp (x_c (xtx_flush ctrl)) = nc_hdp (x_c ctrl)"
  "nc_sdp (x_c (xtx_flush ctrl)) = nc_sdp (x_c ctrl)"
  "nc_last_upper_addr (x_c (xtx_flush ctrl)) = nc_last_upper_addr (x_c ctrl)"
  by (simp_all add: xtx_flush_def nc_ndp_ctrl_sdp_flush_def xtx_ok_def xtx_shape_def pending_def pending_descs_def works_def)

definition skb_len :: "sk_buff \<Rightarrow> u32" where
  "skb_len skb = (if sk_len skb < 60 then 60 else sk_headlen skb)"

definition skb_seg :: "sk_buff \<Rightarrow> u64 \<Rightarrow> xseg" where
  "skb_seg skb dma = (dma, skb_len skb, sk_frags skb \<noteq> [], WSkb (Some (sk_id skb)) dma (skb_len skb))"

lemma skb_seg_sel [simp]:
  "seg_len (skb_seg skb dma) = skb_len skb" "seg_work (skb_seg skb dma) = WSkb (Some (sk_id skb)) dma (skb_len skb)"
  by (simp_all add: skb_seg_def)

lemma xmit_cases:
  assumes sub: "nfb_xctrl_start_xmit skb xmit_more ctrl w = (ctrl', w')"
    and ok: "xtx_ok k ctrl" and n: "length (sk_frags skb) < 256"
    and pad: "\<not> (sk_len skb < 60 \<and> xw_pad_fails w (sk_id skb))"
  defines "u \<equiv> nc_last_upper_addr (x_c ctrl)"
  obtains (dropped) w1 where "ctrl' = ctrl" "w_upd w w1" "xw_mapped w1 = xw_mapped w" "w' = dev_kfree_skb (sk_id skb) w1"
  | (sent) dma fs where "xtx_ok k ctrl'" "nc_hdp (x_c ctrl') = nc_hdp (x_c ctrl)"
      "pending k ctrl' = pending k ctrl @ seg_works u (skb_seg skb dma # fs)"
      "pending_descs k ctrl' = pending_descs k ctrl @ seg_descs u (skb_seg skb dma # fs)"
      "nc_last_upper_addr (x_c ctrl') = seg_upper u (skb_seg skb dma # fs)"
      "map seg_len fs = map fg_size (sk_frags skb)" "\<forall>s \<in> set fs. seg_work s = WSkb None (fst s) (seg_len s)" "w_upd w w'"
      "mset (xw_mapped w') = mset (maps_of (seg_works u (skb_seg skb dma # fs))) + mset (xw_mapped w)"
  | (failed) dma fs w1 where "\<exists>n. xw_map w n = None" "xtx_ok k ctrl'" "pending k ctrl' = pending k ctrl"
      "pending_descs k ctrl' = pending_descs k ctrl" "length fs < length (sk_frags skb)" "w_upd w w1"
      "w' = dev_kfree_skb (sk_id skb) w1" "nc_last_upper_addr (x_c ctrl') = seg_upper u (skb_seg skb dma # fs)"
      "mset (xw_mapped w1) = mset (maps_of (drop (Suc (length fs)) (seg_works u (skb_seg skb dma # fs)))) + mset (xw_mapped w)"
proof -
  obtain d w1 where d: "dma_map (skb_len skb) w = (d, w1)" by fastforce
  let ?n = "of_nat (length (sk_frags skb)) :: u32"
  let ?busy = "xtx_free_desc ctrl < (?n + 1) * 2"
  have nz: "?n \<noteq> 0 \<longleftrightarrow> sk_frags skb \<noteq> []"
    using unat_small [OF n] unat_eq_zero [of ?n] by simp
  have pad_off: "(if sk_len skb < ETH_ZLEN \<and> xw_pad_fails w (sk_id skb) then dev_kfree_skb (sk_id skb) w else w) = w"
    using pad by auto
  note def = sub [unfolded nfb_xctrl_start_xmit_def Let_def pad_off, folded skb_len_def, unfolded d nz]
  show ?thesis
  proof (cases "?busy \<or> d = None")
    case True
    then have "ctrl' = ctrl" "w' = dev_kfree_skb (sk_id skb) w \<or> w' = dev_kfree_skb (sk_id skb) w1 \<and> d = None"
      using def by (auto split: if_splits)
    moreover have "w_upd w w1" "xw_mapped w1 = xw_mapped w" if "d = None"
      using that d dma_map_cases(1) [of "skb_len skb" w w1] by (auto simp: w_upd_iff)
    moreover have "w_upd w w" by (simp add: w_upd_iff)
    ultimately show ?thesis using dropped by blast
  next
    case False
    then obtain dma where dma: "d = Some dma" by auto
    let ?x = "WSkb (Some (sk_id skb)) dma (skb_len skb)"
    let ?upd = "skb_item (Some (sk_id skb)) dma (skb_len skb)"
    have x: "tx_work (?upd b) = ?x" for b by (simp add: skb_item_def tx_work_def)
    have w1: "w_upd w w1" "mset (xw_mapped w1) = mset (work_maps ?x) + mset (xw_mapped w)"
      using d dma dma_map_cases(2) [of "skb_len skb" w dma w1] by (auto simp: w_upd_iff)
    have free: "2 * (length (sk_frags skb) + 1) \<le> unat (xtx_free_desc ctrl)"
      using False desc_need [OF n] by blast
    obtain r sdp ctrl1 w2 where loop: "frag_loop (frag_dma_of False) (skb_item None) 0 (sk_frags skb)
        (xtx_seg ?upd dma (skb_len skb) (sk_frags skb \<noteq> []) (nc_sdp (x_c ctrl), ctrl)) w1 = (r, (sdp, ctrl1), w2)"
      by (metis prod.exhaust)
    note def = def [unfolded dma option.case prod.case loop]
    show ?thesis
    proof (cases r)
      case None
      from skb_src.packet_at [OF loop ok free x refl w1(2), folded u_def skb_seg_def] None obtain fs where
        fs: "xtx_at k (nc_hdp (x_c ctrl)) (x_c ctrl) (seg_upper u (skb_seg skb dma # fs))
            (pending_descs k ctrl @ seg_descs u (skb_seg skb dma # fs))
            (pending k ctrl @ seg_works u (skb_seg skb dma # fs)) (sdp, ctrl1)"
          "map seg_len (skb_seg skb dma # fs) = skb_len skb # map fg_size (take (length fs) (sk_frags skb))"
          "\<forall>s\<in>set fs. seg_work s = WSkb None (fst s) (seg_len s)" "length fs = length (sk_frags skb)" "w_upd w1 w2"
          "mset (xw_mapped w2) = mset (maps_of (seg_works u (skb_seg skb dma # fs))) + mset (xw_mapped w)"
        unfolding Let_def by auto
      have "ctrl' = xtx_set_sdp sdp ctrl1 \<or> ctrl' = xtx_flush (xtx_set_sdp sdp ctrl1)" "w' = w2"
        using def False None by (auto split: if_splits)
      with fs xtx_at_commit [OF fs(1) ok] w1(1) show ?thesis by (intro sent [of dma fs]) (auto simp: w_upd_iff)
    next
      case (Some i)
      have ty: "tb_type b = NFB_XCTRL_BUFF_SKB \<and> work_maps (tx_work b) = [(tb_dma b, tb_len b)]"
        if "tx_work b = ?x \<or> (\<exists>d l. tx_work b = WSkb None d l)" for b
        using that by (auto simp: tx_work_def split: xdp_ctrl_tx_buff_type.splits option.splits)
      from skb_src.packet_unmap [OF loop [unfolded Some] ok free x refl w1(2) ty, folded u_def skb_seg_def]
      obtain fs m where fs: "xtx_ok k ctrl1" "pending k ctrl1 = pending k ctrl" "pending_descs k ctrl1 = pending_descs k ctrl"
        "nc_last_upper_addr (x_c ctrl1) = seg_upper u (skb_seg skb dma # fs)" "length fs < length (sk_frags skb)"
        "unmap_loop NFB_XCTRL_BUFF_SKB (i + 1) (nc_sdp (x_c ctrl1)) ctrl1 w2 = w2\<lparr>xw_mapped := m\<rparr>" "w_upd w1 w2"
        "mset m = mset (maps_of (drop (length (skb_seg skb dma # fs)) (seg_works u (skb_seg skb dma # fs)))) + mset (xw_mapped w)"
        unfolding Let_def by auto
      have "ctrl' = ctrl1" "w' = dev_kfree_skb (sk_id skb) (w2\<lparr>xw_mapped := m\<rparr>)" using def False Some fs(6) by auto
      moreover have "\<exists>n. xw_map w n = None" using frag_loop_total [OF loop] Some w1(1) w_upd_same [of w w1] by fastforce
      ultimately show ?thesis using fs w1(1) by (intro failed [of fs "w2\<lparr>xw_mapped := m\<rparr>" dma]) (auto simp: w_upd_iff)
    qed
  qed
qed

text \<open>The two senders of AF\_XDP cannot fail once they have begun.\<close>

lemma rexmit_xsk_loop_at:
  assumes "xtx_at k h c u ds ws st" and "length ds + 2 * length fs < 2 ^ k"
  shows "\<exists>ss. xtx_at k h c (seg_upper u ss) (ds @ seg_descs u ss) (ws @ seg_works u ss) (rexmit_xsk_loop fs st) \<and>
    map (\<lambda>s. (fst s, seg_len s, seg_work s)) ss = map (\<lambda>f. (xb_dma f, xb_len f, WXskFree (xb_id f))) fs"
  using assms
proof (induction fs arbitrary: u ds ws st)
  case Nil
  then show ?case by (intro exI [of _ "[]"]) simp
next
  case (Cons f fs)
  let ?s = "(xb_dma f, xb_len f, fs \<noteq> [], WXskFree (xb_id f))"
  have at: "xtx_at k h c (NDP_CTRL_DESC_UPPER_ADDR (xb_dma f)) (ds @ seg_descs u [?s]) (ws @ seg_works u [?s])
      (xtx_seg (rexmit_item f) (xb_dma f) (xb_len f) (fs \<noteq> []) st)"
    by (rule xtx_seg_at [OF Cons.prems(1)]) (use Cons.prems(2) in \<open>simp_all add: rexmit_item_def tx_work_def\<close>)
  have "length (ds @ seg_descs u [?s]) + 2 * length fs < 2 ^ k"
    using Cons.prems(2) length_seg_works(2) [of u "[?s]"] by simp
  from Cons.IH [OF at this] obtain ss where
    "xtx_at k h c (seg_upper (NDP_CTRL_DESC_UPPER_ADDR (xb_dma f)) ss)
      ((ds @ seg_descs u [?s]) @ seg_descs (NDP_CTRL_DESC_UPPER_ADDR (xb_dma f)) ss)
      ((ws @ seg_works u [?s]) @ seg_works (NDP_CTRL_DESC_UPPER_ADDR (xb_dma f)) ss) (rexmit_xsk_loop (f # fs) st)"
    "map (\<lambda>s. (fst s, seg_len s, seg_work s)) ss = map (\<lambda>f. (xb_dma f, xb_len f, WXskFree (xb_id f))) fs" by auto
  then show ?case by (intro exI [of _ "?s # ss"]) simp
qed

lemma xsk_tx_loop_at:
  assumes "xsk_tx_loop xs st w = (st', w')" and "xtx_at k h c u ds ws st" and "length ds + 2 * length xs < 2 ^ k"
  shows "(\<exists>ss. xtx_at k h c (seg_upper u ss) (ds @ seg_descs u ss) (ws @ seg_works u ss) st' \<and>
    map (\<lambda>s. (fst s, seg_len s, seg_work s)) ss = map (\<lambda>d. (xd_dma d, if xd_len d < 60 then 60 else xd_len d, WXskDone)) xs) \<and>
    w_upd w w' \<and> xw_mapped w' = xw_mapped w"
  using assms
proof (induction xs arbitrary: u ds ws st w)
  case Nil
  then show ?case by (intro conjI exI [of _ "[]"]) (simp_all add: w_upd_iff)
next
  case (Cons d xs)
  let ?len = "if xd_len d < 60 then 60 else xd_len d"
  let ?s = "(xd_dma d, ?len, \<not> xd_eop d, WXskDone)"
  define w1 where "w1 = (if xd_len d < 60 then w\<lparr>xw_zeroed := (xd_data d + ucast (xd_len d), 60 - xd_len d) # xw_zeroed w\<rparr> else w)"
  have at: "xtx_at k h c (NDP_CTRL_DESC_UPPER_ADDR (xd_dma d)) (ds @ seg_descs u [?s]) (ws @ seg_works u [?s])
      (xtx_seg (tb_type_update (\<lambda>_. NFB_XCTRL_BUFF_XSK)) (xd_dma d) ?len (\<not> xd_eop d) st)"
    by (rule xtx_seg_at [OF Cons.prems(2)]) (use Cons.prems(3) in \<open>simp_all add: tx_work_def\<close>)
  have loop: "xsk_tx_loop xs (xtx_seg (tb_type_update (\<lambda>_. NFB_XCTRL_BUFF_XSK)) (xd_dma d) ?len (\<not> xd_eop d) st) w1 = (st', w')"
    using Cons.prems(1) by (simp add: Let_def w1_def)
  have "length (ds @ seg_descs u [?s]) + 2 * length xs < 2 ^ k"
    using Cons.prems(3) length_seg_works(2) [of u "[?s]"] by simp
  from Cons.IH [OF loop at this] obtain ss where
    ss: "xtx_at k h c (seg_upper (NDP_CTRL_DESC_UPPER_ADDR (xd_dma d)) ss)
      ((ds @ seg_descs u [?s]) @ seg_descs (NDP_CTRL_DESC_UPPER_ADDR (xd_dma d)) ss)
      ((ws @ seg_works u [?s]) @ seg_works (NDP_CTRL_DESC_UPPER_ADDR (xd_dma d)) ss) st'"
    "map (\<lambda>s. (fst s, seg_len s, seg_work s)) ss = map (\<lambda>d. (xd_dma d, if xd_len d < 60 then 60 else xd_len d, WXskDone)) xs"
    "w_upd w1 w'" "xw_mapped w' = xw_mapped w1" by auto
  then show ?case by (intro conjI exI [of _ "?s # ss"]) (simp_all add: w_upd_iff w1_def)
qed

section \<open>Runs\<close>

text \<open>The objects handed over to the driver so far.\<close>

record xgiven =
  g_skb :: "nat multiset"
  g_frame :: "nat multiset"
  g_xsk :: "nat multiset"

text \<open>
  What the driver relies on of the hardware when it reclaims: the consumer pointer that is read lies
  between the old one and the software pointer.
\<close>

definition hw_consumed :: "nat \<Rightarrow> nc_ndp_ctrl \<Rightarrow> bool" where
  "hw_consumed k c \<longleftrightarrow> (let h = nc_hdp (nc_ndp_ctrl_hdp_update c)
     in h AND mask k = h \<and> ring_dist k (nc_hdp c) h \<le> ring_dist k (nc_hdp c) (nc_sdp c))"

text \<open>
  The runs of a transmit queue with \<open>2 ^ k\<close> descriptors: any sequence of packets of the stack, redirected
  frames, retransmissions, polls of the socket, reclaims and reports of the hardware.  The shared info of a
  packet counts its fragments in eight bits.
\<close>

inductive xtx_run :: "nat \<Rightarrow> xgiven \<Rightarrow> xctrl \<Rightarrow> xworld \<Rightarrow> bool" for k where
  start: "\<lbrakk>xtx_ok k ctrl; nc_hdp (x_c ctrl) = nc_sdp (x_c ctrl); xw_mapped w = []; xw_bad_unmaps w = 0;
     xw_skb_freed w = []; xw_frame_returned w = []; xw_xsk_freed w = []\<rbrakk> \<Longrightarrow>
   xtx_run k \<lparr>g_skb = {#}, g_frame = {#}, g_xsk = {#}\<rparr> ctrl w"
| xmit: "\<lbrakk>xtx_run k g ctrl w; length (sk_frags skb) < 256; \<not> (sk_len skb < 60 \<and> xw_pad_fails w (sk_id skb));
     nfb_xctrl_start_xmit skb xmit_more ctrl w = (ctrl', w')\<rbrakk> \<Longrightarrow>
   xtx_run k (g\<lparr>g_skb := add_mset (sk_id skb) (g_skb g)\<rparr>) ctrl' w'"
| redirect: "\<lbrakk>xtx_run k g ctrl w; \<forall>f \<in> set frames. length (fr_frags f) < 256;
     nfb_xctrl_xdp_xmit frames flush ctrl w = (cnt, ctrl', w')\<rbrakk> \<Longrightarrow>
   xtx_run k (g\<lparr>g_frame := mset (map fr_id (take (nat cnt) frames)) + g_frame g\<rparr>) ctrl' w'"
| rexmit_pp: "\<lbrakk>xtx_run k g ctrl w; length (fr_frags f) < 256; nfb_xctrl_rexmit_pp (Some f) ctrl w = Inr (ret, ctrl', w')\<rbrakk> \<Longrightarrow>
   xtx_run k (g\<lparr>g_frame := add_mset (fr_id f) (g_frame g)\<rparr>) ctrl' w'"
| rexmit_xsk: "\<lbrakk>xtx_run k g ctrl w; length frags < 256; nfb_xctrl_rexmit_xsk xdp frags ctrl w = Inr (ret, ctrl', w')\<rbrakk> \<Longrightarrow>
   xtx_run k (g\<lparr>g_xsk := mset (map xb_id (xdp # frags)) + g_xsk g\<rparr>) ctrl' w'"
| poll_xsk: "\<lbrakk>xtx_run k g ctrl w; budget < 2 ^ 31; nfb_xctrl_napi_poll_tx_xsk avail budget ctrl w = (cnt, ctrl', w')\<rbrakk> \<Longrightarrow>
   xtx_run k g ctrl' w'"
| report: "xtx_run k g ctrl w \<Longrightarrow> xtx_run k g (ctrl\<lparr>x_c := (x_c ctrl)\<lparr>nc_updates := us\<rparr>\<rparr>) w"
| reclaim: "\<lbrakk>xtx_run k g ctrl w; hw_consumed k (x_c ctrl); nfb_xctrl_tx_free_buffers False ctrl w = Inr (ctrl', w')\<rbrakk> \<Longrightarrow>
   xtx_run k g ctrl' w'"

definition xtx_inv :: "nat \<Rightarrow> xgiven \<Rightarrow> xctrl \<Rightarrow> xworld \<Rightarrow> bool" where
  "xtx_inv k g ctrl w \<longleftrightarrow> xtx_ok k ctrl \<and> WStuck \<notin> set (pending k ctrl) \<and> xw_bad_unmaps w = 0 \<and>
     mset (maps_of (pending k ctrl)) \<subseteq># mset (xw_mapped w) \<and>
     ((\<forall>n. xw_map w n \<noteq> None) \<longrightarrow> mset (xw_mapped w) = mset (maps_of (pending k ctrl))) \<and>
     mset (xw_skb_freed w) + mset (skbs_of (pending k ctrl)) = g_skb g \<and>
     mset (xw_frame_returned w) + mset (frames_of (pending k ctrl)) = g_frame g \<and>
     mset (xw_xsk_freed w) + mset (xsks_of (pending k ctrl)) = g_xsk g"

text \<open>A call that appends work keeps the invariant when it accounts for the work's mappings and objects.\<close>

lemma xtx_inv_append:
  assumes "xtx_inv k g ctrl w" and "xtx_ok k ctrl'" and "pending k ctrl' = pending k ctrl @ ws" and "WStuck \<notin> set ws"
    and "w_upd w w'" and "mset (xw_mapped w') = mset (maps_of ws) + mset (xw_mapped w)"
    and "g_skb g' = mset (skbs_of ws) + g_skb g" and "g_frame g' = mset (frames_of ws) + g_frame g"
    and "g_xsk g' = mset (xsks_of ws) + g_xsk g"
  shows "xtx_inv k g' ctrl' w'"
proof -
  note i = assms(1) [unfolded xtx_inv_def]
  note w = assms(5) [unfolded w_upd_iff]
  have "mset (maps_of (pending k ctrl')) \<subseteq># mset (xw_mapped w')"
    using i assms(3,6) by (simp add: union_commute)
  moreover have "mset (xw_mapped w') = mset (maps_of (pending k ctrl'))" if "\<forall>n. xw_map w' n \<noteq> None"
    using i w that assms(3,6) by (simp add: union_commute)
  ultimately show ?thesis
    using i w assms(2-4,7-9) unfolding xtx_inv_def by (simp add: ac_simps)
qed

text \<open>A call that leaves the pending work alone keeps it, whatever mappings it adds when mappings can fail.\<close>

lemma xtx_inv_same:
  assumes "xtx_inv k g ctrl w" and "xtx_ok k ctrl'" and "pending k ctrl' = pending k ctrl"
    and "w_upd w w'" and "mset (xw_mapped w') = extra + mset (xw_mapped w)" and "extra = {#} \<or> (\<exists>n. xw_map w n = None)"
  shows "xtx_inv k g ctrl' w'"
proof -
  note i = assms(1) [unfolded xtx_inv_def]
  note w = assms(4) [unfolded w_upd_iff]
  have "mset (xw_mapped w) \<subseteq># mset (xw_mapped w')" using assms(5) by simp
  with i have "mset (maps_of (pending k ctrl')) \<subseteq># mset (xw_mapped w')"
    unfolding assms(3) by (auto intro: subset_mset.order_trans)
  moreover have "mset (xw_mapped w') = mset (maps_of (pending k ctrl'))" if "\<forall>n. xw_map w' n \<noteq> None"
  proof -
    have "extra = {#}" using assms(6) that w by metis
    then show ?thesis using i w that assms(3,5) by simp
  qed
  ultimately show ?thesis using i w assms(2,3) unfolding xtx_inv_def by simp
qed

text \<open>Objects that are given back at once.\<close>

lemma xtx_inv_skb_freed:
  "xtx_inv k g ctrl w \<Longrightarrow> xtx_inv k (g\<lparr>g_skb := add_mset p (g_skb g)\<rparr>) ctrl (dev_kfree_skb p w)"
  by (auto simp: xtx_inv_def dev_kfree_skb_def)

lemma xtx_inv_frame_returned:
  "xtx_inv k g ctrl w \<Longrightarrow> xtx_inv k (g\<lparr>g_frame := add_mset p (g_frame g)\<rparr>) ctrl (xdp_return_frame p w)"
  by (auto simp: xtx_inv_def xdp_return_frame_def)

lemma xtx_inv_xsk_freed:
  "xtx_inv k g ctrl w \<Longrightarrow> xtx_inv k (g\<lparr>g_xsk := add_mset p (g_xsk g)\<rparr>) ctrl (xsk_buff_free p w)"
  by (auto simp: xtx_inv_def xsk_buff_free_def)

lemma xtx_inv_xsks_freed:
  "xtx_inv k g ctrl w \<Longrightarrow> xtx_inv k (g\<lparr>g_xsk := mset (map f bs) + g_xsk g\<rparr>) ctrl (fold (xsk_buff_free \<circ> f) bs w)"
proof (induction bs arbitrary: g w)
  case (Cons b bs)
  from Cons.IH [OF xtx_inv_xsk_freed [OF Cons.prems, of "f b"]] show ?case by simp
qed simp

lemma xtx_inv_flush [simp]: "xtx_inv k g (xtx_flush ctrl) w = xtx_inv k g ctrl w"
  by (simp add: xtx_inv_def)

subsection \<open>Each operation keeps the invariant\<close>

lemma xtx_inv_xmit:
  assumes inv: "xtx_inv k g ctrl w" and n: "length (sk_frags skb) < 256"
    and pad: "\<not> (sk_len skb < 60 \<and> xw_pad_fails w (sk_id skb))"
    and call: "nfb_xctrl_start_xmit skb xmit_more ctrl w = (ctrl', w')"
  shows "xtx_inv k (g\<lparr>g_skb := add_mset (sk_id skb) (g_skb g)\<rparr>) ctrl' w'"
proof -
  have ok: "xtx_ok k ctrl" using inv by (simp add: xtx_inv_def)
  show ?thesis
    using call ok n pad
  proof (cases rule: xmit_cases)
    case (dropped w1)
    have "xtx_inv k g ctrl w1" by (rule xtx_inv_same [OF inv ok refl dropped(2), of "{#}"]) (simp_all add: dropped(3))
    with dropped show ?thesis by (simp add: xtx_inv_skb_freed)
  next
    case (sent dma fs)
    have seg: "concat (map (f \<circ> seg_work) fs) = []" if "\<And>d l. f (WSkb None d l) = []" for f :: "xtx_work \<Rightarrow> nat list"
      using sent(7) that by (auto simp: concat_eq_Nil_conv)
    have "WStuck \<notin> set (seg_works (nc_last_upper_addr (x_c ctrl)) (skb_seg skb dma # fs))"
      using seg_works_set [of WStuck _ "skb_seg skb dma # fs"] sent(7) by auto
    then show ?thesis
      by (rule xtx_inv_append [OF inv sent(1,3) _ sent(8,9)]) (simp_all add: seg_of_works seg del: seg_works.simps)
  next
    case (failed dma fs w1)
    have "xtx_inv k g ctrl' w1" by (rule xtx_inv_same [OF inv failed(2,3,6,9)]) (use failed(1) in simp)
    with failed(7) show ?thesis by (simp add: xtx_inv_skb_freed)
  qed
qed

lemma xtx_inv_submit:
  assumes inv: "xtx_inv k g ctrl w" and n: "length (fr_frags frame) < 256"
    and call: "nfb_xctrl_tx_submit_frame_needs_lock frame pp ctrl w = (ret, ctrl', w')"
  shows "xtx_inv k (if ret = 0 then g\<lparr>g_frame := add_mset (fr_id frame) (g_frame g)\<rparr> else g) ctrl' w'"
proof -
  have ok: "xtx_ok k ctrl" using inv by (simp add: xtx_inv_def)
  show ?thesis
    using call ok n
  proof (cases rule: submit_cases)
    case refused
    then show ?thesis using xtx_inv_same [OF inv ok refl refused(3), of "{#}"] by simp
  next
    case (sent dma fs)
    have seg: "concat (map (f \<circ> seg_work) fs) = []" if "f WNone = []" "\<And>d l. f (WFrame None d l) = []"
      for f :: "xtx_work \<Rightarrow> nat list"
      using sent(8) that by (auto simp: concat_eq_Nil_conv)
    have "WStuck \<notin> set (seg_works (nc_last_upper_addr (x_c ctrl)) (frame_seg pp frame dma # fs))"
      using seg_works_set [of WStuck _ "frame_seg pp frame dma # fs"] sent(8) by (cases pp) auto
    then show ?thesis
      using sent(1) by (intro xtx_inv_append [OF inv sent(2,4) _ sent(9,10)])
        (simp_all add: seg_of_works seg del: seg_works.simps)
  next
    case (failed dma fs)
    show ?thesis using failed(1,2) by (simp add: xtx_inv_same [OF inv failed(4,5,8,10)])
  qed
qed

lemma xtx_inv_xmit_loop:
  assumes "xtx_inv k g ctrl w" and "\<forall>f \<in> set frames. length (fr_frags f) < 256"
    and "xdp_xmit_loop frames cnt ctrl w = (cnt', ctrl', w')"
  shows "cnt \<le> cnt' \<and> cnt' \<le> cnt + int (length frames) \<and>
    xtx_inv k (g\<lparr>g_frame := mset (map fr_id (take (nat (cnt' - cnt)) frames)) + g_frame g\<rparr>) ctrl' w'"
  using assms
proof (induction frames arbitrary: g cnt ctrl w)
  case (Cons f frames)
  obtain ret ctrl1 w1 where s: "nfb_xctrl_tx_submit_frame_needs_lock f False ctrl w = (ret, ctrl1, w1)"
    by (metis prod.exhaust)
  note i = xtx_inv_submit [OF Cons.prems(1) _ s]
  show ?case
  proof (cases "ret = 0")
    case True
    then have loop: "xdp_xmit_loop frames (cnt + 1) ctrl1 w1 = (cnt', ctrl', w')" using Cons.prems(3) s by simp
    have "xtx_inv k (g\<lparr>g_frame := add_mset (fr_id f) (g_frame g)\<rparr>) ctrl1 w1" using i Cons.prems(2) True by simp
    from Cons.IH [OF this _ loop] Cons.prems(2)
    have b: "cnt + 1 \<le> cnt'" "cnt' \<le> cnt + 1 + int (length frames)"
      and inv: "xtx_inv k (g\<lparr>g_frame := mset (map fr_id (take (nat (cnt' - (cnt + 1))) frames)) + add_mset (fr_id f) (g_frame g)\<rparr>) ctrl' w'"
      by auto
    have "nat (cnt' - cnt) = Suc (nat (cnt' - (cnt + 1)))" using b(1) by simp
    with b inv show ?thesis by simp
  next
    case False
    then show ?thesis using Cons.prems s i by auto
  qed
qed simp

lemma seg_works_map:
  assumes "map seg_work ss = map h xs" and "f WNone = []"
  shows "concat (map f (seg_works u ss)) = concat (map (\<lambda>x. f (h x)) xs)"
proof -
  have "concat (map f (seg_works u ss)) = concat (map f (map seg_work ss))" using assms(2) by (simp add: seg_works_concat comp_def)
  then show ?thesis unfolding assms(1) by (simp add: comp_def)
qed

lemma concat_map_Nil: "concat (map (\<lambda>_. []) xs) = []"
  by (induction xs) simp_all

lemma xtx_inv_rexmit_xsk:
  assumes inv: "xtx_inv k g ctrl w" and n: "length frags < 256"
    and call: "nfb_xctrl_rexmit_xsk xdp frags ctrl w = Inr (ret, ctrl', w')"
  shows "xtx_inv k (g\<lparr>g_xsk := mset (map xb_id (xdp # frags)) + g_xsk g\<rparr>) ctrl' w'"
proof (cases "xtx_free_desc ctrl < of_nat (length (xdp # frags)) * 2")
  case True
  then have "ctrl' = ctrl" "w' = fold (xsk_buff_free \<circ> xb_id) (xdp # frags) w"
    using call by (auto simp: nfb_xctrl_rexmit_xsk_def Let_def split: if_splits)
  then show ?thesis using xtx_inv_xsks_freed [OF inv, of xb_id "xdp # frags"] by simp
next
  case False
  have ok: "xtx_ok k ctrl" using inv by (simp add: xtx_inv_def)
  obtain sdp ctrl1 where loop: "rexmit_xsk_loop (xdp # frags) (nc_sdp (x_c ctrl), ctrl) = (sdp, ctrl1)" by fastforce
  have r: "ctrl' = xtx_set_sdp sdp ctrl1" "w' = w"
    using False call loop by (auto simp: nfb_xctrl_rexmit_xsk_def Let_def split: if_splits)
  have "2 * length (xdp # frags) \<le> unat (xtx_free_desc ctrl)" using False desc_need [OF n, of "xtx_free_desc ctrl"] by (simp add: add.commute)
  then have room: "length (pending_descs k ctrl) + 2 * length (xdp # frags) < 2 ^ k"
    using xtx_free_desc_count [OF ok] by (simp add: length_pending)
  from rexmit_xsk_loop_at [OF xtx_at_start [OF ok] room, unfolded loop] obtain ss where
    at: "xtx_at k (nc_hdp (x_c ctrl)) (x_c ctrl) (seg_upper (nc_last_upper_addr (x_c ctrl)) ss)
      (pending_descs k ctrl @ seg_descs (nc_last_upper_addr (x_c ctrl)) ss)
      (pending k ctrl @ seg_works (nc_last_upper_addr (x_c ctrl)) ss) (sdp, ctrl1)"
    and ss: "map (\<lambda>s. (fst s, seg_len s, seg_work s)) ss = map (\<lambda>f. (xb_dma f, xb_len f, WXskFree (xb_id f))) (xdp # frags)"
    by blast
  have wk: "map seg_work ss = map (\<lambda>f. WXskFree (xb_id f)) (xdp # frags)"
    using arg_cong [OF ss, of "map (snd \<circ> snd)"] by (simp add: comp_def)
  have stuck: "WStuck \<notin> set (map seg_work ss)" unfolding wk by auto
  have objs: "maps_of (seg_works u ss) = []" "skbs_of (seg_works u ss) = []" "frames_of (seg_works u ss) = []"
    "xsks_of (seg_works u ss) = map xb_id (xdp # frags)" for u
    by (simp_all add: seg_works_map [OF wk] concat_map_Nil del: list.map)
  show ?thesis
    unfolding r
    by (rule xtx_inv_append [OF inv xtx_at_commit(1,2) [OF at ok]])
      (use stuck seg_works_set [of WStuck _ ss] in \<open>auto simp: objs w_upd_iff\<close>)
qed

lemma xtx_inv_poll_xsk:
  assumes inv: "xtx_inv k g ctrl w" and budget: "budget < 2 ^ 31"
    and call: "nfb_xctrl_napi_poll_tx_xsk avail budget ctrl w = (cnt, ctrl', w')"
  shows "xtx_inv k g ctrl' w'"
proof (cases "xtx_free_desc ctrl < budget * 2 \<or> take (unat budget) avail = []")
  case True
  then have "ctrl' = xtx_flush ctrl" "w' = w"
    using call by (auto simp: nfb_xctrl_napi_poll_tx_xsk_def Let_def split: if_splits)
  then show ?thesis using inv by simp
next
  case False
  let ?xs = "take (unat budget) avail"
  have ok: "xtx_ok k ctrl" using inv by (simp add: xtx_inv_def)
  obtain sdp ctrl1 w1 where loop: "xsk_tx_loop ?xs (nc_sdp (x_c ctrl), ctrl) w = ((sdp, ctrl1), w1)" by (metis prod.exhaust)
  have r: "ctrl' = xtx_flush (xtx_set_sdp sdp ctrl1)" "w' = w1"
    using False call loop by (auto simp: nfb_xctrl_napi_poll_tx_xsk_def Let_def)
  have "unat budget < 2 ^ 31" using budget by (simp add: word_less_nat_alt)
  then have "unat (budget * 2) = 2 * unat budget" by (simp add: unat_word_ariths)
  then have "2 * unat budget \<le> unat (xtx_free_desc ctrl)" using False by (simp add: word_less_nat_alt)
  moreover have "unat (xtx_free_desc ctrl) + length (pending k ctrl) < 2 ^ k" using xtx_free_desc_count [OF ok] by simp
  ultimately have room: "length (pending_descs k ctrl) + 2 * length ?xs < 2 ^ k" unfolding length_pending(2) by (simp add: min_def)
  from xsk_tx_loop_at [OF loop xtx_at_start [OF ok] room] obtain ss where
    at: "xtx_at k (nc_hdp (x_c ctrl)) (x_c ctrl) (seg_upper (nc_last_upper_addr (x_c ctrl)) ss)
      (pending_descs k ctrl @ seg_descs (nc_last_upper_addr (x_c ctrl)) ss)
      (pending k ctrl @ seg_works (nc_last_upper_addr (x_c ctrl)) ss) (sdp, ctrl1)"
    and ss: "map (\<lambda>s. (fst s, seg_len s, seg_work s)) ss = map (\<lambda>d. (xd_dma d, if xd_len d < 60 then 60 else xd_len d, WXskDone)) ?xs"
    and w1: "w_upd w w1" "xw_mapped w1 = xw_mapped w" by blast
  have wk: "map seg_work ss = map (\<lambda>d. WXskDone) ?xs"
    using arg_cong [OF ss, of "map (snd \<circ> snd)"] by (simp add: comp_def)
  have stuck: "WStuck \<notin> set (map seg_work ss)" unfolding wk by auto
  have objs: "maps_of (seg_works u ss) = []" "skbs_of (seg_works u ss) = []" "frames_of (seg_works u ss) = []"
    "xsks_of (seg_works u ss) = []" for u
    by (simp_all add: seg_works_map [OF wk] concat_map_Nil del: list.map)
  have "xtx_inv k g (xtx_set_sdp sdp ctrl1) w1"
    by (rule xtx_inv_append [OF inv xtx_at_commit(1,2) [OF at ok]])
      (use stuck seg_works_set [of WStuck _ ss] w1 in \<open>auto simp: objs\<close>)
  then show ?thesis by (simp add: r)
qed

lemma hdp_update_same:
  "nc_mdp (nc_ndp_ctrl_hdp_update c) = nc_mdp c" "nc_sdp (nc_ndp_ctrl_hdp_update c) = nc_sdp c"
  "nc_last_upper_addr (nc_ndp_ctrl_hdp_update c) = nc_last_upper_addr c"
  by (simp_all add: nc_ndp_ctrl_hdp_update_def nc_upd_read_def Let_def split: list.splits)

text \<open>A reclaim takes the completed work from the front of the queue, and does it.\<close>

lemma reclaim_works:
  assumes ok: "xtx_ok k ctrl" and hw: "hw_consumed k (x_c ctrl)" and stuck: "WStuck \<notin> set (pending k ctrl)"
  shows "\<exists>ctrl' ws. pending k ctrl = ws @ pending k ctrl' \<and>
    nfb_xctrl_tx_free_buffers False ctrl w = Inr (ctrl', fold work_do ws w) \<and> xtx_ok k ctrl' \<and>
    x_c ctrl' = nc_ndp_ctrl_hdp_update (x_c ctrl) \<and> x_completed_xsk_tx ctrl' = x_completed_xsk_tx ctrl + works_done ws \<and>
    pending_descs k ctrl' = drop (length ws) (pending_descs k ctrl)"
proof -
  let ?h = "nc_hdp (x_c ctrl)" and ?s = "nc_sdp (x_c ctrl)"
  define c where "c = nc_ndp_ctrl_hdp_update (x_c ctrl)"
  define h where "h = nc_hdp c"
  define ctrl1 where "ctrl1 = ctrl\<lparr>x_c := c\<rparr>"
  have k: "k \<le> 32" "nc_mdp (x_c ctrl) = mask k" "?h AND mask k = ?h" "length (x_buffers ctrl) = 2 ^ k"
    using ok by (auto simp: xtx_ok_def xtx_shape_def)
  have hm: "h AND mask k = h" and le: "ring_dist k ?h h \<le> ring_dist k ?h ?s"
    using hw by (simp_all add: hw_consumed_def Let_def h_def c_def)
  have c: "nc_mdp c = mask k" "nc_sdp c = ?s" using k(2) by (simp_all add: c_def hdp_update_same)
  have split: "pending k ctrl = works k ?h h ctrl1 @ works k h ?s ctrl1"
    using ring_view_split [OF le k(1), of "x_buffers ctrl"] by (simp add: pending_def works_def ctrl1_def)
  have fuel: "ring_dist k ?h h \<le> Suc (unat (mask k :: u32))"
    using ring_dist_less [OF k(1), of ?h h] k(1) by (simp add: unat_mask)
  have "\<exists>bs. tx_free_loop (Suc (unat (mask k :: u32))) (mask k) ?h h (ctrl1, w) =
      Inr (ctrl1\<lparr>x_buffers := bs, x_completed_xsk_tx := x_completed_xsk_tx ctrl1 + works_done (works k ?h h ctrl1)\<rparr>,
           fold work_do (works k ?h h ctrl1) w) \<and> length bs = 2 ^ k \<and>
    (\<forall>s. ring_dist k ?h h \<le> ring_dist k ?h s \<longrightarrow> ring_view k h s bs = ring_view k h s (x_buffers ctrl1))"
    by (rule tx_free_loop_works [OF k(1) _ k(3) hm fuel])
      (use stuck split k(4) c in \<open>auto simp: ctrl1_def\<close>)
  then obtain bs where bs: "tx_free_loop (Suc (unat (mask k :: u32))) (mask k) ?h h (ctrl1, w) =
      Inr (ctrl1\<lparr>x_buffers := bs, x_completed_xsk_tx := x_completed_xsk_tx ctrl1 + works_done (works k ?h h ctrl1)\<rparr>,
           fold work_do (works k ?h h ctrl1) w)" "length bs = 2 ^ k" "ring_view k h ?s bs = ring_view k h ?s (x_buffers ctrl1)"
    using le by blast
  define ctrl' where "ctrl' = ctrl1\<lparr>x_buffers := bs, x_completed_xsk_tx := x_completed_xsk_tx ctrl1 + works_done (works k ?h h ctrl1)\<rparr>"
  have p: "pending k ctrl' = works k h ?s ctrl1"
    using bs(3) c by (simp add: pending_def ctrl'_def works_def ctrl1_def h_def)
  have "pending_descs k ctrl = ring_view k ?h h (x_descs ctrl) @ ring_view k h ?s (x_descs ctrl)"
    unfolding pending_descs_def by (rule ring_view_split [OF le k(1)])
  moreover have "pending_descs k ctrl' = ring_view k h ?s (x_descs ctrl)"
    using c by (simp add: pending_descs_def ctrl'_def ctrl1_def h_def)
  ultimately have d: "pending_descs k ctrl' = drop (length (works k ?h h ctrl1)) (pending_descs k ctrl)"
    by (simp add: works_def)
  have call: "nfb_xctrl_tx_free_buffers False ctrl w = Inr (ctrl', fold work_do (works k ?h h ctrl1) w)"
    using bs(1) k(2) unfolding nfb_xctrl_tx_free_buffers_def Let_def by (simp add: ctrl'_def ctrl1_def c_def h_def del: tx_free_loop.simps)
  have "xtx_ok k ctrl'" using ok hm bs(2) c by (simp add: xtx_ok_def xtx_shape_def ctrl'_def ctrl1_def h_def)
  moreover have "x_c ctrl' = c" "x_completed_xsk_tx ctrl' = x_completed_xsk_tx ctrl + works_done (works k ?h h ctrl1)"
    by (simp_all add: ctrl'_def ctrl1_def)
  ultimately show ?thesis using split p d call unfolding c_def by metis
qed

lemma xtx_inv_reclaim:
  assumes inv: "xtx_inv k g ctrl w" and hw: "hw_consumed k (x_c ctrl)"
  shows "\<exists>ctrl' w'. nfb_xctrl_tx_free_buffers False ctrl w = Inr (ctrl', w') \<and> xtx_inv k g ctrl' w'"
proof -
  have ok: "xtx_ok k ctrl" and stuck: "WStuck \<notin> set (pending k ctrl)" using inv by (simp_all add: xtx_inv_def)
  from reclaim_works [OF ok hw stuck, of w] obtain ctrl' ws where
    r: "pending k ctrl = ws @ pending k ctrl'" "nfb_xctrl_tx_free_buffers False ctrl w = Inr (ctrl', fold work_do ws w)" "xtx_ok k ctrl'"
    by blast
  note i = inv [unfolded xtx_inv_def r(1)]
  obtain rest where rest: "mset (xw_mapped w) = mset (maps_of ws) + mset (maps_of (pending k ctrl')) + rest"
    using i by (auto simp: mset_subset_eq_exists_conv)
  then have "mset (maps_of ws) \<subseteq># mset (xw_mapped w)" by (simp add: union_assoc)
  note e = works_do_effect [OF this]
  have m: "mset (xw_mapped (fold work_do ws w)) = mset (maps_of (pending k ctrl')) + rest"
    using e rest by (simp add: union_assoc)
  have none: "rest = {#}" if "\<forall>n. xw_map w n \<noteq> None" using i rest that by (simp add: union_assoc)
  have sub: "mset (maps_of (pending k ctrl')) \<subseteq># mset (xw_mapped (fold work_do ws w))" unfolding m by simp
  have bal: "(\<forall>n. xw_map (fold work_do ws w) n \<noteq> None) \<longrightarrow> mset (xw_mapped (fold work_do ws w)) = mset (maps_of (pending k ctrl'))"
    using none e unfolding m by simp
  have "xtx_inv k g ctrl' (fold work_do ws w)"
    unfolding xtx_inv_def using i e r(3) by (intro conjI sub bal) (simp_all add: ac_simps)
  with r(2) show ?thesis by blast
qed

lemma xtx_run_inv: "xtx_run k g ctrl w \<Longrightarrow> xtx_inv k g ctrl w"
proof (induction rule: xtx_run.induct)
  case (start ctrl w)
  then show ?case by (simp add: xtx_inv_def pending_def works_def)
next
  case (xmit g ctrl w skb xmit_more ctrl' w')
  then show ?case by (blast intro: xtx_inv_xmit)
next
  case (redirect g ctrl w frames flush cnt ctrl' w')
  obtain ctrl1 where l: "xdp_xmit_loop frames 0 ctrl w = (cnt, ctrl1, w')" "ctrl' = ctrl1 \<or> ctrl' = xtx_flush ctrl1"
    using redirect.hyps(3) by (auto simp: nfb_xctrl_xdp_xmit_def split: prod.splits if_splits)
  from xtx_inv_xmit_loop [OF redirect.IH redirect.hyps(2) l(1)] l(2) show ?case by auto
next
  case (rexmit_pp g ctrl w f ret ctrl' w')
  obtain w1 where s: "nfb_xctrl_tx_submit_frame_needs_lock f True ctrl w = (ret, ctrl', w1)"
    "w' = (if ret \<noteq> 0 then xdp_return_frame (fr_id f) w1 else w1)"
    using rexmit_pp.hyps(3) by (auto simp: nfb_xctrl_rexmit_pp_def split: prod.splits)
  from xtx_inv_submit [OF rexmit_pp.IH rexmit_pp.hyps(2) s(1)] s(2) show ?case
    by (auto simp: xtx_inv_frame_returned split: if_splits)
next
  case (rexmit_xsk g ctrl w frags xdp ret ctrl' w')
  then show ?case by (blast intro: xtx_inv_rexmit_xsk)
next
  case (poll_xsk g ctrl w budget avail cnt ctrl' w')
  then show ?case by (blast intro: xtx_inv_poll_xsk)
next
  case (report g ctrl w us)
  then show ?case by (simp add: xtx_inv_def xtx_ok_def xtx_shape_def pending_def works_def)
next
  case (reclaim g ctrl w ctrl' w')
  from xtx_inv_reclaim [OF reclaim.IH reclaim.hyps(2)] reclaim.hyps(3) show ?case by auto
qed

section \<open>The guarantees\<close>

definition example_xtx :: xctrl where
  "example_xtx = \<lparr>x_type = NFB_XCTRL_TX,
     x_buffers = replicate 8 \<lparr>tb_type = NFB_XCTRL_BUFF_DESC_TYPE0, tb_ptr = None, tb_dma = 0, tb_len = 0\<rparr>,
     x_completed_xsk_tx = 0, x_xdp_ring = [], x_mbp = 0, x_pbp = 0, x_fbp = 0, x_nb_hdr = 0, x_hdrs = [], x_nb_desc = 8,
     x_descs = replicate 8 0, x_running = True, x_c = example_ctrl\<lparr>nc_mdp := 7, nc_dir := True\<rparr>\<rparr>"

definition example_xworld :: "(nat \<Rightarrow> u64 option) \<Rightarrow> xworld" where
  "example_xworld m = \<lparr>xw_map = m, xw_maps = 0, xw_mapped = [], xw_bad_unmaps = 0, xw_pad_fails = (\<lambda>_. False),
     xw_skb_freed = [], xw_frame_returned = [], xw_xsk_freed = [], xw_xsk_completed = [], xw_zeroed = []\<rparr>"

text \<open>Mappings at 4 KiB pages of the third gigabyte.\<close>

definition example_map :: "nat \<Rightarrow> u64 option" where "example_map n = Some (0x80000000 + 0x1000 * of_nat n)"

definition example_skb :: sk_buff where
  "example_skb = \<lparr>sk_id = 5, sk_len = 300, sk_headlen = 100, sk_frags = [\<lparr>fg_size = 200, fg_page_dma = 0, fg_off = 0\<rparr>]\<rparr>"

text \<open>After a packet of two segments, with a report that the hardware has read them.\<close>

definition example_sent :: "xctrl \<times> xworld" where
  "example_sent = nfb_xctrl_start_xmit example_skb False example_xtx (example_xworld example_map)"

definition example_read :: xctrl where
  "example_read = (fst example_sent)\<lparr>x_c := (x_c (fst example_sent))\<lparr>nc_updates := [(3, 0)]\<rparr>\<rparr>"

lemma example_mask: "mask 3 = (7 :: u32)"
  by (simp add: mask_eq_exp_minus_1)

lemma example_run: "xtx_run 3 \<lparr>g_skb = {#5#}, g_frame = {#}, g_xsk = {#}\<rparr> example_read (snd example_sent)"
proof -
  have "xtx_run 3 \<lparr>g_skb = {#}, g_frame = {#}, g_xsk = {#}\<rparr> example_xtx (example_xworld example_map)"
    by (rule xtx_run.start)
      (simp_all add: example_xtx_def example_xworld_def example_ctrl_def xtx_ok_def xtx_shape_def example_mask)
  from xtx_run.report [OF xtx_run.xmit [OF this, where skb = example_skb and xmit_more = False
      and ctrl' = "fst example_sent" and w' = "snd example_sent"], where us = "[(3, 0)]"]
  show ?thesis by (simp add: example_read_def example_sent_def example_skb_def)
qed

lemmas example_eval = example_xtx_def example_xworld_def example_ctrl_def example_map_def xtx_free_desc_def dma_map_def
  xtx_seg_def xtx_put_def xtx_set_sdp_def xtx_flush_def nc_ndp_ctrl_sdp_flush_def frag_dma_of_def NDP_CTRL_DESC_UPPER_ADDR_def

lemma example_read_ptrs: "nc_hdp (x_c example_read) = 0" "nc_sdp (x_c example_read) = 3"
  "nc_hdp (nc_ndp_ctrl_hdp_update (x_c example_read)) = 3"
  by (simp_all add: example_eval example_read_def example_sent_def example_skb_def nfb_xctrl_start_xmit_def
      nc_ndp_ctrl_hdp_update_def nc_upd_read_def Let_def)

lemma example_consumed: "hw_consumed 3 (x_c example_read)"
  by (simp add: hw_consumed_def Let_def example_read_ptrs example_mask ring_dist_def)

text \<open>C34.  The transmit ring of an XDP queue keeps its shape in every run: whatever the order of packets of
  the stack, redirected frames, retransmissions, socket polls, hardware reports and reclaims, both pointers stay
  inside the ring, the two arrays keep their length, and the free descriptors the senders compute and the pending
  ones make up the ring but one.
\<close>

theorem xtx_run_shape:
  assumes "xtx_run k g ctrl w"
  shows "xtx_ok k ctrl \<and> unat (nc_sdp (x_c ctrl)) < 2 ^ k \<and> unat (nc_hdp (x_c ctrl)) < 2 ^ k \<and>
    unat (xtx_free_desc ctrl) + length (pending k ctrl) = 2 ^ k - 1"
proof -
  have ok: "xtx_ok k ctrl" using xtx_run_inv [OF assms] by (simp add: xtx_inv_def)
  then show ?thesis
    using xtx_free_desc_count [OF ok] and_mask_less [of "nc_sdp (x_c ctrl)" k] and_mask_less [of "nc_hdp (x_c ctrl)" k]
    by (simp add: xtx_ok_def)
qed

theorem xtx_run_shape_witness: "xtx_ok 3 example_read \<and> unat (nc_sdp (x_c example_read)) < 8"
  using xtx_run_shape [OF example_run] by simp

text \<open>C6.  Reclaiming on an XDP transmit queue is safe in every run: if the consumer pointer the hardware reports
  lies between the old one and the software pointer, the reclaim returns, it never meets the item type that is
  a driver bug or a null pointer, and it never unmaps an address that is not mapped.
\<close>

theorem xtx_reclaim_safe:
  assumes "xtx_run k g ctrl w" and "hw_consumed k (x_c ctrl)"
  shows "\<exists>ctrl' w'. nfb_xctrl_tx_free_buffers False ctrl w = Inr (ctrl', w') \<and> xw_bad_unmaps w' = 0"
  using xtx_inv_reclaim [OF xtx_run_inv [OF assms(1)] assms(2)] by (auto simp: xtx_inv_def)

theorem xtx_reclaim_safe_witness:
  "\<exists>ctrl' w'. nfb_xctrl_tx_free_buffers False example_read (snd example_sent) = Inr (ctrl', w') \<and> xw_bad_unmaps w' = 0"
  by (rule xtx_reclaim_safe [OF example_run example_consumed])



text \<open>A redirected frame that is accepted appends descriptors to the ring, and nothing before them
  changes.  Read by the hardware from the upper address announced last, they name the mapped address of the head and of
  every fragment, in order, with their lengths (modulo \<open>2 ^ 16\<close>; a short frame is extended to 60 bytes), and the upper
  address kept for the next packet is the one the hardware has then.
\<close>

theorem xtx_submit_descriptors:
  assumes "nfb_xctrl_tx_submit_frame_needs_lock frame False ctrl w = (0, ctrl', w')" and "xtx_ok k ctrl"
    and "length (fr_frags frame) < 256"
  shows "\<exists>new dmas. pending_descs k ctrl' = pending_descs k ctrl @ new \<and>
    hw_walk (nc_last_upper_addr (x_c ctrl)) new = (nc_last_upper_addr (x_c ctrl'),
      zip dmas (map (\<lambda>l. ucast (ucast l :: u16)) (frame_len frame # map fg_size (fr_frags frame)))) \<and>
    length dmas = Suc (length (fr_frags frame)) \<and>
    mset (xw_mapped w') = mset (zip dmas (frame_len frame # map fg_size (fr_frags frame))) + mset (xw_mapped w)"
  using assms
proof (cases rule: submit_cases)
  case (sent dma fs)
  define ss where "ss = frame_seg False frame dma # fs"
  have lens: "frame_len frame # map fg_size (fr_frags frame) = map seg_len ss" using sent(7) by (simp add: ss_def)
  have walk: "map (\<lambda>(dma, len, _, _). (dma, ucast (ucast len :: u16) :: u64)) ss =
      zip (map fst ss) (map (\<lambda>l. ucast (ucast l :: u16)) (map seg_len ss))"
    by (rule nth_equalityI) (simp_all add: seg_len_def split: prod.splits)
  have one: "work_maps (seg_work s) = [(fst s, seg_len s)]" if "s \<in> set ss" for s
    using sent(8) that by (auto simp: ss_def frame_seg_def)
  have "maps_of (seg_works u ss) = concat (map (\<lambda>s. [(fst s, seg_len s)]) ss)" for u
    unfolding seg_of_works(1) comp_def using one by (intro arg_cong [of _ _ concat] map_cong) simp_all
  also have "concat (map (\<lambda>s. [(fst s, seg_len s)]) ss) = zip (map fst ss) (map seg_len ss)"
    by (simp add: zip_map_map zip_same_conv_map)
  finally have maps: "maps_of (seg_works u ss) = zip (map fst ss) (map seg_len ss)" for u .
  have "length (map fst ss) = Suc (length (fr_frags frame))" using arg_cong [OF lens, of length] by simp
  then show ?thesis
    unfolding lens using sent(5,6,10) hw_walk_segs [of "nc_last_upper_addr (x_c ctrl)" ss] walk maps
    by (intro exI [of _ "seg_descs (nc_last_upper_addr (x_c ctrl)) ss"] exI [of _ "map fst ss"]) (simp add: ss_def [symmetric])
qed auto

definition example_frame :: xdp_frame where
  "example_frame = \<lparr>fr_id = 9, fr_data = 0x1000, fr_len = 50, fr_headroom = 256, fr_frame_sz = 4096, fr_has_frags = False,
     fr_page_dma = 0, fr_frags = []\<rparr>"

definition example_submit :: "int \<times> xctrl \<times> xworld" where
  "example_submit = nfb_xctrl_tx_submit_frame_needs_lock example_frame False example_xtx (example_xworld example_map)"

theorem xtx_submit_descriptors_witness:
  "\<exists>new dmas. pending_descs 3 (fst (snd example_submit)) = pending_descs 3 example_xtx @ new \<and>
    mset (xw_mapped (snd (snd example_submit))) = mset (zip dmas [60])"
proof -
  have "fst example_submit = 0"
    by (simp add: example_submit_def example_frame_def nfb_xctrl_tx_submit_frame_needs_lock_def example_eval)
  then have s: "nfb_xctrl_tx_submit_frame_needs_lock example_frame False example_xtx (example_xworld example_map) =
      (0, fst (snd example_submit), snd (snd example_submit))" unfolding example_submit_def by (metis prod.collapse)
  have "xtx_ok 3 example_xtx" by (simp add: example_xtx_def example_ctrl_def xtx_ok_def xtx_shape_def example_mask)
  from xtx_submit_descriptors [OF s this] show ?thesis
    by (auto simp: example_frame_def frame_len_def example_xworld_def)
qed

text \<open>C9.  An XDP transmit queue drains: in any run, when the hardware reports that it has read everything up to
  the software pointer, one reclaim releases all the work there is.  Every socket buffer, frame and AF\_XDP buffer ever given
  to the driver has then been released exactly once, no mapping is left unless one failed, and a frame that fits the
  ring at all is not turned away as busy.
\<close>

theorem xtx_drains:
  assumes "xtx_run k g ctrl w" and "nc_hdp (nc_ndp_ctrl_hdp_update (x_c ctrl)) = nc_sdp (x_c ctrl)"
    and "2 * (length (fr_frags frame) + 1) < 2 ^ k" and "length (fr_frags frame) < 256"
  shows "\<exists>ctrl' w'. nfb_xctrl_tx_free_buffers False ctrl w = Inr (ctrl', w') \<and> pending k ctrl' = [] \<and>
    mset (xw_skb_freed w') = g_skb g \<and> mset (xw_frame_returned w') = g_frame g \<and> mset (xw_xsk_freed w') = g_xsk g \<and>
    ((\<forall>n. xw_map w' n \<noteq> None) \<longrightarrow> xw_mapped w' = []) \<and>
    fst (nfb_xctrl_tx_submit_frame_needs_lock frame pp ctrl' w') \<noteq> - EBUSY"
proof -
  note inv = xtx_run_inv [OF assms(1)]
  have ok: "xtx_ok k ctrl" using inv by (simp add: xtx_inv_def)
  have hw: "hw_consumed k (x_c ctrl)" using ok assms(2) by (simp add: hw_consumed_def Let_def xtx_ok_def)
  from xtx_inv_reclaim [OF inv hw] obtain ctrl' w' where
    r: "nfb_xctrl_tx_free_buffers False ctrl w = Inr (ctrl', w')" and inv': "xtx_inv k g ctrl' w'" by blast
  have ok': "xtx_ok k ctrl'" using inv' by (simp add: xtx_inv_def)
  from reclaim_works [OF ok hw, of w] inv r have "x_c ctrl' = nc_ndp_ctrl_hdp_update (x_c ctrl)"
    by (auto simp: xtx_inv_def)
  then have p: "pending k ctrl' = []" using assms(2) by (simp add: pending_def works_def hdp_update_same)
  have "\<not> xtx_free_desc ctrl' < (of_nat (length (fr_frags frame)) + 1) * 2"
    using desc_need [OF assms(4)] xtx_free_desc_count [OF ok'] p assms(3) by auto
  then have "fst (nfb_xctrl_tx_submit_frame_needs_lock frame pp ctrl' w') \<noteq> - EBUSY"
    by (auto simp: nfb_xctrl_tx_submit_frame_needs_lock_def Let_def split: option.splits prod.splits)
  with r p inv' show ?thesis by (simp add: xtx_inv_def)
qed

theorem xtx_drains_witness:
  "\<exists>ctrl' w'. nfb_xctrl_tx_free_buffers False example_read (snd example_sent) = Inr (ctrl', w') \<and> pending 3 ctrl' = [] \<and>
    mset (xw_skb_freed w') = {#5#} \<and> fst (nfb_xctrl_tx_submit_frame_needs_lock example_frame False ctrl' w') \<noteq> - EBUSY"
  using xtx_drains [OF example_run, of example_frame False]
  by (auto simp: example_read_ptrs example_frame_def)

text \<open>C10.  A reclaim takes the completed packets from the front of the queue, in the order in which they were
  sent, and does for each slot what its item asks for; the descriptors and items behind the new consumer pointer stay as
  they are, and the completed socket buffers are counted.
\<close>

theorem xtx_reclaim_fifo:
  assumes "xtx_run k g ctrl w" and "hw_consumed k (x_c ctrl)"
    and "nfb_xctrl_tx_free_buffers False ctrl w = Inr (ctrl', w')"
  shows "\<exists>n. pending k ctrl' = drop n (pending k ctrl) \<and> pending_descs k ctrl' = drop n (pending_descs k ctrl) \<and>
    w' = fold work_do (take n (pending k ctrl)) w \<and>
    x_completed_xsk_tx ctrl' = x_completed_xsk_tx ctrl + works_done (take n (pending k ctrl)) \<and>
    n = ring_dist k (nc_hdp (x_c ctrl)) (nc_hdp (x_c ctrl'))"
proof -
  have ok: "xtx_ok k ctrl" and stuck: "WStuck \<notin> set (pending k ctrl)"
    using xtx_run_inv [OF assms(1)] by (simp_all add: xtx_inv_def)
  from reclaim_works [OF ok assms(2) stuck, of w] assms(3) obtain ws where
    r: "pending k ctrl = ws @ pending k ctrl'" "w' = fold work_do ws w" "x_c ctrl' = nc_ndp_ctrl_hdp_update (x_c ctrl)"
      "x_completed_xsk_tx ctrl' = x_completed_xsk_tx ctrl + works_done ws"
      "pending_descs k ctrl' = drop (length ws) (pending_descs k ctrl)"
    by (metis Inr_inject Pair_inject)
  have "length ws + length (pending k ctrl') = length (pending k ctrl)" unfolding r(1) by simp
  moreover have "ring_dist k (nc_hdp (x_c ctrl)) (nc_hdp (x_c ctrl')) \<le> ring_dist k (nc_hdp (x_c ctrl)) (nc_sdp (x_c ctrl))"
    using assms(2) by (simp add: hw_consumed_def Let_def r(3))
  ultimately have "length ws = ring_dist k (nc_hdp (x_c ctrl)) (nc_hdp (x_c ctrl'))"
    using ring_dist_split [of k "nc_hdp (x_c ctrl)" "nc_hdp (x_c ctrl')" "nc_sdp (x_c ctrl)"]
    by (simp add: length_pending r(3) hdp_update_same)
  then show ?thesis using r by (intro exI [of _ "length ws"]) (metis append_eq_conv_conj)
qed

theorem xtx_reclaim_fifo_witness:
  "\<exists>ctrl' w' n. nfb_xctrl_tx_free_buffers False example_read (snd example_sent) = Inr (ctrl', w') \<and>
    w' = fold work_do (take n (pending 3 example_read)) (snd example_sent)"
proof -
  obtain ctrl' w' where r: "nfb_xctrl_tx_free_buffers False example_read (snd example_sent) = Inr (ctrl', w')"
    using xtx_inv_reclaim [OF xtx_run_inv [OF example_run] example_consumed] by blast
  from xtx_reclaim_fifo [OF example_run example_consumed r] r show ?thesis by blast
qed

text \<open>
  A packet whose second fragment cannot be mapped, on a queue whose last announced gigabyte is the third one: the
  head and the first fragment lie in the fourth.  Then a packet of one segment in the fourth.
\<close>

definition example_late :: xctrl where
  "example_late = example_xtx\<lparr>x_c := (x_c example_xtx)\<lparr>nc_last_upper_addr := 0x80000000\<rparr>\<rparr>"

definition failing_map :: "nat \<Rightarrow> u64 option" where
  "failing_map n = (if n = 2 then None else Some (0xC0000000 + 0x1000 * of_nat n))"

definition example_skb2 :: sk_buff where
  "example_skb2 = example_skb\<lparr>sk_id := 6, sk_len := 500, sk_frags := sk_frags example_skb @ sk_frags example_skb\<rparr>"

definition example_skb3 :: sk_buff where
  "example_skb3 = example_skb\<lparr>sk_id := 7, sk_len := 100, sk_frags := []\<rparr>"

definition failed_xmit :: "xctrl \<times> xworld" where
  "failed_xmit = nfb_xctrl_start_xmit example_skb2 False example_late (example_xworld failing_map)"

definition next_xmit :: "xctrl \<times> xworld" where
  "next_xmit = nfb_xctrl_start_xmit example_skb3 False (fst failed_xmit) (snd failed_xmit)"

lemma failed_xmit_eval:
  "xw_mapped (snd failed_xmit) = [(0xC0001000, 200)]" "xw_skb_freed (snd failed_xmit) = [6]"
  "nc_sdp (x_c (fst failed_xmit)) = 0" "nc_hdp (x_c (fst failed_xmit)) = 0"
  "nc_last_upper_addr (x_c (fst failed_xmit)) = 0xC0000000" "nc_mdp (x_c (fst failed_xmit)) = 7"
  "xw_map (snd failed_xmit) = failing_map" "xw_maps (snd failed_xmit) = 3" "xw_pad_fails (snd failed_xmit) 7 = False"
  "length (x_descs (fst failed_xmit)) = 8"
  by (simp_all add: failed_xmit_def example_late_def example_skb2_def example_skb_def nfb_xctrl_start_xmit_def
      skb_item_def dma_unmap_single_def dev_kfree_skb_def example_eval failing_map_def Let_def)

lemma next_xmit_eval:
  "xw_mapped (snd next_xmit) = [(0xC0003000, 100), (0xC0001000, 200)]" "nc_sdp (x_c (fst next_xmit)) = 1"
  "nc_hdp (x_c (fst next_xmit)) = 0" "x_descs (fst next_xmit) = (x_descs (fst failed_xmit))[0 := nc_ndp_tx_desc2 0xC0003000 100 0 False]"
  using failed_xmit_eval
  by (simp_all add: next_xmit_def nfb_xctrl_start_xmit_def example_skb3_def example_skb_def xtx_free_desc_def dma_map_def
      xtx_seg_def xtx_put_def xtx_set_sdp_def xtx_flush_def nc_ndp_ctrl_sdp_flush_def NDP_CTRL_DESC_UPPER_ADDR_def
      failing_map_def Let_def)

text \<open>A failed fragment mapping breaks an XDP transmit queue in two ways.  The packet is dropped and
  nothing is pending, but a mapping of it stays in force for ever, because the type 0 descriptor takes one of the
  slots the unmapping visits; and the upper address is kept though its descriptor was never handed over, so the next
  packet is sent without one and the hardware reads it from another gigabyte than the one it was mapped at.
\<close>

theorem xtx_failed_mapping_breaks:
  "pending 3 (fst failed_xmit) = [] \<and> xw_skb_freed (snd failed_xmit) = [6] \<and>
   xw_mapped (snd failed_xmit) = [(0xC0001000, 200)] \<and>
   hd (xw_mapped (snd next_xmit)) = (0xC0003000, 100) \<and>
   hw_walk (nc_last_upper_addr (x_c example_late)) (pending_descs 3 (fst next_xmit)) = (0x80000000, [(0x80003000, 100)])"
proof -
  have "pending_descs 3 (fst next_xmit) = [nc_ndp_tx_desc2 0xC0003000 100 0 False]"
    using failed_xmit_eval(10) by (simp add: pending_descs_def ring_view_def ring_dist_def next_xmit_eval example_mask)
  moreover have "desc_type (nc_ndp_tx_desc2 0xC0003000 100 0 False) = 2"
    "bf_get 0 30 (nc_ndp_tx_desc2 0xC0003000 100 0 False) = 0x3000" "bf_get 32 16 (nc_ndp_tx_desc2 0xC0003000 100 0 False) = 100"
    by (simp_all add: tx_desc2_fields mask_eq_exp_minus_1)
  ultimately show ?thesis
    by (simp add: pending_def works_def failed_xmit_eval next_xmit_eval example_late_def)
qed

end
