(* ===== verification/XdpRx.thy ===== *)
theory XdpRx
  imports XdpTx
begin

text \<open>
  The receive side of the XDP driver, \<open>drivers/kernel/drivers/nfb/xdp/ctrl_xdp_pp.c\<close> (pages of a page pool) and
  \<open>ctrl_xdp_xsk.c\<close> (buffers of an AF\_XDP socket): the ring of receive descriptors is filled with empty buffers, received
  packets are taken from the front of the ring of buffers, a packet longer than a buffer continues in the next
  ones, and the verdict of the BPF program decides who gets the packet.

  The page pool, the socket's pool, the BPF program and the network stack belong to the kernel or to the user.
  \<open>rw_alloc\<close> answers the n-th allocation with a buffer and its bus address, \<open>rw_prog\<close> is the attached program: for its
  n-th run the verdict and the buffer as the program leaves it; \<open>rw_conv\<close>, \<open>rw_build\<close> and \<open>rw_redirect\<close> say whether the n-th
  conversion to a frame, construction of a socket buffer and redirection succeeds.  The lists record what happened
  to the buffers: given back to their pool, passed to the stack, redirected, or handed to the transmit side.
\<close>

datatype xdp_act = XDP_ABORTED | XDP_DROP | XDP_PASS | XDP_TX | XDP_REDIRECT | XDP_OTHER

record rworld =
  rw_alloc :: "nat \<Rightarrow> (nat \<times> u64) option"
  rw_allocs :: nat
  rw_prog :: "(nat \<Rightarrow> xdp_buff \<Rightarrow> xdp_act \<times> xdp_buff) option"
  rw_conv :: "nat \<Rightarrow> bool"
  rw_build :: "nat \<Rightarrow> bool"
  rw_redirect :: "nat \<Rightarrow> int"
  rw_xskmap :: "nat \<Rightarrow> bool"
  rw_runs :: nat
  rw_returned :: "nat list"
  rw_stack :: "nat list list"
  rw_redirected :: "nat list list"
  rw_txed :: "nat list list"
  rw_xskb_list :: "xdp_buff list"
  rw_tx :: xctrl
  rw_x :: xworld

abbreviation (input) NFB_XDP_CTRL_PACKET_BURST :: nat where "NFB_XDP_CTRL_PACKET_BURST \<equiv> 64"

definition rw_take :: "rworld \<Rightarrow> (nat \<times> u64) option \<times> rworld" where
  "rw_take w = (rw_alloc w (rw_allocs w), w\<lparr>rw_allocs := Suc (rw_allocs w)\<rparr>)"

definition rw_give_back :: "nat list \<Rightarrow> rworld \<Rightarrow> rworld" where
  "rw_give_back ids w = w\<lparr>rw_returned := ids @ rw_returned w\<rparr>"

definition empty_buff :: "nat \<Rightarrow> u64 \<Rightarrow> xdp_buff" where
  "empty_buff b dma = \<lparr>xb_id = b, xb_dma = dma, xb_len = 0, xb_frags_flag = False, xb_frags = [], xb_frags_size = 0\<rparr>"

section \<open>Filling the ring\<close>

text \<open>The local variables of the two fill loops.\<close>

record fill_st =
  fs_filled :: nat
  fs_free :: u32
  fs_last :: u64
  fs_sdp :: u32
  fs_fbp :: u32

text \<open>The type 0 descriptor, when the upper part of the address changes.\<close>

definition fill_upper :: "u64 \<Rightarrow> fill_st \<times> xctrl \<Rightarrow> fill_st \<times> xctrl" where
  "fill_upper dma = (\<lambda>(s, ctrl).
     if NDP_CTRL_DESC_UPPER_ADDR dma \<noteq> fs_last s then
       (s\<lparr>fs_last := NDP_CTRL_DESC_UPPER_ADDR dma, fs_sdp := (fs_sdp s + 1) AND nc_mdp (x_c ctrl), fs_free := fs_free s - 1\<rparr>,
        ctrl\<lparr>x_c := (x_c ctrl)\<lparr>nc_last_upper_addr := NDP_CTRL_DESC_UPPER_ADDR dma\<rparr>,
             x_descs := (x_descs ctrl)[unat (fs_sdp s) := nc_ndp_rx_desc0 dma]\<rparr>)
     else (s, ctrl))"

text \<open>Buffer and type 2 descriptor.\<close>

definition fill_buff :: "xdp_buff \<Rightarrow> u16 \<Rightarrow> bool \<Rightarrow> fill_st \<times> xctrl \<Rightarrow> fill_st \<times> xctrl" where
  "fill_buff b len nxt = (\<lambda>(s, ctrl).
     (s\<lparr>fs_filled := Suc (fs_filled s), fs_sdp := (fs_sdp s + 1) AND nc_mdp (x_c ctrl),
        fs_fbp := (fs_fbp s + 1) AND x_mbp ctrl, fs_free := fs_free s - 1\<rparr>,
      ctrl\<lparr>x_xdp_ring := (x_xdp_ring ctrl)[unat (fs_fbp s) := Some b],
           x_descs := (x_descs ctrl)[unat (fs_sdp s) := nc_ndp_rx_desc2 (xb_dma b) len nxt]\<rparr>))"

definition fill_start :: "xctrl \<Rightarrow> xctrl \<times> fill_st \<times> bool" where
  "fill_start ctrl =
     (let c = nc_ndp_ctrl_hdp_update (x_c ctrl);
          free_buffs = (x_pbp ctrl - x_fbp ctrl - 1) AND x_mbp ctrl;
          free_desc = (nc_hdp c - nc_sdp c - 1) AND nc_mdp c
      in (ctrl\<lparr>x_c := c\<rparr>,
          \<lparr>fs_filled = 0, fs_free = free_desc, fs_last = nc_last_upper_addr (x_c ctrl), fs_sdp = nc_sdp c, fs_fbp = x_fbp ctrl\<rparr>,
          free_buffs < 64 \<or> free_desc < 64))"

definition fill_end :: "fill_st \<times> xctrl \<Rightarrow> xctrl" where
  "fill_end = (\<lambda>(s, ctrl). ctrl\<lparr>x_fbp := fs_fbp s, x_c := (x_c ctrl)\<lparr>nc_sdp := fs_sdp s\<rparr>\<rparr>)"

text \<open>
  Page pool.  \<open>len\<close> is \<open>NFB_PP_MAX_FRAME_LEN\<close>, a page less the headroom and the kernel's shared info, \<open>sg\<close> is
  \<open>CONFIG_HAVE_XDP_SG\<close>.
\<close>

primrec fill_pp_loop :: "u16 \<Rightarrow> bool \<Rightarrow> nat \<Rightarrow> fill_st \<times> xctrl \<Rightarrow> rworld \<Rightarrow> (fill_st \<times> xctrl) \<times> rworld" where
  "fill_pp_loop len sg 0 st w = (st, w)"
| "fill_pp_loop len sg (Suc n) st w =
     (case rw_take w of
        (None, w1) \<Rightarrow> (st, w1)
      | (Some (page, page_dma), w1) \<Rightarrow>
        let dma = page_dma + XDP_PACKET_HEADROOM
        in if NDP_CTRL_DESC_UPPER_ADDR dma \<noteq> fs_last (fst st) \<and> fs_free (fst st) = 0 then (st, rw_give_back [page] w1)
        else let st1 = fill_upper dma st
        in if fs_free (fst st1) = 0 then (st1, rw_give_back [page] w1)
        else fill_pp_loop len sg n (fill_buff (empty_buff page dma) len sg st1) w1)"

definition nfb_xctrl_rx_fill_pp :: "u16 \<Rightarrow> bool \<Rightarrow> xctrl \<Rightarrow> rworld \<Rightarrow> nat \<times> xctrl \<times> rworld" where
  "nfb_xctrl_rx_fill_pp len sg ctrl w =
     (case fill_start ctrl of (ctrl1, s, enough) \<Rightarrow>
      if enough then (0, ctrl1, w)
      else case fill_pp_loop len sg NFB_XDP_CTRL_PACKET_BURST (s, ctrl1) w of (st, w1) \<Rightarrow>
        (fs_filled (fst st), fill_end st, w1))"

text \<open>
  AF\_XDP.  The fallback for kernels without a batch allocation stores the null pointer of the failed
  allocation too, and counts it.
\<close>

primrec xsk_buff_alloc_batch :: "bool \<Rightarrow> nat \<Rightarrow> rworld \<Rightarrow> xdp_buff option list \<times> rworld" where
  "xsk_buff_alloc_batch native 0 w = ([], w)"
| "xsk_buff_alloc_batch native (Suc n) w =
     (case rw_take w of
        (None, w1) \<Rightarrow> (if native then [] else [None], w1)
      | (Some (b, dma), w1) \<Rightarrow>
          (case xsk_buff_alloc_batch native n w1 of (bs, w2) \<Rightarrow> (Some (empty_buff b dma) # bs, w2)))"

text \<open>The loop over the allocated buffers; the ones left over are freed.\<close>

primrec fill_xsk_loop :: "u16 \<Rightarrow> bool \<Rightarrow> xdp_buff option list \<Rightarrow> fill_st \<times> xctrl \<Rightarrow> rworld \<Rightarrow> xstop + (fill_st \<times> xctrl) \<times> rworld" where
  "fill_xsk_loop len sg [] st w = Inr (st, w)"
| "fill_xsk_loop len sg (b # bs) st w =
     (case b of
        None \<Rightarrow> Inl XFault
      | Some x \<Rightarrow>
        if NDP_CTRL_DESC_UPPER_ADDR (xb_dma x) \<noteq> fs_last (fst st) \<and> fs_free (fst st) = 0 then
          (if None \<in> set bs then Inl XFault else Inr (st, rw_give_back (map xb_id (x # map the bs)) w))
        else let st1 = fill_upper (xb_dma x) st
        in if fs_free (fst st1) = 0 then
          (if None \<in> set bs then Inl XFault else Inr (st1, rw_give_back (map xb_id (x # map the bs)) w))
        else fill_xsk_loop len sg bs (fill_buff x len sg st1) w)"

definition nfb_xctrl_rx_fill_xsk :: "bool \<Rightarrow> u32 \<Rightarrow> bool \<Rightarrow> xctrl \<Rightarrow> rworld \<Rightarrow> xstop + nat \<times> xctrl \<times> rworld" where
  "nfb_xctrl_rx_fill_xsk native frame_len sg ctrl w =
     (case fill_start ctrl of (ctrl1, s, enough) \<Rightarrow>
      if enough then Inr (0, ctrl1, w)
      else case xsk_buff_alloc_batch native NFB_XDP_CTRL_PACKET_BURST w of (bs, w1) \<Rightarrow>
        (case fill_xsk_loop (ucast frame_len) sg bs (s, ctrl1) w1 of
           Inl e \<Rightarrow> Inl e
         | Inr (st, w2) \<Rightarrow> Inr (length bs, fill_end st, w2)))"

text \<open>\<open>while (nfb_xctrl_rx_fill_...(ctrl));\<close> with fuel.\<close>

primrec fill_all ::
  "(xctrl \<Rightarrow> rworld \<Rightarrow> xstop + nat \<times> xctrl \<times> rworld) \<Rightarrow> nat \<Rightarrow> xctrl \<Rightarrow> rworld \<Rightarrow> xstop + xctrl \<times> rworld" where
  "fill_all fill 0 ctrl w = Inl XHung"
| "fill_all fill (Suc n) ctrl w =
     (case fill ctrl w of
        Inl e \<Rightarrow> Inl e
      | Inr (filled, ctrl1, w1) \<Rightarrow> if filled = 0 then Inr (ctrl1, w1) else fill_all fill n ctrl1 w1)"

section \<open>Taking a packet\<close>

definition ring_buff :: "xctrl \<Rightarrow> u32 \<Rightarrow> xdp_buff option" where
  "ring_buff ctrl i = (if unat i < length (x_xdp_ring ctrl) then x_xdp_ring ctrl ! unat i else None)"

text \<open>
  The loop over the buffers after the first.  \<open>mx\<close> is the space in a buffer; the result are the buffers with the length
  of data in each.  The fuel is the remaining length: every turn takes a byte at least, if a buffer has room at all.
\<close>

primrec rx_frags :: "nat \<Rightarrow> u32 \<Rightarrow> xctrl \<Rightarrow> u32 \<Rightarrow> u32 \<Rightarrow> xstop + (xdp_buff \<times> u32) list \<times> u32" where
  "rx_frags 0 mx ctrl len_remain pbp = (if len_remain = 0 then Inr ([], pbp) else Inl XHung)"
| "rx_frags (Suc n) mx ctrl len_remain pbp =
     (if len_remain = 0 then Inr ([], pbp)
      else case ring_buff ctrl pbp of
        None \<Rightarrow> Inl XFault
      | Some b \<Rightarrow>
        let len = (if len_remain > mx then mx else len_remain)
        in case rx_frags n mx ctrl (len_remain - len) ((pbp + 1) AND x_mbp ctrl) of
             Inl e \<Rightarrow> Inl e
           | Inr (fs, pbp1) \<Rightarrow> Inr ((b, len) # fs, pbp1))"

definition rx_packet :: "u32 \<Rightarrow> bool \<Rightarrow> xctrl \<Rightarrow> u32 \<Rightarrow> u32 \<Rightarrow> xstop + (xdp_buff \<times> u32) list \<times> u32" where
  "rx_packet mx sg ctrl frame_len pbp =
     (case ring_buff ctrl pbp of
        None \<Rightarrow> Inl XFault
      | Some head \<Rightarrow>
        let len = (if sg \<and> frame_len > mx then mx else frame_len)
        in case rx_frags (unat (frame_len - len)) mx ctrl (frame_len - len) ((pbp + 1) AND x_mbp ctrl) of
             Inl e \<Rightarrow> Inl e
           | Inr (fs, pbp1) \<Rightarrow> Inr ((head, len) # fs, pbp1))"

text \<open>The head as the page-pool mode leaves it: fragments in the shared info.\<close>

definition pp_head :: "(xdp_buff \<times> u32) list \<Rightarrow> xdp_buff" where
  "pp_head parts =
     (case parts of
        [] \<Rightarrow> empty_buff 0 0
      | (head, len) # fs \<Rightarrow>
          head\<lparr>xb_len := len, xb_frags_flag := fs \<noteq> [], xb_frags_size := if fs \<noteq> [] then sum_list (map snd fs) else xb_frags_size head,
               xb_frags := xb_frags head @ map (\<lambda>(b, l). (xb_id b, \<lparr>fg_size = l, fg_page_dma = xb_dma b - XDP_PACKET_HEADROOM, fg_off = 256\<rparr>)) fs\<rparr>)"

text \<open>In AF\_XDP mode the fragments are queued on the list of the pool.\<close>

definition xsk_head :: "(xdp_buff \<times> u32) list \<Rightarrow> xdp_buff" where
  "xsk_head parts = (case parts of [] \<Rightarrow> empty_buff 0 0 | (head, len) # fs \<Rightarrow> head\<lparr>xb_len := len, xb_frags_flag := fs \<noteq> []\<rparr>)"

definition buff_ids :: "xdp_buff \<Rightarrow> nat list" where
  "buff_ids b = xb_id b # map fst (xb_frags b)"

section \<open>Handing the packet over\<close>

definition run_prog :: "xdp_buff \<Rightarrow> rworld \<Rightarrow> xdp_act \<times> xdp_buff" where
  "run_prog xdp w = (case rw_prog w of None \<Rightarrow> (XDP_PASS, xdp) | Some prog \<Rightarrow> prog (rw_runs w) xdp)"

definition buff_frame :: "xdp_buff \<Rightarrow> xdp_frame" where
  "buff_frame b = \<lparr>fr_id = xb_id b, fr_data = xb_dma b, fr_len = xb_len b, fr_headroom = 256, fr_frame_sz = ucast PAGE_SIZE,
     fr_has_frags = xb_frags_flag b, fr_page_dma = xb_dma b - XDP_PACKET_HEADROOM, fr_frags = map snd (xb_frags b)\<rparr>"

text \<open>A frame given back takes the pages of its fragments along; a failed conversion is a null pointer.\<close>

definition return_buff :: "bool \<Rightarrow> xdp_buff \<Rightarrow> rworld \<Rightarrow> xstop + rworld" where
  "return_buff conv xdp w = (if conv then Inr (rw_give_back (buff_ids xdp) w) else Inl XFault)"

definition nfb_xctrl_handle_pp :: "xdp_buff \<Rightarrow> rworld \<Rightarrow> xstop + rworld" where
  "nfb_xctrl_handle_pp xdp w =
     (case run_prog xdp w of (act, b) \<Rightarrow>
      let n = rw_runs w; w1 = w\<lparr>rw_runs := Suc n\<rparr>
      in case act of
        XDP_PASS \<Rightarrow>
          (if \<not> rw_conv w n then Inl XFault
           else if rw_build w n then Inr (w1\<lparr>rw_stack := buff_ids b # rw_stack w1\<rparr>)
           else return_buff (rw_conv w n) b w1)
      | XDP_TX \<Rightarrow>
          (case nfb_xctrl_rexmit_pp (if rw_conv w n then Some (buff_frame b) else None) (rw_tx w) (rw_x w) of
             Inl e \<Rightarrow> Inl e
           | Inr (ret, tx, x) \<Rightarrow>
             Inr (w1\<lparr>rw_tx := tx, rw_x := x, rw_txed := buff_ids b # rw_txed w1\<rparr>))
      | XDP_REDIRECT \<Rightarrow>
          (if rw_redirect w n = 0 then Inr (w1\<lparr>rw_redirected := buff_ids b # rw_redirected w1\<rparr>)
           else return_buff (rw_conv w n) b w1)
      | _ \<Rightarrow> return_buff (rw_conv w n) b w1)"

text \<open>
  Building a socket buffer from an AF\_XDP packet copies and frees the head and every fragment of the
  list; with no memory they are freed only.
\<close>

definition nfb_napi_build_skb_from_xsk :: "bool \<Rightarrow> xdp_buff \<Rightarrow> rworld \<Rightarrow> bool \<times> rworld" where
  "nfb_napi_build_skb_from_xsk mem xdp w =
     (let ids = map xb_id (xdp # rw_xskb_list w)
      in (mem, rw_give_back ids (w\<lparr>rw_xskb_list := []\<rparr>)))"

text \<open>\<open>xsk_buff_free\<close> of a head with fragments frees the fragments on the pool's list too.\<close>

definition xsk_free_all :: "xdp_buff \<Rightarrow> rworld \<Rightarrow> rworld" where
  "xsk_free_all xdp w =
     (if xb_frags_flag xdp then rw_give_back (map xb_id (xdp # rw_xskb_list w)) (w\<lparr>rw_xskb_list := []\<rparr>)
      else rw_give_back [xb_id xdp] w)"

definition nfb_xctrl_handle_xsk :: "xdp_buff \<Rightarrow> rworld \<Rightarrow> xstop + rworld" where
  "nfb_xctrl_handle_xsk xdp w =
     (case run_prog xdp w of (act, b) \<Rightarrow>
      let n = rw_runs w; w1 = w\<lparr>rw_runs := Suc n\<rparr>
      in case act of
        XDP_PASS \<Rightarrow>
          (case nfb_napi_build_skb_from_xsk (rw_build w n) b w1 of (ok, w2) \<Rightarrow>
           Inr (if ok then w2\<lparr>rw_stack := map xb_id (b # rw_xskb_list w1) # rw_stack w2\<rparr> else w2))
      | XDP_TX \<Rightarrow>
          (case nfb_xctrl_rexmit_xsk b (rw_xskb_list w) (rw_tx w) (rw_x w) of
             Inl e \<Rightarrow> Inl e
           | Inr (ret, tx, x) \<Rightarrow>
             Inr (w1\<lparr>rw_xskb_list := [], rw_tx := tx, rw_x := x, rw_txed := map xb_id (b # rw_xskb_list w) # rw_txed w1\<rparr>))
      | XDP_REDIRECT \<Rightarrow>
          (if rw_xskmap w n \<and> rw_redirect w n = 0 then
             Inr (w1\<lparr>rw_redirected := map xb_id (b # rw_xskb_list w1) # rw_redirected w1, rw_xskb_list := []\<rparr>)
           else Inr (xsk_free_all b w1))
      | _ \<Rightarrow> Inr (xsk_free_all b w1))"

section \<open>Receiving and polling\<close>

text \<open>\<open>give\<close> prepares the head and hands it to the mode's handler.\<close>

primrec rx_loop ::
  "((xdp_buff \<times> u32) list \<Rightarrow> rworld \<Rightarrow> xstop + rworld) \<Rightarrow> u32 \<Rightarrow> bool \<Rightarrow> xctrl \<Rightarrow> nat \<Rightarrow> u32 \<Rightarrow> u32 \<Rightarrow> rworld \<Rightarrow>
   xstop + (u32 \<times> u32) \<times> rworld" where
  "rx_loop give mx sg ctrl 0 shp pbp w = Inr ((shp, pbp), w)"
| "rx_loop give mx sg ctrl (Suc n) shp pbp w =
     (case rx_packet mx sg ctrl (ucast (hdr_frame_len (x_hdrs ctrl ! unat shp))) pbp of
        Inl e \<Rightarrow> Inl e
      | Inr (parts, pbp1) \<Rightarrow>
        (case give parts w of
           Inl e \<Rightarrow> Inl e
         | Inr w1 \<Rightarrow> rx_loop give mx sg ctrl n ((shp + 1) AND nc_mhp (x_c ctrl)) pbp1 w1))"

definition rx_give_pp :: "(xdp_buff \<times> u32) list \<Rightarrow> rworld \<Rightarrow> xstop + rworld" where
  "rx_give_pp parts w = nfb_xctrl_handle_pp (pp_head parts) w"

definition rx_give_xsk :: "(xdp_buff \<times> u32) list \<Rightarrow> rworld \<Rightarrow> xstop + rworld" where
  "rx_give_xsk parts w =
     nfb_xctrl_handle_xsk (xsk_head parts)
       (w\<lparr>rw_xskb_list := rw_xskb_list w @ map (\<lambda>(b, l). b\<lparr>xb_len := l\<rparr>) (tl parts)\<rparr>)"

definition rx_common ::
  "(xctrl \<Rightarrow> rworld \<Rightarrow> xstop + nat \<times> xctrl \<times> rworld) \<Rightarrow> ((xdp_buff \<times> u32) list \<Rightarrow> rworld \<Rightarrow> xstop + rworld) \<Rightarrow>
   u32 \<Rightarrow> bool \<Rightarrow> u16 \<Rightarrow> xctrl \<Rightarrow> rworld \<Rightarrow> xstop + u16 \<times> xctrl \<times> rworld" where
  "rx_common fill give mx sg nb_pkts ctrl w =
     (case fill_all fill (unat (x_mbp ctrl) + 2) ctrl w of
        Inl e \<Rightarrow> Inl e
      | Inr (ctrl1, w1) \<Rightarrow>
        let c = nc_ndp_ctrl_hhp_update (nc_ndp_ctrl_sdp_flush (x_c ctrl1));
            ctrl2 = ctrl1\<lparr>x_c := c\<rparr>;
            avail = ucast ((nc_hhp c - nc_shp c) AND nc_mhp c) :: u16;
            nb_rx = (if nb_pkts < avail then nb_pkts else avail)
        in case rx_loop give mx sg ctrl2 (unat nb_rx) (nc_shp c) (x_pbp ctrl2) w1 of
             Inl e \<Rightarrow> Inl e
           | Inr ((shp, pbp), w2) \<Rightarrow> Inr (nb_rx, ctrl2\<lparr>x_pbp := pbp, x_c := c\<lparr>nc_shp := shp\<rparr>\<rparr>, w2))"

definition nfb_xctrl_rx_pp :: "u32 \<Rightarrow> bool \<Rightarrow> u16 \<Rightarrow> xctrl \<Rightarrow> rworld \<Rightarrow> xstop + u16 \<times> xctrl \<times> rworld" where
  "nfb_xctrl_rx_pp mx sg = rx_common (\<lambda>c w. Inr (nfb_xctrl_rx_fill_pp (ucast mx) sg c w)) rx_give_pp mx sg"

definition nfb_xctrl_rx_xsk :: "bool \<Rightarrow> u32 \<Rightarrow> bool \<Rightarrow> bool \<Rightarrow> u16 \<Rightarrow> xctrl \<Rightarrow> rworld \<Rightarrow> xstop + u16 \<times> xctrl \<times> rworld" where
  "nfb_xctrl_rx_xsk native frame_size sg_enabled sg =
     rx_common (nfb_xctrl_rx_fill_xsk native frame_size (sg \<and> sg_enabled)) rx_give_xsk frame_size sg"

text \<open>
  The polls.  \<open>got_lock\<close> is the result of \<open>spin_trylock\<close> on the transmit lock.  The result is the work done; the poll is
  complete when it is less than the budget.
\<close>

definition tx_housekeeping :: "bool \<Rightarrow> bool \<Rightarrow> rworld \<Rightarrow> xstop + rworld" where
  "tx_housekeeping flush got_lock w =
     (if \<not> got_lock then Inr w
      else case nfb_xctrl_tx_free_buffers False (if flush then xtx_flush (rw_tx w) else rw_tx w) (rw_x w) of
        Inl e \<Rightarrow> Inl e
      | Inr (tx, x) \<Rightarrow> Inr (w\<lparr>rw_tx := tx, rw_x := x\<rparr>))"

definition nfb_xctrl_napi_poll_pp :: "u32 \<Rightarrow> bool \<Rightarrow> bool \<Rightarrow> u16 \<Rightarrow> xctrl \<Rightarrow> rworld \<Rightarrow> xstop + u16 \<times> xctrl \<times> rworld" where
  "nfb_xctrl_napi_poll_pp mx sg got_lock budget ctrl w =
     (case tx_housekeeping True got_lock w of
        Inl e \<Rightarrow> Inl e
      | Inr w1 \<Rightarrow>
        (case nfb_xctrl_rx_pp mx sg budget ctrl w1 of
           Inl e \<Rightarrow> Inl e
         | Inr (received, ctrl1, w2) \<Rightarrow> Inr (received, ctrl1\<lparr>x_c := nc_ndp_ctrl_sp_flush (x_c ctrl1)\<rparr>, w2)))"

definition nfb_xctrl_napi_poll_rx_xsk ::
  "bool \<Rightarrow> u32 \<Rightarrow> bool \<Rightarrow> bool \<Rightarrow> bool \<Rightarrow> u16 \<Rightarrow> xctrl \<Rightarrow> rworld \<Rightarrow> xstop + u16 \<times> xctrl \<times> rworld" where
  "nfb_xctrl_napi_poll_rx_xsk native frame_size sg_enabled sg got_lock budget ctrl w =
     (case tx_housekeeping False got_lock w of
        Inl e \<Rightarrow> Inl e
      | Inr w1 \<Rightarrow>
        let w2 = (if got_lock then w1\<lparr>rw_x := (rw_x w1)\<lparr>xw_xsk_completed := x_completed_xsk_tx (rw_tx w1) # xw_xsk_completed (rw_x w1)\<rparr>,
                                      rw_tx := (rw_tx w1)\<lparr>x_completed_xsk_tx := 0\<rparr>\<rparr> else w1)
        in case nfb_xctrl_rx_xsk native frame_size sg_enabled sg budget ctrl w2 of
             Inl e \<Rightarrow> Inl e
           | Inr (received, ctrl1, w3) \<Rightarrow> Inr (received, ctrl1\<lparr>x_c := nc_ndp_ctrl_sp_flush (x_c ctrl1)\<rparr>, w3))"

section \<open>The rings of a receive queue\<close>

definition rx_ok :: "nat \<Rightarrow> xctrl \<Rightarrow> bool" where
  "rx_ok k ctrl \<longleftrightarrow> k \<le> 31 \<and> nc_mdp (x_c ctrl) = mask k \<and> x_mbp ctrl = mask k \<and> length (x_xdp_ring ctrl) = 2 ^ k \<and>
     length (x_descs ctrl) = 2 ^ k \<and> nc_sdp (x_c ctrl) AND mask k = nc_sdp (x_c ctrl) \<and>
     nc_hdp (x_c ctrl) AND mask k = nc_hdp (x_c ctrl) \<and> x_fbp ctrl AND mask k = x_fbp ctrl \<and> x_pbp ctrl AND mask k = x_pbp ctrl"

text \<open>The buffers that wait for packets, and the descriptors the hardware has not taken yet.\<close>

definition rx_queue :: "nat \<Rightarrow> xctrl \<Rightarrow> xdp_buff option list" where
  "rx_queue k ctrl = ring_view k (x_pbp ctrl) (x_fbp ctrl) (x_xdp_ring ctrl)"

definition rx_descs :: "nat \<Rightarrow> xctrl \<Rightarrow> nc_ndp_desc list" where
  "rx_descs k ctrl = ring_view k (nc_hdp (x_c ctrl)) (nc_sdp (x_c ctrl)) (x_descs ctrl)"

text \<open>The consumer pointers that the hardware reports move forward and stay behind the software pointer \<open>s\<close>.\<close>

fun hw_reads :: "nat \<Rightarrow> u32 \<Rightarrow> u32 \<Rightarrow> (u32 \<times> u32) list \<Rightarrow> bool" where
  "hw_reads k s h [] \<longleftrightarrow> True"
| "hw_reads k s h (u # us) \<longleftrightarrow> fst u AND mask k = fst u \<and> ring_dist k h (fst u) \<le> ring_dist k h s \<and> hw_reads k s (fst u) us"

definition hw_behind :: "nat \<Rightarrow> u32 \<Rightarrow> nc_ndp_ctrl \<Rightarrow> bool" where
  "hw_behind k s c \<longleftrightarrow> hw_reads k s (nc_hdp c) (nc_upd c # nc_updates c)"

lemma ring_free_count:
  fixes a b :: u32
  assumes "k \<le> 32"
  shows "unat ((a - b - 1) AND mask k) + ring_dist k a b = 2 ^ k - 1"
proof -
  let ?x = "b - a"
  have "NOT ?x = a - b - 1" by (simp add: not_eq_complement)
  then have free: "(a - b - 1) AND mask k = NOT ?x AND mask k" by simp
  have "(NOT ?x AND mask k) AND (?x AND mask k) = 0" by (rule bit_word_eqI) (simp add: bit_simps)
  then have "(NOT ?x AND mask k) + (?x AND mask k) = (NOT ?x AND mask k) OR (?x AND mask k)" by (rule disjunctive_add_eq_or)
  also have "\<dots> = mask k" by (rule bit_word_eqI) (auto simp: bit_simps)
  finally have sum: "(NOT ?x AND mask k) = mask k - (?x AND mask k)" by (simp add: eq_diff_eq)
  have "?x AND mask k \<le> mask k" by (simp add: word_and_le1)
  then show ?thesis
    unfolding free sum using assms by (simp add: unat_sub ring_dist_def unat_mask word_le_nat_alt)
qed

lemma hdp_update_subset:
  "set (nc_upd (nc_ndp_ctrl_hdp_update c) # nc_updates (nc_ndp_ctrl_hdp_update c)) \<subseteq> set (nc_upd c # nc_updates c)"
  by (cases "nc_updates c") (auto simp: nc_ndp_ctrl_hdp_update_def nc_upd_read_def Let_def)

lemma hdp_update_behind:
  assumes "hw_behind k s c" and "k \<le> 32"
  defines "c' \<equiv> nc_ndp_ctrl_hdp_update c"
  shows "hw_behind k s c'" "nc_hdp c' AND mask k = nc_hdp c'" "ring_dist k (nc_hdp c) (nc_hdp c') \<le> ring_dist k (nc_hdp c) s"
proof -
  have u: "fst (nc_upd c) AND mask k = fst (nc_upd c)" "ring_dist k (nc_hdp c) (fst (nc_upd c)) \<le> ring_dist k (nc_hdp c) s"
    "hw_reads k s (fst (nc_upd c)) (nc_updates c)" using assms(1) by (simp_all add: hw_behind_def)
  have "hw_behind k s c' \<and> nc_hdp c' AND mask k = nc_hdp c' \<and> ring_dist k (nc_hdp c) (nc_hdp c') \<le> ring_dist k (nc_hdp c) s"
  proof (cases "nc_updates c")
    case Nil
    then show ?thesis using u by (simp add: c'_def nc_ndp_ctrl_hdp_update_def nc_upd_read_def Let_def hw_behind_def)
  next
    case (Cons v vs)
    then have v: "ring_dist k (fst (nc_upd c)) (fst v) \<le> ring_dist k (fst (nc_upd c)) s" using u(3) by simp
    have "ring_dist k (nc_hdp c) (fst v) \<le> ring_dist k (nc_hdp c) s" by (rule ring_dist_trans(2) [OF u(2) v assms(2)])
    then show ?thesis
      using u(3) Cons by (simp add: c'_def nc_ndp_ctrl_hdp_update_def nc_upd_read_def Let_def hw_behind_def)
  qed
  then show "hw_behind k s c'" "nc_hdp c' AND mask k = nc_hdp c'" "ring_dist k (nc_hdp c) (nc_hdp c') \<le> ring_dist k (nc_hdp c) s" by auto
qed

section \<open>What filling does\<close>

text \<open>
  The state of a fill: \<open>ds\<close> are the descriptors from the consumer pointer to the local software pointer, \<open>bs\<close> the buffers
  from the processed pointer to the local filled pointer; everything else of the controller is as in \<open>ctrl0\<close>.
\<close>

definition fill_at :: "nat \<Rightarrow> xctrl \<Rightarrow> nc_ndp_desc list \<Rightarrow> xdp_buff option list \<Rightarrow> fill_st \<times> xctrl \<Rightarrow> bool" where
  "fill_at k ctrl0 ds bs = (\<lambda>(s, ctrl). rx_ok k ctrl \<and>
     ctrl = ctrl0\<lparr>x_c := (x_c ctrl0)\<lparr>nc_last_upper_addr := fs_last s\<rparr>, x_xdp_ring := x_xdp_ring ctrl, x_descs := x_descs ctrl\<rparr> \<and>
     fs_sdp s AND mask k = fs_sdp s \<and> fs_fbp s AND mask k = fs_fbp s \<and>
     ring_view k (nc_hdp (x_c ctrl0)) (fs_sdp s) (x_descs ctrl) = ds \<and>
     ring_view k (x_pbp ctrl0) (fs_fbp s) (x_xdp_ring ctrl) = bs \<and>
     unat (fs_free s) + length ds = 2 ^ k - 1)"

lemma fill_at_sel:
  assumes "fill_at k ctrl0 ds bs (s, ctrl)"
  shows "x_c ctrl = (x_c ctrl0)\<lparr>nc_last_upper_addr := fs_last s\<rparr>" "x_pbp ctrl = x_pbp ctrl0" "x_fbp ctrl = x_fbp ctrl0"
    "x_mbp ctrl = x_mbp ctrl0" "x_hdrs ctrl = x_hdrs ctrl0"
proof -
  have e: "ctrl = ctrl0\<lparr>x_c := (x_c ctrl0)\<lparr>nc_last_upper_addr := fs_last s\<rparr>, x_xdp_ring := x_xdp_ring ctrl, x_descs := x_descs ctrl\<rparr>"
    using assms by (simp add: fill_at_def)
  show "x_c ctrl = (x_c ctrl0)\<lparr>nc_last_upper_addr := fs_last s\<rparr>" "x_pbp ctrl = x_pbp ctrl0" "x_fbp ctrl = x_fbp ctrl0"
    "x_mbp ctrl = x_mbp ctrl0" "x_hdrs ctrl = x_hdrs ctrl0"
    by (subst e, simp)+
qed

lemma unat_dec: "0 < unat x \<Longrightarrow> unat (x - 1) = unat x - 1" for x :: u32
  by (simp add: unat_sub word_le_nat_alt)

lemma fill_upper_at:
  assumes at: "fill_at k ctrl0 ds bs (s, ctrl)" and free: "NDP_CTRL_DESC_UPPER_ADDR dma \<noteq> fs_last s \<longrightarrow> fs_free s \<noteq> 0"
  defines "pre \<equiv> if NDP_CTRL_DESC_UPPER_ADDR dma \<noteq> fs_last s then [nc_ndp_rx_desc0 dma] else []"
  shows "fill_at k ctrl0 (ds @ pre) bs (fill_upper dma (s, ctrl))"
    "fs_last (fst (fill_upper dma (s, ctrl))) = NDP_CTRL_DESC_UPPER_ADDR dma"
    "fs_filled (fst (fill_upper dma (s, ctrl))) = fs_filled s"
    "unat (fs_free (fst (fill_upper dma (s, ctrl)))) + length pre = unat (fs_free s)"
proof -
  note sel = fill_at_sel [OF at]
  have k: "k \<le> 32" "nc_mdp (x_c ctrl) = mask k" "length (x_descs ctrl) = 2 ^ k" "fs_sdp s AND mask k = fs_sdp s"
    using at by (simp_all add: fill_at_def rx_ok_def)
  have ok0: "nc_mdp (x_c ctrl0) = mask k" "x_mbp ctrl0 = mask k" "nc_sdp (x_c ctrl0) AND mask k = nc_sdp (x_c ctrl0)"
    "nc_hdp (x_c ctrl0) AND mask k = nc_hdp (x_c ctrl0)" "x_fbp ctrl0 AND mask k = x_fbp ctrl0" "x_pbp ctrl0 AND mask k = x_pbp ctrl0"
    using at sel by (simp_all add: fill_at_def rx_ok_def)
  have "fill_at k ctrl0 (ds @ pre) bs (fill_upper dma (s, ctrl)) \<and>
    fs_last (fst (fill_upper dma (s, ctrl))) = NDP_CTRL_DESC_UPPER_ADDR dma \<and>
    fs_filled (fst (fill_upper dma (s, ctrl))) = fs_filled s \<and>
    unat (fs_free (fst (fill_upper dma (s, ctrl)))) + length pre = unat (fs_free s)"
  proof (cases "NDP_CTRL_DESC_UPPER_ADDR dma = fs_last s")
    case True
    then show ?thesis using at by (simp add: fill_upper_def pre_def)
  next
    case False
    then have pos: "0 < unat (fs_free s)" using free by (simp add: unat_gt_0)
    have ds: "ring_view k (nc_hdp (x_c ctrl0)) (fs_sdp s) (x_descs ctrl) = ds" "unat (fs_free s) + length ds = 2 ^ k - 1"
      using at by (simp_all add: fill_at_def)
    have "ring_dist k (nc_hdp (x_c ctrl0)) (fs_sdp s) = length ds" using ds(1) by auto
    then have "ring_dist k (nc_hdp (x_c ctrl0)) (fs_sdp s) + 1 < 2 ^ k" using ds(2) pos by linarith
    note push = ring_view_push [OF this k(1,3,4), of "nc_ndp_rx_desc0 dma"]
    have free': "unat (fs_free s - 1) + Suc (length ds) = 2 ^ k - 1" using ds(2) pos by (simp add: unat_dec)
    have eq: "ctrl = ctrl0\<lparr>x_c := (x_c ctrl0)\<lparr>nc_last_upper_addr := fs_last s\<rparr>, x_xdp_ring := x_xdp_ring ctrl, x_descs := x_descs ctrl\<rparr>"
      using at by (simp add: fill_at_def)
    have "ctrl\<lparr>x_c := (x_c ctrl)\<lparr>nc_last_upper_addr := v\<rparr>, x_descs := d\<rparr> =
        ctrl0\<lparr>x_c := (x_c ctrl0)\<lparr>nc_last_upper_addr := v\<rparr>, x_xdp_ring := x_xdp_ring ctrl, x_descs := d\<rparr>" for v d
      by (subst eq, subst eq, simp)
    then show ?thesis
      using at False pos push free' k ok0 by (simp add: fill_at_def fill_upper_def pre_def ds(1) unat_dec rx_ok_def)
  qed
  then show "fill_at k ctrl0 (ds @ pre) bs (fill_upper dma (s, ctrl))"
    "fs_last (fst (fill_upper dma (s, ctrl))) = NDP_CTRL_DESC_UPPER_ADDR dma"
    "fs_filled (fst (fill_upper dma (s, ctrl))) = fs_filled s"
    "unat (fs_free (fst (fill_upper dma (s, ctrl)))) + length pre = unat (fs_free s)" by auto
qed

lemma fill_buff_at:
  assumes at: "fill_at k ctrl0 ds bs (s, ctrl)" and free: "fs_free s \<noteq> 0" and room: "length bs + 1 < 2 ^ k"
  shows "fill_at k ctrl0 (ds @ [nc_ndp_rx_desc2 (xb_dma b) len nxt]) (bs @ [Some b]) (fill_buff b len nxt (s, ctrl))"
proof -
  have k: "k \<le> 32" "nc_mdp (x_c ctrl) = mask k" "x_mbp ctrl = mask k" "length (x_descs ctrl) = 2 ^ k" "length (x_xdp_ring ctrl) = 2 ^ k"
    "fs_sdp s AND mask k = fs_sdp s" "fs_fbp s AND mask k = fs_fbp s"
    using at by (simp_all add: fill_at_def rx_ok_def)
  have pos: "0 < unat (fs_free s)" using free by (simp add: unat_gt_0)
  have ds: "ring_view k (nc_hdp (x_c ctrl0)) (fs_sdp s) (x_descs ctrl) = ds" "unat (fs_free s) + length ds = 2 ^ k - 1"
    "ring_view k (x_pbp ctrl0) (fs_fbp s) (x_xdp_ring ctrl) = bs"
    using at by (simp_all add: fill_at_def)
  have "ring_dist k (nc_hdp (x_c ctrl0)) (fs_sdp s) = length ds" using ds(1) by auto
  then have "ring_dist k (nc_hdp (x_c ctrl0)) (fs_sdp s) + 1 < 2 ^ k" using ds(2) pos by linarith
  note push = ring_view_push [OF this k(1,4,6), of "nc_ndp_rx_desc2 (xb_dma b) len nxt"]
  have "ring_dist k (x_pbp ctrl0) (fs_fbp s) + 1 < 2 ^ k" using ds(3) room by auto
  note push2 = ring_view_push [OF this k(1,5,7), of "Some b"]
  have free': "unat (fs_free s - 1) + Suc (length ds) = 2 ^ k - 1" using ds(2) pos by (simp add: unat_dec)
  have eq: "ctrl = ctrl0\<lparr>x_c := (x_c ctrl0)\<lparr>nc_last_upper_addr := fs_last s\<rparr>, x_xdp_ring := x_xdp_ring ctrl, x_descs := x_descs ctrl\<rparr>"
    using at by (simp add: fill_at_def)
  have "ctrl\<lparr>x_xdp_ring := r, x_descs := d\<rparr> =
      ctrl0\<lparr>x_c := (x_c ctrl0)\<lparr>nc_last_upper_addr := fs_last s\<rparr>, x_xdp_ring := r, x_descs := d\<rparr>" for r d
    by (subst eq, simp)
  then show ?thesis
    using at push push2 free' k fill_at_sel [OF at] by (simp add: fill_at_def fill_buff_def ds(1,3) rx_ok_def)
qed

text \<open>The buffers the pool has handed out so far.\<close>

definition allocated :: "rworld \<Rightarrow> nat list" where
  "allocated w = concat (map (\<lambda>n. case rw_alloc w n of None \<Rightarrow> [] | Some (b, _) \<Rightarrow> [b]) [0..<rw_allocs w])"

lemma rw_take_cases:
  "rw_take w = (None, w') \<Longrightarrow> w' = w\<lparr>rw_allocs := Suc (rw_allocs w)\<rparr> \<and> allocated w' = allocated w"
  "rw_take w = (Some (b, d), w') \<Longrightarrow> w' = w\<lparr>rw_allocs := Suc (rw_allocs w)\<rparr> \<and> allocated w' = allocated w @ [b]"
  by (auto simp: rw_take_def allocated_def)

text \<open>Between two states of a fill: \<open>new\<close> buffers were added, the other allocated ones given back.\<close>

definition filled :: "xdp_buff list \<Rightarrow> rworld \<Rightarrow> rworld \<Rightarrow> bool" where
  "filled new w w' \<longleftrightarrow> w'\<lparr>rw_allocs := 0, rw_returned := []\<rparr> = w\<lparr>rw_allocs := 0, rw_returned := []\<rparr> \<and>
     mset (allocated w') + mset (rw_returned w) = mset (allocated w) + mset (map xb_id new) + mset (rw_returned w')"

lemma filled_simps:
  "filled [] w w" "w' = w\<lparr>rw_allocs := Suc (rw_allocs w)\<rparr> \<and> allocated w' = allocated w \<Longrightarrow> filled [] w w'"
  "w' = w\<lparr>rw_allocs := Suc (rw_allocs w)\<rparr> \<and> allocated w' = allocated w @ [b] \<Longrightarrow> filled [] w (rw_give_back [b] w')"
  "w' = w\<lparr>rw_allocs := Suc (rw_allocs w)\<rparr> \<and> allocated w' = allocated w @ [xb_id x] \<Longrightarrow> filled [x] w w'"
  by (auto simp: filled_def rw_give_back_def allocated_def)

lemma filled_trans:
  assumes "filled xs w w1" and "filled ys w1 w2"
  shows "filled (xs @ ys) w w2"
proof -
  have "mset (allocated w2) + mset (rw_returned w) + mset (rw_returned w1) =
      (mset (allocated w1) + mset (rw_returned w)) + mset (map xb_id ys) + mset (rw_returned w2)"
    using assms(2) by (simp add: filled_def ac_simps)
  also have "\<dots> = mset (allocated w) + mset (map xb_id xs) + mset (map xb_id ys) + mset (rw_returned w2) + mset (rw_returned w1)"
    using assms(1) by (simp add: filled_def ac_simps)
  finally show ?thesis using assms by (simp add: filled_def ac_simps)
qed

lemma hw_walk_rx_buff:
  assumes "pre = (if NDP_CTRL_DESC_UPPER_ADDR dma \<noteq> u then [nc_ndp_rx_desc0 dma] else [])"
  shows "hw_walk u (pre @ [nc_ndp_rx_desc2 dma len nxt]) = (NDP_CTRL_DESC_UPPER_ADDR dma, [(dma, ucast len)])"
    "hw_walk u pre = (NDP_CTRL_DESC_UPPER_ADDR dma, [])"
  using assms tx_desc2_fields [of dma len 0 nxt] upper_or_lower [of dma]
  by (auto simp: desc0_type desc0_upper rx_desc2_is_tx)

text \<open>One buffer put into the ring, with all that goes with it.\<close>

lemma fill_one_at:
  assumes at: "fill_at k ctrl0 ds bs st" and free: "\<not> (NDP_CTRL_DESC_UPPER_ADDR (xb_dma b) \<noteq> fs_last (fst st) \<and> fs_free (fst st) = 0)"
    and room: "length bs + 1 < 2 ^ k"
  defines "st1 \<equiv> fill_upper (xb_dma b) st"
  shows "\<exists>pre. fill_at k ctrl0 (ds @ pre) bs st1 \<and> hw_walk (fs_last (fst st)) pre = (fs_last (fst st1), []) \<and>
      fs_filled (fst st1) = fs_filled (fst st)"
    "fs_free (fst st1) \<noteq> 0 \<Longrightarrow> \<exists>pre. fill_at k ctrl0 (ds @ pre) (bs @ [Some b]) (fill_buff b len nxt st1) \<and>
      hw_walk (fs_last (fst st)) pre = (fs_last (fst (fill_buff b len nxt st1)), [(xb_dma b, ucast len)]) \<and>
      fs_filled (fst (fill_buff b len nxt st1)) = Suc (fs_filled (fst st))"
    "2 \<le> unat (fs_free (fst st)) \<Longrightarrow> fs_free (fst st1) \<noteq> 0"
proof -
  obtain s ctrl where st: "st = (s, ctrl)" by fastforce
  let ?pre = "if NDP_CTRL_DESC_UPPER_ADDR (xb_dma b) \<noteq> fs_last s then [nc_ndp_rx_desc0 (xb_dma b)] else []"
  have f: "NDP_CTRL_DESC_UPPER_ADDR (xb_dma b) \<noteq> fs_last s \<longrightarrow> fs_free s \<noteq> 0" using free by (auto simp: st)
  note up = fill_upper_at [OF at [unfolded st] f]
  have u1: "fs_last (fst st1) = NDP_CTRL_DESC_UPPER_ADDR (xb_dma b)" using up(2) by (simp add: st1_def st)
  have at1: "fill_at k ctrl0 (ds @ ?pre) bs st1" using up(1) by (simp add: st1_def st)
  show "\<exists>pre. fill_at k ctrl0 (ds @ pre) bs st1 \<and> hw_walk (fs_last (fst st)) pre = (fs_last (fst st1), []) \<and>
      fs_filled (fst st1) = fs_filled (fst st)"
    using at1 hw_walk_rx_buff(2) [of ?pre "xb_dma b" "fs_last s"] u1 up(3) by (intro exI [of _ ?pre]) (simp add: st1_def st)
  show "fs_free (fst st1) \<noteq> 0" if "2 \<le> unat (fs_free (fst st))"
    using that up(4) by (auto simp: st1_def st split: if_splits)
  assume nz: "fs_free (fst st1) \<noteq> 0"
  obtain s1 ctrl1 where s1: "st1 = (s1, ctrl1)" by fastforce
  from fill_buff_at [OF at1 [unfolded s1] _ room, of b len nxt] nz
  have "fill_at k ctrl0 (ds @ ?pre @ [nc_ndp_rx_desc2 (xb_dma b) len nxt]) (bs @ [Some b]) (fill_buff b len nxt st1)"
    by (simp add: s1)
  moreover have "fs_last (fst (fill_buff b len nxt st1)) = fs_last (fst st1)"
    "fs_filled (fst (fill_buff b len nxt st1)) = Suc (fs_filled (fst st1))" by (simp_all add: s1 fill_buff_def)
  ultimately show "\<exists>pre. fill_at k ctrl0 (ds @ pre) (bs @ [Some b]) (fill_buff b len nxt st1) \<and>
      hw_walk (fs_last (fst st)) pre = (fs_last (fst (fill_buff b len nxt st1)), [(xb_dma b, ucast len)]) \<and>
      fs_filled (fst (fill_buff b len nxt st1)) = Suc (fs_filled (fst st))"
    using hw_walk_rx_buff(1) [of ?pre "xb_dma b" "fs_last s" len nxt] u1 up(3)
    by (intro exI [of _ "?pre @ [nc_ndp_rx_desc2 (xb_dma b) len nxt]"]) (simp add: st1_def st)
qed

lemma fill_pp_loop_at:
  assumes "fill_pp_loop len sg n st w = (st', w')" and "fill_at k ctrl0 ds bs st" and "length bs + n < 2 ^ k"
  shows "\<exists>new nds. fill_at k ctrl0 (ds @ nds) (bs @ map Some new) st' \<and>
    hw_walk (fs_last (fst st)) nds = (fs_last (fst st'), map (\<lambda>b. (xb_dma b, ucast len)) new) \<and>
    fs_filled (fst st') = fs_filled (fst st) + length new \<and> filled new w w' \<and> (\<forall>b \<in> set new. xb_frags b = [])"
  using assms
proof (induction n arbitrary: st w ds bs)
  case 0
  then show ?case by (intro exI [of _ "[]"]) (simp add: filled_simps)
next
  case (Suc n)
  obtain a w1 where a: "rw_take w = (a, w1)" by fastforce
  show ?case
  proof (cases a)
    case None
    with Suc.prems a rw_take_cases(1) [of w w1] show ?thesis
      by (intro exI [of _ "[]"]) (auto intro: filled_simps(2))
  next
    case (Some pd)
    then obtain page pdma where pd: "a = Some (page, pdma)" by (cases pd) auto
    define b where "b = empty_buff page (pdma + XDP_PACKET_HEADROOM)"
    have b: "xb_dma b = pdma + XDP_PACKET_HEADROOM" "xb_id b = page" "xb_frags b = []" by (simp_all add: b_def empty_buff_def)
    have be: "empty_buff page (xb_dma b) = b" by (simp add: b_def empty_buff_def)
    note w1 = rw_take_cases(2) [OF a [unfolded pd]]
    have room: "length bs + 1 < 2 ^ k" using Suc.prems(3) by simp
    show ?thesis
    proof (cases "NDP_CTRL_DESC_UPPER_ADDR (xb_dma b) \<noteq> fs_last (fst st) \<and> fs_free (fst st) = 0")
      case True
      then have "st' = st" "w' = rw_give_back [page] w1" using Suc.prems(1) a pd by (simp_all add: b(1))
      with Suc.prems(2) filled_simps(3) [OF w1] show ?thesis by (intro exI [of _ "[]"]) simp
    next
      case False
      note one = fill_one_at [OF Suc.prems(2) False room]
      show ?thesis
      proof (cases "fs_free (fst (fill_upper (xb_dma b) st)) = 0")
        case True
        then have "st' = fill_upper (xb_dma b) st" "w' = rw_give_back [page] w1"
          using False Suc.prems(1) a pd by (auto simp: b(1) Let_def)
        moreover from one(1) obtain pre where "fill_at k ctrl0 (ds @ pre) bs (fill_upper (xb_dma b) st)"
          "hw_walk (fs_last (fst st)) pre = (fs_last (fst (fill_upper (xb_dma b) st)), [])"
          "fs_filled (fst (fill_upper (xb_dma b) st)) = fs_filled (fst st)" by blast
        ultimately show ?thesis using filled_simps(3) [OF w1] by (intro exI [of _ "[]"] exI [of _ pre]) simp
      next
        case nz: False
        let ?st = "fill_buff b len sg (fill_upper (xb_dma b) st)"
        from one(2) [OF nz, of len sg] obtain pre where
          pre: "fill_at k ctrl0 (ds @ pre) (bs @ [Some b]) ?st"
            "hw_walk (fs_last (fst st)) pre = (fs_last (fst ?st), [(xb_dma b, ucast len)])"
            "fs_filled (fst ?st) = Suc (fs_filled (fst st))" by blast
        have "fill_pp_loop len sg n ?st w1 = (st', w')"
          using False nz Suc.prems(1) a pd by (auto simp: be b(1) [symmetric] Let_def)
        from Suc.IH [OF this pre(1)] Suc.prems(3) obtain new nds where
          new: "fill_at k ctrl0 ((ds @ pre) @ nds) ((bs @ [Some b]) @ map Some new) st'"
            "hw_walk (fs_last (fst ?st)) nds = (fs_last (fst st'), map (\<lambda>b. (xb_dma b, ucast len)) new)"
            "fs_filled (fst st') = fs_filled (fst ?st) + length new" "filled new w1 w'" "\<forall>b \<in> set new. xb_frags b = []" by auto
        have "filled [b] w w1" using w1 unfolding b(2) [symmetric] by (rule filled_simps(4))
        then have "filled (b # new) w w'" using filled_trans [OF _ new(4)] by fastforce
        with new pre b(3) show ?thesis
          by (intro exI [of _ "b # new"] exI [of _ "pre @ nds"]) (simp add: hw_walk_append)
      qed
    qed
  qed
qed

lemma alloc_batch_native:
  assumes "xsk_buff_alloc_batch True n w = (bs, w')"
  shows "\<exists>xs. bs = map Some xs \<and> length xs \<le> n \<and> allocated w' = allocated w @ map xb_id xs \<and>
    w'\<lparr>rw_allocs := 0\<rparr> = w\<lparr>rw_allocs := 0\<rparr> \<and> (\<forall>b \<in> set xs. xb_frags b = [])"
  using assms
proof (induction n arbitrary: w bs)
  case (Suc n)
  obtain a w1 where a: "rw_take w = (a, w1)" by fastforce
  show ?case
  proof (cases a)
    case None
    then show ?thesis using Suc.prems a rw_take_cases(1) [of w w1] by auto
  next
    case (Some bd)
    then obtain b d where bd: "a = Some (b, d)" by (cases bd) auto
    obtain bs1 where r: "xsk_buff_alloc_batch True n w1 = (bs1, w')" "bs = Some (empty_buff b d) # bs1"
      using Suc.prems a bd by (auto split: prod.splits)
    note w1 = rw_take_cases(2) [OF a [unfolded bd]]
    from Suc.IH [OF r(1)] obtain xs where xs: "bs1 = map Some xs" "length xs \<le> n" "allocated w' = allocated w1 @ map xb_id xs"
      "w'\<lparr>rw_allocs := 0\<rparr> = w1\<lparr>rw_allocs := 0\<rparr>" "\<forall>b \<in> set xs. xb_frags b = []" by blast
    moreover have "w1\<lparr>rw_allocs := 0\<rparr> = w\<lparr>rw_allocs := 0\<rparr>" using w1 by simp
    moreover have "allocated w1 = allocated w @ [b]" using w1 by blast
    ultimately show ?thesis using r(2) by (intro exI [of _ "empty_buff b d # xs"]) (simp add: empty_buff_def)
  qed
qed simp

lemma fill_xsk_loop_at:
  assumes "fill_at k ctrl0 ds bs st" and "length bs + length xs < 2 ^ k"
  shows "\<exists>new rest nds st'. fill_xsk_loop len sg (map Some xs) st w = Inr (st', if rest = [] then w else rw_give_back (map xb_id rest) w) \<and>
    xs = new @ rest \<and> fill_at k ctrl0 (ds @ nds) (bs @ map Some new) st' \<and>
    hw_walk (fs_last (fst st)) nds = (fs_last (fst st'), map (\<lambda>b. (xb_dma b, ucast len)) new) \<and>
    (xs \<noteq> [] \<longrightarrow> 2 \<le> unat (fs_free (fst st)) \<longrightarrow> new \<noteq> [])"
  using assms
proof (induction xs arbitrary: st ds bs)
  case Nil
  then show ?case by (intro exI [of _ "[]"] exI [of _ st]) simp
next
  case (Cons b xs)
  have room: "length bs + 1 < 2 ^ k" using Cons.prems(2) by simp
  have none: "None \<notin> set (map Some xs)" by auto
  have the: "map the (map Some xs) = xs" by (simp add: comp_def)
  show ?case
  proof (cases "NDP_CTRL_DESC_UPPER_ADDR (xb_dma b) \<noteq> fs_last (fst st) \<and> fs_free (fst st) = 0")
    case True
    then have "fill_xsk_loop len sg (map Some (b # xs)) st w = Inr (st, rw_give_back (map xb_id (b # xs)) w)"
      using none the by (simp add: image_iff)
    then show ?thesis using Cons.prems(1) True
      by (intro exI [of _ "[]"] exI [of _ "b # xs"] exI [of _ "[]"] exI [of _ st]) simp
  next
    case False
    note one = fill_one_at [OF Cons.prems(1) False room]
    show ?thesis
    proof (cases "fs_free (fst (fill_upper (xb_dma b) st)) = 0")
      case True
      then have "fill_xsk_loop len sg (map Some (b # xs)) st w =
          Inr (fill_upper (xb_dma b) st, rw_give_back (map xb_id (b # xs)) w)"
        using False none the by (auto simp: image_iff Let_def)
      moreover from one(1) obtain pre where "fill_at k ctrl0 (ds @ pre) bs (fill_upper (xb_dma b) st)"
        "hw_walk (fs_last (fst st)) pre = (fs_last (fst (fill_upper (xb_dma b) st)), [])" by blast
      ultimately show ?thesis using one(3) True
        by (intro exI [of _ "[]"] exI [of _ "b # xs"] exI [of _ pre] exI [of _ "fill_upper (xb_dma b) st"]) auto
    next
      case nz: False
      let ?st = "fill_buff b len sg (fill_upper (xb_dma b) st)"
      from one(2) [OF nz, of len sg] obtain pre where
        pre: "fill_at k ctrl0 (ds @ pre) (bs @ [Some b]) ?st"
          "hw_walk (fs_last (fst st)) pre = (fs_last (fst ?st), [(xb_dma b, ucast len)])" by blast
      have step: "fill_xsk_loop len sg (map Some (b # xs)) st w = fill_xsk_loop len sg (map Some xs) ?st w"
        using False nz by (auto simp: Let_def)
      have "length (bs @ [Some b]) + length xs < 2 ^ k" using Cons.prems(2) by simp
      from Cons.IH [OF pre(1) this] obtain new rest nds st' where
        new: "fill_xsk_loop len sg (map Some xs) ?st w = Inr (st', if rest = [] then w else rw_give_back (map xb_id rest) w)"
          "xs = new @ rest" "fill_at k ctrl0 ((ds @ pre) @ nds) ((bs @ [Some b]) @ map Some new) st'"
          "hw_walk (fs_last (fst ?st)) nds = (fs_last (fst st'), map (\<lambda>b. (xb_dma b, ucast len)) new)" by blast
      then show ?thesis using step pre(2)
        by (intro exI [of _ "b # new"] exI [of _ rest] exI [of _ "pre @ nds"] exI [of _ st']) (simp add: hw_walk_append)
    qed
  qed
qed

text \<open>What a fill does to the queue: buffers are appended, no packet is taken, nothing else changes.\<close>

definition fill_rel :: "nat \<Rightarrow> u32 \<Rightarrow> xdp_buff list \<Rightarrow> xctrl \<times> rworld \<Rightarrow> xctrl \<times> rworld \<Rightarrow> bool" where
  "fill_rel k s new = (\<lambda>(ctrl, w) (ctrl', w').
     rx_ok k ctrl' \<and> rx_queue k ctrl' = rx_queue k ctrl @ map Some new \<and> filled new w w' \<and> hw_behind k s (x_c ctrl') \<and>
     ring_dist k (nc_hdp (x_c ctrl')) s \<le> ring_dist k (nc_hdp (x_c ctrl')) (nc_sdp (x_c ctrl')) \<and>
     x_pbp ctrl' = x_pbp ctrl \<and> x_hdrs ctrl' = x_hdrs ctrl \<and> nc_shp (x_c ctrl') = nc_shp (x_c ctrl) \<and>
     nc_mhp (x_c ctrl') = nc_mhp (x_c ctrl) \<and> x_mbp ctrl' = x_mbp ctrl \<and>
     set (nc_upd (x_c ctrl') # nc_updates (x_c ctrl')) \<subseteq> set (nc_upd (x_c ctrl) # nc_updates (x_c ctrl)) \<and> (\<forall>b \<in> set new. xb_frags b = []))"

lemma fill_rel_trans: "fill_rel k s xs st st1 \<Longrightarrow> fill_rel k s ys st1 st2 \<Longrightarrow> fill_rel k s (xs @ ys) st st2"
  by (auto simp: fill_rel_def intro: filled_trans)

lemma fill_start_at:
  assumes ok: "rx_ok k ctrl" and hw: "hw_behind k s (x_c ctrl)"
    and s: "ring_dist k (nc_hdp (x_c ctrl)) s \<le> ring_dist k (nc_hdp (x_c ctrl)) (nc_sdp (x_c ctrl))"
    and st: "fill_start ctrl = (ctrl1, st, enough)"
  shows "fill_at k ctrl1 (rx_descs k ctrl1) (rx_queue k ctrl) (st, ctrl1)" "rx_ok k ctrl1"
    "fill_rel k s [] (ctrl, w) (ctrl1, w)" "\<not> enough \<longrightarrow> length (rx_queue k ctrl) + 64 < 2 ^ k \<and> 64 \<le> unat (fs_free st)"
    "fs_filled st = 0" "fs_last st = nc_last_upper_addr (x_c ctrl)"
    "x_c ctrl1 = nc_ndp_ctrl_hdp_update (x_c ctrl)"
    "rx_descs k ctrl1 = drop (ring_dist k (nc_hdp (x_c ctrl)) (nc_hdp (x_c ctrl1))) (rx_descs k ctrl)"
proof -
  let ?c = "nc_ndp_ctrl_hdp_update (x_c ctrl)"
  have k: "k \<le> 32" "nc_mdp (x_c ctrl) = mask k" "x_mbp ctrl = mask k" using ok by (simp_all add: rx_ok_def)
  note up = hdp_update_behind [OF hw k(1)]
  have c: "nc_mdp ?c = mask k" "nc_sdp ?c = nc_sdp (x_c ctrl)" "nc_last_upper_addr ?c = nc_last_upper_addr (x_c ctrl)"
    "nc_shp ?c = nc_shp (x_c ctrl)" "nc_mhp ?c = nc_mhp (x_c ctrl)"
    using k(2) by (simp_all add: nc_ndp_ctrl_hdp_update_def nc_upd_read_def Let_def split: list.splits)
  have d: "ctrl1 = ctrl\<lparr>x_c := ?c\<rparr>" "fs_filled st = 0" "fs_free st = (nc_hdp ?c - nc_sdp ?c - 1) AND mask k"
    "fs_last st = nc_last_upper_addr (x_c ctrl)" "fs_sdp st = nc_sdp ?c" "fs_fbp st = x_fbp ctrl"
    "enough \<longleftrightarrow> (x_pbp ctrl - x_fbp ctrl - 1) AND mask k < 64 \<or> fs_free st < 64"
    using st c k by (auto simp: fill_start_def Let_def)
  show "fs_filled st = 0" "fs_last st = nc_last_upper_addr (x_c ctrl)" by (simp_all add: d)
  show x1: "x_c ctrl1 = ?c" by (simp add: d)
  show ok1: "rx_ok k ctrl1" using ok up(2) c by (simp add: rx_ok_def d)
  show "fill_at k ctrl1 (rx_descs k ctrl1) (rx_queue k ctrl) (st, ctrl1)"
    using ok1 ring_free_count [OF k(1), of "nc_hdp ?c" "nc_sdp ?c"] ok c
    by (simp add: fill_at_def rx_ok_def rx_descs_def rx_queue_def d(2-6)) (simp add: d(1) c)
  have le: "ring_dist k (nc_hdp (x_c ctrl)) (nc_hdp ?c) \<le> ring_dist k (nc_hdp (x_c ctrl)) (nc_sdp (x_c ctrl))"
    using up(3) s by simp
  have "ring_dist k (nc_hdp ?c) s \<le> ring_dist k (nc_hdp ?c) (nc_sdp (x_c ctrl))"
    using ring_dist_split [OF up(3)] ring_dist_split [OF le] s by simp
  then show "fill_rel k s [] (ctrl, w) (ctrl1, w)"
    using ok1 up(1) c hdp_update_subset [of "x_c ctrl"] by (simp add: fill_rel_def d(1) rx_queue_def filled_simps(1))
  have "unat ((x_pbp ctrl - x_fbp ctrl - 1) AND mask k) + length (rx_queue k ctrl) = 2 ^ k - 1"
    using ring_free_count [OF k(1), of "x_pbp ctrl" "x_fbp ctrl"] by (simp add: rx_queue_def)
  then show "\<not> enough \<longrightarrow> length (rx_queue k ctrl) + 64 < 2 ^ k \<and> 64 \<le> unat (fs_free st)"
    by (auto simp: d(7) word_less_nat_alt not_less)
  have "rx_descs k ctrl = ring_view k (nc_hdp (x_c ctrl)) (nc_hdp ?c) (x_descs ctrl) @ rx_descs k ctrl1"
    using ring_view_split [OF le k(1), of "x_descs ctrl"] by (simp add: rx_descs_def d(1) c)
  then show "rx_descs k ctrl1 = drop (ring_dist k (nc_hdp (x_c ctrl)) (nc_hdp (x_c ctrl1))) (rx_descs k ctrl)"
    by (simp add: x1)
qed

lemma fill_end_at:
  assumes "fill_at k ctrl1 ds bs st" and "rx_ok k ctrl1"
  shows "rx_ok k (fill_end st)" "rx_queue k (fill_end st) = bs" "rx_descs k (fill_end st) = ds"
    "nc_last_upper_addr (x_c (fill_end st)) = fs_last (fst st)" "nc_hdp (x_c (fill_end st)) = nc_hdp (x_c ctrl1)"
    "nc_sdp (x_c (fill_end st)) = fs_sdp (fst st)" "x_pbp (fill_end st) = x_pbp ctrl1" "x_hdrs (fill_end st) = x_hdrs ctrl1"
    "nc_shp (x_c (fill_end st)) = nc_shp (x_c ctrl1)" "nc_mhp (x_c (fill_end st)) = nc_mhp (x_c ctrl1)"
    "x_mbp (fill_end st) = x_mbp ctrl1" "nc_upd (x_c (fill_end st)) = nc_upd (x_c ctrl1)"
    "nc_updates (x_c (fill_end st)) = nc_updates (x_c ctrl1)" "length ds = ring_dist k (nc_hdp (x_c ctrl1)) (fs_sdp (fst st))"
proof -
  obtain s ctrl where st: "st = (s, ctrl)" by fastforce
  note sel = fill_at_sel [OF assms(1) [unfolded st]]
  note at = assms(1) [unfolded fill_at_def st prod.case]
  have "rx_ok k ctrl" "fs_sdp s AND mask k = fs_sdp s" "fs_fbp s AND mask k = fs_fbp s" using at by blast+
  then show "rx_ok k (fill_end st)" using assms(2) sel by (simp add: fill_end_def st rx_ok_def)
  show "rx_queue k (fill_end st) = bs" "rx_descs k (fill_end st) = ds"
    using at sel by (auto simp: rx_queue_def rx_descs_def fill_end_def st)
  show "length ds = ring_dist k (nc_hdp (x_c ctrl1)) (fs_sdp (fst st))" using at by (auto simp: st)
  show "nc_last_upper_addr (x_c (fill_end st)) = fs_last (fst st)" "nc_hdp (x_c (fill_end st)) = nc_hdp (x_c ctrl1)"
    "nc_sdp (x_c (fill_end st)) = fs_sdp (fst st)" "x_pbp (fill_end st) = x_pbp ctrl1" "x_hdrs (fill_end st) = x_hdrs ctrl1"
    "nc_shp (x_c (fill_end st)) = nc_shp (x_c ctrl1)" "nc_mhp (x_c (fill_end st)) = nc_mhp (x_c ctrl1)"
    "x_mbp (fill_end st) = x_mbp ctrl1" "nc_upd (x_c (fill_end st)) = nc_upd (x_c ctrl1)"
    "nc_updates (x_c (fill_end st)) = nc_updates (x_c ctrl1)"
    using sel by (simp_all add: fill_end_def st)
qed

lemma fill_done:
  assumes start: "fill_start ctrl = (ctrl1, st, enough)" and ok: "rx_ok k ctrl" and hw: "hw_behind k s (x_c ctrl)"
    and s: "ring_dist k (nc_hdp (x_c ctrl)) s \<le> ring_dist k (nc_hdp (x_c ctrl)) (nc_sdp (x_c ctrl))"
    and at: "fill_at k ctrl1 (rx_descs k ctrl1 @ nds) (rx_queue k ctrl @ map Some new) st'"
    and w: "filled new w w'" and frags: "\<forall>b \<in> set new. xb_frags b = []"
  shows "fill_rel k s new (ctrl, w) (fill_end st', w')"
proof -
  note st = fill_start_at [OF ok hw s start]
  note fe = fill_end_at [OF at st(2)]
  note rel = st(3) [of w, unfolded fill_rel_def prod.case]
  have "length (rx_descs k ctrl1) = ring_dist k (nc_hdp (x_c ctrl1)) (nc_sdp (x_c ctrl1))" by (simp add: rx_descs_def)
  then have "ring_dist k (nc_hdp (x_c ctrl1)) s \<le> ring_dist k (nc_hdp (x_c ctrl1)) (fs_sdp (fst st'))"
    using rel fe(14) by simp
  then show ?thesis using rel fe w frags by (simp add: fill_rel_def hw_behind_def)
qed

text \<open>The interface of a fill: it succeeds, and when it reports buffers it has added one at least.\<close>

locale rx_filler =
  fixes fill :: "xctrl \<Rightarrow> rworld \<Rightarrow> xstop + nat \<times> xctrl \<times> rworld"
    and len :: u16
  assumes fill_step: "\<lbrakk>rx_ok k ctrl; hw_behind k s (x_c ctrl);
      ring_dist k (nc_hdp (x_c ctrl)) s \<le> ring_dist k (nc_hdp (x_c ctrl)) (nc_sdp (x_c ctrl))\<rbrakk> \<Longrightarrow>
    \<exists>n ctrl' w' new nds. fill ctrl w = Inr (n, ctrl', w') \<and> fill_rel k s new (ctrl, w) (ctrl', w') \<and> (n \<noteq> 0 \<longrightarrow> new \<noteq> []) \<and>
      rx_descs k ctrl' = drop (ring_dist k (nc_hdp (x_c ctrl)) (nc_hdp (x_c ctrl'))) (rx_descs k ctrl) @ nds \<and>
      hw_walk (nc_last_upper_addr (x_c ctrl)) nds = (nc_last_upper_addr (x_c ctrl'), map (\<lambda>b. (xb_dma b, ucast len)) new)"
begin

text \<open>The loop that fills until nothing more can be filled ends: the queue of buffers grows in every turn.\<close>

lemma fill_all_ends:
  assumes "rx_ok k ctrl" and "hw_behind k s (x_c ctrl)"
    and "ring_dist k (nc_hdp (x_c ctrl)) s \<le> ring_dist k (nc_hdp (x_c ctrl)) (nc_sdp (x_c ctrl))"
    and "2 ^ k < n + length (rx_queue k ctrl)"
  shows "\<exists>ctrl' w' new. fill_all fill n ctrl w = Inr (ctrl', w') \<and> fill_rel k s new (ctrl, w) (ctrl', w')"
  using assms
proof (induction n arbitrary: ctrl w)
  case 0
  have "length (rx_queue k ctrl) < 2 ^ k" using 0(1) ring_dist_less [of k "x_pbp ctrl" "x_fbp ctrl"] by (simp add: rx_queue_def rx_ok_def)
  then show ?case using 0(4) by simp
next
  case (Suc n)
  from fill_step [OF Suc.prems(1-3), of w] obtain m ctrl1 w1 new where
    f: "fill ctrl w = Inr (m, ctrl1, w1)" "fill_rel k s new (ctrl, w) (ctrl1, w1)" "m \<noteq> 0 \<longrightarrow> new \<noteq> []" by blast
  show ?case
  proof (cases "m = 0")
    case True
    then show ?thesis using f by auto
  next
    case False
    note rel = f(2) [unfolded fill_rel_def prod.case]
    have "2 ^ k < n + length (rx_queue k ctrl1)"
    proof -
      have "length (rx_queue k ctrl1) = length (rx_queue k ctrl) + length new" "0 < length new" using rel f(3) False by simp_all
      then show ?thesis using Suc.prems(4) by linarith
    qed
    then obtain ctrl' w' new' where
      r: "fill_all fill n ctrl1 w1 = Inr (ctrl', w')" "fill_rel k s new' (ctrl1, w1) (ctrl', w')"
      using Suc.IH [of ctrl1 w1] rel by blast
    have "fill_all fill (Suc n) ctrl w = Inr (ctrl', w')" using f(1) False r(1) by simp
    then show ?thesis using fill_rel_trans [OF f(2) r(2)] by blast
  qed
qed

end

lemma fill_pp_step:
  assumes ok: "rx_ok k ctrl" and hw: "hw_behind k s (x_c ctrl)"
    and s: "ring_dist k (nc_hdp (x_c ctrl)) s \<le> ring_dist k (nc_hdp (x_c ctrl)) (nc_sdp (x_c ctrl))"
  shows "\<exists>n ctrl' w' new nds. Inr (nfb_xctrl_rx_fill_pp len sg ctrl w) = (Inr (n, ctrl', w') :: xstop + nat \<times> xctrl \<times> rworld) \<and>
      fill_rel k s new (ctrl, w) (ctrl', w') \<and> (n \<noteq> 0 \<longrightarrow> new \<noteq> []) \<and>
      rx_descs k ctrl' = drop (ring_dist k (nc_hdp (x_c ctrl)) (nc_hdp (x_c ctrl'))) (rx_descs k ctrl) @ nds \<and>
      hw_walk (nc_last_upper_addr (x_c ctrl)) nds = (nc_last_upper_addr (x_c ctrl'), map (\<lambda>b. (xb_dma b, ucast len)) new)"
proof -
  obtain ctrl1 st enough where start: "fill_start ctrl = (ctrl1, st, enough)" using prod_cases3 by blast
  note st = fill_start_at [OF ok hw s start]
  show ?thesis
  proof (cases enough)
    case True
    have "nc_last_upper_addr (x_c ctrl1) = nc_last_upper_addr (x_c ctrl)"
      by (simp add: st(7) nc_ndp_ctrl_hdp_update_def nc_upd_read_def Let_def split: list.splits)
    with True st(3,8) start show ?thesis
      by (intro exI [of _ 0] exI [of _ ctrl1] exI [of _ w] exI [of _ "[]"]) (simp add: nfb_xctrl_rx_fill_pp_def)
  next
    case False
    obtain st' w' where loop: "fill_pp_loop len sg 64 (st, ctrl1) w = (st', w')" by fastforce
    have "length (rx_queue k ctrl) + 64 < 2 ^ k" using st(4) False by blast
    from fill_pp_loop_at [OF loop st(1) this] obtain new nds where
      new: "fill_at k ctrl1 (rx_descs k ctrl1 @ nds) (rx_queue k ctrl @ map Some new) st'"
        "hw_walk (fs_last st) nds = (fs_last (fst st'), map (\<lambda>b. (xb_dma b, ucast len)) new)"
        "fs_filled (fst st') = length new" "filled new w w'" "\<forall>b \<in> set new. xb_frags b = []" using st(5) by auto
    have "nfb_xctrl_rx_fill_pp len sg ctrl w = (length new, fill_end st', w')"
      using start False loop new(3) by (simp add: nfb_xctrl_rx_fill_pp_def)
    then show ?thesis
      using fill_done [OF start ok hw s new(1,4,5)] fill_end_at [OF new(1) st(2)] new(2) st(6,8)
      by (intro exI [of _ "length new"] exI [of _ "fill_end st'"] exI [of _ w'] exI [of _ new] exI [of _ nds]) simp
  qed
qed

lemma fill_xsk_step:
  assumes ok: "rx_ok k ctrl" and hw: "hw_behind k s (x_c ctrl)"
    and s: "ring_dist k (nc_hdp (x_c ctrl)) s \<le> ring_dist k (nc_hdp (x_c ctrl)) (nc_sdp (x_c ctrl))"
  shows "\<exists>n ctrl' w' new nds. nfb_xctrl_rx_fill_xsk True len sg ctrl w = Inr (n, ctrl', w') \<and>
      fill_rel k s new (ctrl, w) (ctrl', w') \<and> (n \<noteq> 0 \<longrightarrow> new \<noteq> []) \<and>
      rx_descs k ctrl' = drop (ring_dist k (nc_hdp (x_c ctrl)) (nc_hdp (x_c ctrl'))) (rx_descs k ctrl) @ nds \<and>
      hw_walk (nc_last_upper_addr (x_c ctrl)) nds = (nc_last_upper_addr (x_c ctrl'), map (\<lambda>b. (xb_dma b, ucast (ucast len :: u16))) new)"
proof -
  obtain ctrl1 st enough where start: "fill_start ctrl = (ctrl1, st, enough)" using prod_cases3 by blast
  note st = fill_start_at [OF ok hw s start]
  show ?thesis
  proof (cases enough)
    case True
    have "nc_last_upper_addr (x_c ctrl1) = nc_last_upper_addr (x_c ctrl)"
      by (simp add: st(7) nc_ndp_ctrl_hdp_update_def nc_upd_read_def Let_def split: list.splits)
    with True st(3,8) start show ?thesis
      by (intro exI [of _ 0] exI [of _ ctrl1] exI [of _ w] exI [of _ "[]"]) (simp add: nfb_xctrl_rx_fill_xsk_def)
  next
    case False
    obtain bs w1 where batch: "xsk_buff_alloc_batch True 64 w = (bs, w1)" by fastforce
    from alloc_batch_native [OF batch] obtain xs where xs: "bs = map Some xs" "length xs \<le> 64"
      "allocated w1 = allocated w @ map xb_id xs" "w1\<lparr>rw_allocs := 0\<rparr> = w\<lparr>rw_allocs := 0\<rparr>" "\<forall>b \<in> set xs. xb_frags b = []" by blast
    have "length (rx_queue k ctrl) + length xs < 2 ^ k" using st(4) False xs(2) by linarith
    from fill_xsk_loop_at [OF st(1) this, of "ucast len" sg w1] obtain new rest nds st' where
      new: "fill_xsk_loop (ucast len) sg (map Some xs) (st, ctrl1) w1 = Inr (st', if rest = [] then w1 else rw_give_back (map xb_id rest) w1)"
        "xs = new @ rest" "fill_at k ctrl1 (rx_descs k ctrl1 @ nds) (rx_queue k ctrl @ map Some new) st'"
        "hw_walk (fs_last st) nds = (fs_last (fst st'), map (\<lambda>b. (xb_dma b, ucast (ucast len :: u16))) new)"
        "xs \<noteq> [] \<longrightarrow> 2 \<le> unat (fs_free st) \<longrightarrow> new \<noteq> []" unfolding fst_conv by blast
    define w' where "w' = (if rest = [] then w1 else rw_give_back (map xb_id rest) w1)"
    have "filled new w w'"
    proof -
      have ret: "rw_returned w1 = rw_returned w" using arg_cong [OF xs(4), of rw_returned] by simp
      have w1: "w1\<lparr>rw_allocs := 0, rw_returned := []\<rparr> = w\<lparr>rw_allocs := 0, rw_returned := []\<rparr>"
        using arg_cong [OF xs(4), of "rw_returned_update (\<lambda>_. [])"] by simp
      have "w'\<lparr>rw_allocs := 0, rw_returned := []\<rparr> = w1\<lparr>rw_allocs := 0, rw_returned := []\<rparr>" "allocated w' = allocated w1"
        "rw_returned w' = map xb_id rest @ rw_returned w1"
        by (simp_all add: w'_def rw_give_back_def allocated_def)
      then show ?thesis using w1 ret xs(3) new(2) by (simp add: filled_def ac_simps)
    qed
    note rel = fill_done [OF start ok hw s new(3) this]
    have "64 \<le> unat (fs_free st)" using st(4) False by blast
    then have "length xs \<noteq> 0 \<longrightarrow> new \<noteq> []" using new(5) by auto
    moreover have "nfb_xctrl_rx_fill_xsk True len sg ctrl w = Inr (length xs, fill_end st', w')"
      using start False batch xs(1) new(1) by (simp add: nfb_xctrl_rx_fill_xsk_def w'_def)
    ultimately show ?thesis
      using rel xs(5) new(2) fill_end_at [OF new(3) st(2)] new(4) st(6,8)
      by (intro exI [of _ "length xs"] exI [of _ "fill_end st'"] exI [of _ w'] exI [of _ new] exI [of _ nds]) simp
  qed
qed

interpretation pp_fill: rx_filler "\<lambda>c w. Inr (nfb_xctrl_rx_fill_pp len sg c w)" len for len sg
  by unfold_locales (rule fill_pp_step)

interpretation xsk_fill: rx_filler "nfb_xctrl_rx_fill_xsk True len sg" "ucast len" for len sg
  by unfold_locales (rule fill_xsk_step)

end
