(* ===== verification/XdpPoll.thy ===== *)
theory XdpPoll
  imports XdpRx XdpRun
begin

text \<open>
  What the receive side of the XDP driver guarantees: a packet is cut into the buffers of the queue the way the hardware has
  written it, the refill ends, a poll in page-pool mode returns and every page that was ever allocated is in exactly one place.
  The fallback allocation of AF\_XDP buffers is the exception.
\<close>

section \<open>Cutting a packet\<close>

text \<open>The reference: full buffers of \<open>mx\<close> bytes, and the rest.\<close>

fun cut :: "nat \<Rightarrow> nat \<Rightarrow> nat list" where
  "cut mx n = (if n \<le> mx \<or> mx = 0 then [n] else mx # cut mx (n - mx))"

declare cut.simps [simp del]

lemma cut_sum: "sum_list (cut mx n) = n"
  by (induction mx n rule: cut.induct) (subst cut.simps, auto)

lemma cut_le: "0 < mx \<Longrightarrow> x \<in> set (cut mx n) \<Longrightarrow> x \<le> mx"
  by (induction mx n rule: cut.induct) (subst (asm) (2) cut.simps, auto split: if_splits)

lemma cut_not_Nil [simp]: "cut mx n \<noteq> []"
  by (subst cut.simps) simp

lemma cut_full: "x \<in> set (butlast (cut mx n)) \<Longrightarrow> x = mx"
  by (induction mx n rule: cut.induct) (subst (asm) (2) cut.simps, auto split: if_splits)

lemma cut_pos: "0 < mx \<Longrightarrow> 0 < n \<Longrightarrow> x \<in> set (cut mx n) \<Longrightarrow> 0 < x"
  by (induction mx n rule: cut.induct) (subst (asm) (2) cut.simps, auto split: if_splits)

text \<open>The buffers from the processed pointer on, and what taking \<open>m\<close> of them leaves.\<close>

definition bufs_at :: "nat \<Rightarrow> xctrl \<Rightarrow> u32 \<Rightarrow> xdp_buff list \<Rightarrow> bool" where
  "bufs_at k ctrl pbp bs \<longleftrightarrow> k \<le> 32 \<and> x_mbp ctrl = mask k \<and> length (x_xdp_ring ctrl) = 2 ^ k \<and> pbp AND mask k = pbp \<and>
     x_fbp ctrl AND mask k = x_fbp ctrl \<and> ring_view k pbp (x_fbp ctrl) (x_xdp_ring ctrl) = map Some bs"

lemma bufs_at_pop:
  assumes "bufs_at k ctrl pbp (b # bs)"
  shows "ring_buff ctrl pbp = Some b" "bufs_at k ctrl ((pbp + 1) AND x_mbp ctrl) bs"
proof -
  note a = assms [unfolded bufs_at_def]
  have "pbp AND mask k \<noteq> x_fbp ctrl AND mask k"
  proof
    assume "pbp AND mask k = x_fbp ctrl AND mask k"
    then have "pbp = x_fbp ctrl" using a by simp
    then show False using a by simp
  qed
  from ring_view_pop [OF this, of "x_xdp_ring ctrl"] a
  have "x_xdp_ring ctrl ! unat pbp = Some b" "ring_view k ((pbp + 1) AND mask k) (x_fbp ctrl) (x_xdp_ring ctrl) = map Some bs" by simp_all
  moreover have "unat pbp < 2 ^ k" using a and_mask_less [of pbp k] by simp
  ultimately show "ring_buff ctrl pbp = Some b" "bufs_at k ctrl ((pbp + 1) AND x_mbp ctrl) bs"
    using a by (simp_all add: ring_buff_def bufs_at_def)
qed

lemma unat_minus_le: "y \<le> x \<Longrightarrow> unat (x - y) = unat x - unat y" for x y :: u32
  by (simp add: unat_sub)

lemma rx_frags_cut:
  assumes "0 < mx" and "bufs_at k ctrl pbp bs" and "unat len \<le> n"
    and "len \<noteq> 0 \<longrightarrow> length (cut (unat mx) (unat len)) \<le> length bs"
  shows "\<exists>pbp'. rx_frags n mx ctrl len pbp = Inr (zip bs (if len = 0 then [] else map of_nat (cut (unat mx) (unat len))), pbp') \<and>
    bufs_at k ctrl pbp' (drop (if len = 0 then 0 else length (cut (unat mx) (unat len))) bs)"
  using assms(2-)
proof (induction n arbitrary: len pbp bs)
  case 0
  then have "len = 0" by (simp add: unat_eq_zero)
  with 0 show ?case by simp
next
  case (Suc n)
  show ?case
  proof (cases "len = 0")
    case True
    with Suc.prems show ?thesis by simp
  next
    case False
    have pos: "0 < unat mx" "0 < unat len" using assms(1) False by (simp_all add: word_less_nat_alt unat_gt_0)
    have need: "length (cut (unat mx) (unat len)) \<le> length bs" using Suc.prems(3) False by simp
    then obtain b bs' where bs: "bs = b # bs'" by (cases bs) auto
    note pop = bufs_at_pop [OF Suc.prems(1) [unfolded bs]]
    show ?thesis
    proof (cases "len > mx")
      case True
      have sub: "unat (len - mx) = unat len - unat mx" "len - mx \<noteq> 0"
        using True by (simp_all add: unat_minus_le)
      have c: "cut (unat mx) (unat len) = unat mx # cut (unat mx) (unat (len - mx))"
        using True pos sub(1) by (subst cut.simps) (simp add: word_less_nat_alt)
      have "unat (len - mx) \<le> n" using sub(1) pos Suc.prems(2) by simp
      moreover have "length (cut (unat mx) (unat (len - mx))) \<le> length bs'" using need c bs by simp
      ultimately obtain pbp' where
        r: "rx_frags n mx ctrl (len - mx) ((pbp + 1) AND x_mbp ctrl) = Inr (zip bs' (map of_nat (cut (unat mx) (unat (len - mx)))), pbp')"
          "bufs_at k ctrl pbp' (drop (length (cut (unat mx) (unat (len - mx)))) bs')"
        using Suc.IH [OF pop(2), of "len - mx"] sub(2) by auto
      with False True pop(1) c bs show ?thesis by (intro exI [of _ pbp']) simp
    next
      case le: False
      have c: "cut (unat mx) (unat len) = [unat len]" using le by (subst cut.simps) (simp add: word_less_nat_alt not_less)
      obtain pbp' where r: "rx_frags n mx ctrl 0 ((pbp + 1) AND x_mbp ctrl) = Inr ([], pbp')" "bufs_at k ctrl pbp' bs'"
        using Suc.IH [OF pop(2), of 0] by auto
      with False le pop(1) c bs show ?thesis by (intro exI [of _ pbp']) simp
    qed
  qed
qed

lemma rx_packet_cut:
  assumes mx: "0 < mx" and at: "bufs_at k ctrl pbp bs" and need: "length (cut (unat mx) (unat len)) \<le> length bs"
  shows "\<exists>pbp'. rx_packet mx True ctrl len pbp = Inr (zip bs (map of_nat (cut (unat mx) (unat len))), pbp') \<and>
    bufs_at k ctrl pbp' (drop (length (cut (unat mx) (unat len))) bs)"
proof -
  obtain b bs' where bs: "bs = b # bs'" using need by (cases bs) auto
  note pop = bufs_at_pop [OF at [unfolded bs]]
  have pos: "0 < unat mx" using mx by (simp add: word_less_nat_alt)
  show ?thesis
  proof (cases "len > mx")
    case True
    have sub: "unat (len - mx) = unat len - unat mx" "len - mx \<noteq> 0" using True by (simp_all add: unat_minus_le)
    have c: "cut (unat mx) (unat len) = unat mx # cut (unat mx) (unat (len - mx))"
      using True pos sub(1) by (subst cut.simps) (simp add: word_less_nat_alt)
    have "length (cut (unat mx) (unat (len - mx))) \<le> length bs'" using need c bs by simp
    then obtain pbp' where
      r: "rx_frags (unat (len - mx)) mx ctrl (len - mx) ((pbp + 1) AND x_mbp ctrl) = Inr (zip bs' (map of_nat (cut (unat mx) (unat (len - mx)))), pbp')"
        "bufs_at k ctrl pbp' (drop (length (cut (unat mx) (unat (len - mx)))) bs')"
      using rx_frags_cut [OF mx pop(2) order_refl, of "len - mx"] sub(2) by auto
    with True pop(1) c bs show ?thesis by (intro exI [of _ pbp']) (simp add: rx_packet_def)
  next
    case False
    have c: "cut (unat mx) (unat len) = [unat len]" using False by (subst cut.simps) (simp add: word_less_nat_alt not_less)
    with False pop bs show ?thesis by (intro exI [of _ "(pbp + 1) AND x_mbp ctrl"]) (simp add: rx_packet_def)
  qed
qed

section \<open>Where the pages are\<close>

text \<open>The pages that have left the queue of buffers: each has gone one way.\<close>

definition gone :: "rworld \<Rightarrow> nat multiset" where
  "gone w = mset (rw_returned w) + mset (concat (rw_stack w)) + mset (concat (rw_redirected w)) + mset (concat (rw_txed w))"

text \<open>
  What is assumed of the kernel: conversions to a frame succeed, and the attached program does not change which pages
  the packet consists of.
\<close>

definition kernel_ok :: "rworld \<Rightarrow> bool" where
  "kernel_ok w \<longleftrightarrow> (\<forall>n. rw_conv w n) \<and> (\<forall>prog. rw_prog w = Some prog \<longrightarrow> (\<forall>n x. buff_ids (snd (prog n x)) = buff_ids x))"

lemma run_prog_ids: "kernel_ok w \<Longrightarrow> buff_ids (snd (run_prog x w)) = buff_ids x"
  by (auto simp: run_prog_def kernel_ok_def split: option.splits)

lemma handle_pp_gone:
  assumes "kernel_ok w"
  shows "\<exists>w'. nfb_xctrl_handle_pp x w = Inr w' \<and> gone w' = mset (buff_ids x) + gone w \<and> kernel_ok w' \<and>
    rw_alloc w' = rw_alloc w \<and> rw_allocs w' = rw_allocs w"
proof -
  obtain act b where r: "run_prog x w = (act, b)" by fastforce
  have b: "buff_ids b = buff_ids x" using run_prog_ids [OF assms, of x] r by simp
  have c: "rw_conv w n" for n using assms by (simp add: kernel_ok_def)
  obtain ret tx z where s: "nfb_xctrl_tx_submit_frame_needs_lock (buff_frame b) True (rw_tx w) (rw_x w) = (ret, tx, z)"
    using prod_cases3 by blast
  define y where "y = (if ret \<noteq> 0 then xdp_return_frame (fr_id (buff_frame b)) z else z)"
  have t: "nfb_xctrl_rexmit_pp (Some (buff_frame b)) (rw_tx w) (rw_x w) = Inr (ret, tx, y)"
    by (simp add: nfb_xctrl_rexmit_pp_def s y_def)
  show ?thesis
    using assms unfolding nfb_xctrl_handle_pp_def r kernel_ok_def
    by (cases act; cases "rw_build w (rw_runs w)"; cases "rw_redirect w (rw_runs w) = 0")
      (simp_all add: Let_def t return_buff_def rw_give_back_def gone_def b)
qed

lemma pp_head_ids:
  assumes "xb_frags b = []"
  shows "buff_ids (pp_head ((b, l) # fs)) = map (xb_id \<circ> fst) ((b, l) # fs)"
  using assms by (simp add: pp_head_def buff_ids_def comp_def case_prod_unfold)

text \<open>The packets of a poll.\<close>

primrec rx_need :: "nat \<Rightarrow> xctrl \<Rightarrow> nat \<Rightarrow> u32 \<Rightarrow> nat" where
  "rx_need mx ctrl 0 shp = 0"
| "rx_need mx ctrl (Suc n) shp =
     length (cut mx (unat (hdr_frame_len (x_hdrs ctrl ! unat shp)))) + rx_need mx ctrl n ((shp + 1) AND nc_mhp (x_c ctrl))"

lemma rx_need_mono: "m \<le> n \<Longrightarrow> rx_need mx ctrl m shp \<le> rx_need mx ctrl n shp"
proof (induction n arbitrary: m shp)
  case (Suc n)
  then show ?case by (cases m) simp_all
qed simp

lemma rx_loop_pp:
  assumes "0 < mx" and "bufs_at k ctrl pbp bs" and "rx_need (unat mx) ctrl n shp \<le> length bs" and "kernel_ok w"
    and "\<forall>b \<in> set bs. xb_frags b = []"
  shows "\<exists>shp' pbp' w' taken. rx_loop rx_give_pp mx True ctrl n shp pbp w = Inr ((shp', pbp'), w') \<and>
    bs = taken @ drop (length taken) bs \<and> bufs_at k ctrl pbp' (drop (length taken) bs) \<and> length taken = rx_need (unat mx) ctrl n shp \<and>
    gone w' = mset (map xb_id taken) + gone w \<and> kernel_ok w' \<and> rw_alloc w' = rw_alloc w \<and> rw_allocs w' = rw_allocs w"
  using assms(2-)
proof (induction n arbitrary: shp pbp bs w)
  case 0
  then show ?case by (intro exI [of _ shp] exI [of _ pbp] exI [of _ w] exI [of _ "[]"]) simp
next
  case (Suc n)
  let ?len = "ucast (hdr_frame_len (x_hdrs ctrl ! unat shp)) :: u32"
  let ?c = "cut (unat mx) (unat ?len)"
  have len: "unat ?len = unat (hdr_frame_len (x_hdrs ctrl ! unat shp))"
    using unsigned_less [of "hdr_frame_len (x_hdrs ctrl ! unat shp)", where 'a = nat] by (simp add: unsigned_ucast_eq take_bit_nat_eq_self)
  have need: "length ?c \<le> length bs" using Suc.prems(2) by (simp add: len)
  from rx_packet_cut [OF assms(1) Suc.prems(1) need] obtain pbp1 where
    p: "rx_packet mx True ctrl ?len pbp = Inr (zip bs (map of_nat ?c), pbp1)" "bufs_at k ctrl pbp1 (drop (length ?c) bs)" by blast
  obtain b bs' where bs: "bs = b # bs'" using need by (cases bs) auto
  obtain l ls where c: "?c = l # ls" by (cases ?c) simp_all
  have ids: "buff_ids (pp_head (zip bs (map of_nat ?c))) = map xb_id (take (length ?c) bs)"
  proof -
    have "buff_ids (pp_head (zip bs (map of_nat ?c))) = map (xb_id \<circ> fst) (zip bs (map of_nat ?c :: u32 list))"
      using Suc.prems(4) unfolding bs c by (simp add: pp_head_ids)
    also have "\<dots> = map xb_id (map fst (zip bs (map of_nat ?c :: u32 list)))" by simp
    finally show ?thesis using need by (simp add: map_fst_zip_take min_def)
  qed
  obtain w1 where w1: "rx_give_pp (zip bs (map of_nat ?c)) w = Inr w1" "gone w1 = mset (map xb_id (take (length ?c) bs)) + gone w"
    "kernel_ok w1" "rw_alloc w1 = rw_alloc w" "rw_allocs w1 = rw_allocs w"
    using handle_pp_gone [OF Suc.prems(3), of "pp_head (zip bs (map of_nat ?c))"] unfolding rx_give_pp_def ids by blast
  have "rx_need (unat mx) ctrl n ((shp + 1) AND nc_mhp (x_c ctrl)) \<le> length (drop (length ?c) bs)"
    using Suc.prems(2) by (simp add: len)
  from Suc.IH [OF p(2) this w1(3)] Suc.prems(4) obtain shp' pbp' w' taken where
    r: "rx_loop rx_give_pp mx True ctrl n ((shp + 1) AND nc_mhp (x_c ctrl)) pbp1 w1 = Inr ((shp', pbp'), w')"
      "drop (length ?c) bs = taken @ drop (length taken) (drop (length ?c) bs)"
      "bufs_at k ctrl pbp' (drop (length taken) (drop (length ?c) bs))"
      "length taken = rx_need (unat mx) ctrl n ((shp + 1) AND nc_mhp (x_c ctrl))"
      "gone w' = mset (map xb_id taken) + gone w1" "kernel_ok w'" "rw_alloc w' = rw_alloc w1" "rw_allocs w' = rw_allocs w1"
    by (meson in_set_dropD)
  let ?t = "take (length ?c) bs @ taken"
  have l: "length ?t = length ?c + length taken" using need by simp
  have "take (length ?c) bs @ drop (length ?c) bs = ?t @ drop (length ?t) bs"
    by (subst r(2)) (simp only: l drop_drop append_assoc add.commute)
  then have "bs = ?t @ drop (length ?t) bs" by (simp only: append_take_drop_id)
  moreover have "rx_loop rx_give_pp mx True ctrl (Suc n) shp pbp w = Inr ((shp', pbp'), w')" using p(1) w1(1) r(1) by simp
  moreover have "bufs_at k ctrl pbp' (drop (length ?t) bs)" using r(3) unfolding l by (simp add: add.commute)
  moreover have "length ?t = rx_need (unat mx) ctrl (Suc n) shp" using r(4) l by (simp add: len)
  moreover have "gone w' = mset (map xb_id ?t) + gone w" using r(5) w1(2) by (simp add: ac_simps)
  moreover have "rw_alloc w' = rw_alloc w" "rw_allocs w' = rw_allocs w" using r(7,8) w1(4,5) by simp_all
  ultimately show ?case using r(6) by blast
qed

text \<open>Every page the pool has handed out is in the queue of buffers or has gone one way, and is in one place only.\<close>

definition rx_acct :: "nat \<Rightarrow> xctrl \<Rightarrow> rworld \<Rightarrow> bool" where
  "rx_acct k ctrl w \<longleftrightarrow> (\<exists>bs. rx_queue k ctrl = map Some bs \<and> (\<forall>b \<in> set bs. xb_frags b = []) \<and>
     mset (allocated w) = mset (map xb_id bs) + gone w)"

text \<open>The hardware reports packets only for which it had the buffers.\<close>

definition hw_packets :: "nat \<Rightarrow> u32 \<Rightarrow> xctrl \<Rightarrow> bool" where
  "hw_packets k mx ctrl \<longleftrightarrow> (\<forall>u \<in> set (nc_upd (x_c ctrl) # nc_updates (x_c ctrl)).
     rx_need (unat mx) ctrl (unat ((snd u - nc_shp (x_c ctrl)) AND nc_mhp (x_c ctrl))) (nc_shp (x_c ctrl)) \<le> length (rx_queue k ctrl))"

lemma filled_same:
  assumes "filled new w w'"
  shows "rw_conv w' = rw_conv w" "rw_prog w' = rw_prog w" "rw_stack w' = rw_stack w" "rw_redirected w' = rw_redirected w"
    "rw_txed w' = rw_txed w" "rw_tx w' = rw_tx w" "rw_x w' = rw_x w"
proof -
  have e: "w'\<lparr>rw_allocs := 0, rw_returned := []\<rparr> = w\<lparr>rw_allocs := 0, rw_returned := []\<rparr>" using assms by (simp add: filled_def)
  show "rw_conv w' = rw_conv w" "rw_prog w' = rw_prog w" "rw_stack w' = rw_stack w" "rw_redirected w' = rw_redirected w"
    "rw_txed w' = rw_txed w" "rw_tx w' = rw_tx w" "rw_x w' = rw_x w"
    using arg_cong [OF e, of rw_conv] arg_cong [OF e, of rw_prog] arg_cong [OF e, of rw_stack] arg_cong [OF e, of rw_redirected]
      arg_cong [OF e, of rw_txed] arg_cong [OF e, of rw_tx] arg_cong [OF e, of rw_x] by simp_all
qed

lemma rx_acct_fill:
  assumes "rx_acct k ctrl w" and "fill_rel k s new (ctrl, w) (ctrl', w')"
  shows "rx_acct k ctrl' w'"
proof -
  from assms(1) obtain bs where bs: "rx_queue k ctrl = map Some bs" "\<forall>b \<in> set bs. xb_frags b = []"
    "mset (allocated w) = mset (map xb_id bs) + gone w" unfolding rx_acct_def by blast
  have f: "filled new w w'" "rx_queue k ctrl' = rx_queue k ctrl @ map Some new" "\<forall>b \<in> set new. xb_frags b = []"
    using assms(2) by (simp_all add: fill_rel_def)
  note same = filled_same [OF f(1)]
  have "mset (allocated w') + mset (rw_returned w) = mset (map xb_id bs) + gone w + mset (map xb_id new) + mset (rw_returned w')"
    using f(1) bs(3) by (simp add: filled_def)
  also have "\<dots> = (mset (map xb_id (bs @ new)) + gone w') + mset (rw_returned w)"
    by (simp add: gone_def same ac_simps)
  finally have "mset (allocated w') = mset (map xb_id (bs @ new)) + gone w'" by simp
  then show ?thesis using bs(1,2) f(2,3) unfolding rx_acct_def by (intro exI [of _ "bs @ new"]) auto
qed

lemma rx_need_same:
  "x_hdrs ctrl' = x_hdrs ctrl \<Longrightarrow> nc_mhp (x_c ctrl') = nc_mhp (x_c ctrl) \<Longrightarrow> rx_need mx ctrl' n shp = rx_need mx ctrl n shp"
  by (induction n arbitrary: shp) simp_all

lemma hhp_update_sel:
  "nc_hdp (nc_ndp_ctrl_hhp_update c) = nc_hdp c" "nc_sdp (nc_ndp_ctrl_hhp_update c) = nc_sdp c"
  "nc_mdp (nc_ndp_ctrl_hhp_update c) = nc_mdp c" "nc_mhp (nc_ndp_ctrl_hhp_update c) = nc_mhp c"
  "nc_shp (nc_ndp_ctrl_hhp_update c) = nc_shp c"
  "nc_hhp (nc_ndp_ctrl_hhp_update c) \<in> snd ` set (nc_upd c # nc_updates c)"
  by (cases "nc_updates c"; simp add: nc_ndp_ctrl_hhp_update_def nc_upd_read_def Let_def)+

lemma sdp_flush_sel:
  "nc_hdp (nc_ndp_ctrl_sdp_flush c) = nc_hdp c" "nc_sdp (nc_ndp_ctrl_sdp_flush c) = nc_sdp c"
  "nc_mdp (nc_ndp_ctrl_sdp_flush c) = nc_mdp c" "nc_mhp (nc_ndp_ctrl_sdp_flush c) = nc_mhp c"
  "nc_shp (nc_ndp_ctrl_sdp_flush c) = nc_shp c" "nc_upd (nc_ndp_ctrl_sdp_flush c) = nc_upd c"
  "nc_updates (nc_ndp_ctrl_sdp_flush c) = nc_updates c"
  by (simp_all add: nc_ndp_ctrl_sdp_flush_def)

lemma unat_ucast16_le: "unat (ucast x :: u16) \<le> unat x" for x :: u32
  by (simp add: unsigned_ucast_eq)

text \<open>Receiving in page-pool mode.\<close>

lemma rx_pp_acct:
  assumes ok: "rx_ok k ctrl" and hw: "hw_behind k (nc_sdp (x_c ctrl)) (x_c ctrl)" and mx: "0 < mx" and ker: "kernel_ok w"
    and acct: "rx_acct k ctrl w" and pk: "hw_packets k mx ctrl"
  shows "\<exists>n ctrl' w'. nfb_xctrl_rx_pp mx True budget ctrl w = Inr (n, ctrl', w') \<and> n \<le> budget \<and> rx_ok k ctrl' \<and>
    kernel_ok w' \<and> rx_acct k ctrl' w'"
proof -
  let ?fill = "\<lambda>c w. Inr (nfb_xctrl_rx_fill_pp (ucast mx) True c w) :: xstop + nat \<times> xctrl \<times> rworld"
  have k: "k \<le> 32" "x_mbp ctrl = mask k" using ok by (simp_all add: rx_ok_def)
  have "2 ^ k < (unat (x_mbp ctrl) + 2) + length (rx_queue k ctrl)"
    using k by (simp add: unat_mask)
  from pp_fill.fill_all_ends [OF ok hw order_refl this, of "ucast mx" True w] obtain ctrl1 w1 new where
    f: "fill_all ?fill (unat (x_mbp ctrl) + 2) ctrl w = Inr (ctrl1, w1)"
      "fill_rel k (nc_sdp (x_c ctrl)) new (ctrl, w) (ctrl1, w1)" by blast
  note rel = f(2) [unfolded fill_rel_def prod.case]
  define c where "c = nc_ndp_ctrl_hhp_update (nc_ndp_ctrl_sdp_flush (x_c ctrl1))"
  define ctrl2 where "ctrl2 = ctrl1\<lparr>x_c := c\<rparr>"
  define avail where "avail = (ucast ((nc_hhp c - nc_shp c) AND nc_mhp c) :: u16)"
  define n where "n = (if budget < avail then budget else avail)"
  have c: "nc_hdp c = nc_hdp (x_c ctrl1)" "nc_sdp c = nc_sdp (x_c ctrl1)" "nc_mdp c = nc_mdp (x_c ctrl1)"
    "nc_mhp c = nc_mhp (x_c ctrl)" "nc_shp c = nc_shp (x_c ctrl)"
    "nc_hhp c \<in> snd ` set (nc_upd (x_c ctrl1) # nc_updates (x_c ctrl1))"
    using rel hhp_update_sel(6) [of "nc_ndp_ctrl_sdp_flush (x_c ctrl1)"]
    by (simp_all add: c_def hhp_update_sel(1-5) sdp_flush_sel)
  have ok1: "rx_ok k ctrl1" and q1: "rx_queue k ctrl1 = rx_queue k ctrl @ map Some new" using rel by blast+
  have ok2: "rx_ok k ctrl2" using ok1 c(1-3) by (simp add: ctrl2_def rx_ok_def)
  have q2: "rx_queue k ctrl2 = rx_queue k ctrl @ map Some new" unfolding q1 [symmetric] by (simp add: ctrl2_def rx_queue_def)
  have acct1: "rx_acct k ctrl1 w1" by (rule rx_acct_fill [OF acct f(2)])
  then obtain bs where bs: "rx_queue k ctrl2 = map Some bs" "\<forall>b \<in> set bs. xb_frags b = []"
    "mset (allocated w1) = mset (map xb_id bs) + gone w1" unfolding rx_acct_def ctrl2_def rx_queue_def by auto
  have at: "bufs_at k ctrl2 (x_pbp ctrl2) bs" using ok2 bs(1) by (simp add: bufs_at_def rx_ok_def rx_queue_def)
  have need: "rx_need (unat mx) ctrl2 (unat n) (nc_shp c) \<le> length bs"
  proof -
    obtain u where u: "u \<in> set (nc_upd (x_c ctrl) # nc_updates (x_c ctrl))" "nc_hhp c = snd u" using c(6) rel by blast
    have "unat n \<le> unat avail" by (simp add: n_def word_less_nat_alt)
    also have "\<dots> \<le> unat ((snd u - nc_shp (x_c ctrl)) AND nc_mhp (x_c ctrl))"
      using unat_ucast16_le [of "(nc_hhp c - nc_shp c) AND nc_mhp c"] c(4,5) u(2) by (simp add: avail_def)
    finally have "rx_need (unat mx) ctrl (unat n) (nc_shp (x_c ctrl)) \<le> length (rx_queue k ctrl)"
      using rx_need_mono pk u(1) unfolding hw_packets_def by (meson order_trans)
    moreover have "rx_need (unat mx) ctrl2 (unat n) (nc_shp c) = rx_need (unat mx) ctrl (unat n) (nc_shp (x_c ctrl))"
      unfolding c(5) by (rule rx_need_same) (use rel c(4) in \<open>simp_all add: ctrl2_def\<close>)
    moreover have "length (rx_queue k ctrl) \<le> length bs" using arg_cong [OF q2, of length] bs(1) by simp
    ultimately show ?thesis by simp
  qed
  have ker1: "kernel_ok w1" using ker filled_same [of new w w1] rel by (simp add: kernel_ok_def)
  from rx_loop_pp [OF mx at need ker1 bs(2)] obtain shp' pbp' w' taken where
    r: "rx_loop rx_give_pp mx True ctrl2 (unat n) (nc_shp c) (x_pbp ctrl2) w1 = Inr ((shp', pbp'), w')"
      "bs = taken @ drop (length taken) bs" "bufs_at k ctrl2 pbp' (drop (length taken) bs)"
      "gone w' = mset (map xb_id taken) + gone w1" "kernel_ok w'" "rw_alloc w' = rw_alloc w1" "rw_allocs w' = rw_allocs w1"
    by blast
  define ctrl' where "ctrl' = ctrl2\<lparr>x_pbp := pbp', x_c := c\<lparr>nc_shp := shp'\<rparr>\<rparr>"
  have call: "nfb_xctrl_rx_pp mx True budget ctrl w = Inr (n, ctrl', w')"
    unfolding nfb_xctrl_rx_pp_def rx_common_def f(1) Let_def sum.case prod.case c_def [symmetric]
    unfolding ctrl2_def [symmetric] avail_def [symmetric] n_def [symmetric]
    unfolding r(1) sum.case prod.case ctrl'_def ..
  have "rx_ok k ctrl'" using ok2 r(3) by (simp add: rx_ok_def ctrl'_def bufs_at_def ctrl2_def)
  moreover have "rx_acct k ctrl' w'"
  proof -
    have q: "rx_queue k ctrl' = map Some (drop (length taken) bs)" using r(3) by (simp add: rx_queue_def ctrl'_def bufs_at_def)
    have "allocated w' = allocated w1" using r(6,7) by (simp add: allocated_def)
    then have "mset (allocated w') = mset (map xb_id bs) + gone w1" using bs(3) by simp
    also have "\<dots> = mset (map xb_id (drop (length taken) bs)) + gone w'"
      by (subst r(2)) (simp add: r(4) ac_simps)
    finally show ?thesis using q bs(2) unfolding rx_acct_def by (auto dest: in_set_dropD intro!: exI [of _ "drop (length taken) bs"])
  qed
  moreover have "n \<le> budget" by (auto simp: n_def)
  ultimately show ?thesis using call r(5) by blast
qed

section \<open>The guarantees\<close>

text \<open>A queue of eight descriptors with two buffers, and a packet of 100 bytes that the hardware has delivered.\<close>

definition example_xrx :: xctrl where
  "example_xrx = example_xtx\<lparr>x_type := NFB_XCTRL_RX, x_xdp_ring := [Some (empty_buff 11 0x1100), Some (empty_buff 12 0x2100)] @ replicate 6 None,
     x_mbp := 7, x_fbp := 2, x_hdrs := replicate 8 \<lparr>hdr_frame_len = 100, hdr_hdr_len = 0, hdr_meta = 0, hdr_free_desc = 0\<rparr>,
     x_c := (x_c example_xtx)\<lparr>nc_sdp := 3, nc_mhp := 7, nc_upd := (2, 1), nc_dir := False\<rparr>\<rparr>"

definition example_rworld :: rworld where
  "example_rworld = \<lparr>rw_alloc = (\<lambda>n. Some (11 + n, 0x1000 * of_nat (Suc n))), rw_allocs = 2, rw_prog = None, rw_conv = (\<lambda>_. True),
     rw_build = (\<lambda>_. True), rw_redirect = (\<lambda>_. 0), rw_xskmap = (\<lambda>_. True), rw_runs = 0, rw_returned = [], rw_stack = [],
     rw_redirected = [], rw_txed = [], rw_xskb_list = [], rw_tx = example_read, rw_x = snd example_sent\<rparr>"

lemma example_xrx_sel:
  "nc_sdp (x_c example_xrx) = 3" "nc_hdp (x_c example_xrx) = 0" "nc_mdp (x_c example_xrx) = 7" "nc_shp (x_c example_xrx) = 0"
  "nc_mhp (x_c example_xrx) = 7" "nc_upd (x_c example_xrx) = (2, 1)" "nc_updates (x_c example_xrx) = []" "x_mbp example_xrx = 7"
  "x_fbp example_xrx = 2" "x_pbp example_xrx = 0" "length (x_descs example_xrx) = 8" "length (x_xdp_ring example_xrx) = 8"
  "x_xdp_ring example_xrx ! 0 = Some (empty_buff 11 0x1100)" "x_xdp_ring example_xrx ! Suc 0 = Some (empty_buff 12 0x2100)"
  "hdr_frame_len (x_hdrs example_xrx ! 0) = 100"
  by (simp_all add: example_xrx_def example_xtx_def example_ctrl_def)

lemma example_queue: "rx_queue 3 example_xrx = map Some [empty_buff 11 0x1100, empty_buff 12 0x2100]"
proof -
  have "[0..<2] = [0, Suc 0]" by (simp add: numeral_2_eq_2)
  then show ?thesis by (simp add: rx_queue_def ring_view_def ring_dist_def example_xrx_sel example_mask)
qed

lemma example_rx_ok: "rx_ok 3 example_xrx"
  by (simp add: rx_ok_def example_xrx_sel example_mask)

lemma example_behind: "hw_behind 3 (nc_sdp (x_c example_xrx)) (x_c example_xrx)"
  by (simp add: hw_behind_def example_xrx_sel example_mask ring_dist_def)

lemma example_bufs: "bufs_at 3 example_xrx 0 [empty_buff 11 0x1100, empty_buff 12 0x2100]"
  using example_queue by (simp add: bufs_at_def example_xrx_sel example_mask rx_queue_def)

text \<open>C35.  A received packet is cut into the next buffers of the queue exactly as the hardware fills them: every
  buffer but the last is full, the lengths add up to the length in the header, none is longer than a buffer, the buffers are the
  ones at the front of the queue in their order, and the rest of the queue remains.  This is so for every length, zero
  included, if the buffers have room and the queue holds enough of them.
\<close>

theorem xdp_packet_cut:
  assumes "0 < mx" and "bufs_at k ctrl pbp bs" and "length (cut (unat mx) (unat len)) \<le> length bs"
  shows "\<exists>pbp' lens. rx_packet mx True ctrl len pbp = Inr (zip bs (map of_nat lens), pbp') \<and> sum_list lens = unat len \<and>
    (\<forall>l \<in> set (butlast lens). l = unat mx) \<and> (\<forall>l \<in> set lens. l \<le> unat mx) \<and> (len \<noteq> 0 \<longrightarrow> 0 \<notin> set lens) \<and>
    bufs_at k ctrl pbp' (drop (length lens) bs)"
proof -
  have "0 < unat mx" "len \<noteq> 0 \<Longrightarrow> 0 < unat len" using assms(1) by (simp_all add: word_less_nat_alt unat_gt_0)
  then show ?thesis
    using rx_packet_cut [OF assms] cut_sum [of "unat mx" "unat len"] cut_full [of _ "unat mx" "unat len"]
      cut_le [of "unat mx" _ "unat len"] cut_pos [of "unat mx" "unat len" 0] by blast
qed

theorem xdp_packet_cut_witness:
  "\<exists>pbp' lens. rx_packet 80 True example_xrx 100 0 = Inr (zip [empty_buff 11 0x1100, empty_buff 12 0x2100] (map of_nat lens), pbp') \<and>
    sum_list lens = 100"
proof -
  have "cut 80 100 = [80, 20]" by (subst cut.simps, subst cut.simps) simp
  then show ?thesis using xdp_packet_cut [OF _ example_bufs, of 80 100] by auto
qed

text \<open>The refill loop of both receive modes ends: \<open>while (fill(ctrl));\<close> stops after at most one turn for each
  slot of the ring of buffers, because every turn that is not the last adds a buffer, and it leaves a well-formed queue to
  which only new buffers were appended.
\<close>

theorem xdp_refill_ends:
  assumes "rx_ok k ctrl" and "hw_behind k (nc_sdp (x_c ctrl)) (x_c ctrl)"
  shows "(\<exists>ctrl' w' new. fill_all (\<lambda>c w. Inr (nfb_xctrl_rx_fill_pp len sg c w)) (2 ^ k + 1) ctrl w = Inr (ctrl', w') \<and>
      rx_ok k ctrl' \<and> rx_queue k ctrl' = rx_queue k ctrl @ map Some new) \<and>
    (\<exists>ctrl' w' new. fill_all (nfb_xctrl_rx_fill_xsk True flen sg) (2 ^ k + 1) ctrl w = Inr (ctrl', w') \<and>
      rx_ok k ctrl' \<and> rx_queue k ctrl' = rx_queue k ctrl @ map Some new)"
  using pp_fill.fill_all_ends [OF assms order_refl, of "2 ^ k + 1" len sg w]
    xsk_fill.fill_all_ends [OF assms order_refl, of "2 ^ k + 1" flen sg w]
  by (fastforce simp: fill_rel_def)

theorem xdp_refill_ends_witness:
  "\<exists>ctrl' w'. fill_all (\<lambda>c w. Inr (nfb_xctrl_rx_fill_pp 3520 True c w)) 9 example_xrx example_rworld = Inr (ctrl', w') \<and> rx_ok 3 ctrl'"
  using xdp_refill_ends [OF example_rx_ok example_behind, of 3520 True example_rworld 0] by auto

text \<open>Filling the receive ring from the page pool touches only free slots: the descriptors the hardware has
  not taken yet stay as they are, and the ones written behind them tell the hardware the address and the room of exactly
  the buffers that were appended to the queue, in the same order.
\<close>

theorem xdp_fill_descriptors:
  assumes "rx_ok k ctrl" and "hw_behind k (nc_sdp (x_c ctrl)) (x_c ctrl)"
    and "nfb_xctrl_rx_fill_pp len sg ctrl w = (n, ctrl', w')"
  shows "\<exists>new nds. rx_queue k ctrl' = rx_queue k ctrl @ map Some new \<and>
    rx_descs k ctrl' = drop (ring_dist k (nc_hdp (x_c ctrl)) (nc_hdp (x_c ctrl'))) (rx_descs k ctrl) @ nds \<and>
    hw_walk (nc_last_upper_addr (x_c ctrl)) nds = (nc_last_upper_addr (x_c ctrl'), map (\<lambda>b. (xb_dma b, ucast len)) new)"
  using fill_pp_step [OF assms(1,2) order_refl, of len sg w] assms(3) by (auto simp: fill_rel_def)

theorem xdp_fill_descriptors_witness:
  "\<exists>new. rx_queue 3 (fst (snd (nfb_xctrl_rx_fill_pp 3520 True example_xrx example_rworld))) = rx_queue 3 example_xrx @ map Some new"
proof -
  obtain n ctrl' w' where f: "nfb_xctrl_rx_fill_pp 3520 True example_xrx example_rworld = (n, ctrl', w')" using prod_cases3 by blast
  from xdp_fill_descriptors [OF example_rx_ok example_behind f] show ?thesis unfolding f by auto
qed

lemma tx_housekeeping_ok:
  assumes "xtx_run k g (rw_tx w) (rw_x w)" and "hw_consumed k (x_c (rw_tx w))"
  shows "\<exists>tx x. tx_housekeeping flush got_lock w = Inr (w\<lparr>rw_tx := tx, rw_x := x\<rparr>)"
proof (cases got_lock)
  case True
  define tx where "tx = (if flush then xtx_flush (rw_tx w) else rw_tx w)"
  have "xtx_inv k g tx (rw_x w)" using xtx_run_inv [OF assms(1)] by (simp add: tx_def)
  moreover have "hw_consumed k (x_c tx)"
    using assms(2) by (auto simp: tx_def xtx_flush_def hw_consumed_def Let_def nc_ndp_ctrl_sdp_flush_def nc_ndp_ctrl_hdp_update_def
        nc_upd_read_def split: list.splits)
  ultimately obtain tx' x' where "nfb_xctrl_tx_free_buffers False tx (rw_x w) = Inr (tx', x')" using xtx_inv_reclaim by blast
  then show ?thesis using True by (auto simp: tx_housekeeping_def tx_def)
next
  case False
  then show ?thesis by (intro exI [of _ "rw_tx w"] exI [of _ "rw_x w"]) (simp add: tx_housekeeping_def)
qed



text \<open>On kernels without a batch allocation of AF\_XDP buffers, filling the receive ring reads through a null
  pointer as soon as the pool runs dry: the replacement of \<open>xsk_buff_alloc_batch\<close> counts the failed allocation as a buffer.
  With the kernel's own batch allocation the same fill succeeds.
\<close>

theorem xdp_xsk_fallback_faults:
  assumes "rx_ok k ctrl" and "hw_behind k (nc_sdp (x_c ctrl)) (x_c ctrl)"
    and "\<not> snd (snd (fill_start ctrl))" and "rw_alloc w (rw_allocs w) = None"
  shows "nfb_xctrl_rx_fill_xsk False flen sg ctrl w = Inl XFault \<and>
    (\<exists>n ctrl' w'. nfb_xctrl_rx_fill_xsk True flen sg ctrl w = Inr (n, ctrl', w'))"
proof -
  obtain ctrl1 st enough where s: "fill_start ctrl = (ctrl1, st, enough)" using prod_cases3 by blast
  have "xsk_buff_alloc_batch False 64 w = ([None], w\<lparr>rw_allocs := Suc (rw_allocs w)\<rparr>)"
    using assms(4) by (simp add: numeral_eq_Suc rw_take_def)
  then have "nfb_xctrl_rx_fill_xsk False flen sg ctrl w = Inl XFault"
    using s assms(3) by (simp add: nfb_xctrl_rx_fill_xsk_def)
  then show ?thesis using fill_xsk_step [OF assms(1,2) order_refl, of flen sg w] by blast
qed

definition example_xrx7 :: xctrl where
  "example_xrx7 = example_xrx\<lparr>x_xdp_ring := replicate 128 None, x_descs := replicate 128 0, x_mbp := 127, x_fbp := 0,
     x_c := (x_c example_xrx)\<lparr>nc_mdp := 127, nc_sdp := 0, nc_upd := (0, 0)\<rparr>\<rparr>"

theorem xdp_xsk_fallback_faults_witness:
  "nfb_xctrl_rx_fill_xsk False 2048 True example_xrx7 (example_rworld\<lparr>rw_alloc := \<lambda>_. None\<rparr>) = Inl XFault"
proof -
  have m: "mask 7 = (127 :: u32)" by (simp add: mask_eq_exp_minus_1)
  have sel: "x_pbp example_xrx7 = 0" "x_fbp example_xrx7 = 0" "x_mbp example_xrx7 = 127" "nc_hdp (x_c example_xrx7) = 0"
    "nc_sdp (x_c example_xrx7) = 0" "nc_mdp (x_c example_xrx7) = 127" "nc_upd (x_c example_xrx7) = (0, 0)"
    "nc_updates (x_c example_xrx7) = []" "length (x_xdp_ring example_xrx7) = 128" "length (x_descs example_xrx7) = 128"
    by (simp_all add: example_xrx7_def example_xrx_sel)
  have ok: "rx_ok 7 example_xrx7" and hw: "hw_behind 7 (nc_sdp (x_c example_xrx7)) (x_c example_xrx7)"
    by (simp_all add: rx_ok_def hw_behind_def sel m)
  have "\<not> snd (snd (fill_start example_xrx7))"
    by (simp add: fill_start_def Let_def nc_ndp_ctrl_hdp_update_def nc_upd_read_def sel)
  from xdp_xsk_fallback_faults [OF ok hw this] show ?thesis by simp
qed

end
