(* ===== verification/XdpChannel.thy ===== *)
theory XdpChannel
  imports XdpPoll
begin

text \<open>
  The life of an XDP channel, \<open>drivers/kernel/drivers/nfb/xdp/channel.c\<close>, with the allocation, start, stop and release of its
  two controllers in \<open>ctrl_xdp_pp.c\<close>, \<open>ctrl_xdp_xsk.c\<close> and \<open>ctrl_xdp_common.c\<close>, and the switch between page-pool and
  AF\_XDP operation.

  The kernel's allocators and registrations are a parameter: \<open>aw_ok\<close> says whether the n-th request succeeds.
  \<open>aw_live\<close> are the objects that are allocated or registered, \<open>aw_bad\<close> counts releases of something that is not, and
  \<open>aw_wild\<close> releases through an uninitialised pointer.
\<close>

section \<open>Kernel objects\<close>

datatype akind = ACtrl | ARing | ABuffs | ATxBuffers | ADesc | AUpdate | AHdr | APool | ARxq | AMemModel | AThread | ATask | ANapi | ANapiOn | APoolMap

type_synonym aobj = "nat \<times> xdp_ctrl_type \<times> akind"

record awld =
  aw_ok :: "nat \<Rightarrow> bool"
  aw_calls :: nat
  aw_live :: "aobj list"
  aw_bad :: nat
  aw_wild :: nat

definition aw_get :: "aobj \<Rightarrow> awld \<Rightarrow> awld" where
  "aw_get ob w = w\<lparr>aw_live := ob # aw_live w\<rparr>"

definition aw_try :: "aobj \<Rightarrow> awld \<Rightarrow> bool \<times> awld" where
  "aw_try ob w =
     (let w1 = w\<lparr>aw_calls := Suc (aw_calls w)\<rparr>
      in if aw_ok w (aw_calls w) then (True, aw_get ob w1) else (False, w1))"

definition aw_put :: "aobj \<Rightarrow> awld \<Rightarrow> awld" where
  "aw_put ob w = (if ob \<in> set (aw_live w) then w\<lparr>aw_live := remove1 ob (aw_live w)\<rparr> else w\<lparr>aw_bad := Suc (aw_bad w)\<rparr>)"

definition aw_kfree_wild :: "awld \<Rightarrow> awld" where
  "aw_kfree_wild w = w\<lparr>aw_wild := Suc (aw_wild w)\<rparr>"

section \<open>Allocating a controller\<close>

text \<open>
  \<open>found\<close> is whether the component is in the device tree, \<open>opened\<close> the result of \<open>nc_ndp_ctrl_open\<close>.  The new structure is
  zeroed, the rings have one slot for each descriptor.
\<close>

definition new_xctrl :: "xdp_ctrl_type \<Rightarrow> u32 \<Rightarrow> nc_ndp_ctrl \<Rightarrow> xctrl" where
  "new_xctrl ty nb c = \<lparr>x_type = ty,
     x_buffers = replicate (if ty = NFB_XCTRL_TX then unat nb else 0)
       \<lparr>tb_type = NFB_XCTRL_BUFF_DESC_TYPE0, tb_ptr = None, tb_dma = 0, tb_len = 0\<rparr>,
     x_completed_xsk_tx = 0, x_xdp_ring = replicate (if ty = NFB_XCTRL_RX then unat nb else 0) None,
     x_mbp = (if ty = NFB_XCTRL_RX then nb - 1 else 0), x_pbp = 0, x_fbp = 0, x_nb_hdr = (if ty = NFB_XCTRL_RX then nb else 0),
     x_hdrs = replicate (if ty = NFB_XCTRL_RX then unat nb else 0) \<lparr>hdr_frame_len = 0, hdr_hdr_len = 0, hdr_meta = 0, hdr_free_desc = 0\<rparr>,
     x_nb_desc = nb, x_descs = replicate (unat nb) 0, x_running = False, x_c = c\<rparr>"

text \<open>AF\_XDP: the ring has two descriptors for each buffer of the pool.  The labels of the error path are functions.\<close>

definition nfb_xctrl_alloc_xsk :: "nat \<Rightarrow> xdp_ctrl_type \<Rightarrow> u32 \<Rightarrow> bool \<Rightarrow> int \<times> nc_ndp_ctrl \<Rightarrow> awld \<Rightarrow> xctrl option \<times> awld" where
  "nfb_xctrl_alloc_xsk q ty heads_cnt found opened w =
     (let rx = (ty = NFB_XCTRL_RX);
          buf = (q, ty, if rx then ARing else ATxBuffers);
          buff_alloc_fail = aw_put (q, ty, ACtrl);
          dma_data_fail = (\<lambda>w. buff_alloc_fail (aw_put buf w));
          dma_update_fail = (\<lambda>w. dma_data_fail (aw_put (q, ty, ADesc) w));
          dma_hdr_fail = (\<lambda>w. dma_update_fail (aw_put (q, ty, AUpdate) w));
          meminfo_reg_fail = (\<lambda>w. dma_hdr_fail (if rx then aw_put (q, ty, AHdr) w else w));
          meminfo_model_fail = (\<lambda>w. meminfo_reg_fail (if rx then aw_put (q, ty, ARxq) w else w));
          ndp_ctrl_open_fail = (\<lambda>w. meminfo_model_fail (if rx then aw_put (q, ty, AMemModel) w else w))
      in if \<not> found then (None, w)
      else case aw_try (q, ty, ACtrl) w of (ok, w1) \<Rightarrow> if \<not> ok then (None, w1)
      else case aw_try buf w1 of (ok, w2) \<Rightarrow> if \<not> ok then (None, buff_alloc_fail w2)
      else case aw_try (q, ty, ADesc) w2 of (ok, w3) \<Rightarrow> if \<not> ok then (None, dma_data_fail w3)
      else case aw_try (q, ty, AUpdate) w3 of (ok, w4) \<Rightarrow> if \<not> ok then (None, dma_update_fail w4)
      else case (if rx then aw_try (q, ty, AHdr) w4 else (True, w4)) of (ok, w5) \<Rightarrow> if \<not> ok then (None, dma_hdr_fail w5)
      else case (if rx then aw_try (q, ty, ARxq) w5 else (True, w5)) of (ok, w6) \<Rightarrow> if \<not> ok then (None, meminfo_reg_fail w6)
      else case (if rx then aw_try (q, ty, AMemModel) w6 else (True, w6)) of (ok, w7) \<Rightarrow> if \<not> ok then (None, meminfo_model_fail w7)
      else if fst opened \<noteq> 0 then (None, ndp_ctrl_open_fail w7)
      else (Some (new_xctrl ty (heads_cnt * 2) (snd opened)), w7))"

text \<open>
  Page pool.  The registration of the memory model takes a reference to the pool on some kernels, and its
  removal drops one; \<open>refs\<close> says whether it does.  \<open>buffs\<close> is set for a receive controller only, and freed for both.
\<close>

definition reg_mem_model :: "bool \<Rightarrow> nat \<Rightarrow> xdp_ctrl_type \<Rightarrow> awld \<Rightarrow> bool \<times> awld" where
  "reg_mem_model refs q ty w =
     (case aw_try (q, ty, AMemModel) w of (ok, w1) \<Rightarrow> (ok, if ok \<and> refs then aw_get (q, ty, APool) w1 else w1))"

text \<open>Removing the memory model calls \<open>page_pool_destroy\<close>.\<close>

definition unreg_mem_model :: "nat \<Rightarrow> xdp_ctrl_type \<Rightarrow> awld \<Rightarrow> awld" where
  "unreg_mem_model q ty w = aw_put (q, ty, APool) (aw_put (q, ty, AMemModel) w)"

definition nfb_xctrl_alloc_pp :: "bool \<Rightarrow> nat \<Rightarrow> u32 \<Rightarrow> xdp_ctrl_type \<Rightarrow> bool \<Rightarrow> int \<times> nc_ndp_ctrl \<Rightarrow> awld \<Rightarrow> xctrl option \<times> awld" where
  "nfb_xctrl_alloc_pp refs q desc_cnt ty found opened w =
     (let rx = (ty = NFB_XCTRL_RX);
          buff_alloc_fail = aw_put (q, ty, ACtrl);
          buffs_alloc_fail = (\<lambda>w. buff_alloc_fail (aw_put (q, ty, if rx then ARing else ATxBuffers) w));
          dma_data_fail = (\<lambda>w. buffs_alloc_fail (if rx then aw_put (q, ty, ABuffs) w else aw_kfree_wild w));
          dma_update_fail = (\<lambda>w. dma_data_fail (aw_put (q, ty, ADesc) w));
          dma_hdr_fail = (\<lambda>w. dma_update_fail (aw_put (q, ty, AUpdate) w));
          pp_alloc_fail = (\<lambda>w. dma_hdr_fail (if rx then aw_put (q, ty, AHdr) w else w));
          meminfo_reg_fail = (\<lambda>w. pp_alloc_fail (if rx then aw_put (q, ty, APool) w else w));
          meminfo_model_fail = (\<lambda>w. meminfo_reg_fail (if rx then aw_put (q, ty, ARxq) w else w));
          ndp_ctrl_open_fail = (\<lambda>w. meminfo_model_fail (if rx then unreg_mem_model q ty w else w))
      in if \<not> found then (None, w)
      else case aw_try (q, ty, ACtrl) w of (ok, w1) \<Rightarrow> if \<not> ok then (None, w1)
      else case aw_try (q, ty, if rx then ARing else ATxBuffers) w1 of (ok, w2) \<Rightarrow> if \<not> ok then (None, buff_alloc_fail w2)
      else case (if rx then aw_try (q, ty, ABuffs) w2 else (True, w2)) of (ok, w3) \<Rightarrow> if \<not> ok then (None, buffs_alloc_fail w3)
      else case aw_try (q, ty, ADesc) w3 of (ok, w4) \<Rightarrow> if \<not> ok then (None, dma_data_fail w4)
      else case aw_try (q, ty, AUpdate) w4 of (ok, w5) \<Rightarrow> if \<not> ok then (None, dma_update_fail w5)
      else case (if rx then aw_try (q, ty, AHdr) w5 else (True, w5)) of (ok, w6) \<Rightarrow> if \<not> ok then (None, dma_hdr_fail w6)
      else case (if rx then aw_try (q, ty, APool) w6 else (True, w6)) of (ok, w7) \<Rightarrow> if \<not> ok then (None, pp_alloc_fail w7)
      else case (if rx then aw_try (q, ty, ARxq) w7 else (True, w7)) of (ok, w8) \<Rightarrow> if \<not> ok then (None, meminfo_reg_fail w8)
      else case (if rx then reg_mem_model refs q ty w8 else (True, w8)) of (ok, w9) \<Rightarrow> if \<not> ok then (None, meminfo_model_fail w9)
      else if fst opened \<noteq> 0 then (None, ndp_ctrl_open_fail w9)
      else (Some (new_xctrl ty desc_cnt (snd opened)), w9))"

section \<open>Starting and stopping\<close>

definition nfb_xctrl_start :: "u64 \<Rightarrow> u64 \<Rightarrow> u64 \<Rightarrow> xctrl \<Rightarrow> int \<times> xctrl" where
  "nfb_xctrl_start desc_dma update_dma hdr_dma ctrl =
     (let rx = (x_type ctrl = NFB_XCTRL_RX);
          sp = \<lparr>sp_desc_buffer = desc_dma, sp_data_buffer = 0, sp_hdr_buffer = if rx then hdr_dma else 0, sp_update_buffer = update_dma,
                sp_nb_data = 0, sp_nb_desc = x_nb_desc ctrl, sp_nb_hdr = if rx then x_nb_hdr ctrl else 0, sp_timeout = 0\<rparr>
      in case nc_ndp_ctrl_start (x_c ctrl) sp of (ret, c) \<Rightarrow>
        (ret, ctrl\<lparr>x_c := c, x_running := x_running ctrl \<or> ret = 0\<rparr>))"

text \<open>
  The buffers of the packets that arrived while the controller was stopping: the ones at the header
  pointer are given back.
\<close>

primrec stop_drain :: "nat \<Rightarrow> u32 \<Rightarrow> xctrl \<Rightarrow> nat list" where
  "stop_drain 0 shp ctrl = []"
| "stop_drain (Suc n) shp ctrl =
     (case ring_buff ctrl shp of None \<Rightarrow> [] | Some b \<Rightarrow> [xb_id b]) @ stop_drain n ((shp + 1) AND nc_mhp (x_c ctrl)) ctrl"

definition stop_receive :: "u32 \<Rightarrow> xctrl \<Rightarrow> u32 \<times> nat list \<times> xctrl" where
  "stop_receive shp ctrl =
     (let c = nc_ndp_ctrl_hhp_update (x_c ctrl);
          cnt = (nc_hhp c - shp) AND nc_mhp c;
          shp1 = (if cnt = 0 then shp else (shp + cnt) AND nc_mhp c)
      in (shp1, stop_drain (unat cnt) shp (ctrl\<lparr>x_c := c\<rparr>), ctrl\<lparr>x_c := nc_ndp_ctrl_sp_flush (c\<lparr>nc_shp := shp1\<rparr>)\<rparr>))"

definition retry :: "int \<Rightarrow> bool" where
  "retry err \<longleftrightarrow> err = - EAGAIN \<or> err = - EINPROGRESS"

text \<open>
  The two stop loops.  \<open>turns\<close> is how often the body runs: the counter is not initialised, so that nothing is known
  of it but that the body runs at least once; \<open>err\<close> is not initialised either in page-pool mode.
\<close>

primrec stop_xsk_loop :: "nat \<Rightarrow> u32 \<Rightarrow> int \<Rightarrow> xctrl \<Rightarrow> nat list \<Rightarrow> int \<times> xctrl \<times> nat list" where
  "stop_xsk_loop 0 shp err ctrl freed = (err, ctrl, freed)"
| "stop_xsk_loop (Suc n) shp err ctrl freed =
     (case nc_ndp_ctrl_stop (x_c ctrl) of (err1, c) \<Rightarrow>
      let ctrl1 = ctrl\<lparr>x_c := c\<rparr>
      in if \<not> retry err1 then (err1, ctrl1, freed)
      else case stop_receive shp ctrl1 of (shp1, ids, ctrl2) \<Rightarrow> stop_xsk_loop n shp1 err1 ctrl2 (ids @ freed))"

definition nfb_xctrl_stop_xsk :: "nat \<Rightarrow> xctrl \<Rightarrow> xctrl \<times> nat list" where
  "nfb_xctrl_stop_xsk turns ctrl =
     (case stop_xsk_loop (Suc turns) (nc_shp (x_c ctrl)) 0 ctrl [] of (err, ctrl1, freed) \<Rightarrow>
      if err \<noteq> 0 then (ctrl1\<lparr>x_c := snd (nc_ndp_ctrl_stop_force (x_c ctrl1))\<rparr>, freed) else (ctrl1, freed))"

primrec stop_pp_loop :: "nat \<Rightarrow> u32 \<Rightarrow> int \<Rightarrow> xctrl \<Rightarrow> nat list \<Rightarrow> int \<times> xctrl \<times> nat list" where
  "stop_pp_loop 0 shp err ctrl freed = (err, ctrl, freed)"
| "stop_pp_loop (Suc n) shp err ctrl freed =
     (case nfb_comp_read32 (nc_comp (x_c ctrl)) NDP_CTRL_REG_STATUS of (status, cp) \<Rightarrow>
      let ctrl0 = ctrl\<lparr>x_c := (x_c ctrl)\<lparr>nc_comp := cp\<rparr>\<rparr>
      in if status AND NDP_CTRL_REG_STATUS_RUNNING = 0 then stop_pp_loop n shp err ctrl0 freed
      else case nc_ndp_ctrl_stop (x_c ctrl0) of (err1, c) \<Rightarrow>
        let ctrl1 = ctrl0\<lparr>x_c := c\<rparr>
        in if \<not> retry err1 then (err1, ctrl1, freed)
        else if x_type ctrl \<noteq> NFB_XCTRL_RX then stop_pp_loop n shp err1 ctrl1 freed
        else case stop_receive shp ctrl1 of (shp1, ids, ctrl2) \<Rightarrow>
          case nc_ndp_ctrl_stop (x_c ctrl2) of (err2, c2) \<Rightarrow>
            let ctrl3 = ctrl2\<lparr>x_c := c2\<rparr>
            in if \<not> retry err2 then (err2, ctrl3, ids @ freed) else stop_pp_loop n shp1 err2 ctrl3 (ids @ freed))"

definition nfb_xctrl_stop_pp :: "nat \<Rightarrow> int \<Rightarrow> xctrl \<Rightarrow> xctrl \<times> nat list" where
  "nfb_xctrl_stop_pp turns err0 ctrl =
     (case stop_pp_loop (Suc turns) (nc_shp (x_c ctrl)) err0 ctrl [] of (err, ctrl1, freed) \<Rightarrow>
      if err \<noteq> 0 then (ctrl1\<lparr>x_c := snd (nc_ndp_ctrl_stop_force (x_c ctrl1))\<rparr>, freed) else (ctrl1, freed))"

section \<open>Releasing a controller\<close>

text \<open>The consumer pointer is set to the software pointer before the transmit buffers are freed.  \<open>xworld\<close> records what
happens to transmitted frames; the receive buffers that a stop gives back are in its result.\<close>

definition destroy_tx_buffers :: "xctrl \<Rightarrow> xworld \<Rightarrow> xstop + xctrl \<times> xworld" where
  "destroy_tx_buffers ctrl x = nfb_xctrl_tx_free_buffers True (ctrl\<lparr>x_c := (x_c ctrl)\<lparr>nc_hdp := nc_sdp (x_c ctrl)\<rparr>\<rparr>) x"

definition nfb_xctrl_destroy_xsk :: "nat \<Rightarrow> nat \<Rightarrow> xctrl \<Rightarrow> xworld \<Rightarrow> awld \<Rightarrow> xstop + xworld \<times> awld" where
  "nfb_xctrl_destroy_xsk q turns ctrl x w =
     (let ty = x_type ctrl;
          ctrl1 = (if x_running ctrl then fst (nfb_xctrl_stop_xsk turns ctrl) else ctrl);
          w1 = aw_put (q, ty, AUpdate) (aw_put (q, ty, ADesc) w)
      in case ty of
        NFB_XCTRL_RX \<Rightarrow>
          Inr (x, aw_put (q, ty, ACtrl) (aw_put (q, ty, ARing) (aw_put (q, ty, ARxq) (aw_put (q, ty, AMemModel) (aw_put (q, ty, AHdr) w1)))))
      | NFB_XCTRL_TX \<Rightarrow>
          (case destroy_tx_buffers ctrl1 x of
             Inl e \<Rightarrow> Inl e
           | Inr (_, x1) \<Rightarrow> Inr (x1, aw_put (q, ty, ACtrl) (aw_put (q, ty, ATxBuffers) w1))))"

definition nfb_xctrl_destroy_pp :: "nat \<Rightarrow> nat \<Rightarrow> int \<Rightarrow> xctrl \<Rightarrow> xworld \<Rightarrow> awld \<Rightarrow> xstop + xworld \<times> awld" where
  "nfb_xctrl_destroy_pp q turns err0 ctrl x w =
     (let ty = x_type ctrl;
          ctrl1 = (if x_running ctrl then fst (nfb_xctrl_stop_pp turns err0 ctrl) else ctrl);
          w1 = aw_put (q, ty, AUpdate) (aw_put (q, ty, ADesc) w)
      in case ty of
        NFB_XCTRL_RX \<Rightarrow>
          Inr (x, aw_put (q, ty, ACtrl) (aw_put (q, ty, ARing) (aw_put (q, ty, ABuffs) (aw_put (q, ty, ARxq)
                    (unreg_mem_model q ty (aw_put (q, ty, AHdr) w1))))))
      | NFB_XCTRL_TX \<Rightarrow>
          (case destroy_tx_buffers ctrl1 x of
             Inl e \<Rightarrow> Inl e
           | Inr (_, x1) \<Rightarrow> Inr (x1, aw_put (q, ty, ACtrl) (aw_put (q, ty, ATxBuffers) w1))))"

section \<open>Channels\<close>

text \<open>
  The pointers to the controllers are not reset when the controllers are released.  \<open>xenv\<close> holds what a start
  finds: the device tree, the opened controllers, the addresses of the control buffers, and the uninitialised values of the
  stop loops.
\<close>

record xchan =
  xc_running :: bool
  xc_xsk :: bool
  xc_rx :: "xctrl option"
  xc_tx :: "xctrl option"
  xc_pool :: "nat option"

record xenv =
  xe_refs :: bool
  xe_found :: "xdp_ctrl_type \<Rightarrow> bool"
  xe_open :: "xdp_ctrl_type \<Rightarrow> int \<times> nc_ndp_ctrl"
  xe_heads :: u32
  xe_dma :: "xdp_ctrl_type \<Rightarrow> u64 \<times> u64 \<times> u64"
  xe_turns :: nat
  xe_err0 :: int

abbreviation (input) NFB_XDP_DESC_CNT :: u32 where "NFB_XDP_DESC_CNT \<equiv> 8192"

definition xstart :: "xenv \<Rightarrow> xctrl \<Rightarrow> int \<times> xctrl" where
  "xstart env ctrl = (case xe_dma env (x_type ctrl) of (d, u, h) \<Rightarrow> nfb_xctrl_start d u h ctrl)"

definition channel_create_threads :: "nat \<Rightarrow> bool \<Rightarrow> awld \<Rightarrow> int \<times> awld" where
  "channel_create_threads q xsk w =
     (case aw_try (q, NFB_XCTRL_RX, AThread) w of (ok, w1) \<Rightarrow>
      if \<not> ok then (- ENOMEM, w1)
      else
        let w2 = aw_get (q, NFB_XCTRL_RX, ANapiOn) (aw_get (q, NFB_XCTRL_RX, ATask) w1)
        in case aw_try (q, NFB_XCTRL_TX, AThread) w2 of (ok, w3) \<Rightarrow>
        if \<not> ok then
          (- ENOMEM, aw_put (q, NFB_XCTRL_RX, ANapiOn) (aw_put (q, NFB_XCTRL_RX, ATask) (aw_put (q, NFB_XCTRL_RX, AThread) w3)))
        else
          let w4 = aw_get (q, NFB_XCTRL_TX, ATask) w3
          in (0, if xsk then aw_get (q, NFB_XCTRL_TX, ANapiOn) w4 else w4))"

type_synonym chan_result = "xstop + int \<times> xchan \<times> xworld \<times> awld"

text \<open>\<open>err_start\<close>: both controllers are released, the transmit one first.\<close>

definition err_start_pp :: "nat \<Rightarrow> xenv \<Rightarrow> xctrl \<Rightarrow> xctrl \<Rightarrow> xworld \<Rightarrow> awld \<Rightarrow> xstop + xworld \<times> awld" where
  "err_start_pp q env rx tx x w =
     (case nfb_xctrl_destroy_pp q (xe_turns env) (xe_err0 env) tx x w of
        Inl e \<Rightarrow> Inl e
      | Inr (x1, w1) \<Rightarrow> nfb_xctrl_destroy_pp q (xe_turns env) (xe_err0 env) rx x1 w1)"

definition err_start_xsk :: "nat \<Rightarrow> xenv \<Rightarrow> xctrl \<Rightarrow> xctrl \<Rightarrow> xworld \<Rightarrow> awld \<Rightarrow> xstop + xworld \<times> awld" where
  "err_start_xsk q env rx tx x w =
     (case nfb_xctrl_destroy_xsk q (xe_turns env) tx x w of
        Inl e \<Rightarrow> Inl e
      | Inr (x1, w1) \<Rightarrow> nfb_xctrl_destroy_xsk q (xe_turns env) rx x1 w1)"

text \<open>\<open>fin\<close> ends a failed start: the \<open>napi\<close> structures are removed and the error is returned.\<close>

definition start_failed :: "(awld \<Rightarrow> awld) \<Rightarrow> int \<Rightarrow> xchan \<Rightarrow> xstop + xworld \<times> awld \<Rightarrow> chan_result" where
  "start_failed fin ret ch r = (case r of Inl e \<Rightarrow> Inl e | Inr (x, w) \<Rightarrow> Inr (ret, ch, x, fin w))"

definition channel_start_pp :: "nat \<Rightarrow> xenv \<Rightarrow> xchan \<Rightarrow> xworld \<Rightarrow> awld \<Rightarrow> chan_result" where
  "channel_start_pp q env ch x w =
     (if xc_running ch then Inr (- EBUSY, ch, x, w)
      else
        let w0 = aw_get (q, NFB_XCTRL_RX, ANapi) w;
            fin = aw_put (q, NFB_XCTRL_RX, ANapi);
            alloc = (\<lambda>ty. nfb_xctrl_alloc_pp (xe_refs env) q NFB_XDP_DESC_CNT ty (xe_found env ty) (xe_open env ty))
        in case alloc NFB_XCTRL_RX w0 of
          (None, w1) \<Rightarrow> Inr (- ENOMEM, ch\<lparr>xc_rx := None\<rparr>, x, fin w1)
        | (Some rx, w1) \<Rightarrow>
          (case alloc NFB_XCTRL_TX w1 of
             (None, w2) \<Rightarrow>
               start_failed fin (- ENOMEM) (ch\<lparr>xc_rx := Some rx, xc_tx := None\<rparr>)
                 (nfb_xctrl_destroy_pp q (xe_turns env) (xe_err0 env) rx x w2)
           | (Some tx, w2) \<Rightarrow>
             case xstart env rx of (ret, rx1) \<Rightarrow>
             if ret \<noteq> 0 then
               start_failed fin ret (ch\<lparr>xc_rx := Some rx1, xc_tx := Some tx\<rparr>) (err_start_pp q env rx1 tx x w2)
             else case xstart env tx of (ret, tx1) \<Rightarrow>
             if ret \<noteq> 0 then
               start_failed fin ret (ch\<lparr>xc_rx := Some rx1, xc_tx := Some tx1\<rparr>) (err_start_pp q env rx1 tx1 x w2)
             else
               let ch1 = ch\<lparr>xc_rx := Some rx1, xc_tx := Some tx1, xc_xsk := False\<rparr>
               in case channel_create_threads q False w2 of (ret, w3) \<Rightarrow>
               if ret \<noteq> 0 then start_failed fin ret ch1 (err_start_pp q env rx1 tx1 x w3)
               else Inr (0, ch1\<lparr>xc_running := True\<rparr>, x, w3)))"

definition channel_start_xsk :: "nat \<Rightarrow> xenv \<Rightarrow> xchan \<Rightarrow> xworld \<Rightarrow> awld \<Rightarrow> chan_result" where
  "channel_start_xsk q env ch x w =
     (if xc_running ch then Inr (- EBUSY, ch, x, w)
      else
        let w0 = aw_get (q, NFB_XCTRL_TX, ANapi) (aw_get (q, NFB_XCTRL_RX, ANapi) w);
            fin = (\<lambda>w. aw_put (q, NFB_XCTRL_TX, ANapi) (aw_put (q, NFB_XCTRL_RX, ANapi) w));
            alloc = (\<lambda>ty. nfb_xctrl_alloc_xsk q ty (xe_heads env) (xe_found env ty) (xe_open env ty))
        in case alloc NFB_XCTRL_RX w0 of
          (None, w1) \<Rightarrow> Inr (- ENOMEM, ch\<lparr>xc_rx := None\<rparr>, x, fin w1)
        | (Some rx, w1) \<Rightarrow>
          (case alloc NFB_XCTRL_TX w1 of
             (None, w2) \<Rightarrow>
               start_failed fin (- ENOMEM) (ch\<lparr>xc_rx := Some rx, xc_tx := None\<rparr>) (nfb_xctrl_destroy_xsk q (xe_turns env) rx x w2)
           | (Some tx, w2) \<Rightarrow>
             case xstart env rx of (ret, rx1) \<Rightarrow>
             if ret \<noteq> 0 then
               start_failed fin ret (ch\<lparr>xc_rx := Some rx1, xc_tx := Some tx\<rparr>) (err_start_xsk q env rx1 tx x w2)
             else case xstart env tx of (ret, tx1) \<Rightarrow>
             if ret \<noteq> 0 then
               start_failed fin ret (ch\<lparr>xc_rx := Some rx1, xc_tx := Some tx1\<rparr>) (err_start_xsk q env rx1 tx1 x w2)
             else
               let ch1 = ch\<lparr>xc_rx := Some rx1, xc_tx := Some tx1, xc_xsk := True\<rparr>
               in case channel_create_threads q True w2 of (ret, w3) \<Rightarrow>
               if ret \<noteq> 0 then start_failed fin ret ch1 (err_start_xsk q env rx1 tx1 x w3)
               else Inr (0, ch1\<lparr>xc_running := True\<rparr>, x, w3)))"

text \<open>A running channel has both threads and both controllers; a null controller would be read through.\<close>

definition channel_stop :: "nat \<Rightarrow> xenv \<Rightarrow> xchan \<Rightarrow> xworld \<Rightarrow> awld \<Rightarrow> chan_result" where
  "channel_stop q env ch x w =
     (if \<not> xc_running ch then Inr (- EINVAL, ch, x, w)
      else
        let w1 = aw_put (q, NFB_XCTRL_RX, ANapi) (aw_put (q, NFB_XCTRL_RX, ANapiOn)
                   (aw_put (q, NFB_XCTRL_RX, ATask) (aw_put (q, NFB_XCTRL_RX, AThread) w)));
            w2 = aw_put (q, NFB_XCTRL_TX, ATask) (aw_put (q, NFB_XCTRL_TX, AThread) w1);
            w3 = (if xc_xsk ch then aw_put (q, NFB_XCTRL_TX, ANapi) (aw_put (q, NFB_XCTRL_TX, ANapiOn) w2) else w2);
            destroy = (\<lambda>c. if xc_xsk ch then nfb_xctrl_destroy_xsk q (xe_turns env) c
                           else nfb_xctrl_destroy_pp q (xe_turns env) (xe_err0 env) c)
        in case (xc_rx ch, xc_tx ch) of
          (Some rx, Some tx) \<Rightarrow>
            (case destroy rx x w3 of
               Inl e \<Rightarrow> Inl e
             | Inr (x1, w4) \<Rightarrow>
               (case destroy tx x1 w4 of
                  Inl e \<Rightarrow> Inl e
                | Inr (x2, w5) \<Rightarrow> Inr (0, ch\<lparr>xc_running := False\<rparr>, x2, w5)))
        | _ \<Rightarrow> Inl XFault)"

section \<open>Switching between the modes\<close>

definition pool_obj :: "nat \<Rightarrow> aobj" where "pool_obj p = (p, NFB_XCTRL_RX, APoolMap)"

definition nfb_setup_xsk_pool :: "nat \<Rightarrow> xenv \<Rightarrow> nat \<Rightarrow> xchan \<Rightarrow> xworld \<Rightarrow> awld \<Rightarrow> chan_result" where
  "nfb_setup_xsk_pool q env pool ch x w =
     (case aw_try (pool_obj pool) w of (ok, w1) \<Rightarrow>
      if \<not> ok then Inr (- ENOMEM, ch, x, w1)
      else case channel_stop q env ch x w1 of
        Inl e \<Rightarrow> Inl e
      | Inr (_, ch1, x1, w2) \<Rightarrow>
        (case channel_start_xsk q env (ch1\<lparr>xc_pool := Some pool\<rparr>) x1 w2 of
           Inl e \<Rightarrow> Inl e
         | Inr (ret, ch2, x2, w3) \<Rightarrow> Inr (ret, ch2, x2, if ret \<noteq> 0 then aw_put (pool_obj pool) w3 else w3)))"

text \<open>The pool is unmapped if there is none.\<close>

definition nfb_teardown_xsk_pool :: "nat \<Rightarrow> xenv \<Rightarrow> xchan \<Rightarrow> xworld \<Rightarrow> awld \<Rightarrow> chan_result" where
  "nfb_teardown_xsk_pool q env ch x w =
     (case channel_stop q env ch x w of
        Inl e \<Rightarrow> Inl e
      | Inr (_, ch1, x1, w1) \<Rightarrow>
        (case channel_start_pp q env ch1 x1 w1 of
           Inl e \<Rightarrow> Inl e
         | Inr (ret, ch2, x2, w2) \<Rightarrow>
           let old_pool = xc_pool ch2
           in if old_pool = None then Inl XFault else Inr (ret, ch2\<lparr>xc_pool := None\<rparr>, x2, w2)))"

datatype xdp_command = XDP_SETUP_PROG "nat option" | XDP_SETUP_XSK_POOL "nat option" | XDP_UNKNOWN

text \<open>The attached program of the device: a replaced one is given back.\<close>

definition nfb_xdp_setup_prog :: "nat option \<Rightarrow> nat option \<times> nat list \<Rightarrow> nat option \<times> nat list" where
  "nfb_xdp_setup_prog prog = (\<lambda>(old_prog, put). (prog, case old_prog of None \<Rightarrow> put | Some p \<Rightarrow> p # put))"

definition nfb_xdp ::
  "nat \<Rightarrow> xenv \<Rightarrow> xdp_command \<Rightarrow> nat option \<times> nat list \<Rightarrow> xchan \<Rightarrow> xworld \<Rightarrow> awld \<Rightarrow> (nat option \<times> nat list) \<times> chan_result" where
  "nfb_xdp q env cmd progs ch x w =
     (case cmd of
        XDP_SETUP_PROG prog \<Rightarrow> (nfb_xdp_setup_prog prog progs, Inr (0, ch, x, w))
      | XDP_SETUP_XSK_POOL (Some pool) \<Rightarrow> (progs, nfb_setup_xsk_pool q env pool ch x w)
      | XDP_SETUP_XSK_POOL None \<Rightarrow> (progs, nfb_teardown_xsk_pool q env ch x w)
      | XDP_UNKNOWN \<Rightarrow> (progs, Inr (- EINVAL, ch, x, w)))"

section \<open>What is allocated is released\<close>

text \<open>What an allocated controller owns.\<close>

definition xsk_objs :: "nat \<Rightarrow> xdp_ctrl_type \<Rightarrow> aobj list" where
  "xsk_objs q ty = map (\<lambda>kd. (q, ty, kd)) (if ty = NFB_XCTRL_RX then [ACtrl, ARing, ADesc, AUpdate, AHdr, ARxq, AMemModel]
     else [ACtrl, ATxBuffers, ADesc, AUpdate])"

definition same_faults :: "awld \<Rightarrow> awld \<Rightarrow> bool" where
  "same_faults w w' \<longleftrightarrow> aw_bad w' = aw_bad w \<and> aw_wild w' = aw_wild w"

lemma same_faults_trans: "same_faults a b \<Longrightarrow> same_faults b c \<Longrightarrow> same_faults a c"
  by (simp add: same_faults_def)

lemma same_faults_refl: "same_faults w w"
  by (simp add: same_faults_def)

lemma aw_put_eval:
  "aw_live w = ob # l \<Longrightarrow> aw_live (aw_put ob w) = l" "aw_live w = ob # l \<Longrightarrow> same_faults w (aw_put ob w)"
  by (simp_all add: aw_put_def same_faults_def)

lemma alloc_xsk_live:
  assumes "nfb_xctrl_alloc_xsk q ty heads found opened w = (r, w')"
  shows "aw_live w' = (if r = None then aw_live w else rev (xsk_objs q ty) @ aw_live w) \<and> same_faults w w' \<and>
    (r = None \<or> r = Some (new_xctrl ty (heads * 2) (snd opened)))"
  using assms
  by (cases ty) (auto simp: nfb_xctrl_alloc_xsk_def aw_try_def aw_get_def aw_put_def Let_def xsk_objs_def same_faults_def split: if_splits)

lemma destroy_tx_nothing: "destroy_tx_buffers ctrl x = Inr (ctrl\<lparr>x_c := (x_c ctrl)\<lparr>nc_hdp := nc_sdp (x_c ctrl)\<rparr>\<rparr>, x)"
  by (simp add: destroy_tx_buffers_def nfb_xctrl_tx_free_buffers_def Let_def)

lemma destroy_xsk_live:
  assumes "nfb_xctrl_destroy_xsk q turns ctrl x w = r" and "aw_live w = pre @ rev (xsk_objs q (x_type ctrl)) @ l"
    and "\<forall>ob \<in> set pre. fst (snd ob) \<noteq> x_type ctrl"
  shows "\<exists>w'. r = Inr (x, w') \<and> aw_live w' = pre @ l \<and> same_faults w w'"
proof -
  have r1: "remove1 (a, x_type ctrl, b) (pre @ ys) = pre @ remove1 (a, x_type ctrl, b) ys" for a b ys
    using assms(3) by (auto simp: remove1_append)
  have m: "(a, x_type ctrl, b) \<in> set (pre @ ys) \<longleftrightarrow> (a, x_type ctrl, b) \<in> set ys" for a b ys using assms(3) by auto
  show ?thesis
    using assms(1,2) r1 m
    by (cases "x_type ctrl") (auto simp: nfb_xctrl_destroy_xsk_def destroy_tx_nothing Let_def aw_put_def xsk_objs_def same_faults_def)
qed

lemma xstart_type: "xstart env ctrl = (ret, ctrl') \<Longrightarrow> x_type ctrl' = x_type ctrl"
  by (auto simp: xstart_def nfb_xctrl_start_def Let_def split: prod.splits)

lemma new_xctrl_type [simp]: "x_type (new_xctrl ty nb c) = ty"
  by (simp add: new_xctrl_def)

text \<open>What a running AF\_XDP channel owns, the newest first.\<close>

definition thread_objs :: "nat \<Rightarrow> bool \<Rightarrow> aobj list" where
  "thread_objs q xsk = (if xsk then [(q, NFB_XCTRL_TX, ANapiOn)] else []) @
     [(q, NFB_XCTRL_TX, ATask), (q, NFB_XCTRL_TX, AThread), (q, NFB_XCTRL_RX, ANapiOn), (q, NFB_XCTRL_RX, ATask), (q, NFB_XCTRL_RX, AThread)]"

lemma create_threads_live:
  assumes "channel_create_threads q xsk w = (ret, w')"
  shows "aw_live w' = (if ret = 0 then thread_objs q xsk else []) @ aw_live w \<and> same_faults w w'"
  using assms
  by (auto simp: channel_create_threads_def aw_try_def aw_get_def aw_put_def thread_objs_def same_faults_def Let_def split: if_splits)

definition xsk_channel_objs :: "nat \<Rightarrow> aobj list" where
  "xsk_channel_objs q = thread_objs q True @ rev (xsk_objs q NFB_XCTRL_TX) @ rev (xsk_objs q NFB_XCTRL_RX) @
     [(q, NFB_XCTRL_TX, ANapi), (q, NFB_XCTRL_RX, ANapi)]"

text \<open>A start in AF\_XDP mode that fails gives everything back, and one that succeeds owns exactly these objects.\<close>

lemma start_xsk_fail:
  assumes "err_start_xsk q env rx tx x w = r" and "x_type rx = NFB_XCTRL_RX" and "x_type tx = NFB_XCTRL_TX"
    and "aw_live w = rev (xsk_objs q NFB_XCTRL_TX) @ rev (xsk_objs q NFB_XCTRL_RX) @ l"
  shows "\<exists>w'. r = Inr (x, w') \<and> aw_live w' = l \<and> same_faults w w'"
proof -
  from destroy_xsk_live [OF refl, of w "[]" q tx _ "xe_turns env" x] assms(3,4) obtain w1 where
    w1: "nfb_xctrl_destroy_xsk q (xe_turns env) tx x w = Inr (x, w1)" "aw_live w1 = rev (xsk_objs q NFB_XCTRL_RX) @ l" "same_faults w w1"
    by auto
  from destroy_xsk_live [OF refl, of w1 "[]" q rx l "xe_turns env" x] assms(2) w1(2) obtain w2 where
    w2: "nfb_xctrl_destroy_xsk q (xe_turns env) rx x w1 = Inr (x, w2)" "aw_live w2 = l" "same_faults w1 w2" by auto
  have "r = Inr (x, w2)" using assms(1) w1(1) w2(1) by (simp add: err_start_xsk_def)
  then show ?thesis using w2(2) same_faults_trans [OF w1(3) w2(3)] by blast
qed

definition xsk_napi :: "nat \<Rightarrow> aobj list" where "xsk_napi q = [(q, NFB_XCTRL_TX, ANapi), (q, NFB_XCTRL_RX, ANapi)]"

definition start_fin :: "nat \<Rightarrow> awld \<Rightarrow> awld" where
  "start_fin q w = aw_put (q, NFB_XCTRL_TX, ANapi) (aw_put (q, NFB_XCTRL_RX, ANapi) w)"

lemma start_fin_live:
  assumes "aw_live w = xsk_napi q @ l"
  shows "aw_live (start_fin q w) = l \<and> same_faults w (start_fin q w)"
  using assms by (simp add: start_fin_def aw_put_def xsk_napi_def same_faults_def)

lemma start_failed_live:
  assumes "\<exists>w'. r = Inr (x, w') \<and> aw_live w' = xsk_napi q @ l \<and> same_faults w w'"
  shows "\<exists>w'. start_failed (start_fin q) ret ch r = Inr (ret, ch, x, w') \<and> aw_live w' = l \<and> same_faults w w'"
proof -
  from assms obtain w' where w': "r = Inr (x, w')" "aw_live w' = xsk_napi q @ l" "same_faults w w'" by blast
  have "start_failed (start_fin q) ret ch r = Inr (ret, ch, x, start_fin q w')" by (simp add: start_failed_def w'(1))
  then show ?thesis using start_fin_live [OF w'(2)] same_faults_trans [OF w'(3)] by blast
qed

definition xsk_started :: "xenv \<Rightarrow> xchan \<Rightarrow> xchan \<Rightarrow> bool" where
  "xsk_started env ch ch' \<longleftrightarrow> xc_running ch' \<and> xc_xsk ch' \<and> xc_pool ch' = xc_pool ch \<and>
     (\<exists>rx tx. xc_rx ch' = Some rx \<and> xc_tx ch' = Some tx \<and> x_type rx = NFB_XCTRL_RX \<and> x_type tx = NFB_XCTRL_TX)"


lemma start_xsk_cases:
  assumes "channel_start_xsk q env ch x w = r" and "\<not> xc_running ch"
  shows "(\<exists>ret ch' w'. r = Inr (ret, ch', x, w') \<and> ret \<noteq> 0 \<and> \<not> xc_running ch' \<and> aw_live w' = aw_live w \<and> same_faults w w') \<or>
    (\<exists>ch' w'. r = Inr (0, ch', x, w') \<and> xsk_started env ch ch' \<and> aw_live w' = xsk_channel_objs q @ aw_live w \<and> same_faults w w')"
proof -
  define w0 where "w0 = aw_get (q, NFB_XCTRL_TX, ANapi) (aw_get (q, NFB_XCTRL_RX, ANapi) w)"
  have l0: "aw_live w0 = xsk_napi q @ aw_live w" "same_faults w w0" by (simp_all add: w0_def aw_get_def xsk_napi_def same_faults_def)
  define alloc where "alloc = (\<lambda>ty. nfb_xctrl_alloc_xsk q ty (xe_heads env) (xe_found env ty) (xe_open env ty))"
  obtain r1 w1 where a1: "alloc NFB_XCTRL_RX w0 = (r1, w1)" by (cases "alloc NFB_XCTRL_RX w0")
  note al1 = alloc_xsk_live [OF a1 [unfolded alloc_def]]
  have r: "channel_start_xsk q env ch x w = (case alloc NFB_XCTRL_RX w0 of
          (None, w1) \<Rightarrow> Inr (- ENOMEM, ch\<lparr>xc_rx := None\<rparr>, x, start_fin q w1)
        | (Some rx, w1) \<Rightarrow>
          (case alloc NFB_XCTRL_TX w1 of
             (None, w2) \<Rightarrow>
               start_failed (start_fin q) (- ENOMEM) (ch\<lparr>xc_rx := Some rx, xc_tx := None\<rparr>) (nfb_xctrl_destroy_xsk q (xe_turns env) rx x w2)
           | (Some tx, w2) \<Rightarrow>
             case xstart env rx of (ret, rx1) \<Rightarrow>
             if ret \<noteq> 0 then
               start_failed (start_fin q) ret (ch\<lparr>xc_rx := Some rx1, xc_tx := Some tx\<rparr>) (err_start_xsk q env rx1 tx x w2)
             else case xstart env tx of (ret, tx1) \<Rightarrow>
             if ret \<noteq> 0 then
               start_failed (start_fin q) ret (ch\<lparr>xc_rx := Some rx1, xc_tx := Some tx1\<rparr>) (err_start_xsk q env rx1 tx1 x w2)
             else
               let ch1 = ch\<lparr>xc_rx := Some rx1, xc_tx := Some tx1, xc_xsk := True\<rparr>
               in case channel_create_threads q True w2 of (ret, w3) \<Rightarrow>
               if ret \<noteq> 0 then start_failed (start_fin q) ret ch1 (err_start_xsk q env rx1 tx1 x w3)
               else Inr (0, ch1\<lparr>xc_running := True\<rparr>, x, w3)))"
    using assms(2) unfolding channel_start_xsk_def w0_def alloc_def start_fin_def [abs_def] Let_def by simp
  show ?thesis
  proof (cases r1)
    case None
    have "aw_live w1 = xsk_napi q @ aw_live w" using al1 None l0 by simp
    note f = start_fin_live [OF this]
    have "r = Inr (- ENOMEM, ch\<lparr>xc_rx := None\<rparr>, x, start_fin q w1)" using assms(1) r a1 None by simp
    moreover have "same_faults w (start_fin q w1)" using l0(2) al1 f same_faults_trans by blast
    ultimately show ?thesis using f assms(2) by auto
  next
    case (Some rx)
    have l1: "aw_live w1 = rev (xsk_objs q NFB_XCTRL_RX) @ xsk_napi q @ aw_live w" "same_faults w w1" "x_type rx = NFB_XCTRL_RX"
      using al1 Some l0 same_faults_trans by (auto simp del: rev.simps)
    obtain r2 w2 where a2: "alloc NFB_XCTRL_TX w1 = (r2, w2)" by (cases "alloc NFB_XCTRL_TX w1")
    note al2 = alloc_xsk_live [OF a2 [unfolded alloc_def]]
    show ?thesis
    proof (cases r2)
      case None
      have "aw_live w2 = rev (xsk_objs q NFB_XCTRL_RX) @ xsk_napi q @ aw_live w" using al2 None l1 by simp
      then have "\<exists>w'. nfb_xctrl_destroy_xsk q (xe_turns env) rx x w2 = Inr (x, w') \<and> aw_live w' = xsk_napi q @ aw_live w \<and> same_faults w2 w'"
        using destroy_xsk_live [OF refl, of w2 "[]" q rx "xsk_napi q @ aw_live w" "xe_turns env" x] l1(3) by simp
      from start_failed_live [OF this, of "- ENOMEM" "ch\<lparr>xc_rx := Some rx, xc_tx := None\<rparr>"] obtain w' where
        w': "r = Inr (- ENOMEM, ch\<lparr>xc_rx := Some rx, xc_tx := None\<rparr>, x, w')" "aw_live w' = aw_live w" "same_faults w2 w'"
        using assms(1) r a1 a2 None Some by auto
      moreover have "same_faults w w'" using l1(2) al2 w'(3) same_faults_trans by blast
      ultimately show ?thesis using assms(2) by auto
    next
      case (Some tx)
      have tx: "x_type tx = NFB_XCTRL_TX" using al2 Some by auto
      have l2: "aw_live w2 = rev (xsk_objs q NFB_XCTRL_TX) @ rev (xsk_objs q NFB_XCTRL_RX) @ xsk_napi q @ aw_live w" "same_faults w w2"
        using al2 Some l1 same_faults_trans by (auto simp del: rev.simps)
      obtain ret1 rx1 where s1: "xstart env rx = (ret1, rx1)" by (cases "xstart env rx")
      obtain ret2 tx1 where s2: "xstart env tx = (ret2, tx1)" by (cases "xstart env tx")
      have ty: "x_type rx1 = NFB_XCTRL_RX" "x_type tx1 = NFB_XCTRL_TX" using xstart_type [OF s1] xstart_type [OF s2] l1(3) tx by simp_all
      obtain ret3 w3 where t3: "channel_create_threads q True w2 = (ret3, w3)" by (cases "channel_create_threads q True w2")
      note th = create_threads_live [OF t3]
      have fail: ?thesis if f: "r = start_failed (start_fin q) ret ch' (err_start_xsk q env rx1 tx' x w')" "ret \<noteq> 0" "\<not> xc_running ch'"
        "x_type tx' = NFB_XCTRL_TX" "aw_live w' = aw_live w2" "same_faults w2 w'" for ret ch' tx' w'
      proof -
        from start_xsk_fail [OF refl ty(1) f(4), where q = q and w = w' and env = env and x = x] f(5) l2(1)
        have "\<exists>w''. err_start_xsk q env rx1 tx' x w' = Inr (x, w'') \<and> aw_live w'' = xsk_napi q @ aw_live w \<and> same_faults w' w''" by simp
        from start_failed_live [OF this, of ret ch'] obtain w'' where
          "r = Inr (ret, ch', x, w'')" "aw_live w'' = aw_live w" "same_faults w' w''" unfolding f(1) [symmetric] by blast
        then show ?thesis using f(2,3,6) l2(2) same_faults_trans by blast
      qed
      have r': "r = (if ret1 \<noteq> 0 then
          start_failed (start_fin q) ret1 (ch\<lparr>xc_rx := Some rx1, xc_tx := Some tx\<rparr>) (err_start_xsk q env rx1 tx x w2)
        else if ret2 \<noteq> 0 then
          start_failed (start_fin q) ret2 (ch\<lparr>xc_rx := Some rx1, xc_tx := Some tx1\<rparr>) (err_start_xsk q env rx1 tx1 x w2)
        else if ret3 \<noteq> 0 then
          start_failed (start_fin q) ret3 (ch\<lparr>xc_rx := Some rx1, xc_tx := Some tx1, xc_xsk := True\<rparr>) (err_start_xsk q env rx1 tx1 x w3)
        else Inr (0, ch\<lparr>xc_rx := Some rx1, xc_tx := Some tx1, xc_xsk := True, xc_running := True\<rparr>, x, w3))"
        unfolding assms(1) [symmetric] r by (simp add: a1 a2 Some \<open>r1 = Some rx\<close> s1 s2 t3 Let_def)
      consider (a) "ret1 \<noteq> 0" | (b) "ret1 = 0" "ret2 \<noteq> 0" | (c) "ret1 = 0" "ret2 = 0" "ret3 \<noteq> 0" | (d) "ret1 = 0" "ret2 = 0" "ret3 = 0" by blast
      then show ?thesis
      proof cases
        case a show ?thesis by (rule fail [of ret1 "ch\<lparr>xc_rx := Some rx1, xc_tx := Some tx\<rparr>" tx w2]) (use r' a tx assms(2) same_faults_refl in auto)
      next
        case b show ?thesis by (rule fail [of ret2 "ch\<lparr>xc_rx := Some rx1, xc_tx := Some tx1\<rparr>" tx1 w2]) (use r' b ty assms(2) same_faults_refl in auto)
      next
        case c show ?thesis
          by (rule fail [of ret3 "ch\<lparr>xc_rx := Some rx1, xc_tx := Some tx1, xc_xsk := True\<rparr>" tx1 w3]) (use r' c ty th assms(2) in auto)
      next
        case d
        have "aw_live w3 = xsk_channel_objs q @ aw_live w" using th d l2(1) by (simp add: xsk_channel_objs_def xsk_napi_def)
        moreover have "same_faults w w3" using th l2(2) same_faults_trans by blast
        ultimately show ?thesis using r' d ty by (auto simp: xsk_started_def)
      qed
    qed
  qed
qed

text \<open>What takes and gives back the channel's own objects does not touch a mapped buffer pool.\<close>

definition keeps_pools :: "awld \<Rightarrow> awld \<Rightarrow> bool" where
  "keeps_pools w w' \<longleftrightarrow> (\<forall>p. pool_obj p \<in> set (aw_live w) \<longrightarrow> pool_obj p \<in> set (aw_live w'))"

lemma keeps_pools_refl: "keeps_pools w w"
  by (simp add: keeps_pools_def)

lemma keeps_pools_trans: "keeps_pools a b \<Longrightarrow> keeps_pools b c \<Longrightarrow> keeps_pools a c"
  by (simp add: keeps_pools_def)

lemma keeps_pools_put: "keeps_pools w w' \<Longrightarrow> kd \<noteq> APoolMap \<Longrightarrow> keeps_pools w (aw_put (a, ty, kd) w')"
  by (auto simp: keeps_pools_def aw_put_def pool_obj_def in_set_remove1)

lemma keeps_pools_get: "keeps_pools w w' \<Longrightarrow> keeps_pools w (aw_get ob w')"
  by (auto simp: keeps_pools_def aw_get_def)

lemma keeps_pools_wild: "keeps_pools w w' \<Longrightarrow> keeps_pools w (aw_kfree_wild w')"
  by (auto simp: keeps_pools_def aw_kfree_wild_def)

lemma keeps_pools_unreg: "keeps_pools w w' \<Longrightarrow> keeps_pools w (unreg_mem_model a ty w')"
  by (simp add: unreg_mem_model_def keeps_pools_put)

lemma keeps_pools_try: "keeps_pools w w' \<Longrightarrow> keeps_pools w (snd (aw_try ob w'))"
  by (auto simp: keeps_pools_def aw_try_def aw_get_def Let_def)

lemma keeps_pools_if: "keeps_pools w x \<Longrightarrow> keeps_pools w y \<Longrightarrow> keeps_pools w (if b then x else y)"
  by simp

lemma keeps_pools_reg: "keeps_pools w w' \<Longrightarrow> keeps_pools w (snd (reg_mem_model refs a ty w'))"
  by (simp add: reg_mem_model_def case_prod_beta keeps_pools_try keeps_pools_get)

lemmas keeps_pools = keeps_pools_refl keeps_pools_put keeps_pools_get keeps_pools_wild keeps_pools_unreg keeps_pools_try keeps_pools_if keeps_pools_reg

lemma keeps_pools_alloc_pp: "keeps_pools w (snd (nfb_xctrl_alloc_pp refs q n ty found opened w))"
  unfolding nfb_xctrl_alloc_pp_def Let_def case_prod_beta if_distrib [of snd] snd_conv fst_conv
  by (intro keeps_pools) simp_all

text \<open>Stopping: both controllers go, and no transmit buffer is looked at.\<close>

lemma destroy_world:
  "\<exists>w'. nfb_xctrl_destroy_xsk q turns ctrl x w = Inr (x, w') \<and> keeps_pools w w'"
  "\<exists>w'. nfb_xctrl_destroy_pp q turns err0 ctrl x w = Inr (x, w') \<and> keeps_pools w w'"
  by (cases "x_type ctrl"; simp add: nfb_xctrl_destroy_xsk_def nfb_xctrl_destroy_pp_def destroy_tx_nothing Let_def keeps_pools)+

lemma channel_stop_world:
  assumes "xc_running ch" and "xc_rx ch = Some rx" and "xc_tx ch = Some tx"
  shows "\<exists>w'. channel_stop q env ch x w = Inr (0, ch\<lparr>xc_running := False\<rparr>, x, w') \<and> keeps_pools w w'"
proof -
  define destroy where "destroy = (\<lambda>c. if xc_xsk ch then nfb_xctrl_destroy_xsk q (xe_turns env) c
    else nfb_xctrl_destroy_pp q (xe_turns env) (xe_err0 env) c)"
  have d: "\<exists>w'. destroy c x w = Inr (x, w') \<and> keeps_pools w w'" for c w by (simp add: destroy_def destroy_world)
  define w1 where "w1 = aw_put (q, NFB_XCTRL_TX, ATask) (aw_put (q, NFB_XCTRL_TX, AThread) (aw_put (q, NFB_XCTRL_RX, ANapi)
    (aw_put (q, NFB_XCTRL_RX, ANapiOn) (aw_put (q, NFB_XCTRL_RX, ATask) (aw_put (q, NFB_XCTRL_RX, AThread) w)))))"
  define w3 where "w3 = (if xc_xsk ch then aw_put (q, NFB_XCTRL_TX, ANapi) (aw_put (q, NFB_XCTRL_TX, ANapiOn) w1) else w1)"
  have k: "keeps_pools w w3" by (simp add: w3_def w1_def keeps_pools)
  obtain w4 where w4: "destroy rx x w3 = Inr (x, w4)" "keeps_pools w3 w4" using d by blast
  obtain w5 where w5: "destroy tx x w4 = Inr (x, w5)" "keeps_pools w4 w5" using d by blast
  have "channel_stop q env ch x w = Inr (0, ch\<lparr>xc_running := False\<rparr>, x, w5)"
    using w4(1) w5(1) assms by (cases "xc_xsk ch") (simp_all add: channel_stop_def Let_def destroy_def w3_def w1_def)
  then show ?thesis using k w4(2) w5(2) keeps_pools_trans by blast
qed

lemma stop_xsk_live:
  assumes "xsk_started env ch0 ch" and "aw_live w = xsk_channel_objs q @ l"
  shows "\<exists>w'. channel_stop q env ch x w = Inr (0, ch\<lparr>xc_running := False\<rparr>, x, w') \<and> aw_live w' = l \<and> same_faults w w'"
proof -
  from assms(1) obtain rx tx where c: "xc_running ch" "xc_xsk ch" "xc_rx ch = Some rx" "xc_tx ch = Some tx"
    "x_type rx = NFB_XCTRL_RX" "x_type tx = NFB_XCTRL_TX" by (auto simp: xsk_started_def)
  define w1 where "w1 = aw_put (q, NFB_XCTRL_RX, ANapi) (aw_put (q, NFB_XCTRL_RX, ANapiOn)
                   (aw_put (q, NFB_XCTRL_RX, ATask) (aw_put (q, NFB_XCTRL_RX, AThread) w)))"
  define w3 where "w3 = aw_put (q, NFB_XCTRL_TX, ANapi) (aw_put (q, NFB_XCTRL_TX, ANapiOn)
                   (aw_put (q, NFB_XCTRL_TX, ATask) (aw_put (q, NFB_XCTRL_TX, AThread) w1)))"
  have "aw_live w3 = rev (xsk_objs q NFB_XCTRL_TX) @ rev (xsk_objs q NFB_XCTRL_RX) @ l" "same_faults w w3"
    using assms(2)
    by (simp_all add: w3_def w1_def aw_put_def xsk_channel_objs_def thread_objs_def xsk_objs_def same_faults_def)
  moreover have "\<forall>ob \<in> set (rev (xsk_objs q NFB_XCTRL_TX)). fst (snd ob) \<noteq> x_type rx" by (auto simp: xsk_objs_def c)
  ultimately obtain w4 where w4: "nfb_xctrl_destroy_xsk q (xe_turns env) rx x w3 = Inr (x, w4)"
    "aw_live w4 = rev (xsk_objs q NFB_XCTRL_TX) @ l" "same_faults w w4"
    using destroy_xsk_live [OF refl, of w3 "rev (xsk_objs q NFB_XCTRL_TX)" q rx l "xe_turns env" x] c(5) same_faults_trans by fastforce
  then obtain w5 where w5: "nfb_xctrl_destroy_xsk q (xe_turns env) tx x w4 = Inr (x, w5)" "aw_live w5 = l" "same_faults w w5"
    using destroy_xsk_live [OF refl, of w4 "[]" q tx l "xe_turns env" x] c(6) same_faults_trans by fastforce
  have "channel_stop q env ch x w = Inr (0, ch\<lparr>xc_running := False\<rparr>, x, w5)"
    unfolding channel_stop_def Let_def using c by (simp add: w4(1) w5(1) flip: w1_def w3_def)
  then show ?thesis using w5 by blast
qed


definition example_env :: "bool \<Rightarrow> xenv" where
  "example_env refs = \<lparr>xe_refs = refs, xe_found = (\<lambda>_. True), xe_open = (\<lambda>ty. (0, example_ctrl\<lparr>nc_dir := (ty = NFB_XCTRL_TX)\<rparr>)), xe_heads = 4,
     xe_dma = (\<lambda>_. (0x1000, 0x2000, 0x3000)), xe_turns = 0, xe_err0 = 0\<rparr>"

definition example_chan :: xchan where
  "example_chan = \<lparr>xc_running = False, xc_xsk = False, xc_rx = None, xc_tx = None, xc_pool = Some 1\<rparr>"

definition example_awld :: "(nat \<Rightarrow> bool) \<Rightarrow> awld" where
  "example_awld f = \<lparr>aw_ok = f, aw_calls = 0, aw_live = [], aw_bad = 0, aw_wild = 0\<rparr>"


text \<open>Stopping a channel releases no transmitted frame: whatever frames the ring still holds, none is freed,
returned or unmapped, in neither mode, although the controller and its ring are released.\<close>

theorem channel_stop_frees_no_frame:
  assumes "channel_stop q env ch x w = Inr (ret, ch', x', w')"
  shows "x' = x \<and> (xc_running ch \<longrightarrow> ret = 0 \<and> \<not> xc_running ch')"
proof (cases "xc_running ch \<and> xc_rx ch \<noteq> None \<and> xc_tx ch \<noteq> None")
  case True
  then show ?thesis using channel_stop_world [of ch _ _ q env x w] assms by fastforce
next
  case False
  then show ?thesis using assms by (auto simp: channel_stop_def Let_def split: option.splits if_splits)
qed

definition example_running :: xchan where
  "example_running = \<lparr>xc_running = True, xc_xsk = True, xc_rx = Some (new_xctrl NFB_XCTRL_RX 8 example_ctrl), xc_tx = Some example_read, xc_pool = Some 1\<rparr>"

lemma example_running_fields: "xc_running example_running" "xc_rx example_running = Some (new_xctrl NFB_XCTRL_RX 8 example_ctrl)"
  "xc_tx example_running = Some example_read"
  by (simp_all add: example_running_def)

text \<open>The stopped controller still holds socket buffer 5, which is never released.\<close>

theorem channel_stop_frees_no_frame_witness:
  "\<exists>ch' w'. channel_stop 3 (example_env False) example_running (snd example_sent) (example_awld (\<lambda>_. True)) =
      Inr (0, ch', snd example_sent, w') \<and> \<not> xc_running ch' \<and> skbs_of (pending 3 example_read) = [5] \<and> 5 \<notin> set (xw_skb_freed (snd example_sent))"
proof -
  let ?r = "channel_stop 3 (example_env False) example_running (snd example_sent) (example_awld (\<lambda>_. True))"
  obtain w' where r: "?r = Inr (0, example_running\<lparr>xc_running := False\<rparr>, snd example_sent, w')"
    using channel_stop_world [OF example_running_fields] by blast
  have f: "xw_skb_freed (snd example_sent) = []"
    by (simp add: example_eval example_sent_def example_skb_def nfb_xctrl_start_xmit_def)
  have "mset (skbs_of (pending 3 example_read)) = {#5#}"
    using xtx_run_inv [OF example_run] f by (simp add: xtx_inv_def)
  then have "skbs_of (pending 3 example_read) = [5]" by (metis mset_single_iff)
  then show ?thesis using channel_stop_frees_no_frame [OF r] r f example_running_fields(1) by auto
qed

section \<open>The page-pool controller and the switch of modes\<close>

lemma keeps_pools_threads: "keeps_pools w (snd (channel_create_threads q xsk w))"
  unfolding channel_create_threads_def Let_def case_prod_beta if_distrib [of snd] snd_conv fst_conv
  by (intro keeps_pools) simp_all

lemma err_start_pp_world: "\<exists>w'. err_start_pp q env rx tx x w = Inr (x, w') \<and> keeps_pools w w'"
proof -
  obtain w1 where w1: "nfb_xctrl_destroy_pp q (xe_turns env) (xe_err0 env) tx x w = Inr (x, w1)" "keeps_pools w w1"
    using destroy_world(2) by blast
  obtain w2 where w2: "nfb_xctrl_destroy_pp q (xe_turns env) (xe_err0 env) rx x w1 = Inr (x, w2)" "keeps_pools w1 w2"
    using destroy_world(2) by blast
  show ?thesis using w1(1) w2(1) keeps_pools_trans [OF w1(2) w2(2)] by (simp add: err_start_pp_def)
qed

lemma start_failed_pools:
  assumes "\<exists>w'. r = Inr (x, w') \<and> keeps_pools w w'"
  shows "\<exists>w'. start_failed (aw_put (q, NFB_XCTRL_RX, ANapi)) ret ch r = Inr (ret, ch, x, w') \<and> keeps_pools w w'"
  using assms by (auto simp: start_failed_def keeps_pools_put)

lemma start_pp_world:
  "\<exists>ret ch' w'. channel_start_pp q env ch x w = Inr (ret, ch', x, w') \<and> xc_pool ch' = xc_pool ch \<and> keeps_pools w w' \<and>
    (xc_running ch' \<longrightarrow> xc_running ch \<and> ch' = ch \<or> xc_rx ch' \<noteq> None \<and> xc_tx ch' \<noteq> None)"
proof (cases "xc_running ch")
  case True
  then show ?thesis by (simp add: channel_start_pp_def keeps_pools_refl)
next
  case False
  define w0 where "w0 = aw_get (q, NFB_XCTRL_RX, ANapi) w"
  define alloc where "alloc = (\<lambda>ty. nfb_xctrl_alloc_pp (xe_refs env) q NFB_XDP_DESC_CNT ty (xe_found env ty) (xe_open env ty))"
  obtain r1 w1 where a1: "alloc NFB_XCTRL_RX w0 = (r1, w1)" by (cases "alloc NFB_XCTRL_RX w0")
  obtain r2 w2 where a2: "alloc NFB_XCTRL_TX w1 = (r2, w2)" by (cases "alloc NFB_XCTRL_TX w1")
  obtain ret3 w3 where t3: "channel_create_threads q False w2 = (ret3, w3)" by (cases "channel_create_threads q False w2")
  have k0: "keeps_pools w w0" by (simp add: w0_def keeps_pools)
  have al: "keeps_pools v v'" if "alloc ty v = (r, v')" for ty v v' r
    using keeps_pools_alloc_pp [of v] that unfolding alloc_def by (metis snd_conv)
  have k1: "keeps_pools w w1" using keeps_pools_trans [OF k0 al [OF a1]] .
  have k2: "keeps_pools w w2" using keeps_pools_trans [OF k1 al [OF a2]] .
  have k3: "keeps_pools w w3" using keeps_pools_trans [OF k2 keeps_pools_threads [of w2 q False]] t3 by simp
  have e: "\<exists>w'. err_start_pp q env rx tx x v = Inr (x, w') \<and> keeps_pools w w'" if "keeps_pools w v" for rx tx v
    using err_start_pp_world [of q env rx tx x v] keeps_pools_trans [OF that] by blast
  have d: "\<exists>w'. nfb_xctrl_destroy_pp q (xe_turns env) (xe_err0 env) rx x w2 = Inr (x, w') \<and> keeps_pools w w'" for rx
    using destroy_world(2) [of q "xe_turns env" "xe_err0 env" rx x w2] keeps_pools_trans [OF k2] by blast
  show ?thesis
  proof (cases r1)
    case None
    have "keeps_pools w (aw_put (q, NFB_XCTRL_RX, ANapi) w1)" by (rule keeps_pools_put [OF k1]) simp
    then show ?thesis using False a1 None unfolding channel_start_pp_def w0_def alloc_def Let_def by simp
  next
    case (Some rx)
    note r1 = this
    show ?thesis
    proof (cases r2)
      case None
      then show ?thesis
        using False a1 a2 r1 start_failed_pools [OF d [of rx], of q "- ENOMEM" "ch\<lparr>xc_rx := Some rx, xc_tx := None\<rparr>"]
        unfolding channel_start_pp_def w0_def alloc_def Let_def by auto
    next
      case (Some tx)
      obtain ret1 rx1 where s1: "xstart env rx = (ret1, rx1)" by (cases "xstart env rx")
      obtain ret2 tx1 where s2: "xstart env tx = (ret2, tx1)" by (cases "xstart env tx")
      have r: "channel_start_pp q env ch x w = (if ret1 \<noteq> 0 then
          start_failed (aw_put (q, NFB_XCTRL_RX, ANapi)) ret1 (ch\<lparr>xc_rx := Some rx1, xc_tx := Some tx\<rparr>) (err_start_pp q env rx1 tx x w2)
        else if ret2 \<noteq> 0 then
          start_failed (aw_put (q, NFB_XCTRL_RX, ANapi)) ret2 (ch\<lparr>xc_rx := Some rx1, xc_tx := Some tx1\<rparr>) (err_start_pp q env rx1 tx1 x w2)
        else if ret3 \<noteq> 0 then
          start_failed (aw_put (q, NFB_XCTRL_RX, ANapi)) ret3 (ch\<lparr>xc_rx := Some rx1, xc_tx := Some tx1, xc_xsk := False\<rparr>) (err_start_pp q env rx1 tx1 x w3)
        else Inr (0, ch\<lparr>xc_rx := Some rx1, xc_tx := Some tx1, xc_xsk := False, xc_running := True\<rparr>, x, w3))"
        using False a1 a2 unfolding channel_start_pp_def w0_def alloc_def Let_def by (simp add: Some r1 s1 s2 t3)
      have g: ?thesis if "channel_start_pp q env ch x w = start_failed (aw_put (q, NFB_XCTRL_RX, ANapi)) ret ch' (err_start_pp q env rx' tx' x v)"
        "keeps_pools w v" "xc_pool ch' = xc_pool ch" "\<not> xc_running ch'" for ret ch' rx' tx' v
        using start_failed_pools [OF e [OF that(2), of rx' tx'], of q ret ch'] that(1,3,4) by auto
      consider (a) "ret1 \<noteq> 0" | (b) "ret1 = 0" "ret2 \<noteq> 0" | (c) "ret1 = 0" "ret2 = 0" "ret3 \<noteq> 0" | (d) "ret1 = 0" "ret2 = 0" "ret3 = 0" by blast
      then show ?thesis
      proof cases
        case a show ?thesis using g [of ret1 "ch\<lparr>xc_rx := Some rx1, xc_tx := Some tx\<rparr>" rx1 tx w2] r a k2 False by simp
      next
        case b show ?thesis using g [of ret2 "ch\<lparr>xc_rx := Some rx1, xc_tx := Some tx1\<rparr>" rx1 tx1 w2] r b k2 False by simp
      next
        case c show ?thesis using g [of ret3 "ch\<lparr>xc_rx := Some rx1, xc_tx := Some tx1, xc_xsk := False\<rparr>" rx1 tx1 w3] r c k3 False by simp
      next
        case d then show ?thesis using r k3 by simp
      qed
    qed
  qed
qed

text \<open>The switch back from AF\_XDP tests the pool the wrong way round.  Leaving a pool that is attached always completes and forgets the
pool, and the buffers of a pool that was mapped stay mapped; with no pool attached the function reads through a null
pointer.\<close>

theorem teardown_xsk_pool_keeps_mapping:
  assumes "xc_running ch" and "xc_rx ch = Some rx" and "xc_tx ch = Some tx"
  shows "case xc_pool ch of
      None \<Rightarrow> nfb_xdp q env (XDP_SETUP_XSK_POOL None) progs ch x w = (progs, Inl XFault)
    | Some p \<Rightarrow> \<exists>ret ch' w'. nfb_xdp q env (XDP_SETUP_XSK_POOL None) progs ch x w = (progs, Inr (ret, ch', x, w')) \<and>
        xc_pool ch' = None \<and> (pool_obj p \<in> set (aw_live w) \<longrightarrow> pool_obj p \<in> set (aw_live w'))"
proof -
  from channel_stop_world [OF assms] obtain w1 where
    w1: "channel_stop q env ch x w = Inr (0, ch\<lparr>xc_running := False\<rparr>, x, w1)" "keeps_pools w w1" by blast
  from start_pp_world [of q env "ch\<lparr>xc_running := False\<rparr>" x w1] obtain ret ch2 w2 where
    w2: "channel_start_pp q env (ch\<lparr>xc_running := False\<rparr>) x w1 = Inr (ret, ch2, x, w2)" "xc_pool ch2 = xc_pool ch" "keeps_pools w1 w2" by auto
  have "keeps_pools w w2" by (rule keeps_pools_trans [OF w1(2) w2(3)])
  then show ?thesis
    by (simp add: nfb_xdp_def nfb_teardown_xsk_pool_def w1(1) w2(1,2) keeps_pools_def split: option.splits)
qed

theorem teardown_xsk_pool_keeps_mapping_witness:
  "\<exists>ret ch' w'. nfb_xdp 3 (example_env False) (XDP_SETUP_XSK_POOL None) (None, []) example_running (snd example_sent)
      ((example_awld (\<lambda>_. True))\<lparr>aw_live := [pool_obj 1]\<rparr>) = ((None, []), Inr (ret, ch', snd example_sent, w')) \<and>
    xc_pool ch' = None \<and> pool_obj 1 \<in> set (aw_live w')"
  using teardown_xsk_pool_keeps_mapping [of example_running "new_xctrl NFB_XCTRL_RX 8 example_ctrl" example_read 3 "example_env False" "(None, [])"
      "snd example_sent" "(example_awld (\<lambda>_. True))\<lparr>aw_live := [pool_obj 1]\<rparr>"]
  by (auto simp: example_running_def)

text \<open>Two error paths of the page-pool controller.  A transmit controller whose descriptor or update buffer, or whose
hardware block, cannot be had frees through an uninitialised pointer.  For a receive controller the page pool is
destroyed once too often when the hardware block cannot be opened, on kernels where the memory model holds no reference
of its own, and is never destroyed by the normal release on kernels where it does.\<close>

lemma aw_put_count: "count (mset (aw_live (aw_put ob w))) ob' = count (mset (aw_live w)) ob' - (if ob = ob' then 1 else 0)"
proof (cases "ob \<in> set (aw_live w)")
  case False
  then have c: "count (mset (aw_live w)) ob = 0" by (simp add: count_eq_zero_iff)
  show ?thesis using False by (cases "ob' = ob") (simp_all add: aw_put_def c)
qed (auto simp: aw_put_def)

theorem xctrl_alloc_pp_errors:
  assumes "aw_ok w = (\<lambda>_. True)" and "err \<noteq> 0" and "(q, NFB_XCTRL_RX, APool) \<notin> set (aw_live w)"
  shows "aw_wild (snd (nfb_xctrl_alloc_pp refs q n NFB_XCTRL_TX True (err, c) w)) = Suc (aw_wild w) \<and>
    aw_bad (snd (nfb_xctrl_alloc_pp False q n NFB_XCTRL_RX True (err, c) w)) = Suc (aw_bad w) \<and>
    (case nfb_xctrl_alloc_pp True q n NFB_XCTRL_RX True (0, c) w of (r, w1) \<Rightarrow> \<exists>ctrl w2. r = Some ctrl \<and>
      nfb_xctrl_destroy_pp q turns err0 ctrl x w1 = Inr (x, w2) \<and> (q, NFB_XCTRL_RX, APool) \<in> set (aw_live w2))"
proof (intro conjI)
  note defs = nfb_xctrl_alloc_pp_def aw_try_def aw_get_def aw_put_def aw_kfree_wild_def reg_mem_model_def unreg_mem_model_def Let_def
  show "aw_wild (snd (nfb_xctrl_alloc_pp refs q n NFB_XCTRL_TX True (err, c) w)) = Suc (aw_wild w)"
    using assms by (simp add: defs)
  show "aw_bad (snd (nfb_xctrl_alloc_pp False q n NFB_XCTRL_RX True (err, c) w)) = Suc (aw_bad w)"
    using assms by (simp add: defs)
  show "case nfb_xctrl_alloc_pp True q n NFB_XCTRL_RX True (0, c) w of (r, w1) \<Rightarrow> \<exists>ctrl w2. r = Some ctrl \<and>
      nfb_xctrl_destroy_pp q turns err0 ctrl x w1 = Inr (x, w2) \<and> (q, NFB_XCTRL_RX, APool) \<in> set (aw_live w2)"
  proof -
    define p :: aobj where "p = (q, NFB_XCTRL_RX, APool)"
    obtain w1 where w1: "nfb_xctrl_alloc_pp True q n NFB_XCTRL_RX True (0, c) w = (Some (new_xctrl NFB_XCTRL_RX n c), w1)"
      and n: "count (mset (aw_live w1)) p = 2" using assms by (simp add: defs p_def not_in_iff)
    obtain w2 where w2: "nfb_xctrl_destroy_pp q turns err0 (new_xctrl NFB_XCTRL_RX n c) x w1 = Inr (x, w2)" using destroy_world(2) by blast
    then have "count (mset (aw_live w2)) p = 1"
      using n by (auto simp: nfb_xctrl_destroy_pp_def unreg_mem_model_def aw_put_count p_def Let_def)
    then have "p \<in> set (aw_live w2)" by (metis count_inI set_mset_mset zero_neq_one)
    then show ?thesis using w1 w2 by (simp add: p_def)
  qed
qed

theorem xctrl_alloc_pp_errors_witness:
  "aw_wild (snd (nfb_xctrl_alloc_pp True 3 8 NFB_XCTRL_TX True (- EBUSY, example_ctrl) (example_awld (\<lambda>_. True)))) = 1"
  using xctrl_alloc_pp_errors [of "example_awld (\<lambda>_. True)" "- EBUSY" 3 True 8 example_ctrl]
  by (simp add: example_awld_def)

end
