(* ===== verification/XdpEthdev.thy ===== *)
theory XdpEthdev
  imports XdpChannel
begin

text \<open>
  The network devices of the XDP driver: \<open>drivers/kernel/drivers/nfb/xdp/ethdev.c\<close>, the checks of \<open>driver.c\<close>, and the command file of
  \<open>sysfs.c\<close> with which devices are added and removed.  A device owns channels, each of them one pair of hardware
  queues.

  What the kernel answers is in the record \<open>eenv\<close>: allocations, the search for MAC components, their opening and the
  registration of the device.  The splitting of a command into options and the reading of numbers are library functions
  of the kernel; their results are arguments.
\<close>

section \<open>State\<close>

record ech =
  ec_ethdev :: bool
  ec_index :: u16
  ec_nfb_index :: u16
  ec_chan :: xchan

record nfb_ethdev =
  ed_index :: int
  ed_channel_count :: u16
  ed_channels :: "ech list"
  ed_macs :: "int list"
  ed_prog :: "nat option"
  ed_up :: bool
  ed_carrier :: bool

record xmodule =
  xm_ethc :: u16
  xm_channelc :: u16
  xm_devices :: "nfb_ethdev list"

record eenv =
  ee_netdev_ok :: bool
  ee_channels_ok :: bool
  ee_macs_ok :: bool
  ee_mac_found :: "nat \<Rightarrow> bool"
  ee_mac_open :: "int \<Rightarrow> bool"
  ee_register :: int

section \<open>Channels of a device\<close>

text \<open>The array is zeroed; the queues are mapped lowest index to lowest index.\<close>

definition zero_ech :: ech where
  "zero_ech = \<lparr>ec_ethdev = False, ec_index = 0, ec_nfb_index = 0,
     ec_chan = \<lparr>xc_running = False, xc_xsk = False, xc_rx = None, xc_tx = None, xc_pool = None\<rparr>\<rparr>"

primrec map_row :: "nat \<Rightarrow> u32 list \<Rightarrow> nat \<times> ech list \<Rightarrow> nat \<times> ech list" where
  "map_row nfb_idx [] st = st"
| "map_row nfb_idx (c # cs) st =
     map_row nfb_idx cs
       (if of_nat nfb_idx = c then (case st of (map_idx, chs) \<Rightarrow>
          (Suc map_idx, chs[map_idx := (chs ! map_idx)\<lparr>ec_ethdev := True, ec_index := of_nat map_idx, ec_nfb_index := of_nat nfb_idx\<rparr>]))
        else st)"

definition nfb_xdp_channels_init :: "u16 \<Rightarrow> u32 list \<Rightarrow> ech list" where
  "nfb_xdp_channels_init channelc channel_indexes =
     snd (fold (\<lambda>nfb_idx. map_row nfb_idx channel_indexes) [0..<unat channelc] (0, replicate (length channel_indexes) zero_ech))"

text \<open>A channel whose pointer to the device is null is read through it.\<close>

type_synonym chans_result = "xstop + int \<times> ech list \<times> xworld \<times> awld"

fun nfb_start_channels :: "xenv \<Rightarrow> int \<Rightarrow> ech list \<Rightarrow> xworld \<Rightarrow> awld \<Rightarrow> chans_result" where
  "nfb_start_channels env ret [] x w = Inr (ret, [], x, w)"
| "nfb_start_channels env ret (c # cs) x w =
     (if \<not> ec_ethdev c then Inl XFault
      else case channel_start_pp (unat (ec_nfb_index c)) env (ec_chan c) x w of
        Inl e \<Rightarrow> Inl e
      | Inr (ret1, ch, x1, w1) \<Rightarrow>
        (case nfb_start_channels env ret1 cs x1 w1 of
           Inl e \<Rightarrow> Inl e
         | Inr (ret2, cs2, x2, w2) \<Rightarrow> Inr (ret2, c\<lparr>ec_chan := ch\<rparr> # cs2, x2, w2)))"

fun stop_channels_loop :: "xenv \<Rightarrow> ech list \<Rightarrow> xworld \<Rightarrow> awld \<Rightarrow> xstop + ech list \<times> xworld \<times> awld" where
  "stop_channels_loop env [] x w = Inr ([], x, w)"
| "stop_channels_loop env (c # cs) x w =
     (if \<not> ec_ethdev c then Inl XFault
      else case channel_stop (unat (ec_nfb_index c)) env (ec_chan c) x w of
        Inl e \<Rightarrow> Inl e
      | Inr (_, ch, x1, w1) \<Rightarrow>
        (case stop_channels_loop env cs x1 w1 of
           Inl e \<Rightarrow> Inl e
         | Inr (cs2, x2, w2) \<Rightarrow> Inr (c\<lparr>ec_chan := ch\<rparr> # cs2, x2, w2)))"

text \<open>The loops run over the stored count of channels, which has 16 bits.\<close>

definition counted :: "nfb_ethdev \<Rightarrow> ech list" where
  "counted d = take (unat (ed_channel_count d)) (ed_channels d)"

definition recount :: "nfb_ethdev \<Rightarrow> ech list \<Rightarrow> nfb_ethdev" where
  "recount d cs = d\<lparr>ed_channels := cs @ drop (unat (ed_channel_count d)) (ed_channels d)\<rparr>"

definition nfb_stop_channels :: "xenv \<Rightarrow> nfb_ethdev \<Rightarrow> xworld \<Rightarrow> awld \<Rightarrow> xstop + nfb_ethdev \<times> xworld \<times> awld" where
  "nfb_stop_channels env d x w =
     (case stop_channels_loop env (counted d) x w of
        Inl e \<Rightarrow> Inl e
      | Inr (cs, x1, w1) \<Rightarrow> Inr ((recount d cs)\<lparr>ed_prog := None\<rparr>, x1, w1))"

text \<open>\<open>ret0\<close> is the uninitialised result when there is no channel.  The kernel marks the device as up when the open succeeds.\<close>

definition nfb_xdp_open :: "xenv \<Rightarrow> int \<Rightarrow> nfb_ethdev \<Rightarrow> xworld \<Rightarrow> awld \<Rightarrow> xstop + int \<times> nfb_ethdev \<times> xworld \<times> awld" where
  "nfb_xdp_open env ret0 d x w =
     (case nfb_start_channels env ret0 (counted d) x w of
        Inl e \<Rightarrow> Inl e
      | Inr (ret, cs, x1, w1) \<Rightarrow> Inr (ret, (recount d cs)\<lparr>ed_up := (ret = 0)\<rparr>, x1, w1))"

definition nfb_xdp_stop :: "xenv \<Rightarrow> nfb_ethdev \<Rightarrow> xworld \<Rightarrow> awld \<Rightarrow> xstop + nfb_ethdev \<times> xworld \<times> awld" where
  "nfb_xdp_stop env d x w =
     (case nfb_stop_channels env d x w of Inl e \<Rightarrow> Inl e | Inr (d1, x1, w1) \<Rightarrow> Inr (d1\<lparr>ed_up := False\<rparr>, x1, w1))"

section \<open>Adding and removing devices\<close>

text \<open>The MACs of the ports that the requested channels belong to.  The comparison is stored, not the offset, so that every MAC is opened at
offset 0.\<close>

fun open_macs :: "eenv \<Rightarrow> u16 \<Rightarrow> u16 \<Rightarrow> u32 list \<Rightarrow> nat list \<Rightarrow> int list \<Rightarrow> bool \<times> int list" where
  "open_macs ev ethc channelc idxs [] macs = (True, macs)"
| "open_macs ev ethc channelc idxs (mac_idx # ms) macs =
     (if mac_idx \<notin> (\<lambda>c. unat c div (unat channelc div unat ethc)) ` set idxs then open_macs ev ethc channelc idxs ms macs
      else let fdt_offset = (if \<not> ee_mac_found ev mac_idx then 1 else 0)
      in if fdt_offset \<noteq> 0 then (False, macs)
      else if \<not> ee_mac_open ev fdt_offset then (False, macs)
      else open_macs ev ethc channelc idxs ms (macs @ [fdt_offset]))"

definition in_use :: "u16 \<Rightarrow> u32 list \<Rightarrow> nfb_ethdev \<Rightarrow> bool" where
  "in_use index channel_indexes d \<longleftrightarrow>
     ed_index d = uint index \<or> (\<exists>i \<in> set channel_indexes. \<exists>c \<in> set (counted d). i = ucast (ec_nfb_index c))"

definition create_ethdev :: "eenv \<Rightarrow> xmodule \<Rightarrow> u16 \<Rightarrow> u32 list \<Rightarrow> int \<times> xmodule" where
  "create_ethdev ev module index channel_indexes =
     (if list_ex (in_use index channel_indexes) (xm_devices module) then (- EINVAL, module)
      else if \<not> ee_netdev_ok ev then (- ENOMEM, module)
      else if \<not> ee_channels_ok ev then (- ENOMEM, module)
      else if \<not> ee_macs_ok ev then (- ENOMEM, module)
      else case open_macs ev (xm_ethc module) (xm_channelc module) channel_indexes [0..<unat (xm_ethc module)] [] of (ok, macs) \<Rightarrow>
      if \<not> ok then (- ENODEV, module)
      else if ee_register ev \<noteq> 0 then (ee_register ev, module)
      else (0, module\<lparr>xm_devices := xm_devices module @
        [\<lparr>ed_index = uint index, ed_channel_count = of_nat (length channel_indexes),
          ed_channels = nfb_xdp_channels_init (xm_channelc module) channel_indexes, ed_macs = macs, ed_prog = None, ed_up = False, ed_carrier = False\<rparr>]\<rparr>))"

text \<open>Unregistering a device stops it when it is up.  The index -1 removes all devices.\<close>

fun destroy_loop :: "xenv \<Rightarrow> int \<Rightarrow> nfb_ethdev list \<Rightarrow> int \<Rightarrow> xworld \<Rightarrow> awld \<Rightarrow> xstop + int \<times> nfb_ethdev list \<times> xworld \<times> awld" where
  "destroy_loop env index [] ret x w = Inr (ret, [], x, w)"
| "destroy_loop env index (d # ds) ret x w =
     (if index = ed_index d \<or> index = -1 then
        (case (if ed_up d then nfb_xdp_stop env d x w else Inr (d, x, w)) of
           Inl e \<Rightarrow> Inl e
         | Inr (_, x1, w1) \<Rightarrow> destroy_loop env index ds 0 x1 w1)
      else case destroy_loop env index ds ret x w of
        Inl e \<Rightarrow> Inl e
      | Inr (ret1, ds1, x1, w1) \<Rightarrow> Inr (ret1, d # ds1, x1, w1))"

definition destroy_ethdev :: "xenv \<Rightarrow> xmodule \<Rightarrow> int \<Rightarrow> xworld \<Rightarrow> awld \<Rightarrow> xstop + int \<times> xmodule \<times> xworld \<times> awld" where
  "destroy_ethdev env module index x w =
     (case destroy_loop env index (xm_devices module) (- ENODEV) x w of
        Inl e \<Rightarrow> Inl e
      | Inr (ret, ds, x1, w1) \<Rightarrow> Inr (ret, module\<lparr>xm_devices := ds\<rparr>, x1, w1))"

text \<open>The state of the link: up when every opened MAC has a link; a device without MACs is left alone.\<close>

definition link_work_handler :: "(int \<Rightarrow> bool) \<Rightarrow> nfb_ethdev \<Rightarrow> nfb_ethdev" where
  "link_work_handler get_link d =
     (if ed_macs d = [] then d
      else let link = list_all get_link (ed_macs d); ok = ed_carrier d
      in if link then (if \<not> ok then d\<lparr>ed_carrier := True\<rparr> else d) else (if ok then d\<lparr>ed_carrier := False\<rparr> else d))"

section \<open>Attaching and the command file\<close>

definition nfb_xdp_attach :: "bool \<Rightarrow> int \<Rightarrow> int \<Rightarrow> int \<Rightarrow> bool \<Rightarrow> int \<Rightarrow> int \<Rightarrow> int \<times> xmodule option" where
  "nfb_xdp_attach xdp_enable eth_count rx_count tx_count alloc_ok device_add sysfs =
     (if \<not> xdp_enable then (0, None)
      else let ethc = word_of_int eth_count :: u16; rxqc = word_of_int rx_count :: u16; txqc = word_of_int tx_count :: u16
      in if ethc \<le> 0 then (- EINVAL, None)
      else if rxqc \<le> 0 then (- EINVAL, None)
      else if txqc \<le> 0 then (- EINVAL, None)
      else if rxqc \<noteq> txqc then (- EINVAL, None)
      else if rxqc mod ethc \<noteq> 0 then (- EINVAL, None)
      else if \<not> alloc_ok then (- ENOMEM, None)
      else if device_add \<noteq> 0 then (device_add, None)
      else if sysfs \<noteq> 0 then (sysfs, None)
      else (0, Some \<lparr>xm_ethc = ethc, xm_channelc = rxqc, xm_devices = []\<rparr>))"

text \<open>The options of a command as \<open>match_token\<close> and the functions that copy a string or read a number give them: a copy that fails is None, a
number that cannot be read an error code.\<close>

datatype cmd_token = Opt_cmd "string option" | Opt_id "int + int" | Opt_qidxs "string option" | Opt_err

record cmd_opts =
  co_index :: int
  co_cmd :: "string option"
  co_queues :: "string option"

fun parse_options :: "cmd_token list \<Rightarrow> cmd_opts \<Rightarrow> int + cmd_opts" where
  "parse_options [] o1 = Inr o1"
| "parse_options (Opt_cmd s # ts) o1 = parse_options ts (o1\<lparr>co_cmd := s\<rparr>)"
| "parse_options (Opt_id n # ts) o1 = (case n of Inl e \<Rightarrow> Inl e | Inr i \<Rightarrow> parse_options ts (o1\<lparr>co_index := i\<rparr>))"
| "parse_options (Opt_qidxs s # ts) o1 = (if s = None then Inl (- ENOMEM) else parse_options ts (o1\<lparr>co_queues := s\<rparr>))"
| "parse_options (Opt_err # ts) o1 = parse_options ts o1"

text \<open>The pieces between colons, as \<open>strsep\<close> gives them; an empty piece ends the list.\<close>

fun strsep :: "char \<Rightarrow> string \<Rightarrow> string list" where
  "strsep c [] = [[]]"
| "strsep c (a # s) = (if a = c then [] # strsep c s else (case strsep c s of [] \<Rightarrow> [[a]] | p # ps \<Rightarrow> (a # p) # ps))"

fun parse_queues :: "(string \<Rightarrow> u32 option) \<Rightarrow> string list \<Rightarrow> u32 list option" where
  "parse_queues scan [] = Some []"
| "parse_queues scan (p # ps) =
     (if p = [] then Some []
      else case scan p of None \<Rightarrow> None | Some i \<Rightarrow> map_option ((#) i) (parse_queues scan ps))"

definition cmd_queues :: "(string \<Rightarrow> u32 option) \<Rightarrow> u16 \<Rightarrow> string option \<Rightarrow> u32 list option" where
  "cmd_queues scan channelc qs =
     (case qs of Some s \<Rightarrow> parse_queues scan (strsep (CHR '':'') s) | None \<Rightarrow> Some (map of_nat [0..<unat channelc]))"

text \<open>The index is an \<open>int\<close> for the command, and 16 bits wide for the new device.  \<open>terminated\<close> is whether the text ends in a zero byte,
\<open>mem\<close> whether its copy and the list of queues can be allocated.  The file returns the size for the result 0.\<close>

definition cmd_store ::
  "bool \<Rightarrow> bool \<Rightarrow> (string \<Rightarrow> u32 option) \<Rightarrow> xenv \<Rightarrow> eenv \<Rightarrow> cmd_token list \<Rightarrow> xmodule \<Rightarrow> xworld \<Rightarrow> awld \<Rightarrow> xstop + int \<times> xmodule \<times> xworld \<times> awld" where
  "cmd_store terminated mem scan env ev tokens module x w =
     (if \<not> terminated then Inr (- EINVAL, module, x, w)
      else if \<not> mem then Inr (- ENOMEM, module, x, w)
      else case parse_options tokens \<lparr>co_index = -1, co_cmd = None, co_queues = None\<rparr> of
        Inl e \<Rightarrow> Inr (e, module, x, w)
      | Inr o1 \<Rightarrow>
        if co_cmd o1 = None \<or> co_index o1 = -1 then Inr (- EINVAL, module, x, w)
        else if co_cmd o1 = Some ''add'' then
          (case cmd_queues scan (xm_channelc module) (co_queues o1) of
             None \<Rightarrow> Inr (- EINVAL, module, x, w)
           | Some idxs \<Rightarrow> (case create_ethdev ev module (word_of_int (co_index o1)) idxs of (ret, m1) \<Rightarrow> Inr (ret, m1, x, w)))
        else if co_cmd o1 = Some ''del'' then destroy_ethdev env module (co_index o1) x w
        else Inr (- ENXIO, module, x, w))"

section \<open>The mapping of queues\<close>

definition made :: "nat list \<Rightarrow> ech list" where
  "made ns = map (\<lambda>(i, n). zero_ech\<lparr>ec_ethdev := True, ec_index := of_nat i, ec_nfb_index := of_nat n\<rparr>) (enumerate 0 ns)"

lemma made_length [simp]: "length (made ns) = length ns"
  by (simp add: made_def)

lemma made_append: "made (ns @ [n]) = made ns @ [zero_ech\<lparr>ec_ethdev := True, ec_index := of_nat (length ns), ec_nfb_index := of_nat n\<rparr>]"
  by (simp add: made_def enumerate_append_eq)

lemma map_row_made:
  assumes "length ns + count_list cs (of_nat n) \<le> k"
  shows "map_row n cs (length ns, made ns @ replicate (k - length ns) zero_ech) =
    (length ns + count_list cs (of_nat n),
     made (ns @ replicate (count_list cs (of_nat n)) n) @ replicate (k - (length ns + count_list cs (of_nat n))) zero_ech)"
  using assms
proof (induction cs arbitrary: ns)
  case (Cons c cs)
  show ?case
  proof (cases "of_nat n = c")
    case True
    then obtain r where r: "k - length ns = Suc r" "r = k - length (ns @ [n])" using Cons.prems by (cases "k - length ns") auto
    have "map_row n (c # cs) (length ns, made ns @ replicate (k - length ns) zero_ech) =
      map_row n cs (length (ns @ [n]), made (ns @ [n]) @ replicate (k - length (ns @ [n])) zero_ech)"
      using True r by (simp add: made_append list_update_append nth_append)
    also have "\<dots> = (length (ns @ [n]) + count_list cs (of_nat n),
      made ((ns @ [n]) @ replicate (count_list cs (of_nat n)) n) @ replicate (k - (length (ns @ [n]) + count_list cs (of_nat n))) zero_ech)"
      by (rule Cons.IH) (use Cons.prems True in simp)
    finally show ?thesis using True by simp
  qed (use Cons in auto)
qed simp

definition rows :: "u32 list \<Rightarrow> nat \<Rightarrow> nat list" where
  "rows idxs N = concat (map (\<lambda>n. replicate (count_list idxs (of_nat n)) n) [0..<N])"

lemma rows_Suc: "rows idxs (Suc N) = rows idxs N @ replicate (count_list idxs (of_nat N)) N"
  by (simp add: rows_def)

lemma rows_sorted: "sorted (rows idxs N) \<and> (\<forall>n \<in> set (rows idxs N). n < N)"
  by (induction N) (auto simp: rows_Suc sorted_append rows_def less_Suc_eq)

lemma filter_unat:
  assumes "N < 2 ^ 32"
  shows "map unat (filter (\<lambda>c :: u32. unat c = N) idxs) = replicate (count_list idxs (of_nat N)) N"
proof (induction idxs)
  case (Cons c idxs)
  have "unat c = N \<longleftrightarrow> c = of_nat N" using assms by (auto simp: unsigned_of_nat take_bit_nat_eq_self)
  then show ?case using Cons by auto
qed simp


lemma rows_mset:
  assumes "N \<le> 2 ^ 32"
  shows "mset (rows idxs N) = mset (map unat (filter (\<lambda>c. unat c < N) idxs))"
  using assms
proof (induction N)
  case (Suc N)
  have "mset (filter (\<lambda>c. unat c < Suc N) idxs) = mset (filter (\<lambda>c. unat c < N) idxs) + mset (filter (\<lambda>c. unat c = N) idxs)"
    by (induction idxs) (auto simp: less_Suc_eq)
  then have "mset (map unat (filter (\<lambda>c. unat c < Suc N) idxs)) =
    mset (map unat (filter (\<lambda>c. unat c < N) idxs)) + mset (map unat (filter (\<lambda>c. unat c = N) idxs))" by (simp flip: image_mset_union)
  moreover have "mset (map unat (filter (\<lambda>c. unat c = N) idxs)) = mset (replicate (count_list idxs (of_nat N)) N)"
    by (subst filter_unat) (use Suc.prems in simp_all)
  ultimately show ?case using Suc by (simp add: rows_Suc)
qed (simp add: rows_def)

lemma rows_sort: "N \<le> 2 ^ 32 \<Longrightarrow> rows idxs N = sort (map unat (filter (\<lambda>c. unat c < N) idxs))"
  using rows_mset [of N idxs] rows_sorted [of idxs N] by (metis properties_for_sort)

lemma rows_length: "N \<le> 2 ^ 32 \<Longrightarrow> length (rows idxs N) \<le> length idxs"
  by (simp add: rows_sort)

lemma fold_rows_made:
  assumes "N \<le> 2 ^ 32"
  shows "fold (\<lambda>n. map_row n idxs) [0..<N] (0, replicate (length idxs) zero_ech) =
    (length (rows idxs N), made (rows idxs N) @ replicate (length idxs - length (rows idxs N)) zero_ech)"
  using assms
proof (induction N)
  case (Suc N)
  have "length (rows idxs (Suc N)) \<le> length idxs" by (rule rows_length [OF Suc.prems])
  then have le: "length (rows idxs N) + count_list idxs (of_nat N) \<le> length idxs" by (simp add: rows_Suc)
  show ?case using Suc map_row_made [OF le] by (simp add: rows_Suc)
qed (simp add: rows_def made_def)

text \<open>The mapping of hardware queues to the channels of a new device: the channels get the requested queues that exist, in
ascending order, with equal requests repeated, and number themselves from 0; every request that names no queue leaves one zeroed
channel at the end.\<close>

theorem xdp_channels_lowest_first:
  "nfb_xdp_channels_init channelc idxs =
     made (sort (map unat (filter (\<lambda>c. unat c < unat channelc) idxs))) @
     replicate (length (filter (\<lambda>c. \<not> unat c < unat channelc) idxs)) zero_ech"
proof -
  have N: "unat channelc \<le> 2 ^ 32" using unsigned_less [of channelc, where 'a = nat] by simp
  have "length idxs - length (filter (\<lambda>c. unat c < unat channelc) idxs) = length (filter (\<lambda>c. \<not> unat c < unat channelc) idxs)"
    using sum_length_filter_compl [of "\<lambda>c. unat c < unat channelc" idxs] by simp
  then show ?thesis by (simp add: nfb_xdp_channels_init_def fold_rows_made [OF N] rows_sort [OF N])
qed

section \<open>Opening, closing and removing\<close>

text \<open>A channel that runs has its controllers; a device is well formed when all its channels were mapped.\<close>

definition chan_ok :: "xchan \<Rightarrow> bool" where
  "chan_ok ch \<longleftrightarrow> (xc_running ch \<longrightarrow> xc_rx ch \<noteq> None \<and> xc_tx ch \<noteq> None)"

definition ech_ok :: "u16 \<Rightarrow> ech \<Rightarrow> bool" where
  "ech_ok channelc c \<longleftrightarrow> ec_ethdev c \<and> ec_nfb_index c < channelc \<and> chan_ok (ec_chan c)"

definition dev_ok :: "u16 \<Rightarrow> nfb_ethdev \<Rightarrow> bool" where
  "dev_ok channelc d \<longleftrightarrow> unat (ed_channel_count d) = length (ed_channels d) \<and> list_all (ech_ok channelc) (ed_channels d)"

definition queues :: "nfb_ethdev \<Rightarrow> u16 list" where
  "queues d = map ec_nfb_index (ed_channels d)"

lemma chan_ok_start_pp:
  assumes "chan_ok ch"
  shows "\<exists>ret ch' w'. channel_start_pp q env ch x w = Inr (ret, ch', x, w') \<and> chan_ok ch'"
  using start_pp_world [of q env ch x w] assms by (auto simp: chan_ok_def)

lemma chan_ok_stop:
  assumes "chan_ok ch"
  shows "\<exists>ret ch' w'. channel_stop q env ch x w = Inr (ret, ch', x, w') \<and> chan_ok ch'"
proof (cases "xc_running ch")
  case True
  then obtain rx tx where "xc_rx ch = Some rx" "xc_tx ch = Some tx" using assms by (auto simp: chan_ok_def)
  then show ?thesis using channel_stop_world [OF True, of rx tx q env x w] by (auto simp: chan_ok_def)
qed (use assms in \<open>simp add: channel_stop_def\<close>)

lemma start_channels_return:
  assumes "list_all (ech_ok channelc) cs"
  shows "\<exists>ret' cs' w'. nfb_start_channels env ret cs x w = Inr (ret', cs', x, w') \<and> list_all (ech_ok channelc) cs' \<and>
    map ec_nfb_index cs' = map ec_nfb_index cs"
  using assms
proof (induction cs arbitrary: ret w)
  case (Cons c cs)
  then have c: "ec_ethdev c" "ec_nfb_index c < channelc" "chan_ok (ec_chan c)" by (simp_all add: ech_ok_def)
  obtain ret1 ch w1 where s: "channel_start_pp (unat (ec_nfb_index c)) env (ec_chan c) x w = Inr (ret1, ch, x, w1)" "chan_ok ch"
    using chan_ok_start_pp [OF c(3)] by blast
  obtain ret2 cs2 w2 where r: "nfb_start_channels env ret1 cs x w1 = Inr (ret2, cs2, x, w2)" "list_all (ech_ok channelc) cs2"
    "map ec_nfb_index cs2 = map ec_nfb_index cs" using Cons.IH [of ret1 w1] Cons.prems by auto
  have "ech_ok channelc (c\<lparr>ec_chan := ch\<rparr>)" using c s(2) by (simp add: ech_ok_def)
  then show ?case using c(1) s r by simp
qed simp

lemma stop_channels_return:
  assumes "list_all (ech_ok channelc) cs"
  shows "\<exists>cs' w'. stop_channels_loop env cs x w = Inr (cs', x, w') \<and> list_all (ech_ok channelc) cs' \<and> map ec_nfb_index cs' = map ec_nfb_index cs"
  using assms
proof (induction cs arbitrary: w)
  case (Cons c cs)
  then have c: "ec_ethdev c" "ec_nfb_index c < channelc" "chan_ok (ec_chan c)" by (simp_all add: ech_ok_def)
  obtain ret1 ch w1 where s: "channel_stop (unat (ec_nfb_index c)) env (ec_chan c) x w = Inr (ret1, ch, x, w1)" "chan_ok ch"
    using chan_ok_stop [OF c(3)] by blast
  obtain cs2 w2 where r: "stop_channels_loop env cs x w1 = Inr (cs2, x, w2)" "list_all (ech_ok channelc) cs2"
    "map ec_nfb_index cs2 = map ec_nfb_index cs" using Cons.IH [of w1] Cons.prems by auto
  have "ech_ok channelc (c\<lparr>ec_chan := ch\<rparr>)" using c s(2) by (simp add: ech_ok_def)
  then show ?case using c(1) s r by simp
qed simp

lemma counted_ok: "dev_ok channelc d \<Longrightarrow> counted d = ed_channels d \<and> list_all (ech_ok channelc) (ed_channels d)"
  by (simp add: dev_ok_def counted_def)

lemma recount_ok:
  assumes "dev_ok channelc d" and "list_all (ech_ok channelc) cs" and "map ec_nfb_index cs = queues d"
  shows "dev_ok channelc (recount d cs) \<and> queues (recount d cs) = queues d \<and> ed_index (recount d cs) = ed_index d"
proof -
  have "length cs = length (ed_channels d)" using assms(3) by (metis length_map queues_def)
  then show ?thesis using assms by (simp add: dev_ok_def recount_def queues_def)
qed

lemma open_return:
  assumes "dev_ok channelc d"
  shows "\<exists>ret d' w'. nfb_xdp_open env ret0 d x w = Inr (ret, d', x, w') \<and> dev_ok channelc d' \<and> queues d' = queues d \<and> ed_index d' = ed_index d"
proof -
  obtain ret cs w' where r: "nfb_start_channels env ret0 (counted d) x w = Inr (ret, cs, x, w')" "list_all (ech_ok channelc) cs"
    "map ec_nfb_index cs = queues d"
    using start_channels_return [of channelc "ed_channels d" env ret0 x w] counted_ok [OF assms] by (auto simp: queues_def)
  show ?thesis using recount_ok [OF assms r(2,3)] by (simp add: nfb_xdp_open_def r(1) dev_ok_def queues_def)
qed

lemma stop_return:
  assumes "dev_ok channelc d"
  shows "\<exists>d' w'. nfb_xdp_stop env d x w = Inr (d', x, w') \<and> dev_ok channelc d' \<and> queues d' = queues d \<and> ed_index d' = ed_index d"
proof -
  obtain cs w' where r: "stop_channels_loop env (counted d) x w = Inr (cs, x, w')" "list_all (ech_ok channelc) cs"
    "map ec_nfb_index cs = queues d"
    using stop_channels_return [of channelc "ed_channels d" env x w] counted_ok [OF assms] by (auto simp: queues_def)
  show ?thesis using recount_ok [OF assms r(2,3)] by (simp add: nfb_xdp_stop_def nfb_stop_channels_def r(1) dev_ok_def queues_def)
qed

lemma destroy_return:
  assumes "list_all (dev_ok channelc) ds"
  shows "\<exists>w'. destroy_loop env index ds ret x w =
    Inr (if list_ex (\<lambda>d. index = ed_index d \<or> index = -1) ds then 0 else ret, filter (\<lambda>d. \<not> (index = ed_index d \<or> index = -1)) ds, x, w')"
  using assms
proof (induction ds arbitrary: ret w)
  case (Cons d ds)
  then have d: "dev_ok channelc d" and ds: "list_all (dev_ok channelc) ds" by simp_all
  obtain d' w1 where s: "(if ed_up d then nfb_xdp_stop env d x w else Inr (d, x, w)) = Inr (d', x, w1)"
    using stop_return [OF d, of env x w] by (cases "ed_up d") auto
  show ?case
  proof (cases "index = ed_index d \<or> index = -1")
    case True
    then show ?thesis using Cons.IH [OF ds, of 0 w1] s by auto
  next
    case False
    then show ?thesis using Cons.IH [OF ds, of ret w] by auto
  qed
qed simp

section \<open>All runs of the command file\<close>

definition mod_ok :: "xmodule \<Rightarrow> bool" where
  "mod_ok m \<longleftrightarrow> list_all (dev_ok (xm_channelc m)) (xm_devices m) \<and>
     sorted_wrt (\<lambda>d e. ed_index d \<noteq> ed_index e \<and> set (queues d) \<inter> set (queues e) = {}) (xm_devices m)"

definition in_range :: "u16 \<Rightarrow> u32 list \<Rightarrow> bool" where
  "in_range channelc idxs \<longleftrightarrow> length idxs < 2 ^ 16 \<and> list_all (\<lambda>i. unat i < unat channelc) idxs"

definition cmd_idxs :: "(string \<Rightarrow> u32 option) \<Rightarrow> u16 \<Rightarrow> cmd_token list \<Rightarrow> u32 list option" where
  "cmd_idxs scan channelc tokens =
     (case parse_options tokens \<lparr>co_index = -1, co_cmd = None, co_queues = None\<rparr> of
        Inl e \<Rightarrow> None | Inr o1 \<Rightarrow> cmd_queues scan channelc (co_queues o1))"

text \<open>Devices are added and removed through the command file, and opened and closed by the network stack, in any order and
with any answer of the kernel.  The queues that a command names exist.\<close>

inductive xm_run :: "xmodule \<Rightarrow> xworld \<Rightarrow> awld \<Rightarrow> bool" where
  attach: "nfb_xdp_attach True ec rc tc True 0 0 = (0, Some m) \<Longrightarrow> xm_run m x w"
| cmd: "xm_run m x w \<Longrightarrow> cmd_store trm mem scan env ev tokens m x w = Inr (ret, m', x', w') \<Longrightarrow>
    (\<And>idxs. cmd_idxs scan (xm_channelc m) tokens = Some idxs \<Longrightarrow> in_range (xm_channelc m) idxs) \<Longrightarrow> xm_run m' x' w'"
| ifup: "xm_run m x w \<Longrightarrow> i < length (xm_devices m) \<Longrightarrow> nfb_xdp_open env ret0 (xm_devices m ! i) x w = Inr (ret, d', x', w') \<Longrightarrow>
    xm_run (m\<lparr>xm_devices := (xm_devices m)[i := d']\<rparr>) x' w'"
| ifdown: "xm_run m x w \<Longrightarrow> i < length (xm_devices m) \<Longrightarrow> nfb_xdp_stop env (xm_devices m ! i) x w = Inr (d', x', w') \<Longrightarrow>
    xm_run (m\<lparr>xm_devices := (xm_devices m)[i := d']\<rparr>) x' w'"
| link: "xm_run m x w \<Longrightarrow> i < length (xm_devices m) \<Longrightarrow>
    xm_run (m\<lparr>xm_devices := (xm_devices m)[i := link_work_handler get_link (xm_devices m ! i)]\<rparr>) x w"

lemma made_queues: "map ec_nfb_index (made ns) = map of_nat ns"
  by (rule nth_equalityI) (simp_all add: made_def nth_enumerate_eq)

lemma made_ok:
  assumes "\<forall>n \<in> set ns. n < unat channelc"
  shows "list_all (ech_ok channelc) (made ns)"
proof -
  have "(of_nat n :: u16) < channelc" if "n < unat channelc" for n
    using that unsigned_less [of channelc, where 'a = nat] by (simp add: word_less_nat_alt unsigned_of_nat take_bit_nat_eq_self)
  then show ?thesis
    using assms by (auto simp: made_def list_all_iff ech_ok_def zero_ech_def chan_ok_def in_set_enumerate_eq)
qed

lemma init_in_range:
  assumes "in_range channelc idxs"
  shows "nfb_xdp_channels_init channelc idxs = made (sort (map unat idxs))"
proof -
  have "filter (\<lambda>c. unat c < unat channelc) idxs = idxs" "filter (\<lambda>c. \<not> unat c < unat channelc) idxs = []"
    using assms by (auto simp: in_range_def list_all_iff filter_empty_conv)
  moreover have "unat channelc \<le> 2 ^ 32" using unsigned_less [of channelc, where 'a = nat] by simp
  ultimately show ?thesis by (simp add: nfb_xdp_channels_init_def fold_rows_made rows_sort)
qed

lemma create_ok:
  assumes "mod_ok m" and "in_range (xm_channelc m) idxs" and "create_ethdev ev m index idxs = (ret, m')"
  shows "mod_ok m' \<and> xm_channelc m' = xm_channelc m"
proof (cases "m' = m")
  case False
  let ?chs = "nfb_xdp_channels_init (xm_channelc m) idxs"
  from False assms(3) obtain macs where m': "m' = m\<lparr>xm_devices := xm_devices m @ [\<lparr>ed_index = uint index, ed_channel_count = of_nat (length idxs),
      ed_channels = ?chs, ed_macs = macs, ed_prog = None, ed_up = False, ed_carrier = False\<rparr>]\<rparr>" (is "_ = m\<lparr>xm_devices := _ @ [?d]\<rparr>")
    and free: "\<not> list_ex (in_use index idxs) (xm_devices m)"
    by (auto simp: create_ethdev_def split: if_splits prod.splits)
  have chs: "?chs = made (sort (map unat idxs))" by (rule init_in_range [OF assms(2)])
  have idx: "unat i < unat (xm_channelc m)" "unat i < 2 ^ 16" if "i \<in> set idxs" for i
    using that assms(2) unsigned_less [of "xm_channelc m", where 'a = nat] by (auto simp: in_range_def list_all_iff dest!: bspec)
  have d: "dev_ok (xm_channelc m) ?d"
    using made_ok [of "sort (map unat idxs)" "xm_channelc m"] assms(2) idx(1)
    by (simp add: dev_ok_def chs in_range_def unsigned_of_nat take_bit_nat_eq_self)
  have "set (queues e) \<inter> set (queues ?d) = {} \<and> ed_index e \<noteq> ed_index ?d" if e: "e \<in> set (xm_devices m)" for e
  proof -
    have u: "\<not> in_use index idxs e" using free e by (auto simp: list_ex_iff)
    have "dev_ok (xm_channelc m) e" using assms(1) e by (auto simp: mod_ok_def list_all_iff)
    then have c: "counted e = ed_channels e" by (simp add: counted_ok)
    have "q \<notin> set (queues e)" if "i \<in> set idxs" "q = of_nat (unat i)" for i q
    proof
      assume "q \<in> set (queues e)"
      then obtain ch where "ch \<in> set (ed_channels e)" "q = ec_nfb_index ch" by (auto simp: queues_def)
      moreover have "unat (ucast q :: u32) = unat i"
        using idx(2) [OF that(1)] that(2) by (simp add: unsigned_of_nat unsigned_ucast_eq unsigned_take_bit_eq take_bit_nat_eq_self)
      then have "ucast q = i" by (simp only: unsigned_word_eqI)
      ultimately show False using u that(1) c by (auto simp: in_use_def)
    qed
    moreover have "set (queues ?d) = (\<lambda>i. of_nat (unat i)) ` set idxs" by (simp add: queues_def chs made_queues image_comp)
    ultimately have "set (queues e) \<inter> set (queues ?d) = {}" by blast
    then show ?thesis using u by (simp add: in_use_def)
  qed
  then have "sorted_wrt (\<lambda>d e. ed_index d \<noteq> ed_index e \<and> set (queues d) \<inter> set (queues e) = {}) (xm_devices m @ [?d])"
    using assms(1) by (auto simp: mod_ok_def sorted_wrt_append)
  then show ?thesis using assms(1) d m' by (simp add: mod_ok_def)
qed (use assms in simp)

lemma update_ok:
  assumes "mod_ok m" and "i < length (xm_devices m)" and "dev_ok (xm_channelc m) d'" and "queues d' = queues (xm_devices m ! i)"
    and "ed_index d' = ed_index (xm_devices m ! i)"
  shows "mod_ok (m\<lparr>xm_devices := (xm_devices m)[i := d']\<rparr>)"
  using assms by (auto simp: mod_ok_def list_all_length sorted_wrt_iff_nth_less nth_list_update)

lemma destroy_ok:
  assumes "mod_ok m"
  shows "\<exists>ret m' w'. destroy_ethdev env m index x w = Inr (ret, m', x, w') \<and> mod_ok m' \<and> xm_channelc m' = xm_channelc m"
proof -
  have "list_all (dev_ok (xm_channelc m)) (xm_devices m)" using assms by (simp add: mod_ok_def)
  from destroy_return [OF this, of env index "- ENODEV" x w] show ?thesis
    using assms by (auto simp: destroy_ethdev_def mod_ok_def list_all_iff intro: sorted_wrt_filter)
qed

lemma cmd_ok:
  assumes "mod_ok m" and "\<And>idxs. cmd_idxs scan (xm_channelc m) tokens = Some idxs \<Longrightarrow> in_range (xm_channelc m) idxs"
  shows "\<exists>ret m' w'. cmd_store trm mem scan env ev tokens m x w = Inr (ret, m', x, w') \<and> mod_ok m'"
proof (cases "parse_options tokens \<lparr>co_index = -1, co_cmd = None, co_queues = None\<rparr>")
  case (Inl e)
  then show ?thesis using assms(1) by (simp add: cmd_store_def)
next
  case (Inr o1)
  have c: "mod_ok (snd (create_ethdev ev m index idxs))" if "cmd_queues scan (xm_channelc m) (co_queues o1) = Some idxs" for idxs index
    using create_ok [OF assms(1) assms(2) [of idxs], of ev index] that Inr by (simp add: cmd_idxs_def) (metis prod.collapse)
  have d: "\<exists>ret m' w'. destroy_ethdev env m index x w = Inr (ret, m', x, w') \<and> mod_ok m'" for index
    using destroy_ok [OF assms(1)] by blast
  show ?thesis
    using assms(1) d [of "co_index o1"] c by (auto simp: cmd_store_def Inr case_prod_beta split: option.split)
qed

lemma run_ok: "xm_run m x w \<Longrightarrow> mod_ok m"
proof (induction rule: xm_run.induct)
  case (attach ec rc tc m x w)
  then show ?case by (auto simp: nfb_xdp_attach_def Let_def mod_ok_def split: if_splits)
next
  case (cmd m x w trm mem scan env ev tokens ret m' x' w')
  have "\<exists>ret m' w'. cmd_store trm mem scan env ev tokens m x w = Inr (ret, m', x, w') \<and> mod_ok m'" by (rule cmd_ok [OF cmd.IH cmd.hyps(3)])
  then show ?case using cmd.hyps(2) by auto
next
  case (ifup m x w i env ret0 ret d' x' w')
  then have "dev_ok (xm_channelc m) (xm_devices m ! i)" by (simp add: mod_ok_def list_all_length)
  from open_return [OF this, of env ret0 x w] ifup.hyps(3) have "dev_ok (xm_channelc m) d' \<and> queues d' = queues (xm_devices m ! i) \<and>
    ed_index d' = ed_index (xm_devices m ! i)" by auto
  then show ?case using update_ok [OF ifup.IH ifup.hyps(2)] by blast
next
  case (ifdown m x w i env d' x' w')
  then have "dev_ok (xm_channelc m) (xm_devices m ! i)" by (simp add: mod_ok_def list_all_length)
  from stop_return [OF this, of env x w] ifdown.hyps(3) have "dev_ok (xm_channelc m) d' \<and> queues d' = queues (xm_devices m ! i) \<and>
    ed_index d' = ed_index (xm_devices m ! i)" by auto
  then show ?case using update_ok [OF ifdown.IH ifdown.hyps(2)] by blast
next
  case (link m x w i get_link)
  then have "dev_ok (xm_channelc m) (xm_devices m ! i)" by (simp add: mod_ok_def list_all_length)
  then show ?case using update_ok [OF link.IH link.hyps(2)] by (simp add: link_work_handler_def Let_def dev_ok_def queues_def)
qed

text \<open>C8.  However devices are added, removed, opened and closed, with commands that name existing queues: two devices never have the same index,
no hardware queue belongs to two devices, every channel is mapped to an existing queue, and no
command, open or close reads through a null pointer.\<close>

theorem xdp_devices_disjoint:
  assumes "xm_run m x w"
  shows "(\<forall>i j. i < j \<and> j < length (xm_devices m) \<longrightarrow>
      ed_index (xm_devices m ! i) \<noteq> ed_index (xm_devices m ! j) \<and> set (queues (xm_devices m ! i)) \<inter> set (queues (xm_devices m ! j)) = {}) \<and>
    (\<forall>d \<in> set (xm_devices m). (\<forall>q \<in> set (queues d). q < xm_channelc m) \<and>
      (\<forall>env ret0. \<exists>ret d' w'. nfb_xdp_open env ret0 d x w = Inr (ret, d', x, w')) \<and>
      (\<forall>env. \<exists>d' w'. nfb_xdp_stop env d x w = Inr (d', x, w'))) \<and>
    (\<forall>env index. \<exists>ret m' w'. destroy_ethdev env m index x w = Inr (ret, m', x, w'))"
proof (intro conjI ballI allI)
  have ok: "mod_ok m" by (rule run_ok [OF assms])
  then show "i < j \<and> j < length (xm_devices m) \<longrightarrow>
      ed_index (xm_devices m ! i) \<noteq> ed_index (xm_devices m ! j) \<and> set (queues (xm_devices m ! i)) \<inter> set (queues (xm_devices m ! j)) = {}" for i j
    by (simp add: mod_ok_def sorted_wrt_iff_nth_less)
  fix d
  assume "d \<in> set (xm_devices m)"
  then have d: "dev_ok (xm_channelc m) d" using ok by (simp add: mod_ok_def list_all_iff)
  show "q < xm_channelc m" if "q \<in> set (queues d)" for q using d that by (auto simp: dev_ok_def list_all_iff ech_ok_def queues_def)
  show "\<exists>ret d' w'. nfb_xdp_open env ret0 d x w = Inr (ret, d', x, w')" for env ret0 using open_return [OF d] by blast
  show "\<exists>d' w'. nfb_xdp_stop env d x w = Inr (d', x, w')" for env using stop_return [OF d] by blast
next
  show "\<exists>ret m' w'. destroy_ethdev env m index x w = Inr (ret, m', x, w')" for env index
    using destroy_ok [OF run_ok [OF assms]] by blast
qed

definition example_module :: xmodule where "example_module = \<lparr>xm_ethc = 2, xm_channelc = 4, xm_devices = []\<rparr>"

definition example_eenv :: eenv where
  "example_eenv = \<lparr>ee_netdev_ok = True, ee_channels_ok = True, ee_macs_ok = True, ee_mac_found = (\<lambda>_. True), ee_mac_open = (\<lambda>_. True), ee_register = 0\<rparr>"

definition example_scan :: "string \<Rightarrow> u32 option" where
  "example_scan s = (if s = ''1'' then Some 1 else if s = ''3'' then Some 3 else None)"

lemma start_channels_fault:
  assumes "list_all (\<lambda>c. chan_ok (ec_chan c)) cs" and "\<exists>c \<in> set cs. \<not> ec_ethdev c"
  shows "nfb_start_channels env ret cs x w = Inl XFault"
  using assms
proof (induction cs arbitrary: ret w)
  case (Cons c cs)
  show ?case
  proof (cases "ec_ethdev c")
    case True
    obtain ret1 ch w1 where s: "channel_start_pp (unat (ec_nfb_index c)) env (ec_chan c) x w = Inr (ret1, ch, x, w1)"
      using chan_ok_start_pp [of "ec_chan c"] Cons.prems(1) by fastforce
    then show ?thesis using True Cons by simp
  qed simp
qed simp

text \<open>A command that names a queue the card does not have is accepted, and opening the new device then reads through the null
pointer of the channel that was not mapped.\<close>

theorem xdp_bad_queue_faults:
  assumes "create_ethdev ev m index idxs = (0, m')" and "length idxs < 2 ^ 16" and "i \<in> set idxs" and "unat (xm_channelc m) \<le> unat i"
  shows "xm_devices m' \<noteq> [] \<and> nfb_xdp_open env ret0 (last (xm_devices m')) x w = Inl XFault"
proof -
  let ?chs = "nfb_xdp_channels_init (xm_channelc m) idxs"
  from assms(1) obtain macs where m': "m' = m\<lparr>xm_devices := xm_devices m @ [\<lparr>ed_index = uint index, ed_channel_count = of_nat (length idxs),
      ed_channels = ?chs, ed_macs = macs, ed_prog = None, ed_up = False, ed_carrier = False\<rparr>]\<rparr>"
    by (auto simp: create_ethdev_def split: if_splits prod.splits)
  have N: "unat (xm_channelc m) \<le> 2 ^ 32" using unsigned_less [of "xm_channelc m", where 'a = nat] by simp
  note chs = nfb_xdp_channels_init_def [of "xm_channelc m" idxs, unfolded fold_rows_made [OF N] snd_conv]
  have "length (filter (\<lambda>c. unat c < unat (xm_channelc m)) idxs) < length idxs" using assms(3,4) by (intro length_filter_less) auto
  then have z: "zero_ech \<in> set ?chs" by (simp add: chs rows_sort [OF N])
  have l: "length ?chs = length idxs" using rows_length [OF N, of idxs] by (simp add: chs)
  have "list_all (\<lambda>c. chan_ok (ec_chan c)) ?chs"
    by (auto simp: chs list_all_iff made_def zero_ech_def chan_ok_def)
  moreover have "\<exists>c \<in> set ?chs. \<not> ec_ethdev c" by (rule bexI [OF _ z]) (simp add: zero_ech_def)
  ultimately have "nfb_start_channels env ret0 ?chs x w = Inl XFault" by (rule start_channels_fault)
  then show ?thesis
    using l assms(2) m' by (simp add: nfb_xdp_open_def counted_def unsigned_of_nat take_bit_nat_eq_self)
qed

lemma example_macs: "fst (open_macs example_eenv ethc channelc idxs ms macs)"
  by (induction ms arbitrary: macs) (simp_all add: example_eenv_def)

lemma example_create:
  "create_ethdev example_eenv example_module 5 idxs = (0, example_module\<lparr>xm_devices := [\<lparr>ed_index = 5, ed_channel_count = of_nat (length idxs),
      ed_channels = nfb_xdp_channels_init 4 idxs, ed_macs = snd (open_macs example_eenv 2 4 idxs [0..<2] []), ed_prog = None, ed_up = False,
      ed_carrier = False\<rparr>]\<rparr>)"
  using example_macs [of 2 4 idxs "[0..<2]" "[]"]
  by (auto simp: create_ethdev_def example_module_def example_eenv_def split: prod.splits)

theorem xdp_bad_queue_faults_witness:
  "\<exists>m'. create_ethdev example_eenv example_module 5 [1, 7] = (0, m') \<and>
     nfb_xdp_open (example_env False) 0 (last (xm_devices m')) (example_xworld example_map) (example_awld (\<lambda>_. True)) = Inl XFault"
  using xdp_bad_queue_faults [OF example_create [of "[1, 7]"], of 7] example_create [of "[1, 7]"] by (simp add: example_module_def)

text \<open>The device with queues 1 and 3, added through the command file.\<close>

lemma example_xm_run:
  "\<exists>m. xm_run m (example_xworld example_map) (example_awld (\<lambda>_. True)) \<and> length (xm_devices m) = 1"
proof -
  let ?x = "example_xworld example_map" and ?w = "example_awld (\<lambda>_. True)"
  let ?t = "[Opt_cmd (Some ''add''), Opt_id (Inr 5), Opt_qidxs (Some ''3:1'')]"
  have "nfb_xdp_attach True 2 4 4 True 0 0 = (0, Some example_module)" by (simp add: nfb_xdp_attach_def example_module_def)
  then have r: "xm_run example_module ?x ?w" by (rule xm_run.attach)
  have q: "cmd_queues example_scan (xm_channelc example_module) (Some ''3:1'') = Some [3, 1]"
    by (simp add: cmd_queues_def example_scan_def)
  obtain m' where m': "create_ethdev example_eenv example_module 5 [3, 1] = (0, m')" "length (xm_devices m') = 1"
    using example_create [of "[3, 1]"] by auto
  have "cmd_store True True example_scan (example_env False) example_eenv ?t example_module ?x ?w = Inr (0, m', ?x, ?w)"
    using q m'(1) by (simp add: cmd_store_def)
  moreover have "in_range (xm_channelc example_module) idxs" if "cmd_idxs example_scan (xm_channelc example_module) ?t = Some idxs" for idxs
    using that q by (simp add: cmd_idxs_def in_range_def example_module_def)
  ultimately have "xm_run m' ?x ?w" by (rule xm_run.cmd [OF r])
  then show ?thesis using m'(2) by blast
qed

theorem xdp_devices_disjoint_witness:
  "\<exists>m :: xmodule. length (xm_devices m) = 1 \<and> (\<forall>d \<in> set (xm_devices m). \<forall>env ret0. \<exists>ret d' w'.
     nfb_xdp_open env ret0 d (example_xworld example_map) (example_awld (\<lambda>_. True)) = Inr (ret, d', example_xworld example_map, w'))"
proof -
  obtain m where m: "xm_run m (example_xworld example_map) (example_awld (\<lambda>_. True))" "length (xm_devices m) = 1"
    using example_xm_run by blast
  show ?thesis by (rule exI [of _ m]) (simp add: m(2) conjunct1 [OF conjunct2 [OF xdp_devices_disjoint [OF m(1)]]])
qed

end
