(* ===== verification/FwFiles.thy ===== *)
theory FwFiles
  imports Prelude
begin

text \<open>
  The firmware files that \<open>libnfb\<close> reads, \<open>libnfb/src/boot\<close>: the bit order (\<open>bit_reverse_table.c\<close>), raw programming data (\<open>filetype_rpd.c\<close>),
  Xilinx bitstreams (\<open>filetype_bit.c\<close>), Intel HEX (\<open>filetype_mcs.c\<close>) and the raw binary file of \<open>boot.c\<close>.

  A file is the list of its bytes; the result of a reader is the bytes of the buffer it returns together with the size
  it returns, which may differ.  Memory is little endian.  \<open>malloc\<close> returns \<open>junk\<close>, an unknown list of bytes, and does not
  fail for a file that was read.
\<close>

unbundle bit_operations_syntax

section \<open>Bit order\<close>

definition bitReverseTable256 :: "u8 list" where
  "bitReverseTable256 = [
     0x00, 0x80, 0x40, 0xC0, 0x20, 0xA0, 0x60, 0xE0, 0x10, 0x90, 0x50, 0xD0, 0x30, 0xB0, 0x70, 0xF0,
     0x08, 0x88, 0x48, 0xC8, 0x28, 0xA8, 0x68, 0xE8, 0x18, 0x98, 0x58, 0xD8, 0x38, 0xB8, 0x78, 0xF8,
     0x04, 0x84, 0x44, 0xC4, 0x24, 0xA4, 0x64, 0xE4, 0x14, 0x94, 0x54, 0xD4, 0x34, 0xB4, 0x74, 0xF4,
     0x0C, 0x8C, 0x4C, 0xCC, 0x2C, 0xAC, 0x6C, 0xEC, 0x1C, 0x9C, 0x5C, 0xDC, 0x3C, 0xBC, 0x7C, 0xFC,
     0x02, 0x82, 0x42, 0xC2, 0x22, 0xA2, 0x62, 0xE2, 0x12, 0x92, 0x52, 0xD2, 0x32, 0xB2, 0x72, 0xF2,
     0x0A, 0x8A, 0x4A, 0xCA, 0x2A, 0xAA, 0x6A, 0xEA, 0x1A, 0x9A, 0x5A, 0xDA, 0x3A, 0xBA, 0x7A, 0xFA,
     0x06, 0x86, 0x46, 0xC6, 0x26, 0xA6, 0x66, 0xE6, 0x16, 0x96, 0x56, 0xD6, 0x36, 0xB6, 0x76, 0xF6,
     0x0E, 0x8E, 0x4E, 0xCE, 0x2E, 0xAE, 0x6E, 0xEE, 0x1E, 0x9E, 0x5E, 0xDE, 0x3E, 0xBE, 0x7E, 0xFE,
     0x01, 0x81, 0x41, 0xC1, 0x21, 0xA1, 0x61, 0xE1, 0x11, 0x91, 0x51, 0xD1, 0x31, 0xB1, 0x71, 0xF1,
     0x09, 0x89, 0x49, 0xC9, 0x29, 0xA9, 0x69, 0xE9, 0x19, 0x99, 0x59, 0xD9, 0x39, 0xB9, 0x79, 0xF9,
     0x05, 0x85, 0x45, 0xC5, 0x25, 0xA5, 0x65, 0xE5, 0x15, 0x95, 0x55, 0xD5, 0x35, 0xB5, 0x75, 0xF5,
     0x0D, 0x8D, 0x4D, 0xCD, 0x2D, 0xAD, 0x6D, 0xED, 0x1D, 0x9D, 0x5D, 0xDD, 0x3D, 0xBD, 0x7D, 0xFD,
     0x03, 0x83, 0x43, 0xC3, 0x23, 0xA3, 0x63, 0xE3, 0x13, 0x93, 0x53, 0xD3, 0x33, 0xB3, 0x73, 0xF3,
     0x0B, 0x8B, 0x4B, 0xCB, 0x2B, 0xAB, 0x6B, 0xEB, 0x1B, 0x9B, 0x5B, 0xDB, 0x3B, 0xBB, 0x7B, 0xFB,
     0x07, 0x87, 0x47, 0xC7, 0x27, 0xA7, 0x67, 0xE7, 0x17, 0x97, 0x57, 0xD7, 0x37, 0xB7, 0x77, 0xF7,
     0x0F, 0x8F, 0x4F, 0xCF, 0x2F, 0xAF, 0x6F, 0xEF, 0x1F, 0x9F, 0x5F, 0xDF, 0x3F, 0xBF, 0x7F, 0xFF]"

definition reverseBits16 :: "u16 \<Rightarrow> u16" where
  "reverseBits16 num =
     push_bit 8 (ucast (bitReverseTable256 ! unat (num AND 0xff))) OR ucast (bitReverseTable256 ! unat (drop_bit 8 num AND 0xff))"

definition nfb_fw_bitstream_reverse_bits_8 :: "u8 list \<Rightarrow> nat \<Rightarrow> u8 list" where
  "nfb_fw_bitstream_reverse_bits_8 data sz = map (\<lambda>b. bitReverseTable256 ! unat b) (take sz data) @ drop sz data"

text \<open>16-bit words in memory.\<close>

definition get16 :: "u8 \<Rightarrow> u8 \<Rightarrow> u16" where
  "get16 a b = ucast a OR push_bit 8 (ucast b)"

definition put16 :: "u16 \<Rightarrow> u8 list" where
  "put16 v = [ucast v, ucast (drop_bit 8 v)]"

fun reverse_words :: "nat \<Rightarrow> u8 list \<Rightarrow> u8 list" where
  "reverse_words (Suc n) (a # b # data) = put16 (reverseBits16 (get16 a b)) @ reverse_words n data"
| "reverse_words n data = data"

definition nfb_fw_bitstream_reverse_bits_16 :: "u8 list \<Rightarrow> nat \<Rightarrow> u8 list" where
  "nfb_fw_bitstream_reverse_bits_16 data sz = reverse_words (sz div 2) data"

section \<open>Readers\<close>

datatype fw_res = FwUndef | FwFail int | FwData "u8 list" int

datatype bitstream_format = BITSTREAM_FORMAT_BPI16 | BITSTREAM_FORMAT_SPI4 | BITSTREAM_FORMAT_INTEL_AVST | BITSTREAM_FORMAT_INTEL_AS | BITSTREAM_FORMAT_NATIVE

text \<open>A reader reverses the bits of as many bytes as it returns.\<close>

definition fw_reverse :: "(u8 list \<Rightarrow> nat \<Rightarrow> u8 list) \<Rightarrow> fw_res \<Rightarrow> fw_res" where
  "fw_reverse f r = (case r of FwData data ret \<Rightarrow> FwData (if ret > 0 then f data (nat ret) else data) ret | _ \<Rightarrow> r)"

subsection \<open>Raw programming data\<close>

definition nfb_fw_open_rpd_raw :: "u8 list \<Rightarrow> fw_res" where
  "nfb_fw_open_rpd_raw file = (if file = [] then FwFail (- 1) else FwData file (int (length file)))"

definition nfb_fw_open_rpd :: "u8 list \<Rightarrow> bitstream_format \<Rightarrow> fw_res" where
  "nfb_fw_open_rpd file f =
     (let r = nfb_fw_open_rpd_raw file in if f = BITSTREAM_FORMAT_INTEL_AS then fw_reverse nfb_fw_bitstream_reverse_bits_8 r else r)"

subsection \<open>Xilinx bitstreams\<close>

text \<open>32 bytes 0xFF, eight other bytes, and eight bytes 0xFF again.\<close>

definition bit_sync :: "u8 list \<Rightarrow> nat \<Rightarrow> bool" where
  "bit_sync data8 i =
     (let first_valid = length (filter (\<lambda>j. data8 ! j = 0xFF) [i..<i + 32]);
          second_valid = (if first_valid = 32 then length (filter (\<lambda>z. data8 ! z = 0xFF) [i + 32 + 8..<i + 32 + 16]) else 0)
      in data8 ! i = 0xFF \<and> second_valid = 8)"

definition nfb_fw_open_bit_raw :: "u8 list \<Rightarrow> fw_res" where
  "nfb_fw_open_bit_raw file =
     (let data8 = take 1024 file
      in if length file < 1024 then FwFail (- 1)
      else case find (bit_sync data8) [0..<512] of
        None \<Rightarrow> FwFail (- 1)
      | Some offset \<Rightarrow>
        let sz = int (length file) - int offset
        in FwData (drop offset file) (sz - int offset))"

definition nfb_fw_open_bit :: "u8 list \<Rightarrow> bitstream_format \<Rightarrow> fw_res" where
  "nfb_fw_open_bit file f =
     (let r = nfb_fw_open_bit_raw file in if f \<noteq> BITSTREAM_FORMAT_SPI4 then fw_reverse nfb_fw_bitstream_reverse_bits_16 r else r)"

definition nfb_fw_read_bit :: "u8 list \<Rightarrow> fw_res" where
  "nfb_fw_read_bit file = nfb_fw_open_bit file BITSTREAM_FORMAT_BPI16"

subsection \<open>Intel HEX\<close>

text \<open>\<open>fgets\<close> with a buffer of 128 bytes reads at most 127 and stops after a line feed; the rest of the buffer keeps what it held.\<close>

definition fgets_line :: "u8 list \<Rightarrow> u8 list" where
  "fgets_line file = (let t = take 127 file; p = takeWhile (\<lambda>c. c \<noteq> 10) t in if length p < length t then p @ [10] else p)"

lemma fgets_line_not_empty: "fd \<noteq> [] \<Longrightarrow> 0 < length (fgets_line fd)"
  by (cases "fd") (auto simp: fgets_line_def Let_def)

function fgets_all :: "u8 list \<Rightarrow> u8 list list" where
  "fgets_all file = (if file = [] then [] else fgets_line file # fgets_all (drop (length (fgets_line file)) file))"
  by auto
termination
  by (relation "measure length") (auto intro!: diff_less fgets_line_not_empty)

declare fgets_all.simps [simp del]

definition fill_buffer :: "u8 list \<Rightarrow> u8 list \<Rightarrow> u8 list" where
  "fill_buffer line buffer = line @ [0] @ drop (Suc (length line)) buffer"

definition cstr :: "nat \<Rightarrow> u8 list \<Rightarrow> u8 list" where
  "cstr p buffer = takeWhile (\<lambda>c. c \<noteq> 0) (drop p buffer)"

text \<open>The conversion \<open>%x\<close> of \<open>sscanf\<close> with a width: white space, a sign, a prefix and digits.\<close>

definition is_space :: "u8 \<Rightarrow> bool" where
  "is_space c \<longleftrightarrow> c \<in> {9, 10, 11, 12, 13, 32}"

definition hex_val :: "u8 \<Rightarrow> u32 option" where
  "hex_val c = (if 48 \<le> c \<and> c \<le> 57 then Some (ucast c - 48)
     else if 65 \<le> c \<and> c \<le> 70 then Some (ucast c - 55) else if 97 \<le> c \<and> c \<le> 102 then Some (ucast c - 87) else None)"

fun scan_digits :: "nat \<Rightarrow> u32 \<Rightarrow> u8 list \<Rightarrow> nat \<times> u32 \<times> u8 list" where
  "scan_digits 0 v s = (0, v, s)"
| "scan_digits (Suc w) v [] = (0, v, [])"
| "scan_digits (Suc w) v (c # s) =
     (case hex_val c of None \<Rightarrow> (0, v, c # s) | Some d \<Rightarrow> (case scan_digits w (16 * v + d) s of (n, v1, s1) \<Rightarrow> (Suc n, v1, s1)))"

definition hex_prefix :: "nat \<Rightarrow> u8 list \<Rightarrow> bool" where
  "hex_prefix w s \<longleftrightarrow> 2 \<le> w \<and> (case s of a # c # r \<Rightarrow> a = 48 \<and> (c = 120 \<or> c = 88) | _ \<Rightarrow> False)"

definition scan_number :: "nat \<Rightarrow> u8 list \<Rightarrow> (u32 \<times> u8 list) option" where
  "scan_number w s =
     (case (if hex_prefix w s then scan_digits (w - 2) 0 (drop 2 s) else scan_digits w 0 s) of
        (n, v, s1) \<Rightarrow> if n = 0 then None else Some (v, s1))"

definition scan_hex :: "nat \<Rightarrow> u8 list \<Rightarrow> (u32 \<times> u8 list) option" where
  "scan_hex w s =
     (case dropWhile is_space s of
        [] \<Rightarrow> None
      | c # r \<Rightarrow>
        if c = 45 then map_option (\<lambda>(v, s1). (- v, s1)) (scan_number (w - 1) r)
        else if c = 43 then scan_number (w - 1) r
        else scan_number w (c # r))"

text \<open>The first line has to start like a record.\<close>

definition mcs_first :: "u8 list \<Rightarrow> bool" where
  "mcs_first buffer =
     (case cstr 0 buffer of
        [] \<Rightarrow> False
      | c # s \<Rightarrow> c = 58 \<and>
        (case scan_hex 2 s of None \<Rightarrow> False | Some (_, s1) \<Rightarrow>
         case scan_hex 4 s1 of None \<Rightarrow> False | Some (_, s2) \<Rightarrow>
         case scan_hex 2 s2 of None \<Rightarrow> False | Some (_, s3) \<Rightarrow> scan_hex 2 s3 \<noteq> None))"

definition mcs_is_data :: "u8 list \<Rightarrow> bool" where
  "mcs_is_data buffer \<longleftrightarrow> buffer ! 7 = 48 \<and> buffer ! 8 = 48"

definition mcs_word_size :: "u8 list \<Rightarrow> u32 \<Rightarrow> u32" where
  "mcs_word_size buffer word_size = (case scan_hex 2 (cstr 1 buffer) of Some (v, _) \<Rightarrow> v | None \<Rightarrow> word_size)"

definition mcs_count :: "u8 list \<Rightarrow> u8 list \<times> u32 \<times> nat \<Rightarrow> u8 list \<times> u32 \<times> nat" where
  "mcs_count line = (\<lambda>(buffer, word_size, sz).
     let buffer1 = fill_buffer line buffer
     in if mcs_is_data buffer1 then let ws = mcs_word_size buffer1 word_size in (buffer1, ws, sz + unat ws)
        else (buffer1, word_size, sz))"

definition bswap_32 :: "u32 \<Rightarrow> u32" where
  "bswap_32 v = (push_bit 24 v AND 0xFF000000) OR (push_bit 8 v AND 0x00FF0000) OR (drop_bit 8 v AND 0x0000FF00) OR (drop_bit 24 v AND 0x000000FF)"

definition put32 :: "u32 \<Rightarrow> u8 list" where
  "put32 v = [ucast v, ucast (drop_bit 8 v), ucast (drop_bit 16 v), ucast (drop_bit 24 v)]"

definition get32 :: "u8 list \<Rightarrow> u32" where
  "get32 bs = ucast (bs ! 0) OR push_bit 8 (ucast (bs ! 1)) OR push_bit 16 (ucast (bs ! 2)) OR push_bit 24 (ucast (bs ! 3))"

text \<open>One word: read past the end of the buffer or written past the end of the data it is undefined; a conversion that fails leaves
what \<open>malloc\<close> returned, and the bytes are swapped all the same.\<close>

definition mcs_store :: "u8 list \<Rightarrow> nat \<Rightarrow> nat \<times> u8 list \<Rightarrow> (nat \<times> u8 list) option" where
  "mcs_store buffer x = (\<lambda>(i, data).
     if 9 + x * 8 \<ge> 128 \<or> 4 * i + 4 > length data then None
     else
       let v = (case scan_hex 8 (cstr (9 + x * 8) buffer) of Some (v, _) \<Rightarrow> v | None \<Rightarrow> get32 (take 4 (drop (4 * i) data)))
       in Some (Suc i, take (4 * i) data @ put32 (bswap_32 v) @ drop (4 * i + 4) data))"

primrec mcs_words :: "u8 list \<Rightarrow> nat list \<Rightarrow> nat \<times> u8 list \<Rightarrow> (nat \<times> u8 list) option" where
  "mcs_words buffer [] st = Some st"
| "mcs_words buffer (x # xs) st = (case mcs_store buffer x st of None \<Rightarrow> None | Some st1 \<Rightarrow> mcs_words buffer xs st1)"

fun mcs_read :: "u8 list list \<Rightarrow> u8 list \<times> u32 \<Rightarrow> nat \<times> u8 list \<Rightarrow> u8 list option" where
  "mcs_read [] bw (i, data) = Some data"
| "mcs_read (line # lines) (buffer, word_size) st =
     (let buffer1 = fill_buffer line buffer
      in if mcs_is_data buffer1 then
           let ws = mcs_word_size buffer1 word_size
           in case mcs_words buffer1 [0..<unat ws div 4] st of None \<Rightarrow> None | Some st1 \<Rightarrow> mcs_read lines (buffer1, ws) st1
         else mcs_read lines (buffer1, word_size) st)"

text \<open>\<open>stack\<close> is the unknown content of the buffer, \<open>junk\<close> what \<open>malloc\<close> returns.\<close>

definition nfb_fw_open_mcs :: "u8 list \<Rightarrow> (nat \<Rightarrow> u8) \<Rightarrow> u8 list \<Rightarrow> fw_res" where
  "nfb_fw_open_mcs stack junk file =
     (case fgets_all file of
        [] \<Rightarrow> FwFail (- 1)
      | line # _ \<Rightarrow>
        let buffer = fill_buffer line stack
        in if \<not> mcs_first buffer then FwFail (- 1)
        else case fold mcs_count (fgets_all file) (buffer, 0, 0) of (buffer1, word_size, sz) \<Rightarrow>
          (case mcs_read (fgets_all file) (buffer1, word_size) (0, map junk [0..<sz]) of
             None \<Rightarrow> FwUndef
           | Some data \<Rightarrow> FwData data (int sz)))"

subsection \<open>Raw binary files\<close>

abbreviation (input) START_ADDR :: nat where "START_ADDR \<equiv> 0x20000"

abbreviation (input) BLOCK_SIZE :: nat where "BLOCK_SIZE \<equiv> 0x1000"

text \<open>The blocks of the file, each with its flags and its length in front.\<close>

function rbf_blocks :: "u8 list \<Rightarrow> u8 list" where
  "rbf_blocks file =
     (if file = [] then []
      else let block_size = min BLOCK_SIZE (length file)
      in put16 0x0401 @ put16 (of_nat block_size) @ take block_size file @ rbf_blocks (drop block_size file))"
  by auto
termination
  by (relation "measure length") auto

declare rbf_blocks.simps [simp del]

definition rbf_size_total :: "nat \<Rightarrow> nat" where
  "rbf_size_total size_file =
     (let block_count = (size_file + BLOCK_SIZE - 1) div BLOCK_SIZE;
          size_total = START_ADDR + size_file + 4 * block_count
      in size_total + (BLOCK_SIZE - size_total mod BLOCK_SIZE))"

definition put_at :: "nat \<Rightarrow> u8 list \<Rightarrow> u8 list \<Rightarrow> u8 list" where
  "put_at p bs data = take p data @ bs @ drop (p + length bs) data"

definition rbf_header :: "nat \<Rightarrow> u8 list" where
  "rbf_header size_total =
     put_at 128 (put16 0xFF05)
       (put_at 6 (put16 (of_nat (size_total div 4 div 65536))) (put_at 4 (put16 (of_nat (size_total div 4)))
         (put_at 2 (put16 (of_nat (START_ADDR div 4 div 65536))) (put_at 0 (put16 (of_nat (START_ADDR div 4)))
           (replicate START_ADDR 0xFF)))))"

text \<open>Writing past the buffer is undefined, and so is an overflow of the counter, an \<open>int\<close>.\<close>

definition nfb_fw_open_rbf :: "u8 list \<Rightarrow> fw_res" where
  "nfb_fw_open_rbf file =
     (let size_total = rbf_size_total (length file);
          body = rbf_header size_total @ rbf_blocks file;
          i = length body
      in if size_total < i \<or> 2 ^ 31 \<le> i then FwUndef
         else FwData (body @ replicate (size_total - i) 0xFF) (int i))"

section \<open>The choice of the reader\<close>

definition mcs_or_bit :: "u8 list \<Rightarrow> (nat \<Rightarrow> u8) \<Rightarrow> u8 list \<Rightarrow> bitstream_format \<Rightarrow> fw_res" where
  "mcs_or_bit stack junk file f = (case nfb_fw_open_mcs stack junk file of FwFail _ \<Rightarrow> nfb_fw_open_bit file f | r \<Rightarrow> r)"

definition nfb_fw_open :: "u8 list \<Rightarrow> (nat \<Rightarrow> u8) \<Rightarrow> u8 list option \<Rightarrow> fw_res" where
  "nfb_fw_open stack junk file = (case file of None \<Rightarrow> FwFail (- EBADF) | Some fd \<Rightarrow> mcs_or_bit stack junk fd BITSTREAM_FORMAT_BPI16)"

text \<open>What the reader looks for in the device tree: a board controller, the boot flags of the SDM controllers, and the interface types of the boot
controllers in their order.\<close>

record fw_tree =
  ft_pmci :: bool
  ft_bmc :: bool
  ft_m10bmc :: bool
  ft_sdm_boot_en :: "u32 option list"
  ft_boot_types :: "string option list"

definition boot_format :: "string option list \<Rightarrow> bitstream_format" where
  "boot_format = (\<lambda>ts. fold (\<lambda>t f. case t of None \<Rightarrow> f
     | Some s \<Rightarrow> if s = ''SPI'' then BITSTREAM_FORMAT_SPI4 else if s = ''INTEL-AVST'' then BITSTREAM_FORMAT_INTEL_AVST else f) ts BITSTREAM_FORMAT_BPI16)"

definition nfb_fw_read_for_dev :: "u8 list \<Rightarrow> (nat \<Rightarrow> u8) \<Rightarrow> fw_tree \<Rightarrow> u8 list \<Rightarrow> fw_res" where
  "nfb_fw_read_for_dev stack junk t fd =
     (if ft_pmci t then nfb_fw_open_rpd fd BITSTREAM_FORMAT_NATIVE
      else if ft_bmc t then nfb_fw_open_rpd fd BITSTREAM_FORMAT_NATIVE
      else if ft_m10bmc t then nfb_fw_open_rpd fd BITSTREAM_FORMAT_NATIVE
      else if list_ex (\<lambda>v. v \<noteq> None \<and> v \<noteq> Some 0) (ft_sdm_boot_en t) then nfb_fw_open_rpd fd BITSTREAM_FORMAT_INTEL_AS
      else
        let format = boot_format (ft_boot_types t)
        in if format = BITSTREAM_FORMAT_INTEL_AVST then nfb_fw_open_rbf fd else mcs_or_bit stack junk fd format)"

section \<open>The bit order\<close>

lemma bitReverseTable256_eq: "bitReverseTable256 = map (\<lambda>n. word_reverse (of_nat n)) [0..<256]"
  by code_simp


lemma bitReverseTable256_nth: "bitReverseTable256 ! unat b = word_reverse b"
  using unsigned_less [of b, where 'a = nat] by (simp add: bitReverseTable256_eq)

lemma reverseBits16_eq: "reverseBits16 v = word_reverse v"
proof (rule bit_word_eqI)
  fix n
  assume "n < LENGTH(16)"
  have a: "bitReverseTable256 ! unat (w AND 0xff) = word_reverse (ucast w :: u8)" for w :: u16
  proof -
    have "unat (w AND 0xff) = unat (ucast w :: u8)"
      by (simp add: unsigned_ucast_eq unsigned_and_eq take_bit_eq_mask mask_eq_exp_minus_1)
    then show ?thesis by (simp only: bitReverseTable256_nth)
  qed
  show "bit (reverseBits16 v) n = bit (word_reverse v) n"
  proof (cases "n < 8")
    case True
    then have "8 + (7 - n) = 15 - n" "7 - n < 8" by simp_all
    then show ?thesis using True unfolding reverseBits16_def a by (simp add: bit_simps)
  next
    case False
    then have "7 - (n - 8) = 15 - n" "n - 8 < 16" "n - 8 < 8" "15 - n < 8" using \<open>n < LENGTH(16)\<close> by simp_all
    then show ?thesis using False \<open>n < LENGTH(16)\<close> unfolding reverseBits16_def a by (simp add: bit_simps)
  qed
qed


text \<open>The bytes of a 16-bit word: its two bytes change places and each is reversed.\<close>

lemma u8_bit_beyond: "8 \<le> m \<Longrightarrow> \<not> bit (a :: u8) m"
  using bit_imp_le_length [of a m] by auto

lemma put16_get16: "put16 (get16 a b) = [a, b]"
  by (simp add: put16_def get16_def) (auto intro!: bit_word_eqI simp: bit_simps u8_bit_beyond)

lemma put16_reverse: "put16 (reverseBits16 (get16 a b)) = [word_reverse b, word_reverse a]"
  by (simp add: put16_def get16_def reverseBits16_eq) (auto intro!: bit_word_eqI simp: bit_simps u8_bit_beyond)

lemma reverse_words_length [simp]: "length (reverse_words n data) = length data"
  by (induction n data rule: reverse_words.induct) (simp_all add: put16_def)

lemma reverse_words_twice: "reverse_words n (reverse_words n data) = data"
  by (induction n data rule: reverse_words.induct) (simp_all add: put16_reverse)

lemma reverse_words_nth:
  "i < 2 * n \<Longrightarrow> 2 * n \<le> length data \<Longrightarrow> reverse_words n data ! i = word_reverse (data ! (if even i then i + 1 else i - 1))"
proof (induction n arbitrary: data i)
  case (Suc n)
  then obtain a b rest where d: "data = a # b # rest" by (cases "data"; cases "tl data") auto
  show ?case
  proof (cases "i < 2")
    case True
    then show ?thesis by (cases i) (auto simp: d put16_reverse less_Suc_eq)
  next
    case False
    then obtain k where k: "i = Suc (Suc k)" by (metis Suc_1 add_2_eq_Suc le_Suc_ex not_less)
    then show ?thesis using Suc by (auto simp: d put16_reverse nth_Cons' elim: oddE)
  qed
qed simp

text \<open>C37.  The conversions of the bit order are what their names say, for every buffer.  The one on bytes reverses each of the first bytes and leaves
the others; the one on 16-bit words reverses each word, so that byte \<open>i\<close> becomes the reverse of its
neighbour; applied twice both give the buffer back.\<close>

theorem reverse_bits_correct:
  assumes "sz \<le> length data"
  shows "(\<forall>i < length data. nfb_fw_bitstream_reverse_bits_8 data sz ! i = (if i < sz then word_reverse (data ! i) else data ! i)) \<and>
    (\<forall>i < 2 * (sz div 2). nfb_fw_bitstream_reverse_bits_16 data sz ! i = word_reverse (data ! (if even i then i + 1 else i - 1))) \<and>
    nfb_fw_bitstream_reverse_bits_8 (nfb_fw_bitstream_reverse_bits_8 data sz) sz = data \<and>
    nfb_fw_bitstream_reverse_bits_16 (nfb_fw_bitstream_reverse_bits_16 data sz) sz = data"
proof (intro conjI)
  show "\<forall>i < length data. nfb_fw_bitstream_reverse_bits_8 data sz ! i = (if i < sz then word_reverse (data ! i) else data ! i)"
    using assms by (auto simp: nfb_fw_bitstream_reverse_bits_8_def bitReverseTable256_nth nth_append)
  show "\<forall>i < 2 * (sz div 2). nfb_fw_bitstream_reverse_bits_16 data sz ! i = word_reverse (data ! (if even i then i + 1 else i - 1))"
    using assms by (auto simp: nfb_fw_bitstream_reverse_bits_16_def reverse_words_nth)
  show "nfb_fw_bitstream_reverse_bits_8 (nfb_fw_bitstream_reverse_bits_8 data sz) sz = data"
    using assms by (simp add: nfb_fw_bitstream_reverse_bits_8_def bitReverseTable256_nth comp_def)
  show "nfb_fw_bitstream_reverse_bits_16 (nfb_fw_bitstream_reverse_bits_16 data sz) sz = data"
    by (simp add: nfb_fw_bitstream_reverse_bits_16_def reverse_words_twice)
qed

theorem reverse_bits_correct_witness:
  "nfb_fw_bitstream_reverse_bits_16 (nfb_fw_bitstream_reverse_bits_16 [1, 2, 3] 3) 3 = [1, 2, 3 :: u8] \<and>
   nfb_fw_bitstream_reverse_bits_8 [1, 2, 3] 2 ! 0 = word_reverse 1"
  using reverse_bits_correct [of 3 "[1, 2, 3]"] reverse_bits_correct [of 2 "[1, 2, 3]"] by simp


section \<open>Xilinx bitstreams\<close>

lemma bit_sync_eq:
  "bit_sync data8 i \<longleftrightarrow> (\<forall>j \<in> {i..<i + 32} \<union> {i + 40..<i + 48}. data8 ! j = 0xFF)"
proof -
  have all: "length (filter P [a..<b]) = b - a \<longleftrightarrow> (\<forall>j \<in> {a..<b}. P j)" for P a b
  proof
    assume "length (filter P [a..<b]) = b - a"
    then have "filter P [a..<b] = [a..<b]" by (metis length_filter_less length_upt less_irrefl filter_True)
    then show "\<forall>j \<in> {a..<b}. P j" by (metis atLeastLessThan_upt filter_id_conv)
  qed simp
  have a: "length (filter (\<lambda>j. data8 ! j = 0xFF) [i..<i + 32]) = 32 \<longleftrightarrow> (\<forall>j \<in> {i..<i + 32}. data8 ! j = 0xFF)"
    using all [of "\<lambda>j. data8 ! j = 0xFF" i "i + 32"] by (simp only: diff_add_inverse)
  have b: "length (filter (\<lambda>j. data8 ! j = 0xFF) [i + 32 + 8..<i + 32 + 16]) = 8 \<longleftrightarrow> (\<forall>j \<in> {i + 40..<i + 48}. data8 ! j = 0xFF)"
    using all [of "\<lambda>j. data8 ! j = 0xFF" "i + 40" "i + 48"] by (simp add: add.assoc del: upt_Suc)
  show ?thesis
  proof (cases "\<forall>j \<in> {i..<i + 32}. data8 ! j = 0xFF")
    case True
    then have "length (filter (\<lambda>j. data8 ! j = 0xFF) [i..<i + 32]) = 32" using a by blast
    then have "bit_sync data8 i \<longleftrightarrow> data8 ! i = 0xFF \<and> length (filter (\<lambda>j. data8 ! j = 0xFF) [i + 32 + 8..<i + 32 + 16]) = 8"
      by (simp only: bit_sync_def Let_def if_True refl)
    then show ?thesis unfolding b ball_Un using True by auto
  next
    case False
    then have "length (filter (\<lambda>j. data8 ! j = 0xFF) [i..<i + 32]) \<noteq> 32" using a by blast
    then have "\<not> bit_sync data8 i" by (simp only: bit_sync_def Let_def if_False) simp
    then show ?thesis unfolding ball_Un using False by blast
  qed
qed

text \<open>A Xilinx bitstream.  The reader finds the first position below 512 with the pattern of dummy words and returns
a buffer with the file from there on; but the size it returns is too small by the length of what it skipped, so that as many
bytes at the end of the buffer are neither brought into the bit order of the flash nor reported.\<close>

theorem open_bit_size_short:
  assumes "1024 \<le> length file" and "off < 512" and "bit_sync file off" and "\<forall>i < off. \<not> bit_sync file i"
  shows "nfb_fw_open_bit_raw file = FwData (drop off file) (int (length file) - 2 * int off) \<and>
    nfb_fw_open_bit file BITSTREAM_FORMAT_BPI16 =
      FwData (nfb_fw_bitstream_reverse_bits_16 (drop off file) (length file - 2 * off)) (int (length (drop off file)) - int off)"
proof -
  have "bit_sync (take 1024 file) i = bit_sync file i" if "i < 512" for i
    unfolding bit_sync_eq by (rule ball_cong) (use that in auto)
  then have "find (bit_sync (take 1024 file)) [0..<512] = Some off"
    using assms(2-4) by (auto simp: find_Some_iff intro!: exI [of _ off])
  moreover have "nat (int (length file) - 2 * int off) = length file - 2 * off" using assms(1,2) by arith
  ultimately show ?thesis
    using assms(1,2) by (simp add: nfb_fw_open_bit_raw_def nfb_fw_open_bit_def fw_reverse_def Let_def of_nat_diff)
qed

definition example_bit :: "u8 list" where
  "example_bit = replicate 3 0 @ replicate 32 0xFF @ replicate 8 0 @ replicate 8 0xFF @ replicate 1000 0"

theorem open_bit_size_short_witness:
  "nfb_fw_open_bit_raw example_bit = FwData (drop 3 example_bit) (int (length example_bit) - 6)"
proof -
  have "bit_sync example_bit 3" by (auto simp: bit_sync_eq example_bit_def nth_append)
  moreover have "\<forall>i < 3. \<not> bit_sync example_bit i"
    by (auto simp: bit_sync_eq example_bit_def nth_append intro!: bexI)
  ultimately show ?thesis using open_bit_size_short [of example_bit 3] by (simp add: example_bit_def)
qed


section \<open>Raw binary files\<close>

text \<open>What a loader makes of the blocks.\<close>

function rbf_decode :: "u8 list \<Rightarrow> u8 list option" where
  "rbf_decode bs =
     (if bs = [] then Some []
      else if length bs < 4 \<or> get16 (bs ! 0) (bs ! 1) \<noteq> 0x0401 then None
      else let n = unat (get16 (bs ! 2) (bs ! 3))
      in if length bs < 4 + n then None else map_option ((@) (take n (drop 4 bs))) (rbf_decode (drop (4 + n) bs)))"
  by auto
termination
  by (relation "measure length") auto

declare rbf_decode.simps [simp del]

lemma get16_put16: "get16 (put16 v ! 0) (put16 v ! 1) = v"
  by (simp add: put16_def get16_def) (auto intro!: bit_word_eqI simp: bit_simps)

lemma put16_length [simp]: "length (put16 v) = 2"
  by (simp add: put16_def)

lemma rbf_decode_block:
  assumes "length bs < 2 ^ 16"
  shows "rbf_decode (put16 0x0401 @ put16 (of_nat (length bs)) @ bs @ rest) = map_option ((@) bs) (rbf_decode rest)"
proof -
  define all where "all = put16 0x0401 @ put16 (of_nat (length bs)) @ bs @ rest"
  have "get16 (all ! 0) (all ! 1) = 0x0401" "get16 (all ! 2) (all ! 3) = of_nat (length bs)"
    using get16_put16 [of "0x0401"] get16_put16 [of "of_nat (length bs)"] by (simp_all add: all_def nth_append)
  moreover have "unat (of_nat (length bs) :: u16) = length bs" using assms by (simp add: unsigned_of_nat take_bit_nat_eq_self)
  moreover have d: "all \<noteq> []" "length all = 4 + length bs + length rest" "drop 4 all = bs @ rest" by (simp_all add: all_def put16_def)
  moreover have "drop (4 + length bs) all = rest" using d(3) drop_drop [of "length bs" 4 all] by (simp add: add.commute)
  ultimately show ?thesis by (subst rbf_decode.simps) (simp add: Let_def flip: all_def)
qed

lemma rbf_roundtrip: "rbf_decode (rbf_blocks fl) = Some fl"
proof (induction fl rule: rbf_blocks.induct)
  case (1 fl)
  show ?case
  proof (cases "fl = []")
    case True
    then show ?thesis by (simp add: rbf_blocks.simps rbf_decode.simps)
  next
    case False
    let ?n = "min BLOCK_SIZE (length fl)"
    have "length (take ?n fl) = ?n" "length (take ?n fl) < 2 ^ 16" by simp_all
    then show ?thesis
      using False 1 rbf_decode_block [of "take ?n fl"] by (subst rbf_blocks.simps) (simp add: Let_def)
  qed
qed

lemma rbf_blocks_length: "length (rbf_blocks fl) = length fl + 4 * ((length fl + BLOCK_SIZE - 1) div BLOCK_SIZE)"
proof (induction fl rule: rbf_blocks.induct)
  case (1 fl)
  show ?case
  proof (cases "fl = []")
    case True
    then show ?thesis by (simp add: rbf_blocks.simps)
  next
    case False
    let ?n = "min BLOCK_SIZE (length fl)"
    have "length (rbf_blocks fl) = 4 + ?n + length (rbf_blocks (drop ?n fl))"
      using False by (subst rbf_blocks.simps) (simp add: Let_def)
    also have "\<dots> = 4 + ?n + (length fl - ?n) + 4 * ((length fl - ?n + BLOCK_SIZE - 1) div BLOCK_SIZE)"
      using 1 [OF False refl] by (simp only: length_drop)
    also have "\<dots> = length fl + 4 * ((length fl + BLOCK_SIZE - 1) div BLOCK_SIZE)"
    proof (cases "length fl \<le> BLOCK_SIZE")
      case True
      moreover have "(length fl + BLOCK_SIZE - 1) div BLOCK_SIZE = 1" using True False by (cases "fl") (auto simp: div_nat_eqI)
      ultimately show ?thesis by simp
    next
      case False
      then have "length fl + BLOCK_SIZE - 1 = (length fl - 1) + BLOCK_SIZE" by simp
      then have "(length fl + BLOCK_SIZE - 1) div BLOCK_SIZE = Suc ((length fl - 1) div BLOCK_SIZE)" by simp
      then show ?thesis using False by simp
    qed
    finally show ?thesis .
  qed
qed

lemma put_at_length [simp]: "p + length bs \<le> length data \<Longrightarrow> length (put_at p bs data) = length data"
  by (simp add: put_at_def)

lemma rbf_header_length [simp]: "length (rbf_header n) = START_ADDR"
  by (simp add: rbf_header_def)


lemma rbf_size_total_bound:
  "length (rbf_header n) + length (rbf_blocks fl) \<le> rbf_size_total (length fl)" "BLOCK_SIZE dvd rbf_size_total k"
proof -
  show "length (rbf_header n) + length (rbf_blocks fl) \<le> rbf_size_total (length fl)"
    by (simp add: rbf_blocks_length rbf_size_total_def Let_def)
  have "BLOCK_SIZE dvd m + (BLOCK_SIZE - m mod BLOCK_SIZE)" for m :: nat
  proof -
    have "m + (BLOCK_SIZE - m mod BLOCK_SIZE) = m div BLOCK_SIZE * BLOCK_SIZE + BLOCK_SIZE"
      using div_mult_mod_eq [of m BLOCK_SIZE] mod_less_divisor [of BLOCK_SIZE m] by linarith
    then show ?thesis by simp
  qed
  then show "BLOCK_SIZE dvd rbf_size_total k" by (simp only: rbf_size_total_def Let_def)
qed

text \<open>C38.  A raw binary file of less than 1 GiB.  The reader never writes past the buffer it allocated, whose size is a multiple of the block size;
after the header the buffer holds blocks from which a loader gets exactly the file back, and the returned size ends with the last
block.\<close>

theorem rbf_layout:
  assumes "length file < 2 ^ 30"
  shows "\<exists>data i. nfb_fw_open_rbf file = FwData data (int i) \<and> length data = rbf_size_total (length file) \<and> i \<le> length data \<and>
    BLOCK_SIZE dvd length data \<and> rbf_decode (drop START_ADDR (take i data)) = Some file"
proof -
  let ?h = "rbf_header (rbf_size_total (length file))"
  let ?body = "?h @ rbf_blocks file"
  let ?data = "?body @ replicate (rbf_size_total (length file) - length ?body) 0xFF"
  have i: "length ?body \<le> rbf_size_total (length file)" using rbf_size_total_bound(1) by simp
  have "length ?body \<le> START_ADDR + length file + 4 * (length file + BLOCK_SIZE - 1)"
    using div_le_dividend [of "length file + BLOCK_SIZE - 1" BLOCK_SIZE] by (simp add: rbf_blocks_length)
  moreover have "(length file + BLOCK_SIZE - 1) div BLOCK_SIZE \<le> 2 ^ 18"
    using assms by (simp add: less_eq_div_iff_mult_less_eq div_le_mono div_less_iff_less_mult flip: less_Suc_eq_le)
  then have "length ?body < 2 ^ 31" using assms by (simp add: rbf_blocks_length)
  ultimately have "nfb_fw_open_rbf file = FwData ?data (int (length ?body))"
    using i by (simp add: nfb_fw_open_rbf_def Let_def)
  moreover have "drop START_ADDR (take (length ?body) ?data) = rbf_blocks file" by simp
  ultimately show ?thesis
    using i rbf_roundtrip [of "file"] rbf_size_total_bound(2) [of "length file"] by (intro exI [of _ ?data] exI [of _ "length ?body"]) simp
qed

theorem rbf_layout_witness:
  "\<exists>data i. nfb_fw_open_rbf [1, 2, 3] = FwData data (int i) \<and> rbf_decode (drop START_ADDR (take i data)) = Some [1, 2, 3]"
  using rbf_layout [of "[1, 2, 3]"] by auto

end
