(* ===== verification/FwMcs.thy ===== *)
theory FwMcs
  imports FwFiles
begin

text \<open>
  The reader of Intel HEX files, \<open>nfb_fw_open_mcs\<close>, against a printer of records: every file that is printed from records is read back, with
  its two passes, its buffer of 128 bytes, the conversions of \<open>sscanf\<close> and the swapping of bytes.
\<close>

unbundle bit_operations_syntax

section \<open>Printing\<close>

definition hexd :: "nat \<Rightarrow> u8" where
  "hexd n = of_nat (if n < 10 then 48 + n else 55 + n)"

definition nibbles :: "u8 list \<Rightarrow> nat list" where
  "nibbles bs = concat (map (\<lambda>b. [unat b div 16, unat b mod 16]) bs)"

text \<open>A record: type, two bytes of the address, data and checksum.\<close>

type_synonym mcs_rec = "u8 \<times> u8 \<times> u8 \<times> u8 list \<times> u8"

fun mcs_bytes :: "mcs_rec \<Rightarrow> u8 list" where
  "mcs_bytes (ty, a1, a0, d, chk) = of_nat (length d) # a1 # a0 # ty # d @ [chk]"

definition mcs_line :: "mcs_rec \<Rightarrow> u8 list" where
  "mcs_line r = 58 # map hexd (nibbles (mcs_bytes r)) @ [10]"

fun rec_type :: "mcs_rec \<Rightarrow> u8" where "rec_type (ty, a1, a0, d, chk) = ty"

fun rec_data :: "mcs_rec \<Rightarrow> u8 list" where "rec_data (ty, a1, a0, d, chk) = d"

definition data_records :: "mcs_rec list \<Rightarrow> u8 list list" where
  "data_records rs = map rec_data (filter (\<lambda>r. rec_type r = 0) rs)"

section \<open>Digits\<close>

lemma less_16_cases: "n < 16 \<longleftrightarrow> n \<in> set [0..<16 :: nat]"
  by simp

lemma hex_val_hexd: "n < 16 \<Longrightarrow> hex_val (hexd n) = Some (of_nat n)"
proof -
  have "list_all (\<lambda>n. hex_val (hexd n) = Some (of_nat n)) [0..<16]" by code_simp
  then show "n < 16 \<Longrightarrow> hex_val (hexd n) = Some (of_nat n)" by (simp only: list_all_iff less_16_cases)
qed

lemma hexd_plain: "n < 16 \<Longrightarrow> \<not> is_space (hexd n) \<and> hexd n \<notin> {0, 10, 43, 45, 88, 120} \<and> (hexd n = 48 \<longleftrightarrow> n = 0)"
proof -
  have "list_all (\<lambda>n. \<not> is_space (hexd n) \<and> hexd n \<notin> {0, 10, 43, 45, 88, 120} \<and> (hexd n = 48 \<longleftrightarrow> n = 0)) [0..<16]" by code_simp
  then show "n < 16 \<Longrightarrow> \<not> is_space (hexd n) \<and> hexd n \<notin> {0, 10, 43, 45, 88, 120} \<and> (hexd n = 48 \<longleftrightarrow> n = 0)"
    unfolding list_all_iff less_16_cases by blast
qed

definition number :: "u32 \<Rightarrow> nat list \<Rightarrow> u32" where
  "number v ns = foldl (\<lambda>v n. 16 * v + of_nat n) v ns"

lemma scan_digits_hexd:
  "\<forall>n \<in> set ns. n < 16 \<Longrightarrow> scan_digits (length ns) v (map hexd ns @ s) = (length ns, number v ns, s)"
  by (induction ns arbitrary: v) (simp_all add: hex_val_hexd number_def)

lemma scan_hex_hexd:
  assumes "\<forall>n \<in> set ns. n < 16" and "2 \<le> length ns"
  shows "scan_hex (length ns) (map hexd ns @ s) = Some (number 0 ns, s)"
proof -
  obtain a b r where ns: "ns = a # b # r" using assms(2) by (cases ns; cases "tl ns") auto
  have "hexd a \<noteq> 45" "hexd a \<noteq> 43" "\<not> is_space (hexd a)" "hexd b \<noteq> 88" "hexd b \<noteq> 120"
    using hexd_plain [of a] hexd_plain [of b] assms(1) by (auto simp: ns)
  moreover from this have "\<not> hex_prefix (length ns) (map hexd ns @ s)" by (simp add: hex_prefix_def ns)
  ultimately show ?thesis
    using scan_digits_hexd [OF assms(1), of 0 s] by (simp add: scan_hex_def scan_number_def ns del: scan_digits.simps)
qed

lemma nibbles_less: "\<forall>n \<in> set (nibbles bs). n < 16"
proof -
  have "unat (b :: u8) div 16 < 16" for b using unsigned_less [of b, where 'a = nat] by simp
  then show ?thesis by (auto simp: nibbles_def)
qed

lemma nibbles_simps: "nibbles [] = []" "nibbles (b # bs) = unat b div 16 # unat b mod 16 # nibbles bs"
  "nibbles (bs @ cs) = nibbles bs @ nibbles cs" "length (nibbles bs) = 2 * length bs"
  by (induction bs) (simp_all add: nibbles_def)

lemma drop_nibbles: "drop (2 * k) (nibbles bs) = nibbles (drop k bs)"
  by (induction bs arbitrary: k) (auto simp: nibbles_simps drop_Cons split: nat.split)

lemma number_byte: "number v [unat b div 16, unat (b :: u8) mod 16] = push_bit 8 v OR ucast b"
proof -
  have "of_nat (unat b div 16 * 16 + unat b mod 16) = (ucast b :: u32)" by (simp only: div_mult_mod_eq) simp
  then have b: "of_nat (unat b div 16) * 16 + of_nat (unat b mod 16) = (ucast b :: u32)" by (simp only: of_nat_add of_nat_mult of_nat_numeral)
  have "number v [unat b div 16, unat b mod 16] = push_bit 8 v + ucast b"
    unfolding b [symmetric] by (simp add: number_def push_bit_eq_mult algebra_simps)
  also have "\<dots> = push_bit 8 v OR ucast b"
    by (rule disjunctive_add) (auto simp: bit_simps dest: bit_imp_le_length)
  finally show ?thesis .
qed

lemma number_append: "number v (ns @ ms) = number (number v ns) ms"
  by (simp add: number_def)

lemma put32_number: "put32 (bswap_32 (number 0 (nibbles [a, b, c, d]))) = [a, b, c, d]"
proof -
  have v: "number 0 (nibbles [a, b, c, d]) = push_bit 8 (push_bit 8 (push_bit 8 (ucast a) OR ucast b) OR ucast c) OR ucast d"
    using number_append [of 0 "nibbles [a, b, c]" "nibbles [d]"] number_append [of 0 "nibbles [a, b]" "nibbles [c]"]
      number_append [of 0 "nibbles [a]" "nibbles [b]"] number_byte [of 0 a] by (simp add: nibbles_simps number_byte)
  have m: "(0xFF000000 :: u32) = push_bit 24 (mask 8)" "(0x00FF0000 :: u32) = push_bit 16 (mask 8)" "(0x0000FF00 :: u32) = push_bit 8 (mask 8)"
    "(0x000000FF :: u32) = mask 8" by (simp_all add: mask_numeral)
  show ?thesis
    unfolding put32_def bswap_32_def m v by (auto intro!: bit_word_eqI simp: bit_simps u8_bit_beyond)
qed

section \<open>Lines\<close>

lemma mcs_line_plain: "0 \<notin> set (mcs_line r)" "10 \<notin> set (58 # map hexd (nibbles (mcs_bytes r)))"
proof -
  have "hexd n \<noteq> 0 \<and> hexd n \<noteq> 10" if "n \<in> set (nibbles bs)" for n bs
    using hexd_plain [of n] nibbles_less [of bs] that by auto
  then show "0 \<notin> set (mcs_line r)" "10 \<notin> set (58 # map hexd (nibbles (mcs_bytes r)))" by (auto simp: mcs_line_def)
qed

lemma mcs_line_length: "length (mcs_line r) = 2 * length (rec_data r) + 12"
  by (cases r) (simp add: mcs_line_def nibbles_simps)

lemma fgets_mcs_line:
  assumes "length (rec_data r) \<le> 57"
  shows "fgets_line (mcs_line r @ rest) = mcs_line r"
proof -
  let ?p = "58 # map hexd (nibbles (mcs_bytes r))"
  have l: "mcs_line r = ?p @ [10]" by (simp add: mcs_line_def)
  have n: "length (mcs_line r) \<le> 127" using assms by (simp add: mcs_line_length)
  then have t: "take 127 (mcs_line r @ rest) = ?p @ 10 # take (127 - length (mcs_line r)) rest" by (simp add: l take_Cons')
  have "takeWhile (\<lambda>c. c \<noteq> 10) (?p @ 10 # xs) = ?p" for xs
    using mcs_line_plain(2) [of r] by (subst takeWhile_append2) auto
  then show ?thesis unfolding fgets_line_def Let_def t by (simp add: l)
qed

lemma fgets_all_mcs: "\<forall>r \<in> set rs. length (rec_data r) \<le> 57 \<Longrightarrow> fgets_all (concat (map mcs_line rs)) = map mcs_line rs"
proof (induction rs)
  case (Cons r rs)
  have "mcs_line r \<noteq> []" by (simp add: mcs_line_def)
  then show ?case using Cons fgets_mcs_line [of r] by (subst fgets_all.simps) simp
qed (simp add: fgets_all.simps)

lemma cstr_line:
  assumes "0 \<notin> set line" and "p \<le> length line"
  shows "cstr p (fill_buffer line buffer) = drop p line"
proof -
  have "drop p (fill_buffer line buffer) = drop p line @ 0 # drop (Suc (length line)) buffer" using assms(2) by (simp add: fill_buffer_def)
  moreover have "\<forall>c \<in> set (drop p line). c \<noteq> 0" using assms(1) by (metis in_set_dropD)
  ultimately show ?thesis by (simp add: cstr_def takeWhile_append2)
qed

text \<open>The part of the buffer from byte \<open>k\<close> of a record on.\<close>

lemma cstr_mcs:
  assumes "k \<le> length (mcs_bytes r)"
  shows "cstr (Suc (2 * k)) (fill_buffer (mcs_line r) buffer) = map hexd (nibbles (drop k (mcs_bytes r))) @ [10]"
proof -
  have "Suc (2 * k) \<le> length (mcs_line r)" using assms by (simp add: mcs_line_def nibbles_simps)
  moreover have "2 * k \<le> length (nibbles (mcs_bytes r))" using assms by (simp add: nibbles_simps)
  ultimately show ?thesis
    by (simp add: cstr_line [OF mcs_line_plain(1)]) (simp add: mcs_line_def drop_map drop_nibbles)
qed

lemma scan_bytes:
  assumes "bs \<noteq> []"
  shows "scan_hex (2 * length bs) (map hexd (nibbles (bs @ cs)) @ s) = Some (number 0 (nibbles bs), map hexd (nibbles cs) @ s)"
proof -
  have "2 \<le> length (nibbles bs)" using assms by (cases bs) (simp_all add: nibbles_simps)
  from scan_hex_hexd [OF nibbles_less this, of "map hexd (nibbles cs) @ s"] show ?thesis by (simp add: nibbles_simps)
qed

lemma mcs_word_size_line:
  assumes "length (rec_data r) \<le> 57"
  shows "unat (mcs_word_size (fill_buffer (mcs_line r) buffer) ws) = length (rec_data r)"
proof -
  obtain ty a1 a0 d chk where r: "r = (ty, a1, a0, d, chk)" by (cases r)
  have "cstr 1 (fill_buffer (mcs_line r) buffer) = map hexd (nibbles ([of_nat (length d)] @ a1 # a0 # ty # d @ [chk])) @ [10]"
    using cstr_mcs [of 0 r buffer] by (simp add: r)
  moreover note scan_bytes [of "[of_nat (length d)]" "a1 # a0 # ty # d @ [chk]" "[10]"]
  moreover have "number 0 (nibbles [of_nat (length d)]) = (of_nat (length d) :: u32)"
  proof -
    have "unat (of_nat (length d) :: u8) = length d" using assms by (simp add: r unsigned_of_nat take_bit_nat_eq_self)
    then have "(ucast (of_nat (length d) :: u8) :: u32) = of_nat (length d)" by (metis of_nat_unat)
    then show ?thesis using number_byte [of 0 "of_nat (length d)"] by (simp add: nibbles_simps)
  qed
  ultimately show ?thesis using assms by (simp add: r mcs_word_size_def unsigned_of_nat take_bit_nat_eq_self)
qed

lemma mcs_is_data_line: "mcs_is_data (fill_buffer (mcs_line r) buffer) \<longleftrightarrow> rec_type r = 0"
proof -
  obtain ty a1 a0 d chk where r: "r = (ty, a1, a0, d, chk)" by (cases r)
  have t: "unat ty div 16 < 16" "unat ty mod 16 < 16" using unsigned_less [of ty, where 'a = nat] by simp_all
  have "ty = 0 \<longleftrightarrow> unat ty div 16 = 0 \<and> unat ty mod 16 = 0"
    using div_mult_mod_eq [of "unat ty" 16] by (auto simp: unat_eq_zero)
  then show ?thesis
    using hexd_plain [OF t(1)] hexd_plain [OF t(2)]
    by (simp add: mcs_is_data_def fill_buffer_def mcs_line_def r nibbles_simps)
qed

section \<open>The two passes\<close>

lemma mcs_first_line:
  assumes "length (rec_data r) \<le> 57"
  shows "mcs_first (fill_buffer (mcs_line r) buffer)"
proof -
  obtain ty a1 a0 d chk where r: "r = (ty, a1, a0, d, chk)" by (cases r)
  obtain e es where e: "d @ [chk] = e # es" by (cases "d @ [chk]") auto
  let ?n = "of_nat (length d) :: u8"
  have c: "cstr 0 (fill_buffer (mcs_line r) buffer) = 58 # map hexd (nibbles ([?n] @ a1 # a0 # ty # e # es)) @ [10]"
    using cstr_line [OF mcs_line_plain(1), of 0 r buffer] by (simp add: mcs_line_def r e)
  note s = scan_bytes [of "[?n]" "a1 # a0 # ty # e # es" "[10]"] scan_bytes [of "[a1, a0]" "ty # e # es" "[10]"]
    scan_bytes [of "[ty]" "e # es" "[10]"] scan_bytes [of "[e]" es "[10]"]
  show ?thesis unfolding mcs_first_def c using s by simp
qed

lemma four_bytes: "4 \<le> length xs \<Longrightarrow> \<exists>p q u v rest. xs = p # q # u # v # rest"
  by (auto simp: numeral_eq_Suc Suc_le_length_iff)

text \<open>The words of one record.\<close>

lemma mcs_store_line:
  assumes "length (rec_data r) \<le> 57" and "4 * x + 4 \<le> length (rec_data r)" and "4 * i + 4 \<le> length data"
  shows "mcs_store (fill_buffer (mcs_line r) buffer) x (i, data) =
    Some (Suc i, take (4 * i) data @ take 4 (drop (4 * x) (rec_data r)) @ drop (4 * i + 4) data)"
proof -
  obtain ty a1 a0 d chk where r: "r = (ty, a1, a0, d, chk)" by (cases r)
  have "4 \<le> length (drop (4 * x) d)" using assms(2) by (simp add: r)
  then obtain p q u v rest where dr: "drop (4 * x) d = p # q # u # v # rest"
    using four_bytes by blast
  have "drop (4 * x + 4) (mcs_bytes r) = [p, q, u, v] @ rest @ [chk]"
    using assms(2) dr by (simp add: r drop_Cons')
  moreover have "4 * x + 4 \<le> length (mcs_bytes r)" using assms(2) by (simp add: r)
  ultimately have "cstr (9 + x * 8) (fill_buffer (mcs_line r) buffer) = map hexd (nibbles ([p, q, u, v] @ rest @ [chk])) @ [10]"
    using cstr_mcs [of "4 * x + 4" r buffer] by (simp add: algebra_simps)
  then have "scan_hex 8 (cstr (9 + x * 8) (fill_buffer (mcs_line r) buffer)) =
    Some (number 0 (nibbles [p, q, u, v]), map hexd (nibbles (rest @ [chk])) @ [10])"
    using scan_bytes [of "[p, q, u, v]" "rest @ [chk]" "[10]"] by simp
  moreover have "9 + x * 8 < 128" using assms(1,2) by simp
  ultimately show ?thesis using assms(3) put32_number [of p q u v] dr by (simp add: mcs_store_def r)
qed

lemma mcs_words_line:
  assumes "length (rec_data r) \<le> 57" and "4 * (k + m) \<le> length (rec_data r)" and "4 * (i + m) \<le> length data"
  shows "mcs_words (fill_buffer (mcs_line r) buffer) [k..<k + m] (i, data) =
    Some (i + m, take (4 * i) data @ take (4 * m) (drop (4 * k) (rec_data r)) @ drop (4 * i + 4 * m) data)"
  using assms(2,3)
proof (induction m arbitrary: k i data)
  case (Suc m)
  let ?d = "rec_data r"
  let ?data = "take (4 * i) data @ take 4 (drop (4 * k) ?d) @ drop (4 * i + 4) data"
  have u: "[k..<k + Suc m] = k # [Suc k..<Suc k + m]" by (simp add: upt_rec)
  have s: "mcs_store (fill_buffer (mcs_line r) buffer) k (i, data) = Some (Suc i, ?data)"
    by (rule mcs_store_line) (use assms(1) Suc.prems in simp_all)
  have l: "length ?data = length data" using Suc.prems by simp
  have ih: "mcs_words (fill_buffer (mcs_line r) buffer) [Suc k..<Suc k + m] (Suc i, ?data) =
    Some (Suc i + m, take (4 * Suc i) ?data @ take (4 * m) (drop (4 * Suc k) ?d) @ drop (4 * Suc i + 4 * m) ?data)"
    by (rule Suc.IH) (use Suc.prems l in simp_all)
  have "take (4 * Suc i) ?data = take (4 * i) data @ take 4 (drop (4 * k) ?d)" using Suc.prems by simp
  moreover have "drop (4 * Suc i + 4 * m) ?data = drop (4 * i + 4 * Suc m) data" using Suc.prems by (simp add: algebra_simps)
  moreover have "take 4 (drop (4 * k) ?d) @ take (4 * m) (drop (4 * Suc k) ?d) = take (4 * Suc m) (drop (4 * k) ?d)"
    using take_add [of 4 "4 * m" "drop (4 * k) ?d"] by (simp add: add.commute)
  ultimately show ?case unfolding u by (simp only: mcs_words.simps s option.simps ih) simp
qed simp


lemma mcs_count_lines:
  assumes "\<forall>r \<in> set rs. length (rec_data r) \<le> 57"
  shows "snd (snd (fold mcs_count (map mcs_line rs) (buffer, ws, n))) = n + length (concat (data_records rs))"
  using assms
proof (induction rs arbitrary: buffer ws n)
  case (Cons r rs)
  then show ?case
    using mcs_word_size_line [of r buffer ws] by (simp add: mcs_count_def mcs_is_data_line Let_def data_records_def)
qed (simp add: data_records_def)

text \<open>What is stored of a record: its whole words.\<close>

definition whole_words :: "u8 list \<Rightarrow> u8 list" where
  "whole_words d = take (4 * (length d div 4)) d"

lemma mcs_read_lines:
  assumes "\<forall>r \<in> set rs. length (rec_data r) \<le> 57" and "4 * i + length (concat (map whole_words (data_records rs))) \<le> length data"
  shows "mcs_read (map mcs_line rs) (buffer, ws) (i, data) =
    Some (take (4 * i) data @ concat (map whole_words (data_records rs)) @
      drop (4 * i + length (concat (map whole_words (data_records rs)))) data)"
  using assms
proof (induction rs arbitrary: buffer ws i data)
  case (Cons r rs)
  let ?b = "fill_buffer (mcs_line r) buffer"
  let ?w = "concat (map whole_words (data_records rs))"
  show ?case
  proof (cases "rec_type r = 0")
    case False
    then show ?thesis using Cons by (simp add: mcs_is_data_line data_records_def Let_def)
  next
    case True
    let ?d = "rec_data r"
    let ?m = "length ?d div 4"
    let ?data = "take (4 * i) data @ whole_words ?d @ drop (4 * i + 4 * ?m) data"
    have wl: "length (whole_words ?d) = 4 * ?m" by (simp add: whole_words_def)
    have room: "4 * (i + ?m) + length ?w \<le> length data" using Cons.prems(2) True wl by (simp add: data_records_def)
    have st: "mcs_words ?b [0..<unat (mcs_word_size ?b ws) div 4] (i, data) = Some (i + ?m, ?data)"
      using mcs_words_line [of r 0 ?m i data buffer] mcs_word_size_line [of r buffer ws] Cons.prems(1) room
      by (simp add: whole_words_def)
    have l: "length ?data = length data" using room wl by simp
    have ih: "mcs_read (map mcs_line rs) (?b, mcs_word_size ?b ws) (i + ?m, ?data) =
      Some (take (4 * (i + ?m)) ?data @ ?w @ drop (4 * (i + ?m) + length ?w) ?data)"
      by (rule Cons.IH) (use Cons.prems(1) room l in simp_all)
    have "take (4 * (i + ?m)) ?data = take (4 * i) data @ whole_words ?d" using room wl by simp
    moreover have "drop (4 * (i + ?m) + length ?w) ?data = drop (4 * i + length (whole_words ?d) + length ?w) data"
      using room wl by (simp add: algebra_simps)
    ultimately have "mcs_read (map mcs_line (r # rs)) (buffer, ws) (i, data) =
      Some ((take (4 * i) data @ whole_words ?d) @ ?w @ drop (4 * i + length (whole_words ?d) + length ?w) data)"
      using ih st by (simp add: True mcs_is_data_line Let_def del: append_assoc)
    then show ?thesis using True by (simp add: data_records_def add.assoc)
  qed
qed (simp add: data_records_def)

lemma whole_words_length: "length (whole_words d) \<le> length d"
  by (simp add: whole_words_def)

lemma whole_words_total: "length (concat (map whole_words ds)) \<le> length (concat ds)"
  by (induction ds) (simp_all add: add_mono whole_words_length)

lemma mcs_file:
  assumes "rs \<noteq> []" and "\<forall>r \<in> set rs. length (rec_data r) \<le> 57"
  shows "nfb_fw_open_mcs stack junk (concat (map mcs_line rs)) =
    FwData (concat (map whole_words (data_records rs)) @
        map junk [length (concat (map whole_words (data_records rs)))..<length (concat (data_records rs))])
      (int (length (concat (data_records rs))))"
proof -
  obtain r rest where r: "rs = r # rest" using assms(1) by (cases rs) auto
  have lines: "fgets_all (concat (map mcs_line rs)) = map mcs_line rs" by (rule fgets_all_mcs [OF assms(2)])
  have first: "mcs_first (fill_buffer (mcs_line r) stack)" by (rule mcs_first_line) (use assms(2) r in simp)
  obtain b ws n where c: "fold mcs_count (map mcs_line rs) (fill_buffer (mcs_line r) stack, 0, 0) = (b, ws, n)" by (metis prod_cases3)
  have n: "n = length (concat (data_records rs))" using mcs_count_lines [OF assms(2), of "fill_buffer (mcs_line r) stack" 0 0] c by simp
  have "mcs_read (map mcs_line rs) (b, ws) (0, map junk [0..<n]) = Some (concat (map whole_words (data_records rs)) @
      drop (length (concat (map whole_words (data_records rs)))) (map junk [0..<n]))"
    using mcs_read_lines [OF assms(2), of 0 "map junk [0..<n]" b ws] whole_words_total [of "data_records rs"] n by simp
  then show ?thesis using lines first c n unfolding nfb_fw_open_mcs_def by (simp add: r drop_map)
qed

text \<open>C25.  Intel HEX files are read back.  For every file that is printed from records of up to 57 bytes with addresses and checksums of any kind, where the data records
have lengths that are multiples of four, the reader returns exactly the data of the data records in their order, whatever was in its buffer
and in the memory it got.\<close>

theorem mcs_roundtrip:
  assumes "rs \<noteq> []" and "\<forall>r \<in> set rs. length (rec_data r) \<le> 57" and "\<forall>d \<in> set (data_records rs). 4 dvd length d"
  shows "nfb_fw_open_mcs stack junk (concat (map mcs_line rs)) = FwData (concat (data_records rs)) (int (length (concat (data_records rs))))"
proof -
  have "map whole_words (data_records rs) = data_records rs"
    by (rule map_idI) (use assms(3) in \<open>auto simp: whole_words_def dvd_mult_div_cancel\<close>)
  then show ?thesis using mcs_file [OF assms(1,2), of stack junk] by simp
qed

theorem mcs_roundtrip_witness:
  "nfb_fw_open_mcs [] (\<lambda>_. 0xEE) (concat (map mcs_line [(4, 0, 0, [0, 1], 0xF9), (0, 0, 0, [1, 2, 3, 0xAB], 0x4B), (1, 0, 0, [], 0xFF)])) =
     FwData [1, 2, 3, 0xAB] 4"
proof -
  have d: "4 dvd Suc (Suc (Suc (Suc 0)))" by (rule dvdI [of _ _ 1]) simp
  show ?thesis using mcs_roundtrip [of "[(4, 0, 0, [0, 1], 0xF9), (0, 0, 0, [1, 2, 3, 0xAB], 0x4B), (1, 0, 0, [], 0xFF)]" "[]" "\<lambda>_. 0xEE"]
    by (simp add: data_records_def d)
qed

text \<open>A record whose length is no multiple of four: the reader drops the last bytes of the record and returns uninitialised memory at
the end of the image, although it reports the full size.\<close>

theorem mcs_tail_lost:
  assumes "length d \<le> 57"
  shows "nfb_fw_open_mcs stack junk (mcs_line (0, a1, a0, d, chk)) =
    FwData (take (4 * (length d div 4)) d @ map junk [4 * (length d div 4)..<length d]) (int (length d))"
  using mcs_file [of "[(0, a1, a0, d, chk)]" stack junk] assms by (simp add: data_records_def whole_words_def)

theorem mcs_tail_lost_witness:
  "nfb_fw_open_mcs [] (\<lambda>_. 0xEE) (mcs_line (0, 0, 0, [1, 2, 3, 4, 5, 6], 0)) = FwData [1, 2, 3, 4, 0xEE, 0xEE] 6"
  using mcs_tail_lost [of "[1, 2, 3, 4, 5, 6]" "[]" "\<lambda>_. 0xEE" 0 0 0] by (simp add: upt_rec [of 4] upt_rec [of 5])

end
