(* ===== verification/BootFlash.thy ===== *)
theory BootFlash
  imports Comp
begin

text \<open>
  The flash memories of the card: \<open>drivers/kernel/drivers/nfb/boot/flash.c\<close>.

  A parallel flash is reached through the two registers of the boot controller: a value in the first
  and a command in the second, \<open>0x1\<close> in the top nibble for a read of a 16-bit word, \<open>0x2\<close> for a write and
  \<open>0xD\<close> for the choice between two flash chips that share the bus.  A serial flash is reached through the
  SPI controller.  Above them works the MTD subsystem of the kernel, whose sources are not part of the
  repository: the record \<open>mtd_core\<close> is a parameter of the model.  A null pointer or an index outside of the
  table of MTDs is a fault, the value None of an operation.
\<close>

section \<open>State\<close>

text \<open>Allocations of a run are numbered; \<open>bm_ok\<close> says which of them succeed and \<open>bm_junk\<close> what fresh memory of a
  given length holds.\<close>

record boot_mem =
  bm_ok :: "nat \<Rightarrow> bool"
  bm_calls :: nat
  bm_live :: "nat list"
  bm_bad :: nat
  bm_junk :: "nat \<Rightarrow> u8 list"

definition bm_alloc :: "boot_mem \<Rightarrow> nat option \<times> boot_mem" where
  "bm_alloc bm =
     (if bm_ok bm (bm_calls bm) then (Some (bm_calls bm), bm\<lparr>bm_calls := Suc (bm_calls bm), bm_live := bm_calls bm # bm_live bm\<rparr>)
      else (None, bm\<lparr>bm_calls := Suc (bm_calls bm)\<rparr>))"

text \<open>Freeing a null pointer does nothing.\<close>

definition bm_free :: "nat option \<Rightarrow> boot_mem \<Rightarrow> boot_mem" where
  "bm_free p bm =
     (case p of None \<Rightarrow> bm
      | Some a \<Rightarrow> if a \<in> set (bm_live bm) then bm\<lparr>bm_live := remove1 a (bm_live bm)\<rparr>
                  else bm\<lparr>bm_bad := Suc (bm_bad bm)\<rparr>)"

text \<open>\<open>bt_mtd\<close> is the table of MTDs, with the number of its allocation.  \<open>bt_chips\<close> is what lies behind the
  MTD subsystem and the SPI controller.\<close>

record ('m, 'c) nfb_boot =
  bt_comp :: nfb_comp
  bt_tivoli :: bool
  bt_spi :: bool
  bt_sdm_boot :: bool
  bt_num_flash :: int
  bt_map :: "nat option"
  bt_nor :: "nat option"
  bt_mtd :: "(nat \<times> 'm option list) option"
  bt_flags :: u32
  bt_controller_type :: int
  bt_mtd_bit :: int
  bt_fb_active_flash :: int
  bt_mem :: boot_mem
  bt_chips :: 'c

definition NFB_BOOT_FLAG_FB_SELECT_FLASH :: u32 where "NFB_BOOT_FLAG_FB_SELECT_FLASH = 1"
definition NFB_BOOT_FLAG_FLASH_SET_ASYNC :: u32 where "NFB_BOOT_FLAG_FLASH_SET_ASYNC = 2"

definition bt_write32 :: "u64 \<Rightarrow> u32 \<Rightarrow> ('m, 'c) nfb_boot \<Rightarrow> ('m, 'c) nfb_boot" where
  "bt_write32 off v boot = boot\<lparr>bt_comp := nfb_comp_write32 (bt_comp boot) off v\<rparr>"

section \<open>The parallel flash\<close>

text \<open>\<open>n\<close> reads are left; the value of the last one is returned when the flash does not become ready.\<close>

primrec flash_poll :: "nat \<Rightarrow> ('m, 'c) nfb_boot \<Rightarrow> u32 \<times> ('m, 'c) nfb_boot" where
  "flash_poll 0 boot =
     (case nfb_comp_read32 (bt_comp boot) 0 of (ret, co) \<Rightarrow> (ret, boot\<lparr>bt_comp := co\<rparr>))"
| "flash_poll (Suc n) boot =
     (case nfb_comp_read32 (bt_comp boot) 0 of (ret, co) \<Rightarrow>
        if ret AND 0x00010000 \<noteq> 0 then (ret, boot\<lparr>bt_comp := co\<rparr>) else flash_poll n (boot\<lparr>bt_comp := co\<rparr>))"

definition nfb_boot_flash_read16 :: "('m, 'c) nfb_boot \<Rightarrow> u16 \<times> ('m, 'c) nfb_boot" where
  "nfb_boot_flash_read16 boot = map_prod ucast id (flash_poll 50 boot)"

definition nfb_boot_flash_fb_switch_flash :: "int \<Rightarrow> ('m, 'c) nfb_boot \<Rightarrow> ('m, 'c) nfb_boot" where
  "nfb_boot_flash_fb_switch_flash flash boot =
     (if bt_fb_active_flash boot \<noteq> flash then
        let boot = boot\<lparr>bt_fb_active_flash := flash\<rparr> in
        if bt_controller_type boot = 3 then
          boot\<lparr>bt_comp := nfb_comp_write64 (bt_comp boot) 0
                 (push_bit 60 7 OR push_bit 48 (if flash \<noteq> 0 then 4 else 3))\<rparr>
        else snd (nfb_boot_flash_read16 (bt_write32 4 0xD0000000
               (bt_write32 0 (if flash \<noteq> 0 then 6 else 2) boot)))
      else boot)"

text \<open>The shift is one of C ints, widened to 64 bits with its sign.\<close>

definition flash_address :: "('m, 'c) nfb_boot \<Rightarrow> int \<Rightarrow> u64 \<Rightarrow> u64" where
  "flash_address boot flash addr =
     drop_bit 1 (if bt_mtd_bit boot \<ge> 0 then addr OR scast (push_bit (nat (bt_mtd_bit boot)) (of_int flash) :: u32) else addr)"

definition flash_select :: "int \<Rightarrow> ('m, 'c) nfb_boot \<Rightarrow> ('m, 'c) nfb_boot" where
  "flash_select flash boot =
     (if bt_flags boot AND NFB_BOOT_FLAG_FB_SELECT_FLASH \<noteq> 0 then nfb_boot_flash_fb_switch_flash flash boot else boot)"

definition nfb_boot_flash_set_async :: "int \<Rightarrow> ('m, 'c) nfb_boot \<Rightarrow> ('m, 'c) nfb_boot" where
  "nfb_boot_flash_set_async flash boot =
     (let addr = flash_address boot flash 0;
          cmd = 0xf847 OR 0x20000000 OR ucast addr :: u32;
          boot = flash_select flash boot;
          boot = snd (nfb_boot_flash_read16 (bt_write32 4 cmd (bt_write32 0 0x60 boot)))
      in snd (nfb_boot_flash_read16 (bt_write32 4 cmd (bt_write32 0 0x3 boot))))"

definition nfb_boot_flash_read :: "int \<Rightarrow> u64 \<Rightarrow> ('m, 'c) nfb_boot \<Rightarrow> u16 \<times> ('m, 'c) nfb_boot" where
  "nfb_boot_flash_read flash addr boot =
     (let addr = flash_address boot flash addr;
          boot = flash_select flash boot
      in nfb_boot_flash_read16 (bt_write32 4 ((ucast addr AND 0x0FFFFFFF) OR 0x10000000) (bt_write32 0 0 boot)))"

definition nfb_boot_flash_write :: "int \<Rightarrow> u64 \<Rightarrow> u64 \<Rightarrow> ('m, 'c) nfb_boot \<Rightarrow> ('m, 'c) nfb_boot" where
  "nfb_boot_flash_write flash d addr boot =
     (let addr = flash_address boot flash addr;
          boot = flash_select flash boot
      in snd (nfb_boot_flash_read16 (bt_write32 4 ((ucast addr AND 0x0FFFFFFF) OR 0x20000000)
           (bt_write32 0 (ucast (d AND 0xFFFF)) boot))))"

text \<open>\<open>i\<close> is the index of the next word, \<open>n\<close> the number of words that are left.\<close>

primrec flash_copy_words :: "int \<Rightarrow> u64 \<Rightarrow> nat \<Rightarrow> nat \<Rightarrow> ('m, 'c) nfb_boot \<Rightarrow> u16 list \<times> ('m, 'c) nfb_boot" where
  "flash_copy_words flash from i 0 boot = ([], boot)"
| "flash_copy_words flash from i (Suc n) boot =
     (case nfb_boot_flash_read flash (from + of_nat (2 * i)) boot of (w, boot) \<Rightarrow>
      case flash_copy_words flash from (Suc i) n boot of (ws, boot) \<Rightarrow> (w # ws, boot))"

definition nfb_boot_flash_copy_from :: "int \<Rightarrow> u64 \<Rightarrow> int \<Rightarrow> ('m, 'c) nfb_boot \<Rightarrow> u16 list \<times> ('m, 'c) nfb_boot" where
  "nfb_boot_flash_copy_from flash from len boot = flash_copy_words flash from 0 (nat (len div 2)) boot"

section \<open>The serial flash\<close>

fun axi_qspi_transfer_store_addr :: "u64 \<Rightarrow> int \<Rightarrow> u8 list \<Rightarrow> u8 list" where
  "axi_qspi_transfer_store_addr addr addr_width buf =
     (if addr_width = 4 then buf[0 := ucast (drop_bit 24 addr), 1 := ucast (drop_bit 16 addr), 2 := ucast (drop_bit 8 addr), 3 := ucast addr]
      else if addr_width = 3 then buf[0 := ucast (drop_bit 16 addr), 1 := ucast (drop_bit 8 addr), 2 := ucast addr]
      else buf)"

text \<open>The SPI controller exchanges a frame with the serial flash: the result, the bytes received and the new state.\<close>

type_synonym 'c spi_ctrl = "u8 list \<Rightarrow> 'c \<Rightarrow> int \<times> u8 list \<times> 'c"

definition axi_qspi_transfer ::
  "'c spi_ctrl \<Rightarrow> int \<Rightarrow> u8 \<Rightarrow> u64 \<Rightarrow> int \<Rightarrow> nat \<Rightarrow> nat \<Rightarrow> u8 list option \<Rightarrow> ('m, 'c) nfb_boot
     \<Rightarrow> int \<times> u8 list \<times> ('m, 'c) nfb_boot" where
  "axi_qspi_transfer spi nor_idx opcode addr addr_width rx_dummy len tx_buf boot =
     (let boot = flash_select nor_idx boot;
          aw = nat addr_width;
          t_len = 1 + aw + rx_dummy + len
      in case bm_alloc (bt_mem boot) of
           (None, bm) \<Rightarrow> (0, [], boot\<lparr>bt_mem := bm\<rparr>)
         | (Some p, bm) \<Rightarrow>
             let tx = opcode # axi_qspi_transfer_store_addr addr addr_width (bm_junk bm (t_len - 1));
                 tx = (case tx_buf of None \<Rightarrow> tx | Some d \<Rightarrow> take (1 + aw) tx @ take len d @ drop (1 + aw + len) tx)
             in case spi tx (bt_chips boot) of (ret, rx, chips) \<Rightarrow>
                  (ret, take len (drop (1 + aw + rx_dummy) rx),
                   boot\<lparr>bt_mem := bm_free (Some p) bm, bt_chips := chips\<rparr>))"

text \<open>Opcodes of serial flash memories.\<close>

definition SPINOR_OP_WREN :: u8 where "SPINOR_OP_WREN = 0x06"
definition SPINOR_OP_WREAR :: u8 where "SPINOR_OP_WREAR = 0xC5"
definition SPINOR_OP_EN4B :: u8 where "SPINOR_OP_EN4B = 0xB7"
definition SPINOR_OP_READ_1_1_4 :: u8 where "SPINOR_OP_READ_1_1_4 = 0x6B"
definition SPINOR_OP_PP_1_1_4 :: u8 where "SPINOR_OP_PP_1_1_4 = 0x32"
definition SPINOR_OP_SE :: u8 where "SPINOR_OP_SE = 0xD8"
definition SPINOR_OP_RDFSR :: u8 where "SPINOR_OP_RDFSR = 0x70"

definition axi_qspi_read_reg :: "'c spi_ctrl \<Rightarrow> int \<Rightarrow> u8 \<Rightarrow> nat \<Rightarrow> ('m, 'c) nfb_boot \<Rightarrow> u8 list \<times> ('m, 'c) nfb_boot" where
  "axi_qspi_read_reg spi nor_idx opcode len boot = snd (axi_qspi_transfer spi nor_idx opcode 0 0 0 len None boot)"

definition axi_qspi_write_reg :: "'c spi_ctrl \<Rightarrow> int \<Rightarrow> u8 \<Rightarrow> u8 list \<Rightarrow> ('m, 'c) nfb_boot \<Rightarrow> ('m, 'c) nfb_boot" where
  "axi_qspi_write_reg spi nor_idx opcode buf boot =
     (if bt_tivoli boot \<and> opcode = SPINOR_OP_EN4B then boot
      else snd (snd (axi_qspi_transfer spi nor_idx opcode 0 0 0 (length buf) (if buf = [] then None else Some buf) boot)))"

text \<open>The segment of 16 MiB is the upper part of the address, cut to 8 bits.\<close>

definition qspi_segment :: "u64 \<Rightarrow> u8" where
  "qspi_segment addr = ucast (addr div (16 * 1024 * 1024))"

definition axi_qspi_read ::
  "'c spi_ctrl \<Rightarrow> int \<Rightarrow> u8 \<Rightarrow> int \<Rightarrow> nat \<Rightarrow> u64 \<Rightarrow> nat \<Rightarrow> ('m, 'c) nfb_boot \<Rightarrow> int \<times> u8 list \<times> ('m, 'c) nfb_boot" where
  "axi_qspi_read spi nor_idx read_opcode nor_width nor_dummy from len boot =
     (case (if bt_tivoli boot then
              axi_qspi_transfer spi nor_idx SPINOR_OP_READ_1_1_4 from 3 4 len None
                (axi_qspi_write_reg spi nor_idx SPINOR_OP_WREAR [qspi_segment from]
                  (axi_qspi_write_reg spi nor_idx SPINOR_OP_WREN [] boot))
            else axi_qspi_transfer spi nor_idx read_opcode from nor_width nor_dummy len None boot) of
        (ret, buf, boot') \<Rightarrow>
          let addr_width = (if bt_tivoli boot then 3 else nor_width);
              read_dummy = (if bt_tivoli boot then 4 else int nor_dummy)
          in (if ret \<le> 0 then ret else max 0 (ret - 1 - addr_width - read_dummy), buf, boot'))"

definition axi_qspi_write ::
  "'c spi_ctrl \<Rightarrow> int \<Rightarrow> u8 \<Rightarrow> int \<Rightarrow> u64 \<Rightarrow> u8 list \<Rightarrow> ('m, 'c) nfb_boot \<Rightarrow> int \<times> ('m, 'c) nfb_boot" where
  "axi_qspi_write spi nor_idx program_opcode nor_width to buf boot =
     (case (if bt_tivoli boot then
              axi_qspi_transfer spi nor_idx SPINOR_OP_PP_1_1_4 to 3 0 (length buf) (Some buf)
                (axi_qspi_write_reg spi nor_idx SPINOR_OP_WREN []
                  (axi_qspi_write_reg spi nor_idx SPINOR_OP_WREAR [qspi_segment to] boot))
            else axi_qspi_transfer spi nor_idx program_opcode to nor_width 0 (length buf) (Some buf) boot) of
        (ret, rx, boot') \<Rightarrow>
          let addr_width = (if bt_tivoli boot then 3 else nor_width)
          in (if ret \<le> 0 then ret else max 0 (ret - 1 - addr_width), boot'))"

definition axi_qspi_erase :: "'c spi_ctrl \<Rightarrow> int \<Rightarrow> int \<Rightarrow> u64 \<Rightarrow> ('m, 'c) nfb_boot \<Rightarrow> ('m, 'c) nfb_boot" where
  "axi_qspi_erase spi nor_idx nor_width off boot =
     (let addr_width = (if bt_tivoli boot then 3 else nor_width);
          boot = (if bt_tivoli boot then
                    axi_qspi_write_reg spi nor_idx SPINOR_OP_WREAR [qspi_segment off]
                      (axi_qspi_write_reg spi nor_idx SPINOR_OP_WREN [] boot)
                  else boot);
          boot = axi_qspi_write_reg spi nor_idx SPINOR_OP_WREN [] boot
      in snd (snd (axi_qspi_transfer spi nor_idx SPINOR_OP_SE off addr_width 0 0 None boot)))"


section \<open>MTD devices\<close>

text \<open>The MTD subsystem: a handle is the \<open>struct mtd_info\<close> of a flash.  Its operations work on the state of the
  driver, since they call back the routines above.  Lengths and addresses arrive widened with their sign.\<close>

record ('m, 'c) mtd_core =
  mtd_size :: "'m \<Rightarrow> u64"
  mtd_erasesize :: "'m \<Rightarrow> u32"
  mtd_unlock :: "'m \<Rightarrow> u64 \<Rightarrow> u64 \<Rightarrow> ('m, 'c) nfb_boot \<Rightarrow> ('m, 'c) nfb_boot"
  mtd_erase :: "'m \<Rightarrow> u64 \<Rightarrow> u64 \<Rightarrow> ('m, 'c) nfb_boot \<Rightarrow> int \<times> ('m, 'c) nfb_boot"
  mtd_write :: "'m \<Rightarrow> u64 \<Rightarrow> u8 list \<Rightarrow> ('m, 'c) nfb_boot \<Rightarrow> int \<times> ('m, 'c) nfb_boot"
  mtd_read :: "'m \<Rightarrow> u64 \<Rightarrow> u64 \<Rightarrow> ('m, 'c) nfb_boot \<Rightarrow> int \<times> u8 list \<times> ('m, 'c) nfb_boot"
  cfi_probe :: "nat \<Rightarrow> ('m, 'c) nfb_boot \<Rightarrow> 'm option \<times> ('m, 'c) nfb_boot"
  map_destroy :: "'m \<Rightarrow> ('m, 'c) nfb_boot \<Rightarrow> ('m, 'c) nfb_boot"
  spi_nor_scan :: "nat \<Rightarrow> ('m, 'c) nfb_boot \<Rightarrow> int \<times> 'm \<times> ('m, 'c) nfb_boot"

text \<open>The entry of the table: None is the fault of a null table or of an index outside of it.\<close>

definition mtd_at :: "('m, 'c) nfb_boot \<Rightarrow> int \<Rightarrow> 'm option option" where
  "mtd_at boot idx =
     (case bt_mtd boot of None \<Rightarrow> None
      | Some (p, ms) \<Rightarrow> if 0 \<le> idx \<and> nat idx < length ms then Some (ms ! nat idx) else None)"

record nfb_boot_ioc_mtd_info =
  mi_mtd :: int
  mi_size :: int
  mi_erasesize :: int

record nfb_boot_ioc_mtd =
  im_mtd :: int
  im_addr :: int
  im_size :: int

text \<open>The first argument is what \<open>copy_from_user\<close> brought, the flag whether \<open>copy_to_user\<close> succeeds.
  The result is the code with the structure that the user gets back.\<close>

definition nfb_boot_ioctl_mtd_info ::
  "('m, 'c) mtd_core \<Rightarrow> nfb_boot_ioc_mtd_info option \<Rightarrow> bool \<Rightarrow> ('m, 'c) nfb_boot \<Rightarrow> (int \<times> nfb_boot_ioc_mtd_info option) option" where
  "nfb_boot_ioctl_mtd_info core arg copy_out boot =
     (case arg of None \<Rightarrow> Some (- EFAULT, None)
      | Some ioc \<Rightarrow>
          if mi_mtd ioc \<ge> bt_num_flash boot then Some (- ENODEV, None)
          else case mtd_at boot (mi_mtd ioc) of
                 None \<Rightarrow> None
               | Some None \<Rightarrow> Some (- ENODEV, None)
               | Some (Some m) \<Rightarrow>
                   if copy_out then Some (0, Some (ioc\<lparr>mi_size := sint (ucast (mtd_size core m) :: u32),
                                                    mi_erasesize := sint (mtd_erasesize core m)\<rparr>))
                   else Some (- EFAULT, None))"

definition nfb_boot_ioctl_mtd_erase ::
  "('m, 'c) mtd_core \<Rightarrow> nfb_boot_ioc_mtd option \<Rightarrow> ('m, 'c) nfb_boot \<Rightarrow> (int \<times> ('m, 'c) nfb_boot) option" where
  "nfb_boot_ioctl_mtd_erase core arg boot =
     (case arg of None \<Rightarrow> Some (- EFAULT, boot)
      | Some ioc \<Rightarrow>
          if im_mtd ioc \<ge> bt_num_flash boot then Some (- ENODEV, boot)
          else case mtd_at boot (im_mtd ioc) of
                 None \<Rightarrow> None
               | Some None \<Rightarrow> Some (- ENODEV, boot)
               | Some (Some m) \<Rightarrow>
                   let addr = of_int (im_addr ioc); len = of_int (im_size ioc)
                   in Some (mtd_erase core m addr len (mtd_unlock core m addr len boot)))"

text \<open>\<open>vmalloc\<close> of nothing, or of a negative size widened to a huge one, fails.\<close>

definition boot_vmalloc :: "int \<Rightarrow> ('m, 'c) nfb_boot \<Rightarrow> nat option \<times> ('m, 'c) nfb_boot" where
  "boot_vmalloc sz boot =
     (if sz \<le> 0 then (None, boot) else map_prod id (\<lambda>bm. boot\<lparr>bt_mem := bm\<rparr>) (bm_alloc (bt_mem boot)))"

definition boot_vfree :: "nat \<Rightarrow> ('m, 'c) nfb_boot \<Rightarrow> ('m, 'c) nfb_boot" where
  "boot_vfree p boot = boot\<lparr>bt_mem := bm_free (Some p) (bt_mem boot)\<rparr>"

text \<open>\<open>udata\<close> is the user's data, None when they cannot be copied.\<close>

definition nfb_boot_ioctl_mtd_write ::
  "('m, 'c) mtd_core \<Rightarrow> nfb_boot_ioc_mtd option \<Rightarrow> u8 list option \<Rightarrow> ('m, 'c) nfb_boot \<Rightarrow> (int \<times> ('m, 'c) nfb_boot) option" where
  "nfb_boot_ioctl_mtd_write core arg udata boot =
     (case arg of None \<Rightarrow> Some (- EFAULT, boot)
      | Some ioc \<Rightarrow>
          case boot_vmalloc (im_size ioc) boot of
            (None, boot) \<Rightarrow> Some (- ENOMEM, boot)
          | (Some p, boot) \<Rightarrow>
              case udata of None \<Rightarrow> Some (- EFAULT, boot_vfree p boot)
              | Some d \<Rightarrow>
                  if im_mtd ioc \<ge> bt_num_flash boot then Some (- ENODEV, boot)
                  else case mtd_at boot (im_mtd ioc) of
                         None \<Rightarrow> None
                       | Some None \<Rightarrow> Some (- ENODEV, boot)
                       | Some (Some m) \<Rightarrow>
                           (case mtd_write core m (of_int (im_addr ioc)) (take (nat (im_size ioc)) d) boot of
                              (res, boot) \<Rightarrow> Some (res, boot_vfree p boot)))"

text \<open>The result carries the bytes that the user gets: the whole buffer, whatever part of it was read.\<close>

definition nfb_boot_ioctl_mtd_read ::
  "('m, 'c) mtd_core \<Rightarrow> nfb_boot_ioc_mtd option \<Rightarrow> bool \<Rightarrow> ('m, 'c) nfb_boot \<Rightarrow> (int \<times> u8 list option \<times> ('m, 'c) nfb_boot) option" where
  "nfb_boot_ioctl_mtd_read core arg copy_out boot =
     (case arg of None \<Rightarrow> Some (- EFAULT, None, boot)
      | Some ioc \<Rightarrow>
          case boot_vmalloc (im_size ioc) boot of
            (None, boot) \<Rightarrow> Some (- ENOMEM, None, boot)
          | (Some p, boot) \<Rightarrow>
              if im_mtd ioc \<ge> bt_num_flash boot then Some (- ENODEV, None, boot)
              else case mtd_at boot (im_mtd ioc) of
                     None \<Rightarrow> None
                   | Some None \<Rightarrow> Some (- ENODEV, None, boot)
                   | Some (Some m) \<Rightarrow>
                       (case mtd_read core m (of_int (im_addr ioc)) (of_int (im_size ioc)) boot of
                          (res, d, boot) \<Rightarrow>
                            if copy_out then Some (res, Some (take (nat (im_size ioc)) (d @ drop (length d) (bm_junk (bt_mem boot) (nat (im_size ioc))))),
                                                  boot_vfree p boot)
                            else Some (- EFAULT, None, boot_vfree p boot)))"

text \<open>Readers inside of the kernel: by another driver, which looks the boot driver up first, and by the boot driver.\<close>

definition nfb_mtd_read ::
  "('m, 'c) mtd_core \<Rightarrow> int + ('m, 'c) nfb_boot \<Rightarrow> int \<Rightarrow> u64 \<Rightarrow> u64 \<Rightarrow> (int \<times> u8 list \<times> (int + ('m, 'c) nfb_boot)) option" where
  "nfb_mtd_read core priv index addr size' =
     (case priv of Inl err \<Rightarrow> Some (err, [], priv)
      | Inr boot \<Rightarrow>
          if index \<ge> bt_num_flash boot then Some (- ENODEV, [], priv)
          else case mtd_at boot index of
                 None \<Rightarrow> None
               | Some None \<Rightarrow> Some (- ENODEV, [], priv)
               | Some (Some m) \<Rightarrow>
                   (case mtd_read core m addr size' boot of
                      (ret, d, boot) \<Rightarrow>
                        Some (if ret \<noteq> 0 then ret else if of_nat (length d) \<noteq> size' then - ENOMEM else 0, d, Inr boot)))"

definition nfb_boot_mtd_read ::
  "('m, 'c) mtd_core \<Rightarrow> int \<Rightarrow> int \<Rightarrow> int \<Rightarrow> ('m, 'c) nfb_boot \<Rightarrow> (int \<times> u8 list \<times> ('m, 'c) nfb_boot) option" where
  "nfb_boot_mtd_read core mtd addr size' boot =
     (if mtd < 0 \<or> mtd \<ge> bt_num_flash boot then Some (- ENODEV, [], boot)
      else case mtd_at boot mtd of
             None \<Rightarrow> None
           | Some None \<Rightarrow> Some (- ENODEV, [], boot)
           | Some (Some m) \<Rightarrow> Some (mtd_read core m (of_int addr) (of_int size') boot))"

section \<open>Creation and removal of the MTD devices\<close>

definition set_mtd :: "nat \<Rightarrow> 'm option \<Rightarrow> ('m, 'c) nfb_boot \<Rightarrow> ('m, 'c) nfb_boot" where
  "set_mtd i m boot = boot\<lparr>bt_mtd := map_option (map_prod id (\<lambda>ms. ms[i := m])) (bt_mtd boot)\<rparr>"

definition nfb_boot_mtd_names :: "string list" where
  "nfb_boot_mtd_names = [''nfb_flash0'', ''nfb_flash1'']"

text \<open>One pass of the loop; the table of names has two entries, a further flash reads past it.\<close>

definition mtd_init_one :: "('m, 'c) mtd_core \<Rightarrow> 'c spi_ctrl \<Rightarrow> nat \<Rightarrow> ('m, 'c) nfb_boot \<Rightarrow> ('m, 'c) nfb_boot option" where
  "mtd_init_one core spi i boot =
     (if bt_spi boot \<or> bt_sdm_boot boot then
        let boot = (if bt_sdm_boot boot then boot
                    else let boot = (if bt_tivoli boot then snd (axi_qspi_read_reg spi (int i) SPINOR_OP_RDFSR 1 boot) else boot)
                         in snd (axi_qspi_read_reg spi (int i) SPINOR_OP_RDFSR 1 boot))
        in case spi_nor_scan core i boot of (ret, m, boot) \<Rightarrow> Some (if ret \<noteq> 0 then boot else set_mtd i (Some m) boot)
      else if i \<ge> length nfb_boot_mtd_names then None
      else
        let boot = (if bt_flags boot AND NFB_BOOT_FLAG_FLASH_SET_ASYNC \<noteq> 0 then nfb_boot_flash_set_async (int i) boot else boot)
        in case cfi_probe core i boot of (mo, boot) \<Rightarrow> Some (set_mtd i mo boot))"

primrec mtd_init_loop :: "('m, 'c) mtd_core \<Rightarrow> 'c spi_ctrl \<Rightarrow> nat \<Rightarrow> nat \<Rightarrow> ('m, 'c) nfb_boot \<Rightarrow> ('m, 'c) nfb_boot option" where
  "mtd_init_loop core spi i 0 boot = Some boot"
| "mtd_init_loop core spi i (Suc n) boot =
     (case mtd_init_one core spi i boot of None \<Rightarrow> None | Some boot \<Rightarrow> mtd_init_loop core spi (Suc i) n boot)"

definition nfb_boot_mtd_init :: "('m, 'c) mtd_core \<Rightarrow> 'c spi_ctrl \<Rightarrow> ('m, 'c) nfb_boot \<Rightarrow> (int \<times> ('m, 'c) nfb_boot) option" where
  "nfb_boot_mtd_init core spi boot =
     (let boot = boot\<lparr>bt_fb_active_flash := -1\<rparr>;
          qspi = (bt_spi boot \<or> bt_sdm_boot boot)
      in case bm_alloc (bt_mem boot) of (p, bm) \<Rightarrow>
         let boot = (if qspi then boot\<lparr>bt_mem := bm, bt_nor := p\<rparr> else boot\<lparr>bt_mem := bm, bt_map := p\<rparr>)
         in if p = None then Some (- ENOMEM, boot)
            else case bm_alloc (bt_mem boot) of
                   (None, bm) \<Rightarrow> Some (- ENOMEM, boot\<lparr>bt_mtd := None, bt_mem := bm_free (bt_map boot) bm\<rparr>)
                 | (Some q, bm) \<Rightarrow>
                     map_option (Pair 0) (mtd_init_loop core spi 0 (nat (bt_num_flash boot))
                       (boot\<lparr>bt_mtd := Some (q, replicate (nat (bt_num_flash boot)) None), bt_mem := bm\<rparr>)))"

text \<open>The table has \<open>num_flash\<close> entries.\<close>

primrec mtd_destroy_loop :: "('m, 'c) mtd_core \<Rightarrow> 'm option list \<Rightarrow> ('m, 'c) nfb_boot \<Rightarrow> ('m, 'c) nfb_boot" where
  "mtd_destroy_loop core [] boot = boot"
| "mtd_destroy_loop core (mo # ms) boot =
     mtd_destroy_loop core ms
       (if bt_nor boot \<noteq> None then boot
        else case mo of None \<Rightarrow> boot | Some m \<Rightarrow> map_destroy core m boot)"

definition nfb_boot_mtd_destroy :: "('m, 'c) mtd_core \<Rightarrow> ('m, 'c) nfb_boot \<Rightarrow> ('m, 'c) nfb_boot" where
  "nfb_boot_mtd_destroy core boot =
     (let boot = (case bt_mtd boot of None \<Rightarrow> boot
                  | Some (q, ms) \<Rightarrow>
                      let boot = mtd_destroy_loop core ms boot
                      in boot\<lparr>bt_mem := bm_free (Some q) (bt_mem boot), bt_mtd := None\<rparr>);
          boot = boot\<lparr>bt_mem := bm_free (bt_nor boot) (bt_mem boot), bt_nor := None\<rparr>;
          boot = boot\<lparr>bt_mem := bm_free (bt_map boot) (bt_mem boot), bt_map := None\<rparr>
      in flash_select 0 boot)"


section \<open>Which flash an access reaches\<close>

text \<open>What the boot controller makes of the accesses, newest first: the value of the first register and the chip that
  is selected, None before the first selection.\<close>

fun sel_state :: "u64 \<Rightarrow> mi_access list \<Rightarrow> u64 \<times> bool option" where
  "sel_state base [] = (0, None)"
| "sel_state base (MiRead a n # l) = sel_state base l"
| "sel_state base (MiWrite a n v # l) =
     (case sel_state base l of (r, s) \<Rightarrow>
        if n = 8 \<and> a = base \<and> drop_bit 48 v \<in> {0x7003, 0x7004} then (r, Some (drop_bit 48 v = 0x7004))
        else if n = 4 \<and> a = base then (v, s)
        else if n = 4 \<and> a = base + 4 \<and> drop_bit 28 v = 0xD then (r, Some (r = 6))
        else (r, s))"

text \<open>The chips that the read and write commands of a log reach, newest first.\<close>

fun data_cmds :: "u64 \<Rightarrow> mi_access list \<Rightarrow> bool option list" where
  "data_cmds base [] = []"
| "data_cmds base (MiRead a n # l) = data_cmds base l"
| "data_cmds base (MiWrite a n v # l) =
     (if n = 4 \<and> a = base + 4 \<and> drop_bit 28 v \<in> {1, 2} then snd (sel_state base l) # data_cmds base l
      else data_cmds base l)"

abbreviation bt_log :: "('m, 'c) nfb_boot \<Rightarrow> mi_access list" where
  "bt_log boot \<equiv> mi_log (comp_bus (bt_comp boot))"

abbreviation bt_base :: "('m, 'c) nfb_boot \<Rightarrow> u64" where
  "bt_base boot \<equiv> comp_offset (bt_comp boot)"

definition sel_ok :: "('m, 'c) nfb_boot \<Rightarrow> bool" where
  "sel_ok boot \<longleftrightarrow> 8 \<le> comp_size (bt_comp boot) \<and>
     (bt_fb_active_flash boot = -1 \<or> snd (sel_state (bt_base boot) (bt_log boot)) = Some (bt_fb_active_flash boot \<noteq> 0))"

text \<open>Everything but the log of the bus and the record of the selected chip.\<close>

definition same_boot :: "('m, 'c) nfb_boot \<Rightarrow> ('m, 'c) nfb_boot \<Rightarrow> bool" where
  "same_boot boot boot' \<longleftrightarrow> (\<exists>l f. boot' = boot\<lparr>bt_fb_active_flash := f,
     bt_comp := (bt_comp boot)\<lparr>comp_bus := (comp_bus (bt_comp boot))\<lparr>mi_log := l\<rparr>\<rparr>\<rparr>)"

text \<open>A step of the register interface: the log grows, and all its new commands reach the given chip.\<close>

definition reaches :: "bool \<Rightarrow> nat \<Rightarrow> ('m, 'c) nfb_boot \<Rightarrow> ('m, 'c) nfb_boot \<Rightarrow> bool" where
  "reaches chip k boot boot' \<longleftrightarrow> sel_ok boot' \<and> same_boot boot boot' \<and>
     data_cmds (bt_base boot) (bt_log boot') = replicate k (Some chip) @ data_cmds (bt_base boot) (bt_log boot)"

lemma same_boot_refl [simp]: "same_boot boot boot"
  unfolding same_boot_def by (rule exI [of _ "bt_log boot"], rule exI [of _ "bt_fb_active_flash boot"]) simp

lemma same_boot_trans: "same_boot a b \<Longrightarrow> same_boot b c \<Longrightarrow> same_boot a c"
  unfolding same_boot_def by clarsimp (intro exI, rule refl)

lemma same_bootD:
  assumes "same_boot a b"
  shows "bt_flags b = bt_flags a" "bt_mtd_bit b = bt_mtd_bit a" "bt_controller_type b = bt_controller_type a"
    "comp_size (bt_comp b) = comp_size (bt_comp a)" "bt_base b = bt_base a" "bt_num_flash b = bt_num_flash a"
    "bt_mtd b = bt_mtd a" "bt_mem b = bt_mem a" "bt_map b = bt_map a" "bt_nor b = bt_nor a" "bt_spi b = bt_spi a"
    "bt_sdm_boot b = bt_sdm_boot a" "bt_tivoli b = bt_tivoli a" "bt_chips b = bt_chips a"
  using assms unfolding same_boot_def by auto

lemma reaches_trans: "reaches c k a b \<Longrightarrow> reaches c k' b d \<Longrightarrow> reaches c (k' + k) a d"
  unfolding reaches_def using same_boot_trans [of a b d] by (auto simp: same_bootD(5) replicate_add)

lemma eight_in_size:
  assumes "8 \<le> (sz :: u64)"
  shows "\<not> (8 :: u64) > sz" "\<not> (4 :: u64) > sz" "\<not> (0 :: u64) + 4 > sz"
  using assms by (auto simp: word_less_nat_alt word_le_nat_alt)

text \<open>Reads of the bus change neither the selection nor the commands.\<close>

lemma comp_read32_log:
  assumes "8 \<le> comp_size co" and "nfb_comp_read32 co 0 = (v, co')"
  shows "co' = co\<lparr>comp_bus := (comp_bus co)\<lparr>mi_log := MiRead (comp_offset co) 4 # mi_log (comp_bus co)\<rparr>\<rparr>"
  using assms eight_in_size [OF assms(1)] by (auto simp: nfb_comp_read32_def nfb_comp_read_def Let_def)

lemma flash_poll_log:
  assumes "8 \<le> comp_size (bt_comp boot)" and "flash_poll n boot = (v, boot')"
  shows "\<exists>k. boot' = boot\<lparr>bt_comp := (bt_comp boot)\<lparr>comp_bus := (comp_bus (bt_comp boot))\<lparr>mi_log :=
    replicate k (MiRead (bt_base boot) 4) @ bt_log boot\<rparr>\<rparr>\<rparr>"
  using assms
proof (induction n arbitrary: boot)
  case 0
  then show ?case by (auto dest!: comp_read32_log split: prod.splits intro: exI [of _ 1])
next
  case (Suc n)
  obtain r co where r: "nfb_comp_read32 (bt_comp boot) 0 = (r, co)" by force
  note co = comp_read32_log [OF Suc.prems(1) r]
  show ?case
  proof (cases "r AND 0x00010000 \<noteq> 0")
    case True
    with Suc.prems(2) r co show ?thesis by (auto intro: exI [of _ 1])
  next
    case False
    with Suc.prems(2) r have "flash_poll n (boot\<lparr>bt_comp := co\<rparr>) = (v, boot')" by simp
    from Suc.IH [OF _ this] Suc.prems(1) co obtain k where
      "boot' = boot\<lparr>bt_comp := (bt_comp boot)\<lparr>comp_bus := (comp_bus (bt_comp boot))\<lparr>mi_log :=
        replicate k (MiRead (bt_base boot) 4) @ MiRead (bt_base boot) 4 # bt_log boot\<rparr>\<rparr>\<rparr>" by auto
    then show ?thesis by (auto intro!: exI [of _ "Suc k"] simp: replicate_app_Cons_same)
  qed
qed

lemma reads_neutral [simp]:
  "sel_state base (replicate k (MiRead a n) @ l) = sel_state base l"
  "data_cmds base (replicate k (MiRead a n) @ l) = data_cmds base l"
  by (induction k) simp_all


text \<open>A value and a command, then the wait for the flash.\<close>

lemma command_log:
  assumes "8 \<le> comp_size (bt_comp boot)"
  shows "\<exists>k. snd (nfb_boot_flash_read16 (bt_write32 4 c (bt_write32 0 v boot))) =
    boot\<lparr>bt_comp := (bt_comp boot)\<lparr>comp_bus := (comp_bus (bt_comp boot))\<lparr>mi_log :=
      replicate k (MiRead (bt_base boot) 4) @ MiWrite (bt_base boot + 4) 4 (ucast c) # MiWrite (bt_base boot) 4 (ucast v) # bt_log boot\<rparr>\<rparr>\<rparr>"
proof -
  let ?b = "bt_write32 4 c (bt_write32 0 v boot)"
  note sz = eight_in_size [OF assms]
  have b: "?b = boot\<lparr>bt_comp := (bt_comp boot)\<lparr>comp_bus := (comp_bus (bt_comp boot))\<lparr>mi_log :=
      MiWrite (bt_base boot + 4) 4 (ucast c) # MiWrite (bt_base boot) 4 (ucast v) # bt_log boot\<rparr>\<rparr>\<rparr>"
    using sz by (simp add: bt_write32_def nfb_comp_write32_def nfb_comp_write_def Let_def)
  obtain w b' where p: "flash_poll 50 ?b = (w, b')" by force
  have "8 \<le> comp_size (bt_comp ?b)" using assms by (simp add: b)
  from flash_poll_log [OF this p] show ?thesis by (auto simp: nfb_boot_flash_read16_def p) (auto simp: b)
qed

lemma base4 [simp]: "base + 4 \<noteq> base" "base \<noteq> base + 4" for base :: u64
  by simp_all

text \<open>Only the commands read and write are data commands, and the code of a command is its top nibble.\<close>

lemma cmd_code:
  "drop_bit 28 (ucast ((a AND 0x0FFFFFFF) OR 0x10000000 :: u32) :: u64) = 1"
  "drop_bit 28 (ucast ((a AND 0x0FFFFFFF) OR 0x20000000 :: u32) :: u64) = 2"
proof -
  have m: "(0x0FFFFFFF :: u32) = mask 28" "(0x10000000 :: u32) = push_bit 28 1" "(0x20000000 :: u32) = push_bit 28 2"
    by (simp_all add: mask_eq_exp_minus_1)
  have z: "drop_bit 28 (mask 28 :: u32) = 0" by code_simp
  show "drop_bit 28 (ucast ((a AND 0x0FFFFFFF) OR 0x10000000 :: u32) :: u64) = 1"
    "drop_bit 28 (ucast ((a AND 0x0FFFFFFF) OR 0x20000000 :: u32) :: u64) = 2"
    unfolding m by (simp_all add: z flip: ucast_drop_bit_eq)
qed


lemma switch_reaches:
  assumes "sel_ok boot" and "0 \<le> flash"
  shows "reaches (flash \<noteq> 0) 0 boot (nfb_boot_flash_fb_switch_flash flash boot) \<and>
    bt_fb_active_flash (nfb_boot_flash_fb_switch_flash flash boot) = flash"
proof (cases "bt_fb_active_flash boot = flash")
  case True
  with assms(1) show ?thesis by (simp add: nfb_boot_flash_fb_switch_flash_def reaches_def)
next
  case False
  have sz: "8 \<le> comp_size (bt_comp boot)" using assms(1) by (simp add: sel_ok_def)
  let ?b = "boot\<lparr>bt_fb_active_flash := flash\<rparr>"
  show ?thesis
  proof (cases "bt_controller_type boot = 3")
    case True
    let ?v = "push_bit 60 7 OR push_bit 48 (if flash \<noteq> 0 then 4 else 3) :: u64"
    have v: "drop_bit 48 ?v = (if flash \<noteq> 0 then 0x7004 else 0x7003)" by simp
    have r: "nfb_boot_flash_fb_switch_flash flash boot = ?b\<lparr>bt_comp := (bt_comp boot)\<lparr>comp_bus :=
        (comp_bus (bt_comp boot))\<lparr>mi_log := MiWrite (bt_base boot) 8 ?v # bt_log boot\<rparr>\<rparr>\<rparr>"
      using False True eight_in_size [OF sz]
      by (simp add: nfb_boot_flash_fb_switch_flash_def nfb_comp_write64_def nfb_comp_write_def Let_def)
    show ?thesis using sz v unfolding reaches_def r sel_ok_def same_boot_def
      by (auto split: prod.splits)
  next
    case c: False
    let ?v = "if flash \<noteq> 0 then 6 else 2 :: u32"
    obtain k where "snd (nfb_boot_flash_read16 (bt_write32 4 0xD0000000 (bt_write32 0 ?v ?b))) =
      ?b\<lparr>bt_comp := (bt_comp ?b)\<lparr>comp_bus := (comp_bus (bt_comp ?b))\<lparr>mi_log :=
        replicate k (MiRead (bt_base ?b) 4) @ MiWrite (bt_base ?b + 4) 4 (ucast (0xD0000000 :: u32)) # MiWrite (bt_base ?b) 4 (ucast ?v) # bt_log ?b\<rparr>\<rparr>\<rparr>"
      using command_log [where boot = ?b and c = "0xD0000000" and v = ?v] sz by auto
    with False c have r: "nfb_boot_flash_fb_switch_flash flash boot = ?b\<lparr>bt_comp := (bt_comp boot)\<lparr>comp_bus := (comp_bus (bt_comp boot))\<lparr>mi_log :=
        replicate k (MiRead (bt_base boot) 4) @ MiWrite (bt_base boot + 4) 4 (ucast (0xD0000000 :: u32)) # MiWrite (bt_base boot) 4 (ucast ?v) # bt_log boot\<rparr>\<rparr>\<rparr>"
      by (simp add: nfb_boot_flash_fb_switch_flash_def Let_def)
    show ?thesis using sz unfolding reaches_def r sel_ok_def same_boot_def
      by (auto split: prod.splits)
  qed
qed

lemma select_reaches:
  assumes "sel_ok boot" and "0 \<le> flash" and "bt_flags boot AND NFB_BOOT_FLAG_FB_SELECT_FLASH \<noteq> 0"
  shows "reaches (flash \<noteq> 0) 0 boot (flash_select flash boot)" "bt_fb_active_flash (flash_select flash boot) = flash"
  using switch_reaches [OF assms(1,2)] assms(3) by (simp_all add: flash_select_def)

text \<open>A data command after the selection.\<close>

lemma command_reaches:
  assumes "sel_ok boot" and "bt_fb_active_flash boot = flash" and "0 \<le> flash" and "drop_bit 28 (ucast c :: u64) \<in> {1, 2}"
  shows "reaches (flash \<noteq> 0) 1 boot (snd (nfb_boot_flash_read16 (bt_write32 4 c (bt_write32 0 v boot)))) \<and>
    bt_fb_active_flash (snd (nfb_boot_flash_read16 (bt_write32 4 c (bt_write32 0 v boot)))) = flash"
proof -
  have sz: "8 \<le> comp_size (bt_comp boot)" using assms(1) by (simp add: sel_ok_def)
  have sel: "snd (sel_state (bt_base boot) (bt_log boot)) = Some (flash \<noteq> 0)" using assms(1-3) by (simp add: sel_ok_def)
  obtain k where r: "snd (nfb_boot_flash_read16 (bt_write32 4 c (bt_write32 0 v boot))) =
    boot\<lparr>bt_comp := (bt_comp boot)\<lparr>comp_bus := (comp_bus (bt_comp boot))\<lparr>mi_log :=
      replicate k (MiRead (bt_base boot) 4) @ MiWrite (bt_base boot + 4) 4 (ucast c) # MiWrite (bt_base boot) 4 (ucast v) # bt_log boot\<rparr>\<rparr>\<rparr>"
    using command_log [OF sz] by blast
  have "same_boot boot (snd (nfb_boot_flash_read16 (bt_write32 4 c (bt_write32 0 v boot))))"
    unfolding r same_boot_def by (rule exI, rule exI [of _ "bt_fb_active_flash boot"]) simp
  moreover have "drop_bit 28 (ucast c :: u64) \<noteq> 0xD" using assms(4) by auto
  ultimately show ?thesis using sz sel assms(2,4) unfolding reaches_def r sel_ok_def
    by (auto split: prod.splits)
qed

lemma reaches_ok: "reaches c k a b \<Longrightarrow> sel_ok b" "reaches c k a b \<Longrightarrow> same_boot a b"
  by (simp_all add: reaches_def)

lemma access_reaches:
  assumes "sel_ok boot" and "0 \<le> flash" and "bt_flags boot AND NFB_BOOT_FLAG_FB_SELECT_FLASH \<noteq> 0"
    and "drop_bit 28 (ucast c :: u64) \<in> {1, 2}"
  shows "reaches (flash \<noteq> 0) 1 boot (snd (nfb_boot_flash_read16 (bt_write32 4 c (bt_write32 0 v (flash_select flash boot)))))"
proof -
  note s = select_reaches [OF assms(1-3)]
  from command_reaches [OF reaches_ok(1) [OF s(1)] s(2) assms(2,4)] reaches_trans [OF s(1)] show ?thesis by fastforce
qed

lemma read_reaches:
  assumes "sel_ok boot" and "0 \<le> flash" and "bt_flags boot AND NFB_BOOT_FLAG_FB_SELECT_FLASH \<noteq> 0"
  shows "reaches (flash \<noteq> 0) 1 boot (snd (nfb_boot_flash_read flash addr boot))"
    "reaches (flash \<noteq> 0) 1 boot (nfb_boot_flash_write flash d addr boot)"
  using access_reaches [OF assms] cmd_code
  by (simp_all add: nfb_boot_flash_read_def nfb_boot_flash_write_def Let_def)

lemma copy_reaches:
  assumes "sel_ok boot" and "0 \<le> flash" and "bt_flags boot AND NFB_BOOT_FLAG_FB_SELECT_FLASH \<noteq> 0"
  shows "reaches (flash \<noteq> 0) n boot (snd (flash_copy_words flash from i n boot))"
  using assms(1,3)
proof (induction n arbitrary: i boot)
  case 0
  then show ?case by (simp add: reaches_def)
next
  case (Suc n)
  obtain w b where r: "nfb_boot_flash_read flash (from + of_nat (2 * i)) boot = (w, b)" by force
  have rb: "reaches (flash \<noteq> 0) 1 boot b" using read_reaches(1) [OF Suc.prems(1) assms(2) Suc.prems(2)] r by (metis snd_conv)
  have "reaches (flash \<noteq> 0) n b (snd (flash_copy_words flash from (Suc i) n b))"
    using Suc.IH [OF reaches_ok(1) [OF rb]] same_bootD(1) [OF reaches_ok(2) [OF rb]] Suc.prems(2) by simp
  from reaches_trans [OF rb this] r show ?case by (simp add: case_prod_beta)
qed


text \<open>Accesses that the MTD subsystem makes through the maps, in any order.\<close>

datatype flash_req = FRead int u64 | FWrite int u64 u64 | FCopy int u64 int

primrec req_flash :: "flash_req \<Rightarrow> int" where
  "req_flash (FRead f a) = f"
| "req_flash (FWrite f d a) = f"
| "req_flash (FCopy f a n) = f"

primrec req_words :: "flash_req \<Rightarrow> nat" where
  "req_words (FRead f a) = 1"
| "req_words (FWrite f d a) = 1"
| "req_words (FCopy f a n) = nat (n div 2)"

primrec req_run :: "flash_req \<Rightarrow> ('m, 'c) nfb_boot \<Rightarrow> ('m, 'c) nfb_boot" where
  "req_run (FRead f a) boot = snd (nfb_boot_flash_read f a boot)"
| "req_run (FWrite f d a) boot = nfb_boot_flash_write f d a boot"
| "req_run (FCopy f a n) boot = snd (nfb_boot_flash_copy_from f a n boot)"

lemma req_reaches:
  assumes "sel_ok boot" and "0 \<le> req_flash r" and "bt_flags boot AND NFB_BOOT_FLAG_FB_SELECT_FLASH \<noteq> 0"
  shows "reaches (req_flash r \<noteq> 0) (req_words r) boot (req_run r boot)"
  using assms read_reaches [OF assms(1) _ assms(3)] copy_reaches [OF assms(1) _ assms(3)]
  by (cases r) (simp_all add: nfb_boot_flash_copy_from_def)

text \<open>C18.  Two flash chips share one bus.  Whatever accesses the MTD subsystem makes through the maps of
  both, in any interleaving, every read and write command that the boot controller executes reaches the chip it was
  meant for: the commands of the log are, in order, those of the requests, each with the chip of its own request.\<close>

theorem flash_access_routed:
  assumes "sel_ok boot" and "\<forall>r \<in> set rs. 0 \<le> req_flash r" and "bt_flags boot AND NFB_BOOT_FLAG_FB_SELECT_FLASH \<noteq> 0"
  shows "data_cmds (bt_base boot) (bt_log (fold req_run rs boot)) =
      concat (map (\<lambda>r. replicate (req_words r) (Some (req_flash r \<noteq> 0))) (rev rs)) @ data_cmds (bt_base boot) (bt_log boot) \<and>
    sel_ok (fold req_run rs boot)"
  using assms
proof (induction rs arbitrary: boot)
  case (Cons r rs)
  have r: "reaches (req_flash r \<noteq> 0) (req_words r) boot (req_run r boot)"
    using req_reaches [OF Cons.prems(1) _ Cons.prems(3)] Cons.prems(2) by simp
  note same = same_bootD [OF reaches_ok(2) [OF r]]
  from Cons.IH [OF reaches_ok(1) [OF r]] Cons.prems(2,3) same r show ?case by (simp add: reaches_def)
qed simp

definition example_boot :: "(nat, unit) nfb_boot" where
  "example_boot = \<lparr>bt_comp = example_comp\<lparr>comp_bus := \<lparr>mi_env = (\<lambda>_ _ _. Some 0x10000), mi_log = []\<rparr>\<rparr>, bt_tivoli = False, bt_spi = False, bt_sdm_boot = False, bt_num_flash = 2,
     bt_map = None, bt_nor = None, bt_mtd = None, bt_flags = 1, bt_controller_type = 0, bt_mtd_bit = 24,
     bt_fb_active_flash = -1, bt_mem = \<lparr>bm_ok = (\<lambda>n. n < 1), bm_calls = 0, bm_live = [], bm_bad = 0, bm_junk = (\<lambda>n. replicate n 0xAA)\<rparr>,
     bt_chips = ()\<rparr>"

theorem flash_access_routed_witness:
  "data_cmds 0x1000 (bt_log (fold req_run [FRead 0 0x10, FWrite 1 0x55 0x20, FRead 0 0x30] example_boot)) =
     [Some False, Some True, Some False]"
  using flash_access_routed [of example_boot "[FRead 0 0x10, FWrite 1 0x55 0x20, FRead 0 0x30]"]
  by (simp add: sel_ok_def example_boot_def example_comp_def NFB_BOOT_FLAG_FB_SELECT_FLASH_def)

section \<open>Addresses\<close>

lemma unat_exp: "k < 64 \<Longrightarrow> unat (2 ^ k :: u64) = 2 ^ k"
proof -
  assume "k < 64"
  then have "(2 :: nat) ^ k < 2 ^ 64" by (rule power_strict_increasing) simp
  then show ?thesis using unat_of_nat [of "2 ^ k", where 'a = 64] by simp
qed

lemma flash_address_unat:
  assumes "0 \<le> flash" and "flash \<le> 1" and "0 \<le> bt_mtd_bit boot" and "bt_mtd_bit boot \<le> 28"
    and "unat addr < 2 ^ nat (bt_mtd_bit boot)"
  shows "unat (flash_address boot flash addr) = (nat flash * 2 ^ nat (bt_mtd_bit boot) + unat addr) div 2"
proof -
  let ?k = "nat (bt_mtd_bit boot)"
  have k: "?k \<le> 28" using assms(4) by simp
  have "flash = 0 \<or> flash = 1" using assms(1,2) by auto
  then have s: "(scast (push_bit ?k (of_int flash) :: u32) :: u64) = push_bit ?k (of_int flash)"
    using k by (auto intro!: bit_word_eqI simp: bit_simps)
  have d: "addr AND push_bit ?k (of_int flash) = 0"
  proof (rule bit_word_eqI)
    fix n
    have "bit addr n \<Longrightarrow> n < ?k"
      using assms(5) and_mask_eq_self [of addr ?k] by (metis bit_and_iff bit_mask_iff)
    then show "bit (addr AND push_bit ?k (of_int flash)) n = bit (0 :: u64) n" by (auto simp: bit_simps)
  qed
  have "addr OR push_bit ?k (of_int flash) = addr + push_bit ?k (of_int flash)"
    by (rule disjunctive_add_eq_or [OF d, symmetric])
  moreover have p: "unat (push_bit ?k (of_int flash) :: u64) = nat flash * 2 ^ ?k"
    using \<open>flash = 0 \<or> flash = 1\<close> k by (auto simp: push_bit_of_1 unat_exp)
  moreover have "unat addr + nat flash * 2 ^ ?k < 2 ^ 64"
  proof -
    have "(2 :: nat) ^ ?k \<le> 2 ^ 28" using k by (rule power_increasing) simp
    then have "nat flash * 2 ^ ?k \<le> 2 ^ 28" using \<open>flash = 0 \<or> flash = 1\<close> by auto
    moreover have "unat addr < 2 ^ 28" using assms(5) k by (meson less_le_trans one_le_numeral power_increasing)
    ultimately show ?thesis by simp
  qed
  ultimately have "unat (addr OR push_bit ?k (of_int flash)) = nat flash * 2 ^ ?k + unat addr"
    by (simp add: unat_word_ariths)
  then show ?thesis using assms(3) by (simp add: flash_address_def s drop_bit_eq_div unat_div)
qed


lemma mask28_unat:
  "unat (ucast a AND 0x0FFFFFFF :: u32) = unat a mod 2 ^ 28" for a :: u64
proof -
  have "(0x0FFFFFFF :: u32) = mask 28" by (simp add: mask_eq_exp_minus_1)
  then have "unat (ucast a AND 0x0FFFFFFF :: u32) = unat (ucast a :: u32) mod 2 ^ 28" by (simp only: unat_and_mask)
  also have "unat (ucast a :: u32) = unat a mod 2 ^ 32" by (simp add: unsigned_ucast_eq take_bit_eq_mod)
  finally show ?thesis by (simp add: mod_mod_cancel)
qed

text \<open>C39.  When both flash chips share the address space, with the bit \<open>mtd_bit\<close> choosing between them,
  the commands of different chips, or of different words of one chip, carry different addresses.\<close>

theorem flash_words_distinct:
  assumes "{f1, f2} \<subseteq> {0, 1}" and "0 \<le> bt_mtd_bit boot" and "bt_mtd_bit boot \<le> 28"
    and "unat a1 < 2 ^ nat (bt_mtd_bit boot)" and "unat a2 < 2 ^ nat (bt_mtd_bit boot)" and "0 < bt_mtd_bit boot"
  shows "(ucast (flash_address boot f1 a1) AND 0x0FFFFFFF :: u32) = ucast (flash_address boot f2 a2) AND 0x0FFFFFFF
    \<longleftrightarrow> f1 = f2 \<and> unat a1 div 2 = unat a2 div 2"
proof -
  let ?k = "nat (bt_mtd_bit boot)"
  obtain h where k: "?k = Suc h" using assms(6) by (cases ?k) simp_all
  have h: "h \<le> 27" using assms(3) k by simp
  have f: "f1 = 0 \<or> f1 = 1" "f2 = 0 \<or> f2 = 1" using assms(1) by auto
  have adr: "unat (flash_address boot f a) = nat f * 2 ^ h + unat a div 2"
    if "f = 0 \<or> f = 1" "unat a < 2 ^ ?k" for f a
    using flash_address_unat [of f boot a] that assms(2,3) by (auto simp: k)
  have "(2 :: nat) ^ h \<le> 2 ^ 27" using h by (rule power_increasing) simp
  then have lt: "nat f * 2 ^ h + unat a div 2 < 2 ^ 28" if "f = 0 \<or> f = 1" "unat a < 2 ^ ?k" for f a
    using that k by auto
  have hl: "unat a div 2 < 2 ^ h" if "unat a < 2 ^ ?k" for a :: u64 using that k by auto
  show ?thesis
    using f adr [OF f(1) assms(4)] adr [OF f(2) assms(5)] lt [OF f(1) assms(4)] lt [OF f(2) assms(5)]
      hl [OF assms(4)] hl [OF assms(5)]
    by (auto simp: word_unat_eq_iff mask28_unat)
qed

theorem flash_words_distinct_witness:
  "(ucast (flash_address example_boot 0 0x10) AND 0x0FFFFFFF :: u32) \<noteq> ucast (flash_address example_boot 1 0x10) AND 0x0FFFFFFF"
  using flash_words_distinct [of 0 1 example_boot "0x10" "0x10"] by (simp add: example_boot_def)


section \<open>Lifetime of the tables\<close>

text \<open>Steps that use no memory in the end and leave the tables alone.\<close>

definition core_keeps :: "('m, 'c) nfb_boot \<Rightarrow> ('m, 'c) nfb_boot \<Rightarrow> bool" where
  "core_keeps b b' \<longleftrightarrow> map_option fst (bt_mtd b') = map_option fst (bt_mtd b) \<and> bt_map b' = bt_map b \<and> bt_nor b' = bt_nor b \<and>
     bt_num_flash b' = bt_num_flash b \<and> bt_spi b' = bt_spi b \<and> bt_sdm_boot b' = bt_sdm_boot b \<and>
     bm_live (bt_mem b') = bm_live (bt_mem b) \<and> bm_bad (bt_mem b') = bm_bad (bt_mem b) \<and>
     bm_calls (bt_mem b) \<le> bm_calls (bt_mem b')"

text \<open>What the driver expects of the MTD subsystem: it frees what it allocates and does not touch the tables.\<close>

definition core_law :: "('m, 'c) mtd_core \<Rightarrow> bool" where
  "core_law core \<longleftrightarrow> (\<forall>i m b. core_keeps b (snd (cfi_probe core i b)) \<and> core_keeps b (snd (snd (spi_nor_scan core i b))) \<and>
     core_keeps b (map_destroy core m b))"

definition mem_fresh :: "boot_mem \<Rightarrow> bool" where
  "mem_fresh bm \<longleftrightarrow> (\<forall>x \<in> set (bm_live bm). x < bm_calls bm)"

lemma core_keeps_refl [simp]: "core_keeps b b"
  by (simp add: core_keeps_def)

lemma core_keeps_trans: "core_keeps a b \<Longrightarrow> core_keeps b c \<Longrightarrow> core_keeps a c"
  by (simp add: core_keeps_def)

lemma core_keeps_fresh: "core_keeps a b \<Longrightarrow> mem_fresh (bt_mem a) \<Longrightarrow> mem_fresh (bt_mem b)"
  by (fastforce simp: core_keeps_def mem_fresh_def)

text \<open>The register interface changes the log and the record of the selected chip only.\<close>

lemma flash_poll_frame: "\<exists>co. snd (flash_poll n boot) = boot\<lparr>bt_comp := co\<rparr>"
proof (induction n arbitrary: boot)
  case (Suc n)
  obtain v co where r: "nfb_comp_read32 (bt_comp boot) 0 = (v, co)" by force
  from Suc.IH [of "boot\<lparr>bt_comp := co\<rparr>"] r show ?case by auto
qed (auto split: prod.splits)

lemma read16_frame: "\<exists>co. snd (nfb_boot_flash_read16 boot) = boot\<lparr>bt_comp := co\<rparr>"
  using flash_poll_frame [of 50 boot] by (simp add: nfb_boot_flash_read16_def)

lemma command_frame:
  "\<exists>co. snd (nfb_boot_flash_read16 (bt_write32 4 c (bt_write32 0 v boot))) = boot\<lparr>bt_comp := co\<rparr>"
  using read16_frame [of "bt_write32 4 c (bt_write32 0 v boot)"] by (auto simp: bt_write32_def)

lemma switch_frame: "\<exists>co f. nfb_boot_flash_fb_switch_flash flash boot = boot\<lparr>bt_fb_active_flash := f, bt_comp := co\<rparr>"
proof (cases "bt_fb_active_flash boot = flash")
  case True
  then have "nfb_boot_flash_fb_switch_flash flash boot = boot\<lparr>bt_fb_active_flash := bt_fb_active_flash boot, bt_comp := bt_comp boot\<rparr>"
    by (simp add: nfb_boot_flash_fb_switch_flash_def)
  then show ?thesis by blast
next
  case False
  obtain co where "snd (nfb_boot_flash_read16 (bt_write32 4 0xD0000000 (bt_write32 0 (if flash \<noteq> 0 then 6 else 2) (boot\<lparr>bt_fb_active_flash := flash\<rparr>)))) =
      boot\<lparr>bt_fb_active_flash := flash, bt_comp := co\<rparr>"
    using command_frame by fastforce
  with False show ?thesis by (auto simp: nfb_boot_flash_fb_switch_flash_def Let_def)
qed

lemma select_frame:
  "bt_mtd (flash_select f b) = bt_mtd b" "bt_map (flash_select f b) = bt_map b" "bt_nor (flash_select f b) = bt_nor b"
  "bt_mem (flash_select f b) = bt_mem b" "bt_num_flash (flash_select f b) = bt_num_flash b"
  "bt_spi (flash_select f b) = bt_spi b" "bt_sdm_boot (flash_select f b) = bt_sdm_boot b"
  using switch_frame [of f b] by (auto simp: flash_select_def)

lemma select_keeps: "core_keeps b (flash_select f b)"
  by (simp add: core_keeps_def select_frame)

lemma async_keeps: "core_keeps b (nfb_boot_flash_set_async f b)"
proof -
  have cmd: "core_keeps b (snd (nfb_boot_flash_read16 (bt_write32 4 c (bt_write32 0 v b))))" for b :: "('m, 'c) nfb_boot" and c v
    using command_frame [of c v b] by (auto simp: core_keeps_def)
  show ?thesis unfolding nfb_boot_flash_set_async_def Let_def
    by (rule core_keeps_trans [OF core_keeps_trans [OF select_keeps cmd] cmd])
qed

lemma transfer_keeps:
  "core_keeps b (snd (snd (axi_qspi_transfer spi i opcode addr w dummy len tx b)))"
  using select_keeps [of b i]
  by (auto simp: axi_qspi_transfer_def Let_def bm_alloc_def bm_free_def core_keeps_def split: option.splits prod.splits)

lemma set_mtd_keeps: "core_keeps b (set_mtd i m b)"
  by (simp add: core_keeps_def set_mtd_def option.map_comp comp_def)

lemma init_one_keeps:
  assumes "core_law core" and "mtd_init_one core spi i b = Some b'"
  shows "core_keeps b b'"
proof (cases "bt_spi b \<or> bt_sdm_boot b")
  case True
  let ?pre = "if bt_sdm_boot b then b
    else let b = (if bt_tivoli b then snd (axi_qspi_read_reg spi (int i) SPINOR_OP_RDFSR 1 b) else b)
         in snd (axi_qspi_read_reg spi (int i) SPINOR_OP_RDFSR 1 b)"
  have pre: "core_keeps b ?pre"
    by (auto simp: Let_def axi_qspi_read_reg_def intro: transfer_keeps core_keeps_trans)
  obtain r m c where sc: "spi_nor_scan core i ?pre = (r, m, c)" using prod_cases3 by blast
  have "core_keeps ?pre c" using assms(1) sc unfolding core_law_def by (metis snd_conv)
  with pre have "core_keeps b c" by (rule core_keeps_trans)
  moreover have "b' = (if r \<noteq> 0 then c else set_mtd i (Some m) c)"
    using assms(2) True sc by (simp add: mtd_init_one_def Let_def)
  ultimately show ?thesis using set_mtd_keeps core_keeps_trans by (metis (full_types))
next
  case False
  let ?pre = "if bt_flags b AND NFB_BOOT_FLAG_FLASH_SET_ASYNC \<noteq> 0 then nfb_boot_flash_set_async (int i) b else b"
  have pre: "core_keeps b ?pre" by (simp add: async_keeps)
  obtain mo c where cf: "cfi_probe core i ?pre = (mo, c)" by force
  have "core_keeps ?pre c" using assms(1) cf unfolding core_law_def by (metis snd_conv)
  with pre have "core_keeps b c" by (rule core_keeps_trans)
  moreover have "b' = set_mtd i mo c" using assms(2) False cf by (simp add: mtd_init_one_def Let_def split: if_splits)
  ultimately show ?thesis using set_mtd_keeps core_keeps_trans by blast
qed

lemma init_loop_keeps:
  assumes "core_law core"
  shows "mtd_init_loop core spi i n b = Some b' \<Longrightarrow> core_keeps b b'"
proof (induction n arbitrary: i b)
  case (Suc n)
  from Suc.prems obtain c where "mtd_init_one core spi i b = Some c" "mtd_init_loop core spi (Suc i) n c = Some b'"
    by (auto split: option.splits)
  with Suc.IH init_one_keeps [OF assms] core_keeps_trans show ?case by blast
qed simp

lemma destroy_loop_keeps:
  assumes "core_law core"
  shows "core_keeps b (mtd_destroy_loop core ms b)"
proof (induction ms arbitrary: b)
  case (Cons mo ms)
  have "core_keeps b (if bt_nor b \<noteq> None then b else case mo of None \<Rightarrow> b | Some m \<Rightarrow> map_destroy core m b)"
    using assms by (auto simp: core_law_def split: option.splits)
  from core_keeps_trans [OF this Cons.IH] show ?case by simp
qed simp

text \<open>What \<open>nfb_boot_mtd_destroy\<close> does to the memory, given what the tables point to.\<close>

lemma destroy_mem:
  assumes "core_law core"
  shows "bm_live (bt_mem (nfb_boot_mtd_destroy core b)) = bm_live (bm_free (bt_map b) (bm_free (bt_nor b) (bm_free (map_option fst (bt_mtd b)) (bt_mem b))))"
    "bm_bad (bt_mem (nfb_boot_mtd_destroy core b)) = bm_bad (bm_free (bt_map b) (bm_free (bt_nor b) (bm_free (map_option fst (bt_mtd b)) (bt_mem b))))"
    "bt_map (nfb_boot_mtd_destroy core b) = None" "bt_nor (nfb_boot_mtd_destroy core b) = None" "bt_mtd (nfb_boot_mtd_destroy core b) = None"
  using destroy_loop_keeps [OF assms, of b]
  by (auto simp: nfb_boot_mtd_destroy_def Let_def select_frame core_keeps_def bm_free_def split: option.splits)

lemma destroy_idle:
  assumes "bt_map b = None" "bt_nor b = None" "bt_mtd b = None"
  shows "bt_mem (nfb_boot_mtd_destroy core b) = bt_mem b"
  using assms by (simp add: nfb_boot_mtd_destroy_def bm_free_def Let_def select_frame)



definition example_core :: "(nat, unit) mtd_core" where
  "example_core = \<lparr>mtd_size = (\<lambda>_. 0x4000000), mtd_erasesize = (\<lambda>_. 0x20000), mtd_unlock = (\<lambda>_ _ _ b. b), mtd_erase = (\<lambda>_ _ _ b. (0, b)),
     mtd_write = (\<lambda>_ _ _ b. (0, b)), mtd_read = (\<lambda>_ _ _ b. (- 5, [], b)),
     cfi_probe = (\<lambda>i b. (Some i, snd (nfb_boot_flash_read (int i) 0 b))), map_destroy = (\<lambda>_ b. b), spi_nor_scan = (\<lambda>i b. (0, i, b))\<rparr>"

lemma example_core_law: "core_law example_core"
proof -
  have "core_keeps b (snd (nfb_boot_flash_read f a b))" for f a and b :: "(nat, unit) nfb_boot"
  proof -
    obtain co where "snd (nfb_boot_flash_read f a b) = (flash_select f b)\<lparr>bt_comp := co\<rparr>"
      using command_frame unfolding nfb_boot_flash_read_def Let_def by blast
    then show ?thesis using select_keeps [of b f] by (simp add: core_keeps_def)
  qed
  then show ?thesis by (simp add: core_law_def example_core_def)
qed

abbreviation example_spi :: "unit spi_ctrl" where
  "example_spi \<equiv> (\<lambda>tx c. (int (length tx), tx, c))"

abbreviation example_boot2 :: "(nat, unit) nfb_boot" where
  "example_boot2 \<equiv> example_boot\<lparr>bt_mem := (bt_mem example_boot)\<lparr>bm_ok := (\<lambda>_. True)\<rparr>\<rparr>"


text \<open>When the table of MTDs of a parallel flash cannot be allocated, \<open>nfb_boot_mtd_init\<close> frees
  the table of maps and keeps the pointer, so that \<open>nfb_boot_mtd_destroy\<close> frees it again; until then every request for an existing
  flash dereferences the null pointer of the table.\<close>

theorem mtd_init_failure_double_free:
  assumes "core_law core" and "\<not> bt_spi b" and "\<not> bt_sdm_boot b" and "bt_nor b = None" and "mem_fresh (bt_mem b)"
    and "bm_ok (bt_mem b) (bm_calls (bt_mem b))" and "\<not> bm_ok (bt_mem b) (Suc (bm_calls (bt_mem b)))"
  shows "\<exists>b1. nfb_boot_mtd_init core spi b = Some (- ENOMEM, b1) \<and>
    bm_bad (bt_mem (nfb_boot_mtd_destroy core b1)) = Suc (bm_bad (bt_mem b)) \<and>
    (\<forall>ioc. im_mtd ioc < bt_num_flash b \<longrightarrow> nfb_boot_ioctl_mtd_erase core (Some ioc) b1 = None)"
proof -
  let ?p = "bm_calls (bt_mem b)"
  let ?b1 = "b\<lparr>bt_fb_active_flash := -1, bt_map := Some ?p, bt_mtd := None, bt_mem := (bt_mem b)\<lparr>bm_calls := Suc (Suc ?p)\<rparr>\<rparr>"
  have "?p \<notin> set (bm_live (bt_mem b))" using assms(5) by (auto simp: mem_fresh_def)
  then have "bm_bad (bt_mem (nfb_boot_mtd_destroy core ?b1)) = Suc (bm_bad (bt_mem b))"
    using destroy_mem(2) [OF assms(1), of ?b1] assms(4) by (simp add: bm_free_def)
  moreover have "nfb_boot_mtd_init core spi b = Some (- ENOMEM, ?b1)"
    using assms(2,3,6,7) by (simp add: nfb_boot_mtd_init_def Let_def bm_alloc_def bm_free_def)
  moreover have "\<forall>ioc. im_mtd ioc < bt_num_flash b \<longrightarrow> nfb_boot_ioctl_mtd_erase core (Some ioc) ?b1 = None"
    by (simp add: nfb_boot_ioctl_mtd_erase_def mtd_at_def)
  ultimately show ?thesis by blast
qed

theorem mtd_init_failure_double_free_witness:
  "bm_bad (bt_mem (nfb_boot_mtd_destroy example_core (snd (the (nfb_boot_mtd_init example_core example_spi example_boot))))) = 1"
proof -
  have "mem_fresh (bt_mem example_boot)" by (simp add: mem_fresh_def example_boot_def)
  from mtd_init_failure_double_free [OF example_core_law _ _ _ this, of example_spi] show ?thesis
    by (auto simp: example_boot_def)
qed

text \<open>The user always gets as many bytes as were asked for: when the flash cannot be read, all of
  them are what the fresh kernel memory held before.\<close>

theorem mtd_read_discloses:
  assumes "bt_mtd b = Some (q, ms)" and "0 \<le> im_mtd ioc" and "im_mtd ioc < bt_num_flash b" and "nat (im_mtd ioc) < length ms"
    and "ms ! nat (im_mtd ioc) = Some m" and "0 < im_size ioc" and "bm_ok (bt_mem b) (bm_calls (bt_mem b))"
    and "\<And>b'. bm_junk (bt_mem b') = bm_junk (bt_mem b) \<Longrightarrow> \<exists>b''. mtd_read core m (of_int (im_addr ioc)) (of_int (im_size ioc)) b' = (err, [], b'') \<and> bm_junk (bt_mem b'') = bm_junk (bt_mem b)"
    and "\<And>n. length (bm_junk (bt_mem b) n) = n"
  shows "\<exists>b'. nfb_boot_ioctl_mtd_read core (Some ioc) True b = Some (err, Some (bm_junk (bt_mem b) (nat (im_size ioc))), b')"
proof -
  let ?b = "b\<lparr>bt_mem := (bt_mem b)\<lparr>bm_calls := Suc (bm_calls (bt_mem b)), bm_live := bm_calls (bt_mem b) # bm_live (bt_mem b)\<rparr>\<rparr>"
  obtain b'' where "mtd_read core m (of_int (im_addr ioc)) (of_int (im_size ioc)) ?b = (err, [], b'')"
    "bm_junk (bt_mem b'') = bm_junk (bt_mem b)" using assms(8) [of ?b] by auto
  then show ?thesis using assms(1-7,9)
    by (simp add: nfb_boot_ioctl_mtd_read_def boot_vmalloc_def bm_alloc_def mtd_at_def)
qed

theorem mtd_read_discloses_witness:
  "\<exists>b'. nfb_boot_ioctl_mtd_read example_core (Some \<lparr>im_mtd = 0, im_addr = 0, im_size = 4\<rparr>) True (example_boot\<lparr>bt_mtd := Some (0, [Some 0, None])\<rparr>) =
     Some (- 5, Some [0xAA, 0xAA, 0xAA, 0xAA], b')"
proof -
  let ?b = "example_boot\<lparr>bt_mtd := Some (0, [Some 0, None])\<rparr>" and ?ioc = "\<lparr>im_mtd = 0, im_addr = 0, im_size = 4\<rparr>"
  have "\<exists>b'. nfb_boot_ioctl_mtd_read example_core (Some ?ioc) True ?b = Some (- 5, Some (bm_junk (bt_mem ?b) (nat (im_size ?ioc))), b')"
  proof (rule mtd_read_discloses [of ?b 0 "[Some 0, None]" ?ioc 0])
    show "\<exists>b''. mtd_read example_core 0 (of_int (im_addr ?ioc)) (of_int (im_size ?ioc)) b' = (- 5, [], b'') \<and> bm_junk (bt_mem b'') = bm_junk (bt_mem ?b)"
      if "bm_junk (bt_mem b') = bm_junk (bt_mem ?b)" for b' using that by (simp add: example_core_def)
  qed (simp_all add: example_boot_def)
  then show ?thesis by (simp add: example_boot_def numeral_eq_Suc)
qed

end
