(* ===== verification/Sdm.thy ===== *)
theory Sdm
  imports Comp
begin

text \<open>
  The mailbox of the Secure Device Manager of Intel FPGAs: \<open>drivers/kernel/drivers/nfb/boot/sdm.c\<close>.

  A command is written word by word to a FIFO whose free space the driver reads first; the response arrives in a
  second FIFO with a header that holds an error code and a length.  The wait for the response has no limit in the
  source, so that reception is a partial function.  A write through a null buffer is a fault.
\<close>

abbreviation (input) ETIME :: int where "ETIME \<equiv> 62"

definition SDM_MC_CMD_FIFO :: u64 where "SDM_MC_CMD_FIFO = 0x00"
definition SDM_MC_CMD_LAST_WORD :: u64 where "SDM_MC_CMD_LAST_WORD = 0x04"
definition SDM_MC_CMD_FIFO_EMPTY_SPACE :: u64 where "SDM_MC_CMD_FIFO_EMPTY_SPACE = 0x08"
definition SDM_MC_RESPONSE_FIFO :: u64 where "SDM_MC_RESPONSE_FIFO = 0x14"
definition SDM_MC_RESPONSE_FIFO_FILL_LEVEL :: u64 where "SDM_MC_RESPONSE_FIFO_FILL_LEVEL = 0x18"
definition SDM_MC_INTERRUPT_STATUS_REGISTER :: u64 where "SDM_MC_INTERRUPT_STATUS_REGISTER = 0x20"

lemmas sdm_regs = SDM_MC_CMD_FIFO_def SDM_MC_CMD_LAST_WORD_def SDM_MC_CMD_FIFO_EMPTY_SPACE_def
  SDM_MC_RESPONSE_FIFO_def SDM_MC_RESPONSE_FIFO_FILL_LEVEL_def SDM_MC_INTERRUPT_STATUS_REGISTER_def

definition SDM_QSPI_OPEN_OP :: u32 where "SDM_QSPI_OPEN_OP = 0x32"
definition SDM_QSPI_SET_CS_OP :: u32 where "SDM_QSPI_SET_CS_OP = 0x34"
definition SDM_QSPI_CLOSE_OP :: u32 where "SDM_QSPI_CLOSE_OP = 0x33"
definition SDM_QSPI_READ_OP :: u32 where "SDM_QSPI_READ_OP = 0x3A"
definition SDM_QSPI_READ_DEVICE_REG_OP :: u32 where "SDM_QSPI_READ_DEVICE_REG_OP = 0x35"
definition SDM_QSPI_WRITE_OP :: u32 where "SDM_QSPI_WRITE_OP = 0x39"
definition SDM_QSPI_WRITE_DEVICE_REG_OP :: u32 where "SDM_QSPI_WRITE_DEVICE_REG_OP = 0x36"
definition SDM_QSPI_ERASE_OP :: u32 where "SDM_QSPI_ERASE_OP = 0x38"
definition SDM_GET_TEMPERATURE_OP :: u32 where "SDM_GET_TEMPERATURE_OP = 0x19"
definition SDM_RSU_IMAGE_UPDATE_OP :: u32 where "SDM_RSU_IMAGE_UPDATE_OP = 0x5C"

text \<open>\<open>sd_boot_path\<close> is the path of the component of the boot driver, which the flash operations lock; the mailbox
  has a component of its own.  Both belong to one device and share its list of locks.\<close>

record sdm =
  sd_cmd_id :: u32
  sd_comp :: nfb_comp
  sd_locked :: u32
  sd_boot_path :: string

definition sdm_len_bytes_to_words :: "nat \<Rightarrow> nat" where
  "sdm_len_bytes_to_words n = (n + 3) div 4"

section \<open>Sending\<close>

text \<open>\<open>n\<close> is the number of reads after which the driver gives up; the result of the last read is not used.\<close>

fun sdm_wait_space :: "int \<Rightarrow> nfb_comp \<Rightarrow> u32 option \<times> nfb_comp" where
  "sdm_wait_space n co =
     (case nfb_comp_read32 co SDM_MC_CMD_FIFO_EMPTY_SPACE of (free_space, co) \<Rightarrow>
        if n \<le> 0 then (None, co)
        else if free_space = 0 then sdm_wait_space (n - 1) co
        else (Some free_space, co))"

declare sdm_wait_space.simps [simp del]

text \<open>Up to four bytes as a little-endian word, padded with zeros.\<close>

definition sdm_word :: "u8 list \<Rightarrow> u32" where
  "sdm_word bs = foldr (\<lambda>b w. ucast b OR push_bit 8 w) bs 0"

function sdm_send_loop :: "u32 \<Rightarrow> u8 list \<Rightarrow> bool \<Rightarrow> nfb_comp \<Rightarrow> int \<times> nfb_comp" where
  "sdm_send_loop free_space data last_word co =
     (if data = [] then (0, co)
      else case (if free_space = 0 then sdm_wait_space 10000 co else (Some free_space, co)) of
             (None, co) \<Rightarrow> (- EBUSY, co)
           | (Some free_space, co) \<Rightarrow>
               let reg = (if length data \<le> 4 \<and> last_word then SDM_MC_CMD_LAST_WORD else SDM_MC_CMD_FIFO)
               in sdm_send_loop (free_space - 1) (drop 4 data) last_word (nfb_comp_write32 co reg (sdm_word (take 4 data))))"
  by pat_completeness auto
termination
  by (relation "measure (\<lambda>(f, d, l, co). length d)") (auto simp: length_greater_0_conv)

declare sdm_send_loop.simps [simp del]

definition sdm_send_data :: "u8 list \<Rightarrow> bool \<Rightarrow> sdm \<Rightarrow> int \<times> sdm" where
  "sdm_send_data data last_word sdm =
     (case sdm_send_loop 0 data last_word (sd_comp sdm) of (r, co) \<Rightarrow> (r, sdm\<lparr>sd_comp := co\<rparr>))"

text \<open>The bytes of a 32-bit argument.\<close>

definition le_bytes :: "u32 \<Rightarrow> u8 list" where
  "le_bytes w = map (\<lambda>i. ucast (drop_bit (8 * i) w)) [0..<4]"

definition sdm_send_word :: "u32 \<Rightarrow> bool \<Rightarrow> sdm \<Rightarrow> sdm" where
  "sdm_send_word w last_word sdm = snd (sdm_send_data (le_bytes w) last_word sdm)"

text \<open>The result of sending is not looked at.\<close>

definition sdm_send_header :: "u32 \<Rightarrow> u32 \<Rightarrow> sdm \<Rightarrow> int \<times> sdm" where
  "sdm_send_header cmd_code cmd_len sdm =
     (if drop_bit 11 cmd_code \<noteq> 0 \<or> drop_bit 11 cmd_len \<noteq> 0 then (- EINVAL, sdm)
      else (0, sdm_send_word (push_bit 24 (sd_cmd_id sdm) OR push_bit 12 cmd_len OR push_bit 0 cmd_code) (cmd_len = 0) sdm))"

section \<open>Receiving\<close>

fun sdm_wait_isr :: "int \<Rightarrow> nfb_comp \<Rightarrow> bool \<times> nfb_comp" where
  "sdm_wait_isr n co =
     (case nfb_comp_read32 co SDM_MC_INTERRUPT_STATUS_REGISTER of (v, co) \<Rightarrow>
        if v AND 1 \<noteq> 0 then (True, co)
        else if n \<le> 0 then (False, co)
        else sdm_wait_isr (n - 1) co)"

declare sdm_wait_isr.simps [simp del]

partial_function (option) sdm_wait_fill :: "bool \<Rightarrow> bool \<Rightarrow> nat \<Rightarrow> int \<Rightarrow> nfb_comp \<Rightarrow> (bool \<times> bool \<times> nat \<times> nfb_comp) option" where
  "sdm_wait_fill sop eop fill rlen co =
     (if fill = 0 \<or> \<not> sop \<or> (rlen = 1 \<and> \<not> eop) then
        case nfb_comp_read32 co SDM_MC_RESPONSE_FIFO_FILL_LEVEL of (tmp, co) \<Rightarrow>
          sdm_wait_fill (sop \<or> bit tmp 0) (bit tmp 1) (unat (drop_bit 2 tmp)) rlen co
      else Some (sop, eop, fill, co))"

text \<open>The loop over the words of the FIFO: \<open>len\<close> is the number of bytes of the last word that are wanted, zero for all.
  The result is the remaining length, the fill level and the bytes stored, with the component.\<close>

fun sdm_read_words :: "nat \<Rightarrow> bool \<Rightarrow> nat \<Rightarrow> int \<Rightarrow> nfb_comp \<Rightarrow> int \<times> nat \<times> u8 list \<times> nfb_comp" where
  "sdm_read_words len eop 0 rlen co = (rlen, 0, [], co)"
| "sdm_read_words len eop (Suc fill) rlen co =
     (if rlen = 1 \<and> \<not> eop then (rlen, Suc fill, [], co)
      else case nfb_comp_read32 co SDM_MC_RESPONSE_FIFO of (tmp, co) \<Rightarrow>
        if rlen = 1 \<and> len \<noteq> 0 then (0, Suc fill, take len (le_bytes tmp), co)
        else case sdm_read_words len eop fill (rlen - 1) co of (rlen, fill, bs, co) \<Rightarrow> (rlen, fill, le_bytes tmp @ bs, co))"

datatype sdm_result = SdmRet int "u8 list" | SdmFault

text \<open>\<open>null\<close> tells that there is no buffer, \<open>acc\<close> are the bytes stored so far.  A remaining length below zero means that the
  header has not been read.\<close>

partial_function (option) sdm_get_loop ::
  "bool \<Rightarrow> nat \<Rightarrow> bool \<Rightarrow> bool \<Rightarrow> nat \<Rightarrow> int \<Rightarrow> u8 list \<Rightarrow> nfb_comp \<Rightarrow> (sdm_result \<times> nfb_comp) option" where
  "sdm_get_loop null len sop eop fill rlen acc co =
     (case sdm_wait_fill sop eop fill rlen co of None \<Rightarrow> None
      | Some (sop, eop, fill, co) \<Rightarrow>
          case (if rlen < 0 then
                  case nfb_comp_read32 co SDM_MC_RESPONSE_FIFO of (tmp, co) \<Rightarrow>
                    let code = tmp AND mask 11; words = int (unat (drop_bit 12 tmp AND mask 11))
                    in if code \<noteq> 0 then (Inl (- int (unat code)), co)
                       else if words = 0 then (Inl 0, co)
                       else (Inr (words, fill - 1), co)
                else (Inr (rlen, fill), co)) of
            (Inl ret, co) \<Rightarrow> Some (SdmRet ret [], co)
          | (Inr (rlen, fill), co) \<Rightarrow>
              case sdm_read_words len eop fill rlen co of (rlen, fill, bs, co) \<Rightarrow>
                if null \<and> bs \<noteq> [] then Some (SdmFault, co)
                else if rlen > 0 then sdm_get_loop null len sop eop fill rlen (acc @ bs) co
                else Some (SdmRet (int (length (acc @ bs))) (acc @ bs), co))"

declare sdm_wait_fill.simps [code] sdm_get_loop.simps [code]

definition sdm_get_data :: "bool \<Rightarrow> nat \<Rightarrow> sdm \<Rightarrow> (sdm_result \<times> sdm) option" where
  "sdm_get_data null len sdm =
     (case sdm_wait_isr 1000000 (sd_comp sdm) of
        (False, co) \<Rightarrow> Some (SdmRet (- ETIME) [], sdm\<lparr>sd_comp := co\<rparr>)
      | (True, co) \<Rightarrow> map_option (map_prod id (\<lambda>co. sdm\<lparr>sd_comp := co\<rparr>)) (sdm_get_loop null (len mod 4) False False 0 (-1) [] co))"


text \<open>Sequencing: a fault ends the operation.\<close>

definition sdm_bind ::
  "(sdm_result \<times> sdm) option \<Rightarrow> (int \<Rightarrow> u8 list \<Rightarrow> sdm \<Rightarrow> (sdm_result \<times> sdm) option) \<Rightarrow> (sdm_result \<times> sdm) option" where
  "sdm_bind m f =
     (case m of None \<Rightarrow> None | Some (SdmFault, s) \<Rightarrow> Some (SdmFault, s) | Some (SdmRet r bs, s) \<Rightarrow> f r bs s)"

definition sdm_return :: "int \<Rightarrow> u8 list \<Rightarrow> sdm \<Rightarrow> (sdm_result \<times> sdm) option" where
  "sdm_return r bs s = Some (SdmRet r bs, s)"

section \<open>Locking\<close>

definition SDM_COMP_LOCK :: u32 where "SDM_COMP_LOCK = 1"

definition sdm_try_lock :: "string \<Rightarrow> sdm \<Rightarrow> int \<times> sdm" where
  "sdm_try_lock path s =
     (case nfb_comp_trylock ((sd_comp s)\<lparr>comp_path := path\<rparr>) SDM_COMP_LOCK 100 of
        (r, co) \<Rightarrow> (if r \<noteq> 0 then - EAGAIN else 0, s\<lparr>sd_comp := co\<lparr>comp_path := comp_path (sd_comp s)\<rparr>\<rparr>))"

definition sdm_unlock :: "string \<Rightarrow> sdm \<Rightarrow> sdm" where
  "sdm_unlock path s =
     s\<lparr>sd_comp := (nfb_comp_unlock ((sd_comp s)\<lparr>comp_path := path\<rparr>) SDM_COMP_LOCK)\<lparr>comp_path := comp_path (sd_comp s)\<rparr>\<rparr>"

section \<open>Operations\<close>

definition sdm_qspi_close :: "sdm \<Rightarrow> (sdm_result \<times> sdm) option" where
  "sdm_qspi_close s = sdm_get_data True 0 (snd (sdm_send_header SDM_QSPI_CLOSE_OP 0 s))"

text \<open>The labels at the end of the function.\<close>

definition prepare_err_open :: "int \<Rightarrow> sdm \<Rightarrow> (sdm_result \<times> sdm) option" where
  "prepare_err_open ret s = sdm_return ret [] (sdm_unlock (sd_boot_path s) s)"

definition prepare_err_cs :: "int \<Rightarrow> sdm \<Rightarrow> (sdm_result \<times> sdm) option" where
  "prepare_err_cs ret s = sdm_bind (sdm_qspi_close s) (\<lambda>_ _. prepare_err_open ret)"

definition sdm_qspi_prepare :: "sdm \<Rightarrow> (sdm_result \<times> sdm) option" where
  "sdm_qspi_prepare s =
     (case sdm_try_lock (sd_boot_path s) s of (ret, s) \<Rightarrow>
      if ret < 0 then sdm_return ret [] s
      else case sdm_send_header SDM_QSPI_OPEN_OP 0 s of (ret, s) \<Rightarrow>
      if ret < 0 then prepare_err_open ret s
      else sdm_bind (sdm_get_data True 0 s) (\<lambda>ret _ s.
      if ret < 0 then prepare_err_open ret s
      else case sdm_send_header SDM_QSPI_SET_CS_OP 1 s of (ret, s) \<Rightarrow>
      if ret < 0 then prepare_err_cs ret s
      else sdm_bind (sdm_get_data True 0 (sdm_send_word 0 True s)) (\<lambda>ret _ s.
      if ret < 0 then prepare_err_cs ret s
      else sdm_return 0 [] (s\<lparr>sd_locked := 1\<rparr>))))"

definition sdm_qspi_unprepare :: "sdm \<Rightarrow> (sdm_result \<times> sdm) option" where
  "sdm_qspi_unprepare s =
     sdm_bind (sdm_qspi_close s) (\<lambda>_ _ s. sdm_return 0 [] ((sdm_unlock (sd_boot_path s) s)\<lparr>sd_locked := 0\<rparr>))"

text \<open>Addresses are cut to 32 bits, lengths to 1024 words.\<close>

definition sdm_qspi_read :: "u64 \<Rightarrow> nat \<Rightarrow> sdm \<Rightarrow> (sdm_result \<times> sdm) option" where
  "sdm_qspi_read from len s =
     (let words_len = min (sdm_len_bytes_to_words len) 1024
      in if from AND 3 \<noteq> 0 then sdm_return (- EINVAL) [] s
         else case sdm_send_header SDM_QSPI_READ_OP 2 s of (ret, s) \<Rightarrow>
           if ret < 0 then sdm_return ret [] s
           else sdm_get_data False len (sdm_send_word (of_nat words_len) True (sdm_send_word (ucast from) False s)))"

definition sdm_qspi_write :: "u64 \<Rightarrow> u8 list \<Rightarrow> sdm \<Rightarrow> (sdm_result \<times> sdm) option" where
  "sdm_qspi_write to buf s =
     (let words_len = min (sdm_len_bytes_to_words (length buf)) 1024
      in if to AND 3 \<noteq> 0 then sdm_return (- EINVAL) [] s
         else case sdm_send_header SDM_QSPI_WRITE_OP (2 + of_nat words_len) s of (ret, s) \<Rightarrow>
           if ret < 0 then sdm_return ret [] s
           else sdm_bind (sdm_get_data True 0 (snd (sdm_send_data buf True
                  (sdm_send_word (of_nat words_len) False (sdm_send_word (ucast to) False s)))))
                (\<lambda>ret _. sdm_return (if ret < 0 then ret else int (length buf)) []))"

definition sdm_qspi_erase :: "u64 \<Rightarrow> sdm \<Rightarrow> (sdm_result \<times> sdm) option" where
  "sdm_qspi_erase off s =
     (let size' = 0x4000
      in if off AND (size' - 1) \<noteq> 0 then sdm_return (- EINVAL) [] s
         else case sdm_send_header SDM_QSPI_ERASE_OP 2 s of (ret, s) \<Rightarrow>
           if ret < 0 then sdm_return ret [] s
           else sdm_bind (sdm_get_data True 0 (sdm_send_word (ucast size') True (sdm_send_word (ucast off) False s)))
                (\<lambda>ret _. sdm_return (if ret < 0 then ret else 0) []))"

text \<open>Access to the registers of the flash opens the session itself when there is none.\<close>

definition sdm_session_end :: "bool \<Rightarrow> int \<Rightarrow> u8 list \<Rightarrow> sdm \<Rightarrow> (sdm_result \<times> sdm) option" where
  "sdm_session_end locked_before ret bs s =
     (if locked_before then sdm_return ret bs s else sdm_bind (sdm_qspi_unprepare s) (\<lambda>_ _. sdm_return ret bs))"

text \<open>The identification is returned with its two words exchanged.  The stack buffer has eight bytes, of which a shorter
  response leaves the rest as it was (\<open>junk\<close>), a longer one runs past it: a fault.\<close>

definition sdm_qspi_read_reg :: "u8 list \<Rightarrow> u8 \<Rightarrow> nat \<Rightarrow> sdm \<Rightarrow> (sdm_result \<times> sdm) option" where
  "sdm_qspi_read_reg junk opcode len s =
     (let locked_before = (sd_locked s \<noteq> 0)
      in sdm_bind (if locked_before then sdm_return 0 [] s else sdm_qspi_prepare s) (\<lambda>ret _ s.
         if ret < 0 then sdm_return ret [] s
         else case sdm_send_header SDM_QSPI_READ_DEVICE_REG_OP 2 s of (ret, s) \<Rightarrow>
         if ret < 0 then sdm_session_end locked_before ret [] s
         else let opcode = (if opcode = 0x9f then 0x9e else opcode)
         in sdm_bind (sdm_get_data False 8 (sdm_send_word 8 True (snd (sdm_send_data [opcode] False s)))) (\<lambda>ret bs s.
         if ret < 0 then sdm_session_end locked_before ret [] s
         else if length bs > 8 then Some (SdmFault, s)
         else let buf = bs @ drop (length bs) junk;
                  buf = (if opcode = 0x9e then take 4 (drop 4 buf) @ take 4 buf else buf)
         in sdm_session_end locked_before 0 (take len buf) s)))"

definition sdm_qspi_write_reg :: "u8 \<Rightarrow> u8 list \<Rightarrow> sdm \<Rightarrow> (sdm_result \<times> sdm) option" where
  "sdm_qspi_write_reg opcode buf s =
     (let words_len = sdm_len_bytes_to_words (length buf); locked_before = (sd_locked s \<noteq> 0)
      in sdm_bind (if locked_before then sdm_return 0 [] s else sdm_qspi_prepare s) (\<lambda>ret _ s.
         if ret < 0 then sdm_return ret [] s
         else case sdm_send_header SDM_QSPI_WRITE_DEVICE_REG_OP (2 + of_nat words_len) s of (ret, s) \<Rightarrow>
         if ret < 0 then sdm_session_end locked_before ret [] s
         else let s = snd (sdm_send_data [opcode] False s);
                  s = (if buf = [] then sdm_send_word 0 True s
                       else snd (sdm_send_data buf True (sdm_send_word (of_nat (length buf)) False s)))
         in sdm_bind (sdm_get_data True 0 s) (\<lambda>ret _. sdm_session_end locked_before (if ret < 0 then ret else 0) [])))"

text \<open>The remaining two operations lock the component of the mailbox.\<close>

definition sdm_get_temperature :: "sdm \<Rightarrow> (sdm_result \<times> sdm) option" where
  "sdm_get_temperature s =
     (case sdm_try_lock (comp_path (sd_comp s)) s of (ret, s) \<Rightarrow>
      if ret < 0 then sdm_return (- EAGAIN) [] s
      else case sdm_send_header SDM_GET_TEMPERATURE_OP 1 s of (ret, s) \<Rightarrow>
      if ret < 0 then sdm_return ret [] (sdm_unlock (comp_path (sd_comp s)) s)
      else sdm_bind (sdm_get_data False 4 (sdm_send_word 1 True s)) (\<lambda>ret bs s.
      if length bs > 4 then Some (SdmFault, s)
      else sdm_return (if ret < 0 then ret else 0) bs (sdm_unlock (comp_path (sd_comp s)) s)))"

definition sdm_rsu_image_update :: "u32 \<Rightarrow> sdm \<Rightarrow> (sdm_result \<times> sdm) option" where
  "sdm_rsu_image_update addr s =
     (case sdm_try_lock (comp_path (sd_comp s)) s of (ret, s) \<Rightarrow>
      if ret < 0 then sdm_return (- EAGAIN) [] s
      else case sdm_send_header SDM_RSU_IMAGE_UPDATE_OP 2 s of (ret, s) \<Rightarrow>
      if ret < 0 then sdm_return ret [] (sdm_unlock (comp_path (sd_comp s)) s)
      else sdm_bind (sdm_get_data True 0 (sdm_send_word 0 True (sdm_send_word addr False s))) (\<lambda>ret _ s.
      sdm_return (if ret < 0 then ret else 0) [] (sdm_unlock (comp_path (sd_comp s)) s)))"


section \<open>Flow control of the command FIFO\<close>

type_synonym mi_environment = "mi_access list \<Rightarrow> u64 \<Rightarrow> nat \<Rightarrow> u64 option"

text \<open>The free space that the driver may still count on: what it read last, less what it wrote since.\<close>

fun fifo_credit :: "mi_environment \<Rightarrow> u64 \<Rightarrow> mi_access list \<Rightarrow> nat" where
  "fifo_credit env base [] = 0"
| "fifo_credit env base (MiRead a n # l) =
     (if a = base + SDM_MC_CMD_FIFO_EMPTY_SPACE \<and> n = 4 then unat (case_option 0 ucast (env l a n) :: u32) else fifo_credit env base l)"
| "fifo_credit env base (MiWrite a n v # l) =
     (if (a = base + SDM_MC_CMD_FIFO \<or> a = base + SDM_MC_CMD_LAST_WORD) \<and> n = 4 then fifo_credit env base l - 1 else fifo_credit env base l)"

text \<open>Every word is written while there is room for it.\<close>

fun fifo_safe :: "mi_environment \<Rightarrow> u64 \<Rightarrow> mi_access list \<Rightarrow> bool" where
  "fifo_safe env base [] \<longleftrightarrow> True"
| "fifo_safe env base (MiRead a n # l) \<longleftrightarrow> fifo_safe env base l"
| "fifo_safe env base (MiWrite a n v # l) \<longleftrightarrow>
     ((a = base + SDM_MC_CMD_FIFO \<or> a = base + SDM_MC_CMD_LAST_WORD) \<and> n = 4 \<longrightarrow> fifo_credit env base l > 0) \<and> fifo_safe env base l"

text \<open>The words written to the FIFO, newest first, each with the mark of the last word.\<close>

fun fifo_words :: "u64 \<Rightarrow> mi_access list \<Rightarrow> (bool \<times> u32) list" where
  "fifo_words base [] = []"
| "fifo_words base (MiRead a n # l) = fifo_words base l"
| "fifo_words base (MiWrite a n v # l) =
     (if (a = base + SDM_MC_CMD_FIFO \<or> a = base + SDM_MC_CMD_LAST_WORD) \<and> n = 4
      then (a = base + SDM_MC_CMD_LAST_WORD, ucast v) # fifo_words base l else fifo_words base l)"

text \<open>The words of a message.\<close>

function sdm_pack :: "u8 list \<Rightarrow> bool \<Rightarrow> (bool \<times> u32) list" where
  "sdm_pack data last_word =
     (if data = [] then [] else (length data \<le> 4 \<and> last_word, sdm_word (take 4 data)) # sdm_pack (drop 4 data) last_word)"
  by pat_completeness auto
termination
  by (relation "measure (\<lambda>(d, l). length d)") (auto simp: length_greater_0_conv)

declare sdm_pack.simps [simp del]

abbreviation co_log :: "nfb_comp \<Rightarrow> mi_access list" where
  "co_log co \<equiv> mi_log (comp_bus co)"

definition with_log :: "mi_access list \<Rightarrow> nfb_comp \<Rightarrow> nfb_comp" where
  "with_log l co = co\<lparr>comp_bus := (comp_bus co)\<lparr>mi_log := l\<rparr>\<rparr>"

lemma with_log_simps [simp]:
  "co_log (with_log l co) = l" "mi_env (comp_bus (with_log l co)) = mi_env (comp_bus co)"
  "comp_offset (with_log l co) = comp_offset co" "comp_size (with_log l co) = comp_size co"
  "comp_path (with_log l co) = comp_path co" "comp_locks (with_log l co) = comp_locks co"
  "comp_others (with_log l co) = comp_others co"
  "with_log l (with_log m co) = with_log l co" "with_log (co_log co) co = co"
  by (simp_all add: with_log_def)

lemma in_component:
  assumes "0x24 \<le> (sz :: u64)" and "off \<in> {0, 4, 8, 0x14, 0x18, 0x20}"
  shows "\<not> off + of_nat 4 > sz"
proof -
  have "(0x24 :: nat) \<le> unat sz" using assms(1) by (simp add: word_le_nat_alt)
  with assms(2) show ?thesis by (auto simp: word_less_nat_alt)
qed

lemma comp_read32_with_log:
  assumes "0x24 \<le> comp_size co" and "off \<in> {0, 4, 8, 0x14, 0x18, 0x20}"
  shows "nfb_comp_read32 co off = (case_option 0 ucast (mi_env (comp_bus co) (co_log co) (comp_offset co + off) 4),
    with_log (MiRead (comp_offset co + off) 4 # co_log co) co)"
  using in_component [OF assms] by (simp add: nfb_comp_read32_def nfb_comp_read_def Let_def with_log_def)

lemma comp_write32_with_log:
  assumes "0x24 \<le> comp_size co" and "off \<in> {0, 4, 8, 0x14, 0x18, 0x20}"
  shows "nfb_comp_write32 co off v = with_log (MiWrite (comp_offset co + off) 4 (ucast v) # co_log co) co"
  using in_component [OF assms] by (simp add: nfb_comp_write32_def nfb_comp_write_def Let_def with_log_def)

lemma wait_space:
  assumes "0x24 \<le> comp_size co" and "sdm_wait_space n co = (r, co')"
  shows "\<exists>l. co' = with_log l co \<and> fifo_words (comp_offset co) l = fifo_words (comp_offset co) (co_log co) \<and>
    (fifo_safe (mi_env (comp_bus co)) (comp_offset co) (co_log co) \<longrightarrow> fifo_safe (mi_env (comp_bus co)) (comp_offset co) l) \<and>
    (\<forall>v. r = Some v \<longrightarrow> v \<noteq> 0 \<and> fifo_credit (mi_env (comp_bus co)) (comp_offset co) l = unat v)"
  using assms
proof (induction n co rule: sdm_wait_space.induct)
  case (1 n co)
  let ?v = "case_option 0 ucast (mi_env (comp_bus co) (co_log co) (comp_offset co + 8) 4) :: u32"
  let ?co = "with_log (MiRead (comp_offset co + 8) 4 # co_log co) co"
  have r: "nfb_comp_read32 co SDM_MC_CMD_FIFO_EMPTY_SPACE = (?v, ?co)"
    using comp_read32_with_log [OF 1(2), of 8] by (simp add: SDM_MC_CMD_FIFO_EMPTY_SPACE_def)
  consider "n \<le> 0" | "0 < n" "?v = 0" | "0 < n" "?v \<noteq> 0" by linarith
  then show ?case
  proof cases
    case 1
    with r show ?thesis using \<open>sdm_wait_space n co = (r, co')\<close> by (auto simp: sdm_wait_space.simps [of n])
  next
    case 2
    then have "sdm_wait_space (n - 1) ?co = (r, co')"
      using \<open>sdm_wait_space n co = (r, co')\<close> r by (simp add: sdm_wait_space.simps [of n])
    from "1.IH" [OF r [symmetric] _ _ _ this] 2 \<open>0x24 \<le> comp_size co\<close> show ?thesis by auto
  next
    case 3
    with r \<open>sdm_wait_space n co = (r, co')\<close> show ?thesis
      by (auto simp: sdm_wait_space.simps [of n] SDM_MC_CMD_FIFO_EMPTY_SPACE_def)
  qed
qed


text \<open>One word: the credit suffices for it and falls by one.\<close>

lemma write_word:
  assumes "0x24 \<le> comp_size co" and "reg = (if lw then SDM_MC_CMD_LAST_WORD else SDM_MC_CMD_FIFO)"
    and "unat free \<le> fifo_credit (mi_env (comp_bus co)) (comp_offset co) (co_log co)" and "free \<noteq> 0"
    and "fifo_safe (mi_env (comp_bus co)) (comp_offset co) (co_log co)"
  shows "\<exists>l. nfb_comp_write32 co reg w = with_log l co \<and>
    fifo_words (comp_offset co) l = (lw, w) # fifo_words (comp_offset co) (co_log co) \<and>
    fifo_safe (mi_env (comp_bus co)) (comp_offset co) l \<and>
    unat (free - 1) \<le> fifo_credit (mi_env (comp_bus co)) (comp_offset co) l"
proof -
  have "0 < unat free" using assms(4) by (simp add: unat_gt_0)
  moreover have "unat (free - 1) = unat free - 1" using assms(4) by (simp add: unat_minus_one)
  moreover have "nfb_comp_write32 co reg w = with_log (MiWrite (comp_offset co + reg) 4 (ucast w) # co_log co) co"
    using comp_write32_with_log [OF assms(1), of reg] assms(2) by (simp add: sdm_regs split: if_splits)
  moreover have "ucast (ucast w :: u64) = w" by (rule bit_word_eqI) (simp add: bit_simps)
  ultimately show ?thesis using assms(2,3,5)
    by (intro exI [of _ "MiWrite (comp_offset co + reg) 4 (ucast w) # co_log co"]) (auto simp: sdm_regs)
qed

lemma send_loop:
  assumes "0x24 \<le> comp_size co" and "fifo_safe (mi_env (comp_bus co)) (comp_offset co) (co_log co)"
    and "unat free \<le> fifo_credit (mi_env (comp_bus co)) (comp_offset co) (co_log co)"
    and "sdm_send_loop free data lw co = (r, co')"
  shows "\<exists>l k. co' = with_log l co \<and> fifo_safe (mi_env (comp_bus co)) (comp_offset co) l \<and>
    fifo_words (comp_offset co) l = rev (take k (sdm_pack data lw)) @ fifo_words (comp_offset co) (co_log co) \<and>
    (r = 0 \<and> k = length (sdm_pack data lw) \<or> r = - EBUSY \<and> k < length (sdm_pack data lw))"
  using assms
proof (induction free data lw co rule: sdm_send_loop.induct)
  case (1 free data lw co)
  show ?case
  proof (cases "data = []")
    case True
    with "1.prems" show ?thesis
      by (auto simp: sdm_send_loop.simps [of free "[]"] sdm_pack.simps [of "[]"] intro!: exI [of _ "co_log co"])
  next
    case False
    note pack = sdm_pack.simps [of data lw, simplified if_not_P [OF False]]
    let ?w = "if free = 0 then sdm_wait_space 10000 co else (Some free, co)"
    obtain fo co1 where w: "?w = (fo, co1)" by force
    obtain l1 where co1: "co1 = with_log l1 co" and words1: "fifo_words (comp_offset co) l1 = fifo_words (comp_offset co) (co_log co)"
      and safe1: "fifo_safe (mi_env (comp_bus co)) (comp_offset co) l1"
      and cred: "\<And>v. fo = Some v \<Longrightarrow> v \<noteq> 0 \<and> unat v \<le> fifo_credit (mi_env (comp_bus co)) (comp_offset co) l1"
    proof (cases "free = 0")
      case True
      from wait_space [OF "1.prems"(1), of 10000 fo co1] w True "1.prems"(2) that show ?thesis by auto
    next
      case False
      with w "1.prems"(2,3) that [of "co_log co"] show ?thesis by auto
    qed
    show ?thesis
    proof (cases fo)
      case None
      with "1.prems"(4) False w have "r = - EBUSY" "co' = co1" by (simp_all add: sdm_send_loop.simps [of free data])
      with co1 words1 safe1 show ?thesis by (auto simp: pack intro!: exI [of _ l1] exI [of _ 0])
    next
      case (Some v)
      let ?lw = "length data \<le> 4 \<and> lw"
      let ?reg = "if ?lw then SDM_MC_CMD_LAST_WORD else SDM_MC_CMD_FIFO"
      obtain l2 where wr: "nfb_comp_write32 co1 ?reg (sdm_word (take 4 data)) = with_log l2 co"
        and words2: "fifo_words (comp_offset co) l2 = (?lw, sdm_word (take 4 data)) # fifo_words (comp_offset co) (co_log co)"
        and safe2: "fifo_safe (mi_env (comp_bus co)) (comp_offset co) l2"
        and cred2: "unat (v - 1) \<le> fifo_credit (mi_env (comp_bus co)) (comp_offset co) l2"
        using write_word [of co1 ?reg ?lw v "sdm_word (take 4 data)"] cred [OF Some] "1.prems"(1) words1 safe1 by (auto simp: co1)
      have rec: "sdm_send_loop (v - 1) (drop 4 data) lw (nfb_comp_write32 co1 ?reg (sdm_word (take 4 data))) = (r, co')"
        using "1.prems"(4) False w Some by (simp add: sdm_send_loop.simps [of free data])
      from "1.IH" [OF False w [symmetric] Some refl _ _ _ rec] "1.prems"(1) safe2 cred2 obtain l k where
        "co' = with_log l co" "fifo_safe (mi_env (comp_bus co)) (comp_offset co) l"
        "fifo_words (comp_offset co) l = rev (take k (sdm_pack (drop 4 data) lw)) @ fifo_words (comp_offset co) l2"
        "r = 0 \<and> k = length (sdm_pack (drop 4 data) lw) \<or> r = - EBUSY \<and> k < length (sdm_pack (drop 4 data) lw)"
        by (auto simp: wr)
      then show ?thesis using words2 by (auto simp: pack intro!: exI [of _ l] exI [of _ "Suc k"])
    qed
  qed
qed


lemma sdm_word_Cons: "sdm_word (b # bs) = ucast b OR push_bit 8 (sdm_word bs)"
  by (simp add: sdm_word_def)

lemma sdm_word_Nil [simp]: "sdm_word [] = 0"
  by (simp add: sdm_word_def)

lemma sdm_word_bits: "bit (sdm_word bs) n \<Longrightarrow> n < 8 * length bs"
proof (induction bs arbitrary: n)
  case (Cons b bs)
  show ?case
  proof (cases "n < 8")
    case False
    with Cons.prems have "bit (sdm_word bs) (n - 8)" by (auto simp: sdm_word_Cons bit_simps dest: bit_imp_le_length)
    with Cons.IH False show ?thesis by fastforce
  qed simp
qed simp

lemma sdm_word_first: "ucast (sdm_word (b # bs)) = b"
  by (rule bit_word_eqI) (auto simp: sdm_word_Cons bit_simps)

lemma sdm_word_rest:
  assumes "length bs \<le> 3"
  shows "drop_bit 8 (sdm_word (b # bs)) = sdm_word bs"
proof (rule bit_word_eqI)
  fix n
  have "\<not> bit b (8 + n)" by (auto dest: bit_imp_le_length)
  moreover have "bit (sdm_word bs) n \<Longrightarrow> n < 24" using sdm_word_bits [of bs n] assms by simp
  ultimately show "bit (drop_bit 8 (sdm_word (b # bs))) n = bit (sdm_word bs) n"
    by (auto simp: sdm_word_Cons bit_simps)
qed

lemma le_bytes_unfold:
  "le_bytes w = [ucast w, ucast (drop_bit 8 w), ucast (drop_bit 8 (drop_bit 8 w)), ucast (drop_bit 8 (drop_bit 8 (drop_bit 8 w)))]"
  by (simp add: le_bytes_def upt_rec)

lemma le_bytes_word:
  "length bs \<le> 4 \<Longrightarrow> le_bytes (sdm_word bs) = bs @ replicate (4 - length bs) 0"
proof -
  assume "length bs \<le> 4"
  then consider "bs = []" | a where "bs = [a]" | a b where "bs = [a, b]" | a b c where "bs = [a, b, c]" | a b c d where "bs = [a, b, c, d]"
    by (auto simp: length_Suc_conv le_Suc_eq numeral_eq_Suc)
  moreover have "replicate 4 x = [x, x, x, x]" "replicate 3 x = [x, x, x]" "replicate 2 x = [x, x]" for x :: u8
    by (simp_all add: numeral_eq_Suc)
  ultimately show ?thesis
    by cases (simp_all add: le_bytes_unfold sdm_word_rest sdm_word_first del: drop_bit_drop_bit)
qed

lemma pack_bytes: "concat (map (le_bytes \<circ> snd) (sdm_pack data lw)) = data @ replicate (4 * sdm_len_bytes_to_words (length data) - length data) 0"
proof (induction data lw rule: sdm_pack.induct)
  case (1 data lw)
  show ?case
  proof (cases "data = []")
    case False
    note pack = sdm_pack.simps [of data lw, simplified if_not_P [OF False]]
    show ?thesis
    proof (cases "length data \<le> 4")
      case True
      then have "sdm_len_bytes_to_words (length data) = 1"
        using False by (cases data) (auto simp: sdm_len_bytes_to_words_def)
      with True show ?thesis by (simp add: pack sdm_pack.simps [of "[]"] le_bytes_word)
    next
      case long: False
      then obtain m where m: "length data = m + 4" by (metis add.commute le_Suc_ex nat_le_linear)
      have "(m + 4 + 3) div 4 = (m + 3) div 4 + 1" by presburger
      then have "4 * sdm_len_bytes_to_words (length data - 4) - (length data - 4) = 4 * sdm_len_bytes_to_words (length data) - length data"
        by (simp add: sdm_len_bytes_to_words_def m)
      with long "1.IH" [OF False] show ?thesis by (simp add: pack le_bytes_word)
    qed
  qed (simp add: sdm_pack.simps [of "[]"] sdm_len_bytes_to_words_def)
qed

lemma pack_marks:
  "data \<noteq> [] \<Longrightarrow> map fst (sdm_pack data lw) = replicate (length (sdm_pack data lw) - 1) False @ [lw]"
proof (induction data lw rule: sdm_pack.induct)
  case (1 data lw)
  note pack = sdm_pack.simps [of data lw, simplified if_not_P [OF "1.prems"]]
  show ?case
  proof (cases "length data \<le> 4")
    case True
    then show ?thesis by (simp add: pack sdm_pack.simps [of "[]"])
  next
    case False
    then have "drop 4 data \<noteq> []" by simp
    with "1.IH" [OF "1.prems" this] have "sdm_pack (drop 4 data) lw \<noteq> []" by auto
    with "1.IH" [OF "1.prems" \<open>drop 4 data \<noteq> []\<close>] False show ?thesis
      by (cases "sdm_pack (drop 4 data) lw") (simp_all add: pack)
  qed
qed

text \<open>C15.  A message to the Secure Device Manager never overruns its command FIFO: no word is written for
  which the driver did not read free space before.  When sending succeeds, the words written decode to the message padded with
  zeros, and the last one alone carries the mark; when it fails, the only reason is that the FIFO stayed full, and a
  proper prefix was written.\<close>

theorem sdm_send_faithful:
  assumes "0x24 \<le> comp_size (sd_comp s)" and "data \<noteq> []"
    and "fifo_safe (mi_env (comp_bus (sd_comp s))) (comp_offset (sd_comp s)) (co_log (sd_comp s))"
    and "sdm_send_data data lw s = (r, s')"
  shows "\<exists>ws. fifo_safe (mi_env (comp_bus (sd_comp s))) (comp_offset (sd_comp s)) (co_log (sd_comp s')) \<and>
    fifo_words (comp_offset (sd_comp s)) (co_log (sd_comp s')) = rev ws @ fifo_words (comp_offset (sd_comp s)) (co_log (sd_comp s)) \<and>
    (if r = 0 then concat (map (le_bytes \<circ> snd) ws) = data @ replicate (4 * sdm_len_bytes_to_words (length data) - length data) 0 \<and>
       map fst ws = replicate (length ws - 1) False @ [lw]
     else r = - EBUSY \<and> (\<exists>ws'. ws' \<noteq> [] \<and> concat (map (le_bytes \<circ> snd) (ws @ ws')) = data @ replicate (4 * sdm_len_bytes_to_words (length data) - length data) 0))"
proof -
  obtain co' where l: "sdm_send_loop 0 data lw (sd_comp s) = (r, co')" and s': "s' = s\<lparr>sd_comp := co'\<rparr>"
    using assms(4) by (auto simp: sdm_send_data_def split: prod.splits)
  obtain m k where m: "co' = with_log m (sd_comp s)" "fifo_safe (mi_env (comp_bus (sd_comp s))) (comp_offset (sd_comp s)) m"
    "fifo_words (comp_offset (sd_comp s)) m = rev (take k (sdm_pack data lw)) @ fifo_words (comp_offset (sd_comp s)) (co_log (sd_comp s))"
    and k: "r = 0 \<and> k = length (sdm_pack data lw) \<or> r = - EBUSY \<and> k < length (sdm_pack data lw)"
    using send_loop [OF assms(1,3) _ l] by auto
  show ?thesis
  proof (rule exI [of _ "take k (sdm_pack data lw)"])
    show "fifo_safe (mi_env (comp_bus (sd_comp s))) (comp_offset (sd_comp s)) (co_log (sd_comp s')) \<and>
      fifo_words (comp_offset (sd_comp s)) (co_log (sd_comp s')) = rev (take k (sdm_pack data lw)) @ fifo_words (comp_offset (sd_comp s)) (co_log (sd_comp s)) \<and>
      (if r = 0 then concat (map (le_bytes \<circ> snd) (take k (sdm_pack data lw))) = data @ replicate (4 * sdm_len_bytes_to_words (length data) - length data) 0 \<and>
         map fst (take k (sdm_pack data lw)) = replicate (length (take k (sdm_pack data lw)) - 1) False @ [lw]
       else r = - EBUSY \<and> (\<exists>ws'. ws' \<noteq> [] \<and> concat (map (le_bytes \<circ> snd) (take k (sdm_pack data lw) @ ws')) = data @ replicate (4 * sdm_len_bytes_to_words (length data) - length data) 0))"
      using m k pack_bytes [of data lw] pack_marks [OF assms(2), of lw]
      by (auto simp: s' simp del: map_append concat_append intro!: exI [of _ "drop k (sdm_pack data lw)"])
  qed
qed


definition example_sdm :: "mi_environment \<Rightarrow> sdm" where
  "example_sdm env = \<lparr>sd_cmd_id = 0, sd_comp = example_comp\<lparr>comp_bus := \<lparr>mi_env = env, mi_log = []\<rparr>\<rparr>, sd_locked = 0, sd_boot_path = ''/fw/boot''\<rparr>"

theorem sdm_send_faithful_witness:
  "\<exists>ws. fifo_words 0x1000 (co_log (sd_comp (snd (sdm_send_data [1, 2, 3, 4, 5] True (example_sdm (\<lambda>_ _ _. Some 1)))))) = rev ws \<and>
     concat (map (le_bytes \<circ> snd) ws) = [1, 2, 3, 4, 5, 0, 0, 0]"
proof -
  let ?s = "example_sdm (\<lambda>_ _ _. Some 1)"
  obtain s' where s': "sdm_send_data [1, 2, 3, 4, 5] True ?s = (0, s')"
  proof -
    have "fst (sdm_send_data [1, 2, 3, 4, 5] True ?s) = 0"
      by (simp add: example_sdm_def example_comp_def sdm_send_data_def sdm_send_loop.simps sdm_wait_space.simps nfb_comp_read32_def
          nfb_comp_read_def nfb_comp_write32_def nfb_comp_write_def sdm_regs Let_def split_beta)
    then show ?thesis using that by (metis prod.collapse)
  qed
  have "replicate 3 (0 :: u8) = [0, 0, 0]" by (simp add: numeral_eq_Suc)
  with sdm_send_faithful [OF _ _ _ s'] s' show ?thesis
    by (auto simp: example_sdm_def example_comp_def sdm_len_bytes_to_words_def)
qed

section \<open>Reception of a response\<close>

abbreviation fifo_read :: "u64 \<Rightarrow> mi_access" where
  "fifo_read base \<equiv> MiRead (base + SDM_MC_RESPONSE_FIFO) 4"

text \<open>A mailbox that holds the response \<open>resp\<close> from the log \<open>l0\<close> on: reads of the FIFO deliver its words in order.  Of those that
  have not been read, \<open>avail\<close> have arrived, at least one; the fill level tells their number, with the mark of the end as soon as all
  are there.\<close>

definition sdm_serves :: "mi_environment \<Rightarrow> u64 \<Rightarrow> mi_access list \<Rightarrow> u32 list \<Rightarrow> (mi_access list \<Rightarrow> nat) \<Rightarrow> bool" where
  "sdm_serves env base l0 resp avail \<longleftrightarrow>
     (\<forall>pre. let l = pre @ l0; r = count_list pre (fifo_read base) in
        env l (base + SDM_MC_INTERRUPT_STATUS_REGISTER) 4 = Some 1 \<and>
        (r < length resp \<longrightarrow> env l (base + SDM_MC_RESPONSE_FIFO) 4 = Some (ucast (resp ! r)) \<and>
           1 \<le> avail l \<and> avail l \<le> length resp - r \<and>
           env l (base + SDM_MC_RESPONSE_FIFO_FILL_LEVEL) 4 = Some (push_bit 2 (of_nat (avail l)) OR (if avail l = length resp - r then 3 else 1))))"

text \<open>The bytes of the words, of the last one only \<open>len\<close> unless that is zero.\<close>

definition sdm_payload :: "nat \<Rightarrow> u32 list \<Rightarrow> u8 list" where
  "sdm_payload len ws =
     (if ws = [] then [] else concat (map le_bytes (butlast ws)) @ (if len = 0 then le_bytes (last ws) else take len (le_bytes (last ws))))"

definition part_bytes :: "nat \<Rightarrow> nat \<Rightarrow> u32 list \<Rightarrow> u8 list" where
  "part_bytes len f ws = (if f = length ws then sdm_payload len ws else concat (map le_bytes (take f ws)))"

lemma part_bytes_rest:
  "f \<le> length ws \<Longrightarrow> ws \<noteq> [] \<Longrightarrow> f < length ws \<Longrightarrow> part_bytes len f ws @ sdm_payload len (drop f ws) = sdm_payload len ws"
proof (induction ws arbitrary: f)
  case (Cons w ws)
  show ?case
  proof (cases f)
    case 0
    then show ?thesis by (simp add: part_bytes_def)
  next
    case (Suc g)
    with Cons.prems have "ws \<noteq> []" "g < length ws" by auto
    with Cons.IH [of g] Suc show ?thesis by (simp add: part_bytes_def sdm_payload_def)
  qed
qed simp

lemma part_bytes_Cons:
  "ws \<noteq> [] \<Longrightarrow> part_bytes len (Suc f) (w # ws) = le_bytes w @ part_bytes len f ws"
  by (simp add: part_bytes_def sdm_payload_def)

lemma serves_fifo:
  assumes "sdm_serves env base l0 resp avail" and "count_list pre (fifo_read base) < length resp"
  shows "env (pre @ l0) (base + SDM_MC_RESPONSE_FIFO) 4 = Some (ucast (resp ! count_list pre (fifo_read base)))"
  using assms unfolding sdm_serves_def Let_def by blast

lemma ucast_u32_u64 [simp]: "ucast (ucast (w :: u32) :: u64) = w"
  by (rule bit_word_eqI) (simp add: bit_simps)

lemma read_fifo:
  assumes "0x24 \<le> comp_size co" and "sdm_serves (mi_env (comp_bus co)) (comp_offset co) l0 resp avail"
    and "co_log co = pre @ l0" and "drop (count_list pre (fifo_read (comp_offset co))) resp = w # ws"
  shows "nfb_comp_read32 co SDM_MC_RESPONSE_FIFO = (w, with_log (fifo_read (comp_offset co) # co_log co) co)"
proof -
  have lt: "count_list pre (fifo_read (comp_offset co)) < length resp" using assms(4) by (metis drop_all list.discI not_le)
  have "resp ! count_list pre (fifo_read (comp_offset co)) = w" using assms(4) by (metis lt Cons_nth_drop_Suc list.inject)
  with serves_fifo [OF assms(2) lt] comp_read32_with_log [OF assms(1), of "0x14"] assms(3) show ?thesis
    by (simp add: SDM_MC_RESPONSE_FIFO_def)
qed

lemma read_words_ok:
  assumes "0x24 \<le> comp_size co" and "sdm_serves (mi_env (comp_bus co)) (comp_offset co) l0 resp avail"
    and "co_log co = pre @ l0" and "drop (count_list pre (fifo_read (comp_offset co))) resp = ws"
    and "ws \<noteq> []" and "f \<le> length ws" and "f = length ws \<longrightarrow> eop"
  shows "\<exists>fl. sdm_read_words len eop f (int (length ws)) co =
    (int (length ws - f), fl, part_bytes len f ws, with_log (replicate f (fifo_read (comp_offset co)) @ co_log co) co) \<and> (f < length ws \<longrightarrow> fl = 0)"
  using assms
proof (induction f arbitrary: ws pre co)
  case 0
  from "0.prems"(5) show ?case by (simp add: part_bytes_def)
next
  case (Suc f)
  obtain w vs where ws: "ws = w # vs" using Suc.prems(5) by (cases ws) auto
  note rd = read_fifo [OF Suc.prems(1,2,3) Suc.prems(4) [unfolded ws]]
  let ?co = "with_log (fifo_read (comp_offset co) # co_log co) co"
  show ?case
  proof (cases "vs = []")
    case True
    then have "eop" "f = 0" using Suc.prems(6,7) ws by auto
    with True ws rd show ?thesis by (auto simp: part_bytes_def sdm_payload_def)
  next
    case False
    have "drop (count_list (fifo_read (comp_offset co) # pre) (fifo_read (comp_offset ?co))) resp = vs"
      using arg_cong [OF Suc.prems(4), of tl] ws by (simp add: drop_Suc tl_drop)
    then obtain fl where "sdm_read_words len eop f (int (length vs)) ?co =
      (int (length vs - f), fl, part_bytes len f vs, with_log (replicate f (fifo_read (comp_offset ?co)) @ co_log ?co) ?co)"
      "f < length vs \<longrightarrow> fl = 0"
      using Suc.IH [of ?co "fifo_read (comp_offset co) # pre" vs] Suc.prems(1,2,3,6,7) False ws by auto
    with False ws rd show ?thesis
      by (auto simp: part_bytes_Cons replicate_app_Cons_same)
  qed
qed


text \<open>The wait for the next words ends with one read of the fill level.\<close>

lemma fill_word:
  assumes "n < 2 ^ 12"
  shows "unat (drop_bit 2 (ucast (push_bit 2 (of_nat n) OR (if e then 3 else 1) :: u64) :: u32)) = n"
    "bit (ucast (push_bit 2 (of_nat n) OR (if e then 3 else 1) :: u64) :: u32) 0"
    "bit (ucast (push_bit 2 (of_nat n) OR (if e then 3 else 1) :: u64) :: u32) 1 \<longleftrightarrow> e"
proof -
  let ?w = "ucast (push_bit 2 (of_nat n) OR (if e then 3 else 1) :: u64) :: u32"
  have three: "(3 :: u64) = mask 2" by (simp add: mask_eq_exp_minus_1)
  have hi: "i < 30" if "bit n i" for i
    using assms that bit_take_bit_iff [of 12 n i] by (simp add: take_bit_nat_eq_self)
  have "drop_bit 2 ?w = of_nat n"
    by (rule bit_word_eqI) (auto simp: bit_simps three bit_of_nat_iff_bit dest: hi)
  then show "unat (drop_bit 2 ?w) = n" using assms by (simp add: unat_of_nat take_bit_nat_eq_self)
  show "bit ?w 0" "bit ?w 1 \<longleftrightarrow> e" by (auto simp: bit_simps three)
qed

lemma wait_fill_ok:
  assumes "0x24 \<le> comp_size co" and "sdm_serves (mi_env (comp_bus co)) (comp_offset co) l0 resp avail"
    and "co_log co = pre @ l0" and "drop (count_list pre (fifo_read (comp_offset co))) resp = ws"
    and "ws \<noteq> []" and "length resp < 2 ^ 12" and "rlen \<noteq> 1 \<or> rlen = int (length ws)"
  shows "sdm_wait_fill sop eop 0 rlen co =
      Some (True, avail (co_log co) = length ws, avail (co_log co),
        with_log (MiRead (comp_offset co + SDM_MC_RESPONSE_FIFO_FILL_LEVEL) 4 # co_log co) co)"
    "1 \<le> avail (co_log co)" "avail (co_log co) \<le> length ws"
proof -
  let ?r = "count_list pre (fifo_read (comp_offset co))" and ?n = "avail (co_log co)"
  have lt: "?r < length resp" and len: "length ws = length resp - ?r" using assms(4,5) by auto
  from assms(2) lt have sv: "1 \<le> ?n" "?n \<le> length ws"
    "mi_env (comp_bus co) (co_log co) (comp_offset co + SDM_MC_RESPONSE_FIFO_FILL_LEVEL) 4 =
      Some (push_bit 2 (of_nat ?n) OR (if ?n = length ws then 3 else 1))"
    unfolding sdm_serves_def Let_def assms(3) len by blast+
  show "1 \<le> ?n" "?n \<le> length ws" by fact+
  let ?v = "ucast (push_bit 2 (of_nat ?n) OR (if ?n = length ws then 3 else 1) :: u64) :: u32"
  let ?co = "with_log (MiRead (comp_offset co + SDM_MC_RESPONSE_FIFO_FILL_LEVEL) 4 # co_log co) co"
  have rd: "nfb_comp_read32 co SDM_MC_RESPONSE_FIFO_FILL_LEVEL = (?v, ?co)"
    using comp_read32_with_log [OF assms(1), of SDM_MC_RESPONSE_FIFO_FILL_LEVEL] sv(3)
    by (simp add: SDM_MC_RESPONSE_FIFO_FILL_LEVEL_def)
  have "?n < 2 ^ 12" using sv(2) len assms(6) by simp
  note f = fill_word [OF this, of "?n = length ws"]
  have "sdm_wait_fill sop eop 0 rlen co = sdm_wait_fill True (?n = length ws) ?n rlen ?co"
    by (subst sdm_wait_fill.simps) (simp only: rd prod.case f simp_thms if_True)
  also have "\<dots> = Some (True, ?n = length ws, ?n, ?co)"
    using sv(1,2) assms(7) by (subst sdm_wait_fill.simps) auto
  finally show "sdm_wait_fill sop eop 0 rlen co = Some (True, ?n = length ws, ?n, ?co)" .
qed

lemma count_prefix:
  "count_list (replicate n (fifo_read base) @ MiRead (base + SDM_MC_RESPONSE_FIFO_FILL_LEVEL) 4 # pre) (fifo_read base) = n + count_list pre (fifo_read base)"
  by (induction n) (simp_all add: sdm_regs)

lemma get_loop_ok:
  assumes "0x24 \<le> comp_size co" and "sdm_serves (mi_env (comp_bus co)) (comp_offset co) l0 resp avail"
    and "co_log co = pre @ l0" and "drop (count_list pre (fifo_read (comp_offset co))) resp = ws"
    and "ws \<noteq> []" and "length resp < 2 ^ 12"
  shows "\<exists>l. sdm_get_loop False len True eop 0 (int (length ws)) acc co =
    Some (SdmRet (int (length (acc @ sdm_payload len ws))) (acc @ sdm_payload len ws), with_log l co)"
  using assms(1-5)
proof (induction "length ws" arbitrary: ws pre co acc eop rule: less_induct)
  case less
  let ?n = "avail (co_log co)" and ?rd = "MiRead (comp_offset co + SDM_MC_RESPONSE_FIFO_FILL_LEVEL) 4"
  let ?co = "with_log (?rd # co_log co) co"
  let ?co2 = "with_log (replicate ?n (fifo_read (comp_offset co)) @ ?rd # co_log co) co"
  note w = wait_fill_ok(1) [OF less.prems assms(6), of "int (length ws)" True eop, simplified]
    wait_fill_ok(2,3) [OF less.prems assms(6), of "int (length ws)", simplified]
  have "count_list (?rd # pre) (fifo_read (comp_offset ?co)) = count_list pre (fifo_read (comp_offset co))" by (simp add: sdm_regs)
  then obtain fl where rw: "sdm_read_words len (?n = length ws) ?n (int (length ws)) ?co =
      (int (length ws - ?n), fl, part_bytes len ?n ws, ?co2)" and fl: "?n < length ws \<longrightarrow> fl = 0"
    using read_words_ok [of ?co l0 resp avail "?rd # pre" ws ?n "?n = length ws" len] less.prems w(3) by auto
  have step: "sdm_get_loop False len True eop 0 (int (length ws)) acc co =
    (if length ws > ?n then sdm_get_loop False len True (?n = length ws) fl (int (length ws - ?n)) (acc @ part_bytes len ?n ws) ?co2
     else Some (SdmRet (int (length (acc @ part_bytes len ?n ws))) (acc @ part_bytes len ?n ws), ?co2))"
    using w(1) by (subst sdm_get_loop.simps) (auto simp: rw)
  show ?case
  proof (cases "?n < length ws")
    case False
    then have "?n = length ws" using w(3) by simp
    with step show ?thesis by (auto simp: part_bytes_def)
  next
    case True
    have d: "drop (count_list (replicate ?n (fifo_read (comp_offset co)) @ ?rd # pre) (fifo_read (comp_offset ?co2))) resp = drop ?n ws"
      unfolding with_log_simps count_prefix less.prems(4) [symmetric] drop_drop ..
    have "length (drop ?n ws) < length ws" using w(2) less.prems(5) by simp
    from less.hyps [OF this _ _ _ d, of "?n = length ws" "acc @ part_bytes len ?n ws"] less.prems(1-3) True obtain l where
      "sdm_get_loop False len True (?n = length ws) 0 (int (length (drop ?n ws))) (acc @ part_bytes len ?n ws) ?co2 =
        Some (SdmRet (int (length ((acc @ part_bytes len ?n ws) @ sdm_payload len (drop ?n ws)))) ((acc @ part_bytes len ?n ws) @ sdm_payload len (drop ?n ws)), with_log l ?co2)"
      by auto
    then show ?thesis using step True fl part_bytes_rest [of ?n ws len] w(3) less.prems(5) by auto
  qed
qed


text \<open>The header of a response; then the words that arrived with it.\<close>

lemma get_header:
  assumes "0x24 \<le> comp_size co" and "sdm_serves (mi_env (comp_bus co)) (comp_offset co) l0 (header # ws) avail"
    and "co_log co = pre @ l0" and "count_list pre (fifo_read (comp_offset co)) = 0"
    and "header AND mask 11 = 0" and "unat (drop_bit 12 header AND mask 11) = length ws"
  shows "\<exists>m l pre'. l = pre' @ l0 \<and> count_list pre' (fifo_read (comp_offset co)) = 1 \<and> m \<le> length ws \<and>
    sdm_get_loop null len False False 0 (-1) [] co =
      (if ws = [] then Some (SdmRet 0 [], with_log l co)
       else case sdm_read_words len (m = length ws) m (int (length ws)) (with_log l co) of (rlen, fill, bs, co) \<Rightarrow>
         if null \<and> bs \<noteq> [] then Some (SdmFault, co)
         else if rlen > 0 then sdm_get_loop null len True (m = length ws) fill rlen bs co
         else Some (SdmRet (int (length bs)) bs, co))"
proof -
  let ?base = "comp_offset co"
  let ?rd = "MiRead (?base + SDM_MC_RESPONSE_FIFO_FILL_LEVEL) 4"
  have words: "length (header # ws) < 2 ^ 12" using assms(6) and_mask_less [of "drop_bit 12 header" 11] by simp
  have d: "drop (count_list pre (fifo_read ?base)) (header # ws) = header # ws" using assms(4) by simp
  obtain m co2 where m: "m \<le> length ws" and co2: "co2 = with_log (?rd # co_log co) co"
    and wf: "sdm_wait_fill False False 0 (-1) co = Some (True, m = length ws, Suc m, co2)"
  proof -
    note w = wait_fill_ok(1) [OF assms(1-3) d _ words, of "-1" False False] wait_fill_ok(2,3) [OF assms(1-3) d _ words, of "-1"]
    obtain m where "avail (co_log co) = Suc m" using w(2) by (cases "avail (co_log co)") simp_all
    with w that show ?thesis by simp
  qed
  have c2: "count_list (?rd # pre) (fifo_read ?base) = 0" using assms(4) by (simp add: sdm_regs)
  have hd: "nfb_comp_read32 co2 SDM_MC_RESPONSE_FIFO = (header, with_log (fifo_read ?base # ?rd # pre @ l0) co)"
    using read_fifo [of co2 l0 "header # ws" avail "?rd # pre" header ws] assms(1-3) c2 by (simp add: co2)
  have u: "uint (drop_bit 12 header AND mask 11) = int (length ws)" by (simp flip: assms(6))
  show ?thesis
  proof (rule exI [of _ m], rule exI [of _ "fifo_read ?base # ?rd # pre @ l0"], rule exI [of _ "fifo_read ?base # ?rd # pre"], intro conjI)
    show "count_list (fifo_read ?base # ?rd # pre) (fifo_read ?base) = 1" using c2 by simp
  qed (use m in simp, use m in simp, subst sdm_get_loop.simps, auto simp: wf hd Let_def assms(5) u split: prod.split)
qed

lemma get_loop_response:
  assumes "0x24 \<le> comp_size co" and "sdm_serves (mi_env (comp_bus co)) (comp_offset co) l0 (header # ws) avail"
    and "co_log co = pre @ l0" and "count_list pre (fifo_read (comp_offset co)) = 0"
    and "header AND mask 11 = 0" and "unat (drop_bit 12 header AND mask 11) = length ws"
  shows "\<exists>l. sdm_get_loop False len False False 0 (-1) [] co = Some (SdmRet (int (length (sdm_payload len ws))) (sdm_payload len ws), with_log l co)"
proof -
  let ?base = "comp_offset co"
  obtain m l pre' where l: "l = pre' @ l0" and c: "count_list pre' (fifo_read ?base) = 1" and m: "m \<le> length ws"
    and hdr: "sdm_get_loop False len False False 0 (-1) [] co =
      (if ws = [] then Some (SdmRet 0 [], with_log l co)
       else case sdm_read_words len (m = length ws) m (int (length ws)) (with_log l co) of (rlen, fill, bs, co) \<Rightarrow>
         if False \<and> bs \<noteq> [] then Some (SdmFault, co)
         else if rlen > 0 then sdm_get_loop False len True (m = length ws) fill rlen bs co
         else Some (SdmRet (int (length bs)) bs, co))"
    using get_header [OF assms, of False len] by blast
  show ?thesis
  proof (cases "ws = []")
    case True
    with hdr show ?thesis by (auto simp: sdm_payload_def)
  next
    case False
    let ?co4 = "with_log (replicate m (fifo_read ?base) @ l) co"
    obtain fl where rw: "sdm_read_words len (m = length ws) m (int (length ws)) (with_log l co) =
        (int (length ws - m), fl, part_bytes len m ws, ?co4)" and fl: "m < length ws \<longrightarrow> fl = 0"
      using read_words_ok [of "with_log l co" l0 "header # ws" avail pre' ws "m" "m = length ws" len]
        assms(1,2) l c False m by auto
    show ?thesis
    proof (cases "m < length ws")
      case True
      have cnt: "count_list (replicate m (fifo_read ?base) @ pre') (fifo_read (comp_offset ?co4)) = Suc m"
        using c by (induction m) simp_all
      have words: "length (header # ws) < 2 ^ 12" using assms(6) and_mask_less [of "drop_bit 12 header" 11] by simp
      obtain l' where "sdm_get_loop False len True (m = length ws) 0 (int (length (drop m ws))) (part_bytes len m ws) ?co4 =
        Some (SdmRet (int (length (part_bytes len m ws @ sdm_payload len (drop m ws)))) (part_bytes len m ws @ sdm_payload len (drop m ws)), with_log l' ?co4)"
        using get_loop_ok [of ?co4 l0 "header # ws" avail "replicate m (fifo_read ?base) @ pre'" "drop m ws" len "m = length ws" "part_bytes len m ws"]
          assms(1,2) l True words unfolding cnt by auto
      then show ?thesis using hdr rw True fl part_bytes_rest [of "m" ws len] False by (auto simp: of_nat_diff)
    next
      case whole: False
      then have "m = length ws" using m by simp
      then show ?thesis using hdr rw False by (auto simp: part_bytes_def)
    qed
  qed
qed

text \<open>C16.  A response of the Secure Device Manager is received intact, however slowly its words arrive:
  when the header announces success and the length of the payload, \<open>sdm_get_data\<close> returns, and returns the bytes of the payload,
  of the last word only as many as the length asked for leaves.\<close>

theorem sdm_response_intact:
  assumes "0x24 \<le> comp_size (sd_comp s)"
    and "sdm_serves (mi_env (comp_bus (sd_comp s))) (comp_offset (sd_comp s)) (co_log (sd_comp s)) (header # ws) avail"
    and "header AND mask 11 = 0" and "unat (drop_bit 12 header AND mask 11) = length ws"
  shows "\<exists>s'. sdm_get_data False len s = Some (SdmRet (int (length (sdm_payload (len mod 4) ws))) (sdm_payload (len mod 4) ws), s')"
proof -
  let ?co = "sd_comp s"
  let ?isr = "MiRead (comp_offset ?co + SDM_MC_INTERRUPT_STATUS_REGISTER) 4"
  have "mi_env (comp_bus ?co) ([] @ co_log ?co) (comp_offset ?co + SDM_MC_INTERRUPT_STATUS_REGISTER) 4 = Some 1"
    using assms(2) unfolding sdm_serves_def Let_def by blast
  then have isr: "sdm_wait_isr 1000000 ?co = (True, with_log (?isr # co_log ?co) ?co)"
    using comp_read32_with_log [OF assms(1), of SDM_MC_INTERRUPT_STATUS_REGISTER]
    by (simp add: sdm_wait_isr.simps [of 1000000] SDM_MC_INTERRUPT_STATUS_REGISTER_def)
  from get_loop_response [of "with_log (?isr # co_log ?co) ?co" "co_log ?co" header ws avail "[?isr]" "len mod 4"] assms
  obtain l where "sdm_get_loop False (len mod 4) False False 0 (-1) [] (with_log (?isr # co_log ?co) ?co) =
    Some (SdmRet (int (length (sdm_payload (len mod 4) ws))) (sdm_payload (len mod 4) ws), with_log l (with_log (?isr # co_log ?co) ?co))"
    by (auto simp: sdm_regs)
  then show ?thesis by (simp add: sdm_get_data_def isr)
qed


text \<open>A mailbox with a response, all of which has arrived.\<close>

definition example_mailbox :: "u32 list \<Rightarrow> mi_environment" where
  "example_mailbox resp l a n =
     (let r = count_list l (fifo_read 0x1000) in
      if a = 0x1000 + SDM_MC_RESPONSE_FIFO then Some (ucast (resp ! r))
      else if a = 0x1000 + SDM_MC_RESPONSE_FIFO_FILL_LEVEL then Some (push_bit 2 (of_nat (length resp - r)) OR 3)
      else Some 1)"

theorem sdm_response_intact_witness:
  "\<exists>s'. sdm_get_data False 4 (example_sdm (example_mailbox [0x1000, 0x1900])) = Some (SdmRet 4 [0, 0x19, 0, 0], s')"
proof -
  let ?s = "example_sdm (example_mailbox [0x1000, 0x1900])"
  have "sdm_serves (mi_env (comp_bus (sd_comp ?s))) (comp_offset (sd_comp ?s)) (co_log (sd_comp ?s)) [0x1000, 0x1900]
    (\<lambda>l. 2 - count_list l (fifo_read 0x1000))"
    by (auto simp: sdm_serves_def example_sdm_def example_comp_def example_mailbox_def Let_def sdm_regs)
  moreover have "sdm_payload (4 mod 4) [0x1900] = [0, 0x19, 0, 0]" "0x1000 AND mask 11 = (0 :: u32)" "drop_bit 12 0x1000 AND mask 11 = (1 :: u32)"
    by code_simp+
  ultimately show ?thesis
    using sdm_response_intact [of ?s "0x1000" "[0x1900]" "\<lambda>l. 2 - count_list l (fifo_read 0x1000)" 4]
    by (simp add: example_sdm_def example_comp_def)
qed

section \<open>Sessions hold the lock\<close>

lemma read32_locks: "nfb_comp_read32 co off = (v, co') \<Longrightarrow> comp_locks co' = comp_locks co"
  using comp_read_frame(1) by blast

lemma wait_space_locks: "sdm_wait_space n co = (r, co') \<Longrightarrow> comp_locks co' = comp_locks co"
proof (induction n co rule: sdm_wait_space.induct)
  case (1 n co)
  obtain v co1 where r: "nfb_comp_read32 co SDM_MC_CMD_FIFO_EMPTY_SPACE = (v, co1)" by force
  from 1 r read32_locks [OF r] show ?case by (auto simp: sdm_wait_space.simps [of n] split: if_splits)
qed

lemma send_loop_locks: "sdm_send_loop free data lw co = (r, co') \<Longrightarrow> comp_locks co' = comp_locks co"
proof (induction free data lw co rule: sdm_send_loop.induct)
  case (1 free data lw co)
  show ?case
  proof (cases "data = []")
    case True
    with 1(2) show ?thesis by (simp add: sdm_send_loop.simps [of free "[]"])
  next
    case False
    obtain fo co1 where w: "(if free = 0 then sdm_wait_space 10000 co else (Some free, co)) = (fo, co1)" by force
    then have "comp_locks co1 = comp_locks co" by (auto dest: wait_space_locks split: if_splits)
    with 1(2) "1.IH" [OF False w [symmetric]] False w show ?thesis
      by (cases fo) (auto simp: sdm_send_loop.simps [of free data] Let_def)
  qed
qed

lemma send_locks:
  "comp_locks (sd_comp (snd (sdm_send_data data lw s))) = comp_locks (sd_comp s)" "sd_boot_path (snd (sdm_send_data data lw s)) = sd_boot_path s"
  "comp_locks (sd_comp (sdm_send_word w lw s)) = comp_locks (sd_comp s)" "sd_boot_path (sdm_send_word w lw s) = sd_boot_path s"
  by (auto simp: sdm_send_data_def sdm_send_word_def split: prod.splits dest: send_loop_locks)

lemma header_locks:
  "comp_locks (sd_comp (snd (sdm_send_header c n s))) = comp_locks (sd_comp s)" "sd_boot_path (snd (sdm_send_header c n s)) = sd_boot_path s"
  by (auto simp: sdm_send_header_def send_locks)

lemma wait_isr_locks: "sdm_wait_isr n co = (r, co') \<Longrightarrow> comp_locks co' = comp_locks co"
proof (induction n co rule: sdm_wait_isr.induct)
  case (1 n co)
  obtain v co1 where r: "nfb_comp_read32 co SDM_MC_INTERRUPT_STATUS_REGISTER = (v, co1)" by force
  from 1 r read32_locks [OF r] show ?case by (auto simp: sdm_wait_isr.simps [of n] split: if_splits)
qed

lemma wait_fill_locks:
  assumes "sdm_wait_fill sop eop fill rlen co = Some (a, b, c, co')"
  shows "comp_locks co' = comp_locks co"
proof -
  have "comp_locks (snd (snd (snd (a, b, c, co')))) = comp_locks co"
    using assms
  proof (rule sdm_wait_fill.raw_induct [rotated, where P = "\<lambda>sop eop fill rlen co r. comp_locks (snd (snd (snd r))) = comp_locks co"], goal_cases)
    case (1 wf sop eop fill rlen co r)
    obtain v co1 where rd: "nfb_comp_read32 co SDM_MC_RESPONSE_FIFO_FILL_LEVEL = (v, co1)" by force
    show ?case
      using 1(2) 1(1) [of "sop \<or> bit v 0" "bit v 1" "unat (drop_bit 2 v)" rlen co1 r] read32_locks [OF rd]
      unfolding rd prod.case by (auto split: if_splits)
  qed
  then show ?thesis by simp
qed

lemma read_words_locks: "sdm_read_words len eop fill rlen co = (r, f, bs, co') \<Longrightarrow> comp_locks co' = comp_locks co"
proof (induction len eop fill rlen co arbitrary: r f bs co' rule: sdm_read_words.induct)
  case (2 len eop fill rlen co)
  obtain v co1 where r: "nfb_comp_read32 co SDM_MC_RESPONSE_FIFO = (v, co1)" by force
  show ?case
  proof (cases "rlen = 1 \<and> (\<not> eop \<or> len \<noteq> 0)")
    case True
    with 2(2) r read32_locks [OF r] show ?thesis by (auto split: if_splits)
  next
    case False
    obtain r1 f1 bs1 co2 where rec: "sdm_read_words len eop fill (rlen - 1) co1 = (r1, f1, bs1, co2)" by (rule prod_cases4)
    with 2(2) r False have "co' = co2" by (auto split: if_splits)
    with "2.IH" [OF _ r [symmetric] _ rec] False read32_locks [OF r] show ?thesis by auto
  qed
qed simp


lemma get_loop_locks:
  assumes "sdm_get_loop null len sop eop fill rlen acc co = Some (res, co')"
  shows "comp_locks co' = comp_locks co"
proof -
  have "comp_locks (snd (res, co')) = comp_locks co"
    using assms
  proof (rule sdm_get_loop.raw_induct [rotated, where P = "\<lambda>null len sop eop fill rlen acc co r. comp_locks (snd r) = comp_locks co"], goal_cases)
    case (1 gl null len sop eop fill rlen acc co r)
    from 1(2) obtain sop1 eop1 fill1 co1 where w: "sdm_wait_fill sop eop fill rlen co = Some (sop1, eop1, fill1, co1)"
      by (auto split: option.splits)
    obtain tmp co2 where h: "nfb_comp_read32 co1 SDM_MC_RESPONSE_FIFO = (tmp, co2)" by force
    note lk = wait_fill_locks [OF w] read32_locks [OF h]
    let ?m = "if rlen < 0 then (let code = tmp AND mask 11; words = int (unat (drop_bit 12 tmp AND mask 11)) in
        if code \<noteq> 0 then (Inl (- int (unat code)), co2) else if words = 0 then (Inl 0, co2) else (Inr (words, fill1 - 1), co2))
      else (Inr (rlen, fill1), co1)"
    obtain x co3 where m: "?m = (x, co3)" by force
    then have lk3: "comp_locks co3 = comp_locks co" using lk by (auto simp: Let_def split: if_splits)
    have body: "(case (x, co3) of (Inl ret, co) \<Rightarrow> Some (SdmRet ret [], co)
        | (Inr (rlen, fill), co) \<Rightarrow>
            case sdm_read_words len eop1 fill rlen co of (rlen, fill, bs, co) \<Rightarrow>
              if null \<and> bs \<noteq> [] then Some (SdmFault, co)
              else if rlen > 0 then gl null len sop1 eop1 fill rlen (acc @ bs) co
              else Some (SdmRet (int (length (acc @ bs))) (acc @ bs), co)) = Some r"
      using 1(2) unfolding w option.case prod.case h m .
    show ?case
    proof (cases x)
      case (Inl a)
      with body lk3 show ?thesis by auto
    next
      case (Inr b)
      obtain rl fl where b: "b = (rl, fl)" by force
      obtain rl2 fl2 bs co4 where rw: "sdm_read_words len eop1 fl rl co3 = (rl2, fl2, bs, co4)" by (rule prod_cases4)
      with body Inr b 1(1) [of null len sop1 eop1 fl2 rl2 "acc @ bs" co4 r] read_words_locks [OF rw] lk3 show ?thesis
        by (auto split: if_splits)
    qed
  qed
  then show ?thesis by simp
qed

lemma get_locks:
  assumes "sdm_get_data null len s = Some (r, s')"
  shows "comp_locks (sd_comp s') = comp_locks (sd_comp s)" "sd_boot_path s' = sd_boot_path s"
  using assms by (auto simp: sdm_get_data_def split: prod.splits bool.splits dest!: wait_isr_locks get_loop_locks)


lemma try_lock_ok:
  assumes "lock_reachable (comp_locks (sd_comp s))" and "\<And>i ls. lock_reachable ls \<Longrightarrow> lock_reachable (comp_others (sd_comp s) i ls)"
    and "sdm_try_lock path s = (0, s')"
  shows "lock_reachable (comp_locks (sd_comp s'))" "holds (comp_locks (sd_comp s')) kernel_app path 0" "sd_boot_path s' = sd_boot_path s"
proof -
  let ?co = "(sd_comp s)\<lparr>comp_path := path\<rparr>" and ?lock = "\<lparr>lock_path = path, lock_features = ucast SDM_COMP_LOCK :: u64\<rparr>"
  obtain co' where loop: "trylock_loop 2001 100 ?lock ?co = (0, co')" and s': "s' = s\<lparr>sd_comp := co'\<lparr>comp_path := comp_path (sd_comp s)\<rparr>\<rparr>"
    using assms(3) by (auto simp: sdm_try_lock_def nfb_comp_trylock_def split: prod.splits if_splits)
  have "lock_reachable (comp_locks co') \<and> (\<forall>b < 32. bit (lock_features ?lock) b \<longrightarrow> holds (comp_locks co') kernel_app (lock_path ?lock) b)"
    by (rule trylock_loop_ok [OF loop]) (simp_all add: assms(1,2))
  moreover have "bit (ucast SDM_COMP_LOCK :: u64) 0" by (simp add: SDM_COMP_LOCK_def)
  ultimately show "lock_reachable (comp_locks (sd_comp s'))" "holds (comp_locks (sd_comp s')) kernel_app path 0" "sd_boot_path s' = sd_boot_path s"
    by (simp_all add: s')
qed

lemma unlock_released:
  assumes "lock_inv (comp_locks (sd_comp s))"
  shows "\<not> holds (comp_locks (sd_comp (sdm_unlock path s))) kernel_app path 0"
  using unlock_holds [of "(sd_comp s)\<lparr>comp_path := path\<rparr>" SDM_COMP_LOCK kernel_app path 0] assms
  by (simp add: sdm_unlock_def SDM_COMP_LOCK_def)

lemma close_locks:
  assumes "sdm_qspi_close s = Some (r, s')"
  shows "comp_locks (sd_comp s') = comp_locks (sd_comp s)" "sd_boot_path s' = sd_boot_path s"
  using get_locks [OF assms [unfolded sdm_qspi_close_def]] by (simp_all add: header_locks)

text \<open>Failing after the lock was taken gives it back.\<close>

lemma err_open_released:
  assumes "prepare_err_open ret s = Some (SdmRet r bs, s')" and "lock_inv (comp_locks (sd_comp s))"
  shows "r = ret \<and> \<not> holds (comp_locks (sd_comp s')) kernel_app (sd_boot_path s) 0"
  using assms unlock_released by (auto simp: prepare_err_open_def sdm_return_def)

lemma err_cs_released:
  assumes "prepare_err_cs ret s = Some (SdmRet r bs, s')" and "lock_inv (comp_locks (sd_comp s))"
  shows "r = ret \<and> \<not> holds (comp_locks (sd_comp s')) kernel_app (sd_boot_path s) 0"
proof -
  obtain r1 bs1 s1 where c: "sdm_qspi_close s = Some (SdmRet r1 bs1, s1)" and e: "prepare_err_open ret s1 = Some (SdmRet r bs, s')"
    using assms(1) by (auto simp: prepare_err_cs_def sdm_bind_def split: option.splits sdm_result.splits)
  from err_open_released [OF e] close_locks [OF c] assms(2) show ?thesis by simp
qed

lemma prepare_lock:
  assumes "lock_reachable (comp_locks (sd_comp s))" and "\<And>i ls. lock_reachable ls \<Longrightarrow> lock_reachable (comp_others (sd_comp s) i ls)"
    and "sdm_try_lock (sd_boot_path s) s = (0, s0)" and "sdm_qspi_prepare s = Some (SdmRet r bs, s')"
  shows "r \<le> 0 \<and> (r < 0 \<longrightarrow> \<not> holds (comp_locks (sd_comp s')) kernel_app (sd_boot_path s) 0) \<and>
    (r = 0 \<longrightarrow> comp_locks (sd_comp s') = comp_locks (sd_comp s0) \<and> sd_boot_path s' = sd_boot_path s \<and> sd_locked s' = 1)"
proof -
  note lk = try_lock_ok [OF assms(1-3)]
  have inv: "lock_inv (comp_locks (sd_comp s0))" using lk(1) by (rule lock_inv_reachable)
  obtain s1 where h1: "sdm_send_header SDM_QSPI_OPEN_OP 0 s0 = (0, s1)" by (auto simp: sdm_send_header_def SDM_QSPI_OPEN_OP_def)
  have l1: "comp_locks (sd_comp s1) = comp_locks (sd_comp s0)" "sd_boot_path s1 = sd_boot_path s"
    using header_locks [of SDM_QSPI_OPEN_OP 0 s0] h1 lk(3) by simp_all
  obtain r2 bs2 s2 where g1: "sdm_get_data True 0 s1 = Some (SdmRet r2 bs2, s2)"
    using assms(4) by (auto simp: sdm_qspi_prepare_def assms(3) h1 sdm_bind_def split: option.splits sdm_result.splits)
  have l2: "comp_locks (sd_comp s2) = comp_locks (sd_comp s0)" "sd_boot_path s2 = sd_boot_path s"
    using get_locks [OF g1] l1 by simp_all
  obtain s3 where h2: "sdm_send_header SDM_QSPI_SET_CS_OP 1 s2 = (0, s3)" by (auto simp: sdm_send_header_def SDM_QSPI_SET_CS_OP_def)
  have l3: "comp_locks (sd_comp s3) = comp_locks (sd_comp s0)" "sd_boot_path s3 = sd_boot_path s"
    using header_locks [of SDM_QSPI_SET_CS_OP 1 s2] h2 l2 by simp_all
  have rest: "(if r2 < 0 then prepare_err_open r2 s2
    else sdm_bind (sdm_get_data True 0 (sdm_send_word 0 True s3)) (\<lambda>ret _ s.
      if ret < 0 then prepare_err_cs ret s else sdm_return 0 [] (s\<lparr>sd_locked := 1\<rparr>))) = Some (SdmRet r bs, s')"
    using assms(4) by (cases "r2 < 0") (simp_all add: sdm_qspi_prepare_def assms(3) h1 g1 h2 sdm_bind_def [of "Some _"])
  show ?thesis
  proof (cases "r2 < 0")
    case True
    with rest err_open_released [of r2 s2 r bs s'] l2 inv show ?thesis by auto
  next
    case False
    with rest obtain r4 bs4 s4 where g2: "sdm_get_data True 0 (sdm_send_word 0 True s3) = Some (SdmRet r4 bs4, s4)"
      and e: "(if r4 < 0 then prepare_err_cs r4 s4 else sdm_return 0 [] (s4\<lparr>sd_locked := 1\<rparr>)) = Some (SdmRet r bs, s')"
      by (auto simp: sdm_bind_def split: option.splits sdm_result.splits)
    have "comp_locks (sd_comp s4) = comp_locks (sd_comp s0)" "sd_boot_path s4 = sd_boot_path s"
      using get_locks [OF g2] l3 by (simp_all add: send_locks)
    with e err_cs_released [of r4 s4 r bs s'] inv show ?thesis by (auto simp: sdm_return_def split: if_splits)
  qed
qed

text \<open>C21.  A session with the flash holds the lock of the component from \<open>sdm_qspi_prepare\<close> to
  \<open>sdm_qspi_unprepare\<close>: after a success the kernel alone holds it, whatever other applications did while it waited; every failure of a later step
  gives the lock back, and so does the end of the session, whatever the Secure Device Manager answers.\<close>

theorem sdm_session_lock:
  assumes "lock_reachable (comp_locks (sd_comp s))" and "\<And>i ls. lock_reachable ls \<Longrightarrow> lock_reachable (comp_others (sd_comp s) i ls)"
    and "sdm_try_lock (sd_boot_path s) s = (0, s0)" and "sdm_qspi_prepare s = Some (SdmRet r bs, s')"
  shows "if r = 0 then (\<forall>a. holds (comp_locks (sd_comp s')) a (sd_boot_path s) 0 \<longleftrightarrow> a = kernel_app) \<and>
      (\<forall>r'' s''. sdm_qspi_unprepare s' = Some (SdmRet r'' [], s'') \<longrightarrow> \<not> holds (comp_locks (sd_comp s'')) kernel_app (sd_boot_path s) 0)
    else r < 0 \<and> \<not> holds (comp_locks (sd_comp s')) kernel_app (sd_boot_path s) 0"
proof (cases "r = 0")
  case True
  note p = prepare_lock [OF assms] and lk = try_lock_ok [OF assms(1-3)]
  have inv: "lock_inv (comp_locks (sd_comp s'))" using lk(1) p True lock_inv_reachable by simp
  have "holds (comp_locks (sd_comp s')) a (sd_boot_path s) 0 \<longleftrightarrow> a = kernel_app" for a
    using lk(2) p True inv by (auto simp: lock_inv_def)
  moreover have "\<not> holds (comp_locks (sd_comp s'')) kernel_app (sd_boot_path s) 0" if "sdm_qspi_unprepare s' = Some (SdmRet r'' [], s'')" for r'' s''
  proof -
    from that obtain r1 bs1 s1 where c: "sdm_qspi_close s' = Some (SdmRet r1 bs1, s1)" and s'': "s'' = (sdm_unlock (sd_boot_path s1) s1)\<lparr>sd_locked := 0\<rparr>"
      by (auto simp: sdm_qspi_unprepare_def sdm_bind_def sdm_return_def split: option.splits sdm_result.splits)
    from unlock_released [of s1 "sd_boot_path s1"] close_locks [OF c] inv p True show ?thesis by (simp add: s'')
  qed
  ultimately show ?thesis using True by simp
next
  case False
  with prepare_lock [OF assms] show ?thesis by auto
qed


definition example_agent :: mi_environment where
  "example_agent l a n = Some (if a = 0x1000 + SDM_MC_RESPONSE_FIFO then 0 else if a = 0x1000 + SDM_MC_RESPONSE_FIFO_FILL_LEVEL then 7 else 1)"

theorem sdm_session_lock_witness:
  "\<exists>s'. sdm_qspi_prepare (example_sdm example_agent) = Some (SdmRet 0 [], s') \<and> holds (comp_locks (sd_comp s')) kernel_app ''/fw/boot'' 0"
proof -
  let ?s = "example_sdm example_agent"
  have "map_option fst (sdm_qspi_prepare ?s) = Some (SdmRet 0 [])"
    by code_simp
  then obtain s' where p: "sdm_qspi_prepare ?s = Some (SdmRet 0 [], s')" by auto
  have "fst (sdm_try_lock (sd_boot_path ?s) ?s) = 0" by code_simp
  then have t: "sdm_try_lock (sd_boot_path ?s) ?s = (0, snd (sdm_try_lock (sd_boot_path ?s) ?s))" by (simp add: prod_eq_iff)
  have "lock_reachable (comp_locks (sd_comp ?s))"
    using lock_reachable.probe by (simp add: example_sdm_def example_comp_def nfb_lock_probe_def)
  from sdm_session_lock [OF this _ t p] p show ?thesis by (simp add: example_sdm_def example_comp_def)
qed

end
