(* ===== verification/BwBmc.thy ===== *)
theory BwBmc
  imports Sdm
begin

text \<open>
  The board management controller of BittWare cards: \<open>libnfb/include/netcope/bittware_bmc_spi.h\<close>, which the boot driver and the
  library share.

  A message is built in a buffer: a transport header, a header with the type of the request and the arguments.  It is written byte by
  byte to a FIFO behind the code of the command, with bit 8 set on the last byte; the answer replaces the message in the buffer.
\<close>

abbreviation (input) EIO :: int where "EIO \<equiv> 5"
abbreviation (input) EPIPE :: int where "EPIPE \<equiv> 32"
abbreviation (input) EOPNOTSUPP :: int where "EOPNOTSUPP \<equiv> 95"
abbreviation (input) ENOBUFS :: int where "ENOBUFS \<equiv> 105"
abbreviation (input) ECANCELED :: int where "ECANCELED \<equiv> 125"

definition NC_BW_BMC_SPI_WR_CSR :: u64 where "NC_BW_BMC_SPI_WR_CSR = 0x0000"
definition NC_BW_BMC_SPI_RD_CSR :: u64 where "NC_BW_BMC_SPI_RD_CSR = 0x0004"
definition NC_BW_BMC_SPI_WR_FIFO :: u64 where "NC_BW_BMC_SPI_WR_FIFO = 0x0008"
definition NC_BW_BMC_SPI_RD_FIFO :: u64 where "NC_BW_BMC_SPI_RD_FIFO = 0x000C"
definition NC_BW_BMC_SPI_SYS_CSR :: u64 where "NC_BW_BMC_SPI_SYS_CSR = 0x0010"

lemmas bw_regs = NC_BW_BMC_SPI_WR_CSR_def NC_BW_BMC_SPI_RD_CSR_def NC_BW_BMC_SPI_WR_FIFO_def NC_BW_BMC_SPI_RD_FIFO_def NC_BW_BMC_SPI_SYS_CSR_def

text \<open>The length of the buffer is that of the list.\<close>

record nc_bw_bmc =
  bb_comp :: nfb_comp
  bb_buffer :: "u8 list"
  bb_recv_len :: u32
  bb_pos :: u32
  bb_throttle :: bool

abbreviation bb_buffer_len :: "nc_bw_bmc \<Rightarrow> u32" where
  "bb_buffer_len spi \<equiv> of_nat (length (bb_buffer spi))"

definition bb_read32 :: "nc_bw_bmc \<Rightarrow> u64 \<Rightarrow> u32 \<times> nc_bw_bmc" where
  "bb_read32 spi off = (case nfb_comp_read32 (bb_comp spi) off of (v, co) \<Rightarrow> (v, spi\<lparr>bb_comp := co\<rparr>))"

definition nc_bw_bmc_write32 :: "nc_bw_bmc \<Rightarrow> u64 \<Rightarrow> u32 \<Rightarrow> nc_bw_bmc" where
  "nc_bw_bmc_write32 spi off val =
     (let spi = spi\<lparr>bb_comp := nfb_comp_write32 (bb_comp spi) off val\<rparr>
      in if bb_throttle spi then snd (bb_read32 spi NC_BW_BMC_SPI_WR_FIFO) else spi)"

section \<open>Opening\<close>

text \<open>Both waits read a register until a condition holds, at most \<open>n\<close> times after the first read.\<close>

fun bw_poll :: "(u32 \<Rightarrow> bool) \<Rightarrow> u64 \<Rightarrow> int \<Rightarrow> nc_bw_bmc \<Rightarrow> u32 \<times> int \<times> nc_bw_bmc" where
  "bw_poll ok reg n spi =
     (case bb_read32 spi reg of (status, spi) \<Rightarrow>
        if ok status \<or> n \<le> 1 then (status, if ok status then n else 0, spi) else bw_poll ok reg (n - 1) spi)"

declare bw_poll.simps [simp del]

definition nc_bw_bmc_open_ext :: "nfb_comp option \<Rightarrow> bool \<Rightarrow> u8 list \<Rightarrow> nc_bw_bmc option" where
  "nc_bw_bmc_open_ext co throttle_write buffer =
     (case co of None \<Rightarrow> None
      | Some co \<Rightarrow>
          if buffer = [] then None
          else let spi = \<lparr>bb_comp = co, bb_buffer = buffer, bb_recv_len = 0, bb_pos = 0, bb_throttle = throttle_write\<rparr>
          in case bw_poll (\<lambda>s. s = 0xdeadbeef) NC_BW_BMC_SPI_RD_FIFO 1000 spi of (_, _, spi) \<Rightarrow>
             case bw_poll (\<lambda>s. bit s 1) NC_BW_BMC_SPI_SYS_CSR 1000 spi of (_, _, spi) \<Rightarrow>
             let spi = snd (bb_read32 spi NC_BW_BMC_SPI_WR_CSR);
                 spi = nc_bw_bmc_write32 spi NC_BW_BMC_SPI_WR_CSR (push_bit 12 1)
             in Some (nc_bw_bmc_write32 spi NC_BW_BMC_SPI_RD_CSR (push_bit 14 1)))"

definition nc_bw_bmc_lock :: "nc_bw_bmc \<Rightarrow> int \<times> nc_bw_bmc" where
  "nc_bw_bmc_lock spi = (case nfb_comp_trylock (bb_comp spi) 1 100 of (r, co) \<Rightarrow> (if r = 0 then 1 else 0, spi\<lparr>bb_comp := co\<rparr>))"

definition nc_bw_bmc_unlock :: "nc_bw_bmc \<Rightarrow> nc_bw_bmc" where
  "nc_bw_bmc_unlock spi = spi\<lparr>bb_comp := nfb_comp_unlock (bb_comp spi) 1\<rparr>"

section \<open>Frames\<close>

primrec bw_write_bytes :: "u8 list \<Rightarrow> nc_bw_bmc \<Rightarrow> nc_bw_bmc" where
  "bw_write_bytes [] spi = spi"
| "bw_write_bytes (b # bs) spi = bw_write_bytes bs (nc_bw_bmc_write32 spi NC_BW_BMC_SPI_WR_FIFO (ucast b))"

definition nc_bw_bmc_send_raw_frame :: "u8 list \<Rightarrow> bool \<Rightarrow> bool \<Rightarrow> u32 \<Rightarrow> u32 \<Rightarrow> nc_bw_bmc \<Rightarrow> int \<times> nc_bw_bmc" where
  "nc_bw_bmc_send_raw_frame bytes last_frame wait_for_status cmd expected_status spi =
     (case bb_read32 spi NC_BW_BMC_SPI_RD_CSR of (status, spi) \<Rightarrow>
      let spi = (if bit status 0 then nc_bw_bmc_write32 spi NC_BW_BMC_SPI_RD_CSR (push_bit 14 1) else spi)
      in if bytes = [] then (0, spi)
         else
           let spi = bw_write_bytes (butlast bytes) (nc_bw_bmc_write32 spi NC_BW_BMC_SPI_WR_FIFO cmd);
               status = ucast (last bytes) OR (if last_frame then 0x100 else 0);
               spi = spi\<lparr>bb_comp := nfb_comp_write32 (bb_comp spi) NC_BW_BMC_SPI_WR_FIFO status\<rparr>
           in if \<not> wait_for_status then (0, spi)
              else let spi = (if bb_throttle spi then snd (bb_read32 spi NC_BW_BMC_SPI_WR_FIFO) else spi)
              in case bb_read32 spi NC_BW_BMC_SPI_WR_CSR of (status, spi) \<Rightarrow>
                if bit status 13 then (- ENOBUFS, spi)
                else case (if bit status 0 then (status, 100000, spi) else bw_poll (\<lambda>s. bit s 0) NC_BW_BMC_SPI_WR_CSR 99999 spi) of
                  (status, retries, spi) \<Rightarrow>
                    if retries = 0 then (- EPIPE, spi)
                    else if drop_bit 24 status \<noteq> expected_status then (- EOPNOTSUPP, spi)
                    else (0, spi))"

definition nc_bw_bmc_send_mctp_ext :: "u8 list \<Rightarrow> bool \<Rightarrow> bool \<Rightarrow> nc_bw_bmc \<Rightarrow> int \<times> nc_bw_bmc" where
  "nc_bw_bmc_send_mctp_ext bytes last_frame wait_for_status spi = nc_bw_bmc_send_raw_frame bytes last_frame wait_for_status 0x11 0x20 spi"

definition nc_bw_bmc_send_mctp :: "nc_bw_bmc \<Rightarrow> int \<times> nc_bw_bmc" where
  "nc_bw_bmc_send_mctp spi = nc_bw_bmc_send_mctp_ext (take (unat (bb_pos spi)) (bb_buffer spi)) True True spi"

definition nc_bw_bmc_send_i2c :: "u8 list \<Rightarrow> nc_bw_bmc \<Rightarrow> int \<times> nc_bw_bmc" where
  "nc_bw_bmc_send_i2c bytes spi = nc_bw_bmc_send_raw_frame bytes True True 0x22 0x10 spi"

text \<open>The loop of reception: \<open>n\<close> bytes fit; the result is the last word (None for an empty FIFO) and the bytes.\<close>

primrec bw_receive_loop :: "nat \<Rightarrow> u32 \<Rightarrow> nc_bw_bmc \<Rightarrow> u32 option \<times> u8 list \<times> nc_bw_bmc" where
  "bw_receive_loop 0 status spi = (Some status, [], spi)"
| "bw_receive_loop (Suc n) status spi =
     (case bb_read32 spi NC_BW_BMC_SPI_RD_FIFO of (status, spi) \<Rightarrow>
        if status = 0xDEADBEEF then (None, [], spi)
        else if bit status 8 then (Some status, [ucast status], spi)
        else case bw_receive_loop n status spi of (st, bs, spi) \<Rightarrow> (st, ucast status # bs, spi))"

text \<open>The result is the code, the number of bytes received and the bytes.\<close>

definition nc_bw_bmc_receive :: "nat \<Rightarrow> u32 \<Rightarrow> nc_bw_bmc \<Rightarrow> int \<times> u8 list \<times> nc_bw_bmc" where
  "nc_bw_bmc_receive len expected_status spi =
     (case bw_poll (\<lambda>s. bit s 0) NC_BW_BMC_SPI_RD_CSR 100000 spi of (status, retries, spi) \<Rightarrow>
      if retries = 0 then (- EPIPE, [], spi)
      else let bytes = unat (drop_bit 2 status AND 0x7FF)
      in if bytes = 0 then (- EBADF, [], spi)
         else if bytes - 1 > len then (int (bytes - 1), [], spi)
         else case bb_read32 spi NC_BW_BMC_SPI_RD_FIFO of (status, spi) \<Rightarrow>
           if status AND 0xFF \<noteq> expected_status then
             (- EBADF, [], nc_bw_bmc_write32 (nc_bw_bmc_write32 spi NC_BW_BMC_SPI_RD_CSR (push_bit 14 1)) NC_BW_BMC_SPI_RD_CSR (push_bit 1 1))
           else if bit status 8 then (int (bytes - 1), [], spi)
           else case bw_receive_loop len status spi of
               (None, bs, spi) \<Rightarrow> (- EBADF, bs, nc_bw_bmc_write32 spi NC_BW_BMC_SPI_RD_CSR (push_bit 1 1))
             | (Some status, bs, spi) \<Rightarrow>
                 if \<not> bit status 8 \<or> bytes - 1 > length bs then (int (bytes - 1) - int (length bs), bs, spi)
                 else (0, bs, nc_bw_bmc_write32 spi NC_BW_BMC_SPI_RD_CSR (push_bit 1 1)))"

definition nc_bw_bmc_receive_mctp :: "nc_bw_bmc \<Rightarrow> int \<times> nc_bw_bmc" where
  "nc_bw_bmc_receive_mctp spi =
     (case nc_bw_bmc_receive (length (bb_buffer spi)) 0x11 spi of
        (ret, bs, spi) \<Rightarrow> (ret, spi\<lparr>bb_buffer := bs @ drop (length bs) (bb_buffer spi), bb_recv_len := of_nat (length bs)\<rparr>))"

definition nc_bw_bmc_receive_i2c :: "nat \<Rightarrow> nc_bw_bmc \<Rightarrow> int \<times> u8 list \<times> nc_bw_bmc" where
  "nc_bw_bmc_receive_i2c len spi =
     (case nc_bw_bmc_receive len 0x24 spi of
        (ret, bs, spi) \<Rightarrow> (if ret < 0 then ret else if length bs \<noteq> len then - EIO else 0, bs, spi))"

section \<open>The message buffer\<close>

definition bb_store :: "nat \<Rightarrow> u8 list \<Rightarrow> u8 list \<Rightarrow> u8 list" where
  "bb_store pos val buf = take pos buf @ val @ drop (pos + length val) buf"

definition nc_bw_bmc_mctp_header_default :: "nc_bw_bmc \<Rightarrow> int \<times> nc_bw_bmc" where
  "nc_bw_bmc_mctp_header_default spi =
     (if bb_buffer_len spi < 4 then (- ENOMEM, spi)
      else (0, spi\<lparr>bb_buffer := bb_store 0 [0x01, 0x00, 0x69, 0xc8] (bb_buffer spi), bb_pos := 4\<rparr>))"

definition nc_bw_bmc_pldm_vndr :: "u8 \<Rightarrow> nc_bw_bmc \<Rightarrow> int \<times> nc_bw_bmc" where
  "nc_bw_bmc_pldm_vndr vndr_type spi =
     (if bb_buffer_len spi < bb_pos spi + 4 then (- ENOMEM, spi)
      else (0, spi\<lparr>bb_buffer := bb_store (unat (bb_pos spi)) [0x01, 0x80, 0x3f, vndr_type] (bb_buffer spi), bb_pos := bb_pos spi + 4\<rparr>))"

definition nc_bw_bmc_push :: "u8 list \<Rightarrow> nc_bw_bmc \<Rightarrow> int \<times> nc_bw_bmc" where
  "nc_bw_bmc_push val spi =
     (if bb_buffer_len spi < bb_pos spi + of_nat (length val) then (- ENOMEM, spi)
      else (0, spi\<lparr>bb_buffer := bb_store (unat (bb_pos spi)) val (bb_buffer spi), bb_pos := bb_pos spi + of_nat (length val)\<rparr>))"

definition nc_bw_bmc_push_uint8 :: "u8 \<Rightarrow> nc_bw_bmc \<Rightarrow> int \<times> nc_bw_bmc" where
  "nc_bw_bmc_push_uint8 val = nc_bw_bmc_push [val]"

definition nc_bw_bmc_push_uint16 :: "u16 \<Rightarrow> nc_bw_bmc \<Rightarrow> int \<times> nc_bw_bmc" where
  "nc_bw_bmc_push_uint16 val = nc_bw_bmc_push [ucast val, ucast (drop_bit 8 val)]"

definition nc_bw_bmc_push_uint32 :: "u32 \<Rightarrow> nc_bw_bmc \<Rightarrow> int \<times> nc_bw_bmc" where
  "nc_bw_bmc_push_uint32 val = nc_bw_bmc_push (le_bytes val)"

definition nc_bw_bmc_pop_mctp_header :: "nc_bw_bmc \<Rightarrow> int \<times> nc_bw_bmc" where
  "nc_bw_bmc_pop_mctp_header spi = (if bb_recv_len spi < 4 then (- ENOMEM, spi) else (0, spi\<lparr>bb_pos := 4\<rparr>))"

definition nc_bw_bmc_pop_pldm_header :: "nc_bw_bmc \<Rightarrow> int \<times> nc_bw_bmc" where
  "nc_bw_bmc_pop_pldm_header spi =
     (if bb_recv_len spi < bb_pos spi + 4 then (- ENOMEM, spi) else (0, spi\<lparr>bb_pos := bb_pos spi + 4\<rparr>))"

definition nc_bw_bmc_pop :: "u32 \<Rightarrow> nc_bw_bmc \<Rightarrow> int \<times> u8 list \<times> nc_bw_bmc" where
  "nc_bw_bmc_pop len spi =
     (if bb_recv_len spi < bb_pos spi + len then (- ENOMEM, [], spi)
      else (0, take (unat len) (drop (unat (bb_pos spi)) (bb_buffer spi)), spi\<lparr>bb_pos := bb_pos spi + len\<rparr>))"

text \<open>A failed pop leaves the variable as it was.\<close>

definition nc_bw_bmc_pop_uint8 :: "u8 \<Rightarrow> nc_bw_bmc \<Rightarrow> int \<times> u8 \<times> nc_bw_bmc" where
  "nc_bw_bmc_pop_uint8 old spi =
     (case nc_bw_bmc_pop 1 spi of (ret, bs, spi) \<Rightarrow> (ret, if ret = 0 then hd bs else old, spi))"

definition nc_bw_bmc_pop_uint32 :: "u32 \<Rightarrow> nc_bw_bmc \<Rightarrow> int \<times> u32 \<times> nc_bw_bmc" where
  "nc_bw_bmc_pop_uint32 old spi =
     (case nc_bw_bmc_pop 4 spi of (ret, bs, spi) \<Rightarrow> (ret, if ret = 0 then sdm_word bs else old, spi))"

text \<open>The pattern of all requests: both headers and the arguments, with the codes combined by a bitwise or.\<close>

primrec bw_push_all :: "u8 list list \<Rightarrow> nc_bw_bmc \<Rightarrow> int \<times> nc_bw_bmc" where
  "bw_push_all [] spi = (0, spi)"
| "bw_push_all (a # as) spi =
     (case nc_bw_bmc_push a spi of (r1, spi) \<Rightarrow> case bw_push_all as spi of (r2, spi) \<Rightarrow> (r1 OR r2, spi))"

definition bw_build :: "u8 \<Rightarrow> u8 list list \<Rightarrow> nc_bw_bmc \<Rightarrow> int \<times> nc_bw_bmc" where
  "bw_build vndr_type args spi =
     (case nc_bw_bmc_mctp_header_default spi of (r1, spi) \<Rightarrow>
      case nc_bw_bmc_pldm_vndr vndr_type spi of (r2, spi) \<Rightarrow>
      case bw_push_all args spi of (r3, spi) \<Rightarrow> (r1 OR r2 OR r3, spi))"

text \<open>The pattern of the answers: both headers and the completion code.\<close>

definition bw_answer :: "u8 \<Rightarrow> nc_bw_bmc \<Rightarrow> int \<times> u8 \<times> nc_bw_bmc" where
  "bw_answer cc spi =
     (case nc_bw_bmc_pop_mctp_header spi of (r1, spi) \<Rightarrow>
      case nc_bw_bmc_pop_pldm_header spi of (r2, spi) \<Rightarrow>
      case nc_bw_bmc_pop_uint8 cc spi of (r3, cc, spi) \<Rightarrow> (r1 OR r2 OR r3, cc, spi))"


section \<open>Requests\<close>

text \<open>A request and its answer up to the completion code; on the way the first nonzero code ends it.\<close>

definition bw_exchange :: "u8 \<Rightarrow> nc_bw_bmc \<Rightarrow> int \<times> u8 \<times> nc_bw_bmc" where
  "bw_exchange cc spi =
     (case nc_bw_bmc_send_mctp spi of (ret, spi) \<Rightarrow>
      if ret \<noteq> 0 then (ret, cc, spi)
      else case nc_bw_bmc_receive_mctp spi of (ret, spi) \<Rightarrow>
      if ret \<noteq> 0 then (ret, cc, spi)
      else bw_answer cc spi)"

text \<open>Strings are given without their terminating zero.\<close>

definition str_bytes :: "string \<Rightarrow> u8 list" where
  "str_bytes = map of_char"

definition u16_bytes :: "u16 \<Rightarrow> u8 list" where
  "u16_bytes w = [ucast w, ucast (drop_bit 8 w)]"

definition nc_bw_bmc_file_unlink :: "u8 \<Rightarrow> string \<Rightarrow> nc_bw_bmc \<Rightarrow> int \<times> nc_bw_bmc" where
  "nc_bw_bmc_file_unlink cc path spi =
     (case bw_build 0x18 [u16_bytes (of_nat (length path)), str_bytes path] spi of (ret, spi) \<Rightarrow>
      if ret \<noteq> 0 then (ret, spi)
      else case bw_exchange cc spi of (ret, cc, spi) \<Rightarrow>
      (if ret \<noteq> 0 then ret else if cc \<noteq> 0 then - ECANCELED else 0, spi))"

definition nc_bw_bmc_file_move :: "string \<Rightarrow> string \<Rightarrow> nc_bw_bmc \<Rightarrow> int \<times> nc_bw_bmc" where
  "nc_bw_bmc_file_move src dst spi =
     (case bw_build 0x19 [u16_bytes (of_nat (length src)), u16_bytes (of_nat (length dst)), str_bytes src, str_bytes dst] spi of (ret, spi) \<Rightarrow>
      if ret \<noteq> 0 then (-1, spi)
      else case bw_exchange 0 spi of (ret, cc, spi) \<Rightarrow>
      (if ret \<noteq> 0 then -1 else if cc \<noteq> 0 then - ECANCELED else 0, spi))"

text \<open>The loop of the upload: each pass sends \<open>data_length\<close> bytes, the smaller of 512 and the whole length; None is the read past the
  end of the data.  The code of the construction of the message is overwritten.\<close>

function bw_upload_loop :: "string \<Rightarrow> u8 list \<Rightarrow> nat \<Rightarrow> u8 \<Rightarrow> nc_bw_bmc \<Rightarrow> int option \<times> nc_bw_bmc" where
  "bw_upload_loop path data offset cc spi =
     (let data_length = min (length data) 512
      in if offset + data_length > length data then (None, spi)
         else case bw_build 0x13 [le_bytes (of_nat (length path)), le_bytes (of_nat offset), le_bytes (of_nat data_length),
                str_bytes path, take data_length (drop offset data)] spi of (_, spi) \<Rightarrow>
           case bw_exchange cc spi of (ret, cc, spi) \<Rightarrow>
             if ret \<noteq> 0 then (Some ret, spi)
             else if cc \<noteq> 0 then (Some (- ECANCELED), spi)
             else if offset + data_length = length data then (Some 0, spi)
             else bw_upload_loop path data (offset + data_length) cc spi)"
  by pat_completeness auto
termination
  by (relation "measure (\<lambda>(p, d, off, c, s). length d - off)") (auto simp: Let_def)

declare bw_upload_loop.simps [simp del]

definition nc_bw_bmc_file_upload :: "string \<Rightarrow> u8 list \<Rightarrow> nc_bw_bmc \<Rightarrow> int option \<times> nc_bw_bmc" where
  "nc_bw_bmc_file_upload path data spi = bw_upload_loop path data 0 0 spi"

text \<open>The loop of the load of an image, by the rest of the data.  The position in the flash is the same in all parts; the
  callback \<open>cb\<close> is told the offset after every part and changes the state \<open>pv\<close> of the caller.\<close>

definition bw_transfer_flag :: "bool \<Rightarrow> bool \<Rightarrow> u8" where
  "bw_transfer_flag first whole = (if first then (if whole then 0x05 else 0x00) else (if whole then 0x04 else 0x01))"

function bw_load_loop :: "(u32 \<Rightarrow> 'p \<Rightarrow> 'p) \<Rightarrow> u32 \<Rightarrow> bool \<Rightarrow> u32 \<Rightarrow> u8 list \<Rightarrow> u8 \<Rightarrow> nc_bw_bmc \<Rightarrow> 'p \<Rightarrow> int \<times> nc_bw_bmc \<times> 'p" where
  "bw_load_loop cb flash_offset first offset rest cc spi pv =
     (let data_length = min (length rest) 512;
          transfer_flag = bw_transfer_flag first (length rest = data_length)
      in case bw_build 0x17 [[transfer_flag], le_bytes flash_offset, u16_bytes (of_nat data_length), take data_length rest] spi of (_, spi) \<Rightarrow>
         case bw_exchange cc spi of (ret, cc, spi) \<Rightarrow>
           if ret \<noteq> 0 then (ret, spi, pv)
           else if cc \<noteq> 0 then (- ECANCELED, spi, pv)
           else
             let offset = offset + of_nat data_length; pv = cb offset pv
             in if length rest = data_length then (0, spi, pv)
                else bw_load_loop cb flash_offset False offset (drop data_length rest) cc spi pv)"
  by pat_completeness auto
termination
  by (relation "measure (\<lambda>(cb, f, b, off, r, c, s, p). length r)") (auto simp: Let_def min_def split: if_splits)

declare bw_load_loop.simps [simp del]

definition nc_bw_bmc_fpga_load_ext :: "u8 list \<Rightarrow> u32 \<Rightarrow> (u32 \<Rightarrow> 'p \<Rightarrow> 'p) \<Rightarrow> nc_bw_bmc \<Rightarrow> 'p \<Rightarrow> int \<times> nc_bw_bmc \<times> 'p" where
  "nc_bw_bmc_fpga_load_ext data flash_offset cb spi pv = bw_load_loop cb flash_offset True 0 data 0 spi (cb 0 pv)"

definition nc_bw_bmc_send_reload :: "string \<Rightarrow> nc_bw_bmc \<Rightarrow> int \<times> nc_bw_bmc" where
  "nc_bw_bmc_send_reload filename spi =
     (let target_path = ''/fpga/load/name'' in
      case bw_build 0x13 [le_bytes (of_nat (length target_path)), le_bytes 0, le_bytes (of_nat (length filename) + 1),
             str_bytes target_path, str_bytes filename @ [0]] spi of (_, spi) \<Rightarrow>
      (0, snd (nc_bw_bmc_send_mctp_ext (take (unat (bb_pos spi)) (bb_buffer spi)) True False spi)))"

text \<open>The download continues while the controller delivers full parts.  The number of bytes to copy is a minimum of C ints; the
  code None is a copy past the end of the buffer.\<close>

partial_function (option) bw_download_loop ::
  "string \<Rightarrow> u8 list \<Rightarrow> u32 \<Rightarrow> u8 \<Rightarrow> u32 \<Rightarrow> u32 \<Rightarrow> nc_bw_bmc \<Rightarrow> (int option \<times> u8 list \<times> nc_bw_bmc) option" where
  "bw_download_loop path buffer offset cc out_offset response_count spi =
     (case bw_build 0x14 [le_bytes offset, le_bytes 512, le_bytes (of_nat (length path)), str_bytes path] spi of (ret, spi) \<Rightarrow>
      if ret \<noteq> 0 then Some (Some ret, buffer, spi)
      else case nc_bw_bmc_send_mctp spi of (ret, spi) \<Rightarrow>
      if ret \<noteq> 0 then Some (Some ret, buffer, spi)
      else case nc_bw_bmc_receive_mctp spi of (ret, spi) \<Rightarrow>
      if ret \<noteq> 0 then Some (Some ret, buffer, spi)
      else case bw_answer cc spi of (r1, cc, spi) \<Rightarrow>
      case nc_bw_bmc_pop_uint32 out_offset spi of (r2, out_offset, spi) \<Rightarrow>
      case nc_bw_bmc_pop_uint32 response_count spi of (r3, response_count, spi) \<Rightarrow>
      let n = (if sint (of_nat (length buffer) - offset) < sint response_count then of_nat (length buffer) - offset else response_count)
      in case nc_bw_bmc_pop n spi of (r4, bs, spi) \<Rightarrow>
        if r4 = 0 \<and> unat offset + unat n > length buffer \<and> n \<noteq> 0 then Some (None, buffer, spi)
        else let buffer = bb_store (unat offset) bs buffer; ret = r1 OR r2 OR r3 OR r4
        in if ret \<noteq> 0 then Some (Some ret, buffer, spi)
           else if cc \<noteq> 0 then Some (Some (- ECANCELED), buffer, spi)
           else if response_count = 512 then bw_download_loop path buffer (offset + response_count) cc out_offset response_count spi
           else Some (Some (sint (offset + response_count)), buffer, spi))"

definition nc_bw_bmc_download_file :: "string \<Rightarrow> u8 list \<Rightarrow> nc_bw_bmc \<Rightarrow> (int option \<times> u8 list \<times> nc_bw_bmc) option" where
  "nc_bw_bmc_download_file path buffer spi = bw_download_loop path buffer 0 0 (-1) 0 spi"

section \<open>An upload of an odd length never succeeds\<close>

lemma upload_loop_odd:
  assumes "512 < length data" and "\<not> 512 dvd length data" and "512 dvd offset"
  shows "fst (bw_upload_loop path data offset cc spi) \<noteq> Some 0"
  using assms
proof (induction path data offset cc spi rule: bw_upload_loop.induct)
  case (1 path data offset cc spi)
  have m: "min (length data) 512 = 512" using "1.prems"(1) by simp
  obtain b spi1 where b: "bw_build 0x13 [le_bytes (of_nat (length path)), le_bytes (of_nat offset), le_bytes (of_nat 512),
      str_bytes path, take 512 (drop offset data)] spi = (b, spi1)" by force
  obtain ret cc2 spi2 where x: "bw_exchange cc spi1 = (ret, cc2, spi2)" using prod_cases3 by blast
  have "offset + 512 \<noteq> length data" using "1.prems"(2,3) by (metis dvd_add dvd_refl)
  moreover have "\<not> offset + 512 > length data \<Longrightarrow> ret = 0 \<Longrightarrow> cc2 = 0 \<Longrightarrow> fst (bw_upload_loop path data (offset + 512) cc2 spi2) \<noteq> Some 0"
    using "1.IH" [OF m [symmetric] _ b [symmetric] x [symmetric] refl] "1.prems" calculation by auto
  ultimately show ?case
    using b x m by (auto simp: bw_upload_loop.simps [of path data offset] Let_def split: if_splits)
qed



definition example_bmc :: "mi_environment \<Rightarrow> nc_bw_bmc" where
  "example_bmc env = \<lparr>bb_comp = example_comp\<lparr>comp_bus := \<lparr>mi_env = env, mi_log = []\<rparr>\<rparr>, bb_buffer = replicate 2048 0, bb_recv_len = 0,
     bb_pos = 0, bb_throttle = False\<rparr>"


section \<open>What the controller receives\<close>

text \<open>The words written to the FIFO, newest first.\<close>

fun bw_sent :: "u64 \<Rightarrow> mi_access list \<Rightarrow> u32 list" where
  "bw_sent base [] = []"
| "bw_sent base (MiRead a n # l) = bw_sent base l"
| "bw_sent base (MiWrite a n v # l) = (if a = base + NC_BW_BMC_SPI_WR_FIFO \<and> n = 4 then ucast v # bw_sent base l else bw_sent base l)"

definition bw_step :: "nfb_comp \<Rightarrow> u32 list \<Rightarrow> nfb_comp \<Rightarrow> bool" where
  "bw_step co ws co' \<longleftrightarrow> (\<exists>l. co' = with_log l co \<and> bw_sent (comp_offset co) l = rev ws @ bw_sent (comp_offset co) (co_log co))"

definition bw_ok :: "nfb_comp \<Rightarrow> bool" where
  "bw_ok co \<longleftrightarrow> 0x14 \<le> comp_size co"

lemma bw_step_trans: "bw_step a us b \<Longrightarrow> bw_step b vs c \<Longrightarrow> bw_step a (us @ vs) c"
  unfolding bw_step_def by auto

lemma bw_step_refl: "bw_step a [] a"
  unfolding bw_step_def by (rule exI [of _ "co_log a"]) simp

lemma bw_step_ok: "bw_step a us b \<Longrightarrow> bw_ok a \<Longrightarrow> bw_ok b"
  by (auto simp: bw_step_def bw_ok_def)

lemmas bw_step_then = bw_step_trans [of _ "[]", simplified] bw_step_trans [of _ _ _ "[]", simplified]

lemma bw_in_component:
  assumes "bw_ok co" and "off \<in> {0, 4, 8, 0xC, 0x10}"
  shows "\<not> off + of_nat 4 > comp_size co"
proof -
  have "(0x14 :: nat) \<le> unat (comp_size co)" using assms(1) by (simp add: bw_ok_def word_le_nat_alt)
  with assms(2) show ?thesis by (auto simp: word_less_nat_alt)
qed

lemma bb_read_step:
  assumes "bw_ok (bb_comp spi)" and "off \<in> {0, 4, 8, 0xC, 0x10}" and "bb_read32 spi off = (v, spi')"
  shows "bw_step (bb_comp spi) [] (bb_comp spi')" "spi' = spi\<lparr>bb_comp := bb_comp spi'\<rparr>"
  using assms(3) bw_in_component [OF assms(1,2)]
  by (auto simp: bb_read32_def nfb_comp_read32_def nfb_comp_read_def Let_def bw_step_def with_log_def split: prod.splits)

lemma bb_write_step:
  assumes "bw_ok (bb_comp spi)" and "off \<in> {0, 4, 8, 0xC, 0x10}" and "spi' = spi\<lparr>bb_comp := nfb_comp_write32 (bb_comp spi) off v\<rparr>"
  shows "bw_step (bb_comp spi) (if off = NC_BW_BMC_SPI_WR_FIFO then [v] else []) (bb_comp spi')"
  using bw_in_component [OF assms(1,2)]
  by (auto simp: assms(3) nfb_comp_write32_def nfb_comp_write_def Let_def bw_step_def with_log_def bw_regs intro!: exI [of _ "MiWrite _ 4 _ # _"])

lemma write32_step:
  assumes "bw_ok (bb_comp spi)" and "off \<in> {0, 4, 8, 0xC, 0x10}"
  shows "bw_step (bb_comp spi) (if off = NC_BW_BMC_SPI_WR_FIFO then [v] else []) (bb_comp (nc_bw_bmc_write32 spi off v))"
    "nc_bw_bmc_write32 spi off v = spi\<lparr>bb_comp := bb_comp (nc_bw_bmc_write32 spi off v)\<rparr>"
proof -
  let ?s = "spi\<lparr>bb_comp := nfb_comp_write32 (bb_comp spi) off v\<rparr>"
  note w = bb_write_step [OF assms refl, of v]
  obtain x s2 where r: "bb_read32 ?s NC_BW_BMC_SPI_WR_FIFO = (x, s2)" by force
  note rs = bb_read_step [OF bw_step_ok [OF w assms(1)] _ r]
  show "bw_step (bb_comp spi) (if off = NC_BW_BMC_SPI_WR_FIFO then [v] else []) (bb_comp (nc_bw_bmc_write32 spi off v))"
    using w bw_step_trans [OF w rs(1)] r by (simp add: nc_bw_bmc_write32_def Let_def bw_regs split: if_splits)
  show "nc_bw_bmc_write32 spi off v = spi\<lparr>bb_comp := bb_comp (nc_bw_bmc_write32 spi off v)\<rparr>"
    using rs(2) r by (auto simp: nc_bw_bmc_write32_def Let_def bw_regs)
qed

lemma poll_step:
  assumes "bw_ok (bb_comp spi)" and "reg \<in> {0, 4, 8, 0xC, 0x10}" and "bw_poll ok reg n spi = (st, r, spi')"
  shows "bw_step (bb_comp spi) [] (bb_comp spi')" "spi' = spi\<lparr>bb_comp := bb_comp spi'\<rparr>"
proof -
  have "bw_step (bb_comp spi) [] (bb_comp spi') \<and> spi' = spi\<lparr>bb_comp := bb_comp spi'\<rparr>"
    using assms
  proof (induction ok reg n spi rule: bw_poll.induct)
    case (1 ok reg n spi)
    obtain v s1 where rd: "bb_read32 spi reg = (v, s1)" by force
    note rs = bb_read_step [OF "1.prems"(1,2) rd]
    show ?case
    proof (cases "ok v \<or> n \<le> 1")
      case True
      with "1.prems"(3) rd rs show ?thesis by (auto simp: bw_poll.simps [of ok reg n])
    next
      case False
      with "1.prems"(3) rd have "bw_poll ok reg (n - 1) s1 = (st, r, spi')" by (simp add: bw_poll.simps [of ok reg n])
      with "1.IH" [OF rd [symmetric] False bw_step_ok [OF rs(1) "1.prems"(1)] "1.prems"(2)] bw_step_then(1) [OF rs(1)] rs(2) show ?thesis
        by (metis nc_bw_bmc.surjective nc_bw_bmc.update_convs(1) nc_bw_bmc.select_convs(1))
    qed
  qed
  then show "bw_step (bb_comp spi) [] (bb_comp spi')" "spi' = spi\<lparr>bb_comp := bb_comp spi'\<rparr>" by blast+
qed

lemma write_bytes_step:
  assumes "bw_ok (bb_comp spi)"
  shows "bw_step (bb_comp spi) (map ucast bs) (bb_comp (bw_write_bytes bs spi)) \<and>
    bw_write_bytes bs spi = spi\<lparr>bb_comp := bb_comp (bw_write_bytes bs spi)\<rparr>"
  using assms
proof (induction bs arbitrary: spi)
  case (Cons b bs)
  let ?s = "nc_bw_bmc_write32 spi NC_BW_BMC_SPI_WR_FIFO (ucast b)"
  have w: "bw_step (bb_comp spi) [ucast b] (bb_comp ?s)" "?s = spi\<lparr>bb_comp := bb_comp ?s\<rparr>"
    using write32_step [OF Cons.prems, of NC_BW_BMC_SPI_WR_FIFO "ucast b"] by (simp_all add: NC_BW_BMC_SPI_WR_FIFO_def)
  note ih = Cons.IH [OF bw_step_ok [OF w(1) Cons.prems]]
  have "bw_write_bytes bs ?s = spi\<lparr>bb_comp := bb_comp (bw_write_bytes bs ?s)\<rparr>"
    by (subst conjunct2 [OF ih], subst w(2)) simp
  with bw_step_trans [OF w(1) conjunct1 [OF ih]] show ?case by simp
qed (simp add: bw_step_refl)

text \<open>The words of a frame.\<close>

definition bw_frame :: "u32 \<Rightarrow> u8 list \<Rightarrow> u32 list" where
  "bw_frame cmd msg = cmd # map ucast (butlast msg) @ [ucast (last msg) OR 0x100]"


definition spi_step :: "nc_bw_bmc \<Rightarrow> u32 list \<Rightarrow> nc_bw_bmc \<Rightarrow> bool" where
  "spi_step spi ws spi' \<longleftrightarrow> bw_step (bb_comp spi) ws (bb_comp spi') \<and> spi' = spi\<lparr>bb_comp := bb_comp spi'\<rparr>"

lemma spi_step_trans: "spi_step a us b \<Longrightarrow> spi_step b vs c \<Longrightarrow> spi_step a (us @ vs) c"
  unfolding spi_step_def using bw_step_trans by (metis nc_bw_bmc.surjective nc_bw_bmc.update_convs(1) nc_bw_bmc.select_convs(1))

lemma spi_step_refl: "spi_step a [] a"
  by (simp add: spi_step_def bw_step_refl)

lemma spi_step_ok: "spi_step a us b \<Longrightarrow> bw_ok (bb_comp a) \<Longrightarrow> bw_ok (bb_comp b)"
  unfolding spi_step_def using bw_step_ok by blast

lemma spi_stepD:
  assumes "spi_step a us b"
  shows "bb_buffer b = bb_buffer a" "bb_pos b = bb_pos a" "bb_recv_len b = bb_recv_len a" "bb_throttle b = bb_throttle a"
    "bw_step (bb_comp a) us (bb_comp b)"
  using assms unfolding spi_step_def by (metis nc_bw_bmc.ext_inject nc_bw_bmc.surjective nc_bw_bmc.update_convs(1))+

text \<open>Steps that write nothing to the FIFO.\<close>

abbreviation quiet :: "nc_bw_bmc \<Rightarrow> nc_bw_bmc \<Rightarrow> bool" where
  "quiet a b \<equiv> spi_step a [] b"

lemma quiet_trans: "quiet a b \<Longrightarrow> quiet b c \<Longrightarrow> quiet a c"
  using spi_step_trans [of a "[]" b "[]" c] by simp

lemma read_quiet:
  "bw_ok (bb_comp spi) \<Longrightarrow> off \<in> {0, 4, 8, 0xC, 0x10} \<Longrightarrow> bb_read32 spi off = (v, spi') \<Longrightarrow> quiet spi spi'"
  using bb_read_step by (simp add: spi_step_def)

lemma poll_quiet:
  "bw_ok (bb_comp spi) \<Longrightarrow> reg \<in> {0, 4, 8, 0xC, 0x10} \<Longrightarrow> bw_poll ok reg n spi = (st, r, spi') \<Longrightarrow> quiet spi spi'"
  using poll_step by (simp add: spi_step_def)

lemma write_quiet:
  "bw_ok (bb_comp spi) \<Longrightarrow> quiet spi (nc_bw_bmc_write32 spi NC_BW_BMC_SPI_RD_CSR v)"
  using write32_step [of spi NC_BW_BMC_SPI_RD_CSR v] by (simp add: spi_step_def bw_regs)

lemma write_fifo_step:
  "bw_ok (bb_comp spi) \<Longrightarrow> spi_step spi [v] (nc_bw_bmc_write32 spi NC_BW_BMC_SPI_WR_FIFO v)"
  using write32_step [of spi NC_BW_BMC_SPI_WR_FIFO v] by (simp add: spi_step_def bw_regs)

lemma raw_fifo_step:
  "bw_ok (bb_comp spi) \<Longrightarrow> spi_step spi [v] (spi\<lparr>bb_comp := nfb_comp_write32 (bb_comp spi) NC_BW_BMC_SPI_WR_FIFO v\<rparr>)"
  using bb_write_step [of spi NC_BW_BMC_SPI_WR_FIFO _ v, OF _ _ refl] by (simp add: spi_step_def bw_regs)

lemma bytes_step: "bw_ok (bb_comp spi) \<Longrightarrow> spi_step spi (map ucast bs) (bw_write_bytes bs spi)"
  using write_bytes_step by (simp add: spi_step_def)

text \<open>After the frame is written, the rest of the routine only reads.\<close>

lemma send_tail_quiet:
  assumes "bw_ok (bb_comp spi)"
    and "(let spi = (if bb_throttle spi then snd (bb_read32 spi NC_BW_BMC_SPI_WR_FIFO) else spi)
      in case bb_read32 spi NC_BW_BMC_SPI_WR_CSR of (status, spi) \<Rightarrow>
        if bit status 13 then (- ENOBUFS, spi)
        else case (if bit status 0 then (status, 100000, spi) else bw_poll (\<lambda>s. bit s 0) NC_BW_BMC_SPI_WR_CSR 99999 spi) of
          (status, retries, spi) \<Rightarrow>
            if retries = 0 then (- EPIPE, spi)
            else if drop_bit 24 status \<noteq> expected_status then (- EOPNOTSUPP, spi)
            else (0, spi)) = (ret, spi')"
  shows "quiet spi spi'"
proof -
  let ?s = "if bb_throttle spi then snd (bb_read32 spi NC_BW_BMC_SPI_WR_FIFO) else spi"
  have q1: "quiet spi ?s"
    using read_quiet [OF assms(1), of NC_BW_BMC_SPI_WR_FIFO] by (auto simp: spi_step_refl NC_BW_BMC_SPI_WR_FIFO_def)
      (metis surjective_pairing)
  obtain st s2 where r: "bb_read32 ?s NC_BW_BMC_SPI_WR_CSR = (st, s2)" by force
  have q2: "quiet ?s s2" using read_quiet [OF spi_step_ok [OF q1 assms(1)] _ r] by (simp add: NC_BW_BMC_SPI_WR_CSR_def)
  obtain st3 n s3 where p: "(if bit st 0 then (st, 100000, s2) else bw_poll (\<lambda>s. bit s 0) NC_BW_BMC_SPI_WR_CSR 99999 s2) = (st3, n, s3)"
    using prod_cases3 by blast
  have q3: "quiet s2 s3"
    using poll_quiet [OF spi_step_ok [OF q2 spi_step_ok [OF q1 assms(1)]], of NC_BW_BMC_SPI_WR_CSR] p spi_step_refl
    by (auto simp: NC_BW_BMC_SPI_WR_CSR_def split: if_splits)
  have "spi' = s2 \<or> spi' = s3" using assms(2) by (auto simp: Let_def r p split: if_splits)
  with quiet_trans [OF q1 q2] quiet_trans [OF quiet_trans [OF q1 q2] q3] show ?thesis by auto
qed

lemma send_frame_step:
  assumes "bw_ok (bb_comp spi)" and "bytes \<noteq> []" and "nc_bw_bmc_send_raw_frame bytes True True cmd est spi = (ret, spi')"
  shows "spi_step spi (bw_frame cmd bytes) spi'"
proof -
  obtain st s1 where r: "bb_read32 spi NC_BW_BMC_SPI_RD_CSR = (st, s1)" by force
  have q1: "quiet spi s1" using read_quiet [OF assms(1) _ r] by (simp add: NC_BW_BMC_SPI_RD_CSR_def)
  let ?s2 = "if bit st 0 then nc_bw_bmc_write32 s1 NC_BW_BMC_SPI_RD_CSR (push_bit 14 1) else s1"
  have q2: "quiet spi ?s2"
    using q1 quiet_trans [OF q1 write_quiet [OF spi_step_ok [OF q1 assms(1)]]] by simp
  note ok2 = spi_step_ok [OF q2 assms(1)]
  let ?s3 = "nc_bw_bmc_write32 ?s2 NC_BW_BMC_SPI_WR_FIFO cmd"
  have w3: "spi_step spi [cmd] ?s3" using spi_step_trans [OF q2 write_fifo_step [OF ok2, of cmd]] by simp
  let ?s4 = "bw_write_bytes (butlast bytes) ?s3"
  have w4: "spi_step spi (cmd # map ucast (butlast bytes)) ?s4"
    using spi_step_trans [OF w3 bytes_step [OF spi_step_ok [OF w3 assms(1)], of "butlast bytes"]] by simp
  let ?v = "ucast (last bytes) OR 0x100 :: u32"
  let ?s5 = "?s4\<lparr>bb_comp := nfb_comp_write32 (bb_comp ?s4) NC_BW_BMC_SPI_WR_FIFO ?v\<rparr>"
  have w5: "spi_step spi (bw_frame cmd bytes) ?s5"
    using spi_step_trans [OF w4 raw_fifo_step [OF spi_step_ok [OF w4 assms(1)], of ?v]] by (simp add: bw_frame_def)
  have "quiet ?s5 spi'"
    by (rule send_tail_quiet [OF spi_step_ok [OF w5 assms(1)], of est ret])
       (use assms(2,3) r in \<open>simp add: nc_bw_bmc_send_raw_frame_def Let_def\<close>)
  from spi_step_trans [OF w5 this] show ?thesis by simp
qed


lemma receive_loop_quiet:
  assumes "bw_ok (bb_comp spi)" and "bw_receive_loop n st spi = (r, bs, spi')"
  shows "quiet spi spi' \<and> length bs \<le> n"
  using assms
proof (induction n arbitrary: st spi r bs spi')
  case (Suc n)
  obtain v s1 where rd: "bb_read32 spi NC_BW_BMC_SPI_RD_FIFO = (v, s1)" by force
  have q: "quiet spi s1" using read_quiet [OF Suc.prems(1) _ rd] by (simp add: NC_BW_BMC_SPI_RD_FIFO_def)
  obtain r2 bs2 s2 where l: "bw_receive_loop n v s1 = (r2, bs2, s2)" using prod_cases3 by blast
  have "quiet s1 s2 \<and> length bs2 \<le> n" by (rule Suc.IH [OF spi_step_ok [OF q Suc.prems(1)] l])
  with q quiet_trans [of spi s1 s2] Suc.prems(2) rd l show ?case by (auto split: if_splits)
qed (auto simp: spi_step_refl)

lemma receive_quiet:
  assumes "bw_ok (bb_comp spi)" and "nc_bw_bmc_receive n est spi = (r, bs, spi')"
  shows "quiet spi spi'" "length bs \<le> n"
proof -
  obtain st k s1 where p: "bw_poll (\<lambda>s. bit s 0) NC_BW_BMC_SPI_RD_CSR 100000 spi = (st, k, s1)" using prod_cases3 by blast
  have q1: "quiet spi s1" using poll_quiet [OF assms(1) _ p] by (simp add: NC_BW_BMC_SPI_RD_CSR_def)
  note ok1 = spi_step_ok [OF q1 assms(1)]
  obtain v s2 where rd: "bb_read32 s1 NC_BW_BMC_SPI_RD_FIFO = (v, s2)" by force
  have "quiet s1 s2" using read_quiet [OF ok1 _ rd] by (simp add: NC_BW_BMC_SPI_RD_FIFO_def)
  note q2 = quiet_trans [OF q1 this]
  note ok2 = spi_step_ok [OF q2 assms(1)]
  obtain so bs3 s3 where l: "bw_receive_loop n v s2 = (so, bs3, s3)" using prod_cases3 by blast
  note lq = receive_loop_quiet [OF ok2 l]
  note q3 = quiet_trans [OF q2 conjunct1 [OF lq]]
  note ok3 = spi_step_ok [OF q3 assms(1)]
  have w: "quiet spi (nc_bw_bmc_write32 s3 NC_BW_BMC_SPI_RD_CSR x)" "quiet spi (nc_bw_bmc_write32 s2 NC_BW_BMC_SPI_RD_CSR x)"
    "quiet spi (nc_bw_bmc_write32 (nc_bw_bmc_write32 s2 NC_BW_BMC_SPI_RD_CSR x) NC_BW_BMC_SPI_RD_CSR y)" for x y
    using quiet_trans [OF q3 write_quiet [OF ok3, of x]] quiet_trans [OF q2 write_quiet [OF ok2, of x]]
      quiet_trans [OF quiet_trans [OF q2 write_quiet [OF ok2, of x]] write_quiet [OF spi_step_ok [OF quiet_trans [OF q2 write_quiet [OF ok2, of x]] assms(1)], of y]]
    by blast+
  have "(bs = [] \<or> bs = bs3) \<and> spi' \<in> {s1, s2, s3, nc_bw_bmc_write32 s3 NC_BW_BMC_SPI_RD_CSR (push_bit 1 1),
      nc_bw_bmc_write32 (nc_bw_bmc_write32 s2 NC_BW_BMC_SPI_RD_CSR (push_bit 14 1)) NC_BW_BMC_SPI_RD_CSR (push_bit 1 1)}"
    using assms(2) by (auto simp: nc_bw_bmc_receive_def p rd l Let_def split: if_splits option.splits)
  then show "quiet spi spi'" "length bs \<le> n" using q1 q2 q3 w lq by auto
qed

lemma receive_mctp_step:
  assumes "bw_ok (bb_comp spi)" and "nc_bw_bmc_receive_mctp spi = (r, spi')"
  shows "bw_step (bb_comp spi) [] (bb_comp spi')" "length (bb_buffer spi') = length (bb_buffer spi)"
proof -
  obtain ret bs s1 where rc: "nc_bw_bmc_receive (length (bb_buffer spi)) 0x11 spi = (ret, bs, s1)" using prod_cases3 by blast
  note q = receive_quiet [OF assms(1) rc]
  show "bw_step (bb_comp spi) [] (bb_comp spi')" "length (bb_buffer spi') = length (bb_buffer spi)"
    using assms(2) spi_stepD [OF q(1)] q(2) by (auto simp: nc_bw_bmc_receive_mctp_def rc)
qed

lemma answer_frame:
  assumes "bw_answer cc spi = (r, cc', spi')"
  shows "bb_comp spi' = bb_comp spi" "bb_buffer spi' = bb_buffer spi"
  using assms
  by (auto simp: bw_answer_def nc_bw_bmc_pop_mctp_header_def nc_bw_bmc_pop_pldm_header_def nc_bw_bmc_pop_uint8_def nc_bw_bmc_pop_def split: if_splits)

lemma exchange_step:
  assumes "bw_ok (bb_comp spi)" and "bb_pos spi \<noteq> 0" and "bb_buffer spi \<noteq> []" and "bw_exchange cc spi = (r, cc', spi')"
  shows "bw_step (bb_comp spi) (bw_frame 0x11 (take (unat (bb_pos spi)) (bb_buffer spi))) (bb_comp spi')"
    "length (bb_buffer spi') = length (bb_buffer spi)"
proof -
  let ?msg = "take (unat (bb_pos spi)) (bb_buffer spi)"
  have ne: "?msg \<noteq> []" using assms(2,3) by (simp add: unat_eq_0)
  obtain r1 s1 where sd: "nc_bw_bmc_send_mctp spi = (r1, s1)" by force
  note st = spi_stepD [OF send_frame_step [OF assms(1) ne sd [unfolded nc_bw_bmc_send_mctp_def nc_bw_bmc_send_mctp_ext_def]]]
  obtain r2 s2 where rc: "nc_bw_bmc_receive_mctp s1 = (r2, s2)" by force
  note rs = receive_mctp_step [OF bw_step_ok [OF st(5) assms(1)] rc]
  obtain r3 c3 s3 where an: "bw_answer cc s2 = (r3, c3, s3)" using prod_cases3 by blast
  have "spi' = s1 \<or> spi' = s2 \<or> spi' = s3" using assms(4) by (auto simp: bw_exchange_def sd rc an split: if_splits)
  with st rs answer_frame [OF an] bw_step_trans [OF st(5) rs(1)]
  show "bw_step (bb_comp spi) (bw_frame 0x11 ?msg) (bb_comp spi')" "length (bb_buffer spi') = length (bb_buffer spi)"
    by auto
qed

text \<open>Building a message that fits.\<close>

lemma store_take:
  "pos \<le> length buf \<Longrightarrow> pos + length v \<le> length buf \<Longrightarrow>
   take (pos + length v) (bb_store pos v buf) = take pos buf @ v \<and> length (bb_store pos v buf) = length buf"
  by (simp add: bb_store_def)

lemma unat_u32_small: "n < 2 ^ 32 \<Longrightarrow> unat (of_nat n :: u32) = n"
  by (simp add: unat_of_nat take_bit_nat_eq_self)

lemma push_ok:
  assumes "length (bb_buffer spi) < 2 ^ 32" and "unat (bb_pos spi) + length v \<le> length (bb_buffer spi)"
  shows "\<exists>spi'. nc_bw_bmc_push v spi = (0, spi') \<and> bb_comp spi' = bb_comp spi \<and> length (bb_buffer spi') = length (bb_buffer spi) \<and>
    unat (bb_pos spi') = unat (bb_pos spi) + length v \<and>
    take (unat (bb_pos spi')) (bb_buffer spi') = take (unat (bb_pos spi)) (bb_buffer spi) @ v"
proof -
  have "unat (bb_pos spi + of_nat (length v)) = unat (bb_pos spi) + length v"
    using assms by (simp add: unat_word_ariths unat_of_nat)
  then show ?thesis using assms store_take [of "unat (bb_pos spi)" "bb_buffer spi" v]
    by (auto simp: nc_bw_bmc_push_def word_less_nat_alt unat_of_nat)
qed

lemma push_all_ok:
  assumes "length (bb_buffer spi) < 2 ^ 32" and "unat (bb_pos spi) + length (concat as) \<le> length (bb_buffer spi)"
  shows "\<exists>spi'. bw_push_all as spi = (0, spi') \<and> bb_comp spi' = bb_comp spi \<and> length (bb_buffer spi') = length (bb_buffer spi) \<and>
    unat (bb_pos spi') = unat (bb_pos spi) + length (concat as) \<and>
    take (unat (bb_pos spi')) (bb_buffer spi') = take (unat (bb_pos spi)) (bb_buffer spi) @ concat as"
  using assms
proof (induction as arbitrary: spi)
  case (Cons a as)
  obtain s1 where p: "nc_bw_bmc_push a spi = (0, s1)" "bb_comp s1 = bb_comp spi" "length (bb_buffer s1) = length (bb_buffer spi)"
    "unat (bb_pos s1) = unat (bb_pos spi) + length a" "take (unat (bb_pos s1)) (bb_buffer s1) = take (unat (bb_pos spi)) (bb_buffer spi) @ a"
    using push_ok [of spi a] Cons.prems by auto
  from Cons.IH [of s1] p Cons.prems show ?case by auto
qed simp

lemma build_ok:
  assumes "length (bb_buffer spi) < 2 ^ 32" and "8 + length (concat as) \<le> length (bb_buffer spi)"
  shows "\<exists>spi'. bw_build t as spi = (0, spi') \<and> bb_comp spi' = bb_comp spi \<and> length (bb_buffer spi') = length (bb_buffer spi) \<and>
    bb_pos spi' \<noteq> 0 \<and> take (unat (bb_pos spi')) (bb_buffer spi') = [0x01, 0x00, 0x69, 0xc8, 0x01, 0x80, 0x3f, t] @ concat as"
proof -
  let ?s1 = "spi\<lparr>bb_buffer := bb_store 0 [0x01, 0x00, 0x69, 0xc8] (bb_buffer spi), bb_pos := 4\<rparr>"
  have h: "nc_bw_bmc_mctp_header_default spi = (0, ?s1)"
    using assms by (simp add: nc_bw_bmc_mctp_header_default_def word_less_nat_alt unat_of_nat)
  have v: "nc_bw_bmc_pldm_vndr t ?s1 = nc_bw_bmc_push [0x01, 0x80, 0x3f, t] ?s1"
    by (simp add: nc_bw_bmc_pldm_vndr_def nc_bw_bmc_push_def)
  have l1: "length (bb_buffer ?s1) = length (bb_buffer spi)" and t1: "take 4 (bb_buffer ?s1) = [0x01, 0x00, 0x69, 0xc8]"
    using store_take [of 0 "bb_buffer spi" "[0x01, 0x00, 0x69, 0xc8]"] assms(2) by (simp_all add: numeral_eq_Suc)
  obtain s2 where p: "nc_bw_bmc_push [0x01, 0x80, 0x3f, t] ?s1 = (0, s2)" "bb_comp s2 = bb_comp spi" "length (bb_buffer s2) = length (bb_buffer spi)"
    "unat (bb_pos s2) = 8" "take (unat (bb_pos s2)) (bb_buffer s2) = [0x01, 0x00, 0x69, 0xc8, 0x01, 0x80, 0x3f, t]"
    using push_ok [of ?s1 "[0x01, 0x80, 0x3f, t]"] assms l1 t1 by auto
  obtain s3 where "bw_push_all as s2 = (0, s3)" "bb_comp s3 = bb_comp spi" "length (bb_buffer s3) = length (bb_buffer spi)"
    "unat (bb_pos s3) = 8 + length (concat as)" "take (unat (bb_pos s3)) (bb_buffer s3) = [0x01, 0x00, 0x69, 0xc8, 0x01, 0x80, 0x3f, t] @ concat as"
    using push_all_ok [of s2 as] assms p by auto
  moreover from this have "bb_pos s3 \<noteq> 0" by auto
  ultimately show ?thesis using h v p by (simp add: bw_build_def)
qed


section \<open>Loading an image\<close>

text \<open>The parts of an image with their transfer flags, and the message of a part.\<close>

function bw_parts :: "bool \<Rightarrow> u8 list \<Rightarrow> (u8 \<times> u8 list) list" where
  "bw_parts first data =
     (if length data \<le> 512 then [(bw_transfer_flag first True, data)]
      else (bw_transfer_flag first False, take 512 data) # bw_parts False (drop 512 data))"
  by pat_completeness auto
termination
  by (relation "measure (\<lambda>(f, d). length d)") auto

declare bw_parts.simps [simp del]

definition bw_load_message :: "u32 \<Rightarrow> u8 \<times> u8 list \<Rightarrow> u8 list" where
  "bw_load_message flash_offset part =
     [0x01, 0x00, 0x69, 0xc8, 0x01, 0x80, 0x3f, 0x17, fst part] @ le_bytes flash_offset @ u16_bytes (of_nat (length (snd part))) @ snd part"

lemma parts_data: "concat (map snd (bw_parts first data)) = data"
  by (induction first data rule: bw_parts.induct) (subst bw_parts.simps, simp)

lemma parts_flags:
  "map fst (bw_parts first data) = (if length data \<le> 512 then [bw_transfer_flag first True]
     else bw_transfer_flag first False # replicate (length (bw_parts first data) - 2) 0x01 @ [0x04])"
proof (induction first data rule: bw_parts.induct)
  case (1 first data)
  show ?case
  proof (cases "length data \<le> 512")
    case False
    then have ih: "map fst (bw_parts False (drop 512 data)) = (if length (drop 512 data) \<le> 512 then [0x04]
        else 0x01 # replicate (length (bw_parts False (drop 512 data)) - 2) 0x01 @ [0x04])"
      using 1 by (simp add: bw_transfer_flag_def)
    have "length (bw_parts False (drop 512 data)) = (if length (drop 512 data) \<le> 512 then 1 else Suc (Suc (length (bw_parts False (drop 512 data)) - 2)))"
      using arg_cong [OF ih, of length] by (auto split: if_splits)
    with ih False show ?thesis
      by (auto simp: bw_parts.simps [of first data] split: if_splits) (metis replicate_Suc)
  qed (simp add: bw_parts.simps [of first data])
qed

lemma load_loop_sent:
  assumes "bw_ok (bb_comp spi)" and "15 + min (length rest) 512 \<le> length (bb_buffer spi)" and "length (bb_buffer spi) < 2 ^ 32"
    and "bw_load_loop cb flash first offset rest cc spi pv = (0, spi', pv')"
  shows "bw_step (bb_comp spi) (concat (map (bw_frame 0x11 \<circ> bw_load_message flash) (bw_parts first rest))) (bb_comp spi')"
  using assms
proof (induction cb flash first offset rest cc spi pv rule: bw_load_loop.induct)
  case (1 cb flash first offset rest cc spi pv)
  let ?n = "min (length rest) 512"
  let ?flag = "bw_transfer_flag first (length rest = ?n)"
  let ?args = "[[?flag], le_bytes flash, u16_bytes (of_nat ?n), take ?n rest]"
  have "length (le_bytes flash) = 4" by (simp add: le_bytes_def)
  then obtain s1 where b: "bw_build 0x17 ?args spi = (0, s1)" "bb_comp s1 = bb_comp spi" "length (bb_buffer s1) = length (bb_buffer spi)"
    "bb_pos s1 \<noteq> 0" "take (unat (bb_pos s1)) (bb_buffer s1) = [0x01, 0x00, 0x69, 0xc8, 0x01, 0x80, 0x3f, 0x17] @ concat ?args"
    using build_ok [of spi ?args "0x17"] "1.prems"(2,3) by (auto simp: u16_bytes_def)
  have msg: "take (unat (bb_pos s1)) (bb_buffer s1) = bw_load_message flash (?flag, take ?n rest)"
    by (simp add: b(5) bw_load_message_def)
  obtain r c2 s2 where x: "bw_exchange cc s1 = (r, c2, s2)" using prod_cases3 by blast
  have ne: "bb_buffer s1 \<noteq> []" using b(3) "1.prems"(2) by auto
  have ok1: "bw_ok (bb_comp s1)" using b(2) "1.prems"(1) by simp
  note ex = exchange_step [OF ok1 b(4) ne x, unfolded msg b(2,3)]
  show ?case
  proof (cases "length rest = ?n")
    case True
    have "spi' = s2" using "1.prems"(4) True b(1) x by (simp add: bw_load_loop.simps [of cb flash first] Let_def split: if_splits)
    moreover have "bw_parts first rest = [(?flag, take ?n rest)]" using True by (auto simp: bw_parts.simps [of first rest] min_def split: if_splits)
    ultimately show ?thesis using ex(1) by simp
  next
    case False
    then have n: "?n = 512" "\<not> length rest \<le> 512" by auto
    have rec: "bw_load_loop cb flash False (offset + of_nat ?n) (drop ?n rest) c2 s2 (cb (offset + of_nat ?n) pv) = (0, spi', pv')" "r = 0" "c2 = 0"
      using "1.prems"(4) False b(1) x by (auto simp: bw_load_loop.simps [of cb flash first] Let_def split: if_splits)
    have "bw_step (bb_comp s2) (concat (map (bw_frame 0x11 \<circ> bw_load_message flash) (bw_parts False (drop ?n rest)))) (bb_comp spi')"
      by (rule "1.IH" [OF refl refl b(1) [symmetric] x [symmetric] refl _ _ refl refl])
         (use rec False ex(2) "1.prems"(2,3) bw_step_ok [OF ex(1) "1.prems"(1)] in auto)
    moreover have "bw_parts first rest = (?flag, take ?n rest) # bw_parts False (drop ?n rest)"
      using n by (simp add: bw_parts.simps [of first rest])
    ultimately show ?thesis using bw_step_trans [OF ex(1)] by (simp add: comp_def)
  qed
qed



text \<open>A controller that accepts every request and answers with twenty zeros.\<close>

definition example_bmc_env :: mi_environment where
  "example_bmc_env l a n = Some (if a = 0x1000 + NC_BW_BMC_SPI_RD_CSR then 85
     else if a = 0x1000 + NC_BW_BMC_SPI_RD_FIFO then (if l \<noteq> [] \<and> hd l = MiRead (0x1000 + NC_BW_BMC_SPI_RD_CSR) 4 then 0x11 else 0)
     else 0x20000001)"

definition example_state :: "nc_bw_bmc \<Rightarrow> bool" where
  "example_state spi \<longleftrightarrow> bw_ok (bb_comp spi) \<and> comp_offset (bb_comp spi) = 0x1000 \<and> mi_env (comp_bus (bb_comp spi)) = example_bmc_env \<and>
     \<not> bb_throttle spi \<and> length (bb_buffer spi) = 20"

lemma example_read:
  assumes "example_state spi" and "off \<in> {0, 4, 8, 0xC, 0x10}"
  shows "bb_read32 spi off = (ucast (the (example_bmc_env (co_log (bb_comp spi)) (0x1000 + off) 4)),
    spi\<lparr>bb_comp := with_log (MiRead (0x1000 + off) 4 # co_log (bb_comp spi)) (bb_comp spi)\<rparr>)"
  using bw_in_component [of "bb_comp spi" off] assms
  by (simp add: example_state_def bb_read32_def nfb_comp_read32_def nfb_comp_read_def Let_def with_log_def example_bmc_env_def)

lemma example_step: "spi_step spi ws spi' \<Longrightarrow> example_state spi \<Longrightarrow> example_state spi'"
  using spi_stepD [of spi ws spi'] by (auto simp: example_state_def bw_step_def bw_ok_def)

lemma example_send:
  assumes "example_state spi" and "bytes \<noteq> []"
  shows "fst (nc_bw_bmc_send_raw_frame bytes True True cmd 0x20 spi) = 0"
proof -
  have ok: "bw_ok (bb_comp spi)" using assms(1) by (simp add: example_state_def)
  obtain v s1 where r: "bb_read32 spi NC_BW_BMC_SPI_RD_CSR = (v, s1)" by force
  have q1: "quiet spi s1" using read_quiet [OF ok _ r] by (simp add: bw_regs)
  let ?s2 = "if bit v 0 then nc_bw_bmc_write32 s1 NC_BW_BMC_SPI_RD_CSR (push_bit 14 1) else s1"
  have q2: "quiet spi ?s2" using q1 quiet_trans [OF q1 write_quiet [OF spi_step_ok [OF q1 ok]]] by simp
  let ?s4 = "bw_write_bytes (butlast bytes) (nc_bw_bmc_write32 ?s2 NC_BW_BMC_SPI_WR_FIFO cmd)"
  have w3: "spi_step spi [cmd] (nc_bw_bmc_write32 ?s2 NC_BW_BMC_SPI_WR_FIFO cmd)"
    using spi_step_trans [OF q2 write_fifo_step [OF spi_step_ok [OF q2 ok], of cmd]] by simp
  note w4 = spi_step_trans [OF w3 bytes_step [OF spi_step_ok [OF w3 ok], of "butlast bytes"]]
  let ?s5 = "?s4\<lparr>bb_comp := nfb_comp_write32 (bb_comp ?s4) NC_BW_BMC_SPI_WR_FIFO (ucast (last bytes) OR 0x100)\<rparr>"
  have e5: "example_state ?s5"
    using example_step [OF spi_step_trans [OF w4 raw_fifo_step [OF spi_step_ok [OF w4 ok], of "ucast (last bytes) OR 0x100"]] assms(1)] .
  have "fst (bb_read32 ?s5 NC_BW_BMC_SPI_WR_CSR) = 0x20000001" and "\<not> bb_throttle ?s5"
    using example_read [OF e5, of NC_BW_BMC_SPI_WR_CSR] e5 by (simp_all add: bw_regs example_bmc_env_def example_state_def)
  moreover have "\<not> bit (0x20000001 :: u32) 13" "bit (0x20000001 :: u32) 0" "drop_bit 24 (0x20000001 :: u32) = 0x20" by code_simp+
  ultimately show ?thesis using assms(2) r
    by (simp add: nc_bw_bmc_send_raw_frame_def Let_def split_beta)
qed

lemma example_receive_loop:
  assumes "example_state spi" and "hd (co_log (bb_comp spi)) \<noteq> MiRead (0x1000 + NC_BW_BMC_SPI_RD_CSR) 4" and "\<not> bit st 8"
  shows "\<exists>st' l. bw_receive_loop n st spi = (Some st', replicate n 0, spi\<lparr>bb_comp := with_log l (bb_comp spi)\<rparr>) \<and> \<not> bit st' 8"
  using assms
proof (induction n arbitrary: spi st)
  case 0
  then show ?case by (auto intro!: exI [of _ "co_log (bb_comp spi)"])
next
  case (Suc n)
  let ?s = "spi\<lparr>bb_comp := with_log (MiRead (0x1000 + NC_BW_BMC_SPI_RD_FIFO) 4 # co_log (bb_comp spi)) (bb_comp spi)\<rparr>"
  have r: "bb_read32 spi NC_BW_BMC_SPI_RD_FIFO = (0, ?s)"
    using example_read [OF Suc.prems(1), of NC_BW_BMC_SPI_RD_FIFO] Suc.prems(2) by (simp add: bw_regs example_bmc_env_def)
  have "example_state ?s" "hd (co_log (bb_comp ?s)) \<noteq> MiRead (0x1000 + NC_BW_BMC_SPI_RD_CSR) 4"
    using Suc.prems(1) by (simp_all add: example_state_def bw_ok_def bw_regs)
  from Suc.IH [OF this, of 0] r show ?case by auto
qed

lemma example_receive:
  assumes "example_state spi"
  shows "\<exists>spi'. nc_bw_bmc_receive_mctp spi = (0, spi') \<and> bb_buffer spi' = replicate 20 0 \<and> bb_recv_len spi' = 20"
proof -
  let ?s1 = "spi\<lparr>bb_comp := with_log (MiRead (0x1000 + NC_BW_BMC_SPI_RD_CSR) 4 # co_log (bb_comp spi)) (bb_comp spi)\<rparr>"
  have p: "bw_poll (\<lambda>s. bit s 0) NC_BW_BMC_SPI_RD_CSR 100000 spi = (85, 100000, ?s1)"
    using example_read [OF assms, of NC_BW_BMC_SPI_RD_CSR] by (simp add: bw_poll.simps [of _ _ 100000] bw_regs example_bmc_env_def)
  have e1: "example_state ?s1" using assms by (simp add: example_state_def bw_ok_def)
  let ?s2 = "?s1\<lparr>bb_comp := with_log (MiRead (0x1000 + NC_BW_BMC_SPI_RD_FIFO) 4 # co_log (bb_comp ?s1)) (bb_comp ?s1)\<rparr>"
  have r: "bb_read32 ?s1 NC_BW_BMC_SPI_RD_FIFO = (0x11, ?s2)"
    using example_read [OF e1, of NC_BW_BMC_SPI_RD_FIFO] by (simp add: bw_regs example_bmc_env_def)
  have e2: "example_state ?s2" using e1 by (simp add: example_state_def bw_ok_def)
  have "\<not> bit (0x11 :: u32) 8" by code_simp
  from example_receive_loop [OF e2 _ this, of 20] obtain st l where
    l: "bw_receive_loop 20 0x11 ?s2 = (Some st, replicate 20 0, ?s2\<lparr>bb_comp := with_log l (bb_comp ?s2)\<rparr>)" "\<not> bit st 8"
    by (auto simp: bw_regs)
  have b: "unat (drop_bit 2 85 AND 0x7FF :: u32) = 21" "(0x11 :: u32) AND 0xFF = 0x11" by code_simp+
  show ?thesis using assms l b p r \<open>\<not> bit (0x11 :: u32) 8\<close>
    by (simp add: nc_bw_bmc_receive_mctp_def nc_bw_bmc_receive_def example_state_def Let_def)
qed


end
