(* ===== verification/BwSlots.thy ===== *)
theory BwSlots
  imports BwBmc
begin

text \<open>
  The partition table of BittWare cards: \<open>drivers/kernel/drivers/nfb/boot/bw-bmc.c\<close>.

  The controller keeps a table of images in its flash as text.  The driver parses it, sorts the entries and describes them, with
  the free space between them, as binary slots of the device tree; requests to load an image work on these slots.
\<close>

record bw_file_entry =
  fe_id :: int
  fe_offset :: u32
  fe_size :: int
  fe_priority :: int
  fe_name :: string
  fe_title :: string
  fe_empty :: bool

section \<open>Parsing\<close>

definition ch_digit :: "char \<Rightarrow> bool" where
  "ch_digit c \<longleftrightarrow> 48 \<le> (of_char c :: nat) \<and> (of_char c :: nat) \<le> 57"

definition ch_space :: "char \<Rightarrow> bool" where
  "ch_space c \<longleftrightarrow> (of_char c :: nat) = 32 \<or> 9 \<le> (of_char c :: nat) \<and> (of_char c :: nat) \<le> 13"

definition hex_value :: "char \<Rightarrow> nat option" where
  "hex_value c =
     (let n = of_char c :: nat in
      if 48 \<le> n \<and> n \<le> 57 then Some (n - 48)
      else if 97 \<le> n \<and> n \<le> 102 then Some (n - 87)
      else if 65 \<le> n \<and> n \<le> 70 then Some (n - 55)
      else None)"

text \<open>What \<open>sscanf\<close> makes of a decimal and of a hexadecimal number at the start of the text, cut to 32 bits.\<close>

definition dec_value :: "string \<Rightarrow> nat" where
  "dec_value ds = foldl (\<lambda>v c. 10 * v + (of_char c - 48)) 0 ds"

definition sscanf_dec :: "string \<Rightarrow> int option" where
  "sscanf_dec s =
     (let s = dropWhile ch_space s;
          neg = (s \<noteq> [] \<and> hd s = CHR ''-'');
          ds = takeWhile ch_digit (if neg then tl s else s);
          v = int (dec_value ds)
      in if ds = [] then None else Some (sint (of_int (if neg then - v else v) :: u32)))"

definition sscanf_hex :: "string \<Rightarrow> u32 option" where
  "sscanf_hex s =
     (let s = dropWhile ch_space s;
          s' = (case s of z # x # h # _ \<Rightarrow> if z = CHR ''0'' \<and> (x = CHR ''x'' \<or> x = CHR ''X'') \<and> hex_value h \<noteq> None then drop 2 s else s | _ \<Rightarrow> s);
          ds = takeWhile (\<lambda>c. hex_value c \<noteq> None) s'
      in if ds = [] then None else Some (of_nat (foldl (\<lambda>v c. 16 * v + the (hex_value c)) 0 ds)))"

text \<open>The text before and behind the first occurrence of a character.\<close>

definition cut_at :: "char \<Rightarrow> string \<Rightarrow> (string \<times> string) option" where
  "cut_at c s = (if c \<in> set s then Some (takeWhile (\<lambda>x. x \<noteq> c) s, tl (dropWhile (\<lambda>x. x \<noteq> c) s)) else None)"

definition hex_digit :: "nat \<Rightarrow> char" where
  "hex_digit n = (if n < 10 then char_of (48 + n) else char_of (87 + n))"

definition hex8 :: "u32 \<Rightarrow> string" where
  "hex8 w = map (\<lambda>i. hex_digit (unat (drop_bit (4 * i) w AND 15))) [7, 6, 5, 4, 3, 2, 1, 0]"

text \<open>The left value is the number of the failed step.\<close>

definition nfb_boot_bw_bmc_parse_partition :: "string \<Rightarrow> nat + bw_file_entry \<times> string" where
  "nfb_boot_bw_bmc_parse_partition buffer =
     (case sscanf_dec buffer of None \<Rightarrow> Inl 1 | Some idn \<Rightarrow>
      case cut_at CHR '','' buffer of None \<Rightarrow> Inl 2 | Some (_, bbeg) \<Rightarrow>
      case cut_at CHR '','' bbeg of None \<Rightarrow> Inl 3 | Some (name, bbeg) \<Rightarrow>
      case sscanf_hex bbeg of None \<Rightarrow> Inl 4 | Some offset \<Rightarrow>
      case cut_at CHR '','' bbeg of None \<Rightarrow> Inl 5 | Some (_, bbeg) \<Rightarrow>
      case sscanf_dec bbeg of None \<Rightarrow> Inl 6 | Some size' \<Rightarrow>
      case cut_at CHR '','' bbeg of None \<Rightarrow> Inl 7 | Some (_, bbeg) \<Rightarrow>
      case sscanf_dec bbeg of None \<Rightarrow> Inl 8 | Some priority \<Rightarrow>
      case cut_at (CHR 0x0A) bbeg of None \<Rightarrow> Inl 9 | Some (_, bend) \<Rightarrow>
      let name_prefix = ''0x'' @ hex8 offset @ ''-'';
          title = (if take (length name_prefix) name = name_prefix then drop (length name_prefix) name else name)
      in Inr (\<lparr>fe_id = idn, fe_offset = offset, fe_size = size', fe_priority = priority, fe_name = name, fe_title = title, fe_empty = False\<rparr>, bend))"

lemma cut_at_shorter: "cut_at c s = Some (a, b) \<Longrightarrow> length b < length s"
proof -
  assume "cut_at c s = Some (a, b)"
  then have "c \<in> set s" and b: "b = tl (dropWhile (\<lambda>x. x \<noteq> c) s)" by (auto simp: cut_at_def split: if_splits)
  then have "dropWhile (\<lambda>x. x \<noteq> c) s \<noteq> []" by (auto simp: dropWhile_eq_Nil_conv)
  then show ?thesis using length_dropWhile_le [of "\<lambda>x. x \<noteq> c" s] b by (cases "dropWhile (\<lambda>x. x \<noteq> c) s") auto
qed

lemma parse_shorter: "nfb_boot_bw_bmc_parse_partition s = Inr (e, r) \<Longrightarrow> length r < length s"
  unfolding nfb_boot_bw_bmc_parse_partition_def Let_def
  by (auto split: option.splits prod.splits dest!: cut_at_shorter)

text \<open>The loop over the lines; \<open>n\<close> counts the allocations, one before each line, \<open>ok\<close> tells which succeed.\<close>

function parse_table :: "(nat \<Rightarrow> bool) \<Rightarrow> nat \<Rightarrow> string \<Rightarrow> bw_file_entry list option" where
  "parse_table ok n s =
     (if \<not> ok n then None
      else case nfb_boot_bw_bmc_parse_partition s of
             Inl _ \<Rightarrow> Some []
           | Inr (e, r) \<Rightarrow> map_option (Cons e) (parse_table ok (Suc n) r))"
  by pat_completeness auto
termination
  by (relation "measure (\<lambda>(ok, n, s). length s)") (auto dest: parse_shorter)

declare parse_table.simps [simp del]

section \<open>Binary slots\<close>

record binary_slot =
  sl_node :: "bool \<times> int"
  sl_title :: string
  sl_id :: int
  sl_boot_id :: int
  sl_base :: u32
  sl_size :: u32
  sl_empty :: bool
  sl_priority :: int
  sl_filename :: "string option"
  sl_ro :: bool

text \<open>The name of the node is \<open>empty\<close> or \<open>image\<close> with a number.  The state of the loop is the next number and the two flags.\<close>

definition nfb_boot_bw_bmc_add_partition :: "bool \<Rightarrow> bw_file_entry \<Rightarrow> int \<times> bool \<times> bool \<Rightarrow> binary_slot \<times> int \<times> bool \<times> bool" where
  "nfb_boot_bw_bmc_add_partition recovery_ro p st =
     (case st of (idn, f1, f2) \<Rightarrow>
      let (i, idn, f1, f2) =
            (if fe_empty p then (idn, idn + 1, f1, f2)
             else if fe_offset p = 0 then (1, idn, True, f2)
             else if \<not> f2 then (0, idn, f1, True)
             else (idn, idn + 1, f1, f2))
      in (\<lparr>sl_node = (fe_empty p, i), sl_title = fe_title p, sl_id = i, sl_boot_id = (if fe_empty p then -1 else i), sl_base = fe_offset p,
           sl_size = of_int (fe_size p), sl_empty = fe_empty p, sl_priority = (if fe_empty p then 0 else fe_priority p),
           sl_filename = (if fe_empty p then None else Some (fe_name p)),
           sl_ro = (recovery_ro \<and> fe_title p = ''recovery'' \<or> i = 1 \<and> recovery_ro)\<rparr>, idn, f1, f2))"

definition empty_entry :: "u32 \<Rightarrow> u32 \<Rightarrow> bw_file_entry" where
  "empty_entry offset size' =
     \<lparr>fe_id = 0, fe_offset = offset, fe_size = sint size', fe_priority = 0, fe_name = ''<empty>'', fe_title = ''<empty>'', fe_empty = True\<rparr>"

text \<open>The loop over the sorted entries; \<open>pos\<close> is the start of the free space.\<close>

fun slot_loop :: "bool \<Rightarrow> u32 \<Rightarrow> u32 \<Rightarrow> bw_file_entry list \<Rightarrow> int \<times> bool \<times> bool \<Rightarrow> binary_slot list" where
  "slot_loop ro max_size pos [] st =
     (if pos < max_size then [fst (nfb_boot_bw_bmc_add_partition ro (empty_entry pos (max_size - pos)) st)] else [])"
| "slot_loop ro max_size pos (p # ps) st =
     (case (if pos < fe_offset p then
              case nfb_boot_bw_bmc_add_partition ro (empty_entry pos (fe_offset p - pos)) st of (s, st) \<Rightarrow> ([s], st)
            else ([], st)) of (ss, st) \<Rightarrow>
      case nfb_boot_bw_bmc_add_partition ro p st of (s, st) \<Rightarrow>
      let pos = (fe_offset p + of_int (fe_size p) + 0xFFF) AND NOT 0xFFF
      in ss @ s # slot_loop ro max_size pos ps st)"

definition card_max_size :: "string option \<Rightarrow> u32 option" where
  "card_max_size card_name =
     (case card_name of None \<Rightarrow> None
      | Some n \<Rightarrow> if take 7 n = ''IA-440I'' \<or> take 7 n = ''IA-860M'' then Some 0x10000000 else None)"

text \<open>\<open>ksort\<close> is the sorting routine of the kernel; \<open>found\<close> tells that the device tree has the controller.  Of the device tree only the new
  slots are modelled.\<close>

definition nfb_boot_bw_bmc_load_partition_table ::
  "(bw_file_entry list \<Rightarrow> bw_file_entry list) \<Rightarrow> bool \<Rightarrow> string option \<Rightarrow> bool \<Rightarrow> (nat \<Rightarrow> bool) \<Rightarrow> u8 list \<Rightarrow> nc_bw_bmc
     \<Rightarrow> (int \<times> binary_slot list \<times> nc_bw_bmc) option" where
  "nfb_boot_bw_bmc_load_partition_table ksort recovery_ro card_name found ok buffer spi =
     (case card_max_size card_name of None \<Rightarrow> Some (- ENODEV, [], spi)
      | Some max_size \<Rightarrow>
          if \<not> found then Some (- ENODEV, [], spi)
          else if \<not> ok 0 then Some (- ENOMEM, [], spi)
          else case nc_bw_bmc_download_file ''/fpga/table.csv'' buffer spi of
            None \<Rightarrow> None
          | Some (None, _, _) \<Rightarrow> None
          | Some (Some ret, buffer, spi) \<Rightarrow>
              if ret < 0 then Some (- EPIPE, [], spi)
              else if ret \<ge> int (length buffer) then Some (- ENOMEM, [], spi)
              else case parse_table ok 1 (takeWhile (\<lambda>c. c \<noteq> CHR 0x00) (map (\<lambda>b. char_of (unat b)) (take (nat ret) buffer))) of
                None \<Rightarrow> Some (- ENOMEM, [], spi)
              | Some es \<Rightarrow> Some (0, slot_loop recovery_ro max_size 0 (ksort es) (2, False, False), spi))"


section \<open>The slots describe the flash\<close>

definition entry_end :: "bw_file_entry \<Rightarrow> nat" where
  "entry_end p = unat (fe_offset p) + nat (fe_size p)"

definition slot_end :: "binary_slot \<Rightarrow> nat" where
  "slot_end s = unat (sl_base s) + unat (sl_size s)"

definition page_up :: "nat \<Rightarrow> nat" where
  "page_up n = (n + 4095) div 4096 * 4096"

text \<open>Images that do not overlap and lie in a flash of the given size.\<close>

definition table_ok :: "nat \<Rightarrow> bw_file_entry list \<Rightarrow> bool" where
  "table_ok limit es \<longleftrightarrow> (\<forall>p \<in> set es. \<not> fe_empty p \<and> 0 < fe_size p \<and> entry_end p \<le> limit) \<and>
     sorted_wrt (\<lambda>p q. entry_end p \<le> unat (fe_offset q)) es"

lemma table_ok_Cons:
  "table_ok limit (p # ps) \<Longrightarrow> \<not> fe_empty p \<and> 0 < fe_size p \<and> entry_end p \<le> limit \<and> table_ok limit ps \<and> (\<forall>q \<in> set ps. entry_end p \<le> unat (fe_offset q))"
  by (auto simp: table_ok_def)

lemma page_up_ge: "n \<le> page_up n"
  by (simp add: page_up_def)

lemma unat_size:
  assumes "0 < n" and "n < 2 ^ 31"
  shows "unat (of_int n :: u32) = nat n"
proof -
  have "(of_int n :: u32) = of_nat (nat n)" using assms by simp
  moreover have "nat n < 2 ^ 32" using assms by simp
  ultimately show ?thesis by (simp only: unat_u32_small)
qed

lemma next_pos:
  assumes "0 < fe_size p" and "entry_end p \<le> limit" and "limit \<le> 2 ^ 30"
  shows "unat ((fe_offset p + of_int (fe_size p) + 0xFFF) AND NOT 0xFFF) = page_up (entry_end p)"
    "unat (of_int (fe_size p) :: u32) = nat (fe_size p)"
proof -
  have "nat (fe_size p) \<le> 2 ^ 30" using assms by (simp add: entry_end_def)
  then have "fe_size p < 2 ^ 31" by simp
  then show sz: "unat (of_int (fe_size p) :: u32) = nat (fe_size p)" using unat_size [OF assms(1)] by simp
  have "unat (fe_offset p + of_int (fe_size p) + 0xFFF) = entry_end p + 4095"
    using sz assms(2,3) by (simp add: unat_word_ariths entry_end_def)
  moreover have "(0xFFF :: u32) = mask 12" by (simp add: mask_eq_exp_minus_1)
  ultimately show "unat ((fe_offset p + of_int (fe_size p) + 0xFFF) AND NOT 0xFFF) = page_up (entry_end p)"
    by (simp only: unat_and_not_mask page_up_def) simp
qed

text \<open>What a slot takes over from an entry.\<close>

lemma add_partition_slot:
  assumes "nfb_boot_bw_bmc_add_partition ro p st = (s, st')"
  shows "sl_base s = fe_offset p" "sl_size s = of_int (fe_size p)" "sl_empty s = fe_empty p"
    "\<not> fe_empty p \<Longrightarrow> sl_filename s = Some (fe_name p)"
  using assms by (auto simp: nfb_boot_bw_bmc_add_partition_def split: prod.splits if_splits)

lemma empty_partition_slot:
  assumes "nfb_boot_bw_bmc_add_partition ro (empty_entry a n) st = (s, st')"
  shows "sl_base s = a" "sl_size s = n"
  using add_partition_slot [OF assms] by (simp_all add: empty_entry_def)

lemma empty_slot_end:
  assumes "nfb_boot_bw_bmc_add_partition ro (empty_entry a (b - a)) st = (s, st')" and "a < b"
  shows "slot_end s = unat b" "sl_base s = a"
  using empty_partition_slot [OF assms(1)] assms(2) by (auto simp: slot_end_def unat_sub word_less_nat_alt word_le_nat_alt)

lemma slots_ordered:
  assumes "table_ok limit ps" and "limit = unat max_size" and "limit \<le> 2 ^ 30"
    and "low \<le> unat pos" and "\<forall>q \<in> set ps. low \<le> unat (fe_offset q)"
  shows "sorted_wrt (\<lambda>s t. slot_end s \<le> unat (sl_base t)) (slot_loop ro max_size pos ps st) \<and>
    (\<forall>s \<in> set (slot_loop ro max_size pos ps st). low \<le> unat (sl_base s))"
  using assms(1,4,5)
proof (induction ps arbitrary: pos st low)
  case Nil
  obtain s st' where a: "nfb_boot_bw_bmc_add_partition ro (empty_entry pos (max_size - pos)) st = (s, st')" by (rule prod.exhaust)
  from empty_partition_slot [OF a] a Nil show ?case by auto
next
  case (Cons p ps)
  note ok = table_ok_Cons [OF Cons.prems(1)]
  obtain ss st1 where e: "(if pos < fe_offset p then case nfb_boot_bw_bmc_add_partition ro (empty_entry pos (fe_offset p - pos)) st of (s, st) \<Rightarrow> ([s], st)
      else ([], st)) = (ss, st1)" by (rule prod.exhaust)
  have ss: "\<forall>s \<in> set ss. low \<le> unat (sl_base s) \<and> slot_end s = unat (fe_offset p)" "length ss \<le> 1"
    using e Cons.prems(2) by (auto split: if_splits prod.splits dest: empty_slot_end)
  obtain s st2 where a: "nfb_boot_bw_bmc_add_partition ro p st1 = (s, st2)" by (rule prod.exhaust)
  let ?pos = "(fe_offset p + of_int (fe_size p) + 0xFFF) AND NOT 0xFFF :: u32"
  have np: "unat ?pos = page_up (entry_end p)" "unat (of_int (fe_size p) :: u32) = nat (fe_size p)"
    using next_pos [of p limit] ok assms(3) by simp_all
  have se: "slot_end s = entry_end p" "sl_base s = fe_offset p"
    using add_partition_slot [OF a] np(2) by (simp_all add: slot_end_def entry_end_def)
  have ih: "sorted_wrt (\<lambda>s t. slot_end s \<le> unat (sl_base t)) (slot_loop ro max_size ?pos ps st2)"
    "\<forall>t \<in> set (slot_loop ro max_size ?pos ps st2). entry_end p \<le> unat (sl_base t)"
    using Cons.IH [of "entry_end p" ?pos st2] ok np(1) page_up_ge by auto
  have "unat (fe_offset p) \<le> entry_end p" by (simp add: entry_end_def)
  moreover have "slot_loop ro max_size pos (p # ps) st = ss @ s # slot_loop ro max_size ?pos ps st2" using e a by (simp add: Let_def)
  moreover have "low \<le> unat (fe_offset p)" using Cons.prems(3) by simp
  ultimately show ?case using ih se ss by (cases ss) (fastforce simp: le_Suc_eq)+
qed


text \<open>The numbers a state of the loop can still give out.\<close>

definition fresh_ids :: "int \<times> bool \<times> bool \<Rightarrow> bool \<Rightarrow> int set" where
  "fresh_ids st zero = (case st of (idn, f1, f2) \<Rightarrow> {i. idn \<le> i} \<union> (if f2 then {} else {0}) \<union> (if zero then {1} else {}))"

lemma add_partition_id:
  assumes "nfb_boot_bw_bmc_add_partition ro p st = (s, st')" and "2 \<le> fst st"
  shows "sl_id s \<in> fresh_ids st (\<not> fe_empty p \<and> fe_offset p = 0)" "sl_id s \<notin> fresh_ids st' False" "2 \<le> fst st'"
    "fresh_ids st' False \<subseteq> fresh_ids st False" "sl_id s = 1 \<Longrightarrow> \<not> fe_empty p \<and> fe_offset p = 0"
  using assms by (auto simp: nfb_boot_bw_bmc_add_partition_def fresh_ids_def split: prod.splits if_splits)

lemma slots_ids:
  assumes "table_ok limit ps" and "2 \<le> fst st"
  shows "distinct (map sl_id (slot_loop ro max_size pos ps st)) \<and>
    sl_id ` set (slot_loop ro max_size pos ps st) \<subseteq> fresh_ids st (\<exists>q \<in> set ps. fe_offset q = 0)"
  using assms
proof (induction ps arbitrary: pos st)
  case Nil
  obtain s st' where a: "nfb_boot_bw_bmc_add_partition ro (empty_entry pos (max_size - pos)) st = (s, st')" by (rule prod.exhaust)
  from add_partition_id(1) [OF a Nil(2)] a show ?case by (auto simp: empty_entry_def)
next
  case (Cons p ps)
  note ok = table_ok_Cons [OF Cons.prems(1)]
  obtain ss st1 where e: "(if pos < fe_offset p then case nfb_boot_bw_bmc_add_partition ro (empty_entry pos (fe_offset p - pos)) st of (s, st) \<Rightarrow> ([s], st)
      else ([], st)) = (ss, st1)" by (rule prod.exhaust)
  have ss: "\<forall>x \<in> set ss. sl_id x \<in> fresh_ids st False \<and> sl_id x \<notin> fresh_ids st1 False \<and> sl_id x \<noteq> 1" "length ss \<le> 1" "2 \<le> fst st1"
    "fresh_ids st1 False \<subseteq> fresh_ids st False"
    using e Cons.prems(2) add_partition_id [of ro "empty_entry pos (fe_offset p - pos)" st]
    by (auto simp: empty_entry_def split: if_splits prod.splits)
  obtain s st2 where a: "nfb_boot_bw_bmc_add_partition ro p st1 = (s, st2)" by (rule prod.exhaust)
  note ids = add_partition_id [OF a ss(3)]
  let ?pos = "(fe_offset p + of_int (fe_size p) + 0xFFF) AND NOT 0xFFF :: u32"
  let ?rest = "slot_loop ro max_size ?pos ps st2"
  have "0 < entry_end p" using ok by (simp add: entry_end_def)
  then have "\<forall>q \<in> set ps. fe_offset q \<noteq> 0" using ok by auto
  then have ih: "distinct (map sl_id ?rest)" "sl_id ` set ?rest \<subseteq> fresh_ids st2 False"
    using Cons.IH [of st2 ?pos] ok ids(3) by auto
  have eq: "slot_loop ro max_size pos (p # ps) st = ss @ s # ?rest" using e a by (simp add: Let_def)
  have one: "fresh_ids st' True = insert 1 (fresh_ids st' False)" for st' by (auto simp: fresh_ids_def split: prod.splits)
  have sid: "sl_id s \<in> insert 1 (fresh_ids st1 False)" using ids(1) one by (cases "\<not> fe_empty p \<and> fe_offset p = 0") auto
  have sub: "fresh_ids st False \<subseteq> fresh_ids st z" for z by (auto simp: fresh_ids_def split: prod.splits)
  have d1: "distinct (map sl_id ss)" using ss(2) by (cases ss) auto
  have nx: "sl_id x \<noteq> sl_id s" "sl_id x \<notin> sl_id ` set ?rest" if "x \<in> set ss" for x
  proof -
    have nx: "sl_id x \<notin> fresh_ids st1 False" "sl_id x \<noteq> 1" using ss(1) that by simp_all
    show "sl_id x \<noteq> sl_id s"
    proof
      assume "sl_id x = sl_id s"
      with sid have "sl_id x \<in> insert 1 (fresh_ids st1 False)" by (simp only:)
      with nx show False by simp
    qed
    show "sl_id x \<notin> sl_id ` set ?rest" using nx(1) subset_trans [OF ih(2) ids(4)] by (meson subsetD)
  qed
  have "sl_id s \<notin> sl_id ` set ss" using nx(1) by fastforce
  moreover have "sl_id ` set ss \<inter> sl_id ` set ?rest = {}" using nx(2) by (auto simp only: disjoint_iff)
  moreover have "sl_id s \<notin> sl_id ` set ?rest" using ids(2) ih(2) by (meson subsetD)
  ultimately have "distinct (map sl_id (ss @ s # ?rest))" using ih(1) d1
    by (simp only: map_append list.map distinct_append distinct.simps set_map list.set insert_disjoint Int_insert_right if_False)
       simp
  moreover have "sl_id s \<in> fresh_ids st (\<exists>q \<in> set (p # ps). fe_offset q = 0)"
  proof (cases "sl_id s = 1")
    case True
    then have "\<exists>q \<in> set (p # ps). fe_offset q = 0" using ids(5) by auto
    then show ?thesis using one [of st] True by simp
  next
    case False
    then have "sl_id s \<in> fresh_ids st1 False" using sid by simp
    then show ?thesis by (rule subsetD [OF subset_trans [OF ss(4) sub]])
  qed
  moreover have "sl_id ` set ss \<union> sl_id ` set ?rest \<subseteq> fresh_ids st (\<exists>q \<in> set (p # ps). fe_offset q = 0)"
  proof (rule Un_least)
    show "sl_id ` set ss \<subseteq> fresh_ids st (\<exists>q \<in> set (p # ps). fe_offset q = 0)"
      using ss(1) subsetD [OF sub] by (meson image_subsetI)
    show "sl_id ` set ?rest \<subseteq> fresh_ids st (\<exists>q \<in> set (p # ps). fe_offset q = 0)"
      by (rule subset_trans [OF ih(2) subset_trans [OF ids(4) subset_trans [OF ss(4) sub]]])
  qed
  ultimately show ?case unfolding eq by auto
qed

lemma slots_cover:
  assumes "table_ok limit ps" and "limit = unat max_size" and "limit \<le> 2 ^ 30" and "unat pos \<le> a" and "a < limit"
  shows "\<exists>s \<in> set (slot_loop ro max_size pos ps st). unat (sl_base s) \<le> a \<and> a < page_up (slot_end s)"
  using assms(1,4)
proof (induction ps arbitrary: pos st)
  case Nil
  then have lt: "pos < max_size" using assms(2,5) by (simp add: word_less_nat_alt)
  obtain s st' where s: "nfb_boot_bw_bmc_add_partition ro (empty_entry pos (max_size - pos)) st = (s, st')" by (rule prod.exhaust)
  from empty_slot_end [OF s lt] s lt Nil assms(2,5) page_up_ge [of "unat max_size"] show ?case by auto
next
  case (Cons p ps)
  note ok = table_ok_Cons [OF Cons.prems(1)]
  obtain ss st1 where e: "(if pos < fe_offset p then case nfb_boot_bw_bmc_add_partition ro (empty_entry pos (fe_offset p - pos)) st of (s, st) \<Rightarrow> ([s], st)
      else ([], st)) = (ss, st1)" by (rule prod.exhaust)
  obtain s st2 where b: "nfb_boot_bw_bmc_add_partition ro p st1 = (s, st2)" by (rule prod.exhaust)
  let ?pos = "(fe_offset p + of_int (fe_size p) + 0xFFF) AND NOT 0xFFF :: u32"
  have np: "unat ?pos = page_up (entry_end p)" "unat (of_int (fe_size p) :: u32) = nat (fe_size p)"
    using next_pos [of p limit] ok assms(3) by simp_all
  have se: "slot_end s = entry_end p" "sl_base s = fe_offset p"
    using add_partition_slot [OF b] np(2) by (simp_all add: slot_end_def entry_end_def)
  have eq: "slot_loop ro max_size pos (p # ps) st = ss @ s # slot_loop ro max_size ?pos ps st2" using e b by (simp add: Let_def)
  consider "a < unat (fe_offset p)" | "unat (fe_offset p) \<le> a" "a < page_up (entry_end p)" | "page_up (entry_end p) \<le> a" by linarith
  then show ?case
  proof cases
    case 1
    then have lt: "pos < fe_offset p" using Cons.prems(2) by (simp add: word_less_nat_alt)
    obtain x st' where x: "nfb_boot_bw_bmc_add_partition ro (empty_entry pos (fe_offset p - pos)) st = (x, st')" by (rule prod.exhaust)
    with e lt have "ss = [x]" by simp
    with empty_slot_end [OF x lt] 1 Cons.prems(2) page_up_ge [of "unat (fe_offset p)"] show ?thesis unfolding eq by auto
  next
    case 2
    with se show ?thesis unfolding eq by auto
  next
    case 3
    with Cons.IH [of ?pos st2] ok np(1) show ?thesis unfolding eq by auto
  qed
qed

lemma slots_entries:
  assumes "p \<in> set ps" and "\<forall>q \<in> set ps. \<not> fe_empty q"
  shows "\<exists>s \<in> set (slot_loop ro max_size pos ps st). sl_base s = fe_offset p \<and> sl_size s = of_int (fe_size p) \<and> sl_filename s = Some (fe_name p)"
  using assms
proof (induction ps arbitrary: pos st)
  case (Cons q ps)
  obtain ss st1 where e: "(if pos < fe_offset q then case nfb_boot_bw_bmc_add_partition ro (empty_entry pos (fe_offset q - pos)) st of (s, st) \<Rightarrow> ([s], st)
      else ([], st)) = (ss, st1)" by (rule prod.exhaust)
  obtain s st2 where b: "nfb_boot_bw_bmc_add_partition ro q st1 = (s, st2)" by (rule prod.exhaust)
  obtain pos' where eq: "slot_loop ro max_size pos (q # ps) st = ss @ s # slot_loop ro max_size pos' ps st2"
    using e b by (simp add: Let_def)
  show ?case
  proof (cases "p = q")
    case True
    with add_partition_slot [OF b] Cons.prems(2) show ?thesis unfolding eq by auto
  next
    case False
    with Cons.IH [of pos' st2] Cons.prems show ?thesis unfolding eq by auto
  qed
qed simp

text \<open>C20.  The binary slots that the driver derives from the partition table describe the flash
  exactly: when the images in the table do not overlap and lie in the flash, the slots have distinct numbers, do not overlap either, every image has
  its slot with its position, size and file name, and every byte of the flash belongs to a slot or to the last page of one.\<close>

theorem bw_slots_describe_flash:
  assumes "\<And>xs. mset (ksort xs) = mset xs" and "\<And>xs. sorted (map fe_offset (ksort xs))"
    and "\<forall>p \<in> set es. \<not> fe_empty p \<and> 0 < fe_size p \<and> entry_end p \<le> unat max_size"
    and "\<forall>p \<in> set es. \<forall>q \<in> set es. fe_offset p < fe_offset q \<longrightarrow> entry_end p \<le> unat (fe_offset q)"
    and "distinct (map fe_offset es)" and "unat max_size \<le> 2 ^ 30"
  shows "let slots = slot_loop ro max_size 0 (ksort es) (2, False, False) in distinct (map sl_id slots) \<and> sorted_wrt (\<lambda>s t. slot_end s \<le> unat (sl_base t)) slots \<and>
    (\<forall>p \<in> set es. \<exists>s \<in> set slots. sl_base s = fe_offset p \<and> sl_size s = of_int (fe_size p) \<and> sl_filename s = Some (fe_name p)) \<and>
    (\<forall>a < unat max_size. \<exists>s \<in> set slots. unat (sl_base s) \<le> a \<and> a < page_up (slot_end s))"
proof -
  have set: "set (ksort es) = set es" using assms(1) by (metis set_mset_mset)
  have "mset (map fe_offset (ksort es)) = mset (map fe_offset es)" using assms(1) [of es] by simp
  then have "distinct (map fe_offset (ksort es))" using assms(5) by (metis mset_eq_imp_distinct_iff)
  then have "sorted_wrt (<) (map fe_offset (ksort es))" using assms(2) [of es] by (simp add: strict_sorted_iff)
  then have "sorted_wrt (\<lambda>p q. fe_offset p < fe_offset q) (ksort es)" by (simp add: sorted_wrt_map)
  then have "sorted_wrt (\<lambda>p q. entry_end p \<le> unat (fe_offset q)) (ksort es)"
    by (rule sorted_wrt_mono_rel [rotated]) (use assms(4) set in auto)
  then have ok: "table_ok (unat max_size) (ksort es)" using assms(3) set by (simp add: table_ok_def)
  show ?thesis unfolding Let_def
    using slots_ids [OF ok, of "(2, False, False)" ro max_size 0]
      slots_ordered [OF ok refl assms(6), of 0 0 ro "(2, False, False)"]
      slots_cover [OF ok refl assms(6), of 0 _ ro "(2, False, False)"]
      slots_entries [of _ "ksort es" ro max_size 0 "(2, False, False)"] set assms(3)
    by simp
qed


definition example_entry :: "u32 \<Rightarrow> int \<Rightarrow> string \<Rightarrow> bw_file_entry" where
  "example_entry off sz name = \<lparr>fe_id = 0, fe_offset = off, fe_size = sz, fe_priority = 0, fe_name = name, fe_title = name, fe_empty = False\<rparr>"

theorem bw_slots_describe_flash_witness:
  "\<exists>s \<in> set (slot_loop True 0x10000000 0 (sort_key fe_offset [example_entry 0x100000 0x2345 ''b'', example_entry 0 0x1000 ''a'']) (2, False, False)).
     unat (sl_base s) \<le> 0x50000 \<and> 0x50000 < page_up (slot_end s)"
proof -
  let ?es = "[example_entry 0x100000 0x2345 ''b'', example_entry 0 0x1000 ''a'']"
  have "(\<forall>p \<in> set ?es. \<not> fe_empty p \<and> 0 < fe_size p \<and> entry_end p \<le> unat (0x10000000 :: u32)) \<and>
    (\<forall>p \<in> set ?es. \<forall>q \<in> set ?es. fe_offset p < fe_offset q \<longrightarrow> entry_end p \<le> unat (fe_offset q)) \<and> distinct (map fe_offset ?es)"
    by (simp add: example_entry_def entry_end_def)
  then show ?thesis
    using bw_slots_describe_flash [of "sort_key fe_offset" ?es "0x10000000" True] by (auto simp: Let_def)
qed

section \<open>Requests to the boot driver\<close>

definition NFB_BOOT_IOC_LOAD_CMD_ERASE :: u64 where "NFB_BOOT_IOC_LOAD_CMD_ERASE = 1"
definition NFB_BOOT_IOC_LOAD_CMD_WRITE :: u64 where "NFB_BOOT_IOC_LOAD_CMD_WRITE = 2"
definition NFB_BOOT_IOC_LOAD_CMD_PRIORITY :: u64 where "NFB_BOOT_IOC_LOAD_CMD_PRIORITY = 4"

record boot_load =
  bl_start_ops :: u32
  bl_done_ops :: u32
  bl_pending_ops :: u32
  bl_current_op :: u32
  bl_progress_max :: u32
  bl_progress :: u32

text \<open>The state of the boot driver as far as the controller is concerned: the controller, the slots in the order of the device tree and
  the progress of a load.\<close>

record bw_boot =
  bo_bmc :: nc_bw_bmc
  bo_slots :: "binary_slot list"
  bo_load :: boot_load

text \<open>The parameters of the partition table: the sorting routine, the read-only flag, the card, the buffer and the allocations.\<close>

record bw_world =
  bw_ksort :: "bw_file_entry list \<Rightarrow> bw_file_entry list"
  bw_recovery_ro :: bool
  bw_card_name :: "string option"
  bw_ok_alloc :: "nat \<Rightarrow> bool"
  bw_table_buffer :: "u8 list"

text \<open>The old slots are removed first, whatever becomes of the new ones.\<close>

definition nfb_boot_bw_bmc_update_binary_slots :: "bw_world \<Rightarrow> bw_boot \<Rightarrow> bw_boot option" where
  "nfb_boot_bw_bmc_update_binary_slots w boot =
     map_option (\<lambda>(_, slots, spi). boot\<lparr>bo_slots := slots, bo_bmc := spi\<rparr>)
       (nfb_boot_bw_bmc_load_partition_table (bw_ksort w) (bw_recovery_ro w) (bw_card_name w) True (bw_ok_alloc w) (bw_table_buffer w) (bo_bmc boot))"

text \<open>One item of the priority file for every pair of a slot and a request that names it.\<close>

fun prio_items :: "bool \<Rightarrow> (u64 \<times> u64) list \<Rightarrow> binary_slot list \<Rightarrow> (int, u8 list) sum" where
  "prio_items alloc prios [] = Inr []"
| "prio_items alloc prios (s # ss) =
     (let wanted = filter (\<lambda>(pid, _). pid = ucast (of_int (sl_id s) :: u32)) prios
      in if wanted = [] then prio_items alloc prios ss
         else case sl_filename s of None \<Rightarrow> Inl (- ENODEV)
              | Some name \<Rightarrow>
                  if \<not> alloc then Inl (- ENOMEM)
                  else
                  (case prio_items alloc prios ss of Inl e \<Rightarrow> Inl e
                   | Inr bs \<Rightarrow> Inr (concat (map (\<lambda>(_, val). str_bytes name @ [0, ucast val, 10]) wanted) @ bs)))"

text \<open>\<open>prios\<close> is the data of the request, None when its size is not a multiple of an item; \<open>alloc\<close> tells whether the memory suffices.
  The left value None of the code is the fault of the upload.\<close>

definition nfb_boot_bw_bmc_set_priority :: "bool \<Rightarrow> (u64 \<times> u64) list option \<Rightarrow> bw_boot \<Rightarrow> int option \<times> bw_boot" where
  "nfb_boot_bw_bmc_set_priority alloc prios boot =
     (case prios of None \<Rightarrow> (Some (- EINVAL), boot)
      | Some prios \<Rightarrow>
          case prio_items alloc prios (bo_slots boot) of
            Inl e \<Rightarrow> (Some e, boot)
          | Inr bs \<Rightarrow>
              if \<not> alloc then (Some (- ENOMEM), boot)
              else case nc_bw_bmc_file_upload ''/fpga/priority.txt'' (bs @ [0, 255, 10]) (bo_bmc boot) of
                (ret, spi) \<Rightarrow> (ret, boot\<lparr>bo_bmc := spi\<rparr>))"

text \<open>The search for a slot with a priority, or else for the first slot with number one.\<close>

fun fallback_scan :: "binary_slot list \<Rightarrow> bool \<times> int" where
  "fallback_scan [] = (False, -1)"
| "fallback_scan (s # ss) =
     (if \<not> sl_empty s \<and> sl_priority s \<noteq> -1 then (True, -1)
      else if sl_id s = 1 then (False, 1)
      else if ss = [] then (False, sl_id s)
      else fallback_scan ss)"

definition set_fallback_priority :: "bw_world \<Rightarrow> bool \<Rightarrow> bw_boot \<Rightarrow> bw_boot option" where
  "set_fallback_priority w alloc boot =
     (case fallback_scan (bo_slots boot) of (has_priority, idn) \<Rightarrow>
        if \<not> has_priority \<and> idn = 1 then nfb_boot_bw_bmc_update_binary_slots w (snd (nfb_boot_bw_bmc_set_priority alloc (Some [(1, 0)]) boot))
        else Some boot)"

record bw_load_req =
  lr_cmd :: u64
  lr_data :: "u8 list"
  lr_prios :: "(u64 \<times> u64) list option"
  lr_node :: "nat option"
  lr_name :: string

text \<open>The space for an image: the slot and the empty slot that follows it.\<close>

fun bw_room :: "u32 \<Rightarrow> u32 \<Rightarrow> binary_slot list \<Rightarrow> u32" where
  "bw_room offset size' [] = size'"
| "bw_room offset size' (t # ts) =
     (if (offset + size' + 0xFFF) AND NOT 0xFFF = sl_base t \<and> sl_empty t then size' + sl_size t else bw_room offset size' ts)"

definition load_op :: "u64 \<Rightarrow> bw_boot \<Rightarrow> bw_boot" where
  "load_op op boot = boot\<lparr>bo_load := (bo_load boot)\<lparr>bl_current_op := ucast op\<rparr>\<rparr>"

text \<open>The end of the function after an error.\<close>

definition bw_load_err :: "bw_world \<Rightarrow> bool \<Rightarrow> int \<Rightarrow> bw_boot \<Rightarrow> (int \<times> bw_boot) option" where
  "bw_load_err w update_nodes ret boot =
     (let boot = load_op 0 boot in
      if update_nodes then map_option (Pair ret) (nfb_boot_bw_bmc_update_binary_slots w boot) else Some (ret, boot))"

definition nfb_boot_bw_bmc_load_cb :: "u32 \<Rightarrow> boot_load \<Rightarrow> boot_load" where
  "nfb_boot_bw_bmc_load_cb offset bl = bl\<lparr>bl_progress := offset\<rparr>"

definition bw_load_write :: "bw_world \<Rightarrow> bool \<Rightarrow> bw_load_req \<Rightarrow> u32 \<Rightarrow> bool \<Rightarrow> bw_boot \<Rightarrow> (int \<times> bw_boot) option" where
  "bw_load_write w alloc load offset updated boot =
     (if lr_cmd load AND NFB_BOOT_IOC_LOAD_CMD_WRITE \<noteq> 0 then
        let boot = load_op NFB_BOOT_IOC_LOAD_CMD_WRITE boot;
            boot = boot\<lparr>bo_load := (bo_load boot)\<lparr>bl_progress_max := of_nat (length (lr_data load))\<rparr>\<rparr>
        in case nc_bw_bmc_fpga_load_ext (lr_data load) offset nfb_boot_bw_bmc_load_cb (bo_bmc boot) (bo_load boot) of (ret, spi, bl) \<Rightarrow>
          let boot = boot\<lparr>bo_bmc := spi, bo_load := bl\<rparr> in
          if ret \<noteq> 0 then bw_load_err w updated ret boot
          else if \<not> alloc then bw_load_err w updated (- ENOMEM) boot
          else case nc_bw_bmc_file_move (''/fpga/'' @ hex8 offset) (''/fpga/0x'' @ hex8 offset @ ''-'' @ lr_name load) (bo_bmc boot) of (ret, spi) \<Rightarrow>
            let boot = boot\<lparr>bo_bmc := spi\<rparr> in
            if ret \<noteq> 0 then bw_load_err w updated ret boot
            else case nfb_boot_bw_bmc_update_binary_slots w (load_op 0 boot) of None \<Rightarrow> None
                 | Some boot \<Rightarrow> map_option (Pair 0) (set_fallback_priority w alloc boot)
      else case (if updated then nfb_boot_bw_bmc_update_binary_slots w (load_op 0 boot) else Some (load_op 0 boot)) of None \<Rightarrow> None
           | Some boot \<Rightarrow> map_option (Pair 0) (set_fallback_priority w alloc boot))"

text \<open>The neighbours are searched in the order of the device tree, the slot itself left out.\<close>

definition nfb_boot_bw_bmc_load :: "bw_world \<Rightarrow> bool \<Rightarrow> bw_load_req \<Rightarrow> bw_boot \<Rightarrow> (int \<times> bw_boot) option" where
  "nfb_boot_bw_bmc_load w alloc load boot =
     (if lr_cmd load = NFB_BOOT_IOC_LOAD_CMD_PRIORITY then
        case nfb_boot_bw_bmc_set_priority alloc (lr_prios load) boot of
          (None, boot) \<Rightarrow> None
        | (Some ret, boot) \<Rightarrow>
            if ret \<noteq> 0 then Some (ret, boot) else map_option (Pair 0) (nfb_boot_bw_bmc_update_binary_slots w boot)
      else case lr_node load of None \<Rightarrow> Some (- EINVAL, boot)
      | Some i \<Rightarrow>
          if i \<ge> length (bo_slots boot) then Some (- EINVAL, boot)
          else
            let s = bo_slots boot ! i;
                others = take i (bo_slots boot) @ drop (Suc i) (bo_slots boot)
            in if unat (bw_room (sl_base s) (sl_size s) others) < length (lr_data load) then Some (- ENOMEM, boot)
               else
                 let boot = boot\<lparr>bo_load := (bo_load boot)\<lparr>bl_start_ops := ucast (lr_cmd load), bl_pending_ops := ucast (lr_cmd load)\<rparr>\<rparr>
                 in if lr_cmd load AND NFB_BOOT_IOC_LOAD_CMD_ERASE \<noteq> 0 then
                      (case sl_filename s of
                         Some name \<Rightarrow>
                           if sl_empty s then bw_load_err w False (- EINVAL) boot
                           else
                             let boot = load_op NFB_BOOT_IOC_LOAD_CMD_ERASE boot;
                                 boot = boot\<lparr>bo_load := (bo_load boot)\<lparr>bl_progress_max := 1, bl_progress := 0\<rparr>\<rparr>
                             in if \<not> alloc then bw_load_err w False (- ENOMEM) boot
                                else case nc_bw_bmc_file_unlink 0 (''/fpga/'' @ name) (bo_bmc boot) of (ret, spi) \<Rightarrow>
                                  let boot = boot\<lparr>bo_bmc := spi\<rparr> in
                                  if ret \<noteq> 0 then bw_load_err w False ret boot
                                  else bw_load_write w alloc load (sl_base s) True (boot\<lparr>bo_load := (bo_load boot)\<lparr>bl_progress := 1\<rparr>\<rparr>)
                       | None \<Rightarrow> bw_load_err w False (- EINVAL) boot)
                    else if \<not> sl_empty s then bw_load_err w False (- EINVAL) boot
                    else bw_load_write w alloc load (sl_base s) False boot)"

definition nfb_boot_bw_bmc_reload :: "int \<Rightarrow> bw_boot \<Rightarrow> int \<times> bw_boot" where
  "nfb_boot_bw_bmc_reload num_image boot =
     (case find (\<lambda>s. (of_int (sl_boot_id s) :: u32) = of_int num_image) (bo_slots boot) of
        None \<Rightarrow> (- ENODEV, boot)
      | Some s \<Rightarrow>
          (case sl_filename s of None \<Rightarrow> (- ENODEV, boot)
           | Some f \<Rightarrow> (case nc_bw_bmc_send_reload f (bo_bmc boot) of (ret, spi) \<Rightarrow> (ret, boot\<lparr>bo_bmc := spi\<rparr>))))"


section \<open>An image never overlaps another one\<close>

lemma room_cases:
  "bw_room offset size' ts = size' \<or>
   (\<exists>t \<in> set ts. (offset + size' + 0xFFF) AND NOT 0xFFF = sl_base t \<and> sl_empty t \<and> bw_room offset size' ts = size' + sl_size t)"
  by (induction ts) auto

lemma page_up_word:
  assumes "unat x + 4095 < 2 ^ 32"
  shows "unat ((x + 0xFFF) AND NOT 0xFFF :: u32) = page_up (unat x)"
proof -
  have "unat (x + 0xFFF) = unat x + 4095" using assms by (simp add: unat_word_ariths)
  moreover have "(0xFFF :: u32) = mask 12" by (simp add: mask_eq_exp_minus_1)
  ultimately show ?thesis by (simp only: unat_and_not_mask page_up_def) simp
qed

lemma page_up_least: "n \<le> m \<Longrightarrow> 4096 dvd m \<Longrightarrow> page_up n \<le> m"
  by (auto simp: page_up_def elim!: dvdE)

text \<open>The order of the list tells which of two slots lies in front of the other.\<close>

lemma slots_apart:
  assumes "sorted_wrt (\<lambda>s t. slot_end s \<le> unat (sl_base t)) ss" and "i < length ss" and "j < length ss" and "i \<noteq> j"
  shows "slot_end (ss ! i) \<le> unat (sl_base (ss ! j)) \<or> slot_end (ss ! j) \<le> unat (sl_base (ss ! i))"
  using assms by (cases "i < j") (auto simp: sorted_wrt_iff_nth_less)

lemma others_nth:
  assumes "t \<in> set (take i ss @ drop (Suc i) ss)"
  shows "\<exists>k < length ss. k \<noteq> i \<and> ss ! k = t"
proof -
  consider "t \<in> set (take i ss)" | "t \<in> set (drop (Suc i) ss)" using assms by auto
  then show ?thesis
  proof cases
    case 1
    then obtain k where "k < length (take i ss)" "take i ss ! k = t" by (auto simp only: in_set_conv_nth)
    then show ?thesis by (intro exI [of _ k]) simp
  next
    case 2
    then obtain m where "m < length (drop (Suc i) ss)" "drop (Suc i) ss ! m = t" by (auto simp only: in_set_conv_nth)
    then show ?thesis by (intro exI [of _ "Suc i + m"]) simp
  qed
qed

text \<open>C19.  A request to load an image never destroys another one.  For slots that do not overlap and begin at
  pages, the space that \<open>nfb_boot_bw_bmc_load\<close> grants, the slot and the empty one behind it, is apart from every other image; a request with more
  data is refused without any access to the controller.\<close>

theorem bw_load_keeps_images:
  assumes "sorted_wrt (\<lambda>s t. slot_end s \<le> unat (sl_base t)) (bo_slots boot)"
    and "\<forall>s \<in> set (bo_slots boot). 4096 dvd unat (sl_base s) \<and> slot_end s \<le> 2 ^ 30"
    and "i < length (bo_slots boot)" and "j < length (bo_slots boot)" and "i \<noteq> j"
    and "\<not> sl_empty (bo_slots boot ! j)" and "0 < sl_size (bo_slots boot ! j)"
  shows "let s = bo_slots boot ! i; t = bo_slots boot ! j;
      room = bw_room (sl_base s) (sl_size s) (take i (bo_slots boot) @ drop (Suc i) (bo_slots boot)) in
    (unat (sl_base s) + unat room \<le> unat (sl_base t) \<or> slot_end t \<le> unat (sl_base s)) \<and>
    (\<forall>w alloc load. lr_cmd load \<noteq> NFB_BOOT_IOC_LOAD_CMD_PRIORITY \<longrightarrow> lr_node load = Some i \<longrightarrow>
      unat room < length (lr_data load) \<longrightarrow> nfb_boot_bw_bmc_load w alloc load boot = Some (- ENOMEM, boot))"
proof -
  define s t where "s = bo_slots boot ! i" and "t = bo_slots boot ! j"
  let ?ss = "bo_slots boot" and ?os = "take i (bo_slots boot) @ drop (Suc i) (bo_slots boot)"
  have apart: "slot_end s \<le> unat (sl_base t) \<or> slot_end t \<le> unat (sl_base s)"
    using slots_apart [OF assms(1,3,4,5)] by (simp add: s_def t_def)
  have lim: "slot_end s \<le> 2 ^ 30" "4096 dvd unat (sl_base t)" using assms(2-4) by (simp_all add: s_def t_def)
  have "let room = bw_room (sl_base s) (sl_size s) ?os in unat (sl_base s) + unat room \<le> unat (sl_base t) \<or> slot_end t \<le> unat (sl_base s)"
  proof (cases "bw_room (sl_base s) (sl_size s) ?os = sl_size s")
    case True
    with apart show ?thesis by (simp add: slot_end_def)
  next
    case False
    then obtain n where n: "n \<in> set ?os" "(sl_base s + sl_size s + 0xFFF) AND NOT 0xFFF = sl_base n" "sl_empty n"
      "bw_room (sl_base s) (sl_size s) ?os = sl_size s + sl_size n"
      using room_cases [of "sl_base s" "sl_size s" ?os] by blast
    obtain k where k: "k < length ?ss" "?ss ! k = n" using others_nth [OF n(1)] by blast
    then have "k \<noteq> j" using n(3) assms(6) by auto
    from slots_apart [OF assms(1) k(1) assms(4) this] k(2)
    have ap: "slot_end n \<le> unat (sl_base t) \<or> slot_end t \<le> unat (sl_base n)" by (simp add: t_def)
    have ends: "unat (sl_base s + sl_size s) = slot_end s" using lim(1) by (simp add: slot_end_def unat_word_ariths)
    have nb: "unat (sl_base n) = page_up (slot_end s)"
      using page_up_word [of "sl_base s + sl_size s"] ends lim(1) n(2) by simp
    have "slot_end n \<le> 2 ^ 30" using assms(2) k by force
    then have room: "unat (sl_base s) + unat (sl_size s + sl_size n) \<le> slot_end n"
      using nb page_up_ge [of "slot_end s"] by (simp add: slot_end_def unat_word_ariths)
    show ?thesis
    proof (cases "slot_end t \<le> unat (sl_base s)")
      case False
      then have "page_up (slot_end s) \<le> unat (sl_base t)" using apart lim(2) page_up_least by blast
      moreover have "unat (sl_base t) < slot_end t" using assms(7) by (simp add: slot_end_def t_def unat_gt_0 word_gt_0)
      ultimately show ?thesis using ap nb room n(4) by (simp add: Let_def)
    qed simp
  qed
  moreover have "\<forall>w alloc load. lr_cmd load \<noteq> NFB_BOOT_IOC_LOAD_CMD_PRIORITY \<longrightarrow> lr_node load = Some i \<longrightarrow>
      unat (bw_room (sl_base s) (sl_size s) ?os) < length (lr_data load) \<longrightarrow> nfb_boot_bw_bmc_load w alloc load boot = Some (- ENOMEM, boot)"
    using assms(3) by (auto simp: nfb_boot_bw_bmc_load_def Let_def s_def)
  ultimately show ?thesis by (simp add: Let_def s_def t_def)
qed

definition example_slot :: "u32 \<Rightarrow> u32 \<Rightarrow> bool \<Rightarrow> binary_slot" where
  "example_slot base sz e = \<lparr>sl_node = (e, 0), sl_title = [], sl_id = 0, sl_boot_id = 0, sl_base = base, sl_size = sz, sl_empty = e, sl_priority = 0,
     sl_filename = (if e then None else Some ''image''), sl_ro = False\<rparr>"

definition example_world :: bw_world where
  "example_world = \<lparr>bw_ksort = sort_key fe_offset, bw_recovery_ro = True, bw_card_name = None, bw_ok_alloc = (\<lambda>_. True), bw_table_buffer = []\<rparr>"

theorem bw_load_keeps_images_witness:
  "\<exists>boot. bo_slots boot = [example_slot 0 0x1800 False, example_slot 0x2000 0x6000 True, example_slot 0x8000 0x1000 False] \<and>
     bw_room 0 0x1800 (tl (bo_slots boot)) = 0x7800 \<and>
     nfb_boot_bw_bmc_load example_world False \<lparr>lr_cmd = 2, lr_data = replicate 0x7801 0, lr_prios = None, lr_node = Some 0, lr_name = []\<rparr> boot = Some (- ENOMEM, boot)"
proof -
  let ?ss = "[example_slot 0 0x1800 False, example_slot 0x2000 0x6000 True, example_slot 0x8000 0x1000 False]"
  let ?l = "\<lparr>bl_start_ops = 0, bl_done_ops = 0, bl_pending_ops = 0, bl_current_op = 0, bl_progress_max = 0, bl_progress = 0\<rparr>"
  let ?boot = "\<lparr>bo_bmc = example_bmc (\<lambda>_ _ _. None), bo_slots = ?ss, bo_load = ?l\<rparr>"
  have room: "bw_room 0 0x1800 (tl ?ss) = 0x7800" by (simp add: example_slot_def)
  have "sorted_wrt (\<lambda>s t. slot_end s \<le> unat (sl_base t)) ?ss" "\<forall>s \<in> set ?ss. 4096 dvd unat (sl_base s) \<and> slot_end s \<le> 2 ^ 30"
    by (simp_all add: example_slot_def slot_end_def)
  then have "nfb_boot_bw_bmc_load example_world False \<lparr>lr_cmd = 2, lr_data = replicate 0x7801 0, lr_prios = None, lr_node = Some 0, lr_name = []\<rparr> ?boot = Some (- ENOMEM, ?boot)"
    using bw_load_keeps_images [of ?boot 0 2] room
    by (simp add: Let_def example_slot_def NFB_BOOT_IOC_LOAD_CMD_PRIORITY_def)
  with room show ?thesis by (intro exI [of _ ?boot]) simp
qed

end
