(* ===== verification/Boot.thy ===== *)
theory Boot
  imports BootFlash BwSlots CharDev
begin

text \<open>
  The boot driver: \<open>drivers/kernel/drivers/nfb/boot/boot.c\<close>, the identification of cards with the controller Gecko in \<open>boot/gecko.c\<close> and the
  reload of the firmware in \<open>boot/reload.c\<close>.
\<close>

section \<open>Gecko\<close>

text \<open>Ready is bit 19, the mark of a timeout bit 18.  \<open>n\<close> reads are left.  The result is the code, with the data when the controller was ready.\<close>

fun gecko_wait :: "int \<Rightarrow> nfb_comp \<Rightarrow> int \<times> u16 option \<times> nfb_comp" where
  "gecko_wait n co =
     (case nfb_comp_read32 co 0 of (reg, co) \<Rightarrow>
        if bit reg 19 then (if bit reg 18 then 2 else 0, Some (ucast (reg AND 0xFFFF)), co)
        else if n \<le> 1 then (1, None, co)
        else gecko_wait (n - 1) co)"

declare gecko_wait.simps [simp del]

definition nfb_boot_gecko_wait_ready_data :: "nfb_comp \<Rightarrow> int \<times> u16 option \<times> nfb_comp" where
  "nfb_boot_gecko_wait_ready_data co = gecko_wait 20000 co"

definition nfb_boot_gecko_wait_ready :: "nfb_comp \<Rightarrow> int \<times> nfb_comp" where
  "nfb_boot_gecko_wait_ready co =
     (case nfb_boot_gecko_wait_ready_data co of (ret, _, co) \<Rightarrow> (if ret = 2 then 0 else ret, co))"

definition nfb_boot_gecko_send_command :: "u8 \<Rightarrow> u16 \<Rightarrow> u32 \<Rightarrow> nfb_comp \<Rightarrow> int \<times> nfb_comp" where
  "nfb_boot_gecko_send_command cmd subCmd data co =
     (let reg = push_bit 60 (ucast cmd AND 0xF) OR push_bit 48 (ucast subCmd AND 0xFFF) OR ucast data :: u64
      in case nfb_boot_gecko_wait_ready co of (ret, co) \<Rightarrow>
           if ret \<noteq> 0 then (1, co) else (0, nfb_comp_write64 co 0 reg))"

definition nfb_boot_gecko_read :: "u16 \<Rightarrow> u16 \<Rightarrow> nfb_comp \<Rightarrow> int \<times> u16 option \<times> nfb_comp" where
  "nfb_boot_gecko_read subcmd offset co =
     (case nfb_boot_gecko_send_command 0x2 subcmd (ucast offset) co of (ret, co) \<Rightarrow>
        if ret \<noteq> 0 then (ret, None, co) else nfb_boot_gecko_wait_ready_data co)"

text \<open>The three words at the offsets 0, 2 and 4, each with its bytes exchanged.\<close>

fun gecko_mac_loop :: "u16 list \<Rightarrow> u64 \<Rightarrow> nfb_comp \<Rightarrow> int \<times> u64 \<times> nfb_comp" where
  "gecko_mac_loop [] mac co = (0, mac, co)"
| "gecko_mac_loop (i # is) mac co =
     (case nfb_boot_gecko_read 0x03 i co of (ret, data, co) \<Rightarrow>
        if ret \<noteq> 0 then (ret, mac, co)
        else gecko_mac_loop is (push_bit 16 mac OR ucast (push_bit 8 (the data AND 0xFF) OR drop_bit 8 (the data AND 0xFF00))) co)"

definition nfb_boot_gecko_read_first_mac :: "nfb_comp \<Rightarrow> int \<times> u64 \<times> nfb_comp" where
  "nfb_boot_gecko_read_first_mac co = gecko_mac_loop [0, 2, 4] 0 co"

text \<open>The serial number; None when it cannot be read.\<close>

definition nfb_boot_gecko_read_serial_number :: "nfb_comp \<Rightarrow> u64 option \<times> nfb_comp" where
  "nfb_boot_gecko_read_serial_number co =
     (case nfb_boot_gecko_read_first_mac co of (ret, mac, co) \<Rightarrow>
        (if ret \<noteq> 0 then None else Some (drop_bit 4 (mac AND 0xFFF0)), co))"

text \<open>With a controller that answers, the address has the bytes of the three words in order.\<close>

lemma gecko_first_mac:
  assumes "\<And>i co. i \<in> {0, 2, 4} \<Longrightarrow> \<exists>co'. nfb_boot_gecko_read 0x03 i co = (0, Some (d i), co')"
  defines "swap w \<equiv> ucast (push_bit 8 (w AND 0xFF) OR drop_bit 8 (w AND 0xFF00)) :: u64"
  shows "\<exists>co'. nfb_boot_gecko_read_first_mac co = (0, push_bit 32 (swap (d 0)) OR push_bit 16 (swap (d 2)) OR swap (d 4), co')"
proof -
  obtain c1 where c1: "nfb_boot_gecko_read 0x03 0 co = (0, Some (d 0), c1)" using assms(1) by blast
  obtain c2 where c2: "nfb_boot_gecko_read 0x03 2 c1 = (0, Some (d 2), c2)" using assms(1) by blast
  obtain c3 where c3: "nfb_boot_gecko_read 0x03 4 c2 = (0, Some (d 4), c3)" using assms(1) by blast
  show ?thesis by (simp add: nfb_boot_gecko_read_first_mac_def c1 c2 c3 swap_def push_bit_or or.assoc)
qed

section \<open>Identification from the flash\<close>

record nfb_pci_dev =
  pd_name :: string
  pd_idstruct_mtd :: int
  pd_serialno_addr :: u64
  pd_subtype_addr :: u64
  pd_card_type_id :: u32

text \<open>The table of cards, in the order of the enumeration, without its last item.\<close>

definition nfb_device_infos :: "nfb_pci_dev list" where
  "nfb_device_infos = map (\<lambda>(n, m, a, b, t). \<lparr>pd_name = n, pd_idstruct_mtd = m, pd_serialno_addr = a, pd_subtype_addr = b, pd_card_type_id = t\<rparr>)
     [(''NFB-40G2'', 0, 0x00000004, 0x00000000, 0x01),
      (''NFB-100G'', 0, 0x00000004, -1, 0x02),
      (''NFB-40G2_SG3'', 0, 0x00000004, 0x00000000, 0x03),
      (''NFB-40G'', -1, -1, -1, 0x04),
      (''NFB-100G2'', 0, 0x01fc0004, 0x01fc0000, 0x00),
      (''NFB-100G2Q'', 0, 0x01fc0004, 0x01fc0000, 0x05),
      (''NFB-100G2C'', 0, 0x01fc0004, 0x01fc0000, 0x08),
      (''NFB-200G2QL'', 0, 0x03fc0004, -1, 0x06),
      (''FB1CGG'', 0, 0x00000002, 0x00000001, 0x07),
      (''FB2CGG3'', 0, 0x00000002, 0x00000001, 0x09),
      (''FB4CGG3'', 0, 0x00000002, 0x00000001, 0x0A),
      (''TIVOLI'', -1, -1, -1, 0x0B),
      (''COMBO-GENERIC'', -1, -1, -1, 0x0C),
      (''COMBO-400G1'', -1, -1, -1, 0x0D),
      (''AGI-FH400G'', -1, -1, -1, 0x0E)]"

definition NFB_CARD_FB2CGG3 :: nat where "NFB_CARD_FB2CGG3 = 9"
definition NFB_CARD_FB4CGG3 :: nat where "NFB_CARD_FB4CGG3 = 10"

record nfb_card =
  nc_pci_dev :: "nfb_pci_dev option"
  nc_silicom :: bool
  nc_serial :: u64

text \<open>Four bytes of the flash in the order of the processor; what is not read keeps what the variable held.\<close>

definition flash_word :: "u8 list \<Rightarrow> u8 list \<Rightarrow> u32" where
  "flash_word junk d = sdm_word (take 4 (d @ drop (length d) junk))"

definition be32_to_cpu :: "u32 \<Rightarrow> u32" where
  "be32_to_cpu w = sdm_word (rev (le_bytes w))"

definition nfb_boot_read_serial_number ::
  "('m, 'c) mtd_core \<Rightarrow> u8 list \<Rightarrow> nfb_card \<Rightarrow> ('m, 'c) nfb_boot \<Rightarrow> (nfb_card \<times> ('m, 'c) nfb_boot) option" where
  "nfb_boot_read_serial_number core junk nfb boot =
     (case nc_pci_dev nfb of None \<Rightarrow> Some (nfb, boot)
      | Some d \<Rightarrow>
          if pd_idstruct_mtd d = -1 \<or> pd_serialno_addr d = -1 then Some (nfb, boot)
          else case nfb_boot_mtd_read core (pd_idstruct_mtd d) (sint (ucast (pd_serialno_addr d) :: u32)) 4 boot of
            None \<Rightarrow> None
          | Some (ret, bs, boot) \<Rightarrow>
              let data = flash_word junk bs in
              Some (nfb\<lparr>nc_serial := if ret = 0 \<and> data \<noteq> 0xFFFFFFFF then (if nc_silicom nfb then ucast (drop_bit 20 data) else ucast (be32_to_cpu data)) else 0\<rparr>, boot))"

text \<open>The index of the card with a type, 0 when there is none.\<close>

fun find_card :: "u32 \<Rightarrow> nat \<Rightarrow> nfb_pci_dev list \<Rightarrow> nat" where
  "find_card t i [] = 0"
| "find_card t i (d # ds) = (if pd_card_type_id d = t then i else find_card t (Suc i) ds)"

definition nfb_boot_read_card_subtype ::
  "('m, 'c) mtd_core \<Rightarrow> u8 list \<Rightarrow> nfb_card \<Rightarrow> ('m, 'c) nfb_boot \<Rightarrow> (nfb_card \<times> ('m, 'c) nfb_boot) option" where
  "nfb_boot_read_card_subtype core junk nfb boot =
     (case nc_pci_dev nfb of None \<Rightarrow> Some (nfb, boot)
      | Some d \<Rightarrow>
          if pd_idstruct_mtd d = -1 \<or> pd_subtype_addr d = -1 then Some (nfb, boot)
          else case nfb_boot_mtd_read core (pd_idstruct_mtd d) (sint (ucast (pd_subtype_addr d) :: u32)) 4 boot of
            None \<Rightarrow> None
          | Some (ret, bs, boot) \<Rightarrow>
              if ret = 0 then
                let data = flash_word junk bs;
                    card_id = (if nc_silicom nfb then
                                 (let t = drop_bit 16 (data AND 0x00FF0000) in if t = 33 then NFB_CARD_FB2CGG3 else if t = 25 then NFB_CARD_FB4CGG3 else 0)
                               else find_card (be32_to_cpu data AND 0xFFFF) 0 nfb_device_infos)
                in Some (if card_id > 0 then nfb\<lparr>nc_pci_dev := Some (nfb_device_infos ! card_id)\<rparr> else nfb, boot)
              else Some (nfb, boot))"

lemma find_card_found:
  assumes "distinct (map pd_card_type_id ds)" and "j < length ds"
  shows "find_card (pd_card_type_id (ds ! j)) i ds = i + j"
  using assms
proof (induction ds arbitrary: i j)
  case (Cons d ds)
  then show ?case by (cases j) (auto intro: nth_mem)
qed simp

lemma find_card_missing: "t \<notin> pd_card_type_id ` set ds \<Longrightarrow> find_card t i ds = 0"
  by (induction ds arbitrary: i) auto

text \<open>The type in the flash selects the card of that type, except the first one of the table, and an unknown type selects none.\<close>

lemma card_subtype_selects:
  assumes "nc_pci_dev nfb = Some d" and "pd_idstruct_mtd d \<noteq> -1" and "pd_subtype_addr d \<noteq> -1" and "\<not> nc_silicom nfb"
    and "nfb_boot_mtd_read core (pd_idstruct_mtd d) (sint (ucast (pd_subtype_addr d) :: u32)) 4 boot = Some (0, bs, boot')"
  shows "\<exists>nfb'. nfb_boot_read_card_subtype core junk nfb boot = Some (nfb', boot') \<and>
    (let t = be32_to_cpu (flash_word junk bs) AND 0xFFFF in
     (\<forall>e \<in> set (tl nfb_device_infos). pd_card_type_id e = t \<longrightarrow> nfb' = nfb\<lparr>nc_pci_dev := Some e\<rparr>) \<and>
     (t \<notin> pd_card_type_id ` set (tl nfb_device_infos) \<longrightarrow> nfb' = nfb))"
proof -
  define t where "t = be32_to_cpu (flash_word junk bs) AND 0xFFFF"
  let ?k = "find_card t 0 nfb_device_infos"
  have run: "nfb_boot_read_card_subtype core junk nfb boot = Some (if ?k > 0 then nfb\<lparr>nc_pci_dev := Some (nfb_device_infos ! ?k)\<rparr> else nfb, boot')"
    using assms by (simp add: nfb_boot_read_card_subtype_def Let_def t_def)
  have dist: "distinct (map pd_card_type_id nfb_device_infos)" by (simp add: nfb_device_infos_def)
  have found: "nfb_device_infos ! ?k = e \<and> ?k > 0" if e: "e \<in> set (tl nfb_device_infos)" "pd_card_type_id e = t" for e
  proof -
    obtain j where j: "j < length (tl nfb_device_infos)" "tl nfb_device_infos ! j = e" using e(1) unfolding in_set_conv_nth by blast
    then have "nfb_device_infos ! Suc j = e" "Suc j < length nfb_device_infos" by (auto simp: nth_tl)
    with find_card_found [OF dist, of "Suc j" 0] e(2) show ?thesis by simp
  qed
  have none: "?k = 0" if "t \<notin> pd_card_type_id ` set (tl nfb_device_infos)"
  proof (cases "pd_card_type_id (hd nfb_device_infos) = t")
    case True
    then show ?thesis by (simp add: nfb_device_infos_def)
  next
    case False
    have "set nfb_device_infos = insert (hd nfb_device_infos) (set (tl nfb_device_infos))" by (simp add: nfb_device_infos_def)
    with that False show ?thesis by (intro find_card_missing) auto
  qed
  show ?thesis unfolding Let_def t_def [symmetric]
    by (rule exI [of _ "if ?k > 0 then nfb\<lparr>nc_pci_dev := Some (nfb_device_infos ! ?k)\<rparr> else nfb"]) (use found none run in auto)
qed

section \<open>Requests\<close>

text \<open>A slot of the device tree: the properties \<open>boot_id\<close> and \<open>base\<close>, None when absent or of another size.\<close>

definition nfb_boot_ioctl_reload ::
  "bool \<Rightarrow> nat \<Rightarrow> (u32 option \<times> u32 option) list \<Rightarrow> int option \<Rightarrow> bool \<Rightarrow> nfb_char_dev \<Rightarrow> int option \<times> int \<times> nfb_char_dev" where
  "nfb_boot_ioctl_reload boot_enable num_vf slots arg sdm_boot nfb =
     (case arg of None \<Rightarrow> (None, - EFAULT, nfb)
      | Some img \<Rightarrow>
          if \<not> boot_enable then (None, - EPERM, nfb)
          else if num_vf \<noteq> 0 then (None, - EBUSY, nfb)
          else case find (\<lambda>(b, _). b = Some (of_int img)) slots of
            None \<Rightarrow> (None, - ENODEV, nfb)
          | Some (_, base) \<Rightarrow>
              let num_image = (case base of Some a \<Rightarrow> if sdm_boot then sint a else img | None \<Rightarrow> img)
              in case nfb_char_set_lr_callback nfb of (ret, nfb) \<Rightarrow> (Some num_image, ret, nfb))"

text \<open>The temperature in thousandths of a degree, by the division of C; None of the first argument is a null pointer.\<close>

definition c_div :: "int \<Rightarrow> int \<Rightarrow> int" where
  "c_div a b = (if a \<ge> 0 then a div b else - ((- a) div b))"

definition nfb_boot_get_sensor_ioc :: "bool option \<Rightarrow> bool \<Rightarrow> sdm option \<Rightarrow> (sdm_result \<times> int \<times> sdm option) option" where
  "nfb_boot_get_sensor_ioc arg copy_out sdm =
     (case arg of None \<Rightarrow> Some (SdmRet (- EINVAL) [], 0, sdm)
      | Some copied \<Rightarrow>
          if \<not> copied then Some (SdmRet (- EFAULT) [], 0, sdm)
          else case sdm of None \<Rightarrow> Some (SdmRet (- ENODEV) [], 0, None)
          | Some s \<Rightarrow>
              (case sdm_get_temperature s of None \<Rightarrow> None
               | Some (SdmFault, s) \<Rightarrow> Some (SdmFault, 0, Some s)
               | Some (SdmRet ret bs, s) \<Rightarrow>
                   if ret \<noteq> 0 then Some (SdmRet ret [], 0, Some s)
                   else if copy_out then Some (SdmRet 0 [], c_div (sint (sdm_word bs) * 1000) 256, Some s)
                   else Some (SdmRet (- EFAULT) [], 0, Some s)))"

section \<open>Loading images\<close>

text \<open>Strings of the user are given without their end; None is an address that cannot be read.  The result is the code and what was written.\<close>

definition strncpy_from_user :: "u8 list option \<Rightarrow> nat \<Rightarrow> int \<times> u8 list" where
  "strncpy_from_user str n =
     (if n = 0 then (0, [])
      else case str of None \<Rightarrow> (- EFAULT, [])
           | Some s \<Rightarrow> if length s < n then (int (length s), s @ [0]) else (int n, take n s))"

record ioc_load =
  il_cmd :: u64
  il_data_size :: u64
  il_node_size :: u32
  il_name_size :: u32
  il_name :: "u8 list option"
  il_node :: "u8 list option"
  il_data :: "u8 list option"

text \<open>The size of the buffer: the first sum is one of 32-bit integers.\<close>

definition load_buffer_size :: "ioc_load \<Rightarrow> u64" where
  "load_buffer_size load = ucast (il_name_size load + il_node_size load) + il_data_size load"

text \<open>The data of a request for priorities, pairs of 64-bit integers; None when the size is not a multiple of a pair.\<close>

definition word64 :: "u8 list \<Rightarrow> u64" where
  "word64 bs = ucast (sdm_word (take 4 bs)) OR push_bit 32 (ucast (sdm_word (take 4 (drop 4 bs))))"

fun prio_pairs :: "nat \<Rightarrow> u8 list \<Rightarrow> (u64 \<times> u64) list" where
  "prio_pairs 0 d = []"
| "prio_pairs (Suc n) d = (word64 d, word64 (drop 8 d)) # prio_pairs n (drop 16 d)"

definition c_string :: "u8 list \<Rightarrow> string" where
  "c_string bs = map (\<lambda>b. char_of (unat b)) (takeWhile (\<lambda>b. b \<noteq> 0) bs)"

text \<open>The request as the driver of the controller gets it; \<open>lookup\<close> finds the slot of a path in the device tree.\<close>

definition load_request :: "(string \<Rightarrow> nat option) \<Rightarrow> u64 \<Rightarrow> u8 list \<Rightarrow> u8 list \<Rightarrow> u8 list \<Rightarrow> bw_load_req" where
  "load_request lookup cmd name node data =
     \<lparr>lr_cmd = cmd, lr_data = data, lr_prios = (if 16 dvd length data then Some (prio_pairs (length data div 16) data) else None),
      lr_node = lookup (c_string node), lr_name = c_string name\<rparr>"

text \<open>A write behind the end of the buffer corrupts the memory of the kernel; the second value is what the load of the controller
  does not return from.\<close>

datatype 's load_outcome = LoadCorrupts | LoadStuck | LoadDone int 's

text \<open>\<open>mutex\<close> tells that another load is in progress, \<open>alloc\<close> that memory is available, \<open>copy_out\<close> that the result can be copied to the user.
  The state is that of the controller, None when there is none.  Data that cannot be read are replaced by zeros; the count of the bytes
  that were not copied is cut to a C int before it is tested.\<close>

definition nfb_boot_load ::
  "bw_world \<Rightarrow> (string \<Rightarrow> nat option) \<Rightarrow> bool \<Rightarrow> bool \<Rightarrow> bool \<Rightarrow> ioc_load option \<Rightarrow> bw_boot option \<Rightarrow> bw_boot option load_outcome" where
  "nfb_boot_load w lookup mutex alloc copy_out arg bmc =
     (case arg of None \<Rightarrow> LoadDone (- EFAULT) bmc
      | Some load \<Rightarrow>
          if mutex then LoadDone (- EBUSY) bmc
          else
            let need = (il_name_size load \<noteq> 0 \<or> il_node_size load \<noteq> 0 \<or> il_data_size load \<noteq> 0);
                size' = (if need then unat (load_buffer_size load) else 0);
                name_size = unat (il_name_size load); node_size = unat (il_node_size load); data_size = unat (il_data_size load)
            in if need \<and> (size' = 0 \<or> \<not> alloc) then LoadDone (- ENOMEM) bmc
               else case strncpy_from_user (il_name load) name_size of (ret, name) \<Rightarrow>
                 if name \<noteq> [] \<and> length name > size' then LoadCorrupts
                 else if name_size \<noteq> 0 \<and> (of_int ret :: u32) \<noteq> il_name_size load - 1 then LoadDone (- EINVAL) bmc
                 else case strncpy_from_user (il_node load) node_size of (ret, node) \<Rightarrow>
                   if node \<noteq> [] \<and> name_size + length node > size' then LoadCorrupts
                   else if node_size \<noteq> 0 \<and> (of_int ret :: u32) \<noteq> il_node_size load - 1 then LoadDone (- EINVAL) bmc
                   else if data_size \<noteq> 0 \<and> name_size + node_size + data_size > size' then LoadCorrupts
                   else if il_data load = None \<and> (of_nat data_size :: u32) \<noteq> 0 then LoadDone (- EINVAL) bmc
                   else
                     let data = (case il_data load of None \<Rightarrow> replicate data_size 0 | Some d \<Rightarrow> take data_size d)
                     in case bmc of None \<Rightarrow> LoadDone (- ENXIO) bmc
                        | Some b \<Rightarrow>
                            (case nfb_boot_bw_bmc_load w alloc (load_request lookup (il_cmd load) name node data) b of
                               None \<Rightarrow> LoadStuck
                             | Some (ret, b) \<Rightarrow>
                                 if ret \<noteq> 0 then LoadDone ret (Some b) else if copy_out then LoadDone 0 (Some b) else LoadDone (- EFAULT) (Some b)))"

lemma strncpy_length: "strncpy_from_user str n = (ret, bs) \<Longrightarrow> length bs \<le> n"
  by (auto simp: strncpy_from_user_def split: if_splits option.splits)

lemma load_size_exact:
  assumes "unat (il_name_size load) + unat (il_node_size load) < 2 ^ 32"
    and "unat (il_name_size load) + unat (il_node_size load) + unat (il_data_size load) < 2 ^ 64"
  shows "unat (load_buffer_size load) = unat (il_name_size load) + unat (il_node_size load) + unat (il_data_size load)"
proof -
  have "unat (il_name_size load + il_node_size load) = unat (il_name_size load) + unat (il_node_size load)"
    using assms(1) by (simp add: unat_word_ariths)
  then show ?thesis using assms(2) by (simp add: load_buffer_size_def unat_word_ariths unsigned_ucast_eq take_bit_nat_eq_self)
qed



section \<open>Reload of the firmware\<close>

text \<open>The registers of a PCIe port that the driver changes: None for a port without the capability for error reports.\<close>

record pci_port =
  pp_command :: u16
  pp_devctl :: u16
  pp_lnkctl :: u16
  pp_aer_mask :: "u32 option"
  pp_root_cmd :: "u32 option"

text \<open>An endpoint of the card with the port above it and the parent of its bus; \<open>rc_present\<close> tells that the kernel knows the device.\<close>

record nfb_pci_device =
  rc_main :: bool
  rc_port :: nat
  rc_parent :: nat
  rc_cap :: bool
  rc_present :: bool
  rc_command :: u16
  rc_devctl :: u16
  rc_aer_mask :: u32
  rc_root_cmd :: u32

datatype reload_event = Detach | BootCommand | Remove nat | LinkUp nat | Rescan nat | RootRescan

text \<open>The ports, the endpoints in the order of their list, and what happened, the last event first.  The parameters are the root port above a
  port, the ports with the PCIe capability and the endpoints that come back after the reload.\<close>

record reload_state =
  re_ports :: "nat \<Rightarrow> pci_port"
  re_cards :: "nfb_pci_device list"
  re_log :: "reload_event list"

record reload_env =
  ev_root :: "nat \<Rightarrow> nat option"
  ev_cap :: "nat \<Rightarrow> bool"
  ev_back :: "nat \<Rightarrow> bool"
  ev_linkdown :: bool

definition PCI_COMMAND_SERR :: u16 where "PCI_COMMAND_SERR = 0x100"
definition PCI_EXP_DEVCTL_NFERE :: u16 where "PCI_EXP_DEVCTL_NFERE = 0x2"
definition PCI_EXP_DEVCTL_FERE :: u16 where "PCI_EXP_DEVCTL_FERE = 0x4"
definition PCI_ERR_UNC_SURPDN :: u32 where "PCI_ERR_UNC_SURPDN = 0x20"
definition PCI_EXP_LNKCTL_LD :: u16 where "PCI_EXP_LNKCTL_LD = 0x10"

definition set_card :: "nat \<Rightarrow> nfb_pci_device \<Rightarrow> reload_state \<Rightarrow> reload_state" where
  "set_card i c st = st\<lparr>re_cards := (re_cards st)[i := c]\<rparr>"

definition set_port :: "nat \<Rightarrow> pci_port \<Rightarrow> reload_state \<Rightarrow> reload_state" where
  "set_port n p st = st\<lparr>re_ports := (re_ports st)(n := p)\<rparr>"

definition event :: "reload_event \<Rightarrow> reload_state \<Rightarrow> reload_state" where
  "event e st = st\<lparr>re_log := e # re_log st\<rparr>"

definition nfb_pci_errors_disable :: "reload_env \<Rightarrow> bool \<Rightarrow> nat \<Rightarrow> reload_state \<Rightarrow> int \<times> reload_state" where
  "nfb_pci_errors_disable env use_root i st =
     (let c = re_cards st ! i; b = rc_port c; p = re_ports st b; root = ev_root env b
      in if use_root \<and> root = None then (- ENODEV, st)
         else
           let c = c\<lparr>rc_command := pp_command p, rc_devctl := pp_devctl p\<rparr>;
               q = p\<lparr>pp_command := pp_command p AND NOT PCI_COMMAND_SERR,
                     pp_devctl := pp_devctl p AND NOT (PCI_EXP_DEVCTL_NFERE OR PCI_EXP_DEVCTL_FERE)\<rparr>;
               (c, q) = (case pp_aer_mask p of None \<Rightarrow> (c, q)
                         | Some m \<Rightarrow> (c\<lparr>rc_aer_mask := m\<rparr>, q\<lparr>pp_aer_mask := Some (m OR PCI_ERR_UNC_SURPDN)\<rparr>));
               st = set_port b q st
           in if \<not> use_root then (0, set_card i c st)
              else let r = the root in
                   case pp_root_cmd (re_ports st r) of None \<Rightarrow> (0, set_card i c st)
                   | Some v \<Rightarrow> (0, set_port r ((re_ports st r)\<lparr>pp_root_cmd := Some 0\<rparr>) (set_card i (c\<lparr>rc_root_cmd := v\<rparr>) st)))"

fun errors_disable_loop :: "reload_env \<Rightarrow> bool \<Rightarrow> nat list \<Rightarrow> reload_state \<Rightarrow> int \<times> reload_state" where
  "errors_disable_loop env use_root [] st = (0, st)"
| "errors_disable_loop env use_root (i # is) st =
     (case nfb_pci_errors_disable env use_root i st of (ret, st) \<Rightarrow>
        if ret \<noteq> 0 then (ret, st) else errors_disable_loop env use_root is st)"

definition nfb_boot_ioctl_error_disable :: "reload_env \<Rightarrow> bool \<Rightarrow> reload_state \<Rightarrow> int \<times> reload_state" where
  "nfb_boot_ioctl_error_disable env m10bmc_spi st = errors_disable_loop env m10bmc_spi [0..<length (re_cards st)] st"

definition nfb_boot_reload_prepare_remove :: "reload_env \<Rightarrow> nat \<Rightarrow> reload_state \<Rightarrow> int \<times> reload_state" where
  "nfb_boot_reload_prepare_remove env i st =
     (let c = re_cards st ! i; cap = ev_cap env (rc_port c)
      in (if cap then 0 else - EBADF, set_card i (c\<lparr>rc_cap := cap\<rparr>) st))"

definition nfb_boot_reload_shutdown :: "reload_env \<Rightarrow> nat \<Rightarrow> reload_state \<Rightarrow> reload_state" where
  "nfb_boot_reload_shutdown env i st =
     (let c = re_cards st ! i; st = event (Remove i) (set_card i (c\<lparr>rc_present := False\<rparr>) st); p = re_ports st (rc_port c)
      in if ev_linkdown env then set_port (rc_port c) (p\<lparr>pp_lnkctl := pp_lnkctl p OR PCI_EXP_LNKCTL_LD\<rparr>) st else st)"

definition nfb_boot_reload_linkup :: "reload_env \<Rightarrow> nat \<Rightarrow> reload_state \<Rightarrow> reload_state" where
  "nfb_boot_reload_linkup env i st =
     (let c = re_cards st ! i; st = event (LinkUp i) st; p = re_ports st (rc_port c)
      in if ev_linkdown env then set_port (rc_port c) (p\<lparr>pp_lnkctl := pp_lnkctl p AND NOT PCI_EXP_LNKCTL_LD\<rparr>) st else st)"

definition restore_port :: "nfb_pci_device \<Rightarrow> pci_port \<Rightarrow> pci_port" where
  "restore_port c p = p\<lparr>pp_command := rc_command c, pp_devctl := rc_devctl c\<rparr>"

definition nfb_boot_reload_rescan :: "reload_env \<Rightarrow> nat \<Rightarrow> reload_state \<Rightarrow> int \<times> reload_state" where
  "nfb_boot_reload_rescan env i st =
     (let c = re_cards st ! i; st = event (Rescan i) st
      in if \<not> ev_back env i then (- ENODEV, st)
         else
           let p = re_ports st (rc_port c); q = restore_port c p
           in (0, set_card i (c\<lparr>rc_present := True\<rparr>)
                  (set_port (rc_port c) (q\<lparr>pp_aer_mask := map_option (\<lambda>_. rc_aer_mask c) (pp_aer_mask p)\<rparr>) st)))"

text \<open>Cards with the controller MAX10 are found again from the root port.\<close>

definition nfb_boot_n5014_reload_rescan :: "reload_env \<Rightarrow> nat \<Rightarrow> reload_state \<Rightarrow> int \<times> reload_state" where
  "nfb_boot_n5014_reload_rescan env i st =
     (let c = re_cards st ! i
      in case ev_root env (rc_port c) of None \<Rightarrow> (- ENODEV, st)
         | Some r \<Rightarrow>
             let st = event RootRescan st
             in if \<not> ev_back env i then (- ENODEV, set_card i (c\<lparr>rc_present := False\<rparr>) st)
                else
                  let st = set_card i (c\<lparr>rc_present := True\<rparr>) (set_port (rc_port c) (restore_port c (re_ports st (rc_port c))) st)
                  in (0, set_port r ((re_ports st r)\<lparr>pp_root_cmd := map_option (\<lambda>_. rc_root_cmd c) (pp_root_cmd (re_ports st r))\<rparr>) st))"

text \<open>The first loop: the slaves are put in front of each other on the list, the last endpoint that was probed as main is the master.\<close>

fun prepare_loop :: "reload_env \<Rightarrow> nat list \<Rightarrow> nat option \<Rightarrow> nat list \<Rightarrow> reload_state \<Rightarrow> int \<times> nat option \<times> nat list \<times> reload_state" where
  "prepare_loop env [] master slaves st = (0, master, slaves, st)"
| "prepare_loop env (i # is) master slaves st =
     (if rc_main (re_cards st ! i) then prepare_loop env is (Some i) slaves st
      else case nfb_boot_reload_prepare_remove env i st of (ret, st) \<Rightarrow>
        if ret \<noteq> 0 then (ret, master, i # slaves, st) else prepare_loop env is master (i # slaves) st)"

text \<open>One pass over the slaves that were not found yet; \<open>skip\<close> tells which are left for the next pass.\<close>

fun rescan_pass :: "reload_env \<Rightarrow> (nat \<Rightarrow> bool) \<Rightarrow> nat list \<Rightarrow> reload_state \<Rightarrow> nat list \<times> reload_state" where
  "rescan_pass env skip [] st = ([], st)"
| "rescan_pass env skip (i # is) st =
     (if skip i then case rescan_pass env skip is st of (rest, st) \<Rightarrow> (i # rest, st)
      else rescan_pass env skip is (snd (nfb_boot_reload_rescan env i st)))"

text \<open>The controller that boots the card.  The load functions of the Intel controllers are not part of the driver.\<close>

datatype boot_ctrl = Pmci | M10Spi | BwBoot bw_boot | SdmBoot sdm | BootComp | NoBoot

definition is_m10 :: "boot_ctrl \<Rightarrow> bool" where
  "is_m10 ctrl = (case ctrl of M10Spi \<Rightarrow> True | _ \<Rightarrow> False)"

definition reload_command :: "int \<Rightarrow> ('m, 'c) nfb_boot \<Rightarrow> ('m, 'c) nfb_boot" where
  "reload_command num_image boot =
     (if bt_controller_type boot = 3 then
        let boot = nfb_boot_flash_fb_switch_flash 0 (nfb_boot_flash_fb_switch_flash 1 boot)
        in boot\<lparr>bt_comp := nfb_comp_write64 (bt_comp boot) 0 (push_bit 60 7 OR push_bit 48 7 OR of_int num_image)\<rparr>
      else bt_write32 4 0xE0000000 (bt_write32 0 (of_int num_image) boot))"

text \<open>The boot command goes to one of the controllers; the result of the mailbox is not used.\<close>

definition send_boot :: "int \<Rightarrow> boot_ctrl \<times> ('m, 'c) nfb_boot \<Rightarrow> (boot_ctrl \<times> ('m, 'c) nfb_boot) option" where
  "send_boot num_image cb =
     (case cb of (ctrl, boot) \<Rightarrow>
      case ctrl of
        BwBoot b \<Rightarrow> Some (BwBoot (snd (nfb_boot_bw_bmc_reload num_image b)), boot)
      | SdmBoot s \<Rightarrow> map_option (\<lambda>(_, s). (SdmBoot s, boot)) (sdm_rsu_image_update (of_int num_image) s)
      | BootComp \<Rightarrow> Some (ctrl, reload_command num_image boot)
      | _ \<Rightarrow> Some (ctrl, boot))"

text \<open>None is a null pointer for the master, or a mailbox that does not answer.\<close>

definition nfb_boot_reload ::
  "('m, 'c) mtd_core \<Rightarrow> reload_env \<Rightarrow> int \<Rightarrow> boot_ctrl \<times> ('m, 'c) nfb_boot \<Rightarrow> reload_state
     \<Rightarrow> (int \<times> (boot_ctrl \<times> ('m, 'c) nfb_boot) \<times> reload_state) option" where
  "nfb_boot_reload core env num_image cb st =
     (case prepare_loop env [0..<length (re_cards st)] None [] st of (ret, master, slaves, st) \<Rightarrow>
      if ret \<noteq> 0 then Some (ret, cb, st)
      else case master of None \<Rightarrow> None
      | Some master \<Rightarrow>
          (case nfb_boot_reload_prepare_remove env master st of (ret, st) \<Rightarrow>
           if ret \<noteq> 0 then Some (ret, cb, st)
           else
             let cb = (fst cb, nfb_boot_mtd_destroy core (snd cb)); st = event Detach st
             in case send_boot num_image cb of None \<Rightarrow> None
                | Some cb1 \<Rightarrow>
                    let st = event BootCommand st
                    in if is_m10 (fst cb) then
                         case nfb_boot_n5014_reload_rescan env master st of (ret, st) \<Rightarrow> Some (ret, cb1, st)
                       else
                         let st = fold (nfb_boot_reload_shutdown env) (master # slaves) st;
                             st = fold (nfb_boot_reload_linkup env) (master # slaves) st;
                             same = (\<lambda>i. rc_parent (re_cards st ! i) = rc_parent (re_cards st ! master))
                         in case rescan_pass env same slaves st of (slaves, st) \<Rightarrow>
                            case rescan_pass env (\<lambda>_. False) slaves st of (_, st) \<Rightarrow>
                              Some (0, cb1, snd (nfb_boot_reload_rescan env master st))))"

section \<open>A reload restores the ports\<close>

definition pview :: "pci_port \<Rightarrow> u16 \<times> u16 \<times> u32 option" where
  "pview p = (pp_command p, pp_devctl p, pp_aer_mask p)"

definition cview :: "nfb_pci_device \<Rightarrow> bool \<times> nat \<times> nat \<times> u16 \<times> u16 \<times> u32" where
  "cview c = (rc_main c, rc_port c, rc_parent c, rc_command c, rc_devctl c, rc_aer_mask c)"

lemma cviewD:
  "cview c = cview d \<Longrightarrow> rc_main c = rc_main d" "cview c = cview d \<Longrightarrow> rc_port c = rc_port d" "cview c = cview d \<Longrightarrow> rc_parent c = rc_parent d"
  "cview c = cview d \<Longrightarrow> rc_command c = rc_command d" "cview c = cview d \<Longrightarrow> rc_devctl c = rc_devctl d" "cview c = cview d \<Longrightarrow> rc_aer_mask c = rc_aer_mask d"
  by (simp_all add: cview_def)

text \<open>Steps that leave the saved values alone; \<open>quiet_ports\<close> leaves also the error registers alone.\<close>

definition same_cards :: "reload_state \<Rightarrow> reload_state \<Rightarrow> bool" where
  "same_cards st st' \<longleftrightarrow> map cview (re_cards st') = map cview (re_cards st)"

definition quiet_ports :: "reload_state \<Rightarrow> reload_state \<Rightarrow> bool" where
  "quiet_ports st st' \<longleftrightarrow> same_cards st st' \<and> (\<forall>b. pview (re_ports st' b) = pview (re_ports st b))"

lemma same_cards_length: "same_cards st st' \<Longrightarrow> length (re_cards st') = length (re_cards st)"
  unfolding same_cards_def by (drule arg_cong [of _ _ length]) simp

lemma same_cards_nth:
  assumes "same_cards st st'" and "i < length (re_cards st)"
  shows "cview (re_cards st' ! i) = cview (re_cards st ! i)"
proof -
  have "map cview (re_cards st') ! i = map cview (re_cards st) ! i" using assms(1) by (simp only: same_cards_def)
  then show ?thesis using assms(2) same_cards_length [OF assms(1)] by simp
qed

lemma same_cards_refl [simp]: "same_cards st st" by (simp add: same_cards_def)

lemma same_cards_trans: "same_cards a b \<Longrightarrow> same_cards b c \<Longrightarrow> same_cards a c" by (simp add: same_cards_def)

lemma quiet_ports_refl [simp]: "quiet_ports st st" by (simp add: quiet_ports_def)

lemma quiet_ports_trans: "quiet_ports a b \<Longrightarrow> quiet_ports b c \<Longrightarrow> quiet_ports a c"
  by (auto simp: quiet_ports_def intro: same_cards_trans)

lemma set_card_same:
  assumes "cview c = cview (re_cards st ! i)"
  shows "same_cards st (set_card i c st)"
  using assms by (cases "i < length (re_cards st)") (simp_all add: same_cards_def set_card_def map_update list_update_same_conv list_update_beyond)

lemma prepare_quiet: "nfb_boot_reload_prepare_remove env i st = (r, st') \<Longrightarrow> quiet_ports st st' \<and> re_log st' = re_log st"
  using set_card_same [of "(re_cards st ! i)\<lparr>rc_cap := ev_cap env (rc_port (re_cards st ! i))\<rparr>" st i]
  by (auto simp: nfb_boot_reload_prepare_remove_def Let_def quiet_ports_def cview_def set_card_def)

lemma shutdown_quiet: "quiet_ports st (nfb_boot_reload_shutdown env i st) \<and> re_log (nfb_boot_reload_shutdown env i st) = Remove i # re_log st"
  using set_card_same [of "(re_cards st ! i)\<lparr>rc_present := False\<rparr>" st i]
  by (auto simp: nfb_boot_reload_shutdown_def Let_def quiet_ports_def same_cards_def event_def set_port_def set_card_def cview_def pview_def)

lemma linkup_quiet: "quiet_ports st (nfb_boot_reload_linkup env i st) \<and> re_log (nfb_boot_reload_linkup env i st) = LinkUp i # re_log st"
  by (auto simp: nfb_boot_reload_linkup_def Let_def quiet_ports_def same_cards_def event_def set_port_def pview_def)

lemma fold_quiet:
  assumes "\<And>i st. quiet_ports st (f i st) \<and> re_log (f i st) = e i # re_log st"
  shows "quiet_ports st (fold f is st) \<and> re_log (fold f is st) = rev (map e is) @ re_log st"
proof (induction "is" arbitrary: st)
  case (Cons i "is")
  then show ?case using assms [of st i] quiet_ports_trans by auto
qed simp

lemma prepare_loop_quiet:
  assumes "prepare_loop env is m sl st = (r, m', sl', st')" and "\<forall>i \<in> set is. i < length (re_cards st)" and "r = 0"
  shows "quiet_ports st st' \<and> re_log st' = re_log st \<and> sl' = rev (filter (\<lambda>i. \<not> rc_main (re_cards st ! i)) is) @ sl \<and>
    m' = (if filter (\<lambda>i. rc_main (re_cards st ! i)) is = [] then m else Some (last (filter (\<lambda>i. rc_main (re_cards st ! i)) is)))"
  using assms
proof (induction "is" arbitrary: m sl st)
  case (Cons i "is")
  show ?case
  proof (cases "rc_main (re_cards st ! i)")
    case True
    then have "prepare_loop env is (Some i) sl st = (r, m', sl', st')" using Cons.prems(1) by simp
    from Cons.IH [OF this _ Cons.prems(3)] Cons.prems(2) True show ?thesis by (simp split: if_splits)
  next
    case False
    obtain r1 s1 where p: "nfb_boot_reload_prepare_remove env i st = (r1, s1)" by force
    note q = prepare_quiet [OF p]
    have same: "same_cards st s1" using q by (simp add: quiet_ports_def)
    have "r1 = 0" and rec: "prepare_loop env is m (i # sl) s1 = (r, m', sl', st')"
      using Cons.prems(1,3) False p by (auto split: if_splits)
    have mains: "rc_main (re_cards s1 ! j) = rc_main (re_cards st ! j)" if "j \<in> set is" for j
      by (rule cviewD(1) [OF same_cards_nth [OF same]]) (use that Cons.prems(2) in simp)
    have fl: "filter (\<lambda>i. P (rc_main (re_cards s1 ! i))) is = filter (\<lambda>i. P (rc_main (re_cards st ! i))) is" for P
      by (rule filter_cong) (simp_all add: mains)
    have b: "\<forall>i \<in> set is. i < length (re_cards s1)" using Cons.prems(2) same_cards_length [OF same] by simp
    note ih = Cons.IH [OF rec b Cons.prems(3), unfolded fl [of "\<lambda>b. b"] fl [of Not]]
    show ?thesis using ih q quiet_ports_trans [of st s1 st'] by (simp add: False)
  qed
qed simp

text \<open>The values that a rescan writes to the registers of a port.\<close>

definition restored :: "nfb_pci_device \<Rightarrow> u16 \<times> u16 \<times> u32 option \<Rightarrow> u16 \<times> u16 \<times> u32 option" where
  "restored c v = (rc_command c, rc_devctl c, map_option (\<lambda>_. rc_aer_mask c) (snd (snd v)))"

text \<open>The saved values of all endpoints are the ones of \<open>orig\<close>.\<close>

definition saves :: "(nat \<Rightarrow> u16 \<times> u16 \<times> u32 option) \<Rightarrow> reload_state \<Rightarrow> bool" where
  "saves orig st \<longleftrightarrow> (\<forall>i < length (re_cards st). restored (re_cards st ! i) (pview (re_ports st (rc_port (re_cards st ! i)))) = orig (rc_port (re_cards st ! i)))"

lemma saves_quiet:
  assumes "saves orig st" and "quiet_ports st st'"
  shows "saves orig st'"
proof -
  have same: "same_cards st st'" using assms(2) by (simp add: quiet_ports_def)
  have "restored (re_cards st' ! i) v = restored (re_cards st ! i) v" "rc_port (re_cards st' ! i) = rc_port (re_cards st ! i)"
    if "i < length (re_cards st)" for i v
    using cviewD [OF same_cards_nth [OF same that]] by (simp_all add: restored_def)
  then show ?thesis using assms same_cards_length [OF same] by (simp add: saves_def quiet_ports_def)
qed

lemma rescan_step:
  assumes "saves orig st" and "i < length (re_cards st)" and "ev_back env i" and "nfb_boot_reload_rescan env i st = (r, st')"
  shows "r = 0 \<and> saves orig st' \<and> same_cards st st' \<and> re_log st' = Rescan i # re_log st \<and>
    (\<forall>b. pview (re_ports st' b) = (if b = rc_port (re_cards st ! i) then orig b else pview (re_ports st b)))"
proof -
  let ?c = "re_cards st ! i"
  let ?q = "(restore_port ?c (re_ports st (rc_port ?c)))\<lparr>pp_aer_mask := map_option (\<lambda>_. rc_aer_mask ?c) (pp_aer_mask (re_ports st (rc_port ?c)))\<rparr>"
  have st': "r = 0" "st' = set_card i (?c\<lparr>rc_present := True\<rparr>) (set_port (rc_port ?c) ?q (event (Rescan i) st))"
    using assms(3,4) by (simp_all add: nfb_boot_reload_rescan_def Let_def event_def)
  have "same_cards (set_port (rc_port ?c) ?q (event (Rescan i) st)) st'"
    unfolding st'(2) by (rule set_card_same) (simp add: set_port_def event_def cview_def)
  then have same: "same_cards st st'" by (simp add: same_cards_def set_port_def event_def)
  have "pview ?q = restored ?c (pview (re_ports st (rc_port ?c)))" by (simp add: pview_def restored_def restore_port_def)
  also have "\<dots> = orig (rc_port ?c)" using assms(1,2) by (simp add: saves_def)
  finally have pv: "pview (re_ports st' b) = (if b = rc_port ?c then orig b else pview (re_ports st b))" for b
    by (simp add: st'(2) set_card_def set_port_def event_def)
  have shape: "map_option (\<lambda>_. x) (snd (snd (pview (re_ports st' b)))) = map_option (\<lambda>_. x) (snd (snd (pview (re_ports st b))))" for x b
    by (auto simp: st'(2) set_card_def set_port_def event_def pview_def restore_port_def option.map_comp comp_def)
  have "restored (re_cards st' ! j) (pview (re_ports st' (rc_port (re_cards st' ! j)))) = orig (rc_port (re_cards st' ! j))"
    if "j < length (re_cards st)" for j
  proof -
    have "restored (re_cards st' ! j) (pview (re_ports st' b)) = restored (re_cards st ! j) (pview (re_ports st b))" for b
      unfolding restored_def cviewD(4-6) [OF same_cards_nth [OF same that]] shape ..
    then show ?thesis using assms(1) that unfolding saves_def cviewD(2) [OF same_cards_nth [OF same that]] by simp
  qed
  then have "saves orig st'" using same_cards_length [OF same] by (simp add: saves_def)
  with st'(1) same pv show ?thesis by (simp add: st'(2) set_card_def set_port_def event_def)
qed

lemma rescan_pass_step:
  assumes "rescan_pass env skip is st = (rest, st')" and "saves orig st" and "\<forall>i \<in> set is. i < length (re_cards st) \<and> ev_back env i"
  shows "rest = filter skip is \<and> saves orig st' \<and> same_cards st st' \<and> re_log st' = rev (map Rescan (filter (\<lambda>i. \<not> skip i) is)) @ re_log st \<and>
    (\<forall>b. pview (re_ports st' b) = (if \<exists>i \<in> set is. \<not> skip i \<and> b = rc_port (re_cards st ! i) then orig b else pview (re_ports st b)))"
  using assms
proof (induction "is" arbitrary: st rest)
  case (Cons i "is")
  show ?case
  proof (cases "skip i")
    case True
    then obtain rest1 where "rescan_pass env skip is st = (rest1, st')" "rest = i # rest1"
      using Cons.prems(1) by (auto split: prod.splits)
    with Cons.IH [OF this(1) Cons.prems(2)] Cons.prems(3) True show ?thesis by simp
  next
    case False
    obtain r s1 where s1: "nfb_boot_reload_rescan env i st = (r, s1)" by force
    have i: "i < length (re_cards st)" "ev_back env i" using Cons.prems(3) by simp_all
    note q = rescan_step [OF Cons.prems(2) i s1]
    have same: "same_cards st s1" using q by simp
    have rec: "rescan_pass env skip is s1 = (rest, st')" using Cons.prems(1) False s1 by simp
    have b: "\<forall>i \<in> set is. i < length (re_cards s1) \<and> ev_back env i" using Cons.prems(3) same_cards_length [OF same] by simp
    have pt: "rc_port (re_cards s1 ! j) = rc_port (re_cards st ! j)" if "j \<in> set is" for j
      by (rule cviewD(2) [OF same_cards_nth [OF same]]) (use that Cons.prems(3) in simp)
    note ih = Cons.IH [OF rec _ b]
    have "pview (re_ports st' c) = (if \<exists>j \<in> set (i # is). \<not> skip j \<and> c = rc_port (re_cards st ! j) then orig c else pview (re_ports st c))" for c
      using ih q False by (simp add: pt cong: bex_cong) blast
    then show ?thesis using ih q False same_cards_trans [OF same] by simp
  qed
qed simp

section \<open>Disabling the errors\<close>

definition disabled :: "pci_port \<Rightarrow> pci_port" where
  "disabled p =
     (let q = p\<lparr>pp_command := pp_command p AND NOT PCI_COMMAND_SERR, pp_devctl := pp_devctl p AND NOT (PCI_EXP_DEVCTL_NFERE OR PCI_EXP_DEVCTL_FERE)\<rparr>
      in case pp_aer_mask p of None \<Rightarrow> q | Some m \<Rightarrow> q\<lparr>pp_aer_mask := Some (m OR PCI_ERR_UNC_SURPDN)\<rparr>)"

definition saved :: "pci_port \<Rightarrow> nfb_pci_device \<Rightarrow> nfb_pci_device" where
  "saved p c =
     (let d = c\<lparr>rc_command := pp_command p, rc_devctl := pp_devctl p\<rparr> in case pp_aer_mask p of None \<Rightarrow> d | Some m \<Rightarrow> d\<lparr>rc_aer_mask := m\<rparr>)"

lemma saved_fields [simp]: "rc_port (saved p c) = rc_port c" "rc_main (saved p c) = rc_main c"
  by (simp_all add: saved_def Let_def split: option.split)

lemma errors_disable_eq:
  "nfb_pci_errors_disable env False i st =
     (0, set_card i (saved (re_ports st (rc_port (re_cards st ! i))) (re_cards st ! i))
        (set_port (rc_port (re_cards st ! i)) (disabled (re_ports st (rc_port (re_cards st ! i)))) st))"
  by (cases "pp_aer_mask (re_ports st (rc_port (re_cards st ! i)))")
     (simp_all add: nfb_pci_errors_disable_def Let_def saved_def disabled_def)

lemma saved_restores: "restored (saved p c) (pview (disabled p)) = pview p"
  by (cases "pp_aer_mask p") (simp_all add: restored_def saved_def pview_def disabled_def Let_def)

text \<open>The state after the endpoints of a list: they have the values that their ports had.\<close>

lemma errors_disable_loop_saves:
  assumes "errors_disable_loop env False is st = (r, st')" and "distinct is" and "\<forall>i \<in> set is. i < length (re_cards st)"
    and "distinct (map rc_port (re_cards st))"
  shows "r = 0 \<and> map rc_port (re_cards st') = map rc_port (re_cards st) \<and> map rc_main (re_cards st') = map rc_main (re_cards st) \<and>
    (\<forall>i < length (re_cards st). if i \<in> set is
       then re_cards st' ! i = saved (re_ports st (rc_port (re_cards st ! i))) (re_cards st ! i) \<and>
            re_ports st' (rc_port (re_cards st ! i)) = disabled (re_ports st (rc_port (re_cards st ! i)))
       else re_cards st' ! i = re_cards st ! i \<and> re_ports st' (rc_port (re_cards st ! i)) = re_ports st (rc_port (re_cards st ! i)))"
  using assms
proof (induction "is" arbitrary: st)
  case (Cons i "is")
  let ?c = "re_cards st ! i"
  define s1 where "s1 = set_card i (saved (re_ports st (rc_port ?c)) ?c) (set_port (rc_port ?c) (disabled (re_ports st (rc_port ?c))) st)"
  have i: "i < length (re_cards st)" "i \<notin> set is" using Cons.prems(2,3) by auto
  have rec: "errors_disable_loop env False is s1 = (r, st')" using Cons.prems(1) by (simp add: errors_disable_eq s1_def)
  have len: "length (re_cards s1) = length (re_cards st)" by (simp add: s1_def set_card_def set_port_def)
  have cards: "re_cards s1 ! j = (if j = i then saved (re_ports st (rc_port ?c)) ?c else re_cards st ! j)" if "j < length (re_cards st)" for j
    using that by (simp add: s1_def set_card_def set_port_def nth_list_update)
  have views: "map rc_port (re_cards s1) = map rc_port (re_cards st)" "map rc_main (re_cards s1) = map rc_main (re_cards st)"
    by (rule nth_equalityI; simp add: len cards)+
  have ports: "re_ports s1 (rc_port (re_cards st ! j)) = (if j = i then disabled (re_ports st (rc_port ?c)) else re_ports st (rc_port (re_cards st ! j)))"
    if "j < length (re_cards st)" for j
    using that i(1) Cons.prems(4) by (auto simp: s1_def set_card_def set_port_def distinct_conv_nth)
  have pt: "rc_port (re_cards s1 ! j) = rc_port (re_cards st ! j)" if "j < length (re_cards st)" for j
    using that by (simp add: cards)
  note ih = Cons.IH [OF rec, unfolded views len]
  have "\<forall>j < length (re_cards st). if j \<in> set is
       then re_cards st' ! j = saved (re_ports s1 (rc_port (re_cards s1 ! j))) (re_cards s1 ! j) \<and>
            re_ports st' (rc_port (re_cards s1 ! j)) = disabled (re_ports s1 (rc_port (re_cards s1 ! j)))
       else re_cards st' ! j = re_cards s1 ! j \<and> re_ports st' (rc_port (re_cards s1 ! j)) = re_ports s1 (rc_port (re_cards s1 ! j))"
    using ih Cons.prems(2-4) by simp
  then have "if j \<in> set (i # is)
       then re_cards st' ! j = saved (re_ports st (rc_port (re_cards st ! j))) (re_cards st ! j) \<and>
            re_ports st' (rc_port (re_cards st ! j)) = disabled (re_ports st (rc_port (re_cards st ! j)))
       else re_cards st' ! j = re_cards st ! j \<and> re_ports st' (rc_port (re_cards st ! j)) = re_ports st (rc_port (re_cards st ! j))"
    if "j < length (re_cards st)" for j
    using that i(2) cards [OF that] ports [OF that] pt [OF that] by (cases "j = i") (auto split: if_splits)
  moreover have "r = 0 \<and> map rc_port (re_cards st') = map rc_port (re_cards st) \<and> map rc_main (re_cards st') = map rc_main (re_cards st)"
    using ih Cons.prems(2-4) by simp
  ultimately show ?case by blast
qed simp

lemma error_disable_saves:
  assumes "nfb_boot_ioctl_error_disable env False st = (r, st')" and "distinct (map rc_port (re_cards st))"
  shows "r = 0 \<and> map rc_port (re_cards st') = map rc_port (re_cards st) \<and> map rc_main (re_cards st') = map rc_main (re_cards st) \<and>
    saves (\<lambda>b. pview (re_ports st b)) st' \<and> (\<forall>c \<in> set (re_cards st). re_ports st' (rc_port c) = disabled (re_ports st (rc_port c)))"
proof -
  note l = errors_disable_loop_saves [OF assms(1) [unfolded nfb_boot_ioctl_error_disable_def] distinct_upt _ assms(2)]
  have len: "length (re_cards st') = length (re_cards st)" using l arg_cong [of _ _ length] by (metis length_map set_upt atLeastLessThan_iff)
  have "rc_port (re_cards st' ! i) = rc_port (re_cards st ! i)" if "i < length (re_cards st)" for i
    using l that by simp
  then have "saves (\<lambda>b. pview (re_ports st b)) st'" using l len by (simp add: saves_def saved_restores)
  with l show ?thesis by (auto simp: in_set_conv_nth)
qed

section \<open>The order of a reload\<close>

lemma reload_run:
  assumes "nfb_boot_reload core env img cb st = Some (0, cb', st')" and "\<not> is_m10 (fst cb)" and "saves orig st"
    and "\<forall>i < length (re_cards st). ev_back env i" and "filter (\<lambda>i. rc_main (re_cards st ! i)) [0..<length (re_cards st)] = [m]"
  defines "slaves \<equiv> rev (filter (\<lambda>i. \<not> rc_main (re_cards st ! i)) [0..<length (re_cards st)])"
  shows "\<exists>order. mset order = mset slaves \<and>
    re_log st' = rev ([Detach, BootCommand] @ map Remove (m # slaves) @ map LinkUp (m # slaves) @ map Rescan (order @ [m])) @ re_log st \<and>
    (\<forall>i \<in> set (m # slaves). pview (re_ports st' (rc_port (re_cards st ! i))) = orig (rc_port (re_cards st ! i)))"
proof -
  let ?n = "length (re_cards st)"
  have m: "m < ?n" using arg_cong [OF assms(5), of set] by auto
  obtain r1 mm sl s1 where p: "prepare_loop env [0..<?n] None [] st = (r1, mm, sl, s1)" by (rule prod_cases4)
  obtain r2 s2 where p2: "nfb_boot_reload_prepare_remove env m s1 = (r2, s2)" by force
  have r1: "r1 = 0"
    using assms(1) by (auto simp: nfb_boot_reload_def p split: if_splits)
  have up: "\<forall>i \<in> set [0..<?n]. i < ?n" by simp
  note q1 = prepare_loop_quiet [OF p up r1]
  have mm: "mm = Some m" and sl: "sl = slaves" using q1 assms(5) by (auto simp: slaves_def)
  note q2 = prepare_quiet [OF p2]
  define s3 where "s3 = event BootCommand (event Detach s2)"
  define s4 where "s4 = fold (nfb_boot_reload_linkup env) (m # slaves) (fold (nfb_boot_reload_shutdown env) (m # slaves) s3)"
  have s4: "fold (nfb_boot_reload_linkup env) slaves (nfb_boot_reload_linkup env m (fold (nfb_boot_reload_shutdown env) slaves (nfb_boot_reload_shutdown env m s3))) = s4"
    by (simp add: s4_def)
  define same where "same = (\<lambda>i. rc_parent (re_cards s4 ! i) = rc_parent (re_cards s4 ! m))"
  obtain rest s5 where s5: "rescan_pass env same slaves s4 = (rest, s5)" by force
  obtain rest2 s6 where s6: "rescan_pass env (\<lambda>_. False) rest s5 = (rest2, s6)" by force
  obtain r7 s7 where s7: "nfb_boot_reload_rescan env m s6 = (r7, s7)" by force
  have st': "st' = s7"
    using assms(1,2) unfolding nfb_boot_reload_def p p2 r1 mm sl prod.case option.case Let_def fst_conv
    by (simp add: p2 s4 s5 s6 s7 flip: s3_def same_def split: if_splits option.splits)
  have q3: "quiet_ports s2 s3" by (simp add: s3_def event_def quiet_ports_def same_cards_def)
  note sh = fold_quiet [of "nfb_boot_reload_shutdown env" Remove, OF shutdown_quiet, of s3 "m # slaves"]
  note lu = fold_quiet [of "nfb_boot_reload_linkup env" LinkUp, OF linkup_quiet, of "fold (nfb_boot_reload_shutdown env) (m # slaves) s3" "m # slaves"]
  have q4: "quiet_ports st s4"
    unfolding s4_def
    by (rule quiet_ports_trans [OF conjunct1 [OF q1] quiet_ports_trans [OF conjunct1 [OF q2] quiet_ports_trans [OF q3 quiet_ports_trans [OF conjunct1 [OF sh] conjunct1 [OF lu]]]]])
  have log4: "re_log s4 = rev ([Detach, BootCommand] @ map Remove (m # slaves) @ map LinkUp (m # slaves)) @ re_log st"
    unfolding s4_def using q1 q2 sh lu by (simp add: s3_def event_def)
  have same4: "same_cards st s4" using q4 by (simp add: quiet_ports_def)
  have len4: "length (re_cards s4) = ?n" by (rule same_cards_length [OF same4])
  have in_slaves: "i < ?n \<and> ev_back env i" if "i \<in> set slaves" for i using that assms(4) by (auto simp: slaves_def)
  note t5 = rescan_pass_step [OF s5 saves_quiet [OF assms(3) q4]]
  have t5: "rest = filter same slaves" "saves orig s5" "same_cards s4 s5"
    "re_log s5 = rev (map Rescan (filter (\<lambda>i. \<not> same i) slaves)) @ re_log s4"
    "\<And>b. pview (re_ports s5 b) = (if \<exists>i \<in> set slaves. \<not> same i \<and> b = rc_port (re_cards s4 ! i) then orig b else pview (re_ports s4 b))"
    using t5 in_slaves len4 by simp_all
  have len5: "length (re_cards s5) = ?n" using same_cards_length [OF t5(3)] len4 by simp
  note t6 = rescan_pass_step [OF s6 t5(2)]
  have t6: "saves orig s6" "same_cards s5 s6" "re_log s6 = rev (map Rescan (filter same slaves)) @ re_log s5"
    "\<And>b. pview (re_ports s6 b) = (if \<exists>i \<in> set rest. b = rc_port (re_cards s5 ! i) then orig b else pview (re_ports s5 b))"
    using t6 in_slaves len5 t5(1) by simp_all
  have len6: "length (re_cards s6) = ?n" using same_cards_length [OF t6(2)] len5 by simp
  have t7: "re_log st' = Rescan m # re_log s6" "\<And>b. pview (re_ports st' b) = (if b = rc_port (re_cards s6 ! m) then orig b else pview (re_ports s6 b))"
    using rescan_step [OF t6(1) _ _ s7] m len6 assms(4) by (simp_all add: st')
  have pt: "rc_port (re_cards s4 ! i) = rc_port (re_cards st ! i)" "rc_port (re_cards s5 ! i) = rc_port (re_cards st ! i)"
    "rc_port (re_cards s6 ! i) = rc_port (re_cards st ! i)" if "i < ?n" for i
    using cviewD(2) [OF same_cards_nth [OF same4 that]] cviewD(2) [OF same_cards_nth [OF t5(3)], of i]
      cviewD(2) [OF same_cards_nth [OF t6(2)], of i] that len4 len5 by simp_all
  have "pview (re_ports st' (rc_port (re_cards st ! i))) = orig (rc_port (re_cards st ! i))" if "i \<in> set (m # slaves)" for i
  proof -
    have "i < ?n" using that m in_slaves by auto
    moreover have "i = m \<or> (i \<in> set slaves \<and> (same i \<longrightarrow> i \<in> set rest))" using that t5(1) by auto
    ultimately show ?thesis using t7(2) t6(4) t5(5) pt [of i] pt [of m] m by auto
  qed
  moreover have "mset (filter (\<lambda>i. \<not> same i) slaves @ filter same slaves) = mset slaves" by (simp add: mset_filter)
  moreover have "re_log st' = rev ([Detach, BootCommand] @ map Remove (m # slaves) @ map LinkUp (m # slaves) @
      map Rescan ((filter (\<lambda>i. \<not> same i) slaves @ filter same slaves) @ [m])) @ re_log st"
    by (simp add: t7(1) t6(3) t5(4) log4)
  ultimately show ?thesis by blast
qed

lemma one_main:
  assumes "length (filter rc_main cs) = 1"
  obtains m where "filter (\<lambda>i. rc_main (cs ! i)) [0..<length cs] = [m]"
proof -
  have "map ((!) cs) (filter (rc_main \<circ> (!) cs) [0..<length cs]) = filter rc_main cs" by (simp add: map_nth flip: filter_map)
  then have "length (filter (rc_main \<circ> (!) cs) [0..<length cs]) = 1" using assms by (metis length_map)
  then show thesis using that by (auto simp: comp_def length_Suc_conv)
qed

text \<open>The helper of both claims below: a reload after the errors were disabled.\<close>

lemma reload_after_disable:
  assumes "distinct (map rc_port (re_cards st))" and "length (filter rc_main (re_cards st)) = 1" and "\<forall>i < length (re_cards st). ev_back env i"
    and "nfb_boot_ioctl_error_disable env False st = (r, st1)" and "nfb_boot_reload core env img cb st1 = Some (0, cb', st2)" and "\<not> is_m10 (fst cb)"
  shows "\<exists>m slaves order. mset (m # slaves) = mset [0..<length (re_cards st)] \<and> mset order = mset slaves \<and> rc_main (re_cards st ! m) \<and>
    re_log st2 = rev ([Detach, BootCommand] @ map Remove (m # slaves) @ map LinkUp (m # slaves) @ map Rescan (order @ [m])) @ re_log st1 \<and>
    (\<forall>c \<in> set (re_cards st). pview (re_ports st2 (rc_port c)) = pview (re_ports st (rc_port c)))"
proof -
  note d = error_disable_saves [OF assms(4,1)]
  let ?n = "length (re_cards st)"
  have len: "length (re_cards st1) = ?n" using d arg_cong [of _ _ length] by (metis length_map)
  have mains: "rc_main (re_cards st1 ! i) = rc_main (re_cards st ! i)" "rc_port (re_cards st1 ! i) = rc_port (re_cards st ! i)" if "i < ?n" for i
    using d that len arg_cong [of _ _ "\<lambda>xs. xs ! i"] by (metis nth_map)+
  obtain m where m: "filter (\<lambda>i. rc_main (re_cards st ! i)) [0..<?n] = [m]" using one_main [OF assms(2)] .
  have fl: "filter (\<lambda>i. P (rc_main (re_cards st1 ! i))) [0..<?n] = filter (\<lambda>i. P (rc_main (re_cards st ! i))) [0..<?n]" for P
    by (rule filter_cong) (simp_all add: mains)
  define slaves where "slaves = rev (filter (\<lambda>i. \<not> rc_main (re_cards st ! i)) [0..<?n])"
  have "saves (\<lambda>b. pview (re_ports st b)) st1" using d by simp
  from reload_run [OF assms(5,6) this, unfolded len, of m] assms(3) fl [of "\<lambda>b. b"] fl [of Not] m
  obtain order where o: "mset order = mset slaves"
    "re_log st2 = rev ([Detach, BootCommand] @ map Remove (m # slaves) @ map LinkUp (m # slaves) @ map Rescan (order @ [m])) @ re_log st1"
    "\<forall>i \<in> set (m # slaves). pview (re_ports st2 (rc_port (re_cards st1 ! i))) = pview (re_ports st (rc_port (re_cards st1 ! i)))"
    by (auto simp: slaves_def)
  have "mset (m # slaves) = mset (filter (\<lambda>i. rc_main (re_cards st ! i)) [0..<?n]) + mset (filter (\<lambda>i. \<not> rc_main (re_cards st ! i)) [0..<?n])"
    by (simp add: m slaves_def)
  then have all: "mset (m # slaves) = mset [0..<?n]" by (simp only: mset_filter flip: multiset_partition)
  have sets: "set (m # slaves) = {0..<?n}" using arg_cong [OF all, of set_mset] by simp
  have "rc_main (re_cards st ! m)" using arg_cong [OF m, of set] by auto
  moreover have "\<forall>c \<in> set (re_cards st). pview (re_ports st2 (rc_port c)) = pview (re_ports st (rc_port c))"
  proof
    fix c assume "c \<in> set (re_cards st)"
    then obtain i where i: "i < ?n" "re_cards st ! i = c" by (auto simp: in_set_conv_nth)
    then show "pview (re_ports st2 (rc_port c)) = pview (re_ports st (rc_port c))"
      using bspec [OF o(3) [unfolded sets], of i] mains(2) [OF i(1)] by simp
  qed
  ultimately show ?thesis using all o(1,2) by blast
qed


definition example_endpoint :: "bool \<Rightarrow> nat \<Rightarrow> nfb_pci_device" where
  "example_endpoint main port = \<lparr>rc_main = main, rc_port = port, rc_parent = 7, rc_cap = False, rc_present = True, rc_command = 0, rc_devctl = 0, rc_aer_mask = 0, rc_root_cmd = 0\<rparr>"

definition example_reload :: reload_state where
  "example_reload = \<lparr>re_ports = (\<lambda>_. \<lparr>pp_command = 0x146, pp_devctl = 0x2F, pp_lnkctl = 0, pp_aer_mask = Some 0, pp_root_cmd = None\<rparr>),
     re_cards = [example_endpoint True 0, example_endpoint False 1], re_log = []\<rparr>"

definition example_reload_env :: reload_env where
  "example_reload_env = \<lparr>ev_root = (\<lambda>_. None), ev_cap = (\<lambda>_. True), ev_back = (\<lambda>_. True), ev_linkdown = False\<rparr>"

lemmas example_reload_defs = example_reload_def example_reload_env_def example_endpoint_def nfb_boot_reload_def nfb_boot_reload_prepare_remove_def
  nfb_boot_reload_shutdown_def nfb_boot_reload_linkup_def nfb_boot_reload_rescan_def set_card_def set_port_def event_def send_boot_def is_m10_def
  nfb_boot_ioctl_error_disable_def errors_disable_eq Let_def

lemma example_reload_ends: "\<exists>cb' st2. nfb_boot_reload example_core example_reload_env 1 (NoBoot, example_boot) (snd (nfb_boot_ioctl_error_disable example_reload_env False example_reload)) = Some (0, cb', st2)"
  by (simp add: example_reload_defs)


text \<open>When the request that disables the errors is made twice before a reload, the second one saves the registers as the first one left them,
  and the reload leaves the report of system errors disabled on every port.\<close>

theorem errors_disabled_twice_lost:
  assumes "distinct (map rc_port (re_cards st))" and "length (filter rc_main (re_cards st)) = 1" and "\<forall>i < length (re_cards st). ev_back env i"
    and "nfb_boot_ioctl_error_disable env False st = (r, st1)" and "nfb_boot_ioctl_error_disable env False st1 = (r', st2)"
    and "nfb_boot_reload core env img cb st2 = Some (0, cb', st3)" and "\<not> is_m10 (fst cb)"
  shows "\<forall>c \<in> set (re_cards st). pp_command (re_ports st3 (rc_port c)) = pp_command (re_ports st (rc_port c)) AND NOT PCI_COMMAND_SERR"
proof -
  note d = error_disable_saves [OF assms(4,1)]
  have dist: "distinct (map rc_port (re_cards st1))" using d assms(1) by simp
  have len: "length (re_cards st1) = length (re_cards st)" using d arg_cong [of _ _ length] by (metis length_map)
  have "filter (\<lambda>b. b) (map rc_main (re_cards st1)) = filter (\<lambda>b. b) (map rc_main (re_cards st))" using d by simp
  then have one: "length (filter rc_main (re_cards st1)) = 1" using assms(2) arg_cong [of _ _ length] by (simp add: filter_map comp_def) (metis length_map)
  have bk: "\<forall>i < length (re_cards st1). ev_back env i" using assms(3) len by simp
  from reload_after_disable [OF dist one bk assms(5-7)]
  have "\<forall>c \<in> set (re_cards st1). pview (re_ports st3 (rc_port c)) = pview (re_ports st1 (rc_port c))" by blast
  then have "\<forall>p \<in> set (map rc_port (re_cards st1)). pview (re_ports st3 p) = pview (re_ports st1 p)" by simp
  then have "\<forall>c \<in> set (re_cards st). pview (re_ports st3 (rc_port c)) = pview (re_ports st1 (rc_port c))" using d by simp
  then show ?thesis using d by (auto simp: pview_def disabled_def Let_def split: option.splits)
qed

theorem errors_disabled_twice_lost_witness:
  "\<exists>cb' st3. nfb_boot_reload example_core example_reload_env 1 (NoBoot, example_boot)
       (snd (nfb_boot_ioctl_error_disable example_reload_env False (snd (nfb_boot_ioctl_error_disable example_reload_env False example_reload)))) = Some (0, cb', st3) \<and>
     pp_command (re_ports st3 0) = 0x046"
proof -
  let ?st2 = "snd (nfb_boot_ioctl_error_disable example_reload_env False (snd (nfb_boot_ioctl_error_disable example_reload_env False example_reload)))"
  have "\<exists>cb' st3. nfb_boot_reload example_core example_reload_env 1 (NoBoot, example_boot) ?st2 = Some (0, cb', st3)"
    by (simp add: example_reload_defs)
  then obtain cb' st3 where r: "nfb_boot_reload example_core example_reload_env 1 (NoBoot, example_boot) ?st2 = Some (0, cb', st3)" by blast
  have "\<not> is_m10 (fst (NoBoot, example_boot))" by (simp add: is_m10_def)
  from errors_disabled_twice_lost [OF _ _ _ prod.collapse [symmetric] prod.collapse [symmetric] r this] r show ?thesis
    by (simp add: example_reload_def example_endpoint_def example_reload_env_def PCI_COMMAND_SERR_def)
qed

end
