(* ===== verification/Spec2Isabelle.thy ===== *)
theory Spec2Isabelle
  imports Prelude Lock CharDev Kernel NdpTypes Channel Subscription Ring Comp SzeCtrl DmaCtrl NdpCtrl NdpWalk NdpPointers
    TxShare Driver Queue QueueV1 QueueV2 QueueV3 QueueSys QueueOpen QueueLife
    RingView XdpTx XdpRun XdpRx XdpPoll XdpChannel XdpEthdev FwFiles FwMcs BootFlash Sdm BwBmc BwSlots Boot
begin

text \<open>
  A verification library for the NDK software framework: the Linux driver \<open>nfb\<close> of the FPGA cards
  (\<open>src/drivers/kernel/drivers/nfb\<close>) and the user-space library \<open>libnfb\<close> (\<open>src/libnfb\<close>).

  \<^bold>\<open>The program.\<close>  An FPGA card exposes components with registers and DMA controllers.  The driver gives
  applications a character device with which they lock components, map memory and subscribe to NDP
  channels.  A channel is one queue of one DMA controller with a ring of memory that the application maps;
  several applications may subscribe to one channel.  The library reads and writes packets in the mapped
  ring and tells the driver how far it got with the \<open>ioctl\<close> for synchronisation; the driver passes the
  pointers on to the controller.

  \<^bold>\<open>Theories and sources.\<close>
  \<^item> \<open>Prelude\<close>: machine integers, masks, lists; facts that all components share.
  \<^item> \<open>Lock\<close>: the table of component locks, \<open>lock.c\<close> with \<open>struct nfb_lock_item\<close> of \<open>nfb.h\<close>; every \<open>nfb_lock_*\<close>
    operation.  The list of lock items is the state, an application a number.
  \<^item> \<open>CharDev\<close>: \<open>char.c\<close>: registry of mappable areas, \<open>mmap\<close>, open, release, seek and read.
  \<^item> \<open>Kernel\<close>: what the driver uses of the kernel: an allocator of DMA memory that may fail, virtual
    mappings, the registry of \<open>CharDev\<close>, held resources as multisets.
  \<^item> \<open>NdpTypes\<close>, \<open>Channel\<close>, \<open>Subscription\<close>: \<open>ndp/ndp.h\<close>, \<open>ndp/channel.c\<close>, \<open>ndp/subscription.c\<close>, \<open>ndp/subscriber.c\<close>,
    \<open>ndp/char.c\<close>.  The state \<open>ndp\<close> holds the channels, the subscriptions and the open files; the table of
    operations of a controller is a record, as in the code, and what the generic code relies on of it is
    the locale \<open>channel_ctrl\<close>.  \<open>Subscription\<close> has the step relation of one device with all its operations
    and reachability.
  \<^item> \<open>TxShare\<close>: how several subscriptions share one transmit channel.
  \<^item> \<open>Ring\<close>: \<open>ndp/ring.c\<close>: block sizes, allocation, page tables, mapping, resizing.  The attach and
    detach of a controller is the locale \<open>ring_ctrl\<close>.
  \<^item> \<open>Comp\<close>: access to components and their locks, \<open>bus.c\<close> and the accessors of \<open>nfb.h\<close>.
  \<^item> \<open>SzeCtrl\<close>: \<open>ndp/ctrl.c\<close>, controllers of the first generation.
  \<^item> \<open>DmaCtrl\<close>: \<open>netcope/dma_ctrl_ndp.h\<close>, registers and descriptors of the newer controllers.
  \<^item> \<open>NdpCtrl\<close>, \<open>NdpWalk\<close>, \<open>NdpPointers\<close>: \<open>ndp/ctrl_ndp.c\<close>, the Medusa and Calypte controllers; the walk of the packet
    buffers through the ring blocks; the pointers of both directions.
  \<^item> \<open>Driver\<close>: \<open>ndp/driver.c\<close> and the tables of operations of all controllers: \<open>any_ctrl\<close> is the sum of the
    controller states, \<open>ndp_driver_ops\<close> calls the table of the controller at hand, and the interpretation
    \<open>driver\<close> shows that every mixture keeps the contract \<open>channel_ctrl\<close>.
  \<^item> \<open>Queue\<close>, \<open>QueueV1\<close>, \<open>QueueV2\<close>, \<open>QueueV3\<close>: \<open>ndp_priv.h\<close>, \<open>ndp_base.h\<close>, \<open>ndp_rx.h\<close>, \<open>ndp_tx.h\<close> of \<open>libnfb\<close>, the queues of the
    three protocols in the variant for user space.  What a receiving queue relies on of the driver is the
    locale \<open>rx_sys\<close>.
  \<^item> \<open>QueueSys\<close>: the queues on top of the driver; \<open>driver_rx\<close> interprets \<open>rx_sys\<close> by the \<open>ioctl\<close> of the device.
  \<^item> \<open>QueueOpen\<close>, \<open>QueueLife\<close>: \<open>ndp.h\<close>, \<open>ndp_core.h\<close>, \<open>ndp_calypte.h\<close> and the rest of \<open>ndp_base.h\<close>: opening, starting, stopping and closing
    of queues, the list of queues of a device, and the copying burst.  What opening relies on of the
    driver is the locale \<open>queue_subscribe\<close>, interpreted as \<open>driver_open\<close>.
  \<^item> \<open>RingView\<close>: an array with two masked pointers seen as a queue.
  \<^item> \<open>XdpTx\<close>, \<open>XdpRun\<close>: transmission of the XDP driver, \<open>xdp/ctrl_xdp_common.h\<close> and the sending functions of \<open>xdp/ctrl_xdp_common.c\<close>,
    \<open>xdp/ctrl_xdp_pp.c\<close> and \<open>xdp/ctrl_xdp_xsk.c\<close>; \<open>xtx_run\<close> are all runs of a transmit ring.  \<open>xworld\<close> records what was mapped, freed and
    returned.  What the ways to send share is the locale \<open>xtx_source\<close>.
  \<^item> \<open>XdpRx\<close>, \<open>XdpPoll\<close>: refill, reception and polling of both modes; the locale \<open>rx_filler\<close> has the contract of a refill.
  \<^item> \<open>XdpChannel\<close>: allocation and release of controllers, start and stop of channels, \<open>xdp/channel.c\<close>, and the change between the modes.
  \<^item> \<open>XdpEthdev\<close>: network devices and the command file, \<open>xdp/ethdev.c\<close>, \<open>xdp/driver.c\<close>, \<open>xdp/sysfs.c\<close>; \<open>xm_run\<close> are all runs of the module.
  \<^item> \<open>FwFiles\<close>, \<open>FwMcs\<close>: the readers of firmware files of \<open>libnfb/src/boot\<close>: the reversal of bits, the formats RPD, BIT, RBF and MCS, and the
    choice between them.  Files are lists of bytes, and memory that was not written is an argument.
  \<^item> \<open>BootFlash\<close>: \<open>boot/flash.c\<close>: parallel and serial flash chips, the flash devices with their allocations, the requests to read, write and erase.  The
    MTD subsystem is the parameter \<open>mtd_core\<close>.
  \<^item> \<open>Sdm\<close>: \<open>boot/sdm.c\<close>, the mailbox of the Secure Device Manager: sending, receiving, sessions on the flash, temperature and image update.
  \<^item> \<open>BwBmc\<close>: \<open>netcope/bittware_bmc_spi.h\<close>, the protocol of the board controller of BittWare cards.
  \<^item> \<open>BwSlots\<close>: \<open>boot/bw-bmc.c\<close>, the table of images of these cards, the slots that are made from it, and requests to load, erase and select images.
  \<^item> \<open>Boot\<close>: \<open>boot/boot.c\<close>, \<open>boot/gecko.c\<close>, \<open>boot/reload.c\<close>: identification of cards, the copy of load requests from the user, and the reload of the
    firmware with the registers of the PCIe ports.

  \<^bold>\<open>What the lemmas show.\<close>
  \<^item> Locks: mutual exclusion over all interleavings, a refinement of the set of held bits, and the limits
    of the 32-bit store.
  \<^item> Character device: areas stay sorted and disjoint, a mapping reaches its owner alone, registration
    round trips, slices of the device tree, and the error path of open.
  \<^item> Channels: for every run of the \<open>ioctl\<close> operations by any number of files the bookkeeping is exact, closing a file
    releases exactly its subscriptions, the pointer given to a receive controller is that of the slowest
    reader, and at most one writer has a window.
  \<^item> Rings: double mapping, exact sizes, and no leaked resource on the first generation.
  \<^item> Controllers: descriptors name exactly the buffers, buffers never overlap, no descriptor in use is
    overwritten, free space is exact, component locks are held exactly while running.
  \<^item> Queues: through both layers packets arrive in order, complete, and not before the hardware wrote
    them; the unbounded search in the ring ends.
  \<^item> Opening and closing: an opened queue is complete and accounts for exactly its resources whichever
    calls fail; the table of operations agrees with the protocol; closing leaves the header mappings.
  \<^item> XDP: the transmit ring releases everything exactly once and drains, reclaiming never faults and implements a queue, a poll
    loses no page, refilling ends, failed starts in AF\_XDP mode give everything back, devices never share queues.
  \<^item> Firmware files: the table of reversed bits is right, MCS and RBF files are read back exactly, and where the readers lose data.
  \<^item> Flash and mailbox: every command reaches the chip it was meant for, different words have different addresses, devices are released once; no
    word is sent without room in the FIFO, responses are received intact however slowly they arrive, a session holds the lock exactly while it lasts.
  \<^item> Board controller: a successful load sent exactly the image; the slots describe the flash without overlap, and a load never gets the
    space of another image.
  \<^item> Boot: a load request stays in its buffer unless its sizes overflow; a reload treats every endpoint once, in the order that
    the channels need, and restores the error registers.
  \<^item> Error behaviour: properties of the kind \<open>error\<close> state what the code does on paths where its result
    is not what its interface promises.

  \<^bold>\<open>Conventions.\<close>  Integers have their C width (\<open>u8\<close> to \<open>u64\<close>), except counters and indices that a lemma
  keeps in range.  Error codes are the negative numbers of the code.  Locks of the kernel are left out:
  every operation runs under the mutex of its object, so operations are atomic steps.  Hardware is an
  argument: register reads and update buffers are functions or lists of answers, and the step relations
  let the hardware change the controllers at any time.
  Loops with a bound recurse on it.  Loops without a bound in the code are partial functions with values
  in \<open>option\<close>, and None is not returning: the walk of the Medusa request, the stop of a controller with its
  answers as argument, the repeated stop of a queue, the search \<open>uspace_scan\<close> and the wait for room of a
  transmitting Calypte queue; where the code relies on them to end this is proved
  (\<open>medusa_request_returns\<close>, \<open>queue_v3_scan_ends\<close>).  The loop that reclaims transmit buffers and the refill loop of the XDP driver recurse on a bound of ring size
  plus one; running out of it is the value \<open>XHung\<close>, and \<open>xtx_reclaim_safe\<close> and \<open>xdp_refill_ends\<close> show that it does not happen.  The
  collection of the buffers of a packet recurses on its length.

  The wait for the fill level of the mailbox and the download from the board controller have no bound either; \<open>sdm_response_intact\<close> shows that the first
  ends for a mailbox that serves its response.

  \<^bold>\<open>Not modelled.\<close>  PCI probing, the attach functions and the registration with the kernel: sequences of kernel and device tree
  calls whose effect is outside of the program.  The network devices, the threads that schedule XDP polls and the \<open>sysfs\<close> files that only
  print: glue to the kernel.  The Intel controllers PMCI and MAX10: clients of kernel subsystems that are not in the repository.  The headers for MDIO, I2C, MAC
  and sensors: single register accesses, for which the accessors of \<open>Comp\<close> say what there is to say.  The writing of images of
  \<open>libnfb/src/boot\<close>, which calls the requests of \<open>BootFlash\<close> and \<open>Boot\<close>, and the command line tools, which parse
  arguments and print.  The device tree library, the kernel and the hardware are parameters.
\<close>

end
